(* ===== verification/Prelude.thy ===== *)
theory Prelude
  imports Main
begin

text \<open>
  Shared vocabulary of the development: the error values of the modelled C code, the
  result type, C integer ranges, C arrays with bounds and initialisation checks, counted
  loops, and the rules by which loops are verified.

  The model describes the build in which \<open>DBUG_ASSERT\<close> is active
  (\<open>src/libsac2c/support/debug.h\<close>): a failing assertion aborts the compiler and is the
  value \<open>AssertFail\<close>.  Undefined behaviour of C is a value as well
  (\<open>OutOfBounds\<close>, \<open>Uninitialised\<close>, \<open>IntOverflow\<close>, \<open>DivByZero\<close>, \<open>NullDeref\<close>), so a theorem
  that a function returns \<open>Inr\<close> says that it aborts nowhere and does nothing undefined.
\<close>

named_theorems cmem \<open>reading, writing and copying C arrays\<close>

subsection \<open>Errors and results\<close>

datatype cerr =
    AssertFail string
  | Unreachable string
  | CompilerAbort string
  | OutOfBounds
  | Uninitialised
  | NullDeref
  | IntOverflow
  | DivByZero
  | WrongType

type_synonym 'a cres = "cerr + 'a"

definition bindR :: "'a cres \<Rightarrow> ('a \<Rightarrow> 'b cres) \<Rightarrow> 'b cres" where
  "bindR m f = (case m of Inl e \<Rightarrow> Inl e | Inr x \<Rightarrow> f x)"

definition check :: "cerr \<Rightarrow> bool \<Rightarrow> 'a cres \<Rightarrow> 'a cres" where
  "check e b k = (if b then k else Inl e)"

abbreviation dbug_assert :: "string \<Rightarrow> bool \<Rightarrow> 'a cres \<Rightarrow> 'a cres" where
  "dbug_assert f b k \<equiv> check (AssertFail f) b k"

lemma bindR_simps [simp]: "bindR (Inr x) f = f x" "bindR (Inl e) f = Inl e"
  by (simp_all add: bindR_def)

lemma check_simps [simp]: "b \<Longrightarrow> check e b k = k" "\<not> b \<Longrightarrow> check e b k = Inl e"
  by (simp_all add: check_def)

lemma check_cong [cong]: "b = b' \<Longrightarrow> check e b k = check e b' k"
  by simp

lemma bindR_assoc: "bindR (bindR m f) g = bindR m (\<lambda>x. bindR (f x) g)"
  by (cases m) simp_all

lemma bindR_Inr_iff: "bindR m f = Inr y \<longleftrightarrow> (\<exists>x. m = Inr x \<and> f x = Inr y)"
  by (cases m) simp_all

lemma bindR_Inl_iff: "bindR m f = Inl e \<longleftrightarrow> m = Inl e \<or> (\<exists>x. m = Inr x \<and> f x = Inl e)"
  by (cases m) simp_all

lemma check_Inr_iff: "check e b k = Inr y \<longleftrightarrow> b \<and> k = Inr y"
  by (simp add: check_def)

lemma check_Inl_iff: "check e b k = Inl e' \<longleftrightarrow> (\<not> b \<and> e' = e) \<or> (b \<and> k = Inl e')"
  by (auto simp: check_def)

lemma bindR_Inr_right [simp]: "bindR m Inr = m"
  by (cases m) simp_all

lemma bindR_cong [fundef_cong]:
  "m = m' \<Longrightarrow> (\<And>x. m' = Inr x \<Longrightarrow> f x = f' x) \<Longrightarrow> bindR m f = bindR m' f'"
  by (cases m') simp_all

subsection \<open>C integers\<close>

text \<open>
  \<open>int\<close> has 32 bits, \<open>long\<close> and \<open>long long\<close> have 64 (the LP64 targets the compiler is built
  for).  Signed overflow is undefined; conversion to \<open>size_t\<close> is modulo \<open>2 ^ 64\<close>.
\<close>

definition in_srange :: "nat \<Rightarrow> int \<Rightarrow> bool" where
  "in_srange w x \<longleftrightarrow> - (2 ^ (w - 1)) \<le> x \<and> x < 2 ^ (w - 1)"

definition ck_int :: "int \<Rightarrow> int cres" where
  "ck_int x = check IntOverflow (in_srange 32 x) (Inr x)"

definition ck_llong :: "int \<Rightarrow> int cres" where
  "ck_llong x = check IntOverflow (in_srange 64 x) (Inr x)"

definition to_size :: "int \<Rightarrow> nat" where
  "to_size x = nat (x mod 2 ^ 64)"

definition int_max :: int where
  "int_max = 2147483647"

lemma in_srange_32: "in_srange 32 x \<longleftrightarrow> - 2147483648 \<le> x \<and> x \<le> 2147483647"
  by (auto simp: in_srange_def)

lemma in_srange_64:
  "in_srange 64 x \<longleftrightarrow> - 9223372036854775808 \<le> x \<and> x \<le> 9223372036854775807"
  by (auto simp: in_srange_def)

lemma ck_int_ok: "0 \<le> x \<Longrightarrow> x \<le> int_max \<Longrightarrow> ck_int x = Inr x"
  by (simp add: ck_int_def in_srange_32 int_max_def)

lemma ck_llong_ok: "0 \<le> x \<Longrightarrow> x \<le> int_max \<Longrightarrow> ck_llong x = Inr x"
  by (simp add: ck_llong_def in_srange_64 int_max_def)

lemma to_size_ok: "0 \<le> x \<Longrightarrow> x \<le> int_max \<Longrightarrow> to_size x = nat x"
  by (simp add: to_size_def int_max_def)

subsection \<open>C arrays\<close>

text \<open>
  Memory obtained from \<open>MEMmalloc\<close> is a list of cells, \<open>None\<close> until the cell is written.
  \<open>MEMmalloc (0)\<close> returns \<open>NULL\<close> (\<open>src/libsac2c/global/memory.c\<close>), the empty list.
\<close>

type_synonym 'a cvec = "'a option list"

definition allocv :: "int \<Rightarrow> 'a cvec" where
  "allocv n = replicate (nat n) None"

definition rd :: "'a cvec \<Rightarrow> int \<Rightarrow> 'a cres" where
  "rd v i = check OutOfBounds (0 \<le> i \<and> i < int (length v))
     (case v ! nat i of None \<Rightarrow> Inl Uninitialised | Some x \<Rightarrow> Inr x)"

definition wr :: "'a cvec \<Rightarrow> int \<Rightarrow> 'a \<Rightarrow> 'a cvec cres" where
  "wr v i x = check OutOfBounds (0 \<le> i \<and> i < int (length v)) (Inr (v[nat i := Some x]))"

definition full :: "'a list \<Rightarrow> 'a cvec" where
  "full xs = map Some xs"

lemma length_full [simp]: "length (full xs) = length xs"
  by (simp add: full_def)

lemma length_allocv [simp]: "length (allocv n) = nat n"
  by (simp add: allocv_def)

lemma allocv_0 [simp]: "n \<le> 0 \<Longrightarrow> allocv n = []"
  by (simp add: allocv_def)

lemma full_simps [simp]:
  "full [] = []" "full (x # xs) = Some x # full xs" "full (xs @ ys) = full xs @ full ys"
  "full xs = [] \<longleftrightarrow> xs = []" "take n (full xs) = full (take n xs)"
  "drop n (full xs) = full (drop n xs)"
  by (simp_all add: full_def take_map drop_map)

lemma full_inj [simp]: "full xs = full ys \<longleftrightarrow> xs = ys"
proof
  assume "full xs = full ys"
  then have "map the (full xs) = map the (full ys)" by simp
  then show "xs = ys" by (simp add: full_def comp_def)
qed simp

lemma nth_full [simp]: "n < length xs \<Longrightarrow> full xs ! n = Some (xs ! n)"
  by (simp add: full_def)

lemma full_update [simp]: "(full xs)[n := Some x] = full (xs[n := x])"
  by (simp add: full_def map_update)

lemma rd_full [cmem]: "0 \<le> i \<Longrightarrow> i < int (length xs) \<Longrightarrow> rd (full xs) i = Inr (xs ! nat i)"
  by (simp add: rd_def nat_less_iff)

lemma wr_full [cmem]:
  "0 \<le> i \<Longrightarrow> i < int (length xs) \<Longrightarrow> wr (full xs) i x = Inr (full (xs[nat i := x]))"
  by (simp add: wr_def)

lemma rd_oob [cmem]: "i < 0 \<or> int (length v) \<le> i \<Longrightarrow> rd v i = Inl OutOfBounds"
  by (auto simp: rd_def)

lemma wr_oob [cmem]: "i < 0 \<or> int (length v) \<le> i \<Longrightarrow> wr v i x = Inl OutOfBounds"
  by (auto simp: wr_def)

lemma length_wr: "wr v i x = Inr w \<Longrightarrow> length w = length v"
  by (auto simp: wr_def check_Inr_iff)

text \<open>
  The objects of one type that the program has allocated are a list, and a pointer to one is its position;
  an object that has been freed is \<open>None\<close>.
\<close>

definition deref :: "'a option list \<Rightarrow> nat \<Rightarrow> 'a cres" where
  "deref xs p = check NullDeref (p < length xs)
     (case xs ! p of None \<Rightarrow> Inl NullDeref | Some x \<Rightarrow> Inr x)"

lemma deref_Inr: "deref xs p = Inr x \<longleftrightarrow> p < length xs \<and> xs ! p = Some x"
  by (auto simp: deref_def check_Inr_iff split: option.splits)

subsection \<open>Counted loops\<close>

text \<open>
  \<open>cfor i n body s\<close> is \<open>for (; i < n; i++) s = body (i, s)\<close> and \<open>cdown i lo body s\<close> is
  \<open>for (; i >= lo; i--) s = body (i, s)\<close>, each stopping at the first error.
\<close>

function cfor :: "int \<Rightarrow> int \<Rightarrow> (int \<Rightarrow> 's \<Rightarrow> 's cres) \<Rightarrow> 's \<Rightarrow> 's cres" where
  "cfor i n f s = (if i < n then bindR (f i s) (cfor (i + 1) n f) else Inr s)"
  by pat_completeness auto
termination
  by (relation "measure (\<lambda>(i, n, f, s). nat (n - i))") auto

function cdown :: "int \<Rightarrow> int \<Rightarrow> (int \<Rightarrow> 's \<Rightarrow> 's cres) \<Rightarrow> 's \<Rightarrow> 's cres" where
  "cdown i lo f s = (if lo \<le> i then bindR (f i s) (cdown (i - 1) lo f) else Inr s)"
  by pat_completeness auto
termination
  by (relation "measure (\<lambda>(i, lo, f, s). nat (i + 1 - lo))") auto

declare cfor.simps [simp del] cdown.simps [simp del]

lemma cfor_done [simp]: "n \<le> i \<Longrightarrow> cfor i n f s = Inr s"
  by (subst cfor.simps) simp

lemma cfor_step: "i < n \<Longrightarrow> cfor i n f s = bindR (f i s) (cfor (i + 1) n f)"
  by (subst cfor.simps) simp

lemma cdown_done [simp]: "i < lo \<Longrightarrow> cdown i lo f s = Inr s"
  by (subst cdown.simps) simp

lemma cdown_step: "lo \<le> i \<Longrightarrow> cdown i lo f s = bindR (f i s) (cdown (i - 1) lo f)"
  by (subst cdown.simps) simp

text \<open>
  The trajectory rules: \<open>g j\<close> is the state when the counter is \<open>j\<close>; one step of the body
  takes \<open>g j\<close> to the state of the next counter, so the loop takes \<open>g\<close> of the first
  counter to \<open>g\<close> of the last.
\<close>

lemma cfor_traj:
  assumes "i \<le> n" and "\<And>j. i \<le> j \<Longrightarrow> j < n \<Longrightarrow> f j (g j) = Inr (g (j + 1))"
  shows "cfor i n f (g i) = Inr (g n)"
  using assms
proof (induction "nat (n - i)" arbitrary: i)
  case 0
  then show ?case by simp
next
  case (Suc k)
  then have "i < n" by linarith
  moreover have "cfor (i + 1) n f (g (i + 1)) = Inr (g n)"
    using Suc.hyps(2) Suc.prems \<open>i < n\<close> by (intro Suc.hyps(1)) simp_all
  ultimately show ?case using Suc.prems(2) [of i] by (simp add: cfor_step)
qed

lemma cdown_traj:
  assumes "lo \<le> i + 1" and "\<And>j. lo \<le> j \<Longrightarrow> j \<le> i \<Longrightarrow> f j (g (j + 1)) = Inr (g j)"
  shows "cdown i lo f (g (i + 1)) = Inr (g lo)"
  using assms
proof (induction "nat (i + 1 - lo)" arbitrary: i)
  case 0
  then show ?case by simp
next
  case (Suc k)
  then have "lo \<le> i" by linarith
  moreover have "cdown (i - 1) lo f (g (i - 1 + 1)) = Inr (g lo)"
    using Suc.hyps(2) Suc.prems \<open>lo \<le> i\<close> by (intro Suc.hyps(1)) simp_all
  ultimately show ?case using Suc.prems(2) [of i] by (simp add: cdown_step)
qed

text \<open>The invariant rule, for bodies whose state is not determined by the counter.\<close>

lemma cfor_inv:
  assumes "P i s" and "i \<le> n"
    and "\<And>j t. i \<le> j \<Longrightarrow> j < n \<Longrightarrow> P j t \<Longrightarrow> \<exists>t'. f j t = Inr t' \<and> P (j + 1) t'"
  shows "\<exists>t. cfor i n f s = Inr t \<and> P n t"
  using assms
proof (induction "nat (n - i)" arbitrary: i s)
  case 0
  then show ?case by (intro exI [of _ s]) simp
next
  case (Suc k)
  then have lt: "i < n" by linarith
  with Suc.prems obtain t' where t': "f i s = Inr t'" "P (i + 1) t'" by blast
  have "\<exists>t. cfor (i + 1) n f t' = Inr t \<and> P n t"
    using Suc.hyps(2) Suc.prems t' lt by (intro Suc.hyps(1)) simp_all
  with t' lt show ?case by (simp add: cfor_step)
qed

text \<open>A loop that meets an error at some counter, and steps before it, ends in that error.\<close>

lemma cfor_error:
  assumes "i \<le> k" and "k < n"
    and "\<And>j s. i \<le> j \<Longrightarrow> j < k \<Longrightarrow> \<exists>t. f j s = Inr t" and "\<And>s. f k s = Inl e"
  shows "cfor i n f s = Inl e"
  using assms
proof (induction "nat (k - i)" arbitrary: i s)
  case 0
  then have "i = k" by simp
  with 0 show ?case by (simp add: cfor_step)
next
  case (Suc m)
  then have i: "i < k" by simp
  then obtain t where "f i s = Inr t" using Suc.prems(3) by blast
  moreover have "cfor (i + 1) n f t = Inl e"
    using Suc.hyps(2) Suc.prems i by (intro Suc.hyps(1)) auto
  ultimately show ?case using i Suc.prems(2) by (simp add: cfor_step)
qed

lemma cfor_cong:
  assumes "\<And>j s. i \<le> j \<Longrightarrow> j < n \<Longrightarrow> f j s = g j s"
  shows "cfor i n f s = cfor i n g s"
  using assms
proof (induction "nat (n - i)" arbitrary: i s)
  case 0
  then show ?case by simp
next
  case (Suc k)
  then have lt: "i < n" by linarith
  have "cfor (i + 1) n f = cfor (i + 1) n g"
    using Suc.hyps(2) Suc.prems lt by (intro ext Suc.hyps(1)) simp_all
  with lt Suc.prems [of i] show ?case by (simp add: cfor_step)
qed

text \<open>A loop that works on one component of its state.\<close>

lemma cfor_map:
  assumes "\<And>j t. i \<le> j \<Longrightarrow> j < n \<Longrightarrow> f' j (g t) = bindR (f j t) (\<lambda>x. Inr (g x))"
  shows "cfor i n f' (g s) = bindR (cfor i n f s) (\<lambda>x. Inr (g x))"
  using assms
proof (induction "nat (n - i)" arbitrary: i s)
  case 0
  then show ?case by simp
next
  case (Suc k)
  then have lt: "i < n" by linarith
  have "cfor (i + 1) n f' (g t) = bindR (cfor (i + 1) n f t) (\<lambda>x. Inr (g x))" for t
    using Suc.hyps(2) Suc.prems lt by (intro Suc.hyps(1)) simp_all
  with lt Suc.prems [of i] show ?case by (simp add: cfor_step bindR_assoc)
qed

text \<open>A loop whose counter runs over a list is a fold over the list.\<close>

fun foldR :: "('x \<Rightarrow> 's \<Rightarrow> 's cres) \<Rightarrow> 'x list \<Rightarrow> 's \<Rightarrow> 's cres" where
  "foldR f [] s = Inr s"
| "foldR f (x # xs) s = bindR (f x s) (foldR f xs)"

lemma foldR_append: "foldR f (xs @ ys) s = bindR (foldR f xs s) (foldR f ys)"
  by (induction xs arbitrary: s) (auto simp: bindR_def split: sum.splits)

lemma foldR_Nil_fun: "foldR f [] = Inr"
  by (rule ext) simp

lemma foldR_cong:
  "(\<And>x t. x \<in> set xs \<Longrightarrow> f x t = g x t) \<Longrightarrow> foldR f xs s = foldR g xs s"
proof (induction xs arbitrary: s)
  case (Cons x xs)
  then have "foldR f xs = foldR g xs" by (intro ext Cons.IH) simp
  with Cons.prems show ?case by simp
qed simp

lemma cfor_foldR:
  assumes "\<And>j s. j < length xs \<Longrightarrow> f (int j) s = g (xs ! j) s"
  shows "cfor 0 (int (length xs)) f s = foldR g xs s"
proof -
  have "cfor (int k) (int (length xs)) f s = foldR g (drop k xs) s" if "k \<le> length xs" for k s
    using that
  proof (induction "length xs - k" arbitrary: k s)
    case 0
    then show ?case by simp
  next
    case (Suc m)
    then have k: "k < length xs" by linarith
    have "cfor (int (Suc k)) (int (length xs)) f = foldR g (drop (Suc k) xs)"
      using Suc.hyps(2) k by (intro ext Suc.hyps(1)) simp_all
    with k assms [of k] show ?case
      by (simp add: cfor_step Cons_nth_drop_Suc [symmetric] add.commute)
  qed
  from this [of 0] show ?thesis by simp
qed

subsection \<open>Copying\<close>

text \<open>The effect of copying \<open>xs\<close> into \<open>dst\<close> from position \<open>d\<close> on.\<close>

definition blit :: "'a cvec \<Rightarrow> nat \<Rightarrow> 'a list \<Rightarrow> 'a cvec" where
  "blit dst d xs = take d dst @ full xs @ drop (d + length xs) dst"

lemma length_blit: "d + length xs \<le> length dst \<Longrightarrow> length (blit dst d xs) = length dst"
  by (simp add: blit_def)

lemma blit_all [simp]: "length dst = length xs \<Longrightarrow> blit dst 0 xs = full xs"
  by (simp add: blit_def)

lemma blit_Nil [simp]: "blit dst d [] = dst"
  by (simp add: blit_def)

lemma blit_snoc:
  assumes "d + length xs < length dst"
  shows "(blit dst d xs)[d + length xs := Some x] = blit dst d (xs @ [x])"
proof -
  have "drop (d + length xs) dst = dst ! (d + length xs) # drop (Suc (d + length xs)) dst"
    using assms by (simp add: Cons_nth_drop_Suc)
  with assms show ?thesis by (simp add: blit_def list_update_append)
qed

lemma blit_append_dst:
  "d + length xs \<le> length dst \<Longrightarrow> blit (dst @ rest) d xs = blit dst d xs @ rest"
  by (simp add: blit_def)

lemma copy_loop [cmem]:
  assumes "s + n \<le> length xs" and "d + n \<le> length dst"
  shows "cfor 0 (int n) (\<lambda>i v. bindR (rd (full xs) (i + int s)) (wr v (i + int d))) dst
         = Inr (blit dst d (take n (drop s xs)))"
proof -
  let ?g = "\<lambda>j. blit dst d (take (nat j) (drop s xs))"
  let ?f = "\<lambda>i v. bindR (rd (full xs) (i + int s)) (wr v (i + int d))"
  have "?f j (?g j) = Inr (?g (j + 1))" if j: "0 \<le> j" "j < int n" for j
  proof -
    obtain k where k: "j = int k" "k < n" using j by (metis nonneg_int_cases of_nat_less_iff)
    have len: "length (take k (drop s xs)) = k" using k assms by simp
    have tk: "take (nat (j + 1)) (drop s xs) = take k (drop s xs) @ [xs ! (s + k)]"
      using k assms by (simp add: nat_add_distrib take_Suc_conv_app_nth)
    have "rd (full xs) (int k + int s) = Inr (xs ! (s + k))"
      using k assms by (simp add: rd_full nat_add_distrib add.commute)
    moreover have "wr (blit dst d (take k (drop s xs))) (int k + int d) (xs ! (s + k))
        = Inr (blit dst d (take k (drop s xs) @ [xs ! (s + k)]))"
      using k assms blit_snoc [of d "take k (drop s xs)" dst "xs ! (s + k)"] len
      by (simp add: wr_def length_blit nat_add_distrib add.commute)
    ultimately show ?thesis using k tk by simp
  qed
  from cfor_traj [of 0 "int n" ?f ?g, OF _ this] show ?thesis by simp
qed

lemma copy_loop0 [cmem]:
  assumes "n \<le> length xs" and "n \<le> length dst"
  shows "cfor 0 (int n) (\<lambda>i v. bindR (rd (full xs) i) (wr v i)) dst
         = Inr (blit dst 0 (take n xs))"
  using copy_loop [of 0 n xs 0 dst] assms by simp

subsection \<open>Mapping an operation that may fail\<close>

fun mapR :: "('a \<Rightarrow> 'b cres) \<Rightarrow> 'a list \<Rightarrow> 'b list cres" where
  "mapR f [] = Inr []"
| "mapR f (x # xs) = bindR (f x) (\<lambda>y. bindR (mapR f xs) (\<lambda>ys. Inr (y # ys)))"

lemma mapR_Inr_iff: "mapR f xs = Inr ys \<longleftrightarrow> list_all2 (\<lambda>x y. f x = Inr y) xs ys"
  by (induction xs arbitrary: ys) (auto simp: bindR_Inr_iff list_all2_Cons1)

lemma mapR_length: "mapR f xs = Inr ys \<Longrightarrow> length ys = length xs"
  by (auto simp: mapR_Inr_iff dest: list_all2_lengthD)

lemma mapR_cong [fundef_cong]:
  "xs = ys \<Longrightarrow> (\<And>x. x \<in> set ys \<Longrightarrow> f x = g x) \<Longrightarrow> mapR f xs = mapR g ys"
proof (induction ys arbitrary: xs)
  case (Cons y ys)
  then have "mapR f ys = mapR g ys" by simp
  with Cons.prems show ?case by simp
qed simp

lemma mapR_map: "mapR f (map g xs) = mapR (\<lambda>x. f (g x)) xs"
  by (induction xs) auto

lemma mapR_Inr [simp]: "mapR (\<lambda>x. Inr (g x)) xs = Inr (map g xs)"
  by (induction xs) auto

lemma mapR_nth: "mapR f xs = Inr ys \<Longrightarrow> i < length xs \<Longrightarrow> f (xs ! i) = Inr (ys ! i)"
  by (simp add: mapR_Inr_iff list_all2_conv_all_nth)

lemma mapR_Inl: "mapR f xs = Inl e \<Longrightarrow> \<exists>x\<in>set xs. f x = Inl e"
  by (induction xs) (auto simp: bindR_Inl_iff)

text \<open>A loop that fills an array from position zero computes a map.\<close>

lemma cfor_collect_from:
  assumes "length rs = k" and "k + length dst = n"
  shows "cfor (int k) (int n) (\<lambda>i v. bindR (h i) (wr v i)) (full rs @ dst)
         = bindR (mapR h (map int [k..<n])) (\<lambda>qs. Inr (full (rs @ qs)))"
  using assms
proof (induction dst arbitrary: k rs)
  case Nil
  then show ?case by simp
next
  case (Cons d dst)
  then have k: "k < n" by simp
  show ?case
  proof (cases "h (int k)")
    case (Inl e)
    with k show ?thesis by (simp add: cfor_step upt_conv_Cons)
  next
    case (Inr r)
    have "wr (full rs @ d # dst) (int k) r = Inr (full (rs @ [r]) @ dst)"
      using Cons.prems by (simp add: wr_def list_update_append)
    moreover have "cfor (int (Suc k)) (int n) (\<lambda>i v. bindR (h i) (wr v i)) (full (rs @ [r]) @ dst)
        = bindR (mapR h (map int [Suc k..<n])) (\<lambda>qs. Inr (full ((rs @ [r]) @ qs)))"
      using Cons.prems by (intro Cons.IH) auto
    ultimately show ?thesis
      using k Inr by (simp add: cfor_step upt_conv_Cons bindR_assoc add.commute)
  qed
qed

lemma cfor_collect [cmem]:
  assumes "length dst = n"
  shows "cfor 0 (int n) (\<lambda>i v. bindR (h i) (wr v i)) dst
         = bindR (mapR h (map int [0..<n])) (\<lambda>qs. Inr (full qs))"
  using cfor_collect_from [of "[]" 0 dst n h] assms by simp

text \<open>The same loop over an array that is too short writes past its end.\<close>

lemma cfor_collect_oob:
  assumes "length dst < n" and "\<And>j. 0 \<le> j \<Longrightarrow> j < int n \<Longrightarrow> \<exists>r. h j = Inr r"
  shows "cfor 0 (int n) (\<lambda>i v. bindR (h i) (wr v i)) dst = Inl OutOfBounds"
proof -
  let ?f = "\<lambda>i v. bindR (h i) (wr v i)"
  have "cfor (int k) (int n) ?f v = Inl OutOfBounds"
    if "length v < n" "k \<le> length v" for k v
    using that
  proof (induction "length v - k" arbitrary: k v)
    case 0
    then have "k < n" "k = length v" by linarith+
    moreover obtain r where "h (int k) = Inr r" using assms(2) [of "int k"] \<open>k < n\<close> by auto
    ultimately show ?case by (simp add: cfor_step wr_oob)
  next
    case (Suc m)
    then have k: "k < length v" "k < n" by linarith+
    moreover obtain r where r: "h (int k) = Inr r" using assms(2) [of "int k"] k by auto
    moreover have "cfor (int (Suc k)) (int n) ?f (v[k := Some r]) = Inl OutOfBounds"
      using Suc.hyps(2) Suc.prems k by (intro Suc.hyps(1)) auto
    ultimately show ?case by (simp add: cfor_step wr_def add.commute)
  qed
  from this [of dst 0] assms(1) show ?thesis by simp
qed

subsection \<open>Loops that may not end\<close>

text \<open>
  A function with an unbounded loop is a \<open>partial_function (option)\<close>: \<open>None\<close> when it does
  not return.  \<open>bindRO\<close> continues such a computation after a step that may fail,
  \<open>bindO\<close> after another such computation.
\<close>

definition bindRO :: "'a cres \<Rightarrow> ('a \<Rightarrow> 'b cres option) \<Rightarrow> 'b cres option" where
  "bindRO m f = (case m of Inl e \<Rightarrow> Some (Inl e) | Inr x \<Rightarrow> f x)"

definition bindO :: "'a cres option \<Rightarrow> ('a \<Rightarrow> 'b cres) \<Rightarrow> 'b cres option" where
  "bindO m f = map_option (\<lambda>r. bindR r f) m"

lemma bindRO_simps [simp]: "bindRO (Inr x) f = f x" "bindRO (Inl e) f = Some (Inl e)"
  by (simp_all add: bindRO_def)

lemma bindO_simps [simp]: "bindO (Some r) f = Some (bindR r f)" "bindO None f = None"
  by (simp_all add: bindO_def)

lemma bindRO_mono [partial_function_mono]:
  assumes "\<And>x. mono_option (\<lambda>f. c x f)"
  shows "mono_option (\<lambda>f. bindRO m (\<lambda>x. c x f))"
  using assms by (cases m) (simp_all add: bindRO_def monotone_def flat_ord_def fun_ord_def)

definition checkO :: "cerr \<Rightarrow> bool \<Rightarrow> 'a cres option \<Rightarrow> 'a cres option" where
  "checkO e b k = (if b then k else Some (Inl e))"

lemma checkO_simps [simp]: "b \<Longrightarrow> checkO e b k = k" "\<not> b \<Longrightarrow> checkO e b k = Some (Inl e)"
  by (simp_all add: checkO_def)

text \<open>Sequencing of two computations that may not end.\<close>

definition bindOO :: "'a cres option \<Rightarrow> ('a \<Rightarrow> 'b cres option) \<Rightarrow> 'b cres option" where
  "bindOO m f = (case m of None \<Rightarrow> None | Some r \<Rightarrow> bindRO r f)"

lemma bindOO_simps [simp]: "bindOO (Some r) f = bindRO r f" "bindOO None f = None"
  by (simp_all add: bindOO_def)

lemma bindRO_Some_Inr: "bindRO m f = Some (Inr y) \<longleftrightarrow> (\<exists>x. m = Inr x \<and> f x = Some (Inr y))"
  by (cases m) simp_all

lemma bindOO_Some_Inr: "bindOO m f = Some (Inr y) \<longleftrightarrow> (\<exists>x. m = Some (Inr x) \<and> f x = Some (Inr y))"
  by (cases m) (auto simp: bindRO_Some_Inr)

text \<open>
  A counting loop whose bound is read again before every iteration,
  \<open>for (; i < bnd; i++) s = body (i, s)\<close>; it may not end.
\<close>

partial_function (option) wfor ::
  "nat \<Rightarrow> ('s \<Rightarrow> nat cres) \<Rightarrow> (nat \<Rightarrow> 's \<Rightarrow> 's cres option) \<Rightarrow> 's \<Rightarrow> 's cres option" where
  "wfor i bnd body s =
     bindRO (bnd s) (\<lambda>n.
       if i < n
       then (case body i s of
               None \<Rightarrow> None
             | Some r \<Rightarrow> bindRO r (\<lambda>s. wfor (i + 1) bnd body s))
       else Some (Inr s))"

declare wfor.simps [code]

text \<open>When an invariant keeps the bound fixed and lets every iteration return, the loop returns.\<close>

lemma wfor_inv:
  assumes "P i s" and "i \<le> N" and "\<And>j t. P j t \<Longrightarrow> bnd t = Inr N"
    and "\<And>j t. i \<le> j \<Longrightarrow> j < N \<Longrightarrow> P j t \<Longrightarrow> \<exists>t'. body j t = Some (Inr t') \<and> P (j + 1) t'"
  shows "\<exists>t. wfor i bnd body s = Some (Inr t) \<and> P N t"
  using assms(1,2,4)
proof (induction "N - i" arbitrary: i s)
  case 0
  then have "i = N" by simp
  then show ?case using 0 assms(3) by (subst wfor.simps) auto
next
  case (Suc k)
  then have i: "i < N" by simp
  obtain t' where t: "body i s = Some (Inr t')" "P (i + 1) t'" using Suc.prems(1,3) i by blast
  have "\<exists>t. wfor (i + 1) bnd body t' = Some (Inr t) \<and> P N t"
    using Suc.hyps(2) Suc.prems(3) t i by (intro Suc.hyps(1)) auto
  then show ?case using i t assms(3) [OF Suc.prems(1)] by (subst wfor.simps) simp
qed

end
