(* ===== verification/LUT.thy ===== *)
theory LUT
  imports Prelude "HOL-Library.Word"
begin

unbundle bit_operations_syntax

text \<open>
  The lookup table, \<open>src/libsac2c/tree/LookUpTable.c\<close>: pairs of a key, which is a pointer or a string, and
  a pointer, in a hash table of \<open>HASH_KEYS\<close> collision tables.  A collision table is a chain of
  fragments of \<open>LUT_SIZE\<close> pairs; the cell after the last pair of a fragment holds the address of the next
  fragment, which is allocated as soon as the fragment is full.

  The state \<open>lutmem\<close> has the fragments, the tables and the strings allocated so far, and the static variables
  of \<open>SearchInLUT_state\<close>.  A \<open>void*\<close> is a \<open>ptr\<close>: null, an object of the program (a node), a string,
  or the first cell of a fragment.  A \<open>void**\<close> is a fragment with the index of a cell.  The numbers that the
  allocator chooses as addresses are the parameter \<open>A\<close>, on which only the hash keys depend.  The functions that
  only print, and \<open>LUTtouchLut\<close>, which marks memory as used for the memory checker, are left out; so is the
  output for debugging.
\<close>

datatype ptr = PNull | PObj nat | PStr nat | PFrag nat

type_synonym vpp = "(nat \<times> nat) option"

record lut_t =
  lut_first :: vpp
  lut_next :: vpp
  lut_size :: int

record lutmem =
  frags :: "ptr cvec option list"
  luts :: "lut_t cvec option list"
  strings :: "string option list"
  store_lut :: "nat option"
  store_old_item :: ptr
  store_hash_key :: int
  store_size :: int
  store_i :: int
  store_entry :: vpp

definition LUT_SIZE :: int where
  "LUT_SIZE = 5"

definition HASH_KEYS_POINTER :: int where
  "HASH_KEYS_POINTER = 32"

definition HASH_KEYS_STRING :: int where
  "HASH_KEYS_STRING = 17"

definition HASH_KEYS :: int where
  "HASH_KEYS = HASH_KEYS_POINTER + HASH_KEYS_STRING"

subsection \<open>Memory\<close>

definition get_cell :: "vpp \<Rightarrow> nat \<Rightarrow> lutmem \<Rightarrow> ptr cres" where
  "get_cell e j m = (case e of None \<Rightarrow> Inl NullDeref
     | Some (f, i) \<Rightarrow> bindR (deref (frags m) f) (\<lambda>v. rd v (int (i + j))))"

definition put_cell :: "vpp \<Rightarrow> nat \<Rightarrow> ptr \<Rightarrow> lutmem \<Rightarrow> lutmem cres" where
  "put_cell e j p m = (case e of None \<Rightarrow> Inl NullDeref
     | Some (f, i) \<Rightarrow> bindR (deref (frags m) f) (\<lambda>v. bindR (wr v (int (i + j)) p) (\<lambda>v.
         Inr (m\<lparr>frags := (frags m)[f := Some v]\<rparr>))))"

definition vpp_add :: "vpp \<Rightarrow> nat \<Rightarrow> vpp cres" where
  "vpp_add e n = (case e of None \<Rightarrow> Inl NullDeref | Some (f, i) \<Rightarrow> Inr (Some (f, i + n)))"

text \<open>The cast \<open>(void **)p\<close>; only links between fragments are cast.\<close>

definition as_vpp :: "ptr \<Rightarrow> vpp cres" where
  "as_vpp p = (case p of PNull \<Rightarrow> Inr None | PFrag f \<Rightarrow> Inr (Some (f, 0)) | _ \<Rightarrow> Inl WrongType)"

text \<open>\<open>(void **)MEMmalloc ((2 * LUT_SIZE + 1) * sizeof (void *))\<close>\<close>

definition new_fragment :: "lutmem \<Rightarrow> nat \<times> lutmem" where
  "new_fragment m = (length (frags m), m\<lparr>frags := frags m @ [Some (allocv (2 * LUT_SIZE + 1))]\<rparr>)"

definition free_fragment :: "vpp \<Rightarrow> lutmem \<Rightarrow> lutmem cres" where
  "free_fragment e m = (case e of None \<Rightarrow> Inr m
     | Some (f, i) \<Rightarrow> check WrongType (i = 0) (bindR (deref (frags m) f) (\<lambda>_.
         Inr (m\<lparr>frags := (frags m)[f := None]\<rparr>))))"

definition free_string :: "ptr \<Rightarrow> lutmem \<Rightarrow> lutmem cres" where
  "free_string p m = (case p of PNull \<Rightarrow> Inr m
     | PStr s \<Rightarrow> bindR (deref (strings m) s) (\<lambda>_. Inr (m\<lparr>strings := (strings m)[s := None]\<rparr>))
     | _ \<Rightarrow> Inl WrongType)"

definition str_of :: "ptr \<Rightarrow> lutmem \<Rightarrow> string cres" where
  "str_of p m = (case p of PNull \<Rightarrow> Inl NullDeref | PStr s \<Rightarrow> deref (strings m) s | _ \<Rightarrow> Inl WrongType)"

definition STRcpy :: "ptr \<Rightarrow> lutmem \<Rightarrow> (ptr \<times> lutmem) cres" where
  "STRcpy p m = (if p = PNull then Inr (PNull, m)
     else bindR (str_of p m) (\<lambda>s. Inr (PStr (length (strings m)), m\<lparr>strings := strings m @ [Some s]\<rparr>)))"

definition get_lut :: "nat \<Rightarrow> int \<Rightarrow> lutmem \<Rightarrow> lut_t cres" where
  "get_lut l k m = bindR (deref (luts m) l) (\<lambda>t. rd t k)"

definition put_lut :: "nat \<Rightarrow> int \<Rightarrow> lut_t \<Rightarrow> lutmem \<Rightarrow> lutmem cres" where
  "put_lut l k b m = bindR (deref (luts m) l) (\<lambda>t. bindR (wr t k b) (\<lambda>t.
     Inr (m\<lparr>luts := (luts m)[l := Some t]\<rparr>)))"

subsection \<open>Hash keys and comparison\<close>

definition GetHashKey_Pointer :: "(ptr \<Rightarrow> 64 word) \<Rightarrow> ptr \<Rightarrow> int cres" where
  "GetHashKey_Pointer A data =
     (let hash_key = uint (drop_bit 5 (A data) AND 0x1f) in
      dbug_assert ''hash key for pointers out of bounds!'' (hash_key < HASH_KEYS_POINTER) (Inr hash_key))"

text \<open>A \<open>char\<close> is signed on the targets of the compiler; its conversion to \<open>unsigned long\<close> extends the sign.\<close>

definition char_word :: "char \<Rightarrow> 64 word" where
  "char_word c = word_of_int (if of_char c < (128 :: int) then of_char c else of_char c - 256)"

definition GetHashKey_String :: "ptr \<Rightarrow> lutmem \<Rightarrow> int cres" where
  "GetHashKey_String data m =
     bindR (if data = PNull then Inr 0
            else bindR (str_of data m) (\<lambda>s.
              Inr (uint (foldl (\<lambda>h c. h + char_word c) 0 s) mod HASH_KEYS_STRING))) (\<lambda>hash_key.
     dbug_assert ''hash key for strings out of bounds!'' (hash_key < HASH_KEYS_STRING)
       (Inr (hash_key + HASH_KEYS_POINTER)))"

definition IsEqual_Pointer :: "lutmem \<Rightarrow> ptr \<Rightarrow> ptr \<Rightarrow> bool cres" where
  "IsEqual_Pointer m data1 data2 = Inr (data1 = data2)"

definition STReq :: "lutmem \<Rightarrow> ptr \<Rightarrow> ptr \<Rightarrow> bool cres" where
  "STReq m first second =
     (if first = PNull \<and> second = PNull then Inr True
      else if first = PNull \<or> second = PNull then Inr False
      else bindR (str_of first m) (\<lambda>s. bindR (str_of second m) (\<lambda>t. Inr (s = t))))"

definition IsEqual_String :: "lutmem \<Rightarrow> ptr \<Rightarrow> ptr \<Rightarrow> bool cres" where
  "IsEqual_String m data1 data2 = STReq m data1 data2"

subsection \<open>Searching\<close>

text \<open>
  The step of every loop over a collision table: \<open>entry += 2\<close>, and after the last pair of a fragment the
  link to the next one.
\<close>

definition next_entry :: "int \<Rightarrow> vpp \<Rightarrow> lutmem \<Rightarrow> vpp cres" where
  "next_entry i entry m =
     bindR (vpp_add entry 2) (\<lambda>entry. bindR (ck_int (i + 1)) (\<lambda>i1.
       if i1 mod LUT_SIZE = 0 then bindR (get_cell entry 0 m) as_vpp else Inr entry))"

function SearchInLUT_from ::
  "(lutmem \<Rightarrow> ptr \<Rightarrow> ptr \<Rightarrow> bool cres) \<Rightarrow> ptr \<Rightarrow> int \<Rightarrow> int \<Rightarrow> vpp \<Rightarrow> lutmem \<Rightarrow> (vpp \<times> int \<times> vpp) cres" where
  "SearchInLUT_from is_equal_fun old_item sz i entry m =
     (if i < sz then
        bindR (get_cell entry 0 m) (\<lambda>x. bindR (is_equal_fun m x old_item) (\<lambda>found.
          if found then bindR (vpp_add entry 1) (\<lambda>new_item_p. Inr (new_item_p, i, entry))
          else bindR (next_entry i entry m) (\<lambda>entry.
            SearchInLUT_from is_equal_fun old_item sz (i + 1) entry m)))
      else Inr (None, i, entry))"
  by pat_completeness auto
termination
  by (relation "measure (\<lambda>(_, _, sz, i, _). nat (sz - i))") auto

declare SearchInLUT_from.simps [simp del]

text \<open>\<open>entry\<close> is initialised with \<open>lut[hash_key].first\<close> before \<open>lut\<close> is compared with \<open>NULL\<close>.\<close>

definition SearchInLUT ::
  "nat option \<Rightarrow> ptr \<Rightarrow> int \<Rightarrow> (lutmem \<Rightarrow> ptr \<Rightarrow> ptr \<Rightarrow> bool cres) \<Rightarrow> lutmem \<Rightarrow> vpp cres" where
  "SearchInLUT lut old_item hash_key is_equal_fun m =
     (case lut of None \<Rightarrow> Inl NullDeref | Some l \<Rightarrow>
        bindR (get_lut l hash_key m) (\<lambda>b.
          if old_item \<noteq> PNull
          then bindR (SearchInLUT_from is_equal_fun old_item (lut_size b) 0 (lut_first b) m) (\<lambda>(new_item_p, _).
                 Inr new_item_p)
          else Inr None))"

definition SearchInLUT_state ::
  "nat option \<Rightarrow> ptr \<Rightarrow> int \<Rightarrow> (lutmem \<Rightarrow> ptr \<Rightarrow> ptr \<Rightarrow> bool cres) \<Rightarrow> bool \<Rightarrow> lutmem \<Rightarrow> (vpp \<times> lutmem) cres" where
  "SearchInLUT_state lut old_item hash_key is_equal_fun init m =
     (if init then
        (let m = m\<lparr>store_lut := lut\<rparr> in
         case lut of None \<Rightarrow> Inr (None, m) | Some l \<Rightarrow>
           let m = m\<lparr>store_old_item := old_item\<rparr> in
           if old_item \<noteq> PNull then
             bindR (get_lut l hash_key m) (\<lambda>b.
             let m = m\<lparr>store_hash_key := hash_key, store_size := lut_size b\<rparr> in
             dbug_assert ''illegal LUT size found!'' (0 \<le> store_size m)
             (let m = m\<lparr>store_i := 0, store_entry := lut_first b\<rparr> in
              bindR (SearchInLUT_from is_equal_fun old_item (store_size m) (store_i m) (store_entry m) m)
                (\<lambda>(new_item_p, i, entry). Inr (new_item_p, m\<lparr>store_i := i, store_entry := entry\<rparr>))))
           else Inr (None, m))
      else if store_lut m \<noteq> None \<and> store_old_item m \<noteq> PNull then
        bindR (next_entry (store_i m) (store_entry m) m) (\<lambda>entry.
        let m = m\<lparr>store_entry := entry, store_i := store_i m + 1\<rparr> in
        bindR (SearchInLUT_from is_equal_fun (store_old_item m) (store_size m) (store_i m) (store_entry m) m)
          (\<lambda>(new_item_p, i, entry). Inr (new_item_p, m\<lparr>store_i := i, store_entry := entry\<rparr>)))
      else Inr (None, m))"

subsection \<open>Inserting and updating\<close>

definition InsertIntoLUT_noDBUG ::
  "nat option \<Rightarrow> ptr \<Rightarrow> ptr \<Rightarrow> int \<Rightarrow> lutmem \<Rightarrow> lutmem cres" where
  "InsertIntoLUT_noDBUG lut old_item new_item hash_key m =
     (case lut of None \<Rightarrow> Inl (AssertFail ''no LUT found!'') | Some l \<Rightarrow>
        bindR (get_lut l hash_key m) (\<lambda>b.
        bindR (put_cell (lut_next b) 0 old_item m) (\<lambda>m. bindR (vpp_add (lut_next b) 1) (\<lambda>n.
        bindR (put_cell n 0 new_item m) (\<lambda>m. bindR (vpp_add n 1) (\<lambda>n.
        bindR (ck_int (lut_size b + 1)) (\<lambda>sz.
        dbug_assert ''illegal LUT size found!'' (0 \<le> sz)
          (if sz mod LUT_SIZE = 0 then
             (let (f, m) = new_fragment m in
              bindR (put_cell n 0 (PFrag f) m) (\<lambda>m. bindR (get_cell n 0 m) (\<lambda>p. bindR (as_vpp p) (\<lambda>n.
              put_lut l hash_key (b\<lparr>lut_next := n, lut_size := sz\<rparr>) m))))
           else put_lut l hash_key (b\<lparr>lut_next := n, lut_size := sz\<rparr>) m))))))))"

definition InsertIntoLUT ::
  "nat option \<Rightarrow> ptr \<Rightarrow> ptr \<Rightarrow> int \<Rightarrow> lutmem \<Rightarrow> (nat option \<times> lutmem) cres" where
  "InsertIntoLUT lut old_item new_item hash_key m =
     (if lut \<noteq> None then
        dbug_assert ''NULL not allowed in LUT'' (old_item \<noteq> PNull)
          (bindR (InsertIntoLUT_noDBUG lut old_item new_item hash_key m) (\<lambda>m. Inr (lut, m)))
      else Inr (None, m))"

text \<open>The second component of the result is what is stored in \<open>*found_item\<close> if that is not \<open>NULL\<close>.\<close>

definition UpdateLUT ::
  "nat option \<Rightarrow> ptr \<Rightarrow> ptr \<Rightarrow> int \<Rightarrow> (lutmem \<Rightarrow> ptr \<Rightarrow> ptr \<Rightarrow> bool cres) \<Rightarrow> lutmem
   \<Rightarrow> (nat option \<times> ptr \<times> lutmem) cres" where
  "UpdateLUT lut old_item new_item hash_key is_equal_fun m =
     bindR (SearchInLUT lut old_item hash_key is_equal_fun m) (\<lambda>found_item_p.
       if found_item_p = None then
         bindR (if hash_key < HASH_KEYS_POINTER then Inr (old_item, m) else STRcpy old_item m) (\<lambda>(old_item, m).
         bindR (InsertIntoLUT lut old_item new_item hash_key m) (\<lambda>(lut, m). Inr (lut, PNull, m)))
       else
         bindR (get_cell found_item_p 0 m) (\<lambda>found_item.
         bindR (put_cell found_item_p 0 new_item m) (\<lambda>m. Inr (lut, found_item, m))))"

subsection \<open>Mapping and folding\<close>

definition map_table :: "(ptr \<Rightarrow> ptr \<Rightarrow> ptr) \<Rightarrow> nat \<Rightarrow> int \<Rightarrow> lutmem \<Rightarrow> lutmem cres" where
  "map_table f l k m =
     bindR (get_lut l k m) (\<lambda>b.
     dbug_assert ''illegal LUT size found!'' (0 \<le> lut_size b)
     (bindR (cfor 0 (lut_size b) (\<lambda>i (tmp, m).
        bindR (get_cell tmp 1 m) (\<lambda>v. bindR (get_cell tmp 0 m) (\<lambda>key.
        bindR (put_cell tmp 1 (f v key) m) (\<lambda>m.
        bindR (next_entry i tmp m) (\<lambda>tmp. Inr (tmp, m)))))) (lut_first b, m)) (\<lambda>(tmp, m). Inr m)))"

definition MapLUT :: "nat option \<Rightarrow> (ptr \<Rightarrow> ptr \<Rightarrow> ptr) \<Rightarrow> int \<Rightarrow> int \<Rightarrow> lutmem \<Rightarrow> lutmem cres" where
  "MapLUT lut f start stop m =
     (case lut of None \<Rightarrow> Inr m | Some l \<Rightarrow> cfor start stop (map_table f l) m)"

text \<open>The loop over one table, for functions that only read it.\<close>

definition fold_table ::
  "nat \<Rightarrow> int \<Rightarrow> (ptr \<Rightarrow> ptr \<Rightarrow> 's \<Rightarrow> 's cres) \<Rightarrow> ('s \<Rightarrow> lutmem) \<Rightarrow> 's \<Rightarrow> 's cres" where
  "fold_table l k f mem s =
     bindR (get_lut l k (mem s)) (\<lambda>b.
     dbug_assert ''illegal LUT size found!'' (0 \<le> lut_size b)
     (bindR (cfor 0 (lut_size b) (\<lambda>i (tmp, s).
        bindR (get_cell tmp 0 (mem s)) (\<lambda>key. bindR (get_cell tmp 1 (mem s)) (\<lambda>v.
        bindR (f key v s) (\<lambda>s.
        bindR (next_entry i tmp (mem s)) (\<lambda>tmp. Inr (tmp, s)))))) (lut_first b, s)) (\<lambda>(tmp, s). Inr s)))"

definition FoldLUT ::
  "nat option \<Rightarrow> 'a \<Rightarrow> ('a \<Rightarrow> ptr \<Rightarrow> ptr \<Rightarrow> 'a) \<Rightarrow> int \<Rightarrow> int \<Rightarrow> lutmem \<Rightarrow> 'a cres" where
  "FoldLUT lut init f start stop m =
     (case lut of None \<Rightarrow> Inr init
      | Some l \<Rightarrow> cfor start stop (\<lambda>k. fold_table l k (\<lambda>key v init. Inr (f init v key)) (\<lambda>_. m)) init)"

subsection \<open>Tables\<close>

definition LUTgenerateLut :: "lutmem \<Rightarrow> (nat option \<times> lutmem) cres" where
  "LUTgenerateLut m =
     (let l = length (luts m) in
      bindR (cfor 0 HASH_KEYS (\<lambda>k m.
          let (f, m) = new_fragment m in
          put_lut l k \<lparr>lut_first = Some (f, 0), lut_next = Some (f, 0), lut_size = 0\<rparr> m)
        (m\<lparr>luts := luts m @ [Some (allocv HASH_KEYS)]\<rparr>)) (\<lambda>m. Inr (Some l, m)))"

definition LUTduplicateLut :: "nat option \<Rightarrow> lutmem \<Rightarrow> (nat option \<times> lutmem) cres" where
  "LUTduplicateLut lut m =
     (case lut of None \<Rightarrow> Inr (None, m) | Some l \<Rightarrow>
        bindR (LUTgenerateLut m) (\<lambda>(new_lut, m).
        bindR (cfor 0 HASH_KEYS_POINTER (\<lambda>k.
          fold_table l k (\<lambda>key v. InsertIntoLUT_noDBUG new_lut key v k) (\<lambda>m. m)) m) (\<lambda>m.
        bindR (cfor HASH_KEYS_POINTER HASH_KEYS (\<lambda>k.
          fold_table l k (\<lambda>key v m. bindR (STRcpy key m) (\<lambda>(key, m).
            InsertIntoLUT_noDBUG new_lut key v k m)) (\<lambda>m. m)) m) (\<lambda>m.
        Inr (new_lut, m)))))"

definition clear_pointers :: "nat \<Rightarrow> int \<Rightarrow> lutmem \<Rightarrow> lutmem cres" where
  "clear_pointers l k m =
     bindR (get_lut l k m) (\<lambda>b.
     dbug_assert ''illegal LUT size found!'' (0 \<le> lut_size b)
     (bindR (cfor 1 (lut_size b div LUT_SIZE + 1) (\<lambda>i m.
        bindR (get_lut l k m) (\<lambda>b. bindR (get_cell (lut_first b) (nat (2 * LUT_SIZE)) m) (\<lambda>p.
        bindR (as_vpp p) (\<lambda>e. bindR (put_lut l k (b\<lparr>lut_first := e\<rparr>) m) (\<lambda>m.
        free_fragment (lut_first b) m))))) m) (\<lambda>m.
      bindR (get_lut l k m) (\<lambda>b. put_lut l k (b\<lparr>lut_next := lut_first b, lut_size := 0\<rparr>) m))))"

definition clear_strings :: "nat \<Rightarrow> int \<Rightarrow> lutmem \<Rightarrow> lutmem cres" where
  "clear_strings l k m =
     bindR (get_lut l k m) (\<lambda>b.
     dbug_assert ''illegal LUT size found!'' (0 \<le> lut_size b)
     (bindR (cfor 0 (lut_size b) (\<lambda>i (tmp, fst_frag, m).
        bindR (get_cell tmp 0 m) (\<lambda>s. bindR (free_string s m) (\<lambda>m. bindR (put_cell tmp 0 PNull m) (\<lambda>m.
        bindR (next_entry i tmp m) (\<lambda>tmp.
          if (i + 1) mod LUT_SIZE = 0
          then bindR (free_fragment fst_frag m) (\<lambda>m. Inr (tmp, tmp, m))
          else Inr (tmp, fst_frag, m)))))) (lut_first b, lut_first b, m)) (\<lambda>(tmp, fst_frag, m).
      put_lut l k (b\<lparr>lut_first := fst_frag, lut_next := fst_frag, lut_size := 0\<rparr>) m)))"

definition LUTremoveContentLut :: "nat option \<Rightarrow> lutmem \<Rightarrow> lutmem cres" where
  "LUTremoveContentLut lut m =
     (case lut of None \<Rightarrow> Inr m | Some l \<Rightarrow>
        bindR (cfor 0 HASH_KEYS_POINTER (clear_pointers l) m)
          (cfor HASH_KEYS_POINTER HASH_KEYS (clear_strings l)))"

definition LUTremoveLut :: "nat option \<Rightarrow> lutmem \<Rightarrow> (nat option \<times> lutmem) cres" where
  "LUTremoveLut lut m =
     (case lut of None \<Rightarrow> Inr (None, m) | Some l \<Rightarrow>
        bindR (LUTremoveContentLut lut m) (\<lambda>m.
        bindR (cfor 0 HASH_KEYS (\<lambda>k m.
          bindR (get_lut l k m) (\<lambda>b.
          dbug_assert ''LUT not empty!'' (lut_size b = 0)
          (bindR (free_fragment (lut_first b) m) (put_lut l k (b\<lparr>lut_first := None\<rparr>))))) m) (\<lambda>m.
        bindR (deref (luts m) l) (\<lambda>_. Inr (None, m\<lparr>luts := (luts m)[l := None]\<rparr>)))))"

text \<open>The loop of \<open>LUTisEmptyLut\<close>, which stops at the first table that is not empty.\<close>

function empty_from :: "nat \<Rightarrow> int \<Rightarrow> lutmem \<Rightarrow> bool cres" where
  "empty_from l k m =
     (if k < HASH_KEYS then
        bindR (get_lut l k m) (\<lambda>b.
        dbug_assert ''illegal LUT size found!'' (0 \<le> lut_size b)
          (if 0 < lut_size b then Inr False else empty_from l (k + 1) m))
      else Inr True)"
  by pat_completeness auto
termination
  by (relation "measure (\<lambda>(_, k, _). nat (HASH_KEYS - k))") auto

declare empty_from.simps [simp del]

definition LUTisEmptyLut :: "nat option \<Rightarrow> lutmem \<Rightarrow> bool cres" where
  "LUTisEmptyLut lut m = (case lut of None \<Rightarrow> Inr True | Some l \<Rightarrow> empty_from l 0 m)"

subsection \<open>The exported functions for pointers and for strings\<close>

definition LUTsearchInLutP :: "(ptr \<Rightarrow> 64 word) \<Rightarrow> nat option \<Rightarrow> ptr \<Rightarrow> lutmem \<Rightarrow> (vpp \<times> lutmem) cres" where
  "LUTsearchInLutP A lut old_item m =
     bindR (GetHashKey_Pointer A old_item) (\<lambda>k. SearchInLUT_state lut old_item k IsEqual_Pointer True m)"

definition LUTsearchInLutS :: "nat option \<Rightarrow> ptr \<Rightarrow> lutmem \<Rightarrow> (vpp \<times> lutmem) cres" where
  "LUTsearchInLutS lut old_item m =
     bindR (GetHashKey_String old_item m) (\<lambda>k. SearchInLUT_state lut old_item k IsEqual_String True m)"

definition LUTsearchInLutNextP :: "lutmem \<Rightarrow> (vpp \<times> lutmem) cres" where
  "LUTsearchInLutNextP m = SearchInLUT_state None PNull 0 IsEqual_Pointer False m"

definition LUTsearchInLutNextS :: "lutmem \<Rightarrow> (vpp \<times> lutmem) cres" where
  "LUTsearchInLutNextS m = SearchInLUT_state None PNull 0 IsEqual_String False m"

definition found_or :: "ptr \<Rightarrow> (vpp \<times> lutmem) cres \<Rightarrow> (ptr \<times> lutmem) cres" where
  "found_or old_item r = bindR r (\<lambda>(new_item_p, m).
     if new_item_p = None then Inr (old_item, m)
     else bindR (get_cell new_item_p 0 m) (\<lambda>new_item. Inr (new_item, m)))"

definition LUTsearchInLutPp :: "(ptr \<Rightarrow> 64 word) \<Rightarrow> nat option \<Rightarrow> ptr \<Rightarrow> lutmem \<Rightarrow> (ptr \<times> lutmem) cres" where
  "LUTsearchInLutPp A lut old_item m = found_or old_item (LUTsearchInLutP A lut old_item m)"

definition LUTsearchInLutSs :: "nat option \<Rightarrow> ptr \<Rightarrow> lutmem \<Rightarrow> (ptr \<times> lutmem) cres" where
  "LUTsearchInLutSs lut old_item m =
     found_or old_item (bindR (GetHashKey_String old_item m) (\<lambda>k.
       SearchInLUT_state lut old_item k IsEqual_String True m))"

definition LUTinsertIntoLutP ::
  "(ptr \<Rightarrow> 64 word) \<Rightarrow> nat option \<Rightarrow> ptr \<Rightarrow> ptr \<Rightarrow> lutmem \<Rightarrow> (nat option \<times> lutmem) cres" where
  "LUTinsertIntoLutP A lut old_item new_item m =
     bindR (GetHashKey_Pointer A old_item) (\<lambda>k. InsertIntoLUT lut old_item new_item k m)"

definition LUTinsertIntoLutS ::
  "nat option \<Rightarrow> ptr \<Rightarrow> ptr \<Rightarrow> lutmem \<Rightarrow> (nat option \<times> lutmem) cres" where
  "LUTinsertIntoLutS lut old_item new_item m =
     bindR (STRcpy old_item m) (\<lambda>(copy, m). bindR (GetHashKey_String old_item m) (\<lambda>k.
       InsertIntoLUT lut copy new_item k m))"

definition LUTupdateLutP ::
  "(ptr \<Rightarrow> 64 word) \<Rightarrow> nat option \<Rightarrow> ptr \<Rightarrow> ptr \<Rightarrow> lutmem \<Rightarrow> (nat option \<times> ptr \<times> lutmem) cres" where
  "LUTupdateLutP A lut old_item new_item m =
     bindR (GetHashKey_Pointer A old_item) (\<lambda>k. UpdateLUT lut old_item new_item k IsEqual_Pointer m)"

definition LUTupdateLutS ::
  "nat option \<Rightarrow> ptr \<Rightarrow> ptr \<Rightarrow> lutmem \<Rightarrow> (nat option \<times> ptr \<times> lutmem) cres" where
  "LUTupdateLutS lut old_item new_item m =
     bindR (GetHashKey_String old_item m) (\<lambda>k. UpdateLUT lut old_item new_item k IsEqual_String m)"

definition LUTmapLutP :: "nat option \<Rightarrow> (ptr \<Rightarrow> ptr \<Rightarrow> ptr) \<Rightarrow> lutmem \<Rightarrow> lutmem cres" where
  "LUTmapLutP lut f m = MapLUT lut f 0 HASH_KEYS_POINTER m"

definition LUTmapLutS :: "nat option \<Rightarrow> (ptr \<Rightarrow> ptr \<Rightarrow> ptr) \<Rightarrow> lutmem \<Rightarrow> lutmem cres" where
  "LUTmapLutS lut f m = MapLUT lut f HASH_KEYS_POINTER HASH_KEYS m"

definition LUTfoldLutP :: "nat option \<Rightarrow> 'a \<Rightarrow> ('a \<Rightarrow> ptr \<Rightarrow> ptr \<Rightarrow> 'a) \<Rightarrow> lutmem \<Rightarrow> 'a cres" where
  "LUTfoldLutP lut init f m = FoldLUT lut init f 0 HASH_KEYS_POINTER m"

definition LUTfoldLutS :: "nat option \<Rightarrow> 'a \<Rightarrow> ('a \<Rightarrow> ptr \<Rightarrow> ptr \<Rightarrow> 'a) \<Rightarrow> lutmem \<Rightarrow> 'a cres" where
  "LUTfoldLutS lut init f m = FoldLUT lut init f HASH_KEYS_POINTER HASH_KEYS m"

end
