(* ===== verification/LUT_Chain.thy ===== *)
theory LUT_Chain
  imports LUT
begin

text \<open>
  Chains of fragments.  \<open>chain fr fs xs\<close> says that the fragments \<open>fs\<close> of the memory \<open>fr\<close>, in this order, hold the pairs
  \<open>xs\<close>, and that the link of the last fragment has never been written; the lemmas read, change, extend and free such a chain, and keep it when other fragments
  change.
\<close>

named_theorems fmem \<open>cells and fragments after a change of the memory\<close>

subsection \<open>Cells\<close>

definition fcell :: "'a cvec option list \<Rightarrow> nat \<Rightarrow> nat \<Rightarrow> 'a option" where
  "fcell fr f i = (if f < length fr then
     (case fr ! f of None \<Rightarrow> None | Some v \<Rightarrow> if i < length v then v ! i else None) else None)"

definition is_frag :: "ptr cvec option list \<Rightarrow> nat \<Rightarrow> bool" where
  "is_frag fr f \<longleftrightarrow> f < length fr \<and> (\<exists>v. fr ! f = Some v \<and> length v = 11)"

definition live :: "'a option list \<Rightarrow> nat \<Rightarrow> bool" where
  "live xs p \<longleftrightarrow> p < length xs \<and> xs ! p \<noteq> None"

definition fput :: "'a cvec option list \<Rightarrow> nat \<Rightarrow> nat \<Rightarrow> 'a \<Rightarrow> 'a cvec option list" where
  "fput fr f i p = fr[f := Some ((the (fr ! f))[i := Some p])]"

definition fnew :: "ptr cvec option list \<Rightarrow> ptr cvec option list" where
  "fnew fr = fr @ [Some (replicate 11 None)]"

lemma live_frag: "is_frag fr f \<Longrightarrow> live fr f"
  by (auto simp: is_frag_def live_def)

definition is_table :: "lut_t cvec option list \<Rightarrow> nat \<Rightarrow> bool" where
  "is_table ls l \<longleftrightarrow> l < length ls \<and> (\<exists>v. ls ! l = Some v \<and> length v = 49)"

lemma dead_cell: "\<not> live fr f \<Longrightarrow> fcell fr f i = None \<and> \<not> is_frag fr f"
  by (auto simp: live_def fcell_def is_frag_def)

lemma fput_simps [fmem]:
  assumes "is_frag fr f" and "i < 11"
  shows "fcell (fput fr f i p) g j = (if g = f \<and> j = i then Some p else fcell fr g j)"
    and "is_frag (fput fr f i p) g = is_frag fr g" and "live (fput fr f i p) g = live fr g"
    and "length (fput fr f i p) = length fr"
  using assms by (auto simp: fput_def fcell_def is_frag_def live_def nth_list_update)

lemma fput_table [fmem]:
  assumes "is_table ls l" and "k < 49"
  shows "fcell (fput ls l k b) g j = (if g = l \<and> j = k then Some b else fcell ls g j)"
    and "is_table (fput ls l k b) g = is_table ls g" and "live (fput ls l k b) g = live ls g"
    and "length (fput ls l k b) = length ls" and "fput (fput ls l k b) l k c = fput ls l k c"
  using assms by (auto simp: fput_def fcell_def is_table_def live_def nth_list_update)

lemma fnew_simps [fmem]:
  "fcell (fnew fr) g j = fcell fr g j" "is_frag (fnew fr) g \<longleftrightarrow> is_frag fr g \<or> g = length fr"
  "live (fnew fr) g \<longleftrightarrow> live fr g \<or> g = length fr" "length (fnew fr) = Suc (length fr)"
  by (auto simp: fnew_def fcell_def is_frag_def live_def nth_append)

lemma free_simps [fmem]:
  "fcell (fr[f := None]) g j = (if g = f then None else fcell fr g j)"
  "is_frag (fr[f := None]) g \<longleftrightarrow> is_frag fr g \<and> g \<noteq> f"
  by (cases "f < length fr"; auto simp: fcell_def is_frag_def nth_list_update split: if_splits)+

lemma live_update [fmem]: "live (xs[p := None]) q \<longleftrightarrow> live xs q \<and> q \<noteq> p"
  by (cases "p < length xs") (auto simp: live_def nth_list_update split: if_splits)

lemma live_append [fmem]: "live (xs @ [Some x]) q \<longleftrightarrow> live xs q \<or> q = length xs"
  by (auto simp: live_def nth_append)

lemma get_cell_ok: "fcell (frags m) f (i + j) = Some p \<Longrightarrow> get_cell (Some (f, i)) j m = Inr p"
  by (auto simp: get_cell_def fcell_def deref_def rd_def nat_int_add split: if_splits option.splits)

lemma put_cell_ok:
  "is_frag (frags m) f \<Longrightarrow> i + j < 11 \<Longrightarrow> put_cell (Some (f, i)) j p m = Inr (m\<lparr>frags := fput (frags m) f (i + j) p\<rparr>)"
  by (auto simp: put_cell_def is_frag_def deref_def wr_def fput_def nat_int_add)

lemma new_fragment_eq: "new_fragment m = (length (frags m), m\<lparr>frags := fnew (frags m)\<rparr>)"
  by (simp add: new_fragment_def fnew_def allocv_def LUT_SIZE_def)

lemma free_fragment_ok: "live (frags m) f \<Longrightarrow> free_fragment (Some (f, 0)) m = Inr (m\<lparr>frags := (frags m)[f := None]\<rparr>)"
  by (auto simp: free_fragment_def deref_def live_def)

subsection \<open>Chains\<close>

definition pos :: "nat list \<Rightarrow> nat \<Rightarrow> vpp" where
  "pos fs t = Some (fs ! (t div 5), 2 * (t mod 5))"

definition chain :: "ptr cvec option list \<Rightarrow> nat list \<Rightarrow> (ptr \<times> ptr) list \<Rightarrow> bool" where
  "chain fr fs xs \<longleftrightarrow> length fs = Suc (length xs div 5) \<and> distinct fs \<and> (\<forall>f\<in>set fs. is_frag fr f)
     \<and> (\<forall>t<length xs. fcell fr (fs ! (t div 5)) (2 * (t mod 5)) = Some (fst (xs ! t))
                    \<and> fcell fr (fs ! (t div 5)) (2 * (t mod 5) + 1) = Some (snd (xs ! t)))
     \<and> (\<forall>j<length xs div 5. fcell fr (fs ! j) 10 = Some (PFrag (fs ! Suc j)))
     \<and> fcell fr (fs ! (length xs div 5)) 10 = None"

lemma chainD:
  assumes "chain fr fs xs"
  shows "length fs = Suc (length xs div 5)" and "distinct fs" and "\<And>f. f \<in> set fs \<Longrightarrow> is_frag fr f"
    and "\<And>t. t < length xs \<Longrightarrow> fcell fr (fs ! (t div 5)) (2 * (t mod 5)) = Some (fst (xs ! t))"
    and "\<And>t. t < length xs \<Longrightarrow> fcell fr (fs ! (t div 5)) (Suc (2 * (t mod 5))) = Some (snd (xs ! t))"
    and "\<And>j. j < length xs div 5 \<Longrightarrow> fcell fr (fs ! j) 10 = Some (PFrag (fs ! Suc j))"
    and "\<And>t. t \<le> length xs \<Longrightarrow> fs ! (t div 5) \<in> set fs" and "fcell fr (fs ! (length xs div 5)) 10 = None"
proof -
  show "fs ! (t div 5) \<in> set fs" if "t \<le> length xs" for t
    using assms that div_le_mono [of t "length xs" 5] by (auto simp: chain_def)
qed (use assms in \<open>auto simp: chain_def\<close>)

lemma chain_frame:
  assumes "chain fr fs xs" and "\<And>f. f \<in> set fs \<Longrightarrow> is_frag fr' f"
    and "\<And>f i. f \<in> set fs \<Longrightarrow> fcell fr' f i = fcell fr f i"
  shows "chain fr' fs xs"
proof -
  have "fs ! (t div 5) \<in> set fs" if "t < length xs" for t using chainD(7) [OF assms(1)] that by simp
  moreover have "fs ! j \<in> set fs" if "j < length xs div 5" for j using chainD(1) [OF assms(1)] that by simp
  moreover have "fs ! (length xs div 5) \<in> set fs" using chainD(7) [OF assms(1)] by simp
  ultimately show ?thesis using assms by (auto simp: chain_def)
qed

lemma chain_fput_other: "chain fr fs xs \<Longrightarrow> is_frag fr f \<Longrightarrow> i < 11 \<Longrightarrow> f \<notin> set fs \<Longrightarrow> chain (fput fr f i p) fs xs"
  by (rule chain_frame) (auto simp: fmem dest: chainD(3))

lemma chain_fnew: "chain fr fs xs \<Longrightarrow> chain (fnew fr) fs xs"
  by (rule chain_frame) (auto simp: fmem dest: chainD(3))

lemma chain_free: "chain fr fs xs \<Longrightarrow> f \<notin> set fs \<Longrightarrow> chain (fr[f := None]) fs xs"
  by (rule chain_frame) (auto simp: fmem dest: chainD(3))

lemma chain_Nil: "is_frag fr f \<Longrightarrow> fcell fr f 10 = None \<Longrightarrow> chain fr [f] []"
  by (simp add: chain_def)

lemma chain_hd: "chain fr fs xs \<Longrightarrow> pos fs 0 = Some (hd fs, 0)"
  using chainD(1) [of fr fs xs] by (cases fs) (auto simp: pos_def)

subsection \<open>Walking along a chain\<close>

lemma get_key: "chain (frags m) fs xs \<Longrightarrow> t < length xs \<Longrightarrow> get_cell (pos fs t) 0 m = Inr (fst (xs ! t))"
  by (simp add: pos_def get_cell_ok chainD(4))

lemma get_val: "chain (frags m) fs xs \<Longrightarrow> t < length xs \<Longrightarrow> get_cell (pos fs t) 1 m = Inr (snd (xs ! t))"
  by (simp add: pos_def get_cell_ok chainD(5))

lemma int_mod_5: "int t mod LUT_SIZE = 0 \<longleftrightarrow> t mod 5 = 0"
  unfolding LUT_SIZE_def by presburger

lemma next_pos_link:
  assumes t: "int (Suc t) \<le> int_max"
    and link: "t mod 5 = 4 \<Longrightarrow> fcell (frags m) (fs ! (t div 5)) 10 = Some (PFrag (fs ! Suc (t div 5)))"
  shows "next_entry (int t) (pos fs t) m = Inr (pos fs (Suc t))"
proof -
  have ck: "ck_int (int t + 1) = Inr (int (Suc t))" using t by (simp add: ck_int_ok)
  show ?thesis
  proof (cases "Suc t mod 5 = 0")
    case False
    then have "Suc t div 5 = t div 5" "Suc t mod 5 = Suc (t mod 5)" by presburger+
    moreover have "int (Suc t) mod LUT_SIZE \<noteq> 0" using False int_mod_5 [of "Suc t"] by simp
    ultimately show ?thesis using ck by (simp add: next_entry_def pos_def vpp_add_def)
  next
    case True
    then have d: "t mod 5 = 4" "Suc t div 5 = Suc (t div 5)" by presburger+
    have p: "pos fs (Suc t) = Some (fs ! Suc (t div 5), 0)" by (simp only: pos_def d(2) True mult_0_right)
    moreover have "int (Suc t) mod LUT_SIZE = 0" using True int_mod_5 [of "Suc t"] by simp
    ultimately show ?thesis
      using ck d(1) link
      by (simp add: p next_entry_def pos_def [of fs t] vpp_add_def as_vpp_def get_cell_ok [of m _ 10 0] del: of_nat_Suc)
  qed
qed

lemma div_5_less:
  assumes "t < n" and "t mod 5 = 4"
  shows "t div 5 < n div (5 :: nat)"
proof -
  have "5 * (t div 5) + 5 \<le> n" using assms div_mult_mod_eq [of t 5] by simp
  then have "Suc (t div 5) \<le> n div 5" by (simp add: less_eq_div_iff_mult_less_eq)
  then show ?thesis by simp
qed

lemma next_pos:
  assumes c: "chain (frags m) fs xs" and t: "t < length xs" and n: "int (length xs) \<le> int_max"
  shows "next_entry (int t) (pos fs t) m = Inr (pos fs (Suc t))"
  by (rule next_pos_link) (use t n in \<open>auto intro!: chainD(6) [OF c] div_5_less\<close>)

subsection \<open>Changing the fragments of one chain\<close>

text \<open>
  The step from \<open>fr\<close> to \<open>fr'\<close> changes only the fragments of a chain, \<open>S\<close> before and \<open>S'\<close> after: what is new in the
  chain has been allocated, what has left it has been freed.
\<close>

definition chain_step :: "ptr cvec option list \<Rightarrow> nat set \<Rightarrow> ptr cvec option list \<Rightarrow> nat set \<Rightarrow> bool" where
  "chain_step fr S fr' S' \<longleftrightarrow>
     (\<forall>g. g \<notin> S \<longrightarrow> g \<notin> S' \<longrightarrow> (\<forall>i. fcell fr' g i = fcell fr g i) \<and> is_frag fr' g = is_frag fr g \<and> live fr' g = live fr g)
     \<and> (\<forall>g\<in>S'. live fr' g \<and> (g \<in> S \<or> \<not> live fr g)) \<and> (\<forall>g\<in>S - S'. \<not> live fr' g)"

lemma chain_step_other:
  assumes "chain_step fr S fr' S'" and "chain fr fs xs" and "set fs \<inter> S = {}"
  shows "chain fr' fs xs" and "set fs \<inter> S' = {}"
proof -
  have "\<And>g. g \<in> set fs \<Longrightarrow> live fr g" using chainD(3) [OF assms(2)] live_frag by blast
  then show "set fs \<inter> S' = {}" using assms(1,3) by (auto simp: chain_step_def)
  then show "chain fr' fs xs"
    using assms chainD(3) [OF assms(2)] by (intro chain_frame [OF assms(2)]) (auto simp: chain_step_def)
qed

lemma chain_step_refl: "(\<And>g. g \<in> S \<Longrightarrow> live fr g) \<Longrightarrow> chain_step fr S fr S"
  by (simp add: chain_step_def)

lemma chain_stepD:
  assumes "chain_step fr S fr' S'"
  shows "g \<notin> S \<Longrightarrow> g \<notin> S' \<Longrightarrow> fcell fr' g i = fcell fr g i"
    and "g \<notin> S \<Longrightarrow> g \<notin> S' \<Longrightarrow> is_frag fr' g = is_frag fr g" and "g \<notin> S \<Longrightarrow> g \<notin> S' \<Longrightarrow> live fr' g = live fr g"
    and "g \<in> S' \<Longrightarrow> live fr' g" and "g \<in> S' \<Longrightarrow> g \<notin> S \<Longrightarrow> \<not> live fr g" and "g \<in> S \<Longrightarrow> g \<notin> S' \<Longrightarrow> \<not> live fr' g"
  using assms by (auto simp: chain_step_def)

lemma chain_step_trans:
  assumes a: "chain_step fr S fr' S'" and b: "chain_step fr' S' fr'' S''"
  shows "chain_step fr S fr'' S''"
  unfolding chain_step_def
proof (intro conjI allI ballI impI)
  show "fcell fr'' g i = fcell fr g i" "is_frag fr'' g = is_frag fr g" "live fr'' g = live fr g"
    if g: "g \<notin> S" "g \<notin> S''" for g i
  proof (atomize (full), cases "g \<in> S'")
    case True
    then have "\<not> live fr g" "\<not> live fr'' g" using g chain_stepD(5) [OF a, of g] chain_stepD(6) [OF b, of g] by blast+
    then show "fcell fr'' g i = fcell fr g i \<and> is_frag fr'' g = is_frag fr g \<and> live fr'' g = live fr g"
      by (simp add: dead_cell)
  qed (use g chain_stepD [OF a] chain_stepD [OF b] in simp)
  show "live fr'' g" if "g \<in> S''" for g using that chain_stepD(4) [OF b] by blast
  show "g \<in> S \<or> \<not> live fr g" if "g \<in> S''" for g using that chain_stepD(4,5) [OF b, of g] chain_stepD(3,5) [OF a, of g] by argo
  show "\<not> live fr'' g" if "g \<in> S - S''" for g using that chain_stepD(6) [OF a, of g] chain_stepD(3,6) [OF b, of g] by blast
qed

lemma chain_step_fput:
  assumes "\<And>g. g \<in> S \<Longrightarrow> is_frag fr g" and "f \<in> S" and "i < 11"
  shows "chain_step fr S (fput fr f i p) S"
  using assms by (auto simp: chain_step_def fmem live_frag)

lemma chain_step_fnew: "(\<And>g. g \<in> S \<Longrightarrow> live fr g) \<Longrightarrow> chain_step fr S (fnew fr) (insert (length fr) S)"
  by (auto simp: chain_step_def fmem) (auto simp: live_def)

lemma chain_step_free:
  "(\<And>g. g \<in> S \<Longrightarrow> live fr g) \<Longrightarrow> f \<in> S \<Longrightarrow> chain_step fr S (fr[f := None]) (S - {f})"
  by (auto simp: chain_step_def fmem)

subsection \<open>Appending a pair\<close>

lemma pos_free_cell:
  assumes c: "chain fr fs xs" and t: "t < length xs"
  shows "\<not> (fs ! (length xs div 5) = fs ! (t div 5) \<and> length xs mod 5 = t mod 5)"
proof
  assume e: "fs ! (length xs div 5) = fs ! (t div 5) \<and> length xs mod 5 = t mod 5"
  have "t div 5 \<le> length xs div 5" using t by (intro div_le_mono) simp
  then have "length xs div 5 = t div 5" using e chainD(1,2) [OF c] by (auto simp: nth_eq_iff_index_eq)
  with e have "length xs = t" by (metis div_mult_mod_eq)
  with t show False by simp
qed

lemma chain_snoc:
  assumes c: "chain fr fs xs" and len: "length fs' = Suc (Suc (length xs) div 5)" and d: "distinct fs'"
    and frag: "\<And>f. f \<in> set fs' \<Longrightarrow> is_frag fr' f" and pre: "\<And>j. j < length fs \<Longrightarrow> fs' ! j = fs ! j"
    and old: "\<And>j i. j < length fs \<Longrightarrow> i < 10 \<Longrightarrow> \<not> (j = length xs div 5 \<and> i div 2 = length xs mod 5) \<Longrightarrow>
      fcell fr' (fs ! j) i = fcell fr (fs ! j) i"
    and links: "\<And>j. j < Suc (length xs) div 5 \<Longrightarrow> fcell fr' (fs' ! j) 10 = Some (PFrag (fs' ! Suc j))"
    and last: "fcell fr' (fs' ! (Suc (length xs) div 5)) 10 = None"
    and new: "fcell fr' (fs ! (length xs div 5)) (2 * (length xs mod 5)) = Some p"
      "fcell fr' (fs ! (length xs div 5)) (Suc (2 * (length xs mod 5))) = Some v"
  shows "chain fr' fs' (xs @ [(p, v)])"
proof -
  have cells: "fcell fr' (fs' ! (t div 5)) (2 * (t mod 5)) = Some (fst ((xs @ [(p, v)]) ! t)) \<and>
      fcell fr' (fs' ! (t div 5)) (2 * (t mod 5) + 1) = Some (snd ((xs @ [(p, v)]) ! t))" if t: "t < Suc (length xs)" for t
  proof -
    have j: "t div 5 < length fs" using t chainD(1) [OF c] by (simp add: div_le_mono less_Suc_eq_le)
    show ?thesis
    proof (cases "t = length xs")
      case True
      then show ?thesis using new pre [OF j] by simp
    next
      case False
      then have "t < length xs" "\<not> (t div 5 = length xs div 5 \<and> t mod 5 = length xs mod 5)"
        using t by (simp, metis div_mult_mod_eq)
      then show ?thesis
        using old [OF j, of "2 * (t mod 5)"] old [OF j, of "Suc (2 * (t mod 5))"] pre [OF j] chainD(4,5) [OF c]
        by (simp add: nth_append)
    qed
  qed
  show ?thesis using len d frag links last cells by (auto simp: chain_def)
qed

lemma half: "k = 2 * m \<or> k = Suc (2 * m) \<longleftrightarrow> k div 2 = m" for k m :: nat
  by presburger

lemma chain_append:
  assumes c: "chain fr fs xs" and n: "Suc (length xs) mod 5 \<noteq> 0"
    and f: "f = fs ! (length xs div 5)" and i: "i = 2 * (length xs mod 5)"
  shows "chain (fput (fput fr f i p) f (Suc i) v) fs (xs @ [(p, v)])"
proof -
  have fr: "is_frag fr f" using chainD(3,7) [OF c] f by simp
  have i': "Suc i < 11" "i < 11" "i < 10" "Suc i \<noteq> 10" using i n by presburger+
  have d: "Suc (length xs) div 5 = length xs div 5" using n by presburger
  have j: "fs ! j = f \<longleftrightarrow> j = length xs div 5" if "j < length fs" for j
    using that chainD(1,2) [OF c] f by (simp add: nth_eq_iff_index_eq)
  have k: "k = i \<or> k = Suc i \<longleftrightarrow> k div 2 = length xs mod 5" for k
    unfolding i using half [of k "length xs mod 5"] by simp
  show ?thesis
  proof (rule chain_snoc [OF c])
    show "fcell (fput (fput fr f i p) f (Suc i) v) (fs ! j) k = fcell fr (fs ! j) k"
      if "j < length fs" "k < 10" "\<not> (j = length xs div 5 \<and> k div 2 = length xs mod 5)" for j k
      using that j [of j] k [of k] fr i' by (auto simp: fmem)
    show "fcell (fput (fput fr f i p) f (Suc i) v) (fs ! j) 10 = Some (PFrag (fs ! Suc j))"
      if "j < Suc (length xs) div 5" for j
      using that chainD(6) [OF c, of j] fr i' d by (simp add: fmem)
  qed (use chainD(1,2,3,8) [OF c] fr i' d f i in \<open>simp_all add: fmem\<close>)
qed

lemma chain_append_full:
  assumes c: "chain fr fs xs" and n: "Suc (length xs) mod 5 = 0"
    and f: "f = fs ! (length xs div 5)"
  shows "chain (fput (fnew (fput (fput fr f 8 p) f 9 v)) f 10 (PFrag (length fr))) (fs @ [length fr]) (xs @ [(p, v)])"
proof -
  have fr: "is_frag fr f" using chainD(3,7) [OF c] f by simp
  have d: "Suc (length xs) div 5 = Suc (length xs div 5)" "length xs mod 5 = 4" using n by presburger+
  have new: "length fr \<notin> set fs" using chainD(3) [OF c] by (auto simp: is_frag_def)
  have j: "fs ! j = f \<longleftrightarrow> j = length xs div 5" if "j < length fs" for j
    using that chainD(1,2) [OF c] f by (simp add: nth_eq_iff_index_eq)
  have k: "k = 8 \<or> k = 9 \<longleftrightarrow> k div 2 = 4" for k :: nat using half [of k 4] by simp
  let ?fr = "fput (fnew (fput (fput fr f 8 p) f 9 v)) f 10 (PFrag (length fr))"
  show ?thesis
  proof (rule chain_snoc [OF c])
    show "fcell ?fr (fs ! j) k = fcell fr (fs ! j) k"
      if "j < length fs" "k < 10" "\<not> (j = length xs div 5 \<and> k div 2 = length xs mod 5)" for j k
      using that j [of j] k [of k] fr d by (auto simp: fmem)
    show "fcell ?fr ((fs @ [length fr]) ! j) 10 = Some (PFrag ((fs @ [length fr]) ! Suc j))"
      if "j < Suc (length xs) div 5" for j
      using that chainD(1) [OF c] chainD(6) [OF c, of j] j [of j] fr d by (auto simp: fmem nth_append)
    have "fcell fr (length fr) 10 = None" by (simp add: fcell_def)
    moreover have "f \<noteq> length fr" using new chainD(7) [OF c, of "length xs"] f by auto
    ultimately show "fcell ?fr ((fs @ [length fr]) ! (Suc (length xs) div 5)) 10 = None"
      using chainD(1) [OF c] fr d by (simp add: fmem nth_append)
  qed (use chainD(1,2,3) [OF c] fr d f new in \<open>auto simp: fmem nth_append\<close>)
qed

end
