(* ===== verification/LUT_Tables.thy ===== *)
theory LUT_Tables
  imports LUT_Chain
begin

text \<open>
  The functions on one collision table: searching, which goes from one match to the next; appending;
  mapping and folding; and emptying.  The functions that search are given a hash key and a comparison; the locale
  \<open>key_match\<close> says what the comparison has to be, and is interpreted on pointers and on strings.
\<close>

definition table_of :: "nat list \<Rightarrow> nat \<Rightarrow> lut_t" where
  "table_of fs n = \<lparr>lut_first = pos fs 0, lut_next = pos fs n, lut_size = int n\<rparr>"

lemma get_lut_ok: "fcell (luts m) l k = Some b \<Longrightarrow> get_lut l (int k) m = Inr b"
  by (auto simp: get_lut_def fcell_def deref_def rd_def split: if_splits option.splits)

lemma put_lut_ok: "is_table (luts m) l \<Longrightarrow> k < 49 \<Longrightarrow> put_lut l (int k) b m = Inr (m\<lparr>luts := fput (luts m) l k b\<rparr>)"
  by (auto simp: put_lut_def is_table_def deref_def wr_def fput_def)

subsection \<open>Searching\<close>

text \<open>The position of the first pair that matches, from a position on.\<close>

fun first_hit :: "('a \<Rightarrow> bool) \<Rightarrow> 'a list \<Rightarrow> nat" where
  "first_hit P [] = 0"
| "first_hit P (x # xs) = (if P x then 0 else Suc (first_hit P xs))"

definition hit :: "('a \<Rightarrow> bool) \<Rightarrow> 'a list \<Rightarrow> nat \<Rightarrow> nat" where
  "hit P xs t = t + first_hit P (drop t xs)"

lemma hit_step: "t < length xs \<Longrightarrow> hit P xs t = (if P (xs ! t) then t else hit P xs (Suc t))"
  by (simp add: hit_def Cons_nth_drop_Suc [symmetric])

lemma hit_end: "hit P xs (length xs) = length xs"
  by (simp add: hit_def)

lemma first_hit_le: "first_hit P xs \<le> length xs"
  by (induction xs) auto

lemma hit_le: "t \<le> length xs \<Longrightarrow> hit P xs t \<le> length xs"
  using first_hit_le [of P "drop t xs"] by (simp add: hit_def)

lemma filter_hit: "filter P (drop t xs) = (if hit P xs t < length xs then xs ! hit P xs t # filter P (drop (Suc (hit P xs t)) xs) else [])"
proof (induction "length xs - t" arbitrary: t)
  case 0
  then show ?case by (simp add: hit_def)
next
  case (Suc n)
  then have t: "t < length xs" by simp
  have "filter P (drop (Suc t) xs) = (if hit P xs (Suc t) < length xs
      then xs ! hit P xs (Suc t) # filter P (drop (Suc (hit P xs (Suc t))) xs) else [])"
    using Suc by (intro Suc.hyps(1)) simp
  then show ?case using t by (simp add: hit_step [OF t] Cons_nth_drop_Suc [symmetric])
qed

definition val_pos :: "nat list \<Rightarrow> nat \<Rightarrow> vpp" where
  "val_pos fs t = Some (fs ! (t div 5), Suc (2 * (t mod 5)))"

lemma val_pos_Some [simp]: "(val_pos fs t = None) = False"
  by (simp add: val_pos_def)

lemma hit_holds: "hit P xs 0 < length xs \<Longrightarrow> P (xs ! hit P xs 0)"
  unfolding hit_def by (induction xs) auto

lemma pos_add_1: "vpp_add (pos fs t) (Suc 0) = Inr (val_pos fs t)"
  by (simp add: pos_def val_pos_def vpp_add_def)

lemma get_val_pos: "chain (frags m) fs xs \<Longrightarrow> t < length xs \<Longrightarrow> get_cell (val_pos fs t) 0 m = Inr (snd (xs ! t))"
  by (simp add: val_pos_def get_cell_ok chainD(5))

definition found :: "(ptr \<times> ptr \<Rightarrow> bool) \<Rightarrow> nat list \<Rightarrow> (ptr \<times> ptr) list \<Rightarrow> nat \<Rightarrow> vpp \<times> int \<times> vpp" where
  "found P fs xs t = (let j = hit P xs t in (if j < length xs then val_pos fs j else None, int j, pos fs j))"

locale key_match =
  fixes same :: "lutmem \<Rightarrow> ptr \<Rightarrow> ptr \<Rightarrow> bool cres"
    and key :: "string option list \<Rightarrow> ptr \<Rightarrow> 'k"
    and is_key :: "string option list \<Rightarrow> ptr \<Rightarrow> bool"
  assumes same_key: "is_key (strings m) p \<Longrightarrow> is_key (strings m) q \<Longrightarrow>
      same m p q = Inr (key (strings m) p = key (strings m) q)"
begin

definition matches :: "string option list \<Rightarrow> ptr \<Rightarrow> ptr \<times> ptr \<Rightarrow> bool" where
  "matches ss q x \<longleftrightarrow> key ss (fst x) = key ss q"

lemma search_ok:
  assumes c: "chain (frags m) fs xs" and n: "int (length xs) \<le> int_max"
    and k: "\<And>x. x \<in> set xs \<Longrightarrow> is_key (strings m) (fst x)" and q: "is_key (strings m) q" and t: "t \<le> length xs"
  shows "SearchInLUT_from same q (int (length xs)) (int t) (pos fs t) m = Inr (found (matches (strings m) q) fs xs t)"
  using t
proof (induction "length xs - t" arbitrary: t)
  case 0
  then show ?case by (simp add: SearchInLUT_from.simps found_def hit_def)
next
  case (Suc d)
  then have t: "t < length xs" by simp
  have s: "same m (fst (xs ! t)) q = Inr (matches (strings m) q (xs ! t))"
    unfolding matches_def using t k q by (intro same_key) auto
  have rest: "SearchInLUT_from same q (int (length xs)) (int t + 1) (pos fs (Suc t)) m = Inr (found (matches (strings m) q) fs xs (Suc t))"
    using Suc.hyps(1) [of "Suc t"] Suc.hyps(2) t by (simp add: add.commute)
  show ?case
    using t get_key [OF c t] next_pos [OF c t n] s rest hit_step [OF t, of "matches (strings m) q"]
    by (subst SearchInLUT_from.simps) (auto simp: found_def pos_add_1 Let_def)
qed

end

definition string_key :: "string option list \<Rightarrow> ptr \<Rightarrow> string" where
  "string_key ss p = (case p of PStr i \<Rightarrow> the (ss ! i) | _ \<Rightarrow> '''')"

definition is_string :: "string option list \<Rightarrow> ptr \<Rightarrow> bool" where
  "is_string ss p \<longleftrightarrow> (\<exists>i. p = PStr i \<and> live ss i)"

interpretation pk: key_match IsEqual_Pointer "\<lambda>_ p. p" "\<lambda>_ _. True"
  by unfold_locales (simp add: IsEqual_Pointer_def)

lemma str_of_ok: "is_string (strings m) p \<Longrightarrow> str_of p m = Inr (string_key (strings m) p)"
  by (auto simp: is_string_def str_of_def string_key_def deref_def live_def)

lemma is_string_nonnull: "is_string ss p \<Longrightarrow> p \<noteq> PNull"
  by (auto simp: is_string_def)

interpretation sk: key_match IsEqual_String string_key is_string
  by unfold_locales (simp add: IsEqual_String_def STReq_def str_of_ok is_string_nonnull)

subsection \<open>Appending\<close>

lemma insert_ok:
  assumes c: "chain (frags m) fs xs" and b: "fcell (luts m) l k = Some (table_of fs (length xs))"
    and l: "is_table (luts m) l" "k < 49" and n: "int (length xs) < int_max"
  shows "\<exists>fr' fs'. InsertIntoLUT_noDBUG (Some l) p v (int k) m
      = Inr (m\<lparr>frags := fr', luts := fput (luts m) l k (table_of fs' (Suc (length xs)))\<rparr>)
    \<and> chain fr' fs' (xs @ [(p, v)]) \<and> chain_step (frags m) (set fs) fr' (set fs')"
proof -
  define f where "f = fs ! (length xs div 5)"
  define i where "i = 2 * (length xs mod 5)"
  let ?fr = "fput (fput (frags m) f i p) f (Suc i) v"
  have fr: "is_frag (frags m) f" and f: "f \<in> set fs" using chainD(3,7) [OF c] f_def by simp_all
  have i: "Suc i < 11" "i < 11" unfolding i_def by presburger+
  have sz: "ck_int (int (length xs) + 1) = Inr (int (Suc (length xs)))" using n by (simp add: ck_int_ok)
  have alive: "\<And>g. g \<in> set fs \<Longrightarrow> is_frag (frags m) g" using chainD(3) [OF c] .
  have step: "chain_step (frags m) (set fs) ?fr (set fs)"
    by (rule chain_step_trans [OF chain_step_fput [of "set fs" "frags m" f i p] chain_step_fput])
       (use alive f fr i in \<open>simp_all add: fmem\<close>)
  show ?thesis
  proof (cases "Suc (length xs) mod 5 = 0")
    case False
    have nx: "pos fs (Suc (length xs)) = Some (f, Suc (Suc i))"
    proof -
      have "Suc (length xs) div 5 = length xs div 5" "Suc (length xs) mod 5 = Suc (length xs mod 5)" using False by presburger+
      then show ?thesis by (simp add: pos_def f_def i_def)
    qed
    have "InsertIntoLUT_noDBUG (Some l) p v (int k) m
        = Inr (m\<lparr>frags := ?fr, luts := fput (luts m) l k (table_of fs (Suc (length xs)))\<rparr>)"
      using fr i l sz False nx int_mod_5 [of "Suc (length xs)"]
      by (simp add: InsertIntoLUT_noDBUG_def get_lut_ok [OF b] put_lut_ok table_of_def pos_def f_def [symmetric] i_def [symmetric]
          put_cell_ok vpp_add_def fmem)
    moreover have "chain ?fr fs (xs @ [(p, v)])" by (rule chain_append [OF c False f_def i_def])
    ultimately show ?thesis using step by blast
  next
    case True
    then have i8: "i = 8" unfolding i_def by presburger
    let ?g = "length (frags m)"
    let ?fr2 = "fput (fnew ?fr) f 10 (PFrag ?g)"
    have nx: "pos (fs @ [?g]) (Suc (length xs)) = Some (?g, 0)"
    proof -
      have "Suc (length xs) div 5 = length fs" using True chainD(1) [OF c] by presburger
      then show ?thesis using True by (simp add: pos_def)
    qed
    have p0: "pos (fs @ [?g]) 0 = pos fs 0" using chainD(1) [OF c] by (simp add: pos_def nth_append)
    have "InsertIntoLUT_noDBUG (Some l) p v (int k) m
        = Inr (m\<lparr>frags := ?fr2, luts := fput (luts m) l k (table_of (fs @ [?g]) (Suc (length xs)))\<rparr>)"
      using fr i8 l sz True nx p0 int_mod_5 [of "Suc (length xs)"]
      by (simp add: InsertIntoLUT_noDBUG_def get_lut_ok [OF b] put_lut_ok table_of_def pos_def [of fs "length xs"] f_def [symmetric] i_def [symmetric]
          put_cell_ok vpp_add_def fmem new_fragment_eq get_cell_ok [of _ f 10 0] as_vpp_def)
    moreover have "chain ?fr2 (fs @ [?g]) (xs @ [(p, v)])"
      using chain_append_full [OF c True f_def, of p v] i8 by simp
    moreover have "chain_step (frags m) (set fs) ?fr2 (set (fs @ [?g]))"
      using fr i f alive
      by (intro chain_step_trans [OF step] chain_step_trans [OF chain_step_fnew [of "set fs" ?fr]])
         (auto simp: fmem i8 live_frag intro!: chain_step_fput)
    ultimately show ?thesis by blast
  qed
qed

subsection \<open>Going through a table\<close>

lemma chain_fput_val:
  assumes c: "chain fr fs xs" and t: "t < length xs" and f: "f = fs ! (t div 5)" and i: "i = Suc (2 * (t mod 5))"
  shows "chain (fput fr f i v) fs (xs[t := (fst (xs ! t), v)])"
proof -
  have fr: "is_frag fr f" using chainD(3,7) [OF c] t f by simp
  have i': "i < 11" "i < 10" unfolding i by presburger+
  have par: "2 * j \<noteq> i" for j unfolding i by presburger
  have same: "fs ! (u div 5) = f \<and> Suc (2 * (u mod 5)) = i \<longleftrightarrow> u = t" if "u < length xs" for u
  proof -
    have "u div 5 < length fs" "t div 5 < length fs"
      using that t chainD(1) [OF c] by (simp_all add: div_le_mono less_Suc_eq_le)
    then have "fs ! (u div 5) = f \<longleftrightarrow> u div 5 = t div 5" using chainD(2) [OF c] f by (simp add: nth_eq_iff_index_eq)
    then show ?thesis using i by simp (metis div_mult_mod_eq)
  qed
  show ?thesis
    using chainD [OF c] fr i' par same by (auto simp: chain_def fmem nth_list_update)
qed

lemma fold_table_inv:
  assumes b: "get_lut l (int k) (mem s) = Inr (table_of fs (length xs))" and n: "int (length xs) \<le> int_max" and p: "P 0 s"
    and c: "\<And>t s. P t s \<Longrightarrow> chain (frags (mem s)) fs xs"
    and f: "\<And>t s. t < length xs \<Longrightarrow> P t s \<Longrightarrow> \<exists>s'. f (fst (xs ! t)) (snd (xs ! t)) s = Inr s' \<and> P (Suc t) s'"
  shows "\<exists>s'. fold_table l (int k) f mem s = Inr s' \<and> P (length xs) s'"
proof -
  let ?body = "\<lambda>i (tmp, s). bindR (get_cell tmp 0 (mem s)) (\<lambda>key. bindR (get_cell tmp 1 (mem s)) (\<lambda>v.
        bindR (f key v s) (\<lambda>s. bindR (next_entry i tmp (mem s)) (\<lambda>tmp. Inr (tmp, s)))))"
  have "\<exists>r. cfor 0 (int (length xs)) ?body (pos fs 0, s) = Inr r
      \<and> fst r = pos fs (nat (int (length xs))) \<and> P (nat (int (length xs))) (snd r)"
  proof (rule cfor_inv [where P = "\<lambda>i r. fst r = pos fs (nat i) \<and> P (nat i) (snd r)"])
    fix j :: int and r
    assume j: "0 \<le> j" "j < int (length xs)" and r: "fst r = pos fs (nat j) \<and> P (nat j) (snd r)"
    obtain t where t: "j = int t" "t < length xs" using j by (metis nonneg_int_cases of_nat_less_iff)
    obtain s1 where s1: "r = (pos fs t, s1)" "P t s1" using r t by (cases r) auto
    obtain s2 where s2: "f (fst (xs ! t)) (snd (xs ! t)) s1 = Inr s2" "P (Suc t) s2" using f t s1 by blast
    have "?body j r = Inr (pos fs (Suc t), s2)"
      using t s1 s2 get_key [OF c [OF s1(2)] t(2)] get_val [OF c [OF s1(2)] t(2)] next_pos [OF c [OF s2(2)] t(2) n] by simp
    moreover have "nat (j + 1) = Suc t" using t by simp
    ultimately show "\<exists>r'. ?body j r = Inr r' \<and> fst r' = pos fs (nat (j + 1)) \<and> P (nat (j + 1)) (snd r')"
      using s2 by simp
  qed (use p in simp_all)
  then show ?thesis using b by (auto simp: fold_table_def table_of_def)
qed

lemma fold_table_ok:
  assumes b: "fcell (luts m) l k = Some (table_of fs (length xs))" and n: "int (length xs) \<le> int_max"
    and c: "chain (frags m) fs xs"
  shows "fold_table l (int k) (\<lambda>key v s. Inr (g s v key)) (\<lambda>_. m) s = Inr (foldl (\<lambda>s (key, v). g s v key) s xs)"
proof -
  have "\<exists>s'. fold_table l (int k) (\<lambda>key v s. Inr (g s v key)) (\<lambda>_. m) s = Inr s'
      \<and> s' = foldl (\<lambda>s (key, v). g s v key) s (take (length xs) xs)"
    by (rule fold_table_inv [where P = "\<lambda>t s'. s' = foldl (\<lambda>s (key, v). g s v key) s (take t xs)"])
       (use n c in \<open>auto simp: get_lut_ok [OF b] take_Suc_conv_app_nth split: prod.splits\<close>)
  then show ?thesis by simp
qed

definition map_val :: "(ptr \<Rightarrow> ptr \<Rightarrow> ptr) \<Rightarrow> ptr \<times> ptr \<Rightarrow> ptr \<times> ptr" where
  "map_val f x = (fst x, f (snd x) (fst x))"

lemma map_table_ok:
  assumes b: "fcell (luts m) l k = Some (table_of fs (length xs))" and n: "int (length xs) \<le> int_max"
    and c: "chain (frags m) fs xs"
  shows "\<exists>fr'. map_table f l (int k) m = Inr (m\<lparr>frags := fr'\<rparr>) \<and> chain fr' fs (map (map_val f) xs)
    \<and> chain_step (frags m) (set fs) fr' (set fs)"
proof -
  let ?body = "\<lambda>i (tmp, m). bindR (get_cell tmp 1 m) (\<lambda>v. bindR (get_cell tmp 0 m) (\<lambda>key.
        bindR (put_cell tmp 1 (f v key) m) (\<lambda>m. bindR (next_entry i tmp m) (\<lambda>tmp. Inr (tmp, m)))))"
  define xs' where "xs' i = map (map_val f) (take i xs) @ drop i xs" for i
  have len: "length (xs' i) = length xs" for i by (simp add: xs'_def)
  let ?P = "\<lambda>i r. \<exists>fr. r = (pos fs (nat i), m\<lparr>frags := fr\<rparr>) \<and> chain fr fs (xs' (nat i)) \<and> chain_step (frags m) (set fs) fr (set fs)"
  have alive: "\<And>g. g \<in> set fs \<Longrightarrow> live (frags m) g" using chainD(3) [OF c] live_frag by blast
  have "\<exists>r. cfor 0 (int (length xs)) ?body (pos fs 0, m) = Inr r \<and> ?P (int (length xs)) r"
  proof (rule cfor_inv [where P = ?P])
    show "?P 0 (pos fs 0, m)" using c alive by (auto simp: xs'_def intro!: exI [of _ "frags m"] chain_step_refl)
    fix j :: int and r
    assume j: "0 \<le> j" "j < int (length xs)" and r: "?P j r"
    obtain t where t: "j = int t" "t < length xs" using j by (metis nonneg_int_cases of_nat_less_iff)
    obtain fr where fr: "r = (pos fs t, m\<lparr>frags := fr\<rparr>)" "chain fr fs (xs' t)" "chain_step (frags m) (set fs) fr (set fs)"
      using r t by auto
    let ?m = "m\<lparr>frags := fr\<rparr>"
    have x: "xs' t ! t = xs ! t" using t by (simp add: xs'_def nth_append)
    have cm: "chain (frags ?m) fs (xs' t)" using fr by simp
    let ?fr = "fput fr (fs ! (t div 5)) (Suc (2 * (t mod 5))) (f (snd (xs ! t)) (fst (xs ! t)))"
    have alive': "\<And>g. g \<in> set fs \<Longrightarrow> is_frag fr g" using chainD(3) [OF fr(2)] .
    have f: "fs ! (t div 5) \<in> set fs" using chainD(7) [OF c] t by simp
    have i: "Suc (2 * (t mod 5)) < 11" by presburger
    have xs2: "(xs' t)[t := (fst (xs ! t), f (snd (xs ! t)) (fst (xs ! t)))] = xs' (Suc t)"
      using t by (simp add: xs'_def list_update_append take_Suc_conv_app_nth map_val_def Cons_nth_drop_Suc [symmetric])
    have c2: "chain ?fr fs (xs' (Suc t))"
      using chain_fput_val [OF fr(2) _ refl refl, of t "f (snd (xs ! t)) (fst (xs ! t))"] t x len xs2 by simp
    have put: "put_cell (pos fs t) (Suc 0) (f (snd (xs ! t)) (fst (xs ! t))) ?m = Inr (m\<lparr>frags := ?fr\<rparr>)"
      using alive' [OF f] i by (simp add: pos_def put_cell_ok)
    have nx: "next_entry (int t) (pos fs t) (m\<lparr>frags := ?fr\<rparr>) = Inr (pos fs (Suc t))"
      using c2 t n len by (intro next_pos [where xs = "xs' (Suc t)"]) simp_all
    have "?body j r = Inr (pos fs (Suc t), m\<lparr>frags := ?fr\<rparr>)"
      using fr(1) t get_key [OF cm] get_val [OF cm] len x put nx by simp
    moreover have "chain_step (frags m) (set fs) ?fr (set fs)"
      using chain_step_trans [OF fr(3) chain_step_fput [OF alive' f i]] .
    moreover have "nat (j + 1) = Suc t" using t by simp
    ultimately show "\<exists>r'. ?body j r = Inr r' \<and> ?P (j + 1) r'" using c2 by auto
  qed simp
  then show ?thesis using b by (auto simp: map_table_def table_of_def get_lut_ok xs'_def)
qed

end
