(* ===== verification/LUT_Free.thy ===== *)
theory LUT_Free
  imports LUT_Tables
begin

text \<open>
  Emptying a collision table: all its fragments but the last are freed, and the copies of its strings.
\<close>

lemma fput_same: "fcell ls l k = Some b \<Longrightarrow> fput ls l k b = ls"
  by (auto simp: fcell_def fput_def list_update_same_conv split: if_splits option.splits) (metis list_update_id)

lemma set_drop_Suc: "distinct fs \<Longrightarrow> j < length fs \<Longrightarrow> set (drop j fs) - {fs ! j} = set (drop (Suc j) fs)"
  by (subst Cons_nth_drop_Suc [symmetric]) (auto dest: distinct_drop [of _ j] simp: Cons_nth_drop_Suc [symmetric])

text \<open>What is left of a chain when its first \<open>j\<close> fragments are freed.\<close>

definition cut_chain :: "ptr cvec option list \<Rightarrow> nat list \<Rightarrow> nat \<Rightarrow> ptr cvec option list \<Rightarrow> bool" where
  "cut_chain fr fs j fr' \<longleftrightarrow> chain_step fr (set fs) fr' (set (drop j fs))
     \<and> (\<forall>f\<in>set (drop j fs). is_frag fr' f \<and> fcell fr' f 10 = fcell fr f 10)"

lemma cut_chain_0: "chain fr fs xs \<Longrightarrow> cut_chain fr fs 0 fr"
  by (auto simp: cut_chain_def live_frag dest: chainD(3) intro!: chain_step_refl)

lemma cut_chain_Suc:
  assumes "cut_chain fr fs j fr'" and "distinct fs" and "j < length fs"
  shows "cut_chain fr fs (Suc j) (fr'[fs ! j := None])"
proof -
  have mem: "fs ! j \<in> set (drop j fs)" using assms(3) by (simp add: Cons_nth_drop_Suc [symmetric])
  have set: "set (drop (Suc j) fs) = set (drop j fs) - {fs ! j}" using set_drop_Suc [OF assms(2,3)] by simp
  have "chain_step fr (set fs) (fr'[fs ! j := None]) (set (drop (Suc j) fs))"
    using assms(1) mem unfolding set cut_chain_def by (intro chain_step_trans [OF _ chain_step_free]) (auto intro: live_frag)
  then show ?thesis using assms(1) set by (auto simp: cut_chain_def fmem)
qed

lemma cut_chain_fput:
  assumes "cut_chain fr fs j fr'" and "f \<in> set (drop j fs)" and "i < 10"
  shows "cut_chain fr fs j (fput fr' f i p)"
proof -
  have f: "is_frag fr' f" and i: "i < 11" using assms by (auto simp: cut_chain_def)
  have "chain_step fr (set fs) (fput fr' f i p) (set (drop j fs))"
    using assms i unfolding cut_chain_def by (intro chain_step_trans [OF _ chain_step_fput]) auto
  then show ?thesis using assms f i by (auto simp: cut_chain_def fmem)
qed

lemma cut_chain_end:
  assumes "chain fr fs xs" and "cut_chain fr fs (length xs div 5) fr'"
  shows "chain fr' [fs ! (length xs div 5)] []" and "chain_step fr (set fs) fr' {fs ! (length xs div 5)}"
proof -
  have "drop (length xs div 5) fs = [fs ! (length xs div 5)]"
    using chainD(1) [OF assms(1)] by (simp add: Cons_nth_drop_Suc [symmetric])
  then show "chain fr' [fs ! (length xs div 5)] []" "chain_step fr (set fs) fr' {fs ! (length xs div 5)}"
    using assms(2) chainD(8) [OF assms(1)] by (auto simp: cut_chain_def intro: chain_Nil)
qed

lemma int_div_5: "int n div LUT_SIZE = int (n div 5)"
  by (simp add: LUT_SIZE_def zdiv_int)

lemma clear_pointers_ok:
  assumes b: "fcell (luts m) l k = Some (table_of fs (length xs))" and l: "is_table (luts m) l" "k < 49"
    and c: "chain (frags m) fs xs"
  shows "\<exists>fr' f. clear_pointers l (int k) m = Inr (m\<lparr>frags := fr', luts := fput (luts m) l k (table_of [f] 0)\<rparr>)
    \<and> chain fr' [f] [] \<and> chain_step (frags m) (set fs) fr' {f}"
proof -
  let ?q = "length xs div 5"
  define at where "at j = (table_of fs (length xs))\<lparr>lut_first := Some (fs ! j, 0)\<rparr>" for j
  let ?body = "\<lambda>i m. bindR (get_lut l (int k) m) (\<lambda>b. bindR (get_cell (lut_first b) (nat (2 * LUT_SIZE)) m) (\<lambda>p.
        bindR (as_vpp p) (\<lambda>e. bindR (put_lut l (int k) (b\<lparr>lut_first := e\<rparr>) m) (\<lambda>m.
        free_fragment (lut_first b) m))))"
  let ?P = "\<lambda>i m'. \<exists>fr. m' = m\<lparr>frags := fr, luts := fput (luts m) l k (at (nat i - 1))\<rparr> \<and> cut_chain (frags m) fs (nat i - 1) fr"
  have at0: "at 0 = table_of fs (length xs)" by (simp add: at_def table_of_def pos_def)
  have "\<exists>m'. cfor 1 (int ?q + 1) ?body m = Inr m' \<and> ?P (int ?q + 1) m'"
  proof (rule cfor_inv [where P = ?P])
    show "?P 1 m" using cut_chain_0 [OF c] by (intro exI [of _ "frags m"]) (simp add: at0 fput_same [OF b])
    fix i :: int and m'
    assume i: "1 \<le> i" "i < int ?q + 1" and P: "?P i m'"
    define j where "j = nat (i - 1)"
    have j: "nat i = Suc j" "j < ?q" using i by (auto simp: j_def)
    obtain fr where m': "m' = m\<lparr>frags := fr, luts := fput (luts m) l k (at j)\<rparr>" and cut: "cut_chain (frags m) fs j fr"
      using P j(1) by auto
    have jl: "j < length fs" using chainD(1) [OF c] j by simp
    have mem: "fs ! j \<in> set (drop j fs)" using jl by (simp add: Cons_nth_drop_Suc [symmetric])
    have link: "fcell fr (fs ! j) 10 = Some (PFrag (fs ! Suc j))"
      using cut mem chainD(6) [OF c j(2)] by (simp add: cut_chain_def)
    have lv: "live fr (fs ! j)" using cut mem by (auto simp: cut_chain_def live_frag)
    have at: "fcell (fput (luts m) l k (at j)) l k = Some (at j)" using l by (simp add: fmem)
    have "?body i m' = Inr (m\<lparr>frags := fr[fs ! j := None], luts := fput (luts m) l k (at (Suc j))\<rparr>)"
      using l link lv
      by (simp add: m' get_lut_ok at put_lut_ok fmem get_cell_ok LUT_SIZE_def as_vpp_def at_def free_fragment_ok)
    moreover have "cut_chain (frags m) fs (Suc j) (fr[fs ! j := None])"
      using cut_chain_Suc [OF cut chainD(2) [OF c] jl] .
    moreover have "nat (i + 1) - 1 = Suc j" using j i by simp
    ultimately show "\<exists>m''. ?body i m' = Inr m'' \<and> ?P (i + 1) m''" by auto
  qed simp
  moreover have "nat (int ?q + 1) - 1 = ?q" by simp
  ultimately obtain fr where loop: "cfor 1 (int ?q + 1) ?body m = Inr (m\<lparr>frags := fr, luts := fput (luts m) l k (at ?q)\<rparr>)"
    and cut: "cut_chain (frags m) fs ?q fr" by auto
  have "fcell (fput (luts m) l k (at ?q)) l k = Some (at ?q)" using l by (simp add: fmem)
  moreover have "(at ?q)\<lparr>lut_next := lut_first (at ?q), lut_size := 0\<rparr> = table_of [fs ! ?q] 0"
    by (simp add: at_def table_of_def pos_def)
  ultimately have "clear_pointers l (int k) m = Inr (m\<lparr>frags := fr, luts := fput (luts m) l k (table_of [fs ! ?q] 0)\<rparr>)"
    using loop l by (simp add: clear_pointers_def get_lut_ok [OF b] table_of_def [of fs] int_div_5 get_lut_ok put_lut_ok fmem)
  then show ?thesis using cut_chain_end [OF c cut] by blast
qed

text \<open>The strings that are left when those of the keys \<open>ps\<close> are freed.\<close>

fun free_keys :: "ptr list \<Rightarrow> string option list \<Rightarrow> string option list" where
  "free_keys [] ss = ss"
| "free_keys (p # ps) ss = free_keys ps (case p of PStr i \<Rightarrow> ss[i := None] | _ \<Rightarrow> ss)"

lemma free_keys_snoc: "free_keys (ps @ [p]) ss = (case p of PStr i \<Rightarrow> (free_keys ps ss)[i := None] | _ \<Rightarrow> free_keys ps ss)"
  by (cases p) (induction ps arbitrary: ss; simp)+

lemma nth_notin_take: "distinct xs \<Longrightarrow> t < length xs \<Longrightarrow> xs ! t \<notin> set (take t xs)"
  by (auto simp: in_set_conv_nth nth_eq_iff_index_eq)

lemma live_free_keys: "live (free_keys ps ss) i \<longleftrightarrow> live ss i \<and> PStr i \<notin> set ps"
  by (induction ps arbitrary: ss) (auto simp: live_update split: ptr.splits)

lemma length_free_keys [simp]: "length (free_keys ps ss) = length ss"
  by (induction ps arbitrary: ss) (auto split: ptr.splits)

lemma nth_free_keys: "PStr i \<notin> set ps \<Longrightarrow> free_keys ps ss ! i = ss ! i"
proof (induction ps arbitrary: ss)
  case (Cons p ps)
  then show ?case by (cases p) (auto simp: nth_list_update_neq)
qed simp

lemma clear_strings_ok:
  assumes b: "fcell (luts m) l k = Some (table_of fs (length xs))" and l: "is_table (luts m) l" "k < 49"
    and c: "chain (frags m) fs xs" and n: "int (length xs) \<le> int_max"
    and ss: "\<And>x. x \<in> set xs \<Longrightarrow> is_string (strings m) (fst x)" and d: "distinct (map fst xs)"
  shows "\<exists>fr' f. clear_strings l (int k) m
      = Inr (m\<lparr>frags := fr', strings := free_keys (map fst xs) (strings m), luts := fput (luts m) l k (table_of [f] 0)\<rparr>)
    \<and> chain fr' [f] [] \<and> chain_step (frags m) (set fs) fr' {f}"
proof -
  let ?n = "length xs"
  let ?body = "\<lambda>i (tmp, fst_frag, m).
        bindR (get_cell tmp 0 m) (\<lambda>s. bindR (free_string s m) (\<lambda>m. bindR (put_cell tmp 0 PNull m) (\<lambda>m.
        bindR (next_entry i tmp m) (\<lambda>tmp.
          if (i + 1) mod LUT_SIZE = 0
          then bindR (free_fragment fst_frag m) (\<lambda>m. Inr (tmp, tmp, m))
          else Inr (tmp, fst_frag, m)))))"
  let ?P = "\<lambda>t r. \<exists>fr. r = (pos fs t, Some (fs ! (t div 5), 0), m\<lparr>frags := fr, strings := free_keys (map fst (take t xs)) (strings m)\<rparr>)
      \<and> cut_chain (frags m) fs (t div 5) fr
      \<and> (\<forall>u. t \<le> u \<longrightarrow> u < ?n \<longrightarrow> fcell fr (fs ! (u div 5)) (2 * (u mod 5)) = Some (fst (xs ! u)))"
  have "\<exists>r. cfor 0 (int ?n) ?body (pos fs 0, pos fs 0, m) = Inr r \<and> ?P (nat (int ?n)) r"
  proof (rule cfor_inv [where P = "\<lambda>i. ?P (nat i)"])
    show "?P (nat 0) (pos fs 0, pos fs 0, m)"
      using cut_chain_0 [OF c] chainD(4) [OF c] by (auto simp: pos_def intro!: exI [of _ "frags m"])
    fix i :: int and r :: "vpp \<times> vpp \<times> lutmem"
    assume i: "0 \<le> i" "i < int ?n" and P: "?P (nat i) r"
    obtain t where t: "i = int t" "t < ?n" using i by (metis nonneg_int_cases of_nat_less_iff)
    obtain fr where r: "r = (pos fs t, Some (fs ! (t div 5), 0), m\<lparr>frags := fr, strings := free_keys (map fst (take t xs)) (strings m)\<rparr>)"
      and cut: "cut_chain (frags m) fs (t div 5) fr"
      and keys: "\<And>u. t \<le> u \<Longrightarrow> u < ?n \<Longrightarrow> fcell fr (fs ! (u div 5)) (2 * (u mod 5)) = Some (fst (xs ! u))"
      using P t by auto
    let ?f = "fs ! (t div 5)" and ?i = "2 * (t mod 5)"
    let ?ss = "\<lambda>t. free_keys (map fst (take t xs)) (strings m)"
    have tl: "t div 5 < length fs" using t(2) chainD(1) [OF c] by (simp add: div_le_mono less_Suc_eq_le)
    then have mem: "?f \<in> set (drop (t div 5) fs)" by (simp add: Cons_nth_drop_Suc [symmetric])
    have i9: "?i < 10" by presburger
    have fr: "is_frag fr ?f" using cut mem by (simp add: cut_chain_def)
    let ?fr2 = "fput fr ?f ?i PNull"
    have cut2: "cut_chain (frags m) fs (t div 5) ?fr2" by (rule cut_chain_fput [OF cut mem i9])
    obtain a where a: "fst (xs ! t) = PStr a" "live (strings m) a" using ss [of "xs ! t"] t(2) by (auto simp: is_string_def)
    have "PStr a \<notin> set (map fst (take t xs))"
      using nth_notin_take [OF d, of t] t(2) a(1) by (simp add: take_map)
    then have la: "live (?ss t) a" using a(2) by (simp add: live_free_keys)
    have fs: "free_string (fst (xs ! t)) (m\<lparr>frags := fr, strings := ?ss t\<rparr>) = Inr (m\<lparr>frags := fr, strings := ?ss (Suc t)\<rparr>)"
      using la a(1) t(2) by (auto simp: free_string_def deref_def live_def take_Suc_conv_app_nth free_keys_snoc)
    have put: "put_cell (pos fs t) 0 PNull (m\<lparr>frags := fr, strings := ?ss (Suc t)\<rparr>) = Inr (m\<lparr>frags := ?fr2, strings := ?ss (Suc t)\<rparr>)"
      using fr i9 by (simp add: pos_def put_cell_ok)
    have nx: "next_entry (int t) (pos fs t) (m\<lparr>frags := ?fr2, strings := ?ss (Suc t)\<rparr>) = Inr (pos fs (Suc t))"
      using cut2 mem t(2) n chainD(6) [OF c div_5_less [OF t(2)]] by (intro next_pos_link) (simp_all add: cut_chain_def)
    have k2: "fcell ?fr2 (fs ! (u div 5)) (2 * (u mod 5)) = Some (fst (xs ! u)) \<and> (Suc t mod 5 = 0 \<longrightarrow> fs ! (u div 5) \<noteq> ?f)"
      if u: "Suc t \<le> u" "u < ?n" for u
    proof -
      have "u div 5 < length fs" using u chainD(1) [OF c] by (simp add: div_le_mono less_Suc_eq_le)
      then have e: "fs ! (u div 5) = ?f \<longleftrightarrow> u div 5 = t div 5" using tl chainD(2) [OF c] by (simp add: nth_eq_iff_index_eq)
      moreover have "\<not> (u div 5 = t div 5 \<and> u mod 5 = t mod 5)" using u by (metis Suc_n_not_le_n div_mult_mod_eq)
      moreover have "u div 5 \<noteq> t div 5" if "Suc t mod 5 = 0"
      proof -
        have "Suc t div 5 \<le> u div 5" using u by (intro div_le_mono)
        moreover have "Suc t div 5 = Suc (t div 5)" using that by (simp add: div_Suc)
        ultimately show ?thesis by simp
      qed
      ultimately show ?thesis using keys [of u] u fr i9 by (auto simp: fmem)
    qed
    have body: "?body i r = (if Suc t mod 5 = 0
        then bindR (free_fragment (Some (?f, 0)) (m\<lparr>frags := ?fr2, strings := ?ss (Suc t)\<rparr>)) (\<lambda>m. Inr (pos fs (Suc t), pos fs (Suc t), m))
        else Inr (pos fs (Suc t), Some (?f, 0), m\<lparr>frags := ?fr2, strings := ?ss (Suc t)\<rparr>))"
      using keys [of t] t fs put nx int_mod_5 [of "Suc t"] by (simp add: r pos_def [of fs t] get_cell_ok add.commute)
    have si: "nat (i + 1) = Suc t" using t by simp
    show "\<exists>r'. ?body i r = Inr r' \<and> ?P (nat (i + 1)) r'"
    proof (cases "Suc t mod 5 = 0")
      case False
      then have "Suc t div 5 = t div 5" by (simp add: div_Suc)
      then show ?thesis unfolding body si using False cut2 k2 by (auto intro!: exI [of _ ?fr2])
    next
      case True
      then have s: "Suc t div 5 = Suc (t div 5)" by (simp add: div_Suc)
      have p: "pos fs (Suc t) = Some (fs ! (Suc t div 5), 0)" using True by (simp add: pos_def)
      have "live ?fr2 ?f" using fr i9 by (simp add: fmem live_frag)
      then show ?thesis
        unfolding body si p using True cut_chain_Suc [OF cut2 chainD(2) [OF c] tl] k2
        by (auto simp: free_fragment_ok fmem s intro!: exI [of _ "?fr2[?f := None]"])
    qed
  qed simp
  then obtain fr where loop: "cfor 0 (int ?n) ?body (pos fs 0, pos fs 0, m)
      = Inr (pos fs ?n, Some (fs ! (?n div 5), 0), m\<lparr>frags := fr, strings := free_keys (map fst xs) (strings m)\<rparr>)"
    and cut: "cut_chain (frags m) fs (?n div 5) fr" by auto
  have "(table_of fs ?n)\<lparr>lut_first := Some (fs ! (?n div 5), 0), lut_next := Some (fs ! (?n div 5), 0), lut_size := 0\<rparr>
      = table_of [fs ! (?n div 5)] 0" by (simp add: table_of_def pos_def)
  then have "clear_strings l (int k) m = Inr (m\<lparr>frags := fr, strings := free_keys (map fst xs) (strings m),
      luts := fput (luts m) l k (table_of [fs ! (?n div 5)] 0)\<rparr>)"
    using loop l by (simp add: clear_strings_def get_lut_ok [OF b] table_of_def [of fs] put_lut_ok)
  then show ?thesis using cut_chain_end [OF c cut] by blast
qed

end
