(* ===== verification/LUT_Inv.thy ===== *)
theory LUT_Inv
  imports LUT_Free
begin

text \<open>
  The invariant of the memory: every table is 49 chains of fragments, the fragments of different collision
  tables are different and no other fragment is allocated; a key is stored in the collision table of its hash
  key; the tables own copies of their strings.  \<open>holds A m T\<close> says that the memory \<open>m\<close> holds
  the tables \<open>T\<close> and nothing else.
\<close>

type_synonym contents = "nat \<Rightarrow> (ptr \<times> ptr) list"

subsection \<open>Hash keys\<close>

definition hashP :: "(ptr \<Rightarrow> 64 word) \<Rightarrow> ptr \<Rightarrow> nat" where
  "hashP A p = unat (drop_bit 5 (A p) AND 0x1f)"

definition hashS :: "string \<Rightarrow> nat" where
  "hashS s = 32 + unat (foldl (\<lambda>h c. h + char_word c) 0 s) mod 17"

lemma hashP_less: "hashP A p < 32"
proof -
  have "drop_bit 5 (A p) AND 0x1f \<le> (0x1f :: 64 word)" by (rule word_and_le1)
  then show ?thesis by (simp add: hashP_def word_le_nat_alt)
qed

lemma hashS_range: "32 \<le> hashS s" "hashS s < 49"
  by (simp_all add: hashS_def)

lemma GetHashKey_Pointer_eq: "GetHashKey_Pointer A p = Inr (int (hashP A p))"
proof -
  have "uint (drop_bit 5 (A p) AND 0x1f) = int (hashP A p)" by (simp add: hashP_def)
  then show ?thesis using hashP_less [of A p] by (simp only: GetHashKey_Pointer_def Let_def HASH_KEYS_POINTER_def) simp
qed

lemma GetHashKey_String_eq: "is_string (strings m) p \<Longrightarrow> GetHashKey_String p m = Inr (int (hashS (string_key (strings m) p)))"
  by (simp add: GetHashKey_String_def str_of_ok is_string_nonnull hashS_def HASH_KEYS_POINTER_def HASH_KEYS_STRING_def
      zmod_int)

subsection \<open>The invariant\<close>

definition keys_ok :: "(ptr \<Rightarrow> 64 word) \<Rightarrow> string option list \<Rightarrow> nat \<Rightarrow> (ptr \<times> ptr) list \<Rightarrow> bool" where
  "keys_ok A ss k xs \<longleftrightarrow>
     (if k < 32 then \<forall>x\<in>set xs. fst x \<noteq> PNull \<and> hashP A (fst x) = k
      else distinct (map fst xs) \<and> (\<forall>x\<in>set xs. is_string ss (fst x) \<and> hashS (string_key ss (fst x)) = k))"

definition own_keys :: "nat \<Rightarrow> (ptr \<times> ptr) list \<Rightarrow> ptr set" where
  "own_keys k xs = (if k < 32 then {} else fst ` set xs)"

definition bucket ::
  "(ptr \<Rightarrow> 64 word) \<Rightarrow> ptr cvec option list \<Rightarrow> string option list \<Rightarrow> nat \<Rightarrow> nat list \<Rightarrow> (ptr \<times> ptr) list \<Rightarrow> bool" where
  "bucket A fr ss k fs xs \<longleftrightarrow> chain fr fs xs \<and> int (length xs) \<le> int_max \<and> keys_ok A ss k xs"

definition places :: "(nat \<Rightarrow> contents option) \<Rightarrow> (nat \<times> nat) set" where
  "places T = {(l, k). T l \<noteq> None \<and> k < 49}"

definition content_at :: "(nat \<Rightarrow> contents option) \<Rightarrow> nat \<times> nat \<Rightarrow> (ptr \<times> ptr) list" where
  "content_at T x = (case T (fst x) of Some t \<Rightarrow> t (snd x) | None \<Rightarrow> [])"

definition lut_mem ::
  "(ptr \<Rightarrow> 64 word) \<Rightarrow> ptr cvec option list \<Rightarrow> string option list \<Rightarrow> lut_t cvec option list
   \<Rightarrow> (nat \<times> nat \<Rightarrow> nat list) \<Rightarrow> (nat \<Rightarrow> contents option) \<Rightarrow> bool" where
  "lut_mem A fr ss ls F T \<longleftrightarrow>
     (\<forall>l. live ls l \<longleftrightarrow> T l \<noteq> None) \<and> (\<forall>l. T l \<noteq> None \<longrightarrow> is_table ls l)
     \<and> (\<forall>x\<in>places T. fcell ls (fst x) (snd x) = Some (table_of (F x) (length (content_at T x)))
          \<and> bucket A fr ss (snd x) (F x) (content_at T x))
     \<and> (\<forall>x\<in>places T. \<forall>y\<in>places T. x \<noteq> y \<longrightarrow> set (F x) \<inter> set (F y) = {}
          \<and> own_keys (snd x) (content_at T x) \<inter> own_keys (snd y) (content_at T y) = {})
     \<and> (\<forall>f. live fr f \<longrightarrow> (\<exists>x\<in>places T. f \<in> set (F x)))"

definition holds :: "(ptr \<Rightarrow> 64 word) \<Rightarrow> lutmem \<Rightarrow> (nat \<Rightarrow> contents option) \<Rightarrow> bool" where
  "holds A m T \<longleftrightarrow> (\<exists>F. lut_mem A (frags m) (strings m) (luts m) F T)"

lemma lut_memD:
  assumes "lut_mem A fr ss ls F T"
  shows "live ls l \<longleftrightarrow> T l \<noteq> None" and "T l \<noteq> None \<Longrightarrow> is_table ls l"
    and "x \<in> places T \<Longrightarrow> fcell ls (fst x) (snd x) = Some (table_of (F x) (length (content_at T x)))"
    and "x \<in> places T \<Longrightarrow> bucket A fr ss (snd x) (F x) (content_at T x)"
    and "x \<in> places T \<Longrightarrow> y \<in> places T \<Longrightarrow> x \<noteq> y \<Longrightarrow> set (F x) \<inter> set (F y) = {}"
    and "x \<in> places T \<Longrightarrow> y \<in> places T \<Longrightarrow> x \<noteq> y \<Longrightarrow>
      own_keys (snd x) (content_at T x) \<inter> own_keys (snd y) (content_at T y) = {}"
    and "live fr f \<Longrightarrow> \<exists>x\<in>places T. f \<in> set (F x)"
  using assms by (auto simp: lut_mem_def)

text \<open>The strings that a step allocates and frees are those of one collision table, \<open>S\<close> before and \<open>S'\<close> after.\<close>

definition string_step :: "string option list \<Rightarrow> ptr set \<Rightarrow> string option list \<Rightarrow> ptr set \<Rightarrow> bool" where
  "string_step ss S ss' S' \<longleftrightarrow>
     (\<forall>i. live ss' i \<longleftrightarrow> live ss i \<and> PStr i \<notin> S \<or> PStr i \<in> S')
     \<and> (\<forall>i. live ss i \<longrightarrow> PStr i \<notin> S - S' \<longrightarrow> ss' ! i = ss ! i) \<and> (\<forall>i. PStr i \<in> S' \<longrightarrow> PStr i \<in> S \<or> \<not> live ss i)"

lemma string_step_refl: "(\<And>p. p \<in> S \<Longrightarrow> is_string ss p) \<Longrightarrow> string_step ss S ss S"
  by (auto simp: string_step_def is_string_def)

lemma keys_ok_strings: "keys_ok A ss k xs \<Longrightarrow> p \<in> own_keys k xs \<Longrightarrow> is_string ss p"
  by (auto simp: keys_ok_def own_keys_def split: if_splits)

lemma keys_ok_frame:
  assumes k: "keys_ok A ss k xs" and s: "string_step ss S ss' S'" and d: "own_keys k xs \<inter> S = {}"
  shows "keys_ok A ss' k xs" and "own_keys k xs \<inter> S' = {}"
proof -
  have "is_string ss' p \<and> string_key ss' p = string_key ss p" if "p \<in> own_keys k xs" for p
    using keys_ok_strings [OF k that] that s d by (auto simp: is_string_def string_step_def string_key_def)
  then show "keys_ok A ss' k xs" using k by (auto simp: keys_ok_def own_keys_def split: if_splits)
  show "own_keys k xs \<inter> S' = {}"
    using keys_ok_strings [OF k] s d unfolding is_string_def string_step_def by (metis disjoint_iff)
qed

text \<open>One collision table is changed.\<close>

lemma lut_mem_update:
  assumes inv: "lut_mem A fr ss ls F T" and l: "T l = Some t" and k: "k < 49"
    and c: "chain fr' fs' xs'" and step: "chain_step fr (set (F (l, k))) fr' (set fs')"
    and n: "int (length xs') \<le> int_max" and keys: "keys_ok A ss' k xs'"
    and sstep: "string_step ss (own_keys k (t k)) ss' (own_keys k xs')"
  shows "lut_mem A fr' ss' (fput ls l k (table_of fs' (length xs'))) (F((l, k) := fs')) (T(l \<mapsto> t(k := xs')))"
proof -
  let ?T = "T(l \<mapsto> t(k := xs'))" and ?F = "F((l, k) := fs')" and ?ls = "fput ls l k (table_of fs' (length xs'))"
  have tab: "is_table ls l" using lut_memD(2) [OF inv, of l] l by simp
  have pl: "places ?T = places T" using l by (auto simp: places_def)
  have lk: "(l, k) \<in> places T" using l k by (simp add: places_def)
  have at: "content_at ?T (l, k) = xs'" by (simp add: content_at_def)
  have at0: "content_at T (l, k) = t k" using l by (simp add: content_at_def)
  have other: "content_at ?T x = content_at T x" if "x \<noteq> (l, k)" for x
    using that l by (cases x) (auto simp: content_at_def)
  have b: "bucket A fr' ss' (snd x) (F x) (content_at T x) \<and> set (F x) \<inter> set fs' = {}
      \<and> own_keys (snd x) (content_at T x) \<inter> own_keys k xs' = {}" if "x \<in> places T" "x \<noteq> (l, k)" for x
  proof -
    have b: "bucket A fr ss (snd x) (F x) (content_at T x)" using lut_memD(4) [OF inv that(1)] .
    have "set (F x) \<inter> set (F (l, k)) = {}" "own_keys (snd x) (content_at T x) \<inter> own_keys k (t k) = {}"
      using lut_memD(5,6) [OF inv that(1) lk that(2)] at0 by simp_all
    then show ?thesis
      using b chain_step_other [OF step, of "F x" "content_at T x"] keys_ok_frame [OF _ sstep, of A "snd x" "content_at T x"]
      by (simp add: bucket_def)
  qed
  show ?thesis
    unfolding lut_mem_def pl
  proof (intro conjI allI ballI impI)
    show "live ?ls l' \<longleftrightarrow> ?T l' \<noteq> None" for l' using lut_memD(1) [OF inv, of l'] tab k l by (auto simp: fmem)
    show "is_table ?ls l'" if "?T l' \<noteq> None" for l'
      using lut_memD(2) [OF inv, of l'] tab k l that by (auto simp: fmem split: if_splits)
    fix x assume x: "x \<in> places T"
    show "fcell ?ls (fst x) (snd x) = Some (table_of (?F x) (length (content_at ?T x)))"
      using lut_memD(3) [OF inv x] tab k at other [of x] by (cases "x = (l, k)") (auto simp: fmem prod_eq_iff)
    show "bucket A fr' ss' (snd x) (?F x) (content_at ?T x)"
      using b [OF x] at other [of x] c n keys by (cases "x = (l, k)") (auto simp: bucket_def)
    fix y assume y: "y \<in> places T" and xy: "x \<noteq> y"
    show "set (?F x) \<inter> set (?F y) = {}" "own_keys (snd x) (content_at ?T x) \<inter> own_keys (snd y) (content_at ?T y) = {}"
      using b [OF x] b [OF y] lut_memD(5,6) [OF inv x y xy] at other [of x] other [of y] xy
      by (cases "x = (l, k)"; cases "y = (l, k)"; simp add: Int_commute)+
  next
    fix f assume f: "live fr' f"
    show "\<exists>x\<in>places T. f \<in> set (?F x)"
    proof (cases "f \<in> set fs'")
      case True
      then show ?thesis using lk by force
    next
      case False
      then have "f \<notin> set (F (l, k))" using chain_stepD(6) [OF step, of f] f by blast
      then have "live fr f" using chain_stepD(3) [OF step, of f] f False by blast
      then obtain x where "x \<in> places T" "f \<in> set (F x)" using lut_memD(7) [OF inv] by blast
      with \<open>f \<notin> set (F (l, k))\<close> show ?thesis by (metis fun_upd_other)
    qed
  qed
qed

lemma holds_table:
  assumes "holds A m T" and "T l = Some t" and "k < 49"
  obtains F where "lut_mem A (frags m) (strings m) (luts m) F T" and "is_table (luts m) l"
    and "fcell (luts m) l k = Some (table_of (F (l, k)) (length (t k)))"
    and "chain (frags m) (F (l, k)) (t k)" and "int (length (t k)) \<le> int_max" and "keys_ok A (strings m) k (t k)"
proof -
  obtain F where F: "lut_mem A (frags m) (strings m) (luts m) F T" using assms(1) by (auto simp: holds_def)
  have "(l, k) \<in> places T" "content_at T (l, k) = t k" using assms by (simp_all add: places_def content_at_def)
  then show ?thesis using that [OF F] lut_memD(2-4) [OF F] assms(2) by (force simp: bucket_def)
qed

end
