(* ===== verification/LUT_Abs.thy ===== *)
theory LUT_Abs
  imports LUT_Inv
begin

text \<open>
  The abstract state: a table maps every key, a pointer or a string, to the list of values inserted for it, in
  the order of insertion; and the strings that belong to the callers.  \<open>models A m a c\<close> says that the memory \<open>m\<close>
  holds the tables \<open>a\<close> and the strings \<open>c\<close> of the callers and nothing else.
\<close>

datatype key = KeyP ptr | KeyS string

type_synonym multimap = "key \<Rightarrow> ptr list"

definition slot :: "(ptr \<Rightarrow> 64 word) \<Rightarrow> key \<Rightarrow> nat" where
  "slot A key = (case key of KeyP p \<Rightarrow> hashP A p | KeyS s \<Rightarrow> hashS s)"

definition is_entry :: "string option list \<Rightarrow> key \<Rightarrow> ptr \<times> ptr \<Rightarrow> bool" where
  "is_entry ss key x = (case key of KeyP p \<Rightarrow> fst x = p | KeyS s \<Rightarrow> string_key ss (fst x) = s)"

definition vals_in :: "string option list \<Rightarrow> key \<Rightarrow> (ptr \<times> ptr) list \<Rightarrow> ptr list" where
  "vals_in ss key xs = map snd (filter (is_entry ss key) xs)"

definition table_map :: "(ptr \<Rightarrow> 64 word) \<Rightarrow> string option list \<Rightarrow> contents \<Rightarrow> multimap" where
  "table_map A ss t key = vals_in ss key (t (slot A key))"

definition owned :: "(nat \<Rightarrow> contents option) \<Rightarrow> ptr set" where
  "owned T = (\<Union>x\<in>places T. own_keys (snd x) (content_at T x))"

definition caller_strings :: "string option list \<Rightarrow> (nat \<Rightarrow> contents option) \<Rightarrow> nat \<Rightarrow> string option" where
  "caller_strings ss T i = (if live ss i \<and> PStr i \<notin> owned T then ss ! i else None)"

definition maps_of ::
  "(ptr \<Rightarrow> 64 word) \<Rightarrow> string option list \<Rightarrow> (nat \<Rightarrow> contents option) \<Rightarrow> nat \<Rightarrow> multimap option" where
  "maps_of A ss T l = map_option (table_map A ss) (T l)"

definition models ::
  "(ptr \<Rightarrow> 64 word) \<Rightarrow> lutmem \<Rightarrow> (nat \<Rightarrow> multimap option) \<Rightarrow> (nat \<Rightarrow> string option) \<Rightarrow> bool" where
  "models A m a c \<longleftrightarrow> (\<exists>T. holds A m T \<and> a = maps_of A (strings m) T \<and> c = caller_strings (strings m) T)"

lemma slot_less: "slot A key < 49"
proof (cases key)
  case (KeyP p)
  then show ?thesis using hashP_less [of A p] by (simp add: slot_def)
qed (simp add: slot_def hashS_range)

lemma slot_KeyP: "slot A (KeyP p) < 32"
  using hashP_less by (simp add: slot_def)

lemma slot_KeyS: "32 \<le> slot A (KeyS s)"
  using hashS_range by (simp add: slot_def)

lemma slot_apart: "slot A (KeyP p) \<noteq> slot A (KeyS s)" "slot A (KeyS s) \<noteq> slot A (KeyP p)"
  using slot_KeyP [of A p] slot_KeyS [of A s] by linarith+

text \<open>The effect of a step on the strings and the contents of one table.\<close>

definition frame ::
  "(ptr \<Rightarrow> 64 word) \<Rightarrow> nat \<Rightarrow> string option list \<Rightarrow> (nat \<Rightarrow> contents option) \<Rightarrow> string option list \<Rightarrow> (nat \<Rightarrow> contents option) \<Rightarrow> bool" where
  "frame A l ss T ss' T' \<longleftrightarrow> caller_strings ss' T' = caller_strings ss T
     \<and> (\<forall>l'. l' \<noteq> l \<longrightarrow> maps_of A ss' T' l' = maps_of A ss T l')"

lemma frame_refl: "frame A l ss T ss T"
  by (simp add: frame_def)

lemma frame_trans: "frame A l ss T ss' T' \<Longrightarrow> frame A l ss' T' ss'' T'' \<Longrightarrow> frame A l ss T ss'' T''"
  by (simp add: frame_def)

lemma modelsI:
  "holds A m' T' \<Longrightarrow> frame A l (strings m) T (strings m') T' \<Longrightarrow>
   models A m' ((maps_of A (strings m) T)(l := maps_of A (strings m') T' l)) (caller_strings (strings m) T)"
  unfolding models_def by (rule exI [of _ T']) (auto simp: frame_def)

lemma vals_in_frame:
  assumes "\<And>x. x \<in> set xs \<Longrightarrow> string_key ss' (fst x) = string_key ss (fst x)"
  shows "vals_in ss' key xs = vals_in ss key xs"
proof -
  have "filter (is_entry ss' key) xs = filter (is_entry ss key) xs"
    by (rule filter_cong) (use assms in \<open>auto simp: is_entry_def split: key.split\<close>)
  then show ?thesis by (simp add: vals_in_def)
qed

lemma vals_in_KeyP: "vals_in ss (KeyP p) xs = vals_in ss' (KeyP p) xs"
  by (simp add: vals_in_def is_entry_def [abs_def])

lemma own_disjoint_owned:
  assumes inv: "lut_mem A fr ss ls F T" and x: "x \<in> places T" and y: "y \<in> places T" and xy: "y \<noteq> x"
    and p: "p \<in> own_keys (snd y) (content_at T y)"
  shows "p \<notin> own_keys (snd x) (content_at T x)"
  using lut_memD(6) [OF inv x y] xy p by blast

lemma update_frame:
  assumes inv: "lut_mem A fr ss ls F T" and l: "T l = Some t" and k: "k < 49"
    and s: "string_step ss (own_keys k (t k)) ss' (own_keys k xs')"
  shows "frame A l ss T ss' (T(l \<mapsto> t(k := xs')))"
    and "table_map A ss' (t(k := xs')) key = (if slot A key = k then vals_in ss' key xs' else table_map A ss t key)"
proof -
  let ?T = "T(l \<mapsto> t(k := xs'))"
  have pl: "places ?T = places T" using l by (auto simp: places_def)
  have lk: "(l, k) \<in> places T" using l k by (simp add: places_def)
  have at0: "content_at T (l, k) = t k" using l by (simp add: content_at_def)
  have other: "content_at ?T x = content_at T x" if "x \<noteq> (l, k)" for x
    using that l by (cases x) (auto simp: content_at_def)
  have own: "own_keys (snd x) (content_at T x) \<inter> own_keys k (t k) = {}" if "x \<in> places T" "x \<noteq> (l, k)" for x
    using lut_memD(6) [OF inv that(1) lk that(2)] at0 by simp
  have keys: "keys_ok A ss (snd x) (content_at T x)" if "x \<in> places T" for x
    using lut_memD(4) [OF inv that] by (simp add: bucket_def)
  have same: "vals_in ss' key (content_at T x) = vals_in ss key (content_at T x)"
    if x: "x \<in> places T" "x \<noteq> (l, k)" and sl: "snd x = slot A key" for x key
  proof (cases key)
    case (KeyP p)
    then show ?thesis using vals_in_KeyP by simp
  next
    case (KeyS u)
    have "string_key ss' (fst y) = string_key ss (fst y)" if "y \<in> set (content_at T x)" for y
    proof -
      have "fst y \<in> own_keys (snd x) (content_at T x)" using that sl KeyS slot_KeyS by (simp add: own_keys_def not_less)
      then have "is_string ss (fst y)" "fst y \<notin> own_keys k (t k)" using keys_ok_strings [OF keys [OF x(1)]] own [OF x] by blast+
      then show ?thesis using s by (auto simp: is_string_def string_step_def string_key_def)
    qed
    then show ?thesis by (rule vals_in_frame)
  qed
  have at: "content_at ?T (l, k) = xs'" by (simp add: content_at_def)
  have own': "p \<in> owned ?T \<longleftrightarrow> p \<in> owned T \<and> p \<notin> own_keys k (t k) \<or> p \<in> own_keys k xs'" for p
  proof
    assume "p \<in> owned ?T"
    then obtain x where x: "x \<in> places T" "p \<in> own_keys (snd x) (content_at ?T x)" unfolding owned_def pl by blast
    show "p \<in> owned T \<and> p \<notin> own_keys k (t k) \<or> p \<in> own_keys k xs'"
    proof (cases "x = (l, k)")
      case True
      then show ?thesis using x at by simp
    next
      case False
      then show ?thesis using x own [OF x(1) False] other [OF False] by (auto simp: owned_def)
    qed
  next
    assume p: "p \<in> owned T \<and> p \<notin> own_keys k (t k) \<or> p \<in> own_keys k xs'"
    show "p \<in> owned ?T"
    proof (cases "p \<in> own_keys k xs'")
      case True
      then show ?thesis using lk at unfolding owned_def pl by force
    next
      case False
      then obtain x where x: "x \<in> places T" "p \<in> own_keys (snd x) (content_at T x)" "p \<notin> own_keys k (t k)"
        using p by (auto simp: owned_def)
      then have "x \<noteq> (l, k)" using at0 by auto
      then have "p \<in> own_keys (snd x) (content_at ?T x)" using x(2) other [of x] by simp
      then show ?thesis unfolding owned_def pl using x(1) by blast
    qed
  qed
  have sub: "own_keys k (t k) \<subseteq> owned T" using lk at0 by (force simp: owned_def)
  have "caller_strings ss' ?T i = caller_strings ss T i" for i
    using s sub own' by (auto simp: caller_strings_def string_step_def)
  moreover have "maps_of A ss' ?T l' = maps_of A ss T l'" if "l' \<noteq> l" for l'
  proof (cases "T l'")
    case (Some t')
    have "vals_in ss' key (t' (slot A key)) = vals_in ss key (t' (slot A key))" for key
      using same [of "(l', slot A key)" key] that Some slot_less by (simp add: places_def content_at_def)
    then show ?thesis using that Some by (simp add: maps_of_def table_map_def fun_eq_iff)
  qed (use that in \<open>simp add: maps_of_def\<close>)
  ultimately show "frame A l ss T ss' ?T" by (auto simp: frame_def)
  show "table_map A ss' (t(k := xs')) key = (if slot A key = k then vals_in ss' key xs' else table_map A ss t key)"
    using same [of "(l, slot A key)" key] l slot_less by (simp add: table_map_def places_def content_at_def)
qed

end
