(* ===== verification/LUT_Ops.thy ===== *)
theory LUT_Ops
  imports LUT_Abs
begin

text \<open>
  Inserting, updating and searching: what the functions do to the tables, and the enumeration of all values of a
  key.
\<close>

subsection \<open>Inserting\<close>

lemma insert_step:
  assumes inv: "lut_mem A (frags m) ss (luts m) F T" and l: "T l = Some t" and k: "k < 49"
    and room: "int (length (t k)) < int_max" and keys: "keys_ok A (strings m) k (t k @ [(p, v)])"
    and s: "string_step ss (own_keys k (t k)) (strings m) (own_keys k (t k @ [(p, v)]))"
  shows "\<exists>fr ls fs. InsertIntoLUT_noDBUG (Some l) p v (int k) m = Inr (m\<lparr>frags := fr, luts := ls\<rparr>)
    \<and> lut_mem A fr (strings m) ls (F((l, k) := fs)) (T(l \<mapsto> t(k := t k @ [(p, v)])))"
proof -
  have lk: "(l, k) \<in> places T" "content_at T (l, k) = t k" using l k by (simp_all add: places_def content_at_def)
  have b: "fcell (luts m) l k = Some (table_of (F (l, k)) (length (t k)))" "chain (frags m) (F (l, k)) (t k)" "is_table (luts m) l"
    using lut_memD(2) [OF inv, of l] lut_memD(3,4) [OF inv lk(1)] lk(2) l by (simp_all add: bucket_def)
  obtain fr' fs' where r: "InsertIntoLUT_noDBUG (Some l) p v (int k) m
      = Inr (m\<lparr>frags := fr', luts := fput (luts m) l k (table_of fs' (length (t k @ [(p, v)])))\<rparr>)"
    "chain fr' fs' (t k @ [(p, v)])" "chain_step (frags m) (set (F (l, k))) fr' (set fs')"
    using insert_ok [OF b(2,1,3) k room, of p v] by auto
  show ?thesis
    using r(1) lut_mem_update [OF inv l k r(2,3) _ keys s] room by auto
qed

lemma own_keys_P [simp]: "k < 32 \<Longrightarrow> own_keys k xs = {}"
  by (simp add: own_keys_def)

lemma string_step_none [simp]: "string_step ss {} ss {}"
  by (simp add: string_step_def)

text \<open>The copy of a string is a new string.\<close>

lemma STRcpy_ok:
  "is_string (strings m) p \<Longrightarrow> STRcpy p m = Inr (PStr (length (strings m)), m\<lparr>strings := strings m @ [Some (string_key (strings m) p)]\<rparr>)"
  by (simp add: STRcpy_def str_of_ok is_string_nonnull)

lemma string_key_append: "is_string ss p \<Longrightarrow> string_key (ss @ [Some s]) p = string_key ss p \<and> is_string (ss @ [Some s]) p"
  by (auto simp: is_string_def string_key_def live_def nth_append)

lemma fresh_string: "is_string ss p \<Longrightarrow> p \<noteq> PStr (length ss)"
  by (auto simp: is_string_def live_def)

lemma new_key_ok:
  assumes k: "keys_ok A ss k xs" and h: "k = hashS s"
  shows "keys_ok A (ss @ [Some s]) k (xs @ [(PStr (length ss), v)])"
    and "string_step ss (own_keys k xs) (ss @ [Some s]) (own_keys k (xs @ [(PStr (length ss), v)]))"
proof -
  have k32: "\<not> k < 32" using h hashS_range by (simp add: not_less)
  have old: "is_string ss (fst x)" if "x \<in> set xs" for x using k k32 that by (simp add: keys_ok_def)
  have new: "PStr (length ss) \<notin> fst ` set xs" using old fresh_string by force
  have "is_string (ss @ [Some s]) (PStr (length ss))" "string_key (ss @ [Some s]) (PStr (length ss)) = s"
    by (simp_all add: is_string_def string_key_def live_def)
  then show "keys_ok A (ss @ [Some s]) k (xs @ [(PStr (length ss), v)])"
    using k k32 h old string_key_append [of ss] new by (auto simp: keys_ok_def)
  show "string_step ss (own_keys k xs) (ss @ [Some s]) (own_keys k (xs @ [(PStr (length ss), v)]))"
    using k32 old fresh_string [of ss]
    by (auto simp: string_step_def own_keys_def fmem nth_append) (auto simp: live_def is_string_def)
qed

text \<open>Abstractly, the value is appended to those of the key.\<close>

definition map_insert :: "multimap \<Rightarrow> key \<Rightarrow> ptr \<Rightarrow> multimap" where
  "map_insert f key v = f(key := f key @ [v])"

lemma vals_in_append: "vals_in ss key (xs @ ys) = vals_in ss key xs @ vals_in ss key ys"
  by (simp add: vals_in_def)

lemma insert_P:
  assumes h: "holds A m T" and l: "T l = Some t" and p: "p \<noteq> PNull" and room: "int (length (t (hashP A p))) < int_max"
  shows "\<exists>m'. InsertIntoLUT (Some l) p v (int (hashP A p)) m = Inr (Some l, m')
    \<and> models A m' ((maps_of A (strings m) T)(l \<mapsto> map_insert (table_map A (strings m) t) (KeyP p) v)) (caller_strings (strings m) T)"
proof -
  define k where "k = hashP A p"
  have k: "k < 32" "k < 49" using hashP_less [of A p] by (simp_all add: k_def)
  obtain F where F: "lut_mem A (frags m) (strings m) (luts m) F T" and keys: "keys_ok A (strings m) k (t k)"
    using holds_table [OF h l k(2)] by blast
  have keys': "keys_ok A (strings m) k (t k @ [(p, v)])" using keys k p by (auto simp: keys_ok_def k_def)
  have s: "string_step (strings m) (own_keys k (t k)) (strings m) (own_keys k (t k @ [(p, v)]))" using k by simp
  obtain fr ls fs where r: "InsertIntoLUT_noDBUG (Some l) p v (int k) m = Inr (m\<lparr>frags := fr, luts := ls\<rparr>)"
    "lut_mem A fr (strings m) ls (F((l, k) := fs)) (T(l \<mapsto> t(k := t k @ [(p, v)])))"
    using insert_step [OF F l k(2) _ keys' s] room k_def by auto
  have h': "holds A (m\<lparr>frags := fr, luts := ls\<rparr>) (T(l \<mapsto> t(k := t k @ [(p, v)])))" using r(2) by (auto simp: holds_def)
  have S: "slot A (KeyS u) \<noteq> k" for u using slot_KeyS [of A u] k by auto
  have same: "slot A key = k \<Longrightarrow> key = KeyP p \<or> vals_in (strings m) key [(p, v)] = []" for key
    using S by (cases key) (auto simp: vals_in_def is_entry_def)
  have "table_map A (strings m) (t(k := t k @ [(p, v)])) = map_insert (table_map A (strings m) t) (KeyP p) v"
    using update_frame(2) [OF F l k(2) s] same
    by (auto simp: fun_eq_iff map_insert_def vals_in_append table_map_def slot_def k_def)
       (auto simp: vals_in_def is_entry_def)
  then show ?thesis
    using r(1) p modelsI [OF h', where m = m and T = T and l = l] update_frame(1) [OF F l k(2) s]
    by (simp add: InsertIntoLUT_def k_def [symmetric] maps_of_def [of A _ "T(l \<mapsto> _)" l])
qed

lemma copy_insert_S:
  assumes h: "holds A m T" and l: "T l = Some t" and p: "is_string (strings m) p" and s: "s = string_key (strings m) p"
    and room: "int (length (t (hashS s))) < int_max"
  shows "\<exists>m1 m'. STRcpy p m = Inr (PStr (length (strings m)), m1)
    \<and> InsertIntoLUT (Some l) (PStr (length (strings m))) v (int (hashS s)) m1 = Inr (Some l, m')
    \<and> is_string (strings m1) p \<and> string_key (strings m1) p = s
    \<and> models A m' ((maps_of A (strings m) T)(l \<mapsto> map_insert (table_map A (strings m) t) (KeyS s) v)) (caller_strings (strings m) T)"
proof -
  define k where "k = hashS s"
  have k: "\<not> k < 32" "k < 49" using hashS_range [of s] by (simp_all add: k_def)
  obtain F where F: "lut_mem A (frags m) (strings m) (luts m) F T" and keys: "keys_ok A (strings m) k (t k)"
    using holds_table [OF h l k(2)] by blast
  let ?ss = "strings m @ [Some s]" and ?p = "PStr (length (strings m))"
  let ?m = "m\<lparr>strings := ?ss\<rparr>"
  note new = new_key_ok [OF keys k_def, of v]
  obtain fr ls fs where r: "InsertIntoLUT_noDBUG (Some l) ?p v (int k) ?m = Inr (?m\<lparr>frags := fr, luts := ls\<rparr>)"
    "lut_mem A fr ?ss ls (F((l, k) := fs)) (T(l \<mapsto> t(k := t k @ [(?p, v)])))"
    using insert_step [of A ?m "strings m" F T l t k ?p v] F l k(2) room new by (auto simp: k_def)
  let ?m' = "?m\<lparr>frags := fr, luts := ls\<rparr>"
  have h': "holds A ?m' (T(l \<mapsto> t(k := t k @ [(?p, v)])))" using r(2) by (auto simp: holds_def)
  have at: "string_key ?ss ?p = s" by (simp add: string_key_def)
  have old: "vals_in ?ss key (t k) = vals_in (strings m) key (t k)" for key
    using keys k string_key_append [of "strings m"] by (intro vals_in_frame) (auto simp: keys_ok_def)
  have P: "slot A (KeyP q) \<noteq> k" for q using slot_KeyP [of A q] k by auto
  have same: "slot A key = k \<Longrightarrow> key = KeyS s \<or> vals_in ?ss key [(?p, v)] = []" for key
    using P at by (cases key) (auto simp: vals_in_def is_entry_def)
  have "table_map A ?ss (t(k := t k @ [(?p, v)])) = map_insert (table_map A (strings m) t) (KeyS s) v"
    using update_frame(2) [OF F l k(2) new(2)] same old at
    by (auto simp: fun_eq_iff map_insert_def vals_in_append table_map_def slot_def k_def)
       (auto simp: vals_in_def is_entry_def)
  then have "models A ?m' ((maps_of A (strings m) T)(l \<mapsto> map_insert (table_map A (strings m) t) (KeyS s) v)) (caller_strings (strings m) T)"
    using modelsI [OF h', where m = m and T = T and l = l] update_frame(1) [OF F l k(2) new(2)] by (simp add: maps_of_def [of A _ "T(l \<mapsto> _)" l])
  then show ?thesis
    using r(1) STRcpy_ok [OF p] s string_key_append [OF p, of s] by (simp add: InsertIntoLUT_def k_def)
qed

subsection \<open>Searching\<close>

text \<open>The static variables while the pairs of a collision table are searched: the search is at pair \<open>j\<close>.\<close>

definition searching :: "lutmem \<Rightarrow> nat \<Rightarrow> ptr \<Rightarrow> nat \<Rightarrow> nat list \<Rightarrow> nat \<Rightarrow> nat \<Rightarrow> lutmem" where
  "searching m l q k fs n j = m\<lparr>store_lut := Some l, store_old_item := q, store_hash_key := int k,
     store_size := int n, store_i := int j, store_entry := pos fs j\<rparr>"

lemma searching_simps [simp]:
  "frags (searching m l q k fs n j) = frags m" "luts (searching m l q k fs n j) = luts m"
  "strings (searching m l q k fs n j) = strings m" "store_lut (searching m l q k fs n j) = Some l"
  "store_old_item (searching m l q k fs n j) = q" "store_size (searching m l q k fs n j) = int n"
  "store_i (searching m l q k fs n j) = int j" "store_entry (searching m l q k fs n j) = pos fs j"
  "(searching m l q k fs n j)\<lparr>store_entry := pos fs i, store_i := int i\<rparr> = searching m l q k fs n i"
  "(searching m l q k fs n j)\<lparr>store_i := int i, store_entry := pos fs i\<rparr> = searching m l q k fs n i"
  by (simp_all add: searching_def)

lemma holds_searching [simp]: "holds A (searching m l q k fs n j) T = holds A m T"
  by (simp add: holds_def)

definition hit_pos :: "nat list \<Rightarrow> nat \<Rightarrow> nat \<Rightarrow> vpp" where
  "hit_pos fs n j = (if j < n then val_pos fs j else None)"

text \<open>
  The loop of the callers, \<open>while (p != NULL) { ... *p ...; p = LUTsearchInLutNext (); }\<close>, which collects
  the values.
\<close>

partial_function (option) all_values ::
  "(lutmem \<Rightarrow> (vpp \<times> lutmem) cres) \<Rightarrow> ptr list \<Rightarrow> vpp \<Rightarrow> lutmem \<Rightarrow> (ptr list \<times> lutmem) cres option" where
  "all_values next_fun vs p m =
     (if p = None then Some (Inr (vs, m))
      else bindRO (get_cell p 0 m) (\<lambda>v. bindRO (next_fun m) (\<lambda>(p, m). all_values next_fun (vs @ [v]) p m)))"

declare all_values.simps [code]

context key_match
begin

lemma state_init:
  assumes b: "fcell (luts m) l k = Some (table_of fs (length xs))" and c: "chain (frags m) fs xs"
    and n: "int (length xs) \<le> int_max" and keys: "\<And>x. x \<in> set xs \<Longrightarrow> is_key (strings m) (fst x)"
    and q: "is_key (strings m) q" "q \<noteq> PNull"
  shows "SearchInLUT_state (Some l) q (int k) same True m
    = Inr (let j = hit (matches (strings m) q) xs 0 in (hit_pos fs (length xs) j, searching m l q k fs (length xs) j))"
proof -
  let ?m = "m\<lparr>store_lut := Some l, store_old_item := q, store_hash_key := int k, store_size := int (length xs),
     store_i := 0, store_entry := pos fs 0\<rparr>"
  have "SearchInLUT_from same q (int (length xs)) 0 (pos fs 0) ?m = Inr (found (matches (strings m) q) fs xs 0)"
    using search_ok [of ?m fs xs q 0] c n keys q by simp
  then show ?thesis
    using q get_lut_ok [of "m\<lparr>store_lut := Some l, store_old_item := q\<rparr>" l k] b
    by (simp add: SearchInLUT_state_def table_of_def found_def hit_pos_def searching_def Let_def)
qed

lemma state_next:
  assumes c: "chain (frags m) fs xs" and n: "int (length xs) \<le> int_max"
    and keys: "\<And>x. x \<in> set xs \<Longrightarrow> is_key (strings m) (fst x)"
    and q: "is_key (strings m) q" "q \<noteq> PNull" and t: "t < length xs"
  shows "SearchInLUT_state None PNull 0 same False (searching m l q k fs (length xs) t)
    = Inr (let j = hit (matches (strings m) q) xs (Suc t) in (hit_pos fs (length xs) j, searching m l q k fs (length xs) j))"
proof -
  let ?s = "searching m l q k fs (length xs)"
  have "next_entry (int t) (pos fs t) (?s t) = Inr (pos fs (Suc t))" using c n t by (intro next_pos [where xs = xs]) simp_all
  moreover have "SearchInLUT_from same q (int (length xs)) (int (Suc t)) (pos fs (Suc t)) (?s (Suc t))
      = Inr (found (matches (strings m) q) fs xs (Suc t))"
    using search_ok [of "?s (Suc t)" fs xs q "Suc t"] c n keys q t by simp
  moreover have "(?s t)\<lparr>store_entry := pos fs (Suc t), store_i := int t + 1\<rparr> = ?s (Suc t)" by (simp add: searching_def)
  ultimately show ?thesis
    using q by (simp add: SearchInLUT_state_def found_def hit_pos_def Let_def add.commute)
qed

lemma all_values_ok:
  assumes c: "chain (frags m) fs xs" and n: "int (length xs) \<le> int_max"
    and keys: "\<And>x. x \<in> set xs \<Longrightarrow> is_key (strings m) (fst x)"
    and q: "is_key (strings m) q" "q \<noteq> PNull"
    and j: "j = hit (matches (strings m) q) xs t" "t \<le> length xs"
  shows "all_values (SearchInLUT_state None PNull 0 same False) vs (hit_pos fs (length xs) j) (searching m l q k fs (length xs) j)
    = Some (Inr (vs @ map snd (filter (matches (strings m) q) (drop t xs)), searching m l q k fs (length xs) (length xs)))"
  using j
proof (induction "length xs - j" arbitrary: j t vs rule: less_induct)
  case less
  let ?M = "matches (strings m) q"
  note fh = filter_hit [of ?M t xs, folded less.prems(1)]
  have jn: "j \<le> length xs" using hit_le [OF less.prems(2)] less.prems(1) by simp
  show ?case
  proof (cases "j < length xs")
    case False
    then show ?thesis using fh jn by (subst all_values.simps) (simp add: hit_pos_def)
  next
    case True
    let ?j = "hit ?M xs (Suc j)"
    have "?j \<ge> Suc j" by (simp add: hit_def)
    then have IH: "all_values (SearchInLUT_state None PNull 0 same False) (vs @ [snd (xs ! j)]) (hit_pos fs (length xs) ?j)
        (searching m l q k fs (length xs) ?j)
      = Some (Inr ((vs @ [snd (xs ! j)]) @ map snd (filter ?M (drop (Suc j) xs)), searching m l q k fs (length xs) (length xs)))"
      using True by (intro less.hyps) auto
    have v: "get_cell (val_pos fs j) 0 (searching m l q k fs (length xs) j) = Inr (snd (xs ! j))"
      using c True by (intro get_val_pos [where xs = xs]) simp_all
    show ?thesis
      using True IH v fh state_next [OF c n keys q True, of l k]
      by (subst all_values.simps) (simp add: hit_pos_def [of fs _ j] val_pos_def Let_def)
  qed
qed

lemma search_all:
  assumes b: "fcell (luts m) l k = Some (table_of fs (length xs))" and c: "chain (frags m) fs xs"
    and n: "int (length xs) \<le> int_max" and keys: "\<And>x. x \<in> set xs \<Longrightarrow> is_key (strings m) (fst x)"
    and q: "is_key (strings m) q" "q \<noteq> PNull" and vs: "vs = map snd (filter (matches (strings m) q) xs)"
  shows "\<exists>p m' m''. SearchInLUT_state (Some l) q (int k) same True m = Inr (p, m')
    \<and> all_values (SearchInLUT_state None PNull 0 same False) [] p m' = Some (Inr (vs, m''))
    \<and> (p = None \<longleftrightarrow> vs = []) \<and> (p \<noteq> None \<longrightarrow> get_cell p 0 m' = Inr (hd vs))
    \<and> (\<forall>A T. holds A m T \<longrightarrow> holds A m' T \<and> holds A m'' T) \<and> strings m' = strings m \<and> strings m'' = strings m"
proof -
  define j where "j = hit (matches (strings m) q) xs 0"
  let ?s = "searching m l q k fs (length xs)"
  note fh = filter_hit [of "matches (strings m) q" 0 xs, folded j_def]
  have "SearchInLUT_state (Some l) q (int k) same True m = Inr (hit_pos fs (length xs) j, ?s j)"
    using state_init [OF b c n keys q] by (simp add: j_def Let_def)
  moreover have "all_values (SearchInLUT_state None PNull 0 same False) [] (hit_pos fs (length xs) j) (?s j)
      = Some (Inr (vs, ?s (length xs)))"
    using all_values_ok [OF c n keys q j_def, of "[]" l k] vs by simp
  moreover have "hit_pos fs (length xs) j = None \<longleftrightarrow> vs = []"
    using fh vs by (simp add: hit_pos_def val_pos_def)
  moreover have "get_cell (hit_pos fs (length xs) j) 0 (?s j) = Inr (hd vs)" if "hit_pos fs (length xs) j \<noteq> None"
    using that fh vs get_val_pos [of "?s j" fs xs j] c by (simp add: hit_pos_def split: if_splits)
  ultimately show ?thesis by auto
qed

lemma plain_search:
  assumes b: "fcell (luts m) l k = Some (table_of fs (length xs))" and c: "chain (frags m) fs xs"
    and n: "int (length xs) \<le> int_max" and keys: "\<And>x. x \<in> set xs \<Longrightarrow> is_key (strings m) (fst x)"
    and q: "is_key (strings m) q" "q \<noteq> PNull"
  shows "SearchInLUT (Some l) q (int k) same m = Inr (hit_pos fs (length xs) (hit (matches (strings m) q) xs 0))"
  using search_ok [OF c n keys q(1), of 0] q(2) get_lut_ok [OF b]
  by (simp add: SearchInLUT_def table_of_def found_def hit_pos_def Let_def)

lemma update_found:
  assumes b: "fcell (luts m) l k = Some (table_of fs (length xs))" and c: "chain (frags m) fs xs"
    and n: "int (length xs) \<le> int_max" and keys: "\<And>x. x \<in> set xs \<Longrightarrow> is_key (strings m) (fst x)"
    and q: "is_key (strings m) q" "q \<noteq> PNull"
    and j: "j = hit (matches (strings m) q) xs 0" "j < length xs"
  shows "\<exists>fr'. UpdateLUT (Some l) q v (int k) same m = Inr (Some l, snd (xs ! j), m\<lparr>frags := fr'\<rparr>)
    \<and> chain fr' fs (xs[j := (fst (xs ! j), v)]) \<and> chain_step (frags m) (set fs) fr' (set fs)"
proof -
  let ?f = "fs ! (j div 5)" and ?i = "Suc (2 * (j mod 5))"
  have f: "?f \<in> set fs" using chainD(7) [OF c] j(2) by simp
  have i: "?i < 11" by presburger
  have "put_cell (val_pos fs j) 0 v m = Inr (m\<lparr>frags := fput (frags m) ?f ?i v\<rparr>)"
    using chainD(3) [OF c f] i by (simp add: val_pos_def put_cell_ok)
  then have "UpdateLUT (Some l) q v (int k) same m = Inr (Some l, snd (xs ! j), m\<lparr>frags := fput (frags m) ?f ?i v\<rparr>)"
    using plain_search [OF b c n keys q] j get_val_pos [OF c j(2)] by (simp add: UpdateLUT_def hit_pos_def)
  then show ?thesis
    using chain_fput_val [OF c j(2) refl refl] chain_step_fput [OF chainD(3) [OF c] f i] by blast
qed

lemma update_missing:
  assumes b: "fcell (luts m) l k = Some (table_of fs (length xs))" and c: "chain (frags m) fs xs"
    and n: "int (length xs) \<le> int_max" and keys: "\<And>x. x \<in> set xs \<Longrightarrow> is_key (strings m) (fst x)"
    and q: "is_key (strings m) q" "q \<noteq> PNull" and none: "filter (matches (strings m) q) xs = []"
  shows "UpdateLUT (Some l) q v (int k) same m
    = bindR (if k < 32 then Inr (q, m) else STRcpy q m) (\<lambda>(q, m).
        bindR (InsertIntoLUT (Some l) q v (int k) m) (\<lambda>(lut, m). Inr (lut, PNull, m)))"
  using plain_search [OF b c n keys q] none filter_hit [of "matches (strings m) q" 0 xs]
  by (simp add: UpdateLUT_def hit_pos_def HASH_KEYS_POINTER_def split: if_splits)

end

lemma matches_P: "pk.matches ss q = is_entry ss (KeyP q)"
  by (simp add: fun_eq_iff pk.matches_def is_entry_def)

lemma matches_S: "sk.matches ss q = is_entry ss (KeyS (string_key ss q))"
  by (simp add: fun_eq_iff sk.matches_def is_entry_def)

lemma search_P:
  assumes h: "holds A m T" and l: "T l = Some t" and q: "q \<noteq> PNull" and vs: "vs = table_map A (strings m) t (KeyP q)"
  shows "\<exists>p m' m''. LUTsearchInLutP A (Some l) q m = Inr (p, m')
    \<and> all_values LUTsearchInLutNextP [] p m' = Some (Inr (vs, m''))
    \<and> (p = None \<longleftrightarrow> vs = []) \<and> (p \<noteq> None \<longrightarrow> get_cell p 0 m' = Inr (hd vs))
    \<and> holds A m' T \<and> strings m' = strings m \<and> holds A m'' T \<and> strings m'' = strings m"
proof -
  have k: "hashP A q < 49" using hashP_less [of A q] by simp
  obtain F where b: "fcell (luts m) l (hashP A q) = Some (table_of (F (l, hashP A q)) (length (t (hashP A q))))"
    and c: "chain (frags m) (F (l, hashP A q)) (t (hashP A q))" and n: "int (length (t (hashP A q))) \<le> int_max"
    using holds_table [OF h l k] by blast
  have "vs = map snd (filter (pk.matches (strings m) q) (t (hashP A q)))"
    by (simp add: vs table_map_def vals_in_def slot_def matches_P)
  from pk.search_all [OF b c n _ _ q this] h show ?thesis
    by (simp add: LUTsearchInLutP_def LUTsearchInLutNextP_def [abs_def] GetHashKey_Pointer_eq) blast
qed

lemma search_S:
  assumes h: "holds A m T" and l: "T l = Some t" and q: "is_string (strings m) q"
    and vs: "vs = table_map A (strings m) t (KeyS (string_key (strings m) q))"
  shows "\<exists>p m' m''. LUTsearchInLutS (Some l) q m = Inr (p, m')
    \<and> all_values LUTsearchInLutNextS [] p m' = Some (Inr (vs, m''))
    \<and> (p = None \<longleftrightarrow> vs = []) \<and> (p \<noteq> None \<longrightarrow> get_cell p 0 m' = Inr (hd vs))
    \<and> holds A m' T \<and> strings m' = strings m \<and> holds A m'' T \<and> strings m'' = strings m"
proof -
  define k where "k = hashS (string_key (strings m) q)"
  have k: "k < 49" "\<not> k < 32" using hashS_range by (simp_all add: k_def not_less)
  obtain F where b: "fcell (luts m) l k = Some (table_of (F (l, k)) (length (t k)))"
    and c: "chain (frags m) (F (l, k)) (t k)" and n: "int (length (t k)) \<le> int_max" and ok: "keys_ok A (strings m) k (t k)"
    using holds_table [OF h l k(1)] by blast
  have keys: "\<And>x. x \<in> set (t k) \<Longrightarrow> is_string (strings m) (fst x)" using ok k(2) by (simp add: keys_ok_def)
  have "vs = map snd (filter (sk.matches (strings m) q) (t k))"
    by (simp add: vs table_map_def vals_in_def slot_def matches_S k_def)
  from sk.search_all [OF b c n keys q is_string_nonnull [OF q] this] h show ?thesis
    using q by (simp add: LUTsearchInLutS_def LUTsearchInLutNextS_def [abs_def] GetHashKey_String_eq k_def) blast
qed

subsection \<open>Updating\<close>

text \<open>Abstractly, the first value of the key is replaced, or there is none and the value is inserted.\<close>

definition map_update :: "multimap \<Rightarrow> key \<Rightarrow> ptr \<Rightarrow> multimap" where
  "map_update f key v = f(key := v # tl (f key))"

definition first_val :: "multimap \<Rightarrow> key \<Rightarrow> ptr" where
  "first_val f key = (case f key of [] \<Rightarrow> PNull | v # _ \<Rightarrow> v)"

lemma filter_update_hit:
  assumes "hit P xs 0 < length xs" and "P (fst (xs ! hit P xs 0), v)"
  shows "map snd (filter P (xs[hit P xs 0 := (fst (xs ! hit P xs 0), v)])) = v # tl (map snd (filter P xs))"
    and "map snd (filter P xs) = snd (xs ! hit P xs 0) # tl (map snd (filter P xs))"
proof -
  show "map snd (filter P xs) = snd (xs ! hit P xs 0) # tl (map snd (filter P xs))"
    using filter_hit [of P 0 xs] assms by (simp add: hit_def)
  show "map snd (filter P (xs[hit P xs 0 := (fst (xs ! hit P xs 0), v)])) = v # tl (map snd (filter P xs))"
    using assms unfolding hit_def drop_0 add_0 by (induction xs) (auto split: if_splits)
qed

lemma map_insert_none: "f key = [] \<Longrightarrow> map_insert f key v = map_update f key v"
  by (simp add: map_insert_def map_update_def)

lemma filter_update_miss:
  "j < length xs \<Longrightarrow> \<not> P (xs ! j) \<Longrightarrow> \<not> P y \<Longrightarrow> filter P (xs[j := y]) = filter P xs"
  by (simp add: upd_conv_take_nth_drop) (metis append_take_drop_id filter.simps(2) filter_append id_take_nth_drop)

text \<open>The pair that is found gets a new value; \<open>key\<close> is the abstract key that was searched for.\<close>

lemma update_step:
  assumes h: "holds A m T" and l: "T l = Some t" and k: "k = slot A key" and F: "lut_mem A (frags m) (strings m) (luts m) F T"
    and j: "j = hit (is_entry (strings m) key) (t k) 0" "j < length (t k)"
    and c: "chain fr' (F (l, k)) ((t k)[j := (fst (t k ! j), v)])"
    and s: "chain_step (frags m) (set (F (l, k))) fr' (set (F (l, k)))"
  shows "models A (m\<lparr>frags := fr'\<rparr>) ((maps_of A (strings m) T)(l \<mapsto> map_update (table_map A (strings m) t) key v)) (caller_strings (strings m) T)"
    and "first_val (table_map A (strings m) t) key = snd (t k ! j)"
proof -
  let ?xs = "(t k)[j := (fst (t k ! j), v)]"
  have k49: "k < 49" using slot_less k by simp
  have lk: "(l, k) \<in> places T" "content_at T (l, k) = t k" using l k49 by (simp_all add: places_def content_at_def)
  have b: "int (length (t k)) \<le> int_max" "keys_ok A (strings m) k (t k)"
    "fcell (luts m) l k = Some (table_of (F (l, k)) (length (t k)))"
    using lut_memD(3,4) [OF F lk(1)] lk(2) by (simp_all add: bucket_def)
  have fst: "map fst ?xs = map fst (t k)"
    by (simp only: map_update fst_conv) (metis j(2) list_update_id nth_map)
  then have fs: "fst ` set ?xs = fst ` set (t k)" by (metis list.set_map)
  have "keys_ok A (strings m) k ?xs"
  proof -
    have "\<exists>y\<in>set (t k). fst y = fst x" if "x \<in> set ?xs" for x using that fs by (metis image_iff)
    then show ?thesis using b(2) fst unfolding keys_ok_def by metis
  qed
  moreover have own: "own_keys k ?xs = own_keys k (t k)" using fs by (simp add: own_keys_def)
  ultimately have inv: "lut_mem A fr' (strings m) (luts m) (F((l, k) := F (l, k))) (T(l \<mapsto> t(k := ?xs)))"
    using lut_mem_update [OF F l k49 c s, of "strings m"] b fput_same [OF b(3)]
      string_step_refl [of "own_keys k (t k)" "strings m"] keys_ok_strings [OF b(2)] by simp
  then have h': "holds A (m\<lparr>frags := fr'\<rparr>) (T(l \<mapsto> t(k := ?xs)))" by (auto simp: holds_def)
  have st: "string_step (strings m) (own_keys k (t k)) (strings m) (own_keys k ?xs)"
    using string_step_refl [of "own_keys k (t k)" "strings m"] keys_ok_strings [OF b(2)] own by simp
  note frame = update_frame [OF F l k49 st]
  have hit: "is_entry (strings m) key (t k ! j)"
    using hit_holds j by metis
  have P: "is_entry (strings m) key (fst (t k ! j), v)" using hit by (simp add: is_entry_def split: key.splits)
  have vals: "vals_in (strings m) key ?xs = v # tl (vals_in (strings m) key (t k))"
    "vals_in (strings m) key (t k) = snd (t k ! j) # tl (vals_in (strings m) key (t k))"
    using filter_update_hit [of "is_entry (strings m) key" "t k" v] j P unfolding vals_in_def by simp_all
  have other: "vals_in (strings m) key' ?xs = vals_in (strings m) key' (t k)" if "slot A key' = k" "key' \<noteq> key" for key'
  proof -
    have "\<not> is_entry (strings m) key' x" if "fst x = fst (t k ! j)" for x
      using hit that \<open>slot A key' = k\<close> \<open>key' \<noteq> key\<close> slot_apart [of A] k
      by (cases key; cases key') (auto simp: is_entry_def)
    then show ?thesis using j(2) unfolding vals_in_def by (simp add: filter_update_miss)
  qed
  have "table_map A (strings m) (t(k := ?xs)) = map_update (table_map A (strings m) t) key v"
    using frame(2) vals(1) other k by (auto simp: fun_eq_iff map_update_def table_map_def)
  then show "models A (m\<lparr>frags := fr'\<rparr>) ((maps_of A (strings m) T)(l \<mapsto> map_update (table_map A (strings m) t) key v)) (caller_strings (strings m) T)"
    using modelsI [OF h', where m = m and T = T and l = l] frame(1) by (simp add: maps_of_def [of A _ "T(l \<mapsto> _)" l])
  show "first_val (table_map A (strings m) t) key = snd (t k ! j)"
    unfolding first_val_def table_map_def using vals(2) k by (metis list.simps(5))
qed

lemma hit_none: "\<not> hit P xs 0 < length xs \<Longrightarrow> filter P xs = []"
  using filter_hit [of P 0 xs] by simp

lemma update_P:
  assumes h: "holds A m T" and l: "T l = Some t" and q: "q \<noteq> PNull" and room: "int (length (t (hashP A q))) < int_max"
  shows "\<exists>m'. LUTupdateLutP A (Some l) q v m = Inr (Some l, first_val (table_map A (strings m) t) (KeyP q), m')
    \<and> models A m' ((maps_of A (strings m) T)(l \<mapsto> map_update (table_map A (strings m) t) (KeyP q) v)) (caller_strings (strings m) T)"
proof -
  define k where "k = hashP A q"
  have k: "k < 32" "k < 49" "k = slot A (KeyP q)" using hashP_less [of A q] by (simp_all add: k_def slot_def)
  obtain F where F: "lut_mem A (frags m) (strings m) (luts m) F T"
    and b: "fcell (luts m) l k = Some (table_of (F (l, k)) (length (t k)))"
    and c: "chain (frags m) (F (l, k)) (t k)" and n: "int (length (t k)) \<le> int_max"
    using holds_table [OF h l k(2)] by blast
  show ?thesis
  proof (cases "hit (is_entry (strings m) (KeyP q)) (t k) 0 < length (t k)")
    case True
    obtain fr' where r: "UpdateLUT (Some l) q v (int k) IsEqual_Pointer m
        = Inr (Some l, snd (t k ! hit (is_entry (strings m) (KeyP q)) (t k) 0), m\<lparr>frags := fr'\<rparr>)"
      "chain fr' (F (l, k)) ((t k)[hit (is_entry (strings m) (KeyP q)) (t k) 0 := (fst (t k ! hit (is_entry (strings m) (KeyP q)) (t k) 0), v)])"
      "chain_step (frags m) (set (F (l, k))) fr' (set (F (l, k)))"
      using pk.update_found [OF b c n _ _ q refl, of v] True by (auto simp: matches_P)
    from update_step [OF h l k(3) F refl True r(2,3)] r(1) show ?thesis
      by (simp add: LUTupdateLutP_def GetHashKey_Pointer_eq k_def)
  next
    case False
    note none = hit_none [OF this]
    have e: "table_map A (strings m) t (KeyP q) = []" using none k(3) by (simp add: table_map_def vals_in_def)
    obtain m' where "InsertIntoLUT (Some l) q v (int k) m = Inr (Some l, m')"
      "models A m' ((maps_of A (strings m) T)(l \<mapsto> map_insert (table_map A (strings m) t) (KeyP q) v)) (caller_strings (strings m) T)"
      using insert_P [OF h l q room, of v] k_def by blast
    then show ?thesis
      using pk.update_missing [OF b c n _ _ q, of v] none k(1) e
      by (simp add: matches_P LUTupdateLutP_def GetHashKey_Pointer_eq k_def map_insert_none first_val_def)
  qed
qed

lemma update_S:
  assumes h: "holds A m T" and l: "T l = Some t" and q: "is_string (strings m) q" and s: "s = string_key (strings m) q"
    and room: "int (length (t (hashS s))) < int_max"
  shows "\<exists>m'. LUTupdateLutS (Some l) q v m = Inr (Some l, first_val (table_map A (strings m) t) (KeyS s), m')
    \<and> models A m' ((maps_of A (strings m) T)(l \<mapsto> map_update (table_map A (strings m) t) (KeyS s) v)) (caller_strings (strings m) T)"
proof -
  define k where "k = hashS s"
  have k: "\<not> k < 32" "k < 49" "k = slot A (KeyS s)" using hashS_range [of s] by (simp_all add: k_def slot_def)
  obtain F where F: "lut_mem A (frags m) (strings m) (luts m) F T"
    and b: "fcell (luts m) l k = Some (table_of (F (l, k)) (length (t k)))"
    and c: "chain (frags m) (F (l, k)) (t k)" and n: "int (length (t k)) \<le> int_max" and ok: "keys_ok A (strings m) k (t k)"
    using holds_table [OF h l k(2)] by blast
  have keys: "\<And>x. x \<in> set (t k) \<Longrightarrow> is_string (strings m) (fst x)" using ok k(1) by (simp add: keys_ok_def)
  let ?j = "hit (is_entry (strings m) (KeyS s)) (t k) 0"
  show ?thesis
  proof (cases "?j < length (t k)")
    case True
    obtain fr' where r: "UpdateLUT (Some l) q v (int k) IsEqual_String m = Inr (Some l, snd (t k ! ?j), m\<lparr>frags := fr'\<rparr>)"
      "chain fr' (F (l, k)) ((t k)[?j := (fst (t k ! ?j), v)])" "chain_step (frags m) (set (F (l, k))) fr' (set (F (l, k)))"
      using sk.update_found [OF b c n keys q is_string_nonnull [OF q] refl, of v] True by (auto simp: matches_S s)
    from update_step [OF h l k(3) F refl True r(2,3)] r(1) show ?thesis
      using q by (simp add: LUTupdateLutS_def GetHashKey_String_eq k_def s)
  next
    case False
    note none = hit_none [OF this]
    have e: "table_map A (strings m) t (KeyS s) = []" using none k(3) by (simp add: table_map_def vals_in_def)
    obtain m1 m' where "STRcpy q m = Inr (PStr (length (strings m)), m1)"
      "InsertIntoLUT (Some l) (PStr (length (strings m))) v (int k) m1 = Inr (Some l, m')"
      "models A m' ((maps_of A (strings m) T)(l \<mapsto> map_insert (table_map A (strings m) t) (KeyS s) v)) (caller_strings (strings m) T)"
      using copy_insert_S [OF h l q s room, of v] k_def by blast
    then show ?thesis
      using sk.update_missing [OF b c n keys q is_string_nonnull [OF q], of v] none k(1) e q
      by (simp add: matches_S s [symmetric] LUTupdateLutS_def GetHashKey_String_eq k_def map_insert_none first_val_def)
  qed
qed

end
