(* ===== verification/LUT_Whole.thy ===== *)
theory LUT_Whole
  imports LUT_Ops
begin

text \<open>
  The functions on whole tables: making, mapping and folding, emptying and removing, and the test for
  emptiness.
\<close>

subsection \<open>A new table\<close>

lemma new_table_simps:
  "fcell (ls @ [Some v]) l i = (if l = length ls then (if i < length v then v ! i else None) else fcell ls l i)"
  "is_table (ls @ [Some v]) l \<longleftrightarrow> (if l = length ls then length v = 49 else is_table ls l)"
  by (auto simp: fcell_def is_table_def nth_append)

lemma table_fput [fmem]:
  "is_table ls l \<Longrightarrow> k < 49 \<Longrightarrow> l' \<noteq> l \<Longrightarrow> fcell (fput ls l k b) l' i = fcell ls l' i"
  by (simp add: fmem)

lemma generate_ok:
  assumes inv: "lut_mem A (frags m) (strings m) (luts m) F T"
  shows "\<exists>m' F'. LUTgenerateLut m = Inr (Some (length (luts m)), m') \<and> strings m' = strings m
    \<and> T (length (luts m)) = None \<and> (\<forall>x. fst x \<noteq> length (luts m) \<longrightarrow> F' x = F x)
    \<and> lut_mem A (frags m') (strings m') (luts m') F' (T(length (luts m) \<mapsto> (\<lambda>_. [])))"
proof -
  let ?l = "length (luts m)" and ?n = "length (frags m)"
  let ?ls = "luts m @ [Some (allocv HASH_KEYS)]"
  have keys: "allocv HASH_KEYS = replicate 49 (None :: lut_t option)"
    by (simp add: allocv_def HASH_KEYS_def HASH_KEYS_POINTER_def HASH_KEYS_STRING_def)
  have T: "T ?l = None" using lut_memD(1) [OF inv, of ?l] by (simp add: live_def)
  let ?body = "\<lambda>k m. let (f, m) = new_fragment m in
          put_lut ?l k \<lparr>lut_first = Some (f, 0), lut_next = Some (f, 0), lut_size = 0\<rparr> m"
  let ?P = "\<lambda>j m'. \<exists>fr ls. m' = m\<lparr>frags := fr, luts := ls\<rparr> \<and> length fr = ?n + j
    \<and> (\<forall>g i. fcell fr g i = fcell (frags m) g i) \<and> (\<forall>g. is_frag fr g \<longleftrightarrow> is_frag (frags m) g \<or> ?n \<le> g \<and> g < ?n + j)
    \<and> (\<forall>g. live fr g \<longleftrightarrow> live (frags m) g \<or> ?n \<le> g \<and> g < ?n + j)
    \<and> is_table ls ?l \<and> (\<forall>i<j. fcell ls ?l i = Some (table_of [?n + i] 0))
    \<and> (\<forall>l'. l' \<noteq> ?l \<longrightarrow> is_table ls l' = is_table (luts m) l' \<and> (\<forall>i. fcell ls l' i = fcell (luts m) l' i))
    \<and> (\<forall>l'. live ls l' \<longleftrightarrow> live (luts m) l' \<or> l' = ?l)"
  have "\<exists>m'. cfor 0 (int 49) ?body (m\<lparr>luts := ?ls\<rparr>) = Inr m' \<and> ?P (nat (int 49)) m'"
  proof (rule cfor_inv [where P = "\<lambda>i. ?P (nat i)"])
    show "?P (nat 0) (m\<lparr>luts := ?ls\<rparr>)"
      by (intro exI [of _ "frags m"] exI [of _ ?ls]) (auto simp: keys new_table_simps fmem)
    fix i :: int and m'
    assume i: "0 \<le> i" "i < int 49" and P: "?P (nat i) m'"
    obtain j where j: "i = int j" "j < 49" using i by (metis nonneg_int_cases of_nat_less_iff)
    obtain fr ls where m': "m' = m\<lparr>frags := fr, luts := ls\<rparr>" and n: "length fr = ?n + j" and l: "is_table ls ?l"
      and fr: "\<And>g i. fcell fr g i = fcell (frags m) g i" "\<And>g. is_frag fr g \<longleftrightarrow> is_frag (frags m) g \<or> ?n \<le> g \<and> g < ?n + j"
        "\<And>g. live fr g \<longleftrightarrow> live (frags m) g \<or> ?n \<le> g \<and> g < ?n + j"
      and ls: "\<And>i. i < j \<Longrightarrow> fcell ls ?l i = Some (table_of [?n + i] 0)"
        "\<And>l'. l' \<noteq> ?l \<Longrightarrow> is_table ls l' = is_table (luts m) l'" "\<And>l' i. l' \<noteq> ?l \<Longrightarrow> fcell ls l' i = fcell (luts m) l' i"
        "\<And>l'. live ls l' \<longleftrightarrow> live (luts m) l' \<or> l' = ?l"
      using P j(1) by auto
    let ?m = "m\<lparr>frags := fnew fr, luts := fput ls ?l j (table_of [?n + j] 0)\<rparr>"
    have "\<lparr>lut_first = Some (length fr, 0), lut_next = Some (length fr, 0), lut_size = 0\<rparr> = table_of [?n + j] 0"
      using n by (simp add: table_of_def pos_def)
    then have "?body i m' = Inr ?m" using l j by (simp add: m' new_fragment_eq put_lut_ok)
    moreover have "?P (nat (i + 1)) ?m"
    proof -
      have si: "nat (i + 1) = Suc j" using j by simp
      show ?thesis
        unfolding si using l j n fr ls
        by (intro exI [of _ "fnew fr"] exI [of _ "fput ls ?l j (table_of [?n + j] 0)"]) (auto simp: fmem less_Suc_eq)
    qed
    ultimately show "\<exists>m''. ?body i m' = Inr m'' \<and> ?P (nat (i + 1)) m''" by blast
  qed simp
  then obtain fr ls where r: "cfor 0 49 ?body (m\<lparr>luts := ?ls\<rparr>) = Inr (m\<lparr>frags := fr, luts := ls\<rparr>)"
      and l: "is_table ls ?l"
      and fr: "\<And>g i. fcell fr g i = fcell (frags m) g i" "\<And>g. is_frag fr g \<longleftrightarrow> is_frag (frags m) g \<or> ?n \<le> g \<and> g < ?n + 49"
        "\<And>g. live fr g \<longleftrightarrow> live (frags m) g \<or> ?n \<le> g \<and> g < ?n + 49"
      and ls: "\<And>i. i < 49 \<Longrightarrow> fcell ls ?l i = Some (table_of [?n + i] 0)"
        "\<And>l'. l' \<noteq> ?l \<Longrightarrow> is_table ls l' = is_table (luts m) l'" "\<And>l' i. l' \<noteq> ?l \<Longrightarrow> fcell ls l' i = fcell (luts m) l' i"
        "\<And>l'. live ls l' \<longleftrightarrow> live (luts m) l' \<or> l' = ?l"
    by auto
  let ?F = "\<lambda>x. if fst x = ?l then [?n + snd x] else F x" and ?T = "T(?l \<mapsto> (\<lambda>_. []))"
  have pl: "x \<in> places ?T \<longleftrightarrow> x \<in> places T \<or> fst x = ?l \<and> snd x < 49" for x
    using T by (cases x) (auto simp: places_def)
  have old: "fst x \<noteq> ?l" if "x \<in> places T" for x using that T by (auto simp: places_def)
  have at: "content_at ?T x = (if fst x = ?l then [] else content_at T x)" for x by (simp add: content_at_def)
  have dead: "g < ?n" if "live (frags m) g" for g using that by (simp add: live_def)
  have Fn: "g < ?n" if "x \<in> places T" "g \<in> set (F x)" for x g
    using chainD(3) [of "frags m" "F x"] lut_memD(4) [OF inv that(1)] that(2) dead live_frag by (auto simp: bucket_def)
  have Fnew: "?n + i \<notin> set (F x)" if "x \<in> places T" for x i using Fn [OF that, of "?n + i"] by auto
  have none: "own_keys k [] = {}" for k by (simp add: own_keys_def)
  have "lut_mem A fr (strings m) ls ?F ?T"
    unfolding lut_mem_def
  proof (intro conjI allI ballI impI)
    show "live ls l' \<longleftrightarrow> ?T l' \<noteq> None" for l' using ls(4) [of l'] lut_memD(1) [OF inv, of l'] by auto
    show "is_table ls l'" if "?T l' \<noteq> None" for l' using that l ls(2) lut_memD(2) [OF inv, of l'] by (cases "l' = ?l") auto
    fix x assume x: "x \<in> places ?T"
    show "fcell ls (fst x) (snd x) = Some (table_of (?F x) (length (content_at ?T x)))"
      using x pl [of x] ls(1,3) old [of x] lut_memD(3) [OF inv, of x] at [of x] by (cases "fst x = ?l") auto
    show "bucket A fr (strings m) (snd x) (?F x) (content_at ?T x)"
    proof (cases "fst x = ?l")
      case True
      have "fcell fr (?n + snd x) 10 = None" unfolding fr(1) by (simp add: fcell_def)
      with True show ?thesis
        using fr(2) [of "?n + snd x"] x pl [of x] old [of x] at [of x] by (auto simp: bucket_def keys_ok_def chain_Nil int_max_def)
    next
      case False
      then have "x \<in> places T" using x pl by simp
      then have "bucket A (frags m) (strings m) (snd x) (F x) (content_at T x)" using lut_memD(4) [OF inv] by simp
      moreover have "chain fr (F x) (content_at T x)" if "chain (frags m) (F x) (content_at T x)"
        using that fr chainD(3) [OF that] by (intro chain_frame [OF that]) simp_all
      ultimately show ?thesis using False at by (simp add: bucket_def)
    qed
    fix y assume y: "y \<in> places ?T" and xy: "x \<noteq> y"
    show "set (?F x) \<inter> set (?F y) = {}"
      using x y xy pl [of x] pl [of y] lut_memD(5) [OF inv, of x y] Fnew [of x "snd y"] Fnew [of y "snd x"] by (auto simp: prod_eq_iff)
    show "own_keys (snd x) (content_at ?T x) \<inter> own_keys (snd y) (content_at ?T y) = {}"
      using x y xy pl [of x] pl [of y] lut_memD(6) [OF inv, of x y] at [of x] at [of y] none
      by (cases "fst x = ?l"; cases "fst y = ?l"; simp)
  next
    fix f assume "live fr f"
    then consider "live (frags m) f" | "?n \<le> f" "f < ?n + 49" using fr(3) by blast
    then show "\<exists>x\<in>places ?T. f \<in> set (?F x)"
    proof cases
      case 1
      then obtain x where "x \<in> places T" "f \<in> set (F x)" using lut_memD(7) [OF inv] by blast
      then show ?thesis using pl old by (intro bexI [of _ x]) auto
    next
      case 2
      then show ?thesis using pl by (intro bexI [of _ "(?l, f - ?n)"]) auto
    qed
  qed
  moreover have "LUTgenerateLut m = Inr (Some ?l, m\<lparr>frags := fr, luts := ls\<rparr>)"
    using r by (simp add: LUTgenerateLut_def HASH_KEYS_def HASH_KEYS_POINTER_def HASH_KEYS_STRING_def)
  ultimately show ?thesis using T by (intro exI [of _ "m\<lparr>frags := fr, luts := ls\<rparr>"] exI [of _ ?F]) simp
qed

lemma frame_new:
  assumes inv: "lut_mem A (frags m) ss (luts m) F T" and l: "T l = None"
  shows "frame A l ss T ss (T(l \<mapsto> (\<lambda>_. [])))"
proof -
  let ?T = "T(l \<mapsto> (\<lambda>_. []))"
  have "owned ?T = owned T"
  proof (intro equalityI subsetI)
    fix p assume "p \<in> owned ?T"
    then obtain x where x: "x \<in> places ?T" "p \<in> own_keys (snd x) (content_at ?T x)" by (auto simp: owned_def)
    have "fst x \<noteq> l"
    proof
      assume "fst x = l"
      then have "content_at ?T x = []" by (simp add: content_at_def)
      with x(2) show False by (simp add: own_keys_def split: if_splits)
    qed
    then have "x \<in> places T" "content_at ?T x = content_at T x" using x(1) by (auto simp: places_def content_at_def)
    then show "p \<in> owned T" using x(2) by (auto simp: owned_def)
  next
    fix p assume "p \<in> owned T"
    then obtain x where x: "x \<in> places T" "p \<in> own_keys (snd x) (content_at T x)" by (auto simp: owned_def)
    then have "x \<in> places ?T" "content_at ?T x = content_at T x" using l by (auto simp: places_def content_at_def)
    then show "p \<in> owned ?T" using x(2) by (auto simp: owned_def intro!: bexI [of _ x])
  qed
  then show ?thesis by (auto simp: frame_def caller_strings_def maps_of_def)
qed

subsection \<open>All collision tables, one after the other\<close>

lemma loop_tables:
  assumes h: "holds A m T" and l: "T l = Some t" and ab: "a \<le> b"
    and body: "\<And>k m' T' t'. a \<le> k \<Longrightarrow> k < b \<Longrightarrow> holds A m' T' \<Longrightarrow> T' l = Some t' \<Longrightarrow> t' k = t k \<Longrightarrow>
      \<exists>m'' xs. body (int k) m' = Inr m'' \<and> Q k (t k) xs \<and> holds A m'' (T'(l \<mapsto> t'(k := xs)))
        \<and> frame A l (strings m') T' (strings m'') (T'(l \<mapsto> t'(k := xs))) \<and> (keep \<longrightarrow> strings m'' = strings m')"
  shows "\<exists>m' t'. cfor (int a) (int b) body m = Inr m' \<and> holds A m' (T(l \<mapsto> t'))
    \<and> (\<forall>k. a \<le> k \<longrightarrow> k < b \<longrightarrow> Q k (t k) (t' k)) \<and> (\<forall>k. k < a \<or> b \<le> k \<longrightarrow> t' k = t k)
    \<and> frame A l (strings m) T (strings m') (T(l \<mapsto> t')) \<and> (keep \<longrightarrow> strings m' = strings m)"
proof -
  let ?P = "\<lambda>j m'. \<exists>t'. holds A m' (T(l \<mapsto> t')) \<and> (\<forall>k. a \<le> k \<longrightarrow> k < j \<longrightarrow> Q k (t k) (t' k))
    \<and> (\<forall>k. k < a \<or> j \<le> k \<longrightarrow> t' k = t k) \<and> frame A l (strings m) T (strings m') (T(l \<mapsto> t'))
    \<and> (keep \<longrightarrow> strings m' = strings m)"
  have "\<exists>m'. cfor (int a) (int b) body m = Inr m' \<and> ?P (nat (int b)) m'"
  proof (rule cfor_inv [where P = "\<lambda>i. ?P (nat i)"])
    have "T(l \<mapsto> t) = T" using l by auto
    then show "?P (nat (int a)) m" using h by (intro exI [of _ t]) (auto simp: frame_refl)
    fix i :: int and m'
    assume i: "int a \<le> i" "i < int b" and P: "?P (nat i) m'"
    obtain k where k: "i = int k" "a \<le> k" "k < b" using i by (metis int_nat_eq nat_le_iff nat_less_iff of_nat_0_le_iff order.trans zle_int zless_nat_conj)
    obtain t' where t': "holds A m' (T(l \<mapsto> t'))" "\<forall>k'. a \<le> k' \<longrightarrow> k' < k \<longrightarrow> Q k' (t k') (t' k')"
      "\<forall>k'. k' < a \<or> k \<le> k' \<longrightarrow> t' k' = t k'" "frame A l (strings m) T (strings m') (T(l \<mapsto> t'))" "keep \<longrightarrow> strings m' = strings m"
      using P k(1) by auto
    obtain m'' xs where s: "body (int k) m' = Inr m''" "Q k (t k) xs" "holds A m'' (T(l \<mapsto> t'(k := xs)))"
      "frame A l (strings m') (T(l \<mapsto> t')) (strings m'') (T(l \<mapsto> t'(k := xs)))" "keep \<longrightarrow> strings m'' = strings m'"
      using body [OF k(2,3) t'(1), of t'] t'(3) by auto
    have "?P (Suc k) m''"
      using s t' k(2,3) frame_trans [OF t'(4) s(4)] by (intro exI [of _ "t'(k := xs)"]) (auto simp: less_Suc_eq)
    moreover have "nat (i + 1) = Suc k" using k(1) by simp
    ultimately show "\<exists>m''. body i m' = Inr m'' \<and> ?P (nat (i + 1)) m''" using s(1) k(1) by auto
  qed (use ab in simp)
  then show ?thesis by auto
qed

text \<open>One collision table is replaced by one with the same keys, or emptied.\<close>

lemma table_step:
  assumes h: "holds A m T" and l: "T l = Some t" and k: "k < 49"
    and F: "lut_mem A (frags m) (strings m) (luts m) F T"
    and c: "chain fr' fs' xs'" "chain_step (frags m) (set (F (l, k))) fr' (set fs')"
    and keys: "keys_ok A ss' k xs'" "string_step (strings m) (own_keys k (t k)) ss' (own_keys k xs')"
    and n: "int (length xs') \<le> int_max"
    and m': "frags m' = fr'" "strings m' = ss'" "luts m' = fput (luts m) l k (table_of fs' (length xs'))"
  shows "holds A m' (T(l \<mapsto> t(k := xs')))" and "frame A l (strings m) T (strings m') (T(l \<mapsto> t(k := xs')))"
  using lut_mem_update [OF F l k c n keys] update_frame(1) [OF F l k keys(2)] m' by (auto simp: holds_def)

lemma free_keys_step:
  assumes "keys_ok A ss k xs" and "\<not> k < 32"
  shows "string_step ss (own_keys k xs) (free_keys (map fst xs) ss) {}"
  using assms by (auto simp: string_step_def own_keys_def live_free_keys nth_free_keys)

lemma clear_ok:
  assumes h: "holds A m T" and l: "T l = Some t" and k: "k < 49"
  shows "k < 32 \<Longrightarrow> \<exists>m'. clear_pointers l (int k) m = Inr m' \<and> holds A m' (T(l \<mapsto> t(k := [])))
      \<and> frame A l (strings m) T (strings m') (T(l \<mapsto> t(k := [])))"
    and "\<not> k < 32 \<Longrightarrow> \<exists>m'. clear_strings l (int k) m = Inr m' \<and> holds A m' (T(l \<mapsto> t(k := [])))
      \<and> frame A l (strings m) T (strings m') (T(l \<mapsto> t(k := [])))"
proof -
  obtain F where F: "lut_mem A (frags m) (strings m) (luts m) F T" and tab: "is_table (luts m) l"
    and b: "fcell (luts m) l k = Some (table_of (F (l, k)) (length (t k)))"
    and c: "chain (frags m) (F (l, k)) (t k)" and n: "int (length (t k)) \<le> int_max" and ok: "keys_ok A (strings m) k (t k)"
    using holds_table [OF h l k] by blast
  have nil: "keys_ok A ss k []" "int (length ([] :: (ptr \<times> ptr) list)) \<le> int_max" for ss by (simp_all add: keys_ok_def int_max_def)
  show "\<exists>m'. clear_pointers l (int k) m = Inr m' \<and> holds A m' (T(l \<mapsto> t(k := [])))
      \<and> frame A l (strings m) T (strings m') (T(l \<mapsto> t(k := [])))" if k32: "k < 32"
  proof -
    obtain fr' f where r: "clear_pointers l (int k) m = Inr (m\<lparr>frags := fr', luts := fput (luts m) l k (table_of [f] 0)\<rparr>)"
      "chain fr' [f] []" "chain_step (frags m) (set (F (l, k))) fr' (set [f])"
      using clear_pointers_ok [OF b tab k c] by auto
    have "string_step (strings m) (own_keys k (t k)) (strings m) (own_keys k [])" using k32 by simp
    from table_step [OF h l k F r(2,3) nil(1) this nil(2), of "m\<lparr>frags := fr', luts := fput (luts m) l k (table_of [f] 0)\<rparr>"] r(1)
    show ?thesis by simp
  qed
  show "\<exists>m'. clear_strings l (int k) m = Inr m' \<and> holds A m' (T(l \<mapsto> t(k := [])))
      \<and> frame A l (strings m) T (strings m') (T(l \<mapsto> t(k := [])))" if k32: "\<not> k < 32"
  proof -
    let ?ss = "free_keys (map fst (t k)) (strings m)"
    have keys: "\<And>x. x \<in> set (t k) \<Longrightarrow> is_string (strings m) (fst x)" "distinct (map fst (t k))" using ok k32 by (simp_all add: keys_ok_def)
    obtain fr' f where r: "clear_strings l (int k) m
        = Inr (m\<lparr>frags := fr', strings := ?ss, luts := fput (luts m) l k (table_of [f] 0)\<rparr>)"
      "chain fr' [f] []" "chain_step (frags m) (set (F (l, k))) fr' (set [f])"
      using clear_strings_ok [OF b tab k c n keys] by auto
    have "string_step (strings m) (own_keys k (t k)) ?ss (own_keys k [])" using free_keys_step [OF ok k32] k32 by (simp add: own_keys_def)
    from table_step [OF h l k F r(2,3) nil(1) this nil(2),
        of "m\<lparr>frags := fr', strings := ?ss, luts := fput (luts m) l k (table_of [f] 0)\<rparr>"] r(1)
    show ?thesis by simp
  qed
qed

lemma map_table_step:
  assumes h: "holds A m T" and l: "T l = Some t" and k: "k < 49"
  shows "\<exists>m'. map_table f l (int k) m = Inr m' \<and> holds A m' (T(l \<mapsto> t(k := map (map_val f) (t k))))
      \<and> frame A l (strings m) T (strings m') (T(l \<mapsto> t(k := map (map_val f) (t k)))) \<and> strings m' = strings m"
proof -
  let ?xs = "map (map_val f) (t k)"
  obtain F where F: "lut_mem A (frags m) (strings m) (luts m) F T"
    and b: "fcell (luts m) l k = Some (table_of (F (l, k)) (length (t k)))"
    and c: "chain (frags m) (F (l, k)) (t k)" and n: "int (length (t k)) \<le> int_max" and ok: "keys_ok A (strings m) k (t k)"
    using holds_table [OF h l k] by blast
  obtain fr' where r: "map_table f l (int k) m = Inr (m\<lparr>frags := fr'\<rparr>)" "chain fr' (F (l, k)) ?xs"
      "chain_step (frags m) (set (F (l, k))) fr' (set (F (l, k)))"
    using map_table_ok [OF b n c, of f] by blast
  have fst: "map fst ?xs = map fst (t k)" by (simp add: map_val_def)
  have "keys_ok A (strings m) k ?xs" using ok by (auto simp: keys_ok_def map_val_def comp_def)
  moreover have "own_keys k ?xs = own_keys k (t k)" by (simp add: own_keys_def map_val_def image_image)
  then have "string_step (strings m) (own_keys k (t k)) (strings m) (own_keys k ?xs)"
    using string_step_refl [of "own_keys k (t k)" "strings m"] keys_ok_strings [OF ok] by simp
  ultimately show ?thesis
    using table_step [OF h l k F r(2,3), of "strings m" "m\<lparr>frags := fr'\<rparr>"] r(1) n fput_same [OF b] by simp
qed

subsection \<open>Mapping and folding\<close>

definition only_P :: "multimap \<Rightarrow> (ptr \<Rightarrow> ptr \<Rightarrow> ptr) \<Rightarrow> multimap" where
  "only_P a f key = (case key of KeyP p \<Rightarrow> map (\<lambda>v. f v p) (a key) | KeyS s \<Rightarrow> a key)"

definition only_S :: "multimap \<Rightarrow> (ptr \<Rightarrow> ptr) \<Rightarrow> multimap" where
  "only_S a f key = (case key of KeyP p \<Rightarrow> a key | KeyS s \<Rightarrow> map f (a key))"

lemma MapLUT_ok:
  assumes h: "holds A m T" and l: "T l = Some t" and ab: "a \<le> b" "b \<le> 49"
  shows "\<exists>m' t'. MapLUT (Some l) f (int a) (int b) m = Inr m' \<and> holds A m' (T(l \<mapsto> t'))
    \<and> (\<forall>k. t' k = (if a \<le> k \<and> k < b then map (map_val f) (t k) else t k))
    \<and> frame A l (strings m) T (strings m') (T(l \<mapsto> t')) \<and> strings m' = strings m"
proof -
  have "\<exists>m' t'. cfor (int a) (int b) (map_table f l) m = Inr m' \<and> holds A m' (T(l \<mapsto> t'))
    \<and> (\<forall>k. a \<le> k \<longrightarrow> k < b \<longrightarrow> t' k = map (map_val f) (t k)) \<and> (\<forall>k. k < a \<or> b \<le> k \<longrightarrow> t' k = t k)
    \<and> frame A l (strings m) T (strings m') (T(l \<mapsto> t')) \<and> (True \<longrightarrow> strings m' = strings m)"
  proof (rule loop_tables [OF h l ab(1), where Q = "\<lambda>k xs ys. ys = map (map_val f) xs" and keep = True])
    fix k m' T' t'
    assume "a \<le> k" "k < b" "holds A m' T'" "T' l = Some t'" "t' k = t k"
    then show "\<exists>m'' xs. map_table f l (int k) m' = Inr m'' \<and> xs = map (map_val f) (t k) \<and> holds A m'' (T'(l \<mapsto> t'(k := xs)))
        \<and> frame A l (strings m') T' (strings m'') (T'(l \<mapsto> t'(k := xs))) \<and> (True \<longrightarrow> strings m'' = strings m')"
      using map_table_step [of A m' T' l t' k f] ab by auto
  qed
  then obtain m' t' where r: "cfor (int a) (int b) (map_table f l) m = Inr m'" "holds A m' (T(l \<mapsto> t'))"
    "\<forall>k. a \<le> k \<longrightarrow> k < b \<longrightarrow> t' k = map (map_val f) (t k)" "\<forall>k. k < a \<or> b \<le> k \<longrightarrow> t' k = t k"
    "frame A l (strings m) T (strings m') (T(l \<mapsto> t'))" "strings m' = strings m" by blast
  have "t' k = (if a \<le> k \<and> k < b then map (map_val f) (t k) else t k)" for k using r(3,4) by (simp add: not_less not_le)
  with r show ?thesis by (auto simp: MapLUT_def)
qed

lemma vals_in_map:
  "vals_in ss key (map (map_val f) xs) = map (\<lambda>x. f (snd x) (fst x)) (filter (is_entry ss key) xs)"
proof -
  have "is_entry ss key \<circ> map_val f = is_entry ss key" by (auto simp: fun_eq_iff is_entry_def map_val_def split: key.split)
  then show ?thesis by (simp add: vals_in_def filter_map map_val_def comp_def)
qed

lemma map_P:
  assumes h: "holds A m T" and l: "T l = Some t"
  shows "\<exists>m'. LUTmapLutP (Some l) f m = Inr m'
    \<and> models A m' ((maps_of A (strings m) T)(l \<mapsto> only_P (table_map A (strings m) t) f)) (caller_strings (strings m) T)"
proof -
  obtain m' t' where r: "MapLUT (Some l) f (int 0) (int 32) m = Inr m'" "holds A m' (T(l \<mapsto> t'))"
    "\<forall>k. t' k = (if 0 \<le> k \<and> k < 32 then map (map_val f) (t k) else t k)"
    "frame A l (strings m) T (strings m') (T(l \<mapsto> t'))" "strings m' = strings m"
    using MapLUT_ok [OF h l, of 0 32 f] by auto
  have "table_map A (strings m) t' key = only_P (table_map A (strings m) t) f key" for key
  proof (cases key)
    case (KeyP p)
    have "map (\<lambda>x. f (snd x) (fst x)) (filter (is_entry (strings m) (KeyP p)) xs) = map (\<lambda>v. f v p) (vals_in (strings m) (KeyP p) xs)" for xs
      by (auto simp: vals_in_def is_entry_def)
    then show ?thesis using r(3) slot_KeyP [of A p] by (simp add: KeyP table_map_def only_P_def vals_in_map)
  next
    case (KeyS s)
    then show ?thesis using r(3) slot_KeyS [of A s] by (simp add: table_map_def only_P_def not_less)
  qed
  then have "table_map A (strings m) t' = only_P (table_map A (strings m) t) f" by (rule ext)
  then show ?thesis
    using r modelsI [OF r(2,4)] by (simp add: LUTmapLutP_def HASH_KEYS_POINTER_def maps_of_def [of A _ "T(l \<mapsto> _)" l])
qed

lemma map_S:
  assumes h: "holds A m T" and l: "T l = Some t"
  shows "\<exists>m'. LUTmapLutS (Some l) (\<lambda>v _. f v) m = Inr m'
    \<and> models A m' ((maps_of A (strings m) T)(l \<mapsto> only_S (table_map A (strings m) t) f)) (caller_strings (strings m) T)"
proof -
  obtain m' t' where r: "MapLUT (Some l) (\<lambda>v _. f v) (int 32) (int 49) m = Inr m'" "holds A m' (T(l \<mapsto> t'))"
    "\<forall>k. t' k = (if 32 \<le> k \<and> k < 49 then map (map_val (\<lambda>v _. f v)) (t k) else t k)"
    "frame A l (strings m) T (strings m') (T(l \<mapsto> t'))" "strings m' = strings m"
    using MapLUT_ok [OF h l, of 32 49 "\<lambda>v _. f v"] by auto
  have "table_map A (strings m) t' key = only_S (table_map A (strings m) t) f key" for key
  proof (cases key)
    case (KeyP p)
    then show ?thesis using r(3) slot_KeyP [of A p] by (simp add: table_map_def only_S_def)
  next
    case (KeyS s)
    then show ?thesis using r(3) slot_KeyS [of A s] slot_less [of A key]
      by (simp add: table_map_def only_S_def vals_in_map) (simp add: vals_in_def)
  qed
  then have "table_map A (strings m) t' = only_S (table_map A (strings m) t) f" by (rule ext)
  then show ?thesis
    using r modelsI [OF r(2,4)]
    by (simp add: LUTmapLutS_def HASH_KEYS_def HASH_KEYS_STRING_def HASH_KEYS_POINTER_def maps_of_def [of A _ "T(l \<mapsto> _)" l])
qed

lemma FoldLUT_ok:
  assumes h: "holds A m T" and l: "T l = Some t" and ab: "a \<le> b" "b \<le> 49"
  shows "FoldLUT (Some l) s f (int a) (int b) m = Inr (foldl (\<lambda>s (key, v). f s v key) s (concat (map t [a..<b])))"
proof -
  let ?body = "\<lambda>k. fold_table l k (\<lambda>key v s. Inr (f s v key)) (\<lambda>_. m)"
  let ?g = "\<lambda>j. foldl (\<lambda>s (key, v). f s v key) s (concat (map t [a..<nat j]))"
  have "cfor (int a) (int b) ?body (?g (int a)) = Inr (?g (int b))"
  proof (rule cfor_traj)
    fix j assume j: "int a \<le> j" "j < int b"
    define k where "k = nat j"
    have k: "j = int k" "a \<le> k" "k < 49" "nat (j + 1) = Suc k" using j ab by (auto simp: k_def)
    obtain F where "fcell (luts m) l k = Some (table_of (F (l, k)) (length (t k)))" "chain (frags m) (F (l, k)) (t k)" "int (length (t k)) \<le> int_max"
      using holds_table [OF h l k(3)] by blast
    from fold_table_ok [OF this(1,3,2)] show "?body j (?g j) = Inr (?g (j + 1))"
      unfolding k(4) using k(1,2) by (simp add: upt_Suc_append)
  qed (use ab in simp)
  then show ?thesis by (simp add: FoldLUT_def)
qed

end
