(* ===== verification/LUT_Remove.thy ===== *)
theory LUT_Remove
  imports LUT_Whole
begin

text \<open>
  Emptying and removing a table, the test for emptiness, and folding as an enumeration of the pairs of a table.
\<close>

subsection \<open>Removing\<close>

lemma LUTremoveContentLut_ok:
  assumes h: "holds A m T" and l: "T l = Some t"
  shows "\<exists>m' t'. LUTremoveContentLut (Some l) m = Inr m' \<and> holds A m' (T(l \<mapsto> t')) \<and> (\<forall>k<49. t' k = [])
    \<and> frame A l (strings m) T (strings m') (T(l \<mapsto> t'))"
proof -
  have "\<exists>m' t'. cfor (int 0) (int 32) (clear_pointers l) m = Inr m' \<and> holds A m' (T(l \<mapsto> t'))
    \<and> (\<forall>k. 0 \<le> k \<longrightarrow> k < 32 \<longrightarrow> t' k = []) \<and> (\<forall>k. k < 0 \<or> 32 \<le> k \<longrightarrow> t' k = t k)
    \<and> frame A l (strings m) T (strings m') (T(l \<mapsto> t')) \<and> (False \<longrightarrow> strings m' = strings m)"
  proof (rule loop_tables [OF h l, where Q = "\<lambda>k xs ys. ys = []" and keep = False])
    fix k :: nat and m' T' t'
    assume "k < 32" "holds A m' T'" "T' l = Some t'"
    then show "\<exists>m'' xs. clear_pointers l (int k) m' = Inr m'' \<and> xs = [] \<and> holds A m'' (T'(l \<mapsto> t'(k := xs)))
        \<and> frame A l (strings m') T' (strings m'') (T'(l \<mapsto> t'(k := xs))) \<and> (False \<longrightarrow> strings m'' = strings m')"
      using clear_ok(1) [of A m' T' l t' k] by auto
  qed simp
  then obtain m1 t1 where r1: "cfor (int 0) (int 32) (clear_pointers l) m = Inr m1" "holds A m1 (T(l \<mapsto> t1))"
    "\<forall>k<32. t1 k = []" "frame A l (strings m) T (strings m1) (T(l \<mapsto> t1))" by auto
  have "\<exists>m' t'. cfor (int 32) (int 49) (clear_strings l) m1 = Inr m' \<and> holds A m' (T(l \<mapsto> t1, l \<mapsto> t'))
    \<and> (\<forall>k. 32 \<le> k \<longrightarrow> k < 49 \<longrightarrow> t' k = []) \<and> (\<forall>k. k < 32 \<or> 49 \<le> k \<longrightarrow> t' k = t1 k)
    \<and> frame A l (strings m1) (T(l \<mapsto> t1)) (strings m') (T(l \<mapsto> t1, l \<mapsto> t')) \<and> (False \<longrightarrow> strings m' = strings m1)"
  proof (rule loop_tables [OF r1(2), where Q = "\<lambda>k xs ys. ys = []" and keep = False])
    fix k :: nat and m' T' t'
    assume "32 \<le> k" "k < 49" "holds A m' T'" "T' l = Some t'"
    then show "\<exists>m'' xs. clear_strings l (int k) m' = Inr m'' \<and> xs = [] \<and> holds A m'' (T'(l \<mapsto> t'(k := xs)))
        \<and> frame A l (strings m') T' (strings m'') (T'(l \<mapsto> t'(k := xs))) \<and> (False \<longrightarrow> strings m'' = strings m')"
      using clear_ok(2) [of A m' T' l t' k] by auto
  qed simp_all
  then obtain m2 t2 where r2: "cfor (int 32) (int 49) (clear_strings l) m1 = Inr m2" "holds A m2 (T(l \<mapsto> t2))"
    "\<forall>k. 32 \<le> k \<longrightarrow> k < 49 \<longrightarrow> t2 k = []" "\<forall>k. k < 32 \<or> 49 \<le> k \<longrightarrow> t2 k = t1 k"
    "frame A l (strings m1) (T(l \<mapsto> t1)) (strings m2) (T(l \<mapsto> t2))" by auto
  have "\<forall>k<49. t2 k = []" using r1(3) r2(3,4) by (metis not_less)
  moreover have "LUTremoveContentLut (Some l) m = Inr m2"
    using r1(1) r2(1) by (simp add: LUTremoveContentLut_def HASH_KEYS_def HASH_KEYS_POINTER_def HASH_KEYS_STRING_def)
  ultimately show ?thesis using r2(2) frame_trans [OF r1(4) r2(5)] by blast
qed

text \<open>When the tables are empty, what is left of each is one fragment.\<close>

lemma chain_empty: "chain fr fs [] \<Longrightarrow> fs = [hd fs]"
  using chainD(1) [of fr fs "[]"] by (cases fs) auto

lemma free_tables:
  assumes inv: "lut_mem A (frags m) (strings m) (luts m) F T" and l: "T l = Some t" and e: "\<forall>k<49. t k = []"
  shows "\<exists>fr ls. cfor 0 HASH_KEYS (\<lambda>k m.
          bindR (get_lut l k m) (\<lambda>b.
          dbug_assert ''LUT not empty!'' (lut_size b = 0)
          (bindR (free_fragment (lut_first b) m) (put_lut l k (b\<lparr>lut_first := None\<rparr>))))) m
      = Inr (m\<lparr>frags := fr, luts := ls\<rparr>)
    \<and> (\<forall>g i. fcell fr g i = (if \<exists>k<49. g \<in> set (F (l, k)) then None else fcell (frags m) g i))
    \<and> (\<forall>g. is_frag fr g \<longleftrightarrow> is_frag (frags m) g \<and> (\<forall>k<49. g \<notin> set (F (l, k))))
    \<and> (\<forall>g. live fr g \<longleftrightarrow> live (frags m) g \<and> (\<forall>k<49. g \<notin> set (F (l, k))))
    \<and> is_table ls l \<and> (\<forall>l'. live ls l' = live (luts m) l')
    \<and> (\<forall>l'. l' \<noteq> l \<longrightarrow> is_table ls l' = is_table (luts m) l' \<and> (\<forall>i. fcell ls l' i = fcell (luts m) l' i))"
proof -
  let ?body = "\<lambda>k m. bindR (get_lut l k m) (\<lambda>b.
          dbug_assert ''LUT not empty!'' (lut_size b = 0)
          (bindR (free_fragment (lut_first b) m) (put_lut l k (b\<lparr>lut_first := None\<rparr>))))"
  have tab: "is_table (luts m) l" using lut_memD(2) [OF inv, of l] l by simp
  have pl: "(l, k) \<in> places T" if "k < 49" for k using that l by (simp add: places_def)
  have at: "content_at T (l, k) = []" if "k < 49" for k using that l e by (simp add: content_at_def)
  define f where "f k = hd (F (l, k))" for k
  have F: "F (l, k) = [f k]" "fcell (luts m) l k = Some (table_of [f k] 0)" "is_frag (frags m) (f k)" if "k < 49" for k
  proof -
    have b: "bucket A (frags m) (strings m) k (F (l, k)) []" "fcell (luts m) l k = Some (table_of (F (l, k)) 0)"
      using lut_memD(3,4) [OF inv pl [OF that]] at [OF that] by simp_all
    then show F: "F (l, k) = [f k]" using chain_empty [of "frags m" "F (l, k)"] unfolding bucket_def f_def by blast
    show "fcell (luts m) l k = Some (table_of [f k] 0)" using b F by simp
    show "is_frag (frags m) (f k)" using b F chainD(3) [of "frags m" "F (l, k)" "[]"] by (simp add: bucket_def)
  qed
  have inj: "f i \<noteq> f j" if "i < 49" "j < 49" "i \<noteq> j" for i j
    using lut_memD(5) [OF inv pl [OF that(1)] pl [OF that(2)]] that F(1) by simp
  let ?P = "\<lambda>j m'. \<exists>fr ls. m' = m\<lparr>frags := fr, luts := ls\<rparr>
    \<and> (\<forall>g i. fcell fr g i = (if g \<in> f ` {..<j} then None else fcell (frags m) g i))
    \<and> (\<forall>g. is_frag fr g \<longleftrightarrow> is_frag (frags m) g \<and> g \<notin> f ` {..<j}) \<and> (\<forall>g. live fr g \<longleftrightarrow> live (frags m) g \<and> g \<notin> f ` {..<j})
    \<and> is_table ls l \<and> (\<forall>l'. live ls l' = live (luts m) l') \<and> (\<forall>k. j \<le> k \<longrightarrow> k < 49 \<longrightarrow> fcell ls l k = Some (table_of [f k] 0))
    \<and> (\<forall>l'. l' \<noteq> l \<longrightarrow> is_table ls l' = is_table (luts m) l' \<and> (\<forall>i. fcell ls l' i = fcell (luts m) l' i))"
  have "\<exists>m'. cfor 0 (int 49) ?body m = Inr m' \<and> ?P (nat (int 49)) m'"
  proof (rule cfor_inv [where P = "\<lambda>i. ?P (nat i)"])
    show "?P (nat 0) m" by (intro exI [of _ "frags m"] exI [of _ "luts m"]) (auto simp: tab F)
    fix i :: int and m'
    assume i: "0 \<le> i" "i < int 49" and P: "?P (nat i) m'"
    obtain k where k: "i = int k" "k < 49" using i by (metis nonneg_int_cases of_nat_less_iff)
    obtain fr ls where m': "m' = m\<lparr>frags := fr, luts := ls\<rparr>"
      and fr: "\<And>g i. fcell fr g i = (if g \<in> f ` {..<k} then None else fcell (frags m) g i)"
        "\<And>g. is_frag fr g \<longleftrightarrow> is_frag (frags m) g \<and> g \<notin> f ` {..<k}" "\<And>g. live fr g \<longleftrightarrow> live (frags m) g \<and> g \<notin> f ` {..<k}"
      and ls: "is_table ls l" "\<And>l'. live ls l' = live (luts m) l'" "\<And>k'. k \<le> k' \<Longrightarrow> k' < 49 \<Longrightarrow> fcell ls l k' = Some (table_of [f k'] 0)"
        "\<And>l'. l' \<noteq> l \<Longrightarrow> is_table ls l' = is_table (luts m) l'" "\<And>l' i. l' \<noteq> l \<Longrightarrow> fcell ls l' i = fcell (luts m) l' i"
      using P k(1) by auto
    have "f k \<notin> f ` {..<k}" using inj k(2) by auto
    then have lv: "live fr (f k)" using fr(3) F(3) [OF k(2)] live_frag by simp
    let ?m = "m\<lparr>frags := fr[f k := None], luts := fput ls l k ((table_of [f k] 0)\<lparr>lut_first := None\<rparr>)\<rparr>"
    have "?body i m' = Inr ?m"
      using lv ls(1) ls(3) [OF order_refl k(2)] k
      by (simp add: m' get_lut_ok table_of_def pos_def free_fragment_ok put_lut_ok)
    moreover have "?P (Suc k) ?m"
      using fr ls k(2)
      by (intro exI [of _ "fr[f k := None]"] exI [of _ "fput ls l k ((table_of [f k] 0)\<lparr>lut_first := None\<rparr>)"])
         (auto simp: fmem lessThan_Suc)
    moreover have "nat (i + 1) = Suc k" using k(1) by simp
    ultimately show "\<exists>m''. ?body i m' = Inr m'' \<and> ?P (nat (i + 1)) m''" by (intro exI [of _ ?m]) simp
  qed simp
  then obtain fr ls where "cfor 0 49 ?body m = Inr (m\<lparr>frags := fr, luts := ls\<rparr>)"
    "\<forall>g i. fcell fr g i = (if g \<in> f ` {..<49} then None else fcell (frags m) g i)"
    "\<forall>g. is_frag fr g \<longleftrightarrow> is_frag (frags m) g \<and> g \<notin> f ` {..<49}" "\<forall>g. live fr g \<longleftrightarrow> live (frags m) g \<and> g \<notin> f ` {..<49}"
    "is_table ls l" "\<forall>l'. live ls l' = live (luts m) l'"
    "\<forall>l'. l' \<noteq> l \<longrightarrow> is_table ls l' = is_table (luts m) l' \<and> (\<forall>i. fcell ls l' i = fcell (luts m) l' i)"
    by auto
  moreover have "g \<in> f ` {..<49} \<longleftrightarrow> (\<exists>k<49. g \<in> set (F (l, k)))" for g using F(1) by auto
  ultimately show ?thesis
    by (intro exI [of _ fr] exI [of _ ls]) (simp add: HASH_KEYS_def HASH_KEYS_POINTER_def HASH_KEYS_STRING_def; blast)
qed

lemma LUTremoveLut_ok:
  assumes h: "holds A m T" and l: "T l = Some t"
  shows "\<exists>m'. LUTremoveLut (Some l) m = Inr (None, m') \<and> holds A m' (T(l := None))
    \<and> frame A l (strings m) T (strings m') (T(l := None))"
proof -
  obtain m1 t1 where r1: "LUTremoveContentLut (Some l) m = Inr m1" "holds A m1 (T(l \<mapsto> t1))" "\<forall>k<49. t1 k = []"
    "frame A l (strings m) T (strings m1) (T(l \<mapsto> t1))"
    using LUTremoveContentLut_ok [OF h l] by blast
  let ?T1 = "T(l \<mapsto> t1)" and ?T = "T(l := None)"
  obtain F where F: "lut_mem A (frags m1) (strings m1) (luts m1) F ?T1" using r1(2) by (auto simp: holds_def)
  have lk: "(l, k) \<in> places ?T1" if "k < 49" for k using that by (simp add: places_def)
  obtain fr ls where r2: "cfor 0 HASH_KEYS (\<lambda>k m.
          bindR (get_lut l k m) (\<lambda>b.
          dbug_assert ''LUT not empty!'' (lut_size b = 0)
          (bindR (free_fragment (lut_first b) m) (put_lut l k (b\<lparr>lut_first := None\<rparr>))))) m1
      = Inr (m1\<lparr>frags := fr, luts := ls\<rparr>)"
    and fr0: "\<forall>g i. fcell fr g i = (if \<exists>k<49. g \<in> set (F (l, k)) then None else fcell (frags m1) g i)"
      "\<forall>g. is_frag fr g \<longleftrightarrow> is_frag (frags m1) g \<and> (\<forall>k<49. g \<notin> set (F (l, k)))"
      "\<forall>g. live fr g \<longleftrightarrow> live (frags m1) g \<and> (\<forall>k<49. g \<notin> set (F (l, k)))"
    and ls0: "is_table ls l" "\<forall>l'. live ls l' = live (luts m1) l'"
      "\<forall>l'. l' \<noteq> l \<longrightarrow> is_table ls l' = is_table (luts m1) l' \<and> (\<forall>i. fcell ls l' i = fcell (luts m1) l' i)"
    using free_tables [OF F fun_upd_same r1(3)] by blast
  have fr: "fcell fr g i = fcell (frags m1) g i" if "\<forall>k<49. g \<notin> set (F (l, k))" for g i using that fr0(1) by auto
  note fr = this fr0(2,3) [rule_format]
  have ls: "is_table ls l' = is_table (luts m1) l'" "fcell ls l' i = fcell (luts m1) l' i" if "l' \<noteq> l" for l' i
    using that ls0(3) by simp_all
  note ls = ls0(1) ls0(2) [rule_format] this
  have pl: "x \<in> places ?T \<longleftrightarrow> x \<in> places ?T1 \<and> fst x \<noteq> l" for x by (auto simp: places_def)
  have at: "content_at ?T x = content_at ?T1 x" if "fst x \<noteq> l" for x using that by (simp add: content_at_def)
  have apart: "g \<notin> set (F (l, k))" if "x \<in> places ?T" "g \<in> set (F x)" "k < 49" for x g k
  proof -
    have "x \<in> places ?T1" "x \<noteq> (l, k)" using that(1) pl [of x] by auto
    then show ?thesis using lut_memD(5) [OF F _ lk [OF that(3)]] that(2) by blast
  qed
  let ?ls = "ls[l := None]"
  have table_other: "is_table ?ls l' = is_table ls l' \<and> fcell ?ls l' i = fcell ls l' i" if "l' \<noteq> l" for l' i
    using that by (auto simp: is_table_def fcell_def)
  have inv: "lut_mem A fr (strings m1) ?ls F ?T"
    unfolding lut_mem_def
  proof (intro conjI allI ballI impI)
    show "live ?ls l' \<longleftrightarrow> ?T l' \<noteq> None" for l' using lut_memD(1) [OF F, of l'] ls(2) [of l'] by (auto simp: fmem)
    show "is_table ?ls l'" if "?T l' \<noteq> None" for l'
    proof -
      have "l' \<noteq> l" using that by auto
      then show ?thesis using that lut_memD(2) [OF F, of l'] ls(3) table_other by auto
    qed
    fix x assume x: "x \<in> places ?T"
    then have x1: "x \<in> places ?T1" "fst x \<noteq> l" using pl [of x] by simp_all
    show "fcell ?ls (fst x) (snd x) = Some (table_of (F x) (length (content_at ?T x)))"
      using lut_memD(3) [OF F x1(1)] table_other [OF x1(2)] ls(4) [OF x1(2)] at [OF x1(2)] by simp
    have b: "bucket A (frags m1) (strings m1) (snd x) (F x) (content_at ?T x)" using lut_memD(4) [OF F x1(1)] at [OF x1(2)] by simp
    then have c: "chain (frags m1) (F x) (content_at ?T x)" by (simp add: bucket_def)
    have "chain fr (F x) (content_at ?T x)"
    proof (rule chain_frame [OF c])
      fix g assume "g \<in> set (F x)"
      then have g: "\<forall>k<49. g \<notin> set (F (l, k))" "is_frag (frags m1) g" using apart [OF x] chainD(3) [OF c] by blast+
      show "is_frag fr g" using fr(2) [of g] g by blast
      show "fcell fr g i = fcell (frags m1) g i" for i using fr(1) [OF g(1)] .
    qed
    then show "bucket A fr (strings m1) (snd x) (F x) (content_at ?T x)" using b by (simp add: bucket_def)
    fix y assume "y \<in> places ?T" and xy: "x \<noteq> y"
    then have y1: "y \<in> places ?T1" "fst y \<noteq> l" using pl [of y] by simp_all
    show "set (F x) \<inter> set (F y) = {}" using lut_memD(5) [OF F x1(1) y1(1) xy] .
    show "own_keys (snd x) (content_at ?T x) \<inter> own_keys (snd y) (content_at ?T y) = {}"
      using lut_memD(6) [OF F x1(1) y1(1) xy] at [OF x1(2)] at [OF y1(2)] by simp
  next
    fix g assume g: "live fr g"
    then obtain x where x: "x \<in> places ?T1" "g \<in> set (F x)" using fr(3) [of g] lut_memD(7) [OF F] by blast
    have "fst x \<noteq> l"
    proof
      assume "fst x = l"
      moreover have "snd x < 49" using x(1) by (auto simp: places_def)
      ultimately show False using g fr(3) [of g] x(2) by (metis prod.collapse)
    qed
    then show "\<exists>x\<in>places ?T. g \<in> set (F x)" using x pl [of x] by blast
  qed
  have "owned ?T = owned ?T1"
  proof (intro equalityI subsetI)
    fix p assume "p \<in> owned ?T"
    then obtain x where "x \<in> places ?T" "p \<in> own_keys (snd x) (content_at ?T x)" by (auto simp: owned_def)
    then show "p \<in> owned ?T1" using pl [of x] at [of x] by (auto simp: owned_def)
  next
    fix p assume "p \<in> owned ?T1"
    then obtain x where x: "x \<in> places ?T1" "p \<in> own_keys (snd x) (content_at ?T1 x)" by (auto simp: owned_def)
    have "fst x \<noteq> l"
    proof
      assume "fst x = l"
      moreover have "snd x < 49" using x(1) by (auto simp: places_def)
      ultimately have "content_at ?T1 x = []" using r1(3) by (simp add: content_at_def)
      with x(2) show False by (simp add: own_keys_def split: if_splits)
    qed
    then have "x \<in> places ?T" "p \<in> own_keys (snd x) (content_at ?T x)" using x pl [of x] at [of x] by simp_all
    then show "p \<in> owned ?T" unfolding owned_def by blast
  qed
  then have "frame A l (strings m1) ?T1 (strings m1) ?T" by (auto simp: frame_def caller_strings_def maps_of_def)
  then have "frame A l (strings m) T (strings m1) ?T" by (rule frame_trans [OF r1(4)])
  moreover have "LUTremoveLut (Some l) m = Inr (None, m1\<lparr>frags := fr, luts := ?ls\<rparr>)"
    using r1(1) r2 ls(1) by (auto simp: LUTremoveLut_def deref_def is_table_def)
  moreover have "holds A (m1\<lparr>frags := fr, luts := ?ls\<rparr>) ?T" using inv by (auto simp: holds_def)
  ultimately show ?thesis by auto
qed

subsection \<open>Emptiness\<close>

lemma empty_from_ok:
  assumes h: "holds A m T" and l: "T l = Some t"
  shows "empty_from l (int k) m = Inr (\<forall>j. k \<le> j \<longrightarrow> j < 49 \<longrightarrow> t j = [])"
proof (induction "49 - k" arbitrary: k)
  case 0
  then show ?case by (subst empty_from.simps) (simp add: HASH_KEYS_def HASH_KEYS_POINTER_def HASH_KEYS_STRING_def)
next
  case (Suc n)
  then have k: "k < 49" by simp
  obtain F where "fcell (luts m) l k = Some (table_of (F (l, k)) (length (t k)))"
    using holds_table [OF h l k] by blast
  moreover have "empty_from l (int k + 1) m = Inr (\<forall>j. Suc k \<le> j \<longrightarrow> j < 49 \<longrightarrow> t j = [])"
    using Suc.hyps(1) [of "Suc k"] Suc.hyps(2) by (simp add: add.commute)
  moreover have "(\<forall>j. k \<le> j \<longrightarrow> j < 49 \<longrightarrow> t j = []) \<longleftrightarrow> t k = [] \<and> (\<forall>j. Suc k \<le> j \<longrightarrow> j < 49 \<longrightarrow> t j = [])"
    using k by (metis Suc_le_eq le_eq_less_or_eq)
  ultimately show ?case
    using k by (subst empty_from.simps)
      (simp add: get_lut_ok table_of_def HASH_KEYS_def HASH_KEYS_POINTER_def HASH_KEYS_STRING_def)
qed

text \<open>The key of a pair, and the collision table it is in.\<close>

definition key_of :: "nat \<Rightarrow> string option list \<Rightarrow> ptr \<times> ptr \<Rightarrow> key" where
  "key_of k ss x = (if k < 32 then KeyP (fst x) else KeyS (string_key ss (fst x)))"

lemma key_of_slot: "keys_ok A ss k xs \<Longrightarrow> x \<in> set xs \<Longrightarrow> slot A (key_of k ss x) = k \<and> is_entry ss (key_of k ss x) x"
  by (auto simp: keys_ok_def key_of_def slot_def is_entry_def split: if_splits)

lemma empty_iff:
  assumes h: "holds A m T" and l: "T l = Some t"
  shows "(\<forall>k<49. t k = []) \<longleftrightarrow> table_map A (strings m) t = (\<lambda>_. [])"
proof
  assume "\<forall>k<49. t k = []"
  then show "table_map A (strings m) t = (\<lambda>_. [])" by (simp add: fun_eq_iff table_map_def vals_in_def slot_less)
next
  assume e: "table_map A (strings m) t = (\<lambda>_. [])"
  show "\<forall>k<49. t k = []"
  proof (intro allI impI, rule ccontr)
    fix k assume k: "k < (49 :: nat)" and "t k \<noteq> []"
    then obtain x where x: "x \<in> set (t k)" by (meson last_in_set)
    have "keys_ok A (strings m) k (t k)" using holds_table [OF h l k] by blast
    note s = key_of_slot [OF this x]
    then have "table_map A (strings m) t (key_of k (strings m) x) \<noteq> []"
      using x by (auto simp: table_map_def vals_in_def filter_empty_conv)
    with e show False by simp
  qed
qed

lemma LUTisEmptyLut_ok:
  assumes "holds A m T" and "T l = Some t"
  shows "LUTisEmptyLut (Some l) m = Inr (table_map A (strings m) t = (\<lambda>_. []))"
  using empty_from_ok [OF assms, of 0] empty_iff [OF assms] by (simp add: LUTisEmptyLut_def)

subsection \<open>Folding\<close>

lemma vals_in_concat:
  assumes h: "holds A m T" and l: "T l = Some t" and b: "b \<le> 49" and ab: "slot A key < b" "a \<le> slot A key"
    and kind: "\<And>k. a \<le> k \<Longrightarrow> k < b \<Longrightarrow> (k < 32 \<longleftrightarrow> slot A key < 32)"
  shows "vals_in (strings m) key (concat (map t [a..<b])) = table_map A (strings m) t key"
proof -
  have other: "vals_in (strings m) key (t k) = []" if k: "a \<le> k" "k < b" "k \<noteq> slot A key" for k
  proof -
    have ok: "keys_ok A (strings m) k (t k)" using holds_table [OF h l] k(2) b by (metis order_less_le_trans)
    have "\<not> is_entry (strings m) key x" if x: "x \<in> set (t k)" for x
    proof
      assume "is_entry (strings m) key x"
      then have "key_of k (strings m) x = key"
        using kind [OF k(1,2)] slot_KeyP slot_KeyS by (cases key) (auto simp: is_entry_def key_of_def not_less)
      with key_of_slot [OF ok x] k(3) show False by simp
    qed
    then show ?thesis by (simp add: vals_in_def filter_empty_conv)
  qed
  let ?k = "slot A key"
  have "[a..<b] = [a..<?k] @ ?k # [Suc ?k..<b]"
    using ab upt_add_eq_append [of a ?k "b - ?k"] by (simp add: upt_conv_Cons)
  moreover have "vals_in (strings m) key (concat (map t ks)) = []" if "\<forall>k\<in>set ks. a \<le> k \<and> k < b \<and> k \<noteq> ?k" for ks
    using that by (induction ks) (auto simp: vals_in_append other, simp add: vals_in_def)
  ultimately show ?thesis using ab by (simp add: vals_in_append table_map_def)
qed

lemma fold_P:
  assumes h: "holds A m T" and l: "T l = Some t"
  shows "\<exists>xs. LUTfoldLutP (Some l) s f m = Inr (foldl (\<lambda>s (key, v). f s v key) s xs)
    \<and> (\<forall>p. map snd (filter (\<lambda>x. fst x = p) xs) = table_map A (strings m) t (KeyP p))"
proof -
  have "vals_in (strings m) (KeyP p) (concat (map t [0..<32])) = table_map A (strings m) t (KeyP p)" for p
    using slot_KeyP [of A p] by (intro vals_in_concat [OF h l]) auto
  then have "map snd (filter (\<lambda>x. fst x = p) (concat (map t [0..<32]))) = table_map A (strings m) t (KeyP p)" for p
    by (simp add: vals_in_def is_entry_def [abs_def])
  moreover have "LUTfoldLutP (Some l) s f m = Inr (foldl (\<lambda>s (key, v). f s v key) s (concat (map t [0..<32])))"
    using FoldLUT_ok [OF h l, of 0 32 s f] by (simp add: LUTfoldLutP_def HASH_KEYS_POINTER_def)
  ultimately show ?thesis by blast
qed

lemma fold_S:
  assumes h: "holds A m T" and l: "T l = Some t"
  shows "\<exists>xs. LUTfoldLutS (Some l) s f m = Inr (foldl (\<lambda>s (key, v). f s v key) s xs)
    \<and> (\<forall>u. map snd (filter (\<lambda>x. string_key (strings m) (fst x) = u) xs) = table_map A (strings m) t (KeyS u))"
proof -
  have "vals_in (strings m) (KeyS u) (concat (map t [32..<49])) = table_map A (strings m) t (KeyS u)" for u
    using slot_KeyS [of A u] slot_less [of A "KeyS u"] by (intro vals_in_concat [OF h l]) auto
  then have "map snd (filter (\<lambda>x. string_key (strings m) (fst x) = u) (concat (map t [32..<49]))) = table_map A (strings m) t (KeyS u)" for u
    by (simp add: vals_in_def is_entry_def [abs_def])
  moreover have "LUTfoldLutS (Some l) s f m = Inr (foldl (\<lambda>s (key, v). f s v key) s (concat (map t [32..<49])))"
    using FoldLUT_ok [OF h l, of 32 49 s f]
    by (simp add: LUTfoldLutS_def HASH_KEYS_def HASH_KEYS_STRING_def HASH_KEYS_POINTER_def)
  ultimately show ?thesis by blast
qed

end
