(* ===== verification/LUT_Copy.thy ===== *)
theory LUT_Copy
  imports LUT_Remove
begin

text \<open>
  Duplicating a table: the copy has the same values for the same keys, fragments and strings of its own.
\<close>

text \<open>
  While the table \<open>l'\<close>, with the contents \<open>t'\<close> so far, is filled, the other tables stay where they are; \<open>m\<close>, \<open>F\<close> and
  \<open>T\<close> are the memory, the fragments and the tables before.
\<close>

definition copying ::
  "(ptr \<Rightarrow> 64 word) \<Rightarrow> lutmem \<Rightarrow> (nat \<times> nat \<Rightarrow> nat list) \<Rightarrow> (nat \<Rightarrow> contents option) \<Rightarrow> nat \<Rightarrow> lutmem \<Rightarrow> contents \<Rightarrow> bool" where
  "copying A m F T l' m' t' \<longleftrightarrow>
     (\<exists>F'. lut_mem A (frags m') (strings m') (luts m') F' (T(l' \<mapsto> t')) \<and> (\<forall>x. fst x \<noteq> l' \<longrightarrow> F' x = F x))
     \<and> (\<exists>zs. strings m' = strings m @ zs) \<and> frame A l' (strings m) T (strings m') (T(l' \<mapsto> t'))"

lemma copying_insert:
  assumes c: "copying A m F T l' m1 t'" and k: "k < 49" and room: "int (length (t' k)) < int_max"
    and keys: "keys_ok A (strings m2) k (t' k @ [(q, v)])"
    and s: "string_step (strings m1) (own_keys k (t' k)) (strings m2) (own_keys k (t' k @ [(q, v)]))"
    and m2: "frags m2 = frags m1" "luts m2 = luts m1" "strings m2 = strings m1 @ zs"
  shows "\<exists>m3. InsertIntoLUT_noDBUG (Some l') q v (int k) m2 = Inr m3 \<and> strings m3 = strings m2
    \<and> copying A m F T l' m3 (t'(k := t' k @ [(q, v)]))
    \<and> (\<forall>key. table_map A (strings m2) (t'(k := t' k @ [(q, v)])) key
        = (if slot A key = k then vals_in (strings m2) key (t' k @ [(q, v)]) else table_map A (strings m1) t' key))"
proof -
  let ?T = "T(l' \<mapsto> t')" and ?t = "t'(k := t' k @ [(q, v)])"
  obtain F' ys where F': "lut_mem A (frags m1) (strings m1) (luts m1) F' ?T" "\<forall>x. fst x \<noteq> l' \<longrightarrow> F' x = F x"
    and ys: "strings m1 = strings m @ ys" and fr: "frame A l' (strings m) T (strings m1) ?T"
    using c by (auto simp: copying_def)
  obtain fr ls fs where r: "InsertIntoLUT_noDBUG (Some l') q v (int k) m2 = Inr (m2\<lparr>frags := fr, luts := ls\<rparr>)"
    "lut_mem A fr (strings m2) ls (F'((l', k) := fs)) (?T(l' \<mapsto> ?t))"
    using insert_step [of A m2 "strings m1" F' ?T l' t' k q v] F'(1) k room keys s m2(1,2) by auto
  have Tl: "?T l' = Some t'" by simp
  have u: "frame A l' (strings m1) ?T (strings m2) (?T(l' \<mapsto> ?t))"
    "table_map A (strings m2) ?t key = (if slot A key = k then vals_in (strings m2) key (t' k @ [(q, v)]) else table_map A (strings m1) t' key)" for key
    using update_frame [of A "frags m1" "strings m1" "luts m1" F' ?T l' t' k "strings m2" "t' k @ [(q, v)]"] F'(1) Tl k s
    by simp_all
  have "copying A m F T l' (m2\<lparr>frags := fr, luts := ls\<rparr>) ?t"
    using r(2) F'(2) ys m2(3) frame_trans [OF fr u(1)] unfolding copying_def
    by (auto intro!: exI [of _ "F'((l', k) := fs)"])
  then show ?thesis using r(1) u(2) by auto
qed

text \<open>How far the copy has come: collision tables before \<open>k\<close> are done, and the first \<open>i\<close> pairs of the \<open>k\<close>-th.\<close>

definition copied ::
  "(ptr \<Rightarrow> 64 word) \<Rightarrow> lutmem \<Rightarrow> (nat \<times> nat \<Rightarrow> nat list) \<Rightarrow> (nat \<Rightarrow> contents option) \<Rightarrow> nat \<Rightarrow> contents \<Rightarrow> nat \<Rightarrow> nat \<Rightarrow> lutmem \<Rightarrow> bool" where
  "copied A m F T l' t k i m' \<longleftrightarrow> (\<exists>t'. copying A m F T l' m' t' \<and> length (t' k) = i \<and> (\<forall>j>k. t' j = [])
     \<and> (\<forall>key. table_map A (strings m') t' key =
          (if slot A key < k then table_map A (strings m) t key
           else if slot A key = k then vals_in (strings m) key (take i (t k)) else [])))"

lemma copied_next: "copied A m F T l' t k (length (t k)) m' \<Longrightarrow> copied A m F T l' t (Suc k) 0 m'"
proof -
  assume "copied A m F T l' t k (length (t k)) m'"
  then obtain t' where t': "copying A m F T l' m' t'" "\<forall>j>k. t' j = []"
    "\<forall>key. table_map A (strings m') t' key = (if slot A key < k then table_map A (strings m) t key
       else if slot A key = k then vals_in (strings m) key (take (length (t k)) (t k)) else [])"
    by (auto simp: copied_def)
  have "table_map A (strings m') t' key = (if slot A key < Suc k then table_map A (strings m) t key
       else if slot A key = Suc k then vals_in (strings m) key (take 0 (t (Suc k))) else [])" for key
    using t'(3) [rule_format, of key] by (auto simp: less_Suc_eq table_map_def [of A "strings m"] vals_in_def)
  then show ?thesis using t'(1,2) by (auto simp: copied_def intro!: exI [of _ t'])
qed

lemma copying_keys:
  assumes "copying A m F T l' m' t'" and "k < 49"
  shows "keys_ok A (strings m') k (t' k)"
proof -
  obtain F' where "lut_mem A (frags m') (strings m') (luts m') F' (T(l' \<mapsto> t'))" using assms(1) by (auto simp: copying_def)
  then have "holds A m' (T(l' \<mapsto> t'))" by (auto simp: holds_def)
  from holds_table [OF this _ assms(2)] show ?thesis by (metis fun_upd_same)
qed

lemma copied_step_aux:
  assumes t': "copying A m F T l' m1 t'" "length (t' k) = i" "\<forall>j>k. t' j = []"
    "\<forall>key. table_map A (strings m1) t' key = (if slot A key < k then table_map A (strings m) t key
       else if slot A key = k then vals_in (strings m) key (take i (t k)) else [])"
    and m3: "copying A m F T l' m3 (t'(k := t' k @ [(q, v)]))"
      "\<forall>key. table_map A (strings m3) (t'(k := t' k @ [(q, v)])) key
        = (if slot A key = k then vals_in (strings m3) key (t' k @ [(q, v)]) else table_map A (strings m1) t' key)"
    and same: "\<And>key. slot A key = k \<Longrightarrow> vals_in (strings m3) key (t' k) = vals_in (strings m1) key (t' k)"
    and new: "\<And>key. slot A key = k \<Longrightarrow> vals_in (strings m3) key [(q, v)] = vals_in (strings m) key [t k ! i]"
    and i: "i < length (t k)"
  shows "copied A m F T l' t k (Suc i) m3"
proof -
  have "table_map A (strings m3) (t'(k := t' k @ [(q, v)])) key = (if slot A key < k then table_map A (strings m) t key
       else if slot A key = k then vals_in (strings m) key (take (Suc i) (t k)) else [])" for key
  proof (cases "slot A key = k")
    case True
    then have "vals_in (strings m1) key (t' k) = vals_in (strings m) key (take i (t k))"
      using t'(4) [rule_format, of key] by (simp add: table_map_def)
    then show ?thesis
      using True m3(2) same new i by (simp add: vals_in_append take_Suc_conv_app_nth)
  qed (use m3(2) t'(4) in simp)
  then show ?thesis using m3(1) t'(2,3) by (auto simp: copied_def intro!: exI [of _ "t'(k := t' k @ [(q, v)])"])
qed

lemma copied_step:
  assumes c: "copied A m F T l' t k i m1" and i: "i < length (t k)" and n: "int (length (t k)) \<le> int_max"
    and k: "k < 49" and ok: "keys_ok A (strings m) k (t k)"
  shows "k < 32 \<Longrightarrow> \<exists>m3. InsertIntoLUT_noDBUG (Some l') (fst (t k ! i)) (snd (t k ! i)) (int k) m1 = Inr m3
      \<and> copied A m F T l' t k (Suc i) m3"
    and "\<not> k < 32 \<Longrightarrow> \<exists>m3. bindR (STRcpy (fst (t k ! i)) m1) (\<lambda>(key, m). InsertIntoLUT_noDBUG (Some l') key (snd (t k ! i)) (int k) m) = Inr m3
      \<and> copied A m F T l' t k (Suc i) m3"
proof -
  obtain t' where t': "copying A m F T l' m1 t'" "length (t' k) = i" "\<forall>j>k. t' j = []"
    "\<forall>key. table_map A (strings m1) t' key = (if slot A key < k then table_map A (strings m) t key
       else if slot A key = k then vals_in (strings m) key (take i (t k)) else [])"
    using c by (auto simp: copied_def)
  obtain ys where ys: "strings m1 = strings m @ ys" using t'(1) by (auto simp: copying_def)
  note ok' = copying_keys [OF t'(1) k]
  have room: "int (length (t' k)) < int_max" using t'(2) i n by simp
  let ?x = "t k ! i"
  have x: "?x \<in> set (t k)" using i by simp
  show "\<exists>m3. InsertIntoLUT_noDBUG (Some l') (fst ?x) (snd ?x) (int k) m1 = Inr m3 \<and> copied A m F T l' t k (Suc i) m3" if k32: "k < 32"
  proof -
    have keys: "keys_ok A (strings m1) k (t' k @ [(fst ?x, snd ?x)])" using ok ok' x k32 by (auto simp: keys_ok_def)
    have s: "string_step (strings m1) (own_keys k (t' k)) (strings m1) (own_keys k (t' k @ [(fst ?x, snd ?x)]))" using k32 by simp
    obtain m3 where m3: "InsertIntoLUT_noDBUG (Some l') (fst ?x) (snd ?x) (int k) m1 = Inr m3" "strings m3 = strings m1"
      "copying A m F T l' m3 (t'(k := t' k @ [(fst ?x, snd ?x)]))"
      "\<forall>key. table_map A (strings m1) (t'(k := t' k @ [(fst ?x, snd ?x)])) key
        = (if slot A key = k then vals_in (strings m1) key (t' k @ [(fst ?x, snd ?x)]) else table_map A (strings m1) t' key)"
      using copying_insert [OF t'(1) k room keys s refl refl, of "[]"] by auto
    have S: "slot A (KeyS u) \<noteq> k" for u using slot_KeyS [of A u] k32 by auto
    have "vals_in (strings m1) key [(fst ?x, snd ?x)] = vals_in (strings m) key [?x]" if "slot A key = k" for key
      using that S by (cases key) (auto simp: vals_in_def is_entry_def)
    then show ?thesis using m3 copied_step_aux [OF t' m3(3)] i by auto
  qed
  show "\<exists>m3. bindR (STRcpy (fst ?x) m1) (\<lambda>(key, m). InsertIntoLUT_noDBUG (Some l') key (snd ?x) (int k) m) = Inr m3
      \<and> copied A m F T l' t k (Suc i) m3" if k32: "\<not> k < 32"
  proof -
    have p: "is_string (strings m) (fst ?x)" and h: "hashS (string_key (strings m) (fst ?x)) = k"
      using ok x k32 by (simp_all add: keys_ok_def)
    have p1: "is_string (strings m1) (fst ?x)" "string_key (strings m1) (fst ?x) = string_key (strings m) (fst ?x)"
      using p ys by (auto simp: is_string_def string_key_def live_def nth_append)
    let ?s = "string_key (strings m) (fst ?x)" and ?q = "PStr (length (strings m1))"
    let ?m2 = "m1\<lparr>strings := strings m1 @ [Some ?s]\<rparr>"
    note new = new_key_ok [OF ok' h [symmetric], of "snd ?x"]
    obtain m3 where m3: "InsertIntoLUT_noDBUG (Some l') ?q (snd ?x) (int k) ?m2 = Inr m3" "strings m3 = strings ?m2"
      "copying A m F T l' m3 (t'(k := t' k @ [(?q, snd ?x)]))"
      "\<forall>key. table_map A (strings ?m2) (t'(k := t' k @ [(?q, snd ?x)])) key
        = (if slot A key = k then vals_in (strings ?m2) key (t' k @ [(?q, snd ?x)]) else table_map A (strings m1) t' key)"
      using copying_insert [OF t'(1) k room, of ?m2 ?q "snd ?x" "[Some ?s]"] new by auto
    have P: "slot A (KeyP u) \<noteq> k" for u using slot_KeyP [of A u] k32 by auto
    have "vals_in (strings ?m2) key [(?q, snd ?x)] = vals_in (strings m) key [?x]" if "slot A key = k" for key
      using that P by (cases key) (auto simp: vals_in_def is_entry_def string_key_def)
    moreover have "vals_in (strings ?m2) key (t' k) = vals_in (strings m1) key (t' k)" for key
      using ok' k32 string_key_append [of "strings m1"] by (intro vals_in_frame) (auto simp: keys_ok_def)
    ultimately have "copied A m F T l' t k (Suc i) m3" using m3 copied_step_aux [OF t' m3(3)] i by auto
    then show ?thesis using m3(1) STRcpy_ok [OF p1(1)] p1(2) by simp
  qed
qed

lemma copied_table:
  assumes inv: "lut_mem A (frags m) (strings m) (luts m) F T" and l: "T l = Some t" "l \<noteq> l'" and k: "k < 49"
    and c: "copied A m F T l' t k 0 m1"
  shows "k < 32 \<Longrightarrow> \<exists>m2. fold_table l (int k) (\<lambda>key v. InsertIntoLUT_noDBUG (Some l') key v (int k)) (\<lambda>m. m) m1 = Inr m2
      \<and> copied A m F T l' t (Suc k) 0 m2"
    and "\<not> k < 32 \<Longrightarrow> \<exists>m2. fold_table l (int k) (\<lambda>key v m. bindR (STRcpy key m) (\<lambda>(key, m).
        InsertIntoLUT_noDBUG (Some l') key v (int k) m)) (\<lambda>m. m) m1 = Inr m2 \<and> copied A m F T l' t (Suc k) 0 m2"
proof -
  have lk: "(l, k) \<in> places T" "content_at T (l, k) = t k" using l k by (simp_all add: places_def content_at_def)
  have ok: "keys_ok A (strings m) k (t k)" and n: "int (length (t k)) \<le> int_max"
    using lut_memD(4) [OF inv lk(1)] lk(2) by (simp_all add: bucket_def)
  have src: "fcell (luts m') l k = Some (table_of (F (l, k)) (length (t k))) \<and> chain (frags m') (F (l, k)) (t k)"
    if ci: "copied A m F T l' t k i m'" for i m'
  proof -
    obtain F' t' where F': "lut_mem A (frags m') (strings m') (luts m') F' (T(l' \<mapsto> t'))" "\<forall>x. fst x \<noteq> l' \<longrightarrow> F' x = F x"
      using ci unfolding copied_def copying_def by blast
    have "(l, k) \<in> places (T(l' \<mapsto> t'))" "content_at (T(l' \<mapsto> t')) (l, k) = t k" "F' (l, k) = F (l, k)"
      using l k F'(2) by (simp_all add: places_def content_at_def)
    then show ?thesis using lut_memD(3,4) [OF F'(1), of "(l, k)"] by (simp add: bucket_def)
  qed
  have b: "get_lut l (int k) m1 = Inr (table_of (F (l, k)) (length (t k)))" using src [OF c] by (simp add: get_lut_ok)
  show "\<exists>m2. fold_table l (int k) (\<lambda>key v. InsertIntoLUT_noDBUG (Some l') key v (int k)) (\<lambda>m. m) m1 = Inr m2
      \<and> copied A m F T l' t (Suc k) 0 m2" if k32: "k < 32"
  proof -
    have "\<exists>m2. fold_table l (int k) (\<lambda>key v. InsertIntoLUT_noDBUG (Some l') key v (int k)) (\<lambda>m. m) m1 = Inr m2
        \<and> copied A m F T l' t k (length (t k)) m2"
      by (rule fold_table_inv [where P = "copied A m F T l' t k" and fs = "F (l, k)"])
         (use b n c src copied_step(1) [where t = t and k = k, OF _ _ n k ok k32] in auto)
    then show ?thesis using copied_next by blast
  qed
  show "\<exists>m2. fold_table l (int k) (\<lambda>key v m. bindR (STRcpy key m) (\<lambda>(key, m).
        InsertIntoLUT_noDBUG (Some l') key v (int k) m)) (\<lambda>m. m) m1 = Inr m2 \<and> copied A m F T l' t (Suc k) 0 m2" if k32: "\<not> k < 32"
  proof -
    have "\<exists>m2. fold_table l (int k) (\<lambda>key v m. bindR (STRcpy key m) (\<lambda>(key, m).
        InsertIntoLUT_noDBUG (Some l') key v (int k) m)) (\<lambda>m. m) m1 = Inr m2 \<and> copied A m F T l' t k (length (t k)) m2"
      by (rule fold_table_inv [where P = "copied A m F T l' t k" and fs = "F (l, k)"])
         (use b n c src copied_step(2) [where t = t and k = k, OF _ _ n k ok k32] in auto)
    then show ?thesis using copied_next by blast
  qed
qed

lemma LUTduplicateLut_ok:
  assumes h: "holds A m T" and l: "T l = Some t"
  shows "\<exists>l' m'. LUTduplicateLut (Some l) m = Inr (Some l', m') \<and> T l' = None
    \<and> models A m' ((maps_of A (strings m) T)(l' \<mapsto> table_map A (strings m) t)) (caller_strings (strings m) T)"
proof -
  obtain F where inv: "lut_mem A (frags m) (strings m) (luts m) F T" using h by (auto simp: holds_def)
  let ?l = "length (luts m)"
  obtain m0 F0 where g: "LUTgenerateLut m = Inr (Some ?l, m0)" "strings m0 = strings m" "T ?l = None"
    "\<forall>x. fst x \<noteq> ?l \<longrightarrow> F0 x = F x" "lut_mem A (frags m0) (strings m0) (luts m0) F0 (T(?l \<mapsto> (\<lambda>_. [])))"
    using generate_ok [OF inv] by blast
  have ne: "l \<noteq> ?l" using l g(3) by auto
  have "copying A m F T ?l m0 (\<lambda>_. [])"
    using g frame_new [OF inv, of ?l] unfolding copying_def by (auto intro!: exI [of _ F0])
  then have c0: "copied A m F T ?l t 0 0 m0"
    by (auto simp: copied_def table_map_def vals_in_def intro!: exI [of _ "\<lambda>_. []"])
  have "\<exists>m1. cfor 0 (int 32) (\<lambda>k. fold_table l k (\<lambda>key v. InsertIntoLUT_noDBUG (Some ?l) key v k) (\<lambda>m. m)) m0 = Inr m1
      \<and> copied A m F T ?l t (nat (int 32)) 0 m1"
  proof (rule cfor_inv [where P = "\<lambda>i. copied A m F T ?l t (nat i) 0"])
    fix i :: int and m'
    assume i: "0 \<le> i" "i < int 32" and c: "copied A m F T ?l t (nat i) 0 m'"
    obtain k where k: "i = int k" "k < 32" using i by (metis nonneg_int_cases of_nat_less_iff)
    have "nat (i + 1) = Suc k" "copied A m F T ?l t k 0 m'" using k c by simp_all
    then show "\<exists>m''. fold_table l i (\<lambda>key v. InsertIntoLUT_noDBUG (Some ?l) key v i) (\<lambda>m. m) m' = Inr m''
        \<and> copied A m F T ?l t (nat (i + 1)) 0 m''"
      using copied_table(1) [OF inv l ne, of k m'] k by simp
  qed (use c0 in simp_all)
  then obtain m1 where m1: "cfor 0 32 (\<lambda>k. fold_table l k (\<lambda>key v. InsertIntoLUT_noDBUG (Some ?l) key v k) (\<lambda>m. m)) m0 = Inr m1"
    "copied A m F T ?l t 32 0 m1" by auto
  let ?body = "\<lambda>k. fold_table l k (\<lambda>key v m. bindR (STRcpy key m) (\<lambda>(key, m).
            InsertIntoLUT_noDBUG (Some ?l) key v k m)) (\<lambda>m. m)"
  have "\<exists>m2. cfor (int 32) (int 49) ?body m1 = Inr m2 \<and> copied A m F T ?l t (nat (int 49)) 0 m2"
  proof (rule cfor_inv [where P = "\<lambda>i. copied A m F T ?l t (nat i) 0"])
    fix i :: int and m'
    assume i: "int 32 \<le> i" "i < int 49" and c: "copied A m F T ?l t (nat i) 0 m'"
    define k where "k = nat i"
    have k: "i = int k" "\<not> k < 32" "k < 49" using i by (simp_all add: k_def)
    have "nat (i + 1) = Suc k" "copied A m F T ?l t k 0 m'" using k c by simp_all
    then show "\<exists>m''. ?body i m' = Inr m'' \<and> copied A m F T ?l t (nat (i + 1)) 0 m''"
      using copied_table(2) [OF inv l ne, of k m'] k by simp
  qed (use m1 in simp_all)
  then obtain m2 where m2: "cfor 32 49 ?body m1 = Inr m2" "copied A m F T ?l t 49 0 m2" by auto
  obtain t' where t': "copying A m F T ?l m2 t'"
    "\<forall>key. table_map A (strings m2) t' key = (if slot A key < 49 then table_map A (strings m) t key
       else if slot A key = 49 then vals_in (strings m) key (take 0 (t 49)) else [])"
    using m2(2) by (auto simp: copied_def)
  have "table_map A (strings m2) t' = table_map A (strings m) t" using t'(2) slot_less by (auto simp: fun_eq_iff)
  moreover have "holds A m2 (T(?l \<mapsto> t'))" "frame A ?l (strings m) T (strings m2) (T(?l \<mapsto> t'))"
    using t'(1) by (auto simp: copying_def holds_def)
  ultimately have "models A m2 ((maps_of A (strings m) T)(?l \<mapsto> table_map A (strings m) t)) (caller_strings (strings m) T)"
    using modelsI [of A m2 "T(?l \<mapsto> t')" ?l m T] by (simp add: maps_of_def [of A _ "T(?l \<mapsto> _)" ?l])
  moreover have "LUTduplicateLut (Some l) m = Inr (Some ?l, m2)"
    using g(1) m1(1) m2(1) by (simp add: LUTduplicateLut_def HASH_KEYS_def HASH_KEYS_POINTER_def HASH_KEYS_STRING_def)
  ultimately show ?thesis using g(3) by blast
qed

end
