(* ===== verification/LUT_Search.thy ===== *)
theory LUT_Search
  imports LUT_Copy
begin

text \<open>
  Searches call by call: while the last call has found a value, the static variables describe a pair of a table
  (\<open>in_search\<close>), and the search can be continued.  After the end of a search the static variables run past the pairs,
  until the link of the last fragment is read.
\<close>

lemma get_cell_unwritten:
  "is_frag (frags m) f \<Longrightarrow> i < 11 \<Longrightarrow> fcell (frags m) f i = None \<Longrightarrow> get_cell (Some (f, i)) 0 m = Inl Uninitialised"
  by (auto simp: get_cell_def is_frag_def fcell_def deref_def rd_def split: if_splits)

lemma same_fragment:
  assumes "t mod 5 \<noteq> (4 :: nat)"
  shows "Suc t div 5 = t div 5" and "Suc t mod 5 = Suc (t mod 5)"
  using assms by presburger+

lemma within_fragment:
  assumes "n mod 5 + r \<le> (4 :: nat)"
  shows "(n + r) div 5 = n div 5" and "(n + r) mod 5 = n mod 5 + r"
proof -
  have "n + r = 5 * (n div 5) + (n mod 5 + r)" by simp
  moreover have "(5 * k + b) div 5 = k" "(5 * k + b) mod 5 = b" if "b \<le> 4" for k b :: nat using that by simp_all
  ultimately show "(n + r) div 5 = n div 5" "(n + r) mod 5 = n mod 5 + r" using assms by metis+
qed

lemma mod_5_le: "n mod 5 \<le> (4 :: nat)"
  using mod_less_divisor [of 5 n] by simp

lemma SearchInLUT_from_end: "sz \<le> i \<Longrightarrow> SearchInLUT_from same q sz i e m = Inr (None, i, e)"
  by (simp add: SearchInLUT_from.simps)

text \<open>Calling the continuation of a search \<open>r\<close> times more.\<close>

primrec again :: "(lutmem \<Rightarrow> (vpp \<times> lutmem) cres) \<Rightarrow> nat \<Rightarrow> lutmem \<Rightarrow> (vpp \<times> lutmem) cres" where
  "again next_fun 0 m = Inr (None, m)"
| "again next_fun (Suc r) m = bindR (again next_fun r m) (\<lambda>(p, m). next_fun m)"

context key_match
begin

abbreviation next_fun :: "lutmem \<Rightarrow> (vpp \<times> lutmem) cres" where
  "next_fun \<equiv> SearchInLUT_state None PNull 0 same False"

lemma beyond_end:
  assumes c: "chain (frags m) fs xs" and q: "q \<noteq> PNull" and t: "length xs \<le> t" "t div 5 = length xs div 5"
    and n: "int t + 1 \<le> int_max"
  shows "next_fun (searching m l q k fs (length xs) t)
    = (if t mod 5 = 4 then Inl Uninitialised else Inr (None, searching m l q k fs (length xs) (Suc t)))"
proof -
  let ?s = "searching m l q k fs (length xs)"
  have ck: "ck_int (int t + 1) = Inr (int (Suc t))" using n by (simp add: ck_int_ok)
  have frag: "is_frag (frags m) (fs ! (t div 5))" using chainD(3,7) [OF c] t(2) by simp
  show ?thesis
  proof (cases "t mod 5 = 4")
    case True
    have "Suc t mod 5 = 0" using True by presburger
    then have "int (Suc t) mod LUT_SIZE = 0" using int_mod_5 [of "Suc t"] by simp
    moreover have "get_cell (Some (fs ! (t div 5), 10)) 0 (?s t) = Inl Uninitialised"
      using frag chainD(8) [OF c] t(2) by (intro get_cell_unwritten) simp_all
    ultimately have "next_entry (int t) (pos fs t) (?s t) = Inl Uninitialised"
      using ck True by (simp add: next_entry_def pos_def vpp_add_def del: of_nat_Suc)
    then show ?thesis using q True by (simp add: SearchInLUT_state_def)
  next
    case False
    have "int (Suc t) mod LUT_SIZE \<noteq> 0" using same_fragment [OF False] int_mod_5 [of "Suc t"] by simp
    then have "next_entry (int t) (pos fs t) (?s t) = Inr (pos fs (Suc t))"
      using ck same_fragment [OF False] by (simp add: next_entry_def pos_def vpp_add_def del: of_nat_Suc)
    moreover have "(?s t)\<lparr>store_i := 1 + int t, store_entry := pos fs (Suc t)\<rparr> = ?s (Suc t)" by (simp add: searching_def)
    ultimately show ?thesis
      using q False t(1) by (simp add: SearchInLUT_state_def SearchInLUT_from_end add.commute)
  qed
qed

lemma after_end:
  assumes c: "chain (frags m) fs xs" and q: "q \<noteq> PNull" and n: "int (length xs) + 5 \<le> int_max"
    and r: "r \<le> 4 - length xs mod 5"
  shows "again next_fun r (searching m l q k fs (length xs) (length xs))
    = Inr (None, searching m l q k fs (length xs) (length xs + r))"
  using r
proof (induction r)
  case (Suc r)
  have r: "length xs mod 5 + r < 4" using Suc.prems by simp
  then have d: "(length xs + r) div 5 = length xs div 5" "(length xs + r) mod 5 \<noteq> 4"
    using within_fragment [of "length xs" r] by simp_all
  have "next_fun (searching m l q k fs (length xs) (length xs + r)) = Inr (None, searching m l q k fs (length xs) (Suc (length xs + r)))"
    using beyond_end [OF c q _ d(1), of l k] d(2) n r by simp
  then show ?case using Suc.IH r by simp
qed simp

lemma past_end:
  assumes c: "chain (frags m) fs xs" and q: "q \<noteq> PNull" and n: "int (length xs) + 5 \<le> int_max"
  shows "again next_fun (Suc (4 - length xs mod 5)) (searching m l q k fs (length xs) (length xs)) = Inl Uninitialised"
proof -
  let ?t = "length xs + (4 - length xs mod 5)"
  have d: "?t div 5 = length xs div 5" "?t mod 5 = 4"
    using within_fragment [of "length xs" "4 - length xs mod 5"] mod_5_le [of "length xs"] by simp_all
  have "next_fun (searching m l q k fs (length xs) ?t) = Inl Uninitialised"
    using beyond_end [OF c q _ d(1), of l k] d(2) n by simp
  then show ?thesis using after_end [OF c q n le_refl, of l k] by simp
qed

definition in_search :: "lutmem \<Rightarrow> bool" where
  "in_search m \<longleftrightarrow> (\<exists>l q k fs xs j. chain (frags m) fs xs \<and> int (length xs) \<le> int_max \<and> (\<forall>x\<in>set xs. is_key (strings m) (fst x))
     \<and> is_key (strings m) q \<and> q \<noteq> PNull \<and> j < length xs \<and> m = searching m l q k fs (length xs) j)"

lemma in_search_at:
  assumes "chain (frags m) fs xs" and "int (length xs) \<le> int_max" and "\<And>x. x \<in> set xs \<Longrightarrow> is_key (strings m) (fst x)"
    and "is_key (strings m) q" and "q \<noteq> PNull" and "hit_pos fs (length xs) j \<noteq> None"
  shows "in_search (searching m l q k fs (length xs) j)"
proof -
  have "j < length xs" using assms(6) by (auto simp: hit_pos_def split: if_splits)
  moreover have "searching m l q k fs (length xs) j = searching (searching m l q k fs (length xs) j) l q k fs (length xs) j"
    by (simp add: searching_def)
  ultimately show ?thesis
    unfolding in_search_def using assms(1-5)
    by (intro exI [of _ l] exI [of _ q] exI [of _ k] exI [of _ fs] exI [of _ xs] exI [of _ j]) simp
qed

lemma search_starts:
  assumes b: "fcell (luts m) l k = Some (table_of fs (length xs))" and c: "chain (frags m) fs xs"
    and n: "int (length xs) \<le> int_max" and keys: "\<And>x. x \<in> set xs \<Longrightarrow> is_key (strings m) (fst x)"
    and q: "is_key (strings m) q" "q \<noteq> PNull"
  shows "\<exists>p m'. SearchInLUT_state (Some l) q (int k) same True m = Inr (p, m') \<and> (p \<noteq> None \<longrightarrow> in_search m')
    \<and> frags m' = frags m \<and> luts m' = luts m \<and> strings m' = strings m"
  using state_init [OF b c n keys q] in_search_at [OF c n keys q] by (auto simp: Let_def)

lemma search_continues:
  assumes "in_search m"
  shows "\<exists>p m'. next_fun m = Inr (p, m') \<and> (p \<noteq> None \<longrightarrow> in_search m')
    \<and> frags m' = frags m \<and> luts m' = luts m \<and> strings m' = strings m"
proof -
  obtain l q k fs xs j where s: "chain (frags m) fs xs" "int (length xs) \<le> int_max" "\<And>x. x \<in> set xs \<Longrightarrow> is_key (strings m) (fst x)"
    "is_key (strings m) q" "q \<noteq> PNull" "j < length xs" "m = searching m l q k fs (length xs) j"
    using assms unfolding in_search_def by blast
  have "next_fun m = Inr (let j = hit (matches (strings m) q) xs (Suc j) in (hit_pos fs (length xs) j, searching m l q k fs (length xs) j))"
    using state_next [OF s(1-6), of l k] s(7) by simp
  then show ?thesis using in_search_at [OF s(1-5)] by (auto simp: Let_def)
qed

text \<open>A search, the loop over all values, and the calls after the end.\<close>

lemma search_ends:
  assumes b: "fcell (luts m) l k = Some (table_of fs (length xs))" and c: "chain (frags m) fs xs"
    and n: "int (length xs) + 5 \<le> int_max" and keys: "\<And>x. x \<in> set xs \<Longrightarrow> is_key (strings m) (fst x)"
    and q: "is_key (strings m) q" "q \<noteq> PNull"
  shows "\<exists>p m' vs m''. SearchInLUT_state (Some l) q (int k) same True m = Inr (p, m')
    \<and> all_values next_fun [] p m' = Some (Inr (vs, m''))
    \<and> (\<forall>r\<le>4 - length xs mod 5. \<exists>u. again next_fun r m'' = Inr (None, u))
    \<and> again next_fun (Suc (4 - length xs mod 5)) m'' = Inl Uninitialised"
proof -
  have n': "int (length xs) \<le> int_max" using n by simp
  define j where "j = hit (matches (strings m) q) xs 0"
  have "SearchInLUT_state (Some l) q (int k) same True m = Inr (hit_pos fs (length xs) j, searching m l q k fs (length xs) j)"
    using state_init [OF b c n' keys q] by (simp add: j_def Let_def)
  moreover have "all_values next_fun [] (hit_pos fs (length xs) j) (searching m l q k fs (length xs) j)
      = Some (Inr (map snd (filter (matches (strings m) q) xs), searching m l q k fs (length xs) (length xs)))"
    using all_values_ok [OF c n' keys q j_def, of "[]" l k] by simp
  ultimately show ?thesis using after_end [OF c q(2) n] past_end [OF c q(2) n] by blast
qed

end

subsection \<open>For pointers and for strings\<close>

lemma table_P:
  assumes h: "holds A m T" and l: "T l = Some t" and q: "q \<noteq> PNull"
  obtains fs where "fcell (luts m) l (hashP A q) = Some (table_of fs (length (t (hashP A q))))"
    and "chain (frags m) fs (t (hashP A q))" and "int (length (t (hashP A q))) \<le> int_max"
proof -
  have k: "hashP A q < 49" using hashP_less [of A q] by simp
  show thesis using holds_table [OF h l k] that by blast
qed

lemma table_S:
  assumes h: "holds A m T" and l: "T l = Some t" and q: "is_string (strings m) q" and k: "k = hashS (string_key (strings m) q)"
  obtains fs where "fcell (luts m) l k = Some (table_of fs (length (t k)))"
    and "chain (frags m) fs (t k)" and "int (length (t k)) \<le> int_max"
    and "\<forall>x\<in>set (t k). is_string (strings m) (fst x)"
proof -
  have k: "k < 49" "\<not> k < 32" using hashS_range by (simp_all add: k not_less)
  show thesis using holds_table [OF h l k(1)] k(2) that unfolding keys_ok_def by metis
qed

lemma start_P:
  assumes h: "holds A m T" and l: "T l = Some t" and q: "q \<noteq> PNull"
  shows "\<exists>p m'. LUTsearchInLutP A (Some l) q m = Inr (p, m') \<and> (p \<noteq> None \<longrightarrow> pk.in_search m')
    \<and> frags m' = frags m \<and> luts m' = luts m \<and> strings m' = strings m"
proof -
  obtain fs where s: "fcell (luts m) l (hashP A q) = Some (table_of fs (length (t (hashP A q))))"
    "chain (frags m) fs (t (hashP A q))" "int (length (t (hashP A q))) \<le> int_max" using table_P [OF h l q] .
  show ?thesis using pk.search_starts [OF s _ _ q] by (simp add: LUTsearchInLutP_def GetHashKey_Pointer_eq)
qed

lemma start_S:
  assumes h: "holds A m T" and l: "T l = Some t" and q: "is_string (strings m) q"
  shows "\<exists>p m'. LUTsearchInLutS (Some l) q m = Inr (p, m') \<and> (p \<noteq> None \<longrightarrow> sk.in_search m')
    \<and> frags m' = frags m \<and> luts m' = luts m \<and> strings m' = strings m"
proof -
  define k where "k = hashS (string_key (strings m) q)"
  obtain fs where s: "fcell (luts m) l k = Some (table_of fs (length (t k)))" "chain (frags m) fs (t k)" "int (length (t k)) \<le> int_max"
    "\<forall>x\<in>set (t k). is_string (strings m) (fst x)" using table_S [OF h l q k_def] .
  show ?thesis
    using sk.search_starts [OF s(1-3) bspec [OF s(4)] q is_string_nonnull [OF q]] q by (simp add: LUTsearchInLutS_def GetHashKey_String_eq k_def)
qed

lemma continue_P: "pk.in_search m \<Longrightarrow> \<exists>p m'. LUTsearchInLutNextP m = Inr (p, m') \<and> (p \<noteq> None \<longrightarrow> pk.in_search m')
    \<and> frags m' = frags m \<and> luts m' = luts m \<and> strings m' = strings m"
  unfolding LUTsearchInLutNextP_def by (rule pk.search_continues)

lemma continue_S: "sk.in_search m \<Longrightarrow> \<exists>p m'. LUTsearchInLutNextS m = Inr (p, m') \<and> (p \<noteq> None \<longrightarrow> sk.in_search m')
    \<and> frags m' = frags m \<and> luts m' = luts m \<and> strings m' = strings m"
  unfolding LUTsearchInLutNextS_def by (rule sk.search_continues)

text \<open>The number of pairs in the collision table of a key.\<close>

definition pairs_at :: "nat \<Rightarrow> nat \<Rightarrow> lutmem \<Rightarrow> nat" where
  "pairs_at l k m = (case get_lut l (int k) m of Inr b \<Rightarrow> nat (lut_size b) | Inl _ \<Rightarrow> 0)"

lemma pairs_at_table: "fcell (luts m) l k = Some (table_of fs n) \<Longrightarrow> pairs_at l k m = n"
  by (simp add: pairs_at_def get_lut_ok table_of_def)

lemma end_P:
  assumes h: "holds A m T" and l: "T l = Some t" and q: "q \<noteq> PNull" and n: "int (pairs_at l (hashP A q) m) + 5 \<le> int_max"
  shows "\<exists>p m' vs m''. LUTsearchInLutP A (Some l) q m = Inr (p, m')
    \<and> all_values LUTsearchInLutNextP [] p m' = Some (Inr (vs, m''))
    \<and> (\<forall>r\<le>4 - pairs_at l (hashP A q) m mod 5. \<exists>u. again LUTsearchInLutNextP r m'' = Inr (None, u))
    \<and> again LUTsearchInLutNextP (Suc (4 - pairs_at l (hashP A q) m mod 5)) m'' = Inl Uninitialised"
proof -
  obtain fs where s: "fcell (luts m) l (hashP A q) = Some (table_of fs (length (t (hashP A q))))"
    "chain (frags m) fs (t (hashP A q))" using table_P [OF h l q] .
  note p = pairs_at_table [OF s(1)]
  show ?thesis
    using pk.search_ends [OF s n [unfolded p] _ _ q] unfolding p LUTsearchInLutP_def LUTsearchInLutNextP_def [abs_def]
    by (simp add: GetHashKey_Pointer_eq)
qed

lemma end_S:
  assumes h: "holds A m T" and l: "T l = Some t" and q: "is_string (strings m) q" and k: "k = hashS (string_key (strings m) q)"
    and n: "int (pairs_at l k m) + 5 \<le> int_max"
  shows "\<exists>p m' vs m''. LUTsearchInLutS (Some l) q m = Inr (p, m')
    \<and> all_values LUTsearchInLutNextS [] p m' = Some (Inr (vs, m''))
    \<and> (\<forall>r\<le>4 - pairs_at l k m mod 5. \<exists>u. again LUTsearchInLutNextS r m'' = Inr (None, u))
    \<and> again LUTsearchInLutNextS (Suc (4 - pairs_at l k m mod 5)) m'' = Inl Uninitialised"
proof -
  obtain fs where s: "fcell (luts m) l k = Some (table_of fs (length (t k)))" "chain (frags m) fs (t k)"
    "int (length (t k)) \<le> int_max" "\<forall>x\<in>set (t k). is_string (strings m) (fst x)" using table_S [OF h l q k] .
  note p = pairs_at_table [OF s(1)]
  show ?thesis
    using sk.search_ends [OF s(1,2) n [unfolded p] bspec [OF s(4)] q is_string_nonnull [OF q]] q
    unfolding p LUTsearchInLutS_def LUTsearchInLutNextS_def [abs_def] by (simp add: GetHashKey_String_eq k)
qed

subsection \<open>Searches that return the value, and mapping over strings\<close>

lemma found_or_ok:
  assumes "s = Inr (p, m')" and "p \<noteq> None \<Longrightarrow> get_cell p 0 m' = Inr v"
  shows "found_or q s = Inr (if p = None then q else v, m')"
  using assms by (simp add: found_or_def)

lemma map_S_any:
  assumes h: "holds A m T" and l: "T l = Some t"
  shows "\<exists>m' f'. LUTmapLutS (Some l) g m = Inr m' \<and> models A m' ((maps_of A (strings m) T)(l \<mapsto> f')) (caller_strings (strings m) T)"
proof -
  obtain m' t' where r: "MapLUT (Some l) g (int 32) (int 49) m = Inr m'" "holds A m' (T(l \<mapsto> t'))"
    "frame A l (strings m) T (strings m') (T(l \<mapsto> t'))"
    using MapLUT_ok [OF h l, of 32 49 g] by auto
  then show ?thesis
    using modelsI [OF r(2,3)]
    by (auto simp: LUTmapLutS_def HASH_KEYS_def HASH_KEYS_STRING_def HASH_KEYS_POINTER_def maps_of_def [of A _ "T(l \<mapsto> _)" l])
qed

end
