(* ===== verification/LUT_Props.thy ===== *)
theory LUT_Props
  imports LUT_Search
begin

text \<open>
  The theorems on the lookup table: every function implements its operation on the multimaps of \<open>LUT_Abs\<close> and
  leaves the other tables and the strings of the callers as they are; nothing leaks; and what happens when a
  search is continued after its end.
\<close>

subsection \<open>Between the memory and the multimaps\<close>

text \<open>No collision table of \<open>l\<close> has reached the greatest number of pairs, \<open>INT_MAX\<close>.\<close>

definition lut_room :: "nat \<Rightarrow> lutmem \<Rightarrow> bool" where
  "lut_room l m \<longleftrightarrow> list_all (\<lambda>k. case get_lut l (int k) m of Inr b \<Rightarrow> lut_size b < int_max | Inl _ \<Rightarrow> False) [0..<49]"

lemma models_table:
  assumes "models A m a c" and "a l = Some f"
  obtains T t where "holds A m T" and "T l = Some t" and "f = table_map A (strings m) t"
    and "a = maps_of A (strings m) T" and "c = caller_strings (strings m) T"
  using assms by (auto simp: models_def maps_of_def)

lemma room_table:
  assumes "holds A m T" and "T l = Some t" and "lut_room l m" and "k < 49"
  shows "int (length (t k)) < int_max"
proof -
  obtain F where "fcell (luts m) l k = Some (table_of (F (l, k)) (length (t k)))"
    using holds_table [OF assms(1,2,4)] by blast
  then have "get_lut l (int k) m = Inr (table_of (F (l, k)) (length (t k)))" by (rule get_lut_ok)
  moreover have "k \<in> set [0..<49]" using assms(4) by simp
  ultimately show ?thesis using assms(3) unfolding lut_room_def list_all_iff by (force simp: table_of_def)
qed

lemma caller_string: "c = caller_strings ss T \<Longrightarrow> c i = Some s \<Longrightarrow> is_string ss (PStr i) \<and> string_key ss (PStr i) = s"
  by (auto simp: caller_strings_def is_string_def string_key_def split: if_splits)

lemma models_same: "models A m a c \<Longrightarrow> a l = Some f \<Longrightarrow> a(l \<mapsto> f) = a"
  by auto

lemma generate_models:
  assumes "models A m a c"
  shows "\<exists>m'. LUTgenerateLut m = Inr (Some (length (luts m)), m') \<and> strings m' = strings m \<and> a (length (luts m)) = None
    \<and> models A m' (a(length (luts m) \<mapsto> (\<lambda>_. []))) c"
proof -
  let ?l = "length (luts m)"
  obtain T F where T: "lut_mem A (frags m) (strings m) (luts m) F T" "a = maps_of A (strings m) T" "c = caller_strings (strings m) T"
    using assms by (auto simp: models_def holds_def)
  obtain m' F' where g: "LUTgenerateLut m = Inr (Some ?l, m')" "strings m' = strings m" "T ?l = None"
    "lut_mem A (frags m') (strings m') (luts m') F' (T(?l \<mapsto> (\<lambda>_. [])))"
    using generate_ok [OF T(1)] by blast
  have "holds A m' (T(?l \<mapsto> (\<lambda>_. [])))" using g(4) by (auto simp: holds_def)
  moreover have "frame A ?l (strings m) T (strings m') (T(?l \<mapsto> (\<lambda>_. [])))" using frame_new [OF T(1) g(3)] g(2) by simp
  ultimately have "models A m' (a(?l := maps_of A (strings m') (T(?l \<mapsto> (\<lambda>_. []))) ?l)) c"
    unfolding T(2,3) by (rule modelsI)
  moreover have "maps_of A (strings m') (T(?l \<mapsto> (\<lambda>_. []))) ?l = Some (\<lambda>_. [])"
    by (simp add: maps_of_def fun_eq_iff table_map_def vals_in_def)
  ultimately show ?thesis using g T(2) by (auto simp: maps_of_def)
qed

lemma insert_models:
  assumes m: "models A m a c" and l: "a l = Some f" and room: "lut_room l m"
  shows "p \<noteq> PNull \<Longrightarrow> \<exists>m'. LUTinsertIntoLutP A (Some l) p v m = Inr (Some l, m') \<and> models A m' (a(l \<mapsto> map_insert f (KeyP p) v)) c"
    and "c i = Some s \<Longrightarrow> \<exists>m'. LUTinsertIntoLutS (Some l) (PStr i) v m = Inr (Some l, m') \<and> models A m' (a(l \<mapsto> map_insert f (KeyS s) v)) c"
proof -
  obtain T t where T: "holds A m T" "T l = Some t" "f = table_map A (strings m) t"
    "a = maps_of A (strings m) T" "c = caller_strings (strings m) T"
    using models_table [OF m l] .
  note rm = room_table [OF T(1,2) room]
  show "\<exists>m'. LUTinsertIntoLutP A (Some l) p v m = Inr (Some l, m') \<and> models A m' (a(l \<mapsto> map_insert f (KeyP p) v)) c" if "p \<noteq> PNull"
    using insert_P [OF T(1,2) that, of v] rm [of "hashP A p"] hashP_less [of A p] T
    by (simp add: LUTinsertIntoLutP_def GetHashKey_Pointer_eq)
  show "\<exists>m'. LUTinsertIntoLutS (Some l) (PStr i) v m = Inr (Some l, m') \<and> models A m' (a(l \<mapsto> map_insert f (KeyS s) v)) c" if "c i = Some s"
  proof -
    have i: "is_string (strings m) (PStr i)" "s = string_key (strings m) (PStr i)" using caller_string [OF T(5) that] by simp_all
    obtain m1 m' where "STRcpy (PStr i) m = Inr (PStr (length (strings m)), m1)"
      "InsertIntoLUT (Some l) (PStr (length (strings m))) v (int (hashS s)) m1 = Inr (Some l, m')"
      "is_string (strings m1) (PStr i)" "string_key (strings m1) (PStr i) = s"
      "models A m' ((maps_of A (strings m) T)(l \<mapsto> map_insert (table_map A (strings m) t) (KeyS s) v)) (caller_strings (strings m) T)"
      using copy_insert_S [OF T(1,2) i, of v] rm [of "hashS s"] hashS_range by blast
    then show ?thesis using T by (simp add: LUTinsertIntoLutS_def GetHashKey_String_eq)
  qed
qed

lemma update_models:
  assumes m: "models A m a c" and l: "a l = Some f" and room: "lut_room l m"
  shows "p \<noteq> PNull \<Longrightarrow> \<exists>m'. LUTupdateLutP A (Some l) p v m = Inr (Some l, first_val f (KeyP p), m')
      \<and> models A m' (a(l \<mapsto> map_update f (KeyP p) v)) c"
    and "c i = Some s \<Longrightarrow> \<exists>m'. LUTupdateLutS (Some l) (PStr i) v m = Inr (Some l, first_val f (KeyS s), m')
      \<and> models A m' (a(l \<mapsto> map_update f (KeyS s) v)) c"
proof -
  obtain T t where T: "holds A m T" "T l = Some t" "f = table_map A (strings m) t"
    "a = maps_of A (strings m) T" "c = caller_strings (strings m) T"
    using models_table [OF m l] .
  note rm = room_table [OF T(1,2) room]
  show "\<exists>m'. LUTupdateLutP A (Some l) p v m = Inr (Some l, first_val f (KeyP p), m')
      \<and> models A m' (a(l \<mapsto> map_update f (KeyP p) v)) c" if "p \<noteq> PNull"
    using update_P [OF T(1,2) that, of v] rm [of "hashP A p"] hashP_less [of A p] unfolding T(3-5) by simp
  show "\<exists>m'. LUTupdateLutS (Some l) (PStr i) v m = Inr (Some l, first_val f (KeyS s), m')
      \<and> models A m' (a(l \<mapsto> map_update f (KeyS s) v)) c" if "c i = Some s"
  proof -
    have i: "is_string (strings m) (PStr i)" "s = string_key (strings m) (PStr i)" using caller_string [OF T(5) that] by simp_all
    from update_S [OF T(1,2) i, of v] rm [OF hashS_range(2), of s] show ?thesis unfolding T(3-5) by simp
  qed
qed

lemma search_models:
  assumes "models A m a c" and "a l = Some f"
  shows "q \<noteq> PNull \<Longrightarrow> \<exists>p m' m''. LUTsearchInLutP A (Some l) q m = Inr (p, m')
      \<and> all_values LUTsearchInLutNextP [] p m' = Some (Inr (f (KeyP q), m''))
      \<and> (p = None \<longleftrightarrow> f (KeyP q) = []) \<and> (p \<noteq> None \<longrightarrow> get_cell p 0 m' = Inr (hd (f (KeyP q))))
      \<and> models A m' a c \<and> models A m'' a c"
    and "c i = Some s \<Longrightarrow> \<exists>p m' m''. LUTsearchInLutS (Some l) (PStr i) m = Inr (p, m')
      \<and> all_values LUTsearchInLutNextS [] p m' = Some (Inr (f (KeyS s), m''))
      \<and> (p = None \<longleftrightarrow> f (KeyS s) = []) \<and> (p \<noteq> None \<longrightarrow> get_cell p 0 m' = Inr (hd (f (KeyS s))))
      \<and> models A m' a c \<and> models A m'' a c"
proof -
  obtain T t where T: "holds A m T" "T l = Some t" "f = table_map A (strings m) t"
    "a = maps_of A (strings m) T" "c = caller_strings (strings m) T"
    using models_table [OF assms] .
  have keep: "models A m' a c" if "holds A m' T" "strings m' = strings m" for m'
    using that T(4,5) by (auto simp: models_def)
  show "\<exists>p m' m''. LUTsearchInLutP A (Some l) q m = Inr (p, m')
      \<and> all_values LUTsearchInLutNextP [] p m' = Some (Inr (f (KeyP q), m''))
      \<and> (p = None \<longleftrightarrow> f (KeyP q) = []) \<and> (p \<noteq> None \<longrightarrow> get_cell p 0 m' = Inr (hd (f (KeyP q))))
      \<and> models A m' a c \<and> models A m'' a c" if "q \<noteq> PNull"
    using search_P [OF T(1,2) that refl] keep unfolding T(3) by blast
  show "\<exists>p m' m''. LUTsearchInLutS (Some l) (PStr i) m = Inr (p, m')
      \<and> all_values LUTsearchInLutNextS [] p m' = Some (Inr (f (KeyS s), m''))
      \<and> (p = None \<longleftrightarrow> f (KeyS s) = []) \<and> (p \<noteq> None \<longrightarrow> get_cell p 0 m' = Inr (hd (f (KeyS s))))
      \<and> models A m' a c \<and> models A m'' a c" if "c i = Some s"
  proof -
    have i: "is_string (strings m) (PStr i)" "string_key (strings m) (PStr i) = s" using caller_string [OF T(5) that] by simp_all
    from search_S [OF T(1,2) i(1) refl] keep show ?thesis unfolding T(3) i(2) by blast
  qed
qed

text \<open>What the calls after the end of a search do.\<close>

lemma ends_P:
  assumes "models A m a c" and "a l = Some f" and "q \<noteq> PNull" and n: "int (pairs_at l (slot A (KeyP q)) m) + 5 \<le> int_max"
  shows "\<exists>p m' m''. LUTsearchInLutP A (Some l) q m = Inr (p, m')
    \<and> all_values LUTsearchInLutNextP [] p m' = Some (Inr (f (KeyP q), m''))
    \<and> (\<forall>r\<le>4 - pairs_at l (slot A (KeyP q)) m mod 5. \<exists>u. again LUTsearchInLutNextP r m'' = Inr (None, u))
    \<and> again LUTsearchInLutNextP (Suc (4 - pairs_at l (slot A (KeyP q)) m mod 5)) m'' = Inl Uninitialised"
proof -
  obtain T t where T: "holds A m T" "T l = Some t" using models_table [OF assms(1,2)] .
  have k: "slot A (KeyP q) = hashP A q" by (simp add: slot_def)
  obtain p m' m'' where "LUTsearchInLutP A (Some l) q m = Inr (p, m')"
    "all_values LUTsearchInLutNextP [] p m' = Some (Inr (f (KeyP q), m''))"
    using search_models(1) [OF assms(1-3)] by blast
  then show ?thesis using end_P [OF T assms(3) n [unfolded k]] unfolding k by auto
qed

lemma ends_S:
  assumes "models A m a c" and "a l = Some f" and "c i = Some s" and n: "int (pairs_at l (slot A (KeyS s)) m) + 5 \<le> int_max"
  shows "\<exists>p m' m''. LUTsearchInLutS (Some l) (PStr i) m = Inr (p, m')
    \<and> all_values LUTsearchInLutNextS [] p m' = Some (Inr (f (KeyS s), m''))
    \<and> (\<forall>r\<le>4 - pairs_at l (slot A (KeyS s)) m mod 5. \<exists>u. again LUTsearchInLutNextS r m'' = Inr (None, u))
    \<and> again LUTsearchInLutNextS (Suc (4 - pairs_at l (slot A (KeyS s)) m mod 5)) m'' = Inl Uninitialised"
proof -
  obtain T t where T: "holds A m T" "T l = Some t" "c = caller_strings (strings m) T" using models_table [OF assms(1,2)] .
  have i: "is_string (strings m) (PStr i)" "string_key (strings m) (PStr i) = s" using caller_string [OF T(3) assms(3)] by simp_all
  have k: "slot A (KeyS s) = hashS s" by (simp add: slot_def)
  obtain p m' m'' where "LUTsearchInLutS (Some l) (PStr i) m = Inr (p, m')"
    "all_values LUTsearchInLutNextS [] p m' = Some (Inr (f (KeyS s), m''))"
    using search_models(2) [OF assms(1-3)] by blast
  then show ?thesis using end_S [OF T(1,2) i(1), of "hashS s"] n i(2) unfolding k by auto
qed

lemma duplicate_models:
  assumes "models A m a c" and "a l = Some f"
  shows "\<exists>l' m'. LUTduplicateLut (Some l) m = Inr (Some l', m') \<and> a l' = None \<and> models A m' (a(l' \<mapsto> f)) c"
proof -
  obtain T t where T: "holds A m T" "T l = Some t" "f = table_map A (strings m) t"
    "a = maps_of A (strings m) T" "c = caller_strings (strings m) T"
    using models_table [OF assms] .
  from LUTduplicateLut_ok [OF T(1,2)] show ?thesis unfolding T(3-5) by (auto simp: maps_of_def)
qed

lemma map_models:
  assumes "models A m a c" and "a l = Some f"
  shows "\<exists>m'. LUTmapLutP (Some l) g m = Inr m' \<and> models A m' (a(l \<mapsto> only_P f g)) c"
    and "\<exists>m'. LUTmapLutS (Some l) (\<lambda>v _. h v) m = Inr m' \<and> models A m' (a(l \<mapsto> only_S f h)) c"
proof -
  obtain T t where T: "holds A m T" "T l = Some t" "f = table_map A (strings m) t"
    "a = maps_of A (strings m) T" "c = caller_strings (strings m) T"
    using models_table [OF assms] .
  show "\<exists>m'. LUTmapLutP (Some l) g m = Inr m' \<and> models A m' (a(l \<mapsto> only_P f g)) c"
    using map_P [OF T(1,2), of g] unfolding T(3-5) .
  show "\<exists>m'. LUTmapLutS (Some l) (\<lambda>v _. h v) m = Inr m' \<and> models A m' (a(l \<mapsto> only_S f h)) c"
    using map_S [OF T(1,2), of h] unfolding T(3-5) .
qed

lemma remove_models:
  assumes "models A m a c" and "a l = Some f"
  shows "\<exists>m'. LUTremoveContentLut (Some l) m = Inr m' \<and> models A m' (a(l \<mapsto> (\<lambda>_. []))) c"
    and "\<exists>m'. LUTremoveLut (Some l) m = Inr (None, m') \<and> models A m' (a(l := None)) c"
    and "LUTisEmptyLut (Some l) m = Inr (f = (\<lambda>_. []))"
proof -
  obtain T t where T: "holds A m T" "T l = Some t" "f = table_map A (strings m) t"
    "a = maps_of A (strings m) T" "c = caller_strings (strings m) T"
    using models_table [OF assms] .
  obtain m' t' where r: "LUTremoveContentLut (Some l) m = Inr m'" "holds A m' (T(l \<mapsto> t'))" "\<forall>k<49. t' k = []"
    "frame A l (strings m) T (strings m') (T(l \<mapsto> t'))"
    using LUTremoveContentLut_ok [OF T(1,2)] by blast
  have "table_map A (strings m') t' = (\<lambda>_. [])" using empty_iff [OF r(2), of l t'] r(3) by simp
  then show "\<exists>m'. LUTremoveContentLut (Some l) m = Inr m' \<and> models A m' (a(l \<mapsto> (\<lambda>_. []))) c"
    using r(1) modelsI [OF r(2,4)] unfolding T(4,5) by (simp add: maps_of_def [of A _ "T(l \<mapsto> _)" l])
  obtain m' where "LUTremoveLut (Some l) m = Inr (None, m')" "holds A m' (T(l := None))"
    "frame A l (strings m) T (strings m') (T(l := None))"
    using LUTremoveLut_ok [OF T(1,2)] by blast
  then show "\<exists>m'. LUTremoveLut (Some l) m = Inr (None, m') \<and> models A m' (a(l := None)) c"
    using modelsI [of A m' "T(l := None)" l m T] unfolding T(4,5) by (auto simp: maps_of_def [of A _ "T(l := None)" l])
  show "LUTisEmptyLut (Some l) m = Inr (f = (\<lambda>_. []))" using LUTisEmptyLut_ok [OF T(1,2)] T(3) by simp
qed

lemma models_nothing:
  assumes "models A m (\<lambda>_. None) c"
  shows "\<not> live (frags m) g" and "\<not> live (luts m) l" and "c i = (if live (strings m) i then strings m ! i else None)"
proof -
  obtain T F where T: "lut_mem A (frags m) (strings m) (luts m) F T" "(\<lambda>_. None) = maps_of A (strings m) T"
    "c = caller_strings (strings m) T"
    using assms by (auto simp: models_def holds_def)
  then have none: "T l = None" for l by (auto simp: maps_of_def fun_eq_iff)
  then have p: "places T = {}" by (simp add: places_def)
  show "\<not> live (frags m) g" using lut_memD(7) [OF T(1), of g] p by blast
  show "\<not> live (luts m) l" using lut_memD(1) [OF T(1), of l] none by simp
  show "c i = (if live (strings m) i then strings m ! i else None)" by (simp add: T(3) caller_strings_def owned_def p)
qed

lemma models_empty:
  assumes "frags m = []" and "luts m = []"
  shows "models A m (\<lambda>_. None) (\<lambda>i. if live (strings m) i then strings m ! i else None)"
proof -
  have "lut_mem A (frags m) (strings m) (luts m) (\<lambda>_. []) (\<lambda>_. None)"
    using assms by (simp add: lut_mem_def live_def places_def)
  moreover have "owned (\<lambda>_. None) = {}" by (simp add: owned_def places_def)
  ultimately show ?thesis
    unfolding models_def by (intro exI [of _ "\<lambda>_. None"]) (auto simp: holds_def maps_of_def caller_strings_def fun_eq_iff)
qed

subsection \<open>An example\<close>

definition ex_addr :: "ptr \<Rightarrow> 64 word" where
  "ex_addr p = (case p of PObj n \<Rightarrow> 32 * word_of_nat n | _ \<Rightarrow> 0)"

definition ex_start :: lutmem where
  "ex_start = \<lparr>frags = [], luts = [], strings = [Some ''f''], store_lut = None, store_old_item = PNull,
     store_hash_key = 0, store_size = 0, store_i = 0, store_entry = None\<rparr>"

text \<open>A new table in which two values are inserted for one pointer.\<close>

definition result :: "('a \<times> lutmem) cres \<Rightarrow> lutmem" where
  "result r = (case r of Inr (_, m) \<Rightarrow> m | Inl _ \<Rightarrow> ex_start)"

definition ex_new :: lutmem where
  "ex_new = result (LUTgenerateLut ex_start)"

definition ex_one :: lutmem where
  "ex_one = result (LUTinsertIntoLutP ex_addr (Some 0) (PObj 3) (PObj 7) ex_new)"

definition ex_lut :: lutmem where
  "ex_lut = result (LUTinsertIntoLutP ex_addr (Some 0) (PObj 3) (PObj 8) ex_one)"

definition ex_map :: multimap where
  "ex_map = (\<lambda>key. if key = KeyP (PObj 3) then [PObj 7, PObj 8] else [])"

definition ex_maps :: "nat \<Rightarrow> multimap option" where
  "ex_maps = (\<lambda>l. if l = 0 then Some ex_map else None)"

definition ex_strings :: "nat \<Rightarrow> string option" where
  "ex_strings = (\<lambda>i. if i = 0 then Some ''f'' else None)"

lemma ex_room: "lut_room 0 ex_new" "lut_room 0 ex_one" "lut_room 0 ex_lut"
  by code_simp+

lemma ex_models: "models ex_addr ex_lut ex_maps ex_strings"
proof -
  have "(\<lambda>i. if live (strings ex_start) i then strings ex_start ! i else None) = ex_strings"
    by (auto simp: fun_eq_iff ex_start_def ex_strings_def live_def)
  then have m0: "models ex_addr ex_start (\<lambda>_. None) ex_strings"
    using models_empty [of ex_start ex_addr] by (simp add: ex_start_def)
  have m1: "models ex_addr ex_new [0 \<mapsto> (\<lambda>_. [])] ex_strings"
    using generate_models [OF m0] by (auto simp: ex_new_def result_def) (simp add: ex_start_def)
  have m2: "models ex_addr ex_one [0 \<mapsto> map_insert (\<lambda>_. []) (KeyP (PObj 3)) (PObj 7)] ex_strings"
    using insert_models(1) [OF m1 _ ex_room(1), of _ "PObj 3" "PObj 7"] by (auto simp: ex_one_def result_def)
  have "models ex_addr ex_lut [0 \<mapsto> map_insert (map_insert (\<lambda>_. []) (KeyP (PObj 3)) (PObj 7)) (KeyP (PObj 3)) (PObj 8)] ex_strings"
    using insert_models(1) [OF m2 _ ex_room(2), of _ "PObj 3" "PObj 8"] by (auto simp: ex_lut_def result_def)
  moreover have "[0 \<mapsto> map_insert (map_insert (\<lambda>_. []) (KeyP (PObj 3)) (PObj 7)) (KeyP (PObj 3)) (PObj 8)] = ex_maps"
    by (auto simp: fun_eq_iff ex_maps_def ex_map_def map_insert_def)
  ultimately show ?thesis by simp
qed

lemma ex_facts: "ex_maps 0 = Some ex_map" "ex_strings 0 = Some ''f''" "l \<noteq> 0 \<Longrightarrow> ex_maps l = None"
  by (simp_all add: ex_maps_def ex_strings_def)

subsection \<open>The theorems\<close>

text \<open>
  C6: Inserting a pair of pointers, or a pair of a string and a pointer, appends the value to those of the key in the
  table; no other key, no other table and no string of the callers is changed.
\<close>

theorem LUT_insert_refines:
  assumes "models A m a c" and "a l = Some f" and "lut_room l m"
  shows "(p \<noteq> PNull \<longrightarrow> (\<exists>m'. LUTinsertIntoLutP A (Some l) p v m = Inr (Some l, m')
      \<and> models A m' (a(l \<mapsto> map_insert f (KeyP p) v)) c))
    \<and> (c i = Some s \<longrightarrow> (\<exists>m'. LUTinsertIntoLutS (Some l) (PStr i) v m = Inr (Some l, m')
      \<and> models A m' (a(l \<mapsto> map_insert f (KeyS s) v)) c))"
  using insert_models [OF assms] by blast

theorem LUT_insert_refines_witness:
  "(\<exists>m'. LUTinsertIntoLutP ex_addr (Some 0) (PObj 3) (PObj 9) ex_lut = Inr (Some 0, m')
      \<and> models ex_addr m' (ex_maps(0 \<mapsto> map_insert ex_map (KeyP (PObj 3)) (PObj 9))) ex_strings)
   \<and> (\<exists>m'. LUTinsertIntoLutS (Some 0) (PStr 0) (PObj 9) ex_lut = Inr (Some 0, m')
      \<and> models ex_addr m' (ex_maps(0 \<mapsto> map_insert ex_map (KeyS ''f'') (PObj 9))) ex_strings)"
  using LUT_insert_refines [OF ex_models ex_facts(1) ex_room(3)] ex_facts(2) by blast

text \<open>
  C7: A search and the calls for further values give exactly the values inserted for the key, in the order of
  insertion, and then \<open>NULL\<close>: the loop of the callers ends, and the tables are as before.
\<close>

theorem LUT_search_enumerates:
  assumes "models A m a c" and "a l = Some f"
  shows "(q \<noteq> PNull \<longrightarrow> (\<exists>p m' m''. LUTsearchInLutP A (Some l) q m = Inr (p, m')
      \<and> all_values LUTsearchInLutNextP [] p m' = Some (Inr (f (KeyP q), m''))
      \<and> (p = None \<longleftrightarrow> f (KeyP q) = []) \<and> (p \<noteq> None \<longrightarrow> get_cell p 0 m' = Inr (hd (f (KeyP q))))
      \<and> models A m' a c \<and> models A m'' a c))
    \<and> (c i = Some s \<longrightarrow> (\<exists>p m' m''. LUTsearchInLutS (Some l) (PStr i) m = Inr (p, m')
      \<and> all_values LUTsearchInLutNextS [] p m' = Some (Inr (f (KeyS s), m''))
      \<and> (p = None \<longleftrightarrow> f (KeyS s) = []) \<and> (p \<noteq> None \<longrightarrow> get_cell p 0 m' = Inr (hd (f (KeyS s))))
      \<and> models A m' a c \<and> models A m'' a c))"
  using search_models(1) [OF assms, of q] search_models(2) [OF assms, of i s] by blast

theorem LUT_search_enumerates_witness:
  "(\<exists>p m' m''. LUTsearchInLutP ex_addr (Some 0) (PObj 3) ex_lut = Inr (p, m')
      \<and> all_values LUTsearchInLutNextP [] p m' = Some (Inr ([PObj 7, PObj 8], m'')))
   \<and> (\<exists>m'. LUTsearchInLutS (Some 0) (PStr 0) ex_lut = Inr (None, m'))"
proof -
  have "ex_map (KeyP (PObj 3)) = [PObj 7, PObj 8]" "ex_map (KeyS ''f'') = []" "PObj 3 \<noteq> PNull" by (simp_all add: ex_map_def)
  then show ?thesis
    using LUT_search_enumerates [OF ex_models ex_facts(1), of "PObj 3" 0 "''f''"] ex_facts(2) by auto
qed

text \<open>
  C8: Updating replaces the first value of the key, or inserts the value if there is none; what is stored in
  \<open>*found_item\<close> is the value replaced, or \<open>NULL\<close>.
\<close>

theorem LUT_update_refines:
  assumes "models A m a c" and "a l = Some f" and "lut_room l m"
  shows "(p \<noteq> PNull \<longrightarrow> (\<exists>m'. LUTupdateLutP A (Some l) p v m = Inr (Some l, first_val f (KeyP p), m')
      \<and> models A m' (a(l \<mapsto> map_update f (KeyP p) v)) c))
    \<and> (c i = Some s \<longrightarrow> (\<exists>m'. LUTupdateLutS (Some l) (PStr i) v m = Inr (Some l, first_val f (KeyS s), m')
      \<and> models A m' (a(l \<mapsto> map_update f (KeyS s) v)) c))"
  using update_models [OF assms] by blast

theorem LUT_update_refines_witness:
  "(\<exists>m'. LUTupdateLutP ex_addr (Some 0) (PObj 3) (PObj 9) ex_lut = Inr (Some 0, PObj 7, m')
      \<and> models ex_addr m' (ex_maps(0 \<mapsto> map_update ex_map (KeyP (PObj 3)) (PObj 9))) ex_strings)
   \<and> (\<exists>m'. LUTupdateLutS (Some 0) (PStr 0) (PObj 9) ex_lut = Inr (Some 0, PNull, m')
      \<and> models ex_addr m' (ex_maps(0 \<mapsto> map_update ex_map (KeyS ''f'') (PObj 9))) ex_strings)"
proof -
  have "first_val ex_map (KeyP (PObj 3)) = PObj 7" "first_val ex_map (KeyS ''f'') = PNull" "PObj 3 \<noteq> PNull"
    by (simp_all add: first_val_def ex_map_def)
  then show ?thesis
    using LUT_update_refines [OF ex_models ex_facts(1) ex_room(3), of "PObj 3" "PObj 9" 0 "''f''"] ex_facts(2) by simp
qed

text \<open>
  C9: A duplicate is a new table with the same values for the same keys, with fragments and strings of its own; so what is
  done to one of the two later does not change the other.
\<close>

theorem LUT_duplicate_copies:
  assumes "models A m a c" and "a l = Some f"
  shows "\<exists>l' m'. LUTduplicateLut (Some l) m = Inr (Some l', m') \<and> a l' = None \<and> models A m' (a(l' \<mapsto> f)) c"
  using duplicate_models [OF assms] .

theorem LUT_duplicate_copies_witness:
  "\<exists>l' m'. LUTduplicateLut (Some 0) ex_lut = Inr (Some l', m') \<and> l' \<noteq> 0 \<and> models ex_addr m' (ex_maps(l' \<mapsto> ex_map)) ex_strings"
  using LUT_duplicate_copies [OF ex_models ex_facts(1)] ex_facts(1) by (metis option.distinct(1))

text \<open>
  C11: Mapping over the pointers changes the values of all pointers and of no string, and the other way round; folding over
  the pointers goes through every pair once, the values of one key in the order of insertion.
\<close>

theorem LUT_map_fold:
  assumes "models A m a c" and "a l = Some f"
  shows "(\<exists>m'. LUTmapLutP (Some l) g m = Inr m' \<and> models A m' (a(l \<mapsto> only_P f g)) c)
    \<and> (\<exists>m'. LUTmapLutS (Some l) (\<lambda>v _. h v) m = Inr m' \<and> models A m' (a(l \<mapsto> only_S f h)) c)
    \<and> (\<exists>xs. LUTfoldLutP (Some l) init fold_fun m = Inr (foldl (\<lambda>s (key, v). fold_fun s v key) init xs)
        \<and> (\<forall>p. map snd (filter (\<lambda>x. fst x = p) xs) = f (KeyP p)))
    \<and> (\<exists>xs. LUTfoldLutS (Some l) init fold_fun m = Inr (foldl (\<lambda>s (key, v). fold_fun s v key) init xs)
        \<and> (\<forall>u. map snd (filter (\<lambda>x. string_key (strings m) (fst x) = u) xs) = f (KeyS u)))"
proof -
  obtain T t where T: "holds A m T" "T l = Some t" "f = table_map A (strings m) t" using models_table [OF assms] .
  show ?thesis
    using map_models(1) [OF assms, of g] map_models(2) [OF assms, of h]
      fold_P [OF T(1,2), of init fold_fun] fold_S [OF T(1,2), of init fold_fun] unfolding T(3) by (intro conjI)
qed

theorem LUT_map_fold_witness:
  "\<exists>xs. LUTfoldLutP (Some 0) [] (\<lambda>vs v _. vs @ [v]) ex_lut = Inr (foldl (\<lambda>vs (key, v). vs @ [v]) [] xs)
     \<and> map snd (filter (\<lambda>x. fst x = PObj 3) xs) = [PObj 7, PObj 8]"
  using LUT_map_fold [OF ex_models ex_facts(1), of "\<lambda>v _. v" "\<lambda>v. v" "[]" "\<lambda>vs v _. vs @ [v]"]
  by (auto simp: ex_map_def split_def)

text \<open>
  C10: \<open>LUTisEmptyLut\<close> answers whether no key has a value; emptying a table leaves all keys without values, and removing it
  removes it and nothing else.  When no table is left, no fragment and no table is allocated, and of the strings only those of
  the callers.
\<close>

theorem LUT_remove_frees:
  assumes "models A m a c" and "a l = Some f"
  shows "LUTisEmptyLut (Some l) m = Inr (f = (\<lambda>_. []))
    \<and> (\<exists>m'. LUTremoveContentLut (Some l) m = Inr m' \<and> models A m' (a(l \<mapsto> (\<lambda>_. []))) c)
    \<and> (\<exists>m'. LUTremoveLut (Some l) m = Inr (None, m') \<and> models A m' (a(l := None)) c
        \<and> (a(l := None) = (\<lambda>_. None) \<longrightarrow> (\<forall>g. \<not> live (frags m') g) \<and> (\<forall>l'. \<not> live (luts m') l')
            \<and> (\<forall>i. c i = (if live (strings m') i then strings m' ! i else None))))"
proof -
  obtain m' where r: "LUTremoveLut (Some l) m = Inr (None, m')" "models A m' (a(l := None)) c"
    using remove_models(2) [OF assms] by (elim exE conjE)
  have "\<forall>g. \<not> live (frags m') g" "\<forall>l'. \<not> live (luts m') l'"
    "\<forall>i. c i = (if live (strings m') i then strings m' ! i else None)" if none: "a(l := None) = (\<lambda>_. None)"
    using models_nothing [OF r(2) [unfolded none]] by - (intro allI, assumption)+
  with r have "\<exists>m'. LUTremoveLut (Some l) m = Inr (None, m') \<and> models A m' (a(l := None)) c
      \<and> (a(l := None) = (\<lambda>_. None) \<longrightarrow> (\<forall>g. \<not> live (frags m') g) \<and> (\<forall>l'. \<not> live (luts m') l')
            \<and> (\<forall>i. c i = (if live (strings m') i then strings m' ! i else None)))"
    by (intro exI [of _ m'] conjI impI)
  then show ?thesis using remove_models(1,3) [OF assms] by (intro conjI)
qed

theorem LUT_remove_frees_witness:
  "LUTisEmptyLut (Some 0) ex_lut = Inr False
   \<and> (\<exists>m'. LUTremoveLut (Some 0) ex_lut = Inr (None, m') \<and> (\<forall>g. \<not> live (frags m') g) \<and> (\<forall>l. \<not> live (luts m') l))"
proof -
  have "ex_map (KeyP (PObj 3)) \<noteq> []" "ex_maps(0 := None) = (\<lambda>_. None)" by (auto simp: ex_map_def ex_maps_def)
  then have "ex_map \<noteq> (\<lambda>_. [])" "ex_maps(0 := None) = (\<lambda>_. None)" by (auto simp: fun_eq_iff)
  with LUT_remove_frees [OF ex_models ex_facts(1)] show ?thesis by (elim conjE exE) auto
qed

text \<open>
  C40: A search must not be continued after its end.  When the values of a key have all been given, and the collision table
  of the key has \<open>n\<close> pairs, \<open>4 - n mod 5\<close> more calls answer \<open>NULL\<close>; the one after them reads the link of the last
  fragment, which has never been written.  This holds of pointers and of strings, of every table and every key.
\<close>

theorem LUT_next_after_null:
  assumes "models A m a c" and "a l = Some f"
  shows "(q \<noteq> PNull \<and> int (pairs_at l (slot A (KeyP q)) m) + 5 \<le> int_max \<longrightarrow>
      (\<exists>p m' m''. LUTsearchInLutP A (Some l) q m = Inr (p, m')
        \<and> all_values LUTsearchInLutNextP [] p m' = Some (Inr (f (KeyP q), m''))
        \<and> (\<forall>r\<le>4 - pairs_at l (slot A (KeyP q)) m mod 5. \<exists>u. again LUTsearchInLutNextP r m'' = Inr (None, u))
        \<and> again LUTsearchInLutNextP (Suc (4 - pairs_at l (slot A (KeyP q)) m mod 5)) m'' = Inl Uninitialised))
    \<and> (c i = Some s \<and> int (pairs_at l (slot A (KeyS s)) m) + 5 \<le> int_max \<longrightarrow>
      (\<exists>p m' m''. LUTsearchInLutS (Some l) (PStr i) m = Inr (p, m')
        \<and> all_values LUTsearchInLutNextS [] p m' = Some (Inr (f (KeyS s), m''))
        \<and> (\<forall>r\<le>4 - pairs_at l (slot A (KeyS s)) m mod 5. \<exists>u. again LUTsearchInLutNextS r m'' = Inr (None, u))
        \<and> again LUTsearchInLutNextS (Suc (4 - pairs_at l (slot A (KeyS s)) m mod 5)) m'' = Inl Uninitialised))"
  using ends_P [OF assms, of q] ends_S [OF assms, of i s] by blast

theorem LUT_next_after_null_witness:
  "\<exists>p m' m''. LUTsearchInLutP ex_addr (Some 0) (PObj 3) ex_lut = Inr (p, m')
     \<and> all_values LUTsearchInLutNextP [] p m' = Some (Inr ([PObj 7, PObj 8], m''))
     \<and> again LUTsearchInLutNextP 3 m'' = Inl Uninitialised"
proof -
  have "pairs_at 0 (slot ex_addr (KeyP (PObj 3))) ex_lut = 2" "ex_map (KeyP (PObj 3)) = [PObj 7, PObj 8]"
    by (code_simp, simp add: ex_map_def)
  then show ?thesis
    using LUT_next_after_null [OF ex_models ex_facts(1), of "PObj 3" 0 "[]"] by (simp add: int_max_def) blast
qed

text \<open>An update of the table \<open>NULL\<close> dereferences it, where insertion and search return.\<close>

lemma LUT_update_null:
  "LUTupdateLutP A None p v m = Inl NullDeref" "is_string (strings m) q \<Longrightarrow> LUTupdateLutS None q v m = Inl NullDeref"
  by (simp_all add: GetHashKey_Pointer_eq GetHashKey_String_eq LUTupdateLutP_def LUTupdateLutS_def UpdateLUT_def SearchInLUT_def)

end
