(* ===== verification/LUT_Session.thy ===== *)
theory LUT_Session
  imports LUT_Props
begin

text \<open>
  All calls of the module in any order: the step relation \<open>lut_step\<close> has one rule for each exported function, applied
  to a table that exists; from every state it reaches every further step is possible, and the memory models multimaps.
\<close>

text \<open>
  The module has one search in progress at most.  It can be continued directly after a call that has found a value,
  by the function for the kind of its key; any other call closes it.  Continuing a closed search is an error of the
  caller (\<open>LUT_next_after_null\<close>).
\<close>

datatype search = Closed | Open_P | Open_S

definition opened :: "search \<Rightarrow> vpp \<Rightarrow> search" where
  "opened kind p = (if p = None then Closed else kind)"

text \<open>\<open>c\<close> has the strings of the callers; they are never changed by the module.\<close>

inductive lut_step ::
  "(ptr \<Rightarrow> 64 word) \<Rightarrow> (nat \<Rightarrow> string option) \<Rightarrow> lutmem \<times> search \<Rightarrow> lutmem \<times> search \<Rightarrow> bool" for A c where
  Generate: "LUTgenerateLut m = Inr (r, m') \<Longrightarrow> lut_step A c (m, x) (m', Closed)"
| Duplicate: "live (luts m) l \<Longrightarrow> LUTduplicateLut (Some l) m = Inr (r, m') \<Longrightarrow> lut_step A c (m, x) (m', Closed)"
| Insert_P: "live (luts m) l \<Longrightarrow> lut_room l m \<Longrightarrow> p \<noteq> PNull \<Longrightarrow>
    LUTinsertIntoLutP A (Some l) p v m = Inr (r, m') \<Longrightarrow> lut_step A c (m, x) (m', Closed)"
| Insert_S: "live (luts m) l \<Longrightarrow> lut_room l m \<Longrightarrow> c i = Some s \<Longrightarrow>
    LUTinsertIntoLutS (Some l) (PStr i) v m = Inr (r, m') \<Longrightarrow> lut_step A c (m, x) (m', Closed)"
| Update_P: "live (luts m) l \<Longrightarrow> lut_room l m \<Longrightarrow> p \<noteq> PNull \<Longrightarrow>
    LUTupdateLutP A (Some l) p v m = Inr (r, old, m') \<Longrightarrow> lut_step A c (m, x) (m', Closed)"
| Update_S: "live (luts m) l \<Longrightarrow> lut_room l m \<Longrightarrow> c i = Some s \<Longrightarrow>
    LUTupdateLutS (Some l) (PStr i) v m = Inr (r, old, m') \<Longrightarrow> lut_step A c (m, x) (m', Closed)"
| Search_P: "live (luts m) l \<Longrightarrow> p \<noteq> PNull \<Longrightarrow> LUTsearchInLutP A (Some l) p m = Inr (q, m') \<Longrightarrow>
    lut_step A c (m, x) (m', opened Open_P q)"
| Search_S: "live (luts m) l \<Longrightarrow> c i = Some s \<Longrightarrow> LUTsearchInLutS (Some l) (PStr i) m = Inr (q, m') \<Longrightarrow>
    lut_step A c (m, x) (m', opened Open_S q)"
| Next_P: "LUTsearchInLutNextP m = Inr (q, m') \<Longrightarrow> lut_step A c (m, Open_P) (m', opened Open_P q)"
| Next_S: "LUTsearchInLutNextS m = Inr (q, m') \<Longrightarrow> lut_step A c (m, Open_S) (m', opened Open_S q)"
| Search_Pp: "live (luts m) l \<Longrightarrow> p \<noteq> PNull \<Longrightarrow> LUTsearchInLutPp A (Some l) p m = Inr (v, m') \<Longrightarrow>
    lut_step A c (m, x) (m', Closed)"
| Search_Ss: "live (luts m) l \<Longrightarrow> c i = Some s \<Longrightarrow> LUTsearchInLutSs (Some l) (PStr i) m = Inr (v, m') \<Longrightarrow>
    lut_step A c (m, x) (m', Closed)"
| Map_P: "live (luts m) l \<Longrightarrow> LUTmapLutP (Some l) g m = Inr m' \<Longrightarrow> lut_step A c (m, x) (m', Closed)"
| Map_S: "live (luts m) l \<Longrightarrow> LUTmapLutS (Some l) g m = Inr m' \<Longrightarrow> lut_step A c (m, x) (m', Closed)"
| Clear: "live (luts m) l \<Longrightarrow> LUTremoveContentLut (Some l) m = Inr m' \<Longrightarrow> lut_step A c (m, x) (m', Closed)"
| Remove: "live (luts m) l \<Longrightarrow> LUTremoveLut (Some l) m = Inr (r, m') \<Longrightarrow> lut_step A c (m, x) (m', Closed)"

text \<open>The invariant of these steps.\<close>

definition lut_ok :: "(ptr \<Rightarrow> 64 word) \<Rightarrow> (nat \<Rightarrow> string option) \<Rightarrow> lutmem \<times> search \<Rightarrow> bool" where
  "lut_ok A c s = (case s of (m, x) \<Rightarrow>
     (\<exists>a. models A m a c) \<and> (x = Open_P \<longrightarrow> pk.in_search m) \<and> (x = Open_S \<longrightarrow> sk.in_search m))"

lemma lut_okI: "models A m a c \<Longrightarrow> lut_ok A c (m, Closed)"
  by (auto simp: lut_ok_def)

lemma lut_ok_opened:
  "models A m a c \<Longrightarrow> (p \<noteq> None \<Longrightarrow> pk.in_search m) \<Longrightarrow> lut_ok A c (m, opened Open_P p)"
  "models A m a c \<Longrightarrow> (p \<noteq> None \<Longrightarrow> sk.in_search m) \<Longrightarrow> lut_ok A c (m, opened Open_S p)"
  by (auto simp: lut_ok_def opened_def)

lemma lut_ok_models: "lut_ok A c (m, x) \<Longrightarrow> \<exists>a. models A m a c"
  by (simp add: lut_ok_def)

lemma models_frame:
  "models A m a c \<Longrightarrow> frags m' = frags m \<Longrightarrow> luts m' = luts m \<Longrightarrow> strings m' = strings m \<Longrightarrow> models A m' a c"
  by (simp add: models_def holds_def)

lemma models_live:
  assumes "models A m a c"
  shows "live (luts m) l \<longleftrightarrow> a l \<noteq> None"
proof -
  obtain T F where "lut_mem A (frags m) (strings m) (luts m) F T" "a = maps_of A (strings m) T"
    using assms by (auto simp: models_def holds_def)
  then show ?thesis using lut_memD(1) [of A _ _ "luts m" F T l] by (simp add: maps_of_def split: option.splits)
qed

lemma live_table:
  assumes "models A m a c" and "live (luts m) l"
  obtains f where "a l = Some f"
  using assms models_live [of A m a c l] by blast

lemma start_models:
  assumes "models A m a c" and "live (luts m) l"
  shows "p \<noteq> PNull \<Longrightarrow> \<exists>q m'. LUTsearchInLutP A (Some l) p m = Inr (q, m') \<and> (q \<noteq> None \<longrightarrow> pk.in_search m') \<and> models A m' a c"
    and "c i = Some s \<Longrightarrow> \<exists>q m'. LUTsearchInLutS (Some l) (PStr i) m = Inr (q, m') \<and> (q \<noteq> None \<longrightarrow> sk.in_search m') \<and> models A m' a c"
proof -
  obtain f where f: "a l = Some f" using live_table [OF assms] .
  obtain T t where T: "holds A m T" "T l = Some t" "c = caller_strings (strings m) T" using models_table [OF assms(1) f] .
  note keep = models_frame [OF assms(1)]
  show "\<exists>q m'. LUTsearchInLutP A (Some l) p m = Inr (q, m') \<and> (q \<noteq> None \<longrightarrow> pk.in_search m') \<and> models A m' a c" if p: "p \<noteq> PNull"
    using start_P [OF T(1,2) p] keep by blast
  show "\<exists>q m'. LUTsearchInLutS (Some l) (PStr i) m = Inr (q, m') \<and> (q \<noteq> None \<longrightarrow> sk.in_search m') \<and> models A m' a c" if c: "c i = Some s"
    using start_S [OF T(1,2), of "PStr i"] caller_string [OF T(3) c] keep by blast
qed

lemma value_models:
  assumes m: "models A m a c" and l: "live (luts m) l"
  shows "p \<noteq> PNull \<Longrightarrow> \<exists>v m'. LUTsearchInLutPp A (Some l) p m = Inr (v, m') \<and> models A m' a c"
    and "c i = Some s \<Longrightarrow> \<exists>v m'. LUTsearchInLutSs (Some l) (PStr i) m = Inr (v, m') \<and> models A m' a c"
proof -
  obtain f where f: "a l = Some f" using live_table [OF m l] .
  show "\<exists>v m'. LUTsearchInLutPp A (Some l) p m = Inr (v, m') \<and> models A m' a c" if "p \<noteq> PNull"
    using search_models(1) [OF m f that] found_or_ok [of "LUTsearchInLutP A (Some l) p m"] unfolding LUTsearchInLutPp_def by metis
  show "\<exists>v m'. LUTsearchInLutSs (Some l) (PStr i) m = Inr (v, m') \<and> models A m' a c" if "c i = Some s"
    using search_models(2) [OF m f that] found_or_ok [of "LUTsearchInLutS (Some l) (PStr i) m"]
    unfolding LUTsearchInLutSs_def LUTsearchInLutS_def [symmetric] by metis
qed

lemma map_models_any:
  assumes m: "models A m a c" and l: "live (luts m) l"
  shows "\<exists>m' a'. LUTmapLutP (Some l) g m = Inr m' \<and> models A m' a' c" and "\<exists>m' a'. LUTmapLutS (Some l) g m = Inr m' \<and> models A m' a' c"
proof -
  obtain f where f: "a l = Some f" using live_table [OF m l] .
  obtain T t where T: "holds A m T" "T l = Some t" "c = caller_strings (strings m) T" using models_table [OF m f] .
  show "\<exists>m' a'. LUTmapLutP (Some l) g m = Inr m' \<and> models A m' a' c" using map_models(1) [OF m f] by blast
  show "\<exists>m' a'. LUTmapLutS (Some l) g m = Inr m' \<and> models A m' a' c" using map_S_any [OF T(1,2)] T(3) by blast
qed

lemma fold_models:
  assumes m: "models A m a c" and l: "live (luts m) l"
  shows "\<exists>r. LUTfoldLutP (Some l) init fold_fun m = Inr r" and "\<exists>r. LUTfoldLutS (Some l) init fold_fun m = Inr r"
proof -
  obtain f where f: "a l = Some f" using live_table [OF m l] .
  obtain T t where T: "holds A m T" "T l = Some t" using models_table [OF m f] .
  show "\<exists>r. LUTfoldLutP (Some l) init fold_fun m = Inr r" using fold_P [OF T, of init fold_fun] by blast
  show "\<exists>r. LUTfoldLutS (Some l) init fold_fun m = Inr r" using fold_S [OF T, of init fold_fun] by blast
qed

lemma lut_step_ok:
  assumes "lut_step A c s s'" and ok: "lut_ok A c s"
  shows "lut_ok A c s'"
  using assms(1)
proof cases
  case (Generate m r m' x)
  then obtain a where "models A m a c" using ok lut_ok_models by blast
  from generate_models [OF this] Generate show ?thesis by (auto intro: lut_okI)
next
  case (Duplicate m l r m' x)
  then obtain a where m: "models A m a c" using ok lut_ok_models by blast
  obtain f where "a l = Some f" using live_table [OF m Duplicate(3)] .
  from duplicate_models [OF m this] Duplicate show ?thesis by (auto intro: lut_okI)
next
  case (Insert_P m l p v r m' x)
  then obtain a where m: "models A m a c" using ok lut_ok_models by blast
  obtain f where "a l = Some f" using live_table [OF m Insert_P(3)] .
  from insert_models(1) [OF m this Insert_P(4,5), of v] Insert_P show ?thesis by (auto intro: lut_okI)
next
  case (Insert_S m l i s v r m' x)
  then obtain a where m: "models A m a c" using ok lut_ok_models by blast
  obtain f where "a l = Some f" using live_table [OF m Insert_S(3)] .
  from insert_models(2) [OF m this Insert_S(4,5), of v] Insert_S show ?thesis by (auto intro: lut_okI)
next
  case (Update_P m l p v r old m' x)
  then obtain a where m: "models A m a c" using ok lut_ok_models by blast
  obtain f where "a l = Some f" using live_table [OF m Update_P(3)] .
  from update_models(1) [OF m this Update_P(4,5), of v] Update_P show ?thesis by (auto intro: lut_okI)
next
  case (Update_S m l i s v r old m' x)
  then obtain a where m: "models A m a c" using ok lut_ok_models by blast
  obtain f where "a l = Some f" using live_table [OF m Update_S(3)] .
  from update_models(2) [OF m this Update_S(4,5), of v] Update_S show ?thesis by (auto intro: lut_okI)
next
  case (Search_P m l p q m' x)
  then obtain a where m: "models A m a c" using ok lut_ok_models by blast
  from start_models(1) [OF m Search_P(3,4)] Search_P show ?thesis by (auto intro: lut_ok_opened(1) [of A _ a])
next
  case (Search_S m l i s q m' x)
  then obtain a where m: "models A m a c" using ok lut_ok_models by blast
  from start_models(2) [OF m Search_S(3,4)] Search_S show ?thesis by (auto intro: lut_ok_opened(2) [of A _ a])
next
  case (Next_P m q m')
  then obtain a where m: "models A m a c" using ok lut_ok_models by blast
  have "pk.in_search m" using ok Next_P(1) by (simp add: lut_ok_def)
  from continue_P [OF this] Next_P m show ?thesis by (auto intro!: lut_ok_opened(1) [of A _ a] intro: models_frame)
next
  case (Next_S m q m')
  then obtain a where m: "models A m a c" using ok lut_ok_models by blast
  have "sk.in_search m" using ok Next_S(1) by (simp add: lut_ok_def)
  from continue_S [OF this] Next_S m show ?thesis by (auto intro!: lut_ok_opened(2) [of A _ a] intro: models_frame)
next
  case (Search_Pp m l p v m' x)
  then obtain a where m: "models A m a c" using ok lut_ok_models by blast
  from value_models(1) [OF m Search_Pp(3,4)] Search_Pp show ?thesis by (auto intro: lut_okI)
next
  case (Search_Ss m l i s v m' x)
  then obtain a where m: "models A m a c" using ok lut_ok_models by blast
  from value_models(2) [OF m Search_Ss(3,4)] Search_Ss show ?thesis by (auto intro: lut_okI)
next
  case (Map_P m l g m' x)
  then obtain a where m: "models A m a c" using ok lut_ok_models by blast
  from map_models_any(1) [OF m Map_P(3), of g] Map_P show ?thesis by (auto intro: lut_okI)
next
  case (Map_S m l g m' x)
  then obtain a where m: "models A m a c" using ok lut_ok_models by blast
  from map_models_any(2) [OF m Map_S(3), of g] Map_S show ?thesis by (auto intro: lut_okI)
next
  case (Clear m l m' x)
  then obtain a where m: "models A m a c" using ok lut_ok_models by blast
  obtain f where "a l = Some f" using live_table [OF m Clear(3)] .
  from remove_models(1) [OF m this] Clear show ?thesis by (auto intro: lut_okI)
next
  case (Remove m l r m' x)
  then obtain a where m: "models A m a c" using ok lut_ok_models by blast
  obtain f where "a l = Some f" using live_table [OF m Remove(3)] .
  from remove_models(2) [OF m this] Remove show ?thesis by (auto intro: lut_okI)
qed

lemma lut_steps_ok: "(lut_step A c)\<^sup>*\<^sup>* s s' \<Longrightarrow> lut_ok A c s \<Longrightarrow> lut_ok A c s'"
  by (induction rule: rtranclp_induct) (blast intro: lut_step_ok)+

text \<open>Every call on the table \<open>l\<close> succeeds, and the loop over all values of a key ends.\<close>

definition lut_safe :: "(ptr \<Rightarrow> 64 word) \<Rightarrow> (nat \<Rightarrow> string option) \<Rightarrow> nat \<Rightarrow> lutmem \<Rightarrow> bool" where
  "lut_safe A c l m \<longleftrightarrow>
     (\<exists>r. LUTduplicateLut (Some l) m = Inr r) \<and> (\<exists>r. LUTremoveContentLut (Some l) m = Inr r)
   \<and> (\<exists>r. LUTremoveLut (Some l) m = Inr r) \<and> (\<exists>r. LUTisEmptyLut (Some l) m = Inr r)
   \<and> (\<forall>g. (\<exists>r. LUTmapLutP (Some l) g m = Inr r) \<and> (\<exists>r. LUTmapLutS (Some l) g m = Inr r))
   \<and> (\<forall>p. p \<noteq> PNull \<longrightarrow>
          (\<exists>q m' r. LUTsearchInLutP A (Some l) p m = Inr (q, m') \<and> all_values LUTsearchInLutNextP [] q m' = Some (Inr r))
        \<and> (\<exists>r. LUTsearchInLutPp A (Some l) p m = Inr r)
        \<and> (\<forall>v. lut_room l m \<longrightarrow> (\<exists>r. LUTinsertIntoLutP A (Some l) p v m = Inr r) \<and> (\<exists>r. LUTupdateLutP A (Some l) p v m = Inr r)))
   \<and> (\<forall>i s. c i = Some s \<longrightarrow>
          (\<exists>q m' r. LUTsearchInLutS (Some l) (PStr i) m = Inr (q, m') \<and> all_values LUTsearchInLutNextS [] q m' = Some (Inr r))
        \<and> (\<exists>r. LUTsearchInLutSs (Some l) (PStr i) m = Inr r)
        \<and> (\<forall>v. lut_room l m \<longrightarrow> (\<exists>r. LUTinsertIntoLutS (Some l) (PStr i) v m = Inr r)
             \<and> (\<exists>r. LUTupdateLutS (Some l) (PStr i) v m = Inr r)))"

lemma models_safe:
  assumes m: "models A m a c" and l: "live (luts m) l"
  shows "lut_safe A c l m"
proof -
  obtain f where f: "a l = Some f" using live_table [OF m l] .
  have 1: "\<exists>q m' r. LUTsearchInLutP A (Some l) p m = Inr (q, m') \<and> all_values LUTsearchInLutNextP [] q m' = Some (Inr r)"
    "\<exists>r. LUTsearchInLutPp A (Some l) p m = Inr r"
    if "p \<noteq> PNull" for p
    using search_models(1) [OF m f that] value_models(1) [OF m l that] by auto
  have 2: "\<exists>q m' r. LUTsearchInLutS (Some l) (PStr i) m = Inr (q, m') \<and> all_values LUTsearchInLutNextS [] q m' = Some (Inr r)"
    "\<exists>r. LUTsearchInLutSs (Some l) (PStr i) m = Inr r"
    if "c i = Some s" for i s
    using search_models(2) [OF m f that] value_models(2) [OF m l that] by auto
  have 3: "\<exists>r. LUTinsertIntoLutP A (Some l) p v m = Inr r" "\<exists>r. LUTupdateLutP A (Some l) p v m = Inr r"
    if "p \<noteq> PNull" "lut_room l m" for p v
    using insert_models(1) [OF m f that(2,1), of v] update_models(1) [OF m f that(2,1), of v] by auto
  have 4: "\<exists>r. LUTinsertIntoLutS (Some l) (PStr i) v m = Inr r" "\<exists>r. LUTupdateLutS (Some l) (PStr i) v m = Inr r"
    if "c i = Some s" "lut_room l m" for i s v
    using insert_models(2) [OF m f that(2,1), of v] update_models(2) [OF m f that(2,1), of v] by auto
  have 5: "\<exists>r. LUTduplicateLut (Some l) m = Inr r" "\<exists>r. LUTremoveContentLut (Some l) m = Inr r"
    "\<exists>r. LUTremoveLut (Some l) m = Inr r" "\<exists>r. LUTisEmptyLut (Some l) m = Inr r"
    using duplicate_models [OF m f] remove_models [OF m f] by auto
  have 6: "\<exists>r. LUTmapLutP (Some l) g m = Inr r" "\<exists>r. LUTmapLutS (Some l) g m = Inr r" for g
    using map_models_any [OF m l, of g] by auto
  show ?thesis unfolding lut_safe_def by (intro conjI allI impI 1 2 3 4 5 6; assumption)
qed

text \<open>
  C5: Starting without any table, after any sequence of calls on existing tables, with keys that are not \<open>NULL\<close> and strings of
  the callers, and in which a search is continued only directly after a call that has found a value, every further such call
  succeeds: no fragment, table or string is used that is not allocated or not initialised, nor freed twice.  (An insertion asks
  that no collision table of the table has \<open>INT_MAX\<close> pairs.)  When the last table has been removed, all fragments and all
  copies of strings have been freed, and the strings of the callers are as in the beginning.
\<close>

theorem LUT_sessions_safe:
  assumes "frags m0 = []" and "luts m0 = []" and "c = (\<lambda>i. if live (strings m0) i then strings m0 ! i else None)"
    and "(lut_step A c)\<^sup>*\<^sup>* (m0, Closed) (m, x)"
  shows "(\<exists>r. LUTgenerateLut m = Inr r) \<and> (\<forall>l. live (luts m) l \<longrightarrow> lut_safe A c l m
        \<and> (\<exists>r. LUTfoldLutP (Some l) init fold_fun m = Inr r) \<and> (\<exists>r. LUTfoldLutS (Some l) init fold_fun m = Inr r))
    \<and> (x = Open_P \<longrightarrow> (\<exists>r. LUTsearchInLutNextP m = Inr r)) \<and> (x = Open_S \<longrightarrow> (\<exists>r. LUTsearchInLutNextS m = Inr r))
    \<and> ((\<forall>l. \<not> live (luts m) l) \<longrightarrow> (\<forall>g. \<not> live (frags m) g)
        \<and> c = (\<lambda>i. if live (strings m) i then strings m ! i else None))"
proof -
  have "models A m0 (\<lambda>_. None) c" using models_empty [OF assms(1,2), of A] assms(3) by simp
  then have ok: "lut_ok A c (m, x)" using lut_steps_ok [OF assms(4)] lut_okI by blast
  then obtain a where a: "models A m a c" using lut_ok_models by blast
  have none: "\<not> live (frags m) g" "c i = (if live (strings m) i then strings m ! i else None)" if "\<forall>l. \<not> live (luts m) l" for g i
  proof -
    have "a = (\<lambda>_. None)" using models_live [OF a] that by auto
    then show "\<not> live (frags m) g" "c i = (if live (strings m) i then strings m ! i else None)"
      using models_nothing [of A m c] a by simp_all
  qed
  have freed: "(\<forall>l. \<not> live (luts m) l) \<longrightarrow> (\<forall>g. \<not> live (frags m) g)
      \<and> c = (\<lambda>i. if live (strings m) i then strings m ! i else None)"
  proof (intro impI conjI allI ext)
    assume "\<forall>l. \<not> live (luts m) l"
    then show "\<not> live (frags m) g" "c i = (if live (strings m) i then strings m ! i else None)" for g i using none by blast+
  qed
  have go: "x = Open_P \<longrightarrow> (\<exists>r. LUTsearchInLutNextP m = Inr r)" "x = Open_S \<longrightarrow> (\<exists>r. LUTsearchInLutNextS m = Inr r)"
    using ok continue_P [of m] continue_S [of m] by (auto simp: lut_ok_def)
  have new: "\<exists>r. LUTgenerateLut m = Inr r" using generate_models [OF a] by blast
  have safe: "\<forall>l. live (luts m) l \<longrightarrow> lut_safe A c l m
      \<and> (\<exists>r. LUTfoldLutP (Some l) init fold_fun m = Inr r) \<and> (\<exists>r. LUTfoldLutS (Some l) init fold_fun m = Inr r)"
    by (intro allI impI conjI models_safe [OF a] fold_models [OF a]; assumption)
  show ?thesis using new safe go freed by (intro conjI)
qed

text \<open>A table is made, a pair inserted, and the search for it has found it.\<close>

definition ex_found :: lutmem where
  "ex_found = result (LUTsearchInLutP ex_addr (Some 0) (PObj 3) ex_one)"

lemma ex_steps: "(lut_step ex_addr ex_strings)\<^sup>*\<^sup>* (ex_start, Closed) (ex_found, Open_P)"
proof -
  have "LUTgenerateLut ex_start = Inr (Some 0, ex_new)"
    "LUTinsertIntoLutP ex_addr (Some 0) (PObj 3) (PObj 7) ex_new = Inr (Some 0, ex_one)"
    "live (luts ex_new) 0" "live (luts ex_one) 0"
    by code_simp+
  then have "lut_step ex_addr ex_strings (ex_start, Closed) (ex_new, Closed)"
    "lut_step ex_addr ex_strings (ex_new, Closed) (ex_one, Closed)"
    using ex_room(1) by (auto intro: lut_step.intros)
  moreover have "LUTsearchInLutP ex_addr (Some 0) (PObj 3) ex_one = Inr (Some (3, 1), ex_found)" by code_simp
  then have "lut_step ex_addr ex_strings (ex_one, Closed) (ex_found, opened Open_P (Some (3, 1)))"
    using \<open>live (luts ex_one) 0\<close> by (auto intro: lut_step.Search_P)
  ultimately show ?thesis by (simp add: opened_def)
qed

theorem LUT_sessions_safe_witness:
  "lut_safe ex_addr ex_strings 0 ex_found \<and> (\<exists>r. LUTsearchInLutNextP ex_found = Inr r)"
proof -
  have "frags ex_start = []" "luts ex_start = []" by (simp_all add: ex_start_def)
  moreover have "ex_strings = (\<lambda>i. if live (strings ex_start) i then strings ex_start ! i else None)"
    by (auto simp: fun_eq_iff ex_start_def ex_strings_def live_def)
  moreover have "live (luts ex_found) 0" by code_simp
  ultimately show ?thesis using LUT_sessions_safe [OF _ _ _ ex_steps, of "()" "\<lambda>_ _ _. ()"] by simp
qed

end
