(* ===== verification/Shape.thy ===== *)
theory Shape
  imports Prelude
begin

text \<open>
  The abstract data type of shapes, \<open>src/libsac2c/constants/shape.c\<close>: the structure
  \<open>SHAPE\<close>, its accessors, and the operations of the file as the loops over the extent
  vector that the code runs.  \<open>sh xs\<close> is the fully initialised shape with the extents
  \<open>xs\<close>; the lemmas of the collection \<open>shape\<close> say what each operation computes on such
  shapes, so the other components reason about lists of extents only.

  A shape pointer is never \<open>NULL\<close> here (each function asserts it), except for
  \<open>SHserializeShape\<close>, which accepts \<open>NULL\<close>.  Dimensionalities and loop counters are
  unbounded integers; products of extents are checked for overflow.
\<close>

named_theorems shape \<open>the operations of shape.c on initialised shapes\<close>

record shape =
  SHAPE_DIM :: int
  SHAPE_ELEMS :: "int cvec"

definition SHAPE_EXT :: "shape \<Rightarrow> int \<Rightarrow> int cres" where
  "SHAPE_EXT s i = rd (SHAPE_ELEMS s) i"

definition set_SHAPE_EXT :: "shape \<Rightarrow> int \<Rightarrow> int \<Rightarrow> shape cres" where
  "set_SHAPE_EXT s i v = bindR (wr (SHAPE_ELEMS s) i v) (\<lambda>e. Inr (s\<lparr>SHAPE_ELEMS := e\<rparr>))"

subsection \<open>Creation, copying and access\<close>

definition SHmakeShape :: "int \<Rightarrow> shape cres" where
  "SHmakeShape dim = dbug_assert ''SHmakeShape'' (0 \<le> dim)
     (Inr \<lparr>SHAPE_DIM = dim, SHAPE_ELEMS = (if 0 < dim then allocv dim else [])\<rparr>)"

definition SHsetExtent :: "shape \<Rightarrow> int \<Rightarrow> int \<Rightarrow> shape cres" where
  "SHsetExtent shp dim val = dbug_assert ''SHsetExtent'' (SHAPE_DIM shp > dim \<and> 0 \<le> dim)
     (set_SHAPE_EXT shp dim val)"

text \<open>The variable arguments of \<open>SHcreateShape\<close> are a list, read in order.\<close>

definition SHcreateShape :: "int \<Rightarrow> int list \<Rightarrow> shape cres" where
  "SHcreateShape dim args =
     bindR (SHmakeShape dim) (\<lambda>result.
       if 0 < dim
       then cfor 0 dim (\<lambda>i result. bindR (rd (full args) i) (SHsetExtent result i)) result
       else Inr result)"

definition SHcopyShape :: "shape \<Rightarrow> shape cres" where
  "SHcopyShape shp =
     (let n = SHAPE_DIM shp in
      bindR (SHmakeShape n) (\<lambda>res.
        cfor 0 n (\<lambda>i res. bindR (SHAPE_EXT shp i) (set_SHAPE_EXT res i)) res))"

definition SHgetDim :: "shape \<Rightarrow> int" where
  "SHgetDim shp = SHAPE_DIM shp"

definition SHgetExtent :: "shape \<Rightarrow> int \<Rightarrow> int cres" where
  "SHgetExtent shp dim = dbug_assert ''SHgetExtent'' (SHAPE_DIM shp > dim \<and> 0 \<le> dim)
     (SHAPE_EXT shp dim)"

definition SHgetUnrLen :: "shape \<Rightarrow> int cres" where
  "SHgetUnrLen shp =
     cdown (SHAPE_DIM shp - 1) 0
       (\<lambda>i len. bindR (SHAPE_EXT shp i) (\<lambda>e. ck_llong (len * e))) 1"

function subarray_loop :: "shape \<Rightarrow> int \<Rightarrow> int \<Rightarrow> int \<Rightarrow> (int \<times> int) cres" where
  "subarray_loop shp n len i =
     (if len \<noteq> n \<and> i < SHAPE_DIM shp
      then bindR (SHAPE_EXT shp i) (\<lambda>e.
           bindR (ck_int (len * e)) (\<lambda>l. subarray_loop shp n l (i + 1)))
      else Inr (len, i))"
  by pat_completeness auto
termination
  by (relation "measure (\<lambda>(shp, n, len, i). nat (SHAPE_DIM shp - i))") auto

declare subarray_loop.simps [simp del]

definition SHsubarrayDim :: "shape \<Rightarrow> int \<Rightarrow> int cres" where
  "SHsubarrayDim shp n =
     bindR (subarray_loop shp n 1 0) (\<lambda>(len, i).
       dbug_assert ''SHsubarrayDim'' (len = n) (Inr (SHAPE_DIM shp - i)))"

subsection \<open>Comparison\<close>

definition SHcompareShapes :: "shape \<Rightarrow> shape \<Rightarrow> bool cres" where
  "SHcompareShapes a b =
     (if SHAPE_DIM a = SHAPE_DIM b
      then cfor 0 (SHAPE_DIM a) (\<lambda>i res.
             bindR (SHAPE_EXT a i) (\<lambda>x. bindR (SHAPE_EXT b i) (\<lambda>y.
               Inr (if x \<noteq> y then False else res)))) True
      else Inr False)"

definition SHcompareWithCArray :: "shape \<Rightarrow> int cvec \<Rightarrow> int \<Rightarrow> bool cres" where
  "SHcompareWithCArray shp shpdata dim =
     dbug_assert ''SHcompareWithCArray'' (dim = 0 \<or> shpdata \<noteq> [])
     (if dim = SHAPE_DIM shp
      then cfor 0 dim (\<lambda>i flag.
             bindR (SHAPE_EXT shp i) (\<lambda>x. bindR (rd shpdata i) (\<lambda>y.
               Inr (if x \<noteq> y then False else flag)))) True
      else Inr False)"

definition SHcompareWithArguments :: "shape \<Rightarrow> int \<Rightarrow> int list \<Rightarrow> bool cres" where
  "SHcompareWithArguments shp dim args =
     (if dim = SHAPE_DIM shp
      then cfor 0 dim (\<lambda>i flag.
             bindR (SHAPE_EXT shp i) (\<lambda>x. bindR (rd (full args) i) (\<lambda>y.
               Inr (if x \<noteq> y then False else flag)))) True
      else Inr False)"

subsection \<open>Append, drop and take\<close>

definition SHappendShapes :: "shape \<Rightarrow> shape \<Rightarrow> shape cres" where
  "SHappendShapes a b =
     (let m = SHAPE_DIM a; n = SHAPE_DIM b in
      bindR (SHmakeShape (m + n)) (\<lambda>res.
      bindR (cfor 0 m (\<lambda>i res. bindR (SHAPE_EXT a i) (set_SHAPE_EXT res i)) res) (\<lambda>res.
        cfor 0 n (\<lambda>j res. bindR (SHAPE_EXT b j) (set_SHAPE_EXT res (j + m))) res)))"

definition SHdropFromShape :: "int \<Rightarrow> shape \<Rightarrow> shape cres" where
  "SHdropFromShape n a =
     (let m = SHAPE_DIM a in
      dbug_assert ''SHdropFromShape'' (0 \<le> m - \<bar>n\<bar>)
      (if n < 0
       then bindR (SHmakeShape (m + n)) (\<lambda>res.
              cfor 0 (m + n) (\<lambda>i res. bindR (SHAPE_EXT a i) (set_SHAPE_EXT res i)) res)
       else bindR (SHmakeShape (m - n)) (\<lambda>res.
              cfor 0 (m - n) (\<lambda>i res. bindR (SHAPE_EXT a (i + n)) (set_SHAPE_EXT res i)) res)))"

definition SHtakeFromShape :: "int \<Rightarrow> shape \<Rightarrow> shape cres" where
  "SHtakeFromShape n a =
     (let m = SHAPE_DIM a in
      dbug_assert ''SHtakeFromShape'' (0 \<le> m - \<bar>n\<bar>)
      (if 0 < n
       then bindR (SHmakeShape n) (\<lambda>res.
              cfor 0 n (\<lambda>i res. bindR (SHAPE_EXT a i) (set_SHAPE_EXT res i)) res)
       else let n = n * -1 in
            bindR (SHmakeShape n) (\<lambda>res.
              cfor 0 n (\<lambda>i res. bindR (SHAPE_EXT a (i + m - n)) (set_SHAPE_EXT res i)) res)))"

definition SHshape2IntVec :: "shape \<Rightarrow> int cvec cres" where
  "SHshape2IntVec shp =
     (let n = SHAPE_DIM shp in
      if 0 < n
      then cfor 0 n (\<lambda>i int_vec. bindR (SHAPE_EXT shp i) (wr int_vec i)) (allocv n)
      else Inr [])"

subsection \<open>Text forms\<close>

text \<open>The conversions \<open>%d\<close> and \<open>%u\<close> of \<open>printf\<close>.\<close>

definition dec_digit :: "nat \<Rightarrow> char" where
  "dec_digit d = char_of (48 + d)"

fun show_nat :: "nat \<Rightarrow> string" where
  "show_nat n = (if n < 10 then [dec_digit n] else show_nat (n div 10) @ [dec_digit (n mod 10)])"

declare show_nat.simps [simp del]

definition show_int :: "int \<Rightarrow> string" where
  "show_int i = (if i < 0 then ''-'' @ show_nat (nat (- i)) else show_nat (nat i))"

text \<open>The text written to the output file.\<close>

definition SHprintShape :: "shape \<Rightarrow> string cres" where
  "SHprintShape shp =
     bindR (if 0 < SHAPE_DIM shp
            then bindR (SHAPE_EXT shp 0) (\<lambda>e. Inr (''[ '' @ '' '' @ show_int e))
            else Inr ''[ '') (\<lambda>out.
     bindR (cfor 1 (SHAPE_DIM shp) (\<lambda>i out.
              bindR (SHAPE_EXT shp i) (\<lambda>e. Inr (out @ '', '' @ show_int e))) out) (\<lambda>out.
       Inr (out @ '']'')))"

definition SHserializeShape :: "shape option \<Rightarrow> string cres" where
  "SHserializeShape p =
     (case p of
        None \<Rightarrow> Inr ''NULL''
      | Some shp \<Rightarrow>
          bindR (cfor 0 (SHAPE_DIM shp) (\<lambda>cnt out.
                   bindR (SHAPE_EXT shp cnt) (\<lambda>e. Inr (out @ '', '' @ show_int e)))
                 (''SHcreateShape( '' @ show_int (SHAPE_DIM shp))) (\<lambda>out.
            Inr (out @ '')'')))"

definition SHshape2String :: "nat \<Rightarrow> shape \<Rightarrow> string cres" where
  "SHshape2String dots shp =
     bindR (cfor 0 (int dots) (\<lambda>i buf.
              Inr (if i = 0 then buf @ ''.'' else buf @ '',.'')) ''['') (\<lambda>buf.
     let n = SHAPE_DIM shp in
     bindR (cfor 0 n (\<lambda>j buf.
              let i = int dots + j in
              bindR (SHAPE_EXT shp i) (\<lambda>e.
                Inr (if i = 0 then buf @ show_int e else buf @ '','' @ show_int e))) buf) (\<lambda>buf.
       Inr (buf @ '']'')))"

subsection \<open>Initialised shapes\<close>

definition sh :: "int list \<Rightarrow> shape" where
  "sh xs = \<lparr>SHAPE_DIM = int (length xs), SHAPE_ELEMS = full xs\<rparr>"

lemma sh_sel [simp]: "SHAPE_DIM (sh xs) = int (length xs)" "SHAPE_ELEMS (sh xs) = full xs"
  by (simp_all add: sh_def)

lemma sh_inj [simp]: "sh xs = sh ys \<longleftrightarrow> xs = ys"
  by (auto simp: sh_def)

lemma SHmakeShape_neg: "dim < 0 \<Longrightarrow> SHmakeShape dim = Inl (AssertFail ''SHmakeShape'')"
  by (simp add: SHmakeShape_def)

lemma SHmakeShape_len:
  "SHmakeShape (int n) = Inr \<lparr>SHAPE_DIM = int n, SHAPE_ELEMS = replicate n None\<rparr>"
  by (simp add: SHmakeShape_def allocv_def)

lemma SHmakeShape_0 [shape]: "SHmakeShape 0 = Inr (sh [])"
  by (simp add: SHmakeShape_def sh_def)

lemma SHAPE_EXT_sh [shape]:
  "0 \<le> i \<Longrightarrow> i < int (length xs) \<Longrightarrow> SHAPE_EXT (sh xs) i = Inr (xs ! nat i)"
  by (simp add: SHAPE_EXT_def rd_full)

lemma SHgetExtent_sh [shape]:
  "0 \<le> i \<Longrightarrow> i < int (length xs) \<Longrightarrow> SHgetExtent (sh xs) i = Inr (xs ! nat i)"
  by (simp add: SHgetExtent_def SHAPE_EXT_sh)

lemma SHgetDim_sh [shape]: "SHgetDim (sh xs) = int (length xs)"
  by (simp add: SHgetDim_def)

lemma SHsetExtent_sh [shape]:
  "0 \<le> i \<Longrightarrow> i < int (length xs) \<Longrightarrow> SHsetExtent (sh xs) i v = Inr (sh (xs[nat i := v]))"
  by (simp add: SHsetExtent_def set_SHAPE_EXT_def wr_full sh_def)

lemma set_SHAPE_EXT_eq:
  "set_SHAPE_EXT \<lparr>SHAPE_DIM = d, SHAPE_ELEMS = v\<rparr> i x
   = bindR (wr v i x) (\<lambda>w. Inr \<lparr>SHAPE_DIM = d, SHAPE_ELEMS = w\<rparr>)"
  by (simp add: set_SHAPE_EXT_def)

text \<open>Copying extents into a shape under construction.\<close>

lemma shape_copy_loop:
  assumes "s + n \<le> length xs" and "d + n \<le> length dst"
  shows "cfor 0 (int n)
           (\<lambda>i r. bindR (rd (full xs) (i + int s)) (set_SHAPE_EXT r (i + int d)))
           \<lparr>SHAPE_DIM = D, SHAPE_ELEMS = dst\<rparr>
         = Inr \<lparr>SHAPE_DIM = D, SHAPE_ELEMS = blit dst d (take n (drop s xs))\<rparr>"
proof -
  let ?f = "\<lambda>i v. bindR (rd (full xs) (i + int s)) (wr v (i + int d))"
  let ?f' = "\<lambda>i r. bindR (rd (full xs) (i + int s)) (set_SHAPE_EXT r (i + int d))"
  let ?g = "\<lambda>v. \<lparr>SHAPE_DIM = D, SHAPE_ELEMS = v\<rparr>"
  have "cfor 0 (int n) ?f' (?g dst) = bindR (cfor 0 (int n) ?f dst) (\<lambda>v. Inr (?g v))"
    by (rule cfor_map) (simp add: set_SHAPE_EXT_def bindR_def split: sum.split)
  with copy_loop [OF assms] show ?thesis by simp
qed

lemmas shape_copy_loop0 = shape_copy_loop [where s = 0 and d = 0, simplified]
  and shape_copy_loop_s = shape_copy_loop [where d = 0, simplified]
  and shape_copy_loop_d = shape_copy_loop [where s = 0, simplified]

lemma SHcopyShape_sh [shape]: "SHcopyShape (sh xs) = Inr (sh xs)"
  using shape_copy_loop0 [of "length xs" xs "replicate (length xs) None" "int (length xs)"]
  by (simp add: SHcopyShape_def Let_def SHmakeShape_len SHAPE_EXT_def sh_def)

lemma SHappendShapes_sh [shape]: "SHappendShapes (sh xs) (sh ys) = Inr (sh (xs @ ys))"
proof -
  let ?N = "replicate (length xs + length ys) None"
  let ?D = "int (length xs + length ys)"
  have "SHmakeShape (int (length xs) + int (length ys))
      = Inr \<lparr>SHAPE_DIM = ?D, SHAPE_ELEMS = ?N\<rparr>"
    using SHmakeShape_len [of "length xs + length ys"] by simp
  moreover have "blit (blit ?N 0 xs) (length xs) ys = full (xs @ ys)"
    by (simp add: blit_def)
  ultimately show ?thesis
    using shape_copy_loop0 [of "length xs" xs ?N ?D]
      shape_copy_loop_d [of "length ys" ys "length xs" "blit ?N 0 xs" ?D]
    by (simp add: SHappendShapes_def Let_def SHAPE_EXT_def sh_def length_blit)
qed

lemma SHdropFromShape_sh [shape]:
  assumes "0 \<le> n" and "n \<le> int (length xs)"
  shows "SHdropFromShape n (sh xs) = Inr (sh (drop (nat n) xs))"
proof -
  obtain k where k: "n = int k" "k \<le> length xs" using assms by (metis nonneg_int_cases of_nat_le_iff)
  then show ?thesis
    using shape_copy_loop_s [of k "length xs - k" xs "replicate (length xs - k) None"
        "int (length xs - k)"] SHmakeShape_len [of "length xs - k"]
    by (simp add: SHdropFromShape_def Let_def SHAPE_EXT_def sh_def of_nat_diff)
qed

lemma SHdropFromShape_neg_sh [shape]:
  assumes "n < 0" and "- n \<le> int (length xs)"
  shows "SHdropFromShape n (sh xs) = Inr (sh (take (length xs - nat (- n)) xs))"
proof -
  obtain k where k: "n = - int k" "k \<le> length xs" "0 < k"
    using assms by (metis int_nat_eq nat_le_iff neg_0_less_iff_less minus_minus order_less_imp_le zero_less_nat_eq)
  then show ?thesis
    using shape_copy_loop0 [of "length xs - k" xs "replicate (length xs - k) None"
        "int (length xs - k)"] SHmakeShape_len [of "length xs - k"]
    by (simp add: SHdropFromShape_def Let_def SHAPE_EXT_def sh_def of_nat_diff)
qed

lemma SHtakeFromShape_sh [shape]:
  assumes "0 \<le> n" and "n \<le> int (length xs)"
  shows "SHtakeFromShape n (sh xs) = Inr (sh (take (nat n) xs))"
proof (cases "n = 0")
  case True
  then show ?thesis
    using SHmakeShape_len [of 0] by (simp add: SHtakeFromShape_def Let_def sh_def)
next
  case False
  obtain k where k: "n = int k" "k \<le> length xs" using assms by (metis nonneg_int_cases of_nat_le_iff)
  with False show ?thesis
    using shape_copy_loop0 [of k xs "replicate k None" "int k"] SHmakeShape_len [of k]
    by (simp add: SHtakeFromShape_def Let_def SHAPE_EXT_def sh_def)
qed

lemma SHtakeFromShape_neg_sh [shape]:
  assumes "n < 0" and "- n \<le> int (length xs)"
  shows "SHtakeFromShape n (sh xs) = Inr (sh (drop (length xs - nat (- n)) xs))"
proof -
  obtain k where k: "n = - int k" "k \<le> length xs" "0 < k"
    using assms by (metis int_nat_eq nat_le_iff neg_0_less_iff_less minus_minus order_less_imp_le zero_less_nat_eq)
  from k show ?thesis
    using shape_copy_loop_s [of "length xs - k" k xs "replicate k None" "int k"]
      SHmakeShape_len [of k]
    by (simp add: SHtakeFromShape_def Let_def SHAPE_EXT_def sh_def of_nat_diff algebra_simps)
qed

subsection \<open>Products of extents\<close>

text \<open>
  \<open>shape_fits xs\<close>: the extents are not negative and no product of some of them exceeds
  the largest \<open>int\<close>; then no length computed from them overflows.
\<close>

definition shape_fits :: "int list \<Rightarrow> bool" where
  "shape_fits xs \<longleftrightarrow> (\<forall>x\<in>set xs. 0 \<le> x) \<and> prod_list (map (max 1) xs) \<le> int_max"

lemma prod_max1_ge1: "1 \<le> prod_list (map (max 1) xs)" for xs :: "int list"
proof (induction xs)
  case (Cons a xs)
  then have "1 * 1 \<le> max 1 a * prod_list (map (max 1) xs)" by (intro mult_mono) auto
  then show ?case by simp
qed simp

lemma prod_list_nonneg: "(\<forall>x\<in>set xs. 0 \<le> x) \<Longrightarrow> 0 \<le> prod_list xs" for xs :: "int list"
  by (induction xs) auto

lemma prod_list_pos: "(\<forall>x\<in>set xs. 0 < x) \<Longrightarrow> 0 < prod_list xs" for xs :: "int list"
  by (induction xs) auto

lemma prod_le_max1: "(\<forall>x\<in>set xs. 0 \<le> x) \<Longrightarrow> prod_list xs \<le> prod_list (map (max 1) xs)"
  for xs :: "int list"
  by (induction xs) (auto intro!: mult_mono prod_list_nonneg)

lemma shape_fits_append: "shape_fits (xs @ ys) \<Longrightarrow> shape_fits xs \<and> shape_fits ys"
proof -
  assume a: "shape_fits (xs @ ys)"
  let ?P = "\<lambda>zs. prod_list (map (max (1::int)) zs)"
  have "?P xs * 1 \<le> ?P xs * ?P ys" "1 * ?P ys \<le> ?P xs * ?P ys"
    using prod_max1_ge1 [of xs] prod_max1_ge1 [of ys] by (intro mult_mono; linarith)+
  with a show ?thesis by (auto simp: shape_fits_def)
qed

lemma shape_fits_Nil [simp]: "shape_fits []"
  by (simp add: shape_fits_def int_max_def)

lemma shape_fits_take [simp]: "shape_fits xs \<Longrightarrow> shape_fits (take n xs)"
  using shape_fits_append [of "take n xs" "drop n xs"] by simp

lemma shape_fits_drop [simp]: "shape_fits xs \<Longrightarrow> shape_fits (drop n xs)"
  using shape_fits_append [of "take n xs" "drop n xs"] by simp

lemma shape_fits_nonneg: "shape_fits xs \<Longrightarrow> x \<in> set xs \<Longrightarrow> 0 \<le> x"
  by (simp add: shape_fits_def)

lemma shape_fits_nth_nonneg: "shape_fits xs \<Longrightarrow> n < length xs \<Longrightarrow> 0 \<le> xs ! n"
  by (simp add: shape_fits_def)

lemma shape_fits_prod:
  assumes "shape_fits xs" shows "0 \<le> prod_list xs" and "prod_list xs \<le> int_max"
  using assms prod_le_max1 [of xs] prod_list_nonneg [of xs] by (auto simp: shape_fits_def)

lemma shape_fits_pos:
  assumes "\<forall>x\<in>set xs. 0 < x" and "prod_list xs \<le> int_max" shows "shape_fits xs"
proof -
  have "map (max 1) xs = xs" using assms(1) by (intro map_idI) auto
  with assms show ?thesis by (auto simp: shape_fits_def intro: order_less_imp_le)
qed

lemma SHgetUnrLen_sh [shape]:
  assumes "shape_fits xs" shows "SHgetUnrLen (sh xs) = Inr (prod_list xs)"
proof -
  let ?f = "\<lambda>i len. bindR (SHAPE_EXT (sh xs) i) (\<lambda>e. ck_llong (len * e))"
  let ?g = "\<lambda>j. prod_list (drop (nat j) xs)"
  have "?f j (?g (j + 1)) = Inr (?g j)" if j: "0 \<le> j" "j \<le> int (length xs) - 1" for j
  proof -
    have "nat j < length xs" using j by linarith
    then have "drop (nat j) xs = xs ! nat j # drop (nat (j + 1)) xs"
      using j by (simp add: Cons_nth_drop_Suc nat_add_distrib)
    then have "?g (j + 1) * xs ! nat j = ?g j" by (simp add: mult.commute)
    with j shape_fits_prod [OF shape_fits_drop [OF assms], of "nat j"] show ?thesis
      by (simp add: SHAPE_EXT_sh ck_llong_ok)
  qed
  from cdown_traj [of 0 "int (length xs) - 1" ?f ?g, OF _ this] show ?thesis
    by (simp add: SHgetUnrLen_def)
qed

subsection \<open>Comparison and conversion\<close>

text \<open>The loop all three comparisons share.\<close>

lemma cmp_loop:
  assumes "n \<le> length xs" and "n \<le> length ys"
  shows "cfor 0 (int n) (\<lambda>i res. bindR (rd (full xs) i) (\<lambda>x. bindR (rd (full ys) i) (\<lambda>y.
           Inr (if x \<noteq> y then False else res)))) True = Inr (take n xs = take n ys)"
proof -
  let ?f = "\<lambda>i res. bindR (rd (full xs) i) (\<lambda>x. bindR (rd (full ys) i) (\<lambda>y.
           Inr (if x \<noteq> y then False else res)))"
  let ?g = "\<lambda>j. take (nat j) xs = take (nat j) ys"
  have "?f j (?g j) = Inr (?g (j + 1))" if j: "0 \<le> j" "j < int n" for j
  proof -
    obtain k where "j = int k" "k < n" using j by (metis nonneg_int_cases of_nat_less_iff)
    with assms show ?thesis
      by (auto simp: rd_full nat_add_distrib take_Suc_conv_app_nth)
  qed
  from cfor_traj [of 0 "int n" ?f ?g, OF _ this] show ?thesis by simp
qed

lemma SHcompareShapes_sh [shape]: "SHcompareShapes (sh xs) (sh ys) = Inr (xs = ys)"
  using cmp_loop [of "length xs" xs ys] by (auto simp: SHcompareShapes_def SHAPE_EXT_def)

lemma SHcompareWithCArray_sh [shape]:
  "SHcompareWithCArray (sh xs) (full ys) (int (length ys)) = Inr (xs = ys)"
  using cmp_loop [of "length ys" xs ys] by (auto simp: SHcompareWithCArray_def SHAPE_EXT_def)

lemma SHcompareWithArguments_sh [shape]:
  "SHcompareWithArguments (sh xs) (int (length ys)) ys = Inr (xs = ys)"
  using cmp_loop [of "length ys" xs ys] by (auto simp: SHcompareWithArguments_def SHAPE_EXT_def)

lemma SHshape2IntVec_sh [shape]: "SHshape2IntVec (sh xs) = Inr (full xs)"
  using copy_loop0 [of "length xs" xs "replicate (length xs) None"]
  by (simp add: SHshape2IntVec_def SHAPE_EXT_def allocv_def Let_def)

lemma SHcreateShape_sh [shape]: "SHcreateShape (int (length xs)) xs = Inr (sh xs)"
proof -
  let ?D = "int (length xs)"
  let ?f = "\<lambda>i r. bindR (rd (full xs) i) (SHsetExtent r i)"
  let ?h = "\<lambda>i r. bindR (rd (full xs) i) (set_SHAPE_EXT r i)"
  let ?g = "\<lambda>v. \<lparr>SHAPE_DIM = ?D, SHAPE_ELEMS = v\<rparr>"
  let ?N = "replicate (length xs) None"
  have "cfor 0 ?D ?f (?g ?N) = bindR (cfor 0 ?D (\<lambda>i. \<lambda>v. bindR (rd (full xs) i) (wr v i)) ?N)
          (\<lambda>v. Inr (?g v))"
    by (rule cfor_map)
      (simp add: SHsetExtent_def set_SHAPE_EXT_def bindR_def split: sum.split)
  with copy_loop0 [of "length xs" xs ?N] show ?thesis
    by (auto simp: SHcreateShape_def SHmakeShape_len sh_def)
qed

lemma SHdropFromShape_oob [shape]:
  "int (length xs) < \<bar>n\<bar> \<Longrightarrow> SHdropFromShape n (sh xs) = Inl (AssertFail ''SHdropFromShape'')"
  by (simp add: SHdropFromShape_def Let_def)

lemma SHtakeFromShape_oob [shape]:
  "int (length xs) < \<bar>n\<bar> \<Longrightarrow> SHtakeFromShape n (sh xs) = Inl (AssertFail ''SHtakeFromShape'')"
  by (simp add: SHtakeFromShape_def Let_def)

text \<open>
  \<open>SHsubarrayDim\<close> finds the number of inner axes left when the outer ones hold \<open>n\<close>
  elements, for shapes whose extents are all larger than one up to that axis.
\<close>

lemma subarray_loop_found:
  assumes "shape_fits xs" and "k \<le> length xs" and "i \<le> k"
    and "\<forall>j. i \<le> j \<and> j < k \<longrightarrow> prod_list (take j xs) \<noteq> prod_list (take k xs)"
  shows "subarray_loop (sh xs) (prod_list (take k xs)) (prod_list (take i xs)) (int i)
         = Inr (prod_list (take k xs), int k)"
  using assms(2-)
proof (induction "k - i" arbitrary: i)
  case 0
  then show ?case by (subst subarray_loop.simps) simp
next
  case (Suc m)
  then have i: "i < k" "i < length xs" by linarith+
  have "take (Suc i) xs = take i xs @ [xs ! i]" using i by (simp add: take_Suc_conv_app_nth)
  then have p: "prod_list (take i xs) * xs ! i = prod_list (take (Suc i) xs)" by simp
  have "ck_int (prod_list (take (Suc i) xs)) = Inr (prod_list (take (Suc i) xs))"
    using shape_fits_prod [OF shape_fits_take [OF assms(1)]] by (intro ck_int_ok)
  moreover have "subarray_loop (sh xs) (prod_list (take k xs)) (prod_list (take (Suc i) xs))
      (int (Suc i)) = Inr (prod_list (take k xs), int k)"
    using Suc.hyps(2) Suc.prems i by (intro Suc.hyps(1)) auto
  moreover have "prod_list (take i xs) \<noteq> prod_list (take k xs)" using Suc.prems(3) i by auto
  ultimately show ?case
    using i p by (subst subarray_loop.simps) (simp add: SHAPE_EXT_sh add.commute)
qed

lemma SHsubarrayDim_sh [shape]:
  assumes "shape_fits xs" and "k \<le> length xs"
    and "\<forall>j<k. prod_list (take j xs) \<noteq> prod_list (take k xs)"
  shows "SHsubarrayDim (sh xs) (prod_list (take k xs)) = Inr (int (length xs - k))"
  using subarray_loop_found [of xs k 0] assms by (simp add: SHsubarrayDim_def of_nat_diff)

subsection \<open>Printing\<close>

text \<open>The decimal numerals of a list, separated by commas.\<close>

fun comma_list :: "int list \<Rightarrow> string" where
  "comma_list [] = []"
| "comma_list [x] = show_int x"
| "comma_list (x # y # xs) = show_int x @ '','' @ comma_list (y # xs)"

lemma comma_list_snoc:
  "comma_list (xs @ [x]) = (if xs = [] then show_int x else comma_list xs @ '','' @ show_int x)"
  by (induction xs rule: comma_list.induct) auto

lemma dots_loop:
  "\<exists>buf. cfor 0 (int dots) (\<lambda>i buf. Inr (if i = 0 then buf @ ''.'' else buf @ '',.'')) ''['' = Inr buf"
  for dots :: nat
proof -
  have "\<exists>t. cfor 0 (int dots) (\<lambda>i buf. Inr (if i = 0 then buf @ ''.'' else buf @ '',.'')) ''['' = Inr t \<and> True"
    by (rule cfor_inv [where P = "\<lambda>_ _. True"]) auto
  then show ?thesis by blast
qed

subsection \<open>Properties\<close>

text \<open>
  \<open>SHtakeFromShape\<close> and \<open>SHdropFromShape\<close> split a shape for positive and for negative counts, and
  \<open>SHappendShapes\<close> puts the parts together again; with a count that exceeds the
  dimensionality both abort.
\<close>

theorem take_drop_append_shape:
  "(\<bar>n\<bar> \<le> int (length xs) \<longrightarrow>
      (\<exists>a b. (if 0 \<le> n then SHtakeFromShape n (sh xs) = Inr a \<and> SHdropFromShape n (sh xs) = Inr b
              else SHdropFromShape n (sh xs) = Inr a \<and> SHtakeFromShape n (sh xs) = Inr b)
         \<and> SHgetDim (if 0 \<le> n then a else b) = \<bar>n\<bar>
         \<and> SHappendShapes a b = Inr (sh xs)))
   \<and> (int (length xs) < \<bar>n\<bar> \<longrightarrow>
        SHtakeFromShape n (sh xs) = Inl (AssertFail ''SHtakeFromShape'')
        \<and> SHdropFromShape n (sh xs) = Inl (AssertFail ''SHdropFromShape''))"
proof (cases "0 \<le> n")
  case True
  then show ?thesis by (auto simp: shape)
next
  case False
  then show ?thesis by (auto simp: shape)
qed

lemma take_drop_append_shape_witness:
  "\<exists>a b. SHdropFromShape (- 1) (sh [2, 3, 4]) = Inr a \<and> SHtakeFromShape (- 1) (sh [2, 3, 4]) = Inr b
     \<and> SHappendShapes a b = Inr (sh [2, 3, 4])"
  using take_drop_append_shape [of "- 1" "[2, 3, 4]"] by auto

text \<open>
  The element count of two appended shapes is the product of their element counts, whenever the
  appended shape fits; in particular no step of the three computations overflows.
\<close>

theorem SHgetUnrLen_append:
  assumes "shape_fits (xs @ ys)"
  shows "\<exists>ab l m. SHappendShapes (sh xs) (sh ys) = Inr ab \<and> SHgetUnrLen (sh xs) = Inr l
     \<and> SHgetUnrLen (sh ys) = Inr m \<and> SHgetUnrLen ab = Inr (l * m)"
  using shape_fits_append [OF assms] assms by (simp add: shape)

lemma SHgetUnrLen_append_witness:
  "\<exists>ab l m. SHappendShapes (sh [2, 0]) (sh [5]) = Inr ab \<and> SHgetUnrLen (sh [2, 0]) = Inr l
     \<and> SHgetUnrLen (sh [5]) = Inr m \<and> SHgetUnrLen ab = Inr (l * m)"
  using SHgetUnrLen_append [of "[2, 0]" "[5]"] by (simp add: shape_fits_def int_max_def)

text \<open>
  \<open>SHshape2String\<close> without dots prints the extents between brackets, separated by commas; with at least one dot
  it reads past the end of the extents of every shape that is not a scalar: its second loop
  uses the counter that the dots have already advanced as the index of the extent.
\<close>

theorem SHshape2String_dots:
  "SHshape2String 0 (sh xs) = Inr (''['' @ comma_list xs @ '']'')
   \<and> (0 < dots \<and> xs \<noteq> [] \<longrightarrow> SHshape2String dots (sh xs) = Inl OutOfBounds)"
proof (intro conjI impI)
  let ?f = "\<lambda>i buf. bindR (SHAPE_EXT (sh xs) i) (\<lambda>e.
              Inr (if i = 0 then buf @ show_int e else buf @ '','' @ show_int e))"
  let ?g = "\<lambda>j. ''['' @ comma_list (take (nat j) xs)"
  have "?f j (?g j) = Inr (?g (j + 1))" if j: "0 \<le> j" "j < int (length xs)" for j
  proof -
    obtain k where "j = int k" "k < length xs" using j by (metis nonneg_int_cases of_nat_less_iff)
    then show ?thesis
      by (auto simp: SHAPE_EXT_sh nat_add_distrib take_Suc_conv_app_nth comma_list_snoc)
  qed
  from cfor_traj [of 0 "int (length xs)" ?f ?g, OF _ this]
  show "SHshape2String 0 (sh xs) = Inr (''['' @ comma_list xs @ '']'')"
    by (simp add: SHshape2String_def Let_def)
next
  assume "0 < dots \<and> xs \<noteq> []"
  then have d: "0 < dots" and xs: "xs \<noteq> []" by auto
  obtain buf where buf: "cfor 0 (int dots) (\<lambda>i buf. Inr (if i = 0 then buf @ ''.'' else buf @ '',.''))
      ''['' = (Inr buf :: string cres)" using dots_loop by blast
  let ?f = "\<lambda>j buf. bindR (SHAPE_EXT (sh xs) (int dots + j)) (\<lambda>e.
              Inr (if int dots + j = 0 then buf @ show_int e else buf @ '','' @ show_int e))"
  let ?k = "max 0 (int (length xs) - int dots)"
  have "cfor 0 (int (length xs)) ?f buf = Inl OutOfBounds"
  proof (rule cfor_error [where k = ?k])
    show "\<exists>t. ?f j s = Inr t" if "0 \<le> j" "j < ?k" for j s
      using that by (simp add: SHAPE_EXT_sh)
    show "?f ?k s = Inl OutOfBounds" for s
    proof -
      have "SHAPE_EXT (sh xs) (int dots + ?k) = Inl OutOfBounds"
        unfolding SHAPE_EXT_def sh_sel by (rule rd_oob) auto
      then show ?thesis by simp
    qed
  qed (use xs d in auto)
  with buf show "SHshape2String dots (sh xs) = Inl OutOfBounds"
    by (simp add: SHshape2String_def Let_def)
qed

lemma SHshape2String_dots_witness:
  "SHshape2String 2 (sh [7, 8]) = Inl OutOfBounds"
  using SHshape2String_dots [of "[7, 8]" 2] by simp

end
