(* ===== verification/Simpletypes.thy ===== *)
theory Simpletypes
  imports Prelude
begin

text \<open>
  The base types of the compiler and the per-type tables generated from
  \<open>src/include/type_info.mac\<close>: the enumeration \<open>simpletype\<close>, the sizes
  (\<open>global.basetype_size\<close>), and which overload of the element copiers (\<open>cv2cv\<close>), of the
  element operations (\<open>zipcv\<close>) and of the base constants (\<open>basecv\<close>) each type selects.
  The sizes are those of the LP64 targets.
\<close>

datatype simpletype =
    T_unknown | T_byte | T_short | T_int | T_long | T_longlong | T_ubyte | T_ushort | T_uint
    | T_ulong | T_ulonglong | T_float | T_floatvec | T_double | T_longdbl | T_bool | T_str
    | T_char | T_hidden | T_classtype | T_void | T_dots | T_user | T_bool_dev | T_int_dev
    | T_long_dev | T_longlong_dev | T_float_dev | T_double_dev | T_bool_shmem | T_int_shmem
    | T_long_shmem | T_longlong_shmem | T_float_shmem | T_double_shmem | T_bool_dist
    | T_int_dist | T_long_dist | T_longlong_dist | T_float_dist | T_double_dist | T_sync
    | T_rc | T_nothing

text \<open>The overloads the tables name: the suffixes of the generated C functions.\<close>

datatype cv_ext =
    EByte | EShort | EInt | ELong | ELongLong | EUByte | EUShort | EUInt | EULong
  | EULongLong | EFloat | EFloatvec | EDouble | ELongDouble | EBool | EChar | EHidden
  | EDummy

fun basetype_size :: "simpletype \<Rightarrow> nat" where
  "basetype_size T_byte = 1"
| "basetype_size T_short = 2"
| "basetype_size T_int = 4"
| "basetype_size T_long = 8"
| "basetype_size T_longlong = 8"
| "basetype_size T_ubyte = 1"
| "basetype_size T_ushort = 2"
| "basetype_size T_uint = 4"
| "basetype_size T_ulong = 8"
| "basetype_size T_ulonglong = 8"
| "basetype_size T_float = 4"
| "basetype_size T_floatvec = 16"
| "basetype_size T_double = 8"
| "basetype_size T_longdbl = 16"
| "basetype_size T_bool = 1"
| "basetype_size T_str = 8"
| "basetype_size T_char = 1"
| "basetype_size T_hidden = 8"
| "basetype_size T_classtype = 8"
| "basetype_size T_bool_dev = 1"
| "basetype_size T_int_dev = 4"
| "basetype_size T_long_dev = 8"
| "basetype_size T_longlong_dev = 8"
| "basetype_size T_float_dev = 4"
| "basetype_size T_double_dev = 8"
| "basetype_size T_bool_shmem = 1"
| "basetype_size T_int_shmem = 4"
| "basetype_size T_long_shmem = 8"
| "basetype_size T_longlong_shmem = 8"
| "basetype_size T_float_shmem = 4"
| "basetype_size T_double_shmem = 8"
| "basetype_size T_bool_dist = 1"
| "basetype_size T_int_dist = 4"
| "basetype_size T_long_dist = 8"
| "basetype_size T_longlong_dist = 8"
| "basetype_size T_float_dist = 4"
| "basetype_size T_double_dist = 8"
| "basetype_size T_sync = 8"
| "basetype_size _ = 0"

fun cv2cv_ext :: "simpletype \<Rightarrow> cv_ext" where
  "cv2cv_ext T_byte = EByte"
| "cv2cv_ext T_short = EShort"
| "cv2cv_ext T_int = EInt"
| "cv2cv_ext T_long = ELong"
| "cv2cv_ext T_longlong = ELongLong"
| "cv2cv_ext T_ubyte = EUByte"
| "cv2cv_ext T_ushort = EUShort"
| "cv2cv_ext T_uint = EUInt"
| "cv2cv_ext T_ulong = EULong"
| "cv2cv_ext T_ulonglong = EULongLong"
| "cv2cv_ext T_float = EFloat"
| "cv2cv_ext T_floatvec = EFloatvec"
| "cv2cv_ext T_double = EDouble"
| "cv2cv_ext T_longdbl = ELongDouble"
| "cv2cv_ext T_bool = EBool"
| "cv2cv_ext T_char = EChar"
| "cv2cv_ext T_hidden = EHidden"
| "cv2cv_ext T_classtype = EHidden"
| "cv2cv_ext T_bool_dev = EBool"
| "cv2cv_ext T_int_dev = EInt"
| "cv2cv_ext T_long_dev = ELong"
| "cv2cv_ext T_longlong_dev = ELongLong"
| "cv2cv_ext T_float_dev = EFloat"
| "cv2cv_ext T_double_dev = EDouble"
| "cv2cv_ext T_bool_shmem = EBool"
| "cv2cv_ext T_int_shmem = EInt"
| "cv2cv_ext T_long_shmem = ELong"
| "cv2cv_ext T_longlong_shmem = ELongLong"
| "cv2cv_ext T_float_shmem = EFloat"
| "cv2cv_ext T_double_shmem = EDouble"
| "cv2cv_ext T_bool_dist = EBool"
| "cv2cv_ext T_int_dist = EInt"
| "cv2cv_ext T_long_dist = ELong"
| "cv2cv_ext T_longlong_dist = ELongLong"
| "cv2cv_ext T_float_dist = EFloat"
| "cv2cv_ext T_double_dist = EDouble"
| "cv2cv_ext T_sync = EHidden"
| "cv2cv_ext _ = EDummy"

fun zipcv_ext :: "simpletype \<Rightarrow> cv_ext" where
  "zipcv_ext T_byte = EByte"
| "zipcv_ext T_short = EShort"
| "zipcv_ext T_int = EInt"
| "zipcv_ext T_long = ELong"
| "zipcv_ext T_longlong = ELongLong"
| "zipcv_ext T_ubyte = EUByte"
| "zipcv_ext T_ushort = EUShort"
| "zipcv_ext T_uint = EUInt"
| "zipcv_ext T_ulong = EULong"
| "zipcv_ext T_ulonglong = EULongLong"
| "zipcv_ext T_float = EFloat"
| "zipcv_ext T_double = EDouble"
| "zipcv_ext T_longdbl = ELongDouble"
| "zipcv_ext T_bool = EBool"
| "zipcv_ext T_char = EChar"
| "zipcv_ext T_bool_dev = EBool"
| "zipcv_ext T_int_dev = EInt"
| "zipcv_ext T_long_dev = ELong"
| "zipcv_ext T_longlong_dev = ELongLong"
| "zipcv_ext T_float_dev = EFloat"
| "zipcv_ext T_double_dev = EDouble"
| "zipcv_ext T_bool_shmem = EBool"
| "zipcv_ext T_int_shmem = EInt"
| "zipcv_ext T_long_shmem = ELong"
| "zipcv_ext T_longlong_shmem = ELongLong"
| "zipcv_ext T_float_shmem = EFloat"
| "zipcv_ext T_double_shmem = EDouble"
| "zipcv_ext T_bool_dist = EBool"
| "zipcv_ext T_int_dist = EInt"
| "zipcv_ext T_long_dist = ELong"
| "zipcv_ext T_longlong_dist = ELongLong"
| "zipcv_ext T_float_dist = EFloat"
| "zipcv_ext T_double_dist = EDouble"
| "zipcv_ext _ = EDummy"

fun basecv_ext :: "simpletype \<Rightarrow> cv_ext" where
  "basecv_ext T_byte = EByte"
| "basecv_ext T_short = EShort"
| "basecv_ext T_int = EInt"
| "basecv_ext T_long = ELong"
| "basecv_ext T_longlong = ELongLong"
| "basecv_ext T_ubyte = EUByte"
| "basecv_ext T_ushort = EUShort"
| "basecv_ext T_uint = EUInt"
| "basecv_ext T_ulong = EULong"
| "basecv_ext T_ulonglong = EULongLong"
| "basecv_ext T_float = EFloat"
| "basecv_ext T_floatvec = EFloatvec"
| "basecv_ext T_double = EDouble"
| "basecv_ext T_longdbl = ELongDouble"
| "basecv_ext T_bool = EBool"
| "basecv_ext T_char = EChar"
| "basecv_ext T_bool_dev = EBool"
| "basecv_ext T_int_dev = EInt"
| "basecv_ext T_long_dev = ELong"
| "basecv_ext T_longlong_dev = ELongLong"
| "basecv_ext T_float_dev = EFloat"
| "basecv_ext T_double_dev = EDouble"
| "basecv_ext T_bool_shmem = EBool"
| "basecv_ext T_int_shmem = EInt"
| "basecv_ext T_long_shmem = ELong"
| "basecv_ext T_longlong_shmem = ELongLong"
| "basecv_ext T_float_shmem = EFloat"
| "basecv_ext T_double_shmem = EDouble"
| "basecv_ext T_bool_dist = EBool"
| "basecv_ext T_int_dist = EInt"
| "basecv_ext T_long_dist = ELong"
| "basecv_ext T_longlong_dist = ELongLong"
| "basecv_ext T_float_dist = EFloat"
| "basecv_ext T_double_dist = EDouble"
| "basecv_ext _ = EDummy"

text \<open>The tables agree with each other.\<close>

lemma basecv_ext_cases: "basecv_ext t = (if t = T_floatvec then EFloatvec else zipcv_ext t)"
  by (cases t) simp_all

lemma cv2cv_ext_zipcv: "zipcv_ext t \<noteq> EDummy \<Longrightarrow> cv2cv_ext t = zipcv_ext t"
  by (cases t) simp_all

lemma basetype_size_pos: "cv2cv_ext t \<noteq> EDummy \<Longrightarrow> 0 < basetype_size t"
  by (cases t) simp_all

end
