(* ===== verification/Scalars.thy ===== *)
theory Scalars
  imports Simpletypes "HOL-Library.Signed_Division"
begin

text \<open>
  Elements of constant vectors and the operations on them:
  \<open>src/libsac2c/constants/zipcv.c\<close> (binary and unary operations), \<open>cv2cv.c\<close> (copying)
  and \<open>basecv.c\<close> (the fill values).  A cell of a vector holds a value tagged with the C
  type it was written with; reading it as another type is the error \<open>WrongType\<close>.

  Integers follow the C rules: operands narrower than \<open>int\<close> are promoted, signed overflow
  is undefined, unsigned arithmetic wraps, and the final cast converts to the result type
  modulo its width.  Floating point arithmetic is a parameter, the record \<open>fops\<close>.
\<close>

subsection \<open>C types and values\<close>

datatype ity = ISChar | IShort | IInt | ILong | ILLong
  | IUChar | IUShort | IUInt | IULong | IULLong

datatype fty = FFloat | FDouble | FLongDouble

datatype ctype = TInt ity | TBool | TFlt fty | TFVec | TPtr

datatype 'f cval = CInt ity int | CBool bool | CFlt fty 'f | CFVec "'f list" | CPtr nat

fun ctype_of :: "'f cval \<Rightarrow> ctype" where
  "ctype_of (CInt t _) = TInt t"
| "ctype_of (CBool _) = TBool"
| "ctype_of (CFlt t _) = TFlt t"
| "ctype_of (CFVec _) = TFVec"
| "ctype_of (CPtr _) = TPtr"

fun ibits :: "ity \<Rightarrow> nat" where
  "ibits ISChar = 8" | "ibits IShort = 16" | "ibits IInt = 32" | "ibits ILong = 64"
| "ibits ILLong = 64" | "ibits IUChar = 8" | "ibits IUShort = 16" | "ibits IUInt = 32"
| "ibits IULong = 64" | "ibits IULLong = 64"

fun isigned :: "ity \<Rightarrow> bool" where
  "isigned ISChar = True" | "isigned IShort = True" | "isigned IInt = True"
| "isigned ILong = True" | "isigned ILLong = True" | "isigned _ = False"

definition imin :: "ity \<Rightarrow> int" where
  "imin t = (if isigned t then - (2 ^ (ibits t - 1)) else 0)"

definition imax :: "ity \<Rightarrow> int" where
  "imax t = (if isigned t then 2 ^ (ibits t - 1) - 1 else 2 ^ ibits t - 1)"

definition in_ity :: "ity \<Rightarrow> int \<Rightarrow> bool" where
  "in_ity t x \<longleftrightarrow> imin t \<le> x \<and> x \<le> imax t"

text \<open>Conversion to an integer type, and the integer promotion.\<close>

definition iconv :: "ity \<Rightarrow> int \<Rightarrow> int" where
  "iconv t x = (x - imin t) mod 2 ^ ibits t + imin t"

definition iprom :: "ity \<Rightarrow> ity" where
  "iprom t = (if ibits t < 32 then IInt else t)"

text \<open>The result of an arithmetic operation in type \<open>t\<close> (already promoted).\<close>

definition iarith :: "ity \<Rightarrow> int \<Rightarrow> int cres" where
  "iarith t x = (if isigned t then check IntOverflow (in_ity t x) (Inr x)
                 else Inr (iconv t x))"

text \<open>A cell is well formed when its integer lies in the range of its type.\<close>

fun cval_ok :: "'f cval \<Rightarrow> bool" where
  "cval_ok (CInt t x) = in_ity t x"
| "cval_ok (CFVec xs) = (length xs = 4)"
| "cval_ok _ = True"

text \<open>
  The floating point operations of the target: arithmetic in a type, comparison,
  conversion from integers, between floating types, and the truncation to an integer
  (\<open>None\<close> when the value has none).
\<close>

record 'f fops =
  f_add :: "fty \<Rightarrow> 'f \<Rightarrow> 'f \<Rightarrow> 'f"
  f_sub :: "fty \<Rightarrow> 'f \<Rightarrow> 'f \<Rightarrow> 'f"
  f_mul :: "fty \<Rightarrow> 'f \<Rightarrow> 'f \<Rightarrow> 'f"
  f_div :: "fty \<Rightarrow> 'f \<Rightarrow> 'f \<Rightarrow> 'f"
  f_neg :: "'f \<Rightarrow> 'f"
  f_eq :: "'f \<Rightarrow> 'f \<Rightarrow> bool"
  f_lt :: "'f \<Rightarrow> 'f \<Rightarrow> bool"
  f_le :: "'f \<Rightarrow> 'f \<Rightarrow> bool"
  f_of_int :: "fty \<Rightarrow> int \<Rightarrow> 'f"
  f_conv :: "fty \<Rightarrow> 'f \<Rightarrow> 'f"
  f_to_int :: "'f \<Rightarrow> int option"

text \<open>An instance of the parameter, for evaluation on examples: exact arithmetic on integers.\<close>

definition int_fops :: "int fops" where
  "int_fops = \<lparr>f_add = (\<lambda>t. (+)), f_sub = (\<lambda>t. (-)), f_mul = (\<lambda>t. (*)), f_div = (\<lambda>t. (div)),
     f_neg = uminus, f_eq = (=), f_lt = (<), f_le = (\<le>), f_of_int = (\<lambda>t x. x),
     f_conv = (\<lambda>t x. x), f_to_int = Some\<rparr>"

subsection \<open>The overloads of the generated functions\<close>

fun ext_ctype :: "cv_ext \<Rightarrow> ctype option" where
  "ext_ctype EByte = Some (TInt ISChar)"
| "ext_ctype EShort = Some (TInt IShort)"
| "ext_ctype EInt = Some (TInt IInt)"
| "ext_ctype ELong = Some (TInt ILong)"
| "ext_ctype ELongLong = Some (TInt ILLong)"
| "ext_ctype EUByte = Some (TInt IUChar)"
| "ext_ctype EUShort = Some (TInt IUShort)"
| "ext_ctype EUInt = Some (TInt IUInt)"
| "ext_ctype EULong = Some (TInt IULong)"
| "ext_ctype EULongLong = Some (TInt IULLong)"
| "ext_ctype EFloat = Some (TFlt FFloat)"
| "ext_ctype EFloatvec = Some TFVec"
| "ext_ctype EDouble = Some (TFlt FDouble)"
| "ext_ctype ELongDouble = Some (TFlt FLongDouble)"
| "ext_ctype EBool = Some TBool"
| "ext_ctype EChar = Some (TInt IUChar)"
| "ext_ctype EHidden = Some TPtr"
| "ext_ctype EDummy = None"

text \<open>The type classes of the \<open>MAP_\<close> macros.\<close>

datatype tclass = CL_SINT | CL_UINT | CL_FLOAT | CL_BOOL | CL_CHAR

fun ext_class :: "cv_ext \<Rightarrow> tclass option" where
  "ext_class EByte = Some CL_SINT" | "ext_class EShort = Some CL_SINT"
| "ext_class EInt = Some CL_SINT" | "ext_class ELong = Some CL_SINT"
| "ext_class ELongLong = Some CL_SINT"
| "ext_class EUByte = Some CL_UINT" | "ext_class EUShort = Some CL_UINT"
| "ext_class EUInt = Some CL_UINT" | "ext_class EULong = Some CL_UINT"
| "ext_class EULongLong = Some CL_UINT"
| "ext_class EFloat = Some CL_FLOAT" | "ext_class EDouble = Some CL_FLOAT"
| "ext_class ELongDouble = Some CL_FLOAT"
| "ext_class EBool = Some CL_BOOL" | "ext_class EChar = Some CL_CHAR"
| "ext_class _ = None"

definition MAP_INT :: "tclass list" where "MAP_INT = [CL_SINT, CL_UINT]"
definition MAP_NUM :: "tclass list" where "MAP_NUM = [CL_SINT, CL_UINT, CL_FLOAT]"
definition MAP_BOOL :: "tclass list" where "MAP_BOOL = [CL_BOOL]"
definition MAP_NUMoBOOL :: "tclass list" where "MAP_NUMoBOOL = [CL_SINT, CL_UINT, CL_FLOAT, CL_BOOL]"
definition MAP_SNUM :: "tclass list" where "MAP_SNUM = [CL_SINT, CL_FLOAT]"
definition MAP_ANY :: "tclass list" where "MAP_ANY = [CL_SINT, CL_UINT, CL_FLOAT, CL_BOOL, CL_CHAR]"

datatype zop =
    ZPlus | ZMinus | ZMul | ZDiv | ZMin | ZMax | ZMod | ZAplMod | ZAnd | ZOr
  | ZEq | ZNeq | ZLe | ZLt | ZGt | ZGe | ZNot | ZAbs | ZNeg
  | ZTob | ZTos | ZToi | ZTol | ZToll | ZToub | ZTous | ZToui | ZToul | ZToull
  | ZTof | ZTod | ZToc | ZTobool

fun zop_classes :: "zop \<Rightarrow> tclass list" where
  "zop_classes ZPlus = MAP_NUM" | "zop_classes ZMinus = MAP_NUM"
| "zop_classes ZMul = MAP_NUM" | "zop_classes ZDiv = MAP_NUM"
| "zop_classes ZMin = MAP_NUM" | "zop_classes ZMax = MAP_NUM"
| "zop_classes ZMod = MAP_INT" | "zop_classes ZAplMod = MAP_INT"
| "zop_classes ZAnd = MAP_BOOL" | "zop_classes ZOr = MAP_BOOL"
| "zop_classes ZNot = MAP_BOOL"
| "zop_classes ZAbs = MAP_SNUM" | "zop_classes ZNeg = MAP_SNUM"
| "zop_classes ZTobool = MAP_NUMoBOOL"
| "zop_classes _ = MAP_ANY"

fun zop_unary :: "zop \<Rightarrow> bool" where
  "zop_unary ZPlus = False" | "zop_unary ZMinus = False" | "zop_unary ZMul = False"
| "zop_unary ZDiv = False" | "zop_unary ZMin = False" | "zop_unary ZMax = False"
| "zop_unary ZMod = False" | "zop_unary ZAplMod = False" | "zop_unary ZAnd = False"
| "zop_unary ZOr = False" | "zop_unary ZEq = False" | "zop_unary ZNeq = False"
| "zop_unary ZLe = False" | "zop_unary ZLt = False" | "zop_unary ZGt = False"
| "zop_unary ZGe = False" | "zop_unary _ = True"

text \<open>The result type of an operation: the \<open>tfun\<close> argument of its macro.\<close>

fun zop_res :: "zop \<Rightarrow> ctype \<Rightarrow> ctype" where
  "zop_res ZEq t = TBool" | "zop_res ZNeq t = TBool" | "zop_res ZLe t = TBool"
| "zop_res ZLt t = TBool" | "zop_res ZGt t = TBool" | "zop_res ZGe t = TBool"
| "zop_res ZTob t = TInt ISChar" | "zop_res ZTos t = TInt IShort"
| "zop_res ZToi t = TInt IInt" | "zop_res ZTol t = TInt ILong"
| "zop_res ZToll t = TInt ILLong" | "zop_res ZToub t = TInt IUChar"
| "zop_res ZTous t = TInt IUShort" | "zop_res ZToui t = TInt IUInt"
| "zop_res ZToul t = TInt IULong" | "zop_res ZToull t = TInt IULLong"
| "zop_res ZTof t = TFlt FFloat" | "zop_res ZTod t = TFlt FDouble"
| "zop_res ZToc t = TInt IUChar" | "zop_res ZTobool t = TBool"
| "zop_res _ t = t"

subsection \<open>The scalar operations on integers\<close>

text \<open>
  \<open>t\<close> is the type of the operands after promotion; \<open>sdiv\<close> and \<open>smod\<close> truncate towards
  zero, as \<open>/\<close> and \<open>%\<close> of C do.
\<close>

definition int_DIV :: "ity \<Rightarrow> int \<Rightarrow> int \<Rightarrow> int cres" where
  "int_DIV t a b = check DivByZero (b \<noteq> 0) (iarith t (a sdiv b))"

definition int_MOD :: "ity \<Rightarrow> int \<Rightarrow> int \<Rightarrow> int cres" where
  "int_MOD t a b = check DivByZero (b \<noteq> 0)
     (bindR (iarith t (a sdiv b)) (\<lambda>_. Inr (a smod b)))"

definition int_SIGNUM :: "int \<Rightarrow> int" where
  "int_SIGNUM x = (if 0 = x then 0 else if 0 < x then 1 else -1)"

definition int_APLREM :: "ity \<Rightarrow> int \<Rightarrow> int \<Rightarrow> int cres" where
  "int_APLREM t a b = (if b = 0 then Inr a else int_MOD t a b)"

definition int_APLMOD :: "ity \<Rightarrow> int \<Rightarrow> int \<Rightarrow> int cres" where
  "int_APLMOD t a b =
     bindR (int_APLREM t a b) (\<lambda>r.
       if r \<noteq> 0 \<and> int_SIGNUM a \<noteq> int_SIGNUM b
       then bindR (int_APLREM t a b) (\<lambda>r. iarith t (r + b))
       else int_APLREM t a b)"

fun int_bin :: "zop \<Rightarrow> ity \<Rightarrow> int \<Rightarrow> int \<Rightarrow> int cres" where
  "int_bin ZPlus t a b = iarith t (a + b)"
| "int_bin ZMinus t a b = iarith t (a - b)"
| "int_bin ZMul t a b = iarith t (a * b)"
| "int_bin ZDiv t a b = int_DIV t a b"
| "int_bin ZMin t a b = Inr (if a < b then a else b)"
| "int_bin ZMax t a b = Inr (if a > b then a else b)"
| "int_bin ZMod t a b = int_MOD t a b"
| "int_bin ZAplMod t a b = int_APLMOD t a b"
| "int_bin _ t a b = Inl WrongType"

fun int_cmp :: "zop \<Rightarrow> int \<Rightarrow> int \<Rightarrow> bool cres" where
  "int_cmp ZEq a b = Inr (a = b)"
| "int_cmp ZNeq a b = Inr (a \<noteq> b)"
| "int_cmp ZLe a b = Inr (a \<le> b)"
| "int_cmp ZLt a b = Inr (a < b)"
| "int_cmp ZGt a b = Inr (a > b)"
| "int_cmp ZGe a b = Inr (a \<ge> b)"
| "int_cmp _ a b = Inl WrongType"

fun bool_bin :: "zop \<Rightarrow> bool \<Rightarrow> bool \<Rightarrow> bool cres" where
  "bool_bin ZAnd a b = Inr (a \<and> b)"
| "bool_bin ZOr a b = Inr (a \<or> b)"
| "bool_bin _ a b = Inl WrongType"

definition int_ABS :: "ity \<Rightarrow> int \<Rightarrow> int cres" where
  "int_ABS t a = (if a < 0 then iarith t (- a) else Inr a)"

definition int_NEG :: "ity \<Rightarrow> int \<Rightarrow> int cres" where
  "int_NEG t a = iarith t (- a)"

subsection \<open>The scalar operations on floating point numbers\<close>

fun flt_bin :: "'f fops \<Rightarrow> zop \<Rightarrow> fty \<Rightarrow> 'f \<Rightarrow> 'f \<Rightarrow> 'f cres" where
  "flt_bin F ZPlus t a b = Inr (f_add F t a b)"
| "flt_bin F ZMinus t a b = Inr (f_sub F t a b)"
| "flt_bin F ZMul t a b = Inr (f_mul F t a b)"
| "flt_bin F ZDiv t a b = Inr (f_div F t a b)"
| "flt_bin F ZMin t a b = Inr (if f_lt F a b then a else b)"
| "flt_bin F ZMax t a b = Inr (if f_lt F b a then a else b)"
| "flt_bin F _ t a b = Inl WrongType"

fun flt_cmp :: "'f fops \<Rightarrow> zop \<Rightarrow> 'f \<Rightarrow> 'f \<Rightarrow> bool cres" where
  "flt_cmp F ZEq a b = Inr (f_eq F a b)"
| "flt_cmp F ZNeq a b = Inr (\<not> f_eq F a b)"
| "flt_cmp F ZLe a b = Inr (f_le F a b)"
| "flt_cmp F ZLt a b = Inr (f_lt F a b)"
| "flt_cmp F ZGt a b = Inr (f_lt F b a)"
| "flt_cmp F ZGe a b = Inr (f_le F b a)"
| "flt_cmp F _ a b = Inl WrongType"

definition flt_ABS :: "'f fops \<Rightarrow> fty \<Rightarrow> 'f \<Rightarrow> 'f" where
  "flt_ABS F t a = (if f_lt F a (f_of_int F t 0) then f_neg F a else a)"

definition flt_NEG :: "'f fops \<Rightarrow> 'f \<Rightarrow> 'f" where
  "flt_NEG F a = f_neg F a"

subsection \<open>Conversions\<close>

text \<open>The numeric value of an integer or truth value.\<close>

fun int_val :: "'f cval \<Rightarrow> int option" where
  "int_val (CInt _ x) = Some x"
| "int_val (CBool b) = Some (of_bool b)"
| "int_val _ = None"

text \<open>
  The cast to an integer type: modulo the width from integers; from a floating point
  number the truncation, undefined when it does not fit.
\<close>

fun cast_int :: "'f fops \<Rightarrow> ity \<Rightarrow> 'f cval \<Rightarrow> 'f cval cres" where
  "cast_int F t (CInt _ x) = Inr (CInt t (iconv t x))"
| "cast_int F t (CBool b) = Inr (CInt t (of_bool b))"
| "cast_int F t (CFlt _ x) =
     (case f_to_int F x of
        None \<Rightarrow> Inl IntOverflow
      | Some n \<Rightarrow> check IntOverflow (in_ity t n) (Inr (CInt t n)))"
| "cast_int F t _ = Inl WrongType"

fun cast_flt :: "'f fops \<Rightarrow> fty \<Rightarrow> 'f cval \<Rightarrow> 'f cval cres" where
  "cast_flt F t (CInt _ x) = Inr (CFlt t (f_of_int F t x))"
| "cast_flt F t (CBool b) = Inr (CFlt t (f_of_int F t (of_bool b)))"
| "cast_flt F t (CFlt _ x) = Inr (CFlt t (f_conv F t x))"
| "cast_flt F t _ = Inl WrongType"

fun zop_TOBOOL :: "'f fops \<Rightarrow> 'f cval \<Rightarrow> 'f cval cres" where
  "zop_TOBOOL F (CInt _ x) = Inr (CBool (x = 1))"
| "zop_TOBOOL F (CBool b) = Inr (CBool b)"
| "zop_TOBOOL F (CFlt t x) = Inr (CBool (f_eq F x (f_of_int F t 1)))"
| "zop_TOBOOL F _ = Inl WrongType"

subsection \<open>One element\<close>

fun zop_bin :: "'f fops \<Rightarrow> zop \<Rightarrow> 'f cval \<Rightarrow> 'f cval \<Rightarrow> 'f cval cres" where
  "zop_bin F z (CInt t a) (CInt t' b) =
     (if zop_res z (TInt t) = TBool
      then bindR (int_cmp z a b) (\<lambda>r. Inr (CBool r))
      else bindR (int_bin z (iprom t) a b) (\<lambda>r. Inr (CInt t (iconv t r))))"
| "zop_bin F z (CFlt t a) (CFlt t' b) =
     (if zop_res z (TFlt t) = TBool
      then bindR (flt_cmp F z a b) (\<lambda>r. Inr (CBool r))
      else bindR (flt_bin F z t a b) (\<lambda>r. Inr (CFlt t r)))"
| "zop_bin F z (CBool a) (CBool b) =
     (if z = ZAnd \<or> z = ZOr
      then bindR (bool_bin z a b) (\<lambda>r. Inr (CBool r))
      else bindR (int_cmp z (of_bool a) (of_bool b)) (\<lambda>r. Inr (CBool r)))"
| "zop_bin F z _ _ = Inl WrongType"

fun zop_not :: "'f cval \<Rightarrow> 'f cval cres" where
  "zop_not (CBool b) = Inr (CBool (\<not> b))"
| "zop_not _ = Inl WrongType"

fun zop_abs :: "'f fops \<Rightarrow> 'f cval \<Rightarrow> 'f cval cres" where
  "zop_abs F (CInt t a) = bindR (int_ABS (iprom t) a) (\<lambda>r. Inr (CInt t (iconv t r)))"
| "zop_abs F (CFlt t a) = Inr (CFlt t (flt_ABS F t a))"
| "zop_abs F _ = Inl WrongType"

fun zop_neg :: "'f fops \<Rightarrow> 'f cval \<Rightarrow> 'f cval cres" where
  "zop_neg F (CInt t a) = bindR (int_NEG (iprom t) a) (\<lambda>r. Inr (CInt t (iconv t r)))"
| "zop_neg F (CFlt t a) = Inr (CFlt t (flt_NEG F a))"
| "zop_neg F _ = Inl WrongType"

text \<open>The conversions \<open>TOB\<close> to \<open>TOC\<close>: a cast to the result type.\<close>

definition zop_cast :: "'f fops \<Rightarrow> zop \<Rightarrow> 'f cval \<Rightarrow> 'f cval cres" where
  "zop_cast F z v =
     (case zop_res z (ctype_of v) of
        TInt t \<Rightarrow> cast_int F t v
      | TFlt t \<Rightarrow> cast_flt F t v
      | _ \<Rightarrow> Inl WrongType)"

definition zop_un :: "'f fops \<Rightarrow> zop \<Rightarrow> 'f cval \<Rightarrow> 'f cval cres" where
  "zop_un F z v =
     (if z = ZNot then zop_not v
      else if z = ZAbs then zop_abs F v
      else if z = ZNeg then zop_neg F v
      else if z = ZTobool then zop_TOBOOL F v
      else zop_cast F z v)"

text \<open>Reading a cell as a value of the C type the overload casts the vector to.\<close>

definition rd_as :: "ctype \<Rightarrow> 'f cval cvec \<Rightarrow> int \<Rightarrow> 'f cval cres" where
  "rd_as t v i = bindR (rd v i) (\<lambda>x. check WrongType (ctype_of x = t) (Inr x))"

text \<open>
  The entry of table \<open>z\<close> for a base type: the templates \<open>BINARY\<close>, \<open>UNARY\<close> and \<open>DUMMY\<close>.
\<close>

definition COzipCv ::
  "'f fops \<Rightarrow> zop \<Rightarrow> simpletype \<Rightarrow> 'f cval cvec \<Rightarrow> int \<Rightarrow> 'f cval cvec \<Rightarrow> int
     \<Rightarrow> 'f cval cvec \<Rightarrow> int \<Rightarrow> 'f cval cvec cres" where
  "COzipCv F z st arg1 pos1 arg2 pos2 res res_pos =
     (case (ext_class (zipcv_ext st), ext_ctype (zipcv_ext st)) of
        (Some cl, Some t) \<Rightarrow>
          if cl \<in> set (zop_classes z)
          then if zop_unary z
               then bindR (rd_as t arg1 pos1) (\<lambda>a.
                    bindR (zop_un F z a) (wr res res_pos))
               else bindR (rd_as t arg1 pos1) (\<lambda>a.
                    bindR (rd_as t arg2 pos2) (\<lambda>b.
                    bindR (zop_bin F z a b) (wr res res_pos)))
          else Inl (Unreachable ''COzipCv'')
      | _ \<Rightarrow> Inl (Unreachable ''COzipCv''))"

subsection \<open>Copying and filling\<close>

text \<open>
  The copiers; they move cells without looking at their contents (the two \<open>char\<close>
  overloads copy bytes of either sign).
\<close>

definition COcv2Cv ::
  "simpletype \<Rightarrow> 'a cvec \<Rightarrow> int \<Rightarrow> int \<Rightarrow> 'a cvec \<Rightarrow> int \<Rightarrow> 'a cvec cres" where
  "COcv2Cv st src off len res res_off =
     (if cv2cv_ext st = EDummy then Inl (Unreachable ''COCv2CvDummy'')
      else cfor 0 len (\<lambda>i res. bindR (rd src (i + off)) (wr res (i + res_off))) res)"

text \<open>The fill values of \<open>basecv.c\<close>: \<open>NegativeOne\<close>, \<open>Zero\<close> and \<open>One\<close>.\<close>

datatype basecv_fun = NegativeOne | BZero | BOne

fun basecv_int :: "basecv_fun \<Rightarrow> int" where
  "basecv_int NegativeOne = -1" | "basecv_int BZero = 0" | "basecv_int BOne = 1"

fun basecv_value :: "'f fops \<Rightarrow> basecv_fun \<Rightarrow> ctype \<Rightarrow> 'f cval option" where
  "basecv_value F k (TInt t) = Some (CInt t (iconv t (basecv_int k)))"
| "basecv_value F k (TFlt t) = Some (CFlt t (f_of_int F t (basecv_int k)))"
| "basecv_value F k TBool = Some (CBool (k = BOne))"
| "basecv_value F k TFVec = Some (CFVec (replicate 4 (f_of_int F FFloat (basecv_int k))))"
| "basecv_value F k TPtr = None"

subsection \<open>Integer conversion and arithmetic\<close>

named_theorems scalar \<open>facts on the element operations\<close>

lemma ibits_pos: "0 < ibits t"
  by (cases t) simp_all

lemma pow_split: "0 < n \<Longrightarrow> (2::int) ^ n = 2 * 2 ^ (n - 1)"
  by (cases n) simp_all

lemma imax_imin: "imax t = imin t + 2 ^ ibits t - 1"
  using pow_split [OF ibits_pos [of t]] by (simp add: imax_def imin_def)

lemma iconv_in_ity [simp]: "in_ity t (iconv t x)"
proof -
  have "(x - imin t) mod 2 ^ ibits t < 2 ^ ibits t" "0 \<le> (x - imin t) mod 2 ^ ibits t"
    by simp_all
  then show ?thesis unfolding in_ity_def iconv_def imax_imin by linarith
qed

lemma iconv_id [simp]: "in_ity t x \<Longrightarrow> iconv t x = x"
  by (simp add: iconv_def in_ity_def imax_imin)

lemma iconv_mod: "iconv t x mod 2 ^ ibits t = x mod 2 ^ ibits t"
proof -
  have "iconv t x mod 2 ^ ibits t = (x - imin t + imin t) mod 2 ^ ibits t"
    unfolding iconv_def by (rule mod_add_left_eq)
  then show ?thesis by simp
qed

lemma in_ity_iprom: "in_ity t x \<Longrightarrow> in_ity (iprom t) x"
  by (cases t) (simp_all add: iprom_def in_ity_def imin_def imax_def)

lemma isigned_iprom: "isigned (iprom t) \<longleftrightarrow> isigned t \<or> ibits t < 32"
  by (cases t) (simp_all add: iprom_def)

lemma in_ity_0 [simp]: "in_ity t 0" and in_ity_1 [simp]: "in_ity t 1"
  by (cases t; simp add: in_ity_def imin_def imax_def)+

lemma in_ity_of_bool [simp]: "in_ity t (of_bool b)"
  by (cases b) simp_all

lemma iarith_ok [scalar]: "in_ity t x \<Longrightarrow> iarith t x = Inr x"
  by (simp add: iarith_def)

lemma iarith_cases:
  "iarith t x = (if in_ity t x then Inr x else if isigned t then Inl IntOverflow
                 else Inr (iconv t x))"
  by (simp add: iarith_def)

lemma sdiv_in_ity:
  assumes a: "in_ity t a" and b: "in_ity t b" and ex: "\<not> (isigned t \<and> a = imin t \<and> b = -1)"
  shows "in_ity t (a sdiv b)"
proof (cases "isigned t")
  case False
  with a b have nn: "0 \<le> a" "0 \<le> b" by (simp_all add: in_ity_def imin_def)
  then have "0 \<le> a sdiv b" "a sdiv b \<le> a"
    using sdiv_int_range [of a b]
    by (simp_all add: signed_divide_int_def sgn_if pos_imp_zdiv_nonneg_iff)
  with a False show ?thesis by (simp add: in_ity_def imin_def)
next
  case True
  define M :: int where "M = 2 ^ (ibits t - 1)"
  have lo: "imin t = - M" and hi: "imax t = M - 1" using True by (simp_all add: imin_def imax_def M_def)
  have r: "- \<bar>a\<bar> \<le> a sdiv b" "a sdiv b \<le> \<bar>a\<bar>" using sdiv_int_range [of a b] by auto
  show ?thesis
  proof (cases "a = imin t")
    case False
    with a r lo hi show ?thesis unfolding in_ity_def by linarith
  next
    case amin: True
    have "a \<noteq> 0" using amin lo M_def by simp
    then have "a sdiv b \<noteq> - a" using ex True amin by simp
    moreover have "\<bar>a\<bar> = M" using amin lo M_def by simp
    ultimately show ?thesis using r lo hi amin unfolding in_ity_def by linarith
  qed
qed

text \<open>
  \<open>APLMOD\<close> is the mathematical remainder: with the sign of the divisor, and \<open>a\<close> itself
  when the divisor is zero.
\<close>

lemma smod_dvd: "b dvd a \<longleftrightarrow> a smod b = 0" for a b :: int
  by (simp add: smod_int_alt_def mod_eq_0_iff_dvd sgn_if)

lemma int_SIGNUM_sgn: "int_SIGNUM x = sgn x"
  by (simp add: int_SIGNUM_def sgn_if)

lemma int_APLREM_val:
  assumes "in_ity t a" and "in_ity t b" and "\<not> (isigned t \<and> a = imin t \<and> b = -1)"
  shows "int_APLREM t a b = Inr (a smod b)"
  using sdiv_in_ity [OF assms] by (simp add: int_APLREM_def int_MOD_def iarith_ok)

lemma in_ity_mod:
  assumes "in_ity t a" and "in_ity t b" shows "in_ity t (a mod b)"
proof -
  consider "b = 0" | "0 < b" | "b < 0" by linarith
  then show ?thesis
  proof cases
    case 1 then show ?thesis using assms by simp
  next
    case 2
    then have "0 \<le> a mod b" "a mod b < b" by simp_all
    with assms in_ity_0 [of t] show ?thesis unfolding in_ity_def by linarith
  next
    case 3
    then have "a mod b \<le> 0" "b < a mod b" by simp_all
    with assms in_ity_0 [of t] show ?thesis unfolding in_ity_def by linarith
  qed
qed

lemma int_APLMOD_mod:
  assumes "in_ity t a" and "in_ity t b" and "\<not> (isigned t \<and> a = imin t \<and> b = -1)"
  shows "int_APLMOD t a b = Inr (a mod b)"
proof -
  let ?c = "sgn a \<noteq> sgn b \<and> \<not> b dvd a"
  have m: "a mod b = a smod b + b * of_bool ?c" by (rule modulo_int_eq_signed_modulo_int)
  show ?thesis
  proof (cases ?c)
    case True
    then have "a smod b + b = a mod b" using m by simp
    with True in_ity_mod [OF assms(1,2)] show ?thesis
      by (simp add: int_APLMOD_def int_APLREM_val [OF assms] int_SIGNUM_sgn smod_dvd iarith_ok)
  next
    case False
    then have "a mod b = a smod b" using m by (simp only: of_bool_def if_False mult_zero_right add_0_right)
    with False show ?thesis
      by (auto simp: int_APLMOD_def int_APLREM_val [OF assms] int_SIGNUM_sgn smod_dvd)
  qed
qed

lemma int_ABS_ok:
  assumes "in_ity t a" and "a \<noteq> imin t \<or> \<not> isigned t" shows "int_ABS t a = Inr \<bar>a\<bar>"
proof -
  have "in_ity t (- a)" if "a < 0"
    using assms that by (cases "isigned t") (auto simp: in_ity_def imin_def imax_def)
  then show ?thesis by (auto simp: int_ABS_def iarith_ok)
qed

subsection \<open>Typing of the element operations\<close>

lemma zop_bin_typed:
  assumes "zop_bin F z a b = Inr r" and "cval_ok a" and "ctype_of a = ctype_of b"
    and "\<not> zop_unary z"
  shows "ctype_of r = zop_res z (ctype_of a) \<and> cval_ok r"
  using assms
  by (cases a; cases b; cases z)
    (auto simp: bindR_Inr_iff split: if_splits)

lemma cast_int_typed: "cast_int F t v = Inr r \<Longrightarrow> ctype_of r = TInt t \<and> cval_ok r"
  by (cases v) (auto simp: check_Inr_iff split: option.splits)

lemma cast_flt_typed: "cast_flt F t v = Inr r \<Longrightarrow> ctype_of r = TFlt t \<and> cval_ok r"
  by (cases v) auto

lemma zop_un_typed:
  assumes "zop_un F z a = Inr r" and "cval_ok a" and "zop_unary z"
  shows "ctype_of r = zop_res z (ctype_of a) \<and> cval_ok r"
  using assms
  by (cases z; cases a)
    (auto simp: zop_un_def zop_cast_def bindR_Inr_iff simp del: cast_int.simps cast_flt.simps
      dest: cast_int_typed cast_flt_typed split: if_splits)

text \<open>The operations are total apart from the arithmetic errors.\<close>

lemma iarith_err: "iarith t x = Inl e \<Longrightarrow> e = IntOverflow"
  by (auto simp: iarith_def check_Inl_iff split: if_splits)

lemma int_MOD_err: "int_MOD t a b = Inl e \<Longrightarrow> e = IntOverflow \<or> e = DivByZero"
  by (auto simp: int_MOD_def check_Inl_iff bindR_Inl_iff dest: iarith_err)

lemma int_bin_err:
  assumes "int_bin z t a b = Inl e" and "CL_SINT \<in> set (zop_classes z) \<or> CL_UINT \<in> set (zop_classes z)"
    and "zop_res z (TInt u) \<noteq> TBool" and "\<not> zop_unary z"
  shows "e = IntOverflow \<or> e = DivByZero"
  using assms
  by (cases z) (auto simp: int_DIV_def int_APLMOD_def int_APLREM_def check_Inl_iff bindR_Inl_iff
    MAP_BOOL_def dest: iarith_err int_MOD_err split: if_splits)

definition class_of :: "ctype \<Rightarrow> tclass list" where
  "class_of t = (case t of
     TInt i \<Rightarrow> if isigned i then [CL_SINT] else [CL_UINT, CL_CHAR]
   | TBool \<Rightarrow> [CL_BOOL] | TFlt _ \<Rightarrow> [CL_FLOAT] | _ \<Rightarrow> [])"

lemma ext_class_class_of:
  "ext_class e = Some cl \<Longrightarrow> \<exists>t. ext_ctype e = Some t \<and> cl \<in> set (class_of t)"
  by (cases e) (auto simp: class_of_def)

subsection \<open>The operations on vectors\<close>

text \<open>The overload of a table exists for a base type.\<close>

definition zip_supports :: "zop \<Rightarrow> simpletype \<Rightarrow> bool" where
  "zip_supports z st = (case ext_class (zipcv_ext st) of
     None \<Rightarrow> False | Some cl \<Rightarrow> cl \<in> set (zop_classes z))"

text \<open>The C type of the cells of a base type, and well-formed element vectors.\<close>

definition cell_type :: "simpletype \<Rightarrow> ctype option" where
  "cell_type st = ext_ctype (cv2cv_ext st)"

definition cells_ok :: "simpletype \<Rightarrow> 'f cval list \<Rightarrow> bool" where
  "cells_ok st xs \<longleftrightarrow> (\<forall>x\<in>set xs. cell_type st = Some (ctype_of x) \<and> cval_ok x)"

definition zop_elem :: "'f fops \<Rightarrow> zop \<Rightarrow> 'f cval \<Rightarrow> 'f cval \<Rightarrow> 'f cval cres" where
  "zop_elem F z a b = (if zop_unary z then zop_un F z a else zop_bin F z a b)"

lemma zip_supports_ext:
  assumes "zip_supports z st"
  obtains cl t where "ext_class (zipcv_ext st) = Some cl" and "cl \<in> set (zop_classes z)"
    and "ext_ctype (zipcv_ext st) = Some t" and "cell_type st = Some t"
proof -
  obtain cl where cl: "ext_class (zipcv_ext st) = Some cl" "cl \<in> set (zop_classes z)"
    using assms by (auto simp: zip_supports_def split: option.splits)
  then obtain t where t: "ext_ctype (zipcv_ext st) = Some t" using ext_class_class_of by blast
  then have "zipcv_ext st \<noteq> EDummy" by auto
  then have "cell_type st = Some t" using t cv2cv_ext_zipcv by (simp add: cell_type_def)
  with cl t show ?thesis using that by blast
qed

lemma rd_as_full:
  "0 \<le> i \<Longrightarrow> i < int (length xs) \<Longrightarrow> ctype_of (xs ! nat i) = t \<Longrightarrow> rd_as t (full xs) i = Inr (xs ! nat i)"
  by (simp add: rd_as_def rd_full)

lemma COzipCv_full [scalar]:
  assumes "zip_supports z st" and "cells_ok st xs" and "cells_ok st ys"
    and "0 \<le> i" and "i < int (length xs)"
    and "\<not> zop_unary z \<Longrightarrow> 0 \<le> j \<and> j < int (length ys)"
  shows "COzipCv F z st (full xs) i (full ys) j res k
         = bindR (zop_elem F z (xs ! nat i) (ys ! nat j)) (wr res k)"
proof -
  obtain cl t where cl: "ext_class (zipcv_ext st) = Some cl" "cl \<in> set (zop_classes z)"
      and t: "ext_ctype (zipcv_ext st) = Some t" "cell_type st = Some t"
    using assms(1) by (rule zip_supports_ext)
  have "ctype_of (xs ! nat i) = t" using assms(2,4,5) t(2) by (force simp: cells_ok_def)
  moreover have "ctype_of (ys ! nat j) = t" if "\<not> zop_unary z"
    using assms(3) assms(6) [OF that] t(2) by (force simp: cells_ok_def)
  ultimately show ?thesis
    using assms cl t by (simp add: COzipCv_def zop_elem_def rd_as_full)
qed

lemma COzipCv_unsupported:
  "\<not> zip_supports z st \<Longrightarrow> COzipCv F z st v i w j r k = Inl (Unreachable ''COzipCv'')"
  by (auto simp: COzipCv_def zip_supports_def split: option.splits)

lemma zop_elem_typed:
  assumes "zop_elem F z a b = Inr r" and "cval_ok a" and "\<not> zop_unary z \<Longrightarrow> ctype_of a = ctype_of b"
  shows "ctype_of r = zop_res z (ctype_of a) \<and> cval_ok r"
  using assms
  by (cases "zop_unary z") (auto simp: zop_elem_def dest: zop_un_typed dest!: zop_bin_typed)

lemma cells_ok_Nil [simp]: "cells_ok st []"
  by (simp add: cells_ok_def)

lemma cells_ok_take [simp]: "cells_ok st xs \<Longrightarrow> cells_ok st (take n xs)"
  by (auto simp: cells_ok_def dest: in_set_takeD)

lemma cells_ok_drop [simp]: "cells_ok st xs \<Longrightarrow> cells_ok st (drop n xs)"
  by (auto simp: cells_ok_def dest: in_set_dropD)

lemma cells_ok_append [simp]: "cells_ok st (xs @ ys) \<longleftrightarrow> cells_ok st xs \<and> cells_ok st ys"
  by (auto simp: cells_ok_def)

lemma cells_ok_nonDummy: "cells_ok st xs \<Longrightarrow> xs \<noteq> [] \<Longrightarrow> cv2cv_ext st \<noteq> EDummy"
  by (cases xs) (auto simp: cells_ok_def cell_type_def)

lemma COcv2Cv_full [cmem]:
  assumes "cv2cv_ext st \<noteq> EDummy" and "s + n \<le> length xs" and "d + n \<le> length dst"
  shows "COcv2Cv st (full xs) (int s) (int n) dst (int d)
         = Inr (blit dst d (take n (drop s xs)))"
  using assms by (simp add: COcv2Cv_def copy_loop)

end
