(* ===== verification/Constants_Basic.thy ===== *)
theory Constants_Basic
  imports Shape Scalars
begin

text \<open>
  Constants, first part: the structure \<open>CONSTANT\<close> of
  \<open>src/libsac2c/constants/constants_internal.h\<close> and the functions of
  \<open>constants_basic.c\<close> that create, copy, inspect and convert constants.

  \<open>con t xs es\<close> is the constant of base type \<open>t\<close>, extents \<open>xs\<close> and elements \<open>es\<close>;
  \<open>con_ok t xs es\<close> is the invariant of the module: the extents fit, there is one element
  per index, and every element has the C type of \<open>t\<close>.  The lemmas of the collection
  \<open>const\<close> say what each operation computes on such constants.
\<close>

named_theorems const \<open>the operations on constants that satisfy the invariant\<close>

record 'f const =
  CONSTANT_TYPE :: simpletype
  CONSTANT_SHAPE :: shape
  CONSTANT_ELEMS :: "'f cval cvec"
  CONSTANT_VLEN :: nat

definition CONSTANT_DIM :: "'f const \<Rightarrow> int" where
  "CONSTANT_DIM c = SHgetDim (CONSTANT_SHAPE c)"

subsection \<open>Internal helper functions\<close>

definition COINTmakeConstant ::
  "simpletype \<Rightarrow> shape \<Rightarrow> 'f cval cvec \<Rightarrow> nat \<Rightarrow> 'f const" where
  "COINTmakeConstant type shp elems vlen =
     \<lparr>CONSTANT_TYPE = type, CONSTANT_SHAPE = shp, CONSTANT_ELEMS = elems,
      CONSTANT_VLEN = vlen\<rparr>"

text \<open>
  Allocation of cells of a base type; a type of size zero has no memory.
  \<open>CONSTANT_SIZEOF\<close> computes such a size from the length of a constant.
\<close>

definition COINTallocCV :: "simpletype \<Rightarrow> nat \<Rightarrow> 'a cvec" where
  "COINTallocCV type n = (if basetype_size type = 0 then [] else allocv (int n))"

definition COINTcopyCVToMem :: "simpletype \<Rightarrow> nat \<Rightarrow> 'a cvec \<Rightarrow> 'a cvec cres" where
  "COINTcopyCVToMem type n cv =
     (if basetype_size type = 0 then Inr []
      else check OutOfBounds (n \<le> length cv) (Inr (take n cv)))"

text \<open>The argument list of C is a list of cells, read from the front.\<close>

definition COINTcopyCVVaListToMem ::
  "simpletype \<Rightarrow> nat \<Rightarrow> 'f cval list \<Rightarrow> 'f cval cvec cres" where
  "COINTcopyCVVaListToMem type n cv =
     (let copy = (\<lambda>t. cfor 0 (int n) (\<lambda>i dst. bindR (rd_as t (full cv) i) (wr dst i))
                        (COINTallocCV type n)) in
      if type = T_int then copy (TInt IInt)
      else if type = T_long then copy (TInt ILong)
      else Inl (CompilerAbort ''unknown type in CV list''))"

definition COINTpickNElemsFromCV ::
  "simpletype \<Rightarrow> 'a cvec \<Rightarrow> int \<Rightarrow> nat \<Rightarrow> 'a cvec cres" where
  "COINTpickNElemsFromCV type elems off n =
     COcv2Cv type elems off (int n) (COINTallocCV type n) 0"

definition COINTcopyElemsFromCVToCV ::
  "simpletype \<Rightarrow> 'a cvec \<Rightarrow> int \<Rightarrow> nat \<Rightarrow> 'a cvec \<Rightarrow> int \<Rightarrow> 'a cvec cres" where
  "COINTcopyElemsFromCVToCV type src off len dst dst_off =
     COcv2Cv type src off (int len) dst dst_off"

definition MakeScalarConstantFromCV :: "simpletype \<Rightarrow> 'f cval cvec \<Rightarrow> 'f const cres" where
  "MakeScalarConstantFromCV type cv =
     bindR (SHmakeShape 0) (\<lambda>s. Inr (COINTmakeConstant type s cv 1))"

subsection \<open>Creation\<close>

definition COmakeConstant :: "simpletype \<Rightarrow> shape \<Rightarrow> 'f cval cvec \<Rightarrow> 'f const cres" where
  "COmakeConstant type shp elems =
     bindR (SHgetUnrLen shp) (\<lambda>n. Inr (COINTmakeConstant type shp elems (to_size n)))"

definition COmakeConstantFromInt :: "int \<Rightarrow> 'f const cres" where
  "COmakeConstantFromInt v =
     bindR (SHmakeShape 0) (\<lambda>s.
     bindR (wr (allocv 1) 0 (CInt IInt v)) (\<lambda>e. Inr (COINTmakeConstant T_int s e 1)))"

definition COmakeConstantFromFloat :: "'f \<Rightarrow> 'f const cres" where
  "COmakeConstantFromFloat v =
     bindR (SHmakeShape 0) (\<lambda>s.
     bindR (wr (allocv 1) 0 (CFlt FFloat v)) (\<lambda>e. Inr (COINTmakeConstant T_float s e 1)))"

definition COmakeConstantFromBool :: "bool \<Rightarrow> 'f const cres" where
  "COmakeConstantFromBool v =
     bindR (SHmakeShape 0) (\<lambda>s.
     bindR (wr (allocv 1) 0 (CBool v)) (\<lambda>e. Inr (COINTmakeConstant T_bool s e 1)))"

text \<open>The \<open>int\<close> cells of an extent vector.\<close>

definition int_cells :: "int cvec \<Rightarrow> 'f cval cvec" where
  "int_cells v = map (map_option (CInt IInt)) v"

definition COmakeConstantFromShape :: "shape \<Rightarrow> 'f const cres" where
  "COmakeConstantFromShape shp =
     (let vlen = to_size (SHgetDim shp) in
      bindR (SHcreateShape 1 [int vlen]) (\<lambda>s.
      bindR (SHshape2IntVec shp) (\<lambda>v.
        Inr (COINTmakeConstant T_int s (int_cells v) vlen))))"

fun int_of_cell :: "'f cval \<Rightarrow> int cres" where
  "int_of_cell (CInt t x) = check WrongType (t = IInt) (Inr x)"
| "int_of_cell _ = Inl WrongType"

text \<open>Reading a cell as an \<open>int\<close>.\<close>

definition rd_int :: "'f cval cvec \<Rightarrow> int \<Rightarrow> int cres" where
  "rd_int v i = bindR (rd v i) int_of_cell"

definition COmakeConstantFromDynamicArguments ::
  "simpletype \<Rightarrow> int \<Rightarrow> 'f cval list \<Rightarrow> 'f const cres" where
  "COmakeConstantFromDynamicArguments type dim args =
     bindR (SHmakeShape dim) (\<lambda>res_shape.
     bindR (if 0 < dim
            then bindR (cfor 0 dim (\<lambda>i s. bindR (rd_int (full args) i) (SHsetExtent s i))
                         res_shape) (\<lambda>s.
                 bindR (SHgetUnrLen s) (\<lambda>n.
                   let num = to_size n in
                   if 0 < num
                   then bindR (COINTcopyCVVaListToMem type num (drop (nat dim) args))
                          (\<lambda>e. Inr (s, e, num))
                   else Inr (s, [], num)))
            else Inr (res_shape, [], 0)) (\<lambda>(s, e, num).
       Inr (COINTmakeConstant T_int s e num)))"

definition COmakeConstantFromArray ::
  "simpletype \<Rightarrow> int \<Rightarrow> int cvec \<Rightarrow> 'f cval cvec \<Rightarrow> 'f const cres" where
  "COmakeConstantFromArray type dim shp elems =
     bindR (SHmakeShape dim) (\<lambda>res_shape.
     bindR (if 0 < dim
            then bindR (cfor 0 dim (\<lambda>i s. bindR (rd shp i) (SHsetExtent s i)) res_shape) (\<lambda>s.
                 bindR (SHgetUnrLen s) (\<lambda>n.
                   let num = to_size n in
                   if 0 < num
                   then bindR (COINTcopyCVToMem type num elems) (\<lambda>e. Inr (s, e, num))
                   else Inr (s, [], num)))
            else Inr (res_shape, [], 0)) (\<lambda>(s, e, num).
       Inr (COINTmakeConstant type s e num)))"

subsection \<open>Inspection, copying and conversion\<close>

definition COgetType :: "'f const \<Rightarrow> simpletype" where
  "COgetType a = CONSTANT_TYPE a"

definition COgetDim :: "'f const \<Rightarrow> int" where
  "COgetDim a = SHgetDim (CONSTANT_SHAPE a)"

definition COgetShape :: "'f const \<Rightarrow> shape" where
  "COgetShape a = CONSTANT_SHAPE a"

definition COgetExtent :: "'f const \<Rightarrow> int \<Rightarrow> int cres" where
  "COgetExtent a i = dbug_assert ''COgetExtent'' (i < CONSTANT_DIM a)
     (SHgetExtent (CONSTANT_SHAPE a) i)"

definition COgetDataVec :: "'f const \<Rightarrow> 'f cval cvec" where
  "COgetDataVec a = CONSTANT_ELEMS a"

definition COcopyConstant :: "'f const \<Rightarrow> 'f const cres" where
  "COcopyConstant a =
     bindR (SHcopyShape (CONSTANT_SHAPE a)) (\<lambda>s.
     bindR (COINTpickNElemsFromCV (CONSTANT_TYPE a) (CONSTANT_ELEMS a) 0 (CONSTANT_VLEN a))
       (\<lambda>e. Inr (COINTmakeConstant (CONSTANT_TYPE a) s e (CONSTANT_VLEN a))))"

definition COcopyScalar2OneElementVector :: "'f const \<Rightarrow> 'f const cres" where
  "COcopyScalar2OneElementVector a =
     bindR (SHcreateShape 1 [1]) (\<lambda>s.
     bindR (COINTpickNElemsFromCV (CONSTANT_TYPE a) (CONSTANT_ELEMS a) 0 1)
       (\<lambda>e. Inr (COINTmakeConstant (CONSTANT_TYPE a) s e 1)))"

definition COconstant2Shape :: "'f const \<Rightarrow> shape cres" where
  "COconstant2Shape a =
     dbug_assert ''COconstant2Shape: int'' (CONSTANT_TYPE a = T_int)
     (dbug_assert ''COconstant2Shape: vector'' (SHgetDim (CONSTANT_SHAPE a) = 1)
      (let dim = int (CONSTANT_VLEN a) in
       bindR (SHmakeShape dim) (\<lambda>shp.
         cfor 0 dim (\<lambda>i shp. bindR (rd_int (CONSTANT_ELEMS a) i) (SHsetExtent shp i)) shp)))"

definition COconst2Int :: "'f const \<Rightarrow> int cres" where
  "COconst2Int c = rd_int (CONSTANT_ELEMS c) 0"

definition COisEmptyVect :: "'f const \<Rightarrow> bool cres" where
  "COisEmptyVect a =
     (if COgetDim a = 1 then bindR (SHgetExtent (COgetShape a) 0) (\<lambda>e. Inr (e = 0))
      else Inr False)"

subsection \<open>Base constants\<close>

text \<open>
  The functions of \<open>basecv.c\<close>; the type of the result is the one the overload names.
  \<open>None\<close> is the \<open>NULL\<close> of the types without base constants.
\<close>

fun ext_simpletype :: "cv_ext \<Rightarrow> simpletype" where
  "ext_simpletype EByte = T_byte" | "ext_simpletype EShort = T_short"
| "ext_simpletype EInt = T_int" | "ext_simpletype ELong = T_long"
| "ext_simpletype ELongLong = T_longlong" | "ext_simpletype EUByte = T_ubyte"
| "ext_simpletype EUShort = T_ushort" | "ext_simpletype EUInt = T_uint"
| "ext_simpletype EULong = T_ulong" | "ext_simpletype EULongLong = T_ulonglong"
| "ext_simpletype EFloat = T_float" | "ext_simpletype EFloatvec = T_floatvec"
| "ext_simpletype EDouble = T_double" | "ext_simpletype ELongDouble = T_longdbl"
| "ext_simpletype EBool = T_bool" | "ext_simpletype EChar = T_char"
| "ext_simpletype EHidden = T_hidden" | "ext_simpletype EDummy = T_unknown"

definition CObaseCv ::
  "'f fops \<Rightarrow> basecv_fun \<Rightarrow> simpletype \<Rightarrow> shape \<Rightarrow> 'f const option cres" where
  "CObaseCv F k type shp =
     (case ext_ctype (basecv_ext type) of
        None \<Rightarrow> Inr None
      | Some t \<Rightarrow>
          (case basecv_value F k t of
             None \<Rightarrow> Inr None
           | Some v \<Rightarrow>
               bindR (SHgetUnrLen shp) (\<lambda>n.
               bindR (cfor 0 (int (to_size n)) (\<lambda>i d. wr d i v) (allocv (int (to_size n)))) (\<lambda>d.
               bindR (COmakeConstant (ext_simpletype (basecv_ext type)) shp d) (\<lambda>c.
                 Inr (Some c))))))"

definition COmakeNegativeOne where "COmakeNegativeOne F type shp = CObaseCv F NegativeOne type shp"
definition COmakeZero where "COmakeZero F type shp = CObaseCv F BZero type shp"
definition COmakeOne where "COmakeOne F type shp = CObaseCv F BOne type shp"
definition COmakeTrue where "COmakeTrue F shp = CObaseCv F BOne T_bool shp"
definition COmakeFalse where "COmakeFalse F shp = CObaseCv F BZero T_bool shp"

subsection \<open>Constants that satisfy the invariant\<close>

definition con :: "simpletype \<Rightarrow> int list \<Rightarrow> 'f cval list \<Rightarrow> 'f const" where
  "con t xs es = \<lparr>CONSTANT_TYPE = t, CONSTANT_SHAPE = sh xs, CONSTANT_ELEMS = full es,
                  CONSTANT_VLEN = length es\<rparr>"

definition con_ok :: "simpletype \<Rightarrow> int list \<Rightarrow> 'f cval list \<Rightarrow> bool" where
  "con_ok t xs es \<longleftrightarrow> shape_fits xs \<and> int (length es) = prod_list xs \<and> cells_ok t es
     \<and> cv2cv_ext t \<noteq> EDummy"

definition co_ok :: "'f const \<Rightarrow> bool" where
  "co_ok c \<longleftrightarrow> (\<exists>t xs es. c = con t xs es \<and> con_ok t xs es)"

lemmas con_eval = con_ok_def cells_ok_def cell_type_def shape_fits_def int_max_def
  in_ity_def imin_def imax_def

lemma con_sel [simp]:
  "CONSTANT_TYPE (con t xs es) = t" "CONSTANT_SHAPE (con t xs es) = sh xs"
  "CONSTANT_ELEMS (con t xs es) = full es" "CONSTANT_VLEN (con t xs es) = length es"
  by (simp_all add: con_def)

lemma con_inj [simp]: "con t xs es = con t' xs' es' \<longleftrightarrow> t = t' \<and> xs = xs' \<and> es = es'"
  by (auto simp: con_def)

lemma COINTmakeConstant_con: "n = length es \<Longrightarrow> COINTmakeConstant t (sh xs) (full es) n = con t xs es"
  by (simp add: COINTmakeConstant_def con_def)

lemma con_okD:
  assumes "con_ok t xs es"
  shows "shape_fits xs" and "int (length es) = prod_list xs" and "cells_ok t es"
    and "cv2cv_ext t \<noteq> EDummy"
  using assms by (auto simp: con_ok_def)

lemma con_ok_length: "con_ok t xs es \<Longrightarrow> length es = nat (prod_list xs)"
  unfolding con_ok_def by (metis nat_int)

lemma con_ok_scalar: "con_ok t [] es \<Longrightarrow> length es = 1"
  by (simp add: con_ok_def)

lemma con_ok_single:
  assumes "con_ok t [] es" obtains e where "es = [e]"
  using con_ok_scalar [OF assms] by (auto simp: length_Suc_conv)

lemma con_ok_le_int_max: "con_ok t xs es \<Longrightarrow> int (length es) \<le> int_max"
  using shape_fits_prod(2) [of xs] by (simp add: con_ok_def)

lemma co_ok_con [simp]: "co_ok (con t xs es) \<longleftrightarrow> con_ok t xs es"
  by (auto simp: co_ok_def)

lemma CONSTANT_DIM_con [simp]: "CONSTANT_DIM (con t xs es) = int (length xs)"
  by (simp add: CONSTANT_DIM_def SHgetDim_sh)

lemma CO_inspect [simp]:
  "COgetType (con t xs es) = t" "COgetDim (con t xs es) = int (length xs)"
  "COgetShape (con t xs es) = sh xs" "COgetDataVec (con t xs es) = full es"
  by (simp_all add: COgetType_def COgetDim_def SHgetDim_sh COgetShape_def COgetDataVec_def)

lemma to_size_length: "int n \<le> int_max \<Longrightarrow> to_size (int n) = n"
  by (simp add: to_size_ok)

lemma to_size_prod: "shape_fits xs \<Longrightarrow> to_size (prod_list xs) = nat (prod_list xs)"
  using shape_fits_prod by (intro to_size_ok) auto

lemma COgetExtent_con [const]:
  "0 \<le> i \<Longrightarrow> i < int (length xs) \<Longrightarrow> COgetExtent (con t xs es) i = Inr (xs ! nat i)"
  by (simp add: COgetExtent_def SHgetExtent_sh)

lemma COmakeConstant_con [const]:
  assumes "shape_fits xs" and "int (length es) = prod_list xs"
  shows "COmakeConstant t (sh xs) (full es) = Inr (con t xs es)"
  using assms to_size_prod [OF assms(1)]
  by (simp add: COmakeConstant_def SHgetUnrLen_sh COINTmakeConstant_con flip: nat_int)

lemma COINTallocCV_len [simp]:
  "cv2cv_ext t \<noteq> EDummy \<Longrightarrow> COINTallocCV t n = replicate n None"
  using basetype_size_pos [of t] by (simp add: COINTallocCV_def allocv_def)

lemma COINTpickNElemsFromCV_full [const]:
  assumes "cv2cv_ext t \<noteq> EDummy" and "s + n \<le> length es"
  shows "COINTpickNElemsFromCV t (full es) (int s) n = Inr (full (take n (drop s es)))"
  using COcv2Cv_full [of t s n es 0 "replicate n None"] assms
  by (simp add: COINTpickNElemsFromCV_def)

lemma COINTpick0 [const]:
  assumes "cv2cv_ext t \<noteq> EDummy" and "n \<le> length es"
  shows "COINTpickNElemsFromCV t (full es) 0 n = Inr (full (take n es))"
  using COINTpickNElemsFromCV_full [of t 0 n es] assms by simp

lemma COcopyConstant_con [const]:
  "con_ok t xs es \<Longrightarrow> COcopyConstant (con t xs es) = Inr (con t xs es)"
  by (simp add: COcopyConstant_def con_okD const shape COINTmakeConstant_con)

lemma COcopyScalar2OneElementVector_con [const]:
  assumes "con_ok t xs es" and "es \<noteq> []"
  shows "COcopyScalar2OneElementVector (con t xs es) = Inr (con t [1] [hd es])"
proof -
  obtain x ys where es: "es = x # ys" using assms(2) by (cases es) auto
  have "COINTpickNElemsFromCV t (full es) 0 1 = Inr (full [x])"
    using COINTpick0 [of t 1 es] con_okD(4) [OF assms(1)] es by simp
  with es SHcreateShape_sh [of "[1]"] show ?thesis
    by (simp add: COcopyScalar2OneElementVector_def COINTmakeConstant_def con_def)
qed

subsection \<open>Constants from C values\<close>

lemma alloc1_wr: "wr (allocv 1) 0 x = Inr (full [x])"
  by (simp add: wr_def allocv_def)

lemma COmakeConstantFromInt_con [const]: "COmakeConstantFromInt v = Inr (con T_int [] [CInt IInt v])"
  by (simp add: COmakeConstantFromInt_def SHmakeShape_0 alloc1_wr COINTmakeConstant_def con_def)

lemma COmakeConstantFromFloat_con [const]:
  "COmakeConstantFromFloat v = Inr (con T_float [] [CFlt FFloat v])"
  by (simp add: COmakeConstantFromFloat_def SHmakeShape_0 alloc1_wr COINTmakeConstant_def con_def)

lemma COmakeConstantFromBool_con [const]:
  "COmakeConstantFromBool v = Inr (con T_bool [] [CBool v])"
  by (simp add: COmakeConstantFromBool_def SHmakeShape_0 alloc1_wr COINTmakeConstant_def con_def)

lemma int_cells_full: "int_cells (full xs) = full (map (CInt IInt) xs)"
  by (simp add: int_cells_def full_def)

lemma rd_int_full [cmem]:
  "0 \<le> i \<Longrightarrow> i < int (length xs) \<Longrightarrow> rd_int (full (map (CInt IInt) xs)) i = Inr (xs ! nat i)"
  by (simp add: rd_int_def rd_full nat_less_iff)

lemma COmakeConstantFromShape_con [const]:
  assumes "int (length xs) \<le> int_max"
  shows "COmakeConstantFromShape (sh xs)
         = Inr (con T_int [int (length xs)] (map (CInt IInt) xs))"
  using assms SHcreateShape_sh [of "[int (length xs)]"]
  by (simp add: COmakeConstantFromShape_def Let_def SHgetDim_sh to_size_length
      SHshape2IntVec_sh int_cells_full COINTmakeConstant_con)

text \<open>Setting the extents of a new shape from a vector of integers.\<close>

lemma set_extents_loop:
  assumes "\<And>j. 0 \<le> j \<Longrightarrow> j < int (length xs) \<Longrightarrow> get j = Inr (xs ! nat j)"
  shows "bindR (SHmakeShape (int (length xs))) (\<lambda>s.
           cfor 0 (int (length xs)) (\<lambda>i s. bindR (get i) (SHsetExtent s i)) s) = Inr (sh xs)"
proof -
  have "cfor 0 (int (length xs)) (\<lambda>i s. bindR (get i) (SHsetExtent s i)) s
      = cfor 0 (int (length xs)) (\<lambda>i s. bindR (rd (full xs) i) (SHsetExtent s i)) s" for s
    by (rule cfor_cong) (simp add: assms rd_full)
  then show ?thesis
    using SHcreateShape_sh [of xs] by (cases xs) (simp_all add: SHcreateShape_def)
qed

lemma COconstant2Shape_con [const]:
  "COconstant2Shape (con T_int [n] (map (CInt IInt) xs)) = Inr (sh xs)"
  using set_extents_loop [of xs "rd_int (full (map (CInt IInt) xs))"]
  by (simp add: COconstant2Shape_def SHgetDim_sh Let_def rd_int_full)

lemma COconst2Int_con [const]: "COconst2Int (con t xs (CInt IInt v # es)) = Inr v"
  by (simp add: COconst2Int_def rd_int_def rd_def)

lemma COisEmptyVect_con [const]: "COisEmptyVect (con t xs es) = Inr (xs = [0])"
  by (cases xs) (auto simp: COisEmptyVect_def SHgetExtent_sh)

text \<open>Integer vectors.\<close>

lemma cells_ok_ints [simp]: "cells_ok T_int (map (CInt IInt) xs) \<longleftrightarrow> (\<forall>x\<in>set xs. in_ity IInt x)"
  by (auto simp: cells_ok_def cell_type_def)

lemma in_int_fits: "shape_fits xs \<Longrightarrow> x \<in> set xs \<Longrightarrow> x \<le> int_max"
proof -
  assume f: "shape_fits xs" and x: "x \<in> set xs"
  then obtain ys zs where xs: "xs = ys @ x # zs" by (meson split_list)
  have "shape_fits [x]" using f shape_fits_append [of "ys @ [x]" zs] shape_fits_append [of ys "[x]"] xs by simp
  then show ?thesis by (simp add: shape_fits_def)
qed

lemma in_ity_IInt: "in_ity IInt x \<longleftrightarrow> - 2147483648 \<le> x \<and> x \<le> int_max"
  by (simp add: in_ity_def imin_def imax_def int_max_def)

lemma shape_const_ok:
  "shape_fits xs \<Longrightarrow> int (length xs) \<le> int_max \<Longrightarrow> con_ok T_int [int (length xs)] (map (CInt IInt) xs)"
  using in_int_fits [of xs] shape_fits_nonneg [of xs]
  by (auto simp: con_ok_def shape_fits_def in_ity_IInt int_max_def)

subsection \<open>Base constants\<close>

lemma fill_loop:
  "cfor 0 (int n) (\<lambda>i d. wr d i v) (replicate n None) = Inr (full (replicate n v))"
proof -
  let ?g = "\<lambda>j. blit (replicate n None) 0 (replicate (nat j) v)"
  have "wr (?g j) j v = Inr (?g (j + 1))" if j: "0 \<le> j" "j < int n" for j
  proof -
    obtain k where k: "j = int k" "k < n" using j by (metis nonneg_int_cases of_nat_less_iff)
    then show ?thesis
      using blit_snoc [of 0 "replicate k v" "replicate n None" v]
      by (simp add: wr_def length_blit nat_add_distrib replicate_append_same)
  qed
  from cfor_traj [of 0 "int n" "\<lambda>i d. wr d i v" ?g, OF _ this] show ?thesis by simp
qed

text \<open>The cell a base constant of the type is filled with.\<close>

definition base_cell :: "'f fops \<Rightarrow> basecv_fun \<Rightarrow> simpletype \<Rightarrow> 'f cval option" where
  "base_cell F k t = (case ext_ctype (basecv_ext t) of None \<Rightarrow> None | Some ct \<Rightarrow> basecv_value F k ct)"

lemma CObaseCv_con [const]:
  assumes "shape_fits xs" and "base_cell F k t = Some v"
  shows "CObaseCv F k t (sh xs)
         = Inr (Some (con (ext_simpletype (basecv_ext t)) xs (replicate (nat (prod_list xs)) v)))"
  using assms shape_fits_prod [OF assms(1)]
    fill_loop [of "nat (prod_list xs)" v] COmakeConstant_con [of xs "replicate (nat (prod_list xs)) v"]
  by (auto simp: CObaseCv_def base_cell_def SHgetUnrLen_sh to_size_ok allocv_def split: option.splits)

lemma CObaseCv_none [const]:
  "base_cell F k t = None \<Longrightarrow> CObaseCv F k t shp = Inr None"
  by (auto simp: CObaseCv_def base_cell_def split: option.splits)

lemma base_cell_typed:
  "base_cell F k t = Some v \<Longrightarrow>
     cell_type (ext_simpletype (basecv_ext t)) = Some (ctype_of v) \<and> cval_ok v
     \<and> cv2cv_ext (ext_simpletype (basecv_ext t)) \<noteq> EDummy"
  by (cases "basecv_ext t") (auto simp: base_cell_def cell_type_def)

lemma base_const_ok:
  assumes "shape_fits xs" and "base_cell F k t = Some v"
  shows "con_ok (ext_simpletype (basecv_ext t)) xs (replicate (nat (prod_list xs)) v)"
  using assms(1) shape_fits_prod [OF assms(1)] base_cell_typed [OF assms(2)]
  by (auto simp: con_ok_def cells_ok_def)

end
