(* ===== verification/Constants_Ari.thy ===== *)
theory Constants_Ari
  imports Constants_Basic
begin

text \<open>
  Arithmetic on constants, \<open>src/libsac2c/constants/constants_ari_ops.c\<close>: \<open>COzip\<close> and
  \<open>COzipUnary\<close> with the operations built on them.  A \<open>tmp\<close> argument, which the code
  ignores, is left out; the debug output is not modelled.

  The lemmas show that each operation is the elementwise application of its scalar
  operation, broadcasting a scalar operand, and that the result satisfies the invariant of
  constants; the locale \<open>pointwise\<close> states what follows from that alone.
\<close>

subsection \<open>The zippers\<close>

text \<open>Allocation of the result: \<open>CONSTANT_SIZEOF (a, target_type)\<close> has the length of \<open>a\<close>.\<close>

definition zip_alloc :: "simpletype \<Rightarrow> 'f const \<Rightarrow> 'f const \<Rightarrow> 'f const cres" where
  "zip_alloc target a src =
     (if target \<noteq> T_unknown
      then bindR (SHcopyShape (COgetShape src)) (\<lambda>s.
             COmakeConstant target s (COINTallocCV target (CONSTANT_VLEN a)))
      else COcopyConstant src)"

definition COzip ::
  "'f fops \<Rightarrow> zop \<Rightarrow> 'f const \<Rightarrow> 'f const \<Rightarrow> simpletype \<Rightarrow> 'f const cres" where
  "COzip F z a b target =
     dbug_assert ''COzip'' (CONSTANT_TYPE a = CONSTANT_TYPE b)
     (let apply = (\<lambda>ia ib res.
        bindR (cfor 0 (int (CONSTANT_VLEN res)) (\<lambda>i cv.
                 COzipCv F z (CONSTANT_TYPE b) (CONSTANT_ELEMS a) (ia i)
                   (CONSTANT_ELEMS b) (ib i) cv i) (CONSTANT_ELEMS res))
          (\<lambda>cv. Inr (res\<lparr>CONSTANT_ELEMS := cv\<rparr>))) in
      if CONSTANT_DIM a = 0
      then bindR (zip_alloc target a b) (apply (\<lambda>i. 0) (\<lambda>i. i))
      else if CONSTANT_DIM b = 0
      then bindR (zip_alloc target a a) (apply (\<lambda>i. i) (\<lambda>i. 0))
      else bindR (SHcompareShapes (CONSTANT_SHAPE a) (CONSTANT_SHAPE b)) (\<lambda>same.
             if same
             then bindR (zip_alloc target a a) (apply (\<lambda>i. i) (\<lambda>i. i))
             else Inl (Unreachable ''COzip'')))"

definition COzipUnary :: "'f fops \<Rightarrow> zop \<Rightarrow> 'f const \<Rightarrow> simpletype \<Rightarrow> 'f const cres" where
  "COzipUnary F z a target =
     bindR (zip_alloc target a a) (\<lambda>res.
     bindR (cfor 0 (int (CONSTANT_VLEN res)) (\<lambda>i cv.
              COzipCv F z (CONSTANT_TYPE a) (CONSTANT_ELEMS a) i [] 0 cv i)
            (CONSTANT_ELEMS res))
       (\<lambda>cv. Inr (res\<lparr>CONSTANT_ELEMS := cv\<rparr>)))"

subsection \<open>Binary operations\<close>

definition COadd :: "'f fops \<Rightarrow> 'f const \<Rightarrow> 'f const \<Rightarrow> 'f const cres" where
  "COadd F a b = COzip F ZPlus a b T_unknown"

definition COsub :: "'f fops \<Rightarrow> 'f const \<Rightarrow> 'f const \<Rightarrow> 'f const cres" where
  "COsub F a b = COzip F ZMinus a b T_unknown"

definition COmul :: "'f fops \<Rightarrow> 'f const \<Rightarrow> 'f const \<Rightarrow> 'f const cres" where
  "COmul F a b = COzip F ZMul a b T_unknown"

definition COdiv :: "'f fops \<Rightarrow> 'f const \<Rightarrow> 'f const \<Rightarrow> 'f const cres" where
  "COdiv F a b = COzip F ZDiv a b T_unknown"

definition COmod :: "'f fops \<Rightarrow> 'f const \<Rightarrow> 'f const \<Rightarrow> 'f const cres" where
  "COmod F a b = COzip F ZMod a b T_unknown"

definition COaplmod :: "'f fops \<Rightarrow> 'f const \<Rightarrow> 'f const \<Rightarrow> 'f const cres" where
  "COaplmod F a b = COzip F ZAplMod a b T_unknown"

definition COmin :: "'f fops \<Rightarrow> 'f const \<Rightarrow> 'f const \<Rightarrow> 'f const cres" where
  "COmin F a b = COzip F ZMin a b T_unknown"

definition COmax :: "'f fops \<Rightarrow> 'f const \<Rightarrow> 'f const \<Rightarrow> 'f const cres" where
  "COmax F a b = COzip F ZMax a b T_unknown"

definition COand :: "'f fops \<Rightarrow> 'f const \<Rightarrow> 'f const \<Rightarrow> 'f const cres" where
  "COand F a b = COzip F ZAnd a b T_unknown"

definition COor :: "'f fops \<Rightarrow> 'f const \<Rightarrow> 'f const \<Rightarrow> 'f const cres" where
  "COor F a b = COzip F ZOr a b T_unknown"

text \<open>The variants whose first argument is not used.\<close>

definition COsimd_add :: "'f fops \<Rightarrow> 'f const \<Rightarrow> 'f const \<Rightarrow> 'f const \<Rightarrow> 'f const cres" where
  "COsimd_add F dummy a b = COzip F ZPlus a b T_unknown"

definition COsimd_sub :: "'f fops \<Rightarrow> 'f const \<Rightarrow> 'f const \<Rightarrow> 'f const \<Rightarrow> 'f const cres" where
  "COsimd_sub F dummy a b = COzip F ZMinus a b T_unknown"

definition COsimd_mul :: "'f fops \<Rightarrow> 'f const \<Rightarrow> 'f const \<Rightarrow> 'f const \<Rightarrow> 'f const cres" where
  "COsimd_mul F dummy a b = COzip F ZMul a b T_unknown"

definition COsimd_div :: "'f fops \<Rightarrow> 'f const \<Rightarrow> 'f const \<Rightarrow> 'f const \<Rightarrow> 'f const cres" where
  "COsimd_div F dummy a b = COzip F ZDiv a b T_unknown"

subsection \<open>Comparisons\<close>

definition COle :: "'f fops \<Rightarrow> 'f const \<Rightarrow> 'f const \<Rightarrow> 'f const cres" where
  "COle F a b = COzip F ZLe a b T_bool"

definition COlt :: "'f fops \<Rightarrow> 'f const \<Rightarrow> 'f const \<Rightarrow> 'f const cres" where
  "COlt F a b = COzip F ZLt a b T_bool"

definition COge :: "'f fops \<Rightarrow> 'f const \<Rightarrow> 'f const \<Rightarrow> 'f const cres" where
  "COge F a b = COzip F ZGe a b T_bool"

definition COgt :: "'f fops \<Rightarrow> 'f const \<Rightarrow> 'f const \<Rightarrow> 'f const cres" where
  "COgt F a b = COzip F ZGt a b T_bool"

definition COeq :: "'f fops \<Rightarrow> 'f const \<Rightarrow> 'f const \<Rightarrow> 'f const cres" where
  "COeq F a b = COzip F ZEq a b T_bool"

definition COneq :: "'f fops \<Rightarrow> 'f const \<Rightarrow> 'f const \<Rightarrow> 'f const cres" where
  "COneq F a b = COzip F ZNeq a b T_bool"

subsection \<open>Unary operations\<close>

definition COnot :: "'f fops \<Rightarrow> 'f const \<Rightarrow> 'f const cres" where
  "COnot F a = COzipUnary F ZNot a T_unknown"

definition COtob :: "'f fops \<Rightarrow> 'f const \<Rightarrow> 'f const cres" where
  "COtob F a = COzipUnary F ZTob a T_byte"

definition COtos :: "'f fops \<Rightarrow> 'f const \<Rightarrow> 'f const cres" where
  "COtos F a = COzipUnary F ZTos a T_short"

definition COtobool :: "'f fops \<Rightarrow> 'f const \<Rightarrow> 'f const cres" where
  "COtobool F a = COzipUnary F ZTobool a T_bool"

definition COtoc :: "'f fops \<Rightarrow> 'f const \<Rightarrow> 'f const cres" where
  "COtoc F a = COzipUnary F ZToc a T_char"

definition COtoi :: "'f fops \<Rightarrow> 'f const \<Rightarrow> 'f const cres" where
  "COtoi F a = COzipUnary F ZToi a T_int"

definition COtol :: "'f fops \<Rightarrow> 'f const \<Rightarrow> 'f const cres" where
  "COtol F a = COzipUnary F ZTol a T_long"

definition COtoll :: "'f fops \<Rightarrow> 'f const \<Rightarrow> 'f const cres" where
  "COtoll F a = COzipUnary F ZToll a T_longlong"

definition COtoub :: "'f fops \<Rightarrow> 'f const \<Rightarrow> 'f const cres" where
  "COtoub F a = COzipUnary F ZToub a T_ubyte"

definition COtous :: "'f fops \<Rightarrow> 'f const \<Rightarrow> 'f const cres" where
  "COtous F a = COzipUnary F ZTous a T_ushort"

definition COtoui :: "'f fops \<Rightarrow> 'f const \<Rightarrow> 'f const cres" where
  "COtoui F a = COzipUnary F ZToui a T_uint"

definition COtoul :: "'f fops \<Rightarrow> 'f const \<Rightarrow> 'f const cres" where
  "COtoul F a = COzipUnary F ZToul a T_ulong"

definition COtoull :: "'f fops \<Rightarrow> 'f const \<Rightarrow> 'f const cres" where
  "COtoull F a = COzipUnary F ZToull a T_ulonglong"

definition COtof :: "'f fops \<Rightarrow> 'f const \<Rightarrow> 'f const cres" where
  "COtof F a = COzipUnary F ZTof a T_float"

definition COtod :: "'f fops \<Rightarrow> 'f const \<Rightarrow> 'f const cres" where
  "COtod F a = COzipUnary F ZTod a T_double"

definition COabs :: "'f fops \<Rightarrow> 'f const \<Rightarrow> 'f const cres" where
  "COabs F a = COzipUnary F ZAbs a T_unknown"

definition COneg :: "'f fops \<Rightarrow> 'f const \<Rightarrow> 'f const cres" where
  "COneg F a = COzipUnary F ZNeg a T_unknown"

definition COreciproc :: "'f fops \<Rightarrow> 'f const \<Rightarrow> 'f const cres" where
  "COreciproc F a =
     bindR (COmakeOne F (COgetType a) (COgetShape a)) (\<lambda>one.
       case one of
         None \<Rightarrow> Inl NullDeref
       | Some one \<Rightarrow> COzip F ZDiv one a T_unknown)"

fun bool_of_cell :: "'f cval \<Rightarrow> bool cres" where
  "bool_of_cell (CBool b) = Inr b"
| "bool_of_cell _ = Inl WrongType"

definition rd_bool :: "'f cval cvec \<Rightarrow> int \<Rightarrow> bool cres" where
  "rd_bool v i = bindR (rd v i) bool_of_cell"

definition COall :: "'f const \<Rightarrow> 'f const cres" where
  "COall a =
     dbug_assert ''COall'' (CONSTANT_DIM a = 1)
     (bindR (cfor 0 (int (CONSTANT_VLEN a))
               (\<lambda>i all. if all then rd_bool (CONSTANT_ELEMS a) i else Inr all) True)
        COmakeConstantFromBool)"

subsection \<open>What the zippers compute\<close>

text \<open>
  The shape of the result (a scalar operand takes the shape of the other one) and the
  pairs of elements that are combined.
\<close>

definition zip_shape :: "int list \<Rightarrow> int list \<Rightarrow> int list option" where
  "zip_shape xs ys = (if xs = [] then Some ys else if ys = [] then Some xs
                      else if xs = ys then Some xs else None)"

definition zip_pairs :: "int list \<Rightarrow> int list \<Rightarrow> 'a list \<Rightarrow> 'a list \<Rightarrow> ('a \<times> 'a) list" where
  "zip_pairs xs ys es fs =
     (if xs = [] then map (\<lambda>f. (es ! 0, f)) fs
      else if ys = [] then map (\<lambda>e. (e, fs ! 0)) es
      else zip es fs)"

definition zip_elems ::
  "'f fops \<Rightarrow> zop \<Rightarrow> int list \<Rightarrow> int list \<Rightarrow> 'f cval list \<Rightarrow> 'f cval list \<Rightarrow> 'f cval list cres" where
  "zip_elems F z xs ys es fs = mapR (\<lambda>(a, b). zop_elem F z a b) (zip_pairs xs ys es fs)"

text \<open>The type of the result of a comparison or conversion, and of other operations.\<close>

definition zip_type :: "simpletype \<Rightarrow> simpletype \<Rightarrow> simpletype" where
  "zip_type t target = (if target = T_unknown then t else target)"

definition target_ok :: "zop \<Rightarrow> simpletype \<Rightarrow> simpletype \<Rightarrow> bool" where
  "target_ok z t target \<longleftrightarrow>
     (case cell_type t of None \<Rightarrow> False | Some ct \<Rightarrow> cell_type (zip_type t target) = Some (zop_res z ct))"

lemma cell_type_nonDummy: "cell_type t = Some ct \<Longrightarrow> cv2cv_ext t \<noteq> EDummy"
  by (auto simp: cell_type_def)

lemma target_ok_nonDummy: "target_ok z t target \<Longrightarrow> cv2cv_ext (zip_type t target) \<noteq> EDummy"
  by (auto simp: target_ok_def cell_type_nonDummy split: option.splits)

text \<open>Allocation from an operand of as many elements as the result.\<close>

lemma zip_alloc_con:
  assumes "con_ok t xs es" and "con_ok t ys fs" and "target = T_unknown \<or> length es = length fs"
    and "cv2cv_ext (zip_type t target) \<noteq> EDummy"
  obtains d where "zip_alloc target (con t xs es) (con t ys fs)
      = Inr \<lparr>CONSTANT_TYPE = zip_type t target, CONSTANT_SHAPE = sh ys, CONSTANT_ELEMS = d,
             CONSTANT_VLEN = length fs\<rparr>"
    and "length d = length fs"
proof (cases "target = T_unknown")
  case True
  with assms that show ?thesis
    by (simp add: zip_alloc_def zip_type_def COcopyConstant_con) (simp add: con_def)
next
  case False
  have "zip_alloc target (con t xs es) (con t ys fs)
      = Inr \<lparr>CONSTANT_TYPE = zip_type t target, CONSTANT_SHAPE = sh ys,
             CONSTANT_ELEMS = replicate (length fs) None, CONSTANT_VLEN = length fs\<rparr>"
    using False assms to_size_prod [of ys] con_ok_length [of t ys fs]
    by (simp add: zip_alloc_def zip_type_def SHcopyShape_sh COmakeConstant_def con_okD
        SHgetUnrLen_sh COINTmakeConstant_def)
  with that show ?thesis by simp
qed

text \<open>The loop of all four branches.\<close>

lemma zip_loop:
  assumes "zip_supports z t" and "cells_ok t es" and "cells_ok t fs" and "length d = n"
    and "\<And>j. 0 \<le> j \<Longrightarrow> j < int n \<Longrightarrow> 0 \<le> ia j \<and> ia j < int (length es)"
    and "\<And>j. 0 \<le> j \<Longrightarrow> j < int n \<Longrightarrow> \<not> zop_unary z \<Longrightarrow> 0 \<le> ib j \<and> ib j < int (length fs)"
  shows "cfor 0 (int n) (\<lambda>i cv. COzipCv F z t (full es) (ia i) (full fs) (ib i) cv i) d
         = bindR (mapR (\<lambda>k. zop_elem F z (es ! nat (ia (int k))) (fs ! nat (ib (int k)))) [0..<n])
             (\<lambda>rs. Inr (full rs))"
proof -
  let ?h = "\<lambda>j. zop_elem F z (es ! nat (ia j)) (fs ! nat (ib j))"
  have "cfor 0 (int n) (\<lambda>i cv. COzipCv F z t (full es) (ia i) (full fs) (ib i) cv i) d
      = cfor 0 (int n) (\<lambda>i v. bindR (?h i) (wr v i)) d"
    using assms by (intro cfor_cong COzipCv_full) auto
  also have "\<dots> = bindR (mapR ?h (map int [0..<n])) (\<lambda>rs. Inr (full rs))"
    using assms(4) by (rule cfor_collect)
  finally show ?thesis by (simp add: mapR_map)
qed

lemma mapR_index:
  "mapR (\<lambda>k. f (xs ! k)) [0..<length xs] = mapR f xs"
  using mapR_map [of f "\<lambda>k. xs ! k" "[0..<length xs]"] by (simp add: map_nth)

lemma mapR_index_zip:
  assumes "length xs = length ys"
  shows "mapR (\<lambda>k. f (xs ! k) (ys ! k)) [0..<length xs] = mapR (\<lambda>(x, y). f x y) (zip xs ys)"
proof -
  have "mapR (\<lambda>k. f (xs ! k) (ys ! k)) [0..<length xs]
      = mapR (\<lambda>k. case zip xs ys ! k of (x, y) \<Rightarrow> f x y) [0..<length xs]"
    using assms by (intro mapR_cong) auto
  with mapR_index [of "\<lambda>(x, y). f x y" "zip xs ys"] assms show ?thesis by simp
qed

lemma mapR_con:
  "n = length ps \<Longrightarrow>
     bindR (mapR f ps) (\<lambda>rs. Inr \<lparr>CONSTANT_TYPE = t, CONSTANT_SHAPE = sh xs,
                                   CONSTANT_ELEMS = full rs, CONSTANT_VLEN = n\<rparr>)
     = bindR (mapR f ps) (\<lambda>rs. Inr (con t xs rs))"
  by (intro bindR_cong refl) (simp add: con_def mapR_length)

lemma COzip_con [const]:
  assumes a: "con_ok t xs es" and b: "con_ok t ys fs"
    and z: "zip_supports z t" "\<not> zop_unary z" "target_ok z t target"
    and s: "zip_shape xs ys = Some ss"
    and room: "target = T_unknown \<or> xs \<noteq> [] \<or> length fs = 1"
  shows "COzip F z (con t xs es) (con t ys fs) target
         = bindR (zip_elems F z xs ys es fs) (\<lambda>rs. Inr (con (zip_type t target) ss rs))"
proof -
  have ok: "cv2cv_ext (zip_type t target) \<noteq> EDummy" using z(3) by (rule target_ok_nonDummy)
  note loop = zip_loop [OF z(1) con_okD(3) [OF a] con_okD(3) [OF b]]
  consider "xs = []" | "xs \<noteq> []" "ys = []" | "xs \<noteq> []" "ys \<noteq> []" "xs = ys"
    using s by (auto simp: zip_shape_def split: if_splits)
  then show ?thesis
  proof cases
    case 1
    then have l: "length es = 1" using a con_ok_scalar by blast
    obtain d where d: "zip_alloc target (con t xs es) (con t ys fs)
        = Inr \<lparr>CONSTANT_TYPE = zip_type t target, CONSTANT_SHAPE = sh ys, CONSTANT_ELEMS = d,
               CONSTANT_VLEN = length fs\<rparr>" "length d = length fs"
      using 1 l room by (auto intro: zip_alloc_con [OF a b _ ok])
    from 1 l s show ?thesis
      using d(1) loop [where ia = "\<lambda>i. 0" and ib = "\<lambda>i. i", OF d(2), of F]
      by (simp add: COzip_def Let_def zip_elems_def zip_pairs_def zip_shape_def
          mapR_map bindR_assoc mapR_con mapR_index [of "zop_elem F z (es ! 0)"])
  next
    case 2
    then have l: "length fs = 1" using b con_ok_scalar by blast
    obtain d where d: "zip_alloc target (con t xs es) (con t xs es)
        = Inr \<lparr>CONSTANT_TYPE = zip_type t target, CONSTANT_SHAPE = sh xs, CONSTANT_ELEMS = d,
               CONSTANT_VLEN = length es\<rparr>" "length d = length es"
      by (auto intro: zip_alloc_con [OF a a _ ok])
    from 2 l s show ?thesis
      using d(1) loop [where ia = "\<lambda>i. i" and ib = "\<lambda>i. 0", OF d(2), of F]
      by (simp add: COzip_def Let_def zip_elems_def zip_pairs_def zip_shape_def
          mapR_map bindR_assoc mapR_con mapR_index [of "\<lambda>e. zop_elem F z e (fs ! 0)"])
  next
    case 3
    then have l: "length es = length fs" using a b con_ok_length by metis
    obtain d where d: "zip_alloc target (con t xs es) (con t xs es)
        = Inr \<lparr>CONSTANT_TYPE = zip_type t target, CONSTANT_SHAPE = sh xs, CONSTANT_ELEMS = d,
               CONSTANT_VLEN = length es\<rparr>" "length d = length es"
      by (auto intro: zip_alloc_con [OF a a _ ok])
    have "cfor 0 (int (length es)) (\<lambda>i cv. COzipCv F z t (full es) i (full fs) i cv i) d
        = bindR (mapR (\<lambda>(a, b). zop_elem F z a b) (zip es fs)) (\<lambda>rs. Inr (full rs))"
      using loop [where ia = "\<lambda>i. i" and ib = "\<lambda>i. i", OF d(2), of F]
        mapR_index_zip [OF l, of "zop_elem F z"] l by simp
    moreover have "ss = xs" "ys = xs" using 3 s by (auto simp: zip_shape_def)
    ultimately show ?thesis
      using d(1) 3(1)
      by (simp add: COzip_def Let_def zip_elems_def zip_pairs_def SHcompareShapes_sh bindR_assoc
          mapR_con l)
  qed
qed

lemma COzip_shape_error [const]:
  assumes "zip_shape xs ys = None"
  shows "COzip F z (con t xs es) (con t ys fs) target = Inl (Unreachable ''COzip'')"
proof -
  have "xs \<noteq> []" "ys \<noteq> []" "xs \<noteq> ys" using assms by (auto simp: zip_shape_def split: if_splits)
  then show ?thesis by (simp add: COzip_def Let_def SHcompareShapes_sh)
qed

lemma COzip_type_error [const]:
  "t \<noteq> u \<Longrightarrow> COzip F z (con t xs es) (con u ys fs) target = Inl (AssertFail ''COzip'')"
  by (simp add: COzip_def)

lemma COzipUnary_con [const]:
  assumes a: "con_ok t xs es" and z: "zip_supports z t" "zop_unary z" "target_ok z t target"
  shows "COzipUnary F z (con t xs es) target
         = bindR (mapR (zop_un F z) es) (\<lambda>rs. Inr (con (zip_type t target) xs rs))"
proof -
  obtain d where d: "zip_alloc target (con t xs es) (con t xs es)
      = Inr \<lparr>CONSTANT_TYPE = zip_type t target, CONSTANT_SHAPE = sh xs, CONSTANT_ELEMS = d,
             CONSTANT_VLEN = length es\<rparr>" "length d = length es"
    by (auto intro: zip_alloc_con [OF a a _ target_ok_nonDummy [OF z(3)]])
  have e: "zop_elem F z x y = zop_un F z x" for x y using z(2) by (simp add: zop_elem_def)
  show ?thesis
    using d(1) zip_loop [where fs = "[]" and ia = "\<lambda>i. i" and ib = "\<lambda>i. 0", OF z(1) con_okD(3) [OF a]
        cells_ok_Nil d(2), of F] z(2)
    by (simp add: COzipUnary_def e bindR_assoc mapR_con mapR_index [of "zop_un F z" es])
qed

text \<open>
  A comparison whose left operand is a scalar and whose right operand has more than one
  element: the result is allocated with the length of the scalar and written beyond it.
\<close>

lemma COzip_scalar_overflow:
  assumes a: "con_ok t [] es" and b: "con_ok t ys fs"
    and z: "zip_supports z t" "\<not> zop_unary z" "target_ok z t target"
    and target: "target \<noteq> T_unknown" and len: "1 < length fs"
    and total: "\<And>x y. x \<in> set es \<Longrightarrow> y \<in> set fs \<Longrightarrow> \<exists>r. zop_elem F z x y = Inr r"
  shows "COzip F z (con t [] es) (con t ys fs) target = Inl OutOfBounds"
proof -
  have l: "length es = 1" using a con_ok_scalar by blast
  have nd: "cv2cv_ext target \<noteq> EDummy" using target_ok_nonDummy [OF z(3)] target by (simp add: zip_type_def)
  have alloc: "zip_alloc target (con t [] es) (con t ys fs)
      = Inr \<lparr>CONSTANT_TYPE = target, CONSTANT_SHAPE = sh ys,
             CONSTANT_ELEMS = replicate 1 None, CONSTANT_VLEN = length fs\<rparr>"
    using target l nd b to_size_prod [of ys] con_ok_length [of t ys fs]
    by (simp add: zip_alloc_def SHcopyShape_sh COmakeConstant_def con_okD
        SHgetUnrLen_sh COINTmakeConstant_def)
  let ?h = "\<lambda>j. zop_elem F z (es ! 0) (fs ! nat j)"
  have "cfor 0 (int (length fs)) (\<lambda>i cv. COzipCv F z t (full es) 0 (full fs) i cv i) [None]
      = cfor 0 (int (length fs)) (\<lambda>i v. bindR (?h i) (wr v i)) [None]"
    using COzipCv_full [OF z(1) con_okD(3) [OF a] con_okD(3) [OF b], of 0] l
    by (intro cfor_cong) auto
  also have "\<dots> = Inl OutOfBounds"
    using len l total by (intro cfor_collect_oob) auto
  finally show ?thesis using alloc by (simp add: COzip_def Let_def)
qed

subsection \<open>The results satisfy the invariant\<close>

lemma zip_pairs_in:
  assumes "(a, b) \<in> set (zip_pairs xs ys es fs)" and "xs = [] \<Longrightarrow> es \<noteq> []" and "ys = [] \<Longrightarrow> fs \<noteq> []"
  shows "a \<in> set es \<and> b \<in> set fs"
  using assms
  by (auto simp: zip_pairs_def split: if_splits dest: set_zip_leftD set_zip_rightD)

lemma length_zip_pairs:
  assumes "con_ok t xs es" and "con_ok t ys fs" and "zip_shape xs ys = Some ss"
  shows "int (length (zip_pairs xs ys es fs)) = prod_list ss \<and> shape_fits ss"
  using assms
  by (auto simp: zip_pairs_def zip_shape_def con_ok_def split: if_splits)

lemma zip_elems_ok:
  assumes a: "con_ok t xs es" and b: "con_ok t ys fs" and s: "zip_shape xs ys = Some ss"
    and z: "\<not> zop_unary z" "target_ok z t target"
    and r: "zip_elems F z xs ys es fs = Inr rs"
  shows "con_ok (zip_type t target) ss rs"
proof -
  obtain ct where ct: "cell_type t = Some ct" "cell_type (zip_type t target) = Some (zop_res z ct)"
    using z(2) by (auto simp: target_ok_def split: option.splits)
  have typed: "cell_type (zip_type t target) = Some (ctype_of v) \<and> cval_ok v" if v: "v \<in> set rs" for v
  proof -
    obtain i where i: "i < length rs" "v = rs ! i" using v by (metis in_set_conv_nth)
    obtain p q where pq: "zip_pairs xs ys es fs ! i = (p, q)" by fastforce
    have len: "length rs = length (zip_pairs xs ys es fs)" using r by (simp add: zip_elems_def mapR_length)
    have "zop_elem F z p q = Inr v"
      using mapR_nth [OF r [unfolded zip_elems_def], of i] i len pq by simp
    moreover have "(p, q) \<in> set (zip_pairs xs ys es fs)" using i len pq by (metis nth_mem)
    then have "p \<in> set es \<and> q \<in> set fs"
      using con_ok_scalar [of t es] con_ok_scalar [of t fs] a b by (intro zip_pairs_in) auto
    then have "ctype_of p = ct" "ctype_of q = ct" "cval_ok p"
      using con_okD(3) [OF a] con_okD(3) [OF b] ct(1) by (auto simp: cells_ok_def)
    ultimately show ?thesis using zop_elem_typed [of F z p q v] ct by simp
  qed
  have "int (length rs) = prod_list ss \<and> shape_fits ss"
    using length_zip_pairs [OF a b s] r by (simp add: zip_elems_def mapR_length)
  moreover have "cv2cv_ext (zip_type t target) \<noteq> EDummy" using z(2) by (rule target_ok_nonDummy)
  ultimately show ?thesis using typed by (auto simp: con_ok_def cells_ok_def)
qed

lemma zip_unary_ok:
  assumes a: "con_ok t xs es" and z: "zop_unary z" "target_ok z t target"
    and r: "mapR (zop_un F z) es = Inr rs"
  shows "con_ok (zip_type t target) xs rs"
proof -
  obtain ct where ct: "cell_type t = Some ct" "cell_type (zip_type t target) = Some (zop_res z ct)"
    using z(2) by (auto simp: target_ok_def split: option.splits)
  have typed: "cell_type (zip_type t target) = Some (ctype_of v) \<and> cval_ok v" if v: "v \<in> set rs" for v
  proof -
    obtain i where i: "i < length rs" "v = rs ! i" using v by (metis in_set_conv_nth)
    with r have "zop_un F z (es ! i) = Inr v" "es ! i \<in> set es"
      using mapR_nth [OF r, of i] mapR_length [OF r] by simp_all
    then show ?thesis
      using con_okD(3) [OF a] ct zop_un_typed [OF _ _ z(1), of F "es ! i" v] by (auto simp: cells_ok_def)
  qed
  moreover have "length rs = length es" using r by (rule mapR_length)
  moreover have "cv2cv_ext (zip_type t target) \<noteq> EDummy" using z(2) by (rule target_ok_nonDummy)
  ultimately show ?thesis using a by (auto simp: con_ok_def cells_ok_def)
qed

subsection \<open>Pointwise operations\<close>

text \<open>
  The contract of a binary operation on constants of one type and shape: it applies
  \<open>elem\<close> to corresponding elements, delivers the type \<open>rt\<close>, and keeps the invariant.
\<close>

locale pointwise =
  fixes op :: "'f const \<Rightarrow> 'f const \<Rightarrow> 'f const cres"
    and elem :: "'f cval \<Rightarrow> 'f cval \<Rightarrow> 'f cval cres"
    and supports :: "simpletype \<Rightarrow> bool"
    and rt :: "simpletype \<Rightarrow> simpletype"
  assumes pw: "con_ok t xs es \<Longrightarrow> con_ok t xs fs \<Longrightarrow> supports t \<Longrightarrow>
      op (con t xs es) (con t xs fs)
      = bindR (mapR (\<lambda>(a, b). elem a b) (zip es fs)) (\<lambda>rs. Inr (con (rt t) xs rs))"
    and pw_ok: "con_ok t xs es \<Longrightarrow> con_ok t xs fs \<Longrightarrow> supports t \<Longrightarrow>
      mapR (\<lambda>(a, b). elem a b) (zip es fs) = Inr rs \<Longrightarrow> con_ok (rt t) xs rs"
begin

lemma keeps_ok:
  assumes "con_ok t xs es" and "con_ok t xs fs" and "supports t"
    and "op (con t xs es) (con t xs fs) = Inr c"
  shows "co_ok c"
  using assms pw_ok [OF assms(1-3)] by (auto simp: pw bindR_Inr_iff)

lemma elements:
  assumes "con_ok t xs es" and "con_ok t xs fs" and "supports t"
    and "op (con t xs es) (con t xs fs) = Inr c"
  obtains rs where "c = con (rt t) xs rs" and "con_ok (rt t) xs rs"
    and "length rs = length es" and "\<And>i. i < length es \<Longrightarrow> elem (es ! i) (fs ! i) = Inr (rs ! i)"
proof -
  obtain rs where rs: "mapR (\<lambda>(a, b). elem a b) (zip es fs) = Inr rs" "c = con (rt t) xs rs"
    using assms by (auto simp: pw bindR_Inr_iff)
  have len: "length fs = length es" using assms(1,2) con_ok_length by metis
  then have "length rs = length es" using mapR_length [OF rs(1)] by simp
  moreover have "elem (es ! i) (fs ! i) = Inr (rs ! i)" if "i < length es" for i
    using mapR_nth [OF rs(1), of i] that len by simp
  ultimately show ?thesis using that rs pw_ok [OF assms(1-3) rs(1)] by blast
qed

lemma succeeds:
  assumes "con_ok t xs es" and "con_ok t xs fs" and "supports t" and "length rs = length es"
    and "\<And>i. i < length es \<Longrightarrow> elem (es ! i) (fs ! i) = Inr (rs ! i)"
  shows "op (con t xs es) (con t xs fs) = Inr (con (rt t) xs rs)"
proof -
  have "length fs = length es" using assms(1,2) con_ok_length by metis
  then have "mapR (\<lambda>(a, b). elem a b) (zip es fs) = Inr rs"
    using assms(4,5) by (simp add: mapR_Inr_iff list_all2_conv_all_nth)
  then show ?thesis using assms by (simp add: pw)
qed

lemma fails:
  assumes "con_ok t xs es" and "con_ok t xs fs" and "supports t"
    and "op (con t xs es) (con t xs fs) = Inl e"
  shows "\<exists>a\<in>set es. \<exists>b\<in>set fs. elem a b = Inl e"
proof -
  have "mapR (\<lambda>(a, b). elem a b) (zip es fs) = Inl e" using assms by (auto simp: pw bindR_Inl_iff)
  then show ?thesis by (force dest: mapR_Inl set_zip_leftD set_zip_rightD)
qed

lemma commutes:
  assumes "con_ok t xs es" and "con_ok t xs fs" and "supports t"
    and "\<And>a b. a \<in> set es \<Longrightarrow> b \<in> set fs \<Longrightarrow> elem a b = elem b a"
  shows "op (con t xs es) (con t xs fs) = op (con t xs fs) (con t xs es)"
proof -
  have "mapR (\<lambda>(a, b). elem a b) (zip fs es) = mapR (\<lambda>(a, b). elem b a) (zip es fs)"
    by (subst zip_commute) (simp add: mapR_map case_prod_unfold)
  also have "\<dots> = mapR (\<lambda>(a, b). elem a b) (zip es fs)"
    using assms(4) by (intro mapR_cong) (force dest: set_zip_leftD set_zip_rightD)+
  finally show ?thesis using assms by (simp add: pw)
qed

end

text \<open>\<open>COzip\<close> meets the contract for every operation and target type of the file.\<close>

lemma zip_shape_same [simp]: "zip_shape xs xs = Some xs"
  by (simp add: zip_shape_def)

lemma zip_pairs_same: "con_ok t xs es \<Longrightarrow> con_ok t xs fs \<Longrightarrow> zip_pairs xs xs es fs = zip es fs"
proof (cases "xs = []")
  case True
  moreover assume "con_ok t xs es" "con_ok t xs fs"
  ultimately have "length es = 1" "length fs = 1" using con_ok_scalar by blast+
  then obtain a b where "es = [a]" "fs = [b]" by (auto simp: length_Suc_conv)
  with True show ?thesis by (simp add: zip_pairs_def)
qed (simp add: zip_pairs_def)

lemma COzip_pointwise:
  assumes "\<not> zop_unary z" and "\<And>t. zip_supports z t \<Longrightarrow> target_ok z t target"
  shows "pointwise (\<lambda>a b. COzip F z a b target) (zop_bin F z) (zip_supports z)
           (\<lambda>t. zip_type t target)"
proof
  fix t xs and es fs rs :: "'a cval list"
  assume a: "con_ok t xs es" and b: "con_ok t xs fs" and s: "zip_supports z t"
  have el: "zip_elems F z xs xs es fs = mapR (\<lambda>(a, b). zop_bin F z a b) (zip es fs)"
    using assms(1) by (simp add: zip_elems_def zip_pairs_same [OF a b] zop_elem_def)
  have room: "target = T_unknown \<or> xs \<noteq> [] \<or> length fs = 1" using b con_ok_scalar by blast
  show "COzip F z (con t xs es) (con t xs fs) target
      = bindR (mapR (\<lambda>(a, b). zop_bin F z a b) (zip es fs))
          (\<lambda>rs. Inr (con (zip_type t target) xs rs))"
    using COzip_con [OF a b s assms(1) assms(2) [OF s] zip_shape_same room] el by simp
  assume "mapR (\<lambda>(a, b). zop_bin F z a b) (zip es fs) = Inr rs"
  then show "con_ok (zip_type t target) xs rs"
    using zip_elems_ok [OF a b zip_shape_same assms(1) assms(2) [OF s]] el by simp
qed

text \<open>Which results have the type of the operands.\<close>

lemma zip_type_simps [simp]: "zip_type t T_unknown = t" "zip_type t T_bool = T_bool"
  by (simp_all add: zip_type_def)

lemma target_ok_same:
  "zip_supports z t \<Longrightarrow> (\<And>ct. zop_res z ct = ct) \<Longrightarrow> target_ok z t T_unknown"
  by (erule zip_supports_ext) (simp add: target_ok_def)

lemma target_ok_res:
  "zip_supports z t \<Longrightarrow> (\<And>ct. Some (zop_res z ct) = cell_type u) \<Longrightarrow> u \<noteq> T_unknown
     \<Longrightarrow> target_ok z t u"
  by (erule zip_supports_ext) (auto simp: target_ok_def zip_type_def)

lemma pointwise_same:
  assumes "\<And>a b. op a b = COzip F z a b T_unknown" and "\<not> zop_unary z" and "\<And>ct. zop_res z ct = ct"
  shows "pointwise op (zop_bin F z) (zip_supports z) (\<lambda>t. t)"
proof -
  have "op = (\<lambda>a b. COzip F z a b T_unknown)" by (intro ext assms(1))
  then show ?thesis
    using COzip_pointwise [of z T_unknown F, OF assms(2) target_ok_same] assms(3) by simp
qed

lemma pointwise_bool:
  assumes "\<And>a b. op a b = COzip F z a b T_bool" and "\<not> zop_unary z" and "\<And>ct. zop_res z ct = TBool"
  shows "pointwise op (zop_bin F z) (zip_supports z) (\<lambda>t. T_bool)"
proof -
  have "op = (\<lambda>a b. COzip F z a b T_bool)" by (intro ext assms(1))
  then show ?thesis
    using COzip_pointwise [of z T_bool F, OF assms(2) target_ok_res] assms(3)
    by (simp add: cell_type_def)
qed

interpretation add: pointwise "COadd F" "zop_bin F ZPlus" "zip_supports ZPlus" "\<lambda>t. t" for F
  by (rule pointwise_same [OF COadd_def]) simp_all

interpretation sub: pointwise "COsub F" "zop_bin F ZMinus" "zip_supports ZMinus" "\<lambda>t. t" for F
  by (rule pointwise_same [OF COsub_def]) simp_all

interpretation mul: pointwise "COmul F" "zop_bin F ZMul" "zip_supports ZMul" "\<lambda>t. t" for F
  by (rule pointwise_same [OF COmul_def]) simp_all

interpretation div: pointwise "COdiv F" "zop_bin F ZDiv" "zip_supports ZDiv" "\<lambda>t. t" for F
  by (rule pointwise_same [OF COdiv_def]) simp_all

interpretation mod: pointwise "COmod F" "zop_bin F ZMod" "zip_supports ZMod" "\<lambda>t. t" for F
  by (rule pointwise_same [OF COmod_def]) simp_all

interpretation aplmod: pointwise "COaplmod F" "zop_bin F ZAplMod" "zip_supports ZAplMod" "\<lambda>t. t" for F
  by (rule pointwise_same [OF COaplmod_def]) simp_all

interpretation min: pointwise "COmin F" "zop_bin F ZMin" "zip_supports ZMin" "\<lambda>t. t" for F
  by (rule pointwise_same [OF COmin_def]) simp_all

interpretation max: pointwise "COmax F" "zop_bin F ZMax" "zip_supports ZMax" "\<lambda>t. t" for F
  by (rule pointwise_same [OF COmax_def]) simp_all

interpretation conj: pointwise "COand F" "zop_bin F ZAnd" "zip_supports ZAnd" "\<lambda>t. t" for F
  by (rule pointwise_same [OF COand_def]) simp_all

interpretation disj: pointwise "COor F" "zop_bin F ZOr" "zip_supports ZOr" "\<lambda>t. t" for F
  by (rule pointwise_same [OF COor_def]) simp_all

interpretation le: pointwise "COle F" "zop_bin F ZLe" "zip_supports ZLe" "\<lambda>t. T_bool" for F
  by (rule pointwise_bool [OF COle_def]) simp_all

interpretation lt: pointwise "COlt F" "zop_bin F ZLt" "zip_supports ZLt" "\<lambda>t. T_bool" for F
  by (rule pointwise_bool [OF COlt_def]) simp_all

interpretation ge: pointwise "COge F" "zop_bin F ZGe" "zip_supports ZGe" "\<lambda>t. T_bool" for F
  by (rule pointwise_bool [OF COge_def]) simp_all

interpretation gt: pointwise "COgt F" "zop_bin F ZGt" "zip_supports ZGt" "\<lambda>t. T_bool" for F
  by (rule pointwise_bool [OF COgt_def]) simp_all

interpretation eq: pointwise "COeq F" "zop_bin F ZEq" "zip_supports ZEq" "\<lambda>t. T_bool" for F
  by (rule pointwise_bool [OF COeq_def]) simp_all

interpretation neq: pointwise "COneq F" "zop_bin F ZNeq" "zip_supports ZNeq" "\<lambda>t. T_bool" for F
  by (rule pointwise_bool [OF COneq_def]) simp_all

subsection \<open>Constants of integers\<close>

definition int_type :: "simpletype \<Rightarrow> ity option" where
  "int_type t = (case (ext_class (zipcv_ext t), cell_type t) of
     (Some cl, Some (TInt it)) \<Rightarrow> if cl = CL_SINT \<or> cl = CL_UINT then Some it else None
   | _ \<Rightarrow> None)"

lemma int_typeD:
  assumes "int_type t = Some it"
  obtains cl where "ext_class (zipcv_ext t) = Some cl" and "cl = CL_SINT \<or> cl = CL_UINT"
    and "cell_type t = Some (TInt it)"
  using assms by (auto simp: int_type_def split: option.splits ctype.splits if_splits)

lemma int_type_supports:
  assumes "int_type t = Some it" and "CL_SINT \<in> set (zop_classes z)" and "CL_UINT \<in> set (zop_classes z)"
  shows "zip_supports z t"
  using assms by (auto simp: zip_supports_def elim!: int_typeD)

lemma int_type_class:
  assumes "int_type t = Some it"
  shows "ext_class (zipcv_ext t) = Some (if isigned it then CL_SINT else CL_UINT)"
proof -
  obtain cl where cl: "ext_class (zipcv_ext t) = Some cl" "cell_type t = Some (TInt it)"
      "cl = CL_SINT \<or> cl = CL_UINT"
    using assms by (rule int_typeD)
  then have "zipcv_ext t \<noteq> EDummy" by auto
  then have "ext_ctype (zipcv_ext t) = Some (TInt it)"
    using cl(2) cv2cv_ext_zipcv [of t] by (simp add: cell_type_def)
  with cl show ?thesis by (cases "zipcv_ext t") auto
qed

lemma cells_ok_int:
  assumes "cells_ok t es" and "int_type t = Some it"
  obtains xs where "es = map (CInt it) xs" and "\<forall>x\<in>set xs. in_ity it x"
proof -
  have "\<exists>x. e = CInt it x \<and> in_ity it x" if "e \<in> set es" for e
    using assms that by (cases e) (auto simp: cells_ok_def elim!: int_typeD)
  then obtain f where f: "\<forall>e\<in>set es. e = CInt it (f e) \<and> in_ity it (f e)" by metis
  show ?thesis
  proof (rule that [of "map f es"])
    show "es = map (CInt it) (map f es)" using f by (simp add: comp_def cong: map_cong)
    show "\<forall>x\<in>set (map f es). in_ity it x" using f by auto
  qed
qed

lemma con_ok_int_vals:
  assumes "con_ok t xs es" and "int_type t = Some it"
  obtains vs where "es = map (CInt it) vs" and "\<forall>v\<in>set vs. in_ity it v" and "length vs = length es"
  using cells_ok_int [OF con_okD(3) [OF assms(1)] assms(2)] by (metis length_map)

text \<open>Comparisons never fail.\<close>

definition comparison :: "zop \<Rightarrow> bool" where
  "comparison z \<longleftrightarrow> z \<in> {ZEq, ZNeq, ZLe, ZLt, ZGt, ZGe}"

lemma comparison_simps:
  assumes "comparison z" shows "\<not> zop_unary z" and "zop_res z ct = TBool"
  using assms by (auto simp: comparison_def)

lemma comparison_supports: "comparison z \<Longrightarrow> ext_class (zipcv_ext t) \<noteq> None \<Longrightarrow> zip_supports z t"
  by (auto simp: zip_supports_def comparison_def MAP_ANY_def intro: tclass.exhaust)

lemma comparison_total:
  assumes "comparison z" and "zip_supports z t" and "cells_ok t es" and "cells_ok t fs"
    and "x \<in> set es" and "y \<in> set fs"
  shows "\<exists>r. zop_elem F z x y = Inr r"
proof -
  obtain cl ct where cl: "ext_class (zipcv_ext t) = Some cl" "ext_ctype (zipcv_ext t) = Some ct"
      "cell_type t = Some ct"
    using assms(2) by (elim zip_supports_ext)
  have "ctype_of x = ct" "ctype_of y = ct" using assms cl by (auto simp: cells_ok_def)
  moreover have "ct \<noteq> TFVec" "ct \<noteq> TPtr" using cl by (cases "zipcv_ext t"; auto)+
  ultimately show ?thesis
    using assms(1) by (cases x; cases y) (auto simp: comparison_def zop_elem_def)
qed

subsection \<open>Properties\<close>

text \<open>
  C29: \<open>COzip\<close> on two constants of one base type, the first of which is not a scalar unless
  the result keeps the type of the operands, applies the scalar operation of the table
  element by element, a scalar second operand (or first one) being used for every element; the result
  has the shape of the operand that is not a scalar.
\<close>

theorem COzip_elementwise:
  assumes "con_ok t xs es" and "con_ok t ys fs"
    and "zip_supports z t" and "\<not> zop_unary z" and "target_ok z t target"
    and "zip_shape xs ys = Some ss"
    and "target = T_unknown \<or> xs \<noteq> [] \<or> length fs = 1"
  shows "COzip F z (con t xs es) (con t ys fs) target
         = bindR (zip_elems F z xs ys es fs) (\<lambda>rs. Inr (con (zip_type t target) ss rs))"
  using assms by (rule COzip_con)

lemma COzip_elementwise_witness:
  "COzip int_fops ZPlus (con T_int [2] [CInt IInt 1, CInt IInt 2]) (con T_int [] [CInt IInt 40]) T_unknown
   = Inr (con T_int [2] [CInt IInt 41, CInt IInt 42])"
  using COzip_elementwise [of T_int "[2]" "[CInt IInt 1, CInt IInt 2]" "[]" "[CInt IInt 40]" ZPlus T_unknown "[2]" int_fops]
  by (simp add: con_ok_def cells_ok_def cell_type_def shape_fits_def int_max_def in_ity_def imin_def
      imax_def zip_supports_def MAP_NUM_def target_ok_def zip_shape_def zip_elems_def zip_pairs_def
      zop_elem_def iprom_def iarith_def)

text \<open>
  Whatever constants \<open>COzip\<close> returns satisfy the invariant of constants: one element per index
  of the shape, all of the cell type of the base type and in range.
\<close>

theorem COzip_keeps_invariant:
  assumes "con_ok t xs es" and "con_ok t ys fs"
    and "zip_supports z t" and "\<not> zop_unary z" and "target_ok z t target"
    and "target = T_unknown \<or> xs \<noteq> [] \<or> length fs = 1"
    and "COzip F z (con t xs es) (con t ys fs) target = Inr c"
  shows "co_ok c"
proof (cases "zip_shape xs ys")
  case None
  with assms(7) show ?thesis by (simp add: COzip_shape_error)
next
  case (Some ss)
  then show ?thesis
    using assms zip_elems_ok [OF assms(1,2) Some assms(4,5), of F]
    by (auto simp: COzip_con bindR_Inr_iff)
qed

lemma COzip_keeps_invariant_witness:
  "\<exists>c. COzip int_fops ZLt (con T_int [] [CInt IInt 1]) (con T_int [] [CInt IInt 2]) T_bool = Inr c
     \<and> co_ok c"
proof -
  have ok: "con_ok T_int [] [CInt IInt 1 :: int cval]" "con_ok T_int [] [CInt IInt 2 :: int cval]"
    "zip_supports ZLt T_int" "target_ok ZLt T_int T_bool"
    by (simp_all add: con_ok_def cells_ok_def cell_type_def int_max_def in_ity_def imin_def
      imax_def zip_supports_def MAP_ANY_def target_ok_def)
  moreover have "COzip int_fops ZLt (con T_int [] [CInt IInt 1]) (con T_int [] [CInt IInt 2]) T_bool
      = Inr (con T_bool [] [CBool True])"
    using COzip_con [of T_int "[]" "[CInt IInt 1]" "[]" "[CInt IInt 2]" ZLt T_bool "[]" int_fops] ok
    by (simp add: zip_shape_def zip_elems_def zip_pairs_def zop_elem_def iprom_def iarith_def zip_type_def)
  ultimately show ?thesis
    using COzip_keeps_invariant [of T_int "[]" "[CInt IInt 1]" "[]" "[CInt IInt 2]" ZLt T_bool int_fops]
    by simp
qed

text \<open>
  A comparison of a scalar constant with a constant of more than one element writes past the end of
  its result: the result is allocated with the length of the scalar (\<open>CONSTANT_SIZEOF (a, target_type)\<close>).
\<close>

theorem compare_scalar_overflow:
  assumes "con_ok t [] es" and "con_ok t ys fs" and "ext_class (zipcv_ext t) \<noteq> None" and "1 < length fs"
  shows "\<forall>op\<in>set [COle F, COlt F, COge F, COgt F, COeq F, COneq F].
           op (con t [] es) (con t ys fs) = Inl OutOfBounds"
proof -
  have "COzip F z (con t [] es) (con t ys fs) T_bool = Inl OutOfBounds" if z: "comparison z" for z
  proof (rule COzip_scalar_overflow)
    show s: "zip_supports z t" using comparison_supports z assms(3) .
    show "target_ok z t T_bool"
      using comparison_simps(2) [OF z] by (intro target_ok_res [OF s]) (simp_all add: cell_type_def)
    show "\<exists>r. zop_elem F z x y = Inr r" if "x \<in> set es" "y \<in> set fs" for x y
      using comparison_total [OF z s con_okD(3) [OF assms(1)] con_okD(3) [OF assms(2)] that] .
  qed (use assms comparison_simps(1) [OF z] in auto)
  then show ?thesis
    by (simp add: COle_def COlt_def COge_def COgt_def COeq_def COneq_def comparison_def)
qed

lemma compare_scalar_overflow_witness:
  "COeq int_fops (con T_int [] [CInt IInt 0]) (con T_int [2] [CInt IInt 0, CInt IInt 1]) = Inl OutOfBounds"
  using compare_scalar_overflow [of T_int "[CInt IInt 0]" "[2]" "[CInt IInt 0, CInt IInt 1]" int_fops]
  by (simp add: con_ok_def cells_ok_def cell_type_def shape_fits_def int_max_def in_ity_def imin_def imax_def)

subsection \<open>Properties of integer constants\<close>

lemma iconv_cong: "x mod 2 ^ ibits t = y mod 2 ^ ibits t \<Longrightarrow> iconv t x = iconv t y"
  unfolding iconv_def by (metis mod_diff_left_eq)

lemma iconv_iconv_diff: "iconv t (iconv t (x + y) - y) = iconv t x"
proof (rule iconv_cong)
  have "(iconv t (x + y) - y) mod 2 ^ ibits t = (iconv t (x + y) mod 2 ^ ibits t - y) mod 2 ^ ibits t"
    by (rule mod_diff_left_eq [symmetric])
  also have "\<dots> = ((x + y) mod 2 ^ ibits t - y) mod 2 ^ ibits t" by (simp only: iconv_mod)
  also have "\<dots> = (x + y - y) mod 2 ^ ibits t" by (rule mod_diff_left_eq)
  finally show "(iconv t (x + y) - y) mod 2 ^ ibits t = x mod 2 ^ ibits t" by simp
qed

lemma iconv_iarith: "iarith t x = Inr r \<Longrightarrow> iconv t r = iconv t x"
  by (auto simp: iarith_cases split: if_splits)

lemma iarith_total: "\<not> isigned t \<or> in_ity t x \<Longrightarrow> \<exists>r. iarith t x = Inr r"
  by (auto simp: iarith_cases)

lemma int_add_sub:
  assumes a: "in_ity t a" and b: "in_ity t b" and r: "iarith (iprom t) (a + b) = Inr r"
  shows "\<exists>q. iarith (iprom t) (iconv t r - b) = Inr q \<and> iconv t q = a"
proof (cases "ibits t < 32")
  case True
  then have p: "iprom t = IInt" by (simp add: iprom_def)
  have small: "\<bar>x\<bar> \<le> 65535" if "in_ity t x" for x
    using that True by (cases t) (auto simp: in_ity_def imin_def imax_def)
  have "in_ity IInt (a + b)" "in_ity IInt (iconv t (a + b) - b)"
    using small [OF a] small [OF b] small [OF iconv_in_ity [of t "a + b"]]
    unfolding in_ity_IInt int_max_def by linarith+
  with r p a show ?thesis by (auto simp: iarith_cases iconv_iconv_diff)
next
  case False
  then have p: "iprom t = t" by (simp add: iprom_def)
  have ab: "iconv t r = iconv t (a + b)" using r p iconv_iarith by simp
  have "\<not> isigned t \<or> in_ity t (iconv t r - b)"
    using r p a by (auto simp: iarith_cases split: if_splits)
  then obtain q where "iarith t (iconv t r - b) = Inr q" using iarith_total by blast
  moreover from this have "iconv t q = a" using a by (simp add: iconv_iarith ab iconv_iconv_diff)
  ultimately show ?thesis using p by simp
qed

text \<open>
  For every integer base type, subtracting what was added gives back the constant,
  whenever the addition is defined: no element overflows in the subtraction, and the
  wrap-around of the unsigned and of the narrow types cancels.
\<close>

theorem COsub_COadd:
  assumes "con_ok t xs es" and "con_ok t xs fs" and "int_type t = Some it"
    and "COadd F (con t xs es) (con t xs fs) = Inr c"
  shows "COsub F c (con t xs fs) = Inr (con t xs es)"
proof -
  have s: "zip_supports ZPlus t" "zip_supports ZMinus t"
    using assms(3) by (auto intro: int_type_supports simp: MAP_NUM_def)
  obtain rs where rs: "c = con t xs rs" "con_ok t xs rs" "length rs = length es"
      "\<And>i. i < length es \<Longrightarrow> zop_bin F ZPlus (es ! i) (fs ! i) = Inr (rs ! i)"
    using add.elements [OF assms(1,2) s(1) assms(4)] by blast
  have len: "length fs = length es" using assms(1,2) con_ok_length by metis
  obtain as bs where as: "es = map (CInt it) as" "\<forall>v\<in>set as. in_ity it v"
    and bs: "fs = map (CInt it) bs" "\<forall>v\<in>set bs. in_ity it v"
    using con_ok_int_vals [OF assms(1,3)] con_ok_int_vals [OF assms(2,3)] by metis
  have "zop_bin F ZMinus (rs ! i) (fs ! i) = Inr (es ! i)" if i: "i < length es" for i
  proof -
    have l: "i < length as" "i < length bs" using i len as bs by auto
    obtain r where r: "iarith (iprom it) (as ! i + bs ! i) = Inr r" "rs ! i = CInt it (iconv it r)"
      using rs(4) [OF i] l as(1) bs(1) by (auto simp: bindR_Inr_iff)
    with int_add_sub [of it "as ! i" "bs ! i" r] as bs l show ?thesis by auto
  qed
  then show ?thesis
    using sub.succeeds [OF rs(2) assms(2) s(2), of es F] rs by simp
qed

lemma COsub_COadd_witness:
  "COsub int_fops (con T_ubyte [1] [CInt IUChar 44]) (con T_ubyte [1] [CInt IUChar 100])
   = Inr (con T_ubyte [1] [CInt IUChar 200])"
  using COsub_COadd [of T_ubyte "[1]" "[CInt IUChar 200]" "[CInt IUChar 100]" IUChar int_fops
      "con T_ubyte [1] [CInt IUChar 44]"]
    COzip_con [of T_ubyte "[1]" "[CInt IUChar 200]" "[1]" "[CInt IUChar 100]" ZPlus T_unknown "[1]" int_fops]
  by (simp add: con_ok_def cells_ok_def cell_type_def shape_fits_def int_max_def in_ity_def imin_def
      imax_def zip_supports_def MAP_NUM_def target_ok_def zip_elems_def zip_pairs_def
      zop_elem_def iprom_def iarith_def COadd_def int_type_def iconv_def)

text \<open>
  On integer constants \<open>COaplmod\<close> computes the mathematical remainder of every element,
  with the sign of the divisor, and the dividend itself for a zero divisor; it needs that
  no element is the least value divided by minus one.
\<close>

theorem COaplmod_mod:
  assumes "con_ok t xs (map (CInt it) as :: 'f cval list)"
    and "con_ok t xs (map (CInt it) bs :: 'f cval list)" and "int_type t = Some it"
    and "\<forall>(a, b)\<in>set (zip as bs). \<not> (isigned (iprom it) \<and> a = imin (iprom it) \<and> b = -1)"
  shows "COaplmod (F :: 'f fops) (con t xs (map (CInt it) as)) (con t xs (map (CInt it) bs))
         = Inr (con t xs (map (\<lambda>(a, b). CInt it (a mod b)) (zip as bs)))"
proof -
  have s: "zip_supports ZAplMod t" using assms(3) by (auto intro: int_type_supports simp: MAP_INT_def)
  have len: "length bs = length as"
    using con_ok_length [OF assms(1)] con_ok_length [OF assms(2)] by simp
  have ok: "in_ity it v" if "v \<in> set as \<union> set bs" for v
    using con_okD(3) [OF assms(1)] con_okD(3) [OF assms(2)] that by (auto simp: cells_ok_def)
  have "zop_bin F ZAplMod (map (CInt it) as ! i) (map (CInt it) bs ! i)
      = Inr (map (\<lambda>(a, b). CInt it (a mod b)) (zip as bs) ! i)" if i: "i < length (map (CInt it) as)" for i
  proof -
    have "(as ! i, bs ! i) \<in> set (zip as bs)" using i len by (auto simp: set_zip)
    with assms(4) have ex: "\<not> (isigned (iprom it) \<and> as ! i = imin (iprom it) \<and> bs ! i = -1)" by auto
    have in_it: "in_ity it (as ! i)" "in_ity it (bs ! i)" using i len by (auto intro: ok)
    then have "int_APLMOD (iprom it) (as ! i) (bs ! i) = Inr (as ! i mod bs ! i)"
      using ex by (intro int_APLMOD_mod in_ity_iprom)
    moreover have "in_ity it (as ! i mod bs ! i)" using in_it by (rule in_ity_mod)
    ultimately show ?thesis using i len by simp
  qed
  then show ?thesis
    using aplmod.succeeds [OF assms(1,2) s, of "map (\<lambda>(a, b). CInt it (a mod b)) (zip as bs)" F] len
    by simp
qed

lemma COaplmod_mod_witness:
  "COaplmod int_fops (con T_int [3] (map (CInt IInt) [7, -7, 5])) (con T_int [3] (map (CInt IInt) [-3, 3, 0]))
   = Inr (con T_int [3] [CInt IInt (-2), CInt IInt 2, CInt IInt 5])"
  using COaplmod_mod [of T_int "[3]" IInt "[7, -7, 5]" "[-3, 3, 0]" int_fops]
  by (simp add: con_ok_def cells_ok_def cell_type_def shape_fits_def int_max_def in_ity_def imin_def
      imax_def int_type_def iprom_def)

text \<open>
  On a constant of a signed integer type of at least 32 bits, \<open>COabs\<close> gives the absolute values, and is undefined
  (an overflow) exactly when some element is the least value of the type.
\<close>

theorem COabs_signed:
  assumes "con_ok t xs (map (CInt it) as :: 'f cval list)"
    and "int_type t = Some it" and "isigned it" and "32 \<le> ibits it"
  shows "COabs (F :: 'f fops) (con t xs (map (CInt it) as))
         = (if imin it \<in> set as then Inl IntOverflow
            else Inr (con t xs (map (\<lambda>a. CInt it \<bar>a\<bar>) as)))"
proof -
  have p: "iprom it = it" using assms(4) by (simp add: iprom_def)
  have ok: "in_ity it v" if "v \<in> set as" for v
    using con_okD(3) [OF assms(1)] that by (auto simp: cells_ok_def)
  have s: "zip_supports ZAbs t" "target_ok ZAbs t T_unknown"
    using int_type_class [OF assms(2)] assms(2,3)
    by (auto simp: zip_supports_def MAP_SNUM_def target_ok_def elim!: int_typeD)
  have un: "zop_un F ZAbs (CInt it a) = (if a = imin it then Inl IntOverflow else Inr (CInt it \<bar>a\<bar>))"
    if "a \<in> set as" for a
  proof (cases "a = imin it")
    case True
    then have "a < 0" "\<not> in_ity it (- a)" using assms(3,4) by (cases it; simp add: in_ity_def imin_def imax_def)+
    with True p assms(3) show ?thesis by (simp add: zop_un_def int_ABS_def iarith_def)
  next
    case False
    moreover have "in_ity it \<bar>a\<bar>"
      using False ok [OF that] assms(3) by (auto simp: in_ity_def imin_def imax_def)
    ultimately show ?thesis using int_ABS_ok [OF ok [OF that]] p by (simp add: zop_un_def)
  qed
  have "mapR (zop_un F ZAbs) (map (CInt it) as)
      = (if imin it \<in> set as then Inl IntOverflow else Inr (map (\<lambda>a. CInt it \<bar>a\<bar>) as))"
    using un by (induction as) auto
  then show ?thesis
    using COzipUnary_con [OF assms(1) s(1) _ s(2), of F] by (simp add: COabs_def)
qed

lemma COabs_signed_witness:
  "COabs int_fops (con T_int [2] (map (CInt IInt) [-5, -2147483648])) = Inl IntOverflow"
  using COabs_signed [of T_int "[2]" IInt "[-5, -2147483648]" int_fops]
  by (simp add: con_ok_def cells_ok_def cell_type_def shape_fits_def int_max_def in_ity_def imin_def
      imax_def int_type_def)

end
