(* ===== verification/Constants_Pred.thy ===== *)
theory Constants_Pred
  imports Constants_Ari
begin

text \<open>
  The predicates of \<open>src/libsac2c/constants/constants_basic.c\<close>: tests of all or of some
  elements against a base constant (\<open>COisZero\<close> to \<open>COisFalse\<close>) and the comparison of two
  constants (\<open>COcompareConstants\<close>).  A \<open>NULL\<close> argument, which each test rejects by an
  assertion, is not represented.

  The locale \<open>int_test\<close> is the contract of a test on integer constants; every test of the
  file is an interpretation of it.
\<close>

subsection \<open>The tests\<close>

text \<open>The loops that combine the results of a comparison.\<close>

definition and_reduce :: "'f const \<Rightarrow> bool cres" where
  "and_reduce eq = cfor 0 (int (CONSTANT_VLEN eq))
     (\<lambda>i result. if result then rd_bool (CONSTANT_ELEMS eq) i else Inr False) True"

definition or_reduce :: "'f const \<Rightarrow> bool cres" where
  "or_reduce eq = cfor 0 (int (CONSTANT_VLEN eq))
     (\<lambda>i result. if result then Inr True else rd_bool (CONSTANT_ELEMS eq) i) False"

definition COisZero :: "'f fops \<Rightarrow> 'f const \<Rightarrow> bool \<Rightarrow> bool cres" where
  "COisZero F a all =
     bindR (SHmakeShape 0) (\<lambda>s.
     bindR (COmakeZero F (COgetType a) s) (\<lambda>zero.
       case zero of
         Some zero \<Rightarrow> bindR (COeq F a zero) (\<lambda>eq. if all then and_reduce eq else or_reduce eq)
       | None \<Rightarrow> Inr False))"

definition COisNonNeg :: "'f fops \<Rightarrow> 'f const \<Rightarrow> bool \<Rightarrow> bool cres" where
  "COisNonNeg F a all =
     bindR (SHmakeShape 0) (\<lambda>s.
     bindR (COmakeZero F (COgetType a) s) (\<lambda>zero.
       case zero of
         Some zero \<Rightarrow> bindR (COge F a zero) (\<lambda>eq. if all then and_reduce eq else or_reduce eq)
       | None \<Rightarrow> Inr False))"

definition COisNeg :: "'f fops \<Rightarrow> 'f const \<Rightarrow> bool \<Rightarrow> bool cres" where
  "COisNeg F a all =
     bindR (SHmakeShape 0) (\<lambda>s.
     bindR (COmakeZero F (COgetType a) s) (\<lambda>zero.
       case zero of
         Some zero \<Rightarrow> bindR (COlt F a zero) (\<lambda>eq. if all then and_reduce eq else or_reduce eq)
       | None \<Rightarrow> Inr False))"

definition COisPos :: "'f fops \<Rightarrow> 'f const \<Rightarrow> bool \<Rightarrow> bool cres" where
  "COisPos F a all =
     bindR (SHmakeShape 0) (\<lambda>s.
     bindR (COmakeZero F (COgetType a) s) (\<lambda>zero.
       case zero of
         Some zero \<Rightarrow> bindR (COgt F a zero) (\<lambda>eq. if all then and_reduce eq else or_reduce eq)
       | None \<Rightarrow> Inr False))"

definition COisOne :: "'f fops \<Rightarrow> 'f const \<Rightarrow> bool \<Rightarrow> bool cres" where
  "COisOne F a all =
     bindR (SHmakeShape 0) (\<lambda>s.
     bindR (COmakeOne F (COgetType a) s) (\<lambda>one.
       case one of
         Some one \<Rightarrow> bindR (COeq F a one) (\<lambda>eq. if all then and_reduce eq else or_reduce eq)
       | None \<Rightarrow> Inr False))"

definition COisTrue :: "'f fops \<Rightarrow> 'f const \<Rightarrow> bool \<Rightarrow> bool cres" where
  "COisTrue F a all = COisOne F a all"

definition COisFalse :: "'f fops \<Rightarrow> 'f const \<Rightarrow> bool \<Rightarrow> bool cres" where
  "COisFalse F a all = COisZero F a all"

text \<open>The test of the types and of the dimensions compares \<open>c1\<close> with itself, as the code does.\<close>

definition COcompareConstants :: "'f fops \<Rightarrow> 'f const \<Rightarrow> 'f const \<Rightarrow> bool cres" where
  "COcompareConstants F c1 c2 =
     bindR (if COgetType c1 = COgetType c1 \<and> COgetDim c1 = COgetDim c1
            then SHcompareShapes (COgetShape c1) (COgetShape c2) else Inr False) (\<lambda>same.
       if same then bindR (COeq F c1 c2) and_reduce else Inr False)"

subsection \<open>Reductions\<close>

lemma rd_bool_full [cmem]:
  "0 \<le> i \<Longrightarrow> i < int (length bs) \<Longrightarrow> rd_bool (full (map CBool bs)) i = Inr (bs ! nat i)"
  by (simp add: rd_bool_def rd_full nat_less_iff)

lemma take_Suc_all: "k < length bs \<Longrightarrow> list_all P (take (Suc k) bs) \<longleftrightarrow> list_all P (take k bs) \<and> P (bs ! k)"
  by (simp add: take_Suc_conv_app_nth)

lemma take_Suc_ex: "k < length bs \<Longrightarrow> list_ex P (take (Suc k) bs) \<longleftrightarrow> list_ex P (take k bs) \<or> P (bs ! k)"
  by (simp add: take_Suc_conv_app_nth)

lemma reduce_step:
  assumes "0 \<le> j" and "j < int (length bs)"
  obtains k where "j = int k" and "k < length bs" and "nat (j + 1) = Suc k"
  using assms by (metis nat_int nonneg_int_cases of_nat_less_iff of_nat_Suc add.commute)

lemma and_reduce_con: "and_reduce (con t xs (map CBool bs) :: 'f const) = Inr (list_all id bs)"
proof -
  let ?f = "\<lambda>i r. if r then rd_bool (full (map CBool bs) :: 'f cval cvec) i else Inr False"
  let ?g = "\<lambda>j. list_all id (take (nat j) bs)"
  have "?f j (?g j) = Inr (?g (j + 1))" if "0 \<le> j" "j < int (length bs)" for j
    by (rule reduce_step [OF that]) (auto simp: rd_bool_full take_Suc_all)
  from cfor_traj [of 0 "int (length bs)" ?f ?g, OF _ this] show ?thesis by (simp add: and_reduce_def cong: if_cong)
qed

lemma or_reduce_con: "or_reduce (con t xs (map CBool bs) :: 'f const) = Inr (list_ex id bs)"
proof -
  let ?f = "\<lambda>i r. if r then Inr True else rd_bool (full (map CBool bs) :: 'f cval cvec) i"
  let ?g = "\<lambda>j. list_ex id (take (nat j) bs)"
  have "?f j (?g j) = Inr (?g (j + 1))" if "0 \<le> j" "j < int (length bs)" for j
    by (rule reduce_step [OF that]) (auto simp: rd_bool_full take_Suc_ex)
  from cfor_traj [of 0 "int (length bs)" ?f ?g, OF _ this] show ?thesis by (simp add: or_reduce_def cong: if_cong)
qed

subsection \<open>Tests of integer constants\<close>

text \<open>The types whose base constants have the type itself: all but the device variants.\<close>

definition host_int :: "simpletype \<Rightarrow> ity \<Rightarrow> bool" where
  "host_int t it \<longleftrightarrow> int_type t = Some it \<and> ext_simpletype (basecv_ext t) = t"

locale int_test =
  fixes test :: "'f const \<Rightarrow> bool \<Rightarrow> bool cres" and P :: "int \<Rightarrow> bool"
  assumes test_int: "host_int t it \<Longrightarrow> con_ok t xs (map (CInt it) as :: 'f cval list) \<Longrightarrow>
      test (con t xs (map (CInt it) as)) all
      = Inr (if all then \<forall>a\<in>set as. P a else \<exists>a\<in>set as. P a)"
begin

lemma all_imp_some:
  assumes "host_int t it" and "con_ok t xs (map (CInt it) as :: 'f cval list)" and "as \<noteq> []"
    and "test (con t xs (map (CInt it) as)) True = Inr True"
  shows "test (con t xs (map (CInt it) as)) False = Inr True"
proof -
  have "\<forall>a\<in>set as. P a" using assms(4) test_int [OF assms(1,2), of True] by simp
  with assms(3) have "\<exists>a\<in>set as. P a" by (cases as) auto
  then show ?thesis using test_int [OF assms(1,2), of False] by simp
qed

lemma empty:
  assumes "host_int t it" and "con_ok t xs ([] :: 'f cval list)"
  shows "test (con t xs []) True = Inr True" and "test (con t xs []) False = Inr False"
  using test_int [of t it xs "[]"] assms by simp_all

end

text \<open>
  A comparison of every element with the one element of a base constant, and the two
  reductions.
\<close>

lemma base_compare:
  assumes h: "host_int t it" and ok: "con_ok t xs (map (CInt it) as :: 'f cval list)"
    and z: "comparison z" and b: "in_ity it b"
  shows "COzip (F :: 'f fops) z (con t xs (map (CInt it) as)) (con t [] [CInt it b]) T_bool
         = Inr (con T_bool xs (map CBool (map (\<lambda>a. projr (int_cmp z a b)) as)))"
proof -
  have it: "int_type t = Some it" using h by (simp add: host_int_def)
  have cl: "ext_class (zipcv_ext t) \<noteq> None" using int_type_class [OF it] by simp
  have s: "zip_supports z t" using comparison_supports [OF z cl] .
  have ct: "cell_type t = Some (TInt it)" using it by (rule int_typeD)
  have okb: "con_ok t [] [CInt it b :: 'f cval]"
    using b ct by (simp add: con_ok_def cells_ok_def cell_type_nonDummy)
  have tgt: "target_ok z t T_bool"
    using comparison_simps(2) [OF z] by (intro target_ok_res [OF s]) (simp_all add: cell_type_def)
  have el: "zop_elem F z (CInt it a :: 'f cval) (CInt it b) = Inr (CBool (projr (int_cmp z a b)))" for a
    using z by (auto simp: zop_elem_def comparison_def)
  have room: "T_bool = T_unknown \<or> xs \<noteq> [] \<or> length [CInt it b :: 'f cval] = 1" by simp
  have shp: "zip_shape xs [] = Some xs" by (simp add: zip_shape_def)
  have "zip_elems F z xs [] (map (CInt it) as) [CInt it b]
      = Inr (map CBool (map (\<lambda>a. projr (int_cmp z a b)) as))"
  proof (cases "xs = []")
    case True
    then have "length as = 1" using con_ok_scalar ok by fastforce
    then obtain a where "as = [a]" by (auto simp: length_Suc_conv)
    with True show ?thesis by (simp add: zip_elems_def zip_pairs_def el)
  next
    case False
    then show ?thesis by (simp add: zip_elems_def zip_pairs_def mapR_map el)
  qed
  with COzip_con [OF ok okb s comparison_simps(1) [OF z] tgt shp room, of F] show ?thesis by simp
qed

lemma base_cell_int:
  assumes "host_int t it"
  shows "base_cell F k t = Some (CInt it (iconv it (basecv_int k)))"
proof -
  have it: "int_type t = Some it" using assms by (simp add: host_int_def)
  have "zipcv_ext t \<noteq> EDummy" using int_type_class [OF it] by auto
  moreover have "cell_type t = Some (TInt it)" using it by (rule int_typeD)
  ultimately have z: "ext_ctype (zipcv_ext t) = Some (TInt it)"
    using cv2cv_ext_zipcv [of t] by (simp add: cell_type_def)
  moreover have "t \<noteq> T_floatvec" using z by auto
  ultimately show ?thesis by (simp add: base_cell_def basecv_ext_cases)
qed

lemma base_const_int:
  assumes "host_int t it"
  shows "CObaseCv F k t (sh []) = Inr (Some (con t [] [CInt it (iconv it (basecv_int k))]))"
  using CObaseCv_con [of "[]" F k t, OF _ base_cell_int [OF assms]] assms
  by (simp add: host_int_def)

lemma base_test:
  assumes "host_int t it" and "con_ok t xs (map (CInt it) as :: 'f cval list)" and "comparison z"
    and "in_ity it b"
  shows "bindR (COzip (F :: 'f fops) z (con t xs (map (CInt it) as)) (con t [] [CInt it b]) T_bool)
           (\<lambda>eq. if all then and_reduce eq else or_reduce eq)
         = Inr (if all then \<forall>a\<in>set as. projr (int_cmp z a b) else \<exists>a\<in>set as. projr (int_cmp z a b))"
  unfolding base_compare [OF assms] bindR_simps and_reduce_con or_reduce_con
  by (simp add: list_all_iff list_ex_iff)

lemmas test_defs = COisZero_def COisNonNeg_def COisNeg_def COisPos_def COisOne_def
  COmakeZero_def COmakeOne_def COeq_def COge_def COlt_def COgt_def

interpretation zero: int_test "COisZero F" "\<lambda>a. a = 0" for F
  by standard (simp add: test_defs SHmakeShape_0 base_const_int base_test comparison_def)

interpretation nonneg: int_test "COisNonNeg F" "\<lambda>a. 0 \<le> a" for F
  by standard (simp add: test_defs SHmakeShape_0 base_const_int base_test comparison_def)

interpretation neg: int_test "COisNeg F" "\<lambda>a. a < 0" for F
  by standard (simp add: test_defs SHmakeShape_0 base_const_int base_test comparison_def)

interpretation pos: int_test "COisPos F" "\<lambda>a. 0 < a" for F
  by standard (simp add: test_defs SHmakeShape_0 base_const_int base_test comparison_def)

interpretation one: int_test "COisOne F" "\<lambda>a. a = 1" for F
  by standard (simp add: test_defs SHmakeShape_0 base_const_int base_test comparison_def)

interpretation true: int_test "COisTrue F" "\<lambda>a. a = 1" for F
  by standard (simp add: COisTrue_def one.test_int)

interpretation false: int_test "COisFalse F" "\<lambda>a. a = 0" for F
  by standard (simp add: COisFalse_def zero.test_int)

subsection \<open>Comparison of constants\<close>

text \<open>
  The types on whose elements \<open>==\<close> is identity: integers, characters and truth values.  On floating point values it
  is not.
\<close>

definition exact_type :: "simpletype \<Rightarrow> bool" where
  "exact_type t \<longleftrightarrow> ext_class (zipcv_ext t) \<notin> {None, Some CL_FLOAT}"

lemma exact_cells:
  assumes "exact_type t"
  obtains it where "cell_type t = Some (TInt it)" | "cell_type t = Some TBool"
  using assms by (cases t) (auto simp: exact_type_def cell_type_def)

lemma exact_int: "int_type t = Some it \<Longrightarrow> exact_type t"
  by (auto simp: exact_type_def elim!: int_typeD)

lemma exact_bool: "exact_type T_bool"
  by (simp add: exact_type_def)

lemma elem_eq:
  assumes "exact_type t" and "cell_type t = Some (ctype_of x)" and "ctype_of y = ctype_of x"
  shows "zop_elem F ZEq x y = Inr (CBool (x = y))"
  using assms by (elim exact_cells; cases x; cases y) (auto simp: zop_elem_def)

lemma COeq_exact:
  assumes "con_ok t xs es" and "con_ok t xs fs" and "exact_type t"
  shows "COeq F (con t xs es) (con t xs fs) = Inr (con T_bool xs (map CBool (map (\<lambda>(a, b). a = b) (zip es fs))))"
proof -
  have s: "zip_supports ZEq t"
    using assms(3) by (intro comparison_supports) (simp_all add: comparison_def exact_type_def)
  have len: "length fs = length es" using con_ok_length [OF assms(1)] con_ok_length [OF assms(2)] by simp
  have cell: "cell_type t = Some (ctype_of (es ! i)) \<and> ctype_of (fs ! i) = ctype_of (es ! i)" if "i < length es" for i
  proof -
    have "cell_type t = Some (ctype_of (es ! i))" "cell_type t = Some (ctype_of (fs ! i))"
      using con_okD(3) [OF assms(1)] con_okD(3) [OF assms(2)] len that by (simp_all add: cells_ok_def)
    then show ?thesis by simp
  qed
  have "zop_bin F ZEq (es ! i) (fs ! i) = Inr (CBool (es ! i = fs ! i))" if "i < length es" for i
    using elem_eq [OF assms(3), of "es ! i" "fs ! i" F] cell [OF that] by (simp add: zop_elem_def)
  then show ?thesis by (intro eq.succeeds [OF assms(1,2) s]) (simp_all add: len)
qed

lemma list_all_eq_zip: "length as = length bs \<Longrightarrow> list_all id (map (\<lambda>(a, b). a = b) (zip as bs)) \<longleftrightarrow> as = bs"
  by (induction as bs rule: list_induct2) auto

lemma compare_exact:
  assumes "con_ok t xs es" and "con_ok t ys fs" and "exact_type t"
  shows "COcompareConstants F (con t xs es) (con t ys fs) = Inr (con t xs es = con t ys fs)"
proof (cases "xs = ys")
  case False
  then show ?thesis by (simp add: COcompareConstants_def SHcompareShapes_sh)
next
  case True
  have len: "length es = length fs"
    using con_ok_length [OF assms(1)] con_ok_length [OF assms(2)] True by simp
  show ?thesis
    using assms True COeq_exact [of t xs es fs F]
    by (simp add: COcompareConstants_def SHcompareShapes_sh and_reduce_con list_all_eq_zip [OF len] del: map_map)
qed

text \<open>
  \<open>COcompareConstants\<close> decides equality of constants of one base type that is not a floating point type: different
  shapes give \<open>False\<close>, equal shapes give the equality of the elements.
\<close>

lemma COcompareConstants_eq_witness:
  "COcompareConstants int_fops (con T_long [2] [CInt ILong 1, CInt ILong 2]) (con T_long [2] [CInt ILong 1, CInt ILong 3])
   = Inr False"
  using compare_exact [of T_long "[2]" "[CInt ILong 1, CInt ILong 2]" "[2]" "[CInt ILong 1, CInt ILong 3]" int_fops]
  by (simp add: exact_type_def con_ok_def cells_ok_def cell_type_def shape_fits_def int_max_def in_ity_def imin_def
      imax_def int_type_def)

text \<open>
  Comparing constants of equal shape and different base types does not give \<open>False\<close> but aborts: the
  test of the types compares the first constant with itself, and \<open>COzip\<close> asserts that they agree.
\<close>

theorem COcompareConstants_types:
  assumes "t \<noteq> u"
  shows "COcompareConstants F (con t xs es) (con u xs fs) = Inl (AssertFail ''COzip'')"
  using assms by (simp add: COcompareConstants_def SHcompareShapes_sh COeq_def COzip_type_error)

lemma COcompareConstants_types_witness:
  "COcompareConstants int_fops (con T_int [] [CInt IInt 1]) (con T_bool [] [CBool True])
   = Inl (AssertFail ''COzip'')"
  by (rule COcompareConstants_types) simp

text \<open>
  The seven tests on integer constants: with the flag they hold when every element is zero, not
  negative, negative, positive or one, without it when some element is.
\<close>

theorem CO_tests_int:
  assumes "host_int t it" and "con_ok t xs (map (CInt it) as :: 'f cval list)"
  shows "\<forall>(test, P) \<in> set [(COisZero (F :: 'f fops), \<lambda>a. a = 0), (COisNonNeg F, \<lambda>a. 0 \<le> a), (COisNeg F, \<lambda>a. a < 0),
           (COisPos F, \<lambda>a. 0 < a), (COisOne F, \<lambda>a. a = 1), (COisTrue F, \<lambda>a. a = 1), (COisFalse F, \<lambda>a. a = 0)].
           test (con t xs (map (CInt it) as)) True = Inr (\<forall>a\<in>set as. P a)
         \<and> test (con t xs (map (CInt it) as)) False = Inr (\<exists>a\<in>set as. P a)"
  by (simp add: zero.test_int [OF assms] nonneg.test_int [OF assms] neg.test_int [OF assms]
      pos.test_int [OF assms] one.test_int [OF assms] true.test_int [OF assms] false.test_int [OF assms])

lemma CO_tests_int_witness:
  "COisNeg int_fops (con T_int [3] (map (CInt IInt) [1, -2, 3])) False = Inr True
   \<and> COisPos int_fops (con T_int [3] (map (CInt IInt) [1, -2, 3])) True = Inr False"
  using CO_tests_int [of T_int IInt "[3]" "[1, -2, 3]" int_fops]
  by (simp add: con_ok_def cells_ok_def cell_type_def shape_fits_def int_max_def in_ity_def imin_def
      imax_def int_type_def host_int_def)

text \<open>
  On a constant of a device base type the tests abort: the base constant has the host type, and
  \<open>COzip\<close> asserts that the types agree.
\<close>

theorem CO_tests_device:
  assumes "t \<in> {T_int_dev, T_long_dev, T_longlong_dev, T_int_shmem, T_long_shmem, T_longlong_shmem,
                T_int_dist, T_long_dist, T_longlong_dist}"
  shows "COisZero F (con t xs es) all = Inl (AssertFail ''COzip'')
       \<and> COisOne F (con t xs es) all = Inl (AssertFail ''COzip'')"
proof -
  obtain v w where "base_cell F BZero t = Some v" "base_cell F BOne t = Some w"
    using assms by (auto simp: base_cell_def)
  moreover have "t \<noteq> ext_simpletype (basecv_ext t)" using assms by auto
  ultimately show ?thesis
    using CObaseCv_con [of "[]" F _ t]
    by (simp_all add: test_defs SHmakeShape_0 COzip_type_error)
qed

lemma CO_tests_device_witness:
  "COisZero int_fops (con T_int_dev [] [CInt IInt 0]) True = Inl (AssertFail ''COzip'')"
  using CO_tests_device [of T_int_dev int_fops "[]" "[CInt IInt 0]" True] by simp

end
