(* ===== verification/New_Types.thy ===== *)
theory New_Types
  imports Constants_Pred
begin

text \<open>
  The types of the compiler, \<open>src/libsac2c/typecheck/new_types.c\<close>: the data structure
  \<open>NTYPE\<close> with its makers, accessors and predicates, copying, the comparison
  \<open>TYcmpTypes\<close> and the least upper bound \<open>TYlubOfTypes\<close>.

  An \<open>ntype\<close> is a tree of constructor nodes: the tag and the attribute of the node (one
  value \<open>tattr\<close>, since the tag selects the member of the union), the flags (\<open>meta\<close>) and
  the array of sons.  \<open>NullT\<close> is the null pointer.  Sharing between types is not observable,
  since every operation copies or consumes its arguments.  Type variables, functions and
  namespaces are the numbers of their addresses.  The operations on user defined types need
  the table of their aliases, the field \<open>udt_alias\<close> of the environment; \<open>fops\<close> is the
  floating point arithmetic used when constants are compared.
\<close>

subsection \<open>The data structure\<close>

datatype mutcScope = MUTC_GLOBAL | MUTC_SHARED | MUTC_LOCAL

datatype mutcUsage =
    MUTC_US_DEFAULT | MUTC_US_FUNPARAMIO | MUTC_US_FUNPARAM | MUTC_US_THREADPARAMIO
  | MUTC_US_THREADPARAM | MUTC_US_FUNARG

datatype distmem_dis = Dis | Ndi | Dsm

record polyuser =
  pu_outer :: string
  pu_inner :: string
  pu_shape :: string
  pu_denest :: bool
  pu_renest :: bool

text \<open>
  The attribute of a \<open>TC_polyuser\<close> node is \<open>None\<close> until it has been written.  A message of
  \<open>None\<close> is a null pointer.
\<close>

datatype 'f tattr =
    TC_simple simpletype int
  | TC_symbol "nat option" string
  | TC_user int
  | TC_akv "'f const"
  | TC_aks shape
  | TC_akd nat "shape option"
  | TC_aud
  | TC_audgz
  | TC_prod
  | TC_union
  | TC_ovfun
  | TC_fun nat
  | TC_alpha nat
  | TC_bottom "string option"
  | TC_poly string
  | TC_polyuser "polyuser option"

record meta =
  mutcscope :: mutcScope
  mutcusage :: mutcUsage
  uniq :: bool
  distributed :: distmem_dis

datatype 'f ntype = NullT | NT "'f tattr" meta "'f ntype list"

definition default_meta :: meta where
  "default_meta = \<lparr>mutcscope = MUTC_GLOBAL, mutcusage = MUTC_US_DEFAULT, uniq = False,
     distributed = Ndi\<rparr>"

definition MakeNtype :: "'f tattr \<Rightarrow> nat \<Rightarrow> 'f ntype" where
  "MakeNtype tc arity = NT tc default_meta (replicate arity NullT)"

fun NTYPE_CON :: "'f ntype \<Rightarrow> 'f tattr cres" where
  "NTYPE_CON (NT a m sons) = Inr a"
| "NTYPE_CON NullT = Inl NullDeref"

fun NTYPE_ARITY :: "'f ntype \<Rightarrow> nat cres" where
  "NTYPE_ARITY (NT a m sons) = Inr (length sons)"
| "NTYPE_ARITY NullT = Inl NullDeref"

fun NTYPE_META :: "'f ntype \<Rightarrow> meta cres" where
  "NTYPE_META (NT a m sons) = Inr m"
| "NTYPE_META NullT = Inl NullDeref"

fun NTYPE_SON :: "'f ntype \<Rightarrow> nat \<Rightarrow> 'f ntype cres" where
  "NTYPE_SON (NT a m sons) i = check OutOfBounds (i < length sons) (Inr (sons ! i))"
| "NTYPE_SON NullT i = Inl NullDeref"

fun set_NTYPE_SON :: "'f ntype \<Rightarrow> nat \<Rightarrow> 'f ntype \<Rightarrow> 'f ntype cres" where
  "set_NTYPE_SON (NT a m sons) i s = check OutOfBounds (i < length sons) (Inr (NT a m (sons[i := s])))"
| "set_NTYPE_SON NullT i s = Inl NullDeref"

fun set_meta :: "(meta \<Rightarrow> meta) \<Rightarrow> 'f ntype \<Rightarrow> 'f ntype cres" where
  "set_meta f (NT a m sons) = Inr (NT a (f m) sons)"
| "set_meta f NullT = Inl NullDeref"

subsection \<open>Sons\<close>

fun MakeNewSon :: "'f ntype \<Rightarrow> 'f ntype \<Rightarrow> 'f ntype cres" where
  "MakeNewSon (NT a m sons) son = Inr (NT a m (sons @ [son]))"
| "MakeNewSon NullT son = Inl NullDeref"

text \<open>The arity is decremented first, so a node without sons makes the counter wrap.\<close>

fun DeleteSon :: "'f ntype \<Rightarrow> nat \<Rightarrow> 'f ntype cres" where
  "DeleteSon (NT a m sons) son =
     check OutOfBounds (son < length sons) (Inr (NT a m (take son sons @ drop (Suc son) sons)))"
| "DeleteSon NullT son = Inl NullDeref"

fun IncreaseArity :: "'f ntype \<Rightarrow> nat \<Rightarrow> 'f ntype cres" where
  "IncreaseArity (NT a m sons) amount = Inr (NT a m (sons @ replicate amount NullT))"
| "IncreaseArity NullT amount = Inl NullDeref"

subsection \<open>Flags\<close>

definition TYgetMutcScope :: "'f ntype \<Rightarrow> mutcScope cres" where
  "TYgetMutcScope type = bindR (NTYPE_META type) (\<lambda>m. Inr (mutcscope m))"

definition TYgetMutcUsage :: "'f ntype \<Rightarrow> mutcUsage cres" where
  "TYgetMutcUsage type = bindR (NTYPE_META type) (\<lambda>m. Inr (mutcusage m))"

definition TYisUnique :: "'f ntype \<Rightarrow> bool cres" where
  "TYisUnique type = bindR (NTYPE_META type) (\<lambda>m. Inr (uniq m))"

definition TYgetDistributed :: "'f ntype \<Rightarrow> distmem_dis cres" where
  "TYgetDistributed type = bindR (NTYPE_META type) (\<lambda>m. Inr (distributed m))"

definition TYsetMutcScope :: "'f ntype \<Rightarrow> mutcScope \<Rightarrow> 'f ntype cres" where
  "TYsetMutcScope type scope = set_meta (\<lambda>m. m\<lparr>mutcscope := scope\<rparr>) type"

definition TYsetMutcUsage :: "'f ntype \<Rightarrow> mutcUsage \<Rightarrow> 'f ntype cres" where
  "TYsetMutcUsage type usage = set_meta (\<lambda>m. m\<lparr>mutcusage := usage\<rparr>) type"

definition TYsetUnique :: "'f ntype \<Rightarrow> bool \<Rightarrow> 'f ntype cres" where
  "TYsetUnique type val = set_meta (\<lambda>m. m\<lparr>uniq := val\<rparr>) type"

definition TYsetDistributed :: "'f ntype \<Rightarrow> distmem_dis \<Rightarrow> 'f ntype cres" where
  "TYsetDistributed type val = set_meta (\<lambda>m. m\<lparr>distributed := val\<rparr>) type"

subsection \<open>Scalar types\<close>

definition TYmakeSimpleType :: "simpletype \<Rightarrow> 'f ntype cres" where
  "TYmakeSimpleType base = dbug_assert ''TYmakeSimpleType'' (base \<noteq> T_hidden)
     (Inr (MakeNtype (TC_simple base (- 1)) 0))"

definition TYmakeHiddenSimpleType :: "int \<Rightarrow> 'f ntype" where
  "TYmakeHiddenSimpleType udt = MakeNtype (TC_simple T_hidden udt) 0"

definition TYmakeSymbType :: "string option \<Rightarrow> nat option \<Rightarrow> 'f ntype cres" where
  "TYmakeSymbType name ns =
     (case name of None \<Rightarrow> Inl (AssertFail ''TYmakeSymbType'')
      | Some s \<Rightarrow> Inr (MakeNtype (TC_symbol ns s) 0))"

definition TYmakeUserType :: "int \<Rightarrow> 'f ntype" where
  "TYmakeUserType udt = MakeNtype (TC_user udt) 0"

fun TYsetSimpleType :: "'f ntype \<Rightarrow> simpletype \<Rightarrow> 'f ntype cres" where
  "TYsetSimpleType (NT (TC_simple b u) m sons) base = Inr (NT (TC_simple base u) m sons)"
| "TYsetSimpleType NullT base = Inl NullDeref"
| "TYsetSimpleType _ base = Inl WrongType"

fun TYsetHiddenUserType :: "'f ntype \<Rightarrow> int \<Rightarrow> 'f ntype cres" where
  "TYsetHiddenUserType (NT (TC_simple b u) m sons) udt = Inr (NT (TC_simple b udt) m sons)"
| "TYsetHiddenUserType NullT udt = Inl NullDeref"
| "TYsetHiddenUserType _ udt = Inl WrongType"

definition TYgetSimpleType :: "'f ntype \<Rightarrow> simpletype cres" where
  "TYgetSimpleType simple = bindR (NTYPE_CON simple) (\<lambda>c. case c of
     TC_simple b u \<Rightarrow> Inr b | _ \<Rightarrow> Inl (AssertFail ''TYgetSimpleType''))"

definition TYgetHiddenUserType :: "'f ntype \<Rightarrow> int cres" where
  "TYgetHiddenUserType simple = bindR (NTYPE_CON simple) (\<lambda>c. case c of
     TC_simple b u \<Rightarrow> dbug_assert ''TYgetHiddenUserType: hidden'' (b = T_hidden) (Inr u)
   | _ \<Rightarrow> Inl (AssertFail ''TYgetHiddenUserType''))"

definition TYgetUserType :: "'f ntype \<Rightarrow> int cres" where
  "TYgetUserType user = bindR (NTYPE_CON user) (\<lambda>c. case c of
     TC_user u \<Rightarrow> Inr u | _ \<Rightarrow> Inl (AssertFail ''TYgetUserType''))"

definition TYgetName :: "'f ntype \<Rightarrow> string cres" where
  "TYgetName symb = bindR (NTYPE_CON symb) (\<lambda>c. case c of
     TC_symbol ns s \<Rightarrow> Inr s | _ \<Rightarrow> Inl (AssertFail ''TYgetName''))"

definition TYgetNamespace :: "'f ntype \<Rightarrow> nat option cres" where
  "TYgetNamespace symb = bindR (NTYPE_CON symb) (\<lambda>c. case c of
     TC_symbol ns s \<Rightarrow> Inr ns | _ \<Rightarrow> Inl (AssertFail ''TYgetNamespace''))"

fun TYsetNamespace :: "'f ntype \<Rightarrow> nat option \<Rightarrow> 'f ntype cres" where
  "TYsetNamespace (NT (TC_symbol old s) m sons) ns = Inr (NT (TC_symbol ns s) m sons)"
| "TYsetNamespace NullT ns = Inl NullDeref"
| "TYsetNamespace _ ns = Inl (AssertFail ''TYsetNamespace'')"

subsection \<open>Array types\<close>

text \<open>The makers consume their arguments: the son is stored in the new node.\<close>

definition make_array :: "'f tattr \<Rightarrow> 'f ntype \<Rightarrow> 'f ntype cres" where
  "make_array tc scalar = set_NTYPE_SON (MakeNtype tc 1) 0 scalar"

definition TYmakeAKV :: "'f ntype \<Rightarrow> 'f const \<Rightarrow> 'f ntype cres" where
  "TYmakeAKV scalar val = make_array (TC_akv val) scalar"

definition TYmakeAKS :: "'f ntype \<Rightarrow> shape \<Rightarrow> 'f ntype cres" where
  "TYmakeAKS scalar shp = make_array (TC_aks shp) scalar"

definition TYmakeAKD :: "'f ntype \<Rightarrow> nat \<Rightarrow> shape option \<Rightarrow> 'f ntype cres" where
  "TYmakeAKD scalar dots shp = dbug_assert ''TYmakeAKD'' (dots \<noteq> 0) (make_array (TC_akd dots shp) scalar)"

definition TYmakeAUDGZ :: "'f ntype \<Rightarrow> 'f ntype cres" where
  "TYmakeAUDGZ scalar = make_array TC_audgz scalar"

definition TYmakeAUD :: "'f ntype \<Rightarrow> 'f ntype cres" where
  "TYmakeAUD scalar = make_array TC_aud scalar"

definition TYsetScalar :: "'f ntype \<Rightarrow> 'f ntype \<Rightarrow> 'f ntype cres" where
  "TYsetScalar arr scalar =
     bindR (NTYPE_SON arr 0) (\<lambda>old.
       dbug_assert ''TYfreeType'' (old \<noteq> NullT) (set_NTYPE_SON arr 0 scalar))"

definition TYgetDim :: "'f ntype \<Rightarrow> int cres" where
  "TYgetDim arr = bindR (NTYPE_CON arr) (\<lambda>c. case c of
     TC_akv k \<Rightarrow> Inr (COgetDim k)
   | TC_aks s \<Rightarrow> Inr (SHgetDim s)
   | TC_akd dots (Some s) \<Rightarrow> Inr (SHgetDim s + int dots)
   | TC_akd dots None \<Rightarrow> Inr (int dots)
   | _ \<Rightarrow> Inl (AssertFail ''TYgetDim''))"

definition TYgetShape :: "'f ntype \<Rightarrow> shape cres" where
  "TYgetShape arr = bindR (NTYPE_CON arr) (\<lambda>c. case c of
     TC_akv k \<Rightarrow> Inr (COgetShape k)
   | TC_aks s \<Rightarrow> Inr s
   | _ \<Rightarrow> Inl (AssertFail ''TYgetShape''))"

definition TYgetValue :: "'f ntype \<Rightarrow> 'f const cres" where
  "TYgetValue arr = bindR (NTYPE_CON arr) (\<lambda>c. case c of
     TC_akv k \<Rightarrow> Inr k | _ \<Rightarrow> Inl (AssertFail ''TYgetValue''))"

fun is_array_con :: "'f tattr \<Rightarrow> bool" where
  "is_array_con (TC_akv k) = True"
| "is_array_con (TC_aks s) = True"
| "is_array_con (TC_akd d s) = True"
| "is_array_con TC_audgz = True"
| "is_array_con TC_aud = True"
| "is_array_con _ = False"

definition TYgetScalar :: "'f ntype \<Rightarrow> 'f ntype cres" where
  "TYgetScalar arr = bindR (NTYPE_CON arr) (\<lambda>c.
     dbug_assert ''TYgetScalar'' (is_array_con c) (NTYPE_SON arr 0))"

subsection \<open>Union, product, polymorphic and bottom types\<close>

fun union_members :: "'f ntype \<Rightarrow> 'f ntype list cres" where
  "union_members (NT TC_union m sons) = Inr sons"
| "union_members (NT a m sons) = Inr [NT a m sons]"
| "union_members NullT = Inl NullDeref"

definition TYmakeUnionType :: "'f ntype \<Rightarrow> 'f ntype \<Rightarrow> 'f ntype cres" where
  "TYmakeUnionType t1 t2 =
     bindR (union_members t1) (\<lambda>xs. bindR (union_members t2) (\<lambda>ys.
       Inr (NT TC_union default_meta (xs @ ys))))"

definition TYmakeEmptyProductType :: "nat \<Rightarrow> 'f ntype" where
  "TYmakeEmptyProductType n = MakeNtype TC_prod n"

definition TYsetProductMember :: "'f ntype \<Rightarrow> nat \<Rightarrow> 'f ntype \<Rightarrow> 'f ntype cres" where
  "TYsetProductMember pty pos member =
     bindR (NTYPE_CON pty) (\<lambda>c. bindR (NTYPE_ARITY pty) (\<lambda>n.
       dbug_assert ''TYsetProductMember: product'' (c = TC_prod)
       (dbug_assert ''TYsetProductMember: position'' (pos < n) (set_NTYPE_SON pty pos member))))"

definition TYgetProductSize :: "'f ntype \<Rightarrow> nat cres" where
  "TYgetProductSize pty = bindR (NTYPE_CON pty) (\<lambda>c.
     dbug_assert ''TYgetProductSize'' (c = TC_prod) (NTYPE_ARITY pty))"

definition TYgetProductMember :: "'f ntype \<Rightarrow> nat \<Rightarrow> 'f ntype cres" where
  "TYgetProductMember pty pos =
     bindR (NTYPE_CON pty) (\<lambda>c. bindR (NTYPE_ARITY pty) (\<lambda>n.
       dbug_assert ''TYgetProductMember: product'' (c = TC_prod)
       (dbug_assert ''TYgetProductMember: position'' (pos < n) (NTYPE_SON pty pos))))"

definition TYmakePolyType :: "string \<Rightarrow> 'f ntype" where
  "TYmakePolyType name = MakeNtype (TC_poly name) 0"

definition TYgetPolyName :: "'f ntype \<Rightarrow> string cres" where
  "TYgetPolyName type = bindR (NTYPE_CON type) (\<lambda>c. case c of
     TC_poly s \<Rightarrow> Inr s | _ \<Rightarrow> Inl (AssertFail ''TYgetPolyName''))"

definition TYmakePolyUserType ::
  "string \<Rightarrow> string \<Rightarrow> string \<Rightarrow> bool \<Rightarrow> bool \<Rightarrow> 'f ntype cres" where
  "TYmakePolyUserType outer inner shp denest renest =
     dbug_assert ''TYmakePolyUserType'' (\<not> denest \<or> \<not> renest)
     (Inr (MakeNtype (TC_polyuser (Some \<lparr>pu_outer = outer, pu_inner = inner, pu_shape = shp,
        pu_denest = denest, pu_renest = renest\<rparr>)) 0))"

definition get_polyuser :: "(polyuser \<Rightarrow> 'a) \<Rightarrow> 'f ntype \<Rightarrow> 'a cres" where
  "get_polyuser f type = bindR (NTYPE_CON type) (\<lambda>c. case c of
     TC_polyuser (Some p) \<Rightarrow> Inr (f p)
   | TC_polyuser None \<Rightarrow> Inl Uninitialised
   | _ \<Rightarrow> Inl (AssertFail ''TYgetPolyUser''))"

definition TYgetPolyUserOuter :: "'f ntype \<Rightarrow> string cres" where
  "TYgetPolyUserOuter type = get_polyuser pu_outer type"

definition TYgetPolyUserInner :: "'f ntype \<Rightarrow> string cres" where
  "TYgetPolyUserInner type = get_polyuser pu_inner type"

definition TYgetPolyUserShape :: "'f ntype \<Rightarrow> string cres" where
  "TYgetPolyUserShape type = get_polyuser pu_shape type"

definition TYgetPolyUserDeNest :: "'f ntype \<Rightarrow> bool cres" where
  "TYgetPolyUserDeNest type = get_polyuser pu_denest type"

definition TYgetPolyUserReNest :: "'f ntype \<Rightarrow> bool cres" where
  "TYgetPolyUserReNest type = get_polyuser pu_renest type"

definition TYmakeBottomType :: "string option \<Rightarrow> 'f ntype" where
  "TYmakeBottomType err_msg = MakeNtype (TC_bottom err_msg) 0"

text \<open>\<open>STRcatn\<close> treats a null pointer as the empty string.\<close>

fun TYextendBottomError :: "'f ntype \<Rightarrow> string option \<Rightarrow> 'f ntype cres" where
  "TYextendBottomError t None = Inr t"
| "TYextendBottomError (NT (TC_bottom old) m sons) (Some msg) =
     Inr (NT (TC_bottom (Some ((case old of None \<Rightarrow> [] | Some s \<Rightarrow> s) @ [CHR 0x0A] @ msg))) m sons)"
| "TYextendBottomError NullT (Some msg) = Inl NullDeref"
| "TYextendBottomError (NT a m sons) (Some msg) = Inl WrongType"

definition TYgetBottomError :: "'f ntype \<Rightarrow> string option cres" where
  "TYgetBottomError type = bindR (NTYPE_CON type) (\<lambda>c. case c of
     TC_bottom s \<Rightarrow> Inr s | _ \<Rightarrow> Inl (AssertFail ''TYgetBottomError''))"

subsection \<open>Predicates\<close>

definition is_con :: "('f tattr \<Rightarrow> bool) \<Rightarrow> 'f ntype \<Rightarrow> bool cres" where
  "is_con p type = bindR (NTYPE_CON type) (\<lambda>c. Inr (p c))"

definition TYisSimple :: "'f ntype \<Rightarrow> bool cres" where
  "TYisSimple = is_con (\<lambda>c. case c of TC_simple b u \<Rightarrow> True | _ \<Rightarrow> False)"

definition TYisUser :: "'f ntype \<Rightarrow> bool cres" where
  "TYisUser = is_con (\<lambda>c. case c of TC_user u \<Rightarrow> True | _ \<Rightarrow> False)"

definition TYisPoly :: "'f ntype \<Rightarrow> bool cres" where
  "TYisPoly = is_con (\<lambda>c. case c of TC_poly s \<Rightarrow> True | _ \<Rightarrow> False)"

definition TYisPolyUser :: "'f ntype \<Rightarrow> bool cres" where
  "TYisPolyUser = is_con (\<lambda>c. case c of TC_polyuser p \<Rightarrow> True | _ \<Rightarrow> False)"

definition TYisSymb :: "'f ntype \<Rightarrow> bool cres" where
  "TYisSymb = is_con (\<lambda>c. case c of TC_symbol ns s \<Rightarrow> True | _ \<Rightarrow> False)"

definition TYisRecord :: "'f ntype \<Rightarrow> bool cres" where
  "TYisRecord type = bindR (TYisSymb type) (\<lambda>b.
     if b then bindR (TYgetName type) (\<lambda>s. Inr (take 8 s = ''_struct_'')) else Inr False)"

definition TYisScalar :: "'f ntype \<Rightarrow> bool cres" where
  "TYisScalar type = bindR (NTYPE_ARITY type) (\<lambda>n. Inr (n = 0))"

definition TYisBottom :: "'f ntype \<Rightarrow> bool cres" where
  "TYisBottom = is_con (\<lambda>c. case c of TC_bottom s \<Rightarrow> True | _ \<Rightarrow> False)"

definition TYisAlpha :: "'f ntype \<Rightarrow> bool cres" where
  "TYisAlpha = is_con (\<lambda>c. case c of TC_alpha a \<Rightarrow> True | _ \<Rightarrow> False)"

definition TYisAKV :: "'f ntype \<Rightarrow> bool cres" where
  "TYisAKV = is_con (\<lambda>c. case c of TC_akv k \<Rightarrow> True | _ \<Rightarrow> False)"

definition TYisAKS :: "'f ntype \<Rightarrow> bool cres" where
  "TYisAKS = is_con (\<lambda>c. case c of TC_aks s \<Rightarrow> True | _ \<Rightarrow> False)"

definition TYisAKD :: "'f ntype \<Rightarrow> bool cres" where
  "TYisAKD = is_con (\<lambda>c. case c of TC_akd d s \<Rightarrow> True | _ \<Rightarrow> False)"

definition TYisAUD :: "'f ntype \<Rightarrow> bool cres" where
  "TYisAUD = is_con (\<lambda>c. case c of TC_aud \<Rightarrow> True | _ \<Rightarrow> False)"

definition TYisAUDGZ :: "'f ntype \<Rightarrow> bool cres" where
  "TYisAUDGZ = is_con (\<lambda>c. case c of TC_audgz \<Rightarrow> True | _ \<Rightarrow> False)"

definition TYisArray :: "'f ntype \<Rightarrow> bool cres" where
  "TYisArray = is_con is_array_con"

definition TYisArrayOrAlpha :: "'f ntype \<Rightarrow> bool cres" where
  "TYisArrayOrAlpha type = bindR (TYisArray type) (\<lambda>b. if b then Inr True else TYisAlpha type)"

definition TYisUnion :: "'f ntype \<Rightarrow> bool cres" where
  "TYisUnion = is_con (\<lambda>c. case c of TC_union \<Rightarrow> True | _ \<Rightarrow> False)"

definition TYisProd :: "'f ntype \<Rightarrow> bool cres" where
  "TYisProd = is_con (\<lambda>c. case c of TC_prod \<Rightarrow> True | _ \<Rightarrow> False)"

text \<open>The predicates on functions accept a null pointer.\<close>

fun TYisFun :: "'f ntype \<Rightarrow> bool" where
  "TYisFun (NT (TC_fun d) m sons) = True"
| "TYisFun (NT TC_ovfun m sons) = True"
| "TYisFun _ = False"

fun TYisOvFun :: "'f ntype \<Rightarrow> bool" where
  "TYisOvFun (NT TC_ovfun m sons) = True"
| "TYisOvFun _ = False"

fun TYisNonOvFun :: "'f ntype \<Rightarrow> bool" where
  "TYisNonOvFun (NT (TC_fun d) m sons) = True"
| "TYisNonOvFun _ = False"

definition TYisAKSSymb :: "'f ntype \<Rightarrow> bool cres" where
  "TYisAKSSymb type = bindR (TYisAKS type) (\<lambda>b.
     if b then bindR (NTYPE_SON type 0) TYisSymb else Inr False)"

definition TYisAKSUdt :: "'f ntype \<Rightarrow> bool cres" where
  "TYisAKSUdt type = bindR (TYisAKS type) (\<lambda>b.
     if b then bindR (NTYPE_SON type 0) TYisUser else Inr False)"

text \<open>
  The loops over product members; \<open>&&\<close> and \<open>||\<close> skip the test of a member once the result
  is decided.
\<close>

definition all_members :: "('f ntype \<Rightarrow> bool cres) \<Rightarrow> 'f ntype \<Rightarrow> nat \<Rightarrow> bool cres" where
  "all_members p args i =
     bindR (TYisProd args) (\<lambda>b.
       if b
       then bindR (TYgetProductSize args) (\<lambda>n.
              cfor (int i) (int n) (\<lambda>i res. bindR (TYgetProductMember args (nat i)) (\<lambda>arg.
                if res then p arg else Inr False)) True)
       else Inr False)"

definition TYisProdOfArray :: "'f ntype \<Rightarrow> bool cres" where
  "TYisProdOfArray args = all_members TYisArray args 0"

definition TYisProdOfAKV :: "'f ntype \<Rightarrow> bool cres" where
  "TYisProdOfAKV args = all_members TYisAKV args 0"

definition TYisProdOfAKVafter :: "'f ntype \<Rightarrow> nat \<Rightarrow> bool cres" where
  "TYisProdOfAKVafter args i = all_members TYisAKV args i"

definition TYisProdContainingAKV :: "'f ntype \<Rightarrow> bool cres" where
  "TYisProdContainingAKV args =
     bindR (TYisProd args) (\<lambda>b.
       if b
       then bindR (TYgetProductSize args) (\<lambda>n.
              cfor 0 (int n) (\<lambda>i res. bindR (TYgetProductMember args (nat i)) (\<lambda>arg.
                if res then Inr True else TYisAKV arg)) False)
       else Inr False)"

text \<open>The first bottom (or user) type among the members of a product.\<close>

definition TYgetBottom :: "'f ntype \<Rightarrow> 'f ntype cres" where
  "TYgetBottom type =
     bindR (TYisProd type) (\<lambda>b.
       if b
       then bindR (TYgetProductSize type) (\<lambda>n.
              cfor 0 (int n) (\<lambda>i res.
                if res \<noteq> NullT then Inr res
                else bindR (TYgetProductMember type (nat i)) (\<lambda>m.
                     bindR (TYisBottom m) (\<lambda>bot. bindR (TYisUser m) (\<lambda>user.
                       Inr (if bot \<or> user then m else NullT))))) NullT)
       else bindR (TYisBottom type) (\<lambda>bot. Inr (if bot then type else NullT)))"

subsection \<open>User defined types\<close>

text \<open>
  The aliases of user defined types (\<open>typecheck/user_types.c\<close>): entry \<open>i\<close> of the table is
  the type that \<open>i\<close> is an alias of, or \<open>-1\<close>.  A chain of aliases that is longer than the
  table runs in a circle, and the recursion of the code does not end.
\<close>

record 'f tenv =
  te_fops :: "'f fops"
  udt_alias :: "int list"

fun unalias :: "nat \<Rightarrow> int list \<Rightarrow> int \<Rightarrow> int cres" where
  "unalias 0 tab udt = Inl (CompilerAbort ''unbounded recursion'')"
| "unalias (Suc n) tab udt =
     dbug_assert ''UTgetUnAliasedType'' (udt < int (length tab) \<and> - 1 < udt)
     (let a = tab ! nat udt in if a \<noteq> - 1 then unalias n tab a else Inr udt)"

definition UTgetUnAliasedType :: "'f tenv \<Rightarrow> int \<Rightarrow> int cres" where
  "UTgetUnAliasedType E udt = unalias (Suc (length (udt_alias E))) (udt_alias E) udt"

definition UTeq :: "'f tenv \<Rightarrow> int \<Rightarrow> int \<Rightarrow> bool cres" where
  "UTeq E udt1 udt2 =
     bindR (UTgetUnAliasedType E udt1) (\<lambda>a. bindR (UTgetUnAliasedType E udt2) (\<lambda>b. Inr (a = b)))"

subsection \<open>Copying\<close>

fun copy_attr :: "'f tattr \<Rightarrow> 'f tattr cres" where
  "copy_attr (TC_akv k) = bindR (COcopyConstant k) (\<lambda>c. Inr (TC_akv c))"
| "copy_attr (TC_aks s) = bindR (SHcopyShape s) (\<lambda>c. Inr (TC_aks c))"
| "copy_attr (TC_akd d None) = Inl (AssertFail ''SHcopyShape'')"
| "copy_attr (TC_akd d (Some s)) = bindR (SHcopyShape s) (\<lambda>c. Inr (TC_akd d (Some c)))"
| "copy_attr (TC_polyuser p) = Inr (TC_polyuser None)"
| "copy_attr a = Inr a"

definition copy_meta :: "meta \<Rightarrow> meta" where
  "copy_meta m = default_meta\<lparr>uniq := uniq m, distributed := distributed m\<rparr>"

fun TYcopyTypeConstructor :: "'f ntype \<Rightarrow> 'f ntype cres" where
  "TYcopyTypeConstructor NullT = Inr NullT"
| "TYcopyTypeConstructor (NT a m sons) = bindR (copy_attr a) (\<lambda>b. Inr (NT b (copy_meta m) []))"

fun TYcopyType :: "'f ntype \<Rightarrow> 'f ntype cres" where
  "TYcopyType NullT = Inr NullT"
| "TYcopyType (NT a m sons) =
     bindR (copy_attr a) (\<lambda>b. bindR (mapR TYcopyType sons) (\<lambda>ss.
       Inr (NT b ((copy_meta m)\<lparr>mutcscope := mutcscope m\<rparr>) ss)))"

subsection \<open>Comparison\<close>

datatype ct_res = TY_eq | TY_lt | TY_gt | TY_hcs | TY_dis

text \<open>How the result for the members of a product so far combines with the one of the next member.\<close>

fun cmp_merge :: "ct_res \<Rightarrow> ct_res \<Rightarrow> ct_res" where
  "cmp_merge TY_eq l = l"
| "cmp_merge TY_lt l = (if l = TY_gt \<or> l = TY_hcs then TY_hcs else if l = TY_dis then TY_dis else TY_lt)"
| "cmp_merge TY_gt l = (if l = TY_lt \<or> l = TY_hcs then TY_hcs else if l = TY_dis then TY_dis else TY_gt)"
| "cmp_merge TY_hcs l = (if l = TY_dis then TY_dis else TY_hcs)"
| "cmp_merge TY_dis l = TY_dis"

definition when_eq :: "ct_res cres \<Rightarrow> ct_res cres \<Rightarrow> ct_res cres" where
  "when_eq base k = bindR base (\<lambda>c. if c = TY_eq then k else Inr TY_dis)"

definition if_res :: "bool cres \<Rightarrow> ct_res \<Rightarrow> ct_res cres" where
  "if_res b r = bindR b (\<lambda>b. Inr (if b then r else TY_hcs))"

definition same_dim :: "'f ntype \<Rightarrow> 'f ntype \<Rightarrow> bool cres" where
  "same_dim t1 t2 = bindR (TYgetDim t1) (\<lambda>d. bindR (TYgetDim t2) (\<lambda>e. Inr (d = e)))"

definition pos_dim :: "'f ntype \<Rightarrow> bool cres" where
  "pos_dim t = bindR (TYgetDim t) (\<lambda>d. Inr (0 < d))"

fun TYcmpTypes :: "'f tenv \<Rightarrow> 'f ntype \<Rightarrow> 'f ntype \<Rightarrow> ct_res cres"
  and cmp_members :: "'f tenv \<Rightarrow> ct_res \<Rightarrow> 'f ntype list \<Rightarrow> 'f ntype list \<Rightarrow> ct_res cres"
  and cmp_base :: "'f tenv \<Rightarrow> 'f ntype list \<Rightarrow> 'f ntype list \<Rightarrow> ct_res cres" where
  "TYcmpTypes E (NT a m ss) (NT b n ts) =
     (let t1 = NT a m ss; t2 = NT b n ts in
      case a of
        TC_prod \<Rightarrow>
          if b = TC_prod \<and> length ss = length ts then cmp_members E TY_eq ss ts else Inr TY_dis
      | TC_bottom _ \<Rightarrow>
          (case b of TC_bottom _ \<Rightarrow> Inr TY_eq | TC_akv _ \<Rightarrow> Inr TY_hcs | _ \<Rightarrow> Inr TY_lt)
      | TC_simple s _ \<Rightarrow>
          (case b of TC_simple s' _ \<Rightarrow> Inr (if s = s' then TY_eq else TY_dis)
           | TC_bottom _ \<Rightarrow> Inr TY_gt | _ \<Rightarrow> Inr TY_dis)
      | TC_symbol ns s \<Rightarrow>
          (case b of TC_symbol ns' s' \<Rightarrow> Inr (if ns = ns' \<and> s = s' then TY_eq else TY_dis)
           | TC_bottom _ \<Rightarrow> Inr TY_gt | _ \<Rightarrow> Inr TY_dis)
      | TC_user u \<Rightarrow>
          (case b of TC_user u' \<Rightarrow> bindR (UTeq E u u') (\<lambda>e. Inr (if e then TY_eq else TY_dis))
           | TC_bottom _ \<Rightarrow> Inr TY_gt | _ \<Rightarrow> Inr TY_dis)
      | TC_akv k \<Rightarrow>
          (case b of
             TC_bottom _ \<Rightarrow> Inr TY_hcs
           | TC_akv k' \<Rightarrow> when_eq (cmp_base E ss ts) (if_res (COcompareConstants (te_fops E) k k') TY_eq)
           | TC_aks s' \<Rightarrow> when_eq (cmp_base E ss ts) (if_res (SHcompareShapes (COgetShape k) s') TY_lt)
           | TC_akd _ _ \<Rightarrow> when_eq (cmp_base E ss ts) (if_res (same_dim t1 t2) TY_lt)
           | TC_audgz \<Rightarrow> when_eq (cmp_base E ss ts) (if_res (pos_dim t1) TY_lt)
           | TC_aud \<Rightarrow> when_eq (cmp_base E ss ts) (Inr TY_lt)
           | _ \<Rightarrow> Inr TY_dis)
      | TC_aks s \<Rightarrow>
          (case b of
             TC_bottom _ \<Rightarrow> Inr TY_gt
           | TC_akv k' \<Rightarrow> when_eq (cmp_base E ss ts) (if_res (SHcompareShapes s (COgetShape k')) TY_gt)
           | TC_aks s' \<Rightarrow> when_eq (cmp_base E ss ts) (if_res (SHcompareShapes s s') TY_eq)
           | TC_akd _ _ \<Rightarrow> when_eq (cmp_base E ss ts) (if_res (same_dim t1 t2) TY_lt)
           | TC_audgz \<Rightarrow> when_eq (cmp_base E ss ts) (if_res (pos_dim t1) TY_lt)
           | TC_aud \<Rightarrow> when_eq (cmp_base E ss ts) (Inr TY_lt)
           | _ \<Rightarrow> Inr TY_dis)
      | TC_akd _ _ \<Rightarrow>
          (case b of
             TC_bottom _ \<Rightarrow> Inr TY_gt
           | TC_akv _ \<Rightarrow> when_eq (cmp_base E ss ts) (if_res (same_dim t1 t2) TY_gt)
           | TC_aks _ \<Rightarrow> when_eq (cmp_base E ss ts) (if_res (same_dim t1 t2) TY_gt)
           | TC_akd _ _ \<Rightarrow> when_eq (cmp_base E ss ts) (if_res (same_dim t1 t2) TY_eq)
           | TC_audgz \<Rightarrow> when_eq (cmp_base E ss ts) (if_res (pos_dim t1) TY_lt)
           | TC_aud \<Rightarrow> when_eq (cmp_base E ss ts) (Inr TY_lt)
           | _ \<Rightarrow> Inr TY_dis)
      | TC_audgz \<Rightarrow>
          (case b of
             TC_bottom _ \<Rightarrow> Inr TY_gt
           | TC_akv _ \<Rightarrow> when_eq (cmp_base E ss ts) (if_res (pos_dim t2) TY_gt)
           | TC_aks _ \<Rightarrow> when_eq (cmp_base E ss ts) (if_res (pos_dim t2) TY_gt)
           | TC_akd _ _ \<Rightarrow> when_eq (cmp_base E ss ts) (if_res (pos_dim t2) TY_gt)
           | TC_audgz \<Rightarrow> when_eq (cmp_base E ss ts) (Inr TY_eq)
           | TC_aud \<Rightarrow> when_eq (cmp_base E ss ts) (Inr TY_lt)
           | _ \<Rightarrow> Inr TY_dis)
      | TC_aud \<Rightarrow>
          (case b of
             TC_bottom _ \<Rightarrow> Inr TY_gt
           | TC_akv _ \<Rightarrow> when_eq (cmp_base E ss ts) (Inr TY_gt)
           | TC_aks _ \<Rightarrow> when_eq (cmp_base E ss ts) (Inr TY_gt)
           | TC_akd _ _ \<Rightarrow> when_eq (cmp_base E ss ts) (Inr TY_gt)
           | TC_audgz \<Rightarrow> when_eq (cmp_base E ss ts) (Inr TY_gt)
           | TC_aud \<Rightarrow> when_eq (cmp_base E ss ts) (Inr TY_eq)
           | _ \<Rightarrow> Inr TY_dis)
      | _ \<Rightarrow> Inl (Unreachable ''TYcmpTypes''))"
| "TYcmpTypes E _ _ = Inl NullDeref"
| "cmp_members E res (x # xs) (y # ys) =
     bindR (TYcmpTypes E x y) (\<lambda>local. cmp_members E (cmp_merge res local) xs ys)"
| "cmp_members E res _ _ = Inr res"
| "cmp_base E (x # xs) (y # ys) = TYcmpTypes E x y"
| "cmp_base E _ _ = Inl NullDeref"

definition TYeqTypes :: "'f tenv \<Rightarrow> 'f ntype \<Rightarrow> 'f ntype \<Rightarrow> bool cres" where
  "TYeqTypes E t1 t2 = bindR (TYcmpTypes E t1 t2) (\<lambda>c. Inr (c = TY_eq))"

definition TYleTypes :: "'f tenv \<Rightarrow> 'f ntype \<Rightarrow> 'f ntype \<Rightarrow> bool cres" where
  "TYleTypes E t1 t2 = bindR (TYcmpTypes E t1 t2) (\<lambda>c. Inr (c = TY_eq \<or> c = TY_lt))"

subsection \<open>Least upper bounds\<close>

definition TUcombineBottom :: "'f ntype \<Rightarrow> 'f ntype \<Rightarrow> 'f ntype cres" where
  "TUcombineBottom left right =
     bindR (TYcopyType left) (\<lambda>res. bindR (TYgetBottomError right) (TYextendBottomError res))"

text \<open>The next larger type, for a type that has to be increased.\<close>

definition lub_aks :: "'f ntype \<Rightarrow> 'f const \<Rightarrow> 'f ntype cres" where
  "lub_aks t1 k = bindR (NTYPE_SON t1 0) (\<lambda>b. bindR (TYcopyType b) (\<lambda>b.
     bindR (SHcopyShape (COgetShape k)) (TYmakeAKS b)))"

definition lub_akd :: "'f ntype \<Rightarrow> shape \<Rightarrow> 'f ntype cres" where
  "lub_akd t1 s = bindR (NTYPE_SON t1 0) (\<lambda>b. bindR (TYcopyType b) (\<lambda>b.
     if SHgetDim s = 0 then TYmakeAUD b
     else bindR (SHcreateShape 0 []) (\<lambda>e. TYmakeAKD b (to_size (SHgetDim s)) (Some e))))"

definition lub_audgz :: "'f ntype \<Rightarrow> nat \<Rightarrow> 'f ntype cres" where
  "lub_audgz t1 dots = bindR (NTYPE_SON t1 0) (\<lambda>b. bindR (TYcopyType b) (\<lambda>b.
     if dots = 0 then TYmakeAUD b else TYmakeAUDGZ b))"

definition lub_aud :: "'f ntype \<Rightarrow> 'f ntype cres" where
  "lub_aud t1 = bindR (NTYPE_SON t1 0) TYmakeAUD"

fun lub_level :: "'f ntype \<Rightarrow> nat" where
  "lub_level (NT (TC_bottom _) m ss) = 6"
| "lub_level (NT (TC_akv _) m ss) = 5"
| "lub_level (NT (TC_aks _) m ss) = 4"
| "lub_level (NT (TC_akd _ _) m ss) = 3"
| "lub_level (NT TC_audgz m ss) = 2"
| "lub_level (NT TC_aud m ss) = 1"
| "lub_level _ = 0"

function TYlubOfTypes :: "'f tenv \<Rightarrow> 'f ntype \<Rightarrow> 'f ntype \<Rightarrow> 'f ntype cres" where
  "TYlubOfTypes E t1 t2 =
     bindR (TYcmpTypes E t1 t2) (\<lambda>c. case c of
       TY_eq \<Rightarrow> bindR (TYisBottom t1) (\<lambda>b. if b then TUcombineBottom t1 t2 else TYcopyType t1)
     | TY_lt \<Rightarrow> TYcopyType t2
     | TY_gt \<Rightarrow> TYcopyType t1
     | TY_hcs \<Rightarrow>
         bindR (NTYPE_CON t1) (\<lambda>con. case con of
           TC_bottom _ \<Rightarrow> TYlubOfTypes E t2 t1
         | TC_akv k \<Rightarrow> bindR (lub_aks t1 k) (\<lambda>n. TYlubOfTypes E n t2)
         | TC_aks s \<Rightarrow> bindR (lub_akd t1 s) (\<lambda>n. TYlubOfTypes E n t2)
         | TC_akd dots _ \<Rightarrow> bindR (lub_audgz t1 dots) (\<lambda>n. TYlubOfTypes E n t2)
         | TC_audgz \<Rightarrow> bindR (lub_aud t1) (\<lambda>n. TYlubOfTypes E n t2)
         | _ \<Rightarrow> Inl (Unreachable ''TYlubOfTypes''))
     | TY_dis \<Rightarrow> Inr NullT)"
  by pat_completeness auto

lemma make_array_eq: "make_array tc s = Inr (NT tc default_meta [s])"
  by (simp add: make_array_def MakeNtype_def)

lemma lub_steps_level:
  "lub_aks t k = Inr n \<Longrightarrow> lub_level n = 4"
  "lub_akd t s = Inr n \<Longrightarrow> lub_level n < 4"
  "lub_audgz t d = Inr n \<Longrightarrow> lub_level n < 3"
  "lub_aud t = Inr n \<Longrightarrow> lub_level n < 2"
  by (auto simp: lub_aks_def lub_akd_def lub_audgz_def lub_aud_def bindR_Inr_iff TYmakeAKS_def
      TYmakeAKD_def TYmakeAUD_def TYmakeAUDGZ_def make_array_eq check_Inr_iff split: if_splits)

lemma bottom_hcs_level:
  assumes "TYcmpTypes E t1 t2 = Inr TY_hcs" and "NTYPE_CON t1 = Inr (TC_bottom s)"
  shows "lub_level t2 < lub_level t1"
proof -
  obtain m ss b n ts where "t1 = NT (TC_bottom s) m ss" "t2 = NT b n ts"
    using assms by (cases t1; cases t2) auto
  with assms(1) show ?thesis by (cases b) auto
qed

lemma con_level:
  "NTYPE_CON t = Inr (TC_akv k) \<Longrightarrow> lub_level t = 5"
  "NTYPE_CON t = Inr (TC_aks s) \<Longrightarrow> lub_level t = 4"
  "NTYPE_CON t = Inr (TC_akd d p) \<Longrightarrow> lub_level t = 3"
  "NTYPE_CON t = Inr TC_audgz \<Longrightarrow> lub_level t = 2"
  by (cases t; simp)+

termination TYlubOfTypes
  by (relation "measure (\<lambda>(E, t1, t2). lub_level t1)")
    (auto simp: bottom_hcs_level con_level dest: lub_steps_level)

declare TYlubOfTypes.simps [simp del]

end
