(* ===== verification/Types_More.thy ===== *)
theory Types_More
  imports New_Types
begin

text \<open>
  Further operations on types used by the type functions of the primitives: building a
  product, replacing known values by their shapes (\<open>TYeliminateAKV\<close>) and nesting
  (\<open>TYnestTypes\<close>) of \<open>src/libsac2c/typecheck/new_types.c\<close>, and the tests of
  \<open>src/libsac2c/typecheck/type_utils.c\<close> that these functions use.

  The build option \<open>AKD_MAY_CONTAIN_SHAPE\<close> is off, as it is in the sources.
\<close>

subsection \<open>Conditions\<close>

text \<open>The operators \<open>&&\<close>, \<open>||\<close> and \<open>!\<close> of C: the second operand is not evaluated if the first decides.\<close>

definition andR :: "bool cres \<Rightarrow> bool cres \<Rightarrow> bool cres" where
  "andR a b = bindR a (\<lambda>x. if x then b else Inr False)"

definition orR :: "bool cres \<Rightarrow> bool cres \<Rightarrow> bool cres" where
  "orR a b = bindR a (\<lambda>x. if x then Inr True else b)"

definition notR :: "bool cres \<Rightarrow> bool cres" where
  "notR a = bindR a (\<lambda>x. Inr (\<not> x))"

definition ifR :: "bool cres \<Rightarrow> 'a cres \<Rightarrow> 'a cres \<Rightarrow> 'a cres" where
  "ifR b x y = bindR b (\<lambda>c. if c then x else y)"

lemma andR_simps [simp]:
  "andR (Inr True) b = b" "andR (Inr False) b = Inr False" "andR (Inl e) b = Inl e"
  "andR (Inr p) (Inr q) = Inr (p \<and> q)"
  by (auto simp: andR_def)

lemma orR_simps [simp]:
  "orR (Inr True) b = Inr True" "orR (Inr False) b = b" "orR (Inl e) b = Inl e"
  "orR (Inr p) (Inr q) = Inr (p \<or> q)"
  by (auto simp: orR_def)

lemma notR_simps [simp]: "notR (Inr p) = Inr (\<not> p)" "notR (Inl e) = Inl e"
  by (simp_all add: notR_def)

lemma ifR_simps [simp]:
  "ifR (Inr True) x y = x" "ifR (Inr False) x y = y" "ifR (Inl e) x y = Inl e"
  by (simp_all add: ifR_def)

lemma ifR_Inr: "ifR (Inr p) x y = (if p then x else y)"
  by simp

subsection \<open>Products\<close>

text \<open>
  The members are variable arguments; reading more than were passed is undefined.  In the debug
  build every member has to be an array type, a function, a bottom type, a type variable or a
  user type.
\<close>

definition product_member :: "'f ntype \<Rightarrow> bool cres" where
  "product_member arg =
     orR (TYisArray arg) (orR (Inr (TYisFun arg)) (orR (TYisBottom arg) (orR (TYisAlpha arg)
       (andR (TYisUser arg) (notR (TYisAKS arg))))))"

definition TYmakeProductType :: "nat \<Rightarrow> 'f ntype list \<Rightarrow> 'f ntype cres" where
  "TYmakeProductType n args =
     cfor 0 (int n) (\<lambda>i res.
       check OutOfBounds (nat i < length args)
       (bindR (product_member (args ! nat i)) (\<lambda>b.
        dbug_assert ''TYmakeProductType'' b (set_NTYPE_SON res (nat i) (args ! nat i)))))
     (MakeNtype TC_prod n)"

subsection \<open>Eliminating values\<close>

text \<open>The recursion goes into the members of a product only.\<close>

fun TYeliminateAKV :: "'f ntype \<Rightarrow> 'f ntype cres" where
  "TYeliminateAKV NullT = Inl NullDeref"
| "TYeliminateAKV (NT TC_prod m sons) =
     bindR (mapR TYeliminateAKV sons) (\<lambda>ss. Inr (NT TC_prod default_meta ss))"
| "TYeliminateAKV (NT (TC_akv k) m sons) =
     bindR (bindR (TYgetScalar (NT (TC_akv k) m sons)) TYcopyType) (\<lambda>b.
     bindR (SHcopyShape (COgetShape k)) (TYmakeAKS b))"
| "TYeliminateAKV t = TYcopyType t"

subsection \<open>Nesting\<close>

definition copy_base :: "'f ntype \<Rightarrow> 'f ntype cres" where
  "copy_base t = bindR (NTYPE_SON t 0) TYcopyType"

definition nest_gz :: "'f ntype \<Rightarrow> 'f ntype \<Rightarrow> 'f ntype cres" where
  "nest_gz outer inner = bindR (TYgetDim outer) (\<lambda>d.
     if 0 < d then bindR (copy_base inner) TYmakeAUDGZ else TYcopyType inner)"

definition TYnestTypes :: "'f ntype \<Rightarrow> 'f ntype \<Rightarrow> 'f ntype cres" where
  "TYnestTypes outer inner =
     bindR (NTYPE_CON outer) (\<lambda>oc. bindR (NTYPE_CON inner) (\<lambda>ic. case oc of
       TC_aks s1 \<Rightarrow> (case ic of
           TC_akv k \<Rightarrow> bindR (copy_base inner) (\<lambda>b. bindR (TYgetShape inner) (\<lambda>s2.
             bindR (SHappendShapes s1 s2) (TYmakeAKS b)))
         | TC_aks s2 \<Rightarrow> bindR (copy_base inner) (\<lambda>b. bindR (SHappendShapes s1 s2) (TYmakeAKS b))
         | TC_akd dots s2 \<Rightarrow> bindR (copy_base inner) (\<lambda>b. bindR (TYgetDim outer) (\<lambda>d.
             bindR (SHmakeShape 0) (\<lambda>e. TYmakeAKD b (to_size (d + int dots)) (Some e))))
         | TC_audgz \<Rightarrow> TYcopyType inner
         | TC_aud \<Rightarrow> nest_gz outer inner
         | _ \<Rightarrow> bindR (TYcopyType inner) (\<lambda>b. bindR (SHcopyShape s1) (TYmakeAKS b)))
     | TC_akd dots1 p1 \<Rightarrow>
         (if (case ic of TC_akv k \<Rightarrow> True | TC_aks s \<Rightarrow> True | TC_akd d p \<Rightarrow> True | _ \<Rightarrow> False)
          then bindR (copy_base inner) (\<lambda>b. bindR (TYgetDim outer) (\<lambda>d1. bindR (TYgetDim inner) (\<lambda>d2.
             bindR (SHmakeShape 0) (\<lambda>e. TYmakeAKD b (to_size (d1 + d2)) (Some e)))))
          else (case ic of
           TC_audgz \<Rightarrow> TYcopyType inner
         | TC_aud \<Rightarrow> nest_gz outer inner
         | _ \<Rightarrow> Inl WrongType))
     | TC_audgz \<Rightarrow> bindR (copy_base inner) TYmakeAUDGZ
     | TC_aud \<Rightarrow>
         (if (case ic of TC_akv k \<Rightarrow> True | TC_aks s \<Rightarrow> True | TC_akd d p \<Rightarrow> True | _ \<Rightarrow> False)
          then bindR (TYgetDim inner) (\<lambda>d. bindR (copy_base inner) (\<lambda>b.
                 if 0 < d then TYmakeAUDGZ b else TYmakeAUD b))
          else (case ic of
           TC_audgz \<Rightarrow> TYcopyType inner
         | TC_aud \<Rightarrow> TYcopyType inner
         | _ \<Rightarrow> bindR (TYcopyType inner) TYmakeAUD))
     | _ \<Rightarrow> TYcopyType inner))"

subsection \<open>Tests\<close>

definition TUdimKnown :: "'f ntype \<Rightarrow> bool cres" where
  "TUdimKnown ty = orR (TYisAKD ty) (orR (TYisAKS ty) (TYisAKV ty))"

definition TUshapeKnown :: "'f ntype \<Rightarrow> bool cres" where
  "TUshapeKnown ty = orR (TYisAKS ty) (TYisAKV ty)"

definition TUisScalar :: "'f ntype \<Rightarrow> bool cres" where
  "TUisScalar ty = andR (TUdimKnown ty) (bindR (TYgetDim ty) (\<lambda>d. Inr (d = 0)))"

end
