(* ===== verification/Constants_Index.thy ===== *)
theory Constants_Index
  imports Constants_Basic
begin

text \<open>
  Indices into constants: the offset computations, the index counters and the enumeration
  of an index space, from \<open>constants_struc_ops.c\<close> (\<open>Idx2Offset\<close>, \<open>Idx2OffsetArray\<close>,
  \<open>IncrementIndex\<close>, \<open>incCounter\<close>, \<open>COvect2offset\<close>) and \<open>constants_basic.c\<close>
  (\<open>COcreateAllIndicesAndFold\<close>).

  \<open>offs xs iv\<close> is the mathematical row-major offset of the index prefix \<open>iv\<close> in an array
  of shape \<open>xs\<close>; the lemmas show that the code computes it without overflow for every
  valid index, that it is a bijection between the indices and the positions, and that the
  counters enumerate the indices in its order.
\<close>

subsection \<open>Offsets\<close>

text \<open>
  The body shared by \<open>Idx2Offset\<close> (the shape of a constant) and \<open>Idx2OffsetArray\<close> (the
  frame shape of an array node): Horner's rule over the index, then over the axes the
  index leaves out.
\<close>

definition Idx2Offset_shp :: "'f const \<Rightarrow> shape \<Rightarrow> int cres" where
  "Idx2Offset_shp idx shp =
     dbug_assert ''Idx2Offset: int'' (CONSTANT_TYPE idx = T_int)
     (dbug_assert ''Idx2Offset: vector'' (CONSTANT_DIM idx = 1)
      (bindR (SHgetExtent (CONSTANT_SHAPE idx) 0) (\<lambda>lenidx.
       let cvidx = CONSTANT_ELEMS idx; lenshp = SHgetDim shp in
       dbug_assert ''Idx2Offset: length'' (lenidx \<le> lenshp)
       (bindR (if 0 < lenidx
               then bindR (rd_int cvidx 0) (\<lambda>c. bindR (SHgetExtent shp 0) (\<lambda>e.
                      dbug_assert ''Idx2Offset: range'' (c < e) (Inr c)))
               else Inr 0) (\<lambda>offset.
        bindR (cfor 1 lenidx (\<lambda>i offset.
                 bindR (rd_int cvidx i) (\<lambda>c. bindR (SHgetExtent shp i) (\<lambda>e.
                   dbug_assert ''Idx2Offset: range'' (c < e)
                   (bindR (ck_int (offset * e)) (\<lambda>p. ck_int (p + c)))))) offset) (\<lambda>offset.
          cfor (max 1 lenidx) lenshp (\<lambda>i offset.
            bindR (SHgetExtent shp i) (\<lambda>e. ck_int (offset * e))) offset))))))"

definition Idx2Offset :: "'f const \<Rightarrow> 'f const \<Rightarrow> int cres" where
  "Idx2Offset idx a = Idx2Offset_shp idx (CONSTANT_SHAPE a)"

definition Idx2OffsetArray :: "'f const \<Rightarrow> shape \<Rightarrow> int cres" where
  "Idx2OffsetArray idx frameshape = Idx2Offset_shp idx frameshape"

definition COvect2offset :: "'f const \<Rightarrow> 'f const \<Rightarrow> 'f const cres" where
  "COvect2offset shp iv =
     dbug_assert ''COvect2offset: index int'' (CONSTANT_TYPE iv = T_int)
     (dbug_assert ''COvect2offset: index vector'' (CONSTANT_DIM iv = 1)
     (dbug_assert ''COvect2offset: shape int'' (CONSTANT_TYPE shp = T_int)
     (dbug_assert ''COvect2offset: shape vector'' (CONSTANT_DIM shp = 1)
      (bindR (SHgetExtent (CONSTANT_SHAPE iv) 0) (\<lambda>leniv.
       bindR (SHgetExtent (CONSTANT_SHAPE shp) 0) (\<lambda>lenshp.
       let cviv = CONSTANT_ELEMS iv; cvshp = CONSTANT_ELEMS shp in
       dbug_assert ''COvect2offset: length'' (leniv \<le> lenshp)
       (bindR (if 0 < leniv then rd_int cviv 0 else Inr 0) (\<lambda>offset.
        bindR (cfor 1 leniv (\<lambda>i offset.
                 bindR (rd_int cvshp i) (\<lambda>e. bindR (ck_int (offset * e)) (\<lambda>p.
                 bindR (rd_int cviv i) (\<lambda>c. ck_int (p + c))))) offset) (\<lambda>offset.
        bindR (cfor (max 1 leniv) lenshp (\<lambda>i offset.
                 bindR (rd_int cvshp i) (\<lambda>e. ck_int (offset * e))) offset)
          COmakeConstantFromInt)))))))))"

subsection \<open>Counters\<close>

text \<open>
  \<open>IncrementIndex\<close>: the carry resets the trailing axes that are at their maximum; \<open>None\<close>
  is the \<open>NULL\<close> returned after the last index.
\<close>

primrec inc_carry :: "'f cval cvec \<Rightarrow> 'f cval cvec \<Rightarrow> nat \<Rightarrow> 'f cval cvec \<Rightarrow> (nat \<times> 'f cval cvec) cres" where
  "inc_carry mn mx 0 idx = Inr (0, idx)"
| "inc_carry mn mx (Suc d) idx =
     bindR (rd_int idx (int (Suc d))) (\<lambda>x. bindR (rd_int mx (int (Suc d))) (\<lambda>m.
       if x = m
       then bindR (rd_int mn (int (Suc d))) (\<lambda>y.
            bindR (wr idx (int (Suc d)) (CInt IInt y)) (inc_carry mn mx d))
       else Inr (Suc d, idx)))"

definition IncrementIndex :: "'f const \<Rightarrow> 'f const \<Rightarrow> 'f const \<Rightarrow> 'f const option cres" where
  "IncrementIndex mn idx mx =
     (if 0 < CONSTANT_VLEN idx
      then bindR (inc_carry (CONSTANT_ELEMS mn) (CONSTANT_ELEMS mx) (CONSTANT_VLEN idx - 1)
                    (CONSTANT_ELEMS idx)) (\<lambda>(dim, v).
           bindR (rd_int v (int dim)) (\<lambda>x. bindR (rd_int (CONSTANT_ELEMS mx) (int dim)) (\<lambda>m.
             if x = m then Inr None
             else bindR (ck_int (x + 1)) (\<lambda>x'. bindR (wr v (int dim) (CInt IInt x')) (\<lambda>v.
                    Inr (Some (idx\<lparr>CONSTANT_ELEMS := v\<rparr>)))))))
      else Inr None)"

definition incCounter :: "int cvec \<Rightarrow> int cvec \<Rightarrow> int \<Rightarrow> (bool \<times> int cvec) cres" where
  "incCounter counter upper_bounds depth =
     cdown (depth - 1) 0 (\<lambda>i (is_max, counter).
       if is_max
       then bindR (rd counter i) (\<lambda>c. bindR (rd upper_bounds i) (\<lambda>u. bindR (ck_int (u - 1)) (\<lambda>u'.
              if c = u' then bindR (wr counter i 0) (\<lambda>v. Inr (True, v))
              else bindR (ck_int (c + 1)) (\<lambda>c'. bindR (wr counter i c') (\<lambda>v. Inr (False, v))))))
       else Inr (is_max, counter)) (True, counter)"

subsection \<open>Enumeration of an index space\<close>

text \<open>The inner loop: the carry of the index vector \<open>datav\<close>.\<close>

primrec all_carry :: "shape \<Rightarrow> nat \<Rightarrow> 'f cval cvec \<Rightarrow> (nat \<times> 'f cval cvec) cres" where
  "all_carry shp 0 v = Inr (0, v)"
| "all_carry shp (Suc d) v =
     bindR (rd_int v (int (Suc d))) (\<lambda>x. bindR (SHgetExtent shp (int (Suc d))) (\<lambda>e.
       if x = e
       then bindR (wr v (int (Suc d)) (CInt IInt 0)) (\<lambda>v.
            bindR (rd_int v (int d)) (\<lambda>y. bindR (ck_int (y + 1)) (\<lambda>y'.
            bindR (wr v (int d) (CInt IInt y')) (all_carry shp d))))
       else Inr (Suc d, v)))"

partial_function (option) all_loop ::
  "shape \<Rightarrow> ('f const \<Rightarrow> 'a \<Rightarrow> 'a cres) \<Rightarrow> 'f const \<Rightarrow> nat \<Rightarrow> 'f cval cvec \<Rightarrow> 'a
     \<Rightarrow> 'a cres option" where
  "all_loop shp foldfun idx max_d datav accu =
     bindRO (foldfun (idx\<lparr>CONSTANT_ELEMS := datav\<rparr>) accu) (\<lambda>accu.
     bindRO (rd_int datav (int max_d)) (\<lambda>x. bindRO (ck_int (x + 1)) (\<lambda>x'.
     bindRO (wr datav (int max_d) (CInt IInt x')) (\<lambda>v.
     bindRO (all_carry shp max_d v) (\<lambda>dv.
     bindRO (rd_int (snd dv) (int (fst dv))) (\<lambda>y.
     bindRO (SHgetExtent shp (int (fst dv))) (\<lambda>e.
       if y < e then all_loop shp foldfun idx max_d (snd dv) accu
       else Some (Inr accu))))))))"

declare all_loop.simps [code]

definition COcreateAllIndicesAndFold ::
  "'f fops \<Rightarrow> shape \<Rightarrow> ('f const \<Rightarrow> 'a \<Rightarrow> 'a cres) \<Rightarrow> 'a \<Rightarrow> bool \<Rightarrow> 'a cres option" where
  "COcreateAllIndicesAndFold F shp foldfun accu scalaridx =
     bindRO (bindR (if scalaridx then SHcreateShape 0 [0] else SHcreateShape 1 [SHgetDim shp])
               (COmakeZero F T_int)) (\<lambda>zero.
     case zero of
       None \<Rightarrow> Some (Inl NullDeref)
     | Some idx \<Rightarrow>
         bindRO (SHgetUnrLen shp) (\<lambda>n.
         let max_d = SHgetDim shp - 1; len = iconv IInt n in
         if max_d = -1 then Some (foldfun idx accu)
         else if 0 < len then all_loop shp foldfun idx (nat max_d) (COgetDataVec idx) accu
         else Some (Inr accu)))"

subsection \<open>Row-major offsets\<close>

fun offs :: "int list \<Rightarrow> int list \<Rightarrow> int" where
  "offs (x # xs) (i # is) = i * prod_list xs + offs xs is"
| "offs _ _ = 0"

fun valid_idx :: "int list \<Rightarrow> int list \<Rightarrow> bool" where
  "valid_idx xs [] = True"
| "valid_idx [] (i # is) = False"
| "valid_idx (x # xs) (i # is) = (0 \<le> i \<and> i < x \<and> valid_idx xs is)"

lemma valid_idx_length: "valid_idx xs iv \<Longrightarrow> length iv \<le> length xs"
  by (induction xs iv rule: valid_idx.induct) auto

lemma valid_idx_nth: "valid_idx xs iv \<Longrightarrow> k < length iv \<Longrightarrow> 0 \<le> iv ! k \<and> iv ! k < xs ! k"
proof (induction xs iv arbitrary: k rule: valid_idx.induct)
  case (3 x xs i "is")
  then show ?case by (cases k) auto
qed auto

lemma valid_idx_take: "valid_idx xs iv \<Longrightarrow> valid_idx (take k xs) (take k iv)"
proof (induction xs iv arbitrary: k rule: valid_idx.induct)
  case (3 x xs i "is")
  then show ?case by (cases k) auto
qed auto

lemma valid_idx_append:
  "length iv \<le> length xs \<Longrightarrow>
     valid_idx xs (iv @ jv) \<longleftrightarrow> valid_idx xs iv \<and> valid_idx (drop (length iv) xs) jv"
  by (induction xs iv rule: valid_idx.induct) auto

lemma offs_Nil [simp]: "offs xs [] = 0"
  by (cases xs) simp_all

lemma offs_bounds:
  assumes "valid_idx xs iv" and "\<forall>x\<in>set xs. 0 \<le> x"
  shows "0 \<le> offs xs iv \<and> offs xs iv + prod_list (drop (length iv) xs) \<le> prod_list xs"
  using assms
proof (induction xs iv rule: valid_idx.induct)
  case (3 x xs i "is")
  then have IH: "0 \<le> offs xs is" "offs xs is + prod_list (drop (length is) xs) \<le> prod_list xs"
    and i: "0 \<le> i" "i + 1 \<le> x" by auto
  have P: "0 \<le> prod_list xs" using 3 by (intro prod_list_nonneg) simp
  have "(i + 1) * prod_list xs \<le> x * prod_list xs" using i P by (intro mult_right_mono) auto
  with IH P i show ?case by (simp add: algebra_simps)
qed auto

lemma offs_append:
  "length iv \<le> length xs \<Longrightarrow> offs xs (iv @ jv) = offs xs iv + offs (drop (length iv) xs) jv"
  by (induction xs iv rule: offs.induct) (auto simp: not_le)

lemma offs_snoc: "length xs = length iv \<Longrightarrow> offs (xs @ [x]) (iv @ [i]) = offs xs iv * x + i"
  by (induction xs iv rule: list_induct2) (simp_all add: algebra_simps)

lemma offs_pad: "length iv \<le> length xs \<Longrightarrow> offs (xs @ [x]) iv = offs xs iv * x"
  by (induction xs iv rule: offs.induct) (simp_all add: algebra_simps)

lemma offs_inj:
  assumes "valid_idx xs iv" and "valid_idx xs jv" and "length iv = length jv"
    and "\<forall>x\<in>set xs. 0 < x" and "offs xs iv = offs xs jv"
  shows "iv = jv"
  using assms
proof (induction xs iv arbitrary: jv rule: valid_idx.induct)
  case (3 x xs i "is")
  then obtain j js where jv: "jv = j # js" by (cases jv) auto
  let ?P = "prod_list xs"
  have b: "0 \<le> offs xs is" "offs xs is < ?P" "0 \<le> offs xs js" "offs xs js < ?P"
  proof -
    have nn: "\<forall>x\<in>set xs. 0 \<le> x" using 3 by auto
    have "0 < prod_list (drop (length is) xs)" "0 < prod_list (drop (length js) xs)"
      using 3 by (auto intro!: prod_list_pos dest: in_set_dropD)
    then show "0 \<le> offs xs is" "offs xs is < ?P" "0 \<le> offs xs js" "offs xs js < ?P"
      using offs_bounds [of xs "is"] offs_bounds [of xs js] 3 jv nn by auto
  qed
  have eq: "i * ?P + offs xs is = j * ?P + offs xs js" using 3 jv by simp
  have "(i * ?P + offs xs is) div ?P = i" "(j * ?P + offs xs js) div ?P = j"
    using b by (simp_all add: div_pos_pos_trivial)
  with eq have "i = j" by simp
  with eq 3 jv show ?case by simp
qed auto

lemma offs_surj:
  assumes "\<forall>x\<in>set xs. 0 < x" and "0 \<le> k" and "k < prod_list xs"
  shows "\<exists>iv. length iv = length xs \<and> valid_idx xs iv \<and> offs xs iv = k"
  using assms
proof (induction xs arbitrary: k)
  case (Cons x xs)
  let ?P = "prod_list xs"
  have P: "0 < ?P" using Cons.prems by (intro prod_list_pos) simp
  then obtain iv where iv: "length iv = length xs" "valid_idx xs iv" "offs xs iv = k mod ?P"
    using Cons.IH [of "k mod ?P"] Cons.prems by auto
  have "k div ?P < x"
  proof (rule ccontr)
    assume "\<not> k div ?P < x"
    then have "x * ?P \<le> k div ?P * ?P" using P by (intro mult_right_mono) auto
    moreover have "k div ?P * ?P \<le> k" using P by (simp add: pos_mod_sign flip: minus_mod_eq_div_mult)
    ultimately show False using Cons.prems by simp
  qed
  moreover have "0 \<le> k div ?P" using Cons.prems P by (simp add: pos_imp_zdiv_nonneg_iff)
  ultimately show ?case using iv by (intro exI [of _ "k div ?P # iv"]) simp
qed simp

subsection \<open>The code computes them\<close>

abbreviation ivec :: "int list \<Rightarrow> 'f const" where
  "ivec iv \<equiv> con T_int [int (length iv)] (map (CInt IInt) iv)"

lemma ck_int_fits:
  assumes "shape_fits xs" and "0 \<le> x" and "x \<le> prod_list (take k xs)" shows "ck_int x = Inr x"
  using shape_fits_prod(2) [OF shape_fits_take [OF assms(1)], of k] assms by (intro ck_int_ok) auto

lemma offs_take_bounds:
  assumes "shape_fits xs" and "valid_idx xs iv"
  shows "0 \<le> offs (take k xs) (take k iv)" and "offs (take k xs) (take k iv) \<le> prod_list (take k xs)"
proof -
  have f: "shape_fits (take k xs)" using assms(1) by simp
  have nn: "\<forall>x\<in>set (take k xs). 0 \<le> x" using f by (simp add: shape_fits_def)
  then have "0 \<le> prod_list (drop (length (take k iv)) (take k xs))"
    by (intro prod_list_nonneg) (auto dest: in_set_dropD)
  with offs_bounds [OF valid_idx_take [OF assms(2)] nn]
  show "0 \<le> offs (take k xs) (take k iv)" "offs (take k xs) (take k iv) \<le> prod_list (take k xs)"
    by auto
qed

text \<open>One step of each of the two loops.\<close>

lemma offs_step:
  assumes "shape_fits xs" and "valid_idx xs iv" and "k < length iv"
  shows "bindR (ck_int (offs (take k xs) (take k iv) * xs ! k)) (\<lambda>p. ck_int (p + iv ! k))
         = Inr (offs (take (Suc k) xs) (take (Suc k) iv))"
proof -
  have l: "length iv \<le> length xs" using assms(2) by (rule valid_idx_length)
  have i: "0 \<le> iv ! k" "iv ! k < xs ! k" using valid_idx_nth [OF assms(2,3)] by auto
  have s: "offs (take (Suc k) xs) (take (Suc k) iv) = offs (take k xs) (take k iv) * xs ! k + iv ! k"
    using assms(3) l by (simp add: take_Suc_conv_app_nth offs_snoc)
  have n: "0 \<le> offs (take k xs) (take k iv) * xs ! k"
    using offs_take_bounds(1) [OF assms(1,2)] i by simp
  have "offs (take (Suc k) xs) (take (Suc k) iv) \<le> prod_list (take (Suc k) xs)"
    by (rule offs_take_bounds(2) [OF assms(1,2)])
  then show ?thesis
    using n s i ck_int_fits [OF assms(1), of "offs (take k xs) (take k iv) * xs ! k" "Suc k"]
      ck_int_fits [OF assms(1), of "offs (take (Suc k) xs) (take (Suc k) iv)" "Suc k"] by simp
qed

lemma offs_pad_step:
  assumes "shape_fits xs" and "valid_idx xs iv" and "length iv \<le> k" and "k < length xs"
  shows "ck_int (offs (take k xs) iv * xs ! k) = Inr (offs (take (Suc k) xs) iv)"
proof -
  have s: "offs (take (Suc k) xs) iv = offs (take k xs) iv * xs ! k"
    using assms by (simp add: take_Suc_conv_app_nth offs_pad)
  have "take k iv = iv" "take (Suc k) iv = iv" using assms(3) by simp_all
  with offs_take_bounds [OF assms(1,2), of "Suc k"] s ck_int_fits [OF assms(1), of _ "Suc k"]
  show ?thesis by simp
qed

lemma horner_loop:
  assumes "shape_fits xs" and "valid_idx xs iv" and "iv \<noteq> []"
    and "\<And>j. 1 \<le> j \<Longrightarrow> j < int (length iv) \<Longrightarrow>
           f j (offs (take (nat j) xs) (take (nat j) iv))
           = bindR (ck_int (offs (take (nat j) xs) (take (nat j) iv) * xs ! nat j)) (\<lambda>p. ck_int (p + iv ! nat j))"
  shows "cfor 1 (int (length iv)) f (iv ! 0) = Inr (offs (take (length iv) xs) iv)"
proof -
  let ?g = "\<lambda>j. offs (take (nat j) xs) (take (nat j) iv)"
  obtain i js where iv: "iv = i # js" using assms(3) by (cases iv) auto
  moreover obtain x ys where "xs = x # ys" using iv assms(2) by (cases xs) auto
  ultimately have g1: "?g 1 = iv ! 0" by simp
  have "f j (?g j) = Inr (?g (j + 1))" if j: "1 \<le> j" "j < int (length iv)" for j
    using assms(4) [OF j] offs_step [OF assms(1,2), of "nat j"] j by (simp add: nat_add_distrib nat_less_iff)
  from cfor_traj [of 1 "int (length iv)" f ?g, OF _ this] show ?thesis
    using g1 assms(3) by (simp add: Suc_le_eq)
qed

lemma padding_loop:
  assumes "shape_fits xs" and "valid_idx xs iv"
    and "\<And>j s. int (length iv) \<le> j \<Longrightarrow> j < int (length xs) \<Longrightarrow> f j s = ck_int (s * xs ! nat j)"
  shows "cfor (max 1 (int (length iv))) (int (length xs)) f (offs (take (length iv) xs) iv)
         = Inr (offs xs iv)"
proof -
  let ?g = "\<lambda>j. offs (take (nat j) xs) iv"
  let ?i = "max 1 (int (length iv))"
  have l: "length iv \<le> length xs" using assms(2) by (rule valid_idx_length)
  have start: "offs (take (length iv) xs) iv = ?g ?i" by (cases iv) (auto simp: nat_add_distrib max_def)
  show ?thesis
  proof (cases "?i \<le> int (length xs)")
    case True
    have "f j (?g j) = Inr (?g (j + 1))" if j: "?i \<le> j" "j < int (length xs)" for j
      using assms(3) [of j] offs_pad_step [OF assms(1,2), of "nat j"] j
      by (simp add: nat_add_distrib nat_less_iff le_nat_iff)
    from cfor_traj [of ?i "int (length xs)" f ?g, OF True this] show ?thesis using start by simp
  next
    case False
    then have "xs = []" using l by (cases xs) auto
    then show ?thesis using l by simp
  qed
qed

lemma Idx2Offset_shp_ivec:
  assumes "shape_fits xs" and "valid_idx xs iv"
  shows "Idx2Offset_shp (ivec iv :: 'f const) (sh xs) = Inr (offs xs iv)"
proof -
  have l: "length iv \<le> length xs" using assms(2) by (rule valid_idx_length)
  have idx: "0 \<le> iv ! k" "iv ! k < xs ! k" if "k < length iv" for k
    using valid_idx_nth [OF assms(2) that] by auto
  let ?f = "\<lambda>i offset. bindR (rd_int (full (map (CInt IInt) iv) :: 'f cval cvec) i) (\<lambda>c. bindR (SHgetExtent (sh xs) i) (\<lambda>e.
      dbug_assert ''Idx2Offset: range'' (c < e) (bindR (ck_int (offset * e)) (\<lambda>p. ck_int (p + c)))))"
  have pad: "cfor (max 1 (int (length iv))) (int (length xs)) (\<lambda>i offset.
      bindR (SHgetExtent (sh xs) i) (\<lambda>e. ck_int (offset * e))) (offs (take (length iv) xs) iv) = Inr (offs xs iv)"
    by (rule padding_loop [OF assms]) (simp add: SHgetExtent_sh)
  show ?thesis
  proof (cases "iv = []")
    case True
    with pad show ?thesis by (simp add: Idx2Offset_shp_def SHgetExtent_sh SHgetDim_sh)
  next
    case False
    then have "0 < length iv" "0 < length xs" using l by auto
    moreover have "cfor 1 (int (length iv)) ?f (iv ! 0) = Inr (offs (take (length iv) xs) iv)"
      using False l idx by (intro horner_loop [OF assms]) (simp_all add: rd_int_full SHgetExtent_sh nat_less_iff)
    ultimately show ?thesis
      using pad l idx by (simp add: Idx2Offset_shp_def SHgetExtent_sh SHgetDim_sh Let_def rd_int_full)
  qed
qed

lemma Idx2Offset_con [const]:
  "shape_fits xs \<Longrightarrow> valid_idx xs iv \<Longrightarrow> Idx2Offset (ivec iv) (con t xs es) = Inr (offs xs iv)"
  by (simp add: Idx2Offset_def Idx2Offset_shp_ivec)

lemma COvect2offset_con [const]:
  assumes "shape_fits xs" and "valid_idx xs iv"
  shows "COvect2offset (ivec xs :: 'f const) (ivec iv) = Inr (con T_int [] [CInt IInt (offs xs iv)])"
proof -
  have l: "length iv \<le> length xs" using assms(2) by (rule valid_idx_length)
  let ?f = "\<lambda>i offset. bindR (rd_int (full (map (CInt IInt) xs) :: 'f cval cvec) i) (\<lambda>e. bindR (ck_int (offset * e)) (\<lambda>p.
      bindR (rd_int (full (map (CInt IInt) iv) :: 'f cval cvec) i) (\<lambda>c. ck_int (p + c))))"
  have pad: "cfor (max 1 (int (length iv))) (int (length xs)) (\<lambda>i offset.
      bindR (rd_int (full (map (CInt IInt) xs) :: 'f cval cvec) i) (\<lambda>e. ck_int (offset * e))) (offs (take (length iv) xs) iv) = Inr (offs xs iv)"
    by (rule padding_loop [OF assms]) (simp add: rd_int_full)
  show ?thesis
  proof (cases "iv = []")
    case True
    with pad show ?thesis by (simp add: COvect2offset_def SHgetExtent_sh COmakeConstantFromInt_con)
  next
    case False
    then have "0 < length iv" "0 < length xs" using l by auto
    moreover have "cfor 1 (int (length iv)) ?f (iv ! 0) = Inr (offs (take (length iv) xs) iv)"
      using False l by (intro horner_loop [OF assms]) (simp_all add: rd_int_full nat_less_iff)
    ultimately show ?thesis
      using pad l by (simp add: COvect2offset_def SHgetExtent_sh Let_def rd_int_full COmakeConstantFromInt_con)
  qed
qed

text \<open>An index that is too long, or too large in its first axis, is rejected.\<close>

lemma Idx2Offset_long:
  "length xs < length iv \<Longrightarrow> Idx2Offset (ivec iv) (con t xs es) = Inl (AssertFail ''Idx2Offset: length'')"
  by (simp add: Idx2Offset_def Idx2Offset_shp_def SHgetExtent_sh SHgetDim_sh Let_def)

lemma Idx2Offset_range:
  assumes "xs \<noteq> []" and "iv \<noteq> []" and "length iv \<le> length xs" and "xs ! 0 \<le> iv ! 0"
  shows "Idx2Offset (ivec iv) (con t xs es) = Inl (AssertFail ''Idx2Offset: range'')"
proof -
  have "0 < length iv" "0 < length xs" using assms by auto
  with assms show ?thesis
    by (simp add: Idx2Offset_def Idx2Offset_shp_def SHgetExtent_sh SHgetDim_sh Let_def rd_int_full)
qed

subsection \<open>Index spaces in row-major order\<close>

text \<open>
  The indices between given bounds, the successor of an index in their order (\<open>None\<close>
  after the last one), and the indices from a given one on.
\<close>

fun box :: "(int \<times> int) list \<Rightarrow> int list list" where
  "box [] = [[]]"
| "box ((lo, hi) # bs) = concat (map (\<lambda>i. map ((#) i) (box bs)) [lo..hi])"

fun next_idx :: "(int \<times> int) list \<Rightarrow> int list \<Rightarrow> int list option" where
  "next_idx ((lo, hi) # bs) (i # is) =
     (case next_idx bs is of
        Some js \<Rightarrow> Some (i # js)
      | None \<Rightarrow> if i = hi then None else Some ((i + 1) # map fst bs))"
| "next_idx _ _ = None"

fun box_from :: "(int \<times> int) list \<Rightarrow> int list \<Rightarrow> int list list" where
  "box_from ((lo, hi) # bs) (i # is) =
     map ((#) i) (box_from bs is) @ concat (map (\<lambda>j. map ((#) j) (box bs)) [i + 1..hi])"
| "box_from _ _ = [[]]"

fun in_box :: "(int \<times> int) list \<Rightarrow> int list \<Rightarrow> bool" where
  "in_box [] [] = True"
| "in_box ((lo, hi) # bs) (i # is) = (lo \<le> i \<and> i \<le> hi \<and> in_box bs is)"
| "in_box _ _ = False"

definition idx_space :: "int list \<Rightarrow> int list list" where
  "idx_space xs = box (map (\<lambda>x. (0, x - 1)) xs)"

lemma in_box_length: "in_box bs is \<Longrightarrow> length is = length bs"
  by (induction bs "is" rule: in_box.induct) auto

lemma in_box_iff: "is \<in> set (box bs) \<longleftrightarrow> in_box bs is"
  by (induction bs "is" rule: in_box.induct) auto

lemma box_from_low: "\<forall>(lo, hi)\<in>set bs. lo \<le> hi \<Longrightarrow> box_from bs (map fst bs) = box bs"
proof (induction bs)
  case (Cons b bs)
  obtain lo hi where b: "b = (lo, hi)" by fastforce
  then have "[lo..hi] = lo # [lo + 1..hi]" using Cons.prems by (simp add: upto.simps)
  with Cons b show ?case by simp
qed simp

lemma box_from_next:
  assumes "in_box bs is" and "\<forall>(lo, hi)\<in>set bs. lo \<le> hi"
  shows "box_from bs is = is # (case next_idx bs is of None \<Rightarrow> [] | Some js \<Rightarrow> box_from bs js)"
  using assms
proof (induction bs "is" rule: in_box.induct)
  case (2 lo hi bs i "is")
  then have IH: "box_from bs is = is # (case next_idx bs is of None \<Rightarrow> [] | Some js \<Rightarrow> box_from bs js)"
    by simp
  show ?case
  proof (cases "next_idx bs is")
    case (Some js)
    with IH show ?thesis by simp
  next
    case None
    then have one: "box_from bs is = [is]" using IH by simp
    show ?thesis
    proof (cases "i = hi")
      case True
      with None one show ?thesis by simp
    next
      case False
      then have "[i + 1..hi] = (i + 1) # [i + 1 + 1..hi]" using 2 by (simp add: upto.simps)
      moreover have "box_from bs (map fst bs) = box bs" using 2 by (intro box_from_low) auto
      ultimately show ?thesis using None one False by simp
    qed
  qed
qed auto

lemma next_idx_in_box: "next_idx bs is = Some js \<Longrightarrow> in_box bs is \<Longrightarrow> \<forall>(lo, hi)\<in>set bs. lo \<le> hi \<Longrightarrow> in_box bs js"
proof (induction bs "is" arbitrary: js rule: in_box.induct)
  case (2 lo hi bs i "is")
  have low: "in_box bs (map fst bs)" using 2(4) by (induction bs) auto
  show ?case using 2 low by (auto split: option.splits if_splits)
qed auto

lemma next_idx_snoc:
  "length is = length bs \<Longrightarrow>
     next_idx (bs @ [(lo, hi)]) (is @ [i])
     = (if i = hi then map_option (\<lambda>js. js @ [lo]) (next_idx bs is) else Some (is @ [i + 1]))"
  by (induction "is" bs rule: list_induct2) (auto split: option.splits)

text \<open>
  A loop that treats an index and goes on with its successor folds over the indices from
  the first one on.
\<close>

lemma next_loop:
  assumes "in_box bs is" and "\<forall>(lo, hi)\<in>set bs. lo \<le> hi"
    and "\<And>is s. in_box bs is \<Longrightarrow> loop is s = bindRO (step is s) (\<lambda>s'.
           case next_idx bs is of None \<Rightarrow> Some (Inr s') | Some js \<Rightarrow> loop js s')"
  shows "loop is s = Some (foldR step (box_from bs is) s)"
  using assms(1)
proof (induction "length (box_from bs is)" arbitrary: "is" s)
  case 0
  with box_from_next [OF 0(2) assms(2)] show ?case by simp
next
  case (Suc n)
  note unf = box_from_next [OF Suc.prems assms(2)]
  show ?case
  proof (cases "step is s")
    case (Inl e)
    then show ?thesis by (subst assms(3) [OF Suc.prems], subst unf) simp
  next
    case (Inr s')
    show ?thesis
    proof (cases "next_idx bs is")
      case None
      with Inr show ?thesis by (subst assms(3) [OF Suc.prems], subst unf) simp
    next
      case (Some js)
      then have "in_box bs js" using next_idx_in_box Suc.prems assms(2) by blast
      moreover have "n = length (box_from bs js)" using Suc.hyps(2) unf Some by simp
      ultimately have "loop js s' = Some (foldR step (box_from bs js) s')" using Suc.hyps(1) by blast
      with Inr Some show ?thesis by (subst assms(3) [OF Suc.prems], subst unf) simp
    qed
  qed
qed

subsection \<open>The counters compute successors\<close>

lemma wr_ints [cmem]:
  "0 \<le> i \<Longrightarrow> i < int (length xs) \<Longrightarrow>
     wr (full (map (CInt IInt) xs)) i (CInt IInt y) = Inr (full (map (CInt IInt) (xs[nat i := y])))"
  by (simp add: wr_full map_update)

definition int_bounds :: "(int \<times> int) list \<Rightarrow> bool" where
  "int_bounds bs \<longleftrightarrow> (\<forall>(lo, hi)\<in>set bs. lo \<le> hi \<and> in_ity IInt lo \<and> in_ity IInt hi)"

lemma in_box_nth: "in_box bs is \<Longrightarrow> k < length bs \<Longrightarrow> fst (bs ! k) \<le> is ! k \<and> is ! k \<le> snd (bs ! k)"
proof (induction bs "is" arbitrary: k rule: in_box.induct)
  case (2 lo hi bs i "is")
  then show ?case by (cases k) auto
qed auto

lemma in_box_update:
  "in_box bs is \<Longrightarrow> k < length bs \<Longrightarrow> fst (bs ! k) \<le> y \<Longrightarrow> y \<le> snd (bs ! k) \<Longrightarrow> in_box bs (is[k := y])"
proof (induction bs "is" arbitrary: k rule: in_box.induct)
  case (2 lo hi bs i "is")
  then show ?case by (cases k) auto
qed auto

text \<open>The part of \<open>IncrementIndex\<close> after the carry.\<close>

definition inc_finish :: "'f cval cvec \<Rightarrow> nat \<times> 'f cval cvec \<Rightarrow> 'f cval cvec option cres" where
  "inc_finish mx = (\<lambda>(dim, v).
     bindR (rd_int v (int dim)) (\<lambda>x. bindR (rd_int mx (int dim)) (\<lambda>m.
       if x = m then Inr None
       else bindR (ck_int (x + 1)) (\<lambda>x'. bindR (wr v (int dim) (CInt IInt x')) (\<lambda>v. Inr (Some v))))))"

lemma list_update_take_drop: "k < length xs \<Longrightarrow> xs[k := y] = take k xs @ y # drop (Suc k) xs"
  by (rule upd_conv_take_nth_drop)

lemma inc_carry_next:
  assumes "in_box bs v" and "int_bounds bs" and "d < length v"
  shows "bindR (inc_carry (full (map (CInt IInt) (map fst bs)) :: 'f cval cvec) (full (map (CInt IInt) (map snd bs))) d
                  (full (map (CInt IInt) v))) (inc_finish (full (map (CInt IInt) (map snd bs))))
         = Inr (map_option (\<lambda>js. full (map (CInt IInt) (js @ drop (Suc d) v)))
                  (next_idx (take (Suc d) bs) (take (Suc d) v)))"
  using assms
proof (induction d arbitrary: v)
  case 0
  have l: "length v = length bs" using 0 in_box_length by blast
  obtain lo hi bt where bs: "bs = (lo, hi) # bt" using l 0 by (cases bs) auto
  obtain x vt where v: "v = x # vt" using 0 by (cases v) auto
  have r: "lo \<le> x" "x \<le> hi" "in_ity IInt lo" "in_ity IInt hi"
    using 0 bs v by (auto simp: int_bounds_def)
  then have "x \<noteq> hi \<Longrightarrow> ck_int (x + 1) = Inr (x + 1)"
    by (simp add: ck_int_def in_srange_32 in_ity_IInt int_max_def)
  then show ?case using bs v
    by (auto simp: inc_finish_def rd_int_full [of 0 "x # vt", simplified]
        rd_int_full [of 0 "hi # map snd bt", simplified] wr_def)
next
  case (Suc d)
  have l: "length v = length bs" using Suc in_box_length by blast
  let ?k = "Suc d"
  have k: "?k < length bs" "d < length bs" using Suc l by auto
  obtain lo hi where b: "bs ! ?k = (lo, hi)" by fastforce
  have "(lo, hi) \<in> set bs" using b k(1) by (metis nth_mem)
  then have bd: "lo \<le> hi" "in_ity IInt lo" "in_ity IInt hi" using Suc.prems(2) by (auto simp: int_bounds_def)
  have x: "lo \<le> v ! ?k" "v ! ?k \<le> hi" using in_box_nth [OF Suc.prems(1) k(1)] b by auto
  have tk: "take (Suc ?k) bs = take ?k bs @ [(lo, hi)]" "take (Suc ?k) v = take ?k v @ [v ! ?k]"
    using k l b by (simp_all add: take_Suc_conv_app_nth)
  have nx: "next_idx (take (Suc ?k) bs) (take (Suc ?k) v)
      = (if v ! ?k = hi then map_option (\<lambda>js. js @ [lo]) (next_idx (take ?k bs) (take ?k v))
         else Some (take ?k v @ [v ! ?k + 1]))"
    unfolding tk by (rule next_idx_snoc) (use k l in simp)
  have rds: "rd_int (full (map (CInt IInt) v)) (int ?k) = Inr (v ! ?k)"
      "rd_int (full (map (CInt IInt) (map snd bs))) (int ?k) = Inr hi"
      "rd_int (full (map (CInt IInt) (map fst bs))) (int ?k) = Inr lo"
    using k l b rd_int_full [of "int ?k" v] rd_int_full [of "int ?k" "map snd bs"]
      rd_int_full [of "int ?k" "map fst bs"] by (simp_all del: of_nat_Suc map_map)
  show ?case
  proof (cases "v ! ?k = hi")
    case True
    let ?v = "v[?k := lo]"
    have "in_box bs ?v" using Suc.prems(1) k b bd by (intro in_box_update) auto
    then have IH: "bindR (inc_carry (full (map (CInt IInt) (map fst bs)) :: 'f cval cvec) (full (map (CInt IInt) (map snd bs))) d
          (full (map (CInt IInt) ?v))) (inc_finish (full (map (CInt IInt) (map snd bs))))
        = Inr (map_option (\<lambda>js. full (map (CInt IInt) (js @ drop ?k ?v))) (next_idx (take ?k bs) (take ?k ?v)))"
      using Suc.prems k l by (intro Suc.IH) auto
    have dr: "drop ?k ?v = lo # drop (Suc ?k) v" "take ?k ?v = take ?k v"
      using k l by (simp_all add: list_update_take_drop)
    have w: "wr (full (map (CInt IInt) v)) (int ?k) (CInt IInt lo) = Inr (full (map (CInt IInt) ?v))"
      using k l wr_ints [of "int ?k" v lo] by (simp del: of_nat_Suc)
    show ?thesis
      using True IH by (simp only: inc_carry.simps rds bindR_simps w if_True nx dr bindR_assoc)
        (simp add: option.map_comp comp_def)
  next
    case False
    then have "ck_int (v ! ?k + 1) = Inr (v ! ?k + 1)"
      using x bd by (simp add: ck_int_def in_srange_32 in_ity_IInt int_max_def)
    moreover have "wr (full (map (CInt IInt) v) :: 'f cval cvec) (int ?k) (CInt IInt (v ! ?k + 1))
        = Inr (full (map (CInt IInt) (v[?k := v ! ?k + 1])))"
      using k l wr_ints [of "int ?k" v] by (simp del: of_nat_Suc)
    moreover have "v[?k := v ! ?k + 1] = (take ?k v @ [v ! ?k + 1]) @ drop (Suc ?k) v"
      using k l by (simp add: list_update_take_drop)
    ultimately show ?thesis
      using False by (simp only: inc_carry.simps rds bindR_simps if_False nx inc_finish_def prod.case option.map)
  qed
qed

lemma IncrementIndex_ivec [const]:
  assumes "in_box bs v" and "int_bounds bs"
  shows "IncrementIndex (ivec (map fst bs)) (ivec v) (ivec (map snd bs))
         = Inr (map_option ivec (next_idx bs v))"
proof (cases "v = []")
  case True
  then have "bs = []" using assms(1) by (cases bs) auto
  with True show ?thesis by (simp add: IncrementIndex_def)
next
  case False
  let ?n = "length v - 1"
  have l: "length v = length bs" using assms(1) in_box_length by blast
  have n: "?n < length v" "take (Suc ?n) bs = bs" "take (Suc ?n) v = v" "drop (Suc ?n) v = []"
    using False l by (cases v; simp)+
  let ?mx = "full (map (CInt IInt) (map snd bs)) :: 'a cval cvec"
  have "IncrementIndex (ivec (map fst bs)) (ivec v) (ivec (map snd bs))
      = bindR (bindR (inc_carry (full (map (CInt IInt) (map fst bs))) ?mx ?n (full (map (CInt IInt) v)))
          (inc_finish ?mx)) (\<lambda>o'. Inr (map_option (\<lambda>w. (ivec v)\<lparr>CONSTANT_ELEMS := w\<rparr>) o'))"
    using False
    by (auto simp: IncrementIndex_def inc_finish_def bindR_def split: sum.splits prod.splits)
  also have "\<dots> = Inr (map_option (\<lambda>js. (ivec v)\<lparr>CONSTANT_ELEMS := full (map (CInt IInt) js)\<rparr>) (next_idx bs v))"
    unfolding inc_carry_next [OF assms n(1)] n by (simp add: option.map_comp comp_def)
  also have "\<dots> = Inr (map_option ivec (next_idx bs v))"
  proof (cases "next_idx bs v")
    case (Some js)
    have "\<forall>(lo, hi)\<in>set bs. lo \<le> hi" using assms(2) by (auto simp: int_bounds_def)
    then have "length js = length v" using next_idx_in_box [OF Some assms(1)] in_box_length l by metis
    with Some show ?thesis by (simp add: con_def)
  qed simp
  finally show ?thesis .
qed

subsection \<open>The enumeration visits every index once, in order\<close>

text \<open>One round of the outer loop of \<open>COcreateAllIndicesAndFold\<close>, without the call.\<close>

definition all_step :: "shape \<Rightarrow> nat \<Rightarrow> 'f cval cvec \<Rightarrow> 'f cval cvec option cres" where
  "all_step shp d v =
     bindR (rd_int v (int d)) (\<lambda>x. bindR (ck_int (x + 1)) (\<lambda>x'.
     bindR (wr v (int d) (CInt IInt x')) (\<lambda>v. bindR (all_carry shp d v) (\<lambda>dv.
     bindR (rd_int (snd dv) (int (fst dv))) (\<lambda>y. bindR (SHgetExtent shp (int (fst dv))) (\<lambda>e.
       Inr (if y < e then Some (snd dv) else None)))))))"

abbreviation space_bounds :: "int list \<Rightarrow> (int \<times> int) list" where
  "space_bounds xs \<equiv> map (\<lambda>x. (0, x - 1)) xs"

lemma all_loop_step:
  "all_loop shp f idx d v accu =
     bindRO (f (idx\<lparr>CONSTANT_ELEMS := v\<rparr>) accu) (\<lambda>accu.
     bindRO (all_step shp d v) (\<lambda>o'. case o' of
       Some w \<Rightarrow> all_loop shp f idx d w accu | None \<Rightarrow> Some (Inr accu)))"
  by (subst all_loop.simps)
    (simp add: all_step_def bindRO_def bindR_def split: sum.split)

lemma all_step_next:
  assumes "in_box (space_bounds xs) v" and "shape_fits xs" and "d < length v"
  shows "all_step (sh xs) d (full (map (CInt IInt) v) :: 'f cval cvec)
         = Inr (map_option (\<lambda>js. full (map (CInt IInt) (js @ drop (Suc d) v)))
             (next_idx (take (Suc d) (space_bounds xs)) (take (Suc d) v)))"
  using assms
proof (induction d arbitrary: v)
  case 0
  have l: "length v = length xs" using in_box_length [OF 0(1)] by simp
  obtain x xt where xs: "xs = x # xt" using l 0 by (cases xs) auto
  obtain y vt where v: "v = y # vt" using 0 by (cases v) auto
  have r: "0 \<le> y" "y \<le> x - 1" "x \<le> int_max" using 0 xs v in_int_fits [of xs x] by auto
  have ck: "ck_int (y + 1) = Inr (y + 1)" using r by (intro ck_int_ok) auto
  have rds: "rd_int (full (map (CInt IInt) v) :: 'f cval cvec) 0 = Inr y"
      "rd_int (full (map (CInt IInt) ((y + 1) # vt)) :: 'f cval cvec) 0 = Inr (y + 1)"
      "wr (full (map (CInt IInt) v) :: 'f cval cvec) 0 (CInt IInt (y + 1))
       = Inr (full (map (CInt IInt) ((y + 1) # vt)))"
    using v rd_int_full [of 0 v] rd_int_full [of 0 "(y + 1) # vt"] wr_ints [of 0 v "y + 1"]
    by (simp_all del: list.map full_simps)
  have "all_step (sh xs) 0 (full (map (CInt IInt) v) :: 'f cval cvec)
      = Inr (if y + 1 < x then Some (full (map (CInt IInt) ((y + 1) # vt))) else None)"
    using xs ck by (simp add: all_step_def SHgetExtent_sh rds del: list.map full_simps)
  then show ?case using xs v r by auto
next
  case (Suc d)
  let ?k = "Suc d"
  have l: "length v = length xs" using in_box_length [OF Suc.prems(1)] by simp
  have k: "?k < length xs" "d < length xs" using Suc l by auto
  have x: "0 \<le> v ! ?k" "v ! ?k \<le> xs ! ?k - 1" using in_box_nth [OF Suc.prems(1), of ?k] k by auto
  have m: "xs ! ?k \<le> int_max" using in_int_fits [OF Suc.prems(2)] k by simp
  have ck: "ck_int (v ! ?k + 1) = Inr (v ! ?k + 1)" using x m by (intro ck_int_ok) auto
  have tk: "take (Suc ?k) (space_bounds xs) = take ?k (space_bounds xs) @ [(0, xs ! ?k - 1)]"
      "take (Suc ?k) v = take ?k v @ [v ! ?k]"
    using k l by (simp_all add: take_Suc_conv_app_nth)
  have nx: "next_idx (take (Suc ?k) (space_bounds xs)) (take (Suc ?k) v)
      = (if v ! ?k = xs ! ?k - 1
         then map_option (\<lambda>js. js @ [0]) (next_idx (take ?k (space_bounds xs)) (take ?k v))
         else Some (take ?k v @ [v ! ?k + 1]))"
    unfolding tk by (rule next_idx_snoc) (use k l in simp)
  let ?w = "v[?k := v ! ?k + 1]"
  have rds: "rd_int (full (map (CInt IInt) v) :: 'f cval cvec) (int ?k) = Inr (v ! ?k)"
      "rd_int (full (map (CInt IInt) ?w) :: 'f cval cvec) (int ?k) = Inr (v ! ?k + 1)"
      "SHgetExtent (sh xs) (int ?k) = Inr (xs ! ?k)"
    using k l rd_int_full [of "int ?k" v] rd_int_full [of "int ?k" ?w] SHgetExtent_sh [of "int ?k" xs]
    by (simp_all del: of_nat_Suc)
  have w1: "wr (full (map (CInt IInt) v) :: 'f cval cvec) (int ?k) (CInt IInt (v ! ?k + 1))
      = Inr (full (map (CInt IInt) ?w))"
    using k l wr_ints [of "int ?k" v "v ! ?k + 1"] by (simp del: of_nat_Suc)
  show ?case
  proof (cases "v ! ?k = xs ! ?k - 1")
    case True
    let ?v = "v[?k := 0]"
    have c: "(v ! ?k + 1 = xs ! ?k) = True" using True by simp
    have "in_box (space_bounds xs) ?v" using Suc.prems(1) k x True by (intro in_box_update) auto
    then have IH: "all_step (sh xs) d (full (map (CInt IInt) ?v) :: 'f cval cvec)
        = Inr (map_option (\<lambda>js. full (map (CInt IInt) (js @ drop ?k ?v)))
            (next_idx (take ?k (space_bounds xs)) (take ?k ?v)))"
      using Suc.prems k l by (intro Suc.IH) auto
    have dr: "drop ?k ?v = 0 # drop (Suc ?k) v" "take ?k ?v = take ?k v"
      using k l by (simp_all add: list_update_take_drop)
    have w2: "wr (full (map (CInt IInt) ?w) :: 'f cval cvec) (int ?k) (CInt IInt 0)
        = Inr (full (map (CInt IInt) ?v))"
      using k l wr_ints [of "int ?k" ?w 0] by (simp del: of_nat_Suc)
    have "all_step (sh xs) ?k (full (map (CInt IInt) v) :: 'f cval cvec)
        = all_step (sh xs) d (full (map (CInt IInt) ?v))"
      by (simp only: all_step_def all_carry.simps rds ck bindR_simps w1 w2 c if_True bindR_assoc)
    then show ?thesis
      using True IH by (simp only: nx dr if_True) (simp add: option.map_comp comp_def)
  next
    case False
    then have c: "(v ! ?k + 1 = xs ! ?k) = False" "(v ! ?k + 1 < xs ! ?k) = True" using x by auto
    have "all_step (sh xs) ?k (full (map (CInt IInt) v) :: 'f cval cvec)
        = Inr (Some (full (map (CInt IInt) ?w)))"
      by (simp only: all_step_def all_carry.simps rds ck bindR_simps w1 c if_False if_True fst_conv snd_conv)
    moreover have "?w = (take ?k v @ [v ! ?k + 1]) @ drop (Suc ?k) v"
      using k l by (simp add: list_update_take_drop)
    ultimately show ?thesis using False by (simp only: nx if_False option.map)
  qed
qed

lemma space_bounds_ok:
  assumes "shape_fits xs" and "\<forall>x\<in>set xs. 0 < x"
  shows "\<forall>(lo, hi)\<in>set (space_bounds xs). lo \<le> hi" and "int_bounds (space_bounds xs)"
  using assms in_int_fits [OF assms(1)]
  by (auto simp: int_bounds_def in_ity_IInt int_max_def) (smt (verit))+

lemma all_loop_folds:
  assumes "shape_fits xs" and "\<forall>x\<in>set xs. 0 < x" and "xs \<noteq> []"
  shows "all_loop (sh xs) f (idx :: 'f const) (length xs - 1) (full (map (CInt IInt) (replicate (length xs) 0))) accu
         = Some (foldR (\<lambda>iv. f (idx\<lparr>CONSTANT_ELEMS := full (map (CInt IInt) iv)\<rparr>)) (idx_space xs) accu)"
proof -
  let ?bs = "space_bounds xs"
  let ?loop = "\<lambda>iv s. all_loop (sh xs) f idx (length xs - 1) (full (map (CInt IInt) iv)) s"
  let ?step = "\<lambda>iv. f (idx\<lparr>CONSTANT_ELEMS := full (map (CInt IInt) iv)\<rparr>)"
  have n: "Suc (length xs - 1) = length xs" using assms(3) by (cases xs) auto
  have unf: "?loop iv s = bindRO (?step iv s) (\<lambda>s'.
      case next_idx ?bs iv of None \<Rightarrow> Some (Inr s') | Some js \<Rightarrow> ?loop js s')" if iv: "in_box ?bs iv" for iv s
  proof -
    have l: "length iv = length xs" using in_box_length [OF iv] by simp
    have "all_step (sh xs) (length xs - 1) (full (map (CInt IInt) iv) :: 'f cval cvec)
        = Inr (map_option (\<lambda>js. full (map (CInt IInt) js)) (next_idx ?bs iv))"
      using all_step_next [OF iv assms(1), of "length xs - 1"] l n assms(3) by simp
    then show ?thesis
      by (subst all_loop_step) (cases "next_idx ?bs iv"; simp)
  qed
  have low: "map fst ?bs = replicate (length xs) 0" by (simp add: comp_def map_replicate_const)
  have ok: "\<forall>(lo, hi)\<in>set ?bs. lo \<le> hi" using space_bounds_ok(1) [OF assms(1,2)] .
  have start: "in_box ?bs (replicate (length xs) 0)" using assms(2) by (induction xs) auto
  show ?thesis
    using next_loop [OF start ok, of ?loop ?step, OF unf] box_from_low [OF ok]
    by (simp add: idx_space_def low [simplified])
qed

lemma idx_space_empty:
  assumes "0 \<in> set xs" shows "idx_space xs = []"
proof -
  have "(0 :: int) \<in> set xs \<Longrightarrow> box (space_bounds xs) = []"
  proof (induction xs)
    case (Cons x xs)
    then show ?case by (cases "x = 0") auto
  qed simp
  with assms show ?thesis by (simp add: idx_space_def)
qed

lemma prod_list_0: "prod_list xs = 0 \<longleftrightarrow> 0 \<in> set xs" for xs :: "int list"
  by (induction xs) auto

lemma base_zero_int: "shape_fits xs \<Longrightarrow>
  COmakeZero F T_int (sh xs) = Inr (Some (con T_int xs (map (CInt IInt) (replicate (nat (prod_list xs)) 0))))"
  using CObaseCv_con [of xs F BZero T_int "CInt IInt 0"]
  by (simp add: COmakeZero_def base_cell_def)

lemma nat_int_sub: "nat (int n - 1) = n - Suc 0"
  by linarith

lemma COcreateAllIndicesAndFold_vec [const]:
  assumes "shape_fits xs" and "int (length xs) \<le> int_max"
  shows "COcreateAllIndicesAndFold F (sh xs) f accu False
         = Some (foldR (\<lambda>iv. f (ivec iv)) (idx_space xs) accu)"
proof -
  have len: "iconv IInt (prod_list xs) = prod_list xs"
    using shape_fits_prod [OF assms(1)] by (intro iconv_id) (simp add: in_ity_IInt)
  have shp: "SHcreateShape 1 [int (length xs)] = Inr (sh [int (length xs)])"
    using SHcreateShape_sh [of "[int (length xs)]"] by simp
  have fit: "shape_fits [int (length xs)]" using assms(2) by (simp add: shape_fits_def int_max_def)
  consider "xs = []" | "xs \<noteq> []" "0 \<in> set xs" | "xs \<noteq> []" "0 \<notin> set xs" by blast
  then show ?thesis
  proof cases
    case 1
    then show ?thesis
      using base_zero_int [OF fit, of F] shp
      by (simp add: COcreateAllIndicesAndFold_def SHgetDim_sh SHgetUnrLen_sh idx_space_def foldR_Nil_fun)
  next
    case 2
    then have "prod_list xs = 0" by (simp add: prod_list_0)
    with 2 show ?thesis
      using base_zero_int [OF fit, of F] shp assms len
      by (simp add: COcreateAllIndicesAndFold_def SHgetDim_sh SHgetUnrLen_sh idx_space_empty)
  next
    case 3
    then have pos: "\<forall>x\<in>set xs. 0 < x" using assms(1) by (auto simp: shape_fits_def le_less)
    then have p: "0 < prod_list xs" by (rule prod_list_pos)
    have "foldR (\<lambda>iv. f ((con T_int [int (length xs)] (map (CInt IInt) (replicate (length xs) 0)))
        \<lparr>CONSTANT_ELEMS := full (map (CInt IInt) iv)\<rparr>)) (idx_space xs) accu
      = foldR (\<lambda>iv. f (ivec iv)) (idx_space xs) accu"
    proof (rule foldR_cong)
      fix iv and t assume "iv \<in> set (idx_space xs)"
      then have "length iv = length xs"
        using in_box_length [of "space_bounds xs" iv] by (simp add: idx_space_def in_box_iff)
      then show "f ((con T_int [int (length xs)] (map (CInt IInt) (replicate (length xs) 0)))
          \<lparr>CONSTANT_ELEMS := full (map (CInt IInt) iv)\<rparr>) t = f (ivec iv) t"
        by (simp add: con_def)
    qed
    with 3 show ?thesis
      using base_zero_int [OF fit, of F] shp assms len p
        all_loop_folds [OF assms(1) pos 3(1), of f "con T_int [int (length xs)] (map (CInt IInt) (replicate (length xs) 0))" accu]
      by (simp add: COcreateAllIndicesAndFold_def SHgetDim_sh SHgetUnrLen_sh nat_int_sub)
  qed
qed

subsection \<open>Properties\<close>

lemma map_plus_upto: "map ((+) c) [a..b] = [c + a..c + b]" for a b c :: int
  by (rule nth_equalityI) (auto simp: le_nat_iff)

lemma upto_blocks:
  assumes "0 \<le> P"
  shows "concat (map (\<lambda>i. map ((+) (i * P)) [0..P - 1]) [0..int n - 1]) = [0..int n * P - 1]"
proof (induction n)
  case (Suc n)
  have e: "[0..int (Suc n) - 1] = [0..int n - 1] @ [int n]"
    using upto_rec2 [of 0 "int n"] by simp
  have "map ((+) (int n * P)) [0..P - 1] = [int n * P..int (Suc n) * P - 1]"
    by (simp add: map_plus_upto algebra_simps)
  moreover have "[0..int n * P - 1] @ [int n * P..int (Suc n) * P - 1] = [0..int (Suc n) * P - 1]"
  proof (cases "P = 0")
    case False
    with assms show ?thesis
      using upto_split1 [of 0 "int n * P" "int (Suc n) * P - 1"] by (simp add: algebra_simps)
  qed simp
  ultimately show ?case using Suc.IH by (simp only: e map_append concat_append list.map concat.simps append_Nil2)
qed simp

lemma offs_idx_space:
  assumes "\<forall>x\<in>set xs. 0 \<le> x" shows "map (offs xs) (idx_space xs) = [0..prod_list xs - 1]"
  using assms
proof (induction xs)
  case Nil
  then show ?case by (simp add: idx_space_def)
next
  case (Cons x xs)
  let ?P = "prod_list xs"
  have IH: "map (offs xs) (idx_space xs) = [0..?P - 1]" using Cons by simp
  have "map (offs (x # xs)) (idx_space (x # xs))
      = concat (map (\<lambda>i. map ((+) (i * ?P)) (map (offs xs) (idx_space xs))) [0..x - 1])"
    by (simp add: idx_space_def map_concat comp_def)
  also have "\<dots> = concat (map (\<lambda>i. map ((+) (i * ?P)) [0..?P - 1]) [0..int (nat x) - 1])"
    using Cons.prems by (simp add: IH)
  also have "\<dots> = [0..int (nat x) * ?P - 1]"
    using Cons.prems by (intro upto_blocks prod_list_nonneg) simp
  finally show ?case using Cons.prems by simp
qed

text \<open>
  C26: For every valid index vector (possibly shorter than the shape) \<open>Idx2Offset\<close> returns the
  row-major offset without overflow, and the subarray that starts there lies inside the elements.
\<close>

theorem Idx2Offset_row_major:
  assumes "con_ok t xs es" and "valid_idx xs iv"
  shows "Idx2Offset (ivec iv) (con t xs es) = Inr (offs xs iv)
       \<and> 0 \<le> offs xs iv \<and> offs xs iv + prod_list (drop (length iv) xs) \<le> int (length es)"
  using assms offs_bounds [OF assms(2)]
  by (simp add: con_ok_def Idx2Offset_con shape_fits_def)

lemma Idx2Offset_row_major_witness:
  "Idx2Offset (ivec [1, 2] :: int const) (con T_int [2, 3] (map (CInt IInt) [0, 1, 2, 3, 4, 5])) = Inr 5"
  using Idx2Offset_row_major [of T_int "[2, 3]" "map (CInt IInt) [0, 1, 2, 3, 4, 5] :: int cval list" "[1, 2]"]
  by (simp add: con_eval)

text \<open>
  C27: \<open>Idx2Offset\<close> is a bijection between the valid full index vectors and the positions of the
  elements: every position is the offset of exactly one index.
\<close>

theorem Idx2Offset_bijective:
  assumes "con_ok t xs es" and "k < length es"
  shows "\<exists>!iv. length iv = length xs \<and> valid_idx xs iv
           \<and> Idx2Offset (ivec iv) (con t xs es) = Inr (int k)"
proof -
  have f: "shape_fits xs" and len: "int (length es) = prod_list xs" using assms(1) by (auto simp: con_ok_def)
  have "prod_list xs \<noteq> 0" using assms(2) len by auto
  then have pos: "\<forall>x\<in>set xs. 0 < x"
    using f by (auto simp: shape_fits_def le_less prod_list_0)
  obtain iv where iv: "length iv = length xs" "valid_idx xs iv" "offs xs iv = int k"
    using offs_surj [OF pos, of "int k"] assms(2) len by auto
  show ?thesis
  proof (rule ex1I [of _ iv])
    show "length iv = length xs \<and> valid_idx xs iv \<and> Idx2Offset (ivec iv) (con t xs es) = Inr (int k)"
      using iv Idx2Offset_con [OF f iv(2)] by simp
  next
    fix jv assume jv: "length jv = length xs \<and> valid_idx xs jv \<and> Idx2Offset (ivec jv) (con t xs es) = Inr (int k)"
    then have "offs xs jv = int k" using Idx2Offset_con [OF f, of jv t es] by auto
    then show "jv = iv" using offs_inj [OF _ _ _ pos, of jv iv] jv iv by simp
  qed
qed

lemma Idx2Offset_bijective_witness:
  "\<exists>!iv. length iv = 2 \<and> valid_idx [2, 2] iv
     \<and> Idx2Offset (ivec iv) (con T_int [2, 2] (map (CInt IInt) [7, 8, 9, 10]) :: int const) = Inr 3"
  using Idx2Offset_bijective [of T_int "[2, 2]" "map (CInt IInt) [7, 8, 9, 10] :: int cval list" 3]
  by (simp add: con_eval numeral_2_eq_2)

text \<open>
  \<open>COvect2offset\<close> on the shape vector of a constant agrees with \<open>Idx2Offset\<close> on the constant itself,
  for every valid index.
\<close>

theorem COvect2offset_agrees:
  assumes "con_ok t xs es" and "valid_idx xs iv"
  shows "COvect2offset (ivec xs) (ivec iv) = bindR (Idx2Offset (ivec iv) (con t xs es)) COmakeConstantFromInt"
  using assms by (simp add: con_ok_def Idx2Offset_con COvect2offset_con COmakeConstantFromInt_con)

lemma COvect2offset_agrees_witness:
  "COvect2offset (ivec [2, 3] :: int const) (ivec [1])
   = bindR (Idx2Offset (ivec [1] :: int const) (con T_int [2, 3] (map (CInt IInt) [0, 1, 2, 3, 4, 5]))) COmakeConstantFromInt"
  using COvect2offset_agrees [of T_int "[2, 3]" "map (CInt IInt) [0, 1, 2, 3, 4, 5] :: int cval list" "[1]"]
  by (simp add: con_eval)

text \<open>
  C28: \<open>COcreateAllIndicesAndFold\<close> returns for every shape, also for those with no element, and folds its function over the
  index vectors of the shape, each once, in the order of their offsets 0, 1, 2 and so on.
\<close>

theorem COcreateAllIndicesAndFold_space:
  assumes "shape_fits xs" and "int (length xs) \<le> int_max"
  shows "COcreateAllIndicesAndFold F (sh xs) f accu False
           = Some (foldR (\<lambda>iv. f (ivec iv)) (idx_space xs) accu)
       \<and> map (offs xs) (idx_space xs) = [0..prod_list xs - 1]"
  using COcreateAllIndicesAndFold_vec [OF assms] assms(1) offs_idx_space [of xs]
  by (auto simp: shape_fits_def)

lemma COcreateAllIndicesAndFold_space_witness:
  "COcreateAllIndicesAndFold int_fops (sh [2, 2]) (\<lambda>c s. Inr (s @ [CONSTANT_ELEMS c])) [] False
   = Some (Inr (map (\<lambda>v. full (map (CInt IInt) v)) [[0, 0], [0, 1], [1, 0], [1, 1]]))"
proof -
  have "idx_space [2, 2] = [[0, 0], [0, 1], [1, 0], [1, 1]]"
    by (simp add: idx_space_def upto.simps)
  then show ?thesis
    using COcreateAllIndicesAndFold_space [of "[2, 2]" int_fops "\<lambda>c s. Inr (s @ [CONSTANT_ELEMS c])" "[]"]
    by (simp add: shape_fits_def int_max_def)
qed

end
