(* ===== verification/Constants_Struc.thy ===== *)
theory Constants_Struc
  imports Constants_Index
begin

text \<open>
  Structural operations on constants, \<open>src/libsac2c/constants/constants_struc_ops.c\<close>:
  reshaping, selection, modification, concatenation and the shape queries.  (Taking,
  dropping and over-selection are in \<open>Constants_Tile\<close>.)  Arguments the code ignores
  (\<open>tmp1\<close>, \<open>tmp2\<close>) are left out, and constants the code frees on its way are not tracked.

  The locale \<open>array_laws\<close> is the contract of a selection and a modification that belong
  together; \<open>COsel\<close> with \<open>COmodarray_AxVxA\<close> and \<open>COidxSel\<close> with \<open>COidx_modarray_AxSxS\<close>
  are its interpretations.
\<close>

subsection \<open>Reshaping\<close>

definition COreshape :: "'f const \<Rightarrow> 'f const \<Rightarrow> 'f const cres" where
  "COreshape new_shp a =
     dbug_assert ''COreshape: int'' (CONSTANT_TYPE new_shp = T_int)
     (dbug_assert ''COreshape: vector'' (CONSTANT_DIM new_shp = 1)
      (bindR (SHmakeShape (int (CONSTANT_VLEN new_shp))) (\<lambda>res_shp.
       bindR (cfor 0 (int (CONSTANT_VLEN new_shp)) (\<lambda>i s.
                bindR (rd_int (CONSTANT_ELEMS new_shp) i) (SHsetExtent s i)) res_shp) (\<lambda>res_shp.
       bindR (SHgetUnrLen res_shp) (\<lambda>n.
       let res_vlen = to_size n in
       dbug_assert ''COreshape: length'' (CONSTANT_VLEN a = res_vlen)
       (bindR (COINTpickNElemsFromCV (CONSTANT_TYPE a) (CONSTANT_ELEMS a) 0 res_vlen) (\<lambda>elems.
          Inr (COINTmakeConstant (CONSTANT_TYPE a) res_shp elems res_vlen))))))))"

subsection \<open>Selection\<close>

text \<open>The shape of the selected subarray, shared by \<open>COsel\<close> and \<open>COsimd_sel\<close>.\<close>

definition sel_shape :: "'f const \<Rightarrow> 'f const \<Rightarrow> shape cres" where
  "sel_shape idx a =
     (let res_dim = CONSTANT_DIM a - int (CONSTANT_VLEN idx) in
      bindR (SHmakeShape res_dim) (\<lambda>res_shp.
        cfor 0 res_dim (\<lambda>i s.
          bindR (SHgetExtent (CONSTANT_SHAPE a) (i + int (CONSTANT_VLEN idx))) (SHsetExtent s i))
          res_shp))"

definition COsel :: "'f const \<Rightarrow> 'f const \<Rightarrow> 'f const cres" where
  "COsel idx a =
     dbug_assert ''COsel: int'' (CONSTANT_TYPE idx = T_int)
     (dbug_assert ''COsel: vector'' (CONSTANT_DIM idx = 1)
     (dbug_assert ''COsel: length'' (int (CONSTANT_VLEN idx) \<le> CONSTANT_DIM a)
      (bindR (sel_shape idx a) (\<lambda>res_shp.
       bindR (SHgetUnrLen res_shp) (\<lambda>n.
       bindR (Idx2Offset idx a) (\<lambda>off.
       bindR (COINTpickNElemsFromCV (CONSTANT_TYPE a) (CONSTANT_ELEMS a) off (to_size n)) (\<lambda>elems.
         Inr (COINTmakeConstant (CONSTANT_TYPE a) res_shp elems (to_size n)))))))))"

definition COsimd_sel :: "'f const \<Rightarrow> 'f const \<Rightarrow> 'f const \<Rightarrow> 'f const cres" where
  "COsimd_sel simd_length idx a =
     dbug_assert ''COsimd_sel: int'' (CONSTANT_TYPE idx = T_int)
     (dbug_assert ''COsimd_sel: vector'' (CONSTANT_DIM idx = 1)
     (dbug_assert ''COsimd_sel: length'' (int (CONSTANT_VLEN idx) \<le> CONSTANT_DIM a)
     (dbug_assert ''COsimd_sel: vector length'' (COgetType simd_length = T_int)
      (bindR (rd_int (COgetDataVec simd_length) 0) (\<lambda>vec_length.
       bindR (sel_shape idx a) (\<lambda>res_shp.
       dbug_assert ''COsimd_sel: rank'' (CONSTANT_DIM a - int (CONSTANT_VLEN idx) = 0)
       (bindR (SHsetExtent res_shp 0 vec_length) (\<lambda>res_shp.
        bindR (SHgetUnrLen res_shp) (\<lambda>n.
        bindR (Idx2Offset idx a) (\<lambda>off.
        bindR (COINTpickNElemsFromCV (CONSTANT_TYPE a) (CONSTANT_ELEMS a) off (to_size n)) (\<lambda>elems.
          Inr (COINTmakeConstant (CONSTANT_TYPE a) res_shp elems (to_size n)))))))))))))"

text \<open>\<open>FLOATVEC_IDX\<close>: one of the four lanes of a vector of floats.\<close>

fun floatvec_idx :: "'f cval \<Rightarrow> int \<Rightarrow> 'f cres" where
  "floatvec_idx (CFVec fs) i =
     check OutOfBounds (0 \<le> i \<and> i < int (length fs)) (Inr (fs ! nat i))"
| "floatvec_idx _ i = Inl WrongType"

definition COsimd_sel_SxS :: "'f const \<Rightarrow> 'f const \<Rightarrow> 'f const cres" where
  "COsimd_sel_SxS idx a =
     dbug_assert ''COsimd_sel_SxS: vector'' (CONSTANT_DIM idx = 1)
     (dbug_assert ''COsimd_sel_SxS: floatvec'' (CONSTANT_TYPE a = T_floatvec)
      (bindR (rd (COgetDataVec a) 0) (\<lambda>v. bindR (rd_int (CONSTANT_ELEMS idx) 0) (\<lambda>i.
       bindR (floatvec_idx v i) COmakeConstantFromFloat))))"

definition COidxSel :: "'f const \<Rightarrow> 'f const \<Rightarrow> 'f const cres" where
  "COidxSel idx a =
     dbug_assert ''COidxSel: int'' (CONSTANT_TYPE idx = T_int)
     (dbug_assert ''COidxSel: scalar'' (CONSTANT_DIM idx = 0)
      (bindR (rd_int (COgetDataVec idx) 0) (\<lambda>index.
       bindR (SHgetUnrLen (COgetShape a)) (\<lambda>n.
       dbug_assert ''COidxSel: range'' (index < n)
       (bindR (COINTpickNElemsFromCV (CONSTANT_TYPE a) (CONSTANT_ELEMS a) index 1) (\<lambda>elem.
        bindR (SHmakeShape 0) (\<lambda>s. Inr (COINTmakeConstant (CONSTANT_TYPE a) s elem 1))))))))"

subsection \<open>Concatenation\<close>

definition scalar_to_vector :: "'f const \<Rightarrow> 'f const cres" where
  "scalar_to_vector a = (if CONSTANT_DIM a = 0 then COcopyScalar2OneElementVector a else Inr a)"

definition COcat :: "'f const \<Rightarrow> 'f const \<Rightarrow> 'f const cres" where
  "COcat a b =
     bindR (scalar_to_vector a) (\<lambda>a. bindR (scalar_to_vector b) (\<lambda>b.
     dbug_assert ''COcat: type'' (CONSTANT_TYPE a = CONSTANT_TYPE b)
     (dbug_assert ''COcat: rank'' (CONSTANT_DIM a = CONSTANT_DIM b)
      (let dim = CONSTANT_DIM a; type = CONSTANT_TYPE a in
       bindR (SHmakeShape dim) (\<lambda>shp.
       bindR (SHgetExtent (CONSTANT_SHAPE a) 0) (\<lambda>x. bindR (SHgetExtent (CONSTANT_SHAPE b) 0) (\<lambda>y.
       bindR (ck_int (x + y)) (\<lambda>s.
       bindR (SHsetExtent shp 0 s) (\<lambda>shp.
       bindR (cfor 1 dim (\<lambda>i shp.
                bindR (SHgetExtent (CONSTANT_SHAPE a) i) (\<lambda>x.
                bindR (SHgetExtent (CONSTANT_SHAPE b) i) (\<lambda>y.
                  dbug_assert ''COcat: extents'' (x = y) (SHsetExtent shp i x)))) shp) (\<lambda>shp.
       let vlen = CONSTANT_VLEN a + CONSTANT_VLEN b in
       bindR (COINTcopyElemsFromCVToCV type (CONSTANT_ELEMS a) 0 (CONSTANT_VLEN a)
                (COINTallocCV type vlen) 0) (\<lambda>cv.
       bindR (COINTcopyElemsFromCVToCV type (CONSTANT_ELEMS b) 0 (CONSTANT_VLEN b) cv
                (int (CONSTANT_VLEN a))) (\<lambda>cv.
         Inr (COINTmakeConstant type shp cv vlen)))))))))))))"

subsection \<open>Shape queries\<close>

definition COdim :: "'f const \<Rightarrow> 'f const cres" where
  "COdim a = COmakeConstantFromInt (CONSTANT_DIM a)"

definition COisDist :: "'f const \<Rightarrow> 'f const cres" where
  "COisDist a = COmakeConstantFromInt 0"

definition COfirstElems :: "'f const \<Rightarrow> 'f const cres" where
  "COfirstElems a = COmakeConstantFromInt 0"

definition COlocalFrom :: "'f const \<Rightarrow> 'f const cres" where
  "COlocalFrom a = COmakeConstantFromInt 0"

definition COoffs :: "'f const \<Rightarrow> 'f const cres" where
  "COoffs a = COmakeConstantFromInt 0"

text \<open>\<open>None\<close> is the \<open>NULL\<close> returned for a scalar.\<close>

definition COshape :: "'f const \<Rightarrow> 'f const option cres" where
  "COshape a =
     (let dim = CONSTANT_DIM a in
      if 0 < dim
      then bindR (cfor 0 dim (\<lambda>i v. bindR (SHgetExtent (CONSTANT_SHAPE a) i) (wr v i))
                    (allocv dim)) (\<lambda>shape_vec.
           bindR (SHcreateShape 1 [dim]) (\<lambda>s.
           bindR (COmakeConstant T_int s (int_cells shape_vec)) (\<lambda>c. Inr (Some c))))
      else Inr None)"

subsection \<open>Modification\<close>

definition COmodarray_AxVxS :: "'f const \<Rightarrow> 'f const \<Rightarrow> 'f const \<Rightarrow> 'f const cres" where
  "COmodarray_AxVxS a idx elem =
     dbug_assert ''COmodarray_AxVxS: int'' (CONSTANT_TYPE idx = T_int)
     (dbug_assert ''COmodarray_AxVxS: vector'' (CONSTANT_DIM idx = 1)
     (dbug_assert ''COmodarray_AxVxS: type'' (CONSTANT_TYPE a = CONSTANT_TYPE elem)
     (dbug_assert ''COmodarray_AxVxS: length''
        (CONSTANT_DIM a = int (CONSTANT_VLEN idx) + CONSTANT_DIM elem)
      (bindR (COcopyConstant a) (\<lambda>res.
       bindR (SHgetUnrLen (CONSTANT_SHAPE elem)) (\<lambda>n.
       bindR (Idx2Offset idx res) (\<lambda>off.
       bindR (COINTcopyElemsFromCVToCV (CONSTANT_TYPE res) (CONSTANT_ELEMS elem) 0 (to_size n)
                (CONSTANT_ELEMS res) off) (\<lambda>cv. Inr (res\<lparr>CONSTANT_ELEMS := cv\<rparr>)))))))))"

definition COmodarray_AxVxA :: "'f const \<Rightarrow> 'f const \<Rightarrow> 'f const \<Rightarrow> 'f const cres" where
  "COmodarray_AxVxA a idx elem =
     dbug_assert ''COmodarray_AxVxA: int'' (CONSTANT_TYPE idx = T_int)
     (dbug_assert ''COmodarray_AxVxA: vector'' (CONSTANT_DIM idx = 1)
     (dbug_assert ''COmodarray_AxVxA: type'' (CONSTANT_TYPE a = CONSTANT_TYPE elem)
     (dbug_assert ''COmodarray_AxVxA: length''
        (CONSTANT_DIM a = int (CONSTANT_VLEN idx) + CONSTANT_DIM elem)
      (bindR (COcopyConstant a) (\<lambda>res.
       bindR (SHgetUnrLen (CONSTANT_SHAPE elem)) (\<lambda>n.
       bindR (Idx2Offset idx res) (\<lambda>off.
       bindR (COINTcopyElemsFromCVToCV (CONSTANT_TYPE res) (CONSTANT_ELEMS elem) 0 (to_size n)
                (CONSTANT_ELEMS res) off) (\<lambda>cv. Inr (res\<lparr>CONSTANT_ELEMS := cv\<rparr>)))))))))"

definition COidx_modarray_AxSxS :: "'f const \<Rightarrow> 'f const \<Rightarrow> 'f const \<Rightarrow> 'f const cres" where
  "COidx_modarray_AxSxS a idx elem =
     dbug_assert ''COidx_modarray_AxSxS: int'' (CONSTANT_TYPE idx = T_int)
     (dbug_assert ''COidx_modarray_AxSxS: scalar'' (CONSTANT_DIM idx = 0)
     (dbug_assert ''COidx_modarray_AxSxS: elem'' (CONSTANT_DIM elem = 0)
     (dbug_assert ''COidx_modarray_AxSxS: type'' (CONSTANT_TYPE a = CONSTANT_TYPE elem)
      (bindR (COcopyConstant a) (\<lambda>res.
       bindR (COconst2Int idx) (\<lambda>off.
       bindR (COINTcopyElemsFromCVToCV (CONSTANT_TYPE res) (CONSTANT_ELEMS elem) 0 1
                (CONSTANT_ELEMS res) off) (\<lambda>cv. Inr (res\<lparr>CONSTANT_ELEMS := cv\<rparr>))))))))"

definition COidx_modarray_AxSxA :: "'f const \<Rightarrow> 'f const \<Rightarrow> 'f const \<Rightarrow> 'f const cres" where
  "COidx_modarray_AxSxA a idx elem =
     dbug_assert ''COidx_modarray_AxSxA: int'' (CONSTANT_TYPE idx = T_int)
     (dbug_assert ''COidx_modarray_AxSxA: scalar'' (CONSTANT_DIM idx = 0)
     (dbug_assert ''COidx_modarray_AxSxA: type'' (CONSTANT_TYPE a = CONSTANT_TYPE elem)
      (bindR (COcopyConstant a) (\<lambda>res.
       bindR (SHgetUnrLen (CONSTANT_SHAPE elem)) (\<lambda>n.
       bindR (COconst2Int idx) (\<lambda>off.
       bindR (COINTcopyElemsFromCVToCV (CONSTANT_TYPE res) (CONSTANT_ELEMS elem) 0 (to_size n)
                (CONSTANT_ELEMS res) off) (\<lambda>cv. Inr (res\<lparr>CONSTANT_ELEMS := cv\<rparr>))))))))"

subsection \<open>What the operations compute\<close>

lemma COreshape_con [const]:
  assumes "con_ok t xs es" and "shape_fits ys" and "prod_list ys = prod_list xs"
  shows "COreshape (ivec ys :: 'f const) (con t xs es) = Inr (con t ys es)"
proof -
  have len: "length es = nat (prod_list ys)" using assms con_ok_length by metis
  have s: "bindR (SHmakeShape (int (length ys))) (\<lambda>s. cfor 0 (int (length ys)) (\<lambda>i s.
      bindR (rd_int (full (map (CInt IInt) ys) :: 'f cval cvec) i) (SHsetExtent s i)) s) = Inr (sh ys)"
    by (rule set_extents_loop) (simp add: rd_int_full)
  then show ?thesis
    using assms len to_size_prod [OF assms(2)]
    by (simp add: COreshape_def bindR_assoc [symmetric] SHgetUnrLen_sh Let_def COINTpick0 con_okD
        COINTmakeConstant_con)
qed

lemma COreshape_error [const]:
  assumes "con_ok t xs es" and "shape_fits ys" and "prod_list ys \<noteq> prod_list xs"
  shows "COreshape (ivec ys :: 'f const) (con t xs es) = Inl (AssertFail ''COreshape: length'')"
proof -
  have "int (length es) = prod_list xs" using assms(1) by (simp add: con_ok_def)
  then have len: "length es \<noteq> nat (prod_list ys)"
    using assms(3) shape_fits_prod(1) [OF assms(2)] by auto
  have s: "bindR (SHmakeShape (int (length ys))) (\<lambda>s. cfor 0 (int (length ys)) (\<lambda>i s.
      bindR (rd_int (full (map (CInt IInt) ys) :: 'f cval cvec) i) (SHsetExtent s i)) s) = Inr (sh ys)"
    by (rule set_extents_loop) (simp add: rd_int_full)
  then show ?thesis
    using len to_size_prod [OF assms(2)]
    by (simp add: COreshape_def bindR_assoc [symmetric] SHgetUnrLen_sh assms(2) Let_def)
qed

text \<open>The elements of the subarray at an index, and the replacement of that subarray.\<close>

definition sub_elems :: "int list \<Rightarrow> int list \<Rightarrow> 'a list \<Rightarrow> 'a list" where
  "sub_elems xs iv es = take (nat (prod_list (drop (length iv) xs))) (drop (nat (offs xs iv)) es)"

definition put_elems :: "int list \<Rightarrow> int list \<Rightarrow> 'a list \<Rightarrow> 'a list \<Rightarrow> 'a list" where
  "put_elems xs iv vs es =
     take (nat (offs xs iv)) es @ vs @ drop (nat (offs xs iv) + length vs) es"

text \<open>The block of a valid index lies inside the elements.\<close>

lemma block_bounds:
  assumes "con_ok t xs es" and "valid_idx xs iv"
  shows "0 \<le> offs xs iv" and "0 \<le> prod_list (drop (length iv) xs)"
    and "nat (offs xs iv) + nat (prod_list (drop (length iv) xs)) \<le> length es"
proof -
  have f: "shape_fits xs" and l: "int (length es) = prod_list xs" using assms(1) by (auto simp: con_ok_def)
  show p: "0 \<le> prod_list (drop (length iv) xs)" using shape_fits_prod(1) [OF shape_fits_drop [OF f]] .
  have b: "0 \<le> offs xs iv" "offs xs iv + prod_list (drop (length iv) xs) \<le> int (length es)"
    using offs_bounds [OF assms(2)] f l by (auto simp: shape_fits_def)
  then show "0 \<le> offs xs iv" by simp
  show "nat (offs xs iv) + nat (prod_list (drop (length iv) xs)) \<le> length es"
    using b p by (simp add: nat_add_distrib [symmetric] nat_le_iff)
qed

lemma length_sub_elems:
  assumes "con_ok t xs es" and "valid_idx xs iv"
  shows "length (sub_elems xs iv es) = nat (prod_list (drop (length iv) xs))"
  using block_bounds [OF assms] by (simp add: sub_elems_def)

lemma sub_elems_ok:
  assumes "con_ok t xs es" and "valid_idx xs iv"
  shows "con_ok t (drop (length iv) xs) (sub_elems xs iv es)"
  using assms block_bounds [OF assms] length_sub_elems [OF assms]
  by (auto simp: con_ok_def) (simp add: sub_elems_def)

lemma sel_shape_con:
  assumes "length iv \<le> length xs"
  shows "sel_shape (ivec iv :: 'f const) (con t xs es) = Inr (sh (drop (length iv) xs))"
proof -
  let ?ys = "drop (length iv) xs" and ?get = "\<lambda>j. SHgetExtent (sh xs) (j + int (length iv))"
  have n: "int (length xs) - int (length iv) = int (length ?ys)" using assms by simp
  have "?get j = Inr (?ys ! nat j)" if "0 \<le> j" "j < int (length ?ys)" for j
    using that assms by (simp add: SHgetExtent_sh nat_add_distrib add.commute)
  note set_extents_loop [of ?ys ?get, OF this]
  then show ?thesis by (simp only: sel_shape_def Let_def CONSTANT_DIM_con con_sel length_map n)
qed

lemma COsel_con [const]:
  assumes "con_ok t xs es" and "valid_idx xs iv"
  shows "COsel (ivec iv) (con t xs es) = Inr (con t (drop (length iv) xs) (sub_elems xs iv es))"
proof -
  have l: "length iv \<le> length xs" using assms(2) by (rule valid_idx_length)
  have f: "shape_fits xs" "cv2cv_ext t \<noteq> EDummy" using assms(1) by (auto simp: con_ok_def)
  note b = block_bounds [OF assms]
  have pick: "COINTpickNElemsFromCV t (full es) (offs xs iv) (nat (prod_list (drop (length iv) xs)))
      = Inr (full (sub_elems xs iv es))"
    using COINTpickNElemsFromCV_full [OF f(2) b(3)] b(1) by (simp add: sub_elems_def)
  have n: "to_size (prod_list (drop (length iv) xs)) = nat (prod_list (drop (length iv) xs))"
    using f(1) by (intro to_size_prod) simp
  show ?thesis
    using l f(1) pick Idx2Offset_con [OF f(1) assms(2), of t es] length_sub_elems [OF assms]
    by (simp add: COsel_def sel_shape_con SHgetUnrLen_sh n COINTmakeConstant_con)
qed

lemma copy_into_full:
  assumes "cv2cv_ext t \<noteq> EDummy" and "d + length vs \<le> length es"
  shows "COINTcopyElemsFromCVToCV t (full vs) 0 (length vs) (full es) (int d)
         = Inr (full (take d es @ vs @ drop (d + length vs) es))"
  using COcv2Cv_full [OF assms(1), of 0 "length vs" vs d "full es"] assms
  by (simp add: COINTcopyElemsFromCVToCV_def blit_def)

lemma put_block:
  assumes "con_ok t xs es" and "valid_idx xs iv" and "con_ok t (drop (length iv) xs) vs"
  shows "nat (offs xs iv) + length vs \<le> length es"
  using block_bounds(3) [OF assms(1,2)] con_ok_length [OF assms(3)] by simp

lemma COmodarray_AxVxA_con [const]:
  assumes "con_ok t xs es" and "valid_idx xs iv" and "con_ok t (drop (length iv) xs) vs"
  shows "COmodarray_AxVxA (con t xs es) (ivec iv) (con t (drop (length iv) xs) vs)
         = Inr (con t xs (put_elems xs iv vs es))"
proof -
  have l: "length iv \<le> length xs" using assms(2) by (rule valid_idx_length)
  have f: "shape_fits xs" "cv2cv_ext t \<noteq> EDummy" using assms(1) by (auto simp: con_ok_def)
  note b = block_bounds [OF assms(1,2)] and p = put_block [OF assms]
  have "COINTcopyElemsFromCVToCV t (full vs) 0 (length vs) (full es) (offs xs iv)
      = Inr (full (put_elems xs iv vs es))"
    using copy_into_full [OF f(2) p] b(1) by (simp add: put_elems_def)
  then show ?thesis
    using l f p assms con_ok_length [OF assms(3)] to_size_prod [OF shape_fits_drop [OF f(1)], of "length iv"]
    by (simp add: COmodarray_AxVxA_def COcopyConstant_con SHgetUnrLen_sh Idx2Offset_con)
      (simp add: con_def put_elems_def)
qed

lemma COmodarray_AxVxS_AxVxA: "COmodarray_AxVxS a idx e = COmodarray_AxVxA a idx e"
  if "CONSTANT_TYPE idx = T_int" "CONSTANT_DIM idx = 1" "CONSTANT_TYPE a = CONSTANT_TYPE e"
    "CONSTANT_DIM a = int (CONSTANT_VLEN idx) + CONSTANT_DIM e"
  using that by (simp add: COmodarray_AxVxS_def COmodarray_AxVxA_def)

lemma put_elems_ok:
  assumes "con_ok t xs es" and "valid_idx xs iv" and "con_ok t (drop (length iv) xs) vs"
  shows "con_ok t xs (put_elems xs iv vs es)"
  using assms put_block [OF assms] by (simp add: con_ok_def put_elems_def)

subsection \<open>Blocks of different indices are disjoint\<close>

lemma prod_list_take_drop: "prod_list xs = prod_list (take n xs) * prod_list (drop n xs)" for xs :: "int list"
  by (simp flip: prod_list.append)

lemma offs_take:
  "length iv \<le> length xs \<Longrightarrow>
     offs xs iv = offs (take (length iv) xs) iv * prod_list (drop (length iv) xs)"
proof (induction xs iv rule: offs.induct)
  case (1 x xs i "is")
  then show ?case
    using prod_list_take_drop [of xs "length is"] by (simp add: algebra_simps)
qed auto

lemma valid_idx_pos: "valid_idx xs iv \<Longrightarrow> \<forall>x\<in>set (take (length iv) xs). 0 < x"
  by (induction xs iv rule: valid_idx.induct) auto

lemma blocks_disjoint:
  assumes "valid_idx xs iv" and "valid_idx xs jv" and "length iv = length jv" and "iv \<noteq> jv"
    and "0 \<le> prod_list (drop (length iv) xs)"
  shows "offs xs iv + prod_list (drop (length iv) xs) \<le> offs xs jv
       \<or> offs xs jv + prod_list (drop (length iv) xs) \<le> offs xs iv"
proof -
  let ?n = "length iv" and ?P = "prod_list (drop (length iv) xs)"
  have l: "?n \<le> length xs" using assms(1) by (rule valid_idx_length)
  have "valid_idx (take ?n xs) iv" "valid_idx (take ?n xs) jv"
    using valid_idx_take [OF assms(1), of ?n] valid_idx_take [OF assms(2), of ?n] assms(3) by simp_all
  then have "offs (take ?n xs) iv \<noteq> offs (take ?n xs) jv"
    using offs_inj assms(3,4) valid_idx_pos [OF assms(1)] by blast
  then have "offs (take ?n xs) iv + 1 \<le> offs (take ?n xs) jv \<or> offs (take ?n xs) jv + 1 \<le> offs (take ?n xs) iv"
    by linarith
  then have "(offs (take ?n xs) iv + 1) * ?P \<le> offs (take ?n xs) jv * ?P
      \<or> (offs (take ?n xs) jv + 1) * ?P \<le> offs (take ?n xs) iv * ?P"
    using assms(5) by (auto intro: mult_right_mono)
  then show ?thesis
    using offs_take [OF l] offs_take [of jv xs] l assms(3) by (simp add: algebra_simps)
qed

lemma sub_put_same:
  assumes "con_ok t xs es" and "valid_idx xs iv" and "con_ok t (drop (length iv) xs) vs"
  shows "sub_elems xs iv (put_elems xs iv vs es) = vs"
  using put_block [OF assms] con_ok_length [OF assms(3)] by (simp add: sub_elems_def put_elems_def)

lemma take_drop_before:
  assumes "a + n \<le> b" and "b \<le> length es"
  shows "take n (drop a (take b es @ ys)) = take n (drop a es)"
proof -
  have "length (take b es) = b" using assms by simp
  then have "take n (drop a (take b es @ ys)) = take n (drop a (take b es))" using assms by simp
  also have "\<dots> = take n (drop a es)" using assms by (simp add: drop_take min_absorb1)
  finally show ?thesis .
qed

lemma sub_put_other:
  assumes "con_ok t xs es" and "valid_idx xs iv" and "valid_idx xs jv" and "length iv = length jv"
    and "iv \<noteq> jv" and "con_ok t (drop (length iv) xs) vs"
  shows "sub_elems xs jv (put_elems xs iv vs es) = sub_elems xs jv es"
proof -
  let ?P = "prod_list (drop (length iv) xs)"
  note bi = block_bounds [OF assms(1,2)] and bj = block_bounds [OF assms(1,3)]
  have lv: "length vs = nat ?P" using con_ok_length [OF assms(6)] .
  consider "offs xs jv + ?P \<le> offs xs iv" | "offs xs iv + ?P \<le> offs xs jv"
    using blocks_disjoint [OF assms(2-5) bi(2)] by blast
  then show ?thesis
  proof cases
    case 1
    then have "nat (offs xs jv) + nat ?P \<le> nat (offs xs iv)" using bi bj by linarith
    moreover have "nat (offs xs iv) \<le> length es" using bi(3) by linarith
    ultimately show ?thesis
      using take_drop_before [of "nat (offs xs jv)" "nat ?P" "nat (offs xs iv)" es] assms(4)
      by (simp add: sub_elems_def put_elems_def)
  next
    case 2
    then have "nat (offs xs iv) + length vs \<le> nat (offs xs jv)" using bi bj lv by linarith
    moreover have "nat (offs xs iv) \<le> length es" using bi(3) by linarith
    ultimately show ?thesis by (simp add: sub_elems_def put_elems_def)
  qed
qed

lemma sub_sub:
  assumes "con_ok t xs es" and "valid_idx xs iv" and "valid_idx (drop (length iv) xs) jv"
  shows "sub_elems (drop (length iv) xs) jv (sub_elems xs iv es) = sub_elems xs (iv @ jv) es"
proof -
  let ?ys = "drop (length iv) xs"
  have l: "length iv \<le> length xs" using assms(2) by (rule valid_idx_length)
  note b1 = block_bounds [OF assms(1,2)]
    and b2 = block_bounds [OF sub_elems_ok [OF assms(1,2)] assms(3)]
  have "nat (offs ?ys jv) + nat (prod_list (drop (length jv) ?ys)) \<le> nat (prod_list ?ys)"
    using b2(3) length_sub_elems [OF assms(1,2)] by simp
  then have "nat (prod_list (drop (length jv) ?ys)) \<le> nat (prod_list ?ys) - nat (offs ?ys jv)" by linarith
  moreover have "nat (offs xs (iv @ jv)) = nat (offs ?ys jv) + nat (offs xs iv)"
    using offs_append [OF l, of jv] b1(1) b2(1) by (simp add: nat_add_distrib)
  ultimately show ?thesis
    by (simp add: sub_elems_def drop_take add.commute min_def)
qed

subsection \<open>Element selection, modification, concatenation, shape\<close>

abbreviation iscal :: "int \<Rightarrow> 'f const" where
  "iscal k \<equiv> con T_int [] [CInt IInt k]"

lemma con_with_elems: "length fs = length es \<Longrightarrow> (con t xs es)\<lparr>CONSTANT_ELEMS := full fs\<rparr> = con t xs fs"
  by (simp add: con_def)

lemma rd_int_single: "rd_int (full [CInt IInt k]) 0 = Inr k"
  by (simp add: rd_int_def rd_def)

lemma COidxSel_con [const]:
  assumes "con_ok t xs es" and "k < length es"
  shows "COidxSel (iscal (int k)) (con t xs es) = Inr (con t [] [es ! k])"
proof -
  have f: "shape_fits xs" "cv2cv_ext t \<noteq> EDummy" "int (length es) = prod_list xs"
    using assms(1) by (auto simp: con_ok_def)
  have pick: "COINTpickNElemsFromCV t (full es) (int k) 1 = Inr (full [es ! k])"
    using COINTpickNElemsFromCV_full [OF f(2), of k 1 es] assms(2) by (simp add: take_Suc hd_drop_conv_nth)
  then show ?thesis
    using assms(2) f
    by (simp add: COidxSel_def rd_int_single [simplified] SHgetUnrLen_sh SHmakeShape_0)
      (simp add: COINTmakeConstant_def con_def)
qed

lemma COidxSel_range [const]:
  assumes "con_ok t xs es" and "int (length es) \<le> k"
  shows "COidxSel (iscal k) (con t xs es) = Inl (AssertFail ''COidxSel: range'')"
  using assms by (simp add: con_ok_def COidxSel_def rd_int_single [simplified] SHgetUnrLen_sh)

lemma COidx_modarray_AxSxA_con [const]:
  assumes "con_ok t xs es" and "con_ok t ys vs" and "k + length vs \<le> length es"
  shows "COidx_modarray_AxSxA (con t xs es) (iscal (int k)) (con t ys vs)
         = Inr (con t xs (take k es @ vs @ drop (k + length vs) es))"
proof -
  have f: "shape_fits ys" "cv2cv_ext t \<noteq> EDummy" using assms by (auto simp: con_ok_def)
  have n: "to_size (prod_list ys) = length vs"
    using to_size_prod [OF f(1)] con_ok_length [OF assms(2)] by simp
  show ?thesis
    using copy_into_full [OF f(2) assms(3)] assms f n
    by (simp add: COidx_modarray_AxSxA_def COcopyConstant_con SHgetUnrLen_sh COconst2Int_con
        con_with_elems)
qed

lemma COidx_modarray_AxSxS_con [const]:
  assumes "con_ok t xs es" and "con_ok t [] [v]" and "k < length es"
  shows "COidx_modarray_AxSxS (con t xs es) (iscal (int k)) (con t [] [v]) = Inr (con t xs (es[k := v]))"
proof -
  have f: "cv2cv_ext t \<noteq> EDummy" using assms by (auto simp: con_ok_def)
  have "COINTcopyElemsFromCVToCV t (full [v]) 0 1 (full es) (int k)
      = Inr (full (take k es @ [v] @ drop (k + 1) es))"
    using copy_into_full [OF f, of k "[v]" es] assms(3) by simp
  then show ?thesis
    using assms by (simp add: COidx_modarray_AxSxS_def COcopyConstant_con COconst2Int_con)
      (simp add: con_def upd_conv_take_nth_drop)
qed

lemma COshape_con [const]:
  assumes "int (length xs) \<le> int_max"
  shows "COshape (con t xs es :: 'f const) = Inr (if xs = [] then None else Some (ivec xs))"
proof (cases "xs = []")
  case False
  have "cfor 0 (int (length xs)) (\<lambda>i v. bindR (SHgetExtent (sh xs) i) (wr v i)) (replicate (length xs) None)
      = cfor 0 (int (length xs)) (\<lambda>i v. bindR (rd (full xs) i) (wr v i)) (replicate (length xs) None)"
    by (rule cfor_cong) (simp add: SHgetExtent_sh rd_full)
  also have "\<dots> = Inr (full xs)" using copy_loop0 [of "length xs" xs "replicate (length xs) None"] by simp
  finally have l: "cfor 0 (int (length xs)) (\<lambda>i v. bindR (SHgetExtent (sh xs) i) (wr v i)) (allocv (int (length xs)))
      = Inr (full xs)" by (simp add: allocv_def)
  have "shape_fits [int (length xs)]" using assms by (simp add: shape_fits_def int_max_def)
  then show ?thesis
    using False l SHcreateShape_sh [of "[int (length xs)]"]
      COmakeConstant_con [of "[int (length xs)]" "map (CInt IInt) xs :: 'f cval list"]
    by (simp add: COshape_def Let_def int_cells_full)
qed (simp add: COshape_def)

lemma scalar_to_vector_con: "scalar_to_vector (con t (x # xs) es) = Inr (con t (x # xs) es)"
  by (simp add: scalar_to_vector_def)

lemma cat_extents_loop:
  assumes "length ys = length zs"
  shows "cfor 1 (int (Suc (length ys))) (\<lambda>i shp.
           bindR (SHgetExtent (sh (y # ys)) i) (\<lambda>x. bindR (SHgetExtent (sh (z # zs)) i) (\<lambda>y.
             dbug_assert ''COcat: extents'' (x = y) (SHsetExtent shp i x))))
           \<lparr>SHAPE_DIM = int (Suc (length ys)), SHAPE_ELEMS = Some s # replicate (length ys) None\<rparr>
         = (if ys = zs then Inr (sh (s # ys)) else Inl (AssertFail ''COcat: extents''))"
proof -
  let ?f = "\<lambda>i shp. bindR (SHgetExtent (sh (y # ys)) i) (\<lambda>x. bindR (SHgetExtent (sh (z # zs)) i) (\<lambda>y.
             dbug_assert ''COcat: extents'' (x = y) (SHsetExtent shp i x)))"
  let ?n = "length ys"
  let ?S = "\<lambda>k. \<lparr>SHAPE_DIM = int (Suc ?n), SHAPE_ELEMS = Some s # full (take k ys) @ replicate (?n - k) None\<rparr>"
  have step: "?f (int (Suc k)) (?S k) = (if ys ! k = zs ! k then Inr (?S (Suc k)) else Inl (AssertFail ''COcat: extents''))"
    if k: "k < ?n" for k
  proof -
    have upd: "(full (take k ys) @ replicate (?n - k) None)[k := Some (ys ! k)]
        = full (take (Suc k) ys) @ replicate (?n - Suc k) None"
    proof -
      have r: "replicate (?n - k) (None :: int option) = None # replicate (?n - Suc k) None"
        using k by (metis Suc_diff_Suc replicate_Suc)
      show ?thesis unfolding r using k by (simp add: list_update_append take_Suc_conv_app_nth)
    qed
    have e: "SHgetExtent (sh (y # ys)) (int (Suc k)) = Inr (ys ! k)"
        "SHgetExtent (sh (z # zs)) (int (Suc k)) = Inr (zs ! k)"
      using k assms SHgetExtent_sh [of "int (Suc k)" "y # ys"] SHgetExtent_sh [of "int (Suc k)" "z # zs"]
      by (simp_all del: of_nat_Suc)
    have "SHsetExtent (?S k) (int (Suc k)) (ys ! k) = Inr (?S (Suc k))"
      using k upd by (simp add: SHsetExtent_def set_SHAPE_EXT_def wr_def nat_add_distrib del: of_nat_Suc)
    then show ?thesis by (simp only: e bindR_simps check_def)
  qed
  have "cfor (int (Suc k)) (int (Suc ?n)) ?f (?S k)
      = (if drop k ys = drop k zs then Inr (?S ?n) else Inl (AssertFail ''COcat: extents''))"
    if "k \<le> ?n" for k
    using that
  proof (induction "?n - k" arbitrary: k)
    case 0
    then show ?case using assms by simp
  next
    case (Suc m)
    then have k: "k < ?n" by linarith
    have IH: "cfor (int (Suc (Suc k))) (int (Suc ?n)) ?f (?S (Suc k))
      = (if drop (Suc k) ys = drop (Suc k) zs then Inr (?S ?n) else Inl (AssertFail ''COcat: extents''))"
      using Suc.hyps(2) k by (intro Suc.hyps(1)) auto
    have d: "drop k ys = ys ! k # drop (Suc k) ys" "drop k zs = zs ! k # drop (Suc k) zs"
      using k assms by (simp_all add: Cons_nth_drop_Suc)
    have "int (Suc k) + 1 = int (Suc (Suc k))" by simp
    then show ?case
      using k by (simp only: cfor_step [of "int (Suc k)" "int (Suc ?n)"] step [OF k] d list.inject
          of_nat_less_iff Suc_less_eq) (use IH in \<open>simp del: of_nat_Suc\<close>)
  qed
  from this [of 0] show ?thesis by (simp add: sh_def)
qed

lemma COcat_con [const]:
  assumes a: "con_ok t (x # ys) es" and b: "con_ok t (y # zs) fs" and l: "length ys = length zs"
    and s: "x + y \<le> int_max"
  shows "COcat (con t (x # ys) es) (con t (y # zs) fs)
         = (if ys = zs then Inr (con t ((x + y) # ys) (es @ fs)) else Inl (AssertFail ''COcat: extents''))"
proof -
  have f: "cv2cv_ext t \<noteq> EDummy" "0 \<le> x" "0 \<le> y" using a b by (auto simp: con_ok_def shape_fits_def)
  have shp: "SHmakeShape (int (Suc (length ys)))
      = Inr \<lparr>SHAPE_DIM = int (Suc (length ys)), SHAPE_ELEMS = None # replicate (length ys) None\<rparr>"
    using SHmakeShape_len [of "Suc (length ys)"] by simp
  have set0: "SHsetExtent \<lparr>SHAPE_DIM = int (Suc (length ys)), SHAPE_ELEMS = None # replicate (length ys) None\<rparr> 0 (x + y)
      = Inr \<lparr>SHAPE_DIM = int (Suc (length ys)), SHAPE_ELEMS = Some (x + y) # replicate (length ys) None\<rparr>"
    by (simp add: SHsetExtent_def set_SHAPE_EXT_def wr_def)
  let ?N = "replicate (length es + length fs) None"
  have c1: "COINTcopyElemsFromCVToCV t (full es) 0 (length es) ?N 0
      = Inr (full es @ replicate (length fs) None)"
    using COcv2Cv_full [OF f(1), of 0 "length es" es 0 ?N]
    by (simp add: COINTcopyElemsFromCVToCV_def blit_def)
  have c2: "COINTcopyElemsFromCVToCV t (full fs) 0 (length fs) (full es @ replicate (length fs) None) (int (length es))
      = Inr (full (es @ fs))"
    using COcv2Cv_full [OF f(1), of 0 "length fs" fs "length es" "full es @ replicate (length fs) None"]
    by (simp add: COINTcopyElemsFromCVToCV_def blit_def)
  have ext: "SHgetExtent (sh (x # ys)) 0 = Inr x" "SHgetExtent (sh (y # zs)) 0 = Inr y"
    by (simp_all add: SHgetExtent_sh)
  note rules = COcat_def scalar_to_vector_con Let_def ck_int_ok COINTmakeConstant_def
    and facts = f c1 c2 s l shp set0 ext cat_extents_loop [OF l, of x y "x + y"]
  show ?thesis
  proof (cases "ys = zs")
    case True
    with facts show ?thesis by (simp add: rules con_def [symmetric])
  next
    case False
    with facts show ?thesis by (simp add: rules)
  qed
qed

lemma cat_ok:
  assumes "con_ok t (x # ys) es" and "con_ok t (y # ys) fs" and "shape_fits ((x + y) # ys)"
  shows "con_ok t ((x + y) # ys) (es @ fs)"
  using assms by (auto simp: con_ok_def algebra_simps)

subsection \<open>The laws of selection and modification\<close>

locale array_laws =
  fixes sel :: "'i \<Rightarrow> 'a \<Rightarrow> 'v cres" and upd :: "'a \<Rightarrow> 'i \<Rightarrow> 'v \<Rightarrow> 'a cres"
    and A :: "'a \<Rightarrow> bool" and I :: "'i \<Rightarrow> bool" and V :: "'v \<Rightarrow> bool"
  assumes sel_total: "A a \<Longrightarrow> I i \<Longrightarrow> \<exists>v. sel i a = Inr v \<and> V v"
    and upd_total: "A a \<Longrightarrow> I i \<Longrightarrow> V v \<Longrightarrow> \<exists>b. upd a i v = Inr b \<and> A b"
    and sel_upd: "A a \<Longrightarrow> I i \<Longrightarrow> I j \<Longrightarrow> V v \<Longrightarrow> upd a i v = Inr b \<Longrightarrow>
                    sel j b = (if i = j then Inr v else sel j a)"
    and extensional: "A a \<Longrightarrow> A b \<Longrightarrow> (\<And>i. I i \<Longrightarrow> sel i a = sel i b) \<Longrightarrow> a = b"
begin

lemma upd_overwrite:
  assumes "A a" and "I i" and "V v" and "V w" and "upd a i v = Inr b"
  shows "upd b i w = upd a i w"
proof -
  have b: "A b" using upd_total [OF assms(1-3)] assms(5) by auto
  obtain c d where c: "upd b i w = Inr c" "A c" and d: "upd a i w = Inr d" "A d"
    using upd_total [OF b assms(2,4)] upd_total [OF assms(1,2,4)] by blast
  have "c = d"
    using sel_upd [OF b assms(2) _ assms(4) c(1)] sel_upd [OF assms(1,2) _ assms(4) d(1)]
      sel_upd [OF assms(1,2) _ assms(3,5)] c d by (intro extensional) auto
  with c d show ?thesis by simp
qed

lemma upd_commute:
  assumes "A a" and "I i" and "I j" and "V v" and "V w" and "i \<noteq> j"
    and "upd a i v = Inr b" and "upd a j w = Inr c"
  shows "upd b j w = upd c i v"
proof -
  have b: "A b" and c: "A c"
    using upd_total [OF assms(1,2,4)] upd_total [OF assms(1,3,5)] assms(7,8) by auto
  obtain d e where d: "upd b j w = Inr d" "A d" and e: "upd c i v = Inr e" "A e"
    using upd_total [OF b assms(3,5)] upd_total [OF c assms(2,4)] by blast
  have "d = e"
    using sel_upd [OF b assms(3) _ assms(5) d(1)] sel_upd [OF c assms(2) _ assms(4) e(1)]
      sel_upd [OF assms(1,2) _ assms(4,7)] sel_upd [OF assms(1,3) _ assms(5,8)] assms(6) d e
    by (intro extensional) auto
  with d e show ?thesis by simp
qed

lemma upd_sel:
  assumes "A a" and "I i" and "sel i a = Inr v" and "V v" shows "upd a i v = Inr a"
proof -
  obtain b where b: "upd a i v = Inr b" "A b" using upd_total [OF assms(1,2,4)] by blast
  have "b = a"
    using sel_upd [OF assms(1,2) _ assms(4) b(1)] assms b by (intro extensional) auto
  with b show ?thesis by simp
qed

end

text \<open>
  Arrays of one type and shape, indices of a fixed length (at most the rank), and the
  subarrays they select.
\<close>

definition arr :: "simpletype \<Rightarrow> int list \<Rightarrow> 'f const \<Rightarrow> bool" where
  "arr t xs a \<longleftrightarrow> (\<exists>es. a = con t xs es \<and> con_ok t xs es)"

definition idx_of :: "int list \<Rightarrow> nat \<Rightarrow> 'f const \<Rightarrow> bool" where
  "idx_of xs n i \<longleftrightarrow> (\<exists>iv. i = ivec iv \<and> valid_idx xs iv \<and> length iv = min n (length xs))"

lemma idx_of_ivec: "valid_idx xs iv \<Longrightarrow> length iv = min n (length xs) \<Longrightarrow> idx_of xs n (ivec iv)"
  unfolding idx_of_def by blast

lemma ivec_inj: "(ivec iv :: 'f const) = ivec jv \<Longrightarrow> iv = jv"
proof -
  assume "(ivec iv :: 'f const) = ivec jv"
  then have "map (CInt IInt) iv = (map (CInt IInt) jv :: 'f cval list)" by simp
  then show ?thesis by (rule map_injective) (simp add: inj_def)
qed

lemma blocks_cover:
  assumes "con_ok t xs es" and "con_ok t xs fs"
    and "\<And>iv. valid_idx xs iv \<Longrightarrow> length iv = min n (length xs) \<Longrightarrow> sub_elems xs iv es = sub_elems xs iv fs"
  shows "es = fs"
proof (rule nth_equalityI)
  show len: "length es = length fs" using assms(1,2) con_ok_length by metis
  fix k assume k: "k < length es"
  let ?n = "min n (length xs)"
  have f: "shape_fits xs" and l: "int (length es) = prod_list xs" using assms(1) by (auto simp: con_ok_def)
  have "0 < prod_list xs" using k l by linarith
  then have pos: "\<forall>x\<in>set xs. 0 < x" using f prod_list_0 [of xs] by (auto simp: shape_fits_def le_less)
  then obtain jv where jv: "length jv = length xs" "valid_idx xs jv" "offs xs jv = int k"
    using offs_surj [of xs "int k"] k l by auto
  define iv where "iv = take ?n jv"
  define kv where "kv = drop ?n jv"
  have iv: "length iv = ?n" "valid_idx xs iv" "valid_idx (drop (length iv) xs) kv" "jv = iv @ kv"
  proof -
    show e: "jv = iv @ kv" by (simp add: iv_def kv_def)
    show n: "length iv = ?n" using jv(1) by (simp add: iv_def)
    have "length iv \<le> length xs" using n by simp
    with jv(2) e show "valid_idx xs iv" "valid_idx (drop (length iv) xs) kv"
      using valid_idx_append by blast+
  qed
  have o': "nat (offs xs iv) + nat (offs (drop (length iv) xs) kv) = k"
    and b: "nat (offs (drop (length iv) xs) kv) < nat (prod_list (drop (length iv) xs))"
  proof -
    have le: "length iv \<le> length xs" using iv(1) by simp
    have nn: "\<forall>x\<in>set (drop (length iv) xs). 0 \<le> x" using pos by (auto dest: in_set_dropD intro: less_imp_le)
    have "0 < prod_list (drop (length kv) (drop (length iv) xs))"
      using pos by (intro prod_list_pos) (auto dest: in_set_dropD)
    with offs_bounds [OF iv(3) nn]
    have ob: "0 \<le> offs (drop (length iv) xs) kv" "offs (drop (length iv) xs) kv < prod_list (drop (length iv) xs)"
      by auto
    then show "nat (offs (drop (length iv) xs) kv) < nat (prod_list (drop (length iv) xs))" by simp
    show "nat (offs xs iv) + nat (offs (drop (length iv) xs) kv) = k"
      using offs_append [OF le, of kv] iv(4) jv(3) ob(1) block_bounds(1) [OF assms(1) iv(2)]
      by (simp add: nat_add_distrib [symmetric])
  qed
  have "sub_elems xs iv es ! nat (offs (drop (length iv) xs) kv) = es ! k"
    "sub_elems xs iv fs ! nat (offs (drop (length iv) xs) kv) = fs ! k"
    using b o' k len by (simp_all add: sub_elems_def)
  with assms(3) [OF iv(2,1)] show "es ! k = fs ! k" by simp
qed

interpretation sub: array_laws "COsel :: 'f const \<Rightarrow> 'f const \<Rightarrow> 'f const cres" COmodarray_AxVxA
  "arr t xs" "idx_of xs n" "arr t (drop (min n (length xs)) xs)" for t xs n
proof
  fix a i :: "'f const" assume "arr t xs a" "idx_of xs n i"
  then obtain es iv where e: "a = con t xs es" "con_ok t xs es" "i = ivec iv" "valid_idx xs iv"
      "length iv = min n (length xs)" by (auto simp: arr_def idx_of_def)
  then show "\<exists>v. COsel i a = Inr v \<and> arr t (drop (min n (length xs)) xs) v"
    using COsel_con [OF e(2,4)] sub_elems_ok [OF e(2,4)] by (auto simp: arr_def)
next
  fix a i v :: "'f const"
  assume "arr t xs a" "idx_of xs n i" "arr t (drop (min n (length xs)) xs) v"
  then obtain es iv vs where e: "a = con t xs es" "con_ok t xs es" "i = ivec iv" "valid_idx xs iv"
      "length iv = min n (length xs)" "v = con t (drop (length iv) xs) vs" "con_ok t (drop (length iv) xs) vs"
    by (auto simp: arr_def idx_of_def)
  then show "\<exists>b. COmodarray_AxVxA a i v = Inr b \<and> arr t xs b"
    using COmodarray_AxVxA_con [OF e(2,4,7)] put_elems_ok [OF e(2,4,7)] by (auto simp: arr_def)
next
  fix a i j v b :: "'f const"
  assume arr: "arr t xs a" "arr t (drop (min n (length xs)) xs) v"
    and idx: "idx_of xs n i" "idx_of xs n j" and u: "COmodarray_AxVxA a i v = Inr b"
  obtain iv where iv: "i = ivec iv" "valid_idx xs iv" "length iv = min n (length xs)"
    using idx(1) by (auto simp: idx_of_def)
  obtain jv where jv: "j = ivec jv" "valid_idx xs jv" "length jv = min n (length xs)"
    using idx(2) by (auto simp: idx_of_def)
  obtain es vs where "a = con t xs es" "con_ok t xs es" "v = con t (drop (length iv) xs) vs"
      "con_ok t (drop (length iv) xs) vs"
    using arr iv(3) by (auto simp: arr_def)
  with iv jv have e: "a = con t xs es" "con_ok t xs es" "i = ivec iv" "valid_idx xs iv"
      "j = ivec jv" "valid_idx xs jv" "length iv = length jv"
      "v = con t (drop (length iv) xs) vs" "con_ok t (drop (length iv) xs) vs"
    by simp_all
  have b: "b = con t xs (put_elems xs iv vs es)"
    using u COmodarray_AxVxA_con [OF e(2,4,9)] e by simp
  have ij: "i = j \<longleftrightarrow> iv = jv" using e(3,5) ivec_inj by blast
  show "COsel j b = (if i = j then Inr v else COsel j a)"
    unfolding b e(5) using COsel_con [OF put_elems_ok [OF e(2,4,9)] e(6)] COsel_con [OF e(2,6)]
      sub_put_same [OF e(2,4,9)] sub_put_other [OF e(2,4,6,7) _ e(9)] ij e by auto
next
  fix a b :: "'f const"
  assume "arr t xs a" "arr t xs b" and same: "\<And>i. idx_of xs n i \<Longrightarrow> COsel i a = COsel i b"
  then obtain es fs where e: "a = con t xs es" "con_ok t xs es" "b = con t xs fs" "con_ok t xs fs"
    by (auto simp: arr_def)
  have "sub_elems xs iv es = sub_elems xs iv fs" if "valid_idx xs iv" "length iv = min n (length xs)" for iv
  proof -
    have "idx_of xs n (ivec iv :: 'f const)" unfolding idx_of_def using that by blast
    from same [OF this] show ?thesis
      unfolding e(1,3) COsel_con [OF e(2) that(1)] COsel_con [OF e(4) that(1)] by simp
  qed
  then show "a = b" using blocks_cover [OF e(2,4)] e by blast
qed

text \<open>Elements by their offset.\<close>

definition off_of :: "int list \<Rightarrow> 'f const \<Rightarrow> bool" where
  "off_of xs i \<longleftrightarrow> (\<exists>k. i = iscal (int k) \<and> int k < prod_list xs)"

interpretation elem: array_laws "COidxSel :: 'f const \<Rightarrow> 'f const \<Rightarrow> 'f const cres" COidx_modarray_AxSxS
  "arr t xs" "off_of xs" "arr t []" for t xs
proof
  fix a i :: "'f const" assume "arr t xs a" "off_of xs i"
  then obtain es k where e: "a = con t xs es" "con_ok t xs es" "i = iscal (int k)" "k < length es"
    by (auto simp: arr_def off_of_def con_ok_def)
  moreover have "con_ok t [] [es ! k]" using e(2,4) by (auto simp: con_ok_def cells_ok_def)
  ultimately show "\<exists>v. COidxSel i a = Inr v \<and> arr t [] v" by (auto simp: COidxSel_con arr_def)
next
  fix a i v :: "'f const" assume "arr t xs a" "off_of xs i" "arr t [] v"
  then obtain es k vs where e: "a = con t xs es" "con_ok t xs es" "i = iscal (int k)" "k < length es"
      "v = con t [] vs" "con_ok t [] vs" by (auto simp: arr_def off_of_def con_ok_def)
  then obtain w where w: "vs = [w]" by (elim con_ok_single)
  have "con_ok t xs (es[k := w])"
    using e w by (auto simp: con_ok_def cells_ok_def dest!: set_update_subset_insert [THEN subsetD])
  then show "\<exists>b. COidx_modarray_AxSxS a i v = Inr b \<and> arr t xs b"
    using COidx_modarray_AxSxS_con [of t xs es w k] e w by (auto simp: arr_def)
next
  fix a i j v b :: "'f const"
  assume "arr t xs a" "off_of xs i" "off_of xs j" "arr t [] v" and u: "COidx_modarray_AxSxS a i v = Inr b"
  then obtain es k l vs where e: "a = con t xs es" "con_ok t xs es" "i = iscal (int k)" "k < length es"
      "j = iscal (int l)" "l < length es" "v = con t [] vs" "con_ok t [] vs"
    by (auto simp: arr_def off_of_def con_ok_def)
  then obtain w where w: "vs = [w]" by (elim con_ok_single)
  have b: "b = con t xs (es[k := w])" using u COidx_modarray_AxSxS_con [of t xs es w k] e w by simp
  have ok: "con_ok t xs (es[k := w])"
    using e w by (auto simp: con_ok_def cells_ok_def dest!: set_update_subset_insert [THEN subsetD])
  show "COidxSel j b = (if i = j then Inr v else COidxSel j a)"
    using COidxSel_con [OF ok, of l] COidxSel_con [OF e(2,6)] e w b by (auto simp: nth_list_update)
next
  fix a b :: "'f const"
  assume "arr t xs a" "arr t xs b" and same: "\<And>i. off_of xs i \<Longrightarrow> COidxSel i a = COidxSel i b"
  then obtain es fs where e: "a = con t xs es" "con_ok t xs es" "b = con t xs fs" "con_ok t xs fs"
    by (auto simp: arr_def)
  have len: "length es = length fs" using e con_ok_length by metis
  have "es ! k = fs ! k" if k: "k < length es" for k
    using same [of "iscal (int k)"] k len e COidxSel_con [OF e(2) k] COidxSel_con [OF e(4), of k]
    by (auto simp: off_of_def con_ok_def)
  then show "a = b" using e len by (simp add: nth_equalityI)
qed

subsection \<open>Properties\<close>

lemma full_idx_drop: "length iv = length xs \<Longrightarrow> drop (length iv) xs = []"
  by simp

lemma sub_elems_full:
  assumes "con_ok t xs es" and "valid_idx xs iv" and "length iv = length xs"
  shows "sub_elems xs iv es = [es ! nat (offs xs iv)]" and "nat (offs xs iv) < length es"
proof -
  show l: "nat (offs xs iv) < length es" using block_bounds(3) [OF assms(1,2)] assms(3) by simp
  show "sub_elems xs iv es = [es ! nat (offs xs iv)]"
    using l assms(3) by (simp add: sub_elems_def take_Suc hd_drop_conv_nth)
qed

text \<open>
  C30: \<open>COreshape\<close> succeeds exactly when the new shape has as many elements as the old one, and then keeps the
  elements; reshaping back to the old shape restores the constant.
\<close>

theorem COreshape_roundtrip:
  assumes "con_ok t xs es" and "shape_fits ys"
  shows "COreshape (ivec ys) (con t xs es)
           = (if prod_list ys = prod_list xs then Inr (con t ys es)
              else Inl (AssertFail ''COreshape: length''))
       \<and> (prod_list ys = prod_list xs \<longrightarrow>
            bindR (COreshape (ivec ys) (con t xs es)) (COreshape (ivec xs)) = Inr (con t xs es))"
proof -
  have "con_ok t ys es" if "prod_list ys = prod_list xs" using assms that by (simp add: con_ok_def)
  moreover have "shape_fits xs" using assms(1) by (simp add: con_ok_def)
  ultimately show ?thesis using assms by (auto simp: COreshape_con COreshape_error)
qed

lemma COreshape_roundtrip_witness:
  "COreshape (ivec [3, 2] :: int const) (con T_bool [6] (replicate 6 (CBool True)))
   = Inr (con T_bool [3, 2] (replicate 6 (CBool True)))"
  using COreshape_roundtrip [of T_bool "[6]" "replicate 6 (CBool True) :: int cval list" "[3, 2]"]
  by (simp add: con_eval)

text \<open>
  Selecting with a concatenated index is selecting twice: first the subarray at the front part,
  then in it at the rest.
\<close>

theorem COsel_nested:
  assumes "con_ok t xs es" and "valid_idx xs (iv @ jv)" and "length iv \<le> length xs"
  shows "COsel (ivec (iv @ jv)) (con t xs es)
         = bindR (COsel (ivec iv) (con t xs es)) (COsel (ivec jv))"
proof -
  have v: "valid_idx xs iv" "valid_idx (drop (length iv) xs) jv"
    using valid_idx_append [OF assms(3)] assms(2) by auto
  show ?thesis
    using COsel_con [OF assms(1,2)] COsel_con [OF assms(1) v(1)]
      COsel_con [OF sub_elems_ok [OF assms(1) v(1)] v(2)] sub_sub [OF assms(1) v]
    by (simp add: add.commute)
qed

lemma COsel_nested_witness:
  "COsel (ivec [1, 0] :: int const) (con T_int [2, 2] (map (CInt IInt) [1, 2, 3, 4]))
   = bindR (COsel (ivec [1]) (con T_int [2, 2] (map (CInt IInt) [1, 2, 3, 4]))) (COsel (ivec [0]))"
  using COsel_nested [of T_int "[2, 2]" "map (CInt IInt) [1, 2, 3, 4] :: int cval list" "[1]" "[0]"]
  by (simp add: con_eval)

text \<open>
  C25: \<open>COmodarray_AxVxA\<close> returns for every valid index and matching subarray; a selection at the same index gives the
  new subarray, a selection at any other index of that length what it gave before.
\<close>

theorem COmodarray_sel:
  assumes "con_ok t xs es" and "valid_idx xs iv" and "valid_idx xs jv" and "length jv = length iv"
    and "con_ok t (drop (length iv) xs) vs"
  shows "bindR (COmodarray_AxVxA (con t xs es) (ivec iv) (con t (drop (length iv) xs) vs)) (COsel (ivec jv))
         = (if iv = jv then Inr (con t (drop (length iv) xs) vs) else COsel (ivec jv) (con t xs es))"
proof -
  have l: "length iv \<le> length xs" using assms(2) by (rule valid_idx_length)
  have a: "arr t xs (con t xs es)" "arr t (drop (min (length iv) (length xs)) xs) (con t (drop (length iv) xs) vs)"
    using assms l by (auto simp: arr_def min_absorb1)
  have i: "idx_of xs (length iv) (ivec iv)" "idx_of xs (length iv) (ivec jv)"
    by (rule idx_of_ivec; use assms l in simp)+
  obtain b where b: "COmodarray_AxVxA (con t xs es) (ivec iv) (con t (drop (length iv) xs) vs) = Inr b"
    using sub.upd_total [OF a(1) i(1) a(2)] by blast
  have "(ivec iv :: 'a const) = ivec jv \<longleftrightarrow> iv = jv" using ivec_inj by blast
  then show ?thesis using sub.sel_upd [OF a(1) i a(2) b] b by simp
qed

lemma COmodarray_sel_witness:
  "bindR (COmodarray_AxVxA (con T_int [2, 2] (map (CInt IInt) [1, 2, 3, 4])) (ivec [0])
      (con T_int [2] [CInt IInt 8, CInt IInt 9])) (COsel (ivec [1]))
   = COsel (ivec [1] :: int const) (con T_int [2, 2] (map (CInt IInt) [1, 2, 3, 4]))"
  using COmodarray_sel [of T_int "[2, 2]" "map (CInt IInt) [1, 2, 3, 4] :: int cval list" "[0]" "[1]"
      "[CInt IInt 8, CInt IInt 9]"]
  by (simp add: con_eval)

text \<open>
  Two modifications at different indices of the same length commute, and the later of two modifications at
  one index wins.
\<close>

theorem COmodarray_order:
  assumes "con_ok t xs es" and "valid_idx xs iv" and "valid_idx xs jv" and "length jv = length iv"
    and "con_ok t (drop (length iv) xs) vs" and "con_ok t (drop (length iv) xs) ws"
  shows "bindR (COmodarray_AxVxA (con t xs es) (ivec iv) (con t (drop (length iv) xs) vs))
           (\<lambda>b. COmodarray_AxVxA b (ivec jv) (con t (drop (length iv) xs) ws))
         = (if iv = jv then COmodarray_AxVxA (con t xs es) (ivec iv) (con t (drop (length iv) xs) ws)
            else bindR (COmodarray_AxVxA (con t xs es) (ivec jv) (con t (drop (length iv) xs) ws))
                   (\<lambda>b. COmodarray_AxVxA b (ivec iv) (con t (drop (length iv) xs) vs)))"
proof -
  let ?v = "con t (drop (length iv) xs) vs" and ?w = "con t (drop (length iv) xs) ws"
  have l: "length iv \<le> length xs" using assms(2) by (rule valid_idx_length)
  have a: "arr t xs (con t xs es)" "arr t (drop (min (length iv) (length xs)) xs) ?v"
      "arr t (drop (min (length iv) (length xs)) xs) ?w"
    using assms l by (auto simp: arr_def min_absorb1)
  have i: "idx_of xs (length iv) (ivec iv)" "idx_of xs (length iv) (ivec jv)"
    by (rule idx_of_ivec; use assms l in simp)+
  obtain b where b: "COmodarray_AxVxA (con t xs es) (ivec iv) ?v = Inr b"
    using sub.upd_total [OF a(1) i(1) a(2)] by blast
  obtain c where c: "COmodarray_AxVxA (con t xs es) (ivec jv) ?w = Inr c"
    using sub.upd_total [OF a(1) i(2) a(3)] by blast
  have ne: "iv \<noteq> jv \<Longrightarrow> (ivec iv :: 'a const) \<noteq> ivec jv" using ivec_inj by blast
  show ?thesis
    using sub.upd_overwrite [OF a(1) i(1) a(2,3) b] b c
      sub.upd_commute [OF a(1) i a(2,3) ne b c] by auto
qed

lemma COmodarray_order_witness:
  "bindR (COmodarray_AxVxA (con T_int [2] (map (CInt IInt) [1, 2])) (ivec [0]) (iscal 8))
     (\<lambda>b. COmodarray_AxVxA b (ivec [1] :: int const) (iscal 9))
   = bindR (COmodarray_AxVxA (con T_int [2] (map (CInt IInt) [1, 2])) (ivec [1]) (iscal 9))
     (\<lambda>b. COmodarray_AxVxA b (ivec [0]) (iscal 8))"
  using COmodarray_order [of T_int "[2]" "map (CInt IInt) [1, 2] :: int cval list" "[0]" "[1]"
      "[CInt IInt 8]" "[CInt IInt 9]"]
  by (simp add: con_eval)

text \<open>
  The offset form of a selection is equivalent to the index form: for a full valid index, \<open>COidxSel\<close> at the result of
  \<open>COvect2offset\<close> is \<open>COsel\<close> at the index.
\<close>

theorem COidxSel_vect2offset:
  assumes "con_ok t xs es" and "valid_idx xs iv" and "length iv = length xs"
  shows "bindR (COvect2offset (ivec xs) (ivec iv)) (\<lambda>k. COidxSel k (con t xs es))
         = COsel (ivec iv) (con t xs es)"
proof -
  have f: "shape_fits xs" using assms(1) by (simp add: con_ok_def)
  obtain k where k: "offs xs iv = int k" using block_bounds(1) [OF assms(1,2)] nonneg_int_cases by blast
  then show ?thesis
    using sub_elems_full [OF assms] COidxSel_con [OF assms(1), of k] assms(3)
    unfolding COvect2offset_con [OF f assms(2)] COsel_con [OF assms(1,2)] by simp
qed

lemma COidxSel_vect2offset_witness:
  "bindR (COvect2offset (ivec [2, 2]) (ivec [1, 0])) (\<lambda>k. COidxSel k (con T_int [2, 2] (map (CInt IInt) [1, 2, 3, 4])))
   = COsel (ivec [1, 0] :: int const) (con T_int [2, 2] (map (CInt IInt) [1, 2, 3, 4]))"
  using COidxSel_vect2offset [of T_int "[2, 2]" "map (CInt IInt) [1, 2, 3, 4] :: int cval list" "[1, 0]"]
  by (simp add: con_eval)

text \<open>
  A negative index is not rejected by the assertions of \<open>Idx2Offset\<close>, which test the upper bound only:
  on a vector, \<open>COsel\<close> then reads before the elements.
\<close>

theorem COsel_negative_index:
  assumes "con_ok t [n] es" and "0 < n" and "k < 0"
  shows "Idx2Offset (ivec [k]) (con t [n] es) = Inr k
       \<and> COsel (ivec [k]) (con t [n] es) = Inl OutOfBounds"
proof -
  have f: "cv2cv_ext t \<noteq> EDummy" using assms(1) by (simp add: con_ok_def)
  have i: "Idx2Offset (ivec [k]) (con t [n] es) = Inr k"
    using assms
    by (simp add: Idx2Offset_def Idx2Offset_shp_def SHgetExtent_sh SHgetDim_sh rd_int_single [simplified])
  have s: "sel_shape (ivec [k] :: 'a const) (con t [n] es) = Inr (sh [])"
    using sel_shape_con [of "[k]" "[n]" t es] by simp
  have "COINTpickNElemsFromCV t (full es) k 1 = Inl OutOfBounds"
    using f assms(3) by (simp add: COINTpickNElemsFromCV_def COcv2Cv_def cfor_step rd_oob)
  then show ?thesis
    using i s SHgetUnrLen_sh [of "[]"] by (simp add: COsel_def to_size_def)
qed

lemma COsel_negative_index_witness:
  "COsel (ivec [-1] :: int const) (con T_int [2] (map (CInt IInt) [1, 2])) = Inl OutOfBounds"
  using COsel_negative_index [of T_int 2 "map (CInt IInt) [1, 2] :: int cval list" "-1"]
  by (simp add: con_eval)

text \<open>
  \<open>COsimd_sel\<close> never returns a constant: it sets the extent of axis 0 in a shape that it has just asserted
  to have no axis.
\<close>

theorem COsimd_sel_aborts: "COsimd_sel s idx a \<noteq> Inr c"
proof
  assume r: "COsimd_sel s idx a = Inr c"
  then have d: "CONSTANT_DIM a - int (CONSTANT_VLEN idx) = 0"
    by (auto simp: COsimd_sel_def check_Inr_iff bindR_Inr_iff)
  then have "sel_shape idx a = Inr (sh [])"
    by (simp only: sel_shape_def Let_def SHmakeShape_0 bindR_simps cfor_done)
  with r d show False
    by (simp add: COsimd_sel_def check_Inr_iff bindR_Inr_iff SHsetExtent_def)
qed

end
