(* ===== verification/Constants_Tile.thy ===== *)
theory Constants_Tile
  imports Constants_Struc
begin

text \<open>
  Copying tiles out of constants, from \<open>src/libsac2c/constants/constants_struc_ops.c\<close>:
  \<open>TileFromArray\<close> with \<open>COtake\<close> and \<open>COdrop\<close>, and the over-selection \<open>COoverSel\<close>.  Their loops end
  when an index counter is exhausted, so they are functions into \<open>option\<close> (\<open>None\<close>: the
  loop does not end); the lemmas show that they return for every valid tile and that the
  element at an index of the tile is the element of the array at the shifted index.
\<close>

subsection \<open>Tiles\<close>

partial_function (option) tile_loop ::
  "'f const \<Rightarrow> 'f const \<Rightarrow> 'f const \<Rightarrow> int \<Rightarrow> nat \<Rightarrow> 'f const \<Rightarrow> 'f cval cvec \<times> nat
     \<Rightarrow> ('f cval cvec \<times> nat) cres option" where
  "tile_loop mn mx a off_size chunk off s =
     bindRO (Idx2Offset off a) (\<lambda>o'. bindRO (ck_int (o' + off_size)) (\<lambda>from_off.
     bindRO (COINTcopyElemsFromCVToCV (CONSTANT_TYPE a) (CONSTANT_ELEMS a) from_off chunk
               (fst s) (int (snd s))) (\<lambda>res.
     bindRO (IncrementIndex mn off mx) (\<lambda>next.
       case next of
         None \<Rightarrow> Some (Inr (res, to_size (int (snd s + chunk))))
       | Some off \<Rightarrow> tile_loop mn mx a off_size chunk off (res, to_size (int (snd s + chunk)))))))"

declare tile_loop.simps [code]

definition TileFromArray :: "'f const \<Rightarrow> shape \<Rightarrow> 'f const \<Rightarrow> 'f const cres option" where
  "TileFromArray idx res_shp a =
     checkO (AssertFail ''TileFromArray: int'') (CONSTANT_TYPE idx = T_int)
     (checkO (AssertFail ''TileFromArray: vector'') (CONSTANT_DIM idx = 1)
     (checkO (AssertFail ''TileFromArray: empty'') (1 \<le> CONSTANT_VLEN idx)
     (bindRO (SHgetUnrLen res_shp) (\<lambda>n.
      let res_vlen = to_size n; off_len = CONSTANT_VLEN idx - 1 in
      bindRO (bindR (SHmakeShape 1) (\<lambda>s. SHsetExtent s 0 (int off_len))) (\<lambda>off_shp.
      bindRO (cfor 0 (int off_len) (\<lambda>i v. bindR (rd_int (CONSTANT_ELEMS idx) i) (\<lambda>c. wr v i (CInt IInt c)))
                (COINTallocCV T_int off_len)) (\<lambda>off_elems.
      let off = COINTmakeConstant T_int off_shp off_elems off_len in
      bindRO (COcopyConstant off) (\<lambda>mn. bindRO (COcopyConstant off) (\<lambda>mx.
      bindRO (cfor 0 (int (CONSTANT_VLEN mn)) (\<lambda>i v.
                bindR (rd_int v i) (\<lambda>c. bindR (SHgetExtent res_shp i) (\<lambda>e.
                bindR (ck_int (e - 1)) (\<lambda>e. bindR (ck_int (c + e)) (\<lambda>c'. wr v i (CInt IInt c'))))))
                (CONSTANT_ELEMS mx)) (\<lambda>mxv.
      bindRO (cfor (int (CONSTANT_VLEN off) + 1) (CONSTANT_DIM a) (\<lambda>i chunk.
                bindR (SHgetExtent res_shp i) (\<lambda>e. Inr (to_size (int chunk * e)))) 1) (\<lambda>chunk.
      bindRO (rd_int (CONSTANT_ELEMS idx) (int (CONSTANT_VLEN idx) - 1)) (\<lambda>l.
      let off_size = iconv IInt (int (to_size (int chunk * l))) in
      bindRO (SHgetExtent res_shp (int (CONSTANT_VLEN off))) (\<lambda>e.
      let chunk = to_size (int chunk * e) in
      bindO (tile_loop mn (mx\<lparr>CONSTANT_ELEMS := mxv\<rparr>) a off_size chunk off
               (COINTallocCV (CONSTANT_TYPE a) res_vlen, 0)) (\<lambda>(res_elems, res_off).
        Inr (COINTmakeConstant (CONSTANT_TYPE a) res_shp res_elems res_vlen))))))))))))))"

definition COtake :: "'f const \<Rightarrow> 'f const \<Rightarrow> 'f const cres option" where
  "COtake idx a =
     bindRO (scalar_to_vector idx) (\<lambda>idx.
     checkO (AssertFail ''COtake: vector'') (CONSTANT_DIM idx = 1)
     (checkO (AssertFail ''COtake: length'') (int (CONSTANT_VLEN idx) \<le> CONSTANT_DIM a)
     (if 0 < CONSTANT_VLEN idx
      then checkO (AssertFail ''COtake: int'') (CONSTANT_TYPE idx = T_int)
        (bindRO (SHcopyShape (CONSTANT_SHAPE a)) (\<lambda>res_shp.
         bindRO (cfor 0 (int (CONSTANT_VLEN idx)) (\<lambda>i s.
                   bindR (rd_int (CONSTANT_ELEMS idx) i) (\<lambda>c. bindR (ck_int \<bar>c\<bar>) (SHsetExtent s i)))
                 res_shp) (\<lambda>res_shp.
         bindRO (COcopyConstant idx) (\<lambda>offset.
         bindRO (cfor 0 (int (CONSTANT_VLEN offset)) (\<lambda>i v.
                   bindR (SHgetExtent (CONSTANT_SHAPE a) i) (\<lambda>shp_i. bindR (rd_int v i) (\<lambda>idx_i.
                   bindR (if 0 \<le> idx_i then Inr 0 else ck_int (shp_i + idx_i)) (\<lambda>o'.
                     wr v i (CInt IInt o'))))) (CONSTANT_ELEMS offset)) (\<lambda>v.
           TileFromArray (offset\<lparr>CONSTANT_ELEMS := v\<rparr>) res_shp a)))))
      else Some (COcopyConstant a))))"

definition COdrop :: "'f const \<Rightarrow> 'f const \<Rightarrow> 'f const cres option" where
  "COdrop idx a =
     bindRO (scalar_to_vector idx) (\<lambda>idx.
     checkO (AssertFail ''COdrop: vector'') (CONSTANT_DIM idx = 1)
     (checkO (AssertFail ''COdrop: length'') (int (CONSTANT_VLEN idx) \<le> CONSTANT_DIM a)
     (if 0 < CONSTANT_VLEN idx
      then checkO (AssertFail ''COdrop: int'') (CONSTANT_TYPE idx = T_int)
        (bindRO (SHcopyShape (CONSTANT_SHAPE a)) (\<lambda>res_shp.
         bindRO (cfor 0 (int (CONSTANT_VLEN idx)) (\<lambda>i s.
                   bindR (SHgetExtent s i) (\<lambda>e. bindR (rd_int (CONSTANT_ELEMS idx) i) (\<lambda>c.
                   bindR (ck_int \<bar>c\<bar>) (\<lambda>m. bindR (ck_int (e - m)) (SHsetExtent s i)))))
                 res_shp) (\<lambda>res_shp.
         bindRO (COcopyConstant idx) (\<lambda>offset.
         bindRO (cfor 0 (int (CONSTANT_VLEN offset)) (\<lambda>i v. bindR (rd_int v i) (\<lambda>idx_i.
                   wr v i (CInt IInt (if idx_i < 0 then 0 else idx_i)))) (CONSTANT_ELEMS offset)) (\<lambda>v.
           TileFromArray (offset\<lparr>CONSTANT_ELEMS := v\<rparr>) res_shp a)))))
      else Some (COcopyConstant a))))"

subsection \<open>Over-selection\<close>

text \<open>The two index computations in the body of the loop.\<close>

definition over_idx_pos :: "shape \<Rightarrow> int \<Rightarrow> int cvec \<Rightarrow> int \<Rightarrow> int cres" where
  "over_idx_pos frame_shape frame_len counter iv_len =
     bindR (cfor 0 frame_len (\<lambda>i pos.
       bindR (if i < frame_len - 1 then SHgetExtent frame_shape (i + 1) else Inr 1) (\<lambda>row.
       bindR (rd counter i) (\<lambda>c. bindR (ck_int (c * row)) (\<lambda>p. ck_int (pos + p))))) 0)
       (\<lambda>pos. ck_int (pos * iv_len))"

definition over_from :: "shape \<Rightarrow> int \<Rightarrow> 'f cval cvec \<Rightarrow> int \<Rightarrow> nat cres" where
  "over_from a_shape iv_len idx_elems idx_pos =
     cfor 0 iv_len (\<lambda>i off.
       bindR (if i < iv_len - 1 then SHgetExtent a_shape (i + 1) else Inr 1) (\<lambda>row.
       bindR (rd_int idx_elems (idx_pos + i)) (\<lambda>x. bindR (ck_int (x * row)) (\<lambda>p.
         Inr (to_size (int off + p)))))) 0"

partial_function (option) over_loop ::
  "shape \<Rightarrow> int \<Rightarrow> int cvec \<Rightarrow> int \<Rightarrow> 'f cval cvec \<Rightarrow> nat \<Rightarrow> 'f const \<Rightarrow> int cvec
     \<Rightarrow> 'f cval cvec \<Rightarrow> nat \<Rightarrow> 'f cval cvec cres option" where
  "over_loop frame_shape frame_len upbound iv_len idx_elems elem_len a counter res to_off =
     bindRO (over_idx_pos frame_shape frame_len counter iv_len) (\<lambda>pos.
     bindRO (over_from (CONSTANT_SHAPE a) iv_len idx_elems pos) (\<lambda>from_off.
     bindRO (COINTcopyElemsFromCVToCV (CONSTANT_TYPE a) (CONSTANT_ELEMS a)
               (int (to_size (int from_off * int elem_len))) elem_len res (int to_off)) (\<lambda>res.
     bindRO (incCounter counter upbound frame_len) (\<lambda>dc.
       if fst dc then Some (Inr res)
       else over_loop frame_shape frame_len upbound iv_len idx_elems elem_len a (snd dc) res
              (to_size (int (to_off + elem_len)))))))"

declare over_loop.simps [code]

definition COoverSel :: "'f const \<Rightarrow> 'f const \<Rightarrow> 'f const cres option" where
  "COoverSel idx a =
     (let idx_dim = CONSTANT_DIM idx; idx_shape = CONSTANT_SHAPE idx; a_shape = CONSTANT_SHAPE a;
          a_type = CONSTANT_TYPE a in
      checkO (AssertFail ''COoverSel: scalar'') (0 < idx_dim)
      (checkO (AssertFail ''COoverSel: int'') (CONSTANT_TYPE idx = T_int)
       (bindRO (SHgetExtent idx_shape (idx_dim - 1)) (\<lambda>iv_len.
        checkO (AssertFail ''COoverSel: length'') (iv_len \<le> CONSTANT_DIM a)
        (bindRO (SHdropFromShape (- 1) idx_shape) (\<lambda>frame_shape.
         bindRO (SHdropFromShape iv_len a_shape) (\<lambda>cell_shape.
         bindRO (SHappendShapes frame_shape cell_shape) (\<lambda>res_shape.
         bindRO (SHgetUnrLen res_shape) (\<lambda>n.
         let res_len = to_size (iconv IInt n); res_cv = COINTallocCV a_type res_len in
         bindRO (SHgetUnrLen cell_shape) (\<lambda>m.
         let elem_len = to_size m; frame_len = SHgetDim frame_shape in
         bindRO (cfor 0 frame_len (\<lambda>i cu. bindR (wr (fst cu) i 0) (\<lambda>c.
                   bindR (SHgetExtent frame_shape i) (\<lambda>e. bindR (wr (snd cu) i e) (\<lambda>u. Inr (c, u)))))
                   (allocv frame_len, allocv frame_len)) (\<lambda>(counter, upbound).
         if CONSTANT_ELEMS idx \<noteq> []
         then bindO (over_loop frame_shape frame_len upbound iv_len (CONSTANT_ELEMS idx) elem_len a
                       counter res_cv 0)
                (\<lambda>cv. Inr (COINTmakeConstant a_type res_shape cv res_len))
         else Some (Inr (COINTmakeConstant a_type res_shape res_cv res_len)))))))))))))"

subsection \<open>Loops that overwrite a vector in place\<close>

lemma inplace_loop:
  fixes old new :: "int list"
  assumes "length new = length old"
    and "\<And>k v. k < length old \<Longrightarrow> v ! k = old ! k \<Longrightarrow> length v = length old \<Longrightarrow>
           f (int k) (full (map (CInt IInt) v) :: 'f cval cvec)
           = Inr (full (map (CInt IInt) (v[k := new ! k])))"
  shows "cfor 0 (int (length old)) f (full (map (CInt IInt) old)) = Inr (full (map (CInt IInt) new))"
proof -
  let ?v = "\<lambda>k. take k new @ drop k old"
  let ?g = "\<lambda>j. full (map (CInt IInt) (?v (nat j))) :: 'f cval cvec"
  have "f j (?g j) = Inr (?g (j + 1))" if j: "0 \<le> j" "j < int (length old)" for j
  proof -
    obtain k where k: "j = int k" "k < length old" using j by (metis nonneg_int_cases of_nat_less_iff)
    have "(?v k)[k := new ! k] = ?v (Suc k)"
      using k assms(1) by (simp add: list_update_append take_Suc_conv_app_nth
        Cons_nth_drop_Suc [symmetric, of k old])
    moreover have "?v k ! k = old ! k" "length (?v k) = length old"
      using k assms(1) by (auto simp: nth_append)
    ultimately show ?thesis using assms(2) [of k "?v k"] k by (simp add: nat_add_distrib)
  qed
  from cfor_traj [of 0 "int (length old)" f ?g, OF _ this] show ?thesis using assms(1) by simp
qed

lemma extents_loop:
  assumes "length qs \<le> length xs"
    and "\<And>k zs. k < length qs \<Longrightarrow> zs ! k = xs ! k \<Longrightarrow> length zs = length xs \<Longrightarrow>
           f (int k) (sh zs) = Inr (sh (zs[k := qs ! k]))"
  shows "cfor 0 (int (length qs)) f (sh xs) = Inr (sh (qs @ drop (length qs) xs))"
proof -
  let ?v = "\<lambda>k. take k qs @ drop k xs"
  let ?g = "\<lambda>j. sh (?v (nat j))"
  have "f j (?g j) = Inr (?g (j + 1))" if j: "0 \<le> j" "j < int (length qs)" for j
  proof -
    obtain k where k: "j = int k" "k < length qs" using j by (metis nonneg_int_cases of_nat_less_iff)
    have "(?v k)[k := qs ! k] = ?v (Suc k)"
      using k assms(1) by (simp add: list_update_append take_Suc_conv_app_nth
        Cons_nth_drop_Suc [symmetric, of k xs])
    moreover have "?v k ! k = xs ! k" "length (?v k) = length xs"
      using k assms(1) by (auto simp: nth_append)
    ultimately show ?thesis using assms(2) [of k "?v k"] k by (simp add: nat_add_distrib)
  qed
  from cfor_traj [of 0 "int (length qs)" f ?g, OF _ this] show ?thesis using assms(1) by simp
qed

subsection \<open>The elements of a tile\<close>

text \<open>
  \<open>shift iv jv\<close> is the index of the array that the index \<open>jv\<close> of the tile at \<open>iv\<close>
  stands for; \<open>tile_elems\<close> lists the elements of a tile of shape \<open>ys\<close>.  \<open>tile_at\<close> says
  that the tile of outer extents \<open>qs\<close> at \<open>iv\<close> lies in the array, with no empty axis
  except possibly the last of \<open>qs\<close>.
\<close>

fun shift :: "int list \<Rightarrow> int list \<Rightarrow> int list" where
  "shift (i # iv) (j # jv) = (i + j) # shift iv jv"
| "shift _ jv = jv"

definition tile_elems :: "int list \<Rightarrow> int list \<Rightarrow> int list \<Rightarrow> 'a list \<Rightarrow> 'a list" where
  "tile_elems xs iv ys es = map (\<lambda>jv. es ! nat (offs xs (shift iv jv))) (idx_space ys)"

fun tile_at :: "int list \<Rightarrow> int list \<Rightarrow> int list \<Rightarrow> bool" where
  "tile_at (x # xs) (i # iv) (q # qs) =
     (0 \<le> i \<and> i + q \<le> x \<and> (if iv = [] then qs = [] \<and> 0 \<le> q else 0 < q \<and> tile_at xs iv qs))"
| "tile_at _ _ _ = False"

definition tile_bounds :: "int list \<Rightarrow> int list \<Rightarrow> (int \<times> int) list" where
  "tile_bounds iv qs = map2 (\<lambda>i q. (i, i + q - 1)) (butlast iv) (butlast qs)"

lemma tile_at_length: "tile_at xs iv qs \<Longrightarrow> length qs = length iv \<and> length iv \<le> length xs \<and> iv \<noteq> []"
  by (induction xs iv qs rule: tile_at.induct) (auto split: if_splits)

lemma tile_at_nth:
  "tile_at xs iv qs \<Longrightarrow> k < length iv \<Longrightarrow> 0 \<le> iv ! k \<and> 0 \<le> qs ! k \<and> iv ! k + qs ! k \<le> xs ! k"
proof (induction xs iv qs arbitrary: k rule: tile_at.induct)
  case (1 x xs i iv q qs)
  then show ?case by (cases k) (auto split: if_splits)
qed simp_all

lemma tile_at_last:
  assumes "tile_at xs iv qs"
  shows "0 \<le> last iv \<and> 0 \<le> last qs \<and> last iv + last qs \<le> xs ! (length iv - 1)"
proof -
  have "iv \<noteq> []" "length qs = length iv" using tile_at_length [OF assms] by auto
  moreover then have "qs \<noteq> []" by auto
  ultimately show ?thesis
    using tile_at_nth [OF assms, of "length iv - 1"] by (simp add: last_conv_nth)
qed

lemma concat_concat: "concat (concat xss) = concat (map concat xss)"
  by (induction xss) simp_all

lemma idx_space_Cons:
  "idx_space (y # ys) = concat (map (\<lambda>k. map ((#) k) (idx_space ys)) [0..y - 1])"
  by (simp add: idx_space_def)

lemma upto_shift: "[i..i + q - 1] = map ((+) i) [0..q - 1]"
  by (rule nth_equalityI) auto

lemma take_drop_upto:
  assumes "0 \<le> b" and "0 \<le> n" and "b + n \<le> int (length es)"
  shows "take (nat n) (drop (nat b) es) = map (\<lambda>k. es ! nat (b + k)) [0..n - 1]"
  using assms by (intro nth_equalityI) (auto simp: nat_add_distrib)

text \<open>The blocks that the code copies, one after the other, are the elements of the tile.\<close>

lemma tile_blocks:
  assumes "tile_at xs iv qs" and "\<forall>x\<in>set xs. 0 \<le> x" and "0 \<le> base"
    and "base + prod_list xs \<le> int (length es)"
  shows "concat (map (\<lambda>js. take (nat (last qs * prod_list (drop (length iv) xs)))
             (drop (nat (base + offs xs js + last iv * prod_list (drop (length iv) xs))) es))
           (box (tile_bounds iv qs)))
         = map (\<lambda>jv. es ! nat (base + offs xs (shift iv jv))) (idx_space (qs @ drop (length iv) xs))"
  using assms
proof (induction xs iv qs arbitrary: base rule: tile_at.induct)
  case (1 x xs i iv q qs)
  let ?P = "prod_list xs"
  have P: "0 \<le> ?P" using 1 by (intro prod_list_nonneg) simp
  have i: "0 \<le> i" "i + q \<le> x" "0 \<le> q" using 1 by (auto split: if_splits)
  have "(i + q) * ?P \<le> x * ?P" using i P by (intro mult_right_mono) auto
  then have b: "base + i * ?P + q * ?P \<le> int (length es)" using 1 by (simp add: algebra_simps)
  show ?case
  proof (cases "iv = []")
    case True
    then have [simp]: "qs = []" using 1 by simp
    have "map (\<lambda>jv. es ! nat (base + offs (x # xs) (shift [i] jv))) (idx_space (q # xs))
        = map (\<lambda>k. es ! nat (base + i * ?P + k)) (map (offs (q # xs)) (idx_space (q # xs)))"
      by (auto simp: idx_space_Cons algebra_simps)
    also have "\<dots> = map (\<lambda>k. es ! nat (base + i * ?P + k)) [0..q * ?P - 1]"
      using offs_idx_space [of "q # xs"] 1 i by simp
    also have "\<dots> = take (nat (q * ?P)) (drop (nat (base + i * ?P)) es)"
      using b P i 1 by (intro take_drop_upto [symmetric]) auto
    finally show ?thesis using True by (simp add: tile_bounds_def)
  next
    case False
    then have t: "tile_at xs iv qs" using 1 by simp
    then have l: "qs \<noteq> []" using tile_at_length False by fastforce
    let ?blk = "\<lambda>b. \<lambda>js. take (nat (last qs * prod_list (drop (length iv) xs)))
             (drop (nat (b + offs xs js + last iv * prod_list (drop (length iv) xs))) es)"
    let ?el = "\<lambda>b. \<lambda>jv. es ! nat (b + offs xs (shift iv jv))"
    let ?I = "idx_space (qs @ drop (length iv) xs)"
    have bs: "tile_bounds (i # iv) (q # qs) = (i, i + q - 1) # tile_bounds iv qs"
      using False l by (simp add: tile_bounds_def)
    have "concat (map (?blk (base + (i + k) * ?P)) (box (tile_bounds iv qs)))
        = map (?el (base + (i + k) * ?P)) ?I" if k: "k \<in> set [0..q - 1]" for k
    proof (rule "1.IH" [OF False t])
      show "0 \<le> base + (i + k) * ?P" using 1 P i k by simp
      have "(i + k + 1) * ?P \<le> x * ?P" using i k P by (intro mult_right_mono) auto
      with 1 show "base + (i + k) * ?P + ?P \<le> int (length es)" by (simp add: algebra_simps)
    qed (use 1 in simp)
    then have "concat (map (\<lambda>k. concat (map (?blk (base + (i + k) * ?P)) (box (tile_bounds iv qs)))) [0..q - 1])
        = concat (map (\<lambda>k. map (?el (base + (i + k) * ?P)) ?I) [0..q - 1])"
      by (intro arg_cong [where f = concat] map_cong) auto
    with False l show ?thesis
      by (simp add: bs upto_shift [of i q] idx_space_Cons map_concat concat_concat comp_def algebra_simps)
  qed
qed simp_all

lemma tile_block_in:
  assumes "tile_at xs iv qs" and "\<forall>x\<in>set xs. 0 \<le> x" and "in_box (tile_bounds iv qs) js"
  shows "valid_idx xs js \<and> length js = length iv - 1
     \<and> 0 \<le> offs xs js + last iv * prod_list (drop (length iv) xs)
     \<and> offs xs js + last iv * prod_list (drop (length iv) xs)
         + last qs * prod_list (drop (length iv) xs) \<le> prod_list xs"
  using assms
proof (induction xs iv qs arbitrary: js rule: tile_at.induct)
  case (1 x xs i iv q qs)
  let ?P = "prod_list xs"
  have P: "0 \<le> ?P" using 1 by (intro prod_list_nonneg) simp
  show ?case
  proof (cases "iv = []")
    case True
    then have i: "qs = []" "0 \<le> i" "i + q \<le> x" "0 \<le> q" using 1 by simp_all
    then have "js = []" using 1 True by (cases js) (auto simp: tile_bounds_def)
    moreover have "(i + q) * ?P \<le> x * ?P" using i P by (intro mult_right_mono) auto
    ultimately show ?thesis using i P True by (simp add: algebra_simps)
  next
    case False
    then have t: "tile_at xs iv qs" and i: "0 \<le> i" "i + q \<le> x" using 1 by simp_all
    then have l: "qs \<noteq> []" using tile_at_length False by fastforce
    then obtain j ks where js: "js = j # ks" "i \<le> j" "j \<le> i + q - 1" "in_box (tile_bounds iv qs) ks"
      using "1.prems"(3) False by (cases js) (auto simp: tile_bounds_def)
    have "\<forall>x\<in>set xs. 0 \<le> x" using 1 by simp
    note IH = "1.IH" [OF False t this js(4)]
    have "0 \<le> j * ?P" using i js P by simp
    moreover have "(j + 1) * ?P \<le> x * ?P" using i js P by (intro mult_right_mono) auto
    ultimately show ?thesis
      using IH js i False l by (simp add: algebra_simps)
  qed
qed simp_all

lemma tile_bounds_int:
  assumes "tile_at xs iv qs" and "shape_fits xs"
  shows "int_bounds (tile_bounds iv qs) \<and> map fst (tile_bounds iv qs) = butlast iv"
  using assms
proof (induction xs iv qs rule: tile_at.induct)
  case (1 x xs i iv q qs)
  show ?case
  proof (cases "iv = []")
    case False
    then have t: "tile_at xs iv qs" and i: "0 \<le> i" "i + q \<le> x" "0 < q" using 1 by simp_all
    then have l: "qs \<noteq> []" using tile_at_length False by fastforce
    have x: "x \<le> int_max" using in_int_fits [OF "1.prems"(2)] by simp
    have "shape_fits xs" using shape_fits_drop [OF "1.prems"(2), of 1] by simp
    from "1.IH" [OF False t this] i x l False show ?thesis
      by (auto simp: tile_bounds_def int_bounds_def in_ity_IInt)
  qed (simp add: tile_bounds_def int_bounds_def)
qed simp_all

lemma length_idx_space:
  assumes "\<forall>x\<in>set xs. 0 \<le> x" shows "int (length (idx_space xs)) = prod_list xs"
proof -
  have "length (idx_space xs) = length (map (offs xs) (idx_space xs))" by simp
  also have "\<dots> = nat (prod_list xs)" using offs_idx_space [OF assms] by simp
  finally show ?thesis using prod_list_nonneg [OF assms] by simp
qed

lemma tile_shape_fits:
  assumes "tile_at xs iv qs" and "shape_fits xs"
  shows "shape_fits (qs @ drop (length iv) xs)"
proof -
  have "tile_at xs iv qs \<Longrightarrow> \<forall>x\<in>set xs. 0 \<le> x \<Longrightarrow> (\<forall>x\<in>set (qs @ drop (length iv) xs). 0 \<le> x)
      \<and> prod_list (map (max 1) (qs @ drop (length iv) xs)) \<le> prod_list (map (max 1) xs)"
  proof (induction xs iv qs rule: tile_at.induct)
    case (1 x xs i iv q qs)
    have "max 1 q * prod_list (map (max 1) xs) \<le> max 1 x * prod_list (map (max 1) xs)"
      using prod_max1_ge1 [of xs] 1 by (intro mult_right_mono) auto
    moreover have "0 \<le> prod_list (map (max 1) (qs @ drop (length iv) xs))"
      using prod_max1_ge1 [of "qs @ drop (length iv) xs"] by linarith
    then have "max 1 q * prod_list (map (max 1) (qs @ drop (length iv) xs))
        \<le> max 1 x * prod_list (map (max 1) xs)" if "iv \<noteq> []"
      using that 1 by (intro mult_mono) auto
    ultimately show ?case using 1 by (cases "iv = []") auto
  qed simp_all
  with assms show ?thesis by (auto simp: shape_fits_def)
qed

subsection \<open>The loop over the blocks\<close>

definition tile_step ::
  "simpletype \<Rightarrow> int list \<Rightarrow> 'a list \<Rightarrow> int \<Rightarrow> nat \<Rightarrow> int list \<Rightarrow> 'a cvec \<times> nat \<Rightarrow> ('a cvec \<times> nat) cres" where
  "tile_step t xs es off_size chunk js s =
     bindR (COINTcopyElemsFromCVToCV t (full es) (offs xs js + off_size) chunk (fst s) (int (snd s)))
       (\<lambda>res. Inr (res, to_size (int (snd s + chunk))))"

lemma copy_block:
  assumes "cv2cv_ext t \<noteq> EDummy" and "s + n \<le> length es" and "length pre = d"
  shows "COINTcopyElemsFromCVToCV t (full es) (int s) n (full pre @ replicate (n + r) None) (int d)
         = Inr (full (pre @ take n (drop s es)) @ replicate r None)"
  using COcv2Cv_full [OF assms(1,2), of d "full pre @ replicate (n + r) None"] assms
  by (simp add: COINTcopyElemsFromCVToCV_def blit_def)

lemma tile_steps:
  assumes "cv2cv_ext t \<noteq> EDummy" and "int (length pre + n) \<le> int_max"
    and "\<forall>js\<in>set jss. 0 \<le> offs xs js + o' \<and> nat (offs xs js + o') + chunk \<le> length es"
    and "length jss * chunk = n"
  shows "foldR (tile_step t xs es o' chunk) jss (full pre @ replicate n None, length pre)
         = Inr (full (pre @ concat (map (\<lambda>js. take chunk (drop (nat (offs xs js + o')) es)) jss)),
                length pre + n)"
  using assms
proof (induction jss arbitrary: pre n)
  case (Cons js jss)
  let ?b = "take chunk (drop (nat (offs xs js + o')) es)"
  have "nat (offs xs js + o') + chunk \<le> length es" using Cons.prems(3) by simp
  then have lb: "length ?b = chunk" by simp
  obtain r where r: "n = chunk + r" "length jss * chunk = r" using Cons.prems(4) by simp
  have c: "COINTcopyElemsFromCVToCV t (full es) (offs xs js + o') chunk
      (full pre @ replicate n None) (int (length pre)) = Inr (full (pre @ ?b) @ replicate r None)"
    using copy_block [OF Cons.prems(1), of "nat (offs xs js + o')" chunk es pre "length pre" r]
      Cons.prems(3) r by simp
  have "to_size (int (length pre) + int chunk) = length (pre @ ?b)"
    using Cons.prems(2) r lb by (subst to_size_ok) auto
  then have "tile_step t xs es o' chunk js (full pre @ replicate n None, length pre)
      = Inr (full (pre @ ?b) @ replicate r None, length (pre @ ?b))"
    by (simp add: tile_step_def c)
  with Cons.IH [of "pre @ ?b" r] Cons.prems r lb show ?case by (simp add: add.assoc)
qed simp

subsection \<open>Tiles of constants\<close>

lemma COcopyConstant_ivec: "COcopyConstant (ivec v :: 'f const) = Inr (ivec v)"
  by (simp add: COcopyConstant_def const shape COINTmakeConstant_con)

lemma off_vec_loop:
  assumes "n \<le> length iv"
  shows "cfor 0 (int n) (\<lambda>i v. bindR (rd_int (full (map (CInt IInt) iv :: 'f cval list)) i)
             (\<lambda>c. wr v i (CInt IInt c :: 'f cval))) (replicate n None) = Inr (full (map (CInt IInt) (take n iv) :: 'f cval list))"
proof -
  let ?h = "\<lambda>i. bindR (rd_int (full (map (CInt IInt) iv :: 'f cval list)) i) (\<lambda>c. Inr (CInt IInt c :: 'f cval))"
  have "mapR ?h (map int [0..<n]) = mapR (\<lambda>i. Inr (CInt IInt (iv ! nat i))) (map int [0..<n])"
    using assms by (intro mapR_cong) (auto simp: rd_int_full)
  also have "\<dots> = Inr (map (CInt IInt) (take n iv))"
    using assms by (auto simp: comp_def intro!: nth_equalityI)
  finally have "mapR ?h (map int [0..<n]) = Inr (map (CInt IInt) (take n iv))" .
  with cfor_collect [of "replicate n None" n ?h] show ?thesis by (simp add: bindR_assoc)
qed

lemma off_shape: "bindR (SHmakeShape 1) (\<lambda>s. SHsetExtent s 0 n) = Inr (sh [n])"
  using SHmakeShape_len [of 1]
  by (simp add: SHsetExtent_def set_SHAPE_EXT_def wr_def sh_def full_def)

lemma chunk_loop:
  assumes "length qs = m" and "m \<le> length xs" and "shape_fits xs"
  shows "cfor (int m) (int (length xs)) (\<lambda>i chunk.
           bindR (SHgetExtent (sh (qs @ drop m xs)) i) (\<lambda>e. Inr (to_size (int chunk * e)))) 1
         = Inr (nat (prod_list (drop m xs)))"
proof -
  let ?f = "\<lambda>i chunk. bindR (SHgetExtent (sh (qs @ drop m xs)) i) (\<lambda>e. Inr (to_size (int chunk * e)))"
  let ?g = "\<lambda>j. nat (prod_list (drop m (take (nat j) xs)))"
  have "?f j (?g j) = Inr (?g (j + 1))" if j: "int m \<le> j" "j < int (length xs)" for j
  proof -
    obtain k where k: "j = int k" "m \<le> k" "k < length xs"
      using j by (metis nonneg_int_cases of_nat_le_iff of_nat_less_iff of_nat_0_le_iff order_trans)
    have e: "(qs @ drop m xs) ! k = xs ! k" using k assms by (simp add: nth_append)
    have "drop m (take (Suc k) xs) = drop m (take k xs) @ [xs ! k]"
      using k by (simp add: take_Suc_conv_app_nth)
    then have p: "prod_list (drop m (take k xs)) * xs ! k = prod_list (drop m (take (Suc k) xs))"
      by simp
    have "shape_fits (drop m (take k xs))" "shape_fits (drop m (take (Suc k) xs))"
      using assms(3) by simp_all
    from shape_fits_prod [OF this(1)] shape_fits_prod [OF this(2)] show ?thesis
      using k assms e p by (simp add: SHgetExtent_sh to_size_ok nat_add_distrib)
  qed
  from cfor_traj [of "int m" "int (length xs)" ?f ?g, OF _ this] show ?thesis
    using assms by simp
qed

lemma max_loop:
  assumes "tile_at xs iv qs" and "shape_fits xs"
  shows "cfor 0 (int (length (butlast iv))) (\<lambda>i v.
           bindR (rd_int v i) (\<lambda>c. bindR (SHgetExtent (sh (qs @ drop (length iv) xs)) i) (\<lambda>e.
           bindR (ck_int (e - 1)) (\<lambda>e. bindR (ck_int (c + e)) (\<lambda>c'. wr v i (CInt IInt c'))))))
           (full (map (CInt IInt) (butlast iv)))
         = Inr (full (map (CInt IInt) (map snd (tile_bounds iv qs)) :: 'f cval list))"
proof (rule inplace_loop)
  note l = tile_at_length [OF assms(1)]
  show "length (map snd (tile_bounds iv qs)) = length (butlast iv)" using l by (simp add: tile_bounds_def)
  fix k v assume k: "k < length (butlast iv)" "v ! k = butlast iv ! k" "length v = length (butlast iv)"
  have b: "tile_bounds iv qs ! k = (iv ! k, iv ! k + qs ! k - 1)"
    using k l by (simp add: tile_bounds_def nth_butlast)
  have "tile_bounds iv qs ! k \<in> set (tile_bounds iv qs)"
    using k l by (intro nth_mem) (simp add: tile_bounds_def)
  with tile_bounds_int [OF assms] b
  have r: "iv ! k \<le> iv ! k + qs ! k - 1" "in_ity IInt (iv ! k + qs ! k - 1)" "in_ity IInt (iv ! k)"
    by (fastforce simp: int_bounds_def)+
  have "k < length qs" "k < length iv" using k l by auto
  then have q: "qs ! k \<le> int_max"
    using in_int_fits [OF tile_shape_fits [OF assms], of "qs ! k"] by simp
  have "ck_int (qs ! k - 1) = Inr (qs ! k - 1)" "ck_int (iv ! k + (qs ! k - 1)) = Inr (iv ! k + qs ! k - 1)"
    using r q tile_at_nth [OF assms(1) \<open>k < length iv\<close>]
    by (auto intro!: ck_int_ok simp: in_ity_IInt algebra_simps)
  moreover have "SHgetExtent (sh (qs @ drop (length iv) xs)) (int k) = Inr (qs ! k)"
    using \<open>k < length qs\<close> by (simp add: SHgetExtent_sh nth_append)
  ultimately show "bindR (rd_int (full (map (CInt IInt) v) :: 'f cval cvec) (int k)) (\<lambda>c.
      bindR (SHgetExtent (sh (qs @ drop (length iv) xs)) (int k)) (\<lambda>e.
      bindR (ck_int (e - 1)) (\<lambda>e. bindR (ck_int (c + e)) (\<lambda>c'.
        wr (full (map (CInt IInt) v)) (int k) (CInt IInt c')))))
    = Inr (full (map (CInt IInt) (v[k := map snd (tile_bounds iv qs) ! k])))"
    using k l b by (simp add: rd_int_full nth_butlast wr_ints tile_bounds_def)
qed

lemma in_box_low: "\<forall>(lo, hi)\<in>set bs. lo \<le> hi \<Longrightarrow> in_box bs (map fst bs)"
  by (induction bs) auto

lemma sum_list_const_fun:
  "(\<And>x. x \<in> set xs \<Longrightarrow> f x = c) \<Longrightarrow> sum_list (map f xs) = length xs * (c :: nat)"
  by (induction xs) auto

lemma length_tile_elems:
  assumes "\<forall>x\<in>set ys. 0 \<le> x" shows "length (tile_elems xs iv ys es) = nat (prod_list ys)"
  using length_idx_space [OF assms] by (simp add: tile_elems_def)

lemma tile_loop_run:
  assumes "con_ok t xs es" and "tile_at xs iv qs"
  shows "tile_loop (ivec (map fst (tile_bounds iv qs))) (ivec (map snd (tile_bounds iv qs)))
           (con t xs es) (last iv * prod_list (drop (length iv) xs))
           (nat (last qs * prod_list (drop (length iv) xs))) (ivec (butlast iv))
           (replicate (nat (prod_list (qs @ drop (length iv) xs))) None, 0)
         = Some (Inr (full (tile_elems xs iv (qs @ drop (length iv) xs) es),
                      nat (prod_list (qs @ drop (length iv) xs))))"
    (is "tile_loop ?mn ?mx _ ?o ?c _ (replicate ?n _, _) = _")
proof -
  let ?bs = "tile_bounds iv qs" and ?ys = "qs @ drop (length iv) xs"
  let ?loop = "\<lambda>js. tile_loop ?mn ?mx (con t xs es) ?o ?c (ivec js)"
  let ?step = "tile_step t xs es ?o ?c"
  note fit = con_okD(1) [OF assms(1)]
  have nn: "\<forall>x\<in>set xs. 0 \<le> x" "\<forall>x\<in>set ?ys. 0 \<le> x"
    using fit tile_shape_fits [OF assms(2) fit] by (auto simp: shape_fits_def)
  have len: "prod_list xs = int (length es)" using con_okD(2) [OF assms(1)] by simp
  have ib: "int_bounds ?bs" "map fst ?bs = butlast iv" using tile_bounds_int [OF assms(2) fit] by auto
  have le: "\<forall>(lo, hi)\<in>set ?bs. lo \<le> hi" using ib(1) by (auto simp: int_bounds_def)
  have l: "length iv \<le> length xs" using tile_at_length [OF assms(2)] by simp
  have P: "0 \<le> last qs * prod_list (drop (length iv) xs)"
    using nn tile_at_last [OF assms(2)]
    by (intro mult_nonneg_nonneg prod_list_nonneg) (auto dest: in_set_dropD)
  have unf: "?loop js s = bindRO (?step js s) (\<lambda>s'. case next_idx ?bs js of
      None \<Rightarrow> Some (Inr s') | Some ks \<Rightarrow> ?loop ks s')" if js: "in_box ?bs js" for js s
  proof -
    note b = tile_block_in [OF assms(2) nn(1) js]
    have "ck_int (offs xs js + ?o) = Inr (offs xs js + ?o)"
      using b P len con_ok_le_int_max [OF assms(1)] by (intro ck_int_ok) linarith+
    moreover have "Idx2Offset (ivec js :: 'a const) (con t xs es) = Inr (offs xs js)"
      using b by (intro Idx2Offset_con [OF fit]) simp
    ultimately show ?thesis
      unfolding tile_step_def
      by (subst tile_loop.simps, simp only: bindRO_simps con_sel IncrementIndex_ivec [OF js ib(1)])
        (cases "COINTcopyElemsFromCVToCV t (full es) (offs xs js + ?o) ?c (fst s) (int (snd s))";
          cases "next_idx ?bs js"; simp)
  qed
  have start: "in_box ?bs (butlast iv)" "box_from ?bs (butlast iv) = box ?bs"
    using box_from_low [OF le] le unfolding ib(2) [symmetric]
    by (auto simp: in_box_low)
  have blk: "concat (map (\<lambda>js. take ?c (drop (nat (offs xs js + ?o)) es)) (box ?bs))
      = tile_elems xs iv ?ys es"
    using tile_blocks [OF assms(2) nn(1), of 0 es] len by (simp add: tile_elems_def)
  have inn: "0 \<le> offs xs js + ?o \<and> nat (offs xs js + ?o) + ?c \<le> length es"
    if "js \<in> set (box ?bs)" for js
    using tile_block_in [OF assms(2) nn(1), of js] that P len by (auto simp: in_box_iff)
  have "length (box ?bs) * ?c = length (tile_elems xs iv ?ys es)"
    unfolding blk [symmetric] length_concat map_map comp_def
  proof (rule sum_list_const_fun [symmetric])
    show "length (take ?c (drop (nat (offs xs js + ?o)) es)) = ?c" if "js \<in> set (box ?bs)" for js
    proof -
      have "?c \<le> length es - nat (offs xs js + ?o)" using inn [OF that] by linarith
      then show ?thesis by (simp only: length_take length_drop min_absorb2)
    qed
  qed
  also have "\<dots> = ?n" using length_idx_space [OF nn(2)] by (simp add: tile_elems_def)
  finally have n: "length (box ?bs) * ?c = ?n" .
  have "foldR ?step (box ?bs) (full [] @ replicate ?n None, length ([] :: 'a cval list))
      = Inr (full ([] @ concat (map (\<lambda>js. take ?c (drop (nat (offs xs js + ?o)) es)) (box ?bs))),
             length ([] :: 'a cval list) + ?n)"
    using shape_fits_prod [OF tile_shape_fits [OF assms(2) fit]]
    by (intro tile_steps [OF con_okD(4) [OF assms(1)] _ _ n]) (use inn in auto)
  with next_loop [OF start(1) le, of ?loop ?step, OF unf] show ?thesis
    by (simp add: start(2) blk)
qed

lemma TileFromArray_con [const]:
  assumes "con_ok t xs es" and "tile_at xs iv qs"
  shows "TileFromArray (ivec iv) (sh (qs @ drop (length iv) xs)) (con t xs es)
         = Some (Inr (con t (qs @ drop (length iv) xs) (tile_elems xs iv (qs @ drop (length iv) xs) es)))"
proof -
  let ?ys = "qs @ drop (length iv) xs"
  let ?P = "prod_list (drop (length iv) xs)"
  note fit = con_okD(1) [OF assms(1)] and fy = tile_shape_fits [OF assms(2) con_okD(1) [OF assms(1)]]
  note l = tile_at_length [OF assms(2)]
  have dim: "0 < length iv" "iv \<noteq> []" using l by auto
  have nn: "\<forall>x\<in>set xs. 0 \<le> x" using fit by (simp add: shape_fits_def)
  have b: "0 \<le> last iv \<and> 0 \<le> last qs \<and> last iv + last qs \<le> xs ! (length iv - 1)"
    using tile_at_last [OF assms(2)] .
  have P: "0 \<le> ?P" "?P \<le> int_max" using shape_fits_prod [OF shape_fits_drop [OF fit]] by auto
  have le: "\<forall>(lo, hi)\<in>set (tile_bounds iv qs). lo \<le> hi"
    using tile_bounds_int [OF assms(2) fit] by (auto simp: int_bounds_def)
  have fst_b: "map fst (tile_bounds iv qs) = butlast iv" using tile_bounds_int [OF assms(2) fit] by simp
  have "in_box (tile_bounds iv qs) (butlast iv)" using in_box_low [OF le] fst_b by simp
  note blk = tile_block_in [OF assms(2) nn this]
  have o: "0 \<le> offs xs (butlast iv)"
    using offs_bounds [of xs "butlast iv"] blk nn by simp
  have m: "0 \<le> last iv * ?P" "0 \<le> last qs * ?P" "last iv * ?P \<le> int_max" "last qs * ?P \<le> int_max"
  proof -
    have "0 \<le> last iv * ?P" "0 \<le> last qs * ?P" using b P by simp_all
    then show "0 \<le> last iv * ?P" "0 \<le> last qs * ?P" "last iv * ?P \<le> int_max" "last qs * ?P \<le> int_max"
      using o blk shape_fits_prod [OF fit] by linarith+
  qed
  have le_dim: "length (butlast iv) \<le> length iv" by simp
  have off: "COINTmakeConstant T_int (sh [int (length (butlast iv))])
      (full (map (CInt IInt) (butlast iv) :: 'a cval list)) (length (butlast iv)) = ivec (butlast iv)"
    by (rule COINTmakeConstant_con) simp
  have mx: "(ivec (butlast iv) :: 'a const)\<lparr>CONSTANT_ELEMS := full (map (CInt IInt) (map snd (tile_bounds iv qs)))\<rparr>
      = ivec (map snd (tile_bounds iv qs))"
    using l by (simp add: con_def tile_bounds_def)
  have "int (length (butlast iv)) + 1 = int (length iv)" using dim by (cases iv) simp_all
  note chunk = chunk_loop [of qs "length iv" xs, OF _ _ fit, folded this]
  have last_rd: "rd_int (full (map (CInt IInt) iv) :: 'a cval cvec) (int (length iv) - 1) = Inr (last iv)"
    using dim by (simp add: rd_int_full last_conv_nth nat_int_sub)
  have ext: "SHgetExtent (sh ?ys) (int (length (butlast iv))) = Inr (last qs)"
  proof -
    have "length iv - 1 < length qs" "qs \<noteq> []" using l by (auto simp: Suc_leI)
    moreover from this have "SHgetExtent (sh ?ys) (int (length (butlast iv))) = Inr (?ys ! (length iv - 1))"
      by (subst SHgetExtent_sh) auto
    ultimately show ?thesis using l by (simp add: nth_append last_conv_nth)
  qed
  have tk: "take (length (butlast iv)) iv = butlast iv" by (simp add: butlast_conv_take)
  have ts: "to_size (?P * last iv) = nat (last iv * ?P)" "to_size (?P * last qs) = nat (last qs * ?P)"
    "iconv IInt (last iv * ?P) = last iv * ?P"
    using m by (simp_all add: to_size_ok mult.commute in_ity_IInt)
  obtain n where d1: "length iv = Suc n" using dim by (cases iv) auto
  note cp = COcopyConstant_ivec [of "butlast iv", where 'f = 'a]
  have t: "nat (prod_list ?ys) = length (tile_elems xs iv ?ys es)"
    using fy by (intro length_tile_elems [symmetric]) (simp add: shape_fits_def)
  have res: "COINTmakeConstant t (sh ?ys) (full (tile_elems xs iv ?ys es)) (nat (prod_list ?ys))
      = con t ?ys (tile_elems xs iv ?ys es)"
    by (rule COINTmakeConstant_con [OF t])
  show ?thesis
    using dim l tile_loop_run [OF assms] fst_b ts d1 cp mx res off
      off_vec_loop [of "length (butlast iv)" iv, OF le_dim, unfolded tk, where 'f = 'a]
      max_loop [OF assms(2) fit, where 'f = 'a] chunk m P b ext last_rd
      con_okD(4) [OF assms(1)] SHgetUnrLen_sh [OF fy] to_size_prod [OF fy]
    by (simp add: TileFromArray_def Let_def off_shape)
qed

subsection \<open>Take and drop\<close>

definition take_off :: "int \<Rightarrow> int \<Rightarrow> int" where
  "take_off x k = (if 0 \<le> k then 0 else x + k)"

fun take_ok :: "int list \<Rightarrow> int list \<Rightarrow> bool" where
  "take_ok (x # xs) (k # ks) = (\<bar>k\<bar> \<le> x \<and> (ks = [] \<or> k \<noteq> 0 \<and> take_ok xs ks))"
| "take_ok _ _ = False"

fun drop_ok :: "int list \<Rightarrow> int list \<Rightarrow> bool" where
  "drop_ok (x # xs) (k # ks) = (\<bar>k\<bar> \<le> x \<and> (ks = [] \<or> \<bar>k\<bar> \<noteq> x \<and> drop_ok xs ks))"
| "drop_ok _ _ = False"

abbreviation take_offs :: "int list \<Rightarrow> int list \<Rightarrow> int list" where
  "take_offs xs ks \<equiv> map2 take_off (take (length ks) xs) ks"

abbreviation drop_exts :: "int list \<Rightarrow> int list \<Rightarrow> int list" where
  "drop_exts xs ks \<equiv> map2 (\<lambda>x k. x - \<bar>k\<bar>) (take (length ks) xs) ks"

lemma take_ok_tile: "take_ok xs ks \<Longrightarrow> tile_at xs (take_offs xs ks) (map abs ks)"
  by (induction xs ks rule: take_ok.induct) (auto simp: take_off_def dest: tile_at_length)

lemma drop_ok_tile: "drop_ok xs ks \<Longrightarrow> tile_at xs (map (max 0) ks) (drop_exts xs ks)"
  by (induction xs ks rule: drop_ok.induct) (auto simp: max_def dest: tile_at_length)

lemma take_ok_bounds:
  assumes "take_ok xs ks \<or> drop_ok xs ks"
  shows "length ks \<le> length xs \<and> ks \<noteq> [] \<and> (\<forall>i<length ks. \<bar>ks ! i\<bar> \<le> xs ! i)"
proof -
  have "take_ok xs ks \<Longrightarrow> length ks \<le> length xs \<and> ks \<noteq> [] \<and> (\<forall>i<length ks. \<bar>ks ! i\<bar> \<le> xs ! i)"
    by (induction xs ks rule: take_ok.induct) (auto simp: nth_Cons split: nat.splits)
  moreover have "drop_ok xs ks \<Longrightarrow> length ks \<le> length xs \<and> ks \<noteq> [] \<and> (\<forall>i<length ks. \<bar>ks ! i\<bar> \<le> xs ! i)"
    by (induction xs ks rule: drop_ok.induct) (auto simp: nth_Cons split: nat.splits)
  ultimately show ?thesis using assms by blast
qed

lemma scalar_to_vector_ivec: "scalar_to_vector (ivec ks :: 'f const) = Inr (ivec ks)"
  by (simp add: scalar_to_vector_con)

lemma con_set_ints:
  "length ws = length vs \<Longrightarrow>
     (ivec vs :: 'f const)\<lparr>CONSTANT_ELEMS := full (map (CInt IInt) ws)\<rparr> = ivec ws"
  by (simp add: con_def)

lemma COtake_tile:
  fixes es :: "'a cval list"
  assumes "con_ok t xs es" and b: "length ks \<le> length xs \<and> ks \<noteq> [] \<and> (\<forall>i<length ks. \<bar>ks ! i\<bar> \<le> xs ! i)"
  shows "COtake (ivec ks) (con t xs es)
         = TileFromArray (ivec (take_offs xs ks)) (sh (map abs ks @ drop (length ks) xs)) (con t xs es)"
proof -
  note fit = con_okD(1) [OF assms(1)]
  have k: "\<bar>ks ! i\<bar> \<le> xs ! i" "xs ! i \<le> int_max" if "i < length ks" for i
    using that b in_int_fits [OF fit, of "xs ! i"] by auto
  have shp: "cfor 0 (int (length (map abs ks))) (\<lambda>i s. bindR (rd_int (full (map (CInt IInt) ks :: 'a cval list)) i)
      (\<lambda>c. bindR (ck_int \<bar>c\<bar>) (SHsetExtent s i))) (sh xs)
    = Inr (sh (map abs ks @ drop (length (map abs ks)) xs))"
  proof (rule extents_loop)
    fix i and zs :: "int list" assume i: "i < length (map abs ks)" "length zs = length xs"
    then have "ck_int \<bar>ks ! i\<bar> = Inr \<bar>ks ! i\<bar>" using k [of i] by (intro ck_int_ok) auto
    with i b show "bindR (rd_int (full (map (CInt IInt) ks :: 'a cval list)) (int i))
        (\<lambda>c. bindR (ck_int \<bar>c\<bar>) (SHsetExtent (sh zs) (int i))) = Inr (sh (zs[i := map abs ks ! i]))"
      by (simp add: rd_int_full SHsetExtent_sh)
  qed (use b in simp)
  have off: "cfor 0 (int (length ks)) (\<lambda>i v.
      bindR (SHgetExtent (sh xs) i) (\<lambda>shp_i. bindR (rd_int v i) (\<lambda>idx_i.
      bindR (if 0 \<le> idx_i then Inr 0 else ck_int (shp_i + idx_i)) (\<lambda>o'. wr v i (CInt IInt o')))))
      (full (map (CInt IInt) ks)) = Inr (full (map (CInt IInt) (take_offs xs ks) :: 'a cval list))"
  proof (rule inplace_loop)
    show "length (take_offs xs ks) = length ks" using b by simp
    fix i v assume i: "i < length ks" "v ! i = ks ! i" "length v = length ks"
    have "ck_int (xs ! i + ks ! i) = Inr (xs ! i + ks ! i)" if "ks ! i < 0"
      using that k [OF i(1)] by (intro ck_int_ok) auto
    moreover have "take_offs xs ks ! i = take_off (xs ! i) (ks ! i)" using i b by simp
    ultimately show "bindR (SHgetExtent (sh xs) (int i)) (\<lambda>shp_i.
        bindR (rd_int (full (map (CInt IInt) v) :: 'a cval cvec) (int i)) (\<lambda>idx_i.
        bindR (if 0 \<le> idx_i then Inr 0 else ck_int (shp_i + idx_i)) (\<lambda>o'.
          wr (full (map (CInt IInt) v)) (int i) (CInt IInt o'))))
      = Inr (full (map (CInt IInt) (v[i := take_offs xs ks ! i])))"
      using i b by (simp add: SHgetExtent_sh rd_int_full wr_ints take_off_def)
  qed
  have upd: "(ivec ks :: 'a const)\<lparr>CONSTANT_ELEMS := full (map (CInt IInt) (take_offs xs ks))\<rparr>
      = ivec (take_offs xs ks)" using b by (intro con_set_ints) simp
  have "0 < length ks" using b by simp
  with b shp off upd show ?thesis
    by (simp only: COtake_def scalar_to_vector_ivec bindRO_simps con_sel CONSTANT_DIM_con
        length_map COcopyConstant_ivec SHcopyShape_sh checkO_simps if_True) simp
qed

lemma COtake_con [const]:
  assumes "con_ok t xs es" and "take_ok xs ks"
  shows "COtake (ivec ks) (con t xs es)
         = Some (Inr (con t (map abs ks @ drop (length ks) xs)
             (tile_elems xs (take_offs xs ks) (map abs ks @ drop (length ks) xs) es)))"
proof -
  note b = take_ok_bounds [OF disjI1 [OF assms(2)]]
  have l: "length (take_offs xs ks) = length ks" using b by simp
  show ?thesis
    unfolding COtake_tile [OF assms(1) b]
    using TileFromArray_con [OF assms(1) take_ok_tile [OF assms(2)], unfolded l] b by simp
qed

lemma COdrop_con [const]:
  assumes "con_ok t xs es" and "drop_ok xs ks"
  shows "COdrop (ivec ks) (con t xs es)
         = Some (Inr (con t (drop_exts xs ks @ drop (length ks) xs)
             (tile_elems xs (map (max 0) ks) (drop_exts xs ks @ drop (length ks) xs) es)))"
proof -
  note fit = con_okD(1) [OF assms(1)] and b = take_ok_bounds [OF disjI2 [OF assms(2)]]
  have k: "\<bar>ks ! i\<bar> \<le> xs ! i" "xs ! i \<le> int_max" if "i < length ks" for i
    using that b in_int_fits [OF fit, of "xs ! i"] by auto
  have lq: "length (drop_exts xs ks) = length ks" using b by simp
  have shp: "cfor 0 (int (length (drop_exts xs ks))) (\<lambda>i s. bindR (SHgetExtent s i) (\<lambda>e.
      bindR (rd_int (full (map (CInt IInt) ks :: 'a cval list)) i) (\<lambda>c. bindR (ck_int \<bar>c\<bar>) (\<lambda>m.
      bindR (ck_int (e - m)) (SHsetExtent s i))))) (sh xs)
    = Inr (sh (drop_exts xs ks @ drop (length (drop_exts xs ks)) xs))"
  proof (rule extents_loop)
    fix i zs assume i: "i < length (drop_exts xs ks)" "zs ! i = xs ! i" "length zs = length xs"
    then have "ck_int \<bar>ks ! i\<bar> = Inr \<bar>ks ! i\<bar>" "ck_int (xs ! i - \<bar>ks ! i\<bar>) = Inr (xs ! i - \<bar>ks ! i\<bar>)"
      using k [of i] by (auto intro!: ck_int_ok)
    with i b show "bindR (SHgetExtent (sh zs) (int i)) (\<lambda>e.
        bindR (rd_int (full (map (CInt IInt) ks :: 'a cval list)) (int i)) (\<lambda>c. bindR (ck_int \<bar>c\<bar>) (\<lambda>m.
        bindR (ck_int (e - m)) (SHsetExtent (sh zs) (int i)))))
      = Inr (sh (zs[i := drop_exts xs ks ! i]))"
      by (simp add: rd_int_full SHsetExtent_sh SHgetExtent_sh)
  qed (use b in simp)
  have off: "cfor 0 (int (length ks)) (\<lambda>i v. bindR (rd_int v i) (\<lambda>idx_i.
      wr v i (CInt IInt (if idx_i < 0 then 0 else idx_i)))) (full (map (CInt IInt) ks))
    = Inr (full (map (CInt IInt) (map (max 0) ks) :: 'a cval list))"
    by (rule inplace_loop) (auto simp: rd_int_full wr_ints max_def)
  have l: "length (map (max 0) ks) = length ks" by simp
  note tile = TileFromArray_con [OF assms(1) drop_ok_tile [OF assms(2)], unfolded l]
  have upd: "(ivec ks :: 'a const)\<lparr>CONSTANT_ELEMS := full (map (CInt IInt) (map (max 0) ks))\<rparr>
      = ivec (map (max 0) ks)" by (intro con_set_ints) simp
  have "0 < length ks" using b by simp
  with b shp [unfolded lq] off upd tile show ?thesis
    by (simp only: COdrop_def scalar_to_vector_ivec bindRO_simps con_sel CONSTANT_DIM_con
        length_map COcopyConstant_ivec SHcopyShape_sh checkO_simps if_True) simp
qed

subsection \<open>Over-selection with a vector of index vectors\<close>

lemma nth_concat_rows:
  "\<forall>r\<in>set rs. length r = m \<Longrightarrow> c < length rs \<Longrightarrow> i < m \<Longrightarrow> concat rs ! (c * m + i) = rs ! c ! i"
proof (induction rs arbitrary: c)
  case (Cons r rs)
  then show ?case by (cases c) (auto simp: nth_append add.assoc)
qed simp

lemma length_concat_rows: "\<forall>r\<in>set rs. length r = m \<Longrightarrow> length (concat rs) = length rs * m"
  by (induction rs) auto

text \<open>
  The offset that the code computes for an index vector: every element is multiplied with the
  extent of the next axis only, the last one with 1.
\<close>

definition over_offs :: "int list \<Rightarrow> int list \<Rightarrow> int" where
  "over_offs xs iv = (\<Sum>i<length iv. iv ! i * (if i + 1 < length iv then xs ! (i + 1) else 1))"

lemma over_offs_short:
  assumes "length iv \<le> 2" and "length iv \<le> length xs"
  shows "over_offs xs iv * prod_list (drop (length iv) xs) = offs xs iv"
proof -
  consider "iv = []" | i where "iv = [i]" | i j where "iv = [i, j]"
    using assms(1) by (cases iv; cases "tl iv"; cases "tl (tl iv)") auto
  then show ?thesis
    using assms(2) by cases (auto simp: over_offs_def Suc_le_length_iff lessThan_Suc
      lessThan_nat_numeral lessThan_Suc_atMost algebra_simps)
qed

lemma over_from_rows:
  assumes "shape_fits xs" and "\<forall>r\<in>set rs. length r = m" and "c < length rs"
    and "valid_idx xs (rs ! c)" and "over_offs xs (rs ! c) \<le> int_max"
  shows "over_from (sh xs) (int m) (full (map (CInt IInt) (concat rs)) :: 'f cval cvec) (int (c * m))
         = Inr (nat (over_offs xs (rs ! c)))"
proof -
  let ?iv = "rs ! c"
  have l: "length ?iv = m" "m \<le> length xs"
    using assms valid_idx_length [OF assms(4)] by auto
  let ?trm = "\<lambda>i. ?iv ! i * (if i + 1 < m then xs ! (i + 1) else 1)"
  have trm: "0 \<le> ?trm i" if "i < m" for i
    using valid_idx_nth [OF assms(4), of i] that l shape_fits_nth_nonneg [OF assms(1), of "i + 1"] by auto
  have part: "0 \<le> (\<Sum>i<k. ?trm i)" "(\<Sum>i<k. ?trm i) \<le> over_offs xs ?iv" if "k \<le> m" for k
  proof -
    show "0 \<le> (\<Sum>i<k. ?trm i)" using trm that by (intro sum_nonneg) auto
    have "(\<Sum>i<k. ?trm i) \<le> (\<Sum>i<m. ?trm i)" using trm that by (intro sum_mono2) auto
    then show "(\<Sum>i<k. ?trm i) \<le> over_offs xs ?iv" using l by (simp add: over_offs_def)
  qed
  let ?f = "\<lambda>i off. bindR (if i < int m - 1 then SHgetExtent (sh xs) (i + 1) else Inr 1) (\<lambda>row.
      bindR (rd_int (full (map (CInt IInt) (concat rs)) :: 'f cval cvec) (int (c * m) + i))
        (\<lambda>x. bindR (ck_int (x * row)) (\<lambda>p. Inr (to_size (int off + p)))))"
  let ?g = "\<lambda>j. nat (\<Sum>i<nat j. ?trm i)"
  have "?f j (?g j) = Inr (?g (j + 1))" if j: "0 \<le> j" "j < int m" for j
  proof -
    obtain k where k: "j = int k" "k < m" using j by (metis nonneg_int_cases of_nat_less_iff)
    have row: "(if j < int m - 1 then SHgetExtent (sh xs) (j + 1) else Inr 1)
        = Inr (if k + 1 < m then xs ! (k + 1) else 1)"
      using k l by (auto simp: SHgetExtent_sh nat_add_distrib)
    have "c * m + m \<le> length rs * m" using assms(3) by (metis add.commute mult_Suc mult_le_mono1 Suc_leI)
    then have idx: "c * m + k < length (concat rs)" using length_concat_rows [OF assms(2)] k by simp
    have "int (c * m + k) < int (length (concat rs))" using idx by (simp only: of_nat_less_iff)
    then have "rd_int (full (map (CInt IInt) (concat rs)) :: 'f cval cvec) (int (c * m + k))
        = Inr (concat rs ! (c * m + k))"
      by (subst rd_int_full) (simp_all only: nat_int of_nat_0_le_iff)
    moreover have "int (c * m) + j = int (c * m + k)" using k by simp
    ultimately have rd: "rd_int (full (map (CInt IInt) (concat rs)) :: 'f cval cvec) (int (c * m) + j)
        = Inr (?iv ! k)"
      using nth_concat_rows [OF assms(2,3) k(2)] by simp
    have "?trm k \<le> (\<Sum>i<Suc k. ?trm i)" using part(1) [of k] k by simp
    then have t: "0 \<le> ?trm k" "?trm k \<le> int_max"
      using trm [OF k(2)] part(2) [of "Suc k"] k assms(5) by auto
    have s: "(\<Sum>i<Suc k. ?trm i) = (\<Sum>i<k. ?trm i) + ?trm k" by simp
    have "to_size ((\<Sum>i<k. ?trm i) + ?trm k) = nat (\<Sum>i<Suc k. ?trm i)"
      unfolding s [symmetric] using part [of "Suc k"] k assms(5) by (intro to_size_ok) auto
    moreover have "?f j (?g j) = Inr (to_size (int (?g j) + ?trm k))"
      using row rd ck_int_ok [OF t] by (simp only: bindR_simps)
    moreover have "int (?g j) = (\<Sum>i<k. ?trm i)"
      unfolding k(1) nat_int using part(1) [of k] k(2) by (intro int_nat_eq [THEN trans] if_P) simp
    moreover have "nat (j + 1) = Suc k" using k by simp
    ultimately show ?thesis by (simp only:)
  qed
  from cfor_traj [of 0 "int m" ?f ?g, OF _ this] show ?thesis
    using l by (simp add: over_from_def over_offs_def)
qed

lemma over_offs_nonneg:
  assumes "shape_fits xs" and "valid_idx xs r" shows "0 \<le> over_offs xs r"
  unfolding over_offs_def
proof (rule sum_nonneg)
  fix i assume i: "i \<in> {..<length r}"
  have "0 \<le> xs ! (i + 1)" if "i + 1 < length r"
    using that valid_idx_length [OF assms(2)] by (intro shape_fits_nth_nonneg [OF assms(1)]) simp
  then show "0 \<le> r ! i * (if i + 1 < length r then xs ! (i + 1) else 1)"
    using valid_idx_nth [OF assms(2), of i] i by auto
qed

lemma frame_pos:
  assumes "c < n" and "int (n * m) \<le> int_max" and "int n \<le> int_max"
  shows "over_idx_pos (sh [int n]) 1 (full [int c]) (int m) = Inr (int (c * m))"
proof -
  have "c * m \<le> n * m" using assms(1) by simp
  then have "ck_int (int (c * m)) = Inr (int (c * m))" using assms(2) by (intro ck_int_ok) linarith+
  moreover have "ck_int (int c) = Inr (int c)" using assms by (intro ck_int_ok) auto
  ultimately show ?thesis by (simp add: over_idx_pos_def cfor_step rd_def)
qed

lemma incCounter_single:
  assumes "c < n" and "int n \<le> int_max"
  shows "incCounter (full [int c]) (full [int n]) 1
         = Inr (if Suc c = n then (True, full [0]) else (False, full [int (Suc c)]))"
proof -
  have "ck_int (int n - 1) = Inr (int n - 1)" "ck_int (int c + 1) = Inr (int c + 1)"
    using assms by (auto intro!: ck_int_ok)
  with assms(1) show ?thesis
    by (auto simp: incCounter_def cdown_step rd_def wr_def)
qed

lemma over_loop_rows:
  fixes es :: "'f cval list" and rs :: "int list list"
  assumes "con_ok t xs es" and "\<forall>r\<in>set rs. length r = m" and "m \<le> length xs"
    and "\<forall>r\<in>set rs. valid_idx xs r
           \<and> over_offs xs r * prod_list (drop m xs) + prod_list (drop m xs) \<le> int (length es)
           \<and> over_offs xs r \<le> int_max"
    and "int (length rs * m) \<le> int_max" and "int (length rs) \<le> int_max"
    and "int (length rs) * prod_list (drop m xs) \<le> int_max" and "c < length rs"
  shows "over_loop (sh [int (length rs)]) 1 (full [int (length rs)]) (int m)
           (full (map (CInt IInt) (concat rs))) (nat (prod_list (drop m xs))) (con t xs es)
           (full [int c])
           (full (concat (map (\<lambda>r. take (nat (prod_list (drop m xs)))
                    (drop (nat (over_offs xs r * prod_list (drop m xs))) es)) (take c rs)))
            @ replicate ((length rs - c) * nat (prod_list (drop m xs))) None)
           (c * nat (prod_list (drop m xs)))
         = Some (Inr (full (concat (map (\<lambda>r. take (nat (prod_list (drop m xs)))
                    (drop (nat (over_offs xs r * prod_list (drop m xs))) es)) rs))))"
    (is "over_loop ?fs 1 ?ub _ ?ie ?p _ _ _ _ = _")
  using assms(8)
proof (induction "length rs - c" arbitrary: c)
  case (Suc k)
  let ?P = "prod_list (drop m xs)"
  let ?blk = "\<lambda>r. take ?p (drop (nat (over_offs xs r * ?P)) es)"
  let ?pre = "concat (map ?blk (take c rs))"
  let ?r = "rs ! c"
  have r: "?r \<in> set rs" using Suc.prems by simp
  note fit = con_okD(1) [OF assms(1)]
  have P: "0 \<le> ?P" "?P \<le> int_max" using shape_fits_prod [OF shape_fits_drop [OF fit]] by auto
  have o: "0 \<le> over_offs xs r" if "r \<in> set rs" for r
    using assms(4) that by (intro over_offs_nonneg [OF fit]) auto
  have b: "nat (over_offs xs r * ?P) + ?p \<le> length es" if "r \<in> set rs" for r
  proof -
    have "0 \<le> over_offs xs r * ?P" using o [OF that] P by simp
    moreover have "over_offs xs r * ?P + ?P \<le> int (length es)" using assms(4) that by blast
    ultimately show ?thesis using P by linarith
  qed
  have oP: "0 \<le> over_offs xs ?r * ?P" "over_offs xs ?r * ?P \<le> int_max"
  proof -
    show "0 \<le> over_offs xs ?r * ?P" using o [OF r] P by simp
    have "over_offs xs ?r * ?P + ?P \<le> int (length es)" using assms(4) r by blast
    then show "over_offs xs ?r * ?P \<le> int_max" using P con_ok_le_int_max [OF assms(1)] by linarith
  qed
  have blen: "length (?blk r) = ?p" if "r \<in> set rs" for r
    using b [OF that] by simp
  have "length ?pre = length (take c rs) * ?p"
    unfolding length_concat map_map comp_def
    by (rule sum_list_const_fun) (meson blen in_set_takeD)
  then have lpre: "length ?pre = c * ?p" using Suc.prems by simp
  have from_off: "to_size (int (nat (over_offs xs ?r)) * int ?p) = nat (over_offs xs ?r * ?P)"
    using o [OF r] P oP by (simp add: to_size_ok)
  have n: "(length rs - c) * ?p = ?p + (length rs - Suc c) * ?p"
    using Suc.prems by (metis Suc_diff_Suc mult_Suc)
  have cp: "COINTcopyElemsFromCVToCV t (full es) (int (nat (over_offs xs ?r * ?P))) ?p
      (full ?pre @ replicate ((length rs - c) * ?p) None) (int (c * ?p))
      = Inr (full (?pre @ ?blk ?r) @ replicate ((length rs - Suc c) * ?p) None)"
    unfolding n by (rule copy_block [OF con_okD(4) [OF assms(1)] b [OF r] lpre])
  have pre: "?pre @ ?blk ?r = concat (map ?blk (take (Suc c) rs))"
    using Suc.prems by (simp add: take_Suc_conv_app_nth)
  have "over_offs xs ?r \<le> int_max" "valid_idx xs ?r" using assms(4) r by auto
  note fo = over_from_rows [OF fit assms(2) Suc.prems this(2,1), where 'f = 'f]
  have "int (Suc c) * ?P \<le> int (length rs) * ?P" using Suc.prems P by (intro mult_right_mono) auto
  moreover have "int (c * ?p + ?p) = int (Suc c) * ?P" using P by (simp add: algebra_simps)
  ultimately have to: "to_size (int (c * ?p + ?p)) = Suc c * ?p"
    using assms(7) by (subst to_size_length) auto
  have step: "over_loop ?fs 1 ?ub (int m) ?ie ?p (con t xs es) (full [int c])
      (full ?pre @ replicate ((length rs - c) * ?p) None) (c * ?p)
    = (if Suc c = length rs then Some (Inr (full (?pre @ ?blk ?r) @ replicate ((length rs - Suc c) * ?p) None))
       else over_loop ?fs 1 ?ub (int m) ?ie ?p (con t xs es) (full [int (Suc c)])
              (full (?pre @ ?blk ?r) @ replicate ((length rs - Suc c) * ?p) None) (Suc c * ?p))"
    by (subst over_loop.simps,
        simp only: frame_pos [OF Suc.prems assms(5,6)] fo bindRO_simps con_sel from_off cp
        incCounter_single [OF Suc.prems assms(6)] to fst_conv snd_conv if_distrib [of fst]
        if_distrib [of snd], cases "Suc c = length rs"; simp)
  show ?case
  proof (cases "Suc c = length rs")
    case True
    then have "take (Suc c) rs = rs" by simp
    then show ?thesis unfolding step pre using True by simp
  next
    case False
    have "k = length rs - Suc c" "Suc c < length rs" using Suc.hyps(2) Suc.prems False by auto
    from Suc.hyps(1) [OF this] show ?thesis unfolding step pre using False by simp
  qed
qed simp

lemma frame_init:
  "cfor 0 1 (\<lambda>i cu. bindR (wr (fst cu) i 0) (\<lambda>c.
     bindR (SHgetExtent (sh [n]) i) (\<lambda>e. bindR (wr (snd cu) i e) (\<lambda>u. Inr (c, u)))))
     (allocv 1, allocv 1) = Inr (full [0 :: int], full [n])"
  by (simp add: cfor_step alloc1_wr SHgetExtent_sh)

lemma COoverSel_rows:
  fixes es :: "'f cval list" and rs :: "int list list"
  assumes "con_ok t xs es" and "\<forall>r\<in>set rs. length r = m" and "m \<le> length xs" and "1 \<le> m"
    and "\<forall>r\<in>set rs. valid_idx xs r
           \<and> over_offs xs r * prod_list (drop m xs) + prod_list (drop m xs) \<le> int (length es)
           \<and> over_offs xs r \<le> int_max"
    and "int (length rs * m) \<le> int_max" and "shape_fits (int (length rs) # drop m xs)" and "rs \<noteq> []"
  shows "COoverSel (con T_int [int (length rs), int m] (map (CInt IInt) (concat rs))) (con t xs es)
         = Some (Inr (con t (int (length rs) # drop m xs)
             (concat (map (\<lambda>r. take (nat (prod_list (drop m xs)))
                (drop (nat (over_offs xs r * prod_list (drop m xs))) es)) rs))))"
proof -
  let ?P = "prod_list (drop m xs)"
  let ?n = "length rs"
  let ?blk = "\<lambda>r. take (nat ?P) (drop (nat (over_offs xs r * ?P)) es)"
  note fit = con_okD(1) [OF assms(1)]
  have fd: "shape_fits (drop m xs)" using fit by simp
  have P: "0 \<le> ?P" "?P \<le> int_max" using shape_fits_prod [OF fd] by auto
  have N: "int ?n \<le> int_max" "int ?n * ?P \<le> int_max"
    using in_int_fits [OF assms(7)] shape_fits_prod [OF assms(7)] by auto
  have bl: "length (?blk r) = nat ?P" if "r \<in> set rs" for r
  proof -
    have "0 \<le> over_offs xs r" using assms(5) that by (intro over_offs_nonneg [OF fit]) auto
    then have "0 \<le> over_offs xs r * ?P" using P by simp
    moreover have "over_offs xs r * ?P + ?P \<le> int (length es)" using assms(5) that by blast
    ultimately have "nat (over_offs xs r * ?P) + nat ?P \<le> length es" using P by linarith
    then show ?thesis by simp
  qed
  have lc: "length (concat (map ?blk rs)) = ?n * nat ?P"
    unfolding length_concat map_map comp_def by (rule sum_list_const_fun) (rule bl)
  have nil: "full (map (CInt IInt) (concat rs) :: 'f cval list) \<noteq> []"
    using assms(2,4,8) by (cases rs) auto
  have NP: "0 \<le> int ?n * ?P" using P by simp
  then have "iconv IInt (int ?n * ?P) = int ?n * ?P"
    using N by (intro iconv_id) (simp add: in_ity_IInt)
  then have rl: "to_size (iconv IInt (int ?n * ?P)) = ?n * nat ?P"
    using N P NP by (simp add: to_size_ok nat_mult_distrib)
  have res: "COINTmakeConstant t (sh (int ?n # drop m xs)) (full (concat (map ?blk rs))) (?n * nat ?P)
      = con t (int ?n # drop m xs) (concat (map ?blk rs))"
    by (rule COINTmakeConstant_con) (simp only: lc)
  have "0 < ?n" using assms(8) by simp
  note loop = over_loop_rows [OF assms(1-3,5,6) N this]
  have shp: "SHdropFromShape (- 1) (sh [int ?n, int m]) = Inr (sh [int ?n])"
    "SHdropFromShape (int m) (sh xs) = Inr (sh (drop m xs))"
    "SHgetExtent (sh [int ?n, int m]) 1 = Inr (int m)"
    "SHgetUnrLen (sh (int ?n # drop m xs)) = Inr (int ?n * ?P)"
    using assms(3) SHgetUnrLen_sh [OF assms(7)] by (simp_all add: shape)
  show ?thesis
    using loop nil rl res shp frame_init [of "int ?n"] P assms(3)
      con_okD(4) [OF assms(1)] SHgetUnrLen_sh [OF fd] to_size_prod [OF fd]
    by (simp add: COoverSel_def Let_def SHappendShapes_sh SHgetDim_sh)
qed

lemma sub_elems_row:
  assumes "con_ok t (int (length bs) # ys) (concat bs)" and "\<forall>b\<in>set bs. length b = nat (prod_list ys)"
    and "c < length bs"
  shows "sub_elems (int (length bs) # ys) [int c] (concat bs) = bs ! c"
proof -
  have nn: "0 \<le> prod_list ys" using con_okD(1) [OF assms(1)] by (intro prod_list_nonneg) (simp add: shape_fits_def)
  let ?p = "nat (prod_list ys)"
  have o: "nat (int c * prod_list ys) = c * ?p" using nn by (simp add: nat_mult_distrib)
  have "concat bs = concat (take c bs) @ bs ! c @ concat (drop (Suc c) bs)"
    using assms(3) by (metis concat.simps(2) concat_append id_take_nth_drop)
  moreover have "length (concat (take c bs)) = c * ?p"
    using length_concat_rows [of "take c bs" ?p] assms(2,3) by (auto dest: in_set_takeD)
  moreover have "length (bs ! c) = ?p" using assms(2,3) by simp
  ultimately show ?thesis by (simp add: sub_elems_def o)
qed

subsection \<open>Elements of a tile\<close>

lemma in_box_space: "in_box (map (\<lambda>x. (0, x - 1)) ys) jv \<longleftrightarrow> valid_idx ys jv \<and> length jv = length ys"
proof (induction ys jv rule: valid_idx.induct)
  case (1 xs)
  then show ?case by (cases xs) auto
qed auto

lemma idx_space_iff: "jv \<in> set (idx_space ys) \<longleftrightarrow> valid_idx ys jv \<and> length jv = length ys"
  by (simp add: idx_space_def in_box_iff in_box_space)

lemma valid_full_pos: "valid_idx xs iv \<Longrightarrow> length iv = length xs \<Longrightarrow> \<forall>x\<in>set xs. 0 < x"
  using valid_idx_pos [of xs iv] by simp

lemma idx_space_nth:
  assumes "valid_idx ys jv" and "length jv = length ys"
  shows "idx_space ys ! nat (offs ys jv) = jv" and "nat (offs ys jv) < length (idx_space ys)"
proof -
  note pos = valid_full_pos [OF assms]
  then have nn: "\<forall>x\<in>set ys. 0 \<le> x" by (auto intro: less_imp_le)
  have b: "0 \<le> offs ys jv" "offs ys jv < prod_list ys"
    using offs_bounds [OF assms(1) nn] assms(2) by auto
  then show l: "nat (offs ys jv) < length (idx_space ys)" using length_idx_space [OF nn] by linarith
  let ?iv = "idx_space ys ! nat (offs ys jv)"
  have "?iv \<in> set (idx_space ys)" using l by simp
  then have v: "valid_idx ys ?iv" "length ?iv = length jv" using assms(2) by (simp_all add: idx_space_iff)
  have "offs ys ?iv = map (offs ys) (idx_space ys) ! nat (offs ys jv)" using l by simp
  also have "\<dots> = offs ys jv" using offs_idx_space [OF nn] b by simp
  finally show "?iv = jv" using offs_inj [OF v(1) assms(1) v(2) pos] by simp
qed

lemma shift_valid:
  "tile_at xs iv qs \<Longrightarrow> valid_idx (qs @ drop (length iv) xs) jv \<Longrightarrow> valid_idx xs (shift iv jv)"
proof (induction xs iv qs arbitrary: jv rule: tile_at.induct)
  case (1 x xs i iv q qs)
  then show ?case by (cases jv) (auto split: if_splits)
qed simp_all

lemma length_shift [simp]: "length (shift iv jv) = length jv"
  by (induction iv jv rule: shift.induct) auto

lemma tile_sel:
  assumes "con_ok t xs es" and "tile_at xs iv qs"
  shows "con_ok t (qs @ drop (length iv) xs) (tile_elems xs iv (qs @ drop (length iv) xs) es)"
    and "valid_idx (qs @ drop (length iv) xs) jv \<Longrightarrow> length jv = length xs \<Longrightarrow>
       COsel (ivec jv) (con t (qs @ drop (length iv) xs) (tile_elems xs iv (qs @ drop (length iv) xs) es))
       = COsel (ivec (shift iv jv)) (con t xs es)"
proof -
  let ?ys = "qs @ drop (length iv) xs"
  have l: "length ?ys = length xs" using tile_at_length [OF assms(2)] by simp
  note fit = tile_shape_fits [OF assms(2) con_okD(1) [OF assms(1)]]
  then have nn: "\<forall>x\<in>set ?ys. 0 \<le> x" by (simp add: shape_fits_def)
  have "es ! nat (offs xs (shift iv jv)) \<in> set es"
    if "jv \<in> set (idx_space ?ys)" for jv
    using that l sub_elems_full(2) [OF assms(1) shift_valid [OF assms(2), of jv]]
    by (simp add: idx_space_iff)
  then have "set (tile_elems xs iv ?ys es) \<subseteq> set es" by (auto simp: tile_elems_def)
  then show ok: "con_ok t ?ys (tile_elems xs iv ?ys es)"
    using assms(1) fit length_tile_elems [OF nn, of xs iv es] prod_list_nonneg [OF nn]
    by (auto simp: con_ok_def cells_ok_def)
  assume j: "valid_idx ?ys jv" "length jv = length xs"
  note s = shift_valid [OF assms(2) j(1)]
  have "tile_elems xs iv ?ys es ! nat (offs ?ys jv) = es ! nat (offs xs (shift iv jv))"
    using idx_space_nth [OF j(1)] j l by (simp add: tile_elems_def)
  then show "COsel (ivec jv) (con t ?ys (tile_elems xs iv ?ys es))
      = COsel (ivec (shift iv jv)) (con t xs es)"
    unfolding COsel_con [OF ok j(1)] COsel_con [OF assms(1) s]
    using sub_elems_full(1) [OF ok j(1)] sub_elems_full(1) [OF assms(1) s] j l by simp
qed

lemma tile_single:
  assumes "con_ok t (x # ys) es" and "0 \<le> l" and "0 \<le> q" and "l + q \<le> x"
  shows "tile_elems (x # ys) [l] (q # ys) es
         = take (nat (q * prod_list ys)) (drop (nat (l * prod_list ys)) es)"
proof -
  have t: "tile_at (x # ys) [l] [q]" using assms by simp
  have nn: "\<forall>x\<in>set (x # ys). 0 \<le> x" using con_okD(1) [OF assms(1)] by (simp add: shape_fits_def)
  from tile_blocks [OF t nn, of 0 es] con_okD(2) [OF assms(1)] show ?thesis
    by (simp add: tile_elems_def tile_bounds_def)
qed

subsection \<open>Properties\<close>

text \<open>
  C31: \<open>COtake\<close> returns, for every index vector that is not longer than the shape and takes no more than each
  axis has (and at least one element of every axis but the last one named): the result is a well
  formed constant whose outer extents are the absolute values of the index vector, and its element at
  an index is the element of the argument at that index, counted from the end of an axis
  where the index vector is negative.
\<close>

theorem COtake_elements:
  assumes "con_ok t xs es" and "take_ok xs ks"
    and "valid_idx (map abs ks @ drop (length ks) xs) jv" and "length jv = length xs"
  shows "\<exists>b. COtake (ivec ks) (con t xs es) = Some (Inr b) \<and> co_ok b
     \<and> COgetShape b = sh (map abs ks @ drop (length ks) xs)
     \<and> COsel (ivec jv) b
       = COsel (ivec (shift (map2 take_off (take (length ks) xs) ks) jv)) (con t xs es)"
proof -
  note b = take_ok_bounds [OF disjI1 [OF assms(2)]]
  have l: "length (take_offs xs ks) = length ks" using b by simp
  note ts = tile_sel [OF assms(1) take_ok_tile [OF assms(2)], unfolded l]
  show ?thesis unfolding COtake_con [OF assms(1,2)]
    using ts(1) ts(2) [OF assms(3,4)] by simp
qed

lemma COtake_elements_witness:
  "\<exists>b. COtake (ivec [-1, 1]) (con T_int [2, 2] (map (CInt IInt) [1, 2, 3, 4]) :: int const) = Some (Inr b)
     \<and> COsel (ivec [0, 0]) b = COsel (ivec [1, 0]) (con T_int [2, 2] (map (CInt IInt) [1, 2, 3, 4]))"
  using COtake_elements [of T_int "[2, 2]" "map (CInt IInt) [1, 2, 3, 4] :: int cval list" "[-1, 1]" "[0, 0]"]
  by (auto simp: con_eval take_off_def)

text \<open>
  \<open>COdrop\<close> returns, for every index vector that drops no more than each axis has (and not all of an axis but
  the last one named): the outer extents shrink by the absolute values of the index vector, and
  the element at an index is the element of the argument at the index advanced by the
  positive entries.
\<close>

theorem COdrop_elements:
  assumes "con_ok t xs es" and "drop_ok xs ks"
    and "valid_idx (map2 (\<lambda>x k. x - \<bar>k\<bar>) (take (length ks) xs) ks @ drop (length ks) xs) jv"
    and "length jv = length xs"
  shows "\<exists>b. COdrop (ivec ks) (con t xs es) = Some (Inr b) \<and> co_ok b
     \<and> COgetShape b = sh (map2 (\<lambda>x k. x - \<bar>k\<bar>) (take (length ks) xs) ks @ drop (length ks) xs)
     \<and> COsel (ivec jv) b = COsel (ivec (shift (map (max 0) ks) jv)) (con t xs es)"
proof -
  have l: "length (map (max 0) ks) = length ks" by simp
  note ts = tile_sel [OF assms(1) drop_ok_tile [OF assms(2)], unfolded l]
  show ?thesis unfolding COdrop_con [OF assms(1,2)]
    using ts(1) ts(2) [OF assms(3,4)] by simp
qed

lemma COdrop_elements_witness:
  "\<exists>b. COdrop (ivec [1]) (con T_int [2, 2] (map (CInt IInt) [1, 2, 3, 4]) :: int const) = Some (Inr b)
     \<and> COsel (ivec [0, 1]) b = COsel (ivec [1, 1]) (con T_int [2, 2] (map (CInt IInt) [1, 2, 3, 4]))"
  using COdrop_elements [of T_int "[2, 2]" "map (CInt IInt) [1, 2, 3, 4] :: int cval list" "[1]" "[0, 1]"]
  by (auto simp: con_eval)

text \<open>
  C32: Along the outermost axis \<open>COtake\<close> and \<open>COdrop\<close> split an array that \<open>COcat\<close> puts together again:
  for every count between minus and plus the extent they return two constants whose concatenation
  is the argument (the dropped part first when the count is negative).
\<close>

theorem COcat_take_drop:
  assumes "con_ok t (x # ys) es" and "\<bar>k\<bar> \<le> x"
  shows "\<exists>p r. COtake (ivec [k]) (con t (x # ys) es) = Some (Inr p)
     \<and> COdrop (ivec [k]) (con t (x # ys) es) = Some (Inr r)
     \<and> (if 0 \<le> k then COcat p r else COcat r p) = Inr (con t (x # ys) es)"
proof -
  let ?P = "prod_list ys"
  note fit = con_okD(1) [OF assms(1)]
  have x: "x \<le> int_max" using in_int_fits [OF fit] by simp
  have P: "0 \<le> ?P" using fit by (intro prod_list_nonneg) (simp add: shape_fits_def)
  have ok: "take_ok (x # ys) [k]" "drop_ok (x # ys) [k]" using assms(2) by simp_all
  have t: "tile_elems (x # ys) [take_off x k] (\<bar>k\<bar> # ys) es
      = take (nat (\<bar>k\<bar> * ?P)) (drop (nat (take_off x k * ?P)) es)"
    using assms by (intro tile_single) (auto simp: take_off_def)
  have d: "tile_elems (x # ys) [max 0 k] ((x - \<bar>k\<bar>) # ys) es
      = take (nat ((x - \<bar>k\<bar>) * ?P)) (drop (nat (max 0 k * ?P)) es)"
    using assms by (intro tile_single) auto
  have ct: "con_ok t (\<bar>k\<bar> # ys) (tile_elems (x # ys) [take_off x k] (\<bar>k\<bar> # ys) es)"
    using tile_sel(1) [OF assms(1) take_ok_tile [OF ok(1)]] by simp
  have cd: "con_ok t ((x - \<bar>k\<bar>) # ys) (tile_elems (x # ys) [max 0 k] ((x - \<bar>k\<bar>) # ys) es)"
    using tile_sel(1) [OF assms(1) drop_ok_tile [OF ok(2)]] by simp
  have le: "length es = nat (x * ?P)" using con_ok_length [OF assms(1)] by simp
  have sum: "nat (j * ?P) + nat ((x - j) * ?P) = nat (x * ?P)" if "0 \<le> j" "j \<le> x" for j
  proof -
    have "0 \<le> j * ?P" "0 \<le> (x - j) * ?P" using that P by simp_all
    then show ?thesis by (simp add: nat_add_distrib [symmetric] algebra_simps)
  qed
  have split: "take (nat (j * ?P)) es @ take (nat ((x - j) * ?P)) (drop (nat (j * ?P)) es) = es"
    if "0 \<le> j" "j \<le> x" for j
    using sum [OF that] le by (metis append_take_drop_id take_add take_all order_refl)
  have tk: "COtake (ivec [k]) (con t (x # ys) es)
      = Some (Inr (con t (\<bar>k\<bar> # ys) (take (nat (\<bar>k\<bar> * ?P)) (drop (nat (take_off x k * ?P)) es))))"
    using COtake_con [OF assms(1) ok(1)] t by simp
  have dr: "COdrop (ivec [k]) (con t (x # ys) es)
      = Some (Inr (con t ((x - \<bar>k\<bar>) # ys) (take (nat ((x - \<bar>k\<bar>) * ?P)) (drop (nat (max 0 k * ?P)) es))))"
    using COdrop_con [OF assms(1) ok(2)] d by simp
  show ?thesis
  proof (cases "0 \<le> k")
    case True
    have "COcat (con t (k # ys) (take (nat (k * ?P)) es))
        (con t ((x - k) # ys) (take (nat ((x - k) * ?P)) (drop (nat (k * ?P)) es))) = Inr (con t (x # ys) es)"
      using COcat_con [of t "\<bar>k\<bar>" ys _ "x - \<bar>k\<bar>" ys, OF ct cd, unfolded t d] split [of k] True assms(2) x
      by (simp add: take_off_def)
    with True show ?thesis
      using tk dr by (simp add: take_off_def)
  next
    case False
    have "COcat (con t ((x + k) # ys) (take (nat ((x + k) * ?P)) es))
        (con t (- k # ys) (take (nat (- k * ?P)) (drop (nat ((x + k) * ?P)) es))) = Inr (con t (x # ys) es)"
      using COcat_con [of t "x - \<bar>k\<bar>" ys _ "\<bar>k\<bar>" ys, OF cd ct, unfolded t d] split [of "x + k"] False assms(2) x
      by (simp add: take_off_def)
    with False show ?thesis
      using tk dr by (simp add: take_off_def)
  qed
qed

lemma COcat_take_drop_witness:
  "\<exists>p r. COtake (ivec [-1]) (con T_int [3] (map (CInt IInt) [5, 6, 7])) = Some (Inr p)
     \<and> COdrop (ivec [-1]) (con T_int [3] (map (CInt IInt) [5, 6, 7])) = Some (Inr r)
     \<and> COcat r p = Inr (con T_int [3] (map (CInt IInt) [5, 6, 7]) :: int const)"
  using COcat_take_drop [of T_int 3 "[]" "map (CInt IInt) [5, 6, 7] :: int cval list" "-1"]
  by (auto simp: con_eval)

text \<open>
  Taking no element of an axis other than the last one named writes past the end of the result: the result has no
  element, but the loop of \<open>TileFromArray\<close> copies a chunk before it tests whether the index space is
  empty.
\<close>

theorem COtake_zero_overflow:
  assumes "con_ok t [x, y] es" and "1 \<le> n" and "n \<le> y" and "1 \<le> x"
  shows "COtake (ivec [0, n]) (con t [x, y] es) = Some (Inl OutOfBounds)"
proof -
  note fit = con_okD(1) [OF assms(1)]
  have y: "y \<le> int_max" "x \<le> int_max" using in_int_fits [OF fit] by auto
  let ?a = "con t [x, y] es"
  have "cv2cv_ext t \<noteq> EDummy" using con_okD(4) [OF assms(1)] .
  moreover have "es \<noteq> []" using con_ok_length [OF assms(1)] mult_mono [of 1 x 1 y] assms by auto
  ultimately have cp: "COINTcopyElemsFromCVToCV t (full es) 0 (nat n) [] 0 = Inl OutOfBounds"
    using assms(2) by (simp add: COINTcopyElemsFromCVToCV_def COcv2Cv_def cfor_step rd_full wr_def)
  have o: "Idx2Offset (ivec [0] :: 'a const) ?a = Inr 0"
    using Idx2Offset_con [OF fit, of "[0]" t es] assms(4) by simp
  have ck: "ck_int 0 = Inr 0" "ck_int (- 1) = Inr (- 1)"
    by (simp_all add: ck_int_def in_srange_32)
  have loop: "tile_loop mn mx ?a 0 (nat n) (ivec [0]) ([], 0) = Some (Inl OutOfBounds)" for mn mx
    using o by (subst tile_loop.simps) (simp add: ck cp)
  have mx: "cfor 0 1 (\<lambda>i v. bindR (rd_int v i) (\<lambda>c. bindR (SHgetExtent (sh [0, n]) i) (\<lambda>e.
      bindR (ck_int (e - 1)) (\<lambda>e. bindR (ck_int (c + e)) (\<lambda>c'. wr v i (CInt IInt c'))))))
      (full (map (CInt IInt) [0])) = Inr (full (map (CInt IInt) [- 1]) :: 'a cval cvec)"
    using rd_int_full [of 0 "[0]", where 'a = 'a] wr_ints [of 0 "[0]" "- 1", where 'a = 'a]
    by (simp add: cfor_step SHgetExtent_sh ck)
  have "TileFromArray (ivec [0, 0]) (sh [0, n]) ?a = Some (Inl OutOfBounds)"
    using off_vec_loop [of 1 "[0, 0]", where 'f = 'a] off_shape [of 1] mx loop
      COcopyConstant_ivec [of "[0]", where 'f = 'a] rd_int_full [of 1 "[0, 0]", where 'a = 'a] assms
      SHgetUnrLen_sh [of "[0, n]"] y con_okD(4) [OF assms(1)]
      COINTmakeConstant_con [of 1 "map (CInt IInt) [0] :: 'a cval list" T_int "[1]"]
    by (simp add: TileFromArray_def Let_def SHgetExtent_sh shape_fits_def to_size_ok in_ity_IInt)
  then show ?thesis
    using COtake_tile [OF assms(1), of "[0, n]"] assms by (simp add: nth_Cons take_off_def split: nat.splits)
qed

lemma COtake_zero_overflow_witness:
  "COtake (ivec [0, 1]) (con T_int [2, 2] (map (CInt IInt) [1, 2, 3, 4]) :: int const)
   = Some (Inl OutOfBounds)"
  using COtake_zero_overflow [of T_int 2 2 "map (CInt IInt) [1, 2, 3, 4] :: int cval list" 1]
  by (simp add: con_eval)

lemma over_offs_take:
  assumes "length iv \<le> 2" and "length iv \<le> length xs"
  shows "over_offs xs iv = offs (take (length iv) xs) iv"
proof -
  consider "iv = []" | i where "iv = [i]" | i j where "iv = [i, j]"
    using assms(1) by (cases iv; cases "tl iv"; cases "tl (tl iv)") auto
  then show ?thesis
    using assms(2) by cases (auto simp: over_offs_def Suc_le_length_iff lessThan_Suc
      lessThan_nat_numeral lessThan_Suc_atMost algebra_simps)
qed

text \<open>
  \<open>COoverSel\<close> on a vector of index vectors of length one or two returns the vector of the selections: the cell at position
  \<open>c\<close> of the result is the selection at the index vector \<open>c\<close>.
\<close>

theorem COoverSel_selects:
  assumes "con_ok t xs es" and "rs \<noteq> []" and "\<forall>r\<in>set rs. length r = m \<and> valid_idx xs r"
    and "1 \<le> m" and "m \<le> 2" and "int (length rs * m) \<le> int_max"
    and "shape_fits (int (length rs) # drop m xs)" and "c < length rs"
  shows "\<exists>b. COoverSel (con T_int [int (length rs), int m] (map (CInt IInt) (concat rs))) (con t xs es)
             = Some (Inr b)
       \<and> co_ok b \<and> COsel (ivec [int c]) b = COsel (ivec (rs ! c)) (con t xs es)"
proof -
  let ?P = "prod_list (drop m xs)"
  let ?blk = "\<lambda>r. take (nat ?P) (drop (nat (over_offs xs r * ?P)) es)"
  let ?bs = "map ?blk rs"
  note fit = con_okD(1) [OF assms(1)]
  have l: "length r = m" "valid_idx xs r" "m \<le> length xs" if "r \<in> set rs" for r
    using that assms(3) valid_idx_length by auto
  have m: "m \<le> length xs" using l(3) assms(2) by (metis list.set_intros(1) neq_Nil_conv)
  have o: "over_offs xs r = offs (take m xs) r" "over_offs xs r * ?P = offs xs r" if "r \<in> set rs" for r
    using over_offs_take [of r xs] over_offs_short [of r xs] l [OF that] assms(5) by simp_all
  have blk: "?blk r = sub_elems xs r es" if "r \<in> set rs" for r
    using o(2) [OF that] l [OF that] by (simp add: sub_elems_def)
  have bnd: "over_offs xs r \<le> int_max" "over_offs xs r * ?P + ?P \<le> int (length es)" if "r \<in> set rs" for r
    using offs_take_bounds [OF fit l(2) [OF that], of m] shape_fits_prod [OF shape_fits_take [OF fit], of m]
      offs_bounds [OF l(2) [OF that]] fit con_okD(2) [OF assms(1)] o [OF that] l [OF that]
    by (auto simp: shape_fits_def)
  have run: "COoverSel (con T_int [int (length rs), int m] (map (CInt IInt) (concat rs))) (con t xs es)
      = Some (Inr (con t (int (length rs) # drop m xs) (concat ?bs)))"
    using assms l bnd m by (intro COoverSel_rows) auto
  have len: "length (?blk r) = nat ?P" if "r \<in> set rs" for r
    unfolding blk [OF that] using length_sub_elems [OF assms(1) l(2) [OF that]] l [OF that] by simp
  then have lens: "\<forall>b\<in>set ?bs. length b = nat ?P" by simp
  have P: "0 \<le> ?P" using shape_fits_prod [OF shape_fits_drop [OF fit]] by simp
  have "set (concat ?bs) \<subseteq> set es" by (auto dest: in_set_takeD in_set_dropD)
  then have ok: "con_ok t (int (length ?bs) # drop m xs) (concat ?bs)"
    using assms(1,7) length_concat_rows [OF lens] P by (auto simp: con_ok_def cells_ok_def)
  have "sub_elems (int (length rs) # drop m xs) [int c] (concat ?bs) = sub_elems xs (rs ! c) es"
    using sub_elems_row [OF ok lens] blk [of "rs ! c"] assms(8) by simp
  then have "COsel (ivec [int c]) (con t (int (length rs) # drop m xs) (concat ?bs))
      = COsel (ivec (rs ! c)) (con t xs es)"
    using COsel_con [OF ok, of "[int c]"] COsel_con [OF assms(1), of "rs ! c"] assms(3,8) by simp
  with run ok show ?thesis by simp
qed

lemma COoverSel_selects_witness:
  "\<exists>b. COoverSel (con T_int [2, 2] (map (CInt IInt) [1, 0, 0, 1]))
           (con T_int [2, 2] (map (CInt IInt) [5, 6, 7, 8]) :: int const) = Some (Inr b)
     \<and> COsel (ivec [0]) b = COsel (ivec [1, 0]) (con T_int [2, 2] (map (CInt IInt) [5, 6, 7, 8]))"
  using COoverSel_selects [of T_int "[2, 2]" "map (CInt IInt) [5, 6, 7, 8] :: int cval list" "[[1, 0], [0, 1]]" 2 0]
  by (auto simp: con_eval)

text \<open>
  On an array of rank three \<open>COoverSel\<close> selects a different element than \<open>COsel\<close>: it weights the first
  index with the extent of the second axis only, instead of the product of the two inner extents.
\<close>

theorem COoverSel_rank3:
  assumes "con_ok t [x, y, z] es" and "valid_idx [x, y, z] [i, j, k]"
  shows "COoverSel (con T_int [1, 3] (map (CInt IInt) [i, j, k])) (con t [x, y, z] es)
           = Some (Inr (con t [1] [es ! nat (i * y + j * z + k)]))
       \<and> COsel (ivec [i, j, k]) (con t [x, y, z] es)
           = Inr (con t [] [es ! nat (i * (y * z) + j * z + k)])"
proof
  note v = assms(2) [unfolded valid_idx.simps]
  note fit = con_okD(1) [OF assms(1)]
  have o: "over_offs [x, y, z] [i, j, k] = i * y + j * z + k"
    by (simp add: over_offs_def lessThan_Suc eval_nat_numeral)
  have "i * y \<le> i * (y * z)" using v by (intro mult_left_mono) (auto simp: mult_le_cancel_left1)
  moreover have "offs [x, y, z] [i, j, k] < prod_list [x, y, z]"
    using offs_bounds [OF assms(2)] v by auto
  moreover have "0 \<le> i * y" "0 \<le> j * z" using v by auto
  ultimately have b: "0 \<le> i * y + j * z + k" "i * y + j * z + k + 1 \<le> int (length es)"
    "i * y + j * z + k \<le> int_max"
    using v con_okD(2) [OF assms(1)] con_ok_le_int_max [OF assms(1)] by (auto simp: algebra_simps)
  have "nat (i * y + j * z + k) < length es" using b by linarith
  then have "take 1 (drop (nat (i * y + j * z + k)) es) = [es ! nat (i * y + j * z + k)]"
    by (simp add: take_Suc hd_drop_conv_nth)
  with COoverSel_rows [of t "[x, y, z]" es "[[i, j, k]]" 3] assms b o
  show "COoverSel (con T_int [1, 3] (map (CInt IInt) [i, j, k])) (con t [x, y, z] es)
      = Some (Inr (con t [1] [es ! nat (i * y + j * z + k)]))"
    by (simp add: shape_fits_def int_max_def)
  show "COsel (ivec [i, j, k]) (con t [x, y, z] es)
      = Inr (con t [] [es ! nat (i * (y * z) + j * z + k)])"
    using COsel_con [OF assms] sub_elems_full(1) [OF assms] by (simp add: algebra_simps)
qed

lemma COoverSel_rank3_witness:
  "COoverSel (con T_int [1, 3] (map (CInt IInt) [1, 0, 0]))
     (con T_int [2, 2, 2] (map (CInt IInt) [0, 1, 2, 3, 4, 5, 6, 7]) :: int const)
   = Some (Inr (con T_int [1] [CInt IInt 2]))
   \<and> COsel (ivec [1, 0, 0]) (con T_int [2, 2, 2] (map (CInt IInt) [0, 1, 2, 3, 4, 5, 6, 7]) :: int const)
   = Inr (con T_int [] [CInt IInt 4])"
  using COoverSel_rank3 [of T_int 2 2 2 "map (CInt IInt) [0, 1, 2, 3, 4, 5, 6, 7] :: int cval list" 1 0 0]
  by (simp add: con_eval)

end
