(* ===== verification/Type_Errors.thy ===== *)
theory Type_Errors
  imports Types_More Constants_Tile
begin

text \<open>
  The collection of type errors and the assurances of the type functions,
  \<open>src/libsac2c/typecheck/type_errors.c\<close>.

  A type function of a primitive calls functions \<open>TEassure...\<close>, which add a message to the
  buffer \<open>errors\<close> if an argument type cannot be legal, and fetches the messages with
  \<open>TEfetchErrors\<close>.  The buffer is the state of the computations \<open>'a tem\<close>; the outer \<open>option\<close>
  is \<open>None\<close> if the computation does not end (a constant operation may run forever).  The
  text of a message is its format: the names of the arguments, which the
  functions take as further parameters, and the printed types are not expanded, nor are the
  file and the line that are put in front.
\<close>

named_theorems tem_simps \<open>evaluation of computations with a buffer of errors\<close>

subsection \<open>Computations with a buffer of messages\<close>

type_synonym te_errors = "string option"
type_synonym 'a tem = "te_errors \<Rightarrow> ('a \<times> te_errors) cres option"

definition retT :: "'a \<Rightarrow> 'a tem" where
  "retT x = (\<lambda>s. Some (Inr (x, s)))"

definition bindT :: "'a tem \<Rightarrow> ('a \<Rightarrow> 'b tem) \<Rightarrow> 'b tem" where
  "bindT m f = (\<lambda>s. bindOO (m s) (\<lambda>(x, t). f x t))"

definition liftT :: "'a cres \<Rightarrow> 'a tem" where
  "liftT r = (\<lambda>s. Some (bindR r (\<lambda>x. Inr (x, s))))"

definition liftOT :: "'a cres option \<Rightarrow> 'a tem" where
  "liftOT r = (\<lambda>s. bindO r (\<lambda>x. Inr (x, s)))"

definition ifT :: "bool cres \<Rightarrow> 'a tem \<Rightarrow> 'a tem \<Rightarrow> 'a tem" where
  "ifT b x y = bindT (liftT b) (\<lambda>c. if c then x else y)"

fun seqT :: "unit tem list \<Rightarrow> unit tem" where
  "seqT [] = retT ()"
| "seqT (m # ms) = bindT m (\<lambda>u. seqT ms)"

lemma bindT_simps [simp]:
  "bindT (retT x) f = f x" "bindT (liftT (Inr x)) f = f x" "bindT (liftOT (Some (Inr x))) f = f x"
  by (simp_all add: bindT_def retT_def liftT_def liftOT_def)

lemma liftT_Inr [simp]: "liftT (Inr x) = retT x" "liftOT (Some r) = liftT r"
  by (simp_all add: liftT_def retT_def liftOT_def)

lemma liftT_Inl [simp]: "bindT (liftT (Inl e)) f = liftT (Inl e)"
  by (simp add: bindT_def liftT_def)

lemma ifT_simps [simp]:
  "ifT (Inr True) x y = x" "ifT (Inr False) x y = y" "ifT (Inl e) x y = liftT (Inl e)"
  by (simp_all add: ifT_def)

lemma bindT_assoc: "bindT (bindT m f) g = bindT m (\<lambda>x. bindT (f x) g)"
proof (rule ext)
  fix s
  show "bindT (bindT m f) g s = bindT m (\<lambda>x. bindT (f x) g) s"
    by (cases "m s") (auto simp: bindT_def bindOO_def bindRO_def split: sum.splits option.splits)
qed

subsection \<open>The description of an application\<close>

datatype te_kind_t = TE_udf | TE_prf | TE_cond | TE_funcond | TE_generator | TE_with | TE_foldf

text \<open>
  The primitive functions of \<open>src/libsac2c/tree/prf_info.mac\<close> that the type functions treat.
  Primitives that exist for several combinations of scalars and vectors (\<open>F_add_SxV\<close>), and
  families of conversions, are one constructor with parameters; the names of the code are
  abbreviations below.
\<close>

datatype vs = SxS | SxV | VxS | VxV
datatype sv = S_arg | V_arg

datatype bin_op =
    P_add | P_sub | P_mul | P_div | P_mod | P_aplmod | P_min | P_max | P_and | P_or
  | P_eq | P_neq | P_le | P_lt | P_ge | P_gt

datatype conv_op =
    P_tobool | P_toc | P_tob | P_tos | P_toi | P_tol | P_toll | P_toub | P_tous | P_toui | P_toul
  | P_toull | P_tof | P_tod

datatype un_op = P_not | P_neg | P_abs | P_reciproc
datatype simd_op = P_simd_add | P_simd_sub | P_simd_mul | P_simd_div

datatype query_op =
    P_dim_A | P_isDist_A | P_firstElems_A | P_localFrom_A | P_localCount_A | P_offs_A | P_shape_A

datatype struct_op =
    P_reshape_VxA | P_sel_VxA | P_all_V | P_zero_A | P_sel_VxA_distmem_local | P_sel_VxIA
  | P_modarray_AxVxS | P_modarray_AxVxA | P_cat_VxV | P_take_SxV | P_drop_SxV

datatype index_op =
    P_idx_shape_sel | P_idx_sel | P_idx_modarray_AxSxS | P_idx_modarray_AxSxA | P_idxs2offset
  | P_vect2offset | P_simd_sel_SxS | P_simd_modarray | P_simd_sel_VxA

datatype guard_op =
    P_guard | P_type_constraint | P_same_shape_AxA | P_shape_matches_dim_VxA | P_non_neg_val_S
  | P_non_neg_val_V | P_val_lt_shape_VxA | P_val_lt_val_SxS | P_val_le_val_SxS | P_val_le_val_VxV
  | P_prod_matches_prod_shape_VxA

datatype meta_op =
    P_hideValue_SxA | P_hideShape_SxA | P_hideDim_SxA | P_noteintersect | P_noteminval
  | P_notemaxval | P_enclose | P_disclose | P_saabind | P_type_conv | P_dispatch_error
  | P_conditional_error

datatype ident_op = P_prop_obj_out | P_EMR_noop | P_to_unq | P_from_unq | P_UAR_dummy_type | P_type_error

datatype prf_t =
    F_bin bin_op vs | F_conv conv_op | F_un un_op sv | F_SMxSM simd_op | F_mask sv sv sv
  | F_query query_op | F_struct struct_op | F_index index_op | F_check guard_op | F_meta meta_op
  | F_ident ident_op

abbreviation F_div_SxS :: prf_t where "F_div_SxS \<equiv> F_bin P_div SxS"
abbreviation F_div_SxV :: prf_t where "F_div_SxV \<equiv> F_bin P_div SxV"
abbreviation F_div_VxS :: prf_t where "F_div_VxS \<equiv> F_bin P_div VxS"
abbreviation F_div_VxV :: prf_t where "F_div_VxV \<equiv> F_bin P_div VxV"
abbreviation F_mod_SxS :: prf_t where "F_mod_SxS \<equiv> F_bin P_mod SxS"
abbreviation F_mod_SxV :: prf_t where "F_mod_SxV \<equiv> F_bin P_mod SxV"
abbreviation F_mod_VxS :: prf_t where "F_mod_VxS \<equiv> F_bin P_mod VxS"
abbreviation F_mod_VxV :: prf_t where "F_mod_VxV \<equiv> F_bin P_mod VxV"
abbreviation F_neg_S :: prf_t where "F_neg_S \<equiv> F_un P_neg S_arg"
abbreviation F_neg_V :: prf_t where "F_neg_V \<equiv> F_un P_neg V_arg"

text \<open>
  A description is a tagged structure: the members of the union belong to user defined
  functions or to primitives.  The wrapper is represented by the chain of its return nodes,
  other nodes by their addresses.
\<close>

datatype te_union =
    TI_UDF "string option" "nat list" nat "nat option"
  | TI_PRF prf_t nat
  | TI_UNSET

record te_info =
  TI_LINE :: nat
  TI_FILE :: string
  TI_KIND :: te_kind_t
  TI_NAME :: string
  TI_INFO :: te_union

definition TEmakeInfo :: "nat \<Rightarrow> string \<Rightarrow> te_kind_t \<Rightarrow> string \<Rightarrow> te_info" where
  "TEmakeInfo linenum file kind name_str =
     \<lparr>TI_LINE = linenum, TI_FILE = file, TI_KIND = kind, TI_NAME = name_str, TI_INFO = TI_UNSET\<rparr>"

definition TEmakeInfoUdf ::
  "nat \<Rightarrow> string \<Rightarrow> te_kind_t \<Rightarrow> string option \<Rightarrow> string \<Rightarrow> nat list \<Rightarrow> nat \<Rightarrow> nat option \<Rightarrow> te_info" where
  "TEmakeInfoUdf linenum file kind mod_str name_str wrapper assign parent =
     (TEmakeInfo linenum file kind name_str)\<lparr>TI_INFO := TI_UDF mod_str wrapper assign parent\<rparr>"

definition TEmakeInfoPrf :: "nat \<Rightarrow> string \<Rightarrow> te_kind_t \<Rightarrow> string \<Rightarrow> prf_t \<Rightarrow> nat \<Rightarrow> te_info" where
  "TEmakeInfoPrf linenum file kind name_str prf_no num_rets =
     (TEmakeInfo linenum file kind name_str)\<lparr>TI_INFO := TI_PRF prf_no num_rets\<rparr>"

definition TEgetWrapper :: "te_info \<Rightarrow> nat list cres" where
  "TEgetWrapper info = (case TI_INFO info of
     TI_UDF m w a c \<Rightarrow> Inr w | TI_PRF p n \<Rightarrow> Inl WrongType | TI_UNSET \<Rightarrow> Inl Uninitialised)"

definition TEgetPrf :: "te_info \<Rightarrow> prf_t cres" where
  "TEgetPrf info = (case TI_INFO info of
     TI_PRF p n \<Rightarrow> Inr p | TI_UDF m w a c \<Rightarrow> Inl WrongType | TI_UNSET \<Rightarrow> Inl Uninitialised)"

text \<open>The number of return nodes is counted along their chain (\<open>TCcountRets\<close>).\<close>

fun TEgetNumRets :: "te_info \<Rightarrow> nat cres" where
  "TEgetNumRets info = (case TI_KIND info of
     TE_udf \<Rightarrow> bindR (TEgetWrapper info) (\<lambda>rets. Inr (length rets))
   | TE_prf \<Rightarrow> (case TI_INFO info of
       TI_PRF p n \<Rightarrow> Inr n | TI_UDF m w a c \<Rightarrow> Inl WrongType | TI_UNSET \<Rightarrow> Inl Uninitialised)
   | TE_cond \<Rightarrow> Inr 0
   | TE_funcond \<Rightarrow> Inr 1
   | TE_generator \<Rightarrow> Inr 1
   | TE_with \<Rightarrow> Inr 1
   | TE_foldf \<Rightarrow> Inr 1)"

subsection \<open>The constant operation of a primitive\<close>

text \<open>
  The table \<open>prf_co_funtab\<close> holds functions of three pointers; arguments that are not used are null
  pointers, and so are the entries of the primitives that are not folded.
\<close>

type_synonym 'f cofun =
  "'f const option \<Rightarrow> 'f const option \<Rightarrow> 'f const option \<Rightarrow> 'f const option cres option"

definition nn :: "'a option \<Rightarrow> ('a \<Rightarrow> 'b cres option) \<Rightarrow> 'b cres option" where
  "nn p f = (case p of None \<Rightarrow> Some (Inl NullDeref) | Some x \<Rightarrow> f x)"

definition CO1 :: "('f const \<Rightarrow> 'f const cres) \<Rightarrow> 'f cofun" where
  "CO1 f a b c = nn a (\<lambda>a. bindO (Some (f a)) (\<lambda>r. Inr (Some r)))"

definition CO1p :: "('f const \<Rightarrow> 'f const option cres) \<Rightarrow> 'f cofun" where
  "CO1p f a b c = nn a (\<lambda>a. Some (f a))"

definition CO2 :: "('f const \<Rightarrow> 'f const \<Rightarrow> 'f const cres) \<Rightarrow> 'f cofun" where
  "CO2 f a b c = nn a (\<lambda>a. nn b (\<lambda>b. bindO (Some (f a b)) (\<lambda>r. Inr (Some r))))"

definition CO2o :: "('f const \<Rightarrow> 'f const \<Rightarrow> 'f const cres option) \<Rightarrow> 'f cofun" where
  "CO2o f a b c = nn a (\<lambda>a. nn b (\<lambda>b. bindO (f a b) (\<lambda>r. Inr (Some r))))"

definition CO3 :: "('f const \<Rightarrow> 'f const \<Rightarrow> 'f const \<Rightarrow> 'f const cres) \<Rightarrow> 'f cofun" where
  "CO3 f a b c = nn a (\<lambda>a. nn b (\<lambda>b. nn c (\<lambda>c. bindO (Some (f a b c)) (\<lambda>r. Inr (Some r)))))"

definition CO_NULL :: "'f cofun" where
  "CO_NULL a b c = Some (Inl NullDeref)"

lemmas CO_simps = CO1_def CO1p_def CO2_def CO2o_def CO3_def CO_NULL_def nn_def

fun bin_co :: "'f fops \<Rightarrow> bin_op \<Rightarrow> 'f const \<Rightarrow> 'f const \<Rightarrow> 'f const cres" where
  "bin_co F P_add = COadd F" | "bin_co F P_sub = COsub F" | "bin_co F P_mul = COmul F"
| "bin_co F P_div = COdiv F" | "bin_co F P_mod = COmod F" | "bin_co F P_aplmod = COaplmod F"
| "bin_co F P_min = COmin F" | "bin_co F P_max = COmax F" | "bin_co F P_and = COand F"
| "bin_co F P_or = COor F" | "bin_co F P_eq = COeq F" | "bin_co F P_neq = COneq F"
| "bin_co F P_le = COle F" | "bin_co F P_lt = COlt F" | "bin_co F P_ge = COge F"
| "bin_co F P_gt = COgt F"

fun conv_co :: "'f fops \<Rightarrow> conv_op \<Rightarrow> 'f const \<Rightarrow> 'f const cres" where
  "conv_co F P_tobool = COtobool F" | "conv_co F P_toc = COtoc F" | "conv_co F P_tob = COtob F"
| "conv_co F P_tos = COtos F" | "conv_co F P_toi = COtoi F" | "conv_co F P_tol = COtol F"
| "conv_co F P_toll = COtoll F" | "conv_co F P_toub = COtoub F" | "conv_co F P_tous = COtous F"
| "conv_co F P_toui = COtoui F" | "conv_co F P_toul = COtoul F" | "conv_co F P_toull = COtoull F"
| "conv_co F P_tof = COtof F" | "conv_co F P_tod = COtod F"

fun un_co :: "'f fops \<Rightarrow> un_op \<Rightarrow> 'f const \<Rightarrow> 'f const cres" where
  "un_co F P_not = COnot F" | "un_co F P_neg = COneg F" | "un_co F P_abs = COabs F"
| "un_co F P_reciproc = COreciproc F"

fun simd_co :: "'f fops \<Rightarrow> simd_op \<Rightarrow> 'f const \<Rightarrow> 'f const \<Rightarrow> 'f const \<Rightarrow> 'f const cres" where
  "simd_co F P_simd_add = COsimd_add F" | "simd_co F P_simd_sub = COsimd_sub F"
| "simd_co F P_simd_mul = COsimd_mul F" | "simd_co F P_simd_div = COsimd_div F"

fun prf_co_funtab :: "'f fops \<Rightarrow> prf_t \<Rightarrow> 'f cofun" where
  "prf_co_funtab F (F_bin op v) = CO2 (bin_co F op)"
| "prf_co_funtab F (F_conv op) = CO1 (conv_co F op)"
| "prf_co_funtab F (F_un op v) = CO1 (un_co F op)"
| "prf_co_funtab F (F_SMxSM op) = CO3 (simd_co F op)"
| "prf_co_funtab F (F_query P_dim_A) = CO1 COdim"
| "prf_co_funtab F (F_query P_isDist_A) = CO1 COisDist"
| "prf_co_funtab F (F_query P_firstElems_A) = CO1 COfirstElems"
| "prf_co_funtab F (F_query P_localFrom_A) = CO1 COlocalFrom"
| "prf_co_funtab F (F_query P_offs_A) = CO1 COoffs"
| "prf_co_funtab F (F_query P_shape_A) = CO1p COshape"
| "prf_co_funtab F (F_struct P_reshape_VxA) = CO2 COreshape"
| "prf_co_funtab F (F_struct P_sel_VxA) = CO2 COsel"
| "prf_co_funtab F (F_struct P_sel_VxA_distmem_local) = CO2 COsel"
| "prf_co_funtab F (F_struct P_all_V) = CO1 COall"
| "prf_co_funtab F (F_struct P_modarray_AxVxS) = CO3 COmodarray_AxVxS"
| "prf_co_funtab F (F_struct P_modarray_AxVxA) = CO3 COmodarray_AxVxA"
| "prf_co_funtab F (F_struct P_cat_VxV) = CO2 COcat"
| "prf_co_funtab F (F_struct P_take_SxV) = CO2o COtake"
| "prf_co_funtab F (F_struct P_drop_SxV) = CO2o COdrop"
| "prf_co_funtab F (F_index P_idx_sel) = CO2 COidxSel"
| "prf_co_funtab F (F_index P_idx_modarray_AxSxS) = CO3 COidx_modarray_AxSxS"
| "prf_co_funtab F (F_index P_idx_modarray_AxSxA) = CO3 COidx_modarray_AxSxA"
| "prf_co_funtab F (F_index P_vect2offset) = CO2 COvect2offset"
| "prf_co_funtab F (F_index P_simd_sel_SxS) = CO2 COsimd_sel_SxS"
| "prf_co_funtab F (F_index P_simd_sel_VxA) = CO3 COsimd_sel"
| "prf_co_funtab F _ = CO_NULL"

definition TEgetCFFun :: "'f fops \<Rightarrow> te_info \<Rightarrow> 'f cofun cres" where
  "TEgetCFFun F info = bindR (TEgetPrf info) (\<lambda>p. Inr (prf_co_funtab F p))"

subsection \<open>The buffer\<close>

text \<open>Messages are separated by a newline.\<close>

definition TEhandleError :: "string \<Rightarrow> unit tem" where
  "TEhandleError message = (\<lambda>errors. Some (Inr ((),
     Some (case errors of None \<Rightarrow> message | Some e \<Rightarrow> e @ [CHR 0x0A] @ message))))"

definition TEfetchErrors :: "string option tem" where
  "TEfetchErrors = (\<lambda>errors. Some (Inr (errors, None)))"

definition error_if :: "bool cres \<Rightarrow> string \<Rightarrow> unit tem" where
  "error_if b message = ifT b (TEhandleError message) (retT ())"

abbreviation error_unless :: "bool cres \<Rightarrow> string \<Rightarrow> unit tem" where
  "error_unless b message \<equiv> error_if (notR b) message"

lemma error_if_simps [simp]:
  "error_if (Inr True) msg = TEhandleError msg" "error_if (Inr False) msg = retT ()"
  "error_if (Inl e) msg = liftT (Inl e)"
  by (simp_all add: error_if_def)

subsection \<open>Matching\<close>

definition dim_is :: "int \<Rightarrow> 'f ntype \<Rightarrow> bool cres" where
  "dim_is d type = bindR (TYgetDim type) (\<lambda>e. Inr (e = d))"

definition MatchScalar :: "'f ntype \<Rightarrow> bool cres" where
  "MatchScalar type = bindR (NTYPE_CON type) (\<lambda>c. case c of
     TC_akv k \<Rightarrow> dim_is 0 type
   | TC_aks s \<Rightarrow> dim_is 0 type
   | TC_akd d p \<Rightarrow> dim_is 0 type
   | TC_audgz \<Rightarrow> Inr True
   | TC_aud \<Rightarrow> Inr True
   | _ \<Rightarrow> Inl (Unreachable ''MatchScalar''))"

definition MatchVect :: "'f ntype \<Rightarrow> bool cres" where
  "MatchVect type = bindR (NTYPE_CON type) (\<lambda>c. case c of
     TC_akv k \<Rightarrow> dim_is 1 type
   | TC_aks s \<Rightarrow> dim_is 1 type
   | TC_akd d p \<Rightarrow> dim_is 1 type
   | TC_audgz \<Rightarrow> Inr True
   | TC_aud \<Rightarrow> Inr True
   | _ \<Rightarrow> Inl (Unreachable ''MatchVect''))"

definition extent :: "'f ntype \<Rightarrow> int \<Rightarrow> int cres" where
  "extent type i = bindR (TYgetShape type) (\<lambda>s. SHgetExtent s i)"

definition one_element :: "'f ntype \<Rightarrow> bool cres" where
  "one_element type = andR (dim_is 1 type) (bindR (extent type 0) (\<lambda>e. Inr (e = 1)))"

definition MatchVectLengthOne :: "'f ntype \<Rightarrow> bool cres" where
  "MatchVectLengthOne type = bindR (NTYPE_CON type) (\<lambda>c. case c of
     TC_akv k \<Rightarrow> one_element type
   | TC_aks s \<Rightarrow> one_element type
   | TC_akd d p \<Rightarrow> dim_is 1 type
   | TC_audgz \<Rightarrow> Inr True
   | TC_aud \<Rightarrow> Inr True
   | _ \<Rightarrow> Inl (Unreachable ''MatchVectLengthOne''))"

text \<open>The element type is a simple type of a given set.\<close>

definition simple_in :: "simpletype set \<Rightarrow> 'f ntype \<Rightarrow> bool cres" where
  "simple_in S type = bindR (TYgetScalar type) (\<lambda>b. bindR (TYisSimple b) (\<lambda>simple.
     if simple then bindR (TYgetSimpleType b) (\<lambda>s. Inr (s \<in> S)) else Inr False))"

definition whole_types :: "simpletype set" where
  "whole_types = {T_byte, T_short, T_int, T_long, T_longlong, T_ubyte, T_ushort, T_uint, T_ulong, T_ulonglong}"

definition MatchWholeA :: "'f ntype \<Rightarrow> bool cres" where
  "MatchWholeA type = simple_in whole_types type"

definition MatchIntA :: "'f ntype \<Rightarrow> bool cres" where
  "MatchIntA type = simple_in {T_int} type"

definition MatchBoolA :: "'f ntype \<Rightarrow> bool cres" where
  "MatchBoolA type = simple_in {T_bool} type"

definition num_types :: "simpletype set" where
  "num_types = {T_byte, T_short, T_int, T_long, T_longlong, T_ubyte, T_ushort, T_uint, T_ulong, T_ulonglong,
     T_float, T_floatvec, T_double}"

definition MatchNumA :: "'f ntype \<Rightarrow> bool cres" where
  "MatchNumA type = simple_in num_types type"

definition signed_num_types :: "simpletype set" where
  "signed_num_types = {T_byte, T_short, T_int, T_long, T_longlong, T_float, T_floatvec, T_double}"

definition MatchSignedNumA :: "'f ntype \<Rightarrow> bool cres" where
  "MatchSignedNumA type = simple_in signed_num_types type"

definition MatchSimpleA :: "'f ntype \<Rightarrow> bool cres" where
  "MatchSimpleA type = bindR (TYgetScalar type) TYisSimple"

subsection \<open>Assurances on one argument\<close>

definition TEassureScalar :: "'f ntype \<Rightarrow> unit tem" where
  "TEassureScalar type = error_unless (MatchScalar type)
     ''%s should be a scalar; type found: %s''"

definition TEassureVect :: "'f ntype \<Rightarrow> unit tem" where
  "TEassureVect type = error_unless (MatchVect type)
     ''%s should be a vector; type found: %s''"

definition TEassureWholeS :: "'f ntype \<Rightarrow> unit tem" where
  "TEassureWholeS type = error_unless (andR (MatchScalar type) (MatchWholeA type))
     ''%s must be of integral type; type found: %s''"

definition TEassureWholeV :: "'f ntype \<Rightarrow> unit tem" where
  "TEassureWholeV type = error_unless (andR (MatchWholeA type) (MatchVect type))
     ''%s must be of integral type vector; type found: %s''"

definition TEassureIntS :: "'f ntype \<Rightarrow> unit tem" where
  "TEassureIntS type = error_unless (andR (MatchScalar type) (MatchIntA type))
     ''%s should be of type int; type found: %s''"

definition TEassureIntV :: "'f ntype \<Rightarrow> unit tem" where
  "TEassureIntV type = error_unless (andR (MatchIntA type) (MatchVect type))
     ''%s should be an integer vector; type found: %s''"

definition TEassureBoolS :: "'f ntype \<Rightarrow> unit tem" where
  "TEassureBoolS type = error_unless (andR (MatchScalar type) (MatchBoolA type))
     ''%s should be of type bool; type found: %s''"

definition TEassureBoolV :: "'f ntype \<Rightarrow> unit tem" where
  "TEassureBoolV type = error_unless (andR (MatchVect type) (MatchBoolA type))
     ''%s should be a boolean vector; type found: %s''"

definition TEassureBoolA :: "'f ntype \<Rightarrow> unit tem" where
  "TEassureBoolA type = error_unless (MatchBoolA type)
     ''Element type of %s should be boolean; type found: %s''"

definition TEassureSignedNumS :: "'f ntype \<Rightarrow> unit tem" where
  "TEassureSignedNumS type = error_unless (andR (MatchScalar type) (MatchSignedNumA type))
     ''%s should be of a signed numerical type (int, ..., float, double); type found: %s''"

definition TEassureNumS :: "'f ntype \<Rightarrow> unit tem" where
  "TEassureNumS type = error_unless (andR (MatchScalar type) (MatchNumA type))
     ''%s should be of a numerical type (int, uint, ..., float, double); type found: %s''"

definition TEassureSignedNumV :: "'f ntype \<Rightarrow> unit tem" where
  "TEassureSignedNumV type = error_unless (andR (MatchVect type) (MatchSignedNumA type))
     ''%s should be a vector of a signed numerical type (int, ..., float, double); type found: %s''"

definition TEassureNumV :: "'f ntype \<Rightarrow> unit tem" where
  "TEassureNumV type = error_unless (andR (MatchVect type) (MatchNumA type))
     ''%s should be a vector of a numerical type (int, uint, ..., float, double); type found: %s''"

definition TEassureNumA :: "'f ntype \<Rightarrow> unit tem" where
  "TEassureNumA type = error_unless (MatchNumA type)
     ''Element type of %s should be numeric; type found: %s''"

definition TEassureSimpleType :: "'f ntype \<Rightarrow> unit tem" where
  "TEassureSimpleType type = error_unless (MatchSimpleA type)
     ''%s should be a built-in type; type found: %s''"

definition TEassureSimpleS :: "'f ntype \<Rightarrow> unit tem" where
  "TEassureSimpleS type = error_unless (andR (MatchSimpleA type) (MatchScalar type))
     ''%s should be a scalar of a built-in type; type found: %s''"

definition TEassureSimpleV :: "'f ntype \<Rightarrow> unit tem" where
  "TEassureSimpleV type = error_unless (andR (MatchSimpleA type) (MatchVect type))
     ''%s should be a vector of a built-in type; type found: %s''"

definition TEassureIntVectLengthOne :: "'f ntype \<Rightarrow> unit tem" where
  "TEassureIntVectLengthOne type = error_unless (andR (MatchIntA type) (MatchVectLengthOne type))
     ''%s should be an integer vector; type found: %s''"

subsection \<open>Assurances on values and shapes\<close>

text \<open>An element of the value of an AKV type, read as an \<open>int\<close>.\<close>

definition int_elem :: "'f ntype \<Rightarrow> int \<Rightarrow> int cres" where
  "int_elem type i = bindR (TYgetValue type) (\<lambda>k. rd_int (COgetDataVec k) i)"

text \<open>
  \<open>TYgetConstr (type) == TC_aks || TYgetConstr (type) == TC_akv\<close>, and the same with \<open>TC_akd\<close>.
\<close>

definition con_akv :: "'f ntype \<Rightarrow> bool cres" where
  "con_akv = is_con (\<lambda>c. case c of TC_akv k \<Rightarrow> True | _ \<Rightarrow> False)"

definition con_shape :: "'f ntype \<Rightarrow> bool cres" where
  "con_shape = is_con (\<lambda>c. case c of TC_akv k \<Rightarrow> True | TC_aks s \<Rightarrow> True | _ \<Rightarrow> False)"

definition con_dim :: "'f ntype \<Rightarrow> bool cres" where
  "con_dim = is_con (\<lambda>c. case c of TC_akv k \<Rightarrow> True | TC_aks s \<Rightarrow> True | TC_akd d p \<Rightarrow> True | _ \<Rightarrow> False)"

text \<open>\<open>for (i = 0; i < n; i++) if (bad (i)) TEhandleError (message)\<close>: a message for each bad element.\<close>

definition error_each :: "int cres \<Rightarrow> (int \<Rightarrow> bool cres) \<Rightarrow> string \<Rightarrow> unit tem" where
  "error_each n bad message =
     bindT (liftT n) (\<lambda>n. seqT (map (\<lambda>i. error_if (bad i) message) [0..n - 1]))"

definition TEassureNonNegativeValues_S :: "'f ntype \<Rightarrow> unit tem" where
  "TEassureNonNegativeValues_S type =
     error_if (andR (con_akv type) (bindR (int_elem type 0) (\<lambda>d. Inr (d < 0))))
       ''%s should not contain negative values; type found: %s''"

definition TEassureNonNegativeValues_V :: "'f ntype \<Rightarrow> unit tem" where
  "TEassureNonNegativeValues_V type = ifT (con_akv type)
     (error_each (extent type 0) (\<lambda>i. bindR (int_elem type i) (\<lambda>d. Inr (d < 0)))
       ''%s should not contain negative values; type found: %s'')
     (retT ())"

definition TEassureShpMatchesDim :: "'f ntype \<Rightarrow> 'f ntype \<Rightarrow> unit tem" where
  "TEassureShpMatchesDim type1 type2 =
     error_if (andR (con_shape type1) (andR (con_dim type2)
        (bindR (extent type1 0) (\<lambda>e. bindR (TYgetDim type2) (\<lambda>d. Inr (e \<noteq> d))))))
       ''Shape of %s should match dimensionality of %s; types found: %s  and  %s''"

definition TEassureShpPlusDimMatchesDim :: "'f ntype \<Rightarrow> 'f ntype \<Rightarrow> 'f ntype \<Rightarrow> unit tem" where
  "TEassureShpPlusDimMatchesDim type1 type2 type3 =
     error_if (andR (con_shape type1) (andR (con_dim type2) (andR (con_dim type3)
        (bindR (extent type1 0) (\<lambda>e. bindR (TYgetDim type2) (\<lambda>d2. bindR (ck_int (e + d2)) (\<lambda>n.
         bindR (TYgetDim type3) (\<lambda>d3. Inr (n \<noteq> d3)))))))))
       ''Shape of %s + dimensionality of %s should match dimensionality of %s; types found: %s ,  %s ,  and  %s''"

text \<open>The loop is left at the first extent that differs.\<close>

definition TEassureShpIsPostfixOfShp :: "'f ntype \<Rightarrow> 'f ntype \<Rightarrow> unit tem" where
  "TEassureShpIsPostfixOfShp type1 type2 =
     error_if (andR (con_shape type1) (andR (con_shape type2)
        (bindR (TYgetDim type2) (\<lambda>d2. bindR (TYgetDim type1) (\<lambda>d1. bindR (ck_int (d2 - d1)) (\<lambda>offset.
           cfor 0 d1 (\<lambda>i differs.
             if differs then Inr True
             else bindR (extent type1 i) (\<lambda>e1. bindR (extent type2 (i + offset)) (\<lambda>e2. Inr (e1 \<noteq> e2)))) False))))))
       ''the shape of %s (%s) should be a postfix of the shape of %s (%s)''"

definition TEassureValMatchesDim :: "'f ntype \<Rightarrow> 'f ntype \<Rightarrow> unit tem" where
  "TEassureValMatchesDim type1 type2 =
     error_if (andR (con_akv type1) (andR (con_dim type2)
        (bindR (int_elem type1 0) (\<lambda>v. bindR (TYgetDim type2) (\<lambda>d. Inr (v < 0 \<or> d \<le> v))))))
       ''%s should be legal index into shape( %s); types found: %s  and  %s''"

definition TEassureValMatchesShape :: "'f ntype \<Rightarrow> 'f ntype \<Rightarrow> unit tem" where
  "TEassureValMatchesShape type1 type2 = ifT (andR (con_akv type1) (con_shape type2))
     (error_each (bindR (TYgetValue type1) (\<lambda>k. SHgetExtent (COgetShape k) 0))
       (\<lambda>i. bindR (int_elem type1 i) (\<lambda>v.
              if v < 0 then Inr True else bindR (extent type2 i) (\<lambda>e. Inr (e \<le> v))))
       ''%s should be legal index into %s; types found: %s  and  %s'')
     (retT ())"

definition TEassureValLtVal_SxS :: "'f ntype \<Rightarrow> 'f ntype \<Rightarrow> unit tem" where
  "TEassureValLtVal_SxS type1 type2 =
     error_if (andR (con_akv type1) (andR (con_akv type2)
        (bindR (int_elem type1 0) (\<lambda>v1.
           if v1 < 0 then Inr True else bindR (int_elem type2 0) (\<lambda>v2. Inr (v2 \<le> v1))))))
       ''%s should be less than %s; types found: %s  and  %s''"

definition TEassureValLeVal_SxS :: "'f ntype \<Rightarrow> 'f ntype \<Rightarrow> unit tem" where
  "TEassureValLeVal_SxS type1 type2 =
     error_if (andR (con_akv type1) (andR (con_akv type2)
        (bindR (int_elem type1 0) (\<lambda>v1.
           if v1 < 0 then Inr True else bindR (int_elem type2 0) (\<lambda>v2. Inr (v2 < v1))))))
       ''%s should be less than %s; types found: %s  and  %s''"

definition TEassureValLeVal :: "'f ntype \<Rightarrow> 'f ntype \<Rightarrow> unit tem" where
  "TEassureValLeVal type1 type2 = ifT (andR (con_akv type1) (con_akv type2))
     (error_each (bindR (TYgetValue type1) (\<lambda>k. SHgetExtent (COgetShape k) 0))
       (\<lambda>i. bindR (int_elem type1 i) (\<lambda>v1.
              if v1 < 0 then Inr True else bindR (int_elem type2 i) (\<lambda>v2. Inr (v2 < v1))))
       ''%s should be less equal than %s; types found: %s  and  %s'')
     (retT ())"

definition TEassureValNonZero :: "'f tenv \<Rightarrow> 'f ntype \<Rightarrow> unit tem" where
  "TEassureValNonZero E type1 =
     error_if (andR (con_akv type1) (bindR (TYgetValue type1) (\<lambda>k. COisZero (te_fops E) k False)))
       ''%s must not contain a zero; type found: %s''"

definition TEassureIdxMatchesShape :: "'f ntype \<Rightarrow> 'f ntype \<Rightarrow> unit tem" where
  "TEassureIdxMatchesShape type1 type2 =
     error_if (andR (con_akv type1) (andR (con_shape type2)
        (bindR (int_elem type1 0) (\<lambda>v.
           if v < 0 then Inr True
           else bindR (TYgetShape type2) (\<lambda>s. bindR (SHgetUnrLen s) (\<lambda>n. Inr (n \<le> v)))))))
       ''%s should be legal offset index into %s; types found: %s  and  %s''"

definition TEassureAbsValFitsShape :: "'f ntype \<Rightarrow> 'f ntype \<Rightarrow> unit tem" where
  "TEassureAbsValFitsShape type1 type2 = ifT (andR (con_akv type1) (con_shape type2))
     (error_each (TYgetDim type2)
       (\<lambda>i. bindR (int_elem type1 i) (\<lambda>v. bindR (ck_int \<bar>v\<bar>) (\<lambda>m. bindR (extent type2 i) (\<lambda>e. Inr (e < m)))))
       ''%s should not exceed the shape of %s; types found: %s  and  %s'')
     (retT ())"

definition TEassureProdValMatchesProdShape :: "'f ntype \<Rightarrow> 'f ntype \<Rightarrow> unit tem" where
  "TEassureProdValMatchesProdShape type1 type2 =
     error_if (andR (con_akv type1) (andR (con_shape type2)
        (bindR (extent type1 0) (\<lambda>dim.
         bindR (cfor 0 dim (\<lambda>i p. bindR (int_elem type1 i) (\<lambda>v. ck_int (p * v))) 1) (\<lambda>p.
         bindR (TYgetShape type2) (\<lambda>s. bindR (SHgetUnrLen s) (\<lambda>n. Inr (p \<noteq> n))))))))
       ''%s should be legal shape for the data vector of %s; types found: %s  and  %s''"

text \<open>
  The formats are given three arguments that do not include the name of the argument: the
  printed type, the number of elements it has and the number it should have.
\<close>

definition TEassureShpMatchesInt :: "'f ntype \<Rightarrow> nat \<Rightarrow> unit tem" where
  "TEassureShpMatchesInt shp len =
     error_if (andR (con_shape shp) (bindR (TYgetShape shp) (\<lambda>s. bindR (SHgetUnrLen s) (\<lambda>n. Inr (len \<noteq> to_size n)))))
       ''%s should be %zu elements, but is %zu elements.''"

subsection \<open>Assurances that relate types\<close>

definition TEassureSameSimpleType :: "'f ntype \<Rightarrow> 'f ntype \<Rightarrow> unit tem" where
  "TEassureSameSimpleType type1 type2 =
     error_if (bindR (bindR (TYgetScalar type1) TYgetSimpleType) (\<lambda>s1.
               bindR (bindR (TYgetScalar type2) TYgetSimpleType) (\<lambda>s2. Inr (s1 \<noteq> s2))))
       ''Element types of %s and %s should be identical; types found: %s  and  %s''"

definition TEassureSameScalarType :: "'f tenv \<Rightarrow> 'f ntype \<Rightarrow> 'f ntype \<Rightarrow> unit tem" where
  "TEassureSameScalarType E type1 type2 =
     error_unless (bindR (TYgetScalar type1) (\<lambda>b1. bindR (TYgetScalar type2) (\<lambda>b2. TYeqTypes E b1 b2)))
       ''Element types of %s and %s should be identical; types found: %s  and  %s''"

text \<open>
  \<open>TEassureSameShape\<close> returns the more precise of two types, after known values have been lifted to
  their shapes; \<open>None\<close> is the null pointer that stands for a conflict.
\<close>

definition lift_akv :: "'f ntype \<Rightarrow> 'f ntype cres" where
  "lift_akv type = ifR (con_akv type)
     (bindR (bindR (TYgetScalar type) TYcopyType) (\<lambda>b.
      bindR (bindR (TYgetShape type) SHcopyShape) (TYmakeAKS b)))
     (Inr type)"

definition copy_if :: "bool cres \<Rightarrow> 'f ntype \<Rightarrow> 'f ntype option cres" where
  "copy_if b t = ifR b (bindR (TYcopyType t) (\<lambda>c. Inr (Some c))) (Inr None)"

definition same_shape_type :: "'f ntype \<Rightarrow> 'f ntype \<Rightarrow> 'f ntype option cres" where
  "same_shape_type type1 type2 =
     bindR (NTYPE_CON type1) (\<lambda>c1. bindR (NTYPE_CON type2) (\<lambda>c2. case c1 of
       TC_aks s1 \<Rightarrow> (case c2 of
           TC_aks s2 \<Rightarrow> copy_if (SHcompareShapes s2 s1) type2
         | TC_akd d2 p2 \<Rightarrow> copy_if (same_dim type2 type1) type1
         | TC_audgz \<Rightarrow> copy_if (pos_dim type1) type1
         | TC_aud \<Rightarrow> copy_if (Inr True) type1
         | _ \<Rightarrow> Inl (Unreachable ''TEassureSameShape''))
     | TC_akd d1 p1 \<Rightarrow> (case c2 of
           TC_aks s2 \<Rightarrow> copy_if (same_dim type2 type1) type2
         | TC_akd d2 p2 \<Rightarrow> copy_if (same_dim type2 type1) type2
         | TC_audgz \<Rightarrow> copy_if (pos_dim type1) type1
         | TC_aud \<Rightarrow> copy_if (Inr True) type1
         | _ \<Rightarrow> Inl (Unreachable ''TEassureSameShape''))
     | TC_audgz \<Rightarrow> (case c2 of
           TC_aks s2 \<Rightarrow> copy_if (pos_dim type2) type2
         | TC_akd d2 p2 \<Rightarrow> copy_if (pos_dim type2) type2
         | TC_audgz \<Rightarrow> copy_if (Inr True) type1
         | TC_aud \<Rightarrow> copy_if (Inr True) type1
         | _ \<Rightarrow> Inl (Unreachable ''TEassureSameShape''))
     | TC_aud \<Rightarrow> copy_if (Inr True) type2
     | _ \<Rightarrow> Inl (Unreachable ''TEassureSameShape'')))"

definition TEassureSameShape :: "'f ntype \<Rightarrow> 'f ntype \<Rightarrow> 'f ntype tem" where
  "TEassureSameShape type1 type2 =
     bindT (liftT (bindR (lift_akv type1) (\<lambda>t1. bindR (lift_akv type2) (same_shape_type t1)))) (\<lambda>res.
       case res of
         Some t \<Rightarrow> retT t
       | None \<Rightarrow>
           bindT (TEhandleError ''%s (shape: %s) and %s (shape: %s) must have identical shapes.'') (\<lambda>u.
             liftT (bindR (bindR (TYgetScalar type1) TYcopyType) TYmakeAUD)))"

subsection \<open>Numbers of results\<close>

text \<open>The field \<open>NumVariableRets\<close> of the application is the parameter of \<open>TEvar\<close>.\<close>

definition TEone :: "'f ntype \<Rightarrow> nat cres" where "TEone args = Inr 1"
definition TEtwo :: "'f ntype \<Rightarrow> nat cres" where "TEtwo args = Inr 2"
definition TEthree :: "'f ntype \<Rightarrow> nat cres" where "TEthree args = Inr 3"
definition TEn :: "'f ntype \<Rightarrow> nat cres" where "TEn args = TYgetProductSize args"

definition TEvar :: "nat \<Rightarrow> 'f ntype \<Rightarrow> nat cres" where
  "TEvar num_rets args = dbug_assert ''TEvar'' (0 < num_rets) (Inr num_rets)"

definition TEval :: "'f ntype \<Rightarrow> nat cres" where
  "TEval args =
     bindR (TYgetProductMember args 0) (\<lambda>num_rets_t.
     bindR (TYisAKV num_rets_t) (\<lambda>akv. dbug_assert ''TEval: constant'' akv
     (bindR (TYgetValue num_rets_t) (\<lambda>co.
        dbug_assert ''TEval: integer'' (COgetType co = T_int)
        (dbug_assert ''TEval: scalar'' (COgetDim co = 0)
        (bindR (rd_int (COgetDataVec co) 0) (\<lambda>n.
           dbug_assert ''TEval: negative'' (0 \<le> n) (Inr (nat n)))))))))"

end
