(* ===== verification/CT_Prf.thy ===== *)
theory CT_Prf
  imports Type_Errors
begin

text \<open>
  The type functions of the primitives, \<open>src/libsac2c/typecheck/ct_prf.c\<close>: functions
  \<open>NTCCTprf_...\<close> from the description of the application and the product of the argument types
  to the product of the result types.  A function first assures that the argument types
  can be legal; if messages were collected, every result type is the bottom type
  with these messages.  If the arguments are known values, the constant operation of the primitive
  is applied to them (\<open>ApplyCF\<close>).

  This theory holds the functions of the error and shape checking primitives and of the structural
  ones; \<open>CT_Prf_Ari\<close> has the arithmetic, relational and logical ones.  Copies of types
  are freed where the code frees them; memory is not part of the model.
\<close>

subsection \<open>Schemes of the type functions\<close>

text \<open>
  \<open>nargs\<close> is the assertion on the number of arguments, \<open>member\<close> fetches an argument.  \<open>stage n a k\<close>
  runs the assurances \<open>a\<close>, fetches the messages and continues with \<open>k\<close> if there are none; otherwise
  the \<open>n\<close> results are bottom types.
\<close>

definition nargs :: "nat \<Rightarrow> 'f ntype \<Rightarrow> 'a tem \<Rightarrow> 'a tem" where
  "nargs n args k = bindT (liftT (TYgetProductSize args)) (\<lambda>m.
     if m = n then k else liftT (Inl (AssertFail ''incorrect number of arguments'')))"

definition member :: "'f ntype \<Rightarrow> nat \<Rightarrow> ('f ntype \<Rightarrow> 'a tem) \<Rightarrow> 'a tem" where
  "member args i k = bindT (liftT (TYgetProductMember args i)) k"

definition stage :: "nat \<Rightarrow> unit tem \<Rightarrow> 'f ntype list tem \<Rightarrow> 'f ntype list tem" where
  "stage n a k = bindT a (\<lambda>u. bindT TEfetchErrors (\<lambda>err_msg. case err_msg of
     Some m \<Rightarrow> retT (replicate n (TYmakeBottomType (Some m)))
   | None \<Rightarrow> k))"

definition results :: "nat \<Rightarrow> 'f ntype list tem \<Rightarrow> 'f ntype tem" where
  "results n r = bindT r (\<lambda>ts. liftT (TYmakeProductType n ts))"

definition one_type :: "'f ntype cres \<Rightarrow> 'f ntype list tem" where
  "one_type t = bindT (liftT t) (\<lambda>t. retT [t])"

definition two_types :: "'f ntype cres \<Rightarrow> 'f ntype cres \<Rightarrow> 'f ntype list tem" where
  "two_types t u = bindT (liftT t) (\<lambda>t. bindT (liftT u) (\<lambda>u. retT [t, u]))"

definition scalar_of :: "'f ntype \<Rightarrow> 'f ntype cres" where
  "scalar_of array = bindR (TYgetScalar array) TYcopyType"

definition aks_scalar :: "'f ntype cres \<Rightarrow> 'f ntype cres" where
  "aks_scalar b = bindR b (\<lambda>b. bindR (SHmakeShape 0) (TYmakeAKS b))"

definition akd_of :: "'f ntype cres \<Rightarrow> nat \<Rightarrow> 'f ntype cres" where
  "akd_of b n = bindR b (\<lambda>b. bindR (SHmakeShape 0) (\<lambda>s. TYmakeAKD b n (Some s)))"

definition aks_like :: "'f ntype \<Rightarrow> 'f ntype cres" where
  "aks_like array = bindR (scalar_of array) (\<lambda>b. bindR (bindR (TYgetShape array) SHcopyShape) (TYmakeAKS b))"

text \<open>The predicate that a check returns: the value \<open>true\<close>, or an unknown boolean scalar.\<close>

definition true_pred :: "'f tenv \<Rightarrow> 'f ntype cres" where
  "true_pred E = bindR (TYmakeSimpleType T_bool) (\<lambda>b. bindR (SHcreateShape 0 []) (\<lambda>s.
     bindR (COmakeTrue (te_fops E) s) (\<lambda>c. case c of None \<Rightarrow> Inl NullDeref | Some c \<Rightarrow> TYmakeAKV b c)))"

definition bool_pred :: "'f ntype cres" where
  "bool_pred = bindR (TYmakeSimpleType T_bool) (\<lambda>b. bindR (SHcreateShape 0 []) (TYmakeAKS b))"

definition on_prf :: "te_info \<Rightarrow> prf_t \<Rightarrow> unit tem \<Rightarrow> unit tem" where
  "on_prf info p m = ifT (bindR (TEgetPrf info) (\<lambda>q. Inr (q = p))) m (retT ())"

definition both_akv :: "'f ntype \<Rightarrow> 'f ntype \<Rightarrow> bool cres" where
  "both_akv a b = andR (TYisAKV a) (TYisAKV b)"

subsection \<open>Constant folding\<close>

definition member_value :: "'f ntype \<Rightarrow> nat \<Rightarrow> 'f const option cres" where
  "member_value args i = bindR (TYgetProductMember args i) (\<lambda>t. bindR (TYgetValue t) (\<lambda>v. Inr (Some v)))"

definition ApplyCF :: "'f tenv \<Rightarrow> te_info \<Rightarrow> 'f ntype \<Rightarrow> 'f const tem" where
  "ApplyCF E info args =
     bindT (liftT (TYgetProductSize args)) (\<lambda>n.
     bindT (liftT (TEgetCFFun (te_fops E) info)) (\<lambda>f.
     bindT (if n = 1 then bindT (liftT (member_value args 0)) (\<lambda>a. liftOT (f a None None))
            else if n = 2 then bindT (liftT (member_value args 0)) (\<lambda>a.
              bindT (liftT (member_value args 1)) (\<lambda>b. liftOT (f a b None)))
            else if n = 3 then bindT (liftT (member_value args 0)) (\<lambda>a.
              bindT (liftT (member_value args 1)) (\<lambda>b.
              bindT (liftT (member_value args 2)) (\<lambda>c. liftOT (f a b c))))
            else liftT (Inl (Unreachable ''ApplyCF''))) (\<lambda>res. case res of
       None \<Rightarrow> liftT (Inl (AssertFail ''ApplyCF''))
     | Some c \<Rightarrow> retT c)))"

definition folded :: "'f tenv \<Rightarrow> te_info \<Rightarrow> 'f ntype \<Rightarrow> 'f ntype cres \<Rightarrow> 'f ntype list tem" where
  "folded E info args b = bindT (liftT b) (\<lambda>b. bindT (ApplyCF E info args) (\<lambda>c. one_type (TYmakeAKV b c)))"

subsection \<open>Identity, arrays and conversions\<close>

definition NTCCTprf_dummy :: "'f tenv \<Rightarrow> te_info \<Rightarrow> 'f ntype \<Rightarrow> 'f ntype tem" where
  "NTCCTprf_dummy E info args = liftT (Inl (Unreachable ''prf not yet implemented''))"

definition NTCCTprf_id :: "'f tenv \<Rightarrow> te_info \<Rightarrow> 'f ntype \<Rightarrow> 'f ntype tem" where
  "NTCCTprf_id E info args = liftT (TYcopyType args)"

fun foldT :: "('x \<Rightarrow> 'a \<Rightarrow> 'a tem) \<Rightarrow> 'x list \<Rightarrow> 'a \<Rightarrow> 'a tem" where
  "foldT f [] a = retT a"
| "foldT f (x # xs) a = bindT (f x a) (foldT f xs)"

text \<open>The elements, from number 2 on, are compared with the type found so far.\<close>

definition array_elem :: "'f tenv \<Rightarrow> 'f ntype \<Rightarrow> nat \<Rightarrow> 'f ntype \<Rightarrow> 'f ntype tem" where
  "array_elem E elems i elem = member elems i (\<lambda>elem2.
     bindT (TEassureSameScalarType E elem elem2) (\<lambda>u. TEassureSameShape elem elem2))"

definition array_value :: "'f ntype \<Rightarrow> 'f ntype \<Rightarrow> 'f ntype \<Rightarrow> nat \<Rightarrow> 'f ntype cres" where
  "array_value elems outer elem num_elems =
     bindR (bindR (bindR (TYgetProductMember elems 1) TYgetValue) COcopyConstant) (\<lambda>val.
     bindR (foldR (\<lambda>i tmp. bindR (bindR (TYgetProductMember elems i) TYgetValue) (COcat tmp))
              [2..<num_elems] val) (\<lambda>val.
     bindR (TYgetShape outer) (\<lambda>shp. bindR (TYgetShape elem) (\<lambda>eshp.
     bindR (bindR (SHappendShapes shp eshp) COmakeConstantFromShape) (\<lambda>tmp.
     bindR (scalar_of elem) (\<lambda>b. bindR (COreshape tmp val) (TYmakeAKV b)))))))"

definition NTCCTprf_array :: "'f tenv \<Rightarrow> te_info \<Rightarrow> 'f ntype \<Rightarrow> 'f ntype tem" where
  "NTCCTprf_array E info elems =
     member elems 0 (\<lambda>outer. member elems 1 (\<lambda>e1.
     bindT (liftT (TYcopyType e1)) (\<lambda>elem.
     bindT (liftT (TYgetProductSize elems)) (\<lambda>num_elems.
     results 1
      (bindT (foldT (array_elem E elems) [2..<num_elems] elem) (\<lambda>elem.
        stage 1 (retT ())
          (ifT (TYisProdOfAKVafter elems 1)
             (one_type (array_value elems outer elem num_elems))
             (one_type (TYnestTypes outer elem)))))))))"

definition NTCCTprf_type_conv :: "'f tenv \<Rightarrow> te_info \<Rightarrow> 'f ntype \<Rightarrow> 'f ntype tem" where
  "NTCCTprf_type_conv E info args =
     member args 0 (\<lambda>type. member args 1 (\<lambda>arg. results 1
      (bindT (liftT (TYcmpTypes E type arg)) (\<lambda>cmp.
         if cmp = TY_eq \<or> cmp = TY_lt then one_type (TYcopyType type)
         else if cmp = TY_gt then one_type (TYcopyType arg)
         else stage 1 (TEhandleError ''Inferred type %s should match declared type %s'') (retT [NullT])))))"

definition NTCCTprf_enclose :: "'f tenv \<Rightarrow> te_info \<Rightarrow> 'f ntype \<Rightarrow> 'f ntype tem" where
  "NTCCTprf_enclose E info args = member args 1 (\<lambda>to. results 1 (one_type (TYcopyType to)))"

definition NTCCTprf_disclose :: "'f tenv \<Rightarrow> te_info \<Rightarrow> 'f ntype \<Rightarrow> 'f ntype tem" where
  "NTCCTprf_disclose E info args = member args 1 (\<lambda>to. results 1 (one_type (TYcopyType to)))"

text \<open>The number of results is read as an \<open>unsigned int\<close>.\<close>

definition NTCCTprf_dispatch_error :: "'f tenv \<Rightarrow> te_info \<Rightarrow> 'f ntype \<Rightarrow> 'f ntype tem" where
  "NTCCTprf_dispatch_error E info args =
     member args 0 (\<lambda>num_rets_t. liftT (
     bindR (TYisAKV num_rets_t) (\<lambda>akv. dbug_assert ''dispatch_error: constant'' akv
     (bindR (TYgetValue num_rets_t) (\<lambda>co.
        dbug_assert ''dispatch_error: integer'' (COgetType co = T_int)
        (dbug_assert ''dispatch_error: scalar'' (COgetDim co = 0)
        (bindR (rd_int (COgetDataVec co) 0) (\<lambda>n. let num_rets = nat (n mod 2 ^ 32) in
           cfor 0 (int num_rets) (\<lambda>i res.
             bindR (bindR (TYgetProductMember args (nat i + 1)) TYcopyType) (TYsetProductMember res (nat i)))
           (TYmakeEmptyProductType num_rets)))))))))"

subsection \<open>Errors and guards\<close>

definition NTCCTprf_conditional_error :: "'f tenv \<Rightarrow> te_info \<Rightarrow> 'f ntype \<Rightarrow> 'f ntype tem" where
  "NTCCTprf_conditional_error E info args =
     member args 0 (\<lambda>acc. member args 1 (\<lambda>pred. results 1
      (stage 1 (seqT [TEassureBoolS acc, TEassureBoolS pred])
        (ifT (andR (TYisAKV pred) (bindR (TYgetValue pred) (\<lambda>v. COisTrue (te_fops E) v True)))
           (one_type (TYcopyType acc))
           (one_type (aks_scalar (TYmakeSimpleType T_bool)))))))"

text \<open>
  The predicates of a guard, from number \<open>num_rets\<close> on; the flag tells whether all of them are
  known to hold.
\<close>

definition guard_pred :: "'f tenv \<Rightarrow> 'f ntype \<Rightarrow> nat \<Rightarrow> bool \<Rightarrow> bool tem" where
  "guard_pred E args i all_true = member args i (\<lambda>m.
     bindT (TEassureBoolS m) (\<lambda>u.
     ifT (TYisAKV m)
       (ifT (bindR (TYgetValue m) (\<lambda>v. COisFalse (te_fops E) v False))
          (bindT (TEhandleError ''guard predicate failed'') (\<lambda>u. retT False))
          (retT all_true))
       (retT False)))"

definition guard_result :: "'f ntype \<Rightarrow> nat \<Rightarrow> bool \<Rightarrow> 'f ntype cres" where
  "guard_result args num_rets all_true =
     cfor 0 (int num_rets) (\<lambda>i res.
       bindR (TYgetProductMember args (nat i)) (\<lambda>m.
       bindR (if all_true then Inr m else TYeliminateAKV m) (\<lambda>m.
       bindR (TYcopyType m) (TYsetProductMember res (nat i)))))
     (TYmakeEmptyProductType num_rets)"

text \<open>If a predicate fails, the result is a bottom type, not a product.\<close>

definition NTCCTprf_guard :: "'f tenv \<Rightarrow> te_info \<Rightarrow> 'f ntype \<Rightarrow> 'f ntype tem" where
  "NTCCTprf_guard E info args =
     bindT (liftT (TEgetNumRets info)) (\<lambda>num_rets.
     bindT (liftT (TYgetProductSize args)) (\<lambda>num_args.
     if 0 < num_rets \<and> num_rets + 1 \<le> num_args
     then bindT (foldT (guard_pred E args) [num_rets..<num_args] True) (\<lambda>all_true.
          bindT TEfetchErrors (\<lambda>err_msg. case err_msg of
            Some m \<Rightarrow> retT (TYmakeBottomType (Some m))
          | None \<Rightarrow> liftT (guard_result args num_rets all_true)))
     else liftT (Inl (AssertFail ''NTCCTprf_guard''))))"

definition NTCCTprf_noteminval :: "'f tenv \<Rightarrow> te_info \<Rightarrow> 'f ntype \<Rightarrow> 'f ntype tem" where
  "NTCCTprf_noteminval E info args = member args 0 (\<lambda>arg. results 1 (one_type (TYcopyType arg)))"

definition NTCCTprf_notemaxval :: "'f tenv \<Rightarrow> te_info \<Rightarrow> 'f ntype \<Rightarrow> 'f ntype tem" where
  "NTCCTprf_notemaxval E info args = member args 0 (\<lambda>arg. results 1 (one_type (TYcopyType arg)))"

definition NTCCTprf_noteintersect :: "'f tenv \<Rightarrow> te_info \<Rightarrow> 'f ntype \<Rightarrow> 'f ntype tem" where
  "NTCCTprf_noteintersect E info args =
     member args 0 (\<lambda>arg. results 1 (one_type (bindR (TYeliminateAKV arg) TYcopyType)))"

definition NTCCTprf_type_constraint :: "'f tenv \<Rightarrow> te_info \<Rightarrow> 'f ntype \<Rightarrow> 'f ntype tem" where
  "NTCCTprf_type_constraint E info args =
     member args 0 (\<lambda>type. member args 1 (\<lambda>arg. results 2
      (bindT (liftT (TYcmpTypes E type arg)) (\<lambda>cmp.
         if cmp = TY_eq \<or> cmp = TY_gt then two_types (TYcopyType arg) (true_pred E)
         else if cmp = TY_lt then two_types (TYcopyType type) bool_pred
         else stage 2 (TEhandleError ''Inferred type %s should match required type %s'')
                (retT [NullT, NullT])))))"

definition NTCCTprf_same_shape :: "'f tenv \<Rightarrow> te_info \<Rightarrow> 'f ntype \<Rightarrow> 'f ntype tem" where
  "NTCCTprf_same_shape E info args =
     member args 0 (\<lambda>array1. member args 1 (\<lambda>array2. results 3
      (bindT (seqT [TEassureSimpleType array1, TEassureSimpleType array2]) (\<lambda>u.
       bindT (TEassureSameShape array1 array2) (\<lambda>res1.
       stage 3 (retT ()) (stage 3 (TEassureSameSimpleType array1 array2)
        (ifT (andR (TUshapeKnown array1) (TUshapeKnown array2))
          (bindT (two_types (TYcopyType array1) (TYcopyType array2)) (\<lambda>rs.
             bindT (liftT (true_pred E)) (\<lambda>p. retT (rs @ [p]))))
          (bindT (two_types (Inr res1) (TYcopyType res1)) (\<lambda>rs.
             bindT (liftT bool_pred) (\<lambda>p. retT (rs @ [p]))))))))))) "

text \<open>A check that succeeds: the first argument with the predicate, or without its value.\<close>

definition checked :: "'f tenv \<Rightarrow> bool cres \<Rightarrow> 'f ntype \<Rightarrow> 'f ntype list tem" where
  "checked E known t = ifT known (two_types (TYcopyType t) (true_pred E)) (two_types (TYeliminateAKV t) bool_pred)"

definition NTCCTprf_shape_matches_dim_VxA :: "'f tenv \<Rightarrow> te_info \<Rightarrow> 'f ntype \<Rightarrow> 'f ntype tem" where
  "NTCCTprf_shape_matches_dim_VxA E info args =
     member args 0 (\<lambda>idx. member args 1 (\<lambda>array. results 2
      (stage 2 (seqT [TEassureIntV idx, TEassureSimpleType array])
      (stage 2 (TEassureShpMatchesDim idx array)
        (checked E (andR (TUshapeKnown idx) (TUdimKnown array)) idx)))))"

definition NTCCTprf_non_neg_S :: "'f tenv \<Rightarrow> te_info \<Rightarrow> 'f ntype \<Rightarrow> 'f ntype tem" where
  "NTCCTprf_non_neg_S E info args =
     member args 0 (\<lambda>idx. results 2
      (stage 2 (TEassureNonNegativeValues_S idx)
        (ifT (TYisAKV idx) (two_types (TYcopyType idx) (true_pred E)) (two_types (TYcopyType idx) bool_pred))))"

definition NTCCTprf_non_neg_V :: "'f tenv \<Rightarrow> te_info \<Rightarrow> 'f ntype \<Rightarrow> 'f ntype tem" where
  "NTCCTprf_non_neg_V E info args =
     member args 0 (\<lambda>idx. results 2
      (stage 2 (TEassureNonNegativeValues_V idx)
        (ifT (TYisAKV idx) (two_types (TYcopyType idx) (true_pred E)) (two_types (TYcopyType idx) bool_pred))))"

text \<open>The function for scalar indices fetches errors three times, but adds none after the first.\<close>

definition NTCCTprf_val_shape_S :: "'f tenv \<Rightarrow> te_info \<Rightarrow> 'f ntype \<Rightarrow> 'f ntype tem" where
  "NTCCTprf_val_shape_S E info args =
     member args 0 (\<lambda>idx. member args 1 (\<lambda>array. results 2
      (stage 2 (seqT [TEassureIntS idx, TEassureSimpleType array])
      (stage 2 (retT ())
      (stage 2 (retT ())
        (checked E (andR (TYisAKV idx) (TUshapeKnown array)) idx))))))"

definition NTCCTprf_val_shape_V :: "'f tenv \<Rightarrow> te_info \<Rightarrow> 'f ntype \<Rightarrow> 'f ntype tem" where
  "NTCCTprf_val_shape_V E info args =
     member args 0 (\<lambda>idx. member args 1 (\<lambda>array. results 2
      (stage 2 (seqT [TEassureIntV idx, TEassureSimpleType array])
      (stage 2 (TEassureShpMatchesDim idx array)
      (stage 2 (TEassureValMatchesShape idx array)
        (checked E (andR (TYisAKV idx) (TUshapeKnown array)) idx))))))"

definition NTCCTprf_val_lt_val_SxS :: "'f tenv \<Rightarrow> te_info \<Rightarrow> 'f ntype \<Rightarrow> 'f ntype tem" where
  "NTCCTprf_val_lt_val_SxS E info args =
     member args 0 (\<lambda>iv1. member args 1 (\<lambda>iv2. results 2
      (stage 2 (seqT [TEassureIntS iv1, TEassureIntS iv2])
      (stage 2 (TEassureValLtVal_SxS iv1 iv2)
        (checked E (both_akv iv1 iv2) iv1)))))"

definition NTCCTprf_val_le_val_SxS :: "'f tenv \<Rightarrow> te_info \<Rightarrow> 'f ntype \<Rightarrow> 'f ntype tem" where
  "NTCCTprf_val_le_val_SxS E info args =
     member args 0 (\<lambda>iv1. member args 1 (\<lambda>iv2. results 2
      (stage 2 (seqT [TEassureIntS iv1, TEassureIntS iv2])
      (stage 2 (TEassureValLeVal_SxS iv1 iv2)
        (checked E (both_akv iv1 iv2) iv1)))))"

definition NTCCTprf_val_le_val_VxV :: "'f tenv \<Rightarrow> te_info \<Rightarrow> 'f ntype \<Rightarrow> 'f ntype tem" where
  "NTCCTprf_val_le_val_VxV E info args =
     member args 0 (\<lambda>iv1. member args 1 (\<lambda>iv2. results 2
      (stage 2 (seqT [TEassureIntV iv1, TEassureIntV iv2])
      (bindT (TEassureSameShape iv1 iv2) (\<lambda>res.
      (stage 2 (retT ())
      (stage 2 (TEassureValLeVal iv1 iv2)
        (checked E (both_akv iv1 iv2) iv1))))))))"

definition NTCCTprf_prod_shape :: "'f tenv \<Rightarrow> te_info \<Rightarrow> 'f ntype \<Rightarrow> 'f ntype tem" where
  "NTCCTprf_prod_shape E info args =
     member args 0 (\<lambda>new_shp. member args 1 (\<lambda>array. results 2
      (stage 2 (seqT [TEassureIntV new_shp, TEassureSimpleType array])
      (stage 2 (TEassureProdValMatchesProdShape new_shp array)
        (checked E (andR (TYisAKV new_shp) (TUshapeKnown array)) new_shp)))))"

text \<open>The number of axes is passed on as a \<open>size_t\<close>.\<close>

definition NTCCTprf_saabind :: "'f tenv \<Rightarrow> te_info \<Rightarrow> 'f ntype \<Rightarrow> 'f ntype tem" where
  "NTCCTprf_saabind E info args =
     member args 0 (\<lambda>dim. member args 1 (\<lambda>shp. member args 2 (\<lambda>type. results 1
      (ifT (TUshapeKnown type) (one_type (TYcopyType type))
      (ifT (TYisAKV shp)
         (one_type (bindR (scalar_of type) (\<lambda>b. bindR (bindR (TYgetValue shp) COconstant2Shape) (TYmakeAKS b))))
      (ifT (TYisAKV dim)
         (one_type (bindR (int_elem dim 0) (\<lambda>n. akd_of (scalar_of type) (to_size n))))
         (one_type (TYcopyType type))))))))"

end
