(* ===== verification/CT_Prf_Struc.thy ===== *)
theory CT_Prf_Struc
  imports CT_Prf
begin

text \<open>
  The type functions of the structural primitives of \<open>src/libsac2c/typecheck/ct_prf.c\<close>: queries of shape
  and distribution, reshaping, selection and modification of arrays, taking, dropping and
  concatenation, masks, offsets and hiding.
\<close>

subsection \<open>Queries\<close>

definition NTCCTprf_dim_A :: "'f tenv \<Rightarrow> te_info \<Rightarrow> 'f ntype \<Rightarrow> 'f ntype tem" where
  "NTCCTprf_dim_A E info args = nargs 1 args (member args 0 (\<lambda>array. results 1
     (ifT (orR (TYisAKV array) (orR (TYisAKS array) (TYisAKD array)))
       (one_type (bindR (TYmakeSimpleType T_int) (\<lambda>b.
          bindR (bindR (TYgetDim array) COmakeConstantFromInt) (TYmakeAKV b))))
       (one_type (aks_scalar (TYmakeSimpleType T_int))))))"

definition NTCCTprf_isDist_A :: "'f tenv \<Rightarrow> te_info \<Rightarrow> 'f ntype \<Rightarrow> 'f ntype tem" where
  "NTCCTprf_isDist_A E info args = nargs 1 args (results 1
     (stage 1 (retT ()) (one_type (aks_scalar (TYmakeSimpleType T_bool)))))"

definition NTCCTprf_firstElems_A :: "'f tenv \<Rightarrow> te_info \<Rightarrow> 'f ntype \<Rightarrow> 'f ntype tem" where
  "NTCCTprf_firstElems_A E info args = nargs 1 args (results 1
     (stage 1 (retT ()) (one_type (aks_scalar (TYmakeSimpleType T_ulong)))))"

definition NTCCTprf_localFrom_A :: "'f tenv \<Rightarrow> te_info \<Rightarrow> 'f ntype \<Rightarrow> 'f ntype tem" where
  "NTCCTprf_localFrom_A E info args = nargs 1 args (results 1
     (stage 1 (retT ()) (one_type (aks_scalar (TYmakeSimpleType T_int)))))"

definition NTCCTprf_localCount_A :: "'f tenv \<Rightarrow> te_info \<Rightarrow> 'f ntype \<Rightarrow> 'f ntype tem" where
  "NTCCTprf_localCount_A E info args = nargs 1 args (results 1
     (stage 1 (retT ()) (one_type (aks_scalar (TYmakeSimpleType T_int)))))"

definition NTCCTprf_offs_A :: "'f tenv \<Rightarrow> te_info \<Rightarrow> 'f ntype \<Rightarrow> 'f ntype tem" where
  "NTCCTprf_offs_A E info args = nargs 1 args (results 1
     (stage 1 (retT ()) (one_type (aks_scalar (TYmakeSimpleType T_ulong)))))"

definition shape_type :: "'f ntype \<Rightarrow> 'f ntype cres" where
  "shape_type arg = bindR (NTYPE_CON arg) (\<lambda>c. bindR (TYmakeSimpleType T_int) (\<lambda>b. case c of
     TC_akv k \<Rightarrow> bindR (bindR (TYgetShape arg) COmakeConstantFromShape) (TYmakeAKV b)
   | TC_aks s \<Rightarrow> bindR (bindR (TYgetShape arg) COmakeConstantFromShape) (TYmakeAKV b)
   | TC_akd d p \<Rightarrow> bindR (bindR (TYgetDim arg) (\<lambda>n. SHcreateShape 1 [n])) (TYmakeAKS b)
   | TC_audgz \<Rightarrow> akd_of (Inr b) 1
   | TC_aud \<Rightarrow> akd_of (Inr b) 1
   | _ \<Rightarrow> Inl (Unreachable ''NTCCTprf_shape_A'')))"

definition NTCCTprf_shape_A :: "'f tenv \<Rightarrow> te_info \<Rightarrow> 'f ntype \<Rightarrow> 'f ntype tem" where
  "NTCCTprf_shape_A E info args = nargs 1 args (member args 0 (\<lambda>arg. results 1
     (stage 1 (retT ()) (one_type (shape_type arg)))))"

subsection \<open>Reshaping\<close>

definition reshape_type :: "'f ntype \<Rightarrow> 'f ntype \<Rightarrow> 'f ntype cres" where
  "reshape_type new_shp array = bindR (NTYPE_CON new_shp) (\<lambda>c. case c of
     TC_akv k \<Rightarrow> bindR (scalar_of array) (\<lambda>b. bindR (COconstant2Shape k) (TYmakeAKS b))
   | TC_aks s \<Rightarrow> bindR (SHgetUnrLen s) (\<lambda>n.
       if n = 0 then aks_scalar (scalar_of array)
       else bindR (SHgetExtent s 0) (\<lambda>e. akd_of (scalar_of array) (to_size e)))
   | TC_akd d p \<Rightarrow> bindR (scalar_of array) TYmakeAUD
   | TC_audgz \<Rightarrow> bindR (scalar_of array) TYmakeAUD
   | TC_aud \<Rightarrow> bindR (scalar_of array) TYmakeAUD
   | _ \<Rightarrow> Inl (Unreachable ''NTCCTprf_reshape_VxA''))"

definition NTCCTprf_reshape_VxA :: "'f tenv \<Rightarrow> te_info \<Rightarrow> 'f ntype \<Rightarrow> 'f ntype tem" where
  "NTCCTprf_reshape_VxA E info args = nargs 2 args (member args 0 (\<lambda>new_shp. member args 1 (\<lambda>array. results 1
     (stage 1 (TEassureIntV new_shp)
     (stage 1 (seqT [TEassureNonNegativeValues_V new_shp, TEassureProdValMatchesProdShape new_shp array])
       (ifT (both_akv new_shp array)
         (folded E info args (scalar_of array))
         (one_type (reshape_type new_shp array))))))))"

subsection \<open>Selection\<close>

definition NTCCTprf_sel_VxA :: "'f tenv \<Rightarrow> te_info \<Rightarrow> 'f ntype \<Rightarrow> 'f ntype tem" where
  "NTCCTprf_sel_VxA E info args = nargs 2 args (member args 0 (\<lambda>idx. member args 1 (\<lambda>array. results 1
     (stage 1 (TEassureIntV idx)
     (stage 1 (TEassureShpMatchesDim idx array)
     (stage 1 (TEassureValMatchesShape idx array)
       (ifT (both_akv idx array)
         (folded E info args (scalar_of array))
         (one_type (aks_scalar (scalar_of array)))))))))) "

text \<open>An error ends the compiler.\<close>

definition NTCCTprf_all_V :: "'f tenv \<Rightarrow> te_info \<Rightarrow> 'f ntype \<Rightarrow> 'f ntype tem" where
  "NTCCTprf_all_V E info args = nargs 1 args (member args 0 (\<lambda>array. results 1
     (bindT (TEassureBoolV array) (\<lambda>u. bindT TEfetchErrors (\<lambda>err_msg. case err_msg of
        Some m \<Rightarrow> liftT (Inl (CompilerAbort m))
      | None \<Rightarrow> ifT (TYisAKV array)
          (folded E info args (scalar_of array))
          (one_type (aks_scalar (scalar_of array))))))))"

text \<open>The value of type zero is built over the element type of the argument itself, not over a copy.\<close>

definition NTCCTprf_zero_A :: "'f tenv \<Rightarrow> te_info \<Rightarrow> 'f ntype \<Rightarrow> 'f ntype tem" where
  "NTCCTprf_zero_A E info args = member args 0 (\<lambda>array. results 1
     (one_type (bindR (TYgetScalar array) (\<lambda>b. ifR (TYisSimple b)
        (bindR (TYgetSimpleType b) (\<lambda>st. bindR (SHmakeShape 0) (\<lambda>s.
         bindR (COmakeZero (te_fops E) st s) (\<lambda>c. case c of
            None \<Rightarrow> Inl NullDeref | Some c \<Rightarrow> TYmakeAKV b c))))
        (aks_scalar (TYcopyType b))))))"

text \<open>The function for indices into distributed arrays also prints what it does.\<close>

definition NTCCTprf_sel_VxIA :: "'f tenv \<Rightarrow> te_info \<Rightarrow> 'f ntype \<Rightarrow> 'f ntype tem" where
  "NTCCTprf_sel_VxIA E info args = nargs 2 args (member args 0 (\<lambda>idx. member args 1 (\<lambda>array. results 1
     (stage 1 (TEassureIntV idx)
     (stage 1 (TEassureShpMatchesDim idx array)
     (stage 1 (TEassureValMatchesShape idx array)
       (ifT (both_akv idx array)
         (folded E info args (scalar_of array))
         (one_type (aks_scalar (scalar_of array)))))))))) "

definition NTCCTprf_idx_selS :: "'f tenv \<Rightarrow> te_info \<Rightarrow> 'f ntype \<Rightarrow> 'f ntype tem" where
  "NTCCTprf_idx_selS E info args = nargs 2 args (member args 0 (\<lambda>idx. member args 1 (\<lambda>array. results 1
     (stage 1 (seqT [TEassureIntS idx, TEassureSimpleType array])
     (stage 1 (TEassureIdxMatchesShape idx array)
       (ifT (both_akv idx array)
         (folded E info args (scalar_of array))
         (one_type (aks_scalar (scalar_of array)))))))))"

definition extent_type :: "'f ntype \<Rightarrow> 'f ntype \<Rightarrow> 'f ntype cres" where
  "extent_type idx array =
     ifR (andR (TYisAKV idx) (orR (TYisAKS array) (TYisAKV array)))
       (bindR (int_elem idx 0) (\<lambda>i. bindR (TYmakeSimpleType T_int) (\<lambda>b.
        bindR (bindR (extent array i) COmakeConstantFromInt) (TYmakeAKV b))))
       (aks_scalar (TYmakeSimpleType T_int))"

definition NTCCTprf_shape_sel :: "'f tenv \<Rightarrow> te_info \<Rightarrow> 'f ntype \<Rightarrow> 'f ntype tem" where
  "NTCCTprf_shape_sel E info args = nargs 2 args (member args 0 (\<lambda>idx. member args 1 (\<lambda>array. results 1
     (stage 1 (seqT [TEassureIntVectLengthOne idx, TEassureSimpleType array])
     (stage 1 (TEassureValMatchesDim idx array)
       (one_type (extent_type idx array)))))))"

definition NTCCTprf_idx_shape_sel :: "'f tenv \<Rightarrow> te_info \<Rightarrow> 'f ntype \<Rightarrow> 'f ntype tem" where
  "NTCCTprf_idx_shape_sel E info args = nargs 2 args (member args 0 (\<lambda>idx. member args 1 (\<lambda>array. results 1
     (stage 1 (seqT [TEassureIntS idx, TEassureSimpleType array])
     (stage 1 (TEassureValMatchesDim idx array)
       (one_type (extent_type idx array)))))))"

subsection \<open>Modification\<close>

text \<open>The result: folded if all three arguments are known, otherwise the array without its value.\<close>

definition modified :: "'f tenv \<Rightarrow> te_info \<Rightarrow> 'f ntype \<Rightarrow> 'f ntype \<Rightarrow> 'f ntype \<Rightarrow> 'f ntype \<Rightarrow> 'f ntype list tem" where
  "modified E info args array idx val =
     ifT (TYisAKV array)
       (ifT (both_akv idx val) (folded E info args (scalar_of array)) (one_type (aks_like array)))
       (one_type (TYcopyType array))"

definition NTCCTprf_modarray_AxSxS :: "'f tenv \<Rightarrow> te_info \<Rightarrow> 'f ntype \<Rightarrow> 'f ntype tem" where
  "NTCCTprf_modarray_AxSxS E info args = nargs 3 args (member args 0 (\<lambda>array. member args 1 (\<lambda>idx. member args 2 (\<lambda>val.
     results 1
     (stage 1 (seqT [TEassureScalar val, TEassureScalar idx, TEassureSameScalarType E array val, TEassureIntS idx])
       (modified E info args array idx val))))))"

definition NTCCTprf_modarray_AxVxS :: "'f tenv \<Rightarrow> te_info \<Rightarrow> 'f ntype \<Rightarrow> 'f ntype tem" where
  "NTCCTprf_modarray_AxVxS E info args = nargs 3 args (member args 0 (\<lambda>array. member args 1 (\<lambda>idx. member args 2 (\<lambda>val.
     results 1
     (stage 1 (seqT [TEassureScalar val, TEassureSameScalarType E array val, TEassureIntV idx])
     (stage 1 (TEassureShpMatchesDim idx array)
     (stage 1 (TEassureValMatchesShape idx array)
       (modified E info args array idx val))))))))"

definition NTCCTprf_modarray_AxVxA :: "'f tenv \<Rightarrow> te_info \<Rightarrow> 'f ntype \<Rightarrow> 'f ntype tem" where
  "NTCCTprf_modarray_AxVxA E info args = nargs 3 args (member args 0 (\<lambda>array. member args 1 (\<lambda>idx. member args 2 (\<lambda>val.
     results 1
     (stage 1 (seqT [TEassureSameScalarType E array val, TEassureIntV idx])
     (stage 1 (TEassureShpPlusDimMatchesDim idx val array)
     (stage 1 (seqT [TEassureShpIsPostfixOfShp val array, TEassureValMatchesShape idx array])
       (modified E info args array idx val))))))))"

text \<open>Two assurances of this function are commented out (\<open>FIXME\<close>).\<close>

definition NTCCTprf_modarray_AxSxA :: "'f tenv \<Rightarrow> te_info \<Rightarrow> 'f ntype \<Rightarrow> 'f ntype tem" where
  "NTCCTprf_modarray_AxSxA E info args = nargs 3 args (member args 0 (\<lambda>array. member args 1 (\<lambda>idx. member args 2 (\<lambda>val.
     results 1
     (stage 1 (seqT [TEassureSameScalarType E array val, TEassureIntS idx])
     (stage 1 (retT ())
     (stage 1 (TEassureShpIsPostfixOfShp val array)
       (modified E info args array idx val))))))))"

subsection \<open>Taking, dropping and concatenation\<close>

definition abs_elem :: "'f ntype \<Rightarrow> int cres" where
  "abs_elem t = bindR (int_elem t 0) (\<lambda>v. ck_int \<bar>v\<bar>)"

definition NTCCTprf_take_SxV :: "'f tenv \<Rightarrow> te_info \<Rightarrow> 'f ntype \<Rightarrow> 'f ntype tem" where
  "NTCCTprf_take_SxV E info args = nargs 2 args (member args 0 (\<lambda>array1. member args 1 (\<lambda>array2. results 1
     (stage 1 (seqT [TEassureIntS array1, TEassureSimpleType array2, TEassureVect array2])
     (stage 1 (TEassureAbsValFitsShape array1 array2)
       (ifT (TYisAKV array1)
         (ifT (TYisAKV array2)
           (folded E info args (scalar_of array2))
           (one_type (bindR (bindR (abs_elem array1) (\<lambda>m. SHcreateShape 1 [m])) (\<lambda>shp.
              bindR (scalar_of array2) (\<lambda>b. TYmakeAKS b shp)))))
         (one_type (akd_of (scalar_of array2) 1))))))))"

definition NTCCTprf_drop_SxV :: "'f tenv \<Rightarrow> te_info \<Rightarrow> 'f ntype \<Rightarrow> 'f ntype tem" where
  "NTCCTprf_drop_SxV E info args = nargs 2 args (member args 0 (\<lambda>array1. member args 1 (\<lambda>array2. results 1
     (stage 1 (seqT [TEassureIntS array1, TEassureSimpleType array2, TEassureVect array2])
     (stage 1 (TEassureAbsValFitsShape array1 array2)
       (ifT (andR (TYisAKV array1) (orR (TYisAKV array2) (TYisAKS array2)))
         (ifT (TYisAKV array2)
           (folded E info args (scalar_of array2))
           (one_type (bindR (bindR (TYgetShape array2) SHcopyShape) (\<lambda>shp.
              bindR (SHgetExtent shp 0) (\<lambda>e. bindR (abs_elem array1) (\<lambda>m.
              bindR (ck_int (e - m)) (\<lambda>d. bindR (SHsetExtent shp 0 d) (\<lambda>shp.
              bindR (scalar_of array2) (\<lambda>b. TYmakeAKS b shp)))))))))
         (one_type (akd_of (scalar_of array2) 1))))))))"

definition NTCCTprf_cat_VxV :: "'f tenv \<Rightarrow> te_info \<Rightarrow> 'f ntype \<Rightarrow> 'f ntype tem" where
  "NTCCTprf_cat_VxV E info args = nargs 2 args (member args 0 (\<lambda>array1. member args 1 (\<lambda>array2. results 1
     (stage 1 (seqT [TEassureSimpleType array1, TEassureSimpleType array2, TEassureVect array1, TEassureVect array2])
     (stage 1 (TEassureSameSimpleType array1 array2)
       (ifT (both_akv array1 array2)
         (folded E info args (scalar_of array1))
       (ifT (andR (orR (TYisAKV array1) (TYisAKS array1)) (orR (TYisAKV array2) (TYisAKS array2)))
         (one_type (bindR (scalar_of array1) (\<lambda>b.
            bindR (extent array1 0) (\<lambda>e1. bindR (extent array2 0) (\<lambda>e2.
            bindR (bindR (ck_int (e1 + e2)) (\<lambda>n. SHcreateShape 1 [n])) (TYmakeAKS b))))))
         (one_type (akd_of (scalar_of array1) 1)))))))))"

subsection \<open>Masks\<close>

definition elim_copy :: "'f ntype \<Rightarrow> 'f ntype cres" where
  "elim_copy arg = bindR (TYeliminateAKV arg) TYcopyType"

definition NTCCTprf_mask_VxSxS :: "'f tenv \<Rightarrow> te_info \<Rightarrow> 'f ntype \<Rightarrow> 'f ntype tem" where
  "NTCCTprf_mask_VxSxS E info args = member args 2 (\<lambda>arg.
     bindT (liftT (elim_copy arg)) (\<lambda>res. bindT (liftT (TYmakeProductType 0 [res])) (\<lambda>res.
       liftT (Inl (Unreachable ''_mask_VxSxS_'')))))"

text \<open>
  The next two functions fetch the messages, build a bottom type if there are any, and then
  return the type of the vector all the same.
\<close>

definition NTCCTprf_mask_VxSxV :: "'f tenv \<Rightarrow> te_info \<Rightarrow> 'f ntype \<Rightarrow> 'f ntype tem" where
  "NTCCTprf_mask_VxSxV E info args = member args 0 (\<lambda>array1. member args 2 (\<lambda>array3.
     bindT (TEassureSameShape array3 array1) (\<lambda>res. bindT TEfetchErrors (\<lambda>err_msg.
       results 1 (one_type (TYeliminateAKV array3))))))"

definition NTCCTprf_mask_VxVxS :: "'f tenv \<Rightarrow> te_info \<Rightarrow> 'f ntype \<Rightarrow> 'f ntype tem" where
  "NTCCTprf_mask_VxVxS E info args = member args 0 (\<lambda>p. member args 1 (\<lambda>array2.
     bindT (TEassureSameShape p array2) (\<lambda>res. bindT TEfetchErrors (\<lambda>err_msg.
       results 1 (one_type (TYeliminateAKV array2))))))"

definition bottom_if :: "string option \<Rightarrow> 'f ntype \<Rightarrow> 'f ntype" where
  "bottom_if err_msg res = (case err_msg of Some m \<Rightarrow> TYmakeBottomType (Some m) | None \<Rightarrow> res)"

definition NTCCTprf_mask_VxVxV :: "'f tenv \<Rightarrow> te_info \<Rightarrow> 'f ntype \<Rightarrow> 'f ntype tem" where
  "NTCCTprf_mask_VxVxV E info args = member args 0 (\<lambda>p. member args 1 (\<lambda>array2. member args 2 (\<lambda>array3.
     bindT (TEassureSameShape p array2) (\<lambda>res. bindT TEfetchErrors (\<lambda>err_msg.
     bindT (case err_msg of
        Some m \<Rightarrow> retT (TYmakeBottomType (Some m))
      | None \<Rightarrow> bindT (TEassureSameShape array2 array3) (\<lambda>res.
          bindT TEfetchErrors (\<lambda>err_msg. retT (bottom_if err_msg res)))) (\<lambda>res.
       results 1 (one_type (TYeliminateAKV res))))))))"

definition NTCCTprf_mask_SxSxS :: "'f tenv \<Rightarrow> te_info \<Rightarrow> 'f ntype \<Rightarrow> 'f ntype tem" where
  "NTCCTprf_mask_SxSxS E info args = member args 1 (\<lambda>arg. results 1 (one_type (elim_copy arg)))"

definition NTCCTprf_mask_SxSxV :: "'f tenv \<Rightarrow> te_info \<Rightarrow> 'f ntype \<Rightarrow> 'f ntype tem" where
  "NTCCTprf_mask_SxSxV E info args = member args 2 (\<lambda>arg. results 1 (one_type (elim_copy arg)))"

definition NTCCTprf_mask_SxVxS :: "'f tenv \<Rightarrow> te_info \<Rightarrow> 'f ntype \<Rightarrow> 'f ntype tem" where
  "NTCCTprf_mask_SxVxS E info args = member args 1 (\<lambda>arg. results 1 (one_type (elim_copy arg)))"

definition NTCCTprf_mask_SxVxV :: "'f tenv \<Rightarrow> te_info \<Rightarrow> 'f ntype \<Rightarrow> 'f ntype tem" where
  "NTCCTprf_mask_SxVxV E info args = member args 1 (\<lambda>array2. member args 2 (\<lambda>array3.
     bindT (TEassureSameShape array2 array3) (\<lambda>res. bindT TEfetchErrors (\<lambda>err_msg.
       results 1 (one_type (TYeliminateAKV (bottom_if err_msg res)))))))"

subsection \<open>Offsets and hiding\<close>

definition NTCCTprf_vect2offset :: "'f tenv \<Rightarrow> te_info \<Rightarrow> 'f ntype \<Rightarrow> 'f ntype tem" where
  "NTCCTprf_vect2offset E info args = nargs 2 args (member args 0 (\<lambda>shp. member args 1 (\<lambda>idx. results 1
     (stage 1 (seqT [TEassureSimpleType shp, TEassureIntV shp, TEassureIntV idx])
       (ifT (both_akv shp idx)
         (folded E info args (TYmakeSimpleType T_int))
         (one_type (aks_scalar (TYmakeSimpleType T_int))))))))"

text \<open>
  The bottom type built for the messages of the first assurances is overwritten: after they
  have been fetched the buffer is empty, and the function continues as if there had been no error.
\<close>

definition NTCCTprf_idxs2offset :: "'f tenv \<Rightarrow> te_info \<Rightarrow> 'f ntype \<Rightarrow> 'f ntype tem" where
  "NTCCTprf_idxs2offset E info args =
     bindT (liftT (TYgetProductSize args)) (\<lambda>n. let len = to_size (int n - 1) in
     member args 0 (\<lambda>shp.
     bindT (seqT [TEassureIntV shp, TEassureShpMatchesInt shp len]) (\<lambda>u.
     bindT TEfetchErrors (\<lambda>err_msg.
     bindT (case err_msg of
         Some m \<Rightarrow> retT ()
       | None \<Rightarrow> seqT (map (\<lambda>i. member args (i + 1) TEassureIntS) [0..<len])) (\<lambda>u.
     results 1 (stage 1 (retT ()) (one_type (aks_scalar (TYmakeSimpleType T_int)))))))))"

definition NTCCTprf_hideValue_SxA :: "'f tenv \<Rightarrow> te_info \<Rightarrow> 'f ntype \<Rightarrow> 'f ntype tem" where
  "NTCCTprf_hideValue_SxA E info args = nargs 2 args (member args 1 (\<lambda>array. results 1
     (ifT (TYisAKV array) (one_type (aks_like array)) (one_type (TYcopyType array)))))"

definition NTCCTprf_hideShape_SxA :: "'f tenv \<Rightarrow> te_info \<Rightarrow> 'f ntype \<Rightarrow> 'f ntype tem" where
  "NTCCTprf_hideShape_SxA E info args = nargs 2 args (member args 1 (\<lambda>array. results 1
     (ifT (TUisScalar array) (one_type (aks_like array))
     (ifT (TUshapeKnown array)
       (one_type (bindR (TYgetShape array) (\<lambda>s. akd_of (scalar_of array) (to_size (SHgetDim s)))))
       (one_type (TYcopyType array))))))"

definition NTCCTprf_hideDim_SxA :: "'f tenv \<Rightarrow> te_info \<Rightarrow> 'f ntype \<Rightarrow> 'f ntype tem" where
  "NTCCTprf_hideDim_SxA E info args = nargs 2 args (member args 1 (\<lambda>array. results 1
     (one_type (bindR (scalar_of array) TYmakeAUD))))"

end
