(* ===== verification/CT_Prf_Ari.thy ===== *)
theory CT_Prf_Ari
  imports CT_Prf_Struc
begin

text \<open>
  The type functions of the conversions and of the arithmetic, relational, logical and integer
  primitives of \<open>src/libsac2c/typecheck/ct_prf.c\<close>, for the combinations of scalar and vector
  arguments, those of the SIMD primitives, and the table that gives the type function of a
  primitive (\<open>src/libsac2c/tree/prf_info.mac\<close>).
\<close>

text \<open>The type of the arguments, or of the result with the element type bool.\<close>

definition bool_like :: "'f ntype \<Rightarrow> 'f ntype cres" where
  "bool_like res = bindR (TYmakeSimpleType T_bool) (TYsetScalar res)"

subsection \<open>Conversions\<close>

definition ConvS :: "'f tenv \<Rightarrow> te_info \<Rightarrow> 'f ntype \<Rightarrow> simpletype \<Rightarrow> 'f ntype tem" where
  "ConvS E info args st = nargs 1 args (member args 0 (\<lambda>array. results 1
     (stage 1 (seqT [TEassureScalar array, TEassureSimpleType array])
       (ifT (TYisAKV array)
         (folded E info args (TYmakeSimpleType st))
         (one_type (aks_scalar (TYmakeSimpleType st)))))))"

definition NTCCTprf_tob_S :: "'f tenv \<Rightarrow> te_info \<Rightarrow> 'f ntype \<Rightarrow> 'f ntype tem" where
  "NTCCTprf_tob_S E info args = ConvS E info args T_byte"

definition NTCCTprf_tos_S :: "'f tenv \<Rightarrow> te_info \<Rightarrow> 'f ntype \<Rightarrow> 'f ntype tem" where
  "NTCCTprf_tos_S E info args = ConvS E info args T_short"

definition NTCCTprf_toi_S :: "'f tenv \<Rightarrow> te_info \<Rightarrow> 'f ntype \<Rightarrow> 'f ntype tem" where
  "NTCCTprf_toi_S E info args = ConvS E info args T_int"

definition NTCCTprf_tol_S :: "'f tenv \<Rightarrow> te_info \<Rightarrow> 'f ntype \<Rightarrow> 'f ntype tem" where
  "NTCCTprf_tol_S E info args = ConvS E info args T_long"

definition NTCCTprf_toll_S :: "'f tenv \<Rightarrow> te_info \<Rightarrow> 'f ntype \<Rightarrow> 'f ntype tem" where
  "NTCCTprf_toll_S E info args = ConvS E info args T_longlong"

definition NTCCTprf_toub_S :: "'f tenv \<Rightarrow> te_info \<Rightarrow> 'f ntype \<Rightarrow> 'f ntype tem" where
  "NTCCTprf_toub_S E info args = ConvS E info args T_ubyte"

definition NTCCTprf_tous_S :: "'f tenv \<Rightarrow> te_info \<Rightarrow> 'f ntype \<Rightarrow> 'f ntype tem" where
  "NTCCTprf_tous_S E info args = ConvS E info args T_ushort"

definition NTCCTprf_toui_S :: "'f tenv \<Rightarrow> te_info \<Rightarrow> 'f ntype \<Rightarrow> 'f ntype tem" where
  "NTCCTprf_toui_S E info args = ConvS E info args T_uint"

definition NTCCTprf_toul_S :: "'f tenv \<Rightarrow> te_info \<Rightarrow> 'f ntype \<Rightarrow> 'f ntype tem" where
  "NTCCTprf_toul_S E info args = ConvS E info args T_ulong"

definition NTCCTprf_toull_S :: "'f tenv \<Rightarrow> te_info \<Rightarrow> 'f ntype \<Rightarrow> 'f ntype tem" where
  "NTCCTprf_toull_S E info args = ConvS E info args T_ulonglong"

definition NTCCTprf_tof_S :: "'f tenv \<Rightarrow> te_info \<Rightarrow> 'f ntype \<Rightarrow> 'f ntype tem" where
  "NTCCTprf_tof_S E info args = ConvS E info args T_float"

definition NTCCTprf_tod_S :: "'f tenv \<Rightarrow> te_info \<Rightarrow> 'f ntype \<Rightarrow> 'f ntype tem" where
  "NTCCTprf_tod_S E info args = ConvS E info args T_double"

definition NTCCTprf_tobool_S :: "'f tenv \<Rightarrow> te_info \<Rightarrow> 'f ntype \<Rightarrow> 'f ntype tem" where
  "NTCCTprf_tobool_S E info args = ConvS E info args T_bool"

definition NTCCTprf_toc_S :: "'f tenv \<Rightarrow> te_info \<Rightarrow> 'f ntype \<Rightarrow> 'f ntype tem" where
  "NTCCTprf_toc_S E info args = ConvS E info args T_char"

subsection \<open>Arithmetic\<close>

definition NTCCTprf_ari_op_SxS :: "'f tenv \<Rightarrow> te_info \<Rightarrow> 'f ntype \<Rightarrow> 'f ntype tem" where
  "NTCCTprf_ari_op_SxS E info args = nargs 2 args (member args 0 (\<lambda>array1. member args 1 (\<lambda>array2. results 1
     (stage 1 (seqT [TEassureNumS array1, TEassureNumS array2])
     (stage 1 (TEassureSameSimpleType array1 array2)
     (stage 1 (on_prf info F_div_SxS (TEassureValNonZero E array2))
     (stage 1 (on_prf info F_mod_SxS (TEassureValNonZero E array2))
       (ifT (both_akv array1 array2)
         (folded E info args (scalar_of array1))
         (one_type (aks_scalar (scalar_of array1)))))))))))"

definition NTCCTprf_ari_op_SxV :: "'f tenv \<Rightarrow> te_info \<Rightarrow> 'f ntype \<Rightarrow> 'f ntype tem" where
  "NTCCTprf_ari_op_SxV E info args = nargs 2 args (member args 0 (\<lambda>array1. member args 1 (\<lambda>array2. results 1
     (stage 1 (seqT [TEassureNumS array1, TEassureNumV array2])
     (stage 1 (TEassureSameSimpleType array1 array2)
     (stage 1 (on_prf info F_div_SxV (TEassureValNonZero E array2))
     (stage 1 (on_prf info F_mod_SxV (TEassureValNonZero E array2))
       (ifT (both_akv array1 array2)
         (folded E info args (scalar_of array1))
         (one_type (TYeliminateAKV array2))))))))))"

definition NTCCTprf_ari_op_VxS :: "'f tenv \<Rightarrow> te_info \<Rightarrow> 'f ntype \<Rightarrow> 'f ntype tem" where
  "NTCCTprf_ari_op_VxS E info args = nargs 2 args (member args 0 (\<lambda>array1. member args 1 (\<lambda>array2. results 1
     (stage 1 (seqT [TEassureNumV array1, TEassureNumS array2])
     (stage 1 (TEassureSameSimpleType array1 array2)
     (stage 1 (on_prf info F_div_VxS (TEassureValNonZero E array2))
     (stage 1 (on_prf info F_mod_VxS (TEassureValNonZero E array2))
       (ifT (both_akv array1 array2)
         (folded E info args (scalar_of array1))
         (one_type (TYeliminateAKV array1))))))))))"

definition NTCCTprf_ari_op_VxV :: "'f tenv \<Rightarrow> te_info \<Rightarrow> 'f ntype \<Rightarrow> 'f ntype tem" where
  "NTCCTprf_ari_op_VxV E info args = nargs 2 args (member args 0 (\<lambda>array1. member args 1 (\<lambda>array2. results 1
     (bindT (seqT [TEassureNumV array1, TEassureNumV array2]) (\<lambda>u.
     bindT (TEassureSameShape array1 array2) (\<lambda>res.
     (stage 1 (retT ())
     (stage 1 (TEassureSameSimpleType array1 array2)
     (stage 1 (on_prf info F_div_VxV (TEassureValNonZero E array2))
     (stage 1 (on_prf info F_mod_VxV (TEassureValNonZero E array2))
       (ifT (both_akv array1 array2)
         (folded E info args (scalar_of array1))
         (one_type (Inr res)))))))))))))"

definition NTCCTprf_ari_op_S :: "'f tenv \<Rightarrow> te_info \<Rightarrow> 'f ntype \<Rightarrow> 'f ntype tem" where
  "NTCCTprf_ari_op_S E info args = nargs 1 args (member args 0 (\<lambda>array. results 1
     (stage 1 (ifT (bindR (TEgetPrf info) (\<lambda>p. Inr (p = F_neg_S)))
         (TEassureSignedNumS array) (TEassureNumS array))
       (ifT (TYisAKV array)
         (folded E info args (scalar_of array))
         (one_type (TYcopyType array))))))"

definition NTCCTprf_ari_op_V :: "'f tenv \<Rightarrow> te_info \<Rightarrow> 'f ntype \<Rightarrow> 'f ntype tem" where
  "NTCCTprf_ari_op_V E info args = nargs 1 args (member args 0 (\<lambda>array. results 1
     (stage 1 (ifT (bindR (TEgetPrf info) (\<lambda>p. Inr (p = F_neg_V)))
         (TEassureSignedNumV array) (TEassureNumV array))
       (ifT (TYisAKV array)
         (folded E info args (scalar_of array))
         (one_type (TYcopyType array))))))"

definition NTCCTprf_ari_op_A :: "'f tenv \<Rightarrow> te_info \<Rightarrow> 'f ntype \<Rightarrow> 'f ntype tem" where
  "NTCCTprf_ari_op_A E info args = nargs 1 args (member args 0 (\<lambda>array. results 1
     (stage 1 (TEassureSimpleType array)
       (ifT (TYisAKV array)
         (folded E info args (scalar_of array))
         (one_type (TYcopyType array))))))"

subsection \<open>Relational operations\<close>

definition NTCCTprf_rel_op_SxS :: "'f tenv \<Rightarrow> te_info \<Rightarrow> 'f ntype \<Rightarrow> 'f ntype tem" where
  "NTCCTprf_rel_op_SxS E info args = nargs 2 args (member args 0 (\<lambda>array1. member args 1 (\<lambda>array2. results 1
     (stage 1 (seqT [TEassureSimpleS array1, TEassureSimpleS array2])
     (stage 1 (TEassureSameSimpleType array1 array2)
       (ifT (both_akv array1 array2)
         (folded E info args (TYmakeSimpleType T_bool))
         (one_type (aks_scalar (TYmakeSimpleType T_bool)))))))))"

definition NTCCTprf_rel_op_SxV :: "'f tenv \<Rightarrow> te_info \<Rightarrow> 'f ntype \<Rightarrow> 'f ntype tem" where
  "NTCCTprf_rel_op_SxV E info args = nargs 2 args (member args 0 (\<lambda>array1. member args 1 (\<lambda>array2. results 1
     (stage 1 (seqT [TEassureSimpleS array1, TEassureSimpleV array2])
     (stage 1 (TEassureSameSimpleType array1 array2)
       (ifT (both_akv array1 array2)
         (folded E info args (TYmakeSimpleType T_bool))
         (one_type (bindR (TYeliminateAKV array2) bool_like))))))))"

definition NTCCTprf_rel_op_VxS :: "'f tenv \<Rightarrow> te_info \<Rightarrow> 'f ntype \<Rightarrow> 'f ntype tem" where
  "NTCCTprf_rel_op_VxS E info args = nargs 2 args (member args 0 (\<lambda>array1. member args 1 (\<lambda>array2. results 1
     (stage 1 (seqT [TEassureSimpleV array1, TEassureSimpleS array2])
     (stage 1 (TEassureSameSimpleType array1 array2)
       (ifT (both_akv array1 array2)
         (folded E info args (TYmakeSimpleType T_bool))
         (one_type (bindR (TYeliminateAKV array1) bool_like))))))))"

definition NTCCTprf_rel_op_VxV :: "'f tenv \<Rightarrow> te_info \<Rightarrow> 'f ntype \<Rightarrow> 'f ntype tem" where
  "NTCCTprf_rel_op_VxV E info args = nargs 2 args (member args 0 (\<lambda>array1. member args 1 (\<lambda>array2. results 1
     (bindT (seqT [TEassureSimpleV array1, TEassureSimpleV array2]) (\<lambda>u.
     bindT (TEassureSameShape array1 array2) (\<lambda>res.
     (stage 1 (retT ())
     (stage 1 (TEassureSameSimpleType array1 array2)
       (ifT (both_akv array1 array2)
         (folded E info args (TYmakeSimpleType T_bool))
         (one_type (bool_like res)))))))))))"

subsection \<open>Logical operations\<close>

text \<open>If only one argument of a mixed operation is known, the type of the vector is copied, with its value.\<close>

definition NTCCTprf_log_op_SxS :: "'f tenv \<Rightarrow> te_info \<Rightarrow> 'f ntype \<Rightarrow> 'f ntype tem" where
  "NTCCTprf_log_op_SxS E info args = nargs 2 args (member args 0 (\<lambda>array1. member args 1 (\<lambda>array2. results 1
     (stage 1 (seqT [TEassureBoolS array1, TEassureBoolS array2])
       (ifT (both_akv array1 array2)
         (folded E info args (TYmakeSimpleType T_bool))
         (one_type (aks_scalar (TYmakeSimpleType T_bool))))))))"

definition NTCCTprf_log_op_SxV :: "'f tenv \<Rightarrow> te_info \<Rightarrow> 'f ntype \<Rightarrow> 'f ntype tem" where
  "NTCCTprf_log_op_SxV E info args = nargs 2 args (member args 0 (\<lambda>array1. member args 1 (\<lambda>array2. results 1
     (stage 1 (seqT [TEassureBoolS array1, TEassureBoolV array2])
       (ifT (both_akv array1 array2)
         (folded E info args (TYmakeSimpleType T_bool))
         (one_type (TYcopyType array2)))))))"

definition NTCCTprf_log_op_VxS :: "'f tenv \<Rightarrow> te_info \<Rightarrow> 'f ntype \<Rightarrow> 'f ntype tem" where
  "NTCCTprf_log_op_VxS E info args = nargs 2 args (member args 0 (\<lambda>array1. member args 1 (\<lambda>array2. results 1
     (stage 1 (seqT [TEassureBoolV array1, TEassureBoolS array2])
       (ifT (both_akv array1 array2)
         (folded E info args (TYmakeSimpleType T_bool))
         (one_type (TYcopyType array1)))))))"

definition NTCCTprf_log_op_VxV :: "'f tenv \<Rightarrow> te_info \<Rightarrow> 'f ntype \<Rightarrow> 'f ntype tem" where
  "NTCCTprf_log_op_VxV E info args = nargs 2 args (member args 0 (\<lambda>array1. member args 1 (\<lambda>array2. results 1
     (bindT (seqT [TEassureBoolV array1, TEassureBoolV array2]) (\<lambda>u.
     bindT (TEassureSameShape array1 array2) (\<lambda>res.
     (stage 1 (retT ())
       (ifT (both_akv array1 array2)
         (folded E info args (TYmakeSimpleType T_bool))
         (one_type (Inr res))))))))))"

definition NTCCTprf_log_op_V :: "'f tenv \<Rightarrow> te_info \<Rightarrow> 'f ntype \<Rightarrow> 'f ntype tem" where
  "NTCCTprf_log_op_V E info args = nargs 1 args (member args 0 (\<lambda>array. results 1
     (stage 1 (TEassureBoolV array)
       (ifT (TYisAKV array)
         (folded E info args (TYmakeSimpleType T_bool))
         (one_type (TYcopyType array))))))"

definition NTCCTprf_log_op_S :: "'f tenv \<Rightarrow> te_info \<Rightarrow> 'f ntype \<Rightarrow> 'f ntype tem" where
  "NTCCTprf_log_op_S E info args = nargs 1 args (member args 0 (\<lambda>array. results 1
     (stage 1 (TEassureBoolS array)
       (ifT (TYisAKV array)
         (folded E info args (TYmakeSimpleType T_bool))
         (one_type (TYcopyType array))))))"

subsection \<open>Integer operations\<close>

definition NTCCTprf_int_op_SxS :: "'f tenv \<Rightarrow> te_info \<Rightarrow> 'f ntype \<Rightarrow> 'f ntype tem" where
  "NTCCTprf_int_op_SxS E info args = nargs 2 args (member args 0 (\<lambda>array1. member args 1 (\<lambda>array2. results 1
     (stage 1 (seqT [TEassureWholeS array1, TEassureWholeS array2])
     (stage 1 (TEassureSameSimpleType array1 array2)
     (stage 1 (on_prf info F_mod_SxS (TEassureValNonZero E array2))
       (ifT (both_akv array1 array2)
         (folded E info args (scalar_of array1))
         (one_type (TYeliminateAKV array1)))))))))"

definition NTCCTprf_int_op_SxV :: "'f tenv \<Rightarrow> te_info \<Rightarrow> 'f ntype \<Rightarrow> 'f ntype tem" where
  "NTCCTprf_int_op_SxV E info args = nargs 2 args (member args 0 (\<lambda>array1. member args 1 (\<lambda>array2. results 1
     (stage 1 (seqT [TEassureWholeS array1, TEassureWholeV array2])
     (stage 1 (TEassureSameSimpleType array1 array2)
     (stage 1 (on_prf info F_mod_SxV (TEassureValNonZero E array2))
       (ifT (both_akv array1 array2)
         (folded E info args (scalar_of array1))
         (one_type (TYeliminateAKV array2)))))))))"

definition NTCCTprf_int_op_VxS :: "'f tenv \<Rightarrow> te_info \<Rightarrow> 'f ntype \<Rightarrow> 'f ntype tem" where
  "NTCCTprf_int_op_VxS E info args = nargs 2 args (member args 0 (\<lambda>array1. member args 1 (\<lambda>array2. results 1
     (stage 1 (seqT [TEassureWholeV array1, TEassureWholeS array2])
     (stage 1 (TEassureSameSimpleType array1 array2)
     (stage 1 (on_prf info F_mod_VxS (TEassureValNonZero E array2))
       (ifT (both_akv array1 array2)
         (folded E info args (scalar_of array1))
         (one_type (TYeliminateAKV array1)))))))))"

definition NTCCTprf_int_op_VxV :: "'f tenv \<Rightarrow> te_info \<Rightarrow> 'f ntype \<Rightarrow> 'f ntype tem" where
  "NTCCTprf_int_op_VxV E info args = nargs 2 args (member args 0 (\<lambda>array1. member args 1 (\<lambda>array2. results 1
     (bindT (seqT [TEassureWholeV array1, TEassureWholeV array2]) (\<lambda>u.
     bindT (TEassureSameShape array1 array2) (\<lambda>res.
     (stage 1 (retT ())
     (stage 1 (TEassureSameSimpleType array1 array2)
     (stage 1 (on_prf info F_mod_VxV (TEassureValNonZero E array2))
       (ifT (both_akv array1 array2)
         (folded E info args (scalar_of array1))
         (one_type (Inr res))))))))))))"

subsection \<open>SIMD operations\<close>

text \<open>A zero divisor is looked for if the primitive is the division of vectors, which it never is here.\<close>

definition NTCCTprf_ari_op_SMxSM :: "'f tenv \<Rightarrow> te_info \<Rightarrow> 'f ntype \<Rightarrow> 'f ntype tem" where
  "NTCCTprf_ari_op_SMxSM E info args = nargs 3 args (member args 0 (\<lambda>simd_length. member args 1 (\<lambda>array1. member args 2 (\<lambda>array2. results 1
     (bindT (seqT [TEassureScalar simd_length, TEassureNumV array1, TEassureNumV array2]) (\<lambda>u.
     bindT (TEassureSameShape array1 array2) (\<lambda>res.
     (stage 1 (retT ())
     (stage 1 (TEassureSameSimpleType array1 array2)
     (stage 1 (on_prf info F_div_VxV (TEassureValNonZero E array2))
       (ifT (both_akv array1 array2)
         (folded E info args (scalar_of array1))
         (one_type (Inr res)))))))))))))"

definition NTCCTprf_simd_sel_VxA :: "'f tenv \<Rightarrow> te_info \<Rightarrow> 'f ntype \<Rightarrow> 'f ntype tem" where
  "NTCCTprf_simd_sel_VxA E info args = nargs 3 args (member args 0 (\<lambda>simd_length. member args 1 (\<lambda>idx. member args 2 (\<lambda>array. 
     bindT (seqT [TEassureScalar simd_length, TEassureIntV idx]) (\<lambda>u.
     bindT (liftT (TYgetValue simd_length)) (\<lambda>co.
     if COgetType co = T_int
     then bindT (liftT (rd_int (COgetDataVec co) 0)) (\<lambda>vec_length. results 1
       (stage 1 (retT ())
       (stage 1 (TEassureShpMatchesDim idx array)
       (stage 1 (TEassureValMatchesShape idx array)
         (ifT (both_akv idx array)
           (folded E info args (scalar_of array))
           (one_type (bindR (scalar_of array) (\<lambda>b. bindR (SHcreateShape 1 [vec_length]) (TYmakeAKS b)))))))))
     else liftT (Inl (AssertFail ''simd_sel_VxA''))))))))"

definition NTCCTprf_simd_sel_SxS :: "'f tenv \<Rightarrow> te_info \<Rightarrow> 'f ntype \<Rightarrow> 'f ntype tem" where
  "NTCCTprf_simd_sel_SxS E info args = nargs 2 args (member args 0 (\<lambda>idx. member args 1 (\<lambda>simd_vector. 
     bindT (seqT [TEassureScalar idx, TEassureScalar simd_vector]) (\<lambda>u.
     ifT (bindR (bindR (TYgetScalar simd_vector) TYgetSimpleType) (\<lambda>s. Inr (s = T_floatvec)))
       (results 1 (stage 1 (retT ()) (one_type (aks_scalar (TYmakeSimpleType T_float)))))
       (liftT (Inl (AssertFail ''simd_sel_SxS'')))))))"

definition NTCCTprf_simd_modarray :: "'f tenv \<Rightarrow> te_info \<Rightarrow> 'f ntype \<Rightarrow> 'f ntype tem" where
  "NTCCTprf_simd_modarray E info args = nargs 3 args (member args 0 (\<lambda>simd_vector. member args 1 (\<lambda>idx. member args 2 (\<lambda>value. 
     bindT (seqT [TEassureScalar simd_vector, TEassureScalar idx, TEassureScalar value]) (\<lambda>u.
     ifT (andR (bindR (bindR (TYgetScalar simd_vector) TYgetSimpleType) (\<lambda>s. Inr (s = T_floatvec)))
         (andR (bindR (bindR (TYgetScalar idx) TYgetSimpleType) (\<lambda>s. Inr (s = T_int)))
               (bindR (bindR (TYgetScalar value) TYgetSimpleType) (\<lambda>s. Inr (s = T_float)))))
       (results 1 (stage 1 (retT ()) (one_type (aks_scalar (TYmakeSimpleType T_floatvec)))))
       (liftT (Inl (AssertFail ''simd_modarray''))))))))"

subsection \<open>The table of type functions\<close>

text \<open>The table has no entry for the type functions of casts and nested shapes.\<close>

fun bin_ntc :: "bin_op \<Rightarrow> vs \<Rightarrow> 'f tenv \<Rightarrow> te_info \<Rightarrow> 'f ntype \<Rightarrow> 'f ntype tem" where
  "bin_ntc op v =
     (if op \<in> {P_and, P_or}
      then (case v of SxS \<Rightarrow> NTCCTprf_log_op_SxS | SxV \<Rightarrow> NTCCTprf_log_op_SxV
                    | VxS \<Rightarrow> NTCCTprf_log_op_VxS | VxV \<Rightarrow> NTCCTprf_log_op_VxV)
      else if op \<in> {P_eq, P_neq, P_le, P_lt, P_ge, P_gt}
      then (case v of SxS \<Rightarrow> NTCCTprf_rel_op_SxS | SxV \<Rightarrow> NTCCTprf_rel_op_SxV
                    | VxS \<Rightarrow> NTCCTprf_rel_op_VxS | VxV \<Rightarrow> NTCCTprf_rel_op_VxV)
      else if op \<in> {P_mod, P_aplmod}
      then (case v of SxS \<Rightarrow> NTCCTprf_int_op_SxS | SxV \<Rightarrow> NTCCTprf_int_op_SxV
                    | VxS \<Rightarrow> NTCCTprf_int_op_VxS | VxV \<Rightarrow> NTCCTprf_int_op_VxV)
      else (case v of SxS \<Rightarrow> NTCCTprf_ari_op_SxS | SxV \<Rightarrow> NTCCTprf_ari_op_SxV
                    | VxS \<Rightarrow> NTCCTprf_ari_op_VxS | VxV \<Rightarrow> NTCCTprf_ari_op_VxV))"

fun conv_ntc :: "conv_op \<Rightarrow> 'f tenv \<Rightarrow> te_info \<Rightarrow> 'f ntype \<Rightarrow> 'f ntype tem" where
  "conv_ntc P_tobool = NTCCTprf_tobool_S"
| "conv_ntc P_toc = NTCCTprf_toc_S"
| "conv_ntc P_tob = NTCCTprf_tob_S"
| "conv_ntc P_tos = NTCCTprf_tos_S"
| "conv_ntc P_toi = NTCCTprf_toi_S"
| "conv_ntc P_tol = NTCCTprf_tol_S"
| "conv_ntc P_toll = NTCCTprf_toll_S"
| "conv_ntc P_toub = NTCCTprf_toub_S"
| "conv_ntc P_tous = NTCCTprf_tous_S"
| "conv_ntc P_toui = NTCCTprf_toui_S"
| "conv_ntc P_toul = NTCCTprf_toul_S"
| "conv_ntc P_toull = NTCCTprf_toull_S"
| "conv_ntc P_tof = NTCCTprf_tof_S"
| "conv_ntc P_tod = NTCCTprf_tod_S"

fun un_ntc :: "un_op \<Rightarrow> sv \<Rightarrow> 'f tenv \<Rightarrow> te_info \<Rightarrow> 'f ntype \<Rightarrow> 'f ntype tem" where
  "un_ntc P_not S_arg = NTCCTprf_log_op_S" | "un_ntc P_not V_arg = NTCCTprf_log_op_V"
| "un_ntc _ S_arg = NTCCTprf_ari_op_S" | "un_ntc _ V_arg = NTCCTprf_ari_op_V"

fun mask_ntc :: "sv \<Rightarrow> sv \<Rightarrow> sv \<Rightarrow> 'f tenv \<Rightarrow> te_info \<Rightarrow> 'f ntype \<Rightarrow> 'f ntype tem" where
  "mask_ntc S_arg S_arg S_arg = NTCCTprf_mask_SxSxS" | "mask_ntc S_arg S_arg V_arg = NTCCTprf_mask_SxSxV"
| "mask_ntc S_arg V_arg S_arg = NTCCTprf_mask_SxVxS" | "mask_ntc S_arg V_arg V_arg = NTCCTprf_mask_SxVxV"
| "mask_ntc V_arg S_arg S_arg = NTCCTprf_mask_VxSxS" | "mask_ntc V_arg S_arg V_arg = NTCCTprf_mask_VxSxV"
| "mask_ntc V_arg V_arg S_arg = NTCCTprf_mask_VxVxS" | "mask_ntc V_arg V_arg V_arg = NTCCTprf_mask_VxVxV"

fun query_ntc :: "query_op \<Rightarrow> 'f tenv \<Rightarrow> te_info \<Rightarrow> 'f ntype \<Rightarrow> 'f ntype tem" where
  "query_ntc P_dim_A = NTCCTprf_dim_A" | "query_ntc P_isDist_A = NTCCTprf_isDist_A"
| "query_ntc P_firstElems_A = NTCCTprf_firstElems_A" | "query_ntc P_localFrom_A = NTCCTprf_localFrom_A"
| "query_ntc P_localCount_A = NTCCTprf_localCount_A" | "query_ntc P_offs_A = NTCCTprf_offs_A"
| "query_ntc P_shape_A = NTCCTprf_shape_A"

fun struct_ntc :: "struct_op \<Rightarrow> 'f tenv \<Rightarrow> te_info \<Rightarrow> 'f ntype \<Rightarrow> 'f ntype tem" where
  "struct_ntc P_reshape_VxA = NTCCTprf_reshape_VxA" | "struct_ntc P_sel_VxA = NTCCTprf_sel_VxA"
| "struct_ntc P_all_V = NTCCTprf_all_V" | "struct_ntc P_zero_A = NTCCTprf_zero_A"
| "struct_ntc P_sel_VxA_distmem_local = NTCCTprf_sel_VxA" | "struct_ntc P_sel_VxIA = NTCCTprf_sel_VxIA"
| "struct_ntc P_modarray_AxVxS = NTCCTprf_modarray_AxVxS" | "struct_ntc P_modarray_AxVxA = NTCCTprf_modarray_AxVxA"
| "struct_ntc P_cat_VxV = NTCCTprf_cat_VxV" | "struct_ntc P_take_SxV = NTCCTprf_take_SxV"
| "struct_ntc P_drop_SxV = NTCCTprf_drop_SxV"

fun index_ntc :: "index_op \<Rightarrow> 'f tenv \<Rightarrow> te_info \<Rightarrow> 'f ntype \<Rightarrow> 'f ntype tem" where
  "index_ntc P_idx_shape_sel = NTCCTprf_idx_shape_sel" | "index_ntc P_idx_sel = NTCCTprf_idx_selS"
| "index_ntc P_idx_modarray_AxSxS = NTCCTprf_modarray_AxSxS" | "index_ntc P_idx_modarray_AxSxA = NTCCTprf_modarray_AxSxA"
| "index_ntc P_idxs2offset = NTCCTprf_idxs2offset" | "index_ntc P_vect2offset = NTCCTprf_vect2offset"
| "index_ntc P_simd_sel_SxS = NTCCTprf_simd_sel_SxS" | "index_ntc P_simd_modarray = NTCCTprf_simd_modarray"
| "index_ntc P_simd_sel_VxA = NTCCTprf_simd_sel_VxA"

fun guard_ntc :: "guard_op \<Rightarrow> 'f tenv \<Rightarrow> te_info \<Rightarrow> 'f ntype \<Rightarrow> 'f ntype tem" where
  "guard_ntc P_guard = NTCCTprf_guard" | "guard_ntc P_type_constraint = NTCCTprf_type_constraint"
| "guard_ntc P_same_shape_AxA = NTCCTprf_same_shape" | "guard_ntc P_shape_matches_dim_VxA = NTCCTprf_shape_matches_dim_VxA"
| "guard_ntc P_non_neg_val_S = NTCCTprf_non_neg_S" | "guard_ntc P_non_neg_val_V = NTCCTprf_non_neg_V"
| "guard_ntc P_val_lt_shape_VxA = NTCCTprf_val_shape_V" | "guard_ntc P_val_lt_val_SxS = NTCCTprf_val_lt_val_SxS"
| "guard_ntc P_val_le_val_SxS = NTCCTprf_val_le_val_SxS" | "guard_ntc P_val_le_val_VxV = NTCCTprf_val_le_val_VxV"
| "guard_ntc P_prod_matches_prod_shape_VxA = NTCCTprf_prod_shape"

fun meta_ntc :: "meta_op \<Rightarrow> 'f tenv \<Rightarrow> te_info \<Rightarrow> 'f ntype \<Rightarrow> 'f ntype tem" where
  "meta_ntc P_hideValue_SxA = NTCCTprf_hideValue_SxA" | "meta_ntc P_hideShape_SxA = NTCCTprf_hideShape_SxA"
| "meta_ntc P_hideDim_SxA = NTCCTprf_hideDim_SxA" | "meta_ntc P_noteintersect = NTCCTprf_noteintersect"
| "meta_ntc P_noteminval = NTCCTprf_noteminval" | "meta_ntc P_notemaxval = NTCCTprf_notemaxval"
| "meta_ntc P_enclose = NTCCTprf_enclose" | "meta_ntc P_disclose = NTCCTprf_disclose"
| "meta_ntc P_saabind = NTCCTprf_saabind" | "meta_ntc P_type_conv = NTCCTprf_type_conv"
| "meta_ntc P_dispatch_error = NTCCTprf_dispatch_error"
| "meta_ntc P_conditional_error = NTCCTprf_conditional_error"

fun prf_ntc_funtab :: "prf_t \<Rightarrow> 'f tenv \<Rightarrow> te_info \<Rightarrow> 'f ntype \<Rightarrow> 'f ntype tem" where
  "prf_ntc_funtab (F_bin op v) = bin_ntc op v"
| "prf_ntc_funtab (F_conv op) = conv_ntc op"
| "prf_ntc_funtab (F_un op v) = un_ntc op v"
| "prf_ntc_funtab (F_SMxSM op) = NTCCTprf_ari_op_SMxSM"
| "prf_ntc_funtab (F_mask a b c) = mask_ntc a b c"
| "prf_ntc_funtab (F_query op) = query_ntc op"
| "prf_ntc_funtab (F_struct op) = struct_ntc op"
| "prf_ntc_funtab (F_index op) = index_ntc op"
| "prf_ntc_funtab (F_check op) = guard_ntc op"
| "prf_ntc_funtab (F_meta op) = meta_ntc op"
| "prf_ntc_funtab (F_ident op) = NTCCTprf_id"

end
