(* ===== verification/CT_Inhab.thy ===== *)
theory CT_Inhab
  imports CT_Prf_Ari
begin

text \<open>
  The arrays of a type: \<open>inhab t s xs es\<close> says that an array of simple type \<open>s\<close>, shape \<open>xs\<close> and
  elements \<open>es\<close> is one of the arrays that the type \<open>t\<close> stands for.  The lemmas evaluate the
  accessors, the assurances and the makers of \<open>CT_Prf\<close> on such types, so that a type
  function is run by rewriting.
\<close>

subsection \<open>Inhabitants\<close>

definition elem_type :: "'f ntype \<Rightarrow> simpletype \<Rightarrow> bool" where
  "elem_type b s \<longleftrightarrow> (\<exists>u m. b = NT (TC_simple s u) m [])"

text \<open>What a constructor other than AKV allows as shape.\<close>

fun attr_shape :: "'f tattr \<Rightarrow> int list \<Rightarrow> bool" where
  "attr_shape (TC_aks p) xs = (p = sh xs)"
| "attr_shape (TC_akd d p) xs = (0 < d \<and> d = length xs \<and> p = Some (sh []))"
| "attr_shape TC_audgz xs = (xs \<noteq> [])"
| "attr_shape TC_aud xs = True"
| "attr_shape _ xs = False"

definition has_shape :: "'f ntype \<Rightarrow> simpletype \<Rightarrow> int list \<Rightarrow> bool" where
  "has_shape t s xs \<longleftrightarrow> (\<exists>a m b. t = NT a m [b] \<and> elem_type b s \<and> attr_shape a xs)"

definition has_value :: "'f ntype \<Rightarrow> simpletype \<Rightarrow> int list \<Rightarrow> 'f cval list \<Rightarrow> bool" where
  "has_value t s xs es \<longleftrightarrow> (\<exists>m b. t = NT (TC_akv (con s xs es)) m [b] \<and> elem_type b s)"

definition inhab :: "'f ntype \<Rightarrow> simpletype \<Rightarrow> int list \<Rightarrow> 'f cval list \<Rightarrow> bool" where
  "inhab t s xs es \<longleftrightarrow> con_ok s xs es \<and> (has_value t s xs es \<or> has_shape t s xs)"

lemma inhabI:
  "con_ok s xs es \<Longrightarrow> has_value t s xs es \<Longrightarrow> inhab t s xs es"
  "con_ok s xs es \<Longrightarrow> has_shape t s xs \<Longrightarrow> inhab t s xs es"
  by (simp_all add: inhab_def)

lemma inhab_ok: "inhab t s xs es \<Longrightarrow> con_ok s xs es"
  by (simp add: inhab_def)

lemma has_valueE:
  assumes "has_value t s xs es"
  obtains m b where "t = NT (TC_akv (con s xs es)) m [b]" and "elem_type b s"
  using assms by (auto simp: has_value_def)

lemma has_shapeE:
  assumes "has_shape t s xs"
  obtains a m b where "t = NT a m [b]" and "elem_type b s" and "attr_shape a xs"
  using assms by (auto simp: has_shape_def)

lemma inhabE:
  assumes "inhab t s xs es"
  obtains a m b where "t = NT a m [b]" and "elem_type b s" and "a = TC_akv (con s xs es) \<or> attr_shape a xs"
    and "con_ok s xs es"
  using assms by (auto simp: inhab_def has_shape_def has_value_def)

text \<open>The cases of a constructor that is no AKV.\<close>

lemma attr_shape_cases:
  assumes "attr_shape a xs"
  obtains (aks) "a = TC_aks (sh xs)"
  | (akd) "a = TC_akd (length xs) (Some (sh []))" and "xs \<noteq> []"
  | (audgz) "a = TC_audgz" and "xs \<noteq> []"
  | (aud) "a = TC_aud"
  using assms by (cases a) auto

lemma inhab_not_akv:
  "inhab t s xs es \<Longrightarrow> \<not> has_value t s xs es \<Longrightarrow> has_shape t s xs"
  by (simp add: inhab_def)

text \<open>The five forms of a type that an array inhabits.\<close>

lemma inhab_form:
  assumes "inhab t s xs es"
  obtains (akv) m b where "t = NT (TC_akv (con s xs es)) m [b]" and "elem_type b s"
  | (aks) m b where "t = NT (TC_aks (sh xs)) m [b]" and "elem_type b s"
  | (akd) m b where "t = NT (TC_akd (length xs) (Some (sh []))) m [b]" and "elem_type b s" and "xs \<noteq> []"
  | (audgz) m b where "t = NT TC_audgz m [b]" and "elem_type b s" and "xs \<noteq> []"
  | (aud) m b where "t = NT TC_aud m [b]" and "elem_type b s"
  using assms by (elim inhabE) (auto elim: attr_shape_cases)

subsection \<open>Accessors\<close>

fun akv :: "'f ntype \<Rightarrow> bool" where
  "akv (NT (TC_akv k) m ss) = True"
| "akv _ = False"

fun shp_known :: "'f ntype \<Rightarrow> bool" where
  "shp_known (NT (TC_akv k) m ss) = True"
| "shp_known (NT (TC_aks k) m ss) = True"
| "shp_known _ = False"

fun dim_known :: "'f ntype \<Rightarrow> bool" where
  "dim_known (NT (TC_akv k) m ss) = True"
| "dim_known (NT (TC_aks k) m ss) = True"
| "dim_known (NT (TC_akd d p) m ss) = True"
| "dim_known _ = False"

lemma has_value_akv [simp]: "has_value t s xs es \<Longrightarrow> akv t"
  by (elim has_valueE) simp

lemma has_shape_not_akv [simp]: "has_shape t s xs \<Longrightarrow> \<not> akv t"
  by (elim has_shapeE attr_shape_cases) simp_all

lemma inhab_cases:
  assumes "inhab t s xs es"
  obtains (val) "akv t" and "has_value t s xs es" | (shp) "\<not> akv t" and "has_shape t s xs"
  using assms by (auto simp: inhab_def)

lemma akv_known: "akv t \<Longrightarrow> shp_known t" and shp_known_dim: "shp_known t \<Longrightarrow> dim_known t"
  by (cases t rule: akv.cases; simp) (cases t rule: shp_known.cases; simp)

lemmas test_defs = TYisAKV_def con_akv_def con_shape_def con_dim_def is_con_def TUshapeKnown_def TUdimKnown_def
  TYisAKS_def TYisAKD_def

lemma inhab_tests:
  assumes "inhab t s xs es"
  shows "TYisAKV t = Inr (akv t)" and "con_akv t = Inr (akv t)"
    and "con_shape t = Inr (shp_known t)" and "con_dim t = Inr (dim_known t)"
    and "TUshapeKnown t = Inr (shp_known t)" and "TUdimKnown t = Inr (dim_known t)"
    and "orR (TYisAKV t) (TYisAKS t) = Inr (shp_known t)" and "orR (TYisAKS t) (TYisAKV t) = Inr (shp_known t)"
    and "orR (TYisAKV t) (orR (TYisAKS t) (TYisAKD t)) = Inr (dim_known t)"
  by (rule inhab_form [OF assms]; simp add: test_defs)+

lemma inhab_value:
  assumes "has_value t s xs es"
  shows "TYgetValue t = Inr (con s xs es)"
  using assms by (elim has_valueE) (simp add: TYgetValue_def)

lemmas dim_defs = TYgetDim_def COgetDim_def CONSTANT_DIM_def SHgetDim_sh

lemma inhab_dim:
  assumes "inhab t s xs es" and "dim_known t"
  shows "TYgetDim t = Inr (int (length xs))"
  by (rule inhab_form [OF assms(1)]; use assms(2) in \<open>simp add: dim_defs\<close>)

lemma inhab_shape:
  assumes "inhab t s xs es" and "shp_known t"
  shows "TYgetShape t = Inr (sh xs)"
  by (rule inhab_form [OF assms(1)]; use assms(2) in \<open>simp add: TYgetShape_def COgetShape_def\<close>)

lemma inhab_scalar:
  assumes "inhab t s xs es"
  obtains b where "TYgetScalar t = Inr b" and "elem_type b s"
  by (rule inhab_form [OF assms]; rule that; simp add: TYgetScalar_def)

lemma inhab_extent:
  assumes "inhab t s xs es" and "shp_known t" and "0 \<le> i" and "i < int (length xs)"
  shows "extent t i = Inr (xs ! nat i)"
  using assms by (simp add: extent_def inhab_shape SHgetExtent_sh)

subsection \<open>Matching\<close>

lemma inhab_simple_in:
  assumes "inhab t s xs es"
  shows "simple_in S t = Inr (s \<in> S)" and "MatchSimpleA t = Inr True"
  by (rule inhab_scalar [OF assms];
      auto simp: simple_in_def MatchSimpleA_def elem_type_def TYisSimple_def is_con_def TYgetSimpleType_def)+

lemma inhab_MatchScalar:
  assumes "inhab t s [] es"
  shows "MatchScalar t = Inr True"
  by (rule inhab_form [OF assms]; simp add: MatchScalar_def dim_is_def dim_defs)

lemma inhab_MatchVect:
  assumes "inhab t s [x] es"
  shows "MatchVect t = Inr True"
  by (rule inhab_form [OF assms]; simp add: MatchVect_def dim_is_def dim_defs)

lemmas match_defs = MatchWholeA_def MatchIntA_def MatchBoolA_def MatchNumA_def MatchSignedNumA_def

lemma assure_scalar:
  assumes "inhab t s [] es"
  shows "TEassureScalar t = retT ()"
    and "s \<in> whole_types \<Longrightarrow> TEassureWholeS t = retT ()"
    and "s = T_int \<Longrightarrow> TEassureIntS t = retT ()"
    and "s = T_bool \<Longrightarrow> TEassureBoolS t = retT ()"
    and "s \<in> signed_num_types \<Longrightarrow> TEassureSignedNumS t = retT ()"
    and "s \<in> num_types \<Longrightarrow> TEassureNumS t = retT ()"
    and "TEassureSimpleS t = retT ()"
  by (simp_all add: TEassureScalar_def TEassureWholeS_def TEassureIntS_def TEassureBoolS_def TEassureSignedNumS_def
      TEassureNumS_def TEassureSimpleS_def inhab_MatchScalar [OF assms] match_defs inhab_simple_in [OF assms])

lemma assure_vector:
  assumes "inhab t s [x] es"
  shows "TEassureVect t = retT ()"
    and "s \<in> whole_types \<Longrightarrow> TEassureWholeV t = retT ()"
    and "s = T_int \<Longrightarrow> TEassureIntV t = retT ()"
    and "s = T_bool \<Longrightarrow> TEassureBoolV t = retT ()"
    and "s \<in> signed_num_types \<Longrightarrow> TEassureSignedNumV t = retT ()"
    and "s \<in> num_types \<Longrightarrow> TEassureNumV t = retT ()"
    and "TEassureSimpleV t = retT ()"
  by (simp_all add: TEassureVect_def TEassureWholeV_def TEassureIntV_def TEassureBoolV_def TEassureSignedNumV_def
      TEassureNumV_def TEassureSimpleV_def inhab_MatchVect [OF assms] match_defs inhab_simple_in [OF assms])

lemma assure_simple:
  assumes "inhab t s xs es"
  shows "TEassureSimpleType t = retT ()"
  by (simp add: TEassureSimpleType_def inhab_simple_in [OF assms])

lemma assure_same_simple:
  assumes "inhab t s xs es" and "inhab u s ys fs"
  shows "TEassureSameSimpleType t u = retT ()"
  by (rule inhab_scalar [OF assms(1)]; rule inhab_scalar [OF assms(2)])
    (auto simp: TEassureSameSimpleType_def elem_type_def TYgetSimpleType_def)

subsection \<open>Makers and copies\<close>

lemma copy_elem:
  assumes "elem_type b s"
  obtains c where "TYcopyType b = Inr c" and "elem_type c s"
  using assms by (auto simp: elem_type_def)

lemma inhab_scalar_of:
  assumes "inhab t s xs es"
  obtains b where "scalar_of t = Inr b" and "elem_type b s"
proof -
  obtain b where "TYgetScalar t = Inr b" "elem_type b s" using inhab_scalar [OF assms] .
  moreover obtain c where "TYcopyType b = Inr c" "elem_type c s" using copy_elem [OF calculation(2)] .
  ultimately show ?thesis by (intro that [of c]) (simp_all add: scalar_of_def)
qed

lemma make_elem: "s \<noteq> T_hidden \<Longrightarrow> \<exists>b. TYmakeSimpleType s = Inr b \<and> elem_type b s"
  by (simp add: TYmakeSimpleType_def MakeNtype_def elem_type_def)

lemma elem_aks_scalar:
  assumes "elem_type b s"
  shows "\<exists>r. aks_scalar (Inr b) = Inr r \<and> has_shape r s []"
  using assms by (auto simp: aks_scalar_def SHmakeShape_0 TYmakeAKS_def make_array_eq has_shape_def sh_def)

lemma has_shape_copy:
  assumes "has_shape t s xs"
  shows "\<exists>r. TYcopyType t = Inr r \<and> has_shape r s xs"
proof -
  obtain a m b where t: "t = NT a m [b]" "elem_type b s" "attr_shape a xs" using assms by (rule has_shapeE)
  moreover obtain c where "TYcopyType b = Inr c" "elem_type c s" using copy_elem [OF t(2)] .
  ultimately show ?thesis
    by (cases rule: attr_shape_cases [OF t(3)]) (auto simp: has_shape_def SHcopyShape_sh)
qed

lemma inhab_eliminate:
  assumes "inhab t s xs es"
  shows "\<exists>r. TYeliminateAKV t = Inr r \<and> has_shape r s xs"
proof (rule inhab_cases [OF assms])
  assume val: "has_value t s xs es"
  then obtain m b where t: "t = NT (TC_akv (con s xs es)) m [b]" "elem_type b s" by (elim has_valueE)
  moreover obtain c where "TYcopyType b = Inr c" "elem_type c s" using copy_elem [OF t(2)] .
  ultimately show ?thesis
    by (auto simp: TYgetScalar_def COgetShape_def SHcopyShape_sh TYmakeAKS_def make_array_eq has_shape_def)
next
  assume shp: "has_shape t s xs"
  then obtain a m b where t: "t = NT a m [b]" "attr_shape a xs" by (elim has_shapeE)
  then have "TYeliminateAKV t = TYcopyType t" by (cases a) auto
  with has_shape_copy [OF shp] show ?thesis by simp
qed

lemma inhab_aks_like:
  assumes "inhab t s xs es" and "shp_known t"
  shows "\<exists>r. aks_like t = Inr r \<and> has_shape r s xs"
proof -
  obtain b where "scalar_of t = Inr b" "elem_type b s" using inhab_scalar_of [OF assms(1)] .
  with inhab_shape [OF assms] show ?thesis
    by (auto simp: aks_like_def SHcopyShape_sh TYmakeAKS_def make_array_eq has_shape_def)
qed

lemma has_shape_bool_like:
  assumes "has_shape t s xs"
  shows "\<exists>r. bool_like t = Inr r \<and> has_shape r T_bool xs"
  using assms
  by (auto elim!: has_shapeE simp: bool_like_def TYmakeSimpleType_def MakeNtype_def TYsetScalar_def has_shape_def
      elem_type_def)

lemma elem_akv:
  assumes "elem_type b s"
  shows "\<exists>r. TYmakeAKV b (con s xs es) = Inr r \<and> has_value r s xs es"
  using assms by (auto simp: TYmakeAKV_def make_array_eq has_value_def)

lemma akd_type:
  assumes "elem_type b s" and "0 < n" and "n = length xs"
  shows "\<exists>r. akd_of (Inr b) n = Inr r \<and> has_shape r s xs"
  using assms by (auto simp: akd_of_def SHmakeShape_0 TYmakeAKD_def make_array_eq has_shape_def sh_def)

subsection \<open>Running a type function\<close>

lemma run_nargs [simp]: "n = length ts \<Longrightarrow> nargs n (NT TC_prod m ts) k = k"
  by (simp add: nargs_def TYgetProductSize_def)

lemma run_member [simp]: "i < length ts \<Longrightarrow> member (NT TC_prod m ts) i k = k (ts ! i)"
  by (simp add: member_def TYgetProductMember_def)

lemma run_retT [simp]: "retT x None = Some (Inr (x, None))" "liftT r None = Some (bindR r (\<lambda>x. Inr (x, None)))"
  by (simp_all add: retT_def liftT_def)

lemma run_fetch [simp]: "bindT TEfetchErrors f None = f None None"
  by (simp add: TEfetchErrors_def bindT_def)

lemma run_stage [simp]: "stage n (retT ()) k None = k None"
  by (simp add: stage_def)

lemma run_results_stage [simp]: "results k (stage n (retT ()) r) None = results k r None"
  by (simp add: results_def bindT_def)

lemma run_bind_None: "m None = Some (Inr (x, None)) \<Longrightarrow> bindT m f None = f x None"
  by (simp add: bindT_def)

definition result_type :: "'f ntype \<Rightarrow> bool" where
  "result_type t \<longleftrightarrow> product_member t = Inr True"

lemma has_shape_result: "has_shape t s xs \<Longrightarrow> result_type t"
  by (elim has_shapeE attr_shape_cases)
    (simp_all add: result_type_def product_member_def TYisArray_def is_con_def)

lemma has_value_result: "has_value t s xs es \<Longrightarrow> result_type t"
  by (elim has_valueE) (simp add: result_type_def product_member_def TYisArray_def is_con_def)

lemma inhab_result: "inhab t s xs es \<Longrightarrow> result_type t"
  using has_shape_result has_value_result by (auto simp: inhab_def)

lemma make_product1:
  assumes "result_type t"
  shows "TYmakeProductType 1 [t] = Inr (NT TC_prod default_meta [t])"
  using assms by (simp add: TYmakeProductType_def cfor_step MakeNtype_def result_type_def)

lemma make_product2:
  assumes "result_type t" and "result_type u"
  shows "TYmakeProductType 2 [t, u] = Inr (NT TC_prod default_meta [t, u])"
  using assms
  by (simp add: TYmakeProductType_def cfor_step MakeNtype_def result_type_def numeral_2_eq_2)

lemma run_one_type: "result_type t \<Longrightarrow> results 1 (one_type (Inr t)) None = Some (Inr (NT TC_prod default_meta [t], None))"
  by (simp add: results_def one_type_def make_product1 bindT_assoc del: One_nat_def)

text \<open>The outcome of a type function: one result type, which the array inhabits, and no message left.\<close>

definition returns :: "('f ntype \<times> te_errors) cres option \<Rightarrow> simpletype \<Rightarrow> int list \<Rightarrow> 'f cval list \<Rightarrow> bool" where
  "returns out s xs es \<longleftrightarrow>
     (\<exists>r. out = Some (Inr (NT TC_prod default_meta [r], None)) \<and> inhab r s xs es)"

lemma returns_shape:
  assumes "has_shape r s xs" and "con_ok s xs es"
  shows "returns (results 1 (one_type (Inr r)) None) s xs es"
  using assms run_one_type [OF has_shape_result [OF assms(1)]] by (auto simp: returns_def inhab_def)

subsection \<open>Folding\<close>

lemma ApplyCF_1:
  assumes "TEgetPrf info = Inr p" and "prf_co_funtab (te_fops E) p = CO1 f"
    and "has_value t s xs es" and "f (con s xs es) = Inr c"
  shows "ApplyCF E info (NT TC_prod m [t]) = retT c"
  using assms
  by (simp add: ApplyCF_def TYgetProductSize_def TEgetCFFun_def member_value_def TYgetProductMember_def inhab_value
      CO_simps)

lemma ApplyCF_2:
  assumes "TEgetPrf info = Inr p" and "prf_co_funtab (te_fops E) p = CO2 f \<or> prf_co_funtab (te_fops E) p = CO2o g"
    and "has_value t s xs es" and "has_value u s' ys fs"
    and "f (con s xs es) (con s' ys fs) = Inr c" and "g (con s xs es) (con s' ys fs) = Some (Inr c)"
  shows "ApplyCF E info (NT TC_prod m [t, u]) = retT c"
  using assms
  by (auto simp add: ApplyCF_def TYgetProductSize_def TEgetCFFun_def member_value_def TYgetProductMember_def
      inhab_value CO_simps)

lemma ApplyCF_3:
  assumes "TEgetPrf info = Inr p" and "prf_co_funtab (te_fops E) p = CO3 f"
    and "has_value t s xs es" and "has_value u s' ys fs" and "has_value v s'' zs gs"
    and "f (con s xs es) (con s' ys fs) (con s'' zs gs) = Inr c"
  shows "ApplyCF E info (NT TC_prod m [t, u, v]) = retT c"
  using assms
  by (simp add: ApplyCF_def TYgetProductSize_def TEgetCFFun_def member_value_def TYgetProductMember_def inhab_value
      CO_simps numeral_3_eq_3)

lemma returns_folded:
  assumes "ApplyCF E info args = retT (con s xs es)" and "elem_type b s" and "con_ok s xs es"
  shows "returns (results 1 (folded E info args (Inr b)) None) s xs es"
proof -
  obtain r where r: "TYmakeAKV b (con s xs es) = Inr r" "has_value r s xs es" using elem_akv [OF assms(2)] by blast
  then show ?thesis
    using run_one_type [OF has_value_result [OF r(2)]] assms by (auto simp: folded_def returns_def inhab_def)
qed

subsection \<open>Equal shapes\<close>

lemma inhab_lift_akv:
  assumes "inhab t s xs es"
  shows "\<exists>r. lift_akv t = Inr r \<and> has_shape r s xs"
proof (rule inhab_cases [OF assms])
  assume v: "akv t" "has_value t s xs es"
  show ?thesis using inhab_aks_like [OF assms akv_known [OF v(1)]] v
    by (simp add: lift_akv_def inhab_tests [OF assms] aks_like_def scalar_of_def)
next
  assume "\<not> akv t" "has_shape t s xs"
  then show ?thesis by (simp add: lift_akv_def inhab_tests [OF assms])
qed

lemma same_shape_found:
  assumes "has_shape t s xs" and "has_shape u s xs"
  shows "\<exists>r. same_shape_type t u = Inr (Some r) \<and> has_shape r s xs"
proof -
  obtain a m b where t: "t = NT a m [b]" "attr_shape a xs" using assms(1) by (elim has_shapeE)
  obtain a' m' b' where u: "u = NT a' m' [b']" "attr_shape a' xs" using assms(2) by (elim has_shapeE)
  obtain t' where t': "TYcopyType t = Inr t'" "has_shape t' s xs" using has_shape_copy [OF assms(1)] by blast
  obtain u' where u': "TYcopyType u = Inr u'" "has_shape u' s xs" using has_shape_copy [OF assms(2)] by blast
  have c: "copy_if (Inr True) t = Inr (Some t')" "copy_if (Inr True) u = Inr (Some u')"
    using t'(1) u'(1) by (simp_all add: copy_if_def)
  have "same_shape_type t u = Inr (Some t') \<or> same_shape_type t u = Inr (Some u')"
    using c t u
    by (cases rule: attr_shape_cases [OF t(2)]; cases rule: attr_shape_cases [OF u(2)])
      (simp_all add: same_shape_type_def SHcompareShapes_sh same_dim_def pos_dim_def dim_defs)
  with t' u' show ?thesis by auto
qed

lemma assure_same_shape:
  assumes "inhab t s xs es" and "inhab u s xs fs"
  obtains r where "TEassureSameShape t u = retT r" and "has_shape r s xs"
proof -
  obtain t' u' where l: "lift_akv t = Inr t'" "has_shape t' s xs" "lift_akv u = Inr u'" "has_shape u' s xs"
    using inhab_lift_akv [OF assms(1)] inhab_lift_akv [OF assms(2)] by blast
  obtain r where "same_shape_type t' u' = Inr (Some r)" "has_shape r s xs"
    using same_shape_found [OF l(2,4)] by blast
  with l show ?thesis by (intro that [of r]) (simp_all add: TEassureSameShape_def)
qed

end
