(* ===== verification/CT_Sound.thy ===== *)
theory CT_Sound
  imports CT_Inhab
begin

text \<open>
  The type functions of the elementwise primitives are sound: applied to types that stand for the
  argument arrays, they return a type that the result of the constant operation inhabits, and
  leave no message.  The interface \<open>elementwise\<close> states what the type functions rely on, that the
  shape and the element type of a result follow from those of the operands; it is met
  by the constant operations of the table.
\<close>

subsection \<open>The constant operations\<close>

fun bin_zop :: "bin_op \<Rightarrow> zop" where
  "bin_zop P_add = ZPlus" | "bin_zop P_sub = ZMinus" | "bin_zop P_mul = ZMul" | "bin_zop P_div = ZDiv"
| "bin_zop P_mod = ZMod" | "bin_zop P_aplmod = ZAplMod" | "bin_zop P_min = ZMin" | "bin_zop P_max = ZMax"
| "bin_zop P_and = ZAnd" | "bin_zop P_or = ZOr" | "bin_zop P_eq = ZEq" | "bin_zop P_neq = ZNeq"
| "bin_zop P_le = ZLe" | "bin_zop P_lt = ZLt" | "bin_zop P_ge = ZGe" | "bin_zop P_gt = ZGt"

definition rel_ops :: "bin_op set" where
  "rel_ops = {P_eq, P_neq, P_le, P_lt, P_ge, P_gt}"

definition bin_target :: "bin_op \<Rightarrow> simpletype" where
  "bin_target op = (if op \<in> rel_ops then T_bool else T_unknown)"

lemma bin_co_zip: "bin_co F op a b = COzip F (bin_zop op) a b (bin_target op)"
  by (cases op) (simp_all add: bin_target_def rel_ops_def COadd_def COsub_def COmul_def COdiv_def COmod_def
      COaplmod_def COmin_def COmax_def COand_def COor_def COeq_def COneq_def COle_def COlt_def COge_def COgt_def)

lemma bin_zop_binary: "\<not> zop_unary (bin_zop op)"
  by (cases op) simp_all

lemma bin_target_ok:
  assumes "zip_supports (bin_zop op) s"
  shows "target_ok (bin_zop op) s (bin_target op)"
proof (cases "op \<in> rel_ops")
  case True
  then have "zop_res (bin_zop op) ct = TBool" for ct by (cases op) (simp_all add: rel_ops_def)
  with True assms show ?thesis by (simp add: bin_target_def target_ok_res cell_type_def)
next
  case False
  then have "zop_res (bin_zop op) ct = ct" for ct by (cases op) (simp_all add: rel_ops_def)
  with False assms show ?thesis by (simp add: bin_target_def target_ok_same)
qed

lemma zip_result:
  assumes "con_ok t xs es" and "con_ok t ys fs" and "zip_supports z t" and "\<not> zop_unary z" and "target_ok z t target"
    and room: "target = T_unknown \<or> xs \<noteq> [] \<or> length fs = 1"
    and run: "COzip F z (con t xs es) (con t ys fs) target = Inr c"
  shows "\<exists>zs gs. zip_shape xs ys = Some zs \<and> c = con (zip_type t target) zs gs \<and> con_ok (zip_type t target) zs gs"
proof (cases "zip_shape xs ys")
  case None
  then have "xs \<noteq> []" "ys \<noteq> []" "xs \<noteq> ys" by (auto simp: zip_shape_def split: if_splits)
  then show ?thesis using run
    by (simp add: COzip_def CONSTANT_DIM_def SHgetDim_sh SHcompareShapes_sh)
next
  case (Some zs)
  with run obtain rs where "zip_elems F z xs ys es fs = Inr rs" "c = con (zip_type t target) zs rs"
    using COzip_con [OF assms(1-5) Some room] by (auto simp: bindR_Inr_iff)
  with Some zip_elems_ok [OF assms(1,2) Some assms(4,5)] show ?thesis by blast
qed

subsection \<open>The interface of elementwise operations\<close>

locale elementwise =
  fixes F :: "'f fops" and p :: prf_t and op :: "'f const \<Rightarrow> 'f const \<Rightarrow> 'f const cres"
    and sup :: "simpletype \<Rightarrow> bool" and rt :: "simpletype \<Rightarrow> simpletype" and wide :: bool
  assumes folds: "prf_co_funtab F p = CO2 op"
    and result: "con_ok s xs es \<Longrightarrow> con_ok s ys fs \<Longrightarrow> sup s \<Longrightarrow> wide \<or> xs \<noteq> [] \<or> length fs = 1
        \<Longrightarrow> op (con s xs es) (con s ys fs) = Inr c
        \<Longrightarrow> \<exists>zs gs. zip_shape xs ys = Some zs \<and> c = con (rt s) zs gs \<and> con_ok (rt s) zs gs"
begin

lemma returns_zip:
  assumes "te_fops E = F" and "TEgetPrf info = Inr p"
    and t: "inhab t s xs es" and u: "inhab u s ys fs" and "sup s" and "wide \<or> xs \<noteq> [] \<or> length fs = 1"
    and run: "op (con s xs es) (con s ys fs) = Inr c"
    and b: "\<exists>b. sc = Inr b \<and> elem_type b (rt s)"
    and other: "\<And>zs. zip_shape xs ys = Some zs \<Longrightarrow> \<exists>r. rest = Inr r \<and> has_shape r (rt s) zs"
  shows "\<exists>zs gs. zip_shape xs ys = Some zs \<and> c = con (rt s) zs gs
     \<and> returns (results 1 (ifT (both_akv t u) (folded E info (NT TC_prod m [t, u]) sc) (one_type rest)) None) (rt s) zs gs"
proof -
  obtain zs gs where c: "zip_shape xs ys = Some zs" "c = con (rt s) zs gs" "con_ok (rt s) zs gs"
    using result [OF inhab_ok [OF t] inhab_ok [OF u] assms(5,6) run] by blast
  obtain bt where bt: "sc = Inr bt" "elem_type bt (rt s)" using b by blast
  have k: "both_akv t u = Inr (akv t \<and> akv u)" by (simp add: both_akv_def inhab_tests [OF t] inhab_tests [OF u])
  have "returns (results 1 (ifT (both_akv t u) (folded E info (NT TC_prod m [t, u]) sc) (one_type rest)) None) (rt s) zs gs"
  proof (cases "akv t \<and> akv u")
    case True
    then have "has_value t s xs es" "has_value u s ys fs" using t u by (auto elim: inhab_cases)
    then have "ApplyCF E info (NT TC_prod m [t, u]) = retT (con (rt s) zs gs)"
      using run c(2) assms(1) folds by (intro ApplyCF_2 [OF assms(2), of E op "\<lambda>a b. Some (op a b)"]) simp_all
    from returns_folded [OF this bt(2) c(3)] True k bt(1) show ?thesis by simp
  next
    case False
    with other [OF c(1)] returns_shape [OF _ c(3)] k show ?thesis by auto
  qed
  with c show ?thesis by blast
qed

end

interpretation bin: elementwise F "F_bin op v" "bin_co F op" "zip_supports (bin_zop op)"
  "\<lambda>s. zip_type s (bin_target op)" "op \<notin> rel_ops" for F op v
proof
  fix s xs ys c and es fs :: "'a cval list"
  assume a: "con_ok s xs es" "con_ok s ys fs" "zip_supports (bin_zop op) s"
    and r: "op \<notin> rel_ops \<or> xs \<noteq> [] \<or> length fs = 1" "bin_co F op (con s xs es) (con s ys fs) = Inr c"
  have "bin_target op = T_unknown \<or> xs \<noteq> [] \<or> length fs = 1" using r(1) by (auto simp: bin_target_def)
  then show "\<exists>zs gs. zip_shape xs ys = Some zs \<and> c = con (zip_type s (bin_target op)) zs gs
      \<and> con_ok (zip_type s (bin_target op)) zs gs"
    using r(2) zip_result [OF a bin_zop_binary bin_target_ok [OF a(3)]] by (simp add: bin_co_zip)
qed simp

subsection \<open>Signatures\<close>

text \<open>The shapes that a combination of scalar and vector arguments takes, and its element types.\<close>

fun vs_shapes :: "vs \<Rightarrow> int list \<Rightarrow> int list \<Rightarrow> bool" where
  "vs_shapes SxS xs ys = (xs = [] \<and> ys = [])"
| "vs_shapes SxV xs ys = (xs = [] \<and> length ys = 1)"
| "vs_shapes VxS xs ys = (length xs = 1 \<and> ys = [])"
| "vs_shapes VxV xs ys = (length xs = 1 \<and> length ys = 1)"

definition bin_types :: "bin_op \<Rightarrow> simpletype set" where
  "bin_types op = (if op \<in> rel_ops then UNIV else if op \<in> {P_and, P_or} then {T_bool}
                   else if op \<in> {P_mod, P_aplmod} then whole_types else num_types)"

definition bin_rt :: "bin_op \<Rightarrow> simpletype \<Rightarrow> simpletype" where
  "bin_rt op s = zip_type s (bin_target op)"

lemma bin_rt_simps: "op \<in> rel_ops \<Longrightarrow> bin_rt op s = T_bool" "op \<notin> rel_ops \<Longrightarrow> bin_rt op s = s"
  by (simp_all add: bin_rt_def bin_target_def)

text \<open>
  What the type function of a binary primitive is applied to: two types of arrays of one element type
  for which the operation is defined, a divisor without a zero if it is known, and no comparison of a scalar
  with a vector of several elements, for which the constant operation writes behind its result.
\<close>

definition bin_args ::
  "'f tenv \<Rightarrow> te_info \<Rightarrow> bin_op \<Rightarrow> vs \<Rightarrow> 'f ntype \<Rightarrow> 'f ntype \<Rightarrow> simpletype \<Rightarrow> int list \<Rightarrow> 'f cval list
     \<Rightarrow> int list \<Rightarrow> 'f cval list \<Rightarrow> bool" where
  "bin_args E info op v t u s xs es ys fs \<longleftrightarrow>
     TEgetPrf info = Inr (F_bin op v) \<and> inhab t s xs es \<and> inhab u s ys fs \<and> vs_shapes v xs ys
     \<and> s \<in> bin_types op \<and> zip_supports (bin_zop op) s
     \<and> (op \<in> {P_div, P_mod} \<longrightarrow> akv u \<longrightarrow> COisZero (te_fops E) (con s ys fs) False = Inr False)
     \<and> (op \<in> rel_ops \<longrightarrow> xs \<noteq> [] \<or> length fs = 1)"

lemma bin_argsD:
  assumes "bin_args E info op v t u s xs es ys fs"
  shows "TEgetPrf info = Inr (F_bin op v)" and "inhab t s xs es" and "inhab u s ys fs" and "vs_shapes v xs ys"
    and "s \<in> bin_types op" and "zip_supports (bin_zop op) s" and "op \<notin> rel_ops \<or> xs \<noteq> [] \<or> length fs = 1"
    and "op \<in> {P_div, P_mod} \<Longrightarrow> TEassureValNonZero E u = retT ()"
proof -
  show i: "inhab u s ys fs" using assms by (simp add: bin_args_def)
  assume "op \<in> {P_div, P_mod}"
  then have z: "akv u \<Longrightarrow> COisZero (te_fops E) (con s ys fs) False = Inr False" using assms by (simp add: bin_args_def)
  show "TEassureValNonZero E u = retT ()"
    by (rule inhab_cases [OF i]) (simp_all add: TEassureValNonZero_def inhab_tests [OF i] inhab_value z)
qed (use assms in \<open>auto simp: bin_args_def\<close>)

lemma on_prf_ok:
  assumes "TEgetPrf info = Inr q" and "q = p \<Longrightarrow> m = retT ()"
  shows "on_prf info p m = retT ()"
  using assms by (cases "q = p") (simp_all add: on_prf_def)

text \<open>The divisions look for a zero among the divisors, the other operations do not.\<close>

lemma bin_nonzero:
  assumes "bin_args E info op v t u s xs es ys fs"
  shows "on_prf info (F_bin P_div w) (TEassureValNonZero E u) = retT ()"
    and "on_prf info (F_bin P_mod w) (TEassureValNonZero E u) = retT ()"
  using bin_argsD [OF assms] by (auto intro!: on_prf_ok)

subsection \<open>The assurances hold\<close>

definition ari_ops :: "bin_op set" where "ari_ops = {P_add, P_sub, P_mul, P_div, P_min, P_max}"
definition int_ops :: "bin_op set" where "int_ops = {P_mod, P_aplmod}"
definition log_ops :: "bin_op set" where "log_ops = {P_and, P_or}"

lemmas op_classes = ari_ops_def int_ops_def log_ops_def rel_ops_def

lemma bin_op_classes: "op \<in> ari_ops \<union> int_ops \<union> log_ops \<union> rel_ops"
  by (cases op) (simp_all add: op_classes)

lemma bin_types_class:
  "op \<in> ari_ops \<Longrightarrow> bin_types op = num_types \<and> bin_rt op s = s"
  "op \<in> int_ops \<Longrightarrow> bin_types op = whole_types \<and> bin_rt op s = s"
  "op \<in> log_ops \<Longrightarrow> bin_types op = {T_bool} \<and> bin_rt op s = s"
  "op \<in> rel_ops \<Longrightarrow> bin_types op = UNIV \<and> bin_rt op s = T_bool"
  by (auto simp: bin_types_def op_classes bin_rt_simps)

text \<open>Whether the first and the second argument of a combination are scalars.\<close>

lemma vs_args:
  assumes "bin_args E info op v t u s xs es ys fs"
  shows "v \<in> {SxS, SxV} \<Longrightarrow> inhab t s [] es \<and> xs = []" and "v \<in> {VxS, VxV} \<Longrightarrow> inhab t s [hd xs] es \<and> xs = [hd xs]"
    and "v \<in> {SxS, VxS} \<Longrightarrow> inhab u s [] fs \<and> ys = []" and "v \<in> {SxV, VxV} \<Longrightarrow> inhab u s [hd ys] fs \<and> ys = [hd ys]"
  using bin_argsD(2-4) [OF assms] by (cases v; cases xs; cases ys; simp)+

lemma bin_assure1:
  assumes a: "bin_args E info op v t u s xs es ys fs"
  shows "v \<in> {SxS, SxV} \<Longrightarrow> op \<in> ari_ops \<Longrightarrow> TEassureNumS t = retT ()"
    and "v \<in> {SxS, SxV} \<Longrightarrow> op \<in> int_ops \<Longrightarrow> TEassureWholeS t = retT ()"
    and "v \<in> {SxS, SxV} \<Longrightarrow> op \<in> log_ops \<Longrightarrow> TEassureBoolS t = retT ()"
    and "v \<in> {SxS, SxV} \<Longrightarrow> op \<in> rel_ops \<Longrightarrow> TEassureSimpleS t = retT ()"
    and "v \<in> {VxS, VxV} \<Longrightarrow> op \<in> ari_ops \<Longrightarrow> TEassureNumV t = retT ()"
    and "v \<in> {VxS, VxV} \<Longrightarrow> op \<in> int_ops \<Longrightarrow> TEassureWholeV t = retT ()"
    and "v \<in> {VxS, VxV} \<Longrightarrow> op \<in> log_ops \<Longrightarrow> TEassureBoolV t = retT ()"
    and "v \<in> {VxS, VxV} \<Longrightarrow> op \<in> rel_ops \<Longrightarrow> TEassureSimpleV t = retT ()"
  using vs_args(1,2) [OF a] bin_argsD(5) [OF a] assure_scalar [of t s es] assure_vector [of t s "hd xs" es]
  by (auto simp: bin_types_class)

lemma bin_assure2:
  assumes a: "bin_args E info op v t u s xs es ys fs"
  shows "v \<in> {SxS, VxS} \<Longrightarrow> op \<in> ari_ops \<Longrightarrow> TEassureNumS u = retT ()"
    and "v \<in> {SxS, VxS} \<Longrightarrow> op \<in> int_ops \<Longrightarrow> TEassureWholeS u = retT ()"
    and "v \<in> {SxS, VxS} \<Longrightarrow> op \<in> log_ops \<Longrightarrow> TEassureBoolS u = retT ()"
    and "v \<in> {SxS, VxS} \<Longrightarrow> op \<in> rel_ops \<Longrightarrow> TEassureSimpleS u = retT ()"
    and "v \<in> {SxV, VxV} \<Longrightarrow> op \<in> ari_ops \<Longrightarrow> TEassureNumV u = retT ()"
    and "v \<in> {SxV, VxV} \<Longrightarrow> op \<in> int_ops \<Longrightarrow> TEassureWholeV u = retT ()"
    and "v \<in> {SxV, VxV} \<Longrightarrow> op \<in> log_ops \<Longrightarrow> TEassureBoolV u = retT ()"
    and "v \<in> {SxV, VxV} \<Longrightarrow> op \<in> rel_ops \<Longrightarrow> TEassureSimpleV u = retT ()"
  using vs_args(3,4) [OF a] bin_argsD(5) [OF a] assure_scalar [of u s fs] assure_vector [of u s "hd ys" fs]
  by (auto simp: bin_types_class)

lemma bin_assure_same: "bin_args E info op v t u s xs es ys fs \<Longrightarrow> TEassureSameSimpleType t u = retT ()"
  by (rule assure_same_simple) (rule bin_argsD, assumption)+

lemmas bin_assures = bin_assure1 bin_assure2 bin_assure_same bin_nonzero

subsection \<open>The type of a result that is not folded\<close>

lemma scalar_of_ex: "inhab t s xs es \<Longrightarrow> \<exists>b. scalar_of t = Inr b \<and> elem_type b s"
  by (metis inhab_scalar_of)

lemma bool_elem: "\<exists>b. TYmakeSimpleType T_bool = Inr b \<and> elem_type b T_bool"
  by (rule make_elem) simp

lemma scalar_shape_ex: "\<exists>b. sc = Inr b \<and> elem_type b s \<Longrightarrow> \<exists>r. aks_scalar sc = Inr r \<and> has_shape r s []"
  using elem_aks_scalar by blast

lemma eliminate_bool:
  assumes "inhab t s xs es"
  shows "\<exists>r. bindR (TYeliminateAKV t) bool_like = Inr r \<and> has_shape r T_bool xs"
proof -
  obtain r where r: "TYeliminateAKV t = Inr r" "has_shape r s xs" using inhab_eliminate [OF assms] by blast
  with has_shape_bool_like [OF r(2)] show ?thesis by simp
qed

lemma bin_zip_shape:
  assumes "bin_args E info op v t u s xs es ys fs" and "zip_shape xs ys = Some zs"
  shows "zs = (case v of SxS \<Rightarrow> [] | SxV \<Rightarrow> ys | _ \<Rightarrow> xs)"
  using assms(2) bin_argsD(4) [OF assms(1)] by (cases v) (auto simp: zip_shape_def split: if_splits)

text \<open>The result of \<open>TEassureSameShape\<close> when there is no conflict.\<close>

definition same_shape :: "'f ntype \<Rightarrow> 'f ntype \<Rightarrow> 'f ntype cres" where
  "same_shape t u = bindR (lift_akv t) (\<lambda>t'. bindR (lift_akv u) (\<lambda>u'. bindR (same_shape_type t' u') (\<lambda>r.
     case r of Some r \<Rightarrow> Inr r | None \<Rightarrow> Inl NullDeref)))"

lemma inhab_same_shape:
  assumes "inhab t s xs es" and "inhab u s xs fs"
  shows "\<exists>r. TEassureSameShape t u = retT r \<and> same_shape t u = Inr r \<and> has_shape r s xs"
proof -
  obtain t' u' where l: "lift_akv t = Inr t'" "has_shape t' s xs" "lift_akv u = Inr u'" "has_shape u' s xs"
    using inhab_lift_akv [OF assms(1)] inhab_lift_akv [OF assms(2)] by blast
  obtain r where "same_shape_type t' u' = Inr (Some r)" "has_shape r s xs"
    using same_shape_found [OF l(2,4)] by blast
  with l show ?thesis by (simp add: TEassureSameShape_def same_shape_def)
qed

lemma bin_same_shape:
  assumes a: "bin_args E info op VxV t u s xs es ys fs"
    and run: "bin_co (te_fops E) op (con s xs es) (con s ys fs) = Inr c"
  shows "\<exists>r. TEassureSameShape t u = retT r \<and> same_shape t u = Inr r \<and> has_shape r s xs"
proof -
  note d = bin_argsD [OF a]
  obtain zs where "zip_shape xs ys = Some zs"
    using bin.result [OF inhab_ok [OF d(2)] inhab_ok [OF d(3)] d(6,7) run] by blast
  then have "ys = xs" using d(4) by (auto simp: zip_shape_def split: if_splits)
  with inhab_same_shape d(2,3) show ?thesis by blast
qed

subsection \<open>The type functions of the binary primitives\<close>

text \<open>
  The type function \<open>ntc\<close> is sound for a primitive: whenever the constant operation has a result,
  it returns a type of this result.
\<close>

definition bin_sound ::
  "('f tenv \<Rightarrow> te_info \<Rightarrow> 'f ntype \<Rightarrow> 'f ntype tem) \<Rightarrow> bin_op \<Rightarrow> vs \<Rightarrow> bool" where
  "bin_sound ntc op v \<longleftrightarrow>
     (\<forall>E info t u s xs es ys fs c m. bin_args E info op v t u s xs es ys fs \<longrightarrow>
        bin_co (te_fops E) op (con s xs es) (con s ys fs) = Inr c \<longrightarrow>
        (\<exists>zs gs. zip_shape xs ys = Some zs \<and> c = con (bin_rt op s) zs gs
           \<and> returns (ntc E info (NT TC_prod m [t, u]) None) (bin_rt op s) zs gs))"

text \<open>
  It is enough to evaluate it to the common last step, folding with the element type \<open>sc\<close> or the
  type \<open>rest\<close>, which has to have the shape of the result.
\<close>

lemma bin_soundI:
  fixes sc :: "'f ntype \<Rightarrow> 'f ntype cres" and rest :: "'f ntype \<Rightarrow> 'f ntype \<Rightarrow> 'f ntype cres"
  assumes ev: "\<And>E info t u s xs es ys fs c m. bin_args E info op v t u s xs es ys fs \<Longrightarrow>
      bin_co (te_fops E) op (con s xs es) (con s ys fs) = Inr c \<Longrightarrow>
      ntc E info (NT TC_prod m [t, u]) None
        = results 1 (ifT (both_akv t u) (folded E info (NT TC_prod m [t, u]) (sc t)) (one_type (rest t u))) None"
    and sc: "\<And>E info t u s xs es ys fs. bin_args E info op v t u s xs es ys fs \<Longrightarrow>
      \<exists>b. sc t = Inr b \<and> elem_type b (bin_rt op s)"
    and rest: "\<And>E info t u s xs es ys fs c zs. bin_args E info op v t u s xs es ys fs \<Longrightarrow>
      bin_co (te_fops E) op (con s xs es) (con s ys fs) = Inr c \<Longrightarrow> zip_shape xs ys = Some zs \<Longrightarrow>
      \<exists>r. rest t u = Inr r \<and> has_shape r (bin_rt op s) zs"
  shows "bin_sound ntc op v"
  unfolding bin_sound_def
proof (intro allI impI)
  fix E :: "'f tenv" and info t u s xs es ys fs c m
  assume a: "bin_args E info op v t u s xs es ys fs"
    and run: "bin_co (te_fops E) op (con s xs es) (con s ys fs) = Inr c"
  show "\<exists>zs gs. zip_shape xs ys = Some zs \<and> c = con (bin_rt op s) zs gs
      \<and> returns (ntc E info (NT TC_prod m [t, u]) None) (bin_rt op s) zs gs"
    unfolding ev [OF a run] bin_rt_def
    using bin.returns_zip [OF refl bin_argsD(1,2,3,6,7) [OF a] run, of "sc t" "rest t u" m] sc [OF a] rest [OF a run]
    by (simp add: bin_rt_def)
qed

lemma ari_sc: "bin_args E info op v t u s xs es ys fs \<Longrightarrow> op \<in> ari_ops \<union> int_ops \<Longrightarrow>
    \<exists>b. scalar_of t = Inr b \<and> elem_type b (bin_rt op s)"
  using scalar_of_ex [OF bin_argsD(2)] by (auto simp: bin_types_class)

lemma bool_sc: "bin_args E info op v t u s xs es ys fs \<Longrightarrow> op \<in> log_ops \<union> rel_ops \<Longrightarrow>
    \<exists>b. TYmakeSimpleType T_bool = Inr b \<and> elem_type b (bin_rt op s)"
  using bool_elem bin_argsD(5) by (fastforce simp: bin_types_class)

text \<open>The types for results that are not folded, by the form in which the code builds them.\<close>

lemma rest_eliminate:
  assumes a: "bin_args E info op v t u s xs es ys fs" and "op \<in> ari_ops \<union> int_ops" and z: "zip_shape xs ys = Some zs"
  shows "v \<in> {VxS, SxS} \<Longrightarrow> \<exists>r. TYeliminateAKV t = Inr r \<and> has_shape r (bin_rt op s) zs"
    and "v = SxV \<Longrightarrow> \<exists>r. TYeliminateAKV u = Inr r \<and> has_shape r (bin_rt op s) zs"
  using inhab_eliminate [OF bin_argsD(2) [OF a]] inhab_eliminate [OF bin_argsD(3) [OF a]]
    bin_zip_shape [OF a z] vs_args(1) [OF a] assms(2)
  by (auto simp: bin_types_class)

lemma rest_bool:
  assumes a: "bin_args E info op v t u s xs es ys fs" and "op \<in> rel_ops" and z: "zip_shape xs ys = Some zs"
  shows "v = VxS \<Longrightarrow> \<exists>r. bindR (TYeliminateAKV t) bool_like = Inr r \<and> has_shape r (bin_rt op s) zs"
    and "v = SxV \<Longrightarrow> \<exists>r. bindR (TYeliminateAKV u) bool_like = Inr r \<and> has_shape r (bin_rt op s) zs"
  using eliminate_bool [OF bin_argsD(2) [OF a]] eliminate_bool [OF bin_argsD(3) [OF a]]
    bin_zip_shape [OF a z] assms(2)
  by (auto simp: bin_types_class)

lemma rest_scalar:
  assumes a: "bin_args E info op SxS t u s xs es ys fs" and z: "zip_shape xs ys = Some zs"
    and "\<exists>b. sc = Inr b \<and> elem_type b (bin_rt op s)"
  shows "\<exists>r. aks_scalar sc = Inr r \<and> has_shape r (bin_rt op s) zs"
  using scalar_shape_ex [OF assms(3)] bin_zip_shape [OF a z] by simp

lemma rest_same:
  assumes a: "bin_args E info op VxV t u s xs es ys fs" and z: "zip_shape xs ys = Some zs"
    and run: "bin_co (te_fops E) op (con s xs es) (con s ys fs) = Inr c"
  shows "op \<notin> rel_ops \<Longrightarrow> \<exists>r. same_shape t u = Inr r \<and> has_shape r (bin_rt op s) zs"
    and "op \<in> rel_ops \<Longrightarrow> \<exists>r. bindR (same_shape t u) bool_like = Inr r \<and> has_shape r (bin_rt op s) zs"
proof -
  obtain r where r: "same_shape t u = Inr r" "has_shape r s xs" using bin_same_shape [OF a run] by blast
  have zs: "zs = xs" using bin_zip_shape [OF a z] by simp
  show "\<exists>r. same_shape t u = Inr r \<and> has_shape r (bin_rt op s) zs" if "op \<notin> rel_ops"
    using r zs that by (simp add: bin_rt_simps)
  show "\<exists>r. bindR (same_shape t u) bool_like = Inr r \<and> has_shape r (bin_rt op s) zs" if "op \<in> rel_ops"
    using r zs that has_shape_bool_like [OF r(2)] by (simp add: bin_rt_simps)
qed

lemma ari_op_SxS_sound:
  assumes "op \<in> ari_ops"
  shows "bin_sound NTCCTprf_ari_op_SxS op SxS"
proof (rule bin_soundI [where sc = "scalar_of" and rest = "\<lambda>t u. aks_scalar (scalar_of t)"], goal_cases)
  case 1
  then show ?case using assms by (simp add: NTCCTprf_ari_op_SxS_def bin_assures [OF 1(1)])
next
  case 2
  then show ?case using ari_sc assms by blast
next
  case 3
  show ?case by (rule rest_scalar [OF 3(1,3) ari_sc [OF 3(1)]]) (use assms in simp)
qed

lemma ari_op_SxV_sound:
  assumes "op \<in> ari_ops"
  shows "bin_sound NTCCTprf_ari_op_SxV op SxV"
proof (rule bin_soundI [where sc = "scalar_of" and rest = "\<lambda>t u. TYeliminateAKV u"], goal_cases)
  case 1
  then show ?case using assms by (simp add: NTCCTprf_ari_op_SxV_def bin_assures [OF 1(1)])
next
  case 2
  then show ?case using ari_sc assms by blast
next
  case 3
  then show ?case using rest_eliminate(2) [OF 3(1) _ 3(3)] assms by simp
qed

lemma ari_op_VxS_sound:
  assumes "op \<in> ari_ops"
  shows "bin_sound NTCCTprf_ari_op_VxS op VxS"
proof (rule bin_soundI [where sc = "scalar_of" and rest = "\<lambda>t u. TYeliminateAKV t"], goal_cases)
  case 1
  then show ?case using assms by (simp add: NTCCTprf_ari_op_VxS_def bin_assures [OF 1(1)])
next
  case 2
  then show ?case using ari_sc assms by blast
next
  case 3
  then show ?case using rest_eliminate(1) [OF 3(1) _ 3(3)] assms by simp
qed

lemma ari_op_VxV_sound:
  assumes "op \<in> ari_ops"
  shows "bin_sound NTCCTprf_ari_op_VxV op VxV"
proof (rule bin_soundI [where sc = "scalar_of" and rest = "\<lambda>t u. same_shape t u"], goal_cases)
  case (1 E info t u s xs es ys fs c m)
  then obtain r where "TEassureSameShape t u = retT r" "same_shape t u = Inr r" using bin_same_shape [OF 1] by blast
  then show ?case using assms by (simp add: NTCCTprf_ari_op_VxV_def bin_assures [OF 1(1)])
next
  case 2
  then show ?case using ari_sc assms by blast
next
  case 3
  then show ?case using rest_same(1) [OF 3(1,3,2)] assms by (auto simp: op_classes)
qed

lemma int_op_SxS_sound:
  assumes "op \<in> int_ops"
  shows "bin_sound NTCCTprf_int_op_SxS op SxS"
proof (rule bin_soundI [where sc = "scalar_of" and rest = "\<lambda>t u. TYeliminateAKV t"], goal_cases)
  case 1
  then show ?case using assms by (simp add: NTCCTprf_int_op_SxS_def bin_assures [OF 1(1)])
next
  case 2
  then show ?case using ari_sc assms by blast
next
  case 3
  then show ?case using rest_eliminate(1) [OF 3(1) _ 3(3)] assms by simp
qed

lemma int_op_SxV_sound:
  assumes "op \<in> int_ops"
  shows "bin_sound NTCCTprf_int_op_SxV op SxV"
proof (rule bin_soundI [where sc = "scalar_of" and rest = "\<lambda>t u. TYeliminateAKV u"], goal_cases)
  case 1
  then show ?case using assms by (simp add: NTCCTprf_int_op_SxV_def bin_assures [OF 1(1)])
next
  case 2
  then show ?case using ari_sc assms by blast
next
  case 3
  then show ?case using rest_eliminate(2) [OF 3(1) _ 3(3)] assms by simp
qed

lemma int_op_VxS_sound:
  assumes "op \<in> int_ops"
  shows "bin_sound NTCCTprf_int_op_VxS op VxS"
proof (rule bin_soundI [where sc = "scalar_of" and rest = "\<lambda>t u. TYeliminateAKV t"], goal_cases)
  case 1
  then show ?case using assms by (simp add: NTCCTprf_int_op_VxS_def bin_assures [OF 1(1)])
next
  case 2
  then show ?case using ari_sc assms by blast
next
  case 3
  then show ?case using rest_eliminate(1) [OF 3(1) _ 3(3)] assms by simp
qed

lemma int_op_VxV_sound:
  assumes "op \<in> int_ops"
  shows "bin_sound NTCCTprf_int_op_VxV op VxV"
proof (rule bin_soundI [where sc = "scalar_of" and rest = "\<lambda>t u. same_shape t u"], goal_cases)
  case (1 E info t u s xs es ys fs c m)
  then obtain r where "TEassureSameShape t u = retT r" "same_shape t u = Inr r" using bin_same_shape [OF 1] by blast
  then show ?case using assms by (simp add: NTCCTprf_int_op_VxV_def bin_assures [OF 1(1)])
next
  case 2
  then show ?case using ari_sc assms by blast
next
  case 3
  then show ?case using rest_same(1) [OF 3(1,3,2)] assms by (auto simp: op_classes)
qed

lemma log_op_SxS_sound:
  assumes "op \<in> log_ops"
  shows "bin_sound NTCCTprf_log_op_SxS op SxS"
proof (rule bin_soundI [where sc = "\<lambda>t. TYmakeSimpleType T_bool" and rest = "\<lambda>t u. aks_scalar (TYmakeSimpleType T_bool)"], goal_cases)
  case 1
  then show ?case using assms by (simp add: NTCCTprf_log_op_SxS_def bin_assures [OF 1(1)])
next
  case 2
  then show ?case using bool_sc assms by blast
next
  case 3
  show ?case by (rule rest_scalar [OF 3(1,3) bool_sc [OF 3(1)]]) (use assms in simp)
qed

lemma log_op_VxV_sound:
  assumes "op \<in> log_ops"
  shows "bin_sound NTCCTprf_log_op_VxV op VxV"
proof (rule bin_soundI [where sc = "\<lambda>t. TYmakeSimpleType T_bool" and rest = "\<lambda>t u. same_shape t u"], goal_cases)
  case (1 E info t u s xs es ys fs c m)
  then obtain r where "TEassureSameShape t u = retT r" "same_shape t u = Inr r" using bin_same_shape [OF 1] by blast
  then show ?case using assms by (simp add: NTCCTprf_log_op_VxV_def bin_assures [OF 1(1)])
next
  case 2
  then show ?case using bool_sc assms by blast
next
  case 3
  then show ?case using rest_same(1) [OF 3(1,3,2)] assms by (auto simp: op_classes)
qed

lemma rel_op_SxS_sound:
  assumes "op \<in> rel_ops"
  shows "bin_sound NTCCTprf_rel_op_SxS op SxS"
proof (rule bin_soundI [where sc = "\<lambda>t. TYmakeSimpleType T_bool" and rest = "\<lambda>t u. aks_scalar (TYmakeSimpleType T_bool)"], goal_cases)
  case 1
  then show ?case using assms by (simp add: NTCCTprf_rel_op_SxS_def bin_assures [OF 1(1)])
next
  case 2
  then show ?case using bool_sc assms by blast
next
  case 3
  show ?case by (rule rest_scalar [OF 3(1,3) bool_sc [OF 3(1)]]) (use assms in simp)
qed

lemma rel_op_SxV_sound:
  assumes "op \<in> rel_ops"
  shows "bin_sound NTCCTprf_rel_op_SxV op SxV"
proof (rule bin_soundI [where sc = "\<lambda>t. TYmakeSimpleType T_bool" and rest = "\<lambda>t u. bindR (TYeliminateAKV u) bool_like"], goal_cases)
  case 1
  then show ?case using assms by (simp add: NTCCTprf_rel_op_SxV_def bin_assures [OF 1(1)])
next
  case 2
  then show ?case using bool_sc assms by blast
next
  case 3
  then show ?case using rest_bool(2) [OF 3(1) _ 3(3)] assms by simp
qed

lemma rel_op_VxS_sound:
  assumes "op \<in> rel_ops"
  shows "bin_sound NTCCTprf_rel_op_VxS op VxS"
proof (rule bin_soundI [where sc = "\<lambda>t. TYmakeSimpleType T_bool" and rest = "\<lambda>t u. bindR (TYeliminateAKV t) bool_like"], goal_cases)
  case 1
  then show ?case using assms by (simp add: NTCCTprf_rel_op_VxS_def bin_assures [OF 1(1)])
next
  case 2
  then show ?case using bool_sc assms by blast
next
  case 3
  then show ?case using rest_bool(1) [OF 3(1) _ 3(3)] assms by simp
qed

lemma rel_op_VxV_sound:
  assumes "op \<in> rel_ops"
  shows "bin_sound NTCCTprf_rel_op_VxV op VxV"
proof (rule bin_soundI [where sc = "\<lambda>t. TYmakeSimpleType T_bool" and rest = "\<lambda>t u. bindR (same_shape t u) bool_like"], goal_cases)
  case (1 E info t u s xs es ys fs c m)
  then obtain r where "TEassureSameShape t u = retT r" "same_shape t u = Inr r" using bin_same_shape [OF 1] by blast
  then show ?case using assms by (simp add: NTCCTprf_rel_op_VxV_def bin_assures [OF 1(1)])
next
  case 2
  then show ?case using bool_sc assms by blast
next
  case 3
  then show ?case using rest_same(2) [OF 3(1,3,2)] assms by (auto simp: op_classes)
qed

text \<open>All binary primitives, except the logical ones on a scalar and a vector.\<close>

lemma bin_ntc_sound:
  assumes "\<not> (op \<in> log_ops \<and> v \<in> {SxV, VxS})"
  shows "bin_sound (prf_ntc_funtab (F_bin op v)) op v"
proof -
  consider "op \<in> ari_ops" | "op \<in> int_ops" | "op \<in> log_ops" | "op \<in> rel_ops" using bin_op_classes [of op] by blast
  then show ?thesis
  proof cases
    case 1
    then have eq: "prf_ntc_funtab (F_bin op v) = (case v of SxS \<Rightarrow> NTCCTprf_ari_op_SxS | SxV \<Rightarrow> NTCCTprf_ari_op_SxV
        | VxS \<Rightarrow> NTCCTprf_ari_op_VxS | VxV \<Rightarrow> NTCCTprf_ari_op_VxV)" by (auto simp: op_classes)
    show ?thesis unfolding eq
      using ari_op_SxS_sound [OF 1] ari_op_SxV_sound [OF 1] ari_op_VxS_sound [OF 1] ari_op_VxV_sound [OF 1]
      by (cases v) (simp_all only: vs.case)
  next
    case 2
    then have eq: "prf_ntc_funtab (F_bin op v) = (case v of SxS \<Rightarrow> NTCCTprf_int_op_SxS | SxV \<Rightarrow> NTCCTprf_int_op_SxV
        | VxS \<Rightarrow> NTCCTprf_int_op_VxS | VxV \<Rightarrow> NTCCTprf_int_op_VxV)" by (auto simp: op_classes)
    show ?thesis unfolding eq
      using int_op_SxS_sound [OF 2] int_op_SxV_sound [OF 2] int_op_VxS_sound [OF 2] int_op_VxV_sound [OF 2]
      by (cases v) (simp_all only: vs.case)
  next
    case 3
    then have eq: "prf_ntc_funtab (F_bin op v) = (case v of SxS \<Rightarrow> NTCCTprf_log_op_SxS | SxV \<Rightarrow> NTCCTprf_log_op_SxV
        | VxS \<Rightarrow> NTCCTprf_log_op_VxS | VxV \<Rightarrow> NTCCTprf_log_op_VxV)" by (auto simp: op_classes)
    have "v = SxS \<or> v = VxV" using assms 3 by (cases v) auto
    then show ?thesis unfolding eq
      using log_op_SxS_sound [OF 3] log_op_VxV_sound [OF 3] by (elim disjE) (simp_all only: vs.case)
  next
    case 4
    then have eq: "prf_ntc_funtab (F_bin op v) = (case v of SxS \<Rightarrow> NTCCTprf_rel_op_SxS | SxV \<Rightarrow> NTCCTprf_rel_op_SxV
        | VxS \<Rightarrow> NTCCTprf_rel_op_VxS | VxV \<Rightarrow> NTCCTprf_rel_op_VxV)" by (auto simp: op_classes)
    show ?thesis unfolding eq
      using rel_op_SxS_sound [OF 4] rel_op_SxV_sound [OF 4] rel_op_VxS_sound [OF 4] rel_op_VxV_sound [OF 4]
      by (cases v) (simp_all only: vs.case)
  qed
qed

subsection \<open>Unary primitives and conversions\<close>

fun un_zop :: "un_op \<Rightarrow> zop" where
  "un_zop P_not = ZNot" | "un_zop P_neg = ZNeg" | "un_zop P_abs = ZAbs" | "un_zop P_reciproc = ZDiv"

fun conv_zop :: "conv_op \<Rightarrow> zop" where
  "conv_zop P_tobool = ZTobool" | "conv_zop P_toc = ZToc" | "conv_zop P_tob = ZTob" | "conv_zop P_tos = ZTos"
| "conv_zop P_toi = ZToi" | "conv_zop P_tol = ZTol" | "conv_zop P_toll = ZToll" | "conv_zop P_toub = ZToub"
| "conv_zop P_tous = ZTous" | "conv_zop P_toui = ZToui" | "conv_zop P_toul = ZToul" | "conv_zop P_toull = ZToull"
| "conv_zop P_tof = ZTof" | "conv_zop P_tod = ZTod"

fun conv_type :: "conv_op \<Rightarrow> simpletype" where
  "conv_type P_tobool = T_bool" | "conv_type P_toc = T_char" | "conv_type P_tob = T_byte" | "conv_type P_tos = T_short"
| "conv_type P_toi = T_int" | "conv_type P_tol = T_long" | "conv_type P_toll = T_longlong" | "conv_type P_toub = T_ubyte"
| "conv_type P_tous = T_ushort" | "conv_type P_toui = T_uint" | "conv_type P_toul = T_ulong"
| "conv_type P_toull = T_ulonglong" | "conv_type P_tof = T_float" | "conv_type P_tod = T_double"

lemma un_co_zip: "op \<noteq> P_reciproc \<Longrightarrow> un_co F op a = COzipUnary F (un_zop op) a T_unknown"
  by (cases op) (simp_all add: COnot_def COneg_def COabs_def)

lemma conv_co_zip: "conv_co F op a = COzipUnary F (conv_zop op) a (conv_type op)"
  by (cases op) (simp_all add: COtobool_def COtoc_def COtob_def COtos_def COtoi_def COtol_def COtoll_def
      COtoub_def COtous_def COtoui_def COtoul_def COtoull_def COtof_def COtod_def)

lemma zip_unary_result:
  assumes "con_ok t xs es" and z: "zip_supports z t" "zop_unary z" "target_ok z t target"
    and "COzipUnary F z (con t xs es) target = Inr c"
  shows "\<exists>gs. c = con (zip_type t target) xs gs \<and> con_ok (zip_type t target) xs gs"
  using assms(5) COzipUnary_con [OF assms(1) z, of F] zip_unary_ok [OF assms(1) z(2,3)]
  by (auto simp: bindR_Inr_iff)

locale elementwise1 =
  fixes F :: "'f fops" and p :: prf_t and op :: "'f const \<Rightarrow> 'f const cres"
    and sup :: "simpletype \<Rightarrow> bool" and rt :: "simpletype \<Rightarrow> simpletype"
  assumes folds: "prf_co_funtab F p = CO1 op"
    and result: "con_ok s xs es \<Longrightarrow> sup s \<Longrightarrow> op (con s xs es) = Inr c
        \<Longrightarrow> \<exists>gs. c = con (rt s) xs gs \<and> con_ok (rt s) xs gs"
begin

lemma returns_map:
  assumes "te_fops E = F" and "TEgetPrf info = Inr p" and t: "inhab t s xs es" and "sup s"
    and run: "op (con s xs es) = Inr c"
    and b: "\<exists>b. sc = Inr b \<and> elem_type b (rt s)"
    and other: "has_shape t s xs \<Longrightarrow> \<exists>r. rest = Inr r \<and> has_shape r (rt s) xs"
  shows "\<exists>gs. c = con (rt s) xs gs
     \<and> returns (results 1 (ifT (TYisAKV t) (folded E info (NT TC_prod m [t]) sc) (one_type rest)) None) (rt s) xs gs"
proof -
  obtain gs where c: "c = con (rt s) xs gs" "con_ok (rt s) xs gs" using result [OF inhab_ok [OF t] assms(4) run] by blast
  obtain bt where bt: "sc = Inr bt" "elem_type bt (rt s)" using b by blast
  have "returns (results 1 (ifT (TYisAKV t) (folded E info (NT TC_prod m [t]) sc) (one_type rest)) None) (rt s) xs gs"
  proof (rule inhab_cases [OF t])
    assume v: "akv t" "has_value t s xs es"
    then have "ApplyCF E info (NT TC_prod m [t]) = retT (con (rt s) xs gs)"
      using run c(1) assms(1) folds by (intro ApplyCF_1 [OF assms(2), of E op]) simp_all
    from returns_folded [OF this bt(2) c(2)] v bt(1) show ?thesis by (simp add: inhab_tests [OF t])
  next
    assume "\<not> akv t" "has_shape t s xs"
    with other returns_shape [OF _ c(2)] show ?thesis by (auto simp: inhab_tests [OF t])
  qed
  with c show ?thesis by blast
qed

end

text \<open>The reciprocal divides a constant of ones of the same type and shape.\<close>

lemma ext_back: "s \<in> num_types \<Longrightarrow> ext_ctype (basecv_ext s) \<noteq> None \<Longrightarrow> ext_simpletype (basecv_ext s) = s"
  by (auto simp: num_types_def)

lemma reciproc_result:
  assumes ok: "con_ok s xs es" and s: "s \<in> num_types" and z: "zip_supports ZDiv s"
    and run: "COreciproc F (con s xs es) = Inr c"
  shows "\<exists>gs. c = con s xs gs \<and> con_ok s xs gs"
proof -
  have f: "shape_fits xs" using con_okD [OF ok] by simp
  have g: "COgetType (con s xs es) = s" "COgetShape (con s xs es) = sh xs"
    by (simp_all add: COgetType_def COgetShape_def con_def)
  obtain v where v: "base_cell F BOne s = Some v"
    using run by (cases "base_cell F BOne s") (auto simp: COreciproc_def COmakeOne_def CObaseCv_none)
  then have e: "ext_simpletype (basecv_ext s) = s"
    using ext_back [OF s] by (auto simp: base_cell_def split: option.splits)
  let ?ones = "replicate (nat (prod_list xs)) v"
  have "COmakeOne F s (sh xs) = Inr (Some (con s xs ?ones))"
    unfolding COmakeOne_def using CObaseCv_con [OF f v] by (simp add: e)
  then have zip: "COzip F ZDiv (con s xs ?ones) (con s xs es) T_unknown = Inr c"
    using run by (simp add: COreciproc_def g)
  have ones: "con_ok s xs ?ones" using base_const_ok [OF f v] by (simp add: e)
  have t: "target_ok ZDiv s T_unknown" by (rule target_ok_same) (use z in simp_all)
  show ?thesis
    using zip_result [OF ones ok z _ t _ zip] by (auto simp: zip_shape_def zip_type_def split: if_splits)
qed

interpretation un: elementwise1 F "F_un op v" "un_co F op"
  "\<lambda>s. (op = P_reciproc \<longrightarrow> s \<in> num_types) \<and> zip_supports (un_zop op) s" "\<lambda>s. s"
  for F op v
proof
  fix s xs c and es :: "'a cval list"
  assume a: "con_ok s xs es" "(op = P_reciproc \<longrightarrow> s \<in> num_types) \<and> zip_supports (un_zop op) s"
    "un_co F op (con s xs es) = Inr c"
  show "\<exists>gs. c = con s xs gs \<and> con_ok s xs gs"
  proof (cases "op = P_reciproc")
    case True
    then show ?thesis using reciproc_result [OF a(1)] a(2,3) by simp
  next
    case False
    then have z: "zop_unary (un_zop op)" "zop_res (un_zop op) ct = ct" for ct by (cases op; simp)+
    show ?thesis
      using zip_unary_result [OF a(1) _ z(1) target_ok_same, of F c] a False z(2) by (simp add: un_co_zip)
  qed
qed simp

interpretation conv: elementwise1 F "F_conv op" "conv_co F op" "zip_supports (conv_zop op)" "\<lambda>s. conv_type op" for F op
proof
  fix s xs c and es :: "'a cval list"
  assume a: "con_ok s xs es" "zip_supports (conv_zop op) s" "conv_co F op (con s xs es) = Inr c"
  have z: "zop_unary (conv_zop op)" "Some (zop_res (conv_zop op) ct) = cell_type (conv_type op)" "conv_type op \<noteq> T_unknown"
    for ct by (cases op; simp add: cell_type_def)+
  have "target_ok (conv_zop op) s (conv_type op)" by (rule target_ok_res [OF a(2) z(2,3)])
  from zip_unary_result [OF a(1,2) z(1) this] a(3)
  show "\<exists>gs. c = con (conv_type op) xs gs \<and> con_ok (conv_type op) xs gs"
    using z(3) by (simp add: conv_co_zip zip_type_def)
qed simp

definition un_types :: "un_op \<Rightarrow> simpletype set" where
  "un_types op = (case op of P_not \<Rightarrow> {T_bool} | P_neg \<Rightarrow> signed_num_types | _ \<Rightarrow> num_types)"

lemma copy_ex: "has_shape t s xs \<Longrightarrow> \<exists>r. TYcopyType t = Inr r \<and> has_shape r s xs"
  by (rule has_shape_copy)

lemma un_ntc_sound:
  assumes info: "TEgetPrf info = Inr (F_un op v)" and t: "inhab t s xs es"
    and shp: "(case v of S_arg \<Rightarrow> xs = [] | V_arg \<Rightarrow> length xs = 1)"
    and ty: "s \<in> un_types op" "zip_supports (un_zop op) s"
    and run: "un_co (te_fops E) op (con s xs es) = Inr c"
  shows "\<exists>gs. c = con s xs gs \<and> returns (prf_ntc_funtab (F_un op v) E info (NT TC_prod m [t]) None) s xs gs"
proof -
  let ?k = "\<lambda>sc. results 1 (ifT (TYisAKV t) (folded E info (NT TC_prod m [t]) sc) (one_type (TYcopyType t))) None"
  have sc: "\<exists>b. scalar_of t = Inr b \<and> elem_type b s" by (rule scalar_of_ex [OF t])
  have ev: "prf_ntc_funtab (F_un op v) E info (NT TC_prod m [t]) None
      = ?k (if op = P_not then TYmakeSimpleType T_bool else scalar_of t)"
  proof (cases v)
    case S_arg
    then have "inhab t s [] es" using t shp by simp
    from assure_scalar [OF this] show ?thesis using S_arg ty info
      by (cases op) (simp_all add: NTCCTprf_log_op_S_def NTCCTprf_ari_op_S_def un_types_def)
  next
    case V_arg
    then obtain x where "inhab t s [x] es" using t shp by (cases xs) auto
    from assure_vector [OF this] show ?thesis using V_arg ty info
      by (cases op) (simp_all add: NTCCTprf_log_op_V_def NTCCTprf_ari_op_V_def un_types_def)
  qed
  have b: "\<exists>b. (if op = P_not then TYmakeSimpleType T_bool else scalar_of t) = Inr b \<and> elem_type b s"
    using sc bool_elem ty(1) by (auto simp: un_types_def)
  show ?thesis unfolding ev by (rule un.returns_map [OF refl info t _ run b copy_ex]) (use ty in \<open>auto simp: un_types_def\<close>)
qed

lemma conv_ntc_sound:
  assumes info: "TEgetPrf info = Inr (F_conv op)" and t: "inhab t s [] es" and "zip_supports (conv_zop op) s"
    and run: "conv_co (te_fops E) op (con s [] es) = Inr c"
  shows "\<exists>gs. c = con (conv_type op) [] gs
     \<and> returns (prf_ntc_funtab (F_conv op) E info (NT TC_prod m [t]) None) (conv_type op) [] gs"
proof -
  have "prf_ntc_funtab (F_conv op) E info (NT TC_prod m [t]) = ConvS E info (NT TC_prod m [t]) (conv_type op)"
    by (cases op) (simp_all add: NTCCTprf_tobool_S_def NTCCTprf_toc_S_def NTCCTprf_tob_S_def NTCCTprf_tos_S_def
        NTCCTprf_toi_S_def NTCCTprf_tol_S_def NTCCTprf_toll_S_def NTCCTprf_toub_S_def NTCCTprf_tous_S_def
        NTCCTprf_toui_S_def NTCCTprf_toul_S_def NTCCTprf_toull_S_def NTCCTprf_tof_S_def NTCCTprf_tod_S_def)
  then have ev: "prf_ntc_funtab (F_conv op) E info (NT TC_prod m [t]) None
      = results 1 (ifT (TYisAKV t) (folded E info (NT TC_prod m [t]) (TYmakeSimpleType (conv_type op)))
          (one_type (aks_scalar (TYmakeSimpleType (conv_type op))))) None"
    by (simp add: ConvS_def assure_scalar [OF t] assure_simple [OF t])
  have b: "\<exists>b. TYmakeSimpleType (conv_type op) = Inr b \<and> elem_type b (conv_type op)"
    by (rule make_elem) (cases op; simp)
  show ?thesis unfolding ev by (rule conv.returns_map [OF refl info t assms(3) run b scalar_shape_ex [OF b]])
qed

end
