(* ===== verification/CT_Sound_Struc.thy ===== *)
theory CT_Sound_Struc
  imports CT_Sound
begin

text \<open>
  The type functions of structural primitives are sound: for types of the argument arrays they
  return a type that the array computed by the constant operation inhabits.  An index or a
  shape is an integer vector \<open>ivec iv\<close>, whose type may be known or not.
\<close>

subsection \<open>Integer vectors\<close>

abbreviation is_ivec :: "'f ntype \<Rightarrow> int list \<Rightarrow> bool" where
  "is_ivec t iv \<equiv> inhab t T_int [int (length iv)] (map (CInt IInt) iv)"

abbreviation is_iscal :: "'f ntype \<Rightarrow> int \<Rightarrow> bool" where
  "is_iscal t k \<equiv> inhab t T_int [] [CInt IInt k]"

lemma int_elem_ivec:
  assumes "has_value t T_int xs (map (CInt IInt) iv)" and "0 \<le> i" and "i < int (length iv)"
  shows "int_elem t i = Inr (iv ! nat i)"
  using assms by (simp add: int_elem_def inhab_value rd_int_full)

lemma int_elem_iscal:
  assumes "has_value t T_int [] [CInt IInt k]"
  shows "int_elem t 0 = Inr k"
  using int_elem_ivec [of t "[]" "[k]" 0] assms by simp

lemma value_if_akv: "inhab t s xs es \<Longrightarrow> akv t \<Longrightarrow> has_value t s xs es"
  by (elim inhab_cases) auto

lemma error_if_guarded:
  assumes "a = Inr p" and "p \<Longrightarrow> b = Inr False"
  shows "error_if (andR a b) msg = retT ()" and "andR a b = Inr False"
  using assms by (cases p; simp add: andR_def)+

lemma seqT_all: "(\<And>m. m \<in> set ms \<Longrightarrow> m = retT ()) \<Longrightarrow> seqT ms = retT ()"
proof (induction ms)
  case (Cons a ms)
  from Cons.prems have "a = retT ()" and "\<And>m. m \<in> set ms \<Longrightarrow> m = retT ()" by simp_all
  with Cons.IH show ?case by simp
qed simp

lemma error_each_none:
  assumes "n = Inr k" and "\<And>i. 0 \<le> i \<Longrightarrow> i < k \<Longrightarrow> bad i = Inr False"
  shows "error_each n bad msg = retT ()"
  unfolding error_each_def assms(1) using assms(2) by (auto intro!: seqT_all)

subsection \<open>The assurances hold\<close>

lemma assure_shp_matches_dim:
  assumes "is_ivec t iv" and "inhab u s xs es" and "length iv = length xs"
  shows "TEassureShpMatchesDim t u = retT ()"
  unfolding TEassureShpMatchesDim_def
proof (rule error_if_guarded(1) [OF inhab_tests(3) [OF assms(1)]])
  assume k: "shp_known t"
  show "andR (con_dim u) (bindR (extent t 0) (\<lambda>e. bindR (TYgetDim u) (\<lambda>d. Inr (e \<noteq> d)))) = Inr False"
  proof (rule error_if_guarded(2) [OF inhab_tests(4) [OF assms(2)]])
    assume "dim_known u"
    then show "bindR (extent t 0) (\<lambda>e. bindR (TYgetDim u) (\<lambda>d. Inr (e \<noteq> d))) = Inr False"
      using inhab_extent [OF assms(1) k, of 0] assms(3) by (simp add: inhab_dim [OF assms(2)])
  qed
qed

lemma assure_val_matches_shape:
  assumes "is_ivec t iv" and "inhab u s xs es" and "valid_idx xs iv"
  shows "TEassureValMatchesShape t u = retT ()"
proof (cases "akv t \<and> shp_known u")
  case True
  then have v: "has_value t T_int [int (length iv)] (map (CInt IInt) iv)" using value_if_akv [OF assms(1)] by simp
  have "error_each (bindR (TYgetValue t) (\<lambda>k. SHgetExtent (COgetShape k) 0))
    (\<lambda>i. bindR (int_elem t i) (\<lambda>v. if v < 0 then Inr True else bindR (extent u i) (\<lambda>e. Inr (e \<le> v)))) msg = retT ()" for msg
  proof (rule error_each_none)
    show "bindR (TYgetValue t) (\<lambda>k. SHgetExtent (COgetShape k) 0) = Inr (int (length iv))"
      by (simp add: inhab_value [OF v] COgetShape_def SHgetExtent_sh)
  next
    fix i :: int
    assume i: "0 \<le> i" "i < int (length iv)"
    then have "0 \<le> iv ! nat i" "iv ! nat i < xs ! nat i" "i < int (length xs)"
      using valid_idx_nth [OF assms(3), of "nat i"] valid_idx_length [OF assms(3)] by auto
    then show "bindR (int_elem t i) (\<lambda>v. if v < 0 then Inr True else bindR (extent u i) (\<lambda>e. Inr (e \<le> v))) = Inr False"
      using i True by (simp add: int_elem_ivec [OF v] inhab_extent [OF assms(2)])
  qed
  with True show ?thesis by (simp add: TEassureValMatchesShape_def inhab_tests [OF assms(1)] inhab_tests [OF assms(2)] andR_def)
next
  case False
  then show ?thesis
    by (auto simp add: TEassureValMatchesShape_def inhab_tests [OF assms(1)] inhab_tests [OF assms(2)] andR_def)
qed

lemma assure_idx_matches_shape:
  assumes "is_iscal t k" and "inhab u s xs es" and "0 \<le> k" and "k < prod_list xs"
  shows "TEassureIdxMatchesShape t u = retT ()"
  unfolding TEassureIdxMatchesShape_def
proof (rule error_if_guarded(1) [OF inhab_tests(2) [OF assms(1)]])
  assume "akv t"
  then have e: "int_elem t 0 = Inr k" by (rule int_elem_iscal [OF value_if_akv [OF assms(1)]])
  show "andR (con_shape u) (bindR (int_elem t 0) (\<lambda>v. if v < 0 then Inr True
      else bindR (TYgetShape u) (\<lambda>s. bindR (SHgetUnrLen s) (\<lambda>n. Inr (n \<le> v))))) = Inr False"
    using assms(3,4) con_okD(1) [OF inhab_ok [OF assms(2)]]
    by (intro error_if_guarded(2) [OF inhab_tests(3) [OF assms(2)]])
      (simp add: e inhab_shape [OF assms(2)] SHgetUnrLen_sh)
qed

lemma prod_loop:
  assumes "shape_fits ys" and "\<And>i. 0 \<le> i \<Longrightarrow> i < int (length ys) \<Longrightarrow> get i = Inr (ys ! nat i)"
  shows "cfor 0 (int (length ys)) (\<lambda>i p. bindR (get i) (\<lambda>v. ck_int (p * v))) 1 = Inr (prod_list ys)"
proof -
  let ?g = "\<lambda>j. prod_list (take (nat j) ys)" and ?f = "\<lambda>i p. bindR (get i) (\<lambda>v. ck_int (p * v))"
  have "?f j (?g j) = Inr (?g (j + 1))" if j: "0 \<le> j" "j < int (length ys)" for j
  proof -
    have "take (nat (j + 1)) ys = take (nat j) ys @ [ys ! nat j]"
      using j by (simp add: nat_add_distrib take_Suc_conv_app_nth)
    then have "?g j * ys ! nat j = ?g (j + 1)" by simp
    then show ?thesis
      using assms(2) [OF j] shape_fits_prod [OF shape_fits_take [OF assms(1)], of "nat (j + 1)"] by (simp add: ck_int_ok)
  qed
  from cfor_traj [of 0 "int (length ys)" ?f ?g, OF _ this] show ?thesis by simp
qed

lemma assure_prod_matches:
  assumes "is_ivec t ys" and "inhab u s xs es" and "shape_fits ys" and "prod_list ys = prod_list xs"
  shows "TEassureProdValMatchesProdShape t u = retT ()"
  unfolding TEassureProdValMatchesProdShape_def
proof (rule error_if_guarded(1) [OF inhab_tests(2) [OF assms(1)]])
  let ?g = "\<lambda>dim. bindR (cfor 0 dim (\<lambda>i p. bindR (int_elem t i) (\<lambda>v. ck_int (p * v))) 1) (\<lambda>p.
      bindR (TYgetShape u) (\<lambda>s. bindR (SHgetUnrLen s) (\<lambda>n. Inr (p \<noteq> n))))"
  assume a: "akv t"
  note v = value_if_akv [OF assms(1) a]
  have e: "extent t 0 = Inr (int (length ys))"
    using inhab_extent [OF assms(1) akv_known [OF a], of 0] by simp
  have "?g (int (length ys)) = Inr False" if k: "shp_known u"
    using prod_loop [OF assms(3) int_elem_ivec [OF v]] con_okD(1) [OF inhab_ok [OF assms(2)]] assms(4)
    by (simp add: inhab_shape [OF assms(2) k] SHgetUnrLen_sh)
  then show "andR (con_shape u) (bindR (extent t 0) ?g) = Inr False"
    by (intro error_if_guarded(2) [OF inhab_tests(3) [OF assms(2)]]) (simp add: e)
qed

lemma assure_nonneg_V:
  assumes "is_ivec t ys" and "\<forall>y\<in>set ys. 0 \<le> y"
  shows "TEassureNonNegativeValues_V t = retT ()"
proof (cases "akv t")
  case True
  note v = value_if_akv [OF assms(1) True]
  have "error_each (extent t 0) (\<lambda>i. bindR (int_elem t i) (\<lambda>d. Inr (d < 0))) msg = retT ()" for msg
  proof (rule error_each_none)
    show "extent t 0 = Inr (int (length ys))"
      using inhab_extent [OF assms(1) akv_known [OF True], of 0] by simp
    fix i :: int
    assume "0 \<le> i" "i < int (length ys)"
    then show "bindR (int_elem t i) (\<lambda>d. Inr (d < 0)) = Inr False"
      using assms(2) by (auto simp: int_elem_ivec [OF v] not_less)
  qed
  with True show ?thesis by (simp add: TEassureNonNegativeValues_V_def inhab_tests [OF assms(1)])
qed (simp add: TEassureNonNegativeValues_V_def inhab_tests [OF assms(1)])

subsection \<open>Folding or the type of the result\<close>

lemma both_akv_inhab:
  assumes "inhab t s xs es" and "inhab u s' ys fs"
  shows "both_akv t u = Inr (akv t \<and> akv u)"
  by (simp add: both_akv_def inhab_tests [OF assms(1)] inhab_tests [OF assms(2)])

lemma returns_fold:
  assumes fold: "akv t \<Longrightarrow> akv u \<Longrightarrow> ApplyCF E info (NT TC_prod m [t, u]) = retT (con r zs gs)"
    and t: "inhab t s xs es" and u: "inhab u s' ys fs" and ok: "con_ok r zs gs"
    and sc: "\<exists>b. sc = Inr b \<and> elem_type b r"
    and rest: "\<not> (akv t \<and> akv u) \<Longrightarrow> \<exists>w. rest = Inr w \<and> has_shape w r zs"
  shows "returns (results 1 (ifT (both_akv t u) (folded E info (NT TC_prod m [t, u]) sc) (one_type rest)) None) r zs gs"
proof (cases "akv t \<and> akv u")
  case True
  with returns_folded [OF fold _ ok] sc show ?thesis by (auto simp: both_akv_inhab [OF t u])
next
  case False
  with rest returns_shape [OF _ ok] show ?thesis by (auto simp: both_akv_inhab [OF t u])
qed

lemma returns_fold2:
  assumes info: "TEgetPrf info = Inr p" and "prf_co_funtab (te_fops E) p = CO2 op"
    and t: "inhab t s xs es" and u: "inhab u s' ys fs"
    and run: "op (con s xs es) (con s' ys fs) = Inr (con r zs gs)" and ok: "con_ok r zs gs"
    and sc: "\<exists>b. sc = Inr b \<and> elem_type b r"
    and rest: "\<not> (akv t \<and> akv u) \<Longrightarrow> \<exists>w. rest = Inr w \<and> has_shape w r zs"
  shows "returns (results 1 (ifT (both_akv t u) (folded E info (NT TC_prod m [t, u]) sc) (one_type rest)) None) r zs gs"
  using value_if_akv [OF t] value_if_akv [OF u] run assms(2)
  by (intro returns_fold [OF _ t u ok sc rest] ApplyCF_2 [OF info, of E op "\<lambda>a b. Some (op a b)"]) simp_all

subsection \<open>Selection\<close>

lemma sel_sound:
  assumes info: "TEgetPrf info = Inr (F_struct P_sel_VxA)"
    and t: "is_ivec t iv" and u: "inhab u s xs es" and i: "valid_idx xs iv" "length iv = length xs"
  shows "returns (NTCCTprf_sel_VxA E info (NT TC_prod m [t, u]) None) s [] (sub_elems xs iv es)"
proof -
  have ev: "NTCCTprf_sel_VxA E info (NT TC_prod m [t, u]) None
      = results 1 (ifT (both_akv t u) (folded E info (NT TC_prod m [t, u]) (scalar_of u))
          (one_type (aks_scalar (scalar_of u)))) None"
    by (simp add: NTCCTprf_sel_VxA_def assure_vector [OF t] assure_shp_matches_dim [OF t u i(2)]
        assure_val_matches_shape [OF t u i(1)])
  have fold: "prf_co_funtab (te_fops E) (F_struct P_sel_VxA) = CO2 COsel" by simp
  have run: "COsel (ivec iv) (con s xs es) = Inr (con s [] (sub_elems xs iv es))"
    using COsel_con [OF inhab_ok [OF u] i(1)] i(2) by simp
  have ok: "con_ok s [] (sub_elems xs iv es)" using sub_elems_ok [OF inhab_ok [OF u] i(1)] i(2) by simp
  note sc = scalar_of_ex [OF u]
  show ?thesis unfolding ev
    by (rule returns_fold2 [OF info fold t u run ok sc scalar_shape_ex [OF sc]])
qed

lemma idx_sel_sound:
  assumes info: "TEgetPrf info = Inr (F_index P_idx_sel)"
    and t: "is_iscal t (int k)" and u: "inhab u s xs es" and i: "k < length es"
  shows "returns (NTCCTprf_idx_selS E info (NT TC_prod m [t, u]) None) s [] [es ! k]"
proof -
  note ok = inhab_ok [OF u]
  have ev: "NTCCTprf_idx_selS E info (NT TC_prod m [t, u]) None
      = results 1 (ifT (both_akv t u) (folded E info (NT TC_prod m [t, u]) (scalar_of u))
          (one_type (aks_scalar (scalar_of u)))) None"
    using i con_okD(2) [OF ok]
    by (simp add: NTCCTprf_idx_selS_def assure_scalar [OF t] assure_simple [OF u]
        assure_idx_matches_shape [OF t u])
  have fold: "prf_co_funtab (te_fops E) (F_index P_idx_sel) = CO2 COidxSel" by simp
  have ok1: "con_ok s [] [es ! k]" using ok i by (auto simp: con_ok_def cells_ok_def)
  note sc = scalar_of_ex [OF u]
  show ?thesis unfolding ev
    by (rule returns_fold2 [OF info fold t u COidxSel_con [OF ok i] ok1 sc scalar_shape_ex [OF sc]])
qed

subsection \<open>Reshaping and concatenation\<close>

lemma reshape_type_shape:
  assumes t: "is_ivec t ys" and u: "inhab u s xs es" and r: "shape_fits ys" and nk: "\<not> (akv t \<and> akv u)"
  shows "\<exists>w. reshape_type t u = Inr w \<and> has_shape w s ys"
proof -
  obtain b where b: "scalar_of u = Inr b" "elem_type b s" using inhab_scalar_of [OF u] .
  have aud: "\<exists>w. TYmakeAUD b = Inr w \<and> has_shape w s ys"
    using b(2) by (auto simp: TYmakeAUD_def make_array_eq has_shape_def)
  show ?thesis
  proof (cases rule: inhab_form [OF t])
    case (1 m c)
    then show ?thesis using b by (auto simp: reshape_type_def COconstant2Shape_con TYmakeAKS_def make_array_eq has_shape_def)
  next
    case (2 m c)
    then have f: "shape_fits [int (length ys)]" using inhab_ok [OF t] by (simp add: con_ok_def)
    show ?thesis
    proof (cases "ys = []")
      case True
      with 2 f b elem_aks_scalar [OF b(2)] show ?thesis by (simp add: reshape_type_def SHgetUnrLen_sh)
    next
      case False
      have "to_size (int (length ys)) = length ys" using f by (intro to_size_length) (simp add: shape_fits_def)
      with 2 f b False akd_type [OF b(2), of "length ys" ys] show ?thesis
        by (simp add: reshape_type_def SHgetUnrLen_sh SHgetExtent_sh)
    qed
  qed (use b aud in \<open>simp_all add: reshape_type_def\<close>)
qed

lemma reshape_sound:
  assumes info: "TEgetPrf info = Inr (F_struct P_reshape_VxA)"
    and t: "is_ivec t ys" and u: "inhab u s xs es" and r: "shape_fits ys" "prod_list ys = prod_list xs"
  shows "returns (NTCCTprf_reshape_VxA E info (NT TC_prod m [t, u]) None) s ys es"
proof -
  have nn: "\<forall>y\<in>set ys. 0 \<le> y" using r(1) shape_fits_nonneg by blast
  have ev: "NTCCTprf_reshape_VxA E info (NT TC_prod m [t, u]) None
      = results 1 (ifT (both_akv t u) (folded E info (NT TC_prod m [t, u]) (scalar_of u))
          (one_type (reshape_type t u))) None"
    by (simp add: NTCCTprf_reshape_VxA_def assure_vector [OF t] assure_nonneg_V [OF t nn]
        assure_prod_matches [OF t u r])
  have fold: "prf_co_funtab (te_fops E) (F_struct P_reshape_VxA) = CO2 COreshape" by simp
  have ok: "con_ok s ys es" using inhab_ok [OF u] r by (simp add: con_ok_def)
  show ?thesis unfolding ev
    by (rule returns_fold2 [OF info fold t u COreshape_con [OF inhab_ok [OF u] r] ok scalar_of_ex [OF u]
          reshape_type_shape [OF t u r(1)]])
qed

lemma cat_sound:
  assumes info: "TEgetPrf info = Inr (F_struct P_cat_VxV)"
    and t: "inhab t s [x] es" and u: "inhab u s [y] fs" and fit: "x + y \<le> int_max"
  shows "returns (NTCCTprf_cat_VxV E info (NT TC_prod m [t, u]) None) s [x + y] (es @ fs)"
proof -
  let ?sh = "bindR (scalar_of t) (\<lambda>b. bindR (extent t 0) (\<lambda>e1. bindR (extent u 0) (\<lambda>e2.
        bindR (bindR (ck_int (e1 + e2)) (\<lambda>n. SHcreateShape 1 [n])) (TYmakeAKS b))))"
  let ?rest = "if shp_known t \<and> shp_known u then ?sh else akd_of (scalar_of t) 1"
  have pos: "0 \<le> x" "0 \<le> y" using inhab_ok [OF t] inhab_ok [OF u] by (auto simp: con_ok_def shape_fits_def)
  have k: "andR (orR (TYisAKV t) (TYisAKS t)) (orR (TYisAKV u) (TYisAKS u)) = Inr (shp_known t \<and> shp_known u)"
    unfolding inhab_tests(7) [OF t] inhab_tests(7) [OF u] by (simp add: andR_def)
  have ev: "NTCCTprf_cat_VxV E info (NT TC_prod m [t, u]) None
      = results 1 (ifT (both_akv t u) (folded E info (NT TC_prod m [t, u]) (scalar_of t)) (one_type ?rest)) None"
    by (cases "shp_known t"; cases "shp_known u"; simp add: NTCCTprf_cat_VxV_def assure_simple [OF t] assure_simple [OF u] assure_vector [OF t] assure_vector [OF u]
        assure_same_simple [OF t u] k)
  have fold: "prf_co_funtab (te_fops E) (F_struct P_cat_VxV) = CO2 COcat" by simp
  have run: "COcat (con s [x] es) (con s [y] fs) = Inr (con s [x + y] (es @ fs))"
    using COcat_con [OF inhab_ok [OF t] inhab_ok [OF u] _ fit] by simp
  have ok: "con_ok s [x + y] (es @ fs)"
    using inhab_ok [OF t] inhab_ok [OF u] fit by (auto simp: con_ok_def cells_ok_def shape_fits_def int_max_def)
  obtain b where b: "scalar_of t = Inr b" "elem_type b s" using inhab_scalar_of [OF t] .
  have "\<exists>w. ?sh = Inr w \<and> has_shape w s [x + y]" if "shp_known t" "shp_known u"
    using b fit pos SHcreateShape_sh [of "[x + y]"]
    by (auto simp: inhab_extent [OF t that(1)] inhab_extent [OF u that(2)] ck_int_ok int_max_def TYmakeAKS_def
        make_array_eq has_shape_def)
  then have rest: "\<exists>w. ?rest = Inr w \<and> has_shape w s [x + y]"
    using akd_type [OF b(2), of 1 "[x + y]"] b(1) by simp
  show ?thesis unfolding ev
    by (rule returns_fold2 [OF info fold t u run ok scalar_of_ex [OF t] rest])
qed

subsection \<open>Modification\<close>

lemma returns_modified:
  assumes info: "TEgetPrf info = Inr p" and "prf_co_funtab (te_fops E) p = CO3 op"
    and a: "inhab a s xs es" and i: "inhab i s' ys fs" and v: "inhab v s'' zs gs"
    and run: "op (con s xs es) (con s' ys fs) (con s'' zs gs) = Inr (con s xs hs)" and ok: "con_ok s xs hs"
  shows "returns (results 1 (modified E info (NT TC_prod m [a, i, v]) a i v) None) s xs hs"
proof (cases "akv a")
  case True
  show ?thesis
  proof (cases "akv i \<and> akv v")
    case iv: True
    with True have "ApplyCF E info (NT TC_prod m [a, i, v]) = retT (con s xs hs)"
      using value_if_akv [OF a] value_if_akv [OF i] value_if_akv [OF v] run
      by (intro ApplyCF_3 [OF assms(1,2)]) simp_all
    with returns_folded [OF this _ ok] scalar_of_ex [OF a] True iv show ?thesis
      by (auto simp: modified_def inhab_tests [OF a] both_akv_inhab [OF i v])
  next
    case False
    with True inhab_aks_like [OF a akv_known [OF True]] returns_shape [OF _ ok] show ?thesis
      by (auto simp: modified_def inhab_tests [OF a] both_akv_inhab [OF i v])
  qed
next
  case False
  then have "has_shape a s xs" using a by (elim inhab_cases) auto
  with has_shape_copy [OF this] returns_shape [OF _ ok] False show ?thesis
    by (auto simp: modified_def inhab_tests [OF a])
qed

lemma assure_same_scalar:
  assumes "inhab t s xs es" and "inhab u s ys fs"
  shows "TEassureSameScalarType E t u = retT ()"
  by (rule inhab_scalar [OF assms(1)]; rule inhab_scalar [OF assms(2)])
    (auto simp: TEassureSameScalarType_def elem_type_def TYeqTypes_def)

lemma modarray_AxVxS_sound:
  assumes info: "TEgetPrf info = Inr (F_struct P_modarray_AxVxS)"
    and a: "inhab a s xs es" and i: "is_ivec i iv" and v: "inhab v s [] vs"
    and idx: "valid_idx xs iv" "length iv = length xs"
  shows "returns (NTCCTprf_modarray_AxVxS E info (NT TC_prod m [a, i, v]) None) s xs (put_elems xs iv vs es)"
proof -
  have ev: "NTCCTprf_modarray_AxVxS E info (NT TC_prod m [a, i, v]) None
      = results 1 (modified E info (NT TC_prod m [a, i, v]) a i v) None"
    by (simp add: NTCCTprf_modarray_AxVxS_def assure_scalar [OF v] assure_same_scalar [OF a v] assure_vector [OF i]
        assure_shp_matches_dim [OF i a idx(2)] assure_val_matches_shape [OF i a idx(1)])
  have fold: "prf_co_funtab (te_fops E) (F_struct P_modarray_AxVxS) = CO3 COmodarray_AxVxS" by simp
  have d: "con_ok s (drop (length iv) xs) vs" using inhab_ok [OF v] idx(2) by simp
  have run: "COmodarray_AxVxS (con s xs es) (ivec iv) (con s [] vs) = Inr (con s xs (put_elems xs iv vs es))"
    using COmodarray_AxVxA_con [OF inhab_ok [OF a] idx(1) d] idx(2) by (simp add: COmodarray_AxVxS_AxVxA)
  show ?thesis unfolding ev
    by (rule returns_modified [OF info fold a i v run put_elems_ok [OF inhab_ok [OF a] idx(1) d]])
qed

lemma assure_shp_plus_dim:
  assumes "is_ivec i iv" and "inhab v s zs gs" and "inhab a s' xs es" and "length iv + length zs = length xs"
    and "int (length xs) \<le> int_max"
  shows "TEassureShpPlusDimMatchesDim i v a = retT ()"
proof -
  let ?d = "bindR (extent i 0) (\<lambda>e. bindR (TYgetDim v) (\<lambda>d2. bindR (ck_int (e + d2)) (\<lambda>n.
      bindR (TYgetDim a) (\<lambda>d3. Inr (n \<noteq> d3)))))"
  have "?d = Inr False" if "shp_known i" "dim_known v" "dim_known a"
    using inhab_extent [OF assms(1) that(1), of 0] assms(4,5)
    by (simp add: inhab_dim [OF assms(2) that(2)] inhab_dim [OF assms(3) that(3)] ck_int_ok)
  then show ?thesis unfolding TEassureShpPlusDimMatchesDim_def
    by (intro error_if_guarded(1) [OF inhab_tests(3) [OF assms(1)]]
        error_if_guarded(2) [OF inhab_tests(4) [OF assms(2)]] error_if_guarded(2) [OF inhab_tests(4) [OF assms(3)]])
qed

lemma assure_postfix:
  assumes v: "inhab v s (drop n xs) gs" and a: "inhab a s' xs es" and n: "n \<le> length xs" "int (length xs) \<le> int_max"
  shows "TEassureShpIsPostfixOfShp v a = retT ()"
proof -
  let ?d = "int (length xs) - int n"
  let ?cmp = "\<lambda>offset i. bindR (extent v i) (\<lambda>e1. bindR (extent a (i + offset)) (\<lambda>e2. Inr (e1 \<noteq> e2)))"
  let ?loop = "\<lambda>d1 offset. cfor 0 d1 (\<lambda>i differs. if differs then Inr True else ?cmp offset i) False"
  let ?m = "bindR (TYgetDim a) (\<lambda>d2. bindR (TYgetDim v) (\<lambda>d1. bindR (ck_int (d2 - d1)) (?loop d1)))"
  have "?m = Inr False" if k: "shp_known v" "shp_known a"
  proof -
    have "?cmp (int n) i = Inr False" if "0 \<le> i" "i < ?d" for i
      using that n by (simp add: inhab_extent [OF v k(1)] inhab_extent [OF a k(2)] nat_add_distrib add.commute)
    then have "?loop ?d (int n) = Inr False"
      using n(1) by (intro cfor_traj [of 0 ?d _ "\<lambda>_. False"]) simp_all
    then show ?thesis using n
      by (simp add: inhab_dim [OF v shp_known_dim [OF k(1)]] inhab_dim [OF a shp_known_dim [OF k(2)]] ck_int_ok of_nat_diff)
  qed
  then show ?thesis unfolding TEassureShpIsPostfixOfShp_def
    by (intro error_if_guarded(1) [OF inhab_tests(3) [OF v]] error_if_guarded(2) [OF inhab_tests(3) [OF a]])
qed

lemma modarray_AxVxA_sound:
  assumes info: "TEgetPrf info = Inr (F_struct P_modarray_AxVxA)"
    and a: "inhab a s xs es" and i: "is_ivec i iv" and v: "inhab v s (drop (length iv) xs) vs"
    and idx: "valid_idx xs iv" "int (length xs) \<le> int_max"
  shows "returns (NTCCTprf_modarray_AxVxA E info (NT TC_prod m [a, i, v]) None) s xs (put_elems xs iv vs es)"
proof -
  have l: "length iv \<le> length xs" by (rule valid_idx_length [OF idx(1)])
  then have l': "length iv + length (drop (length iv) xs) = length xs" by simp
  have ev: "NTCCTprf_modarray_AxVxA E info (NT TC_prod m [a, i, v]) None
      = results 1 (modified E info (NT TC_prod m [a, i, v]) a i v) None"
    by (simp add: NTCCTprf_modarray_AxVxA_def assure_same_scalar [OF a v] assure_vector [OF i]
        assure_shp_plus_dim [OF i v a l' idx(2)] assure_postfix [OF v a l idx(2)] assure_val_matches_shape [OF i a idx(1)])
  have fold: "prf_co_funtab (te_fops E) (F_struct P_modarray_AxVxA) = CO3 COmodarray_AxVxA" by simp
  note d = inhab_ok [OF v]
  show ?thesis unfolding ev
    by (rule returns_modified [OF info fold a i v COmodarray_AxVxA_con [OF inhab_ok [OF a] idx(1) d]
          put_elems_ok [OF inhab_ok [OF a] idx(1) d]])
qed

subsection \<open>Queries and offsets\<close>

lemma int_elem_type: "\<exists>b. TYmakeSimpleType T_int = Inr b \<and> elem_type b T_int"
  by (rule make_elem) simp

lemma returns_value:
  assumes "elem_type b s" and "con_ok s xs es"
  shows "returns (results 1 (one_type (TYmakeAKV b (con s xs es))) None) s xs es"
proof -
  obtain r where r: "TYmakeAKV b (con s xs es) = Inr r" "has_value r s xs es" using elem_akv [OF assms(1)] by blast
  with run_one_type [OF has_value_result [OF r(2)]] assms(2) show ?thesis by (auto simp: returns_def inhab_def)
qed

lemma con_ok_iscal: "in_ity IInt k \<Longrightarrow> con_ok T_int [] [CInt IInt k]"
  by (simp add: con_ok_def cells_ok_def cell_type_def)

lemma dim_sound:
  fixes t :: "'f ntype"
  assumes t: "inhab t s xs es" and l: "int (length xs) \<le> int_max"
  shows "returns (NTCCTprf_dim_A E info (NT TC_prod m [t]) None) T_int [] [CInt IInt (int (length xs))]"
proof -
  obtain b :: "'f ntype" where b: "TYmakeSimpleType T_int = Inr b" "elem_type b T_int" using int_elem_type by blast
  have ok: "con_ok T_int [] [CInt IInt (int (length xs)) :: 'f cval]"
    using l by (intro con_ok_iscal) (simp add: in_ity_IInt)
  obtain r where r: "aks_scalar (Inr b) = Inr r" "has_shape r T_int []" using elem_aks_scalar [OF b(2)] by blast
  show ?thesis
    using returns_value [OF b(2) ok] returns_shape [OF r(2) ok] b(1) r(1)
    unfolding NTCCTprf_dim_A_def
    by (cases "dim_known t") (simp_all add: inhab_tests(9) [OF t] inhab_dim [OF t] COmakeConstantFromInt_con)
qed

lemma shape_sound:
  fixes t :: "'f ntype"
  assumes t: "inhab t s xs es" and l: "int (length xs) \<le> int_max"
  shows "returns (NTCCTprf_shape_A E info (NT TC_prod m [t]) None) T_int [int (length xs)] (map (CInt IInt) xs)"
proof -
  obtain b :: "'f ntype" where b: "TYmakeSimpleType T_int = Inr b" "elem_type b T_int" using int_elem_type by blast
  have ok: "con_ok T_int [int (length xs)] (map (CInt IInt) xs :: 'f cval list)"
    by (rule shape_const_ok [OF con_okD(1) [OF inhab_ok [OF t]] l])
  have aks: "\<exists>r. bindR (SHcreateShape 1 [int (length xs)]) (TYmakeAKS b) = Inr r \<and> has_shape r T_int [int (length xs)]"
    using b(2) SHcreateShape_sh [of "[int (length xs)]"] by (auto simp: TYmakeAKS_def make_array_eq has_shape_def)
  have akd: "\<exists>r. akd_of (Inr b) 1 = Inr r \<and> has_shape r T_int [int (length xs)]" by (rule akd_type [OF b(2)]) simp_all
  have "shape_type t = TYmakeAKV b (con T_int [int (length xs)] (map (CInt IInt) xs) :: 'f const)
      \<or> (\<exists>r. shape_type t = Inr r \<and> has_shape r T_int [int (length xs)])"
    by (cases rule: inhab_form [OF t])
      (use b l aks akd in \<open>simp_all add: shape_type_def TYgetShape_def COgetShape_def COmakeConstantFromShape_con dim_defs\<close>)
  with returns_value [OF b(2) ok] returns_shape [OF _ ok] show ?thesis by (auto simp: NTCCTprf_shape_A_def)
qed

lemma vect2offset_sound:
  fixes t :: "'f ntype"
  assumes info: "TEgetPrf info = Inr (F_index P_vect2offset)"
    and t: "is_ivec t xs" and u: "is_ivec u iv" and f: "shape_fits xs" and i: "valid_idx xs iv"
  shows "returns (NTCCTprf_vect2offset E info (NT TC_prod m [t, u]) None) T_int [] [CInt IInt (offs xs iv)]"
proof -
  have ev: "NTCCTprf_vect2offset E info (NT TC_prod m [t, u]) None
      = results 1 (ifT (both_akv t u) (folded E info (NT TC_prod m [t, u]) (TYmakeSimpleType T_int))
          (one_type (aks_scalar (TYmakeSimpleType T_int)))) None"
    by (simp add: NTCCTprf_vect2offset_def assure_simple [OF t] assure_vector [OF t] assure_vector [OF u])
  have fold: "prf_co_funtab (te_fops E) (F_index P_vect2offset) = CO2 COvect2offset" by simp
  have "0 \<le> offs xs iv" "offs xs iv \<le> int_max"
    using offs_take_bounds [OF f i, of "length xs"] shape_fits_prod [OF f] valid_idx_length [OF i] by auto
  then have ok: "con_ok T_int [] [CInt IInt (offs xs iv) :: 'f cval]"
    by (intro con_ok_iscal) (simp add: in_ity_IInt)
  show ?thesis unfolding ev
    by (rule returns_fold2 [OF info fold t u COvect2offset_con [OF f i] ok int_elem_type scalar_shape_ex [OF int_elem_type]])
qed

subsection \<open>Taking and dropping along a vector\<close>

lemma vec_scalar: "in_ity IInt k \<Longrightarrow> scalar_to_vector (iscal k :: 'f const) = scalar_to_vector (ivec [k])"
  using COcopyScalar2OneElementVector_con [OF con_ok_iscal, of k]
  by (simp add: scalar_to_vector_ivec) (simp add: scalar_to_vector_def)

lemma take_scalar: "in_ity IInt k \<Longrightarrow> COtake (iscal k) a = COtake (ivec [k]) a"
  and drop_scalar: "in_ity IInt k \<Longrightarrow> COdrop (iscal k) a = COdrop (ivec [k]) a"
  by (simp_all only: COtake_def COdrop_def vec_scalar)

lemma int_scalar_fits: "is_iscal t k \<Longrightarrow> in_ity IInt k"
  by (drule inhab_ok) (simp add: con_ok_def cells_ok_def cell_type_def)

text \<open>A count of elements that the vector has, from the front or from the back.\<close>

definition count_ok :: "'f ntype \<Rightarrow> int \<Rightarrow> 'f ntype \<Rightarrow> simpletype \<Rightarrow> int \<Rightarrow> 'f cval list \<Rightarrow> bool" where
  "count_ok t k u s x es \<longleftrightarrow> is_iscal t k \<and> inhab u s [x] es \<and> \<bar>k\<bar> \<le> x"

lemma count_okD:
  assumes "count_ok t k u s x es"
  shows "is_iscal t k" and "inhab u s [x] es" and "\<bar>k\<bar> \<le> x" and "x \<le> int_max" and "ck_int \<bar>k\<bar> = Inr \<bar>k\<bar>"
proof -
  show "is_iscal t k" "\<bar>k\<bar> \<le> x" and u: "inhab u s [x] es" using assms by (simp_all add: count_ok_def)
  show "x \<le> int_max" using shape_fits_prod(2) [OF con_okD(1) [OF inhab_ok [OF u]]] by simp
  with \<open>\<bar>k\<bar> \<le> x\<close> show "ck_int \<bar>k\<bar> = Inr \<bar>k\<bar>" by (intro ck_int_ok) simp_all
qed

lemma abs_elem_iscal:
  assumes "count_ok t k u s x es" and "akv t"
  shows "abs_elem t = Inr \<bar>k\<bar>"
  using int_elem_iscal [OF value_if_akv [OF count_okD(1) [OF assms(1)] assms(2)]] count_okD(5) [OF assms(1)]
  by (simp add: abs_elem_def)

lemma assure_abs_val_fits:
  assumes c: "count_ok t k u s x es"
  shows "TEassureAbsValFitsShape t u = retT ()"
proof (cases "akv t \<and> shp_known u")
  case True
  note d = count_okD [OF c]
  have v: "int_elem t 0 = Inr k" using True by (intro int_elem_iscal value_if_akv [OF d(1)]) simp
  have "error_each (TYgetDim u)
     (\<lambda>i. bindR (int_elem t i) (\<lambda>v. bindR (ck_int \<bar>v\<bar>) (\<lambda>m. bindR (extent u i) (\<lambda>e. Inr (e < m))))) msg = retT ()" for msg
  proof (rule error_each_none)
    show "TYgetDim u = Inr 1" using inhab_dim [OF d(2) shp_known_dim] True by simp
    fix i :: int
    assume "0 \<le> i" "i < 1"
    then have "i = 0" by simp
    then show "bindR (int_elem t i) (\<lambda>v. bindR (ck_int \<bar>v\<bar>) (\<lambda>m. bindR (extent u i) (\<lambda>e. Inr (e < m)))) = Inr False"
      using inhab_extent [OF d(2), of 0] True d(3) by (simp add: v d(5))
  qed
  with True show ?thesis
    by (simp add: TEassureAbsValFitsShape_def inhab_tests [OF d(1)] inhab_tests [OF d(2)] andR_def)
next
  case False
  then show ?thesis
    by (auto simp: TEassureAbsValFitsShape_def inhab_tests [OF count_okD(1) [OF c]] inhab_tests [OF count_okD(2) [OF c]] andR_def)
qed

lemma count_assures:
  assumes "count_ok t k u s x es"
  shows "TEassureIntS t = retT ()" and "TEassureSimpleType u = retT ()" and "TEassureVect u = retT ()"
  using assure_scalar(3) [OF count_okD(1) [OF assms]] assure_simple [OF count_okD(2) [OF assms]]
    assure_vector(1) [OF count_okD(2) [OF assms]] by simp_all

text \<open>A tile of a vector is a sublist.\<close>

lemma tile_vector:
  assumes "con_ok s [x] es" and "0 \<le> off" and "0 \<le> n" and "off + n \<le> x"
  shows "tile_elems [x] [off] [n] es = take (nat n) (drop (nat off) es)"
    and "con_ok s [n] (take (nat n) (drop (nat off) es))"
proof -
  have "int (length es) = x" using con_okD(2) [OF assms(1)] by simp
  then show e: "tile_elems [x] [off] [n] es = take (nat n) (drop (nat off) es)"
    using take_drop_upto [of off n es] assms by (simp add: tile_elems_def idx_space_def comp_def)
  have "tile_at [x] [off] [n]" using assms by simp
  from tile_sel(1) [OF assms(1) this] e show "con_ok s [n] (take (nat n) (drop (nat off) es))" by simp
qed

lemma count_take:
  assumes c: "count_ok t k u s x es"
  defines "vs \<equiv> take (nat \<bar>k\<bar>) (drop (nat (take_off x k)) es)"
  shows "COtake (iscal k) (con s [x] es) = Some (Inr (con s [\<bar>k\<bar>] vs))" and "con_ok s [\<bar>k\<bar>] vs"
proof -
  note d = count_okD [OF c]
  have b: "0 \<le> take_off x k" "take_off x k + \<bar>k\<bar> \<le> x" using d(3) by (auto simp: take_off_def)
  note tv = tile_vector [OF inhab_ok [OF d(2)] b(1) abs_ge_zero b(2)]
  show "con_ok s [\<bar>k\<bar>] vs" using tv(2) by (simp add: vs_def)
  show "COtake (iscal k) (con s [x] es) = Some (Inr (con s [\<bar>k\<bar>] vs))"
    using COtake_con [OF inhab_ok [OF d(2)], of "[k]"] d(3) tv(1)
    by (simp add: take_scalar [OF int_scalar_fits [OF d(1)]] vs_def)
qed

lemma count_drop:
  assumes c: "count_ok t k u s x es"
  defines "vs \<equiv> take (nat (x - \<bar>k\<bar>)) (drop (nat (max 0 k)) es)"
  shows "COdrop (iscal k) (con s [x] es) = Some (Inr (con s [x - \<bar>k\<bar>] vs))" and "con_ok s [x - \<bar>k\<bar>] vs"
proof -
  note d = count_okD [OF c]
  have b: "0 \<le> max 0 k" "0 \<le> x - \<bar>k\<bar>" "max 0 k + (x - \<bar>k\<bar>) \<le> x" using d(3) by auto
  note tv = tile_vector [OF inhab_ok [OF d(2)] b]
  show "con_ok s [x - \<bar>k\<bar>] vs" using tv(2) by (simp add: vs_def)
  show "COdrop (iscal k) (con s [x] es) = Some (Inr (con s [x - \<bar>k\<bar>] vs))"
    using COdrop_con [OF inhab_ok [OF d(2)], of "[k]"] d(3) tv(1)
    by (simp add: drop_scalar [OF int_scalar_fits [OF d(1)]] vs_def)
qed

lemma vector_aks:
  assumes "elem_type b s"
  shows "\<exists>r. bindR (SHcreateShape 1 [n]) (TYmakeAKS b) = Inr r \<and> has_shape r s [n]"
  using assms SHcreateShape_sh [of "[n]"] by (auto simp: TYmakeAKS_def make_array_eq has_shape_def)

lemma take_sound:
  assumes info: "TEgetPrf info = Inr (F_struct P_take_SxV)" and c: "count_ok t k u s x es"
  shows "returns (NTCCTprf_take_SxV E info (NT TC_prod m [t, u]) None) s [\<bar>k\<bar>]
      (take (nat \<bar>k\<bar>) (drop (nat (take_off x k)) es))"
proof -
  note d = count_okD [OF c]
  let ?aks = "bindR (bindR (abs_elem t) (\<lambda>m. SHcreateShape 1 [m])) (\<lambda>shp. bindR (scalar_of u) (\<lambda>b. TYmakeAKS b shp))"
  let ?rest = "if akv t then ?aks else akd_of (scalar_of u) 1"
  have ev: "NTCCTprf_take_SxV E info (NT TC_prod m [t, u]) None
      = results 1 (ifT (both_akv t u) (folded E info (NT TC_prod m [t, u]) (scalar_of u)) (one_type ?rest)) None"
    by (cases "akv t"; cases "akv u"; simp add: NTCCTprf_take_SxV_def count_assures [OF c] assure_abs_val_fits [OF c]
        inhab_tests(1) [OF d(1)] inhab_tests(1) [OF d(2)] both_akv_inhab [OF d(1,2)])
  have fold: "ApplyCF E info (NT TC_prod m [t, u]) = retT (con s [\<bar>k\<bar>] (take (nat \<bar>k\<bar>) (drop (nat (take_off x k)) es)))"
    if "akv t" "akv u"
    using value_if_akv [OF d(1) that(1)] value_if_akv [OF d(2) that(2)] count_take(1) [OF c]
    by (intro ApplyCF_2 [OF info, of E "\<lambda>a b. Inr (con s [\<bar>k\<bar>] (take (nat \<bar>k\<bar>) (drop (nat (take_off x k)) es)))" COtake]) simp_all
  obtain b where b: "scalar_of u = Inr b" "elem_type b s" using inhab_scalar_of [OF d(2)] .
  have "\<exists>w. ?rest = Inr w \<and> has_shape w s [\<bar>k\<bar>]"
    using vector_aks [OF b(2), of "\<bar>k\<bar>"] akd_type [OF b(2), of 1 "[\<bar>k\<bar>]"] b(1)
    by (auto simp: abs_elem_iscal [OF c] bindR_assoc)
  from returns_fold [OF fold d(1,2) count_take(2) [OF c] scalar_of_ex [OF d(2)] this] show ?thesis unfolding ev by blast
qed

lemma drop_sound:
  assumes info: "TEgetPrf info = Inr (F_struct P_drop_SxV)" and c: "count_ok t k u s x es"
  shows "returns (NTCCTprf_drop_SxV E info (NT TC_prod m [t, u]) None) s [x - \<bar>k\<bar>]
      (take (nat (x - \<bar>k\<bar>)) (drop (nat (max 0 k)) es))"
proof -
  note d = count_okD [OF c]
  let ?r = "con s [x - \<bar>k\<bar>] (take (nat (x - \<bar>k\<bar>)) (drop (nat (max 0 k)) es))"
  let ?aks = "bindR (bindR (TYgetShape u) SHcopyShape) (\<lambda>shp.
              bindR (SHgetExtent shp 0) (\<lambda>e. bindR (abs_elem t) (\<lambda>m.
              bindR (ck_int (e - m)) (\<lambda>d. bindR (SHsetExtent shp 0 d) (\<lambda>shp.
              bindR (scalar_of u) (\<lambda>b. TYmakeAKS b shp))))))"
  let ?rest = "if akv t \<and> shp_known u then ?aks else akd_of (scalar_of u) 1"
  have k: "TYisAKS u = Inr (shp_known u \<and> \<not> akv u)"
    by (rule inhab_form [OF d(2)]; simp add: TYisAKS_def is_con_def)
  have ev: "NTCCTprf_drop_SxV E info (NT TC_prod m [t, u]) None
      = results 1 (ifT (both_akv t u) (folded E info (NT TC_prod m [t, u]) (scalar_of u)) (one_type ?rest)) None"
    using akv_known [of u]
    by (cases "akv t"; cases "akv u"; cases "shp_known u"; simp add: NTCCTprf_drop_SxV_def count_assures [OF c]
        assure_abs_val_fits [OF c] k andR_def orR_def inhab_tests(1) [OF d(1)] inhab_tests(1) [OF d(2)]
        both_akv_inhab [OF d(1,2)])
  have fold: "ApplyCF E info (NT TC_prod m [t, u]) = retT ?r" if "akv t" "akv u"
    using value_if_akv [OF d(1) that(1)] value_if_akv [OF d(2) that(2)] count_drop(1) [OF c]
    by (intro ApplyCF_2 [OF info, of E "\<lambda>a b. Inr ?r" COdrop]) simp_all
  obtain b where b: "scalar_of u = Inr b" "elem_type b s" using inhab_scalar_of [OF d(2)] .
  have l: "ck_int (x - \<bar>k\<bar>) = Inr (x - \<bar>k\<bar>)" using d(3,4) by (intro ck_int_ok) simp_all
  have "\<exists>w. ?aks = Inr w \<and> has_shape w s [x - \<bar>k\<bar>]" if "akv t" "shp_known u"
    using b by (auto simp: inhab_shape [OF d(2) that(2)] SHcopyShape_sh SHgetExtent_sh abs_elem_iscal [OF c that(1)] l
        SHsetExtent_sh TYmakeAKS_def make_array_eq has_shape_def)
  then have "\<exists>w. ?rest = Inr w \<and> has_shape w s [x - \<bar>k\<bar>]"
    using akd_type [OF b(2), of 1 "[x - \<bar>k\<bar>]"] b(1) by simp
  from returns_fold [OF fold d(1,2) count_drop(2) [OF c] scalar_of_ex [OF d(2)] this] show ?thesis unfolding ev by blast
qed

end
