(* ===== verification/CT_Buffer.thy ===== *)
theory CT_Buffer
  imports CT_Sound_Struc
begin

text \<open>
  No type function leaves a message behind: the messages of one application cannot be reported for
  another.  A computation \<open>keeps\<close> the buffer empty when it leaves it empty provided that it found
  it so, and \<open>flushes\<close> it when it does whatever it found.
\<close>

named_theorems buffer

definition keeps :: "'a tem \<Rightarrow> bool" where
  "keeps m \<longleftrightarrow> (\<forall>r e. m None = Some (Inr (r, e)) \<longrightarrow> e = None)"

definition flushes :: "'a tem \<Rightarrow> bool" where
  "flushes m \<longleftrightarrow> (\<forall>s r e. m s = Some (Inr (r, e)) \<longrightarrow> e = None)"

lemma bindT_Some:
  assumes "bindT m f s = Some (Inr (r, e))"
  obtains x s' where "m s = Some (Inr (x, s'))" and "f x s' = Some (Inr (r, e))"
  using assms by (cases "m s") (auto simp: bindT_def bindOO_def bindRO_def split: sum.splits)

lemma keeps_flush: "flushes m \<Longrightarrow> keeps m"
  by (simp add: flushes_def keeps_def)

lemma keeps_pure [buffer]: "keeps (retT x)" "keeps (liftT r)" "keeps (liftOT q)"
  by (auto simp: keeps_def retT_def liftT_def liftOT_def bindO_def bindR_Inr_iff)

lemma keeps_bind [buffer]: "keeps m \<Longrightarrow> (\<And>x. keeps (f x)) \<Longrightarrow> keeps (bindT m f)"
  unfolding keeps_def by (auto elim!: bindT_Some)

lemma flushes_bind: "(\<And>x. flushes (f x)) \<Longrightarrow> flushes (bindT m f)"
  unfolding flushes_def by (auto elim!: bindT_Some)

lemma flushes_fetch [buffer]: "(\<And>x. keeps (f x)) \<Longrightarrow> flushes (bindT TEfetchErrors f)"
  unfolding flushes_def keeps_def by (auto simp: TEfetchErrors_def elim!: bindT_Some)

lemma flushes_stage [buffer]: "keeps k \<Longrightarrow> flushes (stage n a k)"
  unfolding stage_def by (intro flushes_bind flushes_fetch) (auto split: option.split intro: buffer)

lemma keeps_if [buffer]: "keeps x \<Longrightarrow> keeps y \<Longrightarrow> keeps (ifT b x y)"
  unfolding ifT_def by (intro buffer) auto


lemma keeps_stage [buffer]: "keeps k \<Longrightarrow> keeps (stage n a k)"
  by (rule keeps_flush) (rule flushes_stage)

lemma keeps_plain_if [buffer]: "keeps x \<Longrightarrow> keeps y \<Longrightarrow> keeps (if b then x else y)"
  by simp

lemma keeps_schemes [buffer]:
  "keeps k \<Longrightarrow> keeps (nargs n args k)"
  "(\<And>t. keeps (h t)) \<Longrightarrow> keeps (member args i h)"
  "keeps r \<Longrightarrow> keeps (results n r)"
  "keeps (one_type t)" "keeps (two_types t u)"
  unfolding nargs_def member_def results_def one_type_def two_types_def by (intro buffer; assumption)+

lemma keeps_folding [buffer]: "keeps (ApplyCF E info args)" "keeps (folded E info args b)"
proof -
  show "keeps (ApplyCF E info args)"
    unfolding ApplyCF_def by (intro buffer) (auto split: option.split intro: buffer)
  then show "keeps (folded E info args b)" unfolding folded_def by (intro buffer)
qed

lemma keeps_results [buffer]: "keeps (checked E b t)" "keeps (modified E info args a i v)"
  unfolding checked_def modified_def by (intro buffer)+

text \<open>
  Where an assurance stands outside of the stages, the stages after it flush what it leaves.
\<close>

lemma flushes_error [buffer]: "flushes (liftT (Inl e))"
  by (simp add: flushes_def liftT_def)

lemma flushes_if [buffer]:
  "flushes x \<Longrightarrow> flushes y \<Longrightarrow> flushes (if b then x else y)"
  "flushes x \<Longrightarrow> flushes y \<Longrightarrow> flushes (ifT c x y)"
  unfolding ifT_def by (auto intro: flushes_bind)

lemma flushes_results [buffer]:
  assumes "flushes r"
  shows "flushes (results n r)"
  using assms unfolding results_def flushes_def by (auto simp: liftT_def bindR_Inr_iff elim!: bindT_Some)

lemma flushes_schemes [buffer]:
  "flushes k \<Longrightarrow> flushes (nargs n args k)"
  "(\<And>t. flushes (h t)) \<Longrightarrow> flushes (member args i h)"
  unfolding nargs_def member_def by (intro flushes_bind flushes_if flushes_error; assumption)+

lemmas flushing = flushes_results flushes_schemes flushes_stage flushes_fetch flushes_bind flushes_if
  flushes_error

subsection \<open>The type functions\<close>

lemmas plain_ntc_defs = NTCCTprf_dummy_def NTCCTprf_id_def NTCCTprf_enclose_def NTCCTprf_disclose_def
  NTCCTprf_dispatch_error_def NTCCTprf_conditional_error_def NTCCTprf_noteminval_def NTCCTprf_notemaxval_def
  NTCCTprf_noteintersect_def NTCCTprf_shape_matches_dim_VxA_def NTCCTprf_non_neg_S_def NTCCTprf_non_neg_V_def
  NTCCTprf_val_shape_S_def NTCCTprf_val_shape_V_def NTCCTprf_val_lt_val_SxS_def NTCCTprf_val_le_val_SxS_def
  NTCCTprf_prod_shape_def NTCCTprf_saabind_def NTCCTprf_dim_A_def NTCCTprf_isDist_A_def NTCCTprf_firstElems_A_def
  NTCCTprf_localFrom_A_def NTCCTprf_localCount_A_def NTCCTprf_offs_A_def NTCCTprf_shape_A_def
  NTCCTprf_reshape_VxA_def NTCCTprf_sel_VxA_def NTCCTprf_zero_A_def NTCCTprf_sel_VxIA_def NTCCTprf_idx_selS_def
  NTCCTprf_shape_sel_def NTCCTprf_idx_shape_sel_def NTCCTprf_modarray_AxSxS_def NTCCTprf_modarray_AxVxS_def
  NTCCTprf_modarray_AxVxA_def NTCCTprf_modarray_AxSxA_def NTCCTprf_take_SxV_def NTCCTprf_drop_SxV_def
  NTCCTprf_cat_VxV_def NTCCTprf_vect2offset_def NTCCTprf_hideValue_SxA_def NTCCTprf_hideShape_SxA_def
  NTCCTprf_hideDim_SxA_def NTCCTprf_ari_op_SxS_def NTCCTprf_ari_op_SxV_def NTCCTprf_ari_op_VxS_def
  NTCCTprf_ari_op_S_def NTCCTprf_ari_op_V_def NTCCTprf_ari_op_A_def NTCCTprf_rel_op_SxS_def NTCCTprf_rel_op_SxV_def
  NTCCTprf_rel_op_VxS_def NTCCTprf_log_op_SxS_def NTCCTprf_log_op_SxV_def NTCCTprf_log_op_VxS_def
  NTCCTprf_log_op_V_def NTCCTprf_log_op_S_def NTCCTprf_int_op_SxS_def NTCCTprf_int_op_SxV_def
  NTCCTprf_int_op_VxS_def

lemma keeps_plain [buffer]:
  "keeps (NTCCTprf_dummy E info args)" "keeps (NTCCTprf_id E info args)" "keeps (NTCCTprf_enclose E info args)"
  "keeps (NTCCTprf_disclose E info args)" "keeps (NTCCTprf_dispatch_error E info args)" "keeps (NTCCTprf_conditional_error E info args)"
  "keeps (NTCCTprf_noteminval E info args)" "keeps (NTCCTprf_notemaxval E info args)" "keeps (NTCCTprf_noteintersect E info args)"
  "keeps (NTCCTprf_shape_matches_dim_VxA E info args)" "keeps (NTCCTprf_non_neg_S E info args)" "keeps (NTCCTprf_non_neg_V E info args)"
  "keeps (NTCCTprf_val_shape_S E info args)" "keeps (NTCCTprf_val_shape_V E info args)" "keeps (NTCCTprf_val_lt_val_SxS E info args)"
  "keeps (NTCCTprf_val_le_val_SxS E info args)" "keeps (NTCCTprf_prod_shape E info args)" "keeps (NTCCTprf_saabind E info args)"
  "keeps (NTCCTprf_dim_A E info args)" "keeps (NTCCTprf_isDist_A E info args)" "keeps (NTCCTprf_firstElems_A E info args)"
  "keeps (NTCCTprf_localFrom_A E info args)" "keeps (NTCCTprf_localCount_A E info args)" "keeps (NTCCTprf_offs_A E info args)"
  "keeps (NTCCTprf_shape_A E info args)" "keeps (NTCCTprf_reshape_VxA E info args)" "keeps (NTCCTprf_sel_VxA E info args)"
  "keeps (NTCCTprf_zero_A E info args)" "keeps (NTCCTprf_sel_VxIA E info args)" "keeps (NTCCTprf_idx_selS E info args)"
  "keeps (NTCCTprf_shape_sel E info args)" "keeps (NTCCTprf_idx_shape_sel E info args)" "keeps (NTCCTprf_modarray_AxSxS E info args)"
  "keeps (NTCCTprf_modarray_AxVxS E info args)" "keeps (NTCCTprf_modarray_AxVxA E info args)" "keeps (NTCCTprf_modarray_AxSxA E info args)"
  "keeps (NTCCTprf_take_SxV E info args)" "keeps (NTCCTprf_drop_SxV E info args)" "keeps (NTCCTprf_cat_VxV E info args)"
  "keeps (NTCCTprf_vect2offset E info args)" "keeps (NTCCTprf_hideValue_SxA E info args)" "keeps (NTCCTprf_hideShape_SxA E info args)"
  "keeps (NTCCTprf_hideDim_SxA E info args)" "keeps (NTCCTprf_ari_op_SxS E info args)" "keeps (NTCCTprf_ari_op_SxV E info args)"
  "keeps (NTCCTprf_ari_op_VxS E info args)" "keeps (NTCCTprf_ari_op_S E info args)" "keeps (NTCCTprf_ari_op_V E info args)"
  "keeps (NTCCTprf_ari_op_A E info args)" "keeps (NTCCTprf_rel_op_SxS E info args)" "keeps (NTCCTprf_rel_op_SxV E info args)"
  "keeps (NTCCTprf_rel_op_VxS E info args)" "keeps (NTCCTprf_log_op_SxS E info args)" "keeps (NTCCTprf_log_op_SxV E info args)"
  "keeps (NTCCTprf_log_op_VxS E info args)" "keeps (NTCCTprf_log_op_V E info args)" "keeps (NTCCTprf_log_op_S E info args)"
  "keeps (NTCCTprf_int_op_SxS E info args)" "keeps (NTCCTprf_int_op_SxV E info args)" "keeps (NTCCTprf_int_op_VxS E info args)"
  unfolding plain_ntc_defs by (intro buffer)+

lemma keeps_ConvS [buffer]: "keeps (ConvS E info args st)"
  unfolding ConvS_def by (intro buffer)

lemma keeps_conv: "keeps (conv_ntc op E info args)"
  by (cases op; simp add: NTCCTprf_tob_S_def NTCCTprf_tos_S_def NTCCTprf_toi_S_def NTCCTprf_tol_S_def NTCCTprf_toll_S_def NTCCTprf_toub_S_def NTCCTprf_tous_S_def NTCCTprf_toui_S_def NTCCTprf_toul_S_def NTCCTprf_toull_S_def NTCCTprf_tof_S_def NTCCTprf_tod_S_def NTCCTprf_tobool_S_def NTCCTprf_toc_S_def buffer)

lemmas VxV_ntc_defs = NTCCTprf_ari_op_VxV_def NTCCTprf_rel_op_VxV_def NTCCTprf_log_op_VxV_def
  NTCCTprf_int_op_VxV_def NTCCTprf_ari_op_SMxSM_def

lemma keeps_VxV [buffer]:
  "keeps (NTCCTprf_ari_op_VxV E info args)" "keeps (NTCCTprf_rel_op_VxV E info args)" "keeps (NTCCTprf_log_op_VxV E info args)"
  "keeps (NTCCTprf_int_op_VxV E info args)" "keeps (NTCCTprf_ari_op_SMxSM E info args)"
  unfolding VxV_ntc_defs by ((rule keeps_flush, intro flushing buffer))+

lemma keeps_match_errors [buffer]: "keeps x \<Longrightarrow> (\<And>m. keeps (f m)) \<Longrightarrow> keeps (case e of None \<Rightarrow> x | Some m \<Rightarrow> f m)"
  by (cases e) simp_all

lemma keeps_stages [buffer]:
  "keeps (NTCCTprf_type_conv E info args)" "keeps (NTCCTprf_type_constraint E info args)"
  unfolding NTCCTprf_type_conv_def NTCCTprf_type_constraint_def by (intro buffer)+

text \<open>Here messages are written outside of the stages.\<close>

lemma keeps_array [buffer]:
  "keeps (NTCCTprf_array E info args)" "keeps (NTCCTprf_all_V E info args)" "keeps (NTCCTprf_guard E info args)"
  "keeps (NTCCTprf_same_shape E info args)"
  unfolding NTCCTprf_array_def NTCCTprf_all_V_def NTCCTprf_guard_def NTCCTprf_same_shape_def
  by ((rule keeps_flush, intro flushing buffer))+

lemma keeps_val_le_val [buffer]: "keeps (NTCCTprf_val_le_val_VxV E info args)"
  unfolding NTCCTprf_val_le_val_VxV_def
  by (intro keeps_schemes keeps_stage, rule keeps_flush) (intro flushing buffer)

lemma keeps_simd [buffer]:
  "keeps (NTCCTprf_simd_sel_VxA E info args)" "keeps (NTCCTprf_simd_sel_SxS E info args)"
  "keeps (NTCCTprf_simd_modarray E info args)"
  unfolding NTCCTprf_simd_sel_VxA_def NTCCTprf_simd_sel_SxS_def NTCCTprf_simd_modarray_def
  by ((rule keeps_flush, intro flushing buffer))+

lemma keeps_mask_plain [buffer]:
  "keeps (NTCCTprf_mask_SxSxS E info args)" "keeps (NTCCTprf_mask_SxSxV E info args)"
  "keeps (NTCCTprf_mask_SxVxS E info args)" "keeps (NTCCTprf_mask_VxSxS E info args)"
  unfolding NTCCTprf_mask_SxSxS_def NTCCTprf_mask_SxSxV_def NTCCTprf_mask_SxVxS_def NTCCTprf_mask_VxSxS_def
  by (intro buffer)+

lemma keeps_mask_shape [buffer]:
  "keeps (NTCCTprf_mask_VxSxV E info args)" "keeps (NTCCTprf_mask_VxVxS E info args)"
  "keeps (NTCCTprf_mask_SxVxV E info args)"
  unfolding NTCCTprf_mask_VxSxV_def NTCCTprf_mask_VxVxS_def NTCCTprf_mask_SxVxV_def
  by ((rule keeps_flush, intro flushing buffer))+

lemma keeps_mask_VxVxV [buffer]: "keeps (NTCCTprf_mask_VxVxV E info args)"
proof -
  have "keeps (bindT (TEassureSameShape t u) (\<lambda>res. bindT TEfetchErrors (\<lambda>err_msg. retT (bottom_if err_msg res))))" for t u
    by (rule keeps_flush) (intro flushing buffer)
  then show ?thesis unfolding NTCCTprf_mask_VxVxV_def by (intro keeps_flush flushing buffer)
qed

lemma keeps_mask: "keeps (mask_ntc a b c E info args)"
  by (cases a; cases b; cases c) (simp_all add: buffer)

lemma keeps_idxs2offset [buffer]: "keeps (NTCCTprf_idxs2offset E info args)"
  unfolding NTCCTprf_idxs2offset_def Let_def by (rule keeps_flush) (intro flushing buffer)

text \<open>The whole table.\<close>

lemma keeps_ntc: "keeps (prf_ntc_funtab p E info args)"
proof (cases p)
  case (F_bin op v)
  then show ?thesis by (cases v) (simp_all add: keeps_plain keeps_VxV)
next
  case (F_un op v)
  then show ?thesis by (cases op; cases v) (simp_all add: keeps_plain)
next
  case (F_query op)
  then show ?thesis by (cases op) (simp_all add: keeps_plain)
next
  case (F_struct op)
  then show ?thesis by (cases op) (simp_all add: keeps_plain keeps_array)
next
  case (F_index op)
  then show ?thesis by (cases op) (simp_all add: keeps_plain keeps_simd keeps_idxs2offset)
next
  case (F_check op)
  then show ?thesis by (cases op) (simp_all add: keeps_plain keeps_array keeps_val_le_val keeps_stages)
next
  case (F_meta op)
  then show ?thesis by (cases op) (simp_all add: keeps_plain keeps_stages)
qed (simp_all add: keeps_conv keeps_VxV keeps_mask keeps_plain)

end
