(* ===== verification/CT_Checks.thy ===== *)
theory CT_Checks
  imports CT_Buffer
begin

text \<open>
  What the assurances decide, and what the type functions do about it: an argument that is
  known to be wrong gives a bottom type with the message, and the checks that the compiler
  inserts answer the constant true only if what they check is known to hold.
\<close>

subsection \<open>Messages\<close>

text \<open>A computation that only adds a message, if the condition \<open>b\<close> holds.\<close>

definition complains :: "unit tem \<Rightarrow> bool \<Rightarrow> bool" where
  "complains m b \<longleftrightarrow> (\<forall>s. \<exists>s'. m s = Some (Inr ((), s')) \<and> (s' = s \<or> b \<and> s' \<noteq> None) \<and> (b \<longrightarrow> s' \<noteq> None))"

lemma complains_ret: "complains (retT ()) False"
  by (simp add: complains_def retT_def)

lemma complains_if: "r = Inr b \<Longrightarrow> complains (error_if r msg) b"
  by (cases b) (simp_all add: complains_def TEhandleError_def retT_def)

lemma complains_bind:
  assumes "complains m b" and "complains n c"
  shows "complains (bindT m (\<lambda>u. n)) (b \<or> c)"
  unfolding complains_def
proof
  fix s
  obtain s1 where 1: "m s = Some (Inr ((), s1))" "s1 = s \<or> b \<and> s1 \<noteq> None" "b \<longrightarrow> s1 \<noteq> None"
    using assms(1) unfolding complains_def by blast
  obtain s2 where 2: "n s1 = Some (Inr ((), s2))" "s2 = s1 \<or> c \<and> s2 \<noteq> None" "c \<longrightarrow> s2 \<noteq> None"
    using assms(2) unfolding complains_def by blast
  have "bindT m (\<lambda>u. n) s = Some (Inr ((), s2))" using 1(1) 2(1) by (simp add: bindT_def)
  with 1(2,3) 2(2,3) show "\<exists>s'. bindT m (\<lambda>u. n) s = Some (Inr ((), s'))
      \<and> (s' = s \<or> (b \<or> c) \<and> s' \<noteq> None) \<and> (b \<or> c \<longrightarrow> s' \<noteq> None)" by blast
qed

lemma complains_seq:
  assumes "\<And>x. x \<in> set xs \<Longrightarrow> complains (f x) (B x)"
  shows "complains (seqT (map f xs)) (\<exists>x\<in>set xs. B x)"
  using assms
proof (induction xs)
  case Nil
  show ?case using complains_ret by simp
next
  case (Cons x xs)
  have "complains (bindT (f x) (\<lambda>u. seqT (map f xs))) (B x \<or> (\<exists>x\<in>set xs. B x))"
    using Cons by (intro complains_bind) simp_all
  then show ?case by simp
qed

lemma complains_each:
  assumes "n = Inr k" and "\<And>i. 0 \<le> i \<Longrightarrow> i < k \<Longrightarrow> bad i = Inr (B i)"
  shows "complains (error_each n bad msg) (\<exists>i. 0 \<le> i \<and> i < k \<and> B i)"
proof -
  have "complains (seqT (map (\<lambda>i. error_if (bad i) msg) [0..k - 1])) (\<exists>i\<in>set [0..k - 1]. B i)"
    using assms(2) by (intro complains_seq complains_if) simp
  also have "(\<exists>i\<in>set [0..k - 1]. B i) \<longleftrightarrow> (\<exists>i. 0 \<le> i \<and> i < k \<and> B i)" by auto
  finally show ?thesis unfolding error_each_def assms(1) by simp
qed

lemma complains_none: "complains m False \<Longrightarrow> m = retT ()"
  by (rule ext) (auto simp: complains_def retT_def)

text \<open>The results when a stage finds a message.\<close>

definition rejected :: "('f ntype \<times> te_errors) cres option \<Rightarrow> nat \<Rightarrow> bool" where
  "rejected out n \<longleftrightarrow>
     (\<exists>msg. out = Some (Inr (NT TC_prod default_meta (replicate n (TYmakeBottomType (Some msg))), None)))"

lemma bottom_result: "result_type (TYmakeBottomType (Some msg))"
  by (simp add: result_type_def product_member_def TYmakeBottomType_def MakeNtype_def TYisArray_def TYisBottom_def is_con_def)

lemma stage_rejects:
  assumes "complains a b" and "b" and "n = 1 \<or> n = 2"
  shows "rejected (results n (stage n a k) None) n"
proof -
  obtain msg where m: "a None = Some (Inr ((), Some msg))" using assms(1,2) unfolding complains_def by blast
  have "stage n a k None = Some (Inr (replicate n (TYmakeBottomType (Some msg)), None))"
    using m by (simp add: stage_def bindT_def TEfetchErrors_def retT_def)
  moreover have "TYmakeProductType n (replicate n (TYmakeBottomType (Some msg) :: 'a ntype))
      = Inr (NT TC_prod default_meta (replicate n (TYmakeBottomType (Some msg))))"
    using assms(3) make_product1 [OF bottom_result, of msg] make_product2 [OF bottom_result bottom_result, of msg msg]
    by (auto simp: numeral_2_eq_2)
  ultimately show ?thesis by (auto simp: rejected_def results_def bindT_def)
qed


subsection \<open>The assurances as decisions\<close>

text \<open>The argument is known to be the integer vector \<open>iv\<close>, or the integer \<open>k\<close>.\<close>

abbreviation known_ivec :: "'f ntype \<Rightarrow> int list \<Rightarrow> bool" where
  "known_ivec t iv \<equiv> is_ivec t iv \<and> akv t"

lemma ex_int_nat: "(\<exists>i::int. 0 \<le> i \<and> i < int n \<and> P (nat i)) \<longleftrightarrow> (\<exists>j<n. P j)"
proof
  assume "\<exists>j<n. P j"
  then obtain j where "j < n" "P j" by blast
  then show "\<exists>i::int. 0 \<le> i \<and> i < int n \<and> P (nat i)" by (intro exI [of _ "int j"]) simp
next
  assume "\<exists>i::int. 0 \<le> i \<and> i < int n \<and> P (nat i)"
  then obtain i :: int where "0 \<le> i" "i < int n" "P (nat i)" by blast
  then show "\<exists>j<n. P j" by (intro exI [of _ "nat i"]) simp
qed

lemma valid_idx_all:
  assumes "length iv = length xs"
  shows "valid_idx xs iv \<longleftrightarrow> (\<forall>i<length iv. 0 \<le> iv ! i \<and> iv ! i < xs ! i)"
  using assms
proof (induction iv xs rule: list_induct2)
  case (Cons i iv x xs)
  then show ?case by (simp add: All_less_Suc2 conj_assoc)
qed simp

lemma andR_True: "a = Inr True \<Longrightarrow> andR a b = b"
  by (simp add: andR_def)

lemma val_matches_shape_decides:
  assumes "known_ivec t iv" and u: "inhab u s xs es" "shp_known u" and l: "length iv = length xs"
  shows "complains (TEassureValMatchesShape t u) (\<not> valid_idx xs iv)"
proof -
  have t: "is_ivec t iv" and a: "akv t" using assms(1) by auto
  note v = value_if_akv [OF t a]
  have c: "con_akv t = Inr True" "con_shape u = Inr True" using a u(2) inhab_tests [OF t] inhab_tests [OF u(1)] by simp_all
  have "complains (error_each (bindR (TYgetValue t) (\<lambda>k. SHgetExtent (COgetShape k) 0))
      (\<lambda>i. bindR (int_elem t i) (\<lambda>v. if v < 0 then Inr True else bindR (extent u i) (\<lambda>e. Inr (e \<le> v)))) msg)
      (\<exists>i. 0 \<le> i \<and> i < int (length iv) \<and> (iv ! nat i < 0 \<or> xs ! nat i \<le> iv ! nat i))" for msg
  proof (rule complains_each)
    show "bindR (TYgetValue t) (\<lambda>k. SHgetExtent (COgetShape k) 0) = Inr (int (length iv))"
      by (simp add: inhab_value [OF v] COgetShape_def SHgetExtent_sh)
  next
    fix i :: int
    assume "0 \<le> i" "i < int (length iv)"
    then show "bindR (int_elem t i) (\<lambda>v. if v < 0 then Inr True else bindR (extent u i) (\<lambda>e. Inr (e \<le> v)))
        = Inr (iv ! nat i < 0 \<or> xs ! nat i \<le> iv ! nat i)"
      using l by (simp add: int_elem_ivec [OF v] inhab_extent [OF u])
  qed
  moreover have "(\<exists>i. 0 \<le> i \<and> i < int (length iv) \<and> (iv ! nat i < 0 \<or> xs ! nat i \<le> iv ! nat i)) \<longleftrightarrow> \<not> valid_idx xs iv"
    using ex_int_nat [of "length iv" "\<lambda>i. iv ! i < 0 \<or> xs ! i \<le> iv ! i"] by (auto simp: valid_idx_all [OF l] not_le not_less)
  ultimately show ?thesis by (simp add: TEassureValMatchesShape_def andR_True [OF c(1)] c(2))
qed

lemma shp_matches_dim_decides:
  assumes t: "is_ivec t iv" "shp_known t" and u: "inhab u s xs es" "dim_known u"
  shows "complains (TEassureShpMatchesDim t u) (length iv \<noteq> length xs)"
  unfolding TEassureShpMatchesDim_def
  using inhab_tests(3) [OF t(1)] inhab_tests(4) [OF u(1)] t(2) u(2) inhab_extent [OF t, of 0] inhab_dim [OF u]
  by (intro complains_if) (simp add: andR_True)

lemma nonneg_decides:
  assumes "known_ivec t iv"
  shows "complains (TEassureNonNegativeValues_V t) (\<exists>x\<in>set iv. x < 0)"
proof -
  have t: "is_ivec t iv" and a: "akv t" using assms by auto
  note v = value_if_akv [OF t a]
  have "complains (error_each (extent t 0) (\<lambda>i. bindR (int_elem t i) (\<lambda>d. Inr (d < 0))) msg)
      (\<exists>i. 0 \<le> i \<and> i < int (length iv) \<and> iv ! nat i < 0)" for msg
    using inhab_extent [OF t akv_known [OF a], of 0] by (intro complains_each) (simp_all add: int_elem_ivec [OF v])
  moreover have "(\<exists>i. 0 \<le> i \<and> i < int (length iv) \<and> iv ! nat i < 0) \<longleftrightarrow> (\<exists>x\<in>set iv. x < 0)"
    unfolding ex_int_nat [of "length iv" "\<lambda>i. iv ! i < 0"] by (metis in_set_conv_nth)
  ultimately show ?thesis using a by (simp add: TEassureNonNegativeValues_V_def inhab_tests [OF t])
qed

subsection \<open>Checks\<close>

lemma value_copy:
  assumes "has_value t s xs es" and "con_ok s xs es"
  shows "\<exists>r. TYcopyType t = Inr r \<and> has_value r s xs es"
proof -
  obtain m b where t: "t = NT (TC_akv (con s xs es)) m [b]" "elem_type b s" using assms(1) by (rule has_valueE)
  moreover obtain c where "TYcopyType b = Inr c" "elem_type c s" using copy_elem [OF t(2)] .
  ultimately show ?thesis using assms(2) by (auto simp: has_value_def COcopyConstant_con)
qed

lemma true_pred_value: "\<exists>r. true_pred (E :: 'f tenv) = Inr r \<and> has_value r T_bool [] [CBool True]"
proof -
  obtain b :: "'f ntype" where b: "TYmakeSimpleType T_bool = Inr b" "elem_type b T_bool" using bool_elem by blast
  have "COmakeTrue (te_fops E) (sh []) = Inr (Some (con T_bool [] [CBool True]))"
    unfolding COmakeTrue_def by (subst CObaseCv_con) (simp_all add: base_cell_def)
  with b(1) elem_akv [OF b(2), of "[]" "[CBool True]"] SHcreateShape_sh [of "[]"]
  show ?thesis by (auto simp: true_pred_def)
qed

text \<open>The outcome of a check that is known to succeed: the argument, unchanged, and the constant true.\<close>

definition confirmed :: "('f ntype \<times> te_errors) cres option \<Rightarrow> simpletype \<Rightarrow> int list \<Rightarrow> 'f cval list \<Rightarrow> bool" where
  "confirmed out s xs es \<longleftrightarrow>
     (\<exists>r p. out = Some (Inr (NT TC_prod default_meta [r, p], None)) \<and> has_value r s xs es \<and> has_value p T_bool [] [CBool True])"

lemma checked_confirms:
  assumes "k = Inr True" and v: "has_value t s xs es" "con_ok s xs es"
  shows "confirmed (results 2 (checked E k t) None) s xs es"
proof -
  obtain r where r: "TYcopyType t = Inr r" "has_value r s xs es" using value_copy [OF v] by blast
  obtain p :: "'a ntype" where p: "true_pred E = Inr p" "has_value p T_bool [] [CBool True]" using true_pred_value by blast
  have "TYmakeProductType 2 [r, p] = Inr (NT TC_prod default_meta [r, p])"
    by (rule make_product2) (rule has_value_result, rule r p)+
  with r p assms(1) show ?thesis by (auto simp: confirmed_def checked_def two_types_def results_def)
qed

end
