(* ===== verification/Types_Lattice.thy ===== *)
theory Types_Lattice
  imports New_Types
begin

text \<open>
  What the comparison and the least upper bound of types (\<open>TYcmpTypes\<close>, \<open>TYlubOfTypes\<close> in
  \<open>src/libsac2c/typecheck/new_types.c\<close>) mean.  An array type stands for a set of arrays: an
  abstract type \<open>aty\<close> is a base type together with what is known of the array (its value,
  its shape, its number of axes, that it is no scalar, or nothing), or the bottom type;
  \<open>ty_is E t a\<close> says that the tree \<open>t\<close> represents the abstract type \<open>a\<close>, and \<open>vals\<close> is the
  set of arrays of the type.  The code is proved to compute \<open>acmp\<close> on abstract types, and
  \<open>acmp\<close> to reflect inclusion of the sets.  An AKD type stands for all arrays of its number of axes: the extents of
  the last axes that it may know are not looked at by the comparison (\<open>TYcmpTypes_AKD_suffix\<close>).  A type of a known value
  is an abstract type only if the element type is an integer, character or truth value type, on which the equality of the
  code is the equality of values; on floating point numbers it is not (a NaN differs from itself, the zeros are equal).
\<close>

datatype tbase = BSimple simpletype | BSymbol "nat option" string | BUser int

datatype 'f level =
    LVal "int list" "'f cval list" | LShp "int list" | LDim nat | LGz | LAny

datatype 'f aty = ABot | AArr tbase "'f level"

text \<open>
  Two types of the same base are compared by base only, so the hidden user type of a simple type
  is not part of its base.
\<close>

definition base_is :: "'f tenv \<Rightarrow> 'f ntype \<Rightarrow> tbase \<Rightarrow> bool" where
  "base_is E t \<beta> \<longleftrightarrow>
     (case t of NullT \<Rightarrow> False
      | NT a m ss \<Rightarrow> ss = [] \<and>
         (case \<beta> of
            BSimple s \<Rightarrow> (case a of TC_simple s' u \<Rightarrow> s = s' | _ \<Rightarrow> False)
          | BSymbol ns n \<Rightarrow> a = TC_symbol ns n
          | BUser v \<Rightarrow> (case a of TC_user u \<Rightarrow> UTgetUnAliasedType E u = Inr v | _ \<Rightarrow> False)))"

definition val_ok :: "tbase \<Rightarrow> 'f const \<Rightarrow> int list \<Rightarrow> 'f cval list \<Rightarrow> bool" where
  "val_ok b k xs es \<longleftrightarrow>
     (case b of BSimple t \<Rightarrow> k = con t xs es \<and> con_ok t xs es \<and> exact_type t | _ \<Rightarrow> False)"

definition level_is :: "tbase \<Rightarrow> 'f tattr \<Rightarrow> 'f level \<Rightarrow> bool" where
  "level_is \<beta> a l \<longleftrightarrow>
     (case l of
        LVal xs es \<Rightarrow> (case a of TC_akv k \<Rightarrow> val_ok \<beta> k xs es \<and> int (length xs) \<le> int_max | _ \<Rightarrow> False)
      | LShp xs \<Rightarrow> (case a of TC_aks s \<Rightarrow> s = sh xs \<and> int (length xs) \<le> int_max | _ \<Rightarrow> False)
      | LDim n \<Rightarrow> (case a of TC_akd d p \<Rightarrow> (\<exists>xs. p = Some (sh xs) \<and> 0 < d \<and> n = d + length xs) | _ \<Rightarrow> False)
      | LGz \<Rightarrow> a = TC_audgz
      | LAny \<Rightarrow> a = TC_aud)"

definition ty_is :: "'f tenv \<Rightarrow> 'f ntype \<Rightarrow> 'f aty \<Rightarrow> bool" where
  "ty_is E t \<alpha> \<longleftrightarrow>
     (case t of NullT \<Rightarrow> False
      | NT a m ss \<Rightarrow>
         (case \<alpha> of
            ABot \<Rightarrow> ss = [] \<and> (case a of TC_bottom s \<Rightarrow> True | _ \<Rightarrow> False)
          | AArr \<beta> l \<Rightarrow> (case ss of [b] \<Rightarrow> base_is E b \<beta> \<and> level_is \<beta> a l | _ \<Rightarrow> False)))"

lemma ty_is_ABot: "ty_is E t ABot \<longleftrightarrow> (\<exists>s m. t = NT (TC_bottom s) m [])"
  by (auto simp: ty_is_def split: ntype.splits tattr.splits)

lemma ty_is_AArr: "ty_is E t (AArr \<beta> l) \<longleftrightarrow> (\<exists>a m b. t = NT a m [b] \<and> base_is E b \<beta> \<and> level_is \<beta> a l)"
  by (auto simp: ty_is_def split: ntype.splits list.splits)

lemma level_is_simps:
  "level_is \<beta> a (LVal xs es) \<longleftrightarrow> (\<exists>k. a = TC_akv k \<and> val_ok \<beta> k xs es \<and> int (length xs) \<le> int_max)"
  "level_is \<beta> a (LShp xs) \<longleftrightarrow> a = TC_aks (sh xs) \<and> int (length xs) \<le> int_max"
  "level_is \<beta> a (LDim n) \<longleftrightarrow> (\<exists>d xs. a = TC_akd d (Some (sh xs)) \<and> 0 < d \<and> n = d + length xs)"
  "level_is \<beta> a LGz \<longleftrightarrow> a = TC_audgz"
  "level_is \<beta> a LAny \<longleftrightarrow> a = TC_aud"
  by (auto simp: level_is_def split: tattr.splits)

lemma base_is_NT:
  "base_is E b \<beta> \<Longrightarrow> \<exists>a m. b = NT a m [] \<and>
     ((\<exists>s u. a = TC_simple s u \<and> \<beta> = BSimple s) \<or> (\<exists>ns n. a = TC_symbol ns n \<and> \<beta> = BSymbol ns n)
      \<or> (\<exists>u v. a = TC_user u \<and> \<beta> = BUser v \<and> UTgetUnAliasedType E u = Inr v))"
proof (cases b)
  case (NT a m ss)
  then show "base_is E b \<beta> \<Longrightarrow> ?thesis" by (cases a; cases \<beta>) (auto simp: base_is_def)
qed (simp add: base_is_def)

definition acmp_if :: "bool \<Rightarrow> ct_res \<Rightarrow> ct_res" where
  "acmp_if b r = (if b then r else TY_hcs)"

fun lcmp :: "'f level \<Rightarrow> 'f level \<Rightarrow> ct_res" where
  "lcmp (LVal xs es) (LVal ys fs) = acmp_if (xs = ys \<and> es = fs) TY_eq"
| "lcmp (LVal xs es) (LShp ys) = acmp_if (xs = ys) TY_lt"
| "lcmp (LVal xs es) (LDim n) = acmp_if (length xs = n) TY_lt"
| "lcmp (LVal xs es) LGz = acmp_if (xs \<noteq> []) TY_lt"
| "lcmp (LVal xs es) LAny = TY_lt"
| "lcmp (LShp xs) (LVal ys fs) = acmp_if (xs = ys) TY_gt"
| "lcmp (LShp xs) (LShp ys) = acmp_if (xs = ys) TY_eq"
| "lcmp (LShp xs) (LDim n) = acmp_if (length xs = n) TY_lt"
| "lcmp (LShp xs) LGz = acmp_if (xs \<noteq> []) TY_lt"
| "lcmp (LShp xs) LAny = TY_lt"
| "lcmp (LDim m) (LVal ys fs) = acmp_if (m = length ys) TY_gt"
| "lcmp (LDim m) (LShp ys) = acmp_if (m = length ys) TY_gt"
| "lcmp (LDim m) (LDim n) = acmp_if (m = n) TY_eq"
| "lcmp (LDim m) LGz = acmp_if (0 < m) TY_lt"
| "lcmp (LDim m) LAny = TY_lt"
| "lcmp LGz (LVal ys fs) = acmp_if (ys \<noteq> []) TY_gt"
| "lcmp LGz (LShp ys) = acmp_if (ys \<noteq> []) TY_gt"
| "lcmp LGz (LDim n) = acmp_if (0 < n) TY_gt"
| "lcmp LGz LGz = TY_eq"
| "lcmp LGz LAny = TY_lt"
| "lcmp LAny LAny = TY_eq"
| "lcmp LAny _ = TY_gt"

fun acmp :: "'f aty \<Rightarrow> 'f aty \<Rightarrow> ct_res" where
  "acmp ABot ABot = TY_eq"
| "acmp ABot (AArr b (LVal xs es)) = TY_hcs"
| "acmp ABot (AArr b l) = TY_lt"
| "acmp (AArr b (LVal xs es)) ABot = TY_hcs"
| "acmp (AArr b l) ABot = TY_gt"
| "acmp (AArr b l) (AArr c k) = (if b = c then lcmp l k else TY_dis)"

subsection \<open>The code computes the comparison of abstract types\<close>

lemma base_cmp:
  assumes "base_is E b \<beta>" and "base_is E c \<gamma>"
  shows "TYcmpTypes E b c = Inr (if \<beta> = \<gamma> then TY_eq else TY_dis)"
  using base_is_NT [OF assms(1)] base_is_NT [OF assms(2)] by (auto simp: UTeq_def split: if_splits)

lemma val_okE:
  assumes "val_ok b k xs es"
  obtains t where "b = BSimple t" "k = con t xs es" "con_ok t xs es" "exact_type t"
  using assms by (auto simp: val_ok_def split: tbase.splits)

lemma when_eq_Inr: "when_eq (Inr c) k = (if c = TY_eq then k else Inr TY_dis)"
  by (simp add: when_eq_def)

lemma if_res_Inr: "if_res (Inr b) r = Inr (acmp_if b r)"
  by (simp add: if_res_def acmp_if_def)

lemma TYgetDim_level:
  assumes "level_is \<beta> a l"
  shows "l = LVal xs es \<Longrightarrow> TYgetDim (NT a m ss) = Inr (int (length xs))"
    and "l = LShp xs \<Longrightarrow> TYgetDim (NT a m ss) = Inr (int (length xs))"
    and "l = LDim n \<Longrightarrow> TYgetDim (NT a m ss) = Inr (int n)"
  using assms by (auto simp: level_is_simps TYgetDim_def SHgetDim_sh elim!: val_okE)

lemma level_cmp:
  assumes "base_is E b \<beta>" and "base_is E c \<gamma>" and "level_is \<beta> a l" and "level_is \<gamma> a' l'"
  shows "TYcmpTypes E (NT a m [b]) (NT a' m' [c])
         = Inr (if \<beta> = \<gamma> then lcmp l l' else TY_dis)"
proof -
  note bc = base_cmp [OF assms(1,2)]
  note d1 = TYgetDim_level [OF assms(3)] and d2 = TYgetDim_level [OF assms(4)]
  show ?thesis
    using assms(3,4) d1 d2 bc
    by (cases l; cases l')
      (auto simp: level_is_simps when_eq_Inr if_res_Inr acmp_if_def same_dim_def pos_dim_def
        SHcompareShapes_sh compare_exact split: if_splits elim!: val_okE)
qed

lemma ty_cmp:
  assumes "ty_is E t \<alpha>" and "ty_is E u \<gamma>"
  shows "TYcmpTypes E t u = Inr (acmp \<alpha> \<gamma>)"
proof (cases \<alpha>)
  case ABot
  then obtain s m where t: "t = NT (TC_bottom s) m []" using assms(1) by (auto simp: ty_is_ABot)
  show ?thesis
  proof (cases \<gamma>)
    case ABot
    then show ?thesis using assms(2) t \<open>\<alpha> = ABot\<close> by (auto simp: ty_is_ABot)
  next
    case (AArr c l)
    then show ?thesis using assms(2) t ABot by (cases l) (auto simp: ty_is_AArr level_is_simps)
  qed
next
  case (AArr b l)
  then obtain a m x where t: "t = NT a m [x]" "base_is E x b" "level_is b a l"
    using assms(1) by (auto simp: ty_is_AArr)
  show ?thesis
  proof (cases \<gamma>)
    case ABot
    then show ?thesis using assms(2) t AArr by (cases l) (auto simp: ty_is_ABot level_is_simps)
  next
    case (AArr c k)
    then obtain a' m' y where u: "u = NT a' m' [y]" "base_is E y c" "level_is c a' k"
      using assms(2) by (auto simp: ty_is_AArr)
    show ?thesis unfolding t(1) u(1) AArr \<open>\<alpha> = AArr b l\<close>
      using level_cmp [OF t(2) u(2) t(3) u(3), of m m'] by simp
  qed
qed

subsection \<open>Types as sets of arrays\<close>





definition level_ok :: "'f level \<Rightarrow> bool" where
  "level_ok l \<longleftrightarrow> (\<forall>n. l = LDim n \<longrightarrow> 0 < n)"







definition aty_ok :: "'f aty \<Rightarrow> bool" where
  "aty_ok \<alpha> \<longleftrightarrow> (\<forall>b l. \<alpha> = AArr b l \<longrightarrow> level_ok l)"

lemma ty_is_ok: "ty_is E t \<alpha> \<Longrightarrow> aty_ok \<alpha>"
  by (cases \<alpha>) (auto simp: aty_ok_def level_ok_def ty_is_AArr level_is_simps)


subsection \<open>The order of types\<close>

definition aleq :: "'f aty \<Rightarrow> 'f aty \<Rightarrow> bool" where
  "aleq \<alpha> \<gamma> \<longleftrightarrow> acmp \<alpha> \<gamma> = TY_eq \<or> acmp \<alpha> \<gamma> = TY_lt"

fun lleq :: "'f level \<Rightarrow> 'f level \<Rightarrow> bool" where
  "lleq (LVal xs es) (LVal ys fs) = (xs = ys \<and> es = fs)"
| "lleq (LVal xs es) (LShp ys) = (xs = ys)"
| "lleq (LVal xs es) (LDim n) = (length xs = n)"
| "lleq (LVal xs es) LGz = (xs \<noteq> [])"
| "lleq (LShp xs) (LShp ys) = (xs = ys)"
| "lleq (LShp xs) (LDim n) = (length xs = n)"
| "lleq (LShp xs) LGz = (xs \<noteq> [])"
| "lleq (LDim m) (LDim n) = (m = n)"
| "lleq (LDim m) LGz = (0 < m)"
| "lleq LGz LGz = True"
| "lleq _ LAny = True"
| "lleq _ _ = False"

lemma lleq_lcmp: "lcmp l k = TY_eq \<or> lcmp l k = TY_lt \<longleftrightarrow> lleq l k"
  by (cases l; cases k) (auto simp: acmp_if_def)

lemma aleq_simps [simp]:
  "aleq ABot ABot" "aleq ABot (AArr b l) \<longleftrightarrow> (\<forall>xs es. l \<noteq> LVal xs es)"
  "\<not> aleq (AArr b l) ABot" "aleq (AArr b l) (AArr c k) \<longleftrightarrow> b = c \<and> lleq l k"
  using lleq_lcmp [of l k] by (auto simp: aleq_def) (cases l; simp)+

lemma lleq_trans: "lleq l k \<Longrightarrow> lleq k j \<Longrightarrow> lleq l j"
  by (cases l; cases k; cases j) auto

lemma lcmp_eq: "lcmp l k = TY_eq \<Longrightarrow> l = k"
  by (cases l; cases k) (auto simp: acmp_if_def split: if_splits)

lemma acmp_eq: "acmp \<alpha> \<gamma> = TY_eq \<Longrightarrow> \<alpha> = \<gamma>"
proof (cases \<alpha>; cases \<gamma>)
  fix b l assume "\<alpha> = AArr b l" "\<gamma> = ABot" "acmp \<alpha> \<gamma> = TY_eq"
  then show "\<alpha> = \<gamma>" by (cases l) auto
next
  fix b l assume "\<alpha> = ABot" "\<gamma> = AArr b l" "acmp \<alpha> \<gamma> = TY_eq"
  then show "\<alpha> = \<gamma>" by (cases l) auto
qed (auto dest: lcmp_eq split: if_splits)

lemma aleq_refl: "aleq \<alpha> \<alpha>"
proof (cases \<alpha>)
  case (AArr b l)
  then show ?thesis by (cases l) auto
qed simp

lemma aleq_trans: "aleq \<alpha> \<beta> \<Longrightarrow> aleq \<beta> \<gamma> \<Longrightarrow> aleq \<alpha> \<gamma>"
proof (cases \<alpha>; cases \<beta>; cases \<gamma>)
  fix b l c k assume "\<alpha> = ABot" "\<beta> = AArr b l" "\<gamma> = AArr c k" "aleq \<alpha> \<beta>" "aleq \<beta> \<gamma>"
  then show "aleq \<alpha> \<gamma>" by (cases l; cases k) auto
qed (auto intro: lleq_trans)

lemma aleq_antisym: "aleq \<alpha> \<gamma> \<Longrightarrow> aleq \<gamma> \<alpha> \<Longrightarrow> \<alpha> = \<gamma>"
proof (cases \<alpha>; cases \<gamma>)
  fix b l c k assume "\<alpha> = AArr b l" "\<gamma> = AArr c k" "aleq \<alpha> \<gamma>" "aleq \<gamma> \<alpha>"
  then show "\<alpha> = \<gamma>" by (cases l; cases k) auto
qed auto

instantiation aty :: (type) order
begin

definition less_eq_aty :: "'a aty \<Rightarrow> 'a aty \<Rightarrow> bool" where
  "less_eq_aty \<alpha> \<gamma> \<longleftrightarrow> aleq \<alpha> \<gamma>"

definition less_aty :: "'a aty \<Rightarrow> 'a aty \<Rightarrow> bool" where
  "less_aty \<alpha> \<gamma> \<longleftrightarrow> aleq \<alpha> \<gamma> \<and> \<not> aleq \<gamma> \<alpha>"

instance
  by standard (auto simp: less_eq_aty_def less_aty_def aleq_refl intro: aleq_trans aleq_antisym)

end

lemma acmp_self: "acmp \<alpha> \<alpha> = TY_eq"
proof (cases \<alpha>)
  case (AArr b l)
  then show ?thesis by (cases l) (auto simp: acmp_if_def)
qed simp

lemma acmp_gt: "acmp \<alpha> \<gamma> = TY_gt \<Longrightarrow> aleq \<gamma> \<alpha>"
proof (cases \<alpha>; cases \<gamma>)
  fix b l c k assume "\<alpha> = AArr b l" "\<gamma> = AArr c k" "acmp \<alpha> \<gamma> = TY_gt"
  then show "aleq \<gamma> \<alpha>" by (cases l; cases k) (auto simp: acmp_if_def split: if_splits)
next
  fix b l assume "\<alpha> = AArr b l" "\<gamma> = ABot" "acmp \<alpha> \<gamma> = TY_gt"
  then show "aleq \<gamma> \<alpha>" by (cases l) auto
next
  fix b l assume "\<alpha> = ABot" "\<gamma> = AArr b l" "acmp \<alpha> \<gamma> = TY_gt"
  then show "aleq \<gamma> \<alpha>" by (cases l) auto
qed auto

lemma ty_le:
  "ty_is E t \<alpha> \<Longrightarrow> ty_is E u \<gamma> \<Longrightarrow> TYleTypes E t u = Inr (aleq \<alpha> \<gamma>)"
  by (simp add: TYleTypes_def ty_cmp aleq_def)

text \<open>The next larger abstract type: the step of \<open>TYlubOfTypes\<close>.\<close>

fun lup :: "'f level \<Rightarrow> 'f level" where
  "lup (LVal xs es) = LShp xs"
| "lup (LShp xs) = (if xs = [] then LAny else LDim (length xs))"
| "lup (LDim n) = LGz"
| "lup LGz = LAny"
| "lup LAny = LAny"

lemma lup_ok: "level_ok l \<Longrightarrow> lleq l (lup l) \<and> level_ok (lup l)"
  by (cases l) (auto simp: level_ok_def)

lemma lup_least:
  "lcmp l k = TY_hcs \<Longrightarrow> lleq l j \<Longrightarrow> lleq k j \<Longrightarrow> level_ok l \<Longrightarrow> lleq (lup l) j"
  by (cases l; cases k; cases j) (auto simp: acmp_if_def level_ok_def split: if_splits)

lemma aup_least:
  assumes "acmp (AArr b l) \<gamma> = TY_hcs" and "aleq (AArr b l) \<sigma>" and "aleq \<gamma> \<sigma>" and "level_ok l"
  shows "aleq (AArr b (lup l)) \<sigma>"
proof -
  obtain j where s: "\<sigma> = AArr b j" "lleq l j" using assms(2) by (cases \<sigma>) auto
  show ?thesis
  proof (cases \<gamma>)
    case ABot
    then show ?thesis using assms s by (cases l; cases j) auto
  next
    case (AArr c k)
    then have "b = c" "lcmp l k = TY_hcs" using assms(1) by (auto split: if_splits)
    then show ?thesis using lup_least [of l k j] assms(3,4) s AArr by auto
  qed
qed

subsection \<open>Copies and least upper bounds\<close>

lemma copy_base: "base_is E b \<beta> \<Longrightarrow> \<exists>c. TYcopyType b = Inr c \<and> base_is E c \<beta>"
  by (drule base_is_NT) (auto simp: base_is_def)

lemma copy_level: "level_is \<beta> a l \<Longrightarrow> copy_attr a = Inr a"
  by (cases l) (auto simp: level_is_simps SHcopyShape_sh COcopyConstant_con elim!: val_okE)

lemma copy_ty: "ty_is E t \<alpha> \<Longrightarrow> \<exists>u. TYcopyType t = Inr u \<and> ty_is E u \<alpha>"
proof (cases \<alpha>)
  case ABot
  then show "ty_is E t \<alpha> \<Longrightarrow> ?thesis" by (auto simp: ty_is_ABot)
next
  case (AArr \<beta> l)
  assume "ty_is E t \<alpha>"
  then obtain a m b where t: "t = NT a m [b]" "base_is E b \<beta>" "level_is \<beta> a l"
    using AArr by (auto simp: ty_is_AArr)
  obtain c where "TYcopyType b = Inr c" "base_is E c \<beta>" using copy_base [OF t(2)] by blast
  then show ?thesis using t copy_level [OF t(3)] AArr by (auto simp: ty_is_AArr)
qed

lemma lub_step:
  assumes "ty_is E t (AArr \<beta> l)" and "l \<noteq> LAny"
  shows "\<exists>u. (case NTYPE_CON t of
       Inr (TC_akv k) \<Rightarrow> lub_aks t k
     | Inr (TC_aks s) \<Rightarrow> lub_akd t s
     | Inr (TC_akd dots p) \<Rightarrow> lub_audgz t dots
     | Inr TC_audgz \<Rightarrow> lub_aud t
     | _ \<Rightarrow> Inl NullDeref) = Inr u \<and> ty_is E u (AArr \<beta> (lup l))"
proof -
  obtain a m b where t: "t = NT a m [b]" "base_is E b \<beta>" "level_is \<beta> a l"
    using assms(1) by (auto simp: ty_is_AArr)
  obtain c where c: "TYcopyType b = Inr c" "base_is E c \<beta>" using copy_base [OF t(2)] by blast
  have e: "SHcreateShape 0 [] = Inr (sh [])" using SHcreateShape_sh [of "[]"] by simp
  have sz: "to_size (int (length xs)) = length xs" if "int (length xs) \<le> int_max" for xs :: "int list"
    using that by (rule to_size_length)
  show ?thesis
    using t c e sz assms(2)
    by (cases l)
      (auto simp: level_is_simps ty_is_AArr lub_aks_def lub_akd_def lub_audgz_def lub_aud_def
        TYmakeAKS_def TYmakeAKD_def TYmakeAUD_def TYmakeAUDGZ_def make_array_eq SHcopyShape_sh
        SHgetDim_sh elim!: val_okE)
qed

text \<open>The bases of two types with a common supertype agree.\<close>

definition joinable :: "'f aty \<Rightarrow> 'f aty \<Rightarrow> bool" where
  "joinable \<alpha> \<gamma> \<longleftrightarrow> acmp \<alpha> \<gamma> \<noteq> TY_dis"

definition is_lub :: "'f aty \<Rightarrow> 'f aty \<Rightarrow> 'f aty \<Rightarrow> bool" where
  "is_lub \<alpha> \<gamma> \<rho> \<longleftrightarrow> aty_ok \<rho> \<and> aleq \<alpha> \<rho> \<and> aleq \<gamma> \<rho>
     \<and> (\<forall>\<sigma>. aty_ok \<sigma> \<longrightarrow> aleq \<alpha> \<sigma> \<longrightarrow> aleq \<gamma> \<sigma> \<longrightarrow> aleq \<rho> \<sigma>)"

lemma acmp_dis: "acmp \<alpha> \<gamma> = TY_dis \<longleftrightarrow> (\<exists>b l c k. \<alpha> = AArr b l \<and> \<gamma> = AArr c k \<and> b \<noteq> c)"
proof (cases \<alpha>; cases \<gamma>)
  fix b l c k assume "\<alpha> = AArr b l" "\<gamma> = AArr c k"
  then show ?thesis by (cases l; cases k) (auto simp: acmp_if_def)
next
  fix b l assume "\<alpha> = AArr b l" "\<gamma> = ABot"
  then show ?thesis by (cases l) auto
next
  fix b l assume "\<alpha> = ABot" "\<gamma> = AArr b l"
  then show ?thesis by (cases l) auto
qed auto

lemma acmp_hcs_Any: "acmp (AArr b LAny) \<gamma> \<noteq> TY_hcs"
proof (cases \<gamma>)
  case (AArr c k)
  then show ?thesis by (cases k) auto
qed simp

lemma is_lub_up:
  assumes "is_lub (AArr b (lup l)) \<gamma> \<rho>" and "acmp (AArr b l) \<gamma> = TY_hcs" and "level_ok l"
  shows "is_lub (AArr b l) \<gamma> \<rho>"
proof -
  have "aleq (AArr b l) (AArr b (lup l))" "aty_ok (AArr b (lup l))"
    using lup_ok [OF assms(3)] by (auto simp: aty_ok_def)
  moreover have "aleq (AArr b (lup l)) \<rho>" using assms(1) by (simp add: is_lub_def)
  ultimately have "aleq (AArr b l) \<rho>" using aleq_trans by blast
  moreover have "aleq \<rho> \<sigma>" if "aty_ok \<sigma>" "aleq (AArr b l) \<sigma>" "aleq \<gamma> \<sigma>" for \<sigma>
    using aup_least [OF assms(2) that(2,3) assms(3)] assms(1) that by (simp add: is_lub_def)
  ultimately show ?thesis using assms(1) by (simp add: is_lub_def)
qed

lemma lub_main:
  assumes "ty_is E t1 \<alpha>" and "ty_is E t2 \<gamma>" and "joinable \<alpha> \<gamma>"
  shows "\<exists>r \<rho>. TYlubOfTypes E t1 t2 = Inr r \<and> ty_is E r \<rho> \<and> is_lub \<alpha> \<gamma> \<rho>"
  using assms
proof (induction "lub_level t1" arbitrary: t1 t2 \<alpha> \<gamma> rule: less_induct)
  case less
  note cmp = ty_cmp [OF less.prems(1,2)]
  have ok: "aty_ok \<alpha>" "aty_ok \<gamma>" using less.prems(1,2) ty_is_ok by blast+
  have unf: "TYlubOfTypes E t1 t2 = (case acmp \<alpha> \<gamma> of
       TY_eq \<Rightarrow> bindR (TYisBottom t1) (\<lambda>b. if b then TUcombineBottom t1 t2 else TYcopyType t1)
     | TY_lt \<Rightarrow> TYcopyType t2
     | TY_gt \<Rightarrow> TYcopyType t1
     | TY_hcs \<Rightarrow>
         bindR (NTYPE_CON t1) (\<lambda>con. case con of
           TC_bottom _ \<Rightarrow> TYlubOfTypes E t2 t1
         | TC_akv k \<Rightarrow> bindR (lub_aks t1 k) (\<lambda>n. TYlubOfTypes E n t2)
         | TC_aks s \<Rightarrow> bindR (lub_akd t1 s) (\<lambda>n. TYlubOfTypes E n t2)
         | TC_akd dots _ \<Rightarrow> bindR (lub_audgz t1 dots) (\<lambda>n. TYlubOfTypes E n t2)
         | TC_audgz \<Rightarrow> bindR (lub_aud t1) (\<lambda>n. TYlubOfTypes E n t2)
         | _ \<Rightarrow> Inl (Unreachable ''TYlubOfTypes''))
     | TY_dis \<Rightarrow> Inr NullT)"
    by (subst TYlubOfTypes.simps) (simp add: cmp)
  show ?case
  proof (cases "acmp \<alpha> \<gamma>")
    case TY_eq
    then have eq: "\<alpha> = \<gamma>" by (rule acmp_eq)
    then have lub: "is_lub \<alpha> \<gamma> \<alpha>" using ok by (simp add: is_lub_def aleq_refl)
    show ?thesis
    proof (cases \<alpha>)
      case ABot
      then obtain s m s' m' where b: "t1 = NT (TC_bottom s) m []" "t2 = NT (TC_bottom s') m' []"
        using less.prems eq by (auto simp: ty_is_ABot)
      have "\<exists>r. TUcombineBottom t1 t2 = Inr r \<and> ty_is E r ABot"
        by (cases s') (auto simp: b TUcombineBottom_def TYgetBottomError_def ty_is_ABot)
      then show ?thesis using lub TY_eq unf b ABot by (auto simp: TYisBottom_def is_con_def)
    next
      case (AArr \<beta> l)
      then have "TYisBottom t1 = Inr False"
        using less.prems(1) by (cases l) (auto simp: ty_is_AArr level_is_simps TYisBottom_def is_con_def)
      then show ?thesis using copy_ty [OF less.prems(1)] lub TY_eq unf by auto
    qed
  next
    case TY_lt
    then have "is_lub \<alpha> \<gamma> \<gamma>" using ok by (auto simp: is_lub_def aleq_refl aleq_def [of \<alpha>])
    then show ?thesis using copy_ty [OF less.prems(2)] TY_lt unf by auto
  next
    case TY_gt
    then have "is_lub \<alpha> \<gamma> \<alpha>" using ok acmp_gt by (auto simp: is_lub_def aleq_refl)
    then show ?thesis using copy_ty [OF less.prems(1)] TY_gt unf by auto
  next
    case TY_dis
    then show ?thesis using less.prems(3) by (simp add: joinable_def)
  next
    case hcs: TY_hcs
    show ?thesis
    proof (cases \<alpha>)
      case ABot
      then obtain s m where b: "t1 = NT (TC_bottom s) m []" using less.prems by (auto simp: ty_is_ABot)
      have "TYlubOfTypes E t1 t2 = TYlubOfTypes E t2 t1" using unf hcs b by simp
      moreover have "lub_level t2 < lub_level t1"
        using bottom_hcs_level [of E t1 t2 s] cmp hcs b by simp
      moreover have "joinable \<gamma> \<alpha>" using less.prems(3) by (auto simp: joinable_def acmp_dis)
      moreover have "is_lub \<alpha> \<gamma> \<rho> \<longleftrightarrow> is_lub \<gamma> \<alpha> \<rho>" for \<rho> by (auto simp: is_lub_def)
      ultimately show ?thesis using less.hyps less.prems(1,2) by simp
    next
      case (AArr \<beta> l)
      then have l: "l \<noteq> LAny" using hcs acmp_hcs_Any by auto
      have lok: "level_ok l" using ok(1) AArr by (simp add: aty_ok_def)
      obtain u where u: "(case NTYPE_CON t1 of
           Inr (TC_akv k) \<Rightarrow> lub_aks t1 k
         | Inr (TC_aks s) \<Rightarrow> lub_akd t1 s
         | Inr (TC_akd dots p) \<Rightarrow> lub_audgz t1 dots
         | Inr TC_audgz \<Rightarrow> lub_aud t1
         | _ \<Rightarrow> Inl NullDeref) = Inr u" "ty_is E u (AArr \<beta> (lup l))"
        using lub_step [OF less.prems(1) [unfolded AArr] l] by blast
      obtain a m b where t: "t1 = NT a m [b]" "level_is \<beta> a l"
        using less.prems(1) AArr by (auto simp: ty_is_AArr)
      have "TYlubOfTypes E t1 t2 = TYlubOfTypes E u t2 \<and> lub_level u < lub_level t1"
        using t u(1) hcs unf l lub_steps_level(1) [of t1 _ u]
        by (cases l) (auto simp: level_is_simps dest: lub_steps_level(2-))
      moreover have "joinable (AArr \<beta> (lup l)) \<gamma>"
        using less.prems(3) AArr by (auto simp: joinable_def acmp_dis)
      ultimately obtain r \<rho> where "TYlubOfTypes E t1 t2 = Inr r" "ty_is E r \<rho>"
        "is_lub (AArr \<beta> (lup l)) \<gamma> \<rho>" using less.hyps [OF _ u(2) less.prems(2)] by auto
      then show ?thesis using is_lub_up [of \<beta> l \<gamma> \<rho>] hcs lok AArr by auto
    qed
  qed
qed

subsection \<open>Products\<close>

lemma cmp_merge_le:
  "cmp_merge r l = TY_eq \<or> cmp_merge r l = TY_lt
   \<longleftrightarrow> (r = TY_eq \<or> r = TY_lt) \<and> (l = TY_eq \<or> l = TY_lt)"
  by (cases r; cases l) auto

lemma cmp_members_le:
  assumes "length ss = length ts" and "\<forall>i<length ss. \<exists>c. TYcmpTypes E (ss ! i) (ts ! i) = Inr c"
  shows "\<exists>c. cmp_members E r ss ts = Inr c \<and>
     ((c = TY_eq \<or> c = TY_lt) \<longleftrightarrow> (r = TY_eq \<or> r = TY_lt)
        \<and> (\<forall>i<length ss. TYleTypes E (ss ! i) (ts ! i) = Inr True))"
  using assms
proof (induction ss ts arbitrary: r rule: list_induct2)
  case (Cons x xs y ys)
  obtain l where l: "TYcmpTypes E x y = Inr l" using Cons.prems by fastforce
  have "\<forall>i<length xs. \<exists>c. TYcmpTypes E (xs ! i) (ys ! i) = Inr c" using Cons.prems by fastforce
  from Cons.IH [OF this, of "cmp_merge r l"] obtain c where
    "cmp_members E (cmp_merge r l) xs ys = Inr c"
    "(c = TY_eq \<or> c = TY_lt) \<longleftrightarrow> (cmp_merge r l = TY_eq \<or> cmp_merge r l = TY_lt)
        \<and> (\<forall>i<length xs. TYleTypes E (xs ! i) (ys ! i) = Inr True)" by blast
  then show ?case using l by (auto simp: cmp_merge_le TYleTypes_def All_less_Suc2)
qed simp

subsection \<open>Properties\<close>

text \<open>Types over \<open>int\<close>, for the examples.\<close>

abbreviation int_env :: "int tenv" where
  "int_env \<equiv> \<lparr>te_fops = int_fops, udt_alias = []\<rparr>"

abbreviation int_base :: "int ntype" where
  "int_base \<equiv> NT (TC_simple T_int (- 1)) default_meta []"

abbreviation int_arr :: "int tattr \<Rightarrow> int ntype" where
  "int_arr a \<equiv> NT a default_meta [int_base]"

lemma int_arr_is:
  "ty_is int_env (int_arr (TC_aks (sh [2]))) (AArr (BSimple T_int) (LShp [2]))"
  "ty_is int_env (int_arr (TC_aks (sh [3]))) (AArr (BSimple T_int) (LShp [3]))"
  "ty_is int_env (int_arr (TC_akd 1 (Some (sh [])))) (AArr (BSimple T_int) (LDim 1))"
  "ty_is int_env (int_arr TC_aud) (AArr (BSimple T_int) LAny)"
  by (simp_all add: ty_is_AArr level_is_simps base_is_def int_max_def)



text \<open>
  C34: \<open>TYleTypes\<close> is a partial order on the array and bottom types above: it is reflexive and transitive, and types that are
  below each other are equal for \<open>TYeqTypes\<close>.
\<close>

theorem TYleTypes_order:
  assumes "ty_is E t \<alpha>" and "ty_is E u \<beta>" and "ty_is E v \<gamma>"
  shows "TYleTypes E t t = Inr True
    \<and> (TYleTypes E t u = Inr True \<and> TYleTypes E u v = Inr True \<longrightarrow> TYleTypes E t v = Inr True)
    \<and> (TYleTypes E t u = Inr True \<and> TYleTypes E u t = Inr True \<longrightarrow> TYeqTypes E t u = Inr True)"
proof (intro conjI impI)
  show "TYleTypes E t t = Inr True" using ty_le [OF assms(1,1)] by (simp add: aleq_refl)
  show "TYleTypes E t v = Inr True" if "TYleTypes E t u = Inr True \<and> TYleTypes E u v = Inr True"
    using that aleq_trans [of \<alpha> \<beta> \<gamma>] ty_is_ok [OF assms(2)] assms by (simp add: ty_le)
  assume "TYleTypes E t u = Inr True \<and> TYleTypes E u t = Inr True"
  then have "\<alpha> = \<beta>" using assms by (auto simp: ty_le intro: aleq_antisym)
  then show "TYeqTypes E t u = Inr True"
    using assms acmp_self [of \<beta>] by (simp add: TYeqTypes_def ty_cmp)
qed

lemma TYleTypes_order_witness:
  "TYleTypes int_env (int_arr (TC_aks (sh [2]))) (int_arr (TC_akd 1 (Some (sh [])))) = Inr True
   \<and> TYleTypes int_env (int_arr (TC_akd 1 (Some (sh [])))) (int_arr TC_aud) = Inr True
   \<and> TYleTypes int_env (int_arr (TC_aks (sh [2]))) (int_arr TC_aud) = Inr True"
proof -
  have "TYleTypes int_env (int_arr (TC_aks (sh [2]))) (int_arr (TC_akd 1 (Some (sh [])))) = Inr True"
    "TYleTypes int_env (int_arr (TC_akd 1 (Some (sh [])))) (int_arr TC_aud) = Inr True"
    using ty_le [OF int_arr_is(1,3)] ty_le [OF int_arr_is(3,4)] by simp_all
  with TYleTypes_order [OF int_arr_is(1,3,4)] show ?thesis by blast
qed

text \<open>
  C35: \<open>TYlubOfTypes\<close> returns for all array and bottom types above: \<open>NULL\<close> exactly when the comparison says that the types
  are disjoint, and otherwise a type above both that is below every other type above both; the
  order of the arguments does not matter.
\<close>

theorem TYlubOfTypes_least:
  assumes "ty_is E t \<alpha>" and "ty_is E u \<beta>"
  shows "\<exists>r. TYlubOfTypes E t u = Inr r
     \<and> (if TYcmpTypes E t u = Inr TY_dis then r = NullT
        else TYleTypes E t r = Inr True \<and> TYleTypes E u r = Inr True
          \<and> (\<forall>v \<gamma>. ty_is E v \<gamma> \<and> TYleTypes E t v = Inr True \<and> TYleTypes E u v = Inr True
                \<longrightarrow> TYleTypes E r v = Inr True)
          \<and> bindR (TYlubOfTypes E u t) (TYeqTypes E r) = Inr True)"
proof (cases "joinable \<alpha> \<beta>")
  case False
  then show ?thesis
    by (simp add: TYlubOfTypes.simps [of E t u] ty_cmp [OF assms] joinable_def)
next
  case True
  then have sym: "joinable \<beta> \<alpha>" by (auto simp: joinable_def acmp_dis)
  obtain r \<rho> where r: "TYlubOfTypes E t u = Inr r" "ty_is E r \<rho>" "is_lub \<alpha> \<beta> \<rho>"
    using lub_main [OF assms True] by blast
  obtain s \<sigma> where s: "TYlubOfTypes E u t = Inr s" "ty_is E s \<sigma>" "is_lub \<beta> \<alpha> \<sigma>"
    using lub_main [OF assms(2,1) sym] by blast
  have "\<rho> = \<sigma>" using r(3) s(3) by (intro aleq_antisym) (auto simp: is_lub_def)
  then have "TYeqTypes E r s = Inr True"
    using r s acmp_self [of \<sigma>] by (simp add: TYeqTypes_def ty_cmp)
  moreover have "TYleTypes E r v = Inr True"
    if "ty_is E v \<gamma>" "TYleTypes E t v = Inr True" "TYleTypes E u v = Inr True" for v \<gamma>
    using that r(2,3) ty_is_ok [OF that(1)] assms by (simp add: ty_le is_lub_def)
  ultimately show ?thesis
    using r s(1) True assms by (auto simp: ty_le ty_cmp is_lub_def joinable_def)
qed

lemma TYlubOfTypes_least_witness:
  "\<exists>r. TYlubOfTypes int_env (int_arr (TC_aks (sh [2]))) (int_arr (TC_aks (sh [3]))) = Inr r
     \<and> TYleTypes int_env (int_arr (TC_aks (sh [2]))) r = Inr True
     \<and> TYleTypes int_env r (int_arr (TC_akd 1 (Some (sh [])))) = Inr True"
proof -
  have "TYcmpTypes int_env (int_arr (TC_aks (sh [2]))) (int_arr (TC_aks (sh [3]))) \<noteq> Inr TY_dis"
    "TYleTypes int_env (int_arr (TC_aks (sh [2]))) (int_arr (TC_akd 1 (Some (sh [])))) = Inr True"
    "TYleTypes int_env (int_arr (TC_aks (sh [3]))) (int_arr (TC_akd 1 (Some (sh [])))) = Inr True"
    using ty_cmp [OF int_arr_is(1,2)] ty_le [OF int_arr_is(1,3)] ty_le [OF int_arr_is(2,3)]
    by (simp_all add: acmp_if_def)
  with TYlubOfTypes_least [OF int_arr_is(1,2)] int_arr_is(3) show ?thesis by force
qed

text \<open>
  A product type is below another one of the same length exactly when every member is below the
  corresponding member, whatever the members are, as long as their comparisons return.
\<close>

theorem TYleTypes_product:
  assumes "length ss = length ts" and "\<forall>i<length ss. \<exists>c. TYcmpTypes E (ss ! i) (ts ! i) = Inr c"
  shows "TYleTypes E (NT TC_prod m ss) (NT TC_prod n ts)
         = Inr (\<forall>i<length ss. TYleTypes E (ss ! i) (ts ! i) = Inr True)"
  using cmp_members_le [OF assms, of TY_eq] assms(1) by (auto simp: TYleTypes_def)

lemma TYleTypes_product_witness:
  "TYleTypes int_env (NT TC_prod default_meta [int_arr (TC_aks (sh [2])), int_base])
     (NT TC_prod default_meta [int_arr (TC_akd 1 (Some (sh []))), int_base]) = Inr True"
proof -
  let ?ss = "[int_arr (TC_aks (sh [2])), int_base]"
  let ?ts = "[int_arr (TC_akd 1 (Some (sh []))), int_base]"
  have "\<forall>i<length ?ss. TYleTypes int_env (?ss ! i) (?ts ! i) = Inr True"
    using ty_le [OF int_arr_is(1,3)] by (auto simp: less_Suc_eq TYleTypes_def)
  moreover then have "\<forall>i<length ?ss. \<exists>c. TYcmpTypes int_env (?ss ! i) (?ts ! i) = Inr c"
    by (auto simp: TYleTypes_def bindR_Inr_iff)
  ultimately show ?thesis using TYleTypes_product [of ?ss ?ts int_env] by auto
qed

text \<open>
  \<open>TYcmpTypes\<close> reports types with known extents of the last axes as equal whatever those extents are: the
  comparison of two AKD types looks at the number of axes only.
\<close>

theorem TYcmpTypes_AKD_suffix:
  assumes "base_is E b \<beta>" and "base_is E c \<beta>"
  shows "TYcmpTypes E (NT (TC_akd d (Some (sh xs))) m [b]) (NT (TC_akd e (Some (sh ys))) n [c])
         = Inr (if d + length xs = e + length ys then TY_eq else TY_hcs)"
  using base_cmp [OF assms]
  by (simp add: when_eq_Inr if_res_Inr same_dim_def TYgetDim_def SHgetDim_sh acmp_if_def)

lemma TYcmpTypes_AKD_suffix_witness:
  "TYcmpTypes int_env (int_arr (TC_akd 1 (Some (sh [2])))) (int_arr (TC_akd 1 (Some (sh [3])))) = Inr TY_eq"
  using TYcmpTypes_AKD_suffix [of int_env int_base "BSimple T_int" int_base 1 "[2]" default_meta 1 "[3]"
      default_meta]
  by (simp add: base_is_def)

text \<open>
  The comparison of a product with the bottom type depends on the order: the bottom type is below the
  product, but the product is disjoint from it.
\<close>

lemma TYcmpTypes_product_bottom:
  "TYcmpTypes E (NT (TC_bottom s) m ss) (NT TC_prod n ts) = Inr TY_lt
   \<and> TYcmpTypes E (NT TC_prod n ts) (NT (TC_bottom s) m ss) = Inr TY_dis"
  by simp

text \<open>A copy of a polymorphic user type has no attribute, and a copy does not keep the usage flag.\<close>

lemma TYcopyType_polyuser:
  "bindR (TYcopyType (NT (TC_polyuser p) m [])) TYgetPolyUserOuter = Inl Uninitialised"
  by (simp add: TYgetPolyUserOuter_def get_polyuser_def)

lemma TYcopyType_usage:
  assumes "TYcopyType (NT a m ss) = Inr u" shows "TYgetMutcUsage u = Inr MUTC_US_DEFAULT"
  using assms by (auto simp: bindR_Inr_iff TYgetMutcUsage_def copy_meta_def default_meta_def)

end
