(* ===== verification/CT_Props.thy ===== *)
theory CT_Props
  imports CT_Checks Types_Lattice
begin

text \<open>
  The theorems on the type functions of primitives: the types they return stand for the values of
  the primitive, arguments known to be wrong are rejected, no message is left behind; and the
  places where the code fails to do so.
\<close>

subsection \<open>Examples\<close>

definition int_info :: "prf_t \<Rightarrow> te_info" where
  "int_info p = TEmakeInfoPrf 1 ''f.sac'' TE_prf ''f'' p 1"

lemma int_info_prf: "TEgetPrf (int_info p) = Inr p"
  by (simp add: int_info_def TEmakeInfoPrf_def TEgetPrf_def)

lemma int_arr_elem: "elem_type int_base T_int"
  by (auto simp: elem_type_def)

lemma inhab_value_I: "con_ok s xs es \<Longrightarrow> elem_type b s \<Longrightarrow> inhab (NT (TC_akv (con s xs es)) m [b]) s xs es"
  by (auto simp: inhab_def has_value_def)

lemma inhab_shape_I: "con_ok s xs es \<Longrightarrow> elem_type b s \<Longrightarrow> attr_shape a xs \<Longrightarrow> inhab (NT a m [b]) s xs es"
  by (auto simp: inhab_def has_shape_def)

lemma con_ok_ints:
  "con_ok T_int [] [CInt IInt 40]" "con_ok T_int [] [CInt IInt 1]" "con_ok T_int [1] [CInt IInt 1]"
  "con_ok T_int [1] [CInt IInt 2]" "con_ok T_int [2] [CInt IInt 1, CInt IInt 2]"
  by (simp_all add: con_ok_def cells_ok_def cell_type_def shape_fits_def int_max_def in_ity_def imin_def imax_def)

lemma example_inhab:
  "inhab (int_arr (TC_akv (con T_int [] [CInt IInt 40]))) T_int [] [CInt IInt 40]"
  "inhab (int_arr (TC_akv (con T_int [] [CInt IInt 1]))) T_int [] [CInt IInt 1]"
  "inhab (int_arr (TC_akv (ivec [1]))) T_int [1] [CInt IInt 1]"
  "inhab (int_arr (TC_akv (ivec [2]))) T_int [1] [CInt IInt 2]"
  "inhab (int_arr (TC_aks (sh [2]))) T_int [2] [CInt IInt 1, CInt IInt 2]"
  "inhab (int_arr (TC_akd 1 (Some (sh [])))) T_int [2] [CInt IInt 1, CInt IInt 2]"
  "inhab (int_arr TC_aud) T_int [2] [CInt IInt 1, CInt IInt 2]"
  by (simp_all add: inhab_value_I inhab_shape_I con_ok_ints int_arr_elem)

subsection \<open>Types of results\<close>

text \<open>
  C14: The type function of a binary primitive is sound for every combination of scalar and vector
  arguments, except \<open>and\<close> and \<open>or\<close> of a scalar with a vector: if two arrays inhabit the argument types and
  the constant operation has a result on them, the function returns one type, this result inhabits it,
  whatever is known of the arguments, and no message is left.  By \<open>bin_args\<close> the arrays have one element type for which the
  operation is defined, a divisor of \<open>div\<close> and \<open>mod\<close> whose value is known has no zero (a known zero is
  rejected with a message, also for floating point numbers, where the constant operation has a result), and a
  scalar is compared with vectors of one element only (the constant operation writes behind its result for others).
\<close>

theorem bin_types_sound:
  assumes "\<not> (op \<in> log_ops \<and> v \<in> {SxV, VxS})"
    and "bin_args E info op v t u s xs es ys fs"
    and "bin_co (te_fops E) op (con s xs es) (con s ys fs) = Inr c"
  shows "\<exists>zs gs. zip_shape xs ys = Some zs \<and> c = con (bin_rt op s) zs gs
     \<and> returns (prf_ntc_funtab (F_bin op v) E info (NT TC_prod m [t, u]) None) (bin_rt op s) zs gs"
  using bin_ntc_sound [OF assms(1)] assms(2,3) unfolding bin_sound_def by blast

lemma bin_types_sound_witness:
  "returns (prf_ntc_funtab (F_bin P_add SxV) int_env (int_info (F_bin P_add SxV))
     (NT TC_prod default_meta [int_arr (TC_akv (con T_int [] [CInt IInt 40])), int_arr (TC_akd 1 (Some (sh [])))]) None)
     T_int [2] [CInt IInt 41, CInt IInt 42]"
proof -
  have a: "bin_args int_env (int_info (F_bin P_add SxV)) P_add SxV (int_arr (TC_akv (con T_int [] [CInt IInt 40])))
      (int_arr (TC_akd 1 (Some (sh [])))) T_int [] [CInt IInt 40] [2] [CInt IInt 1, CInt IInt 2]"
    unfolding bin_args_def int_info_prf
    by (intro conjI example_inhab impI)
      (simp_all add: bin_types_def rel_ops_def num_types_def whole_types_def zip_supports_def MAP_NUM_def)
  have run: "bin_co (te_fops int_env) P_add (con T_int [] [CInt IInt 40]) (con T_int [2] [CInt IInt 1, CInt IInt 2])
      = Inr (con T_int [2] [CInt IInt 41, CInt IInt 42])"
    using COzip_con [OF con_ok_ints(1) con_ok_ints(5), of ZPlus T_unknown "[2]" int_fops]
    by (simp add: COadd_def zip_supports_def MAP_NUM_def target_ok_def zip_shape_def zip_elems_def zip_pairs_def
        zop_elem_def iprom_def iarith_def in_ity_def imin_def imax_def cell_type_def zip_type_def)
  from bin_types_sound [OF _ a run, of default_meta] show ?thesis
    by (auto simp: log_ops_def bin_rt_def bin_target_def rel_ops_def zip_type_def)
qed

text \<open>A divisor that is known and has a zero.\<close>

definition zero_args ::
  "'f tenv \<Rightarrow> te_info \<Rightarrow> bin_op \<Rightarrow> vs \<Rightarrow> 'f ntype \<Rightarrow> 'f ntype \<Rightarrow> simpletype \<Rightarrow> int list \<Rightarrow> 'f cval list
     \<Rightarrow> int list \<Rightarrow> 'f cval list \<Rightarrow> bool" where
  "zero_args E info op v t u s xs es ys fs \<longleftrightarrow>
     TEgetPrf info = Inr (F_bin op v) \<and> op \<in> {P_div, P_mod} \<and> inhab t s xs es \<and> inhab u s ys fs \<and> vs_shapes v xs ys
     \<and> (v = VxV \<longrightarrow> ys = xs) \<and> s \<in> bin_types op \<and> zip_supports (bin_zop op) s
     \<and> akv u \<and> COisZero (te_fops E) (con s ys fs) False = Inr True"

lemma nonzero_complains:
  assumes "inhab u s ys fs" and "akv u" and "COisZero (te_fops E) (con s ys fs) False = Inr True"
  shows "complains (TEassureValNonZero E u) True"
  using assms inhab_value [OF value_if_akv [OF assms(1,2)]]
  by (simp add: TEassureValNonZero_def inhab_tests [OF assms(1)] complains_def TEhandleError_def)

text \<open>
  C39: A division whose divisor is known and has a zero is rejected: for \<open>div\<close> and \<open>mod\<close>, every combination of scalar and
  vector arguments and every element type, floating point numbers included, the type function returns the bottom
  type with a message and leaves the buffer empty, whatever is known of the dividend.
\<close>

theorem zero_divisor_rejected:
  assumes "zero_args E info op v t u s xs es ys fs"
  shows "rejected (prf_ntc_funtab (F_bin op v) E info (NT TC_prod m [t, u]) None) 1"
proof -
  define op' where "op' = (if op = P_div then P_add else P_aplmod)"
  define inf where "inf = TEmakeInfoPrf 1 [] TE_prf [] (F_bin op' v) 1"
  note z = assms [unfolded zero_args_def]
  have a: "bin_args E inf op' v t u s xs es ys fs"
    using z by (auto simp: bin_args_def op'_def inf_def TEmakeInfoPrf_def TEgetPrf_def bin_types_def rel_ops_def zip_supports_def split: option.splits)
  have c: "complains (TEassureValNonZero E u) True" using nonzero_complains z by blast
  have o: "on_prf info p k = (if p = F_bin op v then k else retT ())" for p k using z by (simp add: on_prf_def)
  have r: "rejected (results 1 (stage 1 (TEassureValNonZero E u) k) None) 1" for k by (rule stage_rejects [OF c]) simp_all
  show ?thesis
  proof (cases v)
    case VxV
    then obtain w where "TEassureSameShape t u = retT w" using z inhab_same_shape [of t s xs es u fs] by auto
    then show ?thesis using z VxV r
      by (auto simp: op'_def o NTCCTprf_ari_op_VxV_def NTCCTprf_int_op_VxV_def op_classes bin_assures [OF a])
  qed (use z r in \<open>auto simp: op'_def o bin_assures [OF a] op_classes
      NTCCTprf_ari_op_SxS_def NTCCTprf_ari_op_SxV_def NTCCTprf_ari_op_VxS_def
      NTCCTprf_int_op_SxS_def NTCCTprf_int_op_SxV_def NTCCTprf_int_op_VxS_def\<close>)
qed

lemma zero_divisor_rejected_witness:
  "rejected (prf_ntc_funtab (F_bin P_div SxS) int_env (int_info (F_bin P_div SxS))
     (NT TC_prod default_meta [int_arr (TC_akv (con T_int [] [CInt IInt 40])), int_arr (TC_akv (con T_int [] [CInt IInt 0]))]) None) 1"
proof -
  have ok: "con_ok T_int [] [CInt IInt 0 :: int cval]"
    by (simp add: con_ok_def cells_ok_def cell_type_def shape_fits_def int_max_def in_ity_def imin_def imax_def)
  have z: "COisZero int_fops (con T_int [] [CInt IInt 0]) False = Inr True" by code_simp
  show ?thesis
    by (rule zero_divisor_rejected [where s = T_int and xs = "[]" and es = "[CInt IInt 40]" and ys = "[]" and fs = "[CInt IInt 0]"])
      (simp add: zero_args_def int_info_prf z example_inhab(1) inhab_value_I [OF ok int_arr_elem] bin_types_def rel_ops_def
        num_types_def zip_supports_def MAP_NUM_def)
qed

text \<open>
  C15: The type functions of the four unary primitives \<open>not\<close>, \<open>neg\<close>, \<open>abs\<close> and \<open>reciproc\<close> on scalars and
  vectors, and of the fourteen conversions of scalars, are sound in the same sense: if an array inhabits the
  argument type and the constant operation has a result on it, the function returns one type, which the result
  inhabits, and leaves no message; the result of a conversion has the element type converted to.
\<close>

theorem unary_types_sound:
  assumes "inhab t s xs es"
  shows "(TEgetPrf info = Inr (F_un op v) \<longrightarrow> (case v of S_arg \<Rightarrow> xs = [] | V_arg \<Rightarrow> length xs = 1) \<longrightarrow>
      s \<in> un_types op \<longrightarrow> zip_supports (un_zop op) s \<longrightarrow>
      un_co (te_fops E) op (con s xs es) = Inr c \<longrightarrow>
      (\<exists>gs. c = con s xs gs \<and> returns (prf_ntc_funtab (F_un op v) E info (NT TC_prod m [t]) None) s xs gs))
    \<and> (TEgetPrf info = Inr (F_conv cv) \<longrightarrow> xs = [] \<longrightarrow> zip_supports (conv_zop cv) s \<longrightarrow>
      conv_co (te_fops E) cv (con s [] es) = Inr c \<longrightarrow>
      (\<exists>gs. c = con (conv_type cv) [] gs
         \<and> returns (prf_ntc_funtab (F_conv cv) E info (NT TC_prod m [t]) None) (conv_type cv) [] gs))"
  using un_ntc_sound [OF _ assms] conv_ntc_sound [of info cv t s es E c m] assms by blast

lemma unary_types_sound_witness:
  "returns (prf_ntc_funtab (F_un P_neg S_arg) int_env (int_info (F_un P_neg S_arg))
     (NT TC_prod default_meta [int_arr (TC_akv (con T_int [] [CInt IInt 40]))]) None) T_int [] [CInt IInt (- 40)]"
proof -
  have "COzipUnary int_fops ZNeg (con T_int [] [CInt IInt 40]) T_unknown = Inr (con T_int [] [CInt IInt (- 40)])"
    using COzipUnary_con [OF con_ok_ints(1), of ZNeg T_unknown int_fops]
    by (simp add: zip_supports_def MAP_SNUM_def target_ok_def zop_elem_def iprom_def iarith_def in_ity_def imin_def
        imax_def cell_type_def zip_type_def zop_un_def int_NEG_def)
  then have run: "un_co (te_fops int_env) P_neg (con T_int [] [CInt IInt 40]) = Inr (con T_int [] [CInt IInt (- 40)])"
    by (simp add: COneg_def)
  show ?thesis
    using unary_types_sound [OF example_inhab(1), of "int_info (F_un P_neg S_arg)" P_neg S_arg int_env
        "con T_int [] [CInt IInt (- 40)]" default_meta] run
    by (simp add: int_info_prf un_types_def signed_num_types_def zip_supports_def MAP_SNUM_def)
qed

text \<open>
  C16: Reading and writing one element is typed soundly at every level of knowledge: with an index vector
  inside the shape, the type function of \<open>sel\<close> returns a type of the scalar that is selected, and the one of
  \<open>modarray\<close> a type of the updated array.
\<close>

theorem access_types_sound:
  assumes "inhab a s xs es" and "is_ivec i iv" and "valid_idx xs iv" and "length iv = length xs"
    and "inhab v s [] vs"
  shows "(TEgetPrf info = Inr (F_struct P_sel_VxA) \<longrightarrow>
      returns (prf_ntc_funtab (F_struct P_sel_VxA) E info (NT TC_prod m [i, a]) None) s [] (sub_elems xs iv es))
    \<and> (TEgetPrf info = Inr (F_struct P_modarray_AxVxS) \<longrightarrow>
      returns (prf_ntc_funtab (F_struct P_modarray_AxVxS) E info (NT TC_prod m [a, i, v]) None) s xs (put_elems xs iv vs es))"
  using sel_sound [OF _ assms(2,1,3,4)] modarray_AxVxS_sound [OF _ assms(1,2,5,3,4)] by simp_all

lemma access_types_sound_witness:
  "returns (prf_ntc_funtab (F_struct P_sel_VxA) int_env (int_info (F_struct P_sel_VxA))
      (NT TC_prod default_meta [int_arr (TC_akv (ivec [1])), int_arr (TC_aks (sh [2]))]) None) T_int [] [CInt IInt 2]"
  using access_types_sound [OF example_inhab(5), of "int_arr (TC_akv (ivec [1]))" "[1]"
      "int_arr (TC_akv (con T_int [] [CInt IInt 1]))" "[CInt IInt 1]"
      "int_info (F_struct P_sel_VxA)" int_env default_meta] example_inhab(2,3)
  by (simp add: int_info_prf sub_elems_def)

text \<open>
  C17: Taking from and dropping off a vector are typed soundly: for a count that the vector has, from the front
  or, if negative, from the back, the types returned stand for the sublists.
\<close>

theorem take_drop_types_sound:
  assumes "count_ok t k u s x es"
  shows "(TEgetPrf info = Inr (F_struct P_take_SxV) \<longrightarrow>
      returns (prf_ntc_funtab (F_struct P_take_SxV) E info (NT TC_prod m [t, u]) None) s [\<bar>k\<bar>]
        (take (nat \<bar>k\<bar>) (drop (nat (if 0 \<le> k then 0 else x + k)) es)))
    \<and> (TEgetPrf info = Inr (F_struct P_drop_SxV) \<longrightarrow>
      returns (prf_ntc_funtab (F_struct P_drop_SxV) E info (NT TC_prod m [t, u]) None) s [x - \<bar>k\<bar>]
        (take (nat (x - \<bar>k\<bar>)) (drop (nat (max 0 k)) es)))"
  using take_sound [OF _ assms] drop_sound [OF _ assms] by (simp add: take_off_def)

lemma take_drop_types_sound_witness:
  "returns (prf_ntc_funtab (F_struct P_take_SxV) int_env (int_info (F_struct P_take_SxV))
      (NT TC_prod default_meta [int_arr (TC_akv (con T_int [] [CInt IInt 1])), int_arr TC_aud]) None) T_int [1] [CInt IInt 1]"
  using take_drop_types_sound [of "int_arr (TC_akv (con T_int [] [CInt IInt 1]))" 1 "int_arr TC_aud" T_int 2
      "[CInt IInt 1, CInt IInt 2]" "int_info (F_struct P_take_SxV)" int_env default_meta]
  by (simp add: count_ok_def example_inhab int_info_prf)

text \<open>
  C18: Reshaping and concatenation are typed soundly: a shape vector with the right product gives a type of the
  reshaped array even if only the length of the vector is known, and concatenation a type of the joined vector.
\<close>

theorem reshape_cat_types_sound:
  assumes "inhab u s xs es"
  shows "(TEgetPrf info = Inr (F_struct P_reshape_VxA) \<longrightarrow> is_ivec t ys \<longrightarrow> shape_fits ys \<longrightarrow>
      prod_list ys = prod_list xs \<longrightarrow>
      returns (prf_ntc_funtab (F_struct P_reshape_VxA) E info (NT TC_prod m [t, u]) None) s ys es)
    \<and> (TEgetPrf info = Inr (F_struct P_cat_VxV) \<longrightarrow> xs = [x] \<longrightarrow> inhab v s [y] fs \<longrightarrow> x + y \<le> int_max \<longrightarrow>
      returns (prf_ntc_funtab (F_struct P_cat_VxV) E info (NT TC_prod m [u, v]) None) s [x + y] (es @ fs))"
  using reshape_sound [OF _ _ assms] cat_sound [of info u s x es v y fs E m] assms by auto

lemma reshape_cat_types_sound_witness:
  "returns (prf_ntc_funtab (F_struct P_cat_VxV) int_env (int_info (F_struct P_cat_VxV))
      (NT TC_prod default_meta [int_arr TC_aud, int_arr (TC_akv (ivec [1]))]) None) T_int [3]
      [CInt IInt 1, CInt IInt 2, CInt IInt 1]"
  using reshape_cat_types_sound [OF example_inhab(7), of "int_info (F_struct P_cat_VxV)" _ _ int_env default_meta 2
      "int_arr (TC_akv (ivec [1]))" 1 "[CInt IInt 1]"] example_inhab(3)
  by (simp add: int_info_prf int_max_def)


subsection \<open>Checks and messages\<close>

text \<open>
  C19: The check of an index against a shape decides: for an index known and an array of known shape and as
  many axes, it returns the index and the constant true if the index is legal, and otherwise a bottom type
  for both results, which carries a message.
\<close>

theorem index_check_decides:
  assumes "is_ivec t iv" and "akv t" and "inhab u s xs es" and "shp_known u" and "length iv = length xs"
  shows "if valid_idx xs iv
     then confirmed (prf_ntc_funtab (F_check P_val_lt_shape_VxA) E info (NT TC_prod m [t, u]) None)
            T_int [int (length iv)] (map (CInt IInt) iv)
     else rejected (prf_ntc_funtab (F_check P_val_lt_shape_VxA) E info (NT TC_prod m [t, u]) None) 2"
proof -
  let ?out = "\<lambda>k. NTCCTprf_val_shape_V E info (NT TC_prod m [t, u]) None = results 2 k None"
  let ?checked = "checked E (andR (TYisAKV t) (TUshapeKnown u)) t"
  have ev: "?out (stage 2 (TEassureValMatchesShape t u) ?checked)"
    by (simp add: NTCCTprf_val_shape_V_def assure_vector [OF assms(1)] assure_simple [OF assms(3)]
        assure_shp_matches_dim [OF assms(1,3,5)])
  have d: "complains (TEassureValMatchesShape t u) (\<not> valid_idx xs iv)"
    using assms by (intro val_matches_shape_decides) simp_all
  have k: "andR (TYisAKV t) (TUshapeKnown u) = Inr True"
    using assms by (simp add: inhab_tests [OF assms(1)] inhab_tests [OF assms(3)])
  show ?thesis
  proof (cases "valid_idx xs iv")
    case True
    with d have "TEassureValMatchesShape t u = retT ()" by (intro complains_none) simp
    with ev checked_confirms [OF k value_if_akv [OF assms(1,2)] inhab_ok [OF assms(1)], of E] True show ?thesis by simp
  next
    case False
    with ev stage_rejects [OF d, of 2 ?checked] show ?thesis by simp
  qed
qed

lemma index_check_decides_witness:
  "rejected (prf_ntc_funtab (F_check P_val_lt_shape_VxA) int_env (int_info (F_check P_val_lt_shape_VxA))
     (NT TC_prod default_meta [int_arr (TC_akv (ivec [2])), int_arr (TC_aks (sh [2]))]) None) 2"
  using index_check_decides [OF _ _ example_inhab(5), of "int_arr (TC_akv (ivec [2]))" "[2]" int_env
      "int_info (F_check P_val_lt_shape_VxA)" default_meta] example_inhab(4)
  by simp

text \<open>
  C20: No type function leaves a message behind: whatever primitive the table is asked for and whatever types it
  is applied to, if it returns and the buffer was empty before, the buffer is empty after.
\<close>

theorem ntc_buffer_empty:
  assumes "prf_ntc_funtab p E info args None = Some (Inr (r, errors))"
  shows "errors = None"
  using keeps_ntc [of p E info args] assms by (simp add: keeps_def)

lemma ntc_buffer_empty_witness:
  "\<exists>r errors. prf_ntc_funtab (F_struct P_sel_VxA) int_env (int_info (F_struct P_sel_VxA))
     (NT TC_prod default_meta [int_arr (TC_akv (ivec [1])), int_arr (TC_aks (sh [2]))]) None = Some (Inr (r, errors))
     \<and> errors = None"
proof -
  have "valid_idx [2] [1 :: int]" by simp
  from sel_sound [OF int_info_prf _ example_inhab(5) this, of "int_arr (TC_akv (ivec [1]))" int_env default_meta]
  obtain r where "prf_ntc_funtab (F_struct P_sel_VxA) int_env (int_info (F_struct P_sel_VxA))
     (NT TC_prod default_meta [int_arr (TC_akv (ivec [1])), int_arr (TC_aks (sh [2]))]) None
     = Some (Inr (NT TC_prod default_meta [r], None))"
    using example_inhab(3) by (auto simp: returns_def)
  with ntc_buffer_empty [OF this] show ?thesis by blast
qed


subsection \<open>Where the code is wrong\<close>

abbreviation bool_arr :: "'f tattr \<Rightarrow> 'f ntype" where
  "bool_arr a \<equiv> NT a default_meta [NT (TC_simple T_bool (- 1)) default_meta []]"

lemma bool_arr_elem: "elem_type (NT (TC_simple T_bool (- 1)) default_meta []) T_bool"
  by (auto simp: elem_type_def)

lemma con_ok_bools: "con_ok T_bool [] [CBool b]" "con_ok T_bool [1] [CBool b]"
  by (simp_all add: con_ok_def cells_ok_def cell_type_def shape_fits_def int_max_def)




lemma isFalse_bool: "COisFalse F (con T_bool [] [CBool b]) False = Inr (\<not> b)"
proof -
  have "CObaseCv F BZero T_bool (sh []) = Inr (Some (con T_bool [] [CBool False]))"
    by (subst CObaseCv_con) (simp_all add: base_cell_def)
  moreover have "COzip F ZEq (con T_bool [] [CBool b]) (con T_bool [] [CBool False]) T_bool = Inr (con T_bool [] [CBool (\<not> b)])"
    using COzip_con [OF con_ok_bools(1) [of b] con_ok_bools(1) [of False], of ZEq T_bool "[]" F]
    by (simp add: zip_supports_def MAP_ANY_def target_ok_def zip_shape_def zip_elems_def zip_pairs_def
        zop_elem_def cell_type_def zip_type_def)
  ultimately show ?thesis
    using or_reduce_con [of T_bool "[]" "[\<not> b]"]
    by (simp add: COisFalse_def COisZero_def COmakeZero_def COeq_def SHmakeShape_0)
qed

text \<open>
  If the predicate of a guard is known to be false, the guard returns a bottom type where its callers
  expect a product: asking for the number of its members fails.
\<close>

theorem guard_not_product:
  "\<exists>r. prf_ntc_funtab (F_check P_guard) E (TEmakeInfoPrf line file TE_prf name (F_check P_guard) 1)
         (NT TC_prod m [t, bool_arr (TC_akv (con T_bool [] [CBool False]))]) None = Some (Inr (r, None))
     \<and> TYisBottom r = Inr True \<and> (\<exists>e. TYgetProductSize r = Inl e)"
proof -
  let ?p = "bool_arr (TC_akv (con T_bool [] [CBool False]))"
  have i: "inhab ?p T_bool [] [CBool False]" by (simp add: inhab_value_I con_ok_bools bool_arr_elem)
  have v: "TYgetValue ?p = Inr (con T_bool [] [CBool False])"
    by (rule inhab_value) (auto simp: has_value_def elem_type_def)
  show ?thesis
    by (simp add: v isFalse_bool NTCCTprf_guard_def TEmakeInfoPrf_def TEmakeInfo_def guard_pred_def assure_scalar [OF i]
        inhab_tests [OF i] TYgetProductSize_def TEhandleError_def TEfetchErrors_def bindT_def TYmakeBottomType_def
        MakeNtype_def TYisBottom_def is_con_def retT_def)
qed

end
