(* ===== verification/Syntax_Tree.thy ===== *)
theory Syntax_Tree
  imports CT_Prf_Ari
begin

text \<open>
  The part of the syntax tree that the simplifications of constant folding look at: expressions,
  the descriptions of variables (\<open>N_avis\<close>), the conversion between constants and expressions
  (\<open>constants/constants_basic.c\<close>, \<open>constants/cv2scalar.c\<close>) and the type of an expression
  (\<open>typecheck/new_typecheck.c\<close>, \<open>typecheck/ct_basic.c\<close>).

  A node other than an identifier carries the number of the node in the tree, so that two pointers
  to nodes are equal exactly if the values are; a node that has just been built is not part of the
  tree yet and has no number.
\<close>

subsection \<open>Expressions\<close>

datatype 'f lit =
    NUM int | NUMBYTE int | NUMSHORT int | NUMINT int | NUMLONG int | NUMLONGLONG int
  | NUMUBYTE int | NUMUSHORT int | NUMUINT int | NUMULONG int | NUMULONGLONG int
  | DOUBLE 'f | FLOAT 'f | FLOATVEC "'f list" | BOOL bool | CHARLIT int

type_synonym addr = "nat option"

text \<open>
  The number of results of a guard (\<open>PRF_NUMVARIABLERETS\<close>) is a field of \<open>N_prf\<close>.  \<open>N_other\<close> is
  every kind of expression that the modelled code does not look into: applications of functions,
  with-loops, conditionals and the primitives of later phases.
\<close>

datatype 'f node =
    N_id nat
  | N_avis nat
  | N_lit addr "'f lit"
  | N_array addr "'f ntype" shape "'f node list"
  | N_prf addr prf_t nat "'f node list"
  | N_type addr "'f ntype"
  | N_str addr string
  | N_other addr
  | N_exprs "'f node list"

fun numbered :: "'f node \<Rightarrow> bool" where
  "numbered (N_id v) = True"
| "numbered (N_avis v) = True"
| "numbered (N_lit a k) = (a \<noteq> None)"
| "numbered (N_array a t s es) = (a \<noteq> None)"
| "numbered (N_prf a p n es) = (a \<noteq> None)"
| "numbered (N_type a t) = (a \<noteq> None)"
| "numbered (N_str a s) = (a \<noteq> None)"
| "numbered (N_other a) = (a \<noteq> None)"
| "numbered (N_exprs es) = False"

definition same_node :: "'f node \<Rightarrow> 'f node \<Rightarrow> bool" where
  "same_node m n \<longleftrightarrow> m = n \<and> numbered m"

text \<open>The copy of a node is a new node.\<close>

fun DUPdoDupNode :: "'f node \<Rightarrow> 'f node" where
  "DUPdoDupNode (N_id v) = N_id v"
| "DUPdoDupNode (N_avis v) = N_avis v"
| "DUPdoDupNode (N_lit a k) = N_lit None k"
| "DUPdoDupNode (N_array a t s es) = N_array None t s (map DUPdoDupNode es)"
| "DUPdoDupNode (N_prf a p n es) = N_prf None p n (map DUPdoDupNode es)"
| "DUPdoDupNode (N_type a t) = N_type None t"
| "DUPdoDupNode (N_str a s) = N_str None s"
| "DUPdoDupNode (N_other a) = N_other None"
| "DUPdoDupNode (N_exprs es) = N_exprs (map DUPdoDupNode es)"

text \<open>
  The description of a variable.  \<open>AVIS_SSAASSIGN\<close> is the assignment that defines it: the
  variables on the left hand side and the expression.  The bounds \<open>AVIS_MIN\<close> and \<open>AVIS_MAX\<close> are
  identifiers; the second one is exclusive.
\<close>

record 'f avis =
  AVIS_TYPE :: "'f ntype"
  AVIS_SSAASSIGN :: "(nat list \<times> 'f node) option"
  AVIS_SCALARS :: "'f node option"
  AVIS_MIN :: "'f node option"
  AVIS_MAX :: "'f node option"
  AVIS_SHAPE :: "'f node option"

type_synonym 'f heap = "nat \<Rightarrow> 'f avis"

text \<open>Access to the sons of a node; in the debug build the kind of the node is checked.\<close>

fun ID_AVIS :: "'f node \<Rightarrow> nat cres" where
  "ID_AVIS (N_id v) = Inr v"
| "ID_AVIS n = Inl (AssertFail ''ID_AVIS'')"

fun PRF_PRF :: "'f node \<Rightarrow> prf_t cres" where
  "PRF_PRF (N_prf a p n es) = Inr p"
| "PRF_PRF n = Inl (AssertFail ''PRF_PRF'')"

fun PRF_ARGS :: "'f node \<Rightarrow> 'f node list cres" where
  "PRF_ARGS (N_prf a p n es) = Inr es"
| "PRF_ARGS n = Inl (AssertFail ''PRF_ARGS'')"

fun PRF_NUMVARIABLERETS :: "'f node \<Rightarrow> nat cres" where
  "PRF_NUMVARIABLERETS (N_prf a p n es) = Inr n"
| "PRF_NUMVARIABLERETS n = Inl (AssertFail ''PRF_NUMVARIABLERETS'')"

fun ARRAY_FRAMESHAPE :: "'f node \<Rightarrow> shape cres" where
  "ARRAY_FRAMESHAPE (N_array a t s es) = Inr s"
| "ARRAY_FRAMESHAPE n = Inl (AssertFail ''ARRAY_FRAMESHAPE'')"

fun STR_STRING :: "'f node \<Rightarrow> string cres" where
  "STR_STRING (N_str a s) = Inr s"
| "STR_STRING n = Inl (AssertFail ''STR_STRING'')"

definition PRF_ARG :: "nat \<Rightarrow> 'f node \<Rightarrow> 'f node cres" where
  "PRF_ARG i n = bindR (PRF_ARGS n) (\<lambda>es. check NullDeref (i < length es) (Inr (es ! i)))"

definition PRF_ARG1 :: "'f node \<Rightarrow> 'f node cres" where "PRF_ARG1 = PRF_ARG 0"
definition PRF_ARG2 :: "'f node \<Rightarrow> 'f node cres" where "PRF_ARG2 = PRF_ARG 1"
definition PRF_ARG3 :: "'f node \<Rightarrow> 'f node cres" where "PRF_ARG3 = PRF_ARG 2"

definition avis_of :: "'f heap \<Rightarrow> 'f node \<Rightarrow> 'f avis cres" where
  "avis_of H n = bindR (ID_AVIS n) (\<lambda>v. Inr (H v))"

definition ID_NTYPE :: "'f heap \<Rightarrow> 'f node \<Rightarrow> 'f ntype cres" where
  "ID_NTYPE H n = bindR (avis_of H n) (\<lambda>a. Inr (AVIS_TYPE a))"

definition IVEXPisAvisHasMin :: "'f avis \<Rightarrow> bool" where
  "IVEXPisAvisHasMin a = (AVIS_MIN a \<noteq> None)"

definition IVEXPisAvisHasMax :: "'f avis \<Rightarrow> bool" where
  "IVEXPisAvisHasMax a = (AVIS_MAX a \<noteq> None)"

definition TBmakeBool :: "bool \<Rightarrow> 'f node" where
  "TBmakeBool b = N_lit None (BOOL b)"

definition TCmakePrf1 :: "prf_t \<Rightarrow> 'f node \<Rightarrow> 'f node" where
  "TCmakePrf1 p a = N_prf None p 0 [a]"

definition TCmakePrf2 :: "prf_t \<Rightarrow> 'f node \<Rightarrow> 'f node \<Rightarrow> 'f node" where
  "TCmakePrf2 p a b = N_prf None p 0 [a, b]"

definition TULSgetPrfFamilyName :: "prf_t \<Rightarrow> prf_t" where
  "TULSgetPrfFamilyName f = (case f of F_bin op v \<Rightarrow> F_bin op SxS | _ \<Rightarrow> f)"

definition TUeqShapes :: "'f ntype \<Rightarrow> 'f ntype \<Rightarrow> bool cres" where
  "TUeqShapes a b = bindR (TYgetShape a) (\<lambda>s. bindR (TYgetShape b) (SHcompareShapes s))"

definition TUisVector :: "'f ntype \<Rightarrow> bool cres" where
  "TUisVector ty = andR (TUdimKnown ty) (bindR (TYgetDim ty) (\<lambda>d. Inr (d = 1)))"

subsection \<open>Constants to expressions\<close>

text \<open>The functions of \<open>cv2scalar.c\<close> that the types select: there is none for long doubles and pointers.\<close>

fun cv2scalar_ext :: "simpletype \<Rightarrow> cv_ext" where
  "cv2scalar_ext t = (case cv2cv_ext t of ELongDouble \<Rightarrow> EDummy | EHidden \<Rightarrow> EDummy | x \<Rightarrow> x)"

fun cell2lit :: "cv_ext \<Rightarrow> 'f cval \<Rightarrow> 'f lit cres" where
  "cell2lit EByte (CInt t x) = Inr (NUMBYTE x)"
| "cell2lit EShort (CInt t x) = Inr (NUMSHORT x)"
| "cell2lit EInt (CInt t x) = Inr (NUM x)"
| "cell2lit ELong (CInt t x) = Inr (NUMLONG x)"
| "cell2lit ELongLong (CInt t x) = Inr (NUMLONGLONG x)"
| "cell2lit EUByte (CInt t x) = Inr (NUMUBYTE x)"
| "cell2lit EUShort (CInt t x) = Inr (NUMUSHORT x)"
| "cell2lit EUInt (CInt t x) = Inr (NUMUINT x)"
| "cell2lit EULong (CInt t x) = Inr (NUMULONG x)"
| "cell2lit EULongLong (CInt t x) = Inr (NUMULONGLONG x)"
| "cell2lit EFloat (CFlt t x) = Inr (FLOAT x)"
| "cell2lit EFloatvec (CFVec x) = Inr (FLOATVEC x)"
| "cell2lit EDouble (CFlt t x) = Inr (DOUBLE x)"
| "cell2lit EBool (CBool b) = Inr (BOOL b)"
| "cell2lit EChar (CInt t x) = Inr (CHARLIT x)"
| "cell2lit EDummy v = Inl (Unreachable ''COcv2ScalarDummy'')"
| "cell2lit e v = Inl WrongType"

definition cv2scalar :: "simpletype \<Rightarrow> 'f cval cvec \<Rightarrow> nat \<Rightarrow> 'f node cres" where
  "cv2scalar t elems offset =
     (case ext_ctype (cv2scalar_ext t) of
        None \<Rightarrow> Inl (Unreachable ''COcv2ScalarDummy'')
      | Some ct \<Rightarrow> bindR (rd_as ct elems (int offset)) (\<lambda>v.
                  bindR (cell2lit (cv2scalar_ext t) v) (\<lambda>k. Inr (N_lit None k))))"

text \<open>The elements are converted from the last to the first.\<close>

definition COconstant2AST :: "'f const \<Rightarrow> 'f node cres" where
  "COconstant2AST a =
     (if COgetDim a = 0 then cv2scalar (CONSTANT_TYPE a) (CONSTANT_ELEMS a) 0
      else bindR (foldR (\<lambda>i exprs. bindR (cv2scalar (CONSTANT_TYPE a) (CONSTANT_ELEMS a) i) (\<lambda>e.
                           Inr (e # exprs))) (rev [0..<CONSTANT_VLEN a]) []) (\<lambda>exprs.
           bindR (TYmakeSimpleType (CONSTANT_TYPE a)) (\<lambda>b.
           bindR (SHmakeShape 0) (\<lambda>z.
           bindR (TYmakeAKS b z) (\<lambda>ty.
           bindR (SHcopyShape (COgetShape a)) (\<lambda>s. Inr (N_array None ty s exprs)))))))"

subsection \<open>Literals to constants\<close>

text \<open>The base type and the cell of a literal; vectors of floats are no constants.\<close>

fun lit_cell :: "'f lit \<Rightarrow> (simpletype \<times> 'f cval) option" where
  "lit_cell (NUM x) = Some (T_int, CInt IInt x)"
| "lit_cell (NUMBYTE x) = Some (T_byte, CInt ISChar x)"
| "lit_cell (NUMSHORT x) = Some (T_short, CInt IShort x)"
| "lit_cell (NUMINT x) = Some (T_int, CInt IInt x)"
| "lit_cell (NUMLONG x) = Some (T_long, CInt ILong x)"
| "lit_cell (NUMLONGLONG x) = Some (T_longlong, CInt ILLong x)"
| "lit_cell (NUMUBYTE x) = Some (T_ubyte, CInt IUChar x)"
| "lit_cell (NUMUSHORT x) = Some (T_ushort, CInt IUShort x)"
| "lit_cell (NUMUINT x) = Some (T_uint, CInt IUInt x)"
| "lit_cell (NUMULONG x) = Some (T_ulong, CInt IULong x)"
| "lit_cell (NUMULONGLONG x) = Some (T_ulonglong, CInt IULLong x)"
| "lit_cell (DOUBLE x) = Some (T_double, CFlt FDouble x)"
| "lit_cell (FLOAT x) = Some (T_float, CFlt FFloat x)"
| "lit_cell (FLOATVEC x) = None"
| "lit_cell (BOOL b) = Some (T_bool, CBool b)"
| "lit_cell (CHARLIT x) = Some (T_char, CInt IUChar x)"

definition lit_const :: "'f lit \<Rightarrow> 'f const option cres" where
  "lit_const k = (case lit_cell k of
     None \<Rightarrow> Inr None
   | Some (t, v) \<Rightarrow> bindR (SHmakeShape 0) (\<lambda>s. bindR (COmakeConstant t s (full [v])) (\<lambda>c. Inr (Some c))))"

subsection \<open>The type of an expression\<close>

fun lit_base :: "'f lit \<Rightarrow> simpletype" where
  "lit_base (FLOATVEC x) = T_floatvec"
| "lit_base k = (case lit_cell k of Some (t, v) \<Rightarrow> t | None \<Rightarrow> T_unknown)"

definition NTCBASIC :: "'f lit \<Rightarrow> 'f ntype cres" where
  "NTCBASIC k = bindR (lit_const k) (\<lambda>cv. bindR (TYmakeSimpleType (lit_base k)) (\<lambda>b. case cv of
     None \<Rightarrow> bindR (SHcreateShape 0 []) (TYmakeAKS b)
   | Some c \<Rightarrow> TYmakeAKV b c))"

text \<open>The functions that count the results, as the table \<open>prf_te_funtab\<close> has them.\<close>

fun prf_te_funtab :: "prf_t \<Rightarrow> nat \<Rightarrow> 'f ntype \<Rightarrow> nat cres" where
  "prf_te_funtab (F_check P_guard) n args = TEvar n args"
| "prf_te_funtab (F_check P_same_shape_AxA) n args = TEthree args"
| "prf_te_funtab (F_check op) n args = TEtwo args"
| "prf_te_funtab (F_meta P_dispatch_error) n args = TEval args"
| "prf_te_funtab (F_ident P_prop_obj_out) n args = TEn args"
| "prf_te_funtab (F_ident P_type_error) n args = TEn args"
| "prf_te_funtab p n args = TEone args"

fun is_alpha :: "'f ntype \<Rightarrow> bool" where
  "is_alpha (NT (TC_alpha v) m ss) = True"
| "is_alpha t = False"

text \<open>
  \<open>ComputeType\<close> for arguments without type variables, which the types of a type-checked program are;
  a type variable would postpone the computation.  Eliminating type variables copies the types.
\<close>

fun TYeliminateAlpha :: "'f ntype \<Rightarrow> 'f ntype cres" where
  "TYeliminateAlpha (NT TC_prod m ss) =
     bindR (mapR TYeliminateAlpha ss) (\<lambda>ts. Inr (NT TC_prod default_meta ts))"
| "TYeliminateAlpha t =
     (if is_alpha t then Inl (Unreachable ''type variable'') else TYcopyType t)"

definition NTCCTcomputeType ::
  "('f tenv \<Rightarrow> te_info \<Rightarrow> 'f ntype \<Rightarrow> 'f ntype tem) \<Rightarrow> 'f tenv \<Rightarrow> te_info \<Rightarrow> 'f ntype \<Rightarrow> 'f ntype tem" where
  "NTCCTcomputeType CtFun E info args =
     bindT (liftT (TYeliminateAlpha args)) (\<lambda>args.
     ifT (TYisProdOfArray args) (CtFun E info args)
       (liftT (bindR (TYgetBottom args) (\<lambda>bottom.
          dbug_assert ''NTCCTcomputeType'' (bottom \<noteq> NullT)
          (bindR (TEgetNumRets info) (\<lambda>num_res.
             cfor 0 (int num_res) (\<lambda>i res. bindR (TYcopyType bottom) (\<lambda>b.
                 TYsetProductMember res (nat i) b)) (TYmakeEmptyProductType num_res)))))))"

fun NTCtype :: "'f tenv \<Rightarrow> 'f heap \<Rightarrow> 'f node \<Rightarrow> 'f ntype tem"
  and NTCexprs :: "'f tenv \<Rightarrow> 'f heap \<Rightarrow> nat \<Rightarrow> 'f node list \<Rightarrow> 'f ntype tem" where
  "NTCtype E H (N_id v) =
     (if AVIS_TYPE (H v) = NullT then liftT (Inl (CompilerAbort ''Cannot infer type''))
      else liftT (TYcopyType (AVIS_TYPE (H v))))"
| "NTCtype E H (N_lit a k) = liftT (NTCBASIC k)"
| "NTCtype E H (N_str a s) = liftT (bindR (TYmakeSimpleType T_unknown) TYmakeAUD)"
| "NTCtype E H (N_type a t) = liftT (TYcopyType t)"
| "NTCtype E H (N_array a et s es) =
     (if es \<noteq> []
      then bindT (NTCexprs E H 1 es) (\<lambda>elems.
           bindT (liftT (bindR (TYmakeSimpleType T_int) (\<lambda>b. bindR (SHcopyShape s) (\<lambda>c.
                   bindR (TYmakeAKS b c) (TYsetProductMember elems 0))))) (\<lambda>elems.
           bindT (NTCCTcomputeType NTCCTprf_array E
                   (TEmakeInfoPrf 0 ''file'' TE_prf ''array-constructor'' (F_conv P_tobool) 1) elems) (\<lambda>type.
             liftT (TYgetProductMember type 0))))
      else liftT (bindR (TYisArray et) (\<lambda>arr. dbug_assert ''NTCarray: element type'' arr
             (bindR (TYgetScalar et) (\<lambda>scalar.
              bindR (TUshapeKnown et) (\<lambda>kn. dbug_assert ''NTCarray: AKS'' kn
              (bindR (TYisSimple scalar) (\<lambda>simple.
               bindR (TYcopyType scalar) (\<lambda>b.
               bindR (bindR (TYgetShape et) (SHappendShapes s)) (\<lambda>shp.
                 if simple
                 then bindR (TYgetSimpleType scalar) (\<lambda>st.
                      bindR (COmakeConstant st shp []) (TYmakeAKV b))
                 else TYmakeAKS b shp))))))))))"
| "NTCtype E H (N_prf a p n es) =
     bindT (if es = [] then liftT (TYmakeProductType 0 []) else NTCexprs E H 0 es) (\<lambda>args.
     bindT (liftT (prf_te_funtab p n args)) (\<lambda>rets.
       NTCCTcomputeType (prf_ntc_funtab p) E (TEmakeInfoPrf 0 ''file'' TE_prf ''prf'' p rets) args))"
| "NTCtype E H n = liftT (Inl (Unreachable ''NTCtype''))"
| "NTCexprs E H sofar [] = liftT (Inr (TYmakeEmptyProductType sofar))"
| "NTCexprs E H sofar (e # es) =
     bindT (NTCtype E H e) (\<lambda>t.
     bindT (NTCexprs E H (sofar + 1) es) (\<lambda>prod. liftT (TYsetProductMember prod sofar t)))"

text \<open>Fixing a type without type variables copies it node by node.\<close>

fun TYfixAndEliminateAlpha :: "'f ntype \<Rightarrow> 'f ntype cres" where
  "TYfixAndEliminateAlpha NullT = Inr NullT"
| "TYfixAndEliminateAlpha (NT a m ss) =
     (if is_alpha (NT a m ss) then Inl (Unreachable ''type variable'')
      else bindR (TYcopyTypeConstructor (NT a m ss)) (\<lambda>c. case c of
             NullT \<Rightarrow> Inl NullDeref
           | NT b k us \<Rightarrow> bindR (mapR TYfixAndEliminateAlpha ss) (\<lambda>ts. Inr (NT b k ts))))"

text \<open>The entry point starts with an empty buffer of errors.\<close>

definition NTCnewTypeCheck_Expr :: "'f tenv \<Rightarrow> 'f heap \<Rightarrow> 'f node \<Rightarrow> 'f ntype cres option" where
  "NTCnewTypeCheck_Expr E H n =
     bindO (NTCtype E H n None) (\<lambda>(t, buffer). TYfixAndEliminateAlpha t)"

subsection \<open>Expressions to constants\<close>

definition COisConstant :: "'f tenv \<Rightarrow> 'f heap \<Rightarrow> 'f node \<Rightarrow> bool cres option" where
  "COisConstant E H n =
     (case n of
        N_lit a k \<Rightarrow> Some (Inr (lit_cell k \<noteq> None))
      | N_array a t s es \<Rightarrow> bindO (NTCnewTypeCheck_Expr E H n) TYisAKV
      | N_id v \<Rightarrow> Some (TYisAKV (AVIS_TYPE (H v)))
      | N_avis v \<Rightarrow> Some (TYisAKV (AVIS_TYPE (H v)))
      | _ \<Rightarrow> Some (Inr False))"

definition akv_const :: "'f ntype \<Rightarrow> 'f const option cres" where
  "akv_const t = ifR (TYisAKV t)
     (bindR (bindR (TYgetValue t) COcopyConstant) (\<lambda>c. Inr (Some c))) (Inr None)"

definition COaST2Constant :: "'f tenv \<Rightarrow> 'f heap \<Rightarrow> 'f node \<Rightarrow> 'f const option cres option" where
  "COaST2Constant E H n =
     bindOO (COisConstant E H n) (\<lambda>c.
       if \<not> c then Some (Inr None)
       else (case n of
               N_lit a k \<Rightarrow> Some (lit_const k)
             | N_array a t s es \<Rightarrow> bindO (NTCnewTypeCheck_Expr E H n) akv_const
             | N_id v \<Rightarrow> Some (akv_const (AVIS_TYPE (H v)))
             | N_avis v \<Rightarrow> Some (akv_const (AVIS_TYPE (H v)))
             | _ \<Rightarrow> Some (Inl (Unreachable ''COaST2Constant''))))"

fun CFcreateConstExprsFromType :: "'f ntype \<Rightarrow> 'f node cres" where
  "CFcreateConstExprsFromType (NT TC_prod m ss) =
     bindR (mapR CFcreateConstExprsFromType (rev ss)) (\<lambda>es. Inr (N_exprs (rev es)))"
| "CFcreateConstExprsFromType type = bindR (TYgetValue type) COconstant2AST"

end
