(* ===== verification/Pattern_Match.thy ===== *)
theory Pattern_Match
  imports Syntax_Tree
begin

text \<open>
  Pattern matching on expressions: \<open>tree/pattern_match.c\<close> (patterns and the matcher),
  \<open>tree/pattern_match_attribs.c\<close> (attributes) and \<open>tree/pattern_match_modes.c\<close> (how far the
  definitions of variables are followed).

  An attribute writes to, or compares with, a variable of the C function that builds the pattern;
  these variables are named by strings and kept in a record \<open>binds\<close>.  As in the code, what a match
  has written stays written if it fails later.  The stack of expressions that a pattern is matched
  against is a list; \<open>None\<close> is the node \<open>FAIL\<close>.  Patterns on with-loops, the repetition patterns and
  tables that connect the variables of different functions are not modelled.
\<close>

subsection \<open>Modes\<close>

datatype aspect = PMMskipId | PMMskipPrf "prf_t \<Rightarrow> bool"

type_synonym pm_mode = "aspect list"

fun findCorrespondingArg :: "nat \<Rightarrow> nat list \<Rightarrow> 'f node list \<Rightarrow> 'f node option" where
  "findCorrespondingArg avis (v # ids) (e # exprs) =
     (if v = avis then Some e else findCorrespondingArg avis ids exprs)"
| "findCorrespondingArg avis ids exprs = None"

definition skip_id :: "'f heap \<Rightarrow> 'f node \<Rightarrow> 'f node" where
  "skip_id H expr = (case expr of
     N_id v \<Rightarrow>
       (case AVIS_SSAASSIGN (H v) of
          Some (ids, rhs) \<Rightarrow> if length ids = 1 then rhs else expr
        | None \<Rightarrow> (case AVIS_SCALARS (H v) of Some s \<Rightarrow> s | None \<Rightarrow> expr))
   | _ \<Rightarrow> expr)"

definition first_result :: "nat \<Rightarrow> nat list \<Rightarrow> bool cres" where
  "first_result v ids = check NullDeref (ids \<noteq> []) (Inr (v = hd ids))"

text \<open>The argument of a primitive that is the value of one of its results; \<open>None\<close> is a null pointer.\<close>

definition skip_prf :: "'f heap \<Rightarrow> (prf_t \<Rightarrow> bool) \<Rightarrow> 'f node \<Rightarrow> 'f node option cres" where
  "skip_prf H inspect expr = (case expr of
     N_id v \<Rightarrow>
       (case AVIS_SSAASSIGN (H v) of
          Some (ids, N_prf a p n args) \<Rightarrow>
            if \<not> inspect p then Inr (Some expr)
            else if p \<in> {F_check P_guard, F_check P_same_shape_AxA, F_check P_non_neg_val_S,
                         F_check P_non_neg_val_V, F_meta P_noteminval, F_meta P_notemaxval,
                         F_meta P_noteintersect}
            then Inr (findCorrespondingArg v ids args)
            else if p = F_check P_type_constraint
            then ifR (first_result v ids)
                   (bindR (PRF_ARG2 (N_prf a p n args)) (\<lambda>e. Inr (Some e))) (Inr (Some expr))
            else if p \<in> {F_check P_shape_matches_dim_VxA, F_check P_val_lt_shape_VxA,
                         F_check P_val_le_val_VxV, F_check P_val_le_val_SxS,
                         F_check P_val_lt_val_SxS, F_check P_prod_matches_prod_shape_VxA}
            then ifR (first_result v ids)
                   (bindR (PRF_ARG1 (N_prf a p n args)) (\<lambda>e. Inr (Some e))) (Inr (Some expr))
            else Inr (Some expr)
        | _ \<Rightarrow> Inr (Some expr))
   | _ \<Rightarrow> Inr (Some expr))"

fun apply_aspect :: "'f heap \<Rightarrow> aspect \<Rightarrow> 'f node \<Rightarrow> 'f node option cres" where
  "apply_aspect H PMMskipId expr = Inr (Some (skip_id H expr))"
| "apply_aspect H (PMMskipPrf inspect) expr = skip_prf H inspect expr"

definition PMMisInExtrema :: "prf_t \<Rightarrow> bool" where
  "PMMisInExtrema p \<longleftrightarrow> p = F_meta P_noteminval \<or> p = F_meta P_notemaxval \<or> p = F_meta P_noteintersect"

definition PMMisInGuards :: "prf_t \<Rightarrow> bool" where
  "PMMisInGuards p \<longleftrightarrow> p \<in> {F_check P_type_constraint, F_check P_non_neg_val_S, F_check P_non_neg_val_V,
     F_check P_val_lt_val_SxS, F_check P_val_le_val_SxS, F_check P_val_le_val_VxV,
     F_check P_same_shape_AxA, F_check P_val_lt_shape_VxA, F_check P_shape_matches_dim_VxA,
     F_check P_prod_matches_prod_shape_VxA}"

definition PMMisInExtremaOrGuards :: "prf_t \<Rightarrow> bool" where
  "PMMisInExtremaOrGuards p \<longleftrightarrow> PMMisInExtrema p \<or> PMMisInGuards p"

definition PMMisGuard :: "prf_t \<Rightarrow> bool" where
  "PMMisGuard p \<longleftrightarrow> p = F_check P_guard"

definition PMMexact :: pm_mode where "PMMexact = []"
definition PMMflat :: pm_mode where "PMMflat = [PMMskipId]"
definition PMMflatPrf :: "(prf_t \<Rightarrow> bool) \<Rightarrow> pm_mode" where
  "PMMflatPrf inspect = [PMMskipPrf inspect, PMMskipId]"

text \<open>
  The aspects are tried in order until one of them changes the expression, and all over again
  until none does; the value \<open>None\<close> of an aspect ends it.  With the definitions of an SSA form,
  which are not cyclic, the loop ends.
\<close>

fun skip_once :: "'f heap \<Rightarrow> pm_mode \<Rightarrow> 'f node \<Rightarrow> 'f node option cres" where
  "skip_once H [] expr = Inr (Some expr)"
| "skip_once H (a # as) expr =
     bindR (apply_aspect H a expr) (\<lambda>r. case r of
       None \<Rightarrow> Inr None
     | Some e \<Rightarrow> if e = expr then skip_once H as expr else Inr (Some e))"

partial_function (option) skipVarDefs :: "'f heap \<Rightarrow> pm_mode \<Rightarrow> 'f node \<Rightarrow> 'f node cres option" where
  "skipVarDefs H mode expr =
     bindRO (skip_once H mode expr) (\<lambda>r. case r of
       None \<Rightarrow> Some (Inr expr)
     | Some e \<Rightarrow> if e = expr then Some (Inr expr) else skipVarDefs H mode e)"

subsection \<open>Attributes\<close>

datatype attrib =
    PMAgetNode string | PMAgetNodeOrAvis string | PMAisNodeOrAvis string
  | PMAisVar string | PMAgetVal string | PMAisVal string
  | PMAgetPrf string | PMAisPrf prf_t | PMAisNotPrf prf_t

record 'f binds =
  b_node :: "string \<Rightarrow> 'f node option"
  b_con :: "string \<Rightarrow> 'f const option"
  b_prf :: "string \<Rightarrow> prf_t option"

definition no_binds :: "'f binds" where
  "no_binds = \<lparr>b_node = (\<lambda>x. None), b_con = (\<lambda>x. None), b_prf = (\<lambda>x. None)\<rparr>"

text \<open>A C variable of type \<open>node *\<close> that is set before the match.\<close>

definition set_node :: "string \<Rightarrow> 'f node \<Rightarrow> 'f binds \<Rightarrow> 'f binds" where
  "set_node x n b = b\<lparr>b_node := (b_node b)(x := Some n)\<rparr>"

definition set_con :: "string \<Rightarrow> 'f const option \<Rightarrow> 'f binds \<Rightarrow> 'f binds" where
  "set_con x c b = b\<lparr>b_con := (b_con b)(x := c)\<rparr>"

definition set_prf :: "string \<Rightarrow> prf_t \<Rightarrow> 'f binds \<Rightarrow> 'f binds" where
  "set_prf x p b = b\<lparr>b_prf := (b_prf b)(x := Some p)\<rparr>"

fun node_or_avis :: "'f node \<Rightarrow> 'f node" where
  "node_or_avis (N_id v) = N_avis v"
| "node_or_avis n = n"

definition bound_node :: "string \<Rightarrow> 'f binds \<Rightarrow> 'f node cres" where
  "bound_node x b = (case b_node b x of None \<Rightarrow> Inl (AssertFail ''compared without being set'') | Some n \<Rightarrow> Inr n)"

fun PMAmatch ::
  "'f tenv \<Rightarrow> 'f heap \<Rightarrow> attrib \<Rightarrow> 'f node \<Rightarrow> 'f binds \<Rightarrow> (bool \<times> 'f binds) cres option" where
  "PMAmatch E H (PMAgetNode x) arg b = Some (Inr (True, set_node x arg b))"
| "PMAmatch E H (PMAgetNodeOrAvis x) arg b = Some (Inr (True, set_node x (node_or_avis arg) b))"
| "PMAmatch E H (PMAisNodeOrAvis x) arg b =
     Some (bindR (bound_node x b) (\<lambda>n. Inr (same_node (node_or_avis arg) n, b)))"
| "PMAmatch E H (PMAisVar x) arg b =
     Some (bindR (bound_node x b) (\<lambda>n. bindR (ID_AVIS n) (\<lambda>v. bindR (ID_AVIS arg) (\<lambda>w. Inr (w = v, b)))))"
| "PMAmatch E H (PMAgetVal x) arg b =
     bindO (COaST2Constant E H arg) (\<lambda>c. Inr (True, set_con x c b))"
| "PMAmatch E H (PMAisVal x) arg b =
     bindO (COaST2Constant E H arg) (\<lambda>c2. case b_con b x of
       None \<Rightarrow> Inl NullDeref
     | Some c \<Rightarrow> (case c2 of
         None \<Rightarrow> Inl NullDeref
       | Some c2 \<Rightarrow> bindR (COcompareConstants (te_fops E) c c2) (\<lambda>r. Inr (r, b))))"
| "PMAmatch E H (PMAgetPrf x) arg b = Some (bindR (PRF_PRF arg) (\<lambda>p. Inr (True, set_prf x p b)))"
| "PMAmatch E H (PMAisPrf q) arg b = Some (bindR (PRF_PRF arg) (\<lambda>p. Inr (p = q, b)))"
| "PMAmatch E H (PMAisNotPrf q) arg b = Some (bindR (PRF_PRF arg) (\<lambda>p. Inr (p \<noteq> q, b)))"

fun genericAtribMatcher ::
  "'f tenv \<Rightarrow> 'f heap \<Rightarrow> attrib list \<Rightarrow> 'f node \<Rightarrow> 'f binds \<Rightarrow> (bool \<times> 'f binds) cres option" where
  "genericAtribMatcher E H [] arg b = Some (Inr (True, b))"
| "genericAtribMatcher E H (a # as) arg b =
     bindOO (PMAmatch E H a arg b) (\<lambda>(ok, b). if ok then genericAtribMatcher E H as arg b else Some (Inr (False, b)))"

subsection \<open>Patterns\<close>

datatype pattern =
    PMvar "attrib list" "pattern list"
  | PMparam "attrib list"
  | PMany "attrib list"
  | PMconst "attrib list"
  | PMint "attrib list"
  | PMarray "attrib list" "pattern list"
  | PMprf "attrib list" "pattern list"
  | PMskip "attrib list"
  | PMtrue
  | PMfalse

type_synonym 'f stack = "'f node list option"

fun is_id :: "'f node \<Rightarrow> bool" where
  "is_id (N_id v) = True"
| "is_id n = False"

fun is_prf :: "'f node \<Rightarrow> bool" where
  "is_prf (N_prf a p n es) = True"
| "is_prf n = False"

fun is_arr :: "'f node \<Rightarrow> bool" where
  "is_arr (N_array a t s es) = True"
| "is_arr n = False"

fun is_num :: "'f node \<Rightarrow> bool" where
  "is_num (N_lit a (NUM x)) = True"
| "is_num n = False"

fun getInner :: "'f node \<Rightarrow> 'f node list" where
  "getInner (N_array a t s es) = es"
| "getInner (N_prf a p n es) = es"
| "getInner n = [n]"

definition follow_defs :: "'f heap \<Rightarrow> pm_mode \<Rightarrow> bool \<Rightarrow> 'f node \<Rightarrow> 'f node cres option" where
  "follow_defs H mode follow arg = (if follow then skipVarDefs H mode arg else Some (Inr arg))"

text \<open>
  The parameters of the generic matcher are whether definitions are followed, the kind of the
  node and the matcher of the inner patterns, if there are any.
\<close>

definition genericPatternMatcher ::
  "'f tenv \<Rightarrow> 'f heap \<Rightarrow> pm_mode \<Rightarrow> bool \<Rightarrow> ('f node \<Rightarrow> bool) \<Rightarrow> attrib list
   \<Rightarrow> ('f node list \<Rightarrow> 'f binds \<Rightarrow> (bool \<times> 'f binds) cres option) option
   \<Rightarrow> 'f node list \<Rightarrow> 'f binds \<Rightarrow> ('f stack \<times> 'f binds) cres option" where
  "genericPatternMatcher E H mode follow nt attrs inner stack b =
     (case stack of
        [] \<Rightarrow> Some (Inr (None, b))
      | arg # rest \<Rightarrow>
          bindOO (follow_defs H mode follow arg) (\<lambda>arg.
            if \<not> nt arg then Some (Inr (None, b))
            else bindOO (genericAtribMatcher E H attrs arg b) (\<lambda>(ok, b).
              if \<not> ok then Some (Inr (None, b))
              else case inner of
                     None \<Rightarrow> Some (Inr (Some rest, b))
                   | Some sub \<Rightarrow> bindO (sub (getInner arg) b) (\<lambda>(ok, b).
                       Inr (if ok then Some rest else None, b)))))"

text \<open>A pattern without inner patterns does not look at the sons of the node.\<close>

fun pat_match ::
  "'f tenv \<Rightarrow> 'f heap \<Rightarrow> pm_mode \<Rightarrow> pattern \<Rightarrow> 'f node list \<Rightarrow> 'f binds \<Rightarrow> ('f stack \<times> 'f binds) cres option"
  and genericSubPatternMatcher ::
  "'f tenv \<Rightarrow> 'f heap \<Rightarrow> pm_mode \<Rightarrow> pattern list \<Rightarrow> 'f node list \<Rightarrow> 'f binds \<Rightarrow> (bool \<times> 'f binds) cres option" where
  "pat_match E H mode (PMvar as ps) stack b =
     genericPatternMatcher E H mode False is_id as
       (if ps = [] then None else Some (\<lambda>s b. genericSubPatternMatcher E H mode ps s b)) stack b"
| "pat_match E H mode (PMparam as) stack b = genericPatternMatcher E H mode True is_id as None stack b"
| "pat_match E H mode (PMint as) stack b = genericPatternMatcher E H mode True is_num as None stack b"
| "pat_match E H mode (PMarray as ps) stack b =
     genericPatternMatcher E H mode True is_arr as
       (if ps = [] then None else Some (\<lambda>s b. genericSubPatternMatcher E H mode ps s b)) stack b"
| "pat_match E H mode (PMprf as ps) stack b =
     genericPatternMatcher E H mode True is_prf as
       (if ps = [] then None else Some (\<lambda>s b. genericSubPatternMatcher E H mode ps s b)) stack b"
| "pat_match E H mode (PMany as) stack b =
     genericPatternMatcher E H mode True (\<lambda>n. True) as None stack b"
| "pat_match E H mode (PMconst as) stack b =
     (case stack of
        [] \<Rightarrow> Some (Inr (None, b))
      | arg # rest \<Rightarrow>
          bindOO (skipVarDefs H mode arg) (\<lambda>arg.
          bindOO (COisConstant E H arg) (\<lambda>c.
            if \<not> c then Some (Inr (None, b))
            else bindO (genericAtribMatcher E H as arg b) (\<lambda>(ok, b).
                   Inr (if ok then Some rest else None, b)))))"
| "pat_match E H mode (PMskip as) stack b =
     bindO (genericAtribMatcher E H as (N_exprs stack) b) (\<lambda>(ok, b). Inr (if ok then Some [] else None, b))"
| "pat_match E H mode PMtrue stack b = Some (Inr (Some stack, b))"
| "pat_match E H mode PMfalse stack b = Some (Inr (None, b))"
| "genericSubPatternMatcher E H mode [] stack b = Some (Inr (stack = [], b))"
| "genericSubPatternMatcher E H mode (p # ps) stack b =
     bindOO (pat_match E H mode p stack b) (\<lambda>(s, b). case s of
       None \<Rightarrow> Some (Inr (False, b))
     | Some s \<Rightarrow> genericSubPatternMatcher E H mode ps s b)"

definition PMmatch ::
  "'f tenv \<Rightarrow> 'f heap \<Rightarrow> pm_mode \<Rightarrow> pattern \<Rightarrow> 'f node \<Rightarrow> 'f binds \<Rightarrow> (bool \<times> 'f binds) cres option" where
  "PMmatch E H mode pat expr b =
     bindO (pat_match E H mode pat [expr] b) (\<lambda>(s, b). Inr (s \<noteq> None, b))"

definition PMmatchExact where "PMmatchExact E H = PMmatch E H PMMexact"
definition PMmatchFlat where "PMmatchFlat E H = PMmatch E H PMMflat"
definition PMmatchFlatSkipExtrema where
  "PMmatchFlatSkipExtrema E H = PMmatch E H (PMMflatPrf PMMisInExtrema)"
definition PMmatchFlatSkipGuards where
  "PMmatchFlatSkipGuards E H = PMmatch E H (PMMflatPrf PMMisInGuards)"
definition PMmatchFlatSkipExtremaAndGuards where
  "PMmatchFlatSkipExtremaAndGuards E H = PMmatch E H (PMMflatPrf PMMisInExtremaOrGuards)"
definition PMmatchFlatWith where "PMmatchFlatWith E H = PMmatch E H (PMMflatPrf PMMisGuard)"

end
