(* ===== verification/SCS_Tests.thy ===== *)
theory SCS_Tests
  imports Pattern_Match
begin

text \<open>
  Symbolic constant simplification, \<open>stdopt/symbolic_constant_simplification.c\<close>, first part: what is
  known of an expression (constant, sign, bounds, equality of two expressions), the makers of
  constant arrays, and the decision of comparisons from bounds (\<open>stdopt/saa_constant_folding.c\<close>).

  \<open>None\<close> as the value of a node or a constant is the null pointer.
\<close>

subsection \<open>Conditions\<close>

lemma bindOO_mono [partial_function_mono]:
  assumes "\<And>x. mono_option (\<lambda>f. c x f)"
  shows "mono_option (\<lambda>f. bindOO m (\<lambda>x. c x f))"
  using bindRO_mono [OF assms] by (cases m) (simp_all add: bindOO_def monotone_def flat_ord_def fun_ord_def)

definition ifO :: "bool cres option \<Rightarrow> 'a cres option \<Rightarrow> 'a cres option \<Rightarrow> 'a cres option" where
  "ifO b x y = bindOO b (\<lambda>c. if c then x else y)"

abbreviation retO :: "'a \<Rightarrow> 'a cres option" where
  "retO x \<equiv> Some (Inr x)"

definition andO :: "bool cres option \<Rightarrow> bool cres option \<Rightarrow> bool cres option" where
  "andO a b = ifO a b (retO False)"

definition orO :: "bool cres option \<Rightarrow> bool cres option \<Rightarrow> bool cres option" where
  "orO a b = ifO a (retO True) b"

text \<open>\<open>if (NULL == res) ...\<close>\<close>

definition elseO :: "'a option cres option \<Rightarrow> 'a option cres option \<Rightarrow> 'a option cres option" where
  "elseO r s = bindOO r (\<lambda>x. case x of None \<Rightarrow> s | Some y \<Rightarrow> retO (Some y))"

subsection \<open>Matching\<close>

text \<open>
  The constant that a node is in a mode: the match with \<open>PMconst (1, PMAgetVal (&con))\<close>, and \<open>None\<close>
  if it fails.
\<close>

definition match_const :: "'f tenv \<Rightarrow> 'f heap \<Rightarrow> pm_mode \<Rightarrow> 'f node \<Rightarrow> 'f const option cres option" where
  "match_const E H mode n =
     bindO (PMmatch E H mode (PMconst [PMAgetVal ''con'']) n no_binds) (\<lambda>(z, b).
       Inr (if z then b_con b ''con'' else None))"

definition test_const :: "('f const \<Rightarrow> bool cres) \<Rightarrow> 'f const option \<Rightarrow> bool cres" where
  "test_const f c = (case c of None \<Rightarrow> Inr False | Some k \<Rightarrow> f k)"

abbreviation skip_extrema :: pm_mode where "skip_extrema \<equiv> PMMflatPrf PMMisInExtrema"
abbreviation skip_guards :: pm_mode where "skip_guards \<equiv> PMMflatPrf PMMisInGuards"
abbreviation skip_both :: pm_mode where "skip_both \<equiv> PMMflatPrf PMMisInExtremaOrGuards"

text \<open>Selection from a shape vector; the result of matching a shape vector itself is overwritten.\<close>

definition SCSisSelOfShape :: "'f tenv \<Rightarrow> 'f heap \<Rightarrow> 'f node \<Rightarrow> bool cres option" where
  "SCSisSelOfShape E H arg_node =
     (let pat1 = PMprf [PMAisPrf (F_struct P_sel_VxA)] [PMvar [PMAgetNode ''iv''] [], PMvar [PMAgetNode ''x''] []];
          pat2 = PMprf [PMAisPrf (F_index P_idx_sel)] [PMvar [PMAgetNode ''iv''] [], PMvar [PMAgetNode ''x''] []];
          pat3 = PMprf [PMAisPrf (F_query P_shape_A)] [PMvar [PMAgetNode ''m''] []] in
      bindOO (PMmatchFlatSkipGuards E H pat3 arg_node no_binds) (\<lambda>(z, b).
      bindOO (PMmatchFlatSkipGuards E H pat1 arg_node b) (\<lambda>(z, b).
      bindOO (if z then retO (True, b) else PMmatchFlatSkipGuards E H pat2 arg_node b) (\<lambda>(z, b).
        if \<not> z then retO False
        else bindRO (bound_node ''x'' b) (\<lambda>x.
             bindO (PMmatchFlatSkipGuards E H pat3 x b) (\<lambda>(z, b). Inr z))))))"

text \<open>
  \<open>SAACFchaseMinMax\<close>: the first constant among a node, its bound, the bound of its bound, and so
  on; an upper bound is exclusive, so one is added to the node's own value.
\<close>

partial_function (option) SAACFchaseMinMax ::
  "'f tenv \<Rightarrow> 'f heap \<Rightarrow> bool \<Rightarrow> 'f node option \<Rightarrow> 'f const option cres option" where
  "SAACFchaseMinMax E H minmax arg = (case arg of
     None \<Rightarrow> retO None
   | Some n \<Rightarrow>
       bindOO (if is_id n then match_const E H skip_extrema n else retO None) (\<lambda>z. case z of
         Some z \<Rightarrow>
           (if minmax
            then Some (bindR (COmakeConstantFromInt 1) (\<lambda>cone.
                 bindR (COadd (te_fops E) cone z) (\<lambda>s. Inr (Some s))))
            else retO (Some z))
       | None \<Rightarrow> bindRO (avis_of H n) (\<lambda>a.
           SAACFchaseMinMax E H minmax (if minmax then AVIS_MAX a else AVIS_MIN a))))"

fun num_test :: "(int \<Rightarrow> bool) \<Rightarrow> 'f node \<Rightarrow> bool" where
  "num_test P (N_lit a (NUM x)) = P x"
| "num_test P n = False"

definition SCSisNonNegative :: "'f tenv \<Rightarrow> 'f heap \<Rightarrow> 'f node \<Rightarrow> bool cres option" where
  "SCSisNonNegative E H arg_node =
     (let F = te_fops E in
      if num_test (\<lambda>x. 0 \<le> x) arg_node then retO True
      else if \<not> is_id arg_node then retO False
      else orO (orO (bindO (match_const E H skip_extrema arg_node) (test_const (\<lambda>k. COisNonNeg F k True)))
                  (SCSisSelOfShape E H arg_node))
             (bindO (SAACFchaseMinMax E H False (Some arg_node)) (test_const (\<lambda>k. COisNonNeg F k True))))"

definition SCSisNegative :: "'f tenv \<Rightarrow> 'f heap \<Rightarrow> 'f node \<Rightarrow> bool cres option" where
  "SCSisNegative E H arg_node =
     (let F = te_fops E in
      if num_test (\<lambda>x. x < 0) arg_node then retO True
      else if \<not> is_id arg_node then retO False
      else orO (bindO (match_const E H skip_extrema arg_node) (test_const (\<lambda>k. COisNeg F k True)))
             (bindO (SAACFchaseMinMax E H True (Some arg_node))
                (test_const (\<lambda>k. orR (COisNeg F k True) (COisZero F k True)))))"

definition SCSisNonPositive :: "'f tenv \<Rightarrow> 'f heap \<Rightarrow> 'f node \<Rightarrow> bool cres option" where
  "SCSisNonPositive E H arg_node =
     (let F = te_fops E in
      if num_test (\<lambda>x. x \<le> 0) arg_node then retO True
      else if \<not> is_id arg_node then retO False
      else orO (bindO (match_const E H skip_extrema arg_node) (test_const (\<lambda>k. COisNeg F k True)))
             (bindO (SAACFchaseMinMax E H True (Some arg_node))
                (test_const (\<lambda>k. orR (COisNeg F k True) (orR (COisZero F k True) (COisOne F k True))))))"

definition SCSisPositive :: "'f tenv \<Rightarrow> 'f heap \<Rightarrow> 'f node \<Rightarrow> bool cres option" where
  "SCSisPositive E H arg_node =
     (let F = te_fops E in
      if num_test (\<lambda>x. 0 < x) arg_node then retO True
      else if \<not> is_id arg_node then retO False
      else orO (bindO (match_const E H skip_extrema arg_node) (test_const (\<lambda>k. COisPos F k True)))
             (bindO (SAACFchaseMinMax E H False (Some arg_node))
                (test_const (\<lambda>k. andR (notR (COisNeg F k True)) (notR (COisZero F k True))))))"

definition SCSgetBasetypeOfExpr :: "'f tenv \<Rightarrow> 'f heap \<Rightarrow> 'f node \<Rightarrow> simpletype cres option" where
  "SCSgetBasetypeOfExpr E H expr =
     bindO (NTCnewTypeCheck_Expr E H expr) (\<lambda>etype. bindR (TYgetScalar etype) TYgetSimpleType)"

subsection \<open>Making constant arrays\<close>

text \<open>A constant of the shape of an expression, if it is known; some types have no base constants.\<close>

definition make_const ::
  "'f tenv \<Rightarrow> 'f heap \<Rightarrow> 'f node \<Rightarrow> (shape \<Rightarrow> 'f const option cres option) \<Rightarrow> 'f node option cres option" where
  "make_const E H prfarg mk =
     bindOO (NTCnewTypeCheck_Expr E H prfarg) (\<lambda>typ.
     bindRO (TUshapeKnown typ) (\<lambda>known.
       if \<not> known then retO None
       else bindRO (TYgetShape typ) (\<lambda>shp.
            bindO (mk shp) (\<lambda>c. case c of
              None \<Rightarrow> Inr None
            | Some c \<Rightarrow> bindR (COconstant2AST c) (\<lambda>r. Inr (Some r))))))"

definition SCSmakeZero :: "'f tenv \<Rightarrow> 'f heap \<Rightarrow> 'f node \<Rightarrow> 'f node option cres option" where
  "SCSmakeZero E H prfarg = make_const E H prfarg (\<lambda>shp.
     bindO (SCSgetBasetypeOfExpr E H prfarg) (\<lambda>s. COmakeZero (te_fops E) s shp))"

definition SCSmakeFalse :: "'f tenv \<Rightarrow> 'f heap \<Rightarrow> 'f node \<Rightarrow> 'f node option cres option" where
  "SCSmakeFalse E H prfarg = make_const E H prfarg (\<lambda>shp. Some (COmakeFalse (te_fops E) shp))"

definition SCSmakeTrue :: "'f tenv \<Rightarrow> 'f heap \<Rightarrow> 'f node \<Rightarrow> 'f node option cres option" where
  "SCSmakeTrue E H prfarg = make_const E H prfarg (\<lambda>shp. Some (COmakeTrue (te_fops E) shp))"

text \<open>The loop counts the first extent down to zero.\<close>

definition SCSmakeVectorArray :: "'f heap \<Rightarrow> shape \<Rightarrow> 'f node \<Rightarrow> 'f node cres option" where
  "SCSmakeVectorArray H shp scalarval =
     bindRO (ID_NTYPE H scalarval) (\<lambda>t.
     bindRO (bindR (bindR (TYgetScalar t) TYcopyType) (\<lambda>b. bindR (SHcreateShape 0 []) (TYmakeAKS b))) (\<lambda>elemtype.
     bindRO (SHcopyShape shp) (\<lambda>frameshape.
     bindRO (SHgetExtent shp 0) (\<lambda>xrho.
       if xrho < 0 then None
       else retO (N_array None elemtype frameshape (replicate (nat xrho) (DUPdoDupNode scalarval)))))))"

subsection \<open>Constants of any shape\<close>

definition SCSisConstantZero :: "'f tenv \<Rightarrow> 'f heap \<Rightarrow> 'f node \<Rightarrow> bool cres option" where
  "SCSisConstantZero E H arg_node =
     bindO (match_const E H skip_both arg_node) (test_const (\<lambda>k. COisZero (te_fops E) k True))"

definition SCSisConstantNonZero :: "'f tenv \<Rightarrow> 'f heap \<Rightarrow> 'f node \<Rightarrow> bool cres option" where
  "SCSisConstantNonZero E H arg_node =
     bindO (match_const E H skip_both arg_node) (test_const (\<lambda>k. notR (COisZero (te_fops E) k True)))"

definition SCSisConstantOne :: "'f tenv \<Rightarrow> 'f heap \<Rightarrow> 'f node \<Rightarrow> bool cres option" where
  "SCSisConstantOne E H prfarg =
     bindO (match_const E H skip_both prfarg) (test_const (\<lambda>k. COisOne (te_fops E) k True))"

definition SCSisConstantTrue :: "'f tenv \<Rightarrow> 'f heap \<Rightarrow> 'f node \<Rightarrow> bool cres option" where
  "SCSisConstantTrue E H arg_node =
     bindO (match_const E H skip_both arg_node) (test_const (\<lambda>k. COisTrue (te_fops E) k True))"

definition SCSisConstantFalse :: "'f tenv \<Rightarrow> 'f heap \<Rightarrow> 'f node \<Rightarrow> bool cres option" where
  "SCSisConstantFalse E H prfarg =
     bindO (match_const E H skip_both prfarg) (test_const (\<lambda>k. COisFalse (te_fops E) k True))"

subsection \<open>Equality of arguments\<close>

text \<open>
  The ranges with one element: the upper bound is the lower bound plus one.  The matches share the
  variable \<open>con\<close>, which a successful match overwrites.
\<close>

definition isGenwidth1Partition :: "'f tenv \<Rightarrow> 'f heap \<Rightarrow> 'f node \<Rightarrow> bool cres option" where
  "isGenwidth1Partition E H arg =
     bindRO (avis_of H arg) (\<lambda>a. case (AVIS_MIN a, AVIS_MAX a) of
       (Some amin, Some amax) \<Rightarrow>
         (let pat = (\<lambda>p. PMprf [PMAisPrf (F_bin p SxS)] [PMvar [PMAisVar ''amax''] [], PMconst [PMAgetVal ''con'']]);
              is_const = (\<lambda>v (z, b). if \<not> z then Inr False else case b_con b ''con'' of
                 None \<Rightarrow> Inl NullDeref | Some c \<Rightarrow> bindR (COconst2Int c) (\<lambda>i. Inr (i = v)));
              b0 = set_node ''amax'' amax no_binds in
          orO (orO (bindO (PMmatchFlat E H (pat P_add) amin b0) (is_const (- 1)))
                 (bindO (PMmatchFlat E H (pat P_sub) amin b0) (is_const 1)))
            (bindOO (match_const E H PMMflat amin) (\<lambda>c. case c of
               None \<Rightarrow> retO False
             | Some k \<Rightarrow>
                 bindRO (COmakeConstantFromInt 1) (\<lambda>cone.
                 bindRO (COadd (te_fops E) cone k) (\<lambda>consum.
                 bindO (PMmatchFlat E H (PMconst [PMAisVal ''consum'']) amax
                          (set_con ''consum'' (Some consum) no_binds)) (\<lambda>(z, b). Inr z))))))
     | _ \<Rightarrow> retO False)"

definition isMatchGenwidth1Partition :: "'f tenv \<Rightarrow> 'f heap \<Rightarrow> 'f node \<Rightarrow> 'f node \<Rightarrow> bool cres option" where
  "isMatchGenwidth1Partition E H arg1 arg2 =
     bindRO (avis_of H arg1) (\<lambda>a. case AVIS_MIN a of
       None \<Rightarrow> retO False
     | Some amin \<Rightarrow>
         bindOO (PMmatchFlat E H (PMvar [PMAisVar ''arg2''] []) amin (set_node ''arg2'' arg2 no_binds))
           (\<lambda>(res, b). if res then isGenwidth1Partition E H arg1 else retO False))"

text \<open>Two nodes are the same after following their definitions.\<close>

definition match_same :: "'f tenv \<Rightarrow> 'f heap \<Rightarrow> pm_mode \<Rightarrow> 'f node \<Rightarrow> 'f node \<Rightarrow> bool cres option" where
  "match_same E H mode a1 a2 =
     bindOO (PMmatch E H mode (PMany [PMAgetNodeOrAvis ''node_ptr'']) a1 no_binds) (\<lambda>(z, b).
       if \<not> z then retO False
       else bindO (PMmatch E H mode (PMany [PMAisNodeOrAvis ''node_ptr'']) a2 b) (\<lambda>(z, b). Inr z))"

definition SCSisMatchPrfargs :: "'f tenv \<Rightarrow> 'f heap \<Rightarrow> 'f node \<Rightarrow> bool cres option" where
  "SCSisMatchPrfargs E H arg_node =
     bindRO (PRF_ARG1 arg_node) (\<lambda>a1. bindRO (PRF_ARG2 arg_node) (\<lambda>a2.
       orO (match_same E H skip_both a1 a2)
         (orO (isMatchGenwidth1Partition E H a1 a2) (isMatchGenwidth1Partition E H a2 a1))))"

definition opt_const :: "'f tenv \<Rightarrow> 'f heap \<Rightarrow> 'f node option \<Rightarrow> 'f const option cres option" where
  "opt_const E H n = (case n of None \<Rightarrow> retO None | Some n \<Rightarrow> match_const E H skip_both n)"

definition rel_const ::
  "('f const \<Rightarrow> 'f const \<Rightarrow> 'f const cres) \<Rightarrow> 'f tenv \<Rightarrow> 'f const option \<Rightarrow> 'f const option \<Rightarrow> bool cres" where
  "rel_const f E a b = (case (a, b) of
     (Some a, Some b) \<Rightarrow> bindR (f a b) (\<lambda>r. COisTrue (te_fops E) r True)
   | _ \<Rightarrow> Inr False)"

definition isNotEqual :: "'f tenv \<Rightarrow> 'f heap \<Rightarrow> 'f node \<Rightarrow> 'f node \<Rightarrow> bool cres option" where
  "isNotEqual E H arg1 arg2 =
     bindRO (avis_of H arg1) (\<lambda>avis1.
     orO (case AVIS_MAX avis1 of None \<Rightarrow> retO False | Some m \<Rightarrow> match_same E H skip_both m arg2)
       (bindOO (opt_const E H (AVIS_MIN avis1)) (\<lambda>con1min.
        bindOO (opt_const E H (AVIS_MAX avis1)) (\<lambda>con1max.
        bindO (match_const E H skip_both arg2) (\<lambda>con2.
          orR (rel_const (COgt (te_fops E)) E con1min con2)
            (rel_const (COle (te_fops E)) E con1max con2))))))"

definition isNotEqualPrf :: "'f tenv \<Rightarrow> 'f heap \<Rightarrow> 'f node \<Rightarrow> bool cres option" where
  "isNotEqualPrf E H arg_node =
     bindRO (PRF_ARG1 arg_node) (\<lambda>a1. bindRO (PRF_ARG2 arg_node) (\<lambda>a2.
       orO (isNotEqual E H a1 a2) (isNotEqual E H a2 a1)))"

definition isMatchPrfShapes :: "'f heap \<Rightarrow> 'f node \<Rightarrow> bool cres" where
  "isMatchPrfShapes H arg_node =
     bindR (bindR (PRF_ARG1 arg_node) (ID_NTYPE H)) (\<lambda>type1.
     bindR (bindR (PRF_ARG2 arg_node) (ID_NTYPE H)) (\<lambda>type2.
       andR (TUshapeKnown type1) (andR (TUshapeKnown type2) (TUeqShapes type1 type2))))"

text \<open>Both \<open>MatchNegV\<close> and \<open>MatchNegS\<close>.\<close>

definition match_neg :: "sv \<Rightarrow> 'f tenv \<Rightarrow> 'f heap \<Rightarrow> 'f node \<Rightarrow> 'f node \<Rightarrow> bool cres option" where
  "match_neg v E H arg1 arg2 =
     bindOO (PMmatchFlatSkipExtremaAndGuards E H (PMvar [PMAgetNode ''arg1p''] []) arg1 no_binds) (\<lambda>(z, b).
       if \<not> z then retO False
       else bindO (PMmatchFlatSkipExtremaAndGuards E H
                     (PMprf [PMAisPrf (F_un P_neg v)] [PMvar [PMAisVar ''arg1p''] []]) arg2 b) (\<lambda>(z, b). Inr z))"

definition MatchNegV :: "'f tenv \<Rightarrow> 'f heap \<Rightarrow> 'f node \<Rightarrow> 'f node \<Rightarrow> bool cres option" where
  "MatchNegV = match_neg V_arg"

definition MatchNegS :: "'f tenv \<Rightarrow> 'f heap \<Rightarrow> 'f node \<Rightarrow> 'f node \<Rightarrow> bool cres option" where
  "MatchNegS = match_neg S_arg"

subsection \<open>Sums with one of the arguments\<close>

definition isVal1IsSumOfVal2 ::
  "'f tenv \<Rightarrow> 'f heap \<Rightarrow> 'f node \<Rightarrow> 'f node \<Rightarrow> bool \<Rightarrow> bool cres option" where
  "isVal1IsSumOfVal2 E H arg1 arg2 signum =
     (let patadd1 = PMprf [PMAisPrf (F_bin P_add SxS)] [PMvar [PMAisVar ''arg1''] [], PMvar [PMAgetNode ''v2''] []];
          patadd2 = PMprf [PMAisPrf (F_bin P_add SxS)] [PMvar [PMAgetNode ''v2''] [], PMvar [PMAisVar ''arg1''] []];
          b0 = set_node ''arg1'' arg1 no_binds in
      ifO (andO (SCSisNonNegative E H arg1) (SCSisNonNegative E H arg2))
        (bindOO (PMmatchFlat E H patadd1 arg2 b0) (\<lambda>(z, b).
         bindOO (if z then retO (z, b) else PMmatchFlat E H patadd2 arg2 b) (\<lambda>(z, b).
           if \<not> z then retO False
           else bindRO (bound_node ''v2'' b) (\<lambda>v2.
                  if signum then SCSisNonNegative E H v2 else SCSisNegative E H v2))))
        (retO False))"

text \<open>The function, as a member of its family, and the other argument.\<close>

definition matchesDyadic ::
  "pattern list \<Rightarrow> string \<Rightarrow> string \<Rightarrow> 'f tenv \<Rightarrow> 'f heap \<Rightarrow> 'f node \<Rightarrow> 'f node \<Rightarrow> (prf_t \<times> 'f node) option cres option" where
  "matchesDyadic pats given other E H expr arg =
     bindO (PMmatchFlatSkipExtrema E H (PMprf [PMAgetPrf ''fun''] pats) expr (set_node given arg no_binds)) (\<lambda>(z, b).
       if \<not> z then Inr None
       else case (b_prf b ''fun'', b_node b other) of
              (Some f, Some y) \<Rightarrow> Inr (Some (TULSgetPrfFamilyName f, y))
            | _ \<Rightarrow> Inl Uninitialised)"

definition matchesDyadicWithLeftArg ::
  "'f tenv \<Rightarrow> 'f heap \<Rightarrow> 'f node \<Rightarrow> 'f node \<Rightarrow> (prf_t \<times> 'f node) option cres option" where
  "matchesDyadicWithLeftArg =
     matchesDyadic [PMvar [PMAisVar ''arg1''] [], PMvar [PMAgetNode ''arg2''] []] ''arg1'' ''arg2''"

definition matchesDyadicWithRightArg ::
  "'f tenv \<Rightarrow> 'f heap \<Rightarrow> 'f node \<Rightarrow> 'f node \<Rightarrow> (prf_t \<times> 'f node) option cres option" where
  "matchesDyadicWithRightArg =
     matchesDyadic [PMvar [PMAgetNode ''arg1''] [], PMvar [PMAisVar ''arg2''] []] ''arg2'' ''arg1''"

text \<open>The last component is \<open>arg_is_left\<close>.\<close>

definition matchesDyadicWithGivenArg ::
  "'f tenv \<Rightarrow> 'f heap \<Rightarrow> 'f node \<Rightarrow> 'f node \<Rightarrow> (prf_t \<times> 'f node \<times> bool) option cres option" where
  "matchesDyadicWithGivenArg E H expr arg =
     bindOO (matchesDyadicWithLeftArg E H expr arg) (\<lambda>l. case l of
       Some (f, y) \<Rightarrow> retO (Some (f, y, True))
     | None \<Rightarrow> bindO (matchesDyadicWithRightArg E H expr arg) (\<lambda>r. case r of
         Some (f, y) \<Rightarrow> Inr (Some (f, y, False))
       | None \<Rightarrow> Inr None))"

abbreviation F_add_SxS :: prf_t where "F_add_SxS \<equiv> F_bin P_add SxS"
abbreviation F_sub_SxS :: prf_t where "F_sub_SxS \<equiv> F_bin P_sub SxS"
abbreviation F_min_SxS :: prf_t where "F_min_SxS \<equiv> F_bin P_min SxS"
abbreviation F_max_SxS :: prf_t where "F_max_SxS \<equiv> F_bin P_max SxS"
abbreviation F_lt_SxS :: prf_t where "F_lt_SxS \<equiv> F_bin P_lt SxS"
abbreviation F_le_SxS :: prf_t where "F_le_SxS \<equiv> F_bin P_le SxS"
abbreviation F_ge_SxS :: prf_t where "F_ge_SxS \<equiv> F_bin P_ge SxS"
abbreviation F_gt_SxS :: prf_t where "F_gt_SxS \<equiv> F_bin P_gt SxS"

definition is_fun :: "prf_t \<Rightarrow> prf_t \<Rightarrow> bool cres option \<Rightarrow> bool cres option" where
  "is_fun f g b = (if f = g then b else retO False)"

definition dyadic_case ::
  "bool cres option \<Rightarrow> bool cres option \<Rightarrow> bool option cres option" where
  "dyadic_case yes no = ifO yes (retO (Some True)) (ifO no (retO (Some False)) (retO None))"

text \<open>The results of the decisions: \<open>None\<close> if \<open>can\<close> is false, and the value of \<open>*result\<close>.\<close>

definition canOptLEOnDyadicFn :: "'f tenv \<Rightarrow> 'f heap \<Rightarrow> 'f node \<Rightarrow> 'f node \<Rightarrow> bool option cres option" where
  "canOptLEOnDyadicFn E H arg1 arg2 =
     bindOO (matchesDyadicWithGivenArg E H arg1 arg2) (\<lambda>m. case m of
       Some (f, y, is_left) \<Rightarrow>
         dyadic_case
           (orO (is_fun f F_min_SxS (retO True))
             (orO (is_fun f F_add_SxS (SCSisNegative E H y))
               (is_fun f F_sub_SxS (andO (SCSisNonNegative E H y) (retO is_left)))))
           (is_fun f F_add_SxS (SCSisPositive E H y))
     | None \<Rightarrow>
     bindOO (matchesDyadicWithGivenArg E H arg2 arg1) (\<lambda>m. case m of
       Some (f, y, is_left) \<Rightarrow>
         dyadic_case
           (orO (is_fun f F_max_SxS (retO True)) (is_fun f F_add_SxS (SCSisNonNegative E H y)))
           (orO (is_fun f F_add_SxS (SCSisNegative E H y))
             (is_fun f F_sub_SxS (andO (SCSisPositive E H y) (retO is_left))))
     | None \<Rightarrow> retO None))"

definition SCScanOptGEOnDyadicFn :: "'f tenv \<Rightarrow> 'f heap \<Rightarrow> 'f node \<Rightarrow> 'f node \<Rightarrow> bool option cres option" where
  "SCScanOptGEOnDyadicFn E H arg1 arg2 =
     bindOO (matchesDyadicWithGivenArg E H arg1 arg2) (\<lambda>m. case m of
       Some (f, y, is_left) \<Rightarrow>
         dyadic_case
           (orO (is_fun f F_max_SxS (retO True)) (is_fun f F_add_SxS (SCSisNonNegative E H y)))
           (orO (is_fun f F_add_SxS (SCSisNegative E H y))
             (is_fun f F_sub_SxS (andO (SCSisPositive E H y) (retO is_left))))
     | None \<Rightarrow>
     bindOO (matchesDyadicWithGivenArg E H arg2 arg1) (\<lambda>m. case m of
       Some (f, y, is_left) \<Rightarrow>
         dyadic_case
           (orO (is_fun f F_min_SxS (retO True))
             (orO (is_fun f F_add_SxS (SCSisNegative E H y))
               (is_fun f F_sub_SxS (andO (SCSisNonNegative E H y) (retO is_left)))))
           (is_fun f F_add_SxS (SCSisPositive E H y))
     | None \<Rightarrow> retO None))"

definition canOptGTOnDyadicFn :: "'f tenv \<Rightarrow> 'f heap \<Rightarrow> 'f node \<Rightarrow> 'f node \<Rightarrow> bool option cres option" where
  "canOptGTOnDyadicFn E H arg1 arg2 =
     bindO (canOptLEOnDyadicFn E H arg1 arg2) (\<lambda>can. Inr (map_option Not can))"

definition canOptLTOnDyadicFn :: "'f tenv \<Rightarrow> 'f heap \<Rightarrow> 'f node \<Rightarrow> 'f node \<Rightarrow> bool option cres option" where
  "canOptLTOnDyadicFn E H arg1 arg2 =
     bindO (SCScanOptGEOnDyadicFn E H arg1 arg2) (\<lambda>can. Inr (map_option Not can))"

definition SCScanOptMAXOnDyadicFn :: "'f tenv \<Rightarrow> 'f heap \<Rightarrow> 'f node \<Rightarrow> 'f node \<Rightarrow> bool option cres option" where
  "SCScanOptMAXOnDyadicFn E H arg1 arg2 =
     bindOO (matchesDyadicWithGivenArg E H arg1 arg2) (\<lambda>m. case m of
       Some (f, y, is_left) \<Rightarrow> retO (if f = F_min_SxS then Some False else None)
     | None \<Rightarrow>
     bindO (matchesDyadicWithGivenArg E H arg2 arg1) (\<lambda>m. case m of
       Some (f, y, is_left) \<Rightarrow> Inr (if f = F_min_SxS then Some True else None)
     | None \<Rightarrow> Inr None))"

definition SCScanOptMINOnDyadicFn :: "'f tenv \<Rightarrow> 'f heap \<Rightarrow> 'f node \<Rightarrow> 'f node \<Rightarrow> bool option cres option" where
  "SCScanOptMINOnDyadicFn E H arg1 arg2 =
     bindOO (matchesDyadicWithGivenArg E H arg1 arg2) (\<lambda>m. case m of
       Some (f, y, is_left) \<Rightarrow> retO (if f = F_max_SxS then Some False else None)
     | None \<Rightarrow>
     bindO (matchesDyadicWithGivenArg E H arg2 arg1) (\<lambda>m. case m of
       Some (f, y, is_left) \<Rightarrow> Inr (if f = F_max_SxS then Some True else None)
     | None \<Rightarrow> Inr None))"

subsection \<open>Comparisons decided by bounds\<close>

definition isEqExtrema :: "'f tenv \<Rightarrow> 'f heap \<Rightarrow> 'f node option \<Rightarrow> 'f node \<Rightarrow> bool cres option" where
  "isEqExtrema E H arg_node1 arg_node2 = (case arg_node1 of
     None \<Rightarrow> retO False
   | Some n \<Rightarrow>
       bindRO (bindR (ID_NTYPE H n) (\<lambda>t1. bindR (ID_NTYPE H arg_node2) (TUeqShapes t1))) (\<lambda>eq.
         if \<not> eq then retO False
         else bindO (PMmatchFlatSkipExtrema E H (PMvar [PMAisVar ''arg_node1''] []) arg_node2
                       (set_node ''arg_node1'' n no_binds)) (\<lambda>(z, b). Inr z)))"

definition relfn :: "prf_t \<Rightarrow> 'f fops \<Rightarrow> 'f const \<Rightarrow> 'f const \<Rightarrow> 'f const cres" where
  "relfn f F a b =
     (if f = F_lt_SxS then COlt F a b else if f = F_le_SxS then COle F a b
      else if f = F_ge_SxS then COge F a b else if f = F_gt_SxS then COgt F a b
      else Inl (Unreachable ''fun confusion''))"

definition some_const :: "'f const option cres \<Rightarrow> 'f const cres" where
  "some_const r = bindR r (\<lambda>c. case c of None \<Rightarrow> Inl NullDeref | Some k \<Rightarrow> Inr k)"

definition one_of :: "'f fops \<Rightarrow> simpletype \<Rightarrow> 'f const cres" where
  "one_of F tp = bindR (SHmakeShape 0) (\<lambda>s. some_const (COmakeOne F tp s))"

definition zero_of :: "'f fops \<Rightarrow> simpletype \<Rightarrow> 'f const cres" where
  "zero_of F tp = bindR (SHmakeShape 0) (\<lambda>s. some_const (COmakeZero F tp s))"

text \<open>
  The two constants to be compared: if the bound is the other argument itself, both are one,
  otherwise the bound and the other argument have to be constant.
\<close>

definition relat_consts ::
  "'f tenv \<Rightarrow> 'f heap \<Rightarrow> simpletype \<Rightarrow> 'f node option \<Rightarrow> 'f node \<Rightarrow> bool \<Rightarrow> ('f const option \<times> 'f const option) cres option" where
  "relat_consts E H tp arg1ex prfarg2 minmax =
     ifO (isEqExtrema E H arg1ex prfarg2)
       (Some (bindR (one_of (te_fops E) tp) (\<lambda>c1. bindR (one_of (te_fops E) tp) (\<lambda>c2. Inr (Some c1, Some c2)))))
       (bindOO (SAACFchaseMinMax E H minmax arg1ex) (\<lambda>c1.
        bindO (COaST2Constant E H prfarg2) (\<lambda>c2. Inr (c1, c2))))"

definition relatHelper ::
  "'f tenv \<Rightarrow> 'f heap \<Rightarrow> 'f node \<Rightarrow> 'f node \<Rightarrow> prf_t \<Rightarrow> bool \<Rightarrow> bool \<Rightarrow> 'f node option cres option" where
  "relatHelper E H prfarg1 prfarg2 fn minmax tf =
     (let F = te_fops E in
      bindOO (SCSgetBasetypeOfExpr E H prfarg1) (\<lambda>tp.
        if \<not> is_id prfarg1 then retO None
        else bindRO (avis_of H prfarg1) (\<lambda>a.
             bindOO (relat_consts E H tp (if minmax then AVIS_MAX a else AVIS_MIN a) prfarg2 minmax) (\<lambda>(c1, c2).
             bindOO (case (c1, c2) of
                       (Some arg1c, Some arg2c) \<Rightarrow>
                         Some (bindR (if minmax then one_of F tp else zero_of F tp) (\<lambda>adj.
                               bindR (COsub F arg1c adj) (\<lambda>arg1cp.
                               bindR (relfn fn F arg1cp arg2c) (\<lambda>b. COisTrue F b True))))
                     | _ \<Rightarrow> retO False) (\<lambda>mat.
               if \<not> mat then retO None
               else bindRO (TUisVector (AVIS_TYPE a)) (\<lambda>vec.
                      (if tf then SCSmakeTrue E H else SCSmakeFalse E H) (if vec then prfarg1 else prfarg2)))))))"

text \<open>
  The tables map a comparison to the one with the arguments exchanged (\<open>complementfnb\<close>), to its
  negation (\<open>complementfnc\<close>) and to the negation with exchanged arguments (\<open>complementfnd\<close>).
\<close>

definition complementfnb :: "prf_t \<Rightarrow> prf_t" where
  "complementfnb f = (if f = F_lt_SxS then F_gt_SxS else if f = F_le_SxS then F_ge_SxS
                      else if f = F_ge_SxS then F_le_SxS else F_lt_SxS)"

definition complementfnc :: "prf_t \<Rightarrow> prf_t" where
  "complementfnc f = (if f = F_lt_SxS then F_ge_SxS else if f = F_le_SxS then F_gt_SxS
                      else if f = F_ge_SxS then F_lt_SxS else F_le_SxS)"

definition complementfnd :: "prf_t \<Rightarrow> prf_t" where
  "complementfnd f = (if f = F_lt_SxS then F_le_SxS else if f = F_le_SxS then F_lt_SxS
                      else if f = F_ge_SxS then F_gt_SxS else F_ge_SxS)"

definition minmaxtab :: "prf_t \<Rightarrow> bool" where
  "minmaxtab f = (f = F_lt_SxS \<or> f = F_le_SxS)"

text \<open>The last parameter is the option \<open>global.optimize.dorelcf\<close>.\<close>

definition SAACFonRelationalsWithExtrema ::
  "'f tenv \<Rightarrow> 'f heap \<Rightarrow> bool \<Rightarrow> 'f node \<Rightarrow> 'f node \<Rightarrow> prf_t \<Rightarrow> 'f node option cres option" where
  "SAACFonRelationalsWithExtrema E H dorelcf prfarg1 prfarg2 fn =
     (let fna = TULSgetPrfFamilyName fn; minmax = minmaxtab fna in
      bindOO (if fna \<in> {F_lt_SxS, F_le_SxS, F_ge_SxS, F_gt_SxS}
              then elseO (relatHelper E H prfarg1 prfarg2 fna minmax True)
                    (elseO (relatHelper E H prfarg2 prfarg1 (complementfnb fna) (\<not> minmax) True)
                     (elseO (relatHelper E H prfarg1 prfarg2 (complementfnc fna) (\<not> minmax) False)
                       (relatHelper E H prfarg2 prfarg1 (complementfnd fna) minmax False)))
              else retO None) (\<lambda>res. retO (if dorelcf then res else None)))"

end
