(* ===== verification/Compare_Tree.thy ===== *)
theory Compare_Tree
  imports Syntax_Tree
begin

text \<open>
  The literal comparison of two expressions, \<open>tree/compare_tree.c\<close>, which common subexpression
  elimination and the simplification of guards use.  The flag of the traversal, \<open>CMPT_EQ\<close> or
  \<open>CMPT_NEQ\<close>, is a boolean that is handed on; \<open>CMPTnodeType\<close> runs before the function of a node.
  The alternatives \<open>AVIS_ALT\<close> belong to the comparison of assignments.
\<close>

text \<open>The kinds of nodes, \<open>NODE_TYPE\<close>.\<close>

datatype nodetype =
    NK_id | NK_avis | NK_array | NK_prf | NK_type | NK_str | NK_other | NK_exprs
  | NK_num | NK_numbyte | NK_numshort | NK_numint | NK_numlong | NK_numlonglong | NK_numubyte | NK_numushort
  | NK_numuint | NK_numulong | NK_numulonglong | NK_double | NK_float | NK_floatvec | NK_bool | NK_char

fun LIT_NODE_TYPE :: "'f lit \<Rightarrow> nodetype" where
  "LIT_NODE_TYPE (NUM x) = NK_num"
| "LIT_NODE_TYPE (NUMBYTE x) = NK_numbyte"
| "LIT_NODE_TYPE (NUMSHORT x) = NK_numshort"
| "LIT_NODE_TYPE (NUMINT x) = NK_numint"
| "LIT_NODE_TYPE (NUMLONG x) = NK_numlong"
| "LIT_NODE_TYPE (NUMLONGLONG x) = NK_numlonglong"
| "LIT_NODE_TYPE (NUMUBYTE x) = NK_numubyte"
| "LIT_NODE_TYPE (NUMUSHORT x) = NK_numushort"
| "LIT_NODE_TYPE (NUMUINT x) = NK_numuint"
| "LIT_NODE_TYPE (NUMULONG x) = NK_numulong"
| "LIT_NODE_TYPE (NUMULONGLONG x) = NK_numulonglong"
| "LIT_NODE_TYPE (DOUBLE x) = NK_double"
| "LIT_NODE_TYPE (FLOAT x) = NK_float"
| "LIT_NODE_TYPE (FLOATVEC x) = NK_floatvec"
| "LIT_NODE_TYPE (BOOL x) = NK_bool"
| "LIT_NODE_TYPE (CHARLIT x) = NK_char"

fun NODE_TYPE :: "'f node \<Rightarrow> nodetype" where
  "NODE_TYPE (N_id v) = NK_id"
| "NODE_TYPE (N_avis v) = NK_avis"
| "NODE_TYPE (N_lit a k) = LIT_NODE_TYPE k"
| "NODE_TYPE (N_array a t s es) = NK_array"
| "NODE_TYPE (N_prf a p n es) = NK_prf"
| "NODE_TYPE (N_type a t) = NK_type"
| "NODE_TYPE (N_str a s) = NK_str"
| "NODE_TYPE (N_other a) = NK_other"
| "NODE_TYPE (N_exprs es) = NK_exprs"

definition CMPTnodeType :: "bool \<Rightarrow> 'f node \<Rightarrow> 'f node \<Rightarrow> bool" where
  "CMPTnodeType flag n m \<longleftrightarrow> flag \<and> NODE_TYPE n = NODE_TYPE m"

text \<open>The condition is looked at only while the trees are equal.\<close>

definition CMPT_TEST :: "bool \<Rightarrow> bool cres \<Rightarrow> bool cres" where
  "CMPT_TEST flag testcond = (if flag then testcond else Inr False)"

text \<open>\<open>CMPTnum\<close> to \<open>CMPTdouble\<close>; vectors of floats are compared byte by byte.\<close>

definition lit_equal :: "'f fops \<Rightarrow> 'f lit \<Rightarrow> 'f lit \<Rightarrow> bool" where
  "lit_equal F k l = (case (k, l) of
     (DOUBLE x, DOUBLE y) \<Rightarrow> f_eq F x y
   | (FLOAT x, FLOAT y) \<Rightarrow> f_eq F x y
   | _ \<Rightarrow> k = l)"

fun CMPTlit :: "'f fops \<Rightarrow> bool \<Rightarrow> 'f lit \<Rightarrow> 'f node \<Rightarrow> bool cres" where
  "CMPTlit F flag k (N_lit b l) = CMPT_TEST flag (Inr (lit_equal F k l))"
| "CMPTlit F flag k m = CMPT_TEST flag (Inl (AssertFail ''NUM_VAL''))"

fun CMPTstr :: "bool \<Rightarrow> string \<Rightarrow> 'f node \<Rightarrow> bool cres" where
  "CMPTstr flag s m = CMPT_TEST flag (bindR (STR_STRING m) (\<lambda>r. Inr (s = r)))"

fun CMPTid :: "bool \<Rightarrow> nat \<Rightarrow> 'f node \<Rightarrow> bool cres" where
  "CMPTid flag v m = (if flag then bindR (ID_AVIS m) (\<lambda>w. CMPT_TEST flag (Inr (v = w))) else Inr False)"

fun TYPE_TYPE :: "'f node \<Rightarrow> 'f ntype cres" where
  "TYPE_TYPE (N_type a t) = Inr t"
| "TYPE_TYPE n = Inl (AssertFail ''TYPE_TYPE'')"

fun ARRAY_ELEMTYPE :: "'f node \<Rightarrow> 'f ntype cres" where
  "ARRAY_ELEMTYPE (N_array a t s es) = Inr t"
| "ARRAY_ELEMTYPE n = Inl (AssertFail ''ARRAY_ELEMTYPE'')"

text \<open>The sons of the node of the second tree, which \<open>TravLocal\<close> looks at when the kinds agree.\<close>

fun node_sons :: "'f node \<Rightarrow> 'f node list" where
  "node_sons (N_array a t s es) = es"
| "node_sons (N_prf a p n es) = es"
| "node_sons (N_exprs es) = es"
| "node_sons n = []"

text \<open>
  Arrays with a known element type would be compared element by element; but the loop asks for the
  elements of a node of their chain, which is no array.  The traversal of other expressions
  (\<open>N_other\<close>) is not modelled.
\<close>

fun cmpt_node :: "'f tenv \<Rightarrow> bool \<Rightarrow> 'f node \<Rightarrow> 'f node \<Rightarrow> bool cres"
  and TravLocal :: "'f tenv \<Rightarrow> bool \<Rightarrow> 'f node list \<Rightarrow> 'f node list \<Rightarrow> bool cres" where
  "cmpt_node E flag (N_id v) m = CMPTid (CMPTnodeType flag (N_id v) m) v m"
| "cmpt_node E flag (N_avis v) m = Inr False"
| "cmpt_node E flag (N_lit a k) m = CMPTlit (te_fops E) (CMPTnodeType flag (N_lit a k) m) k m"
| "cmpt_node E flag (N_str a s) m = CMPTstr (CMPTnodeType flag (N_str a s) m) s m"
| "cmpt_node E flag (N_type a t) m =
     CMPT_TEST (CMPTnodeType flag (N_type a t) m) (bindR (TYPE_TYPE m) (\<lambda>u.
       bindR (TYcmpTypes E t u) (\<lambda>c. Inr (c = TY_eq))))"
| "cmpt_node E flag (N_prf a p n es) m =
     bindR (CMPT_TEST (CMPTnodeType flag (N_prf a p n es) m) (bindR (PRF_PRF m) (\<lambda>q. Inr (p = q)))) (\<lambda>flag.
       TravLocal E flag es (node_sons m))"
| "cmpt_node E flag (N_array a t s es) m =
     bindR (CMPT_TEST (CMPTnodeType flag (N_array a t s es) m)
       (andR (bindR (ARRAY_ELEMTYPE m) (TYeqTypes E t))
             (bindR (ARRAY_FRAMESHAPE m) (SHcompareShapes s)))) (\<lambda>flag.
     ifR (andR (TUisScalar t) (andR (TYisAKV t) (bindR (ARRAY_ELEMTYPE m) TYisAKV)))
       (if es = [] then Inr flag else Inl (AssertFail ''ARRAY_AELEMS''))
       (TravLocal E flag es (node_sons m)))"
| "cmpt_node E flag (N_exprs es) m = TravLocal E (CMPTnodeType flag (N_exprs es) m) es (node_sons m)"
| "cmpt_node E flag (N_other a) m = Inl (Unreachable ''N_other'')"
| "TravLocal E flag [] fs = Inr (flag \<and> fs = [])"
| "TravLocal E flag (e # es) fs =
     (if flag
      then (case fs of
              [] \<Rightarrow> Inr False
            | f # gs \<Rightarrow> bindR (cmpt_node E True e f) (\<lambda>flag. TravLocal E flag es gs))
      else Inr False)"

definition CMPTdoCompareTree :: "'f tenv \<Rightarrow> 'f node \<Rightarrow> 'f node \<Rightarrow> bool cres" where
  "CMPTdoCompareTree E tree1 tree2 = cmpt_node E True tree1 tree2"

end
