(* ===== verification/SCS_Prf.thy ===== *)
theory SCS_Prf
  imports SCS_Tests Compare_Tree
begin

text \<open>
  Symbolic constant simplification, \<open>stdopt/symbolic_constant_simplification.c\<close>, second part: the
  functions \<open>SCSprf_\<close> that replace an application of a primitive, and the table of \<open>prf_info.mac\<close> that
  selects them.  \<open>None\<close> as the result is the null pointer: the application stays.

  The functions that generate assignments take and return the state of the traversal.
\<close>

subsection \<open>Building blocks\<close>

text \<open>\<open>if (c) res = n;\<close>\<close>

definition whenO :: "bool cres option \<Rightarrow> 'a option cres option \<Rightarrow> 'a option cres option" where
  "whenO c r = ifO c r (retO None)"

abbreviation dup_of :: "'f node \<Rightarrow> 'f node option cres option" where
  "dup_of n \<equiv> retO (Some (DUPdoDupNode n))"

definition prf_args2 :: "'f node \<Rightarrow> ('f node \<Rightarrow> 'f node \<Rightarrow> 'a cres option) \<Rightarrow> 'a cres option" where
  "prf_args2 arg_node f = bindRO (PRF_ARG1 arg_node) (\<lambda>a1. bindRO (PRF_ARG2 arg_node) (\<lambda>a2. f a1 a2))"

definition matched_node ::
  "'f tenv \<Rightarrow> 'f heap \<Rightarrow> pm_mode \<Rightarrow> pattern \<Rightarrow> string \<Rightarrow> 'f node \<Rightarrow> 'f node option cres option" where
  "matched_node E H mode pat x n =
     bindO (PMmatch E H mode pat n no_binds) (\<lambda>(z, b).
       if z then bindR (bound_node x b) (\<lambda>m. Inr (Some m)) else Inr None)"

text \<open>The vector that repeats a scalar, of the length of an array constructor.\<close>

definition scalar_extension ::
  "'f tenv \<Rightarrow> 'f heap \<Rightarrow> 'f node \<Rightarrow> 'f node \<Rightarrow> 'f node option cres option" where
  "scalar_extension E H vector scalar =
     bindOO (matched_node E H skip_both (PMarray [PMAgetNode ''arr''] [PMskip []]) ''arr'' vector) (\<lambda>m. case m of
       None \<Rightarrow> retO None
     | Some a \<Rightarrow> bindRO (ARRAY_FRAMESHAPE a) (\<lambda>s.
         bindO (SCSmakeVectorArray H s scalar) (\<lambda>r. Inr (Some r))))"

text \<open>The results of a check that is known to succeed.\<close>

definition checked_result :: "'f node \<Rightarrow> 'f node" where
  "checked_result n = N_exprs [DUPdoDupNode n, TBmakeBool True]"

abbreviation checked_if :: "bool cres option \<Rightarrow> 'f node \<Rightarrow> 'f node option cres option" where
  "checked_if c n \<equiv> whenO c (retO (Some (checked_result n)))"

subsection \<open>Addition and subtraction\<close>

definition SCSprf_add_SxS :: "'f tenv \<Rightarrow> 'f heap \<Rightarrow> 'f node \<Rightarrow> 'f node option cres option" where
  "SCSprf_add_SxS E H arg_node = prf_args2 arg_node (\<lambda>a1 a2.
     ifO (SCSisConstantZero E H a1) (dup_of a2)
       (ifO (SCSisConstantZero E H a2) (dup_of a1)
         (whenO (orO (MatchNegS E H a1 a2) (MatchNegS E H a2 a1)) (SCSmakeZero E H a1))))"

definition SCSprf_add_SxV :: "'f tenv \<Rightarrow> 'f heap \<Rightarrow> 'f node \<Rightarrow> 'f node option cres option" where
  "SCSprf_add_SxV E H arg_node = prf_args2 arg_node (\<lambda>a1 a2.
     ifO (SCSisConstantZero E H a1) (dup_of a2)
       (whenO (SCSisConstantZero E H a2) (scalar_extension E H a2 a1)))"

definition SCSprf_add_VxV :: "'f tenv \<Rightarrow> 'f heap \<Rightarrow> 'f node \<Rightarrow> 'f node option cres option" where
  "SCSprf_add_VxV E H arg_node = prf_args2 arg_node (\<lambda>a1 a2.
     ifO (orO (MatchNegV E H a1 a2) (MatchNegV E H a2 a1)) (SCSmakeZero E H a1)
       (ifO (SCSisConstantZero E H a2) (dup_of a1)
         (whenO (SCSisConstantZero E H a1) (dup_of a2))))"

definition SCSprf_add_VxS :: "'f tenv \<Rightarrow> 'f heap \<Rightarrow> 'f node \<Rightarrow> 'f node option cres option" where
  "SCSprf_add_VxS E H arg_node = prf_args2 arg_node (\<lambda>a1 a2.
     ifO (SCSisConstantZero E H a2) (dup_of a1)
       (whenO (SCSisConstantZero E H a1) (scalar_extension E H a1 a2)))"

definition SCSprf_sub_SxV :: "'f tenv \<Rightarrow> 'f heap \<Rightarrow> 'f node \<Rightarrow> 'f node option cres option" where
  "SCSprf_sub_SxV E H arg_node = prf_args2 arg_node (\<lambda>a1 a2.
     whenO (SCSisConstantZero E H a2) (scalar_extension E H a2 a1))"

definition SCSprf_sub :: "'f tenv \<Rightarrow> 'f heap \<Rightarrow> 'f node \<Rightarrow> 'f node option cres option" where
  "SCSprf_sub E H arg_node = prf_args2 arg_node (\<lambda>a1 a2.
     ifO (SCSisConstantZero E H a2) (dup_of a1)
       (whenO (SCSisMatchPrfargs E H arg_node) (SCSmakeZero E H a1)))"

definition SCSprf_sub_VxV :: "'f tenv \<Rightarrow> 'f heap \<Rightarrow> 'f node \<Rightarrow> 'f node option cres option" where
  "SCSprf_sub_VxV E H arg_node = prf_args2 arg_node (\<lambda>a1 a2.
     ifO (SCSisConstantZero E H a2) (dup_of a1)
       (whenO (SCSisMatchPrfargs E H arg_node) (SCSmakeZero E H a1)))"

text \<open>The functions of primitives that are not simplified.\<close>

definition SCSprf_none :: "'f tenv \<Rightarrow> 'f heap \<Rightarrow> 'f node \<Rightarrow> 'f node option cres option" where
  "SCSprf_none E H arg_node = retO None"

subsection \<open>Multiplication and division\<close>

definition SCSprf_mul_SxS :: "'f tenv \<Rightarrow> 'f heap \<Rightarrow> 'f node \<Rightarrow> 'f node option cres option" where
  "SCSprf_mul_SxS E H arg_node = prf_args2 arg_node (\<lambda>a1 a2.
     ifO (SCSisConstantOne E H a2) (dup_of a1)
       (ifO (SCSisConstantOne E H a1) (dup_of a2)
         (ifO (SCSisConstantZero E H a2) (SCSmakeZero E H a1)
           (whenO (SCSisConstantZero E H a1) (SCSmakeZero E H a2)))))"

definition SCSprf_mul_SxV :: "'f tenv \<Rightarrow> 'f heap \<Rightarrow> 'f node \<Rightarrow> 'f node option cres option" where
  "SCSprf_mul_SxV E H arg_node = prf_args2 arg_node (\<lambda>a1 a2.
     ifO (SCSisConstantOne E H a1) (dup_of a2)
       (ifO (SCSisConstantZero E H a1) (SCSmakeZero E H a2)
         (ifO (SCSisConstantZero E H a2) (dup_of a2)
           (whenO (SCSisConstantOne E H a2) (scalar_extension E H a2 a1)))))"

definition SCSprf_mul_VxS :: "'f tenv \<Rightarrow> 'f heap \<Rightarrow> 'f node \<Rightarrow> 'f node option cres option" where
  "SCSprf_mul_VxS E H arg_node = prf_args2 arg_node (\<lambda>a1 a2.
     ifO (SCSisConstantOne E H a2) (dup_of a1)
       (ifO (SCSisConstantZero E H a2) (SCSmakeZero E H a1)
         (ifO (SCSisConstantZero E H a1) (dup_of a1)
           (whenO (SCSisConstantOne E H a1) (scalar_extension E H a1 a2)))))"

definition SCSprf_mul_VxV :: "'f tenv \<Rightarrow> 'f heap \<Rightarrow> 'f node \<Rightarrow> 'f node option cres option" where
  "SCSprf_mul_VxV E H arg_node = prf_args2 arg_node (\<lambda>a1 a2.
     ifO (SCSisConstantOne E H a2) (dup_of a1)
       (ifO (SCSisConstantOne E H a1) (dup_of a2)
         (ifO (SCSisConstantZero E H a2) (SCSmakeZero E H a1)
           (whenO (SCSisConstantZero E H a1) (SCSmakeZero E H a2)))))"

definition SCSprf_div_SxX :: "'f tenv \<Rightarrow> 'f heap \<Rightarrow> 'f node \<Rightarrow> 'f node option cres option" where
  "SCSprf_div_SxX E H arg_node = prf_args2 arg_node (\<lambda>a1 a2.
     ifO (SCSisConstantZero E H a2)
       (Some (Inl (CompilerAbort ''SCSprf_div_SxX: Division by zero encountered'')))
       (whenO (SCSisConstantOne E H a2) (scalar_extension E H a2 a1)))"

definition SCSprf_div_VxV :: "'f tenv \<Rightarrow> 'f heap \<Rightarrow> 'f node \<Rightarrow> 'f node option cres option" where
  "SCSprf_div_VxV E H arg_node = prf_args2 arg_node (\<lambda>a1 a2.
     whenO (SCSisConstantOne E H a2) (dup_of a1))"

definition SCSprf_div_XxS :: "'f tenv \<Rightarrow> 'f heap \<Rightarrow> 'f node \<Rightarrow> 'f node option cres option" where
  "SCSprf_div_XxS E H arg_node = prf_args2 arg_node (\<lambda>a1 a2.
     ifO (SCSisConstantOne E H a2) (dup_of a1)
       (whenO (SCSisConstantZero E H a2)
         (Some (Inl (CompilerAbort ''SCSprf_div_XxS: Division by zero encountered'')))))"

subsection \<open>Logical operations\<close>

definition SCSprf_or_SxS :: "'f tenv \<Rightarrow> 'f heap \<Rightarrow> 'f node \<Rightarrow> 'f node option cres option" where
  "SCSprf_or_SxS E H arg_node = prf_args2 arg_node (\<lambda>a1 a2.
     ifO (SCSisConstantTrue E H a2) (SCSmakeTrue E H a1)
       (ifO (SCSisConstantTrue E H a1) (SCSmakeTrue E H a2)
         (ifO (SCSisConstantFalse E H a2) (dup_of a1)
           (ifO (SCSisConstantFalse E H a1) (dup_of a2)
             (whenO (SCSisMatchPrfargs E H arg_node) (dup_of a1))))))"

definition SCSprf_or_SxV :: "'f tenv \<Rightarrow> 'f heap \<Rightarrow> 'f node \<Rightarrow> 'f node option cres option" where
  "SCSprf_or_SxV E H arg_node = prf_args2 arg_node (\<lambda>a1 a2.
     ifO (SCSisConstantTrue E H a1) (SCSmakeTrue E H a2)
       (whenO (SCSisConstantFalse E H a1) (dup_of a2)))"

definition SCSprf_or_VxS :: "'f tenv \<Rightarrow> 'f heap \<Rightarrow> 'f node \<Rightarrow> 'f node option cres option" where
  "SCSprf_or_VxS E H arg_node = prf_args2 arg_node (\<lambda>a1 a2.
     ifO (SCSisConstantTrue E H a2) (SCSmakeTrue E H a1)
       (whenO (SCSisConstantFalse E H a2) (dup_of a1)))"

definition SCSprf_or_VxV :: "'f tenv \<Rightarrow> 'f heap \<Rightarrow> 'f node \<Rightarrow> 'f node option cres option" where
  "SCSprf_or_VxV E H arg_node = prf_args2 arg_node (\<lambda>a1 a2.
     ifO (SCSisMatchPrfargs E H arg_node) (dup_of a2)
       (whenO (Some (isMatchPrfShapes H arg_node)) (SCSprf_or_SxS E H arg_node)))"

definition SCSprf_and_SxS :: "'f tenv \<Rightarrow> 'f heap \<Rightarrow> 'f node \<Rightarrow> 'f node option cres option" where
  "SCSprf_and_SxS E H arg_node = prf_args2 arg_node (\<lambda>a1 a2.
     ifO (SCSisConstantTrue E H a2) (dup_of a1)
       (ifO (SCSisConstantTrue E H a1) (dup_of a2)
         (ifO (SCSisConstantFalse E H a2) (SCSmakeFalse E H a1)
           (ifO (SCSisConstantFalse E H a1) (SCSmakeFalse E H a2)
             (whenO (SCSisMatchPrfargs E H arg_node) (dup_of a1))))))"

definition SCSprf_and_SxV :: "'f tenv \<Rightarrow> 'f heap \<Rightarrow> 'f node \<Rightarrow> 'f node option cres option" where
  "SCSprf_and_SxV E H arg_node = prf_args2 arg_node (\<lambda>a1 a2.
     ifO (SCSisConstantTrue E H a1) (dup_of a2)
       (whenO (SCSisConstantFalse E H a1) (SCSmakeFalse E H a2)))"

definition SCSprf_and_VxS :: "'f tenv \<Rightarrow> 'f heap \<Rightarrow> 'f node \<Rightarrow> 'f node option cres option" where
  "SCSprf_and_VxS E H arg_node = prf_args2 arg_node (\<lambda>a1 a2.
     ifO (SCSisConstantTrue E H a2) (dup_of a1)
       (whenO (SCSisConstantFalse E H a2) (SCSmakeFalse E H a1)))"

definition SCSprf_and_VxV :: "'f tenv \<Rightarrow> 'f heap \<Rightarrow> 'f node \<Rightarrow> 'f node option cres option" where
  "SCSprf_and_VxV E H arg_node = prf_args2 arg_node (\<lambda>a1 a2.
     ifO (SCSisMatchPrfargs E H arg_node) (dup_of a2)
       (whenO (Some (isMatchPrfShapes H arg_node)) (SCSprf_and_SxS E H arg_node)))"

subsection \<open>Remainders\<close>

definition SCSprf_mod_SxS :: "'f tenv \<Rightarrow> 'f heap \<Rightarrow> bool \<Rightarrow> 'f node \<Rightarrow> 'f node option cres option" where
  "SCSprf_mod_SxS E H dorelcf arg_node = prf_args2 arg_node (\<lambda>a1 a2.
     whenO (andO (SCSisPositive E H a1) (SCSisPositive E H a2))
       (bindOO (SAACFonRelationalsWithExtrema E H dorelcf a1 a2 F_lt_SxS) (\<lambda>res.
          if res \<noteq> None then dup_of a1 else retO None)))"

definition SCSprf_mod :: "'f tenv \<Rightarrow> 'f heap \<Rightarrow> 'f node \<Rightarrow> 'f node option cres option" where
  "SCSprf_mod E H arg_node = Some (Inl (CompilerAbort ''Modulo using vectors is not supported!''))"

definition SCSprf_aplmod :: "'f tenv \<Rightarrow> 'f heap \<Rightarrow> 'f node \<Rightarrow> 'f node option cres option" where
  "SCSprf_aplmod E H arg_node = prf_args2 arg_node (\<lambda>a1 a2.
     whenO (SCSisConstantZero E H a2) (dup_of a1))"

definition SCSprf_aplmod_SxV :: "'f tenv \<Rightarrow> 'f heap \<Rightarrow> 'f node \<Rightarrow> 'f node option cres option" where
  "SCSprf_aplmod_SxV E H arg_node = prf_args2 arg_node (\<lambda>a1 a2.
     whenO (SCSisConstantZero E H a2)
       (bindRO (bindR (ID_NTYPE H a2) TYgetShape) (\<lambda>shp.
          bindO (SCSmakeVectorArray H shp a1) (\<lambda>r. Inr (Some r)))))"

subsection \<open>Conversions\<close>

text \<open>A conversion of an argument that has the type already: a literal of a kind, or an identifier.\<close>

definition SCSprf_coerce ::
  "nodetype set \<Rightarrow> simpletype \<Rightarrow> 'f tenv \<Rightarrow> 'f heap \<Rightarrow> 'f node \<Rightarrow> 'f node option cres option" where
  "SCSprf_coerce kinds base E H arg_node =
     bindRO (PRF_ARG1 arg_node) (\<lambda>a1.
       whenO (Some (orR (Inr (NODE_TYPE a1 \<in> kinds))
                      (andR (Inr (NODE_TYPE a1 = NK_id))
                        (bindR (bindR (bindR (ID_NTYPE H a1) TYgetScalar) TYgetSimpleType) (\<lambda>b. Inr (b = base))))))
         (dup_of a1))"

definition SCSprf_tobool_S :: "'f tenv \<Rightarrow> 'f heap \<Rightarrow> 'f node \<Rightarrow> 'f node option cres option" where
  "SCSprf_tobool_S = SCSprf_coerce {NK_bool} T_bool"

definition SCSprf_toc_S :: "'f tenv \<Rightarrow> 'f heap \<Rightarrow> 'f node \<Rightarrow> 'f node option cres option" where
  "SCSprf_toc_S = SCSprf_coerce {NK_char} T_char"

definition SCSprf_tob_S :: "'f tenv \<Rightarrow> 'f heap \<Rightarrow> 'f node \<Rightarrow> 'f node option cres option" where
  "SCSprf_tob_S = SCSprf_coerce {NK_numbyte} T_byte"

definition SCSprf_tos_S :: "'f tenv \<Rightarrow> 'f heap \<Rightarrow> 'f node \<Rightarrow> 'f node option cres option" where
  "SCSprf_tos_S = SCSprf_coerce {NK_numshort} T_short"

definition SCSprf_toi_S :: "'f tenv \<Rightarrow> 'f heap \<Rightarrow> 'f node \<Rightarrow> 'f node option cres option" where
  "SCSprf_toi_S = SCSprf_coerce {NK_num, NK_numint} T_int"

definition SCSprf_tol_S :: "'f tenv \<Rightarrow> 'f heap \<Rightarrow> 'f node \<Rightarrow> 'f node option cres option" where
  "SCSprf_tol_S = SCSprf_coerce {NK_numlong} T_long"

definition SCSprf_toll_S :: "'f tenv \<Rightarrow> 'f heap \<Rightarrow> 'f node \<Rightarrow> 'f node option cres option" where
  "SCSprf_toll_S = SCSprf_coerce {NK_numlonglong} T_longlong"

definition SCSprf_toub_S :: "'f tenv \<Rightarrow> 'f heap \<Rightarrow> 'f node \<Rightarrow> 'f node option cres option" where
  "SCSprf_toub_S = SCSprf_coerce {NK_numubyte} T_ubyte"

definition SCSprf_tous_S :: "'f tenv \<Rightarrow> 'f heap \<Rightarrow> 'f node \<Rightarrow> 'f node option cres option" where
  "SCSprf_tous_S = SCSprf_coerce {NK_numushort} T_ushort"

definition SCSprf_toui_S :: "'f tenv \<Rightarrow> 'f heap \<Rightarrow> 'f node \<Rightarrow> 'f node option cres option" where
  "SCSprf_toui_S = SCSprf_coerce {NK_numuint} T_uint"

definition SCSprf_toul_S :: "'f tenv \<Rightarrow> 'f heap \<Rightarrow> 'f node \<Rightarrow> 'f node option cres option" where
  "SCSprf_toul_S = SCSprf_coerce {NK_numulong} T_ulong"

definition SCSprf_toull_S :: "'f tenv \<Rightarrow> 'f heap \<Rightarrow> 'f node \<Rightarrow> 'f node option cres option" where
  "SCSprf_toull_S = SCSprf_coerce {NK_numulonglong} T_ulonglong"

definition SCSprf_tof_S :: "'f tenv \<Rightarrow> 'f heap \<Rightarrow> 'f node \<Rightarrow> 'f node option cres option" where
  "SCSprf_tof_S = SCSprf_coerce {NK_float} T_float"

definition SCSprf_tod_S :: "'f tenv \<Rightarrow> 'f heap \<Rightarrow> 'f node \<Rightarrow> 'f node option cres option" where
  "SCSprf_tod_S = SCSprf_coerce {NK_double} T_double"

subsection \<open>Maximum and minimum\<close>

text \<open>A bound is an identifier; the test compares the variables.\<close>

definition bound_is :: "'f node option \<Rightarrow> 'f node \<Rightarrow> bool cres" where
  "bound_is m n = (case m of
     None \<Rightarrow> Inr False
   | Some m \<Rightarrow> bindR (ID_AVIS n) (\<lambda>v. bindR (ID_AVIS m) (\<lambda>w. Inr (v = w))))"

definition folded_type :: "'f tenv \<Rightarrow> 'f heap \<Rightarrow> 'f node \<Rightarrow> 'f node option cres option" where
  "folded_type E H arg_node =
     bindO (NTCnewTypeCheck_Expr E H arg_node) (\<lambda>restype.
       bindR (TYgetProductMember restype 0) (\<lambda>restype.
         ifR (TYisAKV restype) (bindR (CFcreateConstExprsFromType restype) (\<lambda>r. Inr (Some r))) (Inr None)))"

text \<open>The first argument if a comparison of the arguments, with their bounds, is decided to be true.\<close>

definition decided_by ::
  "'f tenv \<Rightarrow> 'f heap \<Rightarrow> bool \<Rightarrow> prf_t \<Rightarrow> 'f node \<Rightarrow> 'f node \<Rightarrow> 'f node option cres option" where
  "decided_by E H dorelcf rel a1 a2 =
     bindOO (SAACFonRelationalsWithExtrema E H dorelcf a1 a2 rel) (\<lambda>res2. case res2 of
       None \<Rightarrow> retO None
     | Some r \<Rightarrow> ifO (SCSisConstantOne E H r) (dup_of a1) (dup_of a2))"

definition choose_by ::
  "bool option cres option \<Rightarrow> 'f node \<Rightarrow> 'f node \<Rightarrow> 'f node option cres option" where
  "choose_by can a1 a2 = bindOO can (\<lambda>z. case z of
     None \<Rightarrow> retO None
   | Some left \<Rightarrow> if left then dup_of a1 else dup_of a2)"

definition SCSprf_max_SxS :: "'f tenv \<Rightarrow> 'f heap \<Rightarrow> bool \<Rightarrow> 'f node \<Rightarrow> 'f node option cres option" where
  "SCSprf_max_SxS E H dorelcf arg_node = prf_args2 arg_node (\<lambda>a1 a2.
     elseO (whenO (SCSisMatchPrfargs E H arg_node) (dup_of a1))
     (elseO (folded_type E H arg_node)
     (elseO (whenO (Some (bindR (avis_of H a2) (\<lambda>a. bound_is (AVIS_MIN a) a1))) (dup_of a2))
     (elseO (whenO (Some (bindR (avis_of H a1) (\<lambda>a. bound_is (AVIS_MIN a) a2))) (dup_of a1))
     (elseO (decided_by E H dorelcf F_ge_SxS a1 a2)
     (elseO (whenO (orO (isVal1IsSumOfVal2 E H a1 a2 True) (isVal1IsSumOfVal2 E H a2 a1 False)) (dup_of a2))
     (elseO (whenO (orO (isVal1IsSumOfVal2 E H a2 a1 True) (isVal1IsSumOfVal2 E H a1 a2 False)) (dup_of a1))
     (choose_by (SCScanOptMAXOnDyadicFn E H a1 a2) a1 a2))))))))"

definition SCSprf_max_VxV :: "'f tenv \<Rightarrow> 'f heap \<Rightarrow> bool \<Rightarrow> 'f node \<Rightarrow> 'f node option cres option" where
  "SCSprf_max_VxV E H dorelcf arg_node = SCSprf_max_SxS E H dorelcf arg_node"

definition SCSprf_min_SxS :: "'f tenv \<Rightarrow> 'f heap \<Rightarrow> bool \<Rightarrow> 'f node \<Rightarrow> 'f node option cres option" where
  "SCSprf_min_SxS E H dorelcf arg_node = prf_args2 arg_node (\<lambda>a1 a2.
     elseO (whenO (SCSisMatchPrfargs E H arg_node) (dup_of a1))
     (elseO (folded_type E H arg_node)
     (elseO (whenO (Some (bindR (avis_of H a2) (\<lambda>a. bound_is (AVIS_MAX a) a1))) (dup_of a2))
     (elseO (whenO (Some (bindR (avis_of H a1) (\<lambda>a. bound_is (AVIS_MAX a) a2))) (dup_of a1))
     (elseO (decided_by E H dorelcf F_le_SxS a1 a2)
     (elseO (whenO (orO (isVal1IsSumOfVal2 E H a1 a2 True) (isVal1IsSumOfVal2 E H a2 a1 False)) (dup_of a1))
     (elseO (whenO (orO (isVal1IsSumOfVal2 E H a2 a1 True) (isVal1IsSumOfVal2 E H a1 a2 False)) (dup_of a2))
     (choose_by (SCScanOptMINOnDyadicFn E H a1 a2) a1 a2))))))))"

definition SCSprf_min_VxV :: "'f tenv \<Rightarrow> 'f heap \<Rightarrow> bool \<Rightarrow> 'f node \<Rightarrow> 'f node option cres option" where
  "SCSprf_min_VxV E H dorelcf arg_node = SCSprf_min_SxS E H dorelcf arg_node"

subsection \<open>Comparisons\<close>

text \<open>
  The decision of a comparison, \<open>None\<close> if there is none.  The second test applies
  \<open>TULSgetPrfFamilyName\<close> to the truth value of an equality instead of the primitive; the value one
  stands for a primitive of its own family and zero for \<open>F_tobool_S\<close>, so the test is the
  equality itself, and does not cover the other members of the family.
\<close>

definition family_can ::
  "prf_t \<Rightarrow> prf_t \<Rightarrow> prf_t \<Rightarrow> bool option cres option \<Rightarrow> bool option cres option \<Rightarrow> bool option cres option" where
  "family_can p f g x y =
     elseO (if TULSgetPrfFamilyName p = f then x else retO None) (if p = g then y else retO None)"

definition make_decided :: "'f tenv \<Rightarrow> 'f heap \<Rightarrow> 'f node \<Rightarrow> bool option cres option \<Rightarrow> 'f node option cres option" where
  "make_decided E H n can = bindOO can (\<lambda>z. case z of
     None \<Rightarrow> retO None
   | Some b \<Rightarrow> if b then SCSmakeTrue E H n else SCSmakeFalse E H n)"

definition SCSprf_lege :: "'f tenv \<Rightarrow> 'f heap \<Rightarrow> bool \<Rightarrow> 'f node \<Rightarrow> 'f node option cres option" where
  "SCSprf_lege E H dorelcf arg_node = prf_args2 arg_node (\<lambda>a1 a2. bindRO (PRF_PRF arg_node) (\<lambda>p.
     elseO (ifO (SCSisMatchPrfargs E H arg_node) (SCSmakeTrue E H a1)
              (make_decided E H a1 (family_can p F_ge_SxS F_le_SxS (SCScanOptGEOnDyadicFn E H a1 a2)
                                      (canOptLEOnDyadicFn E H a1 a2))))
       (SAACFonRelationalsWithExtrema E H dorelcf a1 a2 p)))"

definition SCSprf_nlege :: "'f tenv \<Rightarrow> 'f heap \<Rightarrow> 'f node \<Rightarrow> 'f node option cres option" where
  "SCSprf_nlege E H arg_node = prf_args2 arg_node (\<lambda>a1 a2. bindRO (PRF_PRF arg_node) (\<lambda>p.
     ifO (SCSisMatchPrfargs E H arg_node) (SCSmakeFalse E H a1)
       (make_decided E H a1 (family_can p F_lt_SxS F_gt_SxS (canOptLTOnDyadicFn E H a1 a2)
                               (canOptGTOnDyadicFn E H a1 a2)))))"

definition SCSprf_eq_SxS :: "'f tenv \<Rightarrow> 'f heap \<Rightarrow> 'f node \<Rightarrow> 'f node option cres option" where
  "SCSprf_eq_SxS E H arg_node = prf_args2 arg_node (\<lambda>a1 a2.
     elseO (whenO (SCSisMatchPrfargs E H arg_node) (SCSmakeTrue E H a1))
       (whenO (isNotEqualPrf E H arg_node) (SCSmakeFalse E H a1)))"

definition SCSprf_eq_SxV :: "'f tenv \<Rightarrow> 'f heap \<Rightarrow> 'f node \<Rightarrow> 'f node option cres option" where
  "SCSprf_eq_SxV E H arg_node = prf_args2 arg_node (\<lambda>a1 a2.
     whenO (isNotEqualPrf E H arg_node) (SCSmakeFalse E H a2))"

definition SCSprf_eq_VxS :: "'f tenv \<Rightarrow> 'f heap \<Rightarrow> 'f node \<Rightarrow> 'f node option cres option" where
  "SCSprf_eq_VxS E H arg_node = prf_args2 arg_node (\<lambda>a1 a2.
     whenO (isNotEqualPrf E H arg_node) (SCSmakeFalse E H a1))"

definition SCSprf_eq_VxV :: "'f tenv \<Rightarrow> 'f heap \<Rightarrow> 'f node \<Rightarrow> 'f node option cres option" where
  "SCSprf_eq_VxV E H arg_node = prf_args2 arg_node (\<lambda>a1 a2.
     elseO (whenO (SCSisMatchPrfargs E H arg_node) (SCSmakeTrue E H a1))
       (whenO (isNotEqualPrf E H arg_node) (SCSmakeFalse E H a1)))"

definition SCSprf_neq_SxS :: "'f tenv \<Rightarrow> 'f heap \<Rightarrow> 'f node \<Rightarrow> 'f node option cres option" where
  "SCSprf_neq_SxS E H arg_node = prf_args2 arg_node (\<lambda>a1 a2.
     elseO (SCSprf_nlege E H arg_node)
       (whenO (isNotEqualPrf E H arg_node) (SCSmakeTrue E H a1)))"

definition SCSprf_neq_SxV :: "'f tenv \<Rightarrow> 'f heap \<Rightarrow> 'f node \<Rightarrow> 'f node option cres option" where
  "SCSprf_neq_SxV E H arg_node = prf_args2 arg_node (\<lambda>a1 a2.
     whenO (isNotEqualPrf E H arg_node) (SCSmakeTrue E H a2))"

definition SCSprf_neq_VxS :: "'f tenv \<Rightarrow> 'f heap \<Rightarrow> 'f node \<Rightarrow> 'f node option cres option" where
  "SCSprf_neq_VxS E H arg_node = prf_args2 arg_node (\<lambda>a1 a2.
     whenO (isNotEqualPrf E H arg_node) (SCSmakeTrue E H a1))"

definition SCSprf_neq_VxV :: "'f tenv \<Rightarrow> 'f heap \<Rightarrow> 'f node \<Rightarrow> 'f node option cres option" where
  "SCSprf_neq_VxV E H arg_node = prf_args2 arg_node (\<lambda>a1 a2.
     elseO (SCSprf_nlege E H arg_node)
       (whenO (isNotEqualPrf E H arg_node) (SCSmakeTrue E H a1)))"

subsection \<open>Reshape\<close>

definition SCSprf_reshape :: "'f tenv \<Rightarrow> 'f heap \<Rightarrow> 'f node \<Rightarrow> 'f node option cres option" where
  "SCSprf_reshape E H arg_node =
     bindO (PMmatchFlatSkipExtremaAndGuards E H
       (PMprf [PMAisPrf (F_struct P_reshape_VxA)]
          [PMvar [PMAgetNode ''shp1''] [],
           PMprf [PMAisPrf (F_struct P_reshape_VxA)] [PMvar [PMAgetNode ''shp2''] [], PMvar [PMAgetNode ''X''] []]])
       arg_node no_binds) (\<lambda>(z, b).
       if \<not> z then Inr None
       else bindR (bound_node ''X'' b) (\<lambda>x. case DUPdoDupNode arg_node of
              N_prf a p n (s1 # e2 # es) \<Rightarrow> Inr (Some (N_prf a p n (s1 # DUPdoDupNode x # es)))
            | _ \<Rightarrow> Inl NullDeref))"

end
