(* ===== verification/SCS_Guards.thy ===== *)
theory SCS_Guards
  imports SCS_Prf
begin

text \<open>
  Symbolic constant simplification, \<open>stdopt/symbolic_constant_simplification.c\<close>, third part:
  the guards and the checks of array operations, the functions that generate assignments, and the
  table of the simplifications in \<open>tree/prf_info.mac\<close>.
\<close>

subsection \<open>Guards\<close>

definition SCSprf_conditional_error :: "'f tenv \<Rightarrow> 'f heap \<Rightarrow> 'f node \<Rightarrow> 'f node option cres option" where
  "SCSprf_conditional_error E H arg_node = prf_args2 arg_node (\<lambda>a1 pred.
     Some (bindR (ID_NTYPE H pred) (\<lambda>pred_type.
       ifR (TYisAKV pred_type)
         (ifR (bindR (TYgetValue pred_type) (\<lambda>c. COisFalse (te_fops E) c False))
            (bindR (bindR (PRF_ARG3 arg_node) STR_STRING) (\<lambda>err_msg.
               Inr (Some (N_type None (TYmakeBottomType (Some err_msg))))))
            (Inr (Some (DUPdoDupNode a1))))
         (Inr None))))"

text \<open>The chain of the predicates that are not known to be true, and whether it has changed.\<close>

fun StripTrues :: "'f tenv \<Rightarrow> 'f heap \<Rightarrow> 'f node list \<Rightarrow> (bool \<times> 'f node list) cres" where
  "StripTrues E H [] = Inr (False, [])"
| "StripTrues E H (p # preds) =
     bindR (StripTrues E H preds) (\<lambda>(changed, preds).
     bindR (ID_NTYPE H p) (\<lambda>pred_type.
       ifR (TYisAKV pred_type)
         (bindR (TYgetValue pred_type) (\<lambda>c. bindR (COisTrue (te_fops E) c True) (\<lambda>t.
            dbug_assert ''guard is statically known to be false'' t (Inr (True, preds)))))
         (Inr (changed, p # preds))))"

text \<open>
  The code unlinks the predicates from the chain of the given application; when there is one to
  unlink the caller replaces that application by the result.
\<close>

definition SCSprf_guard :: "'f tenv \<Rightarrow> 'f heap \<Rightarrow> 'f node \<Rightarrow> 'f node option cres option" where
  "SCSprf_guard E H arg_node =
     Some (bindR (PRF_NUMVARIABLERETS arg_node) (\<lambda>num_rets.
       dbug_assert ''guard has no return values'' (0 < num_rets)
       (bindR (PRF_ARGS arg_node) (\<lambda>args.
         dbug_assert ''guard requires at least %lu arguments, got %lu'' (num_rets + 1 \<le> length args)
         (bindR (StripTrues E H (drop num_rets args)) (\<lambda>(changed, preds).
           if \<not> changed then Inr None
           else if preds = [] then Inr (Some (N_exprs (map DUPdoDupNode (take num_rets args))))
           else (case arg_node of
                   N_prf a p n es \<Rightarrow> Inr (Some (N_prf None p n (map DUPdoDupNode (take num_rets args @ preds))))
                 | _ \<Rightarrow> Inl NullDeref)))))))"

subsection \<open>Checks of shapes\<close>

definition SCSprf_same_shape_AxA :: "'f tenv \<Rightarrow> 'f heap \<Rightarrow> 'f node \<Rightarrow> 'f node option cres option" where
  "SCSprf_same_shape_AxA E H arg_node = prf_args2 arg_node (\<lambda>a1 a2.
     bindRO (ID_NTYPE H a1) (\<lambda>arg1type. bindRO (ID_NTYPE H a2) (\<lambda>arg2type.
       whenO (orO (SCSisMatchPrfargs E H arg_node)
                (Some (andR (TUshapeKnown arg1type) (andR (TUshapeKnown arg2type) (TUeqShapes arg1type arg2type)))))
         (retO (Some (N_exprs [DUPdoDupNode a1, DUPdoDupNode a2, TBmakeBool True]))))))"

definition SCSprf_shape_matches_dim_VxA :: "'f tenv \<Rightarrow> 'f heap \<Rightarrow> 'f node \<Rightarrow> 'f node option cres option" where
  "SCSprf_shape_matches_dim_VxA E H arg_node =
     bindOO (PMmatchFlatSkipExtrema E H
       (PMprf [PMAisPrf (F_check P_shape_matches_dim_VxA)] [PMvar [PMAgetNode ''iv''] [], PMvar [PMAgetNode ''arr''] []])
       arg_node no_binds) (\<lambda>(z, b).
       if \<not> z then retO None
       else bindRO (bound_node ''iv'' b) (\<lambda>iv. bindRO (bound_node ''arr'' b) (\<lambda>array.
            bindRO (ID_NTYPE H iv) (\<lambda>ivtype. bindRO (ID_NTYPE H array) (\<lambda>arrtype.
              checked_if (Some (andR (TUshapeKnown ivtype) (andR (TUdimKnown arrtype)
                (bindR (bindR (TYgetShape ivtype) (\<lambda>s. SHgetExtent s 0)) (\<lambda>x.
                 bindR (TYgetDim arrtype) (\<lambda>d. Inr (x = d))))))) iv)))))"

definition SCSprf_non_neg_val_V :: "'f tenv \<Rightarrow> 'f heap \<Rightarrow> 'f node \<Rightarrow> 'f node option cres option" where
  "SCSprf_non_neg_val_V E H arg_node =
     bindRO (PRF_ARG1 arg_node) (\<lambda>a1. checked_if (SCSisNonNegative E H a1) a1)"

definition SCSprf_non_neg_val_S :: "'f tenv \<Rightarrow> 'f heap \<Rightarrow> 'f node \<Rightarrow> 'f node option cres option" where
  "SCSprf_non_neg_val_S E H arg_node = SCSprf_non_neg_val_V E H arg_node"

text \<open>
  The first case looks at whether the comparison \<open>COlt\<close> returns a constant, not at its elements.
\<close>

definition lt_shape_const :: "'f tenv \<Rightarrow> 'f heap \<Rightarrow> 'f node \<Rightarrow> bool cres option" where
  "lt_shape_const E H arg_node =
     bindO (PMmatchFlat E H
       (PMprf [PMAisPrf (F_check P_val_lt_shape_VxA)] [PMconst [PMAgetVal ''ivc''], PMvar [PMAgetNode ''arr''] []])
       arg_node no_binds) (\<lambda>(z, b).
       if \<not> z then Inr False
       else bindR (bound_node ''arr'' b) (\<lambda>array. bindR (ID_NTYPE H array) (\<lambda>arrtype.
         ifR (TUshapeKnown arrtype)
           (bindR (bindR (TYgetShape arrtype) COmakeConstantFromShape) (\<lambda>arrc.
            bindR (some_const (Inr (b_con b ''ivc''))) (\<lambda>ivc.
              andR (bindR (COgetExtent ivc 0) (\<lambda>m. bindR (COgetExtent arrc 0) (\<lambda>n. Inr (m = n))))
                (bindR (COlt (te_fops E) ivc arrc) (\<lambda>r. Inr True)))))
           (Inr False))))"

definition SCSprf_val_lt_shape_VxA :: "'f tenv \<Rightarrow> 'f heap \<Rightarrow> 'f node \<Rightarrow> 'f node option cres option" where
  "SCSprf_val_lt_shape_VxA E H arg_node = prf_args2 arg_node (\<lambda>iv a2.
     elseO (checked_if (lt_shape_const E H arg_node) iv)
       (checked_if (Some (bindR (avis_of H iv) (\<lambda>a1. bindR (avis_of H a2) (\<lambda>a2.
           case (AVIS_MAX a1, AVIS_SHAPE a2) of
             (Some m, Some (N_id s)) \<Rightarrow> bindR (ID_AVIS m) (\<lambda>v. Inr (v = s))
           | _ \<Rightarrow> Inr False)))) iv))"

subsection \<open>Checks of values\<close>

text \<open>
  The application of a check to other arguments; \<open>doing\<close> is the flag \<open>INFO_DOINGEXTREMA\<close>, which ends
  the recursion, so that \<open>simplify\<close> is the function with the flag set.
\<close>

definition SCSrecurseWithExtrema ::
  "bool \<Rightarrow> ('f node \<Rightarrow> 'f node option cres option) \<Rightarrow> 'f node \<Rightarrow> 'f node \<Rightarrow> 'f node \<Rightarrow> 'f node option cres option" where
  "SCSrecurseWithExtrema doing simplify arg_node arg1 arg2 =
     (if doing then retO None
      else checkO (AssertFail ''Expected N_id arg1'') (is_id arg1)
          (checkO (AssertFail ''Expected N_id arg2'') (is_id arg2)
           (case DUPdoDupNode arg_node of
              N_prf a p n (e1 # e2 # es) \<Rightarrow>
                simplify (N_prf a p n (DUPdoDupNode arg1 # DUPdoDupNode arg2 # es))
            | _ \<Rightarrow> Some (Inl NullDeref))))"

definition succeeds_with :: "'f node option \<Rightarrow> ('f node \<Rightarrow> 'f node option cres option) \<Rightarrow> bool cres option" where
  "succeeds_with m r = (case m of
     None \<Rightarrow> retO False
   | Some e \<Rightarrow> bindO (r e) (\<lambda>res2. Inr (res2 \<noteq> None)))"

text \<open>Case 3: the check with a bound in place of an argument.\<close>

definition check_extrema ::
  "'f heap \<Rightarrow> bool \<Rightarrow> ('f node \<Rightarrow> 'f node option cres option) \<Rightarrow> 'f node \<Rightarrow> 'f node \<Rightarrow> 'f node
     \<Rightarrow> 'f node option cres option" where
  "check_extrema H doing simplify arg_node a1 a2 =
     elseO (bindRO (avis_of H a2) (\<lambda>v. checked_if
              (succeeds_with (AVIS_MIN v) (\<lambda>m. SCSrecurseWithExtrema doing simplify arg_node a1 m)) a1))
       (bindRO (avis_of H a1) (\<lambda>v. checked_if
          (succeeds_with (AVIS_MAX v) (\<lambda>m. SCSrecurseWithExtrema doing simplify arg_node m a2)) a1))"

text \<open>Case 4: the first argument is the result of the same check with the same second argument.\<close>

definition check_twice ::
  "'f tenv \<Rightarrow> 'f heap \<Rightarrow> guard_op \<Rightarrow> 'f node \<Rightarrow> 'f node option cres option" where
  "check_twice E H op arg_node =
     (let pat3 = PMprf [PMAisPrf (F_check op)] [PMvar [PMAgetNode ''val''] [], PMvar [PMAgetNode ''val2''] []];
          pat4 = PMprf [PMAisPrf (F_check op)] [PMvar [PMAgetNode ''val3''] [], PMvar [PMAisVar ''val2''] []] in
      bindOO (PMmatchFlat E H pat3 arg_node no_binds) (\<lambda>(z, b).
        if \<not> z then retO None
        else bindRO (bound_node ''val'' b) (\<lambda>val.
          bindO (PMmatchFlat E H pat4 val b) (\<lambda>(z, b).
            if z then bindR (bound_node ''val3'' b) (\<lambda>val3. Inr (Some (checked_result val3))) else Inr None))))"

text \<open>Case 5: the comparison is decided by the bounds.\<close>

definition check_relational ::
  "'f tenv \<Rightarrow> 'f heap \<Rightarrow> bool \<Rightarrow> prf_t \<Rightarrow> 'f node \<Rightarrow> 'f node \<Rightarrow> 'f node option cres option" where
  "check_relational E H dorelcf rel a1 a2 =
     bindOO (SAACFonRelationalsWithExtrema E H dorelcf a1 a2 rel) (\<lambda>r. case r of
       None \<Rightarrow> retO None
     | Some r \<Rightarrow> checked_if (SCSisConstantOne E H r) a1)"

text \<open>Case 1: both arguments are constant.\<close>

definition both_const ::
  "'f tenv \<Rightarrow> 'f heap \<Rightarrow> guard_op \<Rightarrow> 'f node \<Rightarrow> ('f const \<times> 'f const) option cres option" where
  "both_const E H op arg_node =
     bindO (PMmatchFlat E H (PMprf [PMAisPrf (F_check op)] [PMconst [PMAgetVal ''con1''], PMconst [PMAgetVal ''con2'']])
       arg_node no_binds) (\<lambda>(z, b).
       if \<not> z then Inr None
       else bindR (some_const (Inr (b_con b ''con1''))) (\<lambda>c1.
            bindR (some_const (Inr (b_con b ''con2''))) (\<lambda>c2. Inr (Some (c1, c2)))))"

definition const_rel ::
  "'f tenv \<Rightarrow> ('f const \<Rightarrow> 'f const \<Rightarrow> 'f const cres) \<Rightarrow> ('f const \<times> 'f const) option \<Rightarrow> bool cres" where
  "const_rel E f c = (case c of
     None \<Rightarrow> Inr False
   | Some (c1, c2) \<Rightarrow> bindR (f c1 c2) (\<lambda>r. COisTrue (te_fops E) r True))"

definition same_argument :: "'f tenv \<Rightarrow> 'f heap \<Rightarrow> guard_op \<Rightarrow> 'f node \<Rightarrow> bool cres option" where
  "same_argument E H op arg_node =
     bindO (PMmatchFlat E H (PMprf [PMAisPrf (F_check op)] [PMvar [PMAgetNode ''val''] [], PMvar [PMAisVar ''val''] []])
       arg_node no_binds) (\<lambda>(z, b). Inr z)"

definition is_true :: "bool option cres option \<Rightarrow> bool cres option" where
  "is_true can = bindO can (\<lambda>z. Inr (z = Some True))"

text \<open>The third argument of an extended guard; in the first check it is not the argument but its link.\<close>

definition third_link_true :: "'f tenv \<Rightarrow> 'f heap \<Rightarrow> 'f node \<Rightarrow> bool cres option" where
  "third_link_true E H arg_node =
     bindRO (PRF_ARGS arg_node) (\<lambda>args.
       if drop 2 args = [] then retO False else SCSisConstantOne E H (N_exprs (drop 2 args)))"

definition third_true :: "'f tenv \<Rightarrow> 'f heap \<Rightarrow> 'f node \<Rightarrow> bool cres option" where
  "third_true E H arg_node =
     bindRO (PRF_ARGS arg_node) (\<lambda>args.
       if drop 2 args = [] then retO False
       else bindO (COaST2Constant E H (args ! 2)) (test_const (\<lambda>c. COisTrue (te_fops E) c True)))"

definition val_lt_val_SxS ::
  "'f tenv \<Rightarrow> 'f heap \<Rightarrow> bool \<Rightarrow> bool \<Rightarrow> ('f node \<Rightarrow> 'f node option cres option) \<Rightarrow> 'f node \<Rightarrow> 'f node option cres option" where
  "val_lt_val_SxS E H dorelcf doing simplify arg_node = prf_args2 arg_node (\<lambda>a1 a2.
     elseO (checked_if (bindO (both_const E H P_val_lt_val_SxS arg_node) (const_rel E (COlt (te_fops E)))) a1)
     (elseO (check_extrema H doing simplify arg_node a1 a2)
     (elseO (check_twice E H P_val_lt_val_SxS arg_node)
     (elseO (check_relational E H dorelcf F_lt_SxS a1 a2)
     (elseO (checked_if (third_link_true E H arg_node) a1)
       (checked_if (is_true (canOptLTOnDyadicFn E H a1 a2)) a1))))))"

definition SCSprf_val_lt_val_SxS ::
  "'f tenv \<Rightarrow> 'f heap \<Rightarrow> bool \<Rightarrow> bool \<Rightarrow> 'f node \<Rightarrow> 'f node option cres option" where
  "SCSprf_val_lt_val_SxS E H dorelcf doing =
     val_lt_val_SxS E H dorelcf doing (val_lt_val_SxS E H dorelcf True (\<lambda>n. retO None))"

definition SawingTheBoardInTwo :: "'f tenv \<Rightarrow> 'f heap \<Rightarrow> 'f node \<Rightarrow> 'f node option cres option" where
  "SawingTheBoardInTwo E H arg_node = prf_args2 arg_node (\<lambda>iv shpa.
     let patadd1 = PMprf [PMAisPrf F_add_SxS] [PMvar [PMAisVar ''shpa''] [], PMvar [PMAgetNode ''count''] []];
         patadd2 = PMprf [PMAisPrf F_add_SxS] [PMvar [PMAgetNode ''count''] [], PMvar [PMAisVar ''shpa''] []];
         patsub = PMprf [PMAisPrf F_sub_SxS] [PMvar [PMAisVar ''shpa''] [], PMvar [PMAgetNode ''count''] []];
         b0 = set_node ''shpa'' shpa no_binds in
     elseO (checked_if (andO (SCSisNonNegative E H shpa)
              (bindOO (PMmatchFlatSkipGuards E H patsub iv b0) (\<lambda>(z, b).
                 if \<not> z then retO False else bindRO (bound_node ''count'' b) (SCSisNonNegative E H)))) iv)
       (checked_if (andO (SCSisNonNegative E H shpa)
          (bindOO (PMmatchFlatSkipGuards E H patadd1 iv b0) (\<lambda>(z, b).
           bindOO (if z then retO (z, b) else PMmatchFlatSkipGuards E H patadd2 iv b) (\<lambda>(z, b).
             if \<not> z then retO False else bindRO (bound_node ''count'' b) (SCSisNegative E H))))) iv))"

definition val_le_val_SxS ::
  "'f tenv \<Rightarrow> 'f heap \<Rightarrow> bool \<Rightarrow> bool \<Rightarrow> ('f node \<Rightarrow> 'f node option cres option) \<Rightarrow> 'f node \<Rightarrow> 'f node option cres option" where
  "val_le_val_SxS E H dorelcf doing simplify arg_node = prf_args2 arg_node (\<lambda>a1 a2.
     elseO (checked_if (bindOO (same_argument E H P_val_le_val_SxS arg_node) (\<lambda>flg2.
              bindO (both_const E H P_val_le_val_SxS arg_node) (\<lambda>c. case c of
                None \<Rightarrow> Inr flg2
              | Some (c1, c2) \<Rightarrow> bindR (COle (te_fops E) c1 c2) (\<lambda>conrel.
                  orR (Inr flg2) (COisTrue (te_fops E) conrel True))))) a1)
     (elseO (check_extrema H doing simplify arg_node a1 a2)
     (elseO (check_twice E H P_val_le_val_SxS arg_node)
     (elseO (check_relational E H dorelcf F_le_SxS a1 a2)
     (elseO (checked_if (third_true E H arg_node) a1)
     (elseO (SawingTheBoardInTwo E H arg_node)
       (checked_if (is_true (canOptLEOnDyadicFn E H a1 a2)) a1)))))))"

definition SCSprf_val_le_val_SxS ::
  "'f tenv \<Rightarrow> 'f heap \<Rightarrow> bool \<Rightarrow> bool \<Rightarrow> 'f node \<Rightarrow> 'f node option cres option" where
  "SCSprf_val_le_val_SxS E H dorelcf doing =
     val_le_val_SxS E H dorelcf doing (val_le_val_SxS E H dorelcf True (\<lambda>n. retO None))"

text \<open>The first case of the version on vectors compares the lengths, but not the result of \<open>COle\<close>.\<close>

definition val_le_val_VxV ::
  "'f tenv \<Rightarrow> 'f heap \<Rightarrow> bool \<Rightarrow> bool \<Rightarrow> ('f node \<Rightarrow> 'f node option cres option) \<Rightarrow> 'f node \<Rightarrow> 'f node option cres option" where
  "val_le_val_VxV E H dorelcf doing simplify arg_node = prf_args2 arg_node (\<lambda>a1 a2.
     elseO (checked_if (orO (same_argument E H P_val_le_val_VxV arg_node)
              (bindO (both_const E H P_val_le_val_VxV arg_node) (\<lambda>c. case c of
                 None \<Rightarrow> Inr False
               | Some (c1, c2) \<Rightarrow>
                   andR (bindR (COgetExtent c1 0) (\<lambda>m. bindR (COgetExtent c2 0) (\<lambda>n. Inr (m = n))))
                     (bindR (COle (te_fops E) c1 c2) (\<lambda>r. Inr True))))) a1)
     (elseO (check_extrema H doing simplify arg_node a1 a2)
     (elseO (check_twice E H P_val_le_val_VxV arg_node)
     (elseO (check_relational E H dorelcf F_le_SxS a1 a2)
       (checked_if (is_true (canOptLEOnDyadicFn E H a1 a2)) a1)))))"

definition SCSprf_val_le_val_VxV ::
  "'f tenv \<Rightarrow> 'f heap \<Rightarrow> bool \<Rightarrow> bool \<Rightarrow> 'f node \<Rightarrow> 'f node option cres option" where
  "SCSprf_val_le_val_VxV E H dorelcf doing =
     val_le_val_VxV E H dorelcf doing (val_le_val_VxV E H dorelcf True (\<lambda>n. retO None))"

definition SCSprf_prod_matches_prod_shape_VxA :: "'f tenv \<Rightarrow> 'f heap \<Rightarrow> 'f node \<Rightarrow> 'f node option cres option" where
  "SCSprf_prod_matches_prod_shape_VxA E H arg_node = prf_args2 arg_node (\<lambda>a1 a2.
     bindRO (avis_of H a2) (\<lambda>v. case AVIS_SHAPE v of
       None \<Rightarrow> retO None
     | Some shp \<Rightarrow>
         ifO (andO (retO (is_id shp))
                (bindO (PMmatchFlat E H (PMprf [PMAisPrf (F_check P_prod_matches_prod_shape_VxA)]
                                           [PMvar [PMAisVar ''shp''] [], PMskip []])
                          arg_node (set_node ''shp'' shp no_binds)) (\<lambda>(z, b). Inr z)))
           (retO (Some (checked_result a1)))
           (checked_if (andO (retO (is_arr shp))
              (bindO (matched_node E H PMMflat (PMarray [PMAgetNode ''arr''] [PMskip []]) ''arr'' a1) (\<lambda>m. case m of
                 None \<Rightarrow> Inr False
               | Some e \<Rightarrow> CMPTdoCompareTree E shp e))) a1)))"

subsection \<open>Functions that generate assignments\<close>

text \<open>
  The state of the traversal: the declarations and the assignments to be inserted, the descriptions
  of the variables, and the first numbers that are not used for a variable and for a node.
\<close>

record 'f cf_info =
  INFO_VARDECS :: "nat list"
  INFO_PREASSIGN :: "(nat \<times> 'f node) list"
  cf_heap :: "'f heap"
  cf_avis :: nat
  cf_addr :: nat

fun give_number :: "nat \<Rightarrow> 'f node \<Rightarrow> 'f node" where
  "give_number k (N_lit a l) = N_lit (Some k) l"
| "give_number k (N_array a t s es) = N_array (Some k) t s es"
| "give_number k (N_prf a p n es) = N_prf (Some k) p n es"
| "give_number k (N_type a t) = N_type (Some k) t"
| "give_number k (N_str a s) = N_str (Some k) s"
| "give_number k (N_other a) = N_other (Some k)"
| "give_number k n = n"

definition TBmakeAvis :: "'f ntype \<Rightarrow> 'f avis" where
  "TBmakeAvis t = \<lparr>AVIS_TYPE = t, AVIS_SSAASSIGN = None, AVIS_SCALARS = None, AVIS_MIN = None,
                   AVIS_MAX = None, AVIS_SHAPE = None\<rparr>"

text \<open>The variable that holds the value of an expression; its type is computed (\<open>restype\<close> is null).\<close>

definition FLATGexpression2Avis ::
  "'f tenv \<Rightarrow> 'f node \<Rightarrow> 'f cf_info \<Rightarrow> (nat \<times> 'f cf_info) cres option" where
  "FLATGexpression2Avis E n st = (case n of
     N_id v \<Rightarrow> retO (v, st)
   | N_avis v \<Rightarrow> retO (v, st)
   | _ \<Rightarrow>
       bindO (NTCnewTypeCheck_Expr E (cf_heap st) n) (\<lambda>restype.
       bindR (ifR (TYisProd restype)
                (bindR (TYgetProductSize restype) (\<lambda>k. dbug_assert ''expected one result type'' (k = 1)
                   (TYgetProductMember restype 0)))
                (Inr restype)) (\<lambda>restype.
         (let v = cf_avis st; e = give_number (cf_addr st) n in
          Inr (v, st\<lparr>INFO_VARDECS := v # INFO_VARDECS st,
                     INFO_PREASSIGN := INFO_PREASSIGN st @ [(v, e)],
                     cf_heap := (cf_heap st)(v := (TBmakeAvis restype)\<lparr>AVIS_SSAASSIGN := Some ([v], e)\<rparr>),
                     cf_avis := v + 1, cf_addr := cf_addr st + 1\<rparr>)))))"

type_synonym 'f scs_fun = "'f tenv \<Rightarrow> 'f cf_info \<Rightarrow> 'f node \<Rightarrow> ('f node option \<times> 'f cf_info) cres option"

text \<open>
  The pattern shared by \<open>neg\<close> and \<open>reciproc\<close>: an application to the result of the same function is its
  argument, an application to the result of a binary function is distributed.
\<close>

definition distribute :: "prf_t \<Rightarrow> prf_t \<Rightarrow> 'f scs_fun" where
  "distribute fn inner E st arg_node =
     (let H = cf_heap st;
          pat1 = PMprf [PMAisPrf fn] [PMvar [PMAgetNode ''arg1''] []];
          pat2 = PMprf [PMAisPrf fn] [PMvar [PMAgetNode ''arg1p''] []];
          pat3 = PMprf [PMAisPrf inner] [PMvar [PMAgetNode ''arg1p''] [], PMvar [PMAgetNode ''arg2p''] []] in
      bindOO (PMmatchFlatSkipExtremaAndGuards E H pat1 arg_node no_binds) (\<lambda>(z, b).
        if \<not> z then retO (None, st)
        else bindRO (bound_node ''arg1'' b) (\<lambda>arg1.
          bindOO (PMmatchFlatSkipExtremaAndGuards E H pat2 arg1 b) (\<lambda>(z, b).
            if z then bindRO (bound_node ''arg1p'' b) (\<lambda>arg1p. retO (Some (DUPdoDupNode arg1p), st))
            else bindOO (PMmatchFlatSkipExtremaAndGuards E H pat3 arg1 b) (\<lambda>(z, b).
              if \<not> z then retO (None, st)
              else bindRO (bound_node ''arg1p'' b) (\<lambda>arg1p. bindRO (bound_node ''arg2p'' b) (\<lambda>arg2p.
                bindOO (FLATGexpression2Avis E (TCmakePrf1 fn (DUPdoDupNode arg1p)) st) (\<lambda>(p1, st).
                bindO (FLATGexpression2Avis E (TCmakePrf1 fn (DUPdoDupNode arg2p)) st) (\<lambda>(p2, st).
                  Inr (Some (TCmakePrf2 inner (N_id p1) (N_id p2)), st))))))))))"

definition SCSprf_reciproc_S :: "'f scs_fun" where
  "SCSprf_reciproc_S = distribute (F_un P_reciproc S_arg) (F_bin P_mul SxS)"

definition SCSprf_reciproc_V :: "'f scs_fun" where
  "SCSprf_reciproc_V = distribute (F_un P_reciproc V_arg) (F_bin P_mul VxV)"

definition SCSprf_neg_S :: "'f scs_fun" where
  "SCSprf_neg_S = distribute (F_un P_neg S_arg) (F_bin P_add SxS)"

definition SCSprf_neg_V :: "'f scs_fun" where
  "SCSprf_neg_V = distribute (F_un P_neg V_arg) (F_bin P_add VxV)"

subsection \<open>Notes of bounds and absolute values\<close>

definition nugatory_note ::
  "('f avis \<Rightarrow> 'f node option) \<Rightarrow> meta_op \<Rightarrow> 'f tenv \<Rightarrow> 'f heap \<Rightarrow> 'f node \<Rightarrow> 'f node option cres option" where
  "nugatory_note bnd op E H arg_node =
     bindO (PMmatchFlat E H (PMprf [PMAisPrf (F_meta op)] [PMvar [PMAgetNode ''arg1p''] [], PMvar [PMAgetNode ''arg2p''] []])
       arg_node no_binds) (\<lambda>(z, b).
       if \<not> z then Inr None
       else bindR (bound_node ''arg1p'' b) (\<lambda>arg1p. bindR (bound_node ''arg2p'' b) (\<lambda>arg2p.
         ifR (bindR (avis_of H arg1p) (\<lambda>a. bound_is (bnd a) arg2p))
           (Inr (Some (DUPdoDupNode arg1p))) (Inr None))))"

definition SCSprf_noteminval :: "'f tenv \<Rightarrow> 'f heap \<Rightarrow> 'f node \<Rightarrow> 'f node option cres option" where
  "SCSprf_noteminval = nugatory_note AVIS_MIN P_noteminval"

definition SCSprf_notemaxval :: "'f tenv \<Rightarrow> 'f heap \<Rightarrow> 'f node \<Rightarrow> 'f node option cres option" where
  "SCSprf_notemaxval = nugatory_note AVIS_MAX P_notemaxval"

definition SCSprf_abs :: "sv \<Rightarrow> 'f scs_fun" where
  "SCSprf_abs v E st arg_node =
     (let H = cf_heap st; F = te_fops E in
      bindRO (PRF_ARG1 arg_node) (\<lambda>a1. bindRO (avis_of H a1) (\<lambda>av.
        bindOO (case AVIS_MIN av of None \<Rightarrow> retO None | Some m \<Rightarrow> match_const E H PMMflat m) (\<lambda>con1.
        bindOO (Some (test_const (\<lambda>c. COisNonNeg F c True) con1)) (\<lambda>nonneg.
          if nonneg then retO (Some (DUPdoDupNode a1), st)
          else
            bindOO (case AVIS_MAX av of None \<Rightarrow> retO None | Some m \<Rightarrow> match_const E H PMMflat m) (\<lambda>con1.
            case con1 of
              None \<Rightarrow> retO (None, st)
            | Some con1 \<Rightarrow>
                bindRO (COmakeConstantFromInt 1) (\<lambda>denorm. bindRO (COsub F con1 denorm) (\<lambda>con2.
                bindRO (COisNonNeg F con2 True) (\<lambda>nonneg.
                  if nonneg then retO (None, st)
                  else bindO (FLATGexpression2Avis E (TCmakePrf1 (F_un P_neg v) (DUPdoDupNode a1)) st) (\<lambda>(p, st).
                         Inr (Some (N_id p), st)))))))))))"

definition SCSprf_abs_S :: "'f scs_fun" where "SCSprf_abs_S = SCSprf_abs S_arg"
definition SCSprf_abs_V :: "'f scs_fun" where "SCSprf_abs_V = SCSprf_abs V_arg"

subsection \<open>The table\<close>

definition without_state ::
  "('f tenv \<Rightarrow> 'f heap \<Rightarrow> 'f node \<Rightarrow> 'f node option cres option) \<Rightarrow> 'f scs_fun" where
  "without_state f E st arg_node = bindO (f E (cf_heap st) arg_node) (\<lambda>r. Inr (r, st))"

fun conv_scs :: "conv_op \<Rightarrow> 'f tenv \<Rightarrow> 'f heap \<Rightarrow> 'f node \<Rightarrow> 'f node option cres option" where
  "conv_scs P_tobool = SCSprf_tobool_S" | "conv_scs P_toc = SCSprf_toc_S" | "conv_scs P_tob = SCSprf_tob_S"
| "conv_scs P_tos = SCSprf_tos_S" | "conv_scs P_toi = SCSprf_toi_S" | "conv_scs P_tol = SCSprf_tol_S"
| "conv_scs P_toll = SCSprf_toll_S" | "conv_scs P_toub = SCSprf_toub_S" | "conv_scs P_tous = SCSprf_tous_S"
| "conv_scs P_toui = SCSprf_toui_S" | "conv_scs P_toul = SCSprf_toul_S" | "conv_scs P_toull = SCSprf_toull_S"
| "conv_scs P_tof = SCSprf_tof_S" | "conv_scs P_tod = SCSprf_tod_S"

text \<open>The binary primitives; those that have no entry are left as they are, like those of \<open>SCSprf_none\<close>.\<close>

fun bin_scs :: "bool \<Rightarrow> bin_op \<Rightarrow> vs \<Rightarrow> 'f tenv \<Rightarrow> 'f heap \<Rightarrow> 'f node \<Rightarrow> 'f node option cres option" where
  "bin_scs r P_add SxS E H = SCSprf_add_SxS E H" | "bin_scs r P_add SxV E H = SCSprf_add_SxV E H"
| "bin_scs r P_add VxS E H = SCSprf_add_VxS E H" | "bin_scs r P_add VxV E H = SCSprf_add_VxV E H"
| "bin_scs r P_sub SxS E H = SCSprf_sub E H" | "bin_scs r P_sub SxV E H = SCSprf_sub_SxV E H"
| "bin_scs r P_sub VxS E H = SCSprf_sub E H" | "bin_scs r P_sub VxV E H = SCSprf_sub_VxV E H"
| "bin_scs r P_mul SxS E H = SCSprf_mul_SxS E H" | "bin_scs r P_mul SxV E H = SCSprf_mul_SxV E H"
| "bin_scs r P_mul VxS E H = SCSprf_mul_VxS E H" | "bin_scs r P_mul VxV E H = SCSprf_mul_VxV E H"
| "bin_scs r P_div SxS E H = SCSprf_div_XxS E H" | "bin_scs r P_div SxV E H = SCSprf_div_SxX E H"
| "bin_scs r P_div VxS E H = SCSprf_div_XxS E H" | "bin_scs r P_div VxV E H = SCSprf_div_VxV E H"
| "bin_scs r P_mod SxS E H = SCSprf_mod_SxS E H r" | "bin_scs r P_mod SxV E H = SCSprf_mod E H"
| "bin_scs r P_mod VxS E H = SCSprf_mod E H" | "bin_scs r P_mod VxV E H = SCSprf_mod E H"
| "bin_scs r P_aplmod SxS E H = SCSprf_aplmod E H" | "bin_scs r P_aplmod SxV E H = SCSprf_aplmod_SxV E H"
| "bin_scs r P_aplmod VxS E H = SCSprf_aplmod E H" | "bin_scs r P_aplmod VxV E H = SCSprf_aplmod E H"
| "bin_scs r P_min SxS E H = SCSprf_min_SxS E H r" | "bin_scs r P_min VxV E H = SCSprf_min_VxV E H r"
| "bin_scs r P_max SxS E H = SCSprf_max_SxS E H r" | "bin_scs r P_max VxV E H = SCSprf_max_VxV E H r"
| "bin_scs r P_and SxS E H = SCSprf_and_SxS E H" | "bin_scs r P_and SxV E H = SCSprf_and_SxV E H"
| "bin_scs r P_and VxS E H = SCSprf_and_VxS E H" | "bin_scs r P_and VxV E H = SCSprf_and_VxV E H"
| "bin_scs r P_or SxS E H = SCSprf_or_SxS E H" | "bin_scs r P_or SxV E H = SCSprf_or_SxV E H"
| "bin_scs r P_or VxS E H = SCSprf_or_VxS E H" | "bin_scs r P_or VxV E H = SCSprf_or_VxV E H"
| "bin_scs r P_eq SxS E H = SCSprf_eq_SxS E H" | "bin_scs r P_eq SxV E H = SCSprf_eq_SxV E H"
| "bin_scs r P_eq VxS E H = SCSprf_eq_VxS E H" | "bin_scs r P_eq VxV E H = SCSprf_eq_VxV E H"
| "bin_scs r P_neq SxS E H = SCSprf_neq_SxS E H" | "bin_scs r P_neq SxV E H = SCSprf_neq_SxV E H"
| "bin_scs r P_neq VxS E H = SCSprf_neq_VxS E H" | "bin_scs r P_neq VxV E H = SCSprf_neq_VxV E H"
| "bin_scs r P_le SxS E H = SCSprf_lege E H r" | "bin_scs r P_le VxV E H = SCSprf_lege E H r"
| "bin_scs r P_ge SxS E H = SCSprf_lege E H r" | "bin_scs r P_ge VxV E H = SCSprf_lege E H r"
| "bin_scs r P_lt SxS E H = SCSprf_nlege E H" | "bin_scs r P_lt VxV E H = SCSprf_nlege E H"
| "bin_scs r P_gt SxS E H = SCSprf_nlege E H" | "bin_scs r P_gt VxV E H = SCSprf_nlege E H"
| "bin_scs r op v E H = SCSprf_none E H"

fun check_scs :: "bool \<Rightarrow> bool \<Rightarrow> guard_op \<Rightarrow> 'f tenv \<Rightarrow> 'f heap \<Rightarrow> 'f node \<Rightarrow> 'f node option cres option" where
  "check_scs r doing P_guard E H = SCSprf_guard E H"
| "check_scs r doing P_type_constraint E H = SCSprf_none E H"
| "check_scs r doing P_same_shape_AxA E H = SCSprf_same_shape_AxA E H"
| "check_scs r doing P_shape_matches_dim_VxA E H = SCSprf_shape_matches_dim_VxA E H"
| "check_scs r doing P_non_neg_val_S E H = SCSprf_non_neg_val_S E H"
| "check_scs r doing P_non_neg_val_V E H = SCSprf_non_neg_val_V E H"
| "check_scs r doing P_val_lt_shape_VxA E H = SCSprf_val_lt_shape_VxA E H"
| "check_scs r doing P_val_lt_val_SxS E H = SCSprf_val_lt_val_SxS E H r doing"
| "check_scs r doing P_val_le_val_SxS E H = SCSprf_val_le_val_SxS E H r doing"
| "check_scs r doing P_val_le_val_VxV E H = SCSprf_val_le_val_VxV E H r doing"
| "check_scs r doing P_prod_matches_prod_shape_VxA E H = SCSprf_prod_matches_prod_shape_VxA E H"

definition prf_cfscs_funtab :: "bool \<Rightarrow> bool \<Rightarrow> prf_t \<Rightarrow> 'f scs_fun" where
  "prf_cfscs_funtab dorelcf doing p = (case p of
     F_bin op v \<Rightarrow> without_state (bin_scs dorelcf op v)
   | F_conv op \<Rightarrow> without_state (conv_scs op)
   | F_un P_neg S_arg \<Rightarrow> SCSprf_neg_S | F_un P_neg V_arg \<Rightarrow> SCSprf_neg_V
   | F_un P_abs S_arg \<Rightarrow> SCSprf_abs_S | F_un P_abs V_arg \<Rightarrow> SCSprf_abs_V
   | F_un P_reciproc S_arg \<Rightarrow> SCSprf_reciproc_S | F_un P_reciproc V_arg \<Rightarrow> SCSprf_reciproc_V
   | F_struct P_reshape_VxA \<Rightarrow> without_state SCSprf_reshape
   | F_check op \<Rightarrow> without_state (check_scs dorelcf doing op)
   | F_meta P_noteminval \<Rightarrow> without_state SCSprf_noteminval
   | F_meta P_notemaxval \<Rightarrow> without_state SCSprf_notemaxval
   | F_meta P_conditional_error \<Rightarrow> without_state SCSprf_conditional_error
   | _ \<Rightarrow> without_state SCSprf_none)"

end
