(* ===== verification/SCS_Sem.thy ===== *)
theory SCS_Sem
  imports SCS_Guards CT_Sound_Struc
begin

text \<open>
  The meaning of expressions, against which the simplifications are judged: the arrays that an
  expression denotes when its variables have given values.  Elementwise primitives apply the scalar operation to
  corresponding elements; the checks return their arguments and a truth value, as the generated code
  does (\<open>runtime/essentials_h/prf.h\<close>, \<open>codegen/icm2c_prf.c\<close>); all other primitives mean what constant
  folding computes.  An expression has no value when an operation is undefined, as on overflow, division
  by zero or a violated guard.
\<close>

subsection \<open>Values\<close>

definition extents :: "'f const \<Rightarrow> int list" where
  "extents c = map the (SHAPE_ELEMS (CONSTANT_SHAPE c))"

definition cells :: "'f const \<Rightarrow> 'f cval list" where
  "cells c = map the (CONSTANT_ELEMS c)"

fun cell_int :: "'f cval \<Rightarrow> int" where
  "cell_int (CInt t x) = x"
| "cell_int v = 0"

definition ints :: "'f const \<Rightarrow> int list" where
  "ints c = map cell_int (cells c)"

lemma con_parts [simp]: "extents (con t xs es) = xs" "cells (con t xs es) = es"
  by (simp_all add: extents_def cells_def con_def full_def comp_def)

lemma ints_con [simp]: "ints (con t xs (map (CInt it) as)) = as"
  by (simp add: ints_def comp_def)

definition truth :: "bool \<Rightarrow> 'f const" where
  "truth b = con T_bool [] [CBool b]"

definition value_of :: "'f const cres \<Rightarrow> 'f const list option" where
  "value_of r = (case r of Inl e \<Rightarrow> None | Inr c \<Rightarrow> Some [c])"

lemma value_of_Some [simp]: "value_of r = Some cs \<longleftrightarrow> (\<exists>c. r = Inr c \<and> cs = [c])"
  by (auto simp: value_of_def split: sum.splits)

subsection \<open>Primitives\<close>

definition bin_value :: "'f fops \<Rightarrow> bin_op \<Rightarrow> vs \<Rightarrow> 'f const \<Rightarrow> 'f const \<Rightarrow> 'f const option" where
  "bin_value F op v a b =
     (if vs_shapes v (extents a) (extents b) \<and> CONSTANT_TYPE a = CONSTANT_TYPE b
         \<and> zip_supports (bin_zop op) (CONSTANT_TYPE a)
      then (case zip_shape (extents a) (extents b) of
              None \<Rightarrow> None
            | Some zs \<Rightarrow>
                (case zip_elems F (bin_zop op) (extents a) (extents b) (cells a) (cells b) of
                   Inl e \<Rightarrow> None
                 | Inr gs \<Rightarrow> Some (con (zip_type (CONSTANT_TYPE a) (bin_target op)) zs gs)))
      else None)"

text \<open>The first arguments of a guard are its results if all predicates hold.\<close>

fun check_value :: "guard_op \<Rightarrow> nat \<Rightarrow> 'f const list \<Rightarrow> 'f const list option" where
  "check_value P_guard n cs =
     (if 0 < n \<and> n < length cs \<and> (\<forall>c\<in>set (drop n cs). c = truth True) then Some (take n cs) else None)"
| "check_value P_type_constraint n cs = (case cs of [a] \<Rightarrow> Some [a, truth True] | _ \<Rightarrow> None)"
| "check_value P_same_shape_AxA n cs =
     (case cs of [a, b] \<Rightarrow> Some [a, b, truth (extents a = extents b)] | _ \<Rightarrow> None)"
| "check_value P_shape_matches_dim_VxA n cs =
     (case cs of [a, b] \<Rightarrow> Some [a, truth (extents a = [int (length (extents b))])] | _ \<Rightarrow> None)"
| "check_value P_non_neg_val_S n cs =
     (case cs of [a] \<Rightarrow> if \<forall>x\<in>set (ints a). 0 \<le> x then Some [a, truth True] else None | _ \<Rightarrow> None)"
| "check_value P_non_neg_val_V n cs =
     (case cs of [a] \<Rightarrow> Some [a, truth (\<forall>x\<in>set (ints a). 0 \<le> x)] | _ \<Rightarrow> None)"
| "check_value P_val_lt_shape_VxA n cs =
     (case cs of [a, b] \<Rightarrow> if length (ints a) = length (extents b)
        then Some [a, truth (\<forall>(x, y)\<in>set (zip (ints a) (extents b)). x < y)] else None
      | _ \<Rightarrow> None)"
| "check_value P_val_lt_val_SxS n cs =
     (case cs of a # b # r \<Rightarrow> Some [a, truth (\<forall>(x, y)\<in>set (zip (ints a) (ints b)). x < y)] | _ \<Rightarrow> None)"
| "check_value P_val_le_val_SxS n cs =
     (case cs of a # b # r \<Rightarrow> Some [a, truth (\<forall>(x, y)\<in>set (zip (ints a) (ints b)). x \<le> y)] | _ \<Rightarrow> None)"
| "check_value P_val_le_val_VxV n cs =
     (case cs of [a, b] \<Rightarrow> Some [a, truth (\<forall>(x, y)\<in>set (zip (ints a) (ints b)). x \<le> y)] | _ \<Rightarrow> None)"
| "check_value P_prod_matches_prod_shape_VxA n cs =
     (case cs of [a, b] \<Rightarrow> Some [a, truth (prod_list (ints a) = prod_list (extents b))] | _ \<Rightarrow> None)"

definition folded_value :: "'f fops \<Rightarrow> prf_t \<Rightarrow> 'f const list \<Rightarrow> 'f const list option" where
  "folded_value F p cs =
     (let arg = (\<lambda>i. if i < length cs then Some (cs ! i) else None) in
      case prf_co_funtab F p (arg 0) (arg 1) (arg 2) of
        Some (Inr (Some c)) \<Rightarrow> Some [c]
      | _ \<Rightarrow> None)"

fun meta_value :: "meta_op \<Rightarrow> 'f const list \<Rightarrow> 'f const list option" where
  "meta_value P_noteminval cs = (case cs of [a, b] \<Rightarrow> Some [a] | _ \<Rightarrow> None)"
| "meta_value P_notemaxval cs = (case cs of [a, b] \<Rightarrow> Some [a] | _ \<Rightarrow> None)"
| "meta_value P_noteintersect cs = (case cs of a # r \<Rightarrow> Some [a] | _ \<Rightarrow> None)"
| "meta_value P_conditional_error cs = (case cs of [a, p] \<Rightarrow> if p = truth True then Some [a] else None | _ \<Rightarrow> None)"
| "meta_value m cs = None"

definition prf_value :: "'f fops \<Rightarrow> prf_t \<Rightarrow> nat \<Rightarrow> 'f const list \<Rightarrow> 'f const list option" where
  "prf_value F p n cs = (case p of
     F_bin op v \<Rightarrow> (case cs of
       [a, b] \<Rightarrow> (case bin_value F op v a b of None \<Rightarrow> None | Some c \<Rightarrow> Some [c]) | _ \<Rightarrow> None)
   | F_un op v \<Rightarrow> (case cs of [a] \<Rightarrow> value_of (un_co F op a) | _ \<Rightarrow> None)
   | F_conv op \<Rightarrow> (case cs of [a] \<Rightarrow> value_of (conv_co F op a) | _ \<Rightarrow> None)
   | F_check op \<Rightarrow> check_value op n cs
   | F_meta op \<Rightarrow> meta_value op cs
   | _ \<Rightarrow> folded_value F p cs)"

subsection \<open>Expressions\<close>

definition shape_ok :: "shape \<Rightarrow> bool" where
  "shape_ok s \<longleftrightarrow> s = sh (map the (SHAPE_ELEMS s)) \<and> shape_fits (map the (SHAPE_ELEMS s))"

text \<open>The array of its elements, which agree in type and shape.\<close>

fun array_value_of :: "'f ntype \<Rightarrow> int list \<Rightarrow> 'f const list \<Rightarrow> 'f const option" where
  "array_value_of et frame [] =
     (case et of
        NT a m [NT (TC_simple s u) k []] \<Rightarrow>
          (case TYgetShape et of
             Inr shp \<Rightarrow> (let xs = frame @ map the (SHAPE_ELEMS shp) in
               if shape_ok shp \<and> shape_fits xs \<and> prod_list xs = 0 \<and> cv2cv_ext s \<noteq> EDummy then Some (con s xs []) else None)
           | Inl e \<Rightarrow> None)
      | _ \<Rightarrow> None)"
| "array_value_of et frame (c # cs) =
     (if (\<forall>d\<in>set cs. CONSTANT_TYPE d = CONSTANT_TYPE c \<and> extents d = extents c)
         \<and> prod_list frame = int (length (c # cs)) \<and> frame \<noteq> []
         \<and> shape_fits (frame @ extents c) \<and> int (length (frame @ extents c)) \<le> int_max
      then Some (con (CONSTANT_TYPE c) (frame @ extents c) (concat (map cells (c # cs))))
      else None)"

text \<open>
  An environment gives the values of the variables and of the expressions that the model does not
  look into.
\<close>

type_synonym 'f env = "(nat \<Rightarrow> 'f const) \<times> (addr \<Rightarrow> 'f const list)"

definition var :: "'f env \<Rightarrow> nat \<Rightarrow> 'f const" where
  "var \<rho> v = fst \<rho> v"

fun vals :: "'f fops \<Rightarrow> 'f env \<Rightarrow> 'f node \<Rightarrow> 'f const list option"
  and vals_list :: "'f fops \<Rightarrow> 'f env \<Rightarrow> 'f node list \<Rightarrow> 'f const list option" where
  "vals F \<rho> (N_id v) = Some [var \<rho> v]"
| "vals F \<rho> (N_avis v) = Some [var \<rho> v]"
| "vals F \<rho> (N_lit a k) = (case lit_cell k of Some (t, x) \<Rightarrow> Some [con t [] [x]] | None \<Rightarrow> None)"
| "vals F \<rho> (N_array a et s es) =
     (case vals_list F \<rho> es of
        None \<Rightarrow> None
      | Some cs \<Rightarrow> (case array_value_of et (map the (SHAPE_ELEMS s)) cs of None \<Rightarrow> None | Some c \<Rightarrow> Some [c]))"
| "vals F \<rho> (N_prf a p n es) =
     (case vals_list F \<rho> es of None \<Rightarrow> None | Some cs \<Rightarrow> prf_value F p n cs)"
| "vals F \<rho> (N_type a t) = Some []"
| "vals F \<rho> (N_str a s) = Some []"
| "vals F \<rho> (N_other a) = Some (snd \<rho> a)"
| "vals F \<rho> (N_exprs es) = vals_list F \<rho> es"
| "vals_list F \<rho> [] = Some []"
| "vals_list F \<rho> (e # es) =
     (case (vals F \<rho> e, vals_list F \<rho> es) of (Some cs, Some ds) \<Rightarrow> Some (cs @ ds) | _ \<Rightarrow> None)"

subsection \<open>Descriptions that are true\<close>

text \<open>Arguments and elements after flattening; the number of a literal fits the type of its field.\<close>

definition lit_ok :: "'f lit \<Rightarrow> bool" where
  "lit_ok k = (case lit_cell k of Some (t, x) \<Rightarrow> cval_ok x | None \<Rightarrow> False)"

fun atom :: "'f node \<Rightarrow> bool" where
  "atom (N_id v) = True"
| "atom (N_lit a k) = lit_ok k"
| "atom n = False"

definition flat_args :: "prf_t \<Rightarrow> 'f node list \<Rightarrow> bool" where
  "flat_args p es = (case p of
     F_check P_type_constraint \<Rightarrow> (case es of [N_type b t, e] \<Rightarrow> atom e | _ \<Rightarrow> False)
   | F_meta P_conditional_error \<Rightarrow> (case es of [e, q, N_str b s] \<Rightarrow> atom e \<and> atom q | _ \<Rightarrow> False)
   | _ \<Rightarrow> list_all atom es)"

fun flat :: "'f node \<Rightarrow> bool" where
  "flat (N_array a et s es) = (list_all atom es \<and> shape_ok s)"
| "flat (N_prf a p n es) = flat_args p es"
| "flat (N_lit a k) = lit_ok k"
| "flat (N_exprs es) = False"
| "flat n = True"

definition int_rel :: "(int \<Rightarrow> int \<Rightarrow> bool) \<Rightarrow> 'f const \<Rightarrow> 'f const \<Rightarrow> bool" where
  "int_rel R c d \<longleftrightarrow> (\<exists>xs as bs. c = con T_int xs (map (CInt IInt) as) \<and> d = con T_int xs (map (CInt IInt) bs)
     \<and> list_all2 R as bs)"

definition avis_ok :: "'f tenv \<Rightarrow> 'f env \<Rightarrow> 'f avis \<Rightarrow> nat \<Rightarrow> bool" where
  "avis_ok E \<rho> a v \<longleftrightarrow>
     (\<exists>s xs es. var \<rho> v = con s xs es \<and> inhab (AVIS_TYPE a) s xs es)
     \<and> (\<forall>ids rhs. AVIS_SSAASSIGN a = Some (ids, rhs) \<longrightarrow>
          v \<in> set ids \<and> distinct ids \<and> flat rhs \<and> vals (te_fops E) \<rho> rhs = Some (map (var \<rho>) ids))
     \<and> (\<forall>e. AVIS_SCALARS a = Some e \<longrightarrow> flat e \<and> vals (te_fops E) \<rho> e = Some [var \<rho> v])
     \<and> (\<forall>e. AVIS_MIN a = Some e \<longrightarrow> (\<exists>u. e = N_id u \<and> int_rel (\<le>) (var \<rho> u) (var \<rho> v)))
     \<and> (\<forall>e. AVIS_MAX a = Some e \<longrightarrow> (\<exists>u. e = N_id u \<and> int_rel (<) (var \<rho> v) (var \<rho> u)))
     \<and> (\<forall>e. AVIS_SHAPE a = Some e \<longrightarrow> flat e \<and>
          vals (te_fops E) \<rho> e = Some [con T_int [int (length (extents (var \<rho> v)))] (map (CInt IInt) (extents (var \<rho> v)))])"

definition consistent :: "'f tenv \<Rightarrow> 'f heap \<Rightarrow> 'f env \<Rightarrow> bool" where
  "consistent E H \<rho> \<longleftrightarrow> (\<forall>v. avis_ok E \<rho> (H v) v)"

end
