(* ===== verification/SCS_Follow.thy ===== *)
theory SCS_Follow
  imports SCS_Sem
begin

text \<open>
  Following definitions and matching patterns keep the value of an expression; a constant that is
  found is the value.
\<close>

subsection \<open>Values of lists of arguments\<close>

lemma vals_atom: "atom e \<Longrightarrow> vals F \<rho> e = Some cs \<Longrightarrow> \<exists>c. cs = [c]"
  by (cases e) (auto split: option.splits)

lemma vals_list_Cons: "vals_list F \<rho> (e # es) = Some ds \<longleftrightarrow>
    (\<exists>cs rs. vals F \<rho> e = Some cs \<and> vals_list F \<rho> es = Some rs \<and> ds = cs @ rs)"
  by (auto split: option.splits)

lemma vals_list_atoms:
  assumes "list_all atom es" and "vals_list F \<rho> es = Some cs"
  shows "list_all2 (\<lambda>e c. vals F \<rho> e = Some [c]) es cs"
  using assms
proof (induction es arbitrary: cs)
  case (Cons e es)
  then obtain ds rs where d: "vals F \<rho> e = Some ds" "vals_list F \<rho> es = Some rs" "cs = ds @ rs"
    unfolding vals_list_Cons by blast
  with Cons vals_atom [of e F \<rho> ds] show ?case by auto
qed simp

lemma vals_list_two [simp]: "vals_list F \<rho> [N_id x, N_id y] = Some [var \<rho> x, var \<rho> y]"
  by simp

lemma findCorrespondingArg_value:
  assumes "list_all2 (\<lambda>e c. vals F \<rho> e = Some [c]) es cs" and "findCorrespondingArg v ids es = Some e"
    and "\<And>i. i < length ids \<Longrightarrow> i < length cs \<Longrightarrow> var \<rho> (ids ! i) = cs ! i"
  shows "vals F \<rho> e = Some [var \<rho> v] \<and> e \<in> set es"
  using assms
proof (induction v ids es arbitrary: cs rule: findCorrespondingArg.induct)
  case (1 v w ids f es)
  obtain c cs' where cs: "cs = c # cs'" "vals F \<rho> f = Some [c]" "list_all2 (\<lambda>e c. vals F \<rho> e = Some [c]) es cs'"
    using 1(2) by (cases cs) auto
  show ?case
  proof (cases "w = v")
    case True
    then show ?thesis using 1(3) 1(4) [of 0] cs by simp
  next
    case False
    have "var \<rho> (ids ! i) = cs' ! i" if "i < length ids" "i < length cs'" for i
      using 1(4) [of "Suc i"] that cs by simp
    with 1(1) [OF False cs(3)] False 1(3) show ?thesis by simp
  qed
qed simp_all

subsection \<open>Following definitions\<close>

lemma consistentD:
  assumes "consistent E H \<rho>"
  obtains s xs es where "var \<rho> v = con s xs es" and "inhab (AVIS_TYPE (H v)) s xs es"
  using assms unfolding consistent_def avis_ok_def by blast

lemma consistent_def_value:
  assumes "consistent E H \<rho>" and "AVIS_SSAASSIGN (H v) = Some (ids, rhs)"
  shows "v \<in> set ids" and "distinct ids" and "flat rhs" and "vals (te_fops E) \<rho> rhs = Some (map (var \<rho>) ids)"
  using assms unfolding consistent_def avis_ok_def by blast+

lemma skip_id_value:
  assumes c: "consistent E H \<rho>" and "flat n"
  shows "flat (skip_id H n) \<and> vals (te_fops E) \<rho> (skip_id H n) = vals (te_fops E) \<rho> n"
proof (cases n)
  case (N_id v)
  show ?thesis
  proof (cases "AVIS_SSAASSIGN (H v)")
    case None
    have s: "flat e \<and> vals (te_fops E) \<rho> e = Some [var \<rho> v]" if "AVIS_SCALARS (H v) = Some e" for e
      using c that unfolding consistent_def avis_ok_def by blast
    from None show ?thesis by (auto simp: N_id skip_id_def dest: s split: option.splits)
  next
    case (Some d)
    obtain ids rhs where d: "d = (ids, rhs)" by (cases d)
    note v = consistent_def_value [OF c Some [unfolded d]]
    show ?thesis
    proof (cases "length ids = 1")
      case True
      then have "ids = [v]" using v(1) by (auto simp: length_Suc_conv)
      with True v Some d N_id show ?thesis by (simp add: skip_id_def)
    qed (simp add: N_id skip_id_def Some d)
  qed
qed (use assms in \<open>simp_all add: skip_id_def\<close>)

text \<open>The results of a check are its arguments, as far as they are followed.\<close>

lemma check_value_prefix:
  assumes "check_value op n cs = Some ds" and "op \<in> {P_guard, P_same_shape_AxA, P_non_neg_val_S, P_non_neg_val_V}"
    and "i < length ds" and "i < length cs"
  shows "ds ! i = cs ! i"
  using assms by (auto split: list.splits if_splits simp: less_Suc_eq nth_Cons)

lemma check_value_first:
  assumes "check_value op n cs = Some ds"
    and "op \<in> {P_shape_matches_dim_VxA, P_val_lt_shape_VxA, P_val_le_val_VxV, P_val_le_val_SxS, P_val_lt_val_SxS,
               P_prod_matches_prod_shape_VxA, P_type_constraint}"
  shows "cs \<noteq> [] \<and> ds \<noteq> [] \<and> hd ds = hd cs"
  using assms by (auto split: list.splits if_splits)

lemma meta_value_prefix:
  assumes "meta_value m cs = Some ds" and "m \<in> {P_noteminval, P_notemaxval, P_noteintersect}"
  shows "cs \<noteq> [] \<and> ds = [hd cs]"
  using assms by (auto split: list.splits)

lemma flat_args_atoms: "p \<noteq> F_check P_type_constraint \<Longrightarrow> p \<noteq> F_meta P_conditional_error \<Longrightarrow> flat_args p es = list_all atom es"
  by (cases p) (auto simp: flat_args_def split: guard_op.splits meta_op.splits)

lemma flat_atom: "atom e \<Longrightarrow> flat e"
  by (cases e) auto

definition good :: "'f tenv \<Rightarrow> 'f env \<Rightarrow> 'f node \<Rightarrow> 'f const list \<Rightarrow> bool" where
  "good E \<rho> n cs \<longleftrightarrow> flat n \<and> vals (te_fops E) \<rho> n = Some cs"

lemma good_id [simp]: "good E \<rho> (N_id v) cs \<longleftrightarrow> cs = [var \<rho> v]"
  by (auto simp: good_def)

lemma good_id_def:
  assumes "consistent E H \<rho>" and "AVIS_SSAASSIGN (H v) = Some (ids, N_prf a p n args)"
    and "p \<noteq> F_check P_type_constraint" and "p \<noteq> F_meta P_conditional_error"
  obtains cs where "list_all2 (\<lambda>e c. vals (te_fops E) \<rho> e = Some [c]) args cs" and "list_all atom args"
    and "prf_value (te_fops E) p n cs = Some (map (var \<rho>) ids)" and "v \<in> set ids" and "distinct ids"
proof -
  note v = consistent_def_value [OF assms(1,2)]
  have at: "list_all atom args" using v(3) assms(3,4) by (simp add: flat_args_atoms)
  obtain cs where "vals_list (te_fops E) \<rho> args = Some cs" "prf_value (te_fops E) p n cs = Some (map (var \<rho>) ids)"
    using v(4) by (auto split: option.splits)
  with that vals_list_atoms [OF at] at v(1,2) show ?thesis by blast
qed

lemma follow_corresponding:
  assumes c: "consistent E H \<rho>" and d: "AVIS_SSAASSIGN (H v) = Some (ids, N_prf a p n args)"
    and p: "p \<in> {F_check P_guard, F_check P_same_shape_AxA, F_check P_non_neg_val_S, F_check P_non_neg_val_V,
                  F_meta P_noteminval, F_meta P_notemaxval, F_meta P_noteintersect}"
    and f: "findCorrespondingArg v ids args = Some e"
  shows "good E \<rho> e [var \<rho> v]"
proof -
  obtain cs where cs: "list_all2 (\<lambda>e c. vals (te_fops E) \<rho> e = Some [c]) args cs" "list_all atom args"
      "prf_value (te_fops E) p n cs = Some (map (var \<rho>) ids)"
    using good_id_def [OF c d] p by blast
  have "map (var \<rho>) ids ! i = cs ! i" if i: "i < length ids" "i < length cs" for i
  proof (cases p)
    case (F_check op)
    then show ?thesis using p cs(3) i check_value_prefix [of op n cs "map (var \<rho>) ids" i]
      by (simp add: prf_value_def)
  next
    case (F_meta op)
    then have "cs \<noteq> [] \<and> map (var \<rho>) ids = [hd cs]"
      using p cs(3) by (intro meta_value_prefix [of op]) (auto simp: prf_value_def)
    then show ?thesis using i by (auto simp: hd_conv_nth)
  qed (use p in auto)
  then have "var \<rho> (ids ! i) = cs ! i" if "i < length ids" "i < length cs" for i using that by simp
  from findCorrespondingArg_value [OF cs(1) f this] cs(2) flat_atom show ?thesis
    by (auto simp: good_def list_all_iff)
qed

lemma follow_first:
  assumes c: "consistent E H \<rho>" and d: "AVIS_SSAASSIGN (H v) = Some (ids, N_prf a (F_check op) n args)"
    and op: "op \<in> {P_shape_matches_dim_VxA, P_val_lt_shape_VxA, P_val_le_val_VxV, P_val_le_val_SxS, P_val_lt_val_SxS,
               P_prod_matches_prod_shape_VxA}"
    and f: "first_result v ids = Inr True" and e: "PRF_ARG1 (N_prf a (F_check op) n args) = Inr e"
  shows "good E \<rho> e [var \<rho> v]"
proof -
  obtain cs where cs: "list_all2 (\<lambda>e c. vals (te_fops E) \<rho> e = Some [c]) args cs" "list_all atom args"
      "prf_value (te_fops E) (F_check op) n cs = Some (map (var \<rho>) ids)"
    using good_id_def [OF c d] op by auto
  have a: "cs \<noteq> [] \<and> ids \<noteq> [] \<and> var \<rho> (hd ids) = hd cs"
    using check_value_first [of op n cs "map (var \<rho>) ids"] cs(3) op by (auto simp: prf_value_def hd_map)
  moreover have "v = hd ids" using f by (auto simp: first_result_def check_def split: if_splits)
  ultimately show ?thesis
    using cs e flat_atom by (cases args; cases cs) (auto simp: PRF_ARG1_def PRF_ARG_def good_def)
qed

lemma follow_constraint:
  assumes c: "consistent E H \<rho>" and d: "AVIS_SSAASSIGN (H v) = Some (ids, N_prf a (F_check P_type_constraint) n args)"
    and f: "first_result v ids = Inr True" and e: "PRF_ARG2 (N_prf a (F_check P_type_constraint) n args) = Inr e"
  shows "good E \<rho> e [var \<rho> v]"
proof -
  note v = consistent_def_value [OF c d]
  obtain b t e' where args: "args = [N_type b t, e']" "atom e'"
    using v(3) by (auto simp: flat_args_def split: list.splits node.splits)
  then obtain k where k: "vals (te_fops E) \<rho> e' = Some [k]" "map (var \<rho>) ids = [k, truth True]"
    using v(4) vals_atom [of e' "te_fops E" \<rho>] by (auto simp: prf_value_def split: option.splits list.splits)
  then have "var \<rho> (hd ids) = k" by (cases ids) auto
  moreover have "v = hd ids" using f by (auto simp: first_result_def check_def split: if_splits)
  ultimately show ?thesis using args k e flat_atom by (auto simp: PRF_ARG2_def PRF_ARG_def good_def)
qed

lemma skip_prf_value:
  assumes "consistent E H \<rho>" and "good E \<rho> n cs" and "skip_prf H inspect n = Inr (Some e)"
  shows "good E \<rho> e cs"
proof (cases "e = n")
  case False
  then obtain v ids a p k args where n: "n = N_id v" "AVIS_SSAASSIGN (H v) = Some (ids, N_prf a p k args)" "inspect p"
    using assms(3) by (auto simp: skip_prf_def split: node.splits option.splits if_splits)
  have cs: "cs = [var \<rho> v]" using assms(2) n by simp
  consider
    (c) "p \<in> {F_check P_guard, F_check P_same_shape_AxA, F_check P_non_neg_val_S, F_check P_non_neg_val_V,
                  F_meta P_noteminval, F_meta P_notemaxval, F_meta P_noteintersect}"
    | (t) "p = F_check P_type_constraint"
    | (f) op where "p = F_check op" "op \<in> {P_shape_matches_dim_VxA, P_val_lt_shape_VxA, P_val_le_val_VxV,
           P_val_le_val_SxS, P_val_lt_val_SxS, P_prod_matches_prod_shape_VxA}"
    | (o) "skip_prf H inspect n = Inr (Some n)"
  proof -
    let ?A = "{F_check P_guard, F_check P_same_shape_AxA, F_check P_non_neg_val_S, F_check P_non_neg_val_V,
                  F_meta P_noteminval, F_meta P_notemaxval, F_meta P_noteintersect}"
    let ?B = "{F_check P_shape_matches_dim_VxA, F_check P_val_lt_shape_VxA, F_check P_val_le_val_VxV,
       F_check P_val_le_val_SxS, F_check P_val_lt_val_SxS, F_check P_prod_matches_prod_shape_VxA}"
    have "skip_prf H inspect n = Inr (Some n)" if "p \<notin> ?A" "p \<noteq> F_check P_type_constraint" "p \<notin> ?B"
      using n that by (simp add: skip_prf_def)
    moreover have "\<exists>op. p = F_check op \<and> op \<in> {P_shape_matches_dim_VxA, P_val_lt_shape_VxA, P_val_le_val_VxV,
           P_val_le_val_SxS, P_val_lt_val_SxS, P_prod_matches_prod_shape_VxA}" if "p \<in> ?B" using that by auto
    ultimately show ?thesis using c t f o by blast
  qed
  then show ?thesis
  proof cases
    case c
    then have "findCorrespondingArg v ids args = Some e" using assms(3) n by (auto simp: skip_prf_def)
    then show ?thesis using follow_corresponding [OF assms(1) n(2) c] cs by simp
  next
    case t
    then have "ifR (first_result v ids) (bindR (PRF_ARG2 (N_prf a p k args)) (\<lambda>e. Inr (Some e))) (Inr (Some n)) = Inr (Some e)"
      using assms(3) n by (simp add: skip_prf_def)
    then have "first_result v ids = Inr True" "PRF_ARG2 (N_prf a p k args) = Inr e"
      using False by (auto simp: ifR_def bindR_Inr_iff split: if_splits)
    then show ?thesis using follow_constraint [OF assms(1), of v ids a k args e] n t cs by simp
  next
    case (f op)
    then have "ifR (first_result v ids) (bindR (PRF_ARG1 (N_prf a p k args)) (\<lambda>e. Inr (Some e))) (Inr (Some n)) = Inr (Some e)"
      using assms(3) n by (auto simp: skip_prf_def)
    then have "first_result v ids = Inr True" "PRF_ARG1 (N_prf a p k args) = Inr e"
      using False by (auto simp: ifR_def bindR_Inr_iff split: if_splits)
    then show ?thesis using follow_first [OF assms(1), of v ids a op k args e] n f cs by simp
  next
    case o
    then show ?thesis using assms False by simp
  qed
qed (use assms in simp)

lemma apply_aspect_value:
  assumes "consistent E H \<rho>" and "good E \<rho> n cs" and "apply_aspect H a n = Inr (Some e)"
  shows "good E \<rho> e cs"
proof (cases a)
  case PMMskipId
  then show ?thesis using assms skip_id_value [OF assms(1), of n] by (auto simp: good_def)
next
  case (PMMskipPrf inspect)
  then show ?thesis using assms skip_prf_value [OF assms(1,2), of inspect e] by simp
qed

lemma skip_once_value:
  "consistent E H \<rho> \<Longrightarrow> good E \<rho> n cs \<Longrightarrow> skip_once H mode n = Inr (Some e) \<Longrightarrow> good E \<rho> e cs"
proof (induction H mode n rule: skip_once.induct)
  case (2 H a as n)
  then show ?case using apply_aspect_value [of E H \<rho> n cs a]
    by (auto simp: bindR_Inr_iff split: option.splits if_splits)
qed simp

text \<open>What every step keeps is kept to the end.\<close>

lemma skipVarDefs_run:
  assumes "skipVarDefs H mode n = Some r" and "\<And>n e. P n \<Longrightarrow> skip_once H mode n = Inr (Some e) \<Longrightarrow> P e" and "P n"
    and "r = Inr m"
  shows "P m"
  using assms
proof (induction arbitrary: m rule: skipVarDefs.raw_induct [rotated, consumes 1])
  case (1 f H mode n r)
  note ih = 1(1) and run = 1(2) and step = \<open>\<And>n e. P n \<Longrightarrow> skip_once H mode n = Inr (Some e) \<Longrightarrow> P e\<close>
    and p = \<open>P n\<close> and r = \<open>r = Inr m\<close>
  obtain o1 where o1: "skip_once H mode n = Inr o1" using run r by (cases "skip_once H mode n") auto
  show ?case
  proof (cases o1)
    case None
    then show ?thesis using run p r o1 by simp
  next
    case (Some e)
    then have e: "P e" using step [OF p] o1 by simp
    show ?thesis
    proof (cases "e = n")
      case True
      then show ?thesis using run p r o1 Some by simp
    next
      case False
      then have "f H mode e = Some r" using run o1 Some by simp
      from ih [OF this step e r] show ?thesis .
    qed
  qed
qed

lemma skipVarDefs_value:
  assumes "consistent E H \<rho>" and "skipVarDefs H mode n = Some (Inr m)" and "good E \<rho> n cs"
  shows "good E \<rho> m cs"
  using skipVarDefs_run [of H mode n "Inr m" "\<lambda>n. good E \<rho> n cs" m] skip_once_value [OF assms(1)] assms(2,3)
  by blast

end
