(* ===== verification/CT_Sound_Array.thy ===== *)
theory CT_Sound_Array
  imports CT_Sound_Struc
begin

text \<open>
  The type function of array constructors is sound: for element types that stand for arrays of the
  same element type and shape it returns a type that the array of these elements inhabits; if all
  elements are known, the type holds the array.
\<close>

subsection \<open>Concatenation of elements\<close>

text \<open>What \<open>COcat\<close> makes of an array: a scalar is a vector with one element.\<close>

definition vec_shape :: "int list \<Rightarrow> int list" where
  "vec_shape xs = (if xs = [] then [1] else xs)"

lemma vec_shape_cases: obtains y ys where "vec_shape xs = y # ys"
  by (cases xs) (auto simp: vec_shape_def)

lemma vec_shape_prod [simp]: "prod_list (vec_shape xs) = prod_list xs"
  by (simp add: vec_shape_def)

lemma vec_shape_con:
  assumes "con_ok s xs es"
  shows "scalar_to_vector (con s xs es) = Inr (con s (vec_shape xs) es)" and "con_ok s (vec_shape xs) es"
proof -
  have "con_ok s [1] es" if "xs = []" using assms that by (simp add: con_ok_def shape_fits_def int_max_def)
  with assms show "con_ok s (vec_shape xs) es" by (auto simp: vec_shape_def)
  have "es = [hd es]" if "xs = []" using assms that by (cases es) (auto simp: con_ok_def)
  then show "scalar_to_vector (con s xs es) = Inr (con s (vec_shape xs) es)"
    using assms COcopyScalar2OneElementVector_con [OF assms]
    by (cases xs) (auto simp: vec_shape_def scalar_to_vector_def CONSTANT_DIM_def SHgetDim_sh)
qed

lemma scalar_to_vector_twice [simp]: "scalar_to_vector (con s (vec_shape xs) es) = Inr (con s (vec_shape xs) es)"
  by (rule vec_shape_cases [of xs]) (simp add: scalar_to_vector_con)

lemma COcat_vectors:
  assumes "scalar_to_vector a = scalar_to_vector a'" and "scalar_to_vector b = scalar_to_vector b'"
  shows "COcat a b = COcat a' b'"
  by (simp add: COcat_def assms)

definition scaled :: "nat \<Rightarrow> int list \<Rightarrow> int list" where
  "scaled k xs = (int k * hd (vec_shape xs)) # tl (vec_shape xs)"

lemma scaled_1 [simp]: "scaled (Suc 0) xs = vec_shape xs"
  by (cases xs) (simp_all add: scaled_def vec_shape_def)

lemma scaled_prod [simp]: "prod_list (scaled k xs) = int k * prod_list xs"
  by (cases xs) (simp_all add: scaled_def vec_shape_def)

lemma vec_shape_scaled [simp]: "vec_shape (scaled k xs) = scaled k xs"
  by (simp add: vec_shape_def scaled_def)

lemma prod_frame_le:
  assumes "shape_fits (frame @ xs)" and "prod_list frame = int n" and "k \<le> n"
  shows "shape_fits (scaled k xs)"
proof -
  let ?P = "\<lambda>zs. prod_list (map (max (1::int)) zs)"
  have f: "shape_fits frame" "shape_fits xs" using shape_fits_append [OF assms(1)] by simp_all
  have n: "int n \<le> ?P frame" using prod_le_max1 [of frame] f(1) assms(2) by (simp add: shape_fits_def)
  have fits: "?P frame * ?P xs \<le> int_max" using assms(1) by (simp add: shape_fits_def)
  obtain y ys where v: "vec_shape xs = y # ys" by (rule vec_shape_cases)
  have pv: "?P (y # ys) = ?P xs" using v by (cases xs) (auto simp: vec_shape_def)
  have y: "\<forall>z\<in>set (y # ys). 0 \<le> z" using f(2) v by (cases xs) (auto simp: vec_shape_def shape_fits_def)
  have "max 1 (int k * y) \<le> ?P frame * max 1 y"
  proof -
    have "int k * y \<le> ?P frame * max 1 y" using n assms(3) y by (intro mult_mono) auto
    moreover have "1 * 1 \<le> ?P frame * max 1 y" using prod_max1_ge1 [of frame] by (intro mult_mono) auto
    ultimately show ?thesis by simp
  qed
  then have "max 1 (int k * y) * ?P ys \<le> (?P frame * max 1 y) * ?P ys"
    using prod_max1_ge1 [of ys] by (intro mult_right_mono) auto
  also have "\<dots> = ?P frame * ?P xs" using pv by simp
  finally have "max 1 (int k * y) * ?P ys \<le> int_max" using fits by simp
  with y v show ?thesis by (simp add: shape_fits_def scaled_def)
qed

text \<open>The elements are put together one by one.\<close>

definition joined :: "simpletype \<Rightarrow> int list \<Rightarrow> nat \<Rightarrow> 'f cval list \<Rightarrow> 'f const \<Rightarrow> bool" where
  "joined s xs k es c \<longleftrightarrow>
     (\<exists>zs. c = con s zs es \<and> con_ok s zs es \<and> vec_shape zs = scaled k xs \<and> prod_list zs = int k * prod_list xs)"

lemma joined_first: "con_ok s xs es \<Longrightarrow> joined s xs 1 es (con s xs es)"
  by (auto simp: joined_def)

lemma con_ok_concat:
  assumes "con_ok s ys es" and "con_ok s zs fs" and "shape_fits xs" and "prod_list xs = prod_list ys + prod_list zs"
  shows "con_ok s xs (es @ fs)"
  using assms by (auto simp: con_ok_def cells_ok_def)

lemma joined_step:
  assumes j: "joined s xs k es c" and f: "con_ok s xs fs" and fits: "shape_fits (scaled (Suc k) xs)"
  shows "\<exists>d. COcat c (con s xs fs) = Inr d \<and> joined s xs (Suc k) (es @ fs) d"
proof -
  obtain zs where c: "c = con s zs es" "con_ok s zs es" "vec_shape zs = scaled k xs" "prod_list zs = int k * prod_list xs"
    using j by (auto simp: joined_def)
  obtain y ys where v: "vec_shape xs = y # ys" by (rule vec_shape_cases)
  have sc: "scaled k xs = (int k * y) # ys" "scaled (Suc k) xs = (int k * y + y) # ys"
    using v by (simp_all add: scaled_def algebra_simps)
  have ok: "con_ok s ((int k * y) # ys) es" "con_ok s (y # ys) fs"
    using vec_shape_con(2) [OF c(2)] vec_shape_con(2) [OF f] c(3) v sc by simp_all
  have "max 1 (int k * y + y) * 1 \<le> max 1 (int k * y + y) * prod_list (map (max 1) ys)"
    using prod_max1_ge1 [of ys] by (intro mult_left_mono) auto
  with fits have "int k * y + y \<le> int_max" by (simp add: sc shape_fits_def)
  then have "COcat (con s ((int k * y) # ys) es) (con s (y # ys) fs) = Inr (con s ((int k * y + y) # ys) (es @ fs))"
    using COcat_con [OF ok] by simp
  moreover have "COcat c (con s xs fs) = COcat (con s ((int k * y) # ys) es) (con s (y # ys) fs)"
    using vec_shape_con(1) [OF c(2)] vec_shape_con(1) [OF f] c(1,3) v sc
    by (intro COcat_vectors) (simp_all add: scalar_to_vector_con)
  moreover have "con_ok s (scaled (Suc k) xs) (es @ fs)"
    using con_ok_concat [OF c(2) f fits] c(4) by (simp add: algebra_simps)
  ultimately have "COcat c (con s xs fs) = Inr (con s (scaled (Suc k) xs) (es @ fs))" by (simp only: sc)
  moreover have "joined s xs (Suc k) (es @ fs) (con s (scaled (Suc k) xs) (es @ fs))"
    using \<open>con_ok s (scaled (Suc k) xs) (es @ fs)\<close> unfolding joined_def
    by (intro exI [of _ "scaled (Suc k) xs"]) simp
  ultimately show ?thesis by blast
qed

lemma joined_all:
  assumes "joined s xs k es c" and "list_all2 (\<lambda>t fs. has_value t s xs fs \<and> con_ok s xs fs) us fss"
    and "length pre = j" and "shape_fits (scaled (k + length us) xs)" and "k + length us \<le> n"
    and "\<And>i. i \<le> n \<Longrightarrow> shape_fits (scaled i xs)"
  shows "\<exists>d. foldR (\<lambda>i tmp. bindR (bindR (TYgetProductMember (NT TC_prod m (pre @ us)) i) TYgetValue) (COcat tmp))
              [j..<j + length us] c = Inr d \<and> joined s xs (k + length us) (es @ concat fss) d"
  using assms
proof (induction us arbitrary: pre j k es c fss)
  case (Cons u us)
  obtain fs gss where f: "fss = fs # gss" "has_value u s xs fs" "con_ok s xs fs"
      "list_all2 (\<lambda>t fs. has_value t s xs fs \<and> con_ok s xs fs) us gss"
    using Cons.prems(2) by (cases fss) auto
  obtain d where d: "COcat c (con s xs fs) = Inr d" "joined s xs (Suc k) (es @ fs) d"
    using joined_step [OF Cons.prems(1) f(3)] Cons.prems(5) Cons.prems(6) [of "Suc k"] by auto
  have ih: "\<exists>e. foldR (\<lambda>i tmp. bindR (bindR (TYgetProductMember (NT TC_prod m ((pre @ [u]) @ us)) i) TYgetValue) (COcat tmp))
              [Suc j..<Suc j + length us] d = Inr e \<and> joined s xs (Suc k + length us) ((es @ fs) @ concat gss) e"
    using Cons.prems(3-5) Cons.prems(6) by (intro Cons.IH [OF d(2) f(4)]) auto
  have "[j..<j + length (u # us)] = j # [Suc j..<Suc j + length us]" using upt_conv_Cons [of j "j + length (u # us)"] by simp
  moreover have "bindR (TYgetProductMember (NT TC_prod m (pre @ u # us)) j) TYgetValue = Inr (con s xs fs)"
    using Cons.prems(3) inhab_value [OF f(2)] by (auto simp: TYgetProductMember_def nth_append)
  ultimately show ?case using ih d(1) f(1) by simp
qed simp

subsection \<open>The type of an array\<close>

definition array_args ::
  "'f ntype \<Rightarrow> 'f ntype list \<Rightarrow> int list \<Rightarrow> simpletype \<Rightarrow> int list \<Rightarrow> 'f cval list list \<Rightarrow> bool" where
  "array_args outer ts frame s xs ess \<longleftrightarrow>
     (\<exists>m b. outer = NT (TC_aks (sh frame)) m [b]) \<and> ts \<noteq> [] \<and> list_all2 (\<lambda>t es. inhab t s xs es) ts ess
     \<and> prod_list frame = int (length ts) \<and> frame \<noteq> [] \<and> shape_fits (frame @ xs)
     \<and> int (length (frame @ xs)) \<le> int_max"

lemma array_argsD:
  assumes "array_args outer ts frame s xs ess"
  obtains m b t us fs fss where "outer = NT (TC_aks (sh frame)) m [b]" and "ts = t # us" and "ess = fs # fss"
    and "inhab t s xs fs" and "list_all2 (\<lambda>t es. inhab t s xs es) us fss"
proof -
  obtain t us where "ts = t # us" using assms by (cases ts) (auto simp: array_args_def)
  with assms that show ?thesis by (cases ess) (auto simp: array_args_def)
qed

lemma concat_ok:
  assumes "list_all2 (\<lambda>t es. con_ok s xs es) ts ess"
  shows "int (length (concat ess)) = int (length ts) * prod_list xs \<and> cells_ok s (concat ess)"
  using assms
proof (induction ts arbitrary: ess)
  case (Cons t ts)
  then obtain es fss where e: "ess = es # fss" "con_ok s xs es" "list_all2 (\<lambda>t es. con_ok s xs es) ts fss" by (cases ess) auto
  have "cells_ok s (concat ess)" using Cons.IH [OF e(3)] e(1) con_okD(3) [OF e(2)] by (auto simp: cells_ok_def)
  moreover have "int (length (concat ess)) = prod_list xs + int (length ts) * prod_list xs"
    using Cons.IH [OF e(3)] e(1) con_okD(2) [OF e(2)] by simp
  ultimately show ?case by (simp add: distrib_right)
qed (simp add: cells_ok_def)

lemma array_con_ok:
  assumes "array_args outer ts frame s xs ess"
  shows "con_ok s (frame @ xs) (concat ess)"
proof -
  have "list_all2 (\<lambda>t es. inhab t s xs es) ts ess" using assms by (simp add: array_args_def)
  then have "list_all2 (\<lambda>t es. con_ok s xs es) ts ess" by (rule list_all2_mono) (rule inhab_ok)
  moreover have "cv2cv_ext s \<noteq> EDummy"
  proof -
    obtain m b t us fs fss where "inhab t s xs (fs :: 'a cval list)" using array_argsD [OF assms] .
    then show ?thesis using con_okD(4) [OF inhab_ok] by blast
  qed
  ultimately show ?thesis using assms concat_ok [of s xs ts ess] by (auto simp: con_ok_def array_args_def)
qed

lemma array_value_con:
  assumes a: "array_args outer ts frame s xs ess" and k: "list_all akv ts" and e: "inhab elem s xs es" "shp_known elem"
  shows "\<exists>r. array_value (NT TC_prod m (outer # ts)) outer elem (length (outer # ts)) = Inr r
     \<and> has_value r s (frame @ xs) (concat ess)"
proof -
  obtain m' b t us fs fss where o: "outer = NT (TC_aks (sh frame)) m' [b]" and t: "ts = t # us" and f: "ess = fs # fss"
    and i: "inhab t s xs fs" "list_all2 (\<lambda>t es. inhab t s xs es) us fss"
    using array_argsD [OF a] .
  have fits: "shape_fits (scaled i xs)" if "i \<le> length ts" for i
    using a that prod_frame_le by (auto simp: array_args_def)
  have v: "has_value t s xs fs" using k t by (intro value_if_akv [OF i(1)]) simp
  have vs: "list_all2 (\<lambda>t fs. has_value t s xs fs \<and> con_ok s xs fs) us fss"
    unfolding list_all2_conv_all_nth
  proof (intro conjI allI impI)
    show "length us = length fss" using i(2) by (rule list_all2_lengthD)
    fix j assume j: "j < length us"
    then have "inhab (us ! j) s xs (fss ! j)" "akv (us ! j)" using i(2) k t by (auto simp: list_all2_conv_all_nth list_all_iff)
    then show "has_value (us ! j) s xs (fss ! j)" "con_ok s xs (fss ! j)" by (simp_all add: value_if_akv inhab_ok)
  qed
  obtain d where d: "foldR (\<lambda>i tmp. bindR (bindR (TYgetProductMember (NT TC_prod m ([outer, t] @ us)) i) TYgetValue) (COcat tmp))
        [2..<2 + length us] (con s xs fs) = Inr d" "joined s xs (1 + length us) (concat ess) d"
    using joined_all [OF joined_first [OF inhab_ok [OF i(1)]] vs, of "[outer, t]" 2 "length ts" m] fits t f by auto
  then obtain zs where zs: "d = con s zs (concat ess)" "con_ok s zs (concat ess)" "prod_list zs = int (length ts) * prod_list xs"
    using t by (auto simp: joined_def)
  have fr: "shape_fits (frame @ xs)" "prod_list (frame @ xs) = prod_list zs" using a zs(3) by (auto simp: array_args_def)
  obtain bt where bt: "scalar_of elem = Inr bt" "elem_type bt s" using inhab_scalar_of [OF e(1)] .
  have len: "int (length (frame @ xs)) \<le> int_max" using a by (simp add: array_args_def)
  have rs: "COreshape (con T_int [int (length (frame @ xs))] (map (CInt IInt) (frame @ xs))) d = Inr (con s (frame @ xs) (concat ess))"
    using COreshape_con [OF zs(2) fr] zs(1) by simp
  have val: "bindR (bindR (TYgetProductMember (NT TC_prod m (outer # ts)) 1) TYgetValue) COcopyConstant = Inr (con s xs fs)"
    using t inhab_value [OF v] COcopyConstant_con [OF inhab_ok [OF i(1)]] by (simp add: TYgetProductMember_def)
  have shp: "TYgetShape outer = Inr (sh frame)" "TYgetShape elem = Inr (sh xs)"
    using o inhab_shape [OF e] by (simp_all add: TYgetShape_def)
  have mk: "bindR (SHappendShapes (sh frame) (sh xs)) COmakeConstantFromShape
      = Inr (con T_int [int (length (frame @ xs))] (map (CInt IInt) (frame @ xs)) :: 'a const)"
    using COmakeConstantFromShape_con [OF len] by (simp add: SHappendShapes_sh)
  have n: "[2..<length (outer # ts)] = [2..<2 + length us]" "outer # ts = [outer, t] @ us" using t by simp_all
  obtain r where r: "TYmakeAKV bt (con s (frame @ xs) (concat ess)) = Inr r" "has_value r s (frame @ xs) (concat ess)"
    using elem_akv [OF bt(2)] by blast
  have "array_value (NT TC_prod m (outer # ts)) outer elem (length (outer # ts)) = Inr r"
    unfolding array_value_def val n(1) using d(1) shp bt(1) mk rs r(1) by (simp only: n(2) bindR_simps)
  with r(2) show ?thesis by blast
qed

lemma lift_known:
  assumes "inhab t s xs es" and "shp_known t"
  shows "\<exists>m b. lift_akv t = Inr (NT (TC_aks (sh xs)) m [b]) \<and> elem_type b s"
proof -
  obtain r where r: "lift_akv t = Inr r" "has_shape r s xs" using inhab_lift_akv [OF assms(1)] by blast
  have "shp_known r"
  proof (rule inhab_form [OF assms(1)])
    fix m b assume t: "t = NT (TC_akv (con s xs es)) m [b]" "elem_type b s"
    obtain c where "TYcopyType b = Inr c" "elem_type c s" using copy_elem [OF t(2)] .
    with t r(1) show ?thesis
      by (auto simp: lift_akv_def con_akv_def is_con_def TYgetScalar_def TYgetShape_def COgetShape_def SHcopyShape_sh TYmakeAKS_def
          make_array_eq)
  qed (use assms(2) r(1) in \<open>auto simp: lift_akv_def con_akv_def is_con_def\<close>)
  with r show ?thesis by (auto simp: has_shape_def elim!: attr_shape_cases)
qed

lemma assure_known:
  assumes "inhab t s xs es" and "inhab u s xs fs" and "shp_known t" and "shp_known u" and "TEassureSameShape t u = retT r"
  shows "shp_known r"
proof -
  obtain m b m' b' where l: "lift_akv t = Inr (NT (TC_aks (sh xs)) m [b])" "elem_type b s"
      "lift_akv u = Inr (NT (TC_aks (sh xs)) m' [b'])" "elem_type b' s"
    using lift_known [OF assms(1,3)] lift_known [OF assms(2,4)] by blast
  obtain c where "TYcopyType b = Inr c" using copy_elem [OF l(2)] .
  moreover obtain c' where "TYcopyType b' = Inr c'" using copy_elem [OF l(4)] .
  ultimately obtain k d where "TEassureSameShape t u = retT (NT (TC_aks (sh xs)) k [d])"
    using l by (auto simp: TEassureSameShape_def same_shape_type_def copy_if_def SHcompareShapes_sh SHcopyShape_sh)
  then have "retT r None = (retT (NT (TC_aks (sh xs)) k [d]) :: 'a ntype tem) None" using assms(5) by simp
  then show ?thesis by simp
qed

lemma array_elems:
  assumes "inhab elem s xs es" and "list_all2 (\<lambda>t es. inhab t s xs es) us fss" and "length pre = j"
  shows "\<exists>r. foldT (array_elem E (NT TC_prod m (pre @ us))) [j..<j + length us] elem None = Some (Inr (r, None))
     \<and> inhab r s xs es \<and> (shp_known elem \<longrightarrow> list_all shp_known us \<longrightarrow> shp_known r)"
  using assms
proof (induction us arbitrary: pre j elem fss)
  case (Cons u us)
  obtain fs gss where f: "fss = fs # gss" "inhab u s xs fs" "list_all2 (\<lambda>t es. inhab t s xs es) us gss"
    using Cons.prems(2) by (cases fss) auto
  have sc: "TEassureSameScalarType E elem u = retT ()" by (rule assure_same_scalar [OF Cons.prems(1) f(2)])
  obtain r where r: "TEassureSameShape elem u = retT r" "has_shape r s xs"
    using assure_same_shape [OF Cons.prems(1) f(2)] .
  have i: "inhab r s xs es" using r(2) inhab_ok [OF Cons.prems(1)] by (simp add: inhab_def)
  have step: "array_elem E (NT TC_prod m (pre @ u # us)) j elem None = Some (Inr (r, None))"
    using sc r(1) Cons.prems(3) by (simp add: array_elem_def nth_append)
  obtain q where "foldT (array_elem E (NT TC_prod m ((pre @ [u]) @ us))) [Suc j..<Suc j + length us] r None = Some (Inr (q, None))"
      "inhab q s xs es" "shp_known r \<longrightarrow> list_all shp_known us \<longrightarrow> shp_known q"
    using Cons.IH [OF i f(3), of "pre @ [u]" "Suc j"] Cons.prems(3) by auto
  moreover have "shp_known elem \<Longrightarrow> shp_known u \<Longrightarrow> shp_known r"
    by (rule assure_known [OF Cons.prems(1) f(2) _ _ r(1)])
  moreover have "[j..<j + length (u # us)] = j # [Suc j..<Suc j + length us]"
    using upt_conv_Cons [of j "j + length (u # us)"] by simp
  ultimately show ?case using step by (auto simp: run_bind_None)
qed simp

lemma nest_array:
  assumes "inhab elem s xs es" and "\<exists>m b. outer = NT (TC_aks (sh frame)) m [b]" and "frame \<noteq> []"
    and "int (length (frame @ xs)) \<le> int_max"
  shows "\<exists>r. TYnestTypes outer elem = Inr r \<and> has_shape r s (frame @ xs)"
proof -
  obtain m b where o: "outer = NT (TC_aks (sh frame)) m [b]" using assms(2) by blast
  have d: "TYgetDim outer = Inr (int (length frame))" using o by (simp add: dim_defs)
  have len: "to_size (int (length frame) + int (length xs)) = length frame + length xs"
    using to_size_length [of "length (frame @ xs)"] assms(4) by simp
  show ?thesis
  proof (rule inhab_form [OF assms(1)])
    fix m b assume t: "elem = NT (TC_akv (con s xs es)) m [b]" "elem_type b s"
    obtain c where "TYcopyType b = Inr c" "elem_type c s" using copy_elem [OF t(2)] .
    with t o show ?thesis by (auto simp: TYnestTypes_def copy_base_def TYgetShape_def COgetShape_def SHappendShapes_sh
          TYmakeAKS_def make_array_eq has_shape_def)
  next
    fix m b assume t: "elem = NT (TC_aks (sh xs)) m [b]" "elem_type b s"
    obtain c where "TYcopyType b = Inr c" "elem_type c s" using copy_elem [OF t(2)] .
    with t o show ?thesis by (auto simp: TYnestTypes_def copy_base_def SHappendShapes_sh
          TYmakeAKS_def make_array_eq has_shape_def)
  next
    fix m b assume t: "elem = NT (TC_akd (length xs) (Some (sh []))) m [b]" "elem_type b s" "xs \<noteq> []"
    obtain c where "TYcopyType b = Inr c" "elem_type c s" using copy_elem [OF t(2)] .
    with t o d len assms(3) show ?thesis by (auto simp: TYnestTypes_def copy_base_def SHmakeShape_0
          TYmakeAKD_def make_array_eq has_shape_def sh_def [of "[]"])
  next
    fix m b assume t: "elem = NT TC_audgz m [b]" "elem_type b s" "xs \<noteq> []"
    obtain c where "TYcopyType b = Inr c" "elem_type c s" using copy_elem [OF t(2)] .
    with t o show ?thesis by (auto simp: TYnestTypes_def has_shape_def)
  next
    fix m b assume t: "elem = NT TC_aud m [b]" "elem_type b s"
    obtain c where "TYcopyType b = Inr c" "elem_type c s" using copy_elem [OF t(2)] .
    with t o d assms(3) show ?thesis by (auto simp: TYnestTypes_def nest_gz_def copy_base_def TYmakeAUDGZ_def make_array_eq has_shape_def)
  qed
qed

lemma all_members_prod:
  assumes "i \<le> length ts" and "\<And>t. t \<in> set (drop i ts) \<Longrightarrow> test t = Inr (P t)"
  shows "all_members test (NT TC_prod m ts) i = Inr (list_all P (drop i ts))"
proof -
  let ?f = "\<lambda>i res. bindR (TYgetProductMember (NT TC_prod m ts) (nat i)) (\<lambda>arg. if res then test arg else Inr False)"
  have "cfor (int j) (int (length ts)) ?f b = Inr (b \<and> list_all P (drop j ts))" if "i \<le> j" "j \<le> length ts" for j b
    using that
  proof (induction "length ts - j" arbitrary: j b)
    case (Suc n)
    then have j: "j < length ts" by simp
    have "ts ! j \<in> set (drop i ts)" using Suc.prems j
      by (auto simp: in_set_conv_nth intro!: exI [of _ "j - i"])
    then have "?f (int j) b = Inr (b \<and> P (ts ! j))" using assms(2) j by (simp add: TYgetProductMember_def)
    moreover have "cfor (int (Suc j)) (int (length ts)) ?f (b \<and> P (ts ! j))
        = Inr ((b \<and> P (ts ! j)) \<and> list_all P (drop (Suc j) ts))"
      using Suc.hyps(1) [of "Suc j"] Suc.hyps(2) Suc.prems j by simp
    moreover have "drop j ts = ts ! j # drop (Suc j) ts" using j by (simp add: Cons_nth_drop_Suc)
    ultimately show ?case using j by (simp add: cfor_step add.commute)
  qed simp
  from this [of i True] assms(1) show ?thesis by (simp add: all_members_def TYisProd_def is_con_def TYgetProductSize_def)
qed

lemma inhab_copy:
  assumes "inhab t s xs es"
  shows "\<exists>r. TYcopyType t = Inr r \<and> inhab r s xs es \<and> akv r = akv t"
proof (rule inhab_cases [OF assms])
  assume v: "akv t" "has_value t s xs es"
  then obtain m b where t: "t = NT (TC_akv (con s xs es)) m [b]" "elem_type b s" by (elim has_valueE)
  moreover obtain c where "TYcopyType b = Inr c" "elem_type c s" using copy_elem [OF t(2)] .
  ultimately show ?thesis
    using COcopyConstant_con [OF inhab_ok [OF assms]] inhab_ok [OF assms] by (auto simp: inhab_def has_value_def)
next
  assume v: "\<not> akv t" "has_shape t s xs"
  with has_shape_copy [OF v(2)] inhab_ok [OF assms] show ?thesis by (auto simp: inhab_def)
qed

lemma run_results_bind: "m None = Some (Inr (x, None)) \<Longrightarrow> results k (bindT m f) None = results k (f x) None"
  by (simp add: results_def bindT_def)

theorem array_type_sound:
  assumes "array_args outer ts frame s xs ess"
  shows "returns (NTCCTprf_array E info (NT TC_prod m (outer # ts)) None) s (frame @ xs) (concat ess)"
proof -
  obtain m' b t us fs fss where o: "outer = NT (TC_aks (sh frame)) m' [b]" and t: "ts = t # us" and f: "ess = fs # fss"
    and i: "inhab t s xs fs" "list_all2 (\<lambda>t es. inhab t s xs es) us fss"
    using array_argsD [OF assms] .
  let ?elems = "NT TC_prod m (outer # ts)"
  note ok = array_con_ok [OF assms]
  obtain t0 where t0: "TYcopyType t = Inr t0" "inhab t0 s xs fs" "akv t0 = akv t" using inhab_copy [OF i(1)] by blast
  obtain elem where e: "foldT (array_elem E ?elems) [2..<length (outer # ts)] t0 None = Some (Inr (elem, None))"
      "inhab elem s xs fs" "shp_known t0 \<longrightarrow> list_all shp_known us \<longrightarrow> shp_known elem"
    using array_elems [OF t0(2) i(2), of "[outer, t]" 2 E m] t by auto
  have all: "list_all2 (\<lambda>t es. inhab t s xs es) ts ess" using i t f by simp
  have "TYisAKV u = Inr (akv u)" if "u \<in> set ts" for u
    using all that by (auto simp: list_all2_conv_all_nth in_set_conv_nth inhab_tests)
  then have test: "TYisProdOfAKVafter ?elems 1 = Inr (list_all akv ts)"
    using all_members_prod [of 1 "outer # ts" TYisAKV akv m] by (simp add: TYisProdOfAKVafter_def)
  have run: "NTCCTprf_array E info ?elems None = results 1 (ifT (TYisProdOfAKVafter ?elems 1)
      (one_type (array_value ?elems outer elem (length (outer # ts)))) (one_type (TYnestTypes outer elem))) None"
    using t t0(1) e(1) by (simp add: NTCCTprf_array_def TYgetProductSize_def run_bind_None run_results_bind run_results_stage del: upt_Suc)
  show ?thesis
  proof (cases "list_all akv ts")
    case True
    then have "shp_known elem" using e(3) t t0(3) akv_known by (auto simp: list_all_iff)
    then obtain r where "array_value ?elems outer elem (length (outer # ts)) = Inr r" "has_value r s (frame @ xs) (concat ess)"
      using array_value_con [OF assms True e(2), of m] by blast
    then show ?thesis using run test True run_one_type [OF has_value_result, of r] ok by (auto simp: returns_def inhab_def)
  next
    case False
    obtain r where "TYnestTypes outer elem = Inr r" "has_shape r s (frame @ xs)"
      using nest_array [OF e(2), of outer frame] assms by (auto simp: array_args_def)
    then show ?thesis using run test False returns_shape [OF _ ok, of r] by simp
  qed
qed

end
