(* ===== verification/SCS_Types.thy ===== *)
theory SCS_Types
  imports SCS_Follow CT_Sound_Array
begin

text \<open>
  The types that are computed for flat expressions: the value of the expression inhabits its type, so
  that a constant type holds the value.
\<close>

subsection \<open>Copies of types\<close>

definition types :: "'f ntype \<Rightarrow> 'f const \<Rightarrow> bool" where
  "types t c \<longleftrightarrow> (\<exists>s xs es. c = con s xs es \<and> inhab t s xs es)"

lemma types_con [simp]: "types t (con s xs es) \<longleftrightarrow> inhab t s xs es"
  by (auto simp: types_def)

lemma inhab_eliminateAlpha:
  assumes "inhab t s xs es"
  shows "TYeliminateAlpha t = TYcopyType t"
  by (rule inhab_form [OF assms]) simp_all

lemma elem_fix:
  assumes "elem_type b s"
  shows "\<exists>c. TYfixAndEliminateAlpha b = Inr c \<and> elem_type c s"
  using assms by (auto simp: elem_type_def)

lemma inhab_fix:
  assumes "inhab t s xs es"
  shows "\<exists>r. TYfixAndEliminateAlpha t = Inr r \<and> inhab r s xs es \<and> akv r = akv t"
proof -
  note ok = inhab_ok [OF assms]
  show ?thesis
  proof (rule inhab_form [OF assms])
    fix m b assume t: "t = NT (TC_akv (con s xs es)) m [b]" "elem_type b s"
    obtain c where "TYfixAndEliminateAlpha b = Inr c" "elem_type c s" using elem_fix [OF t(2)] by blast
    with t ok COcopyConstant_con [OF ok] show ?thesis by (auto simp: inhab_def has_value_def)
  next
    fix m b assume t: "t = NT (TC_aks (sh xs)) m [b]" "elem_type b s"
    obtain c where "TYfixAndEliminateAlpha b = Inr c" "elem_type c s" using elem_fix [OF t(2)] by blast
    with t ok show ?thesis by (auto simp: inhab_def has_shape_def SHcopyShape_sh)
  next
    fix m b assume t: "t = NT (TC_akd (length xs) (Some (sh []))) m [b]" "elem_type b s" "xs \<noteq> []"
    obtain c where "TYfixAndEliminateAlpha b = Inr c" "elem_type c s" using elem_fix [OF t(2)] by blast
    with t ok show ?thesis by (auto simp: inhab_def has_shape_def SHcopyShape_sh)
  next
    fix m b assume t: "t = NT TC_audgz m [b]" "elem_type b s" "xs \<noteq> []"
    obtain c where "TYfixAndEliminateAlpha b = Inr c" "elem_type c s" using elem_fix [OF t(2)] by blast
    with t ok show ?thesis by (auto simp: inhab_def has_shape_def)
  next
    fix m b assume t: "t = NT TC_aud m [b]" "elem_type b s"
    obtain c where "TYfixAndEliminateAlpha b = Inr c" "elem_type c s" using elem_fix [OF t(2)] by blast
    with t ok show ?thesis by (auto simp: inhab_def has_shape_def)
  qed
qed

subsection \<open>Identifiers and literals\<close>

lemma lit_con_ok:
  assumes "lit_cell k = Some (t, x)" and "cval_ok x"
  shows "con_ok t [] [x]" and "t \<noteq> T_hidden" and "lit_base k = t"
proof -
  have t: "cell_type t = Some (ctype_of x) \<and> t \<noteq> T_hidden \<and> lit_base k = t \<and> cv2cv_ext t \<noteq> EDummy"
    using assms(1) by (cases k) (auto simp: cell_type_def)
  then show "con_ok t [] [x]" "t \<noteq> T_hidden" "lit_base k = t"
    using assms(2) by (simp_all add: con_ok_def cells_ok_def shape_fits_def int_max_def)
qed

lemma lit_const_con:
  assumes "lit_cell k = Some (t, x)" and "cval_ok x"
  shows "lit_const k = Inr (Some (con t [] [x]))"
  using assms lit_con_ok [OF assms] COmakeConstant_con [of "[]" "[x]" t]
  by (simp add: lit_const_def SHmakeShape_0 sh_def con_ok_def)

lemma ntc_atom:
  fixes E :: "'f tenv"
  assumes "consistent E H \<rho>" and "atom e" and "vals F \<rho> e = Some [c]"
  shows "\<exists>t. NTCtype E H e b = Some (Inr (t, b)) \<and> types t c"
proof (cases e)
  case (N_id v)
  obtain s xs es where v: "var \<rho> v = con s xs es" "inhab (AVIS_TYPE (H v)) s xs es"
    using consistentD [OF assms(1)] .
  obtain r where r: "TYcopyType (AVIS_TYPE (H v)) = Inr r" "inhab r s xs es" using inhab_copy [OF v(2)] by blast
  have "AVIS_TYPE (H v) \<noteq> NullT" using v(2) by (auto elim: inhab_form)
  moreover have "c = con s xs es" using N_id assms(3) v by simp
  ultimately show ?thesis using N_id r by (simp add: liftT_def)
next
  case (N_lit a k)
  then obtain t x where k: "lit_cell k = Some (t, x)" "cval_ok x"
    using assms(2) by (auto simp: lit_ok_def split: option.splits)
  obtain bt :: "'f ntype" where bt: "TYmakeSimpleType t = Inr bt" "elem_type bt t" using make_elem lit_con_ok(2) [OF k] by blast
  obtain r where r: "TYmakeAKV bt (con t [] [x]) = Inr r" "has_value r t [] [x]" using elem_akv [OF bt(2)] by blast
  have "c = con t [] [x]" using assms(3) N_lit k by simp
  then show ?thesis
    using N_lit lit_const_con [OF k] bt r lit_con_ok [OF k] by (simp add: NTCBASIC_def liftT_def inhabI(1))
qed (use assms(2) in simp_all)

subsection \<open>Products of argument types\<close>

lemma set_member:
  assumes "length ts = k"
  shows "TYsetProductMember (NT TC_prod m (ts @ u # us)) k t = Inr (NT TC_prod m (ts @ t # us))"
  using assms by (simp add: TYsetProductMember_def list_update_append)

lemma ntc_exprs:
  fixes E :: "'f tenv"
  assumes "consistent E H \<rho>" and "list_all2 (\<lambda>e c. vals F \<rho> e = Some [c]) es cs" and "list_all atom es"
  shows "\<exists>ts. NTCexprs E H k es b = Some (Inr (NT TC_prod default_meta (replicate k NullT @ ts), b)) \<and> list_all2 types ts cs"
  using assms(2,3)
proof (induction es arbitrary: cs k)
  case Nil
  then show ?case by (simp add: TYmakeEmptyProductType_def MakeNtype_def liftT_def)
next
  case (Cons e es)
  then obtain c cs' where cs: "cs = c # cs'" "vals F \<rho> e = Some [c]" "list_all2 (\<lambda>e c. vals F \<rho> e = Some [c]) es cs'"
    by (cases cs) auto
  obtain t where t: "NTCtype E H e b = Some (Inr (t, b))" "types t c"
    using ntc_atom [OF assms(1) _ cs(2)] Cons.prems(2) by auto
  obtain ts where ts: "NTCexprs E H (k + 1) es b = Some (Inr (NT TC_prod default_meta (replicate (k + 1) NullT @ ts), b))"
      "list_all2 types ts cs'"
    using Cons.IH [OF cs(3), of "k + 1"] Cons.prems(2) by auto
  have "TYsetProductMember (NT TC_prod default_meta (replicate (k + 1) NullT @ ts)) k t
      = Inr (NT TC_prod default_meta (replicate k NullT @ t # ts))"
    using set_member [of "replicate k NullT" k default_meta NullT ts t] by (simp add: replicate_append_same [symmetric])
  with t ts cs show ?case by (auto simp: bindT_def liftT_def intro!: exI [of _ "t # ts"])
qed

lemma types_copy:
  assumes "types t c"
  shows "\<exists>r. TYeliminateAlpha t = Inr r \<and> types r c \<and> akv r = akv t"
proof -
  obtain s xs es where c: "c = con s xs es" "inhab t s xs es" using assms by (auto simp: types_def)
  then show ?thesis using inhab_copy [OF c(2)] inhab_eliminateAlpha [OF c(2)] by auto
qed

lemma types_copies:
  assumes "list_all2 types ts cs"
  shows "\<exists>rs. mapR TYeliminateAlpha ts = Inr rs \<and> list_all2 types rs cs \<and> map akv rs = map akv ts"
  using assms
proof (induction ts arbitrary: cs)
  case (Cons t ts)
  then obtain c cs' where cs: "cs = c # cs'" "types t c" "list_all2 types ts cs'" by (cases cs) auto
  obtain rs where "mapR TYeliminateAlpha ts = Inr rs" "list_all2 types rs cs'" "map akv rs = map akv ts"
    using Cons.IH [OF cs(3)] by blast
  moreover obtain r where "TYeliminateAlpha t = Inr r" "types r c" "akv r = akv t" using types_copy [OF cs(2)] by blast
  ultimately show ?case using cs(1) by auto
qed simp

lemma types_array: "types t c \<Longrightarrow> TYisArray t = Inr True"
  by (auto simp: types_def TYisArray_def is_con_def elim!: inhab_form)

subsection \<open>The type of an expression\<close>

definition typed :: "'f tenv \<Rightarrow> 'f heap \<Rightarrow> 'f node \<Rightarrow> 'f const \<Rightarrow> bool" where
  "typed E H n c \<longleftrightarrow> (\<exists>t. NTCnewTypeCheck_Expr E H n = Some (Inr t) \<and> types t c)"

lemma typedI:
  assumes "NTCtype E H n None = Some (Inr (t, b))" and "types t c"
  shows "typed E H n c"
proof -
  obtain s xs es where c: "c = con s xs es" "inhab t s xs es" using assms(2) by (auto simp: types_def)
  with inhab_fix [OF c(2)] assms(1) show ?thesis by (auto simp: typed_def NTCnewTypeCheck_Expr_def bindO_def)
qed

lemma typed_atom:
  assumes "consistent E H \<rho>" and "atom e" and "vals F \<rho> e = Some [c]"
  shows "typed E H e c"
  using ntc_atom [OF assms, of None] by (blast intro: typedI)

lemma array_types:
  assumes "list_all2 types ts cs" and "\<forall>d\<in>set cs. CONSTANT_TYPE d = s \<and> extents d = xs"
  shows "list_all2 (\<lambda>t es. inhab t s xs es) ts (map cells cs)"
  using assms
proof (induction ts arbitrary: cs)
  case (Cons t ts)
  then obtain d ds where d: "cs = d # ds" "types t d" "list_all2 types ts ds" by (cases cs) auto
  then obtain s' xs' es where "d = con s' xs' es" "inhab t s' xs' es" by (auto simp: types_def)
  with d Cons show ?case by auto
qed simp

lemma eliminate_array:
  assumes "list_all2 types ts cs" and "TYmakeAKS b (sh frame) = Inr outer" and "elem_type b T_int"
  shows "\<exists>o' ts' m b'. TYeliminateAlpha (NT TC_prod k (outer # ts)) = Inr (NT TC_prod default_meta (o' # ts'))
     \<and> o' = NT (TC_aks (sh frame)) m [b'] \<and> list_all2 types ts' cs"
proof -
  obtain ts' where ts': "mapR TYeliminateAlpha ts = Inr ts'" "list_all2 types ts' cs" using types_copies [OF assms(1)] by blast
  have o: "outer = NT (TC_aks (sh frame)) default_meta [b]" using assms(2) by (simp add: TYmakeAKS_def make_array_eq)
  obtain c where "TYcopyType b = Inr c" using copy_elem [OF assms(3)] .
  then obtain m where "TYeliminateAlpha outer = Inr (NT (TC_aks (sh frame)) m [c])"
    using o by (auto simp: SHcopyShape_sh)
  with ts' show ?thesis by auto
qed

lemma prod_of_array:
  assumes "list_all2 types ts cs"
  shows "TYisProdOfArray (NT TC_prod m (NT (TC_aks p) k us # ts)) = Inr True"
proof -
  have "TYisArray t = Inr True" if "t \<in> set (NT (TC_aks p) k us # ts)" for t
  proof (cases "t \<in> set ts")
    case True
    then obtain c where "types t c" using assms by (auto simp: list_all2_conv_all_nth in_set_conv_nth)
    then show ?thesis by (rule types_array)
  qed (use that in \<open>simp add: TYisArray_def is_con_def\<close>)
  then show ?thesis
    using all_members_prod [of 0 "NT (TC_aks p) k us # ts" TYisArray "\<lambda>t. True" m]
    by (simp add: TYisProdOfArray_def list_all_iff)
qed

lemma typed_array:
  fixes E :: "'f tenv"
  assumes c: "consistent E H \<rho>" and g: "good E \<rho> (N_array a et s es) [v]"
  shows "typed E H (N_array a et s es) v"
proof (cases es)
  case Nil
  then obtain x m st u k shp where et: "et = NT x m [NT (TC_simple st u) k []]" "TYgetShape et = Inr shp" "shape_ok shp"
    and v: "v = con st (map the (SHAPE_ELEMS s) @ map the (SHAPE_ELEMS shp)) []"
    and f: "shape_fits (map the (SHAPE_ELEMS s) @ map the (SHAPE_ELEMS shp))" "cv2cv_ext st \<noteq> EDummy"
       "prod_list (map the (SHAPE_ELEMS s) @ map the (SHAPE_ELEMS shp)) = 0"
    using g by (auto simp: good_def Let_def split: option.splits if_splits ntype.splits list.splits tattr.splits sum.splits)
  let ?xs = "map the (SHAPE_ELEMS s)" and ?ys = "map the (SHAPE_ELEMS shp)"
  have sh: "s = sh ?xs" "shp = sh ?ys" using g et(3) by (simp_all add: good_def shape_ok_def)
  have xc: "x = TC_aks shp \<or> (\<exists>k. x = TC_akv k)" using et(1,2) by (auto simp: TYgetShape_def split: tattr.splits)
  have st: "elem_type (NT (TC_simple st u) k []) st" by (simp add: elem_type_def)
  obtain b :: "'f ntype" where b: "TYcopyType (NT (TC_simple st u) k []) = Inr b" "elem_type b st" using copy_elem [OF st] .
  have app: "SHappendShapes s shp = Inr (sh (?xs @ ?ys))" using SHappendShapes_sh [of ?xs ?ys] sh by simp
  have con: "COmakeConstant st (sh (?xs @ ?ys)) [] = Inr (con st (?xs @ ?ys) [] :: 'f const)"
    using COmakeConstant_con [of "?xs @ ?ys" "[]" st] f by simp
  obtain r :: "'f ntype" where r: "TYmakeAKV b (con st (?xs @ ?ys) []) = Inr r" "has_value r st (?xs @ ?ys) []" using elem_akv [OF b(2)] by blast
  have t: "NTCtype E H (N_array a et s []) None = Some (Inr (r, None))"
    using xc et(2) b(1) r(1) app con
    by (auto simp: et(1) TYisArray_def is_con_def TYgetScalar_def test_defs TYisSimple_def TYgetSimpleType_def)
  show ?thesis unfolding Nil using typedI [OF t] r(2) f v by (simp add: inhab_def con_ok_def cells_ok_def)
next
  case (Cons e rest)
  let ?xs = "map the (SHAPE_ELEMS s)"
  have at: "list_all atom es" "shape_ok s" using g by (simp_all add: good_def)
  obtain cs where cs: "vals_list (te_fops E) \<rho> es = Some cs" "array_value_of et ?xs cs = Some v"
    using g by (auto simp: good_def split: option.splits)
  note all = vals_list_atoms [OF at(1) cs(1)]
  obtain ts where ts: "NTCexprs E H 1 es None = Some (Inr (NT TC_prod default_meta (NullT # ts), None))" "list_all2 types ts cs"
    using ntc_exprs [OF c all at(1), of 1] by auto
  obtain b :: "'f ntype" where b: "TYmakeSimpleType T_int = Inr b" "elem_type b T_int" using make_elem [of T_int] by auto
  obtain outer where outer: "TYmakeAKS b (sh ?xs) = Inr outer" by (simp add: TYmakeAKS_def make_array_eq)
  have sh: "SHcopyShape s = Inr (sh ?xs)" using SHcopyShape_sh [of ?xs] at(2) by (simp add: shape_ok_def)
  obtain o' ts' m b' where el: "TYeliminateAlpha (NT TC_prod default_meta (outer # ts)) = Inr (NT TC_prod default_meta (o' # ts'))"
      "o' = NT (TC_aks (sh ?xs)) m [b']" "list_all2 types ts' cs"
    using eliminate_array [OF ts(2) outer b(2)] by blast
  obtain d ds where d: "cs = d # ds" using all Cons by (cases cs) auto
  have vv: "\<forall>k\<in>set cs. CONSTANT_TYPE k = CONSTANT_TYPE d \<and> extents k = extents d" "prod_list ?xs = int (length cs)" "?xs \<noteq> []"
      "shape_fits (?xs @ extents d)" "int (length (?xs @ extents d)) \<le> int_max"
      "v = con (CONSTANT_TYPE d) (?xs @ extents d) (concat (map cells cs))"
    using cs(2) d by (auto split: if_splits)
  have "array_args o' ts' ?xs (CONSTANT_TYPE d) (extents d) (map cells cs)"
    using array_types [OF el(3) vv(1)] el(2,3) vv(2-5) d by (auto simp: array_args_def list_all2_lengthD)
  from array_type_sound [OF this, of E "TEmakeInfoPrf 0 ''file'' TE_prf ''array-constructor'' (F_conv P_tobool) 1" default_meta]
  obtain r where r: "NTCCTprf_array E (TEmakeInfoPrf 0 ''file'' TE_prf ''array-constructor'' (F_conv P_tobool) 1)
        (NT TC_prod default_meta (o' # ts')) None = Some (Inr (NT TC_prod default_meta [r], None))"
      "inhab r (CONSTANT_TYPE d) (?xs @ extents d) (concat (map cells cs))"
    by (auto simp: returns_def)
  have t: "NTCtype E H (N_array a et s es) None = Some (Inr (r, None))"
    using Cons ts(1) sh b(1) outer set_member [of "[]" 0 default_meta NullT ts outer] el prod_of_array [OF el(3)] r(1)
    by (simp add: run_bind_None NTCCTcomputeType_def TYgetProductMember_def)
  show ?thesis using typedI [OF t] r(2) vv(6) by simp
qed

end
