(* ===== verification/SCS_Const.thy ===== *)
theory SCS_Const
  imports SCS_Types
begin

text \<open>
  Constants that are found are the values of the expressions, and the expressions that are made from
  constants have these values.
\<close>

subsection \<open>Computations that return\<close>

lemma bindO_Some_Inr: "bindO m f = Some (Inr y) \<longleftrightarrow> (\<exists>x. m = Some (Inr x) \<and> f x = Inr y)"
  by (cases m) (auto simp: bindR_Inr_iff)

lemma ifO_Some_Inr: "ifO b x y = Some (Inr r) \<longleftrightarrow> (\<exists>c. b = Some (Inr c) \<and> (if c then x else y) = Some (Inr r))"
  by (auto simp: ifO_def bindOO_Some_Inr)

lemma ifR_runs: "ifR b x y = Inr r \<longleftrightarrow> (\<exists>c. b = Inr c \<and> (if c then x else y) = Inr r)"
  by (auto simp: ifR_def bindR_Inr_iff)

lemmas runs = bindOO_Some_Inr bindO_Some_Inr bindRO_Some_Inr bindR_Inr_iff ifO_Some_Inr ifR_runs

lemma andO_True: "andO a b = Some (Inr True) \<longleftrightarrow> a = Some (Inr True) \<and> b = Some (Inr True)"
  by (auto simp: andO_def runs split: if_splits)

lemma orO_True: "orO a b = Some (Inr True) \<longleftrightarrow> a = Some (Inr True) \<or> a = Some (Inr False) \<and> b = Some (Inr True)"
  by (auto simp: orO_def runs split: if_splits)

lemma elseO_Some: "elseO r s = Some (Inr (Some x)) \<longleftrightarrow>
    r = Some (Inr (Some x)) \<or> r = Some (Inr None) \<and> s = Some (Inr (Some x))"
  by (auto simp: elseO_def runs split: option.splits)

lemma whenO_Some: "whenO c r = Some (Inr (Some x)) \<longleftrightarrow> c = Some (Inr True) \<and> r = Some (Inr (Some x))"
  by (auto simp: whenO_def runs split: if_splits)

lemma test_const_True: "test_const f c = Inr True \<longleftrightarrow> (\<exists>k. c = Some k \<and> f k = Inr True)"
  by (auto simp: test_const_def split: option.splits)

lemma andR_decided: "andR a b = Inr True \<longleftrightarrow> a = Inr True \<and> b = Inr True"
  by (auto simp: andR_def bindR_Inr_iff split: if_splits)

lemma orR_decided: "orR a b = Inr True \<longleftrightarrow> a = Inr True \<or> a = Inr False \<and> b = Inr True"
  by (auto simp: orR_def bindR_Inr_iff split: if_splits)

lemma notR_decided: "notR a = Inr True \<longleftrightarrow> a = Inr False"
  by (auto simp: notR_def bindR_Inr_iff)

lemmas decided = andO_True orO_True elseO_Some whenO_Some test_const_True andR_decided orR_decided notR_decided

subsection \<open>Constants found\<close>

lemma akv_const_value:
  assumes "types t c" and "akv_const t = Inr (Some k)"
  shows "k = c"
proof -
  obtain s xs es where c: "c = con s xs es" "inhab t s xs es" using assms(1) by (auto simp: types_def)
  then have "has_value t s xs es"
    using assms(2) by (cases "akv t") (auto simp: akv_const_def ifR_def inhab_tests [OF c(2)] intro: value_if_akv)
  with c assms(2) show ?thesis
    by (simp add: akv_const_def ifR_def inhab_tests [OF c(2)] inhab_value COcopyConstant_con [OF inhab_ok [OF c(2)]])
qed

lemma types_var:
  assumes "consistent E H \<rho>"
  shows "types (AVIS_TYPE (H v)) (var \<rho> v)"
  using assms by (rule consistentD [of E H \<rho> v]) (auto simp: types_def)

lemma const_value:
  assumes c: "consistent E H \<rho>" and g: "good E \<rho> n [v]" and r: "COaST2Constant E H n = Some (Inr (Some k))"
  shows "k = v"
proof (cases n)
  case (N_lit a l)
  then obtain t x where l: "lit_cell l = Some (t, x)" "cval_ok x"
    using g by (auto simp: good_def lit_ok_def split: option.splits)
  then show ?thesis
    using N_lit g r lit_const_con [OF l] by (simp add: good_def COaST2Constant_def COisConstant_def bindOO_def)
next
  case (N_array a t s es)
  obtain ty where ty: "NTCnewTypeCheck_Expr E H n = Some (Inr ty)" "types ty v"
    using typed_array [OF c, of a t s es v] g N_array by (auto simp: typed_def)
  then have "akv_const ty = Inr (Some k)"
    using r N_array by (auto simp: COaST2Constant_def COisConstant_def runs split: if_splits)
  then show ?thesis by (rule akv_const_value [OF ty(2)])
next
  case (N_id w)
  then have "akv_const (AVIS_TYPE (H w)) = Inr (Some k)" "v = var \<rho> w"
    using r g by (auto simp: COaST2Constant_def COisConstant_def runs split: if_splits)
  then show ?thesis using akv_const_value [OF types_var [OF c]] by simp
next
  case (N_avis w)
  then have "akv_const (AVIS_TYPE (H w)) = Inr (Some k)" "v = var \<rho> w"
    using r g by (auto simp: good_def COaST2Constant_def COisConstant_def runs split: if_splits)
  then show ?thesis using akv_const_value [OF types_var [OF c]] by simp
qed (use r in \<open>simp_all add: COaST2Constant_def COisConstant_def bindOO_def\<close>)

text \<open>Matching with a constant pattern.\<close>

lemma match_const_found:
  assumes "match_const E H mode n = Some (Inr (Some k))"
  obtains m where "skipVarDefs H mode n = Some (Inr m)" and "COaST2Constant E H m = Some (Inr (Some k))"
proof -
  have "\<exists>m. skipVarDefs H mode n = Some (Inr m) \<and> COaST2Constant E H m = Some (Inr (Some k))"
    using assms by (auto simp: match_const_def PMmatch_def no_binds_def set_con_def runs split: if_splits)
  with that show ?thesis by blast
qed

lemma match_const_value:
  assumes "consistent E H \<rho>" and "good E \<rho> n [v]" and "match_const E H mode n = Some (Inr (Some k))"
  shows "k = v"
  using assms skipVarDefs_value const_value by (meson match_const_found)

subsection \<open>Constants written down\<close>

lemma cell_lit:
  assumes "t \<in> {T_int, T_bool}" and "cells_ok t [x]"
  shows "\<exists>k. cell2lit (cv2scalar_ext t) x = Inr k \<and> lit_cell k = Some (t, x) \<and> lit_ok k"
  using assms by (cases x) (auto simp: cells_ok_def cell_type_def lit_ok_def)

lemma lit_of_cell:
  assumes "con_ok t xs es" and "t \<in> {T_int, T_bool}" and "i < length es"
  shows "\<exists>k. cv2scalar t (full es) i = Inr (N_lit None k) \<and> lit_cell k = Some (t, es ! i) \<and> lit_ok k"
proof -
  have "cells_ok t [es ! i]" using assms by (auto simp: con_ok_def cells_ok_def)
  then obtain k where k: "cell2lit (cv2scalar_ext t) (es ! i) = Inr k" "lit_cell k = Some (t, es ! i)" "lit_ok k"
    using cell_lit [OF assms(2)] by blast
  have "ctype_of (es ! i) = the (ext_ctype (cv2scalar_ext t))" "ext_ctype (cv2scalar_ext t) \<noteq> None"
    using assms(2) \<open>cells_ok t [es ! i]\<close> by (auto simp: cells_ok_def cell_type_def)
  then show ?thesis using k assms(3) by (auto simp: cv2scalar_def rd_as_def rd_def full_def)
qed

lemma vals_list_append: "vals_list F \<rho> (es @ fs) =
    (case (vals_list F \<rho> es, vals_list F \<rho> fs) of (Some cs, Some ds) \<Rightarrow> Some (cs @ ds) | _ \<Rightarrow> None)"
  by (induction es) (auto split: option.splits)

lemma lits_of_cells:
  assumes ok: "con_ok t xs es" and t: "t \<in> {T_int, T_bool}" and n: "n \<le> length es"
  shows "\<exists>ks. foldR (\<lambda>i exprs. bindR (cv2scalar t (full es) i) (\<lambda>e. Inr (e # exprs))) (rev [0..<n]) rs = Inr (ks @ rs)
     \<and> list_all atom ks \<and> vals_list F \<rho> ks = Some (map (\<lambda>x. con t [] [x]) (take n es))"
  using n
proof (induction n arbitrary: rs)
  case (Suc n)
  obtain k where k: "cv2scalar t (full es) n = Inr (N_lit None k)" "lit_cell k = Some (t, es ! n)" "lit_ok k"
    using lit_of_cell [OF ok t, of n] Suc.prems by auto
  obtain ks where ks: "foldR (\<lambda>i exprs. bindR (cv2scalar t (full es) i) (\<lambda>e. Inr (e # exprs))) (rev [0..<n]) (N_lit None k # rs)
        = Inr (ks @ N_lit None k # rs)" "list_all atom ks"
      "vals_list F \<rho> ks = Some (map (\<lambda>x. con t [] [x]) (take n es))"
    using Suc.IH [of "N_lit None k # rs"] Suc.prems by auto
  have app: "vals_list F \<rho> (ks @ [N_lit None k]) = Some (map (\<lambda>x. con t [] [x]) (take n es) @ [con t [] [es ! n]])"
    using ks(3) k(2) by (simp add: vals_list_append)
  have "take (Suc n) es = take n es @ [es ! n]" using Suc.prems by (simp add: take_Suc_conv_app_nth)
  with ks k app show ?case by (intro exI [of _ "ks @ [N_lit None k]"]) simp
qed simp

text \<open>The round trip from a constant to an expression and its value.\<close>

lemma array_value_lits:
  assumes ok: "con_ok t xs es" and "xs \<noteq> []" and "int (length xs) \<le> int_max"
    and et: "et = NT (TC_aks (sh [])) m [NT (TC_simple t u) k []]"
  shows "array_value_of et xs (map (\<lambda>x. con t [] [x]) es) = Some (con t xs es)"
proof (cases es)
  case Nil
  then show ?thesis using ok et
    by (simp add: TYgetShape_def shape_ok_def con_ok_def sh_def full_def)
next
  case (Cons x ys)
  have "concat (map (\<lambda>x. cells (con t [] [x])) es) = es" by (induction es) auto
  then show ?thesis using ok assms(2,3) Cons by (auto simp: con_ok_def comp_def)
qed

lemma COconstant2AST_value:
  fixes E :: "'f tenv"
  assumes ok: "con_ok t xs es" and t: "t \<in> {T_int, T_bool}" and len: "int (length xs) \<le> int_max"
  shows "\<exists>n. COconstant2AST (con t xs es) = Inr n \<and> good E \<rho> n [con t xs es]"
proof (cases "xs = []")
  case True
  then have one: "length es = 1" using ok by (simp add: con_ok_def)
  then obtain k where "cv2scalar t (full es) 0 = Inr (N_lit None k)" "lit_cell k = Some (t, es ! 0)" "lit_ok k"
    using lit_of_cell [OF ok t, of 0] by auto
  moreover have "es = [es ! 0]" using one by (cases es) auto
  ultimately show ?thesis using True
    by (auto simp: COconstant2AST_def COgetDim_def CONSTANT_DIM_def SHgetDim_sh good_def)
next
  case False
  obtain ks where ks: "foldR (\<lambda>i exprs. bindR (cv2scalar t (full es) i) (\<lambda>e. Inr (e # exprs))) (rev [0..<length es]) [] = Inr ks"
      "list_all atom ks" "vals_list (te_fops E) \<rho> ks = Some (map (\<lambda>x. con t [] [x]) es)"
    using lits_of_cells [OF ok t order_refl, of "[]" "te_fops E" \<rho>] by auto
  define et :: "'f ntype" where "et = NT (TC_aks (sh [])) default_meta [NT (TC_simple t (- 1)) default_meta []]"
  have z: "SHmakeShape 0 = Inr (sh [])" by (simp add: SHmakeShape_0 sh_def)
  have "COconstant2AST (con t xs es) = Inr (N_array None et (sh xs) ks)"
    using False ks(1) t
    by (auto simp: COconstant2AST_def COgetDim_def CONSTANT_DIM_def SHgetDim_sh COgetShape_def SHcopyShape_sh
        TYmakeSimpleType_def MakeNtype_def z TYmakeAKS_def make_array_eq et_def)
  moreover have "map the (SHAPE_ELEMS (sh xs)) = xs" by (simp add: sh_def full_def comp_def)
  ultimately show ?thesis
    using ks(2,3) array_value_lits [OF ok False len, of et default_meta "- 1" default_meta] con_okD(1) [OF ok]
    by (auto simp: good_def shape_ok_def et_def)
qed

subsection \<open>Constant arrays of the shape of an expression\<close>

lemma typed_shape:
  fixes E :: "'f tenv"
  assumes "typed E H n (con s xs es)"
  obtains t where "NTCnewTypeCheck_Expr E H n = Some (Inr t)" and "inhab t s xs es"
    and "TUshapeKnown t = Inr (shp_known t)" and "shp_known t \<Longrightarrow> TYgetShape t = Inr (sh xs)"
    and "bindR (TYgetScalar t) TYgetSimpleType = Inr s"
proof -
  obtain t where t: "NTCnewTypeCheck_Expr E H n = Some (Inr t)" "inhab t s xs es" using assms by (auto simp: typed_def)
  obtain b :: "'f ntype" where b: "TYgetScalar t = Inr b" "elem_type b s" using inhab_scalar [OF t(2)] .
  then have "TYgetSimpleType b = Inr s" by (auto simp: elem_type_def TYgetSimpleType_def)
  then have "bindR (TYgetScalar t) TYgetSimpleType = Inr s" using b(1) by simp
  moreover have "TUshapeKnown t = Inr (shp_known t)" by (simp add: inhab_tests [OF t(2)])
  ultimately show ?thesis using that [OF t _ inhab_shape [OF t(2)]] by blast
qed

lemma make_const_found:
  assumes "make_const E H n mk = Some (Inr (Some r))" and "typed E H n (con s xs es)"
  shows "\<exists>c. mk (sh xs) = Some (Inr (Some c)) \<and> COconstant2AST c = Inr r"
  by (rule typed_shape [OF assms(2)]) (use assms(1) in \<open>auto simp: make_const_def runs split: if_splits option.splits\<close>)

text \<open>The constants that are made.\<close>

definition zeros :: "int list \<Rightarrow> 'f const" where
  "zeros xs = con T_int xs (replicate (nat (prod_list xs)) (CInt IInt 0))"

definition truths :: "bool \<Rightarrow> int list \<Rightarrow> 'f const" where
  "truths b xs = con T_bool xs (replicate (nat (prod_list xs)) (CBool b))"

lemma made_value:
  fixes E :: "'f tenv"
  assumes "make_const E H n mk = Some (Inr (Some r))" and "typed E H n (con s xs es)"
    and "mk (sh xs) = Some (Inr (Some (con t xs fs)))" and "con_ok t xs fs" and "t \<in> {T_int, T_bool}"
    and "int (length xs) \<le> int_max"
  shows "good E \<rho> r [con t xs fs]"
  using make_const_found [OF assms(1,2)] assms(3) COconstant2AST_value [OF assms(4-6), of E \<rho>] by auto

lemma typed_ok:
  assumes "typed E H n (con s xs es)"
  shows "con_ok s xs es"
  by (rule typed_shape [OF assms]) (rule inhab_ok)

lemma SCSmakeZero_value:
  assumes r: "SCSmakeZero E H n = Some (Inr (Some r))" and t: "typed E H n (con T_int xs es)" and l: "int (length xs) \<le> int_max"
  shows "good E \<rho> r [zeros xs]"
proof -
  note f = con_okD(1) [OF typed_ok [OF t]]
  have "SCSgetBasetypeOfExpr E H n = Some (Inr T_int)"
    by (rule typed_shape [OF t]) (simp add: SCSgetBasetypeOfExpr_def)
  then have "bindO (SCSgetBasetypeOfExpr E H n) (\<lambda>s. COmakeZero (te_fops E) s (sh xs)) = Some (Inr (Some (zeros xs)))"
    using f by (simp add: COmakeZero_def base_cell_def CObaseCv_con [of xs _ BZero T_int "CInt IInt 0"] zeros_def)
  moreover have "con_ok T_int xs (replicate (nat (prod_list xs)) (CInt IInt 0))"
    using f shape_fits_prod [OF f] by (simp add: con_ok_def cells_ok_def cell_type_def in_ity_def imin_def imax_def)
  ultimately show ?thesis
    unfolding zeros_def by (intro made_value [OF r [unfolded SCSmakeZero_def] t _ _ _ l]) simp_all
qed

lemma truths_ok: "shape_fits xs \<Longrightarrow> con_ok T_bool xs (replicate (nat (prod_list xs)) (CBool b))"
  using shape_fits_prod [of xs] by (simp add: con_ok_def cells_ok_def cell_type_def)

lemma SCSmakeTrue_value:
  assumes r: "SCSmakeTrue E H n = Some (Inr (Some r))" and t: "typed E H n (con s xs es)" and l: "int (length xs) \<le> int_max"
  shows "good E \<rho> r [truths True xs]"
proof -
  note f = con_okD(1) [OF typed_ok [OF t]]
  have "COmakeTrue (te_fops E) (sh xs) = Inr (Some (truths True xs))"
    using f by (simp add: COmakeTrue_def COmakeOne_def base_cell_def CObaseCv_con [of xs _ BOne T_bool "CBool True"] truths_def)
  then show ?thesis
    using made_value [OF r [unfolded SCSmakeTrue_def] t _ truths_ok [OF f] _ l] unfolding truths_def by simp
qed

lemma SCSmakeFalse_value:
  assumes r: "SCSmakeFalse E H n = Some (Inr (Some r))" and t: "typed E H n (con s xs es)" and l: "int (length xs) \<le> int_max"
  shows "good E \<rho> r [truths False xs]"
proof -
  note f = con_okD(1) [OF typed_ok [OF t]]
  have "COmakeFalse (te_fops E) (sh xs) = Inr (Some (truths False xs))"
    using f by (simp add: COmakeFalse_def COmakeZero_def base_cell_def CObaseCv_con [of xs _ BZero T_bool "CBool False"] truths_def)
  then show ?thesis
    using made_value [OF r [unfolded SCSmakeFalse_def] t _ truths_ok [OF f] _ l] unfolding truths_def by simp
qed

end
