(* ===== verification/SCS_Ints.thy ===== *)
theory SCS_Ints
  imports SCS_Const
begin

text \<open>
  Values that are arrays of integers or truth values: what the elementwise primitives make of them, and
  comparisons of all pairs of elements.
\<close>

subsection \<open>Arrays of integers and of truth values\<close>

abbreviation iarr :: "int list \<Rightarrow> int list \<Rightarrow> 'f const" where
  "iarr xs as \<equiv> con T_int xs (map (CInt IInt) as)"

abbreviation barr :: "int list \<Rightarrow> bool list \<Rightarrow> 'f const" where
  "barr xs bs \<equiv> con T_bool xs (map CBool bs)"

definition iarr_ok :: "int list \<Rightarrow> int list \<Rightarrow> bool" where
  "iarr_ok xs as \<longleftrightarrow> shape_fits xs \<and> int (length as) = prod_list xs \<and> (\<forall>a\<in>set as. in_ity IInt a)"

lemma iarr_con_ok [simp]: "con_ok T_int xs (map (CInt IInt) as :: 'f cval list) \<longleftrightarrow> iarr_ok xs as"
  by (auto simp: iarr_ok_def con_ok_def cells_ok_def cell_type_def)

lemma barr_con_ok [simp]:
  "con_ok T_bool xs (map CBool bs :: 'f cval list) \<longleftrightarrow> shape_fits xs \<and> int (length bs) = prod_list xs"
  by (auto simp: con_ok_def cells_ok_def cell_type_def)

lemma map_int_inj [simp]: "map (CInt t) as = (map (CInt t) bs :: 'f cval list) \<longleftrightarrow> as = bs"
  by (rule inj_map_eq_map) (auto simp: inj_def)

lemma map_bool_inj [simp]: "map CBool as = (map CBool bs :: 'f cval list) \<longleftrightarrow> as = bs"
  by (rule inj_map_eq_map) (auto simp: inj_def)

lemma host_int_T_int [simp]: "host_int T_int IInt"
  by (simp add: host_int_def int_type_def cell_type_def)

lemma iarr_cases:
  assumes "con_ok T_int xs es"
  obtains as where "es = map (CInt IInt) as" and "iarr_ok xs as"
proof -
  have "int_type T_int = Some IInt" by (simp add: int_type_def cell_type_def)
  then obtain as where "es = map (CInt IInt) as" using con_ok_int_vals [OF assms] by blast
  with that assms show ?thesis by auto
qed

lemma barr_cases:
  assumes "con_ok T_bool xs es"
  obtains bs where "es = map CBool bs"
proof -
  have "\<exists>b. e = CBool b" if "e \<in> set es" for e
    using assms that by (cases e) (auto simp: con_ok_def cells_ok_def cell_type_def)
  then obtain f where f: "\<forall>e\<in>set es. e = CBool (f e)" by metis
  then have "map (CBool \<circ> f) es = es" by (intro map_idI) auto
  with that [of "map f es"] show ?thesis by simp
qed

lemma zeros_iarr: "zeros xs = iarr xs (replicate (nat (prod_list xs)) 0)"
  by (simp add: zeros_def)

lemma truths_barr: "truths b xs = barr xs (replicate (nat (prod_list xs)) b)"
  by (simp add: truths_def)

lemma iarr_ok_scalar: "iarr_ok [] as \<Longrightarrow> \<exists>a. as = [a]"
  by (cases as) (auto simp: iarr_ok_def)

subsection \<open>Elementwise primitives\<close>

lemma zip_pairs_map:
  assumes "xs = [] \<Longrightarrow> as \<noteq> []" and "ys = [] \<Longrightarrow> bs \<noteq> []"
  shows "zip_pairs xs ys (map f as) (map f bs) = map (\<lambda>(a, b). (f a, f b)) (zip_pairs xs ys as bs)"
  using assms by (auto simp: zip_pairs_def zip_map_map)

lemma mapR_known:
  assumes "mapR f ps = Inr rs" and "\<And>p r. p \<in> set ps \<Longrightarrow> f p = Inr r \<Longrightarrow> r = g p"
  shows "rs = map g ps"
  using assms
proof (induction ps arbitrary: rs)
  case (Cons p ps)
  then obtain r rs' where r: "f p = Inr r" "mapR f ps = Inr rs'" "rs = r # rs'" by (auto simp: bindR_Inr_iff)
  with Cons.IH [OF r(2)] Cons.prems(2) show ?case by auto
qed simp

fun iop :: "bin_op \<Rightarrow> int \<Rightarrow> int \<Rightarrow> int" where
  "iop P_add a b = a + b" | "iop P_sub a b = a - b" | "iop P_mul a b = a * b" | "iop P_div a b = a sdiv b"
| "iop P_min a b = min a b" | "iop P_max a b = max a b" | "iop P_mod a b = a smod b" | "iop op a b = a mod b"

fun irel :: "bin_op \<Rightarrow> int \<Rightarrow> int \<Rightarrow> bool" where
  "irel P_lt a b = (a < b)" | "irel P_le a b = (a \<le> b)" | "irel P_gt a b = (b < a)" | "irel P_ge a b = (b \<le> a)"
| "irel P_neq a b = (a \<noteq> b)" | "irel op a b = (a = b)"

fun bop :: "bin_op \<Rightarrow> bool \<Rightarrow> bool \<Rightarrow> bool" where
  "bop P_and a b = (a \<and> b)" | "bop op a b = (a \<or> b)"

lemma elem_int:
  assumes "zop_elem F (bin_zop op) (CInt IInt a) (CInt IInt b) = Inr r" and "in_ity IInt a" and "in_ity IInt b"
    and "op \<in> ari_ops"
  shows "r = CInt IInt (iop op a b)"
  using assms
  by (auto simp: op_classes zop_elem_def bindR_Inr_iff iprom_def iarith_def int_DIV_def check_Inr_iff split: if_splits)

lemma elem_rel:
  assumes "zop_elem F (bin_zop op) (CInt IInt a) (CInt IInt b) = Inr r" and "op \<in> rel_ops"
  shows "r = CBool (irel op a b)"
  using assms by (auto simp: rel_ops_def zop_elem_def)

lemma elem_bool:
  assumes "zop_elem F (bin_zop op) (CBool a) (CBool b) = Inr r" and "op \<in> log_ops"
  shows "r = CBool (bop op a b)"
  using assms by (auto simp: op_classes zop_elem_def)

lemma smod_in_int: "in_ity IInt a \<Longrightarrow> b \<noteq> 0 \<Longrightarrow> in_ity IInt (a smod b)"
proof -
  assume a: "in_ity IInt a" and "b \<noteq> 0"
  have "\<bar>a\<bar> mod \<bar>b\<bar> \<le> \<bar>a\<bar>" "0 \<le> \<bar>a\<bar> mod \<bar>b\<bar>" using \<open>b \<noteq> 0\<close> by (simp_all add: zmod_le_nonneg_dividend)
  with a show "in_ity IInt (a smod b)"
    by (auto simp: smod_int_alt_def sgn_if in_ity_def imin_def imax_def)
qed

lemma elem_mod:
  assumes "zop_elem F (bin_zop op) (CInt IInt a) (CInt IInt b) = Inr r" and "in_ity IInt a" and "in_ity IInt b"
    and "op \<in> int_ops"
  shows "r = CInt IInt (iop op a b)"
proof (cases "b = 0")
  case True
  then show ?thesis using assms
    by (auto simp: int_ops_def zop_elem_def int_MOD_def int_APLMOD_def int_APLREM_def bindR_Inr_iff check_Inr_iff iprom_def
        int_SIGNUM_sgn iarith_ok split: if_splits)
next
  case False
  show ?thesis
  proof (cases "isigned IInt \<and> a = imin IInt \<and> b = -1")
    case True
    then have "int_MOD IInt a b = Inl IntOverflow"
      by (simp add: int_MOD_def iarith_def imin_def in_ity_def imax_def)
    then show ?thesis using assms False by (auto simp: int_ops_def zop_elem_def int_APLMOD_def int_APLREM_def iprom_def)
  next
    case ok: False
    note v = int_APLREM_val [OF assms(2,3) ok] int_APLMOD_mod [OF assms(2,3) ok]
    have "int_MOD IInt a b = Inr (a smod b)" using v(1) False by (simp add: int_APLREM_def)
    then show ?thesis
      using assms v False smod_in_int [OF assms(2) False] in_ity_mod [OF assms(2,3)]
      by (auto simp: int_ops_def zop_elem_def iprom_def iconv_id)
  qed
qed

text \<open>
  The applications to two integer arrays: of two scalars, of a scalar and a vector, and of two vectors of
  the same length.
\<close>

fun spread :: "vs \<Rightarrow> int list \<Rightarrow> int list \<Rightarrow> 'a list \<Rightarrow> 'a list \<Rightarrow> bool" where
  "spread SxS xs ys as bs = (xs = [] \<and> ys = [] \<and> length as = 1 \<and> length bs = 1)"
| "spread SxV xs ys as bs = (xs = [] \<and> length as = 1 \<and> ys = [int (length bs)])"
| "spread VxS xs ys as bs = (ys = [] \<and> length bs = 1 \<and> xs = [int (length as)])"
| "spread VxV xs ys as bs = (xs = [int (length as)] \<and> ys = xs \<and> length bs = length as)"

definition out_shape :: "int list \<Rightarrow> int list \<Rightarrow> int list" where
  "out_shape xs ys = (if xs = [] then ys else xs)"

lemma spread_zip:
  assumes "vs_shapes v xs ys" and "zip_shape xs ys = Some zs"
    and "int (length as) = prod_list xs" and "int (length bs) = prod_list ys"
  shows "spread v xs ys as bs \<and> zs = out_shape xs ys"
  using assms by (cases v) (auto simp: zip_shape_def out_shape_def length_Suc_conv split: if_splits)

lemma spread_ne: "spread v xs ys as bs \<Longrightarrow> (xs = [] \<longrightarrow> as \<noteq> []) \<and> (ys = [] \<longrightarrow> bs \<noteq> [])"
  by (cases v) auto

lemma iarr_ne: "iarr_ok xs as \<Longrightarrow> iarr_ok ys bs \<Longrightarrow> (xs = [] \<longrightarrow> as \<noteq> []) \<and> (ys = [] \<longrightarrow> bs \<noteq> [])"
  by (auto simp: iarr_ok_def)

lemma set_zip_pairs:
  assumes "(xs = [] \<longrightarrow> as \<noteq> []) \<and> (ys = [] \<longrightarrow> bs \<noteq> [])" and "(a, b) \<in> set (zip_pairs xs ys as bs)"
  shows "a \<in> set as \<and> b \<in> set bs"
  using zip_pairs_in [OF assms(2)] assms(1) by blast

lemma bin_value_parts:
  fixes F :: "'f fops"
  assumes "bin_value F op v (con t xs es) (con u ys fs) = Some w" and "con_ok t xs es" and "con_ok u ys fs"
  obtains gs where "u = t" and "zip_supports (bin_zop op) t" and "spread v xs ys es fs"
    and "zip_elems F (bin_zop op) xs ys es fs = Inr gs" and "w = con (zip_type t (bin_target op)) (out_shape xs ys) gs"
proof -
  obtain zs gs where z: "vs_shapes v xs ys" "zip_shape xs ys = Some zs" "u = t" "zip_supports (bin_zop op) t"
      "zip_elems F (bin_zop op) xs ys es fs = Inr gs" "w = con (zip_type t (bin_target op)) zs gs"
    using assms(1) by (auto simp: bin_value_def split: if_splits option.splits sum.splits)
  moreover have "spread v xs ys es fs \<and> zs = out_shape xs ys"
    using z(1,2) assms(2,3) by (intro spread_zip) (auto simp: con_ok_def)
  ultimately show ?thesis using that by blast
qed

lemma spread_map [simp]: "spread v xs ys (map f as) (map g bs) = spread v xs ys as bs"
  by (cases v) auto

lemma zip_elems_known:
  assumes "zip_elems F z xs ys (map f as) (map f bs) = Inr gs" and "(xs = [] \<longrightarrow> as \<noteq> []) \<and> (ys = [] \<longrightarrow> bs \<noteq> [])"
    and "\<And>a b r. a \<in> set as \<Longrightarrow> b \<in> set bs \<Longrightarrow> zop_elem F z (f a) (f b) = Inr r \<Longrightarrow> r = g (h a b)"
  shows "gs = map g (map (\<lambda>(a, b). h a b) (zip_pairs xs ys as bs))"
proof -
  have "mapR (\<lambda>(a, b). zop_elem F z (f a) (f b)) (zip_pairs xs ys as bs) = Inr gs"
    using assms(1,2) by (simp add: zip_elems_def zip_pairs_map mapR_map comp_def split_def)
  then have "gs = map (\<lambda>(a, b). g (h a b)) (zip_pairs xs ys as bs)"
    by (rule mapR_known) (use set_zip_pairs [OF assms(2)] assms(3) in auto)
  then show ?thesis by (simp add: comp_def split_def)
qed

definition pointwise_of :: "('a \<Rightarrow> 'a \<Rightarrow> 'b) \<Rightarrow> int list \<Rightarrow> int list \<Rightarrow> 'a list \<Rightarrow> 'a list \<Rightarrow> 'b list" where
  "pointwise_of h xs ys as bs = map (\<lambda>(a, b). h a b) (zip_pairs xs ys as bs)"

lemma bin_value_int:
  fixes F :: "'f fops"
  assumes v: "bin_value F op v (con T_int xs es) (con u ys fs) = Some w"
    and a: "con_ok T_int xs es" and b: "con_ok u ys fs"
  obtains as bs where "es = map (CInt IInt) as" and "iarr_ok xs as" and "u = T_int" and "fs = map (CInt IInt) bs"
    and "iarr_ok ys bs" and "spread v xs ys as bs"
    and "op \<notin> rel_ops \<Longrightarrow> w = iarr (out_shape xs ys) (pointwise_of (iop op) xs ys as bs)"
    and "op \<in> rel_ops \<Longrightarrow> w = barr (out_shape xs ys) (pointwise_of (irel op) xs ys as bs)"
proof -
  obtain gs where g: "u = T_int" "zip_supports (bin_zop op) T_int" "spread v xs ys es fs"
      "zip_elems F (bin_zop op) xs ys es fs = Inr gs" "w = con (zip_type T_int (bin_target op)) (out_shape xs ys) gs"
    using bin_value_parts [OF v a b] .
  obtain as where as: "es = map (CInt IInt) as" "iarr_ok xs as" using iarr_cases [OF a] .
  obtain bs where bs: "fs = map (CInt IInt) bs" "iarr_ok ys bs" using iarr_cases [OF b [unfolded g(1)]] .
  have sp: "spread v xs ys as bs" using g(3) as bs by simp
  have nl: "op \<notin> log_ops" using g(2) by (auto simp: log_ops_def zip_supports_def MAP_BOOL_def)
  note z = zip_elems_known [OF g(4) [unfolded as bs] spread_ne [OF sp]]
  have r: "in_ity IInt a" "in_ity IInt b" if "a \<in> set as" "b \<in> set bs" for a b
    using as(2) bs(2) that by (auto simp: iarr_ok_def)
  have "w = iarr (out_shape xs ys) (pointwise_of (iop op) xs ys as bs)" if "op \<notin> rel_ops"
  proof -
    have "op \<in> ari_ops \<union> int_ops" using nl that bin_op_classes [of op] by blast
    then have "x = CInt IInt (iop op a b)"
      if "a \<in> set as" "b \<in> set bs" "zop_elem F (bin_zop op) (CInt IInt a) (CInt IInt b) = Inr x" for a b x
      using elem_int [OF that(3)] elem_mod [OF that(3)] r that by blast
    with z [of "CInt IInt" "iop op"] g(5) that show ?thesis by (simp add: bin_target_def zip_type_def pointwise_of_def)
  qed
  moreover have "w = barr (out_shape xs ys) (pointwise_of (irel op) xs ys as bs)" if "op \<in> rel_ops"
    using z [of CBool "irel op"] g(5) that elem_rel by (simp add: bin_target_def zip_type_def pointwise_of_def) blast
  ultimately show ?thesis using that [OF as g(1) bs sp] by blast
qed

lemma bin_value_bool:
  fixes F :: "'f fops"
  assumes v: "bin_value F op v (con T_bool xs es) (con u ys fs) = Some w" and op: "op \<in> log_ops"
    and a: "con_ok T_bool xs es" and b: "con_ok u ys fs"
  obtains as bs where "es = map CBool as" and "u = T_bool" and "fs = map CBool bs"
    and "spread v xs ys as bs" and "w = barr (out_shape xs ys) (pointwise_of (bop op) xs ys as bs)"
proof -
  obtain gs where g: "u = T_bool" "spread v xs ys es fs"
      "zip_elems F (bin_zop op) xs ys es fs = Inr gs" "w = con (zip_type T_bool (bin_target op)) (out_shape xs ys) gs"
    using bin_value_parts [OF v a b] .
  obtain as where as: "es = map CBool as" using barr_cases [OF a] .
  obtain bs where bs: "fs = map CBool bs" using barr_cases [OF b [unfolded g(1)]] .
  have sp: "spread v xs ys as bs" using g(2) as bs by simp
  have "gs = map CBool (pointwise_of (bop op) xs ys as bs)"
    unfolding pointwise_of_def
    by (rule zip_elems_known [OF g(3) [unfolded as bs] spread_ne [OF sp]]) (use elem_bool [OF _ op] in blast)
  moreover have "op \<notin> rel_ops" using op by (auto simp: op_classes)
  ultimately show ?thesis using that [OF as g(1) bs sp] g(4) by (simp add: bin_target_def zip_type_def)
qed

subsection \<open>Constants computed\<close>

lemma co_parts:
  fixes F :: "'f fops"
  assumes run: "bin_co F op (con t xs es) (con t ys fs) = Inr w" and a: "con_ok t xs es" and b: "con_ok t ys fs"
    and z: "zip_supports (bin_zop op) t" and r: "op \<notin> rel_ops \<or> xs \<noteq> [] \<or> length fs = 1"
  obtains zs gs where "zip_shape xs ys = Some zs" and "zip_elems F (bin_zop op) xs ys es fs = Inr gs"
    and "w = con (zip_type t (bin_target op)) zs gs" and "con_ok (zip_type t (bin_target op)) zs gs"
proof (cases "zip_shape xs ys")
  case None
  then show ?thesis using run by (simp add: bin_co_zip COzip_shape_error)
next
  case (Some zs)
  have "bin_target op = T_unknown \<or> xs \<noteq> [] \<or> length fs = 1" using r by (auto simp: bin_target_def)
  note e = COzip_con [OF a b z bin_zop_binary bin_target_ok(1) [OF z] Some this, of F]
  have "bindR (zip_elems F (bin_zop op) xs ys es fs) (\<lambda>gs. Inr (con (zip_type t (bin_target op)) zs gs)) = Inr w"
    using run by (simp add: bin_co_zip e)
  then obtain gs where "zip_elems F (bin_zop op) xs ys es fs = Inr gs" "w = con (zip_type t (bin_target op)) zs gs"
    by (auto simp: bindR_Inr_iff)
  then show ?thesis using that [OF Some] zip_elems_ok [OF a b Some bin_zop_binary bin_target_ok(1) [OF z]] by blast
qed

lemma supports_int:
  "op \<notin> log_ops \<Longrightarrow> zip_supports (bin_zop op) T_int"
  by (cases op) (simp_all add: zip_supports_def log_ops_def MAP_NUM_def MAP_INT_def MAP_ANY_def)

lemma co_ari:
  fixes F :: "'f fops"
  assumes run: "bin_co F op (iarr xs as) (iarr ys bs) = Inr w" and a: "iarr_ok xs as" and b: "iarr_ok ys bs"
    and op: "op \<in> ari_ops"
  obtains zs where "zip_shape xs ys = Some zs" and "w = iarr zs (pointwise_of (iop op) xs ys as bs)"
    and "iarr_ok zs (pointwise_of (iop op) xs ys as bs)"
proof -
  have n: "op \<notin> log_ops" "op \<notin> rel_ops" using op by (auto simp: op_classes)
  obtain zs gs where z: "zip_shape xs ys = Some zs"
      "zip_elems F (bin_zop op) xs ys (map (CInt IInt) as) (map (CInt IInt) bs) = Inr gs"
      "w = con (zip_type T_int (bin_target op)) zs gs" "con_ok (zip_type T_int (bin_target op)) zs gs"
    using co_parts [OF run _ _ supports_int [OF n(1)]] a b n(2) by auto
  have gs: "gs = map (CInt IInt) (pointwise_of (iop op) xs ys as bs)"
    unfolding pointwise_of_def
    by (rule zip_elems_known [OF z(2) iarr_ne [OF a b]]) (use a b elem_int [OF _ _ _ op, of F] in \<open>auto simp: iarr_ok_def\<close>)
  have "iarr_ok zs (pointwise_of (iop op) xs ys as bs)" using z(4) gs n by (simp add: bin_target_def)
  with z gs n that show ?thesis by (simp add: bin_target_def)
qed

lemma rel_zop: "op \<in> rel_ops \<Longrightarrow> comparison (bin_zop op)"
  by (auto simp: rel_ops_def comparison_def)

lemma co_rel:
  fixes F :: "'f fops"
  assumes run: "bin_co F op (iarr xs as) (iarr ys bs) = Inr w" and a: "iarr_ok xs as" and b: "iarr_ok ys bs"
    and op: "op \<in> rel_ops"
  obtains zs where "zip_shape xs ys = Some zs" and "w = barr zs (pointwise_of (irel op) xs ys as bs)"
  | zs where "zip_shape xs ys = Some zs" and "xs = []" and "bs = []"
proof (cases "xs \<noteq> [] \<or> length bs = 1")
  case True
  have n: "op \<notin> log_ops" using op by (auto simp: op_classes)
  obtain zs gs where z: "zip_shape xs ys = Some zs"
      "zip_elems F (bin_zop op) xs ys (map (CInt IInt) as) (map (CInt IInt) bs) = Inr gs"
      "w = con (zip_type T_int (bin_target op)) zs gs"
    by (rule co_parts [OF run _ _ supports_int [OF n]]) (use a b True in \<open>auto simp del: map_map\<close>)
  have "gs = map CBool (pointwise_of (irel op) xs ys as bs)"
    unfolding pointwise_of_def
    by (rule zip_elems_known [OF z(2) iarr_ne [OF a b]]) (use elem_rel [OF _ op] in blast)
  with z op that(1) show ?thesis by (simp add: bin_target_def)
next
  case False
  show ?thesis
  proof (cases bs)
    case (Cons b bs')
    note s = supports_int [of op]
    have n: "op \<notin> log_ops" using op by (auto simp: op_classes)
    have "\<exists>r. zop_elem F (bin_zop op) (CInt IInt a) (CInt IInt b) = Inr r" for a b
      using op by (auto simp: rel_ops_def zop_elem_def)
    moreover have "con_ok T_int [] (map (CInt IInt) as :: 'f cval list)" "con_ok T_int ys (map (CInt IInt) bs :: 'f cval list)"
      using a b False by (simp_all add: iarr_con_ok del: map_map)
    ultimately have "COzip F (bin_zop op) (iarr [] as) (iarr ys bs) (bin_target op) = Inl OutOfBounds"
      using False op n Cons
      by (intro COzip_scalar_overflow [OF _ _ s bin_zop_binary bin_target_ok(1) [OF s]]) (auto simp: bin_target_def)
    then show ?thesis using run False by (simp add: bin_co_zip)
  qed (use False that(2) in \<open>simp add: zip_shape_def\<close>)
qed

text \<open>Tests of truth values.\<close>

lemma bool_base_test:
  fixes F :: "'f fops"
  assumes "con_ok T_bool xs (map CBool bs :: 'f cval list)"
  shows "bindR (COeq F (barr xs bs) (con T_bool [] [CBool c])) and_reduce = Inr (\<forall>b\<in>set bs. b = c)"
proof -
  have ok: "con_ok T_bool [] [CBool c :: 'f cval]" by (simp add: con_ok_def cells_ok_def cell_type_def)
  have s: "zip_supports ZEq T_bool" by (simp add: zip_supports_def MAP_ANY_def)
  have el: "zop_elem F ZEq (CBool b) (CBool c) = Inr (CBool (b = c))" for b by (simp add: zop_elem_def)
  have tgt: "target_ok ZEq T_bool T_bool" by (simp add: target_ok_def cell_type_def zip_type_def)
  have "zip_elems F ZEq xs [] (map CBool bs) [CBool c] = Inr (map CBool (map (\<lambda>b. b = c) bs))"
  proof (cases "xs = []")
    case True
    then obtain b where "bs = [b]" using assms con_ok_scalar by (fastforce simp: length_Suc_conv)
    with True show ?thesis by (simp add: zip_elems_def zip_pairs_def el)
  next
    case False
    then show ?thesis by (simp add: zip_elems_def zip_pairs_def mapR_map el)
  qed
  then have "COeq F (barr xs bs) (con T_bool [] [CBool c]) = Inr (barr xs (map (\<lambda>b. b = c) bs))"
    using COzip_con [OF assms ok s _ tgt, of xs F] by (simp add: COeq_def zip_shape_def)
  then show ?thesis by (simp add: and_reduce_con list_all_iff del: map_map)
qed

lemma bool_one: "COisOne F (barr xs bs :: 'f const) True = Inr (\<forall>b\<in>set bs. b)"
  if "con_ok T_bool xs (map CBool bs :: 'f cval list)" for F :: "'f fops"
proof -
  have "COmakeOne F T_bool (sh []) = Inr (Some (con T_bool [] [CBool True]))"
    by (simp add: COmakeOne_def base_cell_def CObaseCv_con [of "[]" _ BOne T_bool "CBool True"])
  then show ?thesis using bool_base_test [OF that, of F True]
    by (simp add: COisOne_def SHmakeShape_0 sh_def [symmetric] cong: if_cong)
qed

lemma bool_zero: "COisZero F (barr xs bs :: 'f const) True = Inr (\<forall>b\<in>set bs. \<not> b)"
  if "con_ok T_bool xs (map CBool bs :: 'f cval list)" for F :: "'f fops"
proof -
  have "COmakeZero F T_bool (sh []) = Inr (Some (con T_bool [] [CBool False]))"
    by (simp add: COmakeZero_def base_cell_def CObaseCv_con [of "[]" _ BZero T_bool "CBool False"])
  then show ?thesis using bool_base_test [OF that, of F False]
    by (simp add: COisZero_def SHmakeShape_0 sh_def [symmetric] cong: if_cong)
qed

text \<open>A comparison of two constants that is true for all pairs.\<close>

definition all_pairs :: "(int \<Rightarrow> int \<Rightarrow> bool) \<Rightarrow> int list \<Rightarrow> int list \<Rightarrow> int list \<Rightarrow> int list \<Rightarrow> bool" where
  "all_pairs R xs ys as bs \<longleftrightarrow> zip_shape xs ys \<noteq> None \<and> (\<forall>(a, b)\<in>set (zip_pairs xs ys as bs). R a b)"

lemma zip_shape_ok:
  assumes "zip_shape xs ys = Some zs" and "iarr_ok xs as" and "iarr_ok ys bs"
  shows "shape_fits zs \<and> int (length (zip_pairs xs ys as bs)) = prod_list zs"
  using assms by (auto simp: zip_shape_def zip_pairs_def iarr_ok_def split: if_splits)

lemma rel_true:
  fixes F :: "'f fops"
  assumes run: "bin_co F op (iarr xs as) (iarr ys bs) = Inr w" and a: "iarr_ok xs as" and b: "iarr_ok ys bs"
    and op: "op \<in> rel_ops" and t: "COisTrue F w True = Inr True"
  shows "all_pairs (irel op) xs ys as bs"
proof -
  consider zs where "zip_shape xs ys = Some zs" "w = barr zs (pointwise_of (irel op) xs ys as bs)"
    | zs where "zip_shape xs ys = Some zs" "xs = []" "bs = []"
    using co_rel [OF run a b op] by blast
  then show ?thesis
  proof cases
    case 1
    have "con_ok T_bool zs (map CBool (pointwise_of (irel op) xs ys as bs) :: 'f cval list)"
      using zip_shape_ok [OF 1(1) a b] by (simp add: pointwise_of_def del: map_map)
    then have "\<forall>b\<in>set (pointwise_of (irel op) xs ys as bs). b" using t 1(2) by (simp add: COisTrue_def bool_one)
    with 1(1) show ?thesis by (auto simp: all_pairs_def pointwise_of_def)
  qed (simp add: all_pairs_def zip_pairs_def)
qed

subsection \<open>Identities\<close>

lemma pointwise_left:
  assumes "spread v xs ys as bs" and "v \<noteq> SxV" and "\<And>a b. a \<in> set as \<Longrightarrow> b \<in> set bs \<Longrightarrow> h a b = a"
  shows "pointwise_of h xs ys as bs = as \<and> out_shape xs ys = xs"
proof -
  have "map (\<lambda>(a, b). h a b) (zip_pairs xs ys as bs) = map fst (zip_pairs xs ys as bs)"
    using set_zip_pairs [OF spread_ne [OF assms(1)]] assms(3) by (intro map_cong) auto
  also have "\<dots> = as"
    using assms(1,2) by (cases v) (auto simp: zip_pairs_def comp_def length_Suc_conv)
  finally show ?thesis using assms(1,2) by (cases v) (auto simp: pointwise_of_def out_shape_def)
qed

lemma pointwise_right:
  assumes "spread v xs ys as bs" and "v \<noteq> VxS" and "\<And>a b. a \<in> set as \<Longrightarrow> b \<in> set bs \<Longrightarrow> h a b = b"
  shows "pointwise_of h xs ys as bs = bs \<and> out_shape xs ys = ys"
proof -
  have "map (\<lambda>(a, b). h a b) (zip_pairs xs ys as bs) = map snd (zip_pairs xs ys as bs)"
    using set_zip_pairs [OF spread_ne [OF assms(1)]] assms(3) by (intro map_cong) auto
  also have "\<dots> = bs"
    using assms(1,2) by (cases v) (auto simp: zip_pairs_def comp_def length_Suc_conv)
  finally show ?thesis using assms(1,2) by (cases v) (auto simp: pointwise_of_def out_shape_def)
qed

lemma pointwise_length:
  assumes "spread v xs ys as bs"
  shows "length (pointwise_of h xs ys as bs) = nat (prod_list (out_shape xs ys))"
  using assms by (cases v) (auto simp: pointwise_of_def zip_pairs_def out_shape_def)

lemma pointwise_const:
  assumes "spread v xs ys as bs" and "\<And>a b. (a, b) \<in> set (zip_pairs xs ys as bs) \<Longrightarrow> h a b = k"
  shows "pointwise_of h xs ys as bs = replicate (nat (prod_list (out_shape xs ys))) k"
proof -
  have "map (\<lambda>(a, b). h a b) (zip_pairs xs ys as bs) = map (\<lambda>p. k) (zip_pairs xs ys as bs)"
    using assms(2) by (intro map_cong) auto
  then show ?thesis using pointwise_length [OF assms(1), of h] by (simp add: pointwise_of_def map_replicate_const)
qed

end
