(* ===== verification/SCS_Match.thy ===== *)
theory SCS_Match
  imports SCS_Ints
begin

text \<open>
  What a successful match says of the values of the expression: variables, applications of a primitive to
  variables, constants, and two expressions that are the same node.
\<close>

subsection \<open>Successful matches\<close>

lemma generic_found:
  "genericPatternMatcher E H mode follow nt as inner stack b = Some (Inr (Some s, b')) \<longleftrightarrow>
     (\<exists>arg m b1. stack = arg # s \<and> follow_defs H mode follow arg = Some (Inr m) \<and> nt m
        \<and> genericAtribMatcher E H as m b = Some (Inr (True, b1))
        \<and> (case inner of None \<Rightarrow> b' = b1 | Some sub \<Rightarrow> sub (getInner m) b1 = Some (Inr (True, b'))))"
  by (cases stack; cases inner) (force simp: genericPatternMatcher_def runs ex_bool_eq)+

lemma match_found:
  "PMmatch E H mode pat n b = Some (Inr (True, b')) \<longleftrightarrow> (\<exists>s. pat_match E H mode pat [n] b = Some (Inr (Some s, b')))"
  by (auto simp: PMmatch_def runs)

lemma is_id_iff: "is_id n \<longleftrightarrow> (\<exists>v. n = N_id v)"
  by (cases n) auto

lemma is_prf_iff: "is_prf n \<longleftrightarrow> (\<exists>a p k es. n = N_prf a p k es)"
  by (cases n) auto

lemma ID_AVIS_Inr: "ID_AVIS n = Inr v \<longleftrightarrow> n = N_id v"
  by (cases n) auto

lemma match_var_node:
  "PMmatch E H mode (PMvar [PMAgetNode x] []) n b = (if is_id n then retO (True, set_node x n b) else retO (False, b))"
  by (cases n) (simp_all add: PMmatch_def genericPatternMatcher_def follow_defs_def bindOO_def bindO_def)

lemma match_var_is:
  "PMmatch E H mode (PMvar [PMAisVar x] []) n b = Some (Inr (True, b')) \<longleftrightarrow>
     (\<exists>v. n = N_id v \<and> bound_node x b = Inr (N_id v) \<and> b' = b)"
  by (auto simp: match_found generic_found follow_defs_def is_id_iff runs ID_AVIS_Inr split: if_splits)

lemma match_any_found:
  "PMmatch E H mode (PMany as) n b = Some (Inr (True, b')) \<longleftrightarrow>
     (\<exists>m. skipVarDefs H mode n = Some (Inr m) \<and> genericAtribMatcher E H as m b = Some (Inr (True, b')))"
  by (auto simp: match_found generic_found follow_defs_def)

lemma match_const_pat:
  "PMmatch E H mode (PMconst as) n b = Some (Inr (True, b')) \<longleftrightarrow>
     (\<exists>m. skipVarDefs H mode n = Some (Inr m) \<and> COisConstant E H m = Some (Inr True)
        \<and> genericAtribMatcher E H as m b = Some (Inr (True, b')))"
  by (auto simp: match_found runs split: if_splits)

lemma match_prf_run:
  assumes "PMmatch E H mode (PMprf as ps) n b = Some (Inr (True, b'))" and "ps \<noteq> []"
  obtains a p k es b1 where "skipVarDefs H mode n = Some (Inr (N_prf a p k es))"
    and "genericAtribMatcher E H as (N_prf a p k es) b = Some (Inr (True, b1))"
    and "genericSubPatternMatcher E H mode ps es b1 = Some (Inr (True, b'))"
  using assms that by (auto simp: match_found generic_found follow_defs_def is_prf_iff)

lemma sub_Cons:
  "genericSubPatternMatcher E H mode (p # ps) es b = Some (Inr (True, b')) \<longleftrightarrow>
     (\<exists>s b1. pat_match E H mode p es b = Some (Inr (Some s, b1))
        \<and> genericSubPatternMatcher E H mode ps s b1 = Some (Inr (True, b')))"
  by (auto simp: runs split: option.splits)

lemma sub_var:
  "genericSubPatternMatcher E H mode (PMvar as [] # ps) es b = Some (Inr (True, b')) \<longleftrightarrow>
     (\<exists>v fs b1. es = N_id v # fs \<and> genericAtribMatcher E H as (N_id v) b = Some (Inr (True, b1))
        \<and> genericSubPatternMatcher E H mode ps fs b1 = Some (Inr (True, b')))"
  unfolding sub_Cons by (auto simp: generic_found follow_defs_def is_id_iff)

lemma sub_const:
  "genericSubPatternMatcher E H mode (PMconst as # ps) es b = Some (Inr (True, b')) \<longleftrightarrow>
     (\<exists>e fs m b1. es = e # fs \<and> skipVarDefs H mode e = Some (Inr m) \<and> COisConstant E H m = Some (Inr True)
        \<and> genericAtribMatcher E H as m b = Some (Inr (True, b1))
        \<and> genericSubPatternMatcher E H mode ps fs b1 = Some (Inr (True, b')))"
  unfolding sub_Cons by (cases es) (force simp: runs ex_bool_eq)+

lemma sub_skip:
  "genericSubPatternMatcher E H mode [PMskip []] es b = Some (Inr (True, b')) \<longleftrightarrow> b' = b"
  unfolding sub_Cons by (auto simp: runs)

lemma sub_end: "genericSubPatternMatcher E H mode [] es b = Some (Inr (True, b')) \<longleftrightarrow> es = [] \<and> b' = b"
  by auto

lemma attr_node: "genericAtribMatcher E H [PMAgetNode x] n b = Some (Inr (True, b1)) \<longleftrightarrow> b1 = set_node x n b"
  by auto

lemma attr_var:
  "genericAtribMatcher E H [PMAisVar x] (N_id v) b = Some (Inr (True, b1)) \<longleftrightarrow> bound_node x b = Inr (N_id v) \<and> b1 = b"
  by (auto simp: runs ID_AVIS_Inr split: if_splits)

lemma attr_prf:
  "genericAtribMatcher E H [PMAisPrf q] (N_prf a p k es) b = Some (Inr (True, b1)) \<longleftrightarrow> p = q \<and> b1 = b"
  by (auto simp: runs)

lemma attr_get_prf:
  "genericAtribMatcher E H [PMAgetPrf x] (N_prf a p k es) b = Some (Inr (True, b1)) \<longleftrightarrow> b1 = set_prf x p b"
  by (auto simp: runs)

lemma bound_set [simp]: "bound_node x (set_node y n b) = (if x = y then Inr n else bound_node x b)"
  by (simp add: bound_node_def set_node_def)

lemma bound_set_con [simp]: "bound_node x (set_con y c b) = bound_node x b"
  by (simp add: bound_node_def set_con_def)

lemma bound_set_prf [simp]: "bound_node x (set_prf y p b) = bound_node x b"
  by (simp add: bound_node_def set_prf_def)

declare genericAtribMatcher.simps [simp del] genericSubPatternMatcher.simps [simp del]

lemmas sub_matches = sub_skip sub_var sub_const sub_end attr_node attr_var attr_prf attr_get_prf

subsection \<open>Applications found\<close>

lemma prf_found_value:
  assumes "consistent E H \<rho>" and "good E \<rho> n cs" and "skipVarDefs H mode n = Some (Inr (N_prf a p k es))"
  shows "good E \<rho> (N_prf a p k es) cs"
  using skipVarDefs_value [OF assms(1,3,2)] .

lemma prf1_value: "good E \<rho> (N_prf a p k [N_id x]) cs \<Longrightarrow> prf_value (te_fops E) p k [var \<rho> x] = Some cs"
  by (simp add: good_def)

lemma prf2_value: "good E \<rho> (N_prf a p k [N_id x, N_id y]) cs \<Longrightarrow> prf_value (te_fops E) p k [var \<rho> x, var \<rho> y] = Some cs"
  by (simp add: good_def)

lemma bin_prf_value [simp]:
  "prf_value F (F_bin op v) k [a, b] = Some [c] \<longleftrightarrow> bin_value F op v a b = Some c"
  by (simp add: prf_value_def split: option.splits)

lemma un_prf_value [simp]:
  "prf_value F (F_un op v) k [a] = Some [c] \<longleftrightarrow> un_co F op a = Inr c"
  by (auto simp: prf_value_def)

lemma match_un:
  assumes "consistent E H \<rho>" and "good E \<rho> n [c]"
    and "PMmatch E H mode (PMprf [PMAisPrf (F_un op v)] [PMvar [PMAisVar x] []]) n b = Some (Inr (True, b'))"
  obtains y where "bound_node x b = Inr (N_id y)" and "un_co (te_fops E) op (var \<rho> y) = Inr c"
proof -
  obtain a p k es b1 where m: "skipVarDefs H mode n = Some (Inr (N_prf a p k es))"
      "genericAtribMatcher E H [PMAisPrf (F_un op v)] (N_prf a p k es) b = Some (Inr (True, b1))"
      "genericSubPatternMatcher E H mode [PMvar [PMAisVar x] []] es b1 = Some (Inr (True, b'))"
    using match_prf_run [OF assms(3)] by blast
  then obtain y where y: "p = F_un op v" "es = [N_id y]" "bound_node x b = Inr (N_id y)"
    by (auto simp: sub_matches)
  with prf1_value [of E \<rho> a p k y "[c]"] prf_found_value [OF assms(1,2) m(1)] that show ?thesis by simp
qed

text \<open>The negation of integers.\<close>

lemma neg_int:
  fixes F :: "'f fops"
  assumes "un_co F P_neg (con T_int xs es) = Inr c" and "con_ok T_int xs es"
  obtains as where "es = map (CInt IInt) as" and "c = iarr xs (map uminus as)"
proof -
  obtain as where as: "es = map (CInt IInt) as" "iarr_ok xs as" using iarr_cases [OF assms(2)] .
  have "zip_supports ZNeg T_int" by (simp add: zip_supports_def MAP_SNUM_def)
  then obtain gs where gs: "mapR (\<lambda>a. zop_un F ZNeg a) es = Inr gs" "c = con T_int xs gs"
    using assms COzipUnary_con [OF assms(2), of ZNeg T_unknown F] target_ok_same
    by (auto simp: COneg_def bindR_Inr_iff zip_type_def)
  have "gs = map (\<lambda>a. CInt IInt (- a)) as"
    by (rule mapR_known [of "\<lambda>a. zop_un F ZNeg (CInt IInt a)"])
       (use gs(1) as(1) in \<open>auto simp: mapR_map comp_def bindR_Inr_iff iprom_def iarith_def zop_un_def int_NEG_def check_Inr_iff split: if_splits\<close>)
  with that as gs(2) show ?thesis by (simp add: comp_def)
qed

lemma match_neg_value:
  assumes "consistent E H \<rho>" and "good E \<rho> n1 [c]" and "good E \<rho> n2 [d]" and "match_neg v E H n1 n2 = Some (Inr True)"
  shows "un_co (te_fops E) P_neg c = Inr d"
proof -
  let ?P = "PMprf [PMAisPrf (F_un P_neg v)] [PMvar [PMAisVar ''arg1p''] []]"
  obtain x where x: "n1 = N_id x" using assms(4) by (cases n1) (auto simp: match_neg_def PMmatchFlatSkipExtremaAndGuards_def match_var_node)
  with assms(4) obtain b' where m: "PMmatch E H skip_both ?P n2 (set_node ''arg1p'' (N_id x) no_binds) = Some (Inr (True, b'))"
    by (auto simp: match_neg_def PMmatchFlatSkipExtremaAndGuards_def match_var_node runs)
  obtain y where "Inr (N_id x) = (Inr (N_id y) :: 'a node cres)" "un_co (te_fops E) P_neg (var \<rho> y) = Inr d"
    using match_un [OF assms(1,3) m] by auto
  then show ?thesis using assms(2) x by simp
qed

subsection \<open>Expressions that are the same\<close>

lemma good_node_or_avis: "good E \<rho> n [c] \<Longrightarrow> vals (te_fops E) \<rho> (node_or_avis n) = Some [c]"
  by (cases n) (auto simp: good_def)

lemma match_same_value:
  assumes "consistent E H \<rho>" and "good E \<rho> n1 [c]" and "good E \<rho> n2 [d]" and "match_same E H mode n1 n2 = Some (Inr True)"
  shows "c = d"
proof -
  obtain b b' where b: "PMmatch E H mode (PMany [PMAgetNodeOrAvis ''node_ptr'']) n1 no_binds = Some (Inr (True, b))"
      "PMmatch E H mode (PMany [PMAisNodeOrAvis ''node_ptr'']) n2 b = Some (Inr (True, b'))"
    using assms(4) by (auto simp: match_same_def runs ex_bool_eq split: if_splits)
  obtain m1 where m1: "skipVarDefs H mode n1 = Some (Inr m1)" "b = set_node ''node_ptr'' (node_or_avis m1) no_binds"
    using b(1) by (auto simp: match_any_found genericAtribMatcher.simps runs)
  obtain m2 where m2: "skipVarDefs H mode n2 = Some (Inr m2)" "same_node (node_or_avis m2) (node_or_avis m1)"
    using b(2) m1(2) by (auto simp: match_any_found genericAtribMatcher.simps runs split: if_splits)
  have "node_or_avis m1 = node_or_avis m2" using m2(2) by (simp add: same_node_def)
  with good_node_or_avis [OF skipVarDefs_value [OF assms(1) m1(1) assms(2)]]
    good_node_or_avis [OF skipVarDefs_value [OF assms(1) m2(1) assms(3)]] show ?thesis by simp
qed

subsection \<open>Bounds\<close>

lemma bound_min:
  assumes "consistent E H \<rho>" and "AVIS_MIN (H v) = Some e"
  obtains u where "e = N_id u" and "int_rel (\<le>) (var \<rho> u) (var \<rho> v)"
  using assms unfolding consistent_def avis_ok_def by blast

lemma bound_max:
  assumes "consistent E H \<rho>" and "AVIS_MAX (H v) = Some e"
  obtains u where "e = N_id u" and "int_rel (<) (var \<rho> v) (var \<rho> u)"
  using assms unfolding consistent_def avis_ok_def by blast

lemma int_rel_con:
  assumes "int_rel R c d"
  obtains xs as bs where "c = iarr xs as" and "d = iarr xs bs" and "list_all2 R as bs"
  using assms by (auto simp: int_rel_def)

lemma int_rel_iarr [simp]:
  "int_rel R (iarr xs as) (iarr ys bs) \<longleftrightarrow> xs = ys \<and> list_all2 R as bs"
  by (auto simp: int_rel_def)

lemma avis_of_id [simp]: "avis_of H (N_id v) = Inr (H v)"
  by (simp add: avis_of_def)

lemma avis_of_Inr: "avis_of H n = Inr a \<longleftrightarrow> (\<exists>v. n = N_id v \<and> a = H v)"
  by (cases n) (auto simp: avis_of_def)

lemma good_var:
  assumes "good E \<rho> (N_id v) [c]"
  shows "var \<rho> v = c"
  using assms by simp

text \<open>A variable whose range has one element is its lower bound.\<close>

lemma between_one:
  assumes "int_rel (\<le>) m c" and "int_rel (<) c (iarr xs as)" and "m = iarr xs (map (\<lambda>a. a - 1) as)"
  shows "c = m"
proof -
  obtain bs where bs: "c = iarr xs bs" "list_all2 (\<le>) (map (\<lambda>a. a - 1) as) bs" "list_all2 (<) bs as"
    using assms by (auto simp del: map_map elim!: int_rel_con)
  have "bs = map (\<lambda>a. a - 1) as"
    using bs(2,3) by (auto simp: list_all2_conv_all_nth intro!: nth_equalityI) (metis zle_diff1_eq order_antisym)
  with bs(1) assms(3) show ?thesis by simp
qed

lemma add_one_int:
  fixes F :: "'f fops"
  assumes one: "COmakeConstantFromInt 1 = Inr one" and run: "COadd F one (iarr xs as) = Inr d" and ok: "iarr_ok xs as"
  shows "d = iarr xs (map (\<lambda>a. a + 1) as) \<and> iarr_ok xs (map (\<lambda>a. a + 1) as)"
proof -
  have o: "one = iarr [] [1]" using one by (simp add: COmakeConstantFromInt_con)
  have "iarr_ok [] [1]" by (simp add: iarr_ok_def shape_fits_def in_ity_def imin_def imax_def int_max_def)
  moreover have "bin_co F P_add (iarr [] [1]) (iarr xs as) = Inr d" using run o by simp
  ultimately obtain zs where "zip_shape [] xs = Some zs" "d = iarr zs (pointwise_of (iop P_add) [] xs [1] as)"
      "iarr_ok zs (pointwise_of (iop P_add) [] xs [1] as)"
    using co_ari [OF _ _ ok, of F P_add "[]" "[1]" d] by (auto simp: ari_ops_def)
  then show ?thesis by (auto simp: zip_shape_def pointwise_of_def zip_pairs_def comp_def add.commute)
qed

lemma attr_val:
  "genericAtribMatcher E H [PMAgetVal x] n b = Some (Inr (True, b1)) \<longleftrightarrow>
     (\<exists>c. COaST2Constant E H n = Some (Inr c) \<and> b1 = set_con x c b)"
  by (auto simp: genericAtribMatcher.simps runs)

lemma b_con_set [simp]: "b_con (set_con x c b) x = c"
  by (simp add: set_con_def)

lemma prf_args_found:
  assumes "good E \<rho> (N_prf a (F_bin op v) k [e1, e2]) [c]"
  obtains x y where "good E \<rho> e1 [x]" and "good E \<rho> e2 [y]" and "bin_value (te_fops E) op v x y = Some c"
proof -
  have at: "list_all atom [e1, e2]" using assms by (simp add: good_def flat_args_def)
  obtain cs where cs: "vals_list (te_fops E) \<rho> [e1, e2] = Some cs" "prf_value (te_fops E) (F_bin op v) k cs = Some [c]"
    using assms by (auto simp: good_def split: option.splits)
  obtain x y where "cs = [x, y]" "vals (te_fops E) \<rho> e1 = Some [x]" "vals (te_fops E) \<rho> e2 = Some [y]"
    using vals_list_atoms [OF at cs(1)] by (auto simp: list_all2_Cons1)
  with that at cs(2) flat_atom show ?thesis by (auto simp: good_def)
qed

lemma good_con:
  assumes "consistent E H \<rho>" and "good E \<rho> e [c]" and "atom e"
  obtains t xs es where "c = con t xs es" and "con_ok t xs es"
proof -
  have "typed E H e c" using typed_atom [OF assms(1,3), of "te_fops E" c] assms(2) by (simp add: good_def)
  then obtain s xs es where "c = con s xs es" "typed E H e (con s xs es)" by (auto simp: typed_def types_def)
  with that typed_ok show ?thesis by blast
qed

lemma genwidth_sum:
  fixes E :: "'f tenv"
  assumes c: "consistent E H \<rho>" and g: "good E \<rho> amin [v]"
    and m: "PMmatch E H mode (PMprf [PMAisPrf (F_bin op SxS)] [PMvar [PMAisVar ''amax''] [], PMconst [PMAgetVal ''con'']])
        amin (set_node ''amax'' (N_id u) no_binds) = Some (Inr (True, b))"
    and k: "b_con b ''con'' = Some k" "COconst2Int k = Inr i"
    and u: "var \<rho> u = iarr xs as" and op: "op \<notin> rel_ops"
  shows "\<exists>a. as = [a] \<and> xs = [] \<and> v = iarr [] [iop op a i]"
proof -
  obtain a p n es b1 where f: "skipVarDefs H mode amin = Some (Inr (N_prf a p n es))"
      "genericAtribMatcher E H [PMAisPrf (F_bin op SxS)] (N_prf a p n es) (set_node ''amax'' (N_id u) no_binds) = Some (Inr (True, b1))"
      "genericSubPatternMatcher E H mode [PMvar [PMAisVar ''amax''] [], PMconst [PMAgetVal ''con'']] es b1 = Some (Inr (True, b))"
    using match_prf_run [OF m] by blast
  then obtain e m where e: "p = F_bin op SxS" "es = [N_id u, e]" "skipVarDefs H mode e = Some (Inr m)"
      "COaST2Constant E H m = Some (Inr (Some k))"
    using k(1) by (auto simp: sub_matches attr_val)
  have "good E \<rho> (N_prf a (F_bin op SxS) n [N_id u, e]) [v]" using prf_found_value [OF c g f(1)] e(1,2) by simp
  then obtain x y where x: "good E \<rho> (N_id u) [x]" and y: "good E \<rho> e [y]" "bin_value (te_fops E) op SxS x y = Some v"
    by (rule prf_args_found)
  with good_id have y: "good E \<rho> e [y]" "bin_value (te_fops E) op SxS (var \<rho> u) y = Some v" by simp_all
  have ke: "k = y" using const_value [OF c skipVarDefs_value [OF c e(3) y(1)] e(4)] .
  have at: "atom e" using prf_found_value [OF c g f(1)] e(1,2) by (simp add: good_def flat_args_def)
  obtain t ys fs where t: "y = con t ys fs" "con_ok t ys fs" using good_con [OF c y(1) at] .
  obtain s ws ds where "var \<rho> u = con s ws ds" "con_ok s ws ds" using good_con [OF c, of "N_id u" "var \<rho> u"] by auto
  then have "con_ok T_int xs (map (CInt IInt) as :: 'f cval list)" using u by simp
  then obtain as' bs where "map (CInt IInt) as = (map (CInt IInt) as' :: 'f cval list)" "spread SxS xs ys as' bs"
      "t = T_int" "fs = map (CInt IInt) bs" "v = iarr (out_shape xs ys) (pointwise_of (iop op) xs ys as' bs)"
    using bin_value_int [OF y(2) [unfolded t(1) u] _ t(2)] op by blast
  then have bs: "y = iarr ys bs" "spread SxS xs ys as bs" "v = iarr (out_shape xs ys) (pointwise_of (iop op) xs ys as bs)"
    using t(1) by simp_all
  then obtain a1 b1 where ab: "as = [a1]" "bs = [b1]" "xs = []" "ys = []" by (auto simp: length_Suc_conv)
  then have "i = b1" using k(2) ke bs(1) by (simp add: COconst2Int_def rd_int_def rd_def)
  with ab bs(3) show ?thesis by (simp add: out_shape_def pointwise_of_def zip_pairs_def)
qed

lemma genwidth1_value:
  fixes E :: "'f tenv"
  assumes c: "consistent E H \<rho>" and r: "isGenwidth1Partition E H (N_id x) = Some (Inr True)"
    and mn: "AVIS_MIN (H x) = Some (N_id w)"
  shows "var \<rho> x = var \<rho> w"
proof -
  obtain mx where mx: "AVIS_MAX (H x) = Some mx" using r mn by (cases "AVIS_MAX (H x)") (auto simp: isGenwidth1Partition_def)
  obtain u where u: "mx = N_id u" "int_rel (<) (var \<rho> x) (var \<rho> u)" using bound_max [OF c mx] .
  have l: "int_rel (\<le>) (var \<rho> w) (var \<rho> x)" using bound_min [OF c mn] by auto
  obtain xs as where as: "var \<rho> u = iarr xs as" using u(2) by (auto elim: int_rel_con)
  obtain ys bs where bs: "var \<rho> w = iarr ys bs" using l by (auto elim: int_rel_con)
  have "var \<rho> w = iarr xs (map (\<lambda>a. a - 1) as)"
  proof -
    let ?b = "set_node ''amax'' (N_id u) no_binds"
    let ?p = "\<lambda>op. PMprf [PMAisPrf (F_bin op SxS)] [PMvar [PMAisVar ''amax''] [], PMconst [PMAgetVal ''con'']]"
    consider (s) op i b k where "op \<in> {P_add, P_sub}" "PMmatch E H PMMflat (?p op) (N_id w) ?b = Some (Inr (True, b))"
        "b_con b ''con'' = Some k" "COconst2Int k = Inr i" "i = (if op = P_add then - 1 else 1)"
      | (k) k one d b where "match_const E H PMMflat (N_id w) = Some (Inr (Some k))"
        "COmakeConstantFromInt 1 = Inr one" "COadd (te_fops E) one k = Inr d"
        "PMmatch E H PMMflat (PMconst [PMAisVal ''consum'']) (N_id u) (set_con ''consum'' (Some d) no_binds) = Some (Inr (True, b))"
      using r mx mn u(1)
      by (force simp: isGenwidth1Partition_def orO_True runs PMmatchFlat_def Let_def split: option.splits if_splits)
    then show ?thesis
    proof cases
      case s
      then show ?thesis using genwidth_sum [OF c _ s(2-4) as] by (auto simp: op_classes)
    next
      case k
      have kv: "k = var \<rho> w" using match_const_value [OF c _ k(1)] by simp
      have ok: "iarr_ok ys bs" using consistentD [OF c, of w] bs inhab_ok by (metis con_inj iarr_con_ok)
      have d: "d = iarr ys (map (\<lambda>a. a + 1) bs)" "iarr_ok ys (map (\<lambda>a. a + 1) bs)"
        using add_one_int [OF k(2) _ ok] k(3) kv bs by simp_all
      obtain m c2 where m: "skipVarDefs H PMMflat (N_id u) = Some (Inr m)" "COaST2Constant E H m = Some (Inr (Some c2))"
          "COcompareConstants (te_fops E) d c2 = Inr True"
        using k(4) by (auto simp: match_const_pat genericAtribMatcher.simps runs split: option.splits if_splits)
      have "good E \<rho> m [var \<rho> u]" using skipVarDefs_value [OF c m(1)] by simp
      then have "c2 = iarr xs as" using const_value [OF c _ m(2)] as by simp
      moreover have "con_ok T_int xs (map (CInt IInt) as :: 'f cval list)" using good_con [OF c, of "N_id u" "var \<rho> u"] as by auto
      ultimately have "d = iarr xs as"
        using m(3) d compare_exact [of T_int ys "map (CInt IInt) (map (\<lambda>a. a + 1) bs)" xs "map (CInt IInt) as" "te_fops E"]
        by (simp add: exact_type_def del: map_map)
      then have "ys = xs" "as = map (\<lambda>a. a + 1) bs" using d by (simp_all del: map_map)
      then show ?thesis using bs by (simp add: comp_def)
    qed
  qed
  then show ?thesis using between_one [OF l] u(2) as by simp
qed

end
