(* ===== verification/SCS_Facts.thy ===== *)
theory SCS_Facts
  imports SCS_Match
begin

text \<open>
  What the tests of the simplifications establish: two arguments are equal or different, an argument is
  a constant with a property, and what the replacements denote.
\<close>

subsection \<open>Equal arguments\<close>

lemma isMatchGenwidth1_value:
  assumes c: "consistent E H \<rho>" and g: "good E \<rho> n1 [c1]" "good E \<rho> n2 [c2]"
    and r: "isMatchGenwidth1Partition E H n1 n2 = Some (Inr True)"
  shows "c1 = c2"
proof -
  obtain x amin where x: "n1 = N_id x" "AVIS_MIN (H x) = Some amin"
    using r by (auto simp: isMatchGenwidth1Partition_def runs avis_of_Inr split: option.splits)
  then obtain b where b: "PMmatch E H PMMflat (PMvar [PMAisVar ''arg2''] []) amin (set_node ''arg2'' n2 no_binds) = Some (Inr (True, b))"
      "isGenwidth1Partition E H n1 = Some (Inr True)"
    using r by (auto simp: isMatchGenwidth1Partition_def runs PMmatchFlat_def split: if_splits)
  obtain y where y: "amin = N_id y" "n2 = N_id y" using b(1) by (auto simp: match_var_is)
  then show ?thesis using genwidth1_value [OF c, of x y] b(2) x g by simp
qed

lemma prf_args2_pair [simp]: "prf_args2 (N_prf a p k [e1, e2]) f = f e1 e2"
  by (simp add: prf_args2_def PRF_ARG1_def PRF_ARG2_def PRF_ARG_def)

lemma PRF_ARG_pair [simp]: "PRF_ARG1 (N_prf a p k [e1, e2]) = Inr e1" "PRF_ARG2 (N_prf a p k [e1, e2]) = Inr e2"
  by (simp_all add: PRF_ARG1_def PRF_ARG2_def PRF_ARG_def)

lemma SCSisMatchPrfargs_value:
  assumes "consistent E H \<rho>" and "good E \<rho> e1 [c1]" and "good E \<rho> e2 [c2]"
    and "SCSisMatchPrfargs E H (N_prf a p k [e1, e2]) = Some (Inr True)"
  shows "c1 = c2"
proof -
  consider "match_same E H skip_both e1 e2 = Some (Inr True)" | "isMatchGenwidth1Partition E H e1 e2 = Some (Inr True)"
    | "isMatchGenwidth1Partition E H e2 e1 = Some (Inr True)"
    using assms(4) by (auto simp: SCSisMatchPrfargs_def orO_True)
  then show ?thesis
    using match_same_value [OF assms(1-3)] isMatchGenwidth1_value [OF assms(1-3)] isMatchGenwidth1_value [OF assms(1,3,2)]
    by cases auto
qed

subsection \<open>Different arguments\<close>

lemma pairs_same:
  assumes "list_all2 R as bs" and "iarr_ok xs as"
  shows "all_pairs R xs xs as bs"
proof (cases "xs = []")
  case True
  then obtain a where "as = [a]" using iarr_ok_scalar assms(2) by blast
  then show ?thesis using assms(1) True by (auto simp: all_pairs_def zip_pairs_def list_all2_Cons1)
qed (use assms(1) in \<open>auto simp: all_pairs_def zip_pairs_def list_all2_iff\<close>)

lemma pairs_left:
  assumes "all_pairs R xs ys ms bs" and "list_all2 S ms as" and "iarr_ok xs as"
    and T: "\<And>m a b. S m a \<Longrightarrow> R m b \<Longrightarrow> T a b"
  shows "all_pairs T xs ys as bs"
proof (cases "xs = []")
  case True
  then obtain a where "as = [a]" using iarr_ok_scalar assms(3) by blast
  then show ?thesis using assms True by (auto simp: all_pairs_def zip_pairs_def list_all2_Cons2)
next
  case False
  have l: "length ms = length as" and s: "\<And>i. i < length as \<Longrightarrow> S (ms ! i) (as ! i)"
    using assms(2) by (auto simp: list_all2_conv_all_nth)
  show ?thesis
  proof (cases "ys = []")
    case True
    then have "\<And>i. i < length as \<Longrightarrow> R (ms ! i) (bs ! 0)" using assms(1) False l by (auto simp: all_pairs_def zip_pairs_def)
    then show ?thesis using assms(1) False True T [OF s]
      by (auto simp: all_pairs_def zip_pairs_def in_set_conv_nth)
  next
    case ys: False
    then have "\<And>i. i < length as \<Longrightarrow> i < length bs \<Longrightarrow> R (ms ! i) (bs ! i)"
      using assms(1) False l by (fastforce simp: all_pairs_def zip_pairs_def set_zip)
    then show ?thesis using assms(1) False ys T [OF s]
      by (auto simp: all_pairs_def zip_pairs_def set_zip)
  qed
qed

lemma pairs_mono: "all_pairs R xs ys as bs \<Longrightarrow> (\<And>a b. R a b \<Longrightarrow> S a b) \<Longrightarrow> all_pairs S xs ys as bs"
  by (auto simp: all_pairs_def)

lemma pairs_sym:
  assumes "all_pairs R xs ys as bs" and "iarr_ok xs as" and "iarr_ok ys bs"
  shows "all_pairs (\<lambda>b a. R a b) ys xs bs as"
proof (cases "xs = [] \<and> ys = []")
  case True
  then obtain a b where "as = [a]" "bs = [b]" using iarr_ok_scalar assms(2,3) by meson
  then show ?thesis using assms(1) True by (simp add: all_pairs_def zip_pairs_def)
qed (use assms(1) in \<open>auto simp: all_pairs_def zip_pairs_def zip_shape_def set_zip split: if_splits\<close>)

lemma co_value_int:
  fixes E :: "'f tenv"
  assumes c: "consistent E H \<rho>" and v: "var \<rho> u = iarr xs as"
  shows "iarr_ok xs as"
proof -
  obtain t ys es where "var \<rho> u = con t ys es" "con_ok t ys es" using good_con [OF c, of "N_id u" "var \<rho> u"] by auto
  with v show ?thesis by auto
qed

lemma rel_const_True:
  assumes "rel_const f E a b = Inr True"
  obtains x y w where "a = Some x" and "b = Some y" and "f x y = Inr w" and "COisTrue (te_fops E) w True = Inr True"
  using assms that by (auto simp: rel_const_def runs split: option.splits)

lemma opt_const_value:
  assumes "consistent E H \<rho>" and "opt_const E H (Some (N_id u)) = Some (Inr (Some k))"
  shows "k = var \<rho> u"
  using assms match_const_value [OF assms(1), of "N_id u" "var \<rho> u"] by (simp add: opt_const_def)

lemma opt_const_Some:
  assumes "opt_const E H n = Some (Inr (Some k))"
  obtains m where "n = Some m" and "match_const E H skip_both m = Some (Inr (Some k))"
  using assms that by (cases n) (auto simp: opt_const_def)

text \<open>The values of two arguments, compared element by element.\<close>

definition related :: "(int \<Rightarrow> int \<Rightarrow> bool) \<Rightarrow> 'f const \<Rightarrow> 'f const \<Rightarrow> bool" where
  "related R c d \<longleftrightarrow> (\<exists>xs as ys bs. c = iarr xs as \<and> d = iarr ys bs \<and> iarr_ok xs as \<and> iarr_ok ys bs \<and> all_pairs R xs ys as bs)"

lemma related_iarr [simp]:
  "related R (iarr xs as) (iarr ys bs) \<longleftrightarrow> iarr_ok xs as \<and> iarr_ok ys bs \<and> all_pairs R xs ys as bs"
  by (auto simp: related_def)

lemma compared:
  fixes E :: "'f tenv"
  assumes c: "consistent E H \<rho>" and run: "bin_co (te_fops E) op (var \<rho> u) d = Inr w" and op: "op \<in> rel_ops"
    and t: "COisTrue (te_fops E) w True = Inr True" and u: "var \<rho> u = iarr xs as" and d: "d = con s ys es" "con_ok s ys es"
  obtains bs where "d = iarr ys bs" and "all_pairs (irel op) xs ys as bs" and "iarr_ok ys bs"
proof -
  have s: "s = T_int"
  proof (rule ccontr)
    assume "s \<noteq> T_int"
    then show False using run u d COzip_type_error [of T_int s "te_fops E" "bin_zop op" xs "map (CInt IInt) as" ys es "bin_target op"]
      by (simp add: bin_co_zip)
  qed
  obtain bs where bs: "es = map (CInt IInt) bs" "iarr_ok ys bs" using iarr_cases [OF d(2) [unfolded s]] .
  have r: "bin_co (te_fops E) op (iarr xs as) (iarr ys bs) = Inr w" using run u d(1) s bs(1) by simp
  show ?thesis using that rel_true [OF r co_value_int [OF c u] bs(2) op t] bs d(1) s by simp
qed

lemma isNotEqual_value:
  fixes E :: "'f tenv"
  assumes c: "consistent E H \<rho>" and g: "good E \<rho> n1 [c1]" "good E \<rho> n2 [c2]" and at: "atom n2"
    and r: "isNotEqual E H n1 n2 = Some (Inr True)"
  shows "related (\<noteq>) c1 c2"
proof -
  obtain x where x: "n1 = N_id x" using r by (auto simp: isNotEqual_def runs avis_of_Inr)
  then have c1: "c1 = var \<rho> x" using g by simp
  obtain s ys es where c2: "c2 = con s ys es" "con_ok s ys es" using good_con [OF c g(2) at] .
  consider (e) m where "AVIS_MAX (H x) = Some m" "match_same E H skip_both m n2 = Some (Inr True)"
    | (l) k k2 w where "opt_const E H (AVIS_MIN (H x)) = Some (Inr (Some k))" "match_const E H skip_both n2 = Some (Inr (Some k2))"
      "COgt (te_fops E) k k2 = Inr w" "COisTrue (te_fops E) w True = Inr True"
    | (u) k k2 w where "opt_const E H (AVIS_MAX (H x)) = Some (Inr (Some k))" "match_const E H skip_both n2 = Some (Inr (Some k2))"
      "COle (te_fops E) k k2 = Inr w" "COisTrue (te_fops E) w True = Inr True"
    using r x by (auto simp: isNotEqual_def runs decided elim!: rel_const_True split: option.splits)
  then show ?thesis
  proof cases
    case e
    obtain u where u: "m = N_id u" "int_rel (<) (var \<rho> x) (var \<rho> u)" using bound_max [OF c e(1)] .
    have "var \<rho> u = c2" using match_same_value [OF c _ g(2) e(2), of "var \<rho> u"] u(1) by simp
    with u(2) obtain xs as bs where as: "var \<rho> x = iarr xs as" "c2 = iarr xs bs" "list_all2 (<) as bs" by (auto elim: int_rel_con)
    note ok = co_value_int [OF c as(1)]
    have "all_pairs (\<noteq>) xs xs as bs" by (rule pairs_mono [OF pairs_same [OF as(3) ok]]) simp
    moreover have "iarr_ok xs bs" using as(2) c2 by auto
    ultimately show ?thesis using as ok c1 by simp
  next
    case l
    obtain m where m: "AVIS_MIN (H x) = Some m" using l(1) by (rule opt_const_Some)
    obtain u where u: "m = N_id u" "int_rel (\<le>) (var \<rho> u) (var \<rho> x)" using bound_min [OF c m] .
    have k: "k = var \<rho> u" "k2 = c2" using opt_const_value [OF c] l(1) m u(1) match_const_value [OF c g(2) l(2)] by simp_all
    obtain xs ms as where as: "var \<rho> u = iarr xs ms" "var \<rho> x = iarr xs as" "list_all2 (\<le>) ms as" using u(2) by (auto elim: int_rel_con)
    have "bin_co (te_fops E) P_gt (var \<rho> u) c2 = Inr w" "P_gt \<in> rel_ops" using l(3) k by (simp_all add: rel_ops_def)
    from compared [OF c this l(4) as(1) c2] obtain bs where bs: "c2 = iarr ys bs" "all_pairs (irel P_gt) xs ys ms bs" "iarr_ok ys bs" by metis
    have "all_pairs (\<noteq>) xs ys as bs" by (rule pairs_left [OF bs(2) as(3) co_value_int [OF c as(2)]]) simp
    then show ?thesis using as(2) bs c1 co_value_int [OF c as(2)] by simp
  next
    case u
    obtain m where m: "AVIS_MAX (H x) = Some m" using u(1) by (rule opt_const_Some)
    obtain v where v: "m = N_id v" "int_rel (<) (var \<rho> x) (var \<rho> v)" using bound_max [OF c m] .
    have k: "k = var \<rho> v" "k2 = c2" using opt_const_value [OF c] u(1) m v(1) match_const_value [OF c g(2) u(2)] by simp_all
    obtain xs ms as where as: "var \<rho> x = iarr xs as" "var \<rho> v = iarr xs ms" "list_all2 (<) as ms" using v(2) by (auto elim: int_rel_con)
    have "bin_co (te_fops E) P_le (var \<rho> v) c2 = Inr w" "P_le \<in> rel_ops" using u(3) k by (simp_all add: rel_ops_def)
    from compared [OF c this u(4) as(2) c2] obtain bs where bs: "c2 = iarr ys bs" "all_pairs (irel P_le) xs ys ms bs" "iarr_ok ys bs" by metis
    have l: "list_all2 (\<lambda>m a. a < m) ms as" using as(3) by (simp add: list_all2_conv_all_nth)
    have "all_pairs (\<noteq>) xs ys as bs" by (rule pairs_left [OF bs(2) l co_value_int [OF c as(1)]]) simp
    then show ?thesis using as(1) bs c1 co_value_int [OF c as(1)] by simp
  qed
qed

lemma isNotEqualPrf_value:
  assumes "consistent E H \<rho>" and "good E \<rho> e1 [c1]" and "good E \<rho> e2 [c2]" and "atom e1" and "atom e2"
    and "isNotEqualPrf E H (N_prf a p k [e1, e2]) = Some (Inr True)"
  shows "related (\<noteq>) c1 c2"
proof -
  consider "isNotEqual E H e1 e2 = Some (Inr True)" | "isNotEqual E H e2 e1 = Some (Inr True)"
    using assms(6) by (auto simp: isNotEqualPrf_def orO_True)
  then show ?thesis
  proof cases
    case 1
    then show ?thesis using isNotEqual_value [OF assms(1-3,5)] by blast
  next
    case 2
    then have "related (\<noteq>) c2 c1" using isNotEqual_value [OF assms(1,3,2,4)] by blast
    then obtain xs as ys bs where "c2 = iarr xs as" "c1 = iarr ys bs" "iarr_ok xs as" "iarr_ok ys bs" "all_pairs (\<noteq>) xs ys as bs"
      by (auto simp: related_def)
    moreover have "all_pairs (\<noteq>) ys xs bs as" by (rule pairs_mono [OF pairs_sym [of "(\<noteq>)" xs ys as bs]]) (use calculation in auto)
    ultimately show ?thesis by simp
  qed
qed

subsection \<open>Constants with a property\<close>

lemma const_test:
  assumes "consistent E H \<rho>" and "good E \<rho> n [c]"
    and "bindO (match_const E H mode n) (test_const f) = Some (Inr True)"
  shows "f c = Inr True"
proof -
  obtain k where "match_const E H mode n = Some (Inr (Some k))" "f k = Inr True" using assms(3) by (auto simp: runs test_const_True)
  then show ?thesis using match_const_value [OF assms(1,2)] by blast
qed

lemma SCSisConstantZero_int:
  assumes "consistent E H \<rho>" and "good E \<rho> n [iarr xs as]" and "iarr_ok xs as"
    and "SCSisConstantZero E H n = Some (Inr True)"
  shows "\<forall>a\<in>set as. a = 0"
  using const_test [OF assms(1,2)] assms(3,4) zero.test_int [OF host_int_T_int, of xs as "te_fops E" True]
  by (fastforce simp: SCSisConstantZero_def)

lemma SCSisConstantOne_int:
  assumes "consistent E H \<rho>" and "good E \<rho> n [iarr xs as]" and "iarr_ok xs as"
    and "SCSisConstantOne E H n = Some (Inr True)"
  shows "\<forall>a\<in>set as. a = 1"
  using const_test [OF assms(1,2)] assms(3,4) one.test_int [OF host_int_T_int, of xs as "te_fops E" True]
  by (fastforce simp: SCSisConstantOne_def)

lemma SCSisConstantTrue_bool:
  fixes E :: "'f tenv"
  assumes "consistent E H \<rho>" and "good E \<rho> n [barr xs bs]" and "con_ok T_bool xs (map CBool bs :: 'f cval list)"
    and "SCSisConstantTrue E H n = Some (Inr True)"
  shows "\<forall>b\<in>set bs. b"
  using const_test [OF assms(1,2)] assms(3,4) bool_one [OF assms(3), of "te_fops E"]
  by (fastforce simp: SCSisConstantTrue_def COisTrue_def)

lemma SCSisConstantFalse_bool:
  fixes E :: "'f tenv"
  assumes "consistent E H \<rho>" and "good E \<rho> n [barr xs bs]" and "con_ok T_bool xs (map CBool bs :: 'f cval list)"
    and "SCSisConstantFalse E H n = Some (Inr True)"
  shows "\<forall>b\<in>set bs. \<not> b"
  using const_test [OF assms(1,2)] assms(3,4) bool_zero [OF assms(3), of "te_fops E"]
  by (fastforce simp: SCSisConstantFalse_def COisFalse_def)

end
