(* ===== verification/SCS_Sound.thy ===== *)
theory SCS_Sound
  imports SCS_Facts
begin

text \<open>
  The simplifications of binary primitives on integers and truth values that use constants and equal
  arguments: what replaces an application has its value.
\<close>

subsection \<open>Applications to integers\<close>

text \<open>
  The application of a binary primitive to atoms with integer values, and its value.
\<close>

definition int_app ::
  "'f tenv \<Rightarrow> 'f heap \<Rightarrow> 'f env \<Rightarrow> bin_op \<Rightarrow> vs \<Rightarrow> 'f node \<Rightarrow> 'f node \<Rightarrow> int list \<Rightarrow> int list \<Rightarrow> int list \<Rightarrow> int list
   \<Rightarrow> 'f const \<Rightarrow> bool" where
  "int_app E H \<rho> op v e1 e2 xs as ys bs w \<longleftrightarrow>
     consistent E H \<rho> \<and> atom e1 \<and> atom e2 \<and> good E \<rho> e1 [iarr xs as] \<and> good E \<rho> e2 [iarr ys bs]
     \<and> iarr_ok xs as \<and> iarr_ok ys bs \<and> spread v xs ys as bs
     \<and> (op \<notin> rel_ops \<longrightarrow> w = iarr (out_shape xs ys) (pointwise_of (iop op) xs ys as bs))
     \<and> (op \<in> rel_ops \<longrightarrow> w = barr (out_shape xs ys) (pointwise_of (irel op) xs ys as bs))"

lemma int_appI:
  fixes E :: "'f tenv"
  assumes c: "consistent E H \<rho>" and at: "atom e1" "atom e2" and g: "good E \<rho> (N_prf a (F_bin op v) k [e1, e2]) [w]"
    and t: "good E \<rho> e1 [con T_int xs es]"
  obtains as ys bs where "int_app E H \<rho> op v e1 e2 xs as ys bs w"
proof -
  obtain x y where xy: "good E \<rho> e1 [x]" "good E \<rho> e2 [y]" "bin_value (te_fops E) op v x y = Some w"
    using prf_args_found [OF g] .
  have x: "x = con T_int xs es" using xy(1) t by (simp add: good_def)
  obtain s zs fs where s: "x = con s zs fs" "con_ok s zs fs" using good_con [OF c xy(1) at(1)] .
  obtain u ys gs where u: "y = con u ys gs" "con_ok u ys gs" using good_con [OF c xy(2) at(2)] .
  have ok: "con_ok T_int xs es" using s x by simp
  show ?thesis
  proof (rule bin_value_int [OF xy(3) [unfolded x u(1)] ok u(2)])
    fix as bs
    assume "es = map (CInt IInt) as" "iarr_ok xs as" "u = T_int" "gs = map (CInt IInt) bs" "iarr_ok ys bs" "spread v xs ys as bs"
      and "op \<notin> rel_ops \<Longrightarrow> w = iarr (out_shape xs ys) (pointwise_of (iop op) xs ys as bs)"
      and "op \<in> rel_ops \<Longrightarrow> w = barr (out_shape xs ys) (pointwise_of (irel op) xs ys as bs)"
    then have "int_app E H \<rho> op v e1 e2 xs as ys bs w" using c at xy x u(1) by (simp add: int_app_def)
    then show thesis by (rule that)
  qed
qed

lemma int_appD:
  assumes "int_app E H \<rho> op v e1 e2 xs as ys bs w"
  shows "consistent E H \<rho>" and "atom e1" and "atom e2" and "good E \<rho> e1 [iarr xs as]" and "good E \<rho> e2 [iarr ys bs]"
    and "iarr_ok xs as" and "iarr_ok ys bs" and "spread v xs ys as bs"
    and "op \<notin> rel_ops \<Longrightarrow> w = iarr (out_shape xs ys) (pointwise_of (iop op) xs ys as bs)"
    and "op \<in> rel_ops \<Longrightarrow> w = barr (out_shape xs ys) (pointwise_of (irel op) xs ys as bs)"
  using assms by (simp_all add: int_app_def)

lemma good_dup: "atom e \<Longrightarrow> good E \<rho> (DUPdoDupNode e) cs \<longleftrightarrow> good E \<rho> e cs"
  by (cases e) (simp_all add: good_def)

subsection \<open>Replacements\<close>

text \<open>An argument, a constant array, or a scalar repeated in place of an argument.\<close>

lemma keep_left:
  assumes a: "int_app E H \<rho> op v e1 e2 xs as ys bs w" and "op \<notin> rel_ops" and "v \<noteq> SxV"
    and "\<And>a b. a \<in> set as \<Longrightarrow> b \<in> set bs \<Longrightarrow> iop op a b = a"
  shows "good E \<rho> (DUPdoDupNode e1) [w]"
  using pointwise_left [OF int_appD(8) [OF a] assms(3,4)] int_appD [OF a] assms(2) by (simp add: good_dup)

lemma keep_right:
  assumes a: "int_app E H \<rho> op v e1 e2 xs as ys bs w" and "op \<notin> rel_ops" and "v \<noteq> VxS"
    and "\<And>a b. a \<in> set as \<Longrightarrow> b \<in> set bs \<Longrightarrow> iop op a b = b"
  shows "good E \<rho> (DUPdoDupNode e2) [w]"
  using pointwise_right [OF int_appD(8) [OF a] assms(3,4)] int_appD [OF a] assms(2) by (simp add: good_dup)

lemma spread_length: "spread v xs ys as bs \<Longrightarrow> int (length xs) \<le> int_max \<and> int (length ys) \<le> int_max"
  by (cases v) (auto simp: int_max_def)

lemma out_left: "spread v xs ys as bs \<Longrightarrow> v \<noteq> SxV \<Longrightarrow> out_shape xs ys = xs"
  by (cases v) (auto simp: out_shape_def)

lemma out_right: "spread v xs ys as bs \<Longrightarrow> v \<noteq> VxS \<Longrightarrow> out_shape xs ys = ys"
  by (cases v) (auto simp: out_shape_def)

lemma typed_good:
  assumes "consistent E H \<rho>" and "atom e" and "good E \<rho> e [c]"
  shows "typed E H e c"
  using typed_atom [OF assms(1,2), of "te_fops E" c] assms(3) by (simp add: good_def)

lemma zero_left:
  assumes a: "int_app E H \<rho> op v e1 e2 xs as ys bs w" and "op \<notin> rel_ops" and v: "v \<noteq> SxV"
    and z: "\<And>a b. (a, b) \<in> set (zip_pairs xs ys as bs) \<Longrightarrow> iop op a b = 0"
    and r: "SCSmakeZero E H e1 = Some (Inr (Some m))"
  shows "good E \<rho> m [w]"
  using SCSmakeZero_value [OF r typed_good [OF int_appD(1,2,4) [OF a]], of \<rho>] spread_length [OF int_appD(8) [OF a]]
    pointwise_const [OF int_appD(8) [OF a] z] int_appD(9) [OF a assms(2)] out_left [OF int_appD(8) [OF a] v]
  by (simp add: zeros_iarr)

lemma zero_right:
  assumes a: "int_app E H \<rho> op v e1 e2 xs as ys bs w" and "op \<notin> rel_ops" and v: "v \<noteq> VxS"
    and z: "\<And>a b. (a, b) \<in> set (zip_pairs xs ys as bs) \<Longrightarrow> iop op a b = 0"
    and r: "SCSmakeZero E H e2 = Some (Inr (Some m))"
  shows "good E \<rho> m [w]"
  using SCSmakeZero_value [OF r typed_good [OF int_appD(1,3,5) [OF a]], of \<rho>] spread_length [OF int_appD(8) [OF a]]
    pointwise_const [OF int_appD(8) [OF a] z] int_appD(9) [OF a assms(2)] out_right [OF int_appD(8) [OF a] v]
  by (simp add: zeros_iarr)


text \<open>The vector that repeats the value of a scalar.\<close>

lemma array_value_frame:
  assumes "array_value_of et frame cs = Some (con t [k] es)"
  shows "frame = [] \<or> frame = [k]"
  using assms by (cases cs) (auto simp: Let_def append_eq_Cons_conv split: ntype.splits list.splits tattr.splits sum.splits if_splits)

lemma SCSmakeVectorArray_value:
  fixes E :: "'f tenv"
  assumes c: "consistent E H \<rho>" and v: "var \<rho> x = con t [] [a]"
    and r: "SCSmakeVectorArray H (sh [n]) (N_id x) = Some (Inr m)" and f: "shape_fits [n]"
  shows "good E \<rho> m [con t [n] (replicate (nat n) a)]"
proof -
  obtain s zs es where x: "var \<rho> x = con s zs es" "inhab (AVIS_TYPE (H x)) s zs es" using consistentD [OF c] .
  have i: "inhab (AVIS_TYPE (H x)) t [] [a]" using x v by simp
  have nd: "cv2cv_ext t \<noteq> EDummy" using inhab_ok [OF i] by (simp add: con_ok_def)
  obtain b :: "'f ntype" where b: "TYgetScalar (AVIS_TYPE (H x)) = Inr b" "elem_type b t" using inhab_scalar [OF i] .
  obtain b' :: "'f ntype" where b': "TYcopyType b = Inr b'" "elem_type b' t" using copy_elem [OF b(2)] .
  have n: "0 \<le> n" using f by (simp add: shape_fits_nth_nonneg shape_fits_def)
  have m: "m = N_array None (NT (TC_aks (sh [])) default_meta [b']) (sh [n]) (replicate (nat n) (N_id x))"
    using r b(1) b'(1) SHcreateShape_sh [of "[]"] SHcopyShape_sh [of "[n]"] SHgetExtent_sh [of 0 "[n]"]
    by (simp add: SCSmakeVectorArray_def ID_NTYPE_def TYmakeAKS_def make_array_eq split: if_splits)
  have l: "vals_list F \<rho> (replicate k (N_id x)) = Some (replicate k (con t [] [a]))" for F :: "'f fops" and k
    using v by (induction k) auto
  have e: "map the (SHAPE_ELEMS (sh [n])) = [n]" "map the (SHAPE_ELEMS (sh [])) = []" by (simp_all add: sh_def full_def)
  have "array_value_of (NT (TC_aks (sh [])) default_meta [b']) [n] (replicate (nat n) (con t [] [a]))
      = Some (con t [n] (replicate (nat n) a))"
  proof (cases "nat n")
    case 0
    then show ?thesis using n f b'(2) nd e
      by (auto simp: elem_type_def TYgetShape_def shape_ok_def shape_fits_def int_max_def)
  next
    case (Suc k)
    have "concat (replicate k [a]) = replicate k a" for k by (induction k) auto
    then show ?thesis using Suc n f by (simp add: int_max_def)
  qed
  then show ?thesis using m l e f by (simp add: good_def list_all_length shape_ok_def)
qed

lemma scalar_extension_value:
  fixes E :: "'f tenv"
  assumes c: "consistent E H \<rho>" and g: "good E \<rho> e [con t [n] es]" and s: "good E \<rho> f [con u [] [a]]"
    and r: "scalar_extension E H e f = Some (Inr (Some m))"
  shows "good E \<rho> m [con u [n] (replicate (nat n) a)]"
proof -
  obtain ar sp where ar: "matched_node E H skip_both (PMarray [PMAgetNode ''arr''] [PMskip []]) ''arr'' e = Some (Inr (Some ar))"
      "ARRAY_FRAMESHAPE ar = Inr sp" "SCSmakeVectorArray H sp f = Some (Inr m)"
    using r by (auto simp: scalar_extension_def runs split: option.splits)
  then obtain q where q: "skipVarDefs H skip_both e = Some (Inr q)" "ar = q"
    by (auto simp: matched_node_def runs match_found generic_found follow_defs_def sub_matches split: if_splits)
  have "good E \<rho> q [con t [n] es]" using skipVarDefs_value [OF c q(1) g] .
  then obtain z et fs cs where z: "q = N_array z et sp fs" "shape_ok sp"
      "array_value_of et (map the (SHAPE_ELEMS sp)) cs = Some (con t [n] es)"
    using ar(2) q(2) by (cases q) (auto simp: good_def split: option.splits)
  obtain x where x: "f = N_id x" using ar(3) by (cases f) (auto simp: SCSmakeVectorArray_def ID_NTYPE_def avis_of_def)
  have "map the (SHAPE_ELEMS sp) = [] \<or> map the (SHAPE_ELEMS sp) = [n]" using array_value_frame [OF z(3)] .
  moreover have "map the (SHAPE_ELEMS sp) \<noteq> []"
  proof
    assume "map the (SHAPE_ELEMS sp) = []"
    then have "sp = sh []" using z(2) by (simp add: shape_ok_def)
    then show False using ar(3) x by (auto simp: SCSmakeVectorArray_def runs SHgetExtent_def sh_def)
  qed
  ultimately have "sp = sh [n]" "shape_fits [n]" using z(2) by (auto simp: shape_ok_def)
  moreover have "var \<rho> x = con u [] [a]" using s x by simp
  ultimately show ?thesis using SCSmakeVectorArray_value [OF c _ _ , of x u a n m] ar(3) x by simp
qed

lemma extend_left:
  assumes a: "int_app E H \<rho> op v e1 e2 xs as ys bs w" and "op \<notin> rel_ops" and v: "v = SxV"
    and z: "\<And>a b. a \<in> set as \<Longrightarrow> b \<in> set bs \<Longrightarrow> iop op a b = a"
    and r: "scalar_extension E H e2 e1 = Some (Inr (Some m))"
  shows "good E \<rho> m [w]"
proof -
  obtain a where a1: "as = [a]" "xs = []" "ys = [int (length bs)]"
    using int_appD(8) [OF a] v by (auto simp: length_Suc_conv)
  have "good E \<rho> m [con T_int ys (replicate (length bs) (CInt IInt a))]"
    using scalar_extension_value [OF int_appD(1) [OF a] _ _ r, of T_int "int (length bs)" "map (CInt IInt) bs" T_int "CInt IInt a"]
      int_appD(4,5) [OF a] a1 by simp
  moreover have "pointwise_of (iop op) xs ys as bs = map (\<lambda>b. a) bs"
    using a1 z by (auto simp: pointwise_of_def zip_pairs_def)
  then have "w = con T_int ys (replicate (length bs) (CInt IInt a))"
    using int_appD(9) [OF a assms(2)] a1 by (simp add: out_shape_def map_replicate_const)
  ultimately show ?thesis by simp
qed

lemma extend_right:
  assumes a: "int_app E H \<rho> op v e1 e2 xs as ys bs w" and "op \<notin> rel_ops" and v: "v = VxS"
    and z: "\<And>a b. a \<in> set as \<Longrightarrow> b \<in> set bs \<Longrightarrow> iop op a b = b"
    and r: "scalar_extension E H e1 e2 = Some (Inr (Some m))"
  shows "good E \<rho> m [w]"
proof -
  obtain b where b1: "bs = [b]" "ys = []" "xs = [int (length as)]"
    using int_appD(8) [OF a] v by (auto simp: length_Suc_conv)
  have "good E \<rho> m [con T_int xs (replicate (length as) (CInt IInt b))]"
    using scalar_extension_value [OF int_appD(1) [OF a] _ _ r, of T_int "int (length as)" "map (CInt IInt) as" T_int "CInt IInt b"]
      int_appD(4,5) [OF a] b1 by simp
  moreover have "pointwise_of (iop op) xs ys as bs = map (\<lambda>a. b) as"
    using b1 z by (auto simp: pointwise_of_def zip_pairs_def)
  then have "w = con T_int xs (replicate (length as) (CInt IInt b))"
    using int_appD(9) [OF a assms(2)] b1 by (simp add: out_shape_def map_replicate_const)
  ultimately show ?thesis by simp
qed

subsection \<open>Facts about the arguments\<close>

lemma pairs_of_map:
  assumes "(a, b) \<in> set (zip_pairs xs xs as (map f as))" and "iarr_ok xs as"
  shows "b = f a"
proof (cases "xs = []")
  case True
  then obtain c where "as = [c]" using iarr_ok_scalar assms(2) by blast
  then show ?thesis using assms(1) True by (simp add: zip_pairs_def)
qed (use assms(1) in \<open>auto simp: zip_pairs_def set_zip\<close>)

lemma app_equal:
  assumes a: "int_app E H \<rho> op v e1 e2 xs as ys bs w" and "SCSisMatchPrfargs E H (N_prf n p k [e1, e2]) = Some (Inr True)"
    and "(x, y) \<in> set (zip_pairs xs ys as bs)"
  shows "x = y"
proof -
  have "iarr xs as = (iarr ys bs :: 'a const)" using SCSisMatchPrfargs_value [OF int_appD(1,4,5) [OF a] assms(2)] .
  then have "ys = xs" "bs = map (\<lambda>a. a) as" by simp_all
  with pairs_of_map [of x y xs as "\<lambda>a. a"] assms(3) int_appD(6) [OF a] show ?thesis by simp
qed

lemma app_negated:
  assumes a: "int_app E H \<rho> op v e1 e2 xs as ys bs w" and "match_neg s E H e1 e2 = Some (Inr True)"
    and "(x, y) \<in> set (zip_pairs xs ys as bs)"
  shows "x + y = 0"
proof -
  obtain cs where "map (CInt IInt) as = (map (CInt IInt) cs :: 'a cval list)" "iarr ys bs = (iarr xs (map uminus cs) :: 'a const)"
    using neg_int [OF match_neg_value [OF int_appD(1,4,5) [OF a] assms(2)]] int_appD(6) [OF a] by (auto simp del: map_map)
  then have "ys = xs" "bs = map uminus as" by (simp_all del: map_map)
  with pairs_of_map [of x y xs as uminus] assms(3) int_appD(6) [OF a] show ?thesis by simp
qed

lemma app_negated_by:
  assumes a: "int_app E H \<rho> op v e1 e2 xs as ys bs w" and "match_neg s E H e2 e1 = Some (Inr True)"
    and "(x, y) \<in> set (zip_pairs xs ys as bs)"
  shows "x + y = 0"
proof -
  obtain cs where "map (CInt IInt) bs = (map (CInt IInt) cs :: 'a cval list)" "iarr xs as = (iarr ys (map uminus cs) :: 'a const)"
    using neg_int [OF match_neg_value [OF int_appD(1,5,4) [OF a] assms(2)]] int_appD(7) [OF a] by (auto simp del: map_map)
  then have "xs = ys" "as = map uminus bs" by (simp_all del: map_map)
  then have "bs = map uminus as" by (simp add: comp_def)
  with \<open>xs = ys\<close> pairs_of_map [of x y xs as uminus] assms(3) int_appD(6) [OF a] show ?thesis by simp
qed

lemmas app_zero1 = SCSisConstantZero_int [OF int_appD(1) int_appD(4) int_appD(6)]
lemmas app_zero2 = SCSisConstantZero_int [OF int_appD(1) int_appD(5) int_appD(7)]
lemmas app_one1 = SCSisConstantOne_int [OF int_appD(1) int_appD(4) int_appD(6)]
lemmas app_one2 = SCSisConstantOne_int [OF int_appD(1) int_appD(5) int_appD(7)]

lemma app_pair:
  assumes "int_app E H \<rho> op v e1 e2 xs as ys bs w" and "(a, b) \<in> set (zip_pairs xs ys as bs)"
  shows "a \<in> set as" and "b \<in> set bs"
  using set_zip_pairs [OF spread_ne [OF int_appD(8) [OF assms(1)]] assms(2)] by simp_all

subsection \<open>Arithmetic\<close>

definition sound_for ::
  "'f tenv \<Rightarrow> 'f heap \<Rightarrow> 'f env \<Rightarrow> bin_op \<Rightarrow> vs \<Rightarrow> ('f node \<Rightarrow> 'f node option cres option) \<Rightarrow> bool" where
  "sound_for E H \<rho> op v f \<longleftrightarrow> (\<forall>e1 e2 xs as ys bs w a k m.
     int_app E H \<rho> op v e1 e2 xs as ys bs w \<longrightarrow> f (N_prf a (F_bin op v) k [e1, e2]) = Some (Inr (Some m)) \<longrightarrow> good E \<rho> m [w])"

lemma sound_forI:
  assumes "\<And>e1 e2 xs as ys bs w a k m. int_app E H \<rho> op v e1 e2 xs as ys bs w \<Longrightarrow>
     f (N_prf a (F_bin op v) k [e1, e2]) = Some (Inr (Some m)) \<Longrightarrow> good E \<rho> m [w]"
  shows "sound_for E H \<rho> op v f"
  using assms by (auto simp: sound_for_def)

lemma ifO_cases: "ifO b x y = Some (Inr r) \<longleftrightarrow> b = Some (Inr True) \<and> x = Some (Inr r) \<or> b = Some (Inr False) \<and> y = Some (Inr r)"
  unfolding ifO_Some_Inr by (metis (full_types))

lemmas cases_of = ifO_cases whenO_Some orO_True MatchNegS_def MatchNegV_def

lemma ops_not_rel [simp]: "P_add \<notin> rel_ops" "P_sub \<notin> rel_ops" "P_mul \<notin> rel_ops" "P_div \<notin> rel_ops" "P_aplmod \<notin> rel_ops"
    "P_mod \<notin> rel_ops" "P_min \<notin> rel_ops" "P_max \<notin> rel_ops"
  by (simp_all add: rel_ops_def)

lemma app_tests:
  assumes a: "int_app E H \<rho> op v e1 e2 xs as ys bs w"
  shows "SCSisConstantZero E H e1 = Some (Inr True) \<Longrightarrow> \<forall>a\<in>set as. a = 0"
    and "SCSisConstantZero E H e2 = Some (Inr True) \<Longrightarrow> \<forall>b\<in>set bs. b = 0"
    and "SCSisConstantOne E H e1 = Some (Inr True) \<Longrightarrow> \<forall>a\<in>set as. a = 1"
    and "SCSisConstantOne E H e2 = Some (Inr True) \<Longrightarrow> \<forall>b\<in>set bs. b = 1"
  using app_zero1 [OF a a a] app_zero2 [OF a a a] app_one1 [OF a a a] app_one2 [OF a a a] by blast+


text \<open>The rules of the rewriting system, with the tests as their conditions.\<close>

lemma keep_rules:
  assumes a: "int_app E H \<rho> op v e1 e2 xs as ys bs w"
  shows "SCSisConstantZero E H e1 = Some (Inr True) \<Longrightarrow> op = P_add \<Longrightarrow> v \<noteq> VxS \<Longrightarrow> good E \<rho> (DUPdoDupNode e2) [w]"
    and "SCSisConstantZero E H e2 = Some (Inr True) \<Longrightarrow> op \<in> {P_add, P_sub, P_aplmod} \<Longrightarrow> v \<noteq> SxV \<Longrightarrow> good E \<rho> (DUPdoDupNode e1) [w]"
    and "SCSisConstantOne E H e1 = Some (Inr True) \<Longrightarrow> op = P_mul \<Longrightarrow> v \<noteq> VxS \<Longrightarrow> good E \<rho> (DUPdoDupNode e2) [w]"
    and "SCSisConstantOne E H e2 = Some (Inr True) \<Longrightarrow> op \<in> {P_mul, P_div} \<Longrightarrow> v \<noteq> SxV \<Longrightarrow> good E \<rho> (DUPdoDupNode e1) [w]"
    and "SCSisConstantZero E H e1 = Some (Inr True) \<Longrightarrow> op = P_mul \<Longrightarrow> v \<noteq> SxV \<Longrightarrow> good E \<rho> (DUPdoDupNode e1) [w]"
    and "SCSisConstantZero E H e2 = Some (Inr True) \<Longrightarrow> op = P_mul \<Longrightarrow> v \<noteq> VxS \<Longrightarrow> good E \<rho> (DUPdoDupNode e2) [w]"
  by (rule keep_left [OF a] keep_right [OF a]; use app_tests [OF a] in auto)+

lemma zero_rules:
  assumes a: "int_app E H \<rho> op v e1 e2 xs as ys bs w"
  shows "match_neg s E H e1 e2 = Some (Inr True) \<Longrightarrow> SCSmakeZero E H e1 = Some (Inr (Some m)) \<Longrightarrow> op = P_add \<Longrightarrow> v \<noteq> SxV \<Longrightarrow> good E \<rho> m [w]"
    and "match_neg s E H e2 e1 = Some (Inr True) \<Longrightarrow> SCSmakeZero E H e1 = Some (Inr (Some m)) \<Longrightarrow> op = P_add \<Longrightarrow> v \<noteq> SxV \<Longrightarrow> good E \<rho> m [w]"
    and "SCSisMatchPrfargs E H (N_prf n p k [e1, e2]) = Some (Inr True) \<Longrightarrow> SCSmakeZero E H e1 = Some (Inr (Some m)) \<Longrightarrow>
      op = P_sub \<Longrightarrow> v \<noteq> SxV \<Longrightarrow> good E \<rho> m [w]"
    and "SCSisConstantZero E H e2 = Some (Inr True) \<Longrightarrow> SCSmakeZero E H e1 = Some (Inr (Some m)) \<Longrightarrow> op = P_mul \<Longrightarrow> v \<noteq> SxV \<Longrightarrow> good E \<rho> m [w]"
    and "SCSisConstantZero E H e1 = Some (Inr True) \<Longrightarrow> SCSmakeZero E H e2 = Some (Inr (Some m)) \<Longrightarrow> op = P_mul \<Longrightarrow> v \<noteq> VxS \<Longrightarrow> good E \<rho> m [w]"
  by (rule zero_left [OF a] zero_right [OF a], simp, assumption, simp,
      use app_tests [OF a] app_pair [OF a] app_negated [OF a] app_negated_by [OF a] app_equal [OF a] in fastforce, assumption)+

lemma extend_rules:
  assumes a: "int_app E H \<rho> op v e1 e2 xs as ys bs w"
  shows "SCSisConstantZero E H e2 = Some (Inr True) \<Longrightarrow> scalar_extension E H e2 e1 = Some (Inr (Some m)) \<Longrightarrow>
      op \<in> {P_add, P_sub} \<Longrightarrow> v = SxV \<Longrightarrow> good E \<rho> m [w]"
    and "SCSisConstantOne E H e2 = Some (Inr True) \<Longrightarrow> scalar_extension E H e2 e1 = Some (Inr (Some m)) \<Longrightarrow>
      op \<in> {P_mul, P_div} \<Longrightarrow> v = SxV \<Longrightarrow> good E \<rho> m [w]"
    and "SCSisConstantZero E H e1 = Some (Inr True) \<Longrightarrow> scalar_extension E H e1 e2 = Some (Inr (Some m)) \<Longrightarrow>
      op = P_add \<Longrightarrow> v = VxS \<Longrightarrow> good E \<rho> m [w]"
    and "SCSisConstantOne E H e1 = Some (Inr True) \<Longrightarrow> scalar_extension E H e1 e2 = Some (Inr (Some m)) \<Longrightarrow>
      op = P_mul \<Longrightarrow> v = VxS \<Longrightarrow> good E \<rho> m [w]"
  by (rule extend_left [OF a] extend_right [OF a]; use app_tests [OF a] in auto)+

lemmas ari_rules = keep_rules zero_rules extend_rules

lemmas scs_ari = SCSprf_add_SxS_def SCSprf_add_SxV_def SCSprf_add_VxS_def SCSprf_add_VxV_def SCSprf_sub_def
  SCSprf_sub_SxV_def SCSprf_sub_VxV_def SCSprf_mul_SxS_def SCSprf_mul_SxV_def SCSprf_mul_VxS_def SCSprf_mul_VxV_def
  SCSprf_div_SxX_def SCSprf_div_XxS_def SCSprf_div_VxV_def SCSprf_aplmod_def

lemma ari_sound:
  assumes "op \<in> {P_add, P_sub, P_mul, P_div}"
  shows "sound_for E H \<rho> op v (bin_scs d op v E H)"
proof (rule sound_forI)
  fix e1 e2 xs as ys bs w a k m
  assume a: "int_app E H \<rho> op v e1 e2 xs as ys bs w"
    and r: "bin_scs d op v E H (N_prf a (F_bin op v) k [e1, e2]) = Some (Inr (Some m))"
  consider "op = P_add" | "op = P_sub" | "op = P_mul" | "op = P_div" using assms by blast
  then show "good E \<rho> m [w]"
  proof cases
    case 1
    then show ?thesis using r by (cases v) (auto simp: scs_ari cases_of intro: ari_rules [OF a])
  next
    case 2
    then show ?thesis using r by (cases v) (auto simp: scs_ari cases_of intro: ari_rules [OF a])
  next
    case 3
    then show ?thesis using r by (cases v) (auto simp: scs_ari cases_of intro: ari_rules [OF a])
  next
    case 4
    then show ?thesis using r by (cases v) (auto simp: scs_ari cases_of intro: ari_rules [OF a])
  qed
qed

end
