(* ===== verification/SCS_Sound_Rel.thy ===== *)
theory SCS_Sound_Rel
  imports SCS_Sound
begin

text \<open>
  The simplifications of logical operations, of equality and of the remainder: what replaces an
  application has its value.
\<close>

subsection \<open>Arrays of one truth value\<close>

lemma made_truths:
  assumes "consistent E H \<rho>" and "atom e" and "good E \<rho> e [con s xs es]" and "int (length xs) \<le> int_max"
  shows "SCSmakeTrue E H e = Some (Inr (Some m)) \<Longrightarrow> good E \<rho> m [barr xs (replicate (nat (prod_list xs)) True)]"
    and "SCSmakeFalse E H e = Some (Inr (Some m)) \<Longrightarrow> good E \<rho> m [barr xs (replicate (nat (prod_list xs)) False)]"
  using SCSmakeTrue_value [OF _ typed_good [OF assms(1-3)] assms(4)] SCSmakeFalse_value [OF _ typed_good [OF assms(1-3)] assms(4)]
  by (simp_all add: truths_barr)

subsection \<open>Applications to truth values\<close>

definition bool_app ::
  "'f tenv \<Rightarrow> 'f heap \<Rightarrow> 'f env \<Rightarrow> bin_op \<Rightarrow> vs \<Rightarrow> 'f node \<Rightarrow> 'f node \<Rightarrow> int list \<Rightarrow> bool list \<Rightarrow> int list \<Rightarrow> bool list
   \<Rightarrow> 'f const \<Rightarrow> bool" where
  "bool_app E H \<rho> op v e1 e2 xs as ys bs w \<longleftrightarrow>
     consistent E H \<rho> \<and> atom e1 \<and> atom e2 \<and> good E \<rho> e1 [barr xs as] \<and> good E \<rho> e2 [barr ys bs]
     \<and> con_ok T_bool xs (map CBool as :: 'f cval list) \<and> con_ok T_bool ys (map CBool bs :: 'f cval list) \<and> spread v xs ys as bs
     \<and> w = barr (out_shape xs ys) (pointwise_of (bop op) xs ys as bs)"

lemma bool_appI:
  fixes E :: "'f tenv"
  assumes c: "consistent E H \<rho>" and at: "atom e1" "atom e2" and g: "good E \<rho> (N_prf a (F_bin op v) k [e1, e2]) [w]"
    and op: "op \<in> log_ops" and t: "good E \<rho> e1 [con T_bool xs es]"
  obtains as ys bs where "bool_app E H \<rho> op v e1 e2 xs as ys bs w"
proof -
  obtain x y where xy: "good E \<rho> e1 [x]" "good E \<rho> e2 [y]" "bin_value (te_fops E) op v x y = Some w"
    using prf_args_found [OF g] .
  have x: "x = con T_bool xs es" using xy(1) t by (simp add: good_def)
  obtain s zs fs where s: "x = con s zs fs" "con_ok s zs fs" using good_con [OF c xy(1) at(1)] .
  obtain u ys gs where u: "y = con u ys gs" "con_ok u ys gs" using good_con [OF c xy(2) at(2)] .
  have ok: "con_ok T_bool xs es" using s x by simp
  show ?thesis
  proof (rule bin_value_bool [OF xy(3) [unfolded x u(1)] op ok u(2)])
    fix as bs
    assume "es = map CBool as" "u = T_bool" "gs = map CBool bs" "spread v xs ys as bs"
      and "w = barr (out_shape xs ys) (pointwise_of (bop op) xs ys as bs)"
    then have "bool_app E H \<rho> op v e1 e2 xs as ys bs w" using c at xy x u ok by (simp add: bool_app_def del: barr_con_ok)
    then show thesis by (rule that)
  qed
qed

lemma bool_appD:
  fixes E :: "'a tenv"
  assumes "bool_app E H \<rho> op v e1 e2 xs as ys bs w"
  shows "consistent E H \<rho>" and "atom e1" and "atom e2" and "good E \<rho> e1 [barr xs as]" and "good E \<rho> e2 [barr ys bs]"
    and "con_ok T_bool xs (map CBool as :: 'a cval list)" and "con_ok T_bool ys (map CBool bs :: 'a cval list)"
    and "spread v xs ys as bs" and "w = barr (out_shape xs ys) (pointwise_of (bop op) xs ys as bs)"
  using assms by (simp_all add: bool_app_def)

lemma bool_tests:
  assumes a: "bool_app E H \<rho> op v e1 e2 xs as ys bs w"
  shows "SCSisConstantTrue E H e1 = Some (Inr True) \<Longrightarrow> \<forall>a\<in>set as. a"
    and "SCSisConstantTrue E H e2 = Some (Inr True) \<Longrightarrow> \<forall>b\<in>set bs. b"
    and "SCSisConstantFalse E H e1 = Some (Inr True) \<Longrightarrow> \<forall>a\<in>set as. \<not> a"
    and "SCSisConstantFalse E H e2 = Some (Inr True) \<Longrightarrow> \<forall>b\<in>set bs. \<not> b"
  using SCSisConstantTrue_bool [OF bool_appD(1,4,6) [OF a]] SCSisConstantTrue_bool [OF bool_appD(1,5,7) [OF a]]
    SCSisConstantFalse_bool [OF bool_appD(1,4,6) [OF a]] SCSisConstantFalse_bool [OF bool_appD(1,5,7) [OF a]] by blast+

lemma bool_left:
  assumes a: "bool_app E H \<rho> op v e1 e2 xs as ys bs w" and "v \<noteq> SxV"
    and "\<And>a b. a \<in> set as \<Longrightarrow> b \<in> set bs \<Longrightarrow> bop op a b = a"
  shows "good E \<rho> (DUPdoDupNode e1) [w]"
  using pointwise_left [OF bool_appD(8) [OF a] assms(2,3)] bool_appD [OF a] by (simp add: good_dup)

lemma bool_right:
  assumes a: "bool_app E H \<rho> op v e1 e2 xs as ys bs w" and "v \<noteq> VxS"
    and "\<And>a b. a \<in> set as \<Longrightarrow> b \<in> set bs \<Longrightarrow> bop op a b = b"
  shows "good E \<rho> (DUPdoDupNode e2) [w]"
  using pointwise_right [OF bool_appD(8) [OF a] assms(2,3)] bool_appD [OF a] by (simp add: good_dup)

lemma bool_pair:
  assumes "bool_app E H \<rho> op v e1 e2 xs as ys bs w" and "(a, b) \<in> set (zip_pairs xs ys as bs)"
  shows "a \<in> set as" and "b \<in> set bs"
  using set_zip_pairs [OF spread_ne [OF bool_appD(8) [OF assms(1)]] assms(2)] by simp_all

lemma bool_made_left:
  assumes a: "bool_app E H \<rho> op v e1 e2 xs as ys bs w" and v: "v \<noteq> SxV"
    and k: "\<And>a b. (a, b) \<in> set (zip_pairs xs ys as bs) \<Longrightarrow> bop op a b = k"
    and m: "if k then SCSmakeTrue E H e1 = Some (Inr (Some m)) else SCSmakeFalse E H e1 = Some (Inr (Some m))"
  shows "good E \<rho> m [w]"
  using made_truths [OF bool_appD(1,2,4) [OF a], of m] spread_length [OF bool_appD(8) [OF a]] m
    pointwise_const [OF bool_appD(8) [OF a] k] bool_appD(9) [OF a] out_left [OF bool_appD(8) [OF a] v] by (auto split: if_splits)

lemma bool_made_right:
  assumes a: "bool_app E H \<rho> op v e1 e2 xs as ys bs w" and v: "v \<noteq> VxS"
    and k: "\<And>a b. (a, b) \<in> set (zip_pairs xs ys as bs) \<Longrightarrow> bop op a b = k"
    and m: "if k then SCSmakeTrue E H e2 = Some (Inr (Some m)) else SCSmakeFalse E H e2 = Some (Inr (Some m))"
  shows "good E \<rho> m [w]"
  using made_truths [OF bool_appD(1,3,5) [OF a], of m] spread_length [OF bool_appD(8) [OF a]] m
    pointwise_const [OF bool_appD(8) [OF a] k] bool_appD(9) [OF a] out_right [OF bool_appD(8) [OF a] v] by (auto split: if_splits)

lemma bool_equal:
  assumes a: "bool_app E H \<rho> op v e1 e2 xs as ys bs w" and "SCSisMatchPrfargs E H (N_prf n p k [e1, e2]) = Some (Inr True)"
  shows "ys = xs \<and> bs = as"
proof -
  have "barr xs as = (barr ys bs :: 'a const)" using SCSisMatchPrfargs_value [OF bool_appD(1,4,5) [OF a] assms(2)] .
  then show ?thesis by simp
qed

lemma bool_same:
  assumes a: "bool_app E H \<rho> op v e1 e2 xs as ys bs w" and m: "SCSisMatchPrfargs E H (N_prf n p k [e1, e2]) = Some (Inr True)"
    and op: "op \<in> log_ops" and v: "v \<in> {SxS, VxV}"
  shows "good E \<rho> (DUPdoDupNode e1) [w] \<and> good E \<rho> (DUPdoDupNode e2) [w]"
proof -
  have e: "ys = xs" "bs = as" using bool_equal [OF a m] by simp_all
  have "zip_pairs xs xs as as = map (\<lambda>a. (a, a)) as"
    using bool_appD(8) [OF a] v e by (auto simp: zip_pairs_def zip_same_conv_map length_Suc_conv)
  then have "w = barr xs as"
    using bool_appD(9) [OF a] e op by (auto simp: pointwise_of_def out_shape_def comp_def log_ops_def)
  then show ?thesis using bool_appD [OF a] e by (simp add: good_dup)
qed

lemma bool_rules:
  assumes a: "bool_app E H \<rho> op v e1 e2 xs as ys bs w"
  shows "SCSisConstantTrue E H e1 = Some (Inr True) \<Longrightarrow> op = P_and \<Longrightarrow> v \<noteq> VxS \<Longrightarrow> good E \<rho> (DUPdoDupNode e2) [w]"
    and "SCSisConstantTrue E H e2 = Some (Inr True) \<Longrightarrow> op = P_and \<Longrightarrow> v \<noteq> SxV \<Longrightarrow> good E \<rho> (DUPdoDupNode e1) [w]"
    and "SCSisConstantFalse E H e1 = Some (Inr True) \<Longrightarrow> op = P_or \<Longrightarrow> v \<noteq> VxS \<Longrightarrow> good E \<rho> (DUPdoDupNode e2) [w]"
    and "SCSisConstantFalse E H e2 = Some (Inr True) \<Longrightarrow> op = P_or \<Longrightarrow> v \<noteq> SxV \<Longrightarrow> good E \<rho> (DUPdoDupNode e1) [w]"
  by (rule bool_left [OF a] bool_right [OF a]; use bool_tests [OF a] in auto)+

lemma bool_made_rules:
  assumes a: "bool_app E H \<rho> op v e1 e2 xs as ys bs w"
  shows "SCSisConstantTrue E H e2 = Some (Inr True) \<Longrightarrow> SCSmakeTrue E H e1 = Some (Inr (Some m)) \<Longrightarrow> op = P_or \<Longrightarrow> v \<noteq> SxV \<Longrightarrow> good E \<rho> m [w]"
    and "SCSisConstantTrue E H e1 = Some (Inr True) \<Longrightarrow> SCSmakeTrue E H e2 = Some (Inr (Some m)) \<Longrightarrow> op = P_or \<Longrightarrow> v \<noteq> VxS \<Longrightarrow> good E \<rho> m [w]"
    and "SCSisConstantFalse E H e2 = Some (Inr True) \<Longrightarrow> SCSmakeFalse E H e1 = Some (Inr (Some m)) \<Longrightarrow> op = P_and \<Longrightarrow> v \<noteq> SxV \<Longrightarrow> good E \<rho> m [w]"
    and "SCSisConstantFalse E H e1 = Some (Inr True) \<Longrightarrow> SCSmakeFalse E H e2 = Some (Inr (Some m)) \<Longrightarrow> op = P_and \<Longrightarrow> v \<noteq> VxS \<Longrightarrow> good E \<rho> m [w]"
proof -
  note t = bool_tests [OF a] bool_pair [OF a]
  show "SCSisConstantTrue E H e2 = Some (Inr True) \<Longrightarrow> SCSmakeTrue E H e1 = Some (Inr (Some m)) \<Longrightarrow> op = P_or \<Longrightarrow> v \<noteq> SxV \<Longrightarrow> good E \<rho> m [w]"
    by (rule bool_made_left [OF a, of True]) (use t in auto)
  show "SCSisConstantTrue E H e1 = Some (Inr True) \<Longrightarrow> SCSmakeTrue E H e2 = Some (Inr (Some m)) \<Longrightarrow> op = P_or \<Longrightarrow> v \<noteq> VxS \<Longrightarrow> good E \<rho> m [w]"
    by (rule bool_made_right [OF a, of True]) (use t in auto)
  show "SCSisConstantFalse E H e2 = Some (Inr True) \<Longrightarrow> SCSmakeFalse E H e1 = Some (Inr (Some m)) \<Longrightarrow> op = P_and \<Longrightarrow> v \<noteq> SxV \<Longrightarrow> good E \<rho> m [w]"
    by (rule bool_made_left [OF a, of False]) (use t in auto)
  show "SCSisConstantFalse E H e1 = Some (Inr True) \<Longrightarrow> SCSmakeFalse E H e2 = Some (Inr (Some m)) \<Longrightarrow> op = P_and \<Longrightarrow> v \<noteq> VxS \<Longrightarrow> good E \<rho> m [w]"
    by (rule bool_made_right [OF a, of False]) (use t in auto)
qed

lemmas scs_log = SCSprf_or_SxS_def SCSprf_or_SxV_def SCSprf_or_VxS_def SCSprf_or_VxV_def
  SCSprf_and_SxS_def SCSprf_and_SxV_def SCSprf_and_VxS_def SCSprf_and_VxV_def

lemma log_sound:
  assumes op: "op \<in> log_ops" and a: "bool_app E H \<rho> op v e1 e2 xs as ys bs w"
    and r: "bin_scs d op v E H (N_prf n (F_bin op v) k [e1, e2]) = Some (Inr (Some m))"
  shows "good E \<rho> m [w]"
proof -
  note rules = bool_rules [OF a] bool_made_rules [OF a] bool_same [OF a _ op, THEN conjunct1] bool_same [OF a _ op, THEN conjunct2]
  consider "op = P_and" | "op = P_or" using op by (auto simp: log_ops_def)
  then show ?thesis
  proof cases
    case 1
    then show ?thesis using r by (cases v) (auto simp: scs_log cases_of intro: rules)
  next
    case 2
    then show ?thesis using r by (cases v) (auto simp: scs_log cases_of intro: rules)
  qed
qed

subsection \<open>Comparisons\<close>

lemma rel_made_left:
  assumes a: "int_app E H \<rho> op v e1 e2 xs as ys bs w" and op: "op \<in> rel_ops" and v: "v \<noteq> SxV"
    and k: "\<And>a b. (a, b) \<in> set (zip_pairs xs ys as bs) \<Longrightarrow> irel op a b = k"
    and m: "if k then SCSmakeTrue E H e1 = Some (Inr (Some m)) else SCSmakeFalse E H e1 = Some (Inr (Some m))"
  shows "good E \<rho> m [w]"
  using made_truths [OF int_appD(1,2,4) [OF a], of m] spread_length [OF int_appD(8) [OF a]] m
    pointwise_const [OF int_appD(8) [OF a] k] int_appD(10) [OF a op] out_left [OF int_appD(8) [OF a] v] by (auto split: if_splits)

lemma rel_made_right:
  assumes a: "int_app E H \<rho> op v e1 e2 xs as ys bs w" and op: "op \<in> rel_ops" and v: "v \<noteq> VxS"
    and k: "\<And>a b. (a, b) \<in> set (zip_pairs xs ys as bs) \<Longrightarrow> irel op a b = k"
    and m: "if k then SCSmakeTrue E H e2 = Some (Inr (Some m)) else SCSmakeFalse E H e2 = Some (Inr (Some m))"
  shows "good E \<rho> m [w]"
  using made_truths [OF int_appD(1,3,5) [OF a], of m] spread_length [OF int_appD(8) [OF a]] m
    pointwise_const [OF int_appD(8) [OF a] k] int_appD(10) [OF a op] out_right [OF int_appD(8) [OF a] v] by (auto split: if_splits)

lemma related_pairs:
  assumes a: "int_app E H \<rho> op v e1 e2 xs as ys bs w" and "related R (iarr xs as :: 'f const) (iarr ys bs)"
    and "(x, y) \<in> set (zip_pairs xs ys as bs)"
  shows "R x y"
  using assms by (auto simp: all_pairs_def)

lemma app_different:
  assumes a: "int_app E H \<rho> op v e1 e2 xs as ys bs w" and "isNotEqualPrf E H (N_prf n p k [e1, e2]) = Some (Inr True)"
    and "(x, y) \<in> set (zip_pairs xs ys as bs)"
  shows "x \<noteq> y"
  using related_pairs [OF a isNotEqualPrf_value [OF int_appD(1,4,5,2,3) [OF a] assms(2)] assms(3)] .

text \<open>The arguments are equal.\<close>

lemma rel_equal:
  assumes a: "int_app E H \<rho> op v e1 e2 xs as ys bs w" and m: "SCSisMatchPrfargs E H (N_prf n p k [e1, e2]) = Some (Inr True)"
    and v: "v \<noteq> SxV"
  shows "op \<in> {P_eq, P_le, P_ge} \<Longrightarrow> SCSmakeTrue E H e1 = Some (Inr (Some r)) \<Longrightarrow> good E \<rho> r [w]"
    and "op \<in> {P_neq, P_lt, P_gt} \<Longrightarrow> SCSmakeFalse E H e1 = Some (Inr (Some r)) \<Longrightarrow> good E \<rho> r [w]"
proof -
  note e = app_equal [OF a m]
  show "good E \<rho> r [w]" if "op \<in> {P_eq, P_le, P_ge}" "SCSmakeTrue E H e1 = Some (Inr (Some r))"
    by (rule rel_made_left [OF a _ v, of True]) (use that in \<open>auto simp: rel_ops_def dest: e\<close>)
  show "good E \<rho> r [w]" if "op \<in> {P_neq, P_lt, P_gt}" "SCSmakeFalse E H e1 = Some (Inr (Some r))"
    by (rule rel_made_left [OF a _ v, of False]) (use that in \<open>auto simp: rel_ops_def dest: e\<close>)
qed

lemma rel_different:
  assumes a: "int_app E H \<rho> op v e1 e2 xs as ys bs w" and m: "isNotEqualPrf E H (N_prf n p k [e1, e2]) = Some (Inr True)"
  shows "op = P_eq \<Longrightarrow> SCSmakeFalse E H e1 = Some (Inr (Some r)) \<Longrightarrow> v \<noteq> SxV \<Longrightarrow> good E \<rho> r [w]"
    and "op = P_eq \<Longrightarrow> SCSmakeFalse E H e2 = Some (Inr (Some r)) \<Longrightarrow> v \<noteq> VxS \<Longrightarrow> good E \<rho> r [w]"
    and "op = P_neq \<Longrightarrow> SCSmakeTrue E H e1 = Some (Inr (Some r)) \<Longrightarrow> v \<noteq> SxV \<Longrightarrow> good E \<rho> r [w]"
    and "op = P_neq \<Longrightarrow> SCSmakeTrue E H e2 = Some (Inr (Some r)) \<Longrightarrow> v \<noteq> VxS \<Longrightarrow> good E \<rho> r [w]"
proof -
  note e = app_different [OF a m]
  show "good E \<rho> r [w]" if "op = P_eq" "SCSmakeFalse E H e1 = Some (Inr (Some r))" "v \<noteq> SxV"
    by (rule rel_made_left [OF a _ that(3), of False]) (use that in \<open>auto simp: rel_ops_def dest: e\<close>)
  show "good E \<rho> r [w]" if "op = P_eq" "SCSmakeFalse E H e2 = Some (Inr (Some r))" "v \<noteq> VxS"
    by (rule rel_made_right [OF a _ that(3), of False]) (use that in \<open>auto simp: rel_ops_def dest: e\<close>)
  show "good E \<rho> r [w]" if "op = P_neq" "SCSmakeTrue E H e1 = Some (Inr (Some r))" "v \<noteq> SxV"
    by (rule rel_made_left [OF a _ that(3), of True]) (use that in \<open>auto simp: rel_ops_def dest: e\<close>)
  show "good E \<rho> r [w]" if "op = P_neq" "SCSmakeTrue E H e2 = Some (Inr (Some r))" "v \<noteq> VxS"
    by (rule rel_made_right [OF a _ that(3), of True]) (use that in \<open>auto simp: rel_ops_def dest: e\<close>)
qed

lemma family_can_none:
  assumes "op \<in> {P_eq, P_neq, P_add, P_sub}"
  shows "family_can (F_bin op v) F_lt_SxS F_gt_SxS x y = retO None"
  using assms by (auto simp: family_can_def TULSgetPrfFamilyName_def elseO_def bindOO_def)

lemmas scs_eq = SCSprf_eq_SxS_def SCSprf_eq_SxV_def SCSprf_eq_VxS_def SCSprf_eq_VxV_def
  SCSprf_neq_SxS_def SCSprf_neq_SxV_def SCSprf_neq_VxS_def SCSprf_neq_VxV_def

lemma eq_sound:
  assumes a: "int_app E H \<rho> op v e1 e2 xs as ys bs w" and op: "op \<in> {P_eq, P_neq}"
    and r: "bin_scs d op v E H (N_prf n (F_bin op v) k [e1, e2]) = Some (Inr (Some m))"
  shows "good E \<rho> m [w]"
proof -
  note rules = rel_equal [OF a] rel_different [OF a]
  consider "op = P_eq" | "op = P_neq" using op by blast
  then show ?thesis
  proof cases
    case 1
    then show ?thesis using r by (cases v) (auto simp: scs_eq cases_of elseO_Some intro: rules)
  next
    case 2
    then show ?thesis using r family_can_none [of P_neq]
      by (cases v) (auto simp: scs_eq SCSprf_nlege_def make_decided_def bindOO_Some_Inr bindRO_Some_Inr cases_of elseO_Some intro: rules)
  qed
qed

subsection \<open>The remainder\<close>

lemma inhab_getShape:
  assumes "inhab t s xs es" and "TYgetShape t = Inr shp"
  shows "shp = sh xs"
  by (rule inhab_form [OF assms(1)]) (use assms(2) in \<open>simp_all add: TYgetShape_def COgetShape_def\<close>)

lemma aplmod_sound:
  assumes a: "int_app E H \<rho> P_aplmod v e1 e2 xs as ys bs w"
    and r: "bin_scs d P_aplmod v E H (N_prf n (F_bin P_aplmod v) k [e1, e2]) = Some (Inr (Some m))"
  shows "good E \<rho> m [w]"
proof (cases "v = SxV")
  case False
  then show ?thesis using r by (cases v) (auto simp: SCSprf_aplmod_def cases_of intro: keep_rules [OF a])
next
  case True
  then obtain shp where z: "SCSisConstantZero E H e2 = Some (Inr True)" "bindR (ID_NTYPE H e2) TYgetShape = Inr shp"
      "SCSmakeVectorArray H shp e1 = Some (Inr m)"
    using r by (auto simp: SCSprf_aplmod_SxV_def cases_of runs)
  obtain a1 where a1: "as = [a1]" "xs = []" "ys = [int (length bs)]" using int_appD(8) [OF a] True by (auto simp: length_Suc_conv)
  obtain y where y: "e2 = N_id y" using z(2) by (cases e2) (auto simp: ID_NTYPE_def avis_of_def)
  obtain x where x: "e1 = N_id x" using z(3) by (cases e1) (auto simp: SCSmakeVectorArray_def ID_NTYPE_def avis_of_def)
  obtain s zs es where v: "var \<rho> y = con s zs es" "inhab (AVIS_TYPE (H y)) s zs es" using consistentD [OF int_appD(1) [OF a]] .
  then have "shp = sh ys" using inhab_getShape [OF v(2)] z(2) y int_appD(5) [OF a] by (auto simp: ID_NTYPE_def)
  moreover have "shape_fits ys" using int_appD(7) [OF a] by (simp add: iarr_ok_def)
  ultimately have "good E \<rho> m [con T_int ys (replicate (length bs) (CInt IInt a1))]"
    using SCSmakeVectorArray_value [OF int_appD(1) [OF a], of x T_int "CInt IInt a1" "int (length bs)" m] z(3) x a1 int_appD(4) [OF a]
    by simp
  moreover have "pointwise_of (iop P_aplmod) xs ys as bs = map (\<lambda>b. a1) bs"
    using a1 app_tests(2) [OF a z(1)] by (auto simp: pointwise_of_def zip_pairs_def)
  then have "w = con T_int ys (replicate (length bs) (CInt IInt a1))"
    using int_appD(9) [OF a] a1 by (simp add: out_shape_def map_replicate_const)
  ultimately show ?thesis by simp
qed

end
