(* ===== verification/SCS_Sound_Bounds.thy ===== *)
theory SCS_Sound_Bounds
  imports SCS_Sound_Rel
begin

text \<open>
  The simplifications that use bounds and signs: comparisons, maximum and minimum.
\<close>

subsection \<open>Bounds of bounds\<close>

lemma int_rel_trans:
  assumes "int_rel R c d" and "int_rel S d e" and "\<And>x y z. R x y \<Longrightarrow> S y z \<Longrightarrow> T x z"
  shows "int_rel T c e"
proof -
  obtain xs as bs where a: "c = iarr xs as" "d = iarr xs bs" "list_all2 R as bs" using assms(1) by (rule int_rel_con)
  obtain cs where b: "e = iarr xs cs" "list_all2 S bs cs" using assms(2) a(2) by (auto elim!: int_rel_con)
  have "list_all2 T as cs" by (rule list_all2_trans [OF _ a(3) b(2)]) (rule assms(3))
  with a b show ?thesis by simp
qed

lemma int_rel_refl: "(\<And>a. R a a) \<Longrightarrow> int_rel R (iarr xs as) (iarr xs as)"
  by (simp add: list_all2_refl)

definition chased :: "bool \<Rightarrow> 'f const \<Rightarrow> 'f const \<Rightarrow> bool" where
  "chased minmax c k \<longleftrightarrow>
     (if minmax then int_rel (<) c k else int_rel (\<le>) k c) \<and> (\<exists>xs as. k = iarr xs as \<and> iarr_ok xs as)"

lemma chase_step:
  fixes E :: "'f tenv"
  assumes c: "consistent E H \<rho>" and u: "var \<rho> u = iarr xs as"
    and z: "match_const E H skip_extrema (N_id u) = Some (Inr (Some q))"
    and r: "(if mm then Some (bindR (COmakeConstantFromInt 1) (\<lambda>one. bindR (COadd (te_fops E) one q) (\<lambda>s. Inr (Some s))))
             else retO (Some q)) = Some (Inr (Some k))"
  shows "chased mm (var \<rho> u) k"
proof -
  note ok = co_value_int [OF c u]
  have q: "q = iarr xs as" using match_const_value [OF c _ z, of "var \<rho> u"] u by simp
  show ?thesis
  proof (cases mm)
    case True
    then obtain one where one: "COmakeConstantFromInt 1 = Inr one" "COadd (te_fops E) one q = Inr k"
      using r by (auto simp: bindR_Inr_iff)
    then have k: "k = iarr xs (map (\<lambda>a. a + 1) as)" "iarr_ok xs (map (\<lambda>a. a + 1) as)"
      using add_one_int [OF one(1) _ ok] q by simp_all
    then have "int_rel (<) (var \<rho> u) k" using u by (simp add: list_all2_conv_all_nth del: map_map)
    with k True show ?thesis unfolding chased_def by (auto simp del: map_map)
  next
    case False
    then have k: "k = iarr xs as" using r q by simp
    have "int_rel (\<le>) k (var \<rho> u)" unfolding k u by (rule int_rel_refl) simp
    with k ok False show ?thesis unfolding chased_def by auto
  qed
qed

lemma chase_value:
  fixes E :: "'f tenv"
  assumes run: "SAACFchaseMinMax E H mm arg = Some r" and c: "consistent E H \<rho>" and r: "r = Inr (Some k)"
  shows "\<exists>u. arg = Some (N_id u) \<and> (\<forall>xs as. var \<rho> u = iarr xs as \<longrightarrow> chased mm (var \<rho> u) k)"
  using run c r
proof (induction arbitrary: k rule: SAACFchaseMinMax.raw_induct [rotated, consumes 1])
  case (1 f E H mm arg r)
  note ih = 1(1) and run = 1(2) and c = 1(3) and r = 1(4)
  obtain n where n: "arg = Some n" using run r by (cases arg) auto
  obtain z where z: "(if is_id n then match_const E H skip_extrema n else retO None) = Some (Inr z)"
    using run r n by (auto simp: bindOO_Some_Inr)
  show ?case
  proof (cases z)
    case (Some q)
    then obtain u where u: "n = N_id u" using z by (cases n) auto
    have "chased mm (var \<rho> u) k" if "var \<rho> u = iarr xs as" for xs as
      by (rule chase_step [OF c that, of q]) (use run r n z u Some in \<open>auto simp: bindOO_def split: if_splits\<close>)
    with n u show ?thesis by blast
  next
    case None
    then obtain u where u: "n = N_id u" and f: "f E H mm (if mm then AVIS_MAX (H u) else AVIS_MIN (H u)) = Some (Inr (Some k))"
      using run r n z by (cases n) (auto simp: bindOO_def avis_of_def)
    obtain v where v: "(if mm then AVIS_MAX (H u) else AVIS_MIN (H u)) = Some (N_id v)"
        "\<forall>xs as. var \<rho> v = iarr xs as \<longrightarrow> chased mm (var \<rho> v) k"
      using ih [OF f c refl] by blast
    have b: "if mm then int_rel (<) (var \<rho> u) (var \<rho> v) else int_rel (\<le>) (var \<rho> v) (var \<rho> u)"
      using v(1) bound_max [OF c, of u "N_id v"] bound_min [OF c, of u "N_id v"] by (auto split: if_splits)
    then obtain ys bs where "var \<rho> v = iarr ys bs" by (auto split: if_splits elim: int_rel_con)
    then have "chased mm (var \<rho> v) k" using v(2) by blast
    with b have "chased mm (var \<rho> u) k" by (auto simp: chased_def split: if_splits elim: int_rel_trans)
    with n u show ?thesis by blast
  qed
qed


subsection \<open>Selections from shapes\<close>

lemma cfor_keeps:
  assumes "cfor i n f s = Inr t" and "P s" and "\<And>j u v. P u \<Longrightarrow> f j u = Inr v \<Longrightarrow> P v"
  shows "P t"
  using assms(1,2)
proof (induction "nat (n - i)" arbitrary: i s)
  case 0
  then show ?case by (simp add: cfor_done)
next
  case (Suc k)
  then have l: "i < n" by simp
  obtain u where u: "f i s = Inr u" "cfor (i + 1) n f u = Inr t" using Suc.prems(1) l by (auto simp: cfor_step bindR_Inr_iff)
  have "k = nat (n - (i + 1))" using Suc.hyps(2) by simp
  then show ?case using Suc.hyps(1) u assms(3) [OF Suc.prems(2) u(1)] by blast
qed

lemma cv2cv_cells:
  assumes "COcv2Cv t src off n dst d = Inr v"
  shows "set v \<subseteq> Some ` {x. Some x \<in> set src} \<union> set dst"
proof -
  have "cfor 0 n (\<lambda>i res. bindR (rd src (i + off)) (wr res (i + d))) dst = Inr v"
    using assms by (simp add: COcv2Cv_def split: if_splits)
  then show ?thesis
  proof (rule cfor_keeps)
    fix j u v'
    assume u: "set u \<subseteq> Some ` {x. Some x \<in> set src} \<union> set dst" and "bindR (rd src (j + off)) (wr u (j + d)) = Inr v'"
    then obtain x where x: "rd src (j + off) = Inr x" "wr u (j + d) x = Inr v'" by (auto simp: bindR_Inr_iff)
    have "src ! nat (j + off) = Some x" "nat (j + off) < length src"
      using x(1) by (auto simp: rd_def check_Inr_iff split: option.splits if_splits)
    then have "Some x \<in> set src" by (metis nth_mem)
    moreover have "set v' \<subseteq> insert (Some x) (set u)"
      using x(2) by (auto simp: wr_def check_Inr_iff dest: set_update_subset_insert [THEN subsetD])
    ultimately show "set v' \<subseteq> Some ` {x. Some x \<in> set src} \<union> set dst" using u by auto
  qed simp
qed

lemma pick_cells:
  fixes es :: "'a list"
  assumes "COINTpickNElemsFromCV t (full es) off n = Inr (full fs)"
  shows "set fs \<subseteq> set es"
proof
  fix x assume "x \<in> set fs"
  then have "Some x \<in> set (full fs)" by (simp add: full_def)
  moreover have "Some x \<notin> set (COINTallocCV t n :: 'a option list)"
    by (auto simp: COINTallocCV_def allocv_def split: if_splits)
  ultimately show "x \<in> set es" using cv2cv_cells [OF assms [unfolded COINTpickNElemsFromCV_def]]
    by (auto simp: full_def)
qed

lemma sel_cells:
  assumes "COsel i (con t xs es) = Inr (con u ys fs) \<or> COidxSel i (con t xs es) = Inr (con u ys fs)"
  shows "set fs \<subseteq> set es"
proof -
  obtain t' off n where "COINTpickNElemsFromCV t' (full es) off n = Inr (full fs)"
    using assms by (auto simp: COsel_def COidxSel_def bindR_Inr_iff check_Inr_iff COINTmakeConstant_def con_def)
  then show ?thesis by (rule pick_cells)
qed

lemma shape_cells:
  fixes a :: "'f const"
  assumes "COshape (con t xs es :: 'f const) = Inr (Some (iarr ys as))"
  shows "as = xs"
proof -
  have "cfor 0 (int (length xs)) (\<lambda>i v. bindR (SHgetExtent (sh xs) i) (wr v i)) (replicate (length xs) None)
      = cfor 0 (int (length xs)) (\<lambda>i v. bindR (rd (full xs) i) (wr v i)) (replicate (length xs) None)"
    by (rule cfor_cong) (simp add: SHgetExtent_sh rd_full)
  also have "\<dots> = Inr (full xs)" using copy_loop0 [of "length xs" xs "replicate (length xs) None"] by simp
  finally have l: "cfor 0 (int (length xs)) (\<lambda>i v. bindR (SHgetExtent (sh xs) i) (wr v i)) (allocv (int (length xs)))
      = Inr (full xs)" by (simp add: allocv_def)
  obtain s where "COmakeConstant T_int s (full (map (CInt IInt) xs)) = Inr (iarr ys as :: 'f const)"
    using assms l by (auto simp: COshape_def Let_def bindR_Inr_iff int_cells_full split: if_splits)
  then show ?thesis by (auto simp: COmakeConstant_def COINTmakeConstant_def con_def bindR_Inr_iff check_Inr_iff split: if_splits)
qed

lemma fold2_value:
  assumes "prf_value F p n [a, b] = Some [c]" and "p = F_struct P_sel_VxA \<or> p = F_index P_idx_sel"
  shows "COsel a b = Inr c \<or> COidxSel a b = Inr c"
  using assms
  by (auto simp: prf_value_def folded_value_def Let_def bindR_Inr_iff CO2_def nn_def bindO_def split: option.splits sum.splits)

lemma shape_prf_value:
  assumes "prf_value F (F_query P_shape_A) n [a] = Some [c]"
  shows "COshape a = Inr (Some c)"
  using assms by (auto simp: prf_value_def folded_value_def Let_def CO1p_def nn_def split: option.splits sum.splits)

lemma sel_type:
  assumes "COsel i (con t xs es) = Inr (con u ys fs) \<or> COidxSel i (con t xs es) = Inr (con u ys fs)"
  shows "u = t"
  using assms by (auto simp: COsel_def COidxSel_def bindR_Inr_iff check_Inr_iff COINTmakeConstant_def con_def)

lemma match_get2:
  assumes "PMmatch E H mode (PMprf [PMAisPrf p] [PMvar [PMAgetNode x] [], PMvar [PMAgetNode y] []]) n b = Some (Inr (True, b'))"
  obtains a k i j where "skipVarDefs H mode n = Some (Inr (N_prf a p k [N_id i, N_id j]))"
    and "b' = set_node y (N_id j) (set_node x (N_id i) b)"
proof -
  obtain a q k es b1 where m: "skipVarDefs H mode n = Some (Inr (N_prf a q k es))"
      "genericAtribMatcher E H [PMAisPrf p] (N_prf a q k es) b = Some (Inr (True, b1))"
      "genericSubPatternMatcher E H mode [PMvar [PMAgetNode x] [], PMvar [PMAgetNode y] []] es b1 = Some (Inr (True, b'))"
    using match_prf_run [OF assms] by blast
  with that show ?thesis by (auto simp: sub_matches)
qed

lemma match_get1:
  assumes "PMmatch E H mode (PMprf [PMAisPrf p] [PMvar [PMAgetNode x] []]) n b = Some (Inr (True, b'))"
  obtains a k i where "skipVarDefs H mode n = Some (Inr (N_prf a p k [N_id i]))" and "b' = set_node x (N_id i) b"
proof -
  obtain a q k es b1 where m: "skipVarDefs H mode n = Some (Inr (N_prf a q k es))"
      "genericAtribMatcher E H [PMAisPrf p] (N_prf a q k es) b = Some (Inr (True, b1))"
      "genericSubPatternMatcher E H mode [PMvar [PMAgetNode x] []] es b1 = Some (Inr (True, b'))"
    using match_prf_run [OF assms] by blast
  with that show ?thesis by (auto simp: sub_matches)
qed

lemma SCSisSelOfShape_run:
  assumes "SCSisSelOfShape E H n = Some (Inr True)"
  obtains p b b' x b'' where "p \<in> {F_struct P_sel_VxA, F_index P_idx_sel}"
    and "PMmatch E H skip_guards (PMprf [PMAisPrf p] [PMvar [PMAgetNode ''iv''] [], PMvar [PMAgetNode ''x''] []]) n b = Some (Inr (True, b'))"
    and "bound_node ''x'' b' = Inr x" and "PMmatch E H skip_guards (PMprf [PMAisPrf (F_query P_shape_A)] [PMvar [PMAgetNode ''m''] []]) x b' = Some (Inr (True, b''))"
proof -
  let ?p = "\<lambda>p. PMprf [PMAisPrf p] [PMvar [PMAgetNode ''iv''] [], PMvar [PMAgetNode ''x''] []]"
  obtain z0 b0 z1 b1 z2 b2 where
      1: "PMmatch E H skip_guards (?p (F_struct P_sel_VxA)) n b0 = Some (Inr (z1, b1))"
    and 2: "(if z1 then retO (True, b1) else PMmatchFlatSkipGuards E H (?p (F_index P_idx_sel)) n b1) = Some (Inr (z2, b2))"
    and 3: "(if \<not> z2 then retO False
        else bindRO (bound_node ''x'' b2) (\<lambda>x.
             bindO (PMmatchFlatSkipGuards E H (PMprf [PMAisPrf (F_query P_shape_A)] [PMvar [PMAgetNode ''m''] []]) x b2) (\<lambda>(z, b). Inr z))) = Some (Inr True)"
    using assms by (auto simp: SCSisSelOfShape_def Let_def PMmatchFlatSkipGuards_def bindOO_Some_Inr)
  obtain x b3 where x: "z2" "bound_node ''x'' b2 = Inr x"
      "PMmatch E H skip_guards (PMprf [PMAisPrf (F_query P_shape_A)] [PMvar [PMAgetNode ''m''] []]) x b2 = Some (Inr (True, b3))"
    using 3 by (auto simp: PMmatchFlatSkipGuards_def bindO_Some_Inr bindRO_Some_Inr split: if_splits)
  show ?thesis
  proof (cases z1)
    case True
    then have "b2 = b1" "PMmatch E H skip_guards (?p (F_struct P_sel_VxA)) n b0 = Some (Inr (True, b1))" using 1 2 by simp_all
    with that [of "F_struct P_sel_VxA" b0 b1 x b3] x show ?thesis by simp
  next
    case False
    then have "PMmatch E H skip_guards (?p (F_index P_idx_sel)) n b1 = Some (Inr (True, b2))"
      using 2 x(1) by (simp add: PMmatchFlatSkipGuards_def)
    with that [of "F_index P_idx_sel" b1 b2 x b3] x show ?thesis by simp
  qed
qed

lemma SCSisSelOfShape_value:
  fixes E :: "'f tenv"
  assumes c: "consistent E H \<rho>" and g: "good E \<rho> n [iarr xs as]" and r: "SCSisSelOfShape E H n = Some (Inr True)"
  shows "\<forall>a\<in>set as. 0 \<le> a"
proof -
  obtain p b b' x b'' where p: "p \<in> {F_struct P_sel_VxA, F_index P_idx_sel}"
      "PMmatch E H skip_guards (PMprf [PMAisPrf p] [PMvar [PMAgetNode ''iv''] [], PMvar [PMAgetNode ''x''] []]) n b = Some (Inr (True, b'))"
      "bound_node ''x'' b' = Inr x" "PMmatch E H skip_guards (PMprf [PMAisPrf (F_query P_shape_A)] [PMvar [PMAgetNode ''m''] []]) x b' = Some (Inr (True, b''))"
    using SCSisSelOfShape_run [OF r] .
  obtain a k i j where m: "skipVarDefs H skip_guards n = Some (Inr (N_prf a p k [N_id i, N_id j]))"
      "b' = set_node ''x'' (N_id j) (set_node ''iv'' (N_id i) b)" using match_get2 [OF p(2)] .
  have x: "x = N_id j" using p(3) m(2) by simp
  obtain a' k' l where s: "skipVarDefs H skip_guards (N_id j) = Some (Inr (N_prf a' (F_query P_shape_A) k' [N_id l]))"
      "b'' = set_node ''m'' (N_id l) b'"
    using match_get1 [OF p(4) [unfolded x]] .
  have v: "prf_value (te_fops E) p k [var \<rho> i, var \<rho> j] = Some [iarr xs as]"
    using prf2_value [OF prf_found_value [OF c g m(1)]] .
  have w: "COshape (var \<rho> l) = Inr (Some (var \<rho> j))"
    using prf1_value [OF prf_found_value [OF c _ s(1), of "[var \<rho> j]"]] by (simp add: shape_prf_value)
  obtain t ys es where j: "var \<rho> j = con t ys es" "con_ok t ys es" using good_con [OF c, of "N_id j" "var \<rho> j"] by auto
  obtain u zs fs where l: "var \<rho> l = con u zs fs" "con_ok u zs fs" using good_con [OF c, of "N_id l" "var \<rho> l"] by auto
  have f: "COsel (var \<rho> i) (con t ys es) = Inr (iarr xs as) \<or> COidxSel (var \<rho> i) (con t ys es) = Inr (iarr xs as)"
    by (rule fold2_value [OF v [unfolded j]]) (use p(1) in blast)
  have t: "t = T_int" using sel_type [OF f] by simp
  obtain cs where cs: "es = map (CInt IInt) cs" using iarr_cases [OF j(2) [unfolded t]] .
  have "cs = zs" using shape_cells [of u zs fs ys cs] w j l t cs by simp
  moreover have "set (map (CInt IInt) as :: 'f cval list) \<subseteq> set es"
    by (rule sel_cells [OF f])
  then have "set as \<subseteq> set cs" using cs by auto
  ultimately show ?thesis using con_okD(1) [OF l(2)] shape_fits_nonneg by (metis subsetD)
qed

subsection \<open>Signs\<close>

lemma num_value:
  assumes "good E \<rho> n [iarr xs as]" and "num_test P n"
  shows "\<exists>a. as = [a] \<and> P a"
  using assms by (cases n) (auto simp: good_def elim!: num_test.elims)

lemma list_all2_bound:
  assumes "list_all2 R xs ys"
  shows "(\<And>x y. R x y \<Longrightarrow> P x \<Longrightarrow> Q y) \<Longrightarrow> \<forall>x\<in>set xs. P x \<Longrightarrow> \<forall>y\<in>set ys. Q y"
    and "(\<And>x y. R x y \<Longrightarrow> Q y \<Longrightarrow> P x) \<Longrightarrow> \<forall>y\<in>set ys. Q y \<Longrightarrow> \<forall>x\<in>set xs. P x"
  using assms by (induction rule: list_all2_induct) auto

lemma chased_var:
  fixes E :: "'f tenv"
  assumes c: "consistent E H \<rho>" and g: "good E \<rho> n [iarr xs as]" and r: "SAACFchaseMinMax E H mm (Some n) = Some (Inr (Some k))"
  obtains ks where "k = iarr xs ks" and "iarr_ok xs ks" and "if mm then list_all2 (<) as ks else list_all2 (\<le>) ks as"
proof -
  obtain u where u: "n = N_id u" "\<forall>xs as. var \<rho> u = iarr xs as \<longrightarrow> chased mm (var \<rho> u) k"
    using chase_value [OF r c refl] by blast
  then have "chased mm (iarr xs as) k" using g by (metis good_id list.inject)
  then show ?thesis using that by (auto simp: chased_def split: if_splits)
qed

lemma SCSisNonNegative_value:
  fixes E :: "'f tenv"
  assumes c: "consistent E H \<rho>" and g: "good E \<rho> n [iarr xs as]" and ok: "iarr_ok xs as"
    and r: "SCSisNonNegative E H n = Some (Inr True)"
  shows "\<forall>a\<in>set as. 0 \<le> a"
proof -
  consider "num_test (\<lambda>x. 0 \<le> x) n"
    | "bindO (match_const E H skip_extrema n) (test_const (\<lambda>k. COisNonNeg (te_fops E) k True)) = Some (Inr True)"
    | "SCSisSelOfShape E H n = Some (Inr True)"
    | k where "SAACFchaseMinMax E H False (Some n) = Some (Inr (Some k))" "COisNonNeg (te_fops E) k True = Inr True"
    using r by (auto simp: SCSisNonNegative_def Let_def orO_True bindO_Some_Inr test_const_True split: if_splits)
  then show ?thesis
  proof cases
    case 1
    then show ?thesis using num_value [OF g 1] by auto
  next
    case 2
    then show ?thesis using const_test [OF c g 2] nonneg.test_int [OF host_int_T_int, of xs as "te_fops E" True] ok by simp
  next
    case 3
    then show ?thesis by (rule SCSisSelOfShape_value [OF c g])
  next
    case 4
    obtain ks where k: "k = iarr xs ks" "iarr_ok xs ks" "list_all2 (\<le>) ks as" using chased_var [OF c g 4(1)] by auto
    then have "\<forall>a\<in>set ks. 0 \<le> a" using 4(2) nonneg.test_int [OF host_int_T_int, of xs ks "te_fops E" True] by simp
    then show ?thesis by (rule list_all2_bound(1) [OF k(3), rotated]) simp
  qed
qed

lemma SCSisNegative_value:
  fixes E :: "'f tenv"
  assumes c: "consistent E H \<rho>" and g: "good E \<rho> n [iarr xs as]" and ok: "iarr_ok xs as"
    and r: "SCSisNegative E H n = Some (Inr True)"
  shows "\<forall>a\<in>set as. a < 0"
proof -
  consider "num_test (\<lambda>x. x < 0) n"
    | "bindO (match_const E H skip_extrema n) (test_const (\<lambda>k. COisNeg (te_fops E) k True)) = Some (Inr True)"
    | k where "SAACFchaseMinMax E H True (Some n) = Some (Inr (Some k))"
        "COisNeg (te_fops E) k True = Inr True \<or> COisZero (te_fops E) k True = Inr True"
    using r by (auto simp: SCSisNegative_def Let_def orO_True orR_decided bindO_Some_Inr test_const_True split: if_splits)
  then show ?thesis
  proof cases
    case 1
    then show ?thesis using num_value [OF g 1] by auto
  next
    case 2
    then show ?thesis using const_test [OF c g 2] neg.test_int [OF host_int_T_int, of xs as "te_fops E" True] ok by simp
  next
    case 3
    obtain ks where k: "k = iarr xs ks" "iarr_ok xs ks" "list_all2 (<) as ks" using chased_var [OF c g 3(1)] by auto
    then have "\<forall>a\<in>set ks. a \<le> 0"
      using 3(2) neg.test_int [OF host_int_T_int, of xs ks "te_fops E" True] zero.test_int [OF host_int_T_int, of xs ks "te_fops E" True]
      by auto
    then show ?thesis by (rule list_all2_bound(2) [OF k(3), rotated]) simp
  qed
qed

text \<open>
  The test for positive numbers is right for scalars: a lower bound that is neither negative nor zero is positive.
\<close>

lemma SCSisPositive_value:
  fixes E :: "'f tenv"
  assumes c: "consistent E H \<rho>" and g: "good E \<rho> n [iarr [] [a]]" and ok: "iarr_ok [] [a]"
    and r: "SCSisPositive E H n = Some (Inr True)"
  shows "0 < a"
proof -
  consider "num_test (\<lambda>x. 0 < x) n"
    | "bindO (match_const E H skip_extrema n) (test_const (\<lambda>k. COisPos (te_fops E) k True)) = Some (Inr True)"
    | k where "SAACFchaseMinMax E H False (Some n) = Some (Inr (Some k))"
        "COisNeg (te_fops E) k True = Inr False" "COisZero (te_fops E) k True = Inr False"
    using r by (auto simp: SCSisPositive_def Let_def orO_True andR_decided notR_decided bindO_Some_Inr test_const_True split: if_splits)
  then show ?thesis
  proof cases
    case 1
    then show ?thesis using num_value [OF g 1] by auto
  next
    case 2
    then show ?thesis using const_test [OF c g 2] pos.test_int [OF host_int_T_int, of "[]" "[a]" "te_fops E" True] ok
        iarr_con_ok [of "[]" "[a]"] by simp
  next
    case 3
    obtain ks where k: "k = iarr [] ks" "iarr_ok [] ks" "list_all2 (\<le>) ks [a]" using chased_var [OF c g 3(1)] by auto
    then obtain b where b: "ks = [b]" "b \<le> a" by (auto simp: list_all2_Cons2)
    have "con_ok T_int [] (map (CInt IInt) ks :: 'f cval list)" using k(2) by simp
    then have "\<not> b < 0" "b \<noteq> 0"
      using 3(2,3) k(1) b(1) neg.test_int [OF host_int_T_int, of "[]" ks "te_fops E" True]
        zero.test_int [OF host_int_T_int, of "[]" ks "te_fops E" True] by simp_all
    with b(2) show ?thesis by linarith
  qed
qed

subsection \<open>Comparisons decided by bounds\<close>

lemma one_of_int: "one_of F T_int = Inr (iarr [] [1])"
  using base_const_int [OF host_int_T_int, of F BOne]
  by (simp add: one_of_def some_const_def COmakeOne_def SHmakeShape_0 sh_def [symmetric] in_ity_def imin_def imax_def)

lemma zero_of_int: "zero_of F T_int = Inr (iarr [] [0])"
  using base_const_int [OF host_int_T_int, of F BZero]
  by (simp add: zero_of_def some_const_def COmakeZero_def SHmakeShape_0 sh_def [symmetric] in_ity_def imin_def imax_def)

lemma iarr_ok_one: "iarr_ok [] [1]" "iarr_ok [] [0]"
  by (simp_all add: iarr_ok_def shape_fits_def in_ity_def imin_def imax_def int_max_def)

lemma relfn_bin: "op \<in> {P_lt, P_le, P_ge, P_gt} \<Longrightarrow> relfn (F_bin op SxS) F a b = bin_co F op a b"
  by (auto simp: relfn_def)

lemma sub_scalar:
  fixes F :: "'f fops"
  assumes "COsub F (iarr xs ks) (iarr [] [d]) = Inr c" and "iarr_ok xs ks" and "iarr_ok [] [d]"
  shows "c = iarr xs (map (\<lambda>k. k - d) ks) \<and> iarr_ok xs (map (\<lambda>k. k - d) ks)"
proof -
  have "bin_co F P_sub (iarr xs ks) (iarr [] [d]) = Inr c" "P_sub \<in> ari_ops" using assms(1) by (simp_all add: ari_ops_def)
  from co_ari [OF this(1) assms(2,3) this(2)] obtain zs where z: "zip_shape xs [] = Some zs"
      "c = iarr zs (pointwise_of (iop P_sub) xs [] ks [d])" "iarr_ok zs (pointwise_of (iop P_sub) xs [] ks [d])" .
  have "pointwise_of (iop P_sub) xs [] ks [d] = map (\<lambda>k. k - d) ks"
  proof (cases "xs = []")
    case True
    then obtain k where "ks = [k]" using iarr_ok_scalar assms(2) by blast
    then show ?thesis using True by (simp add: pointwise_of_def zip_pairs_def)
  qed (simp add: pointwise_of_def zip_pairs_def comp_def)
  moreover have "zs = xs" using z(1) by (auto simp: zip_shape_def split: if_splits)
  ultimately show ?thesis using z by simp
qed

text \<open>The comparison of the constants, and what it says when they are bounds.\<close>

definition relat_ok :: "bool \<Rightarrow> bin_op \<Rightarrow> bool" where
  "relat_ok mm op \<longleftrightarrow> (if mm then op \<in> {P_lt, P_le} else op \<in> {P_ge, P_gt})"

lemma relat_compare:
  fixes E :: "'f tenv"
  assumes adj: "(if mm then one_of (te_fops E) T_int else zero_of (te_fops E) T_int) = Inr adj"
    and s: "COsub (te_fops E) (iarr xs ks) adj = Inr d" and rf: "relfn (F_bin op SxS) (te_fops E) d (iarr ys bs) = Inr w"
    and t: "COisTrue (te_fops E) w True = Inr True" and ok: "iarr_ok xs ks" "iarr_ok ys bs" and op: "relat_ok mm op"
  shows "all_pairs (irel op) xs ys (map (\<lambda>k. if mm then k - 1 else k) ks) bs"
proof -
  obtain d0 where d0: "adj = iarr [] [d0]" "iarr_ok [] [d0]" "d0 = (if mm then 1 else 0)"
    using adj iarr_ok_one by (auto simp: one_of_int zero_of_int split: if_splits)
  have d: "d = iarr xs (map (\<lambda>k. k - d0) ks)" "iarr_ok xs (map (\<lambda>k. k - d0) ks)"
    using sub_scalar [OF s [unfolded d0(1)] ok(1) d0(2)] by blast+
  have o: "op \<in> {P_lt, P_le, P_ge, P_gt}" "op \<in> rel_ops" using op by (auto simp: relat_ok_def rel_ops_def split: if_splits)
  have "bin_co (te_fops E) op (iarr xs (map (\<lambda>k. k - d0) ks)) (iarr ys bs) = Inr w" using rf d(1) relfn_bin [OF o(1)] by metis
  from rel_true [OF this d(2) ok(2) o(2) t] d0(3) show ?thesis by (auto split: if_splits)
qed

lemma isEqExtrema_value:
  assumes "isEqExtrema E H a n = Some (Inr True)"
  obtains u where "a = Some (N_id u)" and "n = N_id u"
proof -
  obtain m b where m: "a = Some m" "PMmatch E H skip_extrema (PMvar [PMAisVar ''arg_node1''] []) n (set_node ''arg_node1'' m no_binds) = Some (Inr (True, b))"
    using assms by (auto simp: isEqExtrema_def PMmatchFlatSkipExtrema_def runs split: option.splits if_splits)
  with that show ?thesis by (auto simp: match_var_is)
qed

lemma relat_consts_run:
  assumes "relat_consts E H tp a n mm = Some (Inr (Some c1, Some c2))"
  obtains (same) u where "a = Some (N_id u)" and "n = N_id u" and "one_of (te_fops E) tp = Inr c1" and "one_of (te_fops E) tp = Inr c2"
  | "SAACFchaseMinMax E H mm a = Some (Inr (Some c1))" and "COaST2Constant E H n = Some (Inr (Some c2))"
proof -
  consider "isEqExtrema E H a n = Some (Inr True)" "one_of (te_fops E) tp = Inr c1" "one_of (te_fops E) tp = Inr c2"
    | "SAACFchaseMinMax E H mm a = Some (Inr (Some c1))" "COaST2Constant E H n = Some (Inr (Some c2))"
    using assms by (auto simp: relat_consts_def ifO_cases bindOO_Some_Inr bindO_Some_Inr bindR_Inr_iff)
  then show ?thesis using that by cases (auto elim: isEqExtrema_value)
qed

lemma SCSgetBasetype_int:
  fixes E :: "'f tenv"
  assumes "consistent E H \<rho>" and "atom n" and "good E \<rho> n [iarr xs as]"
  shows "SCSgetBasetypeOfExpr E H n = Some (Inr T_int)"
  by (rule typed_shape [OF typed_good [OF assms]]) (simp add: SCSgetBasetypeOfExpr_def)

definition made :: "'f tenv \<Rightarrow> 'f heap \<Rightarrow> 'f node \<Rightarrow> 'f node \<Rightarrow> bool \<Rightarrow> 'f node \<Rightarrow> bool" where
  "made E H n1 n2 k m \<longleftrightarrow> (\<exists>e\<in>{n1, n2}. (if k then SCSmakeTrue E H e else SCSmakeFalse E H e) = Some (Inr (Some m)))"

lemma relatHelper_run:
  assumes "relatHelper E H n1 n2 f mm tf = Some (Inr (Some m))"
  obtains x tp c1 c2 adj d w where "n1 = N_id x" and "SCSgetBasetypeOfExpr E H n1 = Some (Inr tp)"
    and "relat_consts E H tp (if mm then AVIS_MAX (H x) else AVIS_MIN (H x)) n2 mm = Some (Inr (Some c1, Some c2))"
    and "(if mm then one_of (te_fops E) tp else zero_of (te_fops E) tp) = Inr adj" and "COsub (te_fops E) c1 adj = Inr d"
    and "relfn f (te_fops E) d c2 = Inr w" and "COisTrue (te_fops E) w True = Inr True" and "made E H n1 n2 tf m"
proof -
  obtain tp where tp: "SCSgetBasetypeOfExpr E H n1 = Some (Inr tp)" using assms by (auto simp: relatHelper_def Let_def bindOO_Some_Inr)
  obtain x where x: "n1 = N_id x" using assms tp by (cases n1) (auto simp: relatHelper_def Let_def bindOO_def)
  let ?test = "\<lambda>c1 c2. case (c1, c2) of
      (Some arg1c, Some arg2c) \<Rightarrow>
        Some (bindR (if mm then one_of (te_fops E) tp else zero_of (te_fops E) tp) (\<lambda>adj.
              bindR (COsub (te_fops E) arg1c adj) (\<lambda>arg1cp.
              bindR (relfn f (te_fops E) arg1cp arg2c) (\<lambda>b. COisTrue (te_fops E) b True))))
    | _ \<Rightarrow> retO False"
  obtain o1 o2 mat where r: "relat_consts E H tp (if mm then AVIS_MAX (H x) else AVIS_MIN (H x)) n2 mm = Some (Inr (o1, o2))"
      "?test o1 o2 = Some (Inr mat)"
      "(if \<not> mat then retO None else bindRO (TUisVector (AVIS_TYPE (H x))) (\<lambda>vec.
         (if tf then SCSmakeTrue E H else SCSmakeFalse E H) (if vec then n1 else n2))) = Some (Inr (Some m))"
    using assms tp x by (auto simp: relatHelper_def Let_def bindOO_Some_Inr)
  have mat: "mat" using r(3) by (cases mat) auto
  then obtain vec where "(if tf then SCSmakeTrue E H else SCSmakeFalse E H) (if vec then n1 else n2) = Some (Inr (Some m))"
    using r(3) by (auto simp: bindRO_Some_Inr)
  then have "made E H n1 n2 tf m" by (auto simp: made_def split: if_splits)
  moreover obtain c1 c2 where o: "o1 = Some c1" "o2 = Some c2" using r(2) mat by (auto split: option.splits)
  moreover obtain adj d w where "(if mm then one_of (te_fops E) tp else zero_of (te_fops E) tp) = Inr adj" "COsub (te_fops E) c1 adj = Inr d"
      "relfn f (te_fops E) d c2 = Inr w" "COisTrue (te_fops E) w True = Inr True"
    using r(2) mat o by (auto simp: bindR_Inr_iff simp del: if_split)
  ultimately show ?thesis using that x tp r(1) by blast
qed

lemma relatHelper_value:
  fixes E :: "'f tenv"
  assumes c: "consistent E H \<rho>" and at: "atom n1" "atom n2" and g1: "good E \<rho> n1 [iarr xs as]" and g2: "good E \<rho> n2 [iarr ys bs]"
    and ok: "iarr_ok xs as" "iarr_ok ys bs" and op: "relat_ok mm op"
    and r: "relatHelper E H n1 n2 (F_bin op SxS) mm tf = Some (Inr (Some m))"
  shows "all_pairs (irel op) xs ys as bs \<and> made E H n1 n2 tf m"
proof -
  obtain x tp c1 c2 adj d w where x: "n1 = N_id x" "SCSgetBasetypeOfExpr E H n1 = Some (Inr tp)"
    and k: "relat_consts E H tp (if mm then AVIS_MAX (H x) else AVIS_MIN (H x)) n2 mm = Some (Inr (Some c1, Some c2))"
    and t: "(if mm then one_of (te_fops E) tp else zero_of (te_fops E) tp) = Inr adj" "COsub (te_fops E) c1 adj = Inr d"
      "relfn (F_bin op SxS) (te_fops E) d c2 = Inr w" "COisTrue (te_fops E) w True = Inr True"
    and m: "made E H n1 n2 tf m"
    using relatHelper_run [OF r] .
  have tp: "tp = T_int" using SCSgetBasetype_int [OF c at(1) g1] x(2) by simp
  note t = t [unfolded tp]
  have v: "var \<rho> x = iarr xs as" using g1 x(1) by simp
  have "all_pairs (irel op) xs ys as bs"
  proof (rule relat_consts_run [OF k])
    fix u
    assume u: "(if mm then AVIS_MAX (H x) else AVIS_MIN (H x)) = Some (N_id u)" "n2 = N_id u"
      and "one_of (te_fops E) tp = Inr c1" "one_of (te_fops E) tp = Inr c2"
    then have one: "c1 = iarr [] [1]" "c2 = iarr [] [1]" by (simp_all add: tp one_of_int)
    have "all_pairs (irel op) [] [] (map (\<lambda>k. if mm then k - 1 else k) [1]) [1]"
      by (rule relat_compare [OF t(1) t(2) [unfolded one] t(3) [unfolded one] t(4) iarr_ok_one(1) iarr_ok_one(1) op])
    then have i: "irel op (if mm then 0 else 1) 1" by (cases mm) (simp_all add: all_pairs_def zip_pairs_def)
    have b: "var \<rho> u = iarr ys bs" using g2 u(2) by simp
    have "if mm then int_rel (<) (var \<rho> x) (var \<rho> u) else int_rel (\<le>) (var \<rho> u) (var \<rho> x)"
      using u(1) bound_max [OF c, of x "N_id u"] bound_min [OF c, of x "N_id u"] by (auto split: if_splits)
    then have "ys = xs" "list_all2 (\<lambda>a b. if mm then a < b else b \<le> a) as bs"
      unfolding v b by (auto simp: list_all2_conv_all_nth split: if_splits)
    then have "all_pairs (\<lambda>a b. if mm then a < b else b \<le> a) xs ys as bs" using pairs_same [OF _ ok(1)] by blast
    then show ?thesis by (rule pairs_mono) (use op i in \<open>auto simp: relat_ok_def split: if_splits\<close>)
  next
    assume ch: "SAACFchaseMinMax E H mm (if mm then AVIS_MAX (H x) else AVIS_MIN (H x)) = Some (Inr (Some c1))"
      and c2: "COaST2Constant E H n2 = Some (Inr (Some c2))"
    then obtain u where u: "(if mm then AVIS_MAX (H x) else AVIS_MIN (H x)) = Some (N_id u)"
        "\<forall>zs es. var \<rho> u = iarr zs es \<longrightarrow> chased mm (var \<rho> u) c1"
      using chase_value [OF ch c refl] by blast
    have b: "if mm then int_rel (<) (var \<rho> x) (var \<rho> u) else int_rel (\<le>) (var \<rho> u) (var \<rho> x)"
      using u(1) bound_max [OF c, of x "N_id u"] bound_min [OF c, of x "N_id u"] by (auto split: if_splits)
    then obtain us where us: "var \<rho> u = iarr xs us" "list_all2 (\<lambda>a u. if mm then a < u else u \<le> a) as us"
      unfolding v by (auto simp: list_all2_conv_all_nth split: if_splits elim!: int_rel_con)
    then obtain ks where ks: "c1 = iarr xs ks" "iarr_ok xs ks" "list_all2 (\<lambda>u k. if mm then u < k else k \<le> u) us ks"
      using u(2) by (auto simp: chased_def list_all2_conv_all_nth split: if_splits elim!: int_rel_con)
    have c2v: "c2 = iarr ys bs" using const_value [OF c g2 c2] .
    have p: "all_pairs (irel op) xs ys (map (\<lambda>k. if mm then k - 1 else k) ks) bs"
      by (rule relat_compare [OF t(1) t(2) [unfolded ks(1)] t(3) [unfolded c2v] t(4) ks(2) ok(2) op])
    have "list_all2 (\<lambda>k a. if mm then a < k else k \<le> a) (map (\<lambda>k. if mm then k - 1 else k) ks) as"
    proof (rule list_all2_all_nthI)
      show l: "length (map (\<lambda>k. if mm then k - 1 else k) ks) = length as"
        using list_all2_lengthD [OF us(2)] list_all2_lengthD [OF ks(3)] by simp
      fix i assume "i < length (map (\<lambda>k. if mm then k - 1 else k) ks)"
      then have "if mm then as ! i < us ! i else us ! i \<le> as ! i" "if mm then us ! i < ks ! i else ks ! i \<le> us ! i" "i < length ks"
        using list_all2_nthD [OF us(2), of i] list_all2_nthD [OF ks(3), of i] l list_all2_lengthD [OF us(2)] by simp_all
      then show "if mm then as ! i < map (\<lambda>k. if mm then k - 1 else k) ks ! i else map (\<lambda>k. if mm then k - 1 else k) ks ! i \<le> as ! i"
        by (auto split: if_splits)
    qed
    from pairs_left [OF p this ok(1)] show ?thesis using op by (auto simp: relat_ok_def split: if_splits)
  qed
  with m show ?thesis by blast
qed


text \<open>The comparison of the arguments is the same for all pairs, and the result is an array of its value.\<close>

lemma onRelationals_value:
  fixes E :: "'f tenv"
  assumes c: "consistent E H \<rho>" and at: "atom n1" "atom n2" and g1: "good E \<rho> n1 [iarr xs as]" and g2: "good E \<rho> n2 [iarr ys bs]"
    and ok: "iarr_ok xs as" "iarr_ok ys bs" and op: "op \<in> {P_lt, P_le, P_ge, P_gt}"
    and r: "SAACFonRelationalsWithExtrema E H d n1 n2 (F_bin op v) = Some (Inr (Some m))"
  obtains k where "all_pairs (\<lambda>a b. irel op a b = k) xs ys as bs" and "made E H n1 n2 k m"
proof -
  define mm where "mm = minmaxtab (F_bin op SxS)"
  define b where "b = (case op of P_lt \<Rightarrow> P_gt | P_le \<Rightarrow> P_ge | P_ge \<Rightarrow> P_le | _ \<Rightarrow> P_lt)"
  define n where "n = (case op of P_lt \<Rightarrow> P_ge | P_le \<Rightarrow> P_gt | P_ge \<Rightarrow> P_lt | _ \<Rightarrow> P_le)"
  define d' where "d' = (case op of P_lt \<Rightarrow> P_le | P_le \<Rightarrow> P_lt | P_ge \<Rightarrow> P_gt | _ \<Rightarrow> P_ge)"
  have f: "complementfnb (F_bin op SxS) = F_bin b SxS" "complementfnc (F_bin op SxS) = F_bin n SxS" "complementfnd (F_bin op SxS) = F_bin d' SxS"
    using op by (auto simp: complementfnb_def complementfnc_def complementfnd_def b_def n_def d'_def)
  have ro: "relat_ok mm op" "relat_ok (\<not> mm) b" "relat_ok (\<not> mm) n" "relat_ok mm d'"
    using op by (auto simp: relat_ok_def mm_def minmaxtab_def b_def n_def d'_def)
  have fam: "TULSgetPrfFamilyName (F_bin op v) = F_bin op SxS" by (simp add: TULSgetPrfFamilyName_def)
  consider "relatHelper E H n1 n2 (F_bin op SxS) mm True = Some (Inr (Some m))"
    | "relatHelper E H n2 n1 (F_bin b SxS) (\<not> mm) True = Some (Inr (Some m))"
    | "relatHelper E H n1 n2 (F_bin n SxS) (\<not> mm) False = Some (Inr (Some m))"
    | "relatHelper E H n2 n1 (F_bin d' SxS) mm False = Some (Inr (Some m))"
    using r op by (auto simp: SAACFonRelationalsWithExtrema_def Let_def fam f mm_def [symmetric] bindOO_Some_Inr elseO_Some split: if_splits)
  then show ?thesis
  proof cases
    case 1
    from relatHelper_value [OF c at g1 g2 ok ro(1) 1] show ?thesis by (intro that [of True]) (simp_all)
  next
    case 2
    from relatHelper_value [OF c at(2,1) g2 g1 ok(2,1) ro(2) 2]
    have p: "all_pairs (irel b) ys xs bs as" "made E H n2 n1 True m" by blast+
    have "all_pairs (\<lambda>a b. irel op a b = True) xs ys as bs"
      by (rule pairs_mono [OF pairs_sym [OF p(1) ok(2,1)]]) (use op in \<open>auto simp: b_def\<close>)
    with p(2) show ?thesis by (intro that [of True]) (auto simp: made_def)
  next
    case 3
    from relatHelper_value [OF c at g1 g2 ok ro(3) 3]
    have p: "all_pairs (irel n) xs ys as bs" "made E H n1 n2 False m" by blast+
    have "all_pairs (\<lambda>a b. irel op a b = False) xs ys as bs"
      by (rule pairs_mono [OF p(1)]) (use op in \<open>auto simp: n_def\<close>)
    with p(2) show ?thesis by (intro that [of False])
  next
    case 4
    from relatHelper_value [OF c at(2,1) g2 g1 ok(2,1) ro(4) 4]
    have p: "all_pairs (irel d') ys xs bs as" "made E H n2 n1 False m" by blast+
    have "all_pairs (\<lambda>a b. irel op a b = False) xs ys as bs"
      by (rule pairs_mono [OF pairs_sym [OF p(1) ok(2,1)]]) (use op in \<open>auto simp: d'_def\<close>)
    with p(2) show ?thesis by (intro that [of False]) (auto simp: made_def)
  qed
qed

end
