(* ===== verification/SCS_Sound_Dyadic.thy ===== *)
theory SCS_Sound_Dyadic
  imports SCS_Sound_Bounds
begin

text \<open>
  Comparisons, maximum and minimum of scalars, one of which is computed from the other, and the theorem
  for all binary primitives.
\<close>

subsection \<open>An argument computed from the other\<close>

lemma scalar_bin_value:
  fixes F :: "'f fops"
  assumes v: "bin_value F op v x y = Some (iarr [] [w])" and op: "op \<notin> rel_ops"
    and x: "x = con t xs es" "con_ok t xs es" and y: "y = con u ys fs" "con_ok u ys fs"
  obtains a b where "x = iarr [] [a]" and "y = iarr [] [b]" and "iarr_ok [] [a]" and "iarr_ok [] [b]" and "w = iop op a b"
proof -
  have r: "zip_type t (bin_target op) = T_int" using v op
    by (auto simp: bin_value_def bin_target_def x y split: if_splits option.splits sum.splits)
  then have t: "t = T_int" using op by (simp add: bin_target_def)
  show ?thesis
  proof (rule bin_value_int [OF v [unfolded x(1) y(1) t] x(2) [unfolded t] y(2)])
    fix as bs
    assume a: "es = map (CInt IInt) as" "iarr_ok xs as" "u = T_int" "fs = map (CInt IInt) bs" "iarr_ok ys bs" "spread v xs ys as bs"
      and "op \<notin> rel_ops \<Longrightarrow> iarr [] [w] = (iarr (out_shape xs ys) (pointwise_of (iop op) xs ys as bs) :: 'f const)"
    then have e: "out_shape xs ys = []" "map (CInt IInt) (pointwise_of (iop op) xs ys as bs) = (map (CInt IInt) [w] :: 'f cval list)"
      using op by simp_all
    have w: "out_shape xs ys = []" "pointwise_of (iop op) xs ys as bs = [w]" using e(1) e(2) [unfolded map_int_inj] by simp_all
    have s: "xs = []" "ys = []" using w(1) a(6) by (cases v; simp add: out_shape_def)+
    obtain c d where "as = [c]" "bs = [d]" using iarr_ok_scalar a(2,5) s by blast
    then show thesis using that [of c d] a w s t x y by (simp add: pointwise_of_def zip_pairs_def)
  qed
qed

lemma scalar_prf:
  fixes E :: "'f tenv"
  assumes c: "consistent E H \<rho>" and g: "good E \<rho> (N_prf p (F_bin op v) k [N_id i, N_id j]) [iarr [] [w]]" and op: "op \<notin> rel_ops"
  obtains a b where "var \<rho> i = iarr [] [a]" and "var \<rho> j = iarr [] [b]" and "iarr_ok [] [b]" and "w = iop op a b"
proof -
  obtain t xs es where x: "var \<rho> i = con t xs es" "con_ok t xs es" using good_con [OF c, of "N_id i" "var \<rho> i"] by auto
  obtain u ys fs where y: "var \<rho> j = con u ys fs" "con_ok u ys fs" using good_con [OF c, of "N_id j" "var \<rho> j"] by auto
  have v: "bin_value (te_fops E) op v (var \<rho> i) (var \<rho> j) = Some (iarr [] [w])" using prf2_value [OF g] by simp
  show ?thesis by (rule scalar_bin_value [OF v op x y]) (rule that)
qed

lemma b_prf_set [simp]: "b_prf (set_prf x p b) x = Some p" "b_prf (set_node y n b) x = b_prf b x" "b_node (set_prf z p b) = b_node b"
  by (simp_all add: set_prf_def set_node_def)

lemma b_node_set [simp]: "b_node (set_node x n b) y = (if y = x then Some n else b_node b y)"
  by (simp add: set_node_def)

lemma matchesDyadic_run:
  assumes "matchesDyadic pats given other E H expr arg = Some (Inr (Some (f, y)))" and "pats \<noteq> []"
  obtains a p k es b q where "skipVarDefs H skip_extrema expr = Some (Inr (N_prf a p k es))"
    and "genericSubPatternMatcher E H skip_extrema pats es (set_prf ''fun'' p (set_node given arg no_binds)) = Some (Inr (True, b))"
    and "b_node b other = Some y" and "b_prf b ''fun'' = Some q" and "f = TULSgetPrfFamilyName q"
proof -
  obtain b q where m: "PMmatch E H skip_extrema (PMprf [PMAgetPrf ''fun''] pats) expr (set_node given arg no_binds) = Some (Inr (True, b))"
      "b_prf b ''fun'' = Some q" "b_node b other = Some y" "f = TULSgetPrfFamilyName q"
    using assms(1) by (auto simp: matchesDyadic_def PMmatchFlatSkipExtrema_def bindO_Some_Inr split: if_splits option.splits)
  obtain a p k es b1 where p: "skipVarDefs H skip_extrema expr = Some (Inr (N_prf a p k es))"
      "genericAtribMatcher E H [PMAgetPrf ''fun''] (N_prf a p k es) (set_node given arg no_binds) = Some (Inr (True, b1))"
      "genericSubPatternMatcher E H skip_extrema pats es b1 = Some (Inr (True, b))"
    using match_prf_run [OF m(1) assms(2)] .
  have "b1 = set_prf ''fun'' p (set_node given arg no_binds)" using p(2) by (simp add: attr_get_prf)
  with p m that show ?thesis by blast
qed

lemma family_bin: "TULSgetPrfFamilyName p = F_bin op SxS \<longleftrightarrow> (\<exists>v. p = F_bin op v)"
  by (cases p) (auto simp: TULSgetPrfFamilyName_def)

text \<open>The argument that is given and the other one, in the order of the function.\<close>

lemma dyadic_left:
  fixes E :: "'f tenv"
  assumes c: "consistent E H \<rho>" and g: "good E \<rho> n [iarr [] [w]]" and ga: "good E \<rho> arg [iarr [] [a]]"
    and r: "matchesDyadicWithLeftArg E H n arg = Some (Inr (Some (F_bin op SxS, y)))" and op: "op \<notin> rel_ops"
  shows "\<exists>b. good E \<rho> y [iarr [] [b]] \<and> iarr_ok [] [b] \<and> w = iop op a b"
proof -
  obtain d p k es b q where m: "skipVarDefs H skip_extrema n = Some (Inr (N_prf d p k es))"
      "genericSubPatternMatcher E H skip_extrema [PMvar [PMAisVar ''arg1''] [], PMvar [PMAgetNode ''arg2''] []] es
         (set_prf ''fun'' p (set_node ''arg1'' arg no_binds)) = Some (Inr (True, b))"
      "b_node b ''arg2'' = Some y" "b_prf b ''fun'' = Some q" "F_bin op SxS = TULSgetPrfFamilyName q"
    using matchesDyadic_run [OF r [unfolded matchesDyadicWithLeftArg_def]] by blast
  then obtain i j where s: "es = [N_id i, N_id j]" "arg = N_id i" "y = N_id j" "q = p" by (auto simp: sub_matches)
  then obtain v where v: "p = F_bin op v" using m(5) family_bin [of q op] by auto
  have "good E \<rho> (N_prf d (F_bin op v) k [N_id i, N_id j]) [iarr [] [w]]" using prf_found_value [OF c g m(1)] s v by simp
  then show ?thesis by (rule scalar_prf [OF c _ op]) (use s ga in auto)
qed

lemma dyadic_right:
  fixes E :: "'f tenv"
  assumes c: "consistent E H \<rho>" and g: "good E \<rho> n [iarr [] [w]]" and ga: "good E \<rho> arg [iarr [] [a]]"
    and r: "matchesDyadicWithRightArg E H n arg = Some (Inr (Some (F_bin op SxS, y)))" and op: "op \<notin> rel_ops"
  shows "\<exists>b. good E \<rho> y [iarr [] [b]] \<and> iarr_ok [] [b] \<and> w = iop op b a"
proof -
  obtain d p k es b q where m: "skipVarDefs H skip_extrema n = Some (Inr (N_prf d p k es))"
      "genericSubPatternMatcher E H skip_extrema [PMvar [PMAgetNode ''arg1''] [], PMvar [PMAisVar ''arg2''] []] es
         (set_prf ''fun'' p (set_node ''arg2'' arg no_binds)) = Some (Inr (True, b))"
      "b_node b ''arg1'' = Some y" "b_prf b ''fun'' = Some q" "F_bin op SxS = TULSgetPrfFamilyName q"
    using matchesDyadic_run [OF r [unfolded matchesDyadicWithRightArg_def]] by blast
  then obtain i j where s: "es = [N_id j, N_id i]" "arg = N_id i" "y = N_id j" "q = p" by (auto simp: sub_matches)
  then obtain v where v: "p = F_bin op v" using m(5) family_bin [of q op] by auto
  have "good E \<rho> (N_prf d (F_bin op v) k [N_id j, N_id i]) [iarr [] [w]]" using prf_found_value [OF c g m(1)] s v by simp
  then show ?thesis
  proof (rule scalar_prf [OF c _ op])
    fix e f assume e: "var \<rho> j = iarr [] [e]" "var \<rho> i = iarr [] [f]" "iarr_ok [] [f]" "w = iop op e f"
    have "iarr_ok [] [e]" using co_value_int [OF c e(1)] .
    with e s ga show ?thesis by auto
  qed
qed

lemma dyadic_given:
  fixes E :: "'f tenv"
  assumes c: "consistent E H \<rho>" and g: "good E \<rho> n [iarr [] [w]]" and ga: "good E \<rho> arg [iarr [] [a]]"
    and r: "matchesDyadicWithGivenArg E H n arg = Some (Inr (Some (F_bin op SxS, y, left)))" and op: "op \<notin> rel_ops"
  obtains b where "good E \<rho> y [iarr [] [b]]" and "iarr_ok [] [b]" and "w = (if left then iop op a b else iop op b a)"
proof -
  consider "matchesDyadicWithLeftArg E H n arg = Some (Inr (Some (F_bin op SxS, y)))" "left"
    | "matchesDyadicWithRightArg E H n arg = Some (Inr (Some (F_bin op SxS, y)))" "\<not> left"
    using r by (auto simp: matchesDyadicWithGivenArg_def bindOO_Some_Inr bindO_Some_Inr split: option.splits)
  then show ?thesis
    using dyadic_left [OF c g ga _ op] dyadic_right [OF c g ga _ op] that by cases auto
qed

subsection \<open>Decisions\<close>

text \<open>What is known of the other argument.\<close>

lemma sign_tests:
  fixes E :: "'f tenv"
  assumes "consistent E H \<rho>" and "good E \<rho> y [iarr [] [b]]" and "iarr_ok [] [b]"
  shows "SCSisNonNegative E H y = Some (Inr True) \<Longrightarrow> 0 \<le> b" and "SCSisNegative E H y = Some (Inr True) \<Longrightarrow> b < 0"
    and "SCSisPositive E H y = Some (Inr True) \<Longrightarrow> 0 < b"
  using SCSisNonNegative_value [OF assms] SCSisNegative_value [OF assms] SCSisPositive_value [OF assms] by simp_all

definition below :: "bool option cres option \<Rightarrow> (bool \<Rightarrow> bool) \<Rightarrow> bool" where
  "below r P \<longleftrightarrow> (\<forall>k. r = Some (Inr (Some k)) \<longrightarrow> P k)"

lemma dyadic_case_Some:
  assumes "dyadic_case yes no = Some (Inr (Some k))"
  shows "if k then yes = Some (Inr True) else no = Some (Inr True)"
  using assms by (auto simp: dyadic_case_def ifO_cases)

lemma is_fun_True: "is_fun f g b = Some (Inr True) \<longleftrightarrow> f = g \<and> b = Some (Inr True)"
  by (auto simp: is_fun_def)

lemma smaller_value:
  fixes E :: "'f tenv"
  assumes c: "consistent E H \<rho>" and g: "good E \<rho> n [iarr [] [w]]" and ga: "good E \<rho> arg [iarr [] [a]]"
    and m: "matchesDyadicWithGivenArg E H n arg = Some (Inr (Some (f, y, left)))"
  shows "orO (is_fun f F_min_SxS (retO True)) (orO (is_fun f F_add_SxS (SCSisNegative E H y))
            (is_fun f F_sub_SxS (andO (SCSisNonNegative E H y) (retO left)))) = Some (Inr True) \<Longrightarrow> w \<le> a"
    and "is_fun f F_add_SxS (SCSisPositive E H y) = Some (Inr True) \<Longrightarrow> a < w"
    and "orO (is_fun f F_max_SxS (retO True)) (is_fun f F_add_SxS (SCSisNonNegative E H y)) = Some (Inr True) \<Longrightarrow> a \<le> w"
    and "orO (is_fun f F_add_SxS (SCSisNegative E H y)) (is_fun f F_sub_SxS (andO (SCSisPositive E H y) (retO left))) = Some (Inr True) \<Longrightarrow> w < a"
proof -
  have d: "\<exists>b. w = (if left then iop op a b else iop op b a) \<and> (SCSisNonNegative E H y = Some (Inr True) \<longrightarrow> 0 \<le> b)
      \<and> (SCSisNegative E H y = Some (Inr True) \<longrightarrow> b < 0) \<and> (SCSisPositive E H y = Some (Inr True) \<longrightarrow> 0 < b)"
    if "f = F_bin op SxS" "op \<notin> rel_ops" for op
    using dyadic_given [OF c g ga m [unfolded that(1)] that(2)] sign_tests [OF c] by metis
  show "orO (is_fun f F_min_SxS (retO True)) (orO (is_fun f F_add_SxS (SCSisNegative E H y))
            (is_fun f F_sub_SxS (andO (SCSisNonNegative E H y) (retO left)))) = Some (Inr True) \<Longrightarrow> w \<le> a"
    using d [of P_min] d [of P_add] d [of P_sub] by (auto simp: orO_True andO_True is_fun_True rel_ops_def split: if_splits)
  show "is_fun f F_add_SxS (SCSisPositive E H y) = Some (Inr True) \<Longrightarrow> a < w"
    using d [of P_add] by (auto simp: orO_True andO_True is_fun_True rel_ops_def split: if_splits)
  show "orO (is_fun f F_max_SxS (retO True)) (is_fun f F_add_SxS (SCSisNonNegative E H y)) = Some (Inr True) \<Longrightarrow> a \<le> w"
    using d [of P_max] d [of P_add] by (auto simp: orO_True andO_True is_fun_True rel_ops_def split: if_splits)
  show "orO (is_fun f F_add_SxS (SCSisNegative E H y)) (is_fun f F_sub_SxS (andO (SCSisPositive E H y) (retO left))) = Some (Inr True) \<Longrightarrow> w < a"
    using d [of P_add] d [of P_sub] by (auto simp: orO_True andO_True is_fun_True rel_ops_def split: if_splits)
qed

lemma canOptLE_value:
  fixes E :: "'f tenv"
  assumes c: "consistent E H \<rho>" and g: "good E \<rho> n1 [iarr [] [a]]" "good E \<rho> n2 [iarr [] [b]]"
    and r: "canOptLEOnDyadicFn E H n1 n2 = Some (Inr (Some k))"
  shows "(a \<le> b) = k"
proof -
  obtain o1 where o1: "matchesDyadicWithGivenArg E H n1 n2 = Some (Inr o1)" using r by (auto simp: canOptLEOnDyadicFn_def bindOO_Some_Inr)
  show ?thesis
  proof (cases o1)
    case (Some z)
    obtain f y l where z: "z = (f, y, l)" by (cases z)
    show ?thesis
      using r o1 Some z smaller_value [OF c g(1,2), of f y l]
      by (auto simp: canOptLEOnDyadicFn_def bindOO_def dest!: dyadic_case_Some split: if_splits)
  next
    case None
    then obtain f y l where m: "matchesDyadicWithGivenArg E H n2 n1 = Some (Inr (Some (f, y, l)))"
      using r o1 by (auto simp: canOptLEOnDyadicFn_def bindOO_Some_Inr split: option.splits)
    show ?thesis
      using r o1 None m smaller_value [OF c g(2,1), of f y l]
      by (auto simp: canOptLEOnDyadicFn_def bindOO_def dest!: dyadic_case_Some split: if_splits)
  qed
qed

lemma canOptGE_value:
  fixes E :: "'f tenv"
  assumes c: "consistent E H \<rho>" and g: "good E \<rho> n1 [iarr [] [a]]" "good E \<rho> n2 [iarr [] [b]]"
    and r: "SCScanOptGEOnDyadicFn E H n1 n2 = Some (Inr (Some k))"
  shows "(b \<le> a) = k"
proof -
  obtain o1 where o1: "matchesDyadicWithGivenArg E H n1 n2 = Some (Inr o1)" using r by (auto simp: SCScanOptGEOnDyadicFn_def bindOO_Some_Inr)
  show ?thesis
  proof (cases o1)
    case (Some z)
    obtain f y l where z: "z = (f, y, l)" by (cases z)
    show ?thesis
      using r o1 Some z smaller_value [OF c g(1,2), of f y l]
      by (auto simp: SCScanOptGEOnDyadicFn_def bindOO_def dest!: dyadic_case_Some split: if_splits)
  next
    case None
    then obtain f y l where m: "matchesDyadicWithGivenArg E H n2 n1 = Some (Inr (Some (f, y, l)))"
      using r o1 by (auto simp: SCScanOptGEOnDyadicFn_def bindOO_Some_Inr split: option.splits)
    show ?thesis
      using r o1 None m smaller_value [OF c g(2,1), of f y l]
      by (auto simp: SCScanOptGEOnDyadicFn_def bindOO_def dest!: dyadic_case_Some split: if_splits)
  qed
qed

end
