(* ===== verification/SCS_Sound_Bin.thy ===== *)
theory SCS_Sound_Bin
  imports SCS_Sound_Dyadic
begin

text \<open>
  The comparisons of \<open>SCSprf_lege\<close> and \<open>SCSprf_nlege\<close>, maximum and minimum, and the theorem for
  the binary primitives.
\<close>

subsection \<open>Comparisons by order\<close>

lemma family_can_Some:
  assumes "family_can p f g x y = Some (Inr (Some b))"
  obtains "TULSgetPrfFamilyName p = f" and "x = Some (Inr (Some b))" | "p = g" and "y = Some (Inr (Some b))"
  using assms by (auto simp: family_can_def elseO_Some split: if_splits)

lemma make_decided_Some:
  assumes "make_decided E H n can = Some (Inr (Some m))"
  obtains k where "can = Some (Inr (Some k))"
    and "if k then SCSmakeTrue E H n = Some (Inr (Some m)) else SCSmakeFalse E H n = Some (Inr (Some m))"
proof -
  obtain z where "can = Some (Inr z)" "(case z of None \<Rightarrow> retO None | Some b \<Rightarrow> if b then SCSmakeTrue E H n else SCSmakeFalse E H n) = Some (Inr (Some m))"
    using assms unfolding make_decided_def bindOO_Some_Inr by blast
  then show ?thesis by (cases z) (simp_all add: that split: if_splits)
qed

lemma can_negated:
  "canOptGTOnDyadicFn E H x y = Some (Inr (Some k)) \<longleftrightarrow> canOptLEOnDyadicFn E H x y = Some (Inr (Some (\<not> k)))"
  "canOptLTOnDyadicFn E H x y = Some (Inr (Some k)) \<longleftrightarrow> SCScanOptGEOnDyadicFn E H x y = Some (Inr (Some (\<not> k)))"
  by (auto simp: canOptGTOnDyadicFn_def canOptLTOnDyadicFn_def bindO_Some_Inr)

lemma scalar_app:
  assumes "int_app E H \<rho> op SxS e1 e2 xs as ys bs w"
  obtains a b where "xs = []" and "ys = []" and "as = [a]" and "bs = [b]"
  using int_appD(8) [OF assms] by (auto simp: length_Suc_conv)

lemma decided_scalar:
  assumes a: "int_app E H \<rho> op SxS e1 e2 xs as ys bs w" and op: "op \<in> {P_le, P_ge, P_lt, P_gt}"
    and "family_can (F_bin op SxS) f g x y = Some (Inr (Some k))"
    and "(f, g, x, y) = (F_ge_SxS, F_le_SxS, SCScanOptGEOnDyadicFn E H e1 e2, canOptLEOnDyadicFn E H e1 e2)
      \<or> (f, g, x, y) = (F_lt_SxS, F_gt_SxS, canOptLTOnDyadicFn E H e1 e2, canOptGTOnDyadicFn E H e1 e2)"
    and p: "(c, d) \<in> set (zip_pairs xs ys as bs)"
  shows "irel op c d = k"
proof -
  obtain s t where s: "xs = []" "ys = []" "as = [s]" "bs = [t]" using scalar_app [OF a] .
  have g: "good E \<rho> e1 [iarr [] [s]]" "good E \<rho> e2 [iarr [] [t]]" using int_appD(4,5) [OF a] s by simp_all
  note le = canOptLE_value [OF int_appD(1) [OF a] g] and ge = canOptGE_value [OF int_appD(1) [OF a] g]
  have fam: "TULSgetPrfFamilyName (F_bin op SxS) = F_bin op SxS" by (simp add: TULSgetPrfFamilyName_def)
  have "c = s \<and> d = t" using p s by (simp add: zip_pairs_def)
  moreover have "irel op s t = k"
  proof (rule family_can_Some [OF assms(3)])
    assume "TULSgetPrfFamilyName (F_bin op SxS) = f" "x = Some (Inr (Some k))"
    then have "op = P_ge \<and> SCScanOptGEOnDyadicFn E H e1 e2 = Some (Inr (Some k)) \<or> op = P_lt \<and> SCScanOptGEOnDyadicFn E H e1 e2 = Some (Inr (Some (\<not> k)))"
      using assms(4) fam by (auto simp: can_negated [symmetric])
    then show ?thesis using ge [of k] ge [of "\<not> k"] by auto
  next
    assume "F_bin op SxS = g" "y = Some (Inr (Some k))"
    then have "op = P_le \<and> canOptLEOnDyadicFn E H e1 e2 = Some (Inr (Some k)) \<or> op = P_gt \<and> canOptLEOnDyadicFn E H e1 e2 = Some (Inr (Some (\<not> k)))"
      using assms(4) by (auto simp: can_negated [symmetric])
    then show ?thesis using le [of k] le [of "\<not> k"] by auto
  qed
  ultimately show ?thesis by simp
qed

lemma rel_by_bounds:
  assumes a: "int_app E H \<rho> op v e1 e2 xs as ys bs w" and op: "op \<in> {P_lt, P_le, P_ge, P_gt}" and v: "v \<in> {SxS, VxV}"
    and r: "SAACFonRelationalsWithExtrema E H d e1 e2 (F_bin op v) = Some (Inr (Some m))"
  shows "good E \<rho> m [w]"
proof -
  obtain k where k: "all_pairs (\<lambda>a b. irel op a b = k) xs ys as bs" "made E H e1 e2 k m"
    using onRelationals_value [OF int_appD(1-7) [OF a] op r] .
  have o: "op \<in> rel_ops" using op by (auto simp: rel_ops_def)
  have p: "\<And>c d. (c, d) \<in> set (zip_pairs xs ys as bs) \<Longrightarrow> irel op c d = k" using k(1) by (auto simp: all_pairs_def)
  have "v \<noteq> SxV" "v \<noteq> VxS" using v by auto
  then show ?thesis
    using rel_made_left [OF a o _ p, of m] rel_made_right [OF a o _ p, of m] k(2) unfolding made_def by (cases k) auto
qed

text \<open>
  The comparisons of vectors with \<open>>=\<close> and \<open><\<close> are left out: they go through \<open>SCSisPositive\<close>, which
  is not right for vectors.
\<close>

lemma family_can_vector:
  assumes "op \<in> {P_le, P_gt}"
  shows "family_can (F_bin op VxV) F_ge_SxS F_le_SxS x y = retO None" and "family_can (F_bin op VxV) F_lt_SxS F_gt_SxS x y = retO None"
  using assms by (auto simp: family_can_def TULSgetPrfFamilyName_def elseO_def bindOO_def)

lemma lege_sound:
  assumes a: "int_app E H \<rho> op v e1 e2 xs as ys bs w" and op: "op \<in> {P_le, P_ge}" and v: "v = SxS \<or> v = VxV \<and> op = P_le"
    and r: "SCSprf_lege E H d (N_prf n (F_bin op v) k [e1, e2]) = Some (Inr (Some m))"
  shows "good E \<rho> m [w]"
proof -
  let ?n = "N_prf n (F_bin op v) k [e1, e2]"
  let ?can = "family_can (F_bin op v) F_ge_SxS F_le_SxS (SCScanOptGEOnDyadicFn E H e1 e2) (canOptLEOnDyadicFn E H e1 e2)"
  have vs: "v \<in> {SxS, VxV}" "v \<noteq> SxV" using v by auto
  consider (same) "SCSisMatchPrfargs E H ?n = Some (Inr True)" "SCSmakeTrue E H e1 = Some (Inr (Some m))"
    | (can) "make_decided E H e1 ?can = Some (Inr (Some m))"
    | (bounds) "SAACFonRelationalsWithExtrema E H d e1 e2 (F_bin op v) = Some (Inr (Some m))"
    using r by (auto simp: SCSprf_lege_def bindRO_Some_Inr elseO_Some cases_of)
  then show ?thesis
  proof cases
    case same
    show ?thesis by (rule rel_equal(1) [OF a same(1) vs(2) _ same(2)]) (use op in auto)
  next
    case can
    obtain b where b: "?can = Some (Inr (Some b))"
        "if b then SCSmakeTrue E H e1 = Some (Inr (Some m)) else SCSmakeFalse E H e1 = Some (Inr (Some m))"
      using make_decided_Some [OF can] .
    then have "v = SxS" using v family_can_vector(1) [of op] by auto
    note a = a [unfolded this] and b = b [unfolded this]
    show ?thesis
      by (rule rel_made_left [OF a _ _ decided_scalar [OF a _ b(1)] b(2)]) (use op in \<open>auto simp: rel_ops_def\<close>)
  next
    case bounds
    show ?thesis by (rule rel_by_bounds [OF a _ vs(1) bounds]) (use op in auto)
  qed
qed

lemma nlege_sound:
  assumes a: "int_app E H \<rho> op v e1 e2 xs as ys bs w" and op: "op \<in> {P_lt, P_gt}" and v: "v = SxS \<or> v = VxV \<and> op = P_gt"
    and r: "SCSprf_nlege E H (N_prf n (F_bin op v) k [e1, e2]) = Some (Inr (Some m))"
  shows "good E \<rho> m [w]"
proof -
  let ?n = "N_prf n (F_bin op v) k [e1, e2]"
  let ?can = "family_can (F_bin op v) F_lt_SxS F_gt_SxS (canOptLTOnDyadicFn E H e1 e2) (canOptGTOnDyadicFn E H e1 e2)"
  have vs: "v \<noteq> SxV" using v by auto
  consider (same) "SCSisMatchPrfargs E H ?n = Some (Inr True)" "SCSmakeFalse E H e1 = Some (Inr (Some m))"
    | (can) "make_decided E H e1 ?can = Some (Inr (Some m))"
    using r by (auto simp: SCSprf_nlege_def bindRO_Some_Inr cases_of)
  then show ?thesis
  proof cases
    case same
    show ?thesis by (rule rel_equal(2) [OF a same(1) vs _ same(2)]) (use op in auto)
  next
    case can
    obtain b where b: "?can = Some (Inr (Some b))"
        "if b then SCSmakeTrue E H e1 = Some (Inr (Some m)) else SCSmakeFalse E H e1 = Some (Inr (Some m))"
      using make_decided_Some [OF can] .
    then have "v = SxS" using v family_can_vector(2) [of op] by auto
    note a = a [unfolded this] and b = b [unfolded this]
    show ?thesis
      by (rule rel_made_left [OF a _ _ decided_scalar [OF a _ b(1)] b(2)]) (use op in \<open>auto simp: rel_ops_def\<close>)
  qed
qed

subsection \<open>The truth value of a comparison, read back\<close>

lemma make_scalar_truth:
  fixes E :: "'f tenv"
  assumes t: "typed E H n (con s [] es)"
  shows "SCSmakeTrue E H n = Some (Inr (Some m)) \<Longrightarrow> m = N_lit None (BOOL True)"
    and "SCSmakeFalse E H n = Some (Inr (Some m)) \<Longrightarrow> m = N_lit None (BOOL False)"
proof -
  have c: "COmakeTrue (te_fops E) (sh []) = Inr (Some (con T_bool [] [CBool True]))"
      "COmakeFalse (te_fops E) (sh []) = Inr (Some (con T_bool [] [CBool False]))"
    by (simp_all add: COmakeTrue_def COmakeOne_def COmakeFalse_def COmakeZero_def base_cell_def CObaseCv_con [of "[]" _ BOne T_bool "CBool True"]
        CObaseCv_con [of "[]" _ BZero T_bool "CBool False"])
  have l: "COconstant2AST (con T_bool [] [CBool b] :: 'f const) = Inr m \<Longrightarrow> m = N_lit None (BOOL b)" for b
    by (simp add: COconstant2AST_def COgetDim_def con_def sh_def CONSTANT_DIM_def SHgetDim_def cv2scalar_def rd_as_def rd_def full_def check_def)
  show "m = N_lit None (BOOL True)" if m: "SCSmakeTrue E H n = Some (Inr (Some m))"
    using make_const_found [OF m [unfolded SCSmakeTrue_def] t] c(1) l [of True] by auto
  show "m = N_lit None (BOOL False)" if m: "SCSmakeFalse E H n = Some (Inr (Some m))"
    using make_const_found [OF m [unfolded SCSmakeFalse_def] t] c(2) l [of False] by auto
qed

lemma SCSisConstantOne_truth: "SCSisConstantOne E H (N_lit None (BOOL b)) = Some (Inr b)"
proof -
  have c: "COisOne (te_fops E) (con T_bool [] [CBool b]) True = Inr b"
    using bool_one [of "[]" "[b]" "te_fops E"] barr_con_ok [of "[]" "[b]"] by (simp add: shape_fits_def int_max_def)
  have k: "lit_const (BOOL b) = Inr (Some (con T_bool [] [CBool b]))"
    using lit_const_con [of "BOOL b" T_bool "CBool b"] by simp
  have l: "skipVarDefs H skip_both (N_lit None (BOOL b)) = Some (Inr (N_lit None (BOOL b)))"
    by (subst skipVarDefs.simps) (simp add: PMMflatPrf_def skip_prf_def skip_id_def bindRO_def)
  show ?thesis
    by (simp add: SCSisConstantOne_def match_const_def PMmatch_def l bindRO_def bindOO_def bindO_def COisConstant_def
        COaST2Constant_def k c test_const_def genericAtribMatcher.simps)
qed

subsection \<open>Types computed\<close>

lemma minmax_co:
  fixes F :: "'f fops"
  assumes op: "op \<in> {P_min, P_max}" and ok: "iarr_ok [] [a]" "iarr_ok [] [b]"
  shows "bin_co F op (iarr [] [a]) (iarr [] [b]) = Inr (iarr [] [iop op a b])"
proof -
  have o: "op \<notin> log_ops" "bin_target op = T_unknown" using op by (auto simp: op_classes bin_target_def)
  have k: "con_ok T_int [] [CInt IInt a :: 'f cval]" "con_ok T_int [] [CInt IInt b :: 'f cval]"
    using ok iarr_con_ok [of "[]" "[a]"] iarr_con_ok [of "[]" "[b]"] by simp_all
  have z: "zip_elems F (bin_zop op) [] [] [CInt IInt a] [CInt IInt b] = Inr [CInt IInt (iop op a b)]"
    using op iconv_id [of IInt a] iconv_id [of IInt b] ok
    by (auto simp: zip_elems_def zip_pairs_def zop_elem_def iprom_def min_def max_def iarr_ok_def)
  have s: "zip_shape [] [] = Some []" by (simp add: zip_shape_def)
  show ?thesis
    using COzip_con [OF k supports_int [OF o(1)] bin_zop_binary bin_target_ok [OF supports_int [OF o(1)]] s] o(2) z
    by (simp add: bin_co_zip)
qed

lemma minmax_type:
  fixes E :: "'f tenv"
  assumes a: "int_app E H \<rho> op SxS e1 e2 [] [a] [] [b] w" and op: "op \<in> {P_min, P_max}"
  shows "\<exists>m r. NTCnewTypeCheck_Expr E H (N_prf n (F_bin op SxS) k [e1, e2]) = Some (Inr (NT TC_prod m [r])) \<and> types r w"
proof -
  note d = int_appD [OF a]
  let ?info = "TEmakeInfoPrf 0 ''file'' TE_prf ''prf'' (F_bin op SxS) 1"
  let ?cs = "[iarr [] [a], iarr [] [b]] :: 'f const list"
  have "list_all2 (\<lambda>e c. vals (te_fops E) \<rho> e = Some [c]) [e1, e2] ?cs" "list_all atom [e1, e2]"
    using d(2-5) by (auto simp: good_def)
  from ntc_exprs [OF d(1) this, of 0] obtain ts where ts:
      "NTCexprs E H 0 [e1, e2] None = Some (Inr (NT TC_prod default_meta ts, None))" "list_all2 types ts ?cs" by auto
  obtain rs where rs: "mapR TYeliminateAlpha ts = Inr rs" "list_all2 types rs ?cs" using types_copies [OF ts(2)] by blast
  then obtain t u where t: "rs = [t, u]" "inhab t T_int [] [CInt IInt a]" "inhab u T_int [] [CInt IInt b]"
    by (auto simp: list_all2_Cons2)
  have el: "TYeliminateAlpha (NT TC_prod default_meta ts) = Inr (NT TC_prod default_meta rs)" using rs(1) by simp
  have arr: "TYisProdOfArray (NT TC_prod default_meta rs) = Inr True"
    using all_members_prod [of 0 rs TYisArray "\<lambda>t. True" default_meta] types_array [of t "iarr [] [a]"] types_array [of u "iarr [] [b]"] t
    by (auto simp: TYisProdOfArray_def list_all_iff)
  have args: "bin_args E ?info op SxS t u T_int [] [CInt IInt a] [] [CInt IInt b]"
    using t op supports_int [of op]
    by (auto simp: bin_args_def bin_types_def op_classes num_types_def TEmakeInfoPrf_def TEgetPrf_def)
  have sound: "bin_sound (prf_ntc_funtab (F_bin op SxS)) op SxS" by (rule bin_ntc_sound) simp
  have run: "bin_co (te_fops E) op (con T_int [] [CInt IInt a]) (con T_int [] [CInt IInt b]) = Inr (iarr [] [iop op a b])"
    using minmax_co [OF op] d(6,7) by simp
  have w: "w = iarr [] [iop op a b]" using d(9) op by (auto simp: pointwise_of_def zip_pairs_def out_shape_def op_classes)
  obtain r where r: "prf_ntc_funtab (F_bin op SxS) E ?info (NT TC_prod default_meta [t, u]) None = Some (Inr (NT TC_prod default_meta [r], None))"
      "types r w"
    using sound [unfolded bin_sound_def, rule_format, OF args run, of default_meta] w by (auto simp: returns_def)
  have "NTCtype E H (N_prf n (F_bin op SxS) k [e1, e2]) None = Some (Inr (NT TC_prod default_meta [r], None))"
    using ts(1) el arr r(1) t(1) by (simp add: run_bind_None NTCCTcomputeType_def TEone_def)
  moreover obtain r' where "TYfixAndEliminateAlpha r = Inr r'" "types r' w"
    using r(2) inhab_fix by (auto simp: types_def) blast
  ultimately show ?thesis by (auto simp: NTCnewTypeCheck_Expr_def bindO_def)
qed

text \<open>The constant of a constant type.\<close>

lemma folded_type_value:
  fixes E :: "'f tenv"
  assumes a: "int_app E H \<rho> op SxS e1 e2 [] [a] [] [b] w" and op: "op \<in> {P_min, P_max}"
    and r: "folded_type E H (N_prf n (F_bin op SxS) k [e1, e2]) = Some (Inr (Some m))"
  shows "good E \<rho> m [w]"
proof -
  obtain x t where t: "NTCnewTypeCheck_Expr E H (N_prf n (F_bin op SxS) k [e1, e2]) = Some (Inr (NT TC_prod x [t]))" "types t w"
    using minmax_type [OF a op, of n k] by blast
  have w: "w = iarr [] [iop op a b]" using int_appD(9) [OF a] op by (auto simp: pointwise_of_def zip_pairs_def out_shape_def op_classes)
  have i: "inhab t T_int [] [CInt IInt (iop op a b)]" using t(2) w by simp
  have f: "TYisAKV t = Inr True" "CFcreateConstExprsFromType t = Inr m"
    using r t(1) by (auto simp: folded_type_def bindO_Some_Inr ifR_runs bindR_Inr_iff TYgetProductMember_def split: if_splits)
  have "COconstant2AST (con T_int [] [CInt IInt (iop op a b)]) = Inr m"
    by (rule inhab_form [OF i]) (use f in \<open>simp_all add: test_defs TYgetValue_def\<close>)
  then show ?thesis
    using COconstant2AST_value [OF inhab_ok [OF i], of E \<rho>] w by (auto simp: int_max_def)
qed

subsection \<open>Sums with one of the arguments\<close>

lemma attr_keeps:
  "genericAtribMatcher E H [PMAisPrf q] n b = Some (Inr (z, b1)) \<Longrightarrow> b1 = b"
  "genericAtribMatcher E H [PMAisVar x] n b = Some (Inr (z, b1)) \<Longrightarrow> b1 = b"
  "genericAtribMatcher E H [PMAgetNode x] n b = Some (Inr (z, b1)) \<Longrightarrow> b1 = set_node x n b"
  by (auto simp: genericAtribMatcher.simps runs split: if_splits)

lemma var_keeps:
  assumes "pat_match E H mode (PMvar [a] []) stack b = Some (Inr (s, b1))" and "a = PMAisVar x \<or> a = PMAgetNode y" and "u \<noteq> y"
  shows "bound_node u b1 = bound_node u b"
  using assms
  by (auto simp: genericPatternMatcher_def follow_defs_def bindOO_Some_Inr split: list.splits if_splits dest!: attr_keeps)

lemma sub_keeps:
  assumes "genericSubPatternMatcher E H mode [PMvar [PMAisVar x] [], PMvar [PMAgetNode y] []] es b = Some (Inr (z, b1))" and "x \<noteq> y"
  shows "bound_node x b1 = bound_node x b"
proof -
  obtain s b2 where 1: "pat_match E H mode (PMvar [PMAisVar x] []) es b = Some (Inr (s, b2))"
    and 2: "(case s of None \<Rightarrow> Some (Inr (False, b2))
        | Some s \<Rightarrow> genericSubPatternMatcher E H mode [PMvar [PMAgetNode y] []] s b2) = Some (Inr (z, b1))"
    using assms(1) unfolding genericSubPatternMatcher.simps(2) bindOO_Some_Inr by auto
  note k = var_keeps [OF 1 _ assms(2), of x]
  show ?thesis
  proof (cases s)
    case (Some s')
    then obtain s2 b3 where 3: "pat_match E H mode (PMvar [PMAgetNode y] []) s' b2 = Some (Inr (s2, b3))"
        "(case s2 of None \<Rightarrow> Some (Inr (False, b3)) | Some s \<Rightarrow> Some (Inr (s = [], b3))) = Some (Inr (z, b1))"
      using 2 Some by (auto simp: bindOO_Some_Inr genericSubPatternMatcher.simps simp del: pat_match.simps split: option.splits)
    then have "b1 = b3" by (auto split: option.splits)
    with var_keeps [OF 3(1) _ assms(2), of x] k show ?thesis by simp
  qed (use 2 k in simp)
qed

lemma sum_keeps:
  assumes "PMmatch E H mode (PMprf [PMAisPrf q] [PMvar [PMAisVar x] [], PMvar [PMAgetNode y] []]) n b = Some (Inr (z, b1))" and "x \<noteq> y"
  shows "bound_node x b1 = bound_node x b"
  using assms
  by (auto simp: PMmatch_def genericPatternMatcher_def follow_defs_def bindOO_Some_Inr bindO_Some_Inr
      simp del: genericSubPatternMatcher.simps split: if_splits dest!: attr_keeps dest: sub_keeps)

lemma sum_run:
  assumes "isVal1IsSumOfVal2 E H arg1 arg2 signum = Some (Inr True)"
  obtains a k es i j where "skipVarDefs H PMMflat arg2 = Some (Inr (N_prf a F_add_SxS k es))" and "arg1 = N_id i"
    and "es = [N_id i, N_id j] \<or> es = [N_id j, N_id i]"
    and "if signum then SCSisNonNegative E H (N_id j) = Some (Inr True) else SCSisNegative E H (N_id j) = Some (Inr True)"
proof -
  let ?p1 = "PMprf [PMAisPrf F_add_SxS] [PMvar [PMAisVar ''arg1''] [], PMvar [PMAgetNode ''v2''] []]"
  let ?p2 = "PMprf [PMAisPrf F_add_SxS] [PMvar [PMAgetNode ''v2''] [], PMvar [PMAisVar ''arg1''] []]"
  obtain z1 b1 z2 b2 where 1: "PMmatch E H PMMflat ?p1 arg2 (set_node ''arg1'' arg1 no_binds) = Some (Inr (z1, b1))"
    and 2: "(if z1 then retO (z1, b1) else PMmatch E H PMMflat ?p2 arg2 b1) = Some (Inr (z2, b2))"
    and 3: "(if \<not> z2 then retO False else bindRO (bound_node ''v2'' b2) (\<lambda>v2.
              if signum then SCSisNonNegative E H v2 else SCSisNegative E H v2)) = Some (Inr True)"
    using assms [unfolded isVal1IsSumOfVal2_def Let_def PMmatchFlat_def] by (auto simp: ifO_cases bindOO_Some_Inr simp del: if_split)
  obtain v where v: "z2" "bound_node ''v2'' b2 = Inr v" "(if signum then SCSisNonNegative E H v else SCSisNegative E H v) = Some (Inr True)"
    using 3 by (cases z2) (auto simp: bindRO_Some_Inr)
  have sign: "if signum then SCSisNonNegative E H v = Some (Inr True) else SCSisNegative E H v = Some (Inr True)"
    using v(3) by (cases signum) simp_all
  have "\<exists>p b. (p = ?p1 \<or> p = ?p2) \<and> bound_node ''arg1'' b = Inr arg1 \<and> PMmatch E H PMMflat p arg2 b = Some (Inr (True, b2))"
  proof (cases z1)
    case True
    then have "PMmatch E H PMMflat ?p1 arg2 (set_node ''arg1'' arg1 no_binds) = Some (Inr (True, b2))" using 1 2 by simp
    then show ?thesis by (intro exI [of _ ?p1] exI [of _ "set_node ''arg1'' arg1 no_binds"]) simp
  next
    case False
    then have "PMmatch E H PMMflat ?p2 arg2 b1 = Some (Inr (True, b2))" using 2 v(1) by simp
    then show ?thesis using sum_keeps [OF 1] by (intro exI [of _ ?p2] exI [of _ b1]) simp
  qed
  then obtain p b where p: "p = ?p1 \<or> p = ?p2" "bound_node ''arg1'' b = Inr arg1" "PMmatch E H PMMflat p arg2 b = Some (Inr (True, b2))"
    by (elim exE conjE)
  show ?thesis
  proof (rule disjE [OF p(1)])
    assume "p = ?p1"
    then have 1: "PMmatch E H PMMflat ?p1 arg2 b = Some (Inr (True, b2))" using p(3) by simp
    obtain a q k es b3 where m: "skipVarDefs H PMMflat arg2 = Some (Inr (N_prf a q k es))"
        "genericAtribMatcher E H [PMAisPrf F_add_SxS] (N_prf a q k es) b = Some (Inr (True, b3))"
        "genericSubPatternMatcher E H PMMflat [PMvar [PMAisVar ''arg1''] [], PMvar [PMAgetNode ''v2''] []] es b3 = Some (Inr (True, b2))"
      using match_prf_run [OF 1] by blast
    then obtain i j where "q = F_add_SxS" "es = [N_id i, N_id j]" "arg1 = N_id i" "v = N_id j" using p(2) v(2) by (auto simp: sub_matches)
    with m(1) sign that show ?thesis by blast
  next
    assume "p = ?p2"
    then have 2: "PMmatch E H PMMflat ?p2 arg2 b = Some (Inr (True, b2))" using p(3) by simp
    obtain a q k es b3 where m: "skipVarDefs H PMMflat arg2 = Some (Inr (N_prf a q k es))"
        "genericAtribMatcher E H [PMAisPrf F_add_SxS] (N_prf a q k es) b = Some (Inr (True, b3))"
        "genericSubPatternMatcher E H PMMflat [PMvar [PMAgetNode ''v2''] [], PMvar [PMAisVar ''arg1''] []] es b3 = Some (Inr (True, b2))"
      using match_prf_run [OF 2] by blast
    then obtain i j where "q = F_add_SxS" "es = [N_id j, N_id i]" "arg1 = N_id i" "v = N_id j" using p(2) v(2) by (auto simp: sub_matches)
    with m(1) sign that show ?thesis by blast
  qed
qed

lemma sum_value:
  fixes E :: "'f tenv"
  assumes c: "consistent E H \<rho>" and g: "good E \<rho> arg1 [iarr [] [a]]" "good E \<rho> arg2 [iarr [] [b]]"
    and r: "isVal1IsSumOfVal2 E H arg1 arg2 signum = Some (Inr True)"
  shows "if signum then a \<le> b else b < a"
proof -
  obtain d k es i j where s: "skipVarDefs H PMMflat arg2 = Some (Inr (N_prf d F_add_SxS k es))" "arg1 = N_id i"
      "es = [N_id i, N_id j] \<or> es = [N_id j, N_id i]"
      "if signum then SCSisNonNegative E H (N_id j) = Some (Inr True) else SCSisNegative E H (N_id j) = Some (Inr True)"
    using sum_run [OF r] .
  have i: "var \<rho> i = iarr [] [a]" using g(1) s(2) by simp
  note f = prf_found_value [OF c g(2) s(1)]
  obtain d where d: "var \<rho> j = iarr [] [d]" "b = a + d"
  proof (rule disjE [OF s(3)])
    assume "es = [N_id i, N_id j]"
    with f have "good E \<rho> (N_prf d F_add_SxS k [N_id i, N_id j]) [iarr [] [b]]" by simp
    then show thesis by (rule scalar_prf [OF c]) (use that i in auto)
  next
    assume "es = [N_id j, N_id i]"
    with f have "good E \<rho> (N_prf d F_add_SxS k [N_id j, N_id i]) [iarr [] [b]]" by simp
    then show thesis by (rule scalar_prf [OF c]) (use that i in auto)
  qed
  have "good E \<rho> (N_id j) [iarr [] [d]]" using d(1) by simp
  from sign_tests [OF c this co_value_int [OF c d(1)]] s(4) d(2) show ?thesis by (auto split: if_splits)
qed

subsection \<open>Maximum and minimum\<close>

lemma bound_is_id:
  assumes "bound_is m n = Inr True"
  obtains u where "m = Some (N_id u)" and "n = N_id u"
  using assms by (auto simp: bound_is_def bindR_Inr_iff elim!: ID_AVIS.elims split: option.splits)

text \<open>Which of the arguments is the result.\<close>

definition picks :: "bin_op \<Rightarrow> bool \<Rightarrow> int \<Rightarrow> int \<Rightarrow> bool" where
  "picks op left a b \<longleftrightarrow> (if left = (op = P_max) then b \<le> a else a \<le> b)"

lemma picked:
  fixes E :: "'f tenv"
  assumes a: "int_app E H \<rho> op SxS e1 e2 [] [a] [] [b] w" and op: "op \<in> {P_min, P_max}"
  shows "picks op True a b \<Longrightarrow> good E \<rho> (DUPdoDupNode e1) [w]" and "picks op False a b \<Longrightarrow> good E \<rho> (DUPdoDupNode e2) [w]"
  using keep_left [OF a] keep_right [OF a] op by (auto simp: picks_def split: if_splits)

lemma decided_by_value:
  fixes E :: "'f tenv"
  assumes a: "int_app E H \<rho> op SxS e1 e2 [] [a] [] [b] w" and op: "op \<in> {P_min, P_max}"
    and r: "decided_by E H d (if op = P_max then F_ge_SxS else F_le_SxS) e1 e2 = Some (Inr (Some m))"
  shows "good E \<rho> m [w]"
proof -
  let ?rel = "if op = P_max then P_ge else P_le"
  note t = int_appD [OF a]
  obtain r1 where r1: "SAACFonRelationalsWithExtrema E H d e1 e2 (F_bin ?rel SxS) = Some (Inr (Some r1))"
      "ifO (SCSisConstantOne E H r1) (dup_of e1) (dup_of e2) = Some (Inr (Some m))"
    using r by (auto simp: decided_by_def bindOO_Some_Inr split: option.splits if_splits)
  obtain k where k: "all_pairs (\<lambda>a b. irel ?rel a b = k) [] [] [a] [b]" "made E H e1 e2 k r1"
    by (rule onRelationals_value [OF t(1-7) _ r1(1)]) auto
  have i: "irel ?rel a b = k" using k(1) by (simp add: all_pairs_def zip_pairs_def)
  have ty: "typed E H e1 (con T_int [] [CInt IInt a])" "typed E H e2 (con T_int [] [CInt IInt b])"
    using typed_good [OF t(1,2)] typed_good [OF t(1,3)] t(4,5) by simp_all
  have "r1 = N_lit None (BOOL k)"
    using k(2) make_scalar_truth [OF ty(1), of r1] make_scalar_truth [OF ty(2), of r1] by (cases k) (auto simp: made_def)
  then have "m = DUPdoDupNode (if k then e1 else e2)" using r1(2) by (auto simp: SCSisConstantOne_truth ifO_cases)
  moreover have "picks op k a b" using i op by (auto simp: picks_def split: if_splits)
  ultimately show ?thesis using picked [OF a op] by (cases k) simp_all
qed

lemma opt_extremum:
  assumes "(if op = P_max then SCScanOptMAXOnDyadicFn E H x y else SCScanOptMINOnDyadicFn E H x y) = Some (Inr (Some left))"
  obtains z f where "\<not> left" and "matchesDyadicWithGivenArg E H x y = Some (Inr (Some (F_bin (if op = P_max then P_min else P_max) SxS, z, f)))"
  | z f where "left" and "matchesDyadicWithGivenArg E H y x = Some (Inr (Some (F_bin (if op = P_max then P_min else P_max) SxS, z, f)))"
proof -
  let ?q = "F_bin (if op = P_max then P_min else P_max) SxS"
  have "bindOO (matchesDyadicWithGivenArg E H x y) (\<lambda>m. case m of
       Some (f, y, is_left) \<Rightarrow> retO (if f = ?q then Some False else None)
     | None \<Rightarrow>
     bindO (matchesDyadicWithGivenArg E H y x) (\<lambda>m. case m of
       Some (f, y, is_left) \<Rightarrow> Inr (if f = ?q then Some True else None)
     | None \<Rightarrow> Inr None)) = Some (Inr (Some left))"
    using assms by (cases "op = P_max") (simp_all add: SCScanOptMAXOnDyadicFn_def SCScanOptMINOnDyadicFn_def)
  then obtain o1 where o1: "matchesDyadicWithGivenArg E H x y = Some (Inr o1)" "(case o1 of
       Some (f, y, is_left) \<Rightarrow> retO (if f = ?q then Some False else None)
     | None \<Rightarrow>
     bindO (matchesDyadicWithGivenArg E H y x) (\<lambda>m. case m of
       Some (f, y, is_left) \<Rightarrow> Inr (if f = ?q then Some True else None)
     | None \<Rightarrow> Inr None)) = Some (Inr (Some left))" unfolding bindOO_Some_Inr by blast
  show ?thesis
  proof (cases o1)
    case (Some m)
    obtain g z f where m: "m = (g, z, f)" by (cases m)
    have "g = ?q \<and> \<not> left" using o1(2) Some m by (simp split: if_splits)
    then show ?thesis using that(1) o1(1) Some m by blast
  next
    case None
    then obtain o2 where o2: "matchesDyadicWithGivenArg E H y x = Some (Inr o2)"
        "(case o2 of Some (f, y, is_left) \<Rightarrow> Inr (if f = ?q then Some True else None) | None \<Rightarrow> Inr None) = (Inr (Some left) :: bool option cres)"
      using o1(2) by (auto simp: bindO_Some_Inr)
    obtain m where m: "o2 = Some m" using o2(2) by (cases o2) auto
    obtain g z f where n: "m = (g, z, f)" by (cases m)
    have "g = ?q \<and> left" using o2(2) m n by (simp split: if_splits)
    then show ?thesis using that(2) o2(1) m n by blast
  qed
qed

lemma choose_by_value:
  fixes E :: "'f tenv"
  assumes a: "int_app E H \<rho> op SxS e1 e2 [] [a] [] [b] w" and op: "op \<in> {P_min, P_max}"
    and r: "choose_by (if op = P_max then SCScanOptMAXOnDyadicFn E H e1 e2 else SCScanOptMINOnDyadicFn E H e1 e2) e1 e2 = Some (Inr (Some m))"
  shows "good E \<rho> m [w]"
proof -
  note t = int_appD [OF a]
  have q: "(if op = P_max then P_min else P_max) \<notin> rel_ops" by simp
  have g: "good E \<rho> e1 [iarr [] [a]]" "good E \<rho> e2 [iarr [] [b]]" using t(4,5) by simp_all
  obtain c where c: "(if op = P_max then SCScanOptMAXOnDyadicFn E H e1 e2 else SCScanOptMINOnDyadicFn E H e1 e2) = Some (Inr c)"
      "(case c of None \<Rightarrow> retO None | Some left \<Rightarrow> if left then dup_of e1 else dup_of e2) = Some (Inr (Some m))"
    using r unfolding choose_by_def bindOO_Some_Inr by blast
  then obtain left where l: "c = Some left" "m = DUPdoDupNode (if left then e1 else e2)" by (cases c) (auto split: if_splits)
  have "picks op left a b"
  proof (rule opt_extremum [OF c(1) [unfolded l(1)]])
    fix y f assume m: "\<not> left" "matchesDyadicWithGivenArg E H e1 e2 = Some (Inr (Some (F_bin (if op = P_max then P_min else P_max) SxS, y, f)))"
    obtain z where "a = (if f then iop (if op = P_max then P_min else P_max) b z else iop (if op = P_max then P_min else P_max) z b)"
      using dyadic_given [OF t(1) g m(2) q] .
    then show ?thesis using m(1) op by (auto simp: picks_def)
  next
    fix y f assume m: "left" "matchesDyadicWithGivenArg E H e2 e1 = Some (Inr (Some (F_bin (if op = P_max then P_min else P_max) SxS, y, f)))"
    obtain z where "b = (if f then iop (if op = P_max then P_min else P_max) a z else iop (if op = P_max then P_min else P_max) z a)"
      using dyadic_given [OF t(1) g(2,1) m(2) q] .
    then show ?thesis using m(1) op by (auto simp: picks_def)
  qed
  then show ?thesis using picked [OF a op] l(2) by (cases left) simp_all
qed

lemma bound_picks:
  fixes E :: "'f tenv"
  assumes c: "consistent E H \<rho>" and g: "good E \<rho> x [iarr [] [a]]" "good E \<rho> y [iarr [] [b]]"
  shows "Some (bindR (avis_of H y) (\<lambda>v. bound_is (AVIS_MIN v) x)) = Some (Inr True) \<Longrightarrow> a \<le> b"
    and "Some (bindR (avis_of H y) (\<lambda>v. bound_is (AVIS_MAX v) x)) = Some (Inr True) \<Longrightarrow> b < a"
proof -
  show "a \<le> b" if m: "Some (bindR (avis_of H y) (\<lambda>v. bound_is (AVIS_MIN v) x)) = Some (Inr True)"
  proof -
    obtain i where i: "y = N_id i" "bound_is (AVIS_MIN (H i)) x = Inr True" using m by (cases y) (auto simp: avis_of_def)
    obtain u where u: "AVIS_MIN (H i) = Some (N_id u)" "x = N_id u" using bound_is_id [OF i(2)] .
    obtain u' where "N_id u = (N_id u' :: 'f node)" "int_rel (\<le>) (var \<rho> u') (var \<rho> i)" using bound_min [OF c u(1)] .
    then show ?thesis using g i(1) u(2) by (auto simp: int_rel_def map_eq_Cons_conv)
  qed
  show "b < a" if m: "Some (bindR (avis_of H y) (\<lambda>v. bound_is (AVIS_MAX v) x)) = Some (Inr True)"
  proof -
    obtain i where i: "y = N_id i" "bound_is (AVIS_MAX (H i)) x = Inr True" using m by (cases y) (auto simp: avis_of_def)
    obtain u where u: "AVIS_MAX (H i) = Some (N_id u)" "x = N_id u" using bound_is_id [OF i(2)] .
    obtain u' where "N_id u = (N_id u' :: 'f node)" "int_rel (<) (var \<rho> i) (var \<rho> u')" using bound_max [OF c u(1)] .
    then show ?thesis using g i(1) u(2) by (auto simp: int_rel_def map_eq_Cons_conv)
  qed
qed

lemma sum_tests:
  fixes E :: "'f tenv"
  assumes c: "consistent E H \<rho>" and g: "good E \<rho> x [iarr [] [a]]" "good E \<rho> y [iarr [] [b]]"
    and r: "orO (isVal1IsSumOfVal2 E H x y True) (isVal1IsSumOfVal2 E H y x False) = Some (Inr True)"
  shows "a \<le> b"
  using r sum_value [OF c g, of True] sum_value [OF c g(2,1), of False] by (auto simp: orO_True)

text \<open>The steps of \<open>SCSprf_max_SxS\<close> and \<open>SCSprf_min_SxS\<close>.\<close>

lemma extremum_cases:
  assumes "(if op = P_max then SCSprf_max_SxS E H d n else SCSprf_min_SxS E H d n) = Some (Inr (Some m))" and n: "n = N_prf x p k [e1, e2]"
  obtains (same) "SCSisMatchPrfargs E H n = Some (Inr True)" and "m = DUPdoDupNode e1"
  | (folded) "folded_type E H n = Some (Inr (Some m))"
  | (bound1) "Some (bindR (avis_of H e2) (\<lambda>v. bound_is ((if op = P_max then AVIS_MIN else AVIS_MAX) v) e1)) = Some (Inr True)" and "m = DUPdoDupNode e2"
  | (bound2) "Some (bindR (avis_of H e1) (\<lambda>v. bound_is ((if op = P_max then AVIS_MIN else AVIS_MAX) v) e2)) = Some (Inr True)" and "m = DUPdoDupNode e1"
  | (decided) "decided_by E H d (if op = P_max then F_ge_SxS else F_le_SxS) e1 e2 = Some (Inr (Some m))"
  | (sum1) "orO (isVal1IsSumOfVal2 E H e1 e2 True) (isVal1IsSumOfVal2 E H e2 e1 False) = Some (Inr True)"
      and "m = DUPdoDupNode (if op = P_max then e2 else e1)"
  | (sum2) "orO (isVal1IsSumOfVal2 E H e2 e1 True) (isVal1IsSumOfVal2 E H e1 e2 False) = Some (Inr True)"
      and "m = DUPdoDupNode (if op = P_max then e1 else e2)"
  | (choose) "choose_by (if op = P_max then SCScanOptMAXOnDyadicFn E H e1 e2 else SCScanOptMINOnDyadicFn E H e1 e2) e1 e2 = Some (Inr (Some m))"
proof (cases "op = P_max")
  case True
  then show ?thesis using assms(1) that unfolding SCSprf_max_SxS_def n by (auto simp: prf_args2_def elseO_Some whenO_Some)
next
  case False
  then show ?thesis using assms(1) that unfolding SCSprf_min_SxS_def n by (auto simp: prf_args2_def elseO_Some whenO_Some)
qed

lemma extremum_sound:
  fixes E :: "'f tenv"
  assumes a: "int_app E H \<rho> op SxS e1 e2 [] [a] [] [b] w" and op: "op \<in> {P_min, P_max}" and n: "n = N_prf x (F_bin op SxS) k [e1, e2]"
    and r: "(if op = P_max then SCSprf_max_SxS E H d n else SCSprf_min_SxS E H d n) = Some (Inr (Some m))"
  shows "good E \<rho> m [w]"
proof -
  have g: "good E \<rho> e1 [iarr [] [a]]" "good E \<rho> e2 [iarr [] [b]]" using int_appD(4,5) [OF a] by simp_all
  note c = int_appD(1) [OF a]
  have p: "good E \<rho> m [w]" if "m = DUPdoDupNode (if left then e1 else e2)" "picks op left a b" for left
    using picked [OF a op] that by (cases left) simp_all
  show ?thesis
  proof (rule extremum_cases [OF r n])
    assume m: "SCSisMatchPrfargs E H n = Some (Inr True)" "m = DUPdoDupNode e1"
    have "a = b" using app_equal [OF a m(1) [unfolded n], of a b] by (simp add: zip_pairs_def)
    then show ?thesis using p [of True] m(2) by (simp add: picks_def)
  next
    assume "folded_type E H n = Some (Inr (Some m))"
    then show ?thesis using folded_type_value [OF a op] n by simp
  next
    assume m: "Some (bindR (avis_of H e2) (\<lambda>v. bound_is ((if op = P_max then AVIS_MIN else AVIS_MAX) v) e1)) = Some (Inr True)" "m = DUPdoDupNode e2"
    show ?thesis using p [of False] m bound_picks [OF c g] op by (auto simp: picks_def)
  next
    assume m: "Some (bindR (avis_of H e1) (\<lambda>v. bound_is ((if op = P_max then AVIS_MIN else AVIS_MAX) v) e2)) = Some (Inr True)" "m = DUPdoDupNode e1"
    show ?thesis using p [of True] m bound_picks [OF c g(2,1)] op by (auto simp: picks_def)
  next
    assume "decided_by E H d (if op = P_max then F_ge_SxS else F_le_SxS) e1 e2 = Some (Inr (Some m))"
    then show ?thesis by (rule decided_by_value [OF a op])
  next
    assume m: "orO (isVal1IsSumOfVal2 E H e1 e2 True) (isVal1IsSumOfVal2 E H e2 e1 False) = Some (Inr True)" "m = DUPdoDupNode (if op = P_max then e2 else e1)"
    show ?thesis using p [of "op \<noteq> P_max"] m sum_tests [OF c g m(1)] op by (auto simp: picks_def)
  next
    assume m: "orO (isVal1IsSumOfVal2 E H e2 e1 True) (isVal1IsSumOfVal2 E H e1 e2 False) = Some (Inr True)" "m = DUPdoDupNode (if op = P_max then e1 else e2)"
    show ?thesis using p [of "op = P_max"] m sum_tests [OF c g(2,1) m(1)] op by (auto simp: picks_def)
  next
    assume "choose_by (if op = P_max then SCScanOptMAXOnDyadicFn E H e1 e2 else SCScanOptMINOnDyadicFn E H e1 e2) e1 e2 = Some (Inr (Some m))"
    then show ?thesis by (rule choose_by_value [OF a op])
  qed
qed

subsection \<open>Binary primitives\<close>

text \<open>
  What is sound: all but the remainder of two scalars, which is replaced even when the comparison is decided to be
  false, and the comparisons \<open>ge\<close>, \<open>lt\<close> and the extrema of two vectors, which take a vector for positive
  because it is neither negative nor zero as a whole.
\<close>

definition scs_covered :: "bin_op \<Rightarrow> vs \<Rightarrow> bool" where
  "scs_covered op v \<longleftrightarrow> \<not> (op = P_mod \<and> v = SxS) \<and> \<not> (v = VxV \<and> op \<in> {P_ge, P_lt, P_min, P_max})"

lemma scs_none:
  "v \<in> {SxV, VxS} \<Longrightarrow> op \<in> {P_le, P_ge, P_lt, P_gt, P_min, P_max} \<Longrightarrow> bin_scs d op v E H n = retO None"
  by (cases v; cases op) (auto simp: SCSprf_none_def)

lemma int_scs_sound:
  fixes E :: "'f tenv"
  assumes a: "int_app E H \<rho> op v e1 e2 xs as ys bs w" and op: "op \<notin> log_ops" and v: "scs_covered op v"
    and r: "bin_scs d op v E H (N_prf n (F_bin op v) k [e1, e2]) = Some (Inr (Some m))"
  shows "good E \<rho> m [w]"
proof -
  consider (ari) "op \<in> {P_add, P_sub, P_mul, P_div}" | (mod) "op = P_aplmod" | (eq) "op \<in> {P_eq, P_neq}"
    | (le) "op \<in> {P_le, P_ge}" | (lt) "op \<in> {P_lt, P_gt}" | (ext) "op \<in> {P_min, P_max}"
    | (rem) "op = P_mod" "v \<noteq> SxS"
    using op v by (cases op) (auto simp: scs_covered_def log_ops_def)
  then show ?thesis
  proof cases
    case ari
    then show ?thesis using ari_sound [OF ari, of E H \<rho> v d] a r unfolding sound_for_def by blast
  next
    case mod
    then show ?thesis using aplmod_sound a r by blast
  next
    case eq
    show ?thesis by (rule eq_sound [OF a eq r])
  next
    case le
    have "v \<in> {SxS, VxV}" using r le scs_none [of v op d E H] by (cases v) auto
    then have vs: "v = SxS \<or> v = VxV \<and> op = P_le" using v le by (auto simp: scs_covered_def)
    then have "SCSprf_lege E H d (N_prf n (F_bin op v) k [e1, e2]) = Some (Inr (Some m))" using r le by auto
    then show ?thesis by (rule lege_sound [OF a le vs])
  next
    case lt
    have "v \<in> {SxS, VxV}" using r lt scs_none [of v op d E H] by (cases v) auto
    then have vs: "v = SxS \<or> v = VxV \<and> op = P_gt" using v lt by (auto simp: scs_covered_def)
    then have "SCSprf_nlege E H (N_prf n (F_bin op v) k [e1, e2]) = Some (Inr (Some m))" using r lt by auto
    then show ?thesis by (rule nlege_sound [OF a lt vs])
  next
    case rem
    then show ?thesis using r by (cases v) (simp_all add: SCSprf_mod_def)
  next
    case ext
    have "v \<in> {SxS, VxV}" using r ext scs_none [of v op d E H] by (cases v) auto
    then have vs: "v = SxS" using v ext by (auto simp: scs_covered_def)
    obtain c e where s: "xs = []" "ys = []" "as = [c]" "bs = [e]" using scalar_app [OF a [unfolded vs]] .
    show ?thesis
      by (rule extremum_sound [OF a [unfolded vs s] ext refl, of d]) (use r ext vs in auto)
  qed
qed

end
