(* ===== verification/SCS_Props.thy ===== *)
theory SCS_Props
  imports CT_Props SCS_Sound_Bin
begin

text \<open>
  The theorems on symbolic constant simplification: what replaces an application has its value, the tests
  for signs and the comparisons of bounds are right; and the places where the code fails to do so.
\<close>

subsection \<open>Examples\<close>

declare skipVarDefs.simps [code] SAACFchaseMinMax.simps [code]

text \<open>
  Integer variables of one shape, whose values are known to the compiler if they are listed with a constant, and that
  may have a definition or a lower bound.
\<close>

definition ex_heap ::
  "int list \<Rightarrow> (nat \<Rightarrow> int list option) \<Rightarrow> (nat \<Rightarrow> int node option) \<Rightarrow> (nat \<Rightarrow> nat option) \<Rightarrow> int heap" where
  "ex_heap xs known rhs low = (\<lambda>v.
     (TBmakeAvis (int_arr (case known v of Some k \<Rightarrow> TC_akv (con T_int xs (map (CInt IInt) k)) | None \<Rightarrow> TC_aks (sh xs))))
       \<lparr>AVIS_SSAASSIGN := map_option (\<lambda>e. ([v], e)) (rhs v), AVIS_MIN := map_option N_id (low v)\<rparr>)"

definition ex_env :: "int list \<Rightarrow> (nat \<Rightarrow> int list) \<Rightarrow> int env" where
  "ex_env xs f = (\<lambda>v. con T_int xs (map (CInt IInt) (f v)), \<lambda>a. [])"

lemma ex_consistent:
  assumes "\<And>v. iarr_ok xs (f v)" and "\<And>v k. known v = Some k \<Longrightarrow> f v = k" and "\<And>v u. low v = Some u \<Longrightarrow> list_all2 (\<le>) (f u) (f v)"
    and "\<And>v e. rhs v = Some e \<Longrightarrow> flat e \<and> vals int_fops (ex_env xs f) e = Some [iarr xs (f v)]"
  shows "consistent int_env (ex_heap xs known rhs low) (ex_env xs f)"
proof -
  have ok: "con_ok T_int xs (map (CInt IInt) (f v) :: int cval list)" for v using assms(1) by simp
  have i: "inhab (int_arr (case known v of Some k \<Rightarrow> TC_akv (iarr xs k) | None \<Rightarrow> TC_aks (sh xs))) T_int xs (map (CInt IInt) (f v))" for v
    using assms(2) [of v] inhab_value_I [OF ok [of v] int_arr_elem] inhab_shape_I [OF ok [of v] int_arr_elem, of "TC_aks (sh xs)"]
    by (auto split: option.splits)
  have v: "var (ex_env xs f) v = iarr xs (f v)" for v by (simp add: var_def ex_env_def)
  show ?thesis
    using i assms(3,4) by (auto simp: consistent_def avis_ok_def v ex_heap_def TBmakeAvis_def)
qed

lemma ints_ok: "shape_fits xs \<Longrightarrow> int (length as) = prod_list xs \<Longrightarrow> \<forall>a\<in>set as. \<bar>a\<bar> < 100 \<Longrightarrow> iarr_ok xs as"
  by (auto simp: iarr_ok_def in_ity_def imin_def imax_def)

subsection \<open>Binary primitives\<close>

text \<open>
  C2: What the simplification of a binary primitive puts in place of an application to integers or truth values
  has the value of the application, in every environment for which the descriptions of the variables are true.  It
  covers every primitive in every combination of scalar and vector arguments, except \<open>mod\<close> of two scalars and \<open>ge\<close>,
  \<open>lt\<close>, \<open>min\<close> and \<open>max\<close> of two vectors (\<open>scs_covered\<close>), where the code rests on decisions that the last
  two theorems of this theory show to be wrong.
\<close>

theorem bin_scs_sound:
  fixes E :: "'f tenv"
  assumes "consistent E H \<rho>" and "atom e1" and "atom e2" and "good E \<rho> (N_prf a (F_bin op v) k [e1, e2]) [w]"
    and "good E \<rho> e1 [con (if op \<in> log_ops then T_bool else T_int) xs es]" and "scs_covered op v"
    and "bin_scs d op v E H (N_prf a (F_bin op v) k [e1, e2]) = Some (Inr (Some m))"
  shows "flat m \<and> vals (te_fops E) \<rho> m = Some [w]"
proof (cases "op \<in> log_ops")
  case True
  then obtain as ys bs where "bool_app E H \<rho> op v e1 e2 xs as ys bs w"
    using bool_appI [OF assms(1-4) True, of xs es] assms(5) by auto
  then show ?thesis using log_sound [OF True _ assms(7)] by (auto simp: good_def)
next
  case False
  then obtain as ys bs where "int_app E H \<rho> op v e1 e2 xs as ys bs w"
    using int_appI [OF assms(1-4), of xs es] assms(5) by auto
  then show ?thesis using int_scs_sound [OF _ False assms(6,7)] by (auto simp: good_def)
qed

text \<open>The comparison of a variable with its sum with a variable that is known to be one.\<close>

definition sum_heap :: "int heap" where
  "sum_heap = ex_heap [] (\<lambda>v. if v = 1 then Some [1] else None)
     (\<lambda>v. if v = 2 then Some (N_prf (Some 0) (F_bin P_add SxS) 0 [N_id 0, N_id 1]) else None) (\<lambda>v. None)"

definition sum_env :: "int env" where
  "sum_env = ex_env [] (\<lambda>v. if v = 1 then [1] else if v = 2 then [8] else [7])"

lemma sum_consistent: "consistent int_env sum_heap sum_env"
proof -
  have "vals int_fops sum_env (N_prf (Some 0) (F_bin P_add SxS) 0 [N_id 0, N_id 1]) = Some [con T_int [] [CInt IInt 8]]" by code_simp
  then show ?thesis unfolding sum_heap_def sum_env_def
    by (intro ex_consistent ints_ok) (auto simp: shape_fits_def int_max_def flat_args_def split: if_splits)
qed

lemma bin_scs_sound_witness:
  "vals int_fops sum_env (N_lit None (BOOL True)) = Some [con T_bool [] [CBool True]]"
proof -
  let ?n = "N_prf None (F_bin P_le SxS) 0 [N_id 0, N_id 2] :: int node"
  have "vals int_fops sum_env ?n = Some [con T_bool [] [CBool True]]" by code_simp
  then have g: "good int_env sum_env ?n [con T_bool [] [CBool True]]" by (simp add: good_def flat_args_def)
  have x: "good int_env sum_env (N_id 0) [con (if P_le \<in> log_ops then T_bool else T_int) [] [CInt IInt 7]]"
    by (simp add: log_ops_def sum_env_def ex_env_def var_def)
  have r: "bin_scs True P_le SxS int_env sum_heap ?n = Some (Inr (Some (N_lit None (BOOL True))))" by code_simp
  show ?thesis
    using bin_scs_sound [OF sum_consistent _ _ g x _ r] by (simp add: scs_covered_def)
qed

subsection \<open>Signs and bounds\<close>

text \<open>
  C3: The tests for signs are right: an array that is found to be not negative has no negative element, one
  that is found to be negative has only negative ones, and a scalar that is found to be positive is.
\<close>

theorem SCS_signs_sound:
  fixes E :: "'f tenv"
  assumes "consistent E H \<rho>" and "good E \<rho> n [con T_int xs (map (CInt IInt) as)]" and "con_ok T_int xs (map (CInt IInt) as :: 'f cval list)"
  shows "(SCSisNonNegative E H n = Some (Inr True) \<longrightarrow> (\<forall>a\<in>set as. 0 \<le> a))
    \<and> (SCSisNegative E H n = Some (Inr True) \<longrightarrow> (\<forall>a\<in>set as. a < 0))
    \<and> (SCSisPositive E H n = Some (Inr True) \<longrightarrow> xs = [] \<longrightarrow> (\<forall>a\<in>set as. 0 < a))"
proof -
  have ok: "iarr_ok xs as" using assms(3) by simp
  moreover have "\<forall>a\<in>set as. 0 < a" if p: "SCSisPositive E H n = Some (Inr True)" "xs = []"
  proof -
    obtain a where "as = [a]" using iarr_ok_scalar [of as] ok p(2) by auto
    then show ?thesis using SCSisPositive_value [OF assms(1), of n a] assms(2) ok p by simp
  qed
  ultimately show ?thesis using SCSisNonNegative_value [OF assms(1,2)] SCSisNegative_value [OF assms(1,2)] by blast
qed

text \<open>A variable that is at least five, and a constant two.\<close>

definition low_heap :: "int heap" where
  "low_heap = ex_heap [] (\<lambda>v. if v = 1 then Some [2] else if v = 3 then Some [5] else None) (\<lambda>v. None) (\<lambda>v. if v = 0 then Some 3 else None)"

definition low_env :: "int env" where
  "low_env = ex_env [] (\<lambda>v. if v = 1 then [2] else if v = 3 then [5] else [7])"

lemma low_consistent: "consistent int_env low_heap low_env"
  unfolding low_heap_def low_env_def by (intro ex_consistent ints_ok) (auto simp: shape_fits_def int_max_def split: if_splits)

lemma SCS_signs_sound_witness: "0 < (7::int) \<and> SCSisPositive int_env low_heap (N_id 0) = Some (Inr True)"
proof -
  have r: "SCSisPositive int_env low_heap (N_id 0) = Some (Inr True)" by code_simp
  have g: "good int_env low_env (N_id 0) [con T_int [] (map (CInt IInt) [7])]" by (simp add: low_env_def ex_env_def var_def)
  have "con_ok T_int [] (map (CInt IInt) [7] :: int cval list)"
    by (simp add: con_ok_def cells_ok_def cell_type_def shape_fits_def int_max_def in_ity_def imin_def imax_def)
  from SCS_signs_sound [OF low_consistent g this] r show ?thesis by simp
qed

text \<open>
  C4: When the bounds of two integer arrays decide a comparison, all pairs of elements that are compared
  agree on its value, and the result is an array of this value with the shape of one of the arguments.
\<close>

theorem SAACF_relational_sound:
  fixes E :: "'f tenv"
  assumes "consistent E H \<rho>" and "atom n1" and "atom n2" and "op \<in> {P_lt, P_le, P_ge, P_gt}"
    and "good E \<rho> n1 [con T_int xs (map (CInt IInt) as)]" and "good E \<rho> n2 [con T_int ys (map (CInt IInt) bs)]"
    and "con_ok T_int xs (map (CInt IInt) as :: 'f cval list)" and "con_ok T_int ys (map (CInt IInt) bs :: 'f cval list)"
    and "length xs \<le> 1" and "length ys \<le> 1"
    and "SAACFonRelationalsWithExtrema E H d n1 n2 (F_bin op v) = Some (Inr (Some m))"
  shows "\<exists>k. (\<forall>(a, b)\<in>set (zip_pairs xs ys as bs). irel op a b = k)
    \<and> (\<exists>zs\<in>{xs, ys}. vals (te_fops E) \<rho> m = Some [con T_bool zs (replicate (nat (prod_list zs)) (CBool k))])"
proof -
  have ok: "iarr_ok xs as" "iarr_ok ys bs" using assms(7,8) by simp_all
  obtain k where k: "all_pairs (\<lambda>a b. irel op a b = k) xs ys as bs" "made E H n1 n2 k m"
    using onRelationals_value [OF assms(1-3) assms(5,6) ok assms(4,11)] .
  have l: "int (length xs) \<le> int_max" "int (length ys) \<le> int_max" using assms(9,10) by (simp_all add: int_max_def)
  have "\<exists>zs\<in>{xs, ys}. good E \<rho> m [barr zs (replicate (nat (prod_list zs)) k)]"
    using k(2) made_truths [OF assms(1,2,5) l(1), of m] made_truths [OF assms(1,3,6) l(2), of m] by (cases k) (auto simp: made_def)
  then have "\<exists>zs\<in>{xs, ys}. vals (te_fops E) \<rho> m = Some [con T_bool zs (replicate (nat (prod_list zs)) (CBool k))]"
    by (auto simp: good_def)
  with k(1) show ?thesis unfolding all_pairs_def by blast
qed

lemma SAACF_relational_sound_witness:
  "vals int_fops low_env (N_lit None (BOOL False)) = Some [con T_bool [] [CBool False]]"
proof -
  have r: "SAACFonRelationalsWithExtrema int_env low_heap True (N_id 0) (N_id 1) (F_bin P_lt SxS) = Some (Inr (Some (N_lit None (BOOL False))))"
    by code_simp
  have g: "good int_env low_env (N_id 0) [con T_int [] (map (CInt IInt) [7])]" "good int_env low_env (N_id 1) [con T_int [] (map (CInt IInt) [2])]"
    by (simp_all add: low_env_def ex_env_def var_def)
  have ok: "con_ok T_int [] (map (CInt IInt) [7] :: int cval list)" "con_ok T_int [] (map (CInt IInt) [2] :: int cval list)"
    by (simp_all add: con_ok_def cells_ok_def cell_type_def shape_fits_def int_max_def in_ity_def imin_def imax_def)
  show ?thesis using SAACF_relational_sound [OF low_consistent _ _ _ g ok _ _ r] by (auto simp: zip_pairs_def)
qed

subsection \<open>Wrong replacements\<close>

text \<open>
  C37: The remainder of two positive scalars is replaced by the first whenever the bounds decide whether it is less
  than the second, in either way: then the simplification answers a copy of the first argument, and this has the
  value of the application only if the first is less.  If the comparison is decided to be false, the replacement is wrong.
\<close>

theorem SCSprf_mod_SxS_unsound:
  fixes E :: "'f tenv"
  assumes "consistent E H \<rho>" and "atom e1" and "atom e2"
    and "good E \<rho> e1 [con T_int [] [CInt IInt a]]" and "good E \<rho> e2 [con T_int [] [CInt IInt b]]"
    and "good E \<rho> (N_prf anno (F_bin P_mod SxS) k [e1, e2]) [w]"
    and "SCSisPositive E H e1 = Some (Inr True)" and "SCSisPositive E H e2 = Some (Inr True)"
    and "SAACFonRelationalsWithExtrema E H d e1 e2 F_lt_SxS = Some (Inr (Some m))"
  shows "\<exists>u. bin_scs d P_mod SxS E H (N_prf anno (F_bin P_mod SxS) k [e1, e2]) = Some (Inr (Some u))
     \<and> vals (te_fops E) \<rho> u = Some [con T_int [] [CInt IInt a]]
     \<and> w = con T_int [] [CInt IInt (a mod b)]
     \<and> vals (te_fops E) \<rho> m = Some [con T_bool [] [CBool (a < b)]]
     \<and> (vals (te_fops E) \<rho> u = Some [w] \<longleftrightarrow> a < b)"
proof -
  obtain as ys bs where app: "int_app E H \<rho> P_mod SxS e1 e2 [] as ys bs w"
    using int_appI [OF assms(1-3,6,4)] .
  obtain a' b' where l: "ys = []" "as = [a']" "bs = [b']" using scalar_app [OF app] by metis
  then have ab: "as = [a]" "bs = [b]" using app assms(4,5) by (auto simp: int_app_def good_def)
  have ok: "iarr_ok [] [a]" "iarr_ok [] [b]" using app l ab by (auto simp: int_app_def)
  have g: "good E \<rho> e1 [iarr [] [a]]" "good E \<rho> e2 [iarr [] [b]]" using assms(4,5) by simp_all
  have pos: "0 < a" "0 < b"
    using SCSisPositive_value [OF assms(1) g(1) ok(1) assms(7)] SCSisPositive_value [OF assms(1) g(2) ok(2) assms(8)] .
  have w: "w = con T_int [] [CInt IInt (a mod b)]"
    using app l ab pos by (auto simp: int_app_def rel_ops_def pointwise_of_def zip_pairs_def out_shape_def smod_int_alt_def)
  obtain c where c: "all_pairs (\<lambda>a b. irel P_lt a b = c) [] [] [a] [b]" "made E H e1 e2 c m"
    using onRelationals_value [OF assms(1-3) g ok, of P_lt d SxS m] assms(9) by auto
  then have ck: "c \<longleftrightarrow> a < b" by (simp add: all_pairs_def zip_pairs_def)
  have m: "good E \<rho> m [con T_bool [] [CBool (a < b)]]"
    using c(2) made_truths [OF assms(1,2) g(1), of m] made_truths [OF assms(1,3) g(2), of m]
    by (cases c) (auto simp: made_def ck [symmetric] int_max_def)
  let ?u = "DUPdoDupNode e1"
  have r: "bin_scs d P_mod SxS E H (N_prf anno (F_bin P_mod SxS) k [e1, e2]) = Some (Inr (Some ?u))"
    using assms(7-9) by (simp add: SCSprf_mod_SxS_def whenO_def ifO_def andO_def)
  have u: "vals (te_fops E) \<rho> ?u = Some [con T_int [] [CInt IInt a]]"
    using iffD2 [OF good_dup [OF assms(2)] assms(4)] by (simp add: good_def)
  have iff: "a mod b = a \<longleftrightarrow> a < b" using pos by (auto intro: mod_pos_pos_trivial) (metis pos_mod_bound)
  have mv: "vals (te_fops E) \<rho> m = Some [con T_bool [] [CBool (a < b)]]" using m by (simp add: good_def)
  have ww: "vals (te_fops E) \<rho> ?u = Some [w] \<longleftrightarrow> a < b" using u w iff by auto
  show ?thesis using r u w mv ww by blast
qed

lemma SCSprf_mod_SxS_unsound_witness:
  "\<exists>u. bin_scs True P_mod SxS int_env low_heap (N_prf None (F_bin P_mod SxS) 0 [N_id 0, N_id 1]) = Some (Inr (Some u))
     \<and> vals int_fops low_env u \<noteq> Some [con T_int [] [CInt IInt 1]]"
proof -
  let ?n = "N_prf None (F_bin P_mod SxS) 0 [N_id 0, N_id 1] :: int node"
  have "vals int_fops low_env ?n = Some [con T_int [] [CInt IInt 1]]" by code_simp
  then have n: "good int_env low_env ?n [con T_int [] [CInt IInt 1]]" by (simp add: good_def flat_args_def)
  have g: "good int_env low_env (N_id 0) [con T_int [] [CInt IInt 7]]" "good int_env low_env (N_id 1) [con T_int [] [CInt IInt 2]]"
    by (simp_all add: low_env_def ex_env_def var_def)
  have p: "SCSisPositive int_env low_heap (N_id 0) = Some (Inr True)" "SCSisPositive int_env low_heap (N_id 1) = Some (Inr True)"
    "SAACFonRelationalsWithExtrema int_env low_heap True (N_id 0) (N_id 1) F_lt_SxS = Some (Inr (Some (N_lit None (BOOL False))))"
    by code_simp+
  from SCSprf_mod_SxS_unsound [OF low_consistent _ _ g n p] show ?thesis by auto
qed

text \<open>A vector that is at least \<open>[0, 1]\<close>, and the sum of another vector with it.\<close>

definition vec_heap :: "int heap" where
  "vec_heap = ex_heap [2] (\<lambda>v. if v = 3 then Some [0, 1] else None)
     (\<lambda>v. if v = 2 then Some (N_prf (Some 0) (F_bin P_add VxV) 0 [N_id 0, N_id 1]) else None) (\<lambda>v. if v = 1 then Some 3 else None)"

definition vec_env :: "int env" where
  "vec_env = ex_env [2] (\<lambda>v. if v = 1 \<or> v = 3 then [0, 1] else if v = 2 then [5, 6] else [5, 5])"

lemma vec_consistent: "consistent int_env vec_heap vec_env"
proof -
  have "vals int_fops vec_env (N_prf (Some 0) (F_bin P_add VxV) 0 [N_id 0, N_id 1]) = Some [con T_int [2] [CInt IInt 5, CInt IInt 6]]"
    by code_simp
  then show ?thesis unfolding vec_heap_def vec_env_def
    by (intro ex_consistent ints_ok) (auto simp: shape_fits_def int_max_def flat_args_def split: if_splits)
qed

text \<open>
  C38: The test for a positive array is wrong on vectors.  For an identifier without a known value whose chain of lower
  bounds ends in a constant, it answers TRUE exactly when the constant is not negative as a whole and not zero as a
  whole, that is if one of its elements is not negative and one is not zero.  The elements of the array are only known to be at
  least those of the constant, so every such constant with a positive and a non-positive element makes an array that is
  equal to it pass for positive.
\<close>

theorem SCSisPositive_vector_unsound:
  fixes E :: "'f tenv"
  assumes "consistent E H \<rho>" and "good E \<rho> (N_id v) [con T_int xs (map (CInt IInt) as)]"
    and "match_const E H skip_extrema (N_id v) = Some (Inr None)"
    and "SAACFchaseMinMax E H False (Some (N_id v)) = Some (Inr (Some (con T_int xs (map (CInt IInt) ks))))"
  shows "list_all2 (\<le>) ks as
    \<and> SCSisPositive E H (N_id v) = Some (Inr ((\<exists>k\<in>set ks. 0 \<le> k) \<and> (\<exists>k\<in>set ks. k \<noteq> 0)))
    \<and> (as = ks \<and> (\<exists>k\<in>set ks. 0 < k) \<and> (\<exists>k\<in>set ks. k \<le> 0) \<longrightarrow>
         SCSisPositive E H (N_id v) = Some (Inr True) \<and> \<not> (\<forall>a\<in>set as. 0 < a))"
proof -
  obtain ls where l: "iarr xs ks = iarr xs ls" "iarr_ok xs ls" "list_all2 (\<le>) ls as"
    using chased_var [OF assms(1,2,4)] by auto
  then have ls: "ls = ks" by simp
  have ok: "con_ok T_int xs (map (CInt IInt) ks :: 'f cval list)" using iarr_con_ok l(2) ls by blast
  have d: "SCSisPositive E H (N_id v) = Some (Inr ((\<exists>k\<in>set ks. 0 \<le> k) \<and> (\<exists>k\<in>set ks. k \<noteq> 0)))"
    using neg.test_int [OF host_int_T_int ok, of "te_fops E" True] zero.test_int [OF host_int_T_int ok, of "te_fops E" True]
    by (auto simp: SCSisPositive_def Let_def assms(3,4) test_const_def orO_def ifO_def bindO_def andR_def notR_def not_less)
  have "SCSisPositive E H (N_id v) = Some (Inr True)" if p: "\<exists>k\<in>set ks. 0 < k"
  proof -
    obtain k where "k \<in> set ks" "0 \<le> k" "k \<noteq> 0" using p by force
    with d show ?thesis by auto
  qed
  then show ?thesis using l(3) ls d by (auto simp: not_less)
qed

text \<open>In the example a comparison with a sum is replaced by a vector that is true everywhere, but one of its elements is false.\<close>

lemma vec_lt_replaced:
  "vals int_fops vec_env (N_prf None (F_bin P_lt VxV) 0 [N_id 0, N_id 2]) = Some [con T_bool [2] [CBool False, CBool True]]
   \<and> (case bin_scs True P_lt VxV int_env vec_heap (N_prf None (F_bin P_lt VxV) 0 [N_id 0, N_id 2]) of
      Some (Inr (Some m)) \<Rightarrow> vals int_fops vec_env m = Some [con T_bool [2] [CBool True, CBool True]] | _ \<Rightarrow> False)"
proof (rule conjI)
  show "vals int_fops vec_env (N_prf None (F_bin P_lt VxV) 0 [N_id 0, N_id 2]) = Some [con T_bool [2] [CBool False, CBool True]]"
    by code_simp
  show "(case bin_scs True P_lt VxV int_env vec_heap (N_prf None (F_bin P_lt VxV) 0 [N_id 0, N_id 2]) of
      Some (Inr (Some m)) \<Rightarrow> vals int_fops vec_env m = Some [con T_bool [2] [CBool True, CBool True]] | _ \<Rightarrow> False)"
    by code_simp
qed

lemma SCSisPositive_vector_unsound_witness:
  "SCSisPositive int_env vec_heap (N_id 1) = Some (Inr True) \<and> \<not> (\<forall>a\<in>set [0, 1 :: int]. 0 < a)"
proof -
  have g: "good int_env vec_env (N_id 1) [con T_int [2] (map (CInt IInt) [0, 1])]"
    by (simp add: vec_env_def ex_env_def var_def)
  have m: "match_const int_env vec_heap skip_extrema (N_id 1) = Some (Inr None)" by code_simp
  have k: "SAACFchaseMinMax int_env vec_heap False (Some (N_id 1)) = Some (Inr (Some (con T_int [2] (map (CInt IInt) [0, 1]))))"
    by code_simp
  from SCSisPositive_vector_unsound [OF vec_consistent g m k] show ?thesis by simp
qed

end
