(* ===== verification/SSI.thy ===== *)
theory SSI
  imports Types_Lattice
begin

text \<open>
  Type variables and the subtype constraints on them, \<open>src/libsac2c/typecheck/ssi.c\<close>: every
  variable has a largest type, a smallest type, the variables known to be above it and below it,
  and the handles to call when its smallest type grows.

  Variables live in a private heap; a pointer to one is its position in the list \<open>tvars\<close> of all
  variables made so far.  The static variables of the file are the other fields of \<open>ssi\<close>.  The
  two handler functions are parameters of the compiler: a handler pointer is a number, and
  \<open>H p h s\<close> is the effect of calling the function at \<open>p\<close> on the handle \<open>h\<close>.  A handler may call
  the operations of this file again, so the loops read their bounds anew in every iteration.
\<close>

subsection \<open>Growing arrays\<close>

text \<open>
  The three arrays of a variable have a capacity, a number of used cells and the cells; the
  counters are \<open>unsigned int\<close>.
\<close>

record 'a dynarr =
  da_max :: nat
  da_num :: nat
  da_cells :: "'a cvec"

definition CHUNK_SIZE :: nat where
  "CHUNK_SIZE = 10"

definition da_empty :: "'a dynarr" where
  "da_empty = \<lparr>da_max = 0, da_num = 0, da_cells = []\<rparr>"

definition da_grow :: "'a dynarr \<Rightarrow> 'a dynarr cres" where
  "da_grow d =
     (let m = (da_max d + CHUNK_SIZE) mod 2 ^ 32 in
      bindR (cfor 0 ((int m - int CHUNK_SIZE) mod 2 ^ 32)
               (\<lambda>i xnew. bindR (rd (da_cells d) i) (wr xnew i)) (allocv (int m)))
        (\<lambda>xnew. Inr (d\<lparr>da_max := m, da_cells := xnew\<rparr>)))"

definition da_add :: "'a dynarr \<Rightarrow> 'a \<Rightarrow> 'a dynarr cres" where
  "da_add d x =
     bindR (if da_max d = da_num d then da_grow d else Inr d) (\<lambda>d.
       bindR (wr (da_cells d) (int (da_num d)) x) (\<lambda>c.
         Inr (d\<lparr>da_cells := c, da_num := (da_num d + 1) mod 2 ^ 32\<rparr>)))"

definition IsIn :: "nat \<Rightarrow> nat dynarr \<Rightarrow> bool cres" where
  "IsIn var l =
     cfor 0 (int (da_num l)) (\<lambda>i res.
       if res then Inr True else bindR (rd (da_cells l) i) (\<lambda>v. Inr (v = var))) False"

subsection \<open>Variables and the state of the solver\<close>

record 'f tvar =
  TVAR_NO :: int
  TVAR_MAX :: "'f ntype"
  TVAR_MIN :: "'f ntype"
  TVAR_BIGS :: "nat dynarr"
  TVAR_SMALLS :: "nat dynarr"
  TVAR_HANDS :: "nat dynarr"

record 'f ssi =
  tvars :: "'f tvar list"
  var_cntr :: int
  ass_system_active :: bool
  ass_contra_handle :: "nat option"
  ass_fix_handle :: "nat option"

definition ssi_init :: "'f ssi" where
  "ssi_init = \<lparr>tvars = [], var_cntr = 0, ass_system_active = False, ass_contra_handle = None,
     ass_fix_handle = None\<rparr>"

type_synonym 'f handler = "nat \<Rightarrow> nat \<Rightarrow> 'f ssi \<Rightarrow> (bool \<times> 'f ssi) cres option"

definition tv :: "'f ssi \<Rightarrow> nat \<Rightarrow> 'f tvar cres" where
  "tv s p = check NullDeref (p < length (tvars s)) (Inr (tvars s ! p))"

definition set_tv :: "'f ssi \<Rightarrow> nat \<Rightarrow> 'f tvar \<Rightarrow> 'f ssi cres" where
  "set_tv s p t = check NullDeref (p < length (tvars s)) (Inr (s\<lparr>tvars := (tvars s)[p := t]\<rparr>))"

definition AddBigger :: "nat \<Rightarrow> nat \<Rightarrow> 'f ssi \<Rightarrow> 'f ssi cres" where
  "AddBigger small big s = bindR (tv s small) (\<lambda>t. bindR (da_add (TVAR_BIGS t) big) (\<lambda>d.
     set_tv s small (t\<lparr>TVAR_BIGS := d\<rparr>)))"

definition AddSmaller :: "nat \<Rightarrow> nat \<Rightarrow> 'f ssi \<Rightarrow> 'f ssi cres" where
  "AddSmaller big small s = bindR (tv s big) (\<lambda>t. bindR (da_add (TVAR_SMALLS t) small) (\<lambda>d.
     set_tv s big (t\<lparr>TVAR_SMALLS := d\<rparr>)))"

definition AddHandle :: "nat \<Rightarrow> nat \<Rightarrow> 'f ssi \<Rightarrow> 'f ssi cres" where
  "AddHandle var handle s = bindR (tv s var) (\<lambda>t. bindR (da_add (TVAR_HANDS t) handle) (\<lambda>d.
     set_tv s var (t\<lparr>TVAR_HANDS := d\<rparr>)))"

definition SSImakeVariable :: "'f ssi \<Rightarrow> (nat \<times> 'f ssi) cres" where
  "SSImakeVariable s = bindR (ck_int (var_cntr s + 1)) (\<lambda>c.
     Inr (length (tvars s),
          s\<lparr>var_cntr := c,
            tvars := tvars s @ [\<lparr>TVAR_NO = var_cntr s, TVAR_MAX = NullT, TVAR_MIN = NullT,
              TVAR_BIGS = da_empty, TVAR_SMALLS = da_empty, TVAR_HANDS = da_empty\<rparr>]\<rparr>))"

definition SSIfreeAllTvars :: "'f ssi \<Rightarrow> 'f ssi" where
  "SSIfreeAllTvars s = s\<lparr>tvars := []\<rparr>"

definition SSIgetMax :: "'f ssi \<Rightarrow> nat \<Rightarrow> 'f ntype cres" where
  "SSIgetMax s var = bindR (tv s var) (\<lambda>t. Inr (TVAR_MAX t))"

definition SSIgetMin :: "'f ssi \<Rightarrow> nat \<Rightarrow> 'f ntype cres" where
  "SSIgetMin s var = bindR (tv s var) (\<lambda>t. Inr (TVAR_MIN t))"

definition SSIisLe :: "'f ssi \<Rightarrow> nat \<Rightarrow> nat \<Rightarrow> bool cres" where
  "SSIisLe s var1 var2 = bindR (tv s var1) (\<lambda>t. IsIn var2 (TVAR_BIGS t))"

definition SSIisFix :: "'f tenv \<Rightarrow> 'f ssi \<Rightarrow> nat \<Rightarrow> bool cres" where
  "SSIisFix E s var = bindR (tv s var) (\<lambda>t.
     if TVAR_MIN t \<noteq> NullT \<and> TVAR_MAX t \<noteq> NullT then TYeqTypes E (TVAR_MAX t) (TVAR_MIN t) else Inr False)"

subsection \<open>New upper bounds\<close>

definition set_max :: "nat \<Rightarrow> 'f ntype \<Rightarrow> 'f ssi \<Rightarrow> 'f ssi cres" where
  "set_max var cmax s = bindR (tv s var) (\<lambda>t. bindR (TYcopyType cmax) (\<lambda>c.
     set_tv s var (t\<lparr>TVAR_MAX := c\<rparr>)))"

function NewMax :: "'f tenv \<Rightarrow> nat \<Rightarrow> 'f ntype \<Rightarrow> bool \<Rightarrow> 'f ssi \<Rightarrow> (bool \<times> 'f ssi) cres option" where
  "NewMax E var cmax outer s =
     (if cmax = NullT then Some (Inr (True, s))
      else bindRO (tv s var) (\<lambda>t.
        if TVAR_MAX t = NullT
        then bindRO (set_max var cmax s) (\<lambda>s. bindRO (tv s var) (\<lambda>t.
               if TVAR_MIN t \<noteq> NullT
               then bindRO (TYleTypes E (TVAR_MIN t) (TVAR_MAX t)) (\<lambda>b. Some (Inr (b, s)))
               else Some (Inr (True, s))))
        else bindRO (TYcmpTypes E cmax (TVAR_MAX t)) (\<lambda>cmp.
          if cmp = TY_dis then Some (Inr (False, s))
          else if cmp = TY_lt
          then bindRO
                 (if TVAR_MIN t = NullT then bindR (set_max var cmax s) (\<lambda>s. Inr (True, s))
                  else bindR (TYleTypes E (TVAR_MIN t) cmax) (\<lambda>b.
                    if b then bindR (set_max var cmax s) (\<lambda>s. Inr (True, s)) else Inr (False, s)))
               (\<lambda>rs.
                  if outer
                  then wfor 0
                         (\<lambda>(res, s). bindR (tv s var) (\<lambda>t. Inr (da_num (TVAR_SMALLS t))))
                         (\<lambda>i (res, s).
                            if res
                            then bindRO (tv s var) (\<lambda>t. bindRO (rd (da_cells (TVAR_SMALLS t)) (int i)) (\<lambda>v.
                                   NewMax E v cmax False s))
                            else Some (Inr (res, s)))
                         rs
                  else Some (Inr rs))
          else Some (Inr (True, s)))))"
  by pat_completeness auto
termination
  by (relation "measure (\<lambda>(E, var, cmax, outer, s). if outer then 1 else 0)") auto

declare NewMax.simps [simp del]

definition SSInewMax :: "'f tenv \<Rightarrow> nat \<Rightarrow> 'f ntype \<Rightarrow> 'f ssi \<Rightarrow> (bool \<times> 'f ssi) cres option" where
  "SSInewMax E var cmax s = NewMax E var cmax True s"

subsection \<open>New lower bounds\<close>

definition call_handler ::
  "'f handler \<Rightarrow> nat option \<Rightarrow> nat \<Rightarrow> 'f ssi \<Rightarrow> (bool \<times> 'f ssi) cres option" where
  "call_handler H p h s = (case p of None \<Rightarrow> Some (Inl NullDeref) | Some f \<Rightarrow> H f h s)"

definition InsertMinAndCheckAssumption ::
  "'f handler \<Rightarrow> 'f tenv \<Rightarrow> nat \<Rightarrow> 'f ntype \<Rightarrow> 'f ssi \<Rightarrow> 'f ssi cres option" where
  "InsertMinAndCheckAssumption H E var new_min s =
     bindRO (tv s var) (\<lambda>t.
     bindRO (if 0 < da_num (TVAR_HANDS t) \<and> ass_system_active s
             then if TVAR_MIN t = NullT then Inr True
                  else bindR (TYcmpTypes E (TVAR_MIN t) new_min) (\<lambda>c. Inr (c = TY_lt))
             else Inr False) (\<lambda>grown.
     bindRO (set_tv s var (t\<lparr>TVAR_MIN := new_min\<rparr>)) (\<lambda>s.
       if grown
       then bindOO
              (wfor 0
                (\<lambda>(ok, s). bindR (tv s var) (\<lambda>t. Inr (da_num (TVAR_HANDS t))))
                (\<lambda>i (ok, s).
                   if ok
                   then bindRO (tv s var) (\<lambda>t. bindRO (rd (da_cells (TVAR_HANDS t)) (int i)) (\<lambda>h.
                          call_handler H (ass_contra_handle s) h s))
                   else Some (Inr (ok, s)))
                (True, s))
              (\<lambda>(ok, s). if ok then Some (Inr s)
                         else Some (Inl (CompilerAbort ''Ugly squad type contradiction'')))
       else Some (Inr s))))"

function NewMin ::
  "'f handler \<Rightarrow> 'f tenv \<Rightarrow> nat \<Rightarrow> 'f ntype \<Rightarrow> bool \<Rightarrow> 'f ssi \<Rightarrow> (bool \<times> 'f ssi) cres option" where
  "NewMin H E var cmin outer s =
     (if cmin = NullT then Some (Inr (True, s))
      else bindRO (tv s var) (\<lambda>t.
        bindRO (if TVAR_MIN t = NullT then TYcopyType cmin else TYlubOfTypes E cmin (TVAR_MIN t)) (\<lambda>tmp.
        bindRO (if tmp = NullT then Inr False
                else if TVAR_MAX t = NullT then Inr True
                else TYleTypes E tmp (TVAR_MAX t)) (\<lambda>legal.
          if legal
          then bindRO (TYcopyType tmp) (\<lambda>c. bindOO (InsertMinAndCheckAssumption H E var c s) (\<lambda>s.
                 if outer
                 then wfor 0
                        (\<lambda>(res, s). bindR (tv s var) (\<lambda>t. Inr (da_num (TVAR_BIGS t))))
                        (\<lambda>i (res, s).
                           if res
                           then bindRO (tv s var) (\<lambda>t. bindRO (rd (da_cells (TVAR_BIGS t)) (int i)) (\<lambda>v.
                                  NewMin H E v tmp False s))
                           else Some (Inr (res, s)))
                        (True, s)
                 else Some (Inr (True, s))))
          else Some (Inr (False, s))))))"
  by pat_completeness auto
termination
  by (relation "measure (\<lambda>(H, E, var, cmin, outer, s). if outer then 1 else 0)") auto

declare NewMin.simps [simp del]

definition SSInewMin ::
  "'f handler \<Rightarrow> 'f tenv \<Rightarrow> nat \<Rightarrow> 'f ntype \<Rightarrow> 'f ssi \<Rightarrow> (bool \<times> 'f ssi) cres option" where
  "SSInewMin H E var cmin s = NewMin H E var cmin True s"

subsection \<open>New relations\<close>

text \<open>
  The body of each of the three loops that build the transitive closure: \<open>small\<close> and \<open>big\<close> become
  related unless they are.  The first loop looks for \<open>big\<close> among the larger variables of \<open>small\<close>, the
  others for \<open>small\<close> among the smaller variables of \<open>big\<close>.
\<close>

definition relate_up :: "nat \<Rightarrow> nat \<Rightarrow> 'f ssi \<Rightarrow> 'f ssi cres" where
  "relate_up small big s = bindR (tv s small) (\<lambda>t. bindR (IsIn big (TVAR_BIGS t)) (\<lambda>b.
     if b then Inr s else bindR (AddBigger small big s) (AddSmaller big small)))"

definition relate_down :: "nat \<Rightarrow> nat \<Rightarrow> 'f ssi \<Rightarrow> 'f ssi cres" where
  "relate_down small big s = bindR (tv s big) (\<lambda>t. bindR (IsIn small (TVAR_SMALLS t)) (\<lambda>b.
     if b then Inr s else bindR (AddSmaller big small s) (AddBigger small big)))"

definition num_bigs :: "nat \<Rightarrow> 'f ssi \<Rightarrow> nat cres" where
  "num_bigs v s = bindR (tv s v) (\<lambda>t. Inr (da_num (TVAR_BIGS t)))"

definition num_smalls :: "nat \<Rightarrow> 'f ssi \<Rightarrow> nat cres" where
  "num_smalls v s = bindR (tv s v) (\<lambda>t. Inr (da_num (TVAR_SMALLS t)))"

definition TVAR_BIG :: "nat \<Rightarrow> nat \<Rightarrow> 'f ssi \<Rightarrow> nat cres" where
  "TVAR_BIG v i s = bindR (tv s v) (\<lambda>t. rd (da_cells (TVAR_BIGS t)) (int i))"

definition TVAR_SMALL :: "nat \<Rightarrow> nat \<Rightarrow> 'f ssi \<Rightarrow> nat cres" where
  "TVAR_SMALL v i s = bindR (tv s v) (\<lambda>t. rd (da_cells (TVAR_SMALLS t)) (int i))"

definition close_up :: "nat \<Rightarrow> nat \<Rightarrow> 'f ssi \<Rightarrow> 'f ssi cres option" where
  "close_up small big s =
     wfor 0 (num_bigs big) (\<lambda>i s. bindRO (TVAR_BIG big i s) (\<lambda>b. Some (relate_up small b s))) s"

definition close_down :: "nat \<Rightarrow> nat \<Rightarrow> 'f ssi \<Rightarrow> 'f ssi cres option" where
  "close_down small big s =
     wfor 0 (num_smalls small) (\<lambda>i s. bindRO (TVAR_SMALL small i s) (\<lambda>a. Some (relate_down a big s))) s"

definition close_both :: "nat \<Rightarrow> nat \<Rightarrow> 'f ssi \<Rightarrow> 'f ssi cres option" where
  "close_both small big s =
     wfor 0 (num_smalls small) (\<lambda>i s.
       wfor 0 (num_bigs big) (\<lambda>j s. bindRO (TVAR_SMALL small i s) (\<lambda>a. bindRO (TVAR_BIG big j s) (\<lambda>b.
         Some (relate_down a b s)))) s) s"

definition SSInewRel ::
  "'f handler \<Rightarrow> 'f tenv \<Rightarrow> nat \<Rightarrow> nat \<Rightarrow> 'f ssi \<Rightarrow> (bool \<times> 'f ssi) cres option" where
  "SSInewRel H E small big s =
     bindRO (tv s big) (\<lambda>tb. bindRO (IsIn small (TVAR_SMALLS tb)) (\<lambda>known.
       if known
       then bindRO (tv s small) (\<lambda>ts. bindRO (IsIn big (TVAR_BIGS ts)) (\<lambda>sym.
              checkO (AssertFail ''SSI consistency broken'') sym (Some (Inr (True, s)))))
       else
         bindRO (AddBigger small big s) (\<lambda>s. bindRO (AddSmaller big small s) (\<lambda>s.
         bindOO (close_up small big s) (\<lambda>s. bindOO (close_down small big s) (\<lambda>s.
         bindOO (close_both small big s) (\<lambda>s.
         bindRO (SSIgetMax s big) (\<lambda>m. bindOO (SSInewMax E small m s) (\<lambda>(res, s).
         if res
         then bindRO (SSIgetMin s small) (\<lambda>m. SSInewMin H E big m s)
         else Some (Inr (False, s)))))))))))"

text \<open>The relation of two types: either may be a type variable.\<close>

definition TYgetAlpha :: "'f ntype \<Rightarrow> nat cres" where
  "TYgetAlpha t = bindR (NTYPE_CON t) (\<lambda>c. case c of TC_alpha v \<Rightarrow> Inr v | _ \<Rightarrow> Inl (AssertFail ''TYgetAlpha''))"

definition SSInewTypeRel ::
  "'f handler \<Rightarrow> 'f tenv \<Rightarrow> 'f ntype \<Rightarrow> 'f ntype \<Rightarrow> 'f ssi \<Rightarrow> (bool \<times> 'f ssi) cres option" where
  "SSInewTypeRel H E small big s =
     bindRO (TYisAlpha small) (\<lambda>sa. bindRO (TYisAlpha big) (\<lambda>ba.
       if sa
       then bindRO (TYgetAlpha small) (\<lambda>v.
              if ba then bindRO (TYgetAlpha big) (\<lambda>w. SSInewRel H E v w s)
              else SSInewMax E v big s)
       else if ba then bindRO (TYgetAlpha big) (\<lambda>w. SSInewMin H E w small s)
       else bindRO (TYleTypes E small big) (\<lambda>b. Some (Inr (b, s)))))"

subsection \<open>Assumptions\<close>

definition SSIinitAssumptionSystem :: "nat option \<Rightarrow> nat option \<Rightarrow> 'f ssi \<Rightarrow> bool \<times> 'f ssi" where
  "SSIinitAssumptionSystem HandleContra HandleFix s =
     (\<not> ass_system_active s \<and> HandleFix \<noteq> None \<and> HandleContra \<noteq> None,
      s\<lparr>ass_contra_handle := HandleContra, ass_fix_handle := HandleFix, ass_system_active := True\<rparr>)"

definition SSIassumptionSystemIsInitialized :: "'f ssi \<Rightarrow> bool" where
  "SSIassumptionSystemIsInitialized s = ass_system_active s"

definition SSIassumeLow :: "nat \<Rightarrow> nat \<Rightarrow> 'f ssi \<Rightarrow> (bool \<times> 'f ssi) cres" where
  "SSIassumeLow var handle s = bindR (AddHandle var handle s) (\<lambda>s. Inr (ass_system_active s, s))"

definition SSIfixLow ::
  "'f handler \<Rightarrow> 'f tenv \<Rightarrow> nat \<Rightarrow> 'f ssi \<Rightarrow> (bool \<times> 'f ssi) cres option" where
  "SSIfixLow H E var s =
     bindRO (SSIgetMin s var) (\<lambda>m. bindOO (SSInewMax E var m s) (\<lambda>(_, s).
     bindRO (SSIgetMin s var) (\<lambda>m.
     bindRO (tv s var) (\<lambda>t. let res = (m \<noteq> NullT); hands = TVAR_HANDS t; n = da_num hands in
       if 0 < n
       then bindRO (set_tv s var (t\<lparr>TVAR_HANDS := da_empty\<rparr>)) (\<lambda>s.
              bindOO
                (wfor 0 (\<lambda>_. Inr n)
                  (\<lambda>i (res, s). if res
                     then bindRO (rd (da_cells hands) (int i)) (\<lambda>h. call_handler H (ass_fix_handle s) h s)
                     else Some (Inr (res, s)))
                  (res, s))
                (\<lambda>(res, s). Some (Inr (res \<and> ass_system_active s, s))))
       else Some (Inr (res \<and> ass_system_active s, s))))))"

end
