(* ===== verification/SSI_Rel.thy ===== *)
theory SSI_Rel
  imports SSI
begin

text \<open>
  The relation between type variables that the two arrays of every variable store: its
  invariant (the arrays are each other's converse, without repetition), and the effect of the
  three loops of \<open>SSInewRel\<close>, which keep it transitively closed.
\<close>

subsection \<open>Growing arrays hold lists\<close>

definition da_list :: "'a dynarr \<Rightarrow> 'a list" where
  "da_list d = map the (take (da_num d) (da_cells d))"

definition da_ok :: "'a dynarr \<Rightarrow> bool" where
  "da_ok d \<longleftrightarrow> da_max d = length (da_cells d) \<and> da_num d \<le> da_max d
     \<and> (\<forall>i<da_num d. da_cells d ! i \<noteq> None)"

text \<open>The most elements for which the capacity, a multiple of ten, can still grow without wrapping.\<close>

definition da_limit :: nat where
  "da_limit = 4294967280"

lemma length_da_list: "da_ok d \<Longrightarrow> length (da_list d) = da_num d"
  by (simp add: da_list_def da_ok_def)

lemma da_empty_ok [simp]: "da_ok da_empty" "da_list da_empty = []"
  by (simp_all add: da_ok_def da_list_def da_empty_def)

lemma da_cell: "da_ok d \<Longrightarrow> i < da_num d \<Longrightarrow> da_cells d ! i = Some (da_list d ! i)"
  by (auto simp: da_ok_def da_list_def)

lemma rd_da: "da_ok d \<Longrightarrow> i < length (da_list d) \<Longrightarrow> rd (da_cells d) (int i) = Inr (da_list d ! i)"
  using da_cell [of d i] by (simp add: length_da_list rd_def) (simp add: da_ok_def)

lemma da_listI:
  assumes "da_ok d" and "length xs = da_num d" and "\<And>i. i < da_num d \<Longrightarrow> da_cells d ! i = Some (xs ! i)"
  shows "da_list d = xs"
  using assms by (intro nth_equalityI) (auto simp: da_list_def da_ok_def)

lemma IsIn_ok: "da_ok d \<Longrightarrow> IsIn v d = Inr (v \<in> set (da_list d))"
proof -
  assume d: "da_ok d"
  let ?g = "\<lambda>j. v \<in> set (take (nat j) (da_list d))"
  have "cfor 0 (int (da_num d)) (\<lambda>i res. if res then Inr True
      else bindR (rd (da_cells d) i) (\<lambda>x. Inr (x = v))) (?g 0) = Inr (?g (int (da_num d)))"
  proof (rule cfor_traj)
    fix j assume j: "0 \<le> j" "j < int (da_num d)"
    then obtain k where k: "j = int k" "k < length (da_list d)"
      using d by (metis length_da_list of_nat_less_iff zero_le_imp_eq_int)
    have "nat (j + 1) = Suc k" using k by simp
    then show "(if ?g j then Inr True else bindR (rd (da_cells d) j) (\<lambda>x. Inr (x = v))) = Inr (?g (j + 1))"
      using rd_da [OF d k(2)] k by (auto simp: take_Suc_conv_app_nth)
  qed simp
  then show ?thesis using d by (simp add: IsIn_def length_da_list [symmetric])
qed

lemma da_grow_ok:
  assumes "da_ok d" and "da_max d = da_num d" and "da_num d \<le> da_limit"
  shows "\<exists>e. da_grow d = Inr e \<and> da_ok e \<and> da_list e = da_list d \<and> da_num e = da_num d \<and> da_num e < da_max e"
proof -
  let ?n = "da_num d"
  have c: "da_cells d = full (da_list d)"
    using assms(1,2) da_cell [OF assms(1)] length_da_list [OF assms(1)]
    by (intro nth_equalityI) (auto simp: da_ok_def)
  have m: "(da_max d + CHUNK_SIZE) mod 2 ^ 32 = ?n + 10"
    "(int (?n + 10) - int CHUNK_SIZE) mod 2 ^ 32 = int ?n"
    using assms(2,3) by (simp_all add: CHUNK_SIZE_def da_limit_def)
  let ?g = "\<lambda>j. full (take (nat j) (da_list d)) @ replicate (?n + 10 - nat j) None"
  have "cfor 0 (int ?n) (\<lambda>i x. bindR (rd (da_cells d) i) (wr x i)) (?g 0) = Inr (?g (int ?n))"
  proof (rule cfor_traj)
    fix j assume j: "0 \<le> j" "j < int ?n"
    then obtain k where k: "j = int k" "k < ?n" by (metis of_nat_less_iff zero_le_imp_eq_int)
    then have l: "k < length (da_list d)" using length_da_list [OF assms(1)] by simp
    have "nat (j + 1) = Suc k" "?n + 10 - k = Suc (?n + 10 - Suc k)" using k by simp_all
    then show "bindR (rd (da_cells d) j) (wr (?g j) j) = Inr (?g (j + 1))"
      using k l by (simp add: c cmem) (simp add: wr_def list_update_append take_Suc_conv_app_nth)
  qed simp
  then have grow: "da_grow d = Inr (d\<lparr>da_max := ?n + 10, da_cells := full (da_list d) @ replicate 10 None\<rparr>)"
    using length_da_list [OF assms(1)] unfolding da_grow_def Let_def m
    by (simp add: allocv_def nat_add_distrib)
  let ?e = "d\<lparr>da_max := ?n + 10, da_cells := full (da_list d) @ replicate 10 None\<rparr>"
  have "da_ok ?e" using length_da_list [OF assms(1)] by (simp add: da_ok_def nth_append)
  moreover then have "da_list ?e = da_list d"
    using length_da_list [OF assms(1)] by (intro da_listI) (simp_all add: nth_append)
  ultimately show ?thesis using grow by simp
qed

lemma da_add_ok:
  assumes "da_ok d" and "length (da_list d) \<le> da_limit"
  shows "\<exists>e. da_add d x = Inr e \<and> da_ok e \<and> da_list e = da_list d @ [x]"
proof -
  have n: "da_num d \<le> da_limit" using assms by (simp add: length_da_list)
  have "\<exists>e. (if da_max d = da_num d then da_grow d else Inr d) = Inr e \<and> da_ok e
      \<and> da_list e = da_list d \<and> da_num e = da_num d \<and> da_num e < da_max e"
  proof (cases "da_max d = da_num d")
    case True
    then show ?thesis using da_grow_ok [OF assms(1) True n] by simp
  next
    case False
    then show ?thesis using assms(1) by (auto simp: da_ok_def)
  qed
  then obtain e where e: "(if da_max d = da_num d then da_grow d else Inr d) = Inr e" "da_ok e"
    "da_list e = da_list d" "da_num e = da_num d" "da_num e < da_max e" by blast
  have w: "wr (da_cells e) (int (da_num e)) x = Inr ((da_cells e)[da_num e := Some x])"
    using e(2,5) by (simp add: wr_def da_ok_def)
  have m: "(da_num e + 1) mod 2 ^ 32 = Suc (da_num e)" using n e(4) by (simp add: da_limit_def)
  let ?e = "e\<lparr>da_cells := (da_cells e)[da_num e := Some x], da_num := Suc (da_num e)\<rparr>"
  have ok: "da_ok ?e" using e(2,5) by (auto simp: da_ok_def nth_list_update less_Suc_eq)
  moreover have "da_list ?e = da_list e @ [x]"
    using e(2,5) ok da_cell [OF e(2)] length_da_list [OF e(2)]
    by (intro da_listI) (auto simp: less_Suc_eq nth_append da_ok_def)
  ultimately show ?thesis using e w m by (auto simp: da_add_def)
qed

subsection \<open>The stored relation\<close>

definition bigs :: "'f ssi \<Rightarrow> nat \<Rightarrow> nat list" where
  "bigs s v = da_list (TVAR_BIGS (tvars s ! v))"

definition smalls :: "'f ssi \<Rightarrow> nat \<Rightarrow> nat list" where
  "smalls s v = da_list (TVAR_SMALLS (tvars s ! v))"

definition rel :: "'f ssi \<Rightarrow> (nat \<times> nat) set" where
  "rel s = {(a, b). a < length (tvars s) \<and> b \<in> set (bigs s a)}"

definition rel_ok :: "'f ssi \<Rightarrow> bool" where
  "rel_ok s \<longleftrightarrow> length (tvars s) \<le> da_limit
     \<and> (\<forall>v<length (tvars s). da_ok (TVAR_BIGS (tvars s ! v)) \<and> da_ok (TVAR_SMALLS (tvars s ! v))
          \<and> distinct (bigs s v) \<and> distinct (smalls s v))
     \<and> (\<forall>a b. (a < length (tvars s) \<and> b \<in> set (bigs s a)) \<longleftrightarrow> (b < length (tvars s) \<and> a \<in> set (smalls s b)))"

text \<open>What the operations on the relation leave alone: everything but the two arrays.\<close>

definition no_arrays :: "'f ssi \<Rightarrow> 'f ssi" where
  "no_arrays s = s\<lparr>tvars := map (\<lambda>t. t\<lparr>TVAR_BIGS := da_empty, TVAR_SMALLS := da_empty\<rparr>) (tvars s)\<rparr>"

lemma no_arrays_length: "no_arrays s = no_arrays t \<Longrightarrow> length (tvars s) = length (tvars t)"
proof -
  assume "no_arrays s = no_arrays t"
  then have "tvars (no_arrays s) = tvars (no_arrays t)" by simp
  then show ?thesis by (simp add: no_arrays_def) (metis length_map)
qed

lemma rel_okD:
  assumes "rel_ok s" and "v < length (tvars s)"
  shows "da_ok (TVAR_BIGS (tvars s ! v))" "da_ok (TVAR_SMALLS (tvars s ! v))"
    "distinct (bigs s v)" "distinct (smalls s v)"
  using assms by (auto simp: rel_ok_def)

lemma rel_ok_conv:
  assumes "rel_ok s"
  shows "b < length (tvars s) \<and> a \<in> set (smalls s b) \<longleftrightarrow> (a, b) \<in> rel s"
  using assms by (auto simp: rel_ok_def rel_def)

lemma rel_range: "rel_ok s \<Longrightarrow> (a, b) \<in> rel s \<Longrightarrow> a < length (tvars s) \<and> b < length (tvars s)"
  using rel_ok_conv by (auto simp: rel_def)

lemma bigs_rel: "a < length (tvars s) \<Longrightarrow> b \<in> set (bigs s a) \<longleftrightarrow> (a, b) \<in> rel s"
  by (simp add: rel_def)

lemma smalls_rel: "rel_ok s \<Longrightarrow> b < length (tvars s) \<Longrightarrow> a \<in> set (smalls s b) \<longleftrightarrow> (a, b) \<in> rel s"
  using rel_ok_conv by blast

lemma set_bigs: "a < length (tvars s) \<Longrightarrow> set (bigs s a) = {b. (a, b) \<in> rel s}"
  by (auto simp: rel_def)

lemma set_smalls: "rel_ok s \<Longrightarrow> b < length (tvars s) \<Longrightarrow> set (smalls s b) = {a. (a, b) \<in> rel s}"
  using smalls_rel by blast

lemma tv_ok: "v < length (tvars s) \<Longrightarrow> tv s v = Inr (tvars s ! v)"
  by (simp add: tv_def)

text \<open>A list of variables without repetition is no longer than there are variables.\<close>

lemma few_elems:
  assumes "rel_ok s" and "v < length (tvars s)"
  shows "length (bigs s v) \<le> da_limit" "length (smalls s v) \<le> da_limit"
proof -
  have n: "length (tvars s) \<le> da_limit" using assms(1) by (simp add: rel_ok_def)
  have "set (bigs s v) \<subseteq> {..<length (tvars s)}" "set (smalls s v) \<subseteq> {..<length (tvars s)}"
    using assms rel_range [OF assms(1)] by (auto simp: bigs_rel smalls_rel)
  then have "card (set (bigs s v)) \<le> length (tvars s)" "card (set (smalls s v)) \<le> length (tvars s)"
    by (metis card_lessThan card_mono finite_lessThan)+
  then show "length (bigs s v) \<le> da_limit" "length (smalls s v) \<le> da_limit"
    using rel_okD [OF assms] n by (simp_all add: distinct_card)
qed

text \<open>\<open>rel_add s a b t\<close>: \<open>t\<close> is \<open>s\<close> with the pair \<open>(a, b)\<close> added to the relation.\<close>

definition rel_add :: "'f ssi \<Rightarrow> nat \<Rightarrow> nat \<Rightarrow> 'f ssi \<Rightarrow> bool" where
  "rel_add s a b t \<longleftrightarrow> rel_ok t \<and> rel t = insert (a, b) (rel s) \<and> no_arrays t = no_arrays s
     \<and> ((a, b) \<in> rel s \<longrightarrow> t = s)
     \<and> (\<forall>v<length (tvars s). (v \<noteq> a \<longrightarrow> bigs t v = bigs s v) \<and> (v \<noteq> b \<longrightarrow> smalls t v = smalls s v))"

lemma AddBigger_ok:
  assumes "a < length (tvars s)" and "da_ok (TVAR_BIGS (tvars s ! a))" and "length (bigs s a) \<le> da_limit"
  shows "\<exists>d. AddBigger a b s = Inr (s\<lparr>tvars := (tvars s)[a := (tvars s ! a)\<lparr>TVAR_BIGS := d\<rparr>]\<rparr>)
    \<and> da_ok d \<and> da_list d = bigs s a @ [b]"
  using da_add_ok [OF assms(2), of b] assms(1,3)
  by (auto simp: AddBigger_def tv_def set_tv_def bigs_def)

lemma AddSmaller_ok:
  assumes "a < length (tvars s)" and "da_ok (TVAR_SMALLS (tvars s ! a))" and "length (smalls s a) \<le> da_limit"
  shows "\<exists>d. AddSmaller a b s = Inr (s\<lparr>tvars := (tvars s)[a := (tvars s ! a)\<lparr>TVAR_SMALLS := d\<rparr>]\<rparr>)
    \<and> da_ok d \<and> da_list d = smalls s a @ [b]"
  using da_add_ok [OF assms(2), of b] assms(1,3)
  by (auto simp: AddSmaller_def tv_def set_tv_def smalls_def)

text \<open>The state after both arrays have been extended, in either order.\<close>

definition with_pair :: "'f ssi \<Rightarrow> nat \<Rightarrow> nat \<Rightarrow> nat dynarr \<Rightarrow> nat dynarr \<Rightarrow> 'f ssi" where
  "with_pair s a b d e =
     s\<lparr>tvars := map (\<lambda>v. (tvars s ! v)
        \<lparr>TVAR_BIGS := if v = a then d else TVAR_BIGS (tvars s ! v),
         TVAR_SMALLS := if v = b then e else TVAR_SMALLS (tvars s ! v)\<rparr>) [0..<length (tvars s)]\<rparr>"

lemma with_pair_add:
  assumes "rel_ok s" and "a < length (tvars s)" and "b < length (tvars s)" and "(a, b) \<notin> rel s"
    and "da_ok d" and "da_list d = bigs s a @ [b]" and "da_ok e" and "da_list e = smalls s b @ [a]"
  shows "rel_add s a b (with_pair s a b d e)"
proof -
  let ?t = "with_pair s a b d e"
  have len: "length (tvars ?t) = length (tvars s)" by (simp add: with_pair_def)
  have tvt: "TVAR_BIGS (tvars ?t ! v) = (if v = a then d else TVAR_BIGS (tvars s ! v))"
    "TVAR_SMALLS (tvars ?t ! v) = (if v = b then e else TVAR_SMALLS (tvars s ! v))"
    if "v < length (tvars s)" for v
    using that by (simp_all add: with_pair_def)
  have b: "bigs ?t v = (if v = a then bigs s a @ [b] else bigs s v)" if "v < length (tvars s)" for v
    using that tvt(1) assms(6) by (simp add: bigs_def)
  have sm: "smalls ?t v = (if v = b then smalls s b @ [a] else smalls s v)" if "v < length (tvars s)" for v
    using that tvt(2) assms(8) by (simp add: smalls_def)
  have r: "rel ?t = insert (a, b) (rel s)"
    using assms(2) b by (auto simp: rel_def len split: if_splits)
  have dist: "distinct (bigs s a @ [b])" "distinct (smalls s b @ [a])"
    using assms(1-4) rel_okD [OF assms(1)] by (auto simp: bigs_rel smalls_rel)
  have conv: "y < length (tvars s) \<and> x \<in> set (smalls ?t y) \<longleftrightarrow> (x, y) \<in> rel ?t" for x y
  proof (cases "y < length (tvars s)")
    case True
    then show ?thesis using sm [OF True] r smalls_rel [OF assms(1)] assms(3) by auto
  next
    case False
    then show ?thesis using r assms(3) rel_range [OF assms(1), of x y] by auto
  qed
  have "rel_ok ?t"
    unfolding rel_ok_def len
  proof (intro conjI allI impI)
    show "length (tvars s) \<le> da_limit" using assms(1) by (simp add: rel_ok_def)
    show "(x < length (tvars s) \<and> y \<in> set (bigs ?t x)) = (y < length (tvars s) \<and> x \<in> set (smalls ?t y))" for x y
      using conv [of y x] by (simp add: rel_def len)
  qed (use rel_okD [OF assms(1)] dist assms(5,7) in \<open>simp_all add: tvt b sm\<close>)
  moreover have "no_arrays ?t = no_arrays s"
    by (auto simp: no_arrays_def with_pair_def intro!: ssi.equality nth_equalityI)
  ultimately show ?thesis using r assms(4) b sm by (auto simp: rel_add_def)
qed

lemma AddBigger_AddSmaller:
  assumes "rel_ok s" and "a < length (tvars s)" and "b < length (tvars s)" and "(a, b) \<notin> rel s"
  shows "\<exists>t. bindR (AddBigger a b s) (AddSmaller b a) = Inr t \<and> rel_add s a b t"
    and "\<exists>t. bindR (AddSmaller b a s) (AddBigger a b) = Inr t \<and> rel_add s a b t"
proof -
  note ok = rel_okD [OF assms(1)] few_elems [OF assms(1)]
  obtain d where d: "AddBigger a b s = Inr (s\<lparr>tvars := (tvars s)[a := (tvars s ! a)\<lparr>TVAR_BIGS := d\<rparr>]\<rparr>)"
    "da_ok d" "da_list d = bigs s a @ [b]"
    using AddBigger_ok [of a s b] ok assms(2) by blast
  let ?s = "s\<lparr>tvars := (tvars s)[a := (tvars s ! a)\<lparr>TVAR_BIGS := d\<rparr>]\<rparr>"
  have same: "TVAR_SMALLS (tvars ?s ! b) = TVAR_SMALLS (tvars s ! b)" "smalls ?s b = smalls s b"
    using assms(2) by (cases "a = b"; simp add: smalls_def)+
  obtain e where e: "AddSmaller b a ?s = Inr (?s\<lparr>tvars := (tvars ?s)[b := (tvars ?s ! b)\<lparr>TVAR_SMALLS := e\<rparr>]\<rparr>)"
    "da_ok e" "da_list e = smalls s b @ [a]"
    using AddSmaller_ok [of b ?s a] ok assms(3) same by auto
  have "?s\<lparr>tvars := (tvars ?s)[b := (tvars ?s ! b)\<lparr>TVAR_SMALLS := e\<rparr>]\<rparr> = with_pair s a b d e"
    using assms(2,3) by (auto simp: with_pair_def nth_list_update intro!: ssi.equality nth_equalityI)
  with d(1) e(1) have "bindR (AddBigger a b s) (AddSmaller b a) = Inr (with_pair s a b d e)" by simp
  then show "\<exists>t. bindR (AddBigger a b s) (AddSmaller b a) = Inr t \<and> rel_add s a b t"
    using with_pair_add [OF assms d(2,3) e(2,3)] by blast
  obtain f where f: "AddSmaller b a s = Inr (s\<lparr>tvars := (tvars s)[b := (tvars s ! b)\<lparr>TVAR_SMALLS := f\<rparr>]\<rparr>)"
    "da_ok f" "da_list f = smalls s b @ [a]"
    using AddSmaller_ok [of b s a] ok assms(3) by blast
  let ?u = "s\<lparr>tvars := (tvars s)[b := (tvars s ! b)\<lparr>TVAR_SMALLS := f\<rparr>]\<rparr>"
  have same2: "TVAR_BIGS (tvars ?u ! a) = TVAR_BIGS (tvars s ! a)" "bigs ?u a = bigs s a"
    using assms(3) by (cases "a = b"; simp add: bigs_def)+
  obtain g where g: "AddBigger a b ?u = Inr (?u\<lparr>tvars := (tvars ?u)[a := (tvars ?u ! a)\<lparr>TVAR_BIGS := g\<rparr>]\<rparr>)"
    "da_ok g" "da_list g = bigs s a @ [b]"
    using AddBigger_ok [of a ?u b] ok assms(2) same2 by auto
  have "?u\<lparr>tvars := (tvars ?u)[a := (tvars ?u ! a)\<lparr>TVAR_BIGS := g\<rparr>]\<rparr> = with_pair s a b g f"
    using assms(2,3) by (auto simp: with_pair_def nth_list_update intro!: ssi.equality nth_equalityI)
  with f(1) g(1) have "bindR (AddSmaller b a s) (AddBigger a b) = Inr (with_pair s a b g f)" by simp
  then show "\<exists>t. bindR (AddSmaller b a s) (AddBigger a b) = Inr t \<and> rel_add s a b t"
    using with_pair_add [OF assms g(2,3) f(2,3)] by blast
qed

lemma rel_add_refl: "rel_ok s \<Longrightarrow> (a, b) \<in> rel s \<Longrightarrow> rel_add s a b s"
  by (auto simp: rel_add_def)

lemma relate_ok:
  assumes "rel_ok s" and "a < length (tvars s)" and "b < length (tvars s)"
  shows "\<exists>t. relate_up a b s = Inr t \<and> rel_add s a b t"
    and "\<exists>t. relate_down a b s = Inr t \<and> rel_add s a b t"
proof -
  have in_b: "IsIn b (TVAR_BIGS (tvars s ! a)) = Inr ((a, b) \<in> rel s)"
    using IsIn_ok [of "TVAR_BIGS (tvars s ! a)" b] rel_okD [OF assms(1,2)] bigs_rel [OF assms(2), of b]
    by (simp add: bigs_def)
  have in_a: "IsIn a (TVAR_SMALLS (tvars s ! b)) = Inr ((a, b) \<in> rel s)"
    using IsIn_ok [of "TVAR_SMALLS (tvars s ! b)" a] rel_okD [OF assms(1,3)] smalls_rel [OF assms(1,3), of a]
    by (simp add: smalls_def)
  show "\<exists>t. relate_up a b s = Inr t \<and> rel_add s a b t"
    using AddBigger_AddSmaller(1) [OF assms] rel_add_refl [OF assms(1)] in_b
    by (cases "(a, b) \<in> rel s") (auto simp: relate_up_def tv_ok assms)
  show "\<exists>t. relate_down a b s = Inr t \<and> rel_add s a b t"
    using AddBigger_AddSmaller(2) [OF assms] rel_add_refl [OF assms(1)] in_a
    by (cases "(a, b) \<in> rel s") (auto simp: relate_down_def tv_ok assms)
qed

subsection \<open>The loops\<close>

text \<open>\<open>rel_adds s P t\<close>: \<open>t\<close> is \<open>s\<close> with all pairs of \<open>P\<close> added.\<close>

definition rel_adds :: "'f ssi \<Rightarrow> (nat \<times> nat) set \<Rightarrow> 'f ssi \<Rightarrow> bool" where
  "rel_adds s P t \<longleftrightarrow> rel_ok t \<and> rel t = rel s \<union> P \<and> no_arrays t = no_arrays s"

lemma rel_adds_length: "rel_adds s P t \<Longrightarrow> length (tvars t) = length (tvars s)"
  by (metis no_arrays_length rel_adds_def)

lemma rel_adds_step: "rel_adds s P t \<Longrightarrow> rel_add t a b u \<Longrightarrow> rel_adds s (insert (a, b) P) u"
  by (simp add: rel_adds_def rel_add_def)

lemma num_bigs_ok: "rel_ok s \<Longrightarrow> v < length (tvars s) \<Longrightarrow> num_bigs v s = Inr (length (bigs s v))"
  by (simp add: num_bigs_def tv_ok bigs_def length_da_list rel_okD)

lemma num_smalls_ok: "rel_ok s \<Longrightarrow> v < length (tvars s) \<Longrightarrow> num_smalls v s = Inr (length (smalls s v))"
  by (simp add: num_smalls_def tv_ok smalls_def length_da_list rel_okD)

lemma TVAR_BIG_ok:
  "rel_ok s \<Longrightarrow> v < length (tvars s) \<Longrightarrow> i < length (bigs s v) \<Longrightarrow> TVAR_BIG v i s = Inr (bigs s v ! i)"
  by (simp add: TVAR_BIG_def tv_ok bigs_def rd_da rel_okD)

lemma TVAR_SMALL_ok:
  "rel_ok s \<Longrightarrow> v < length (tvars s) \<Longrightarrow> i < length (smalls s v) \<Longrightarrow> TVAR_SMALL v i s = Inr (smalls s v ! i)"
  by (simp add: TVAR_SMALL_def tv_ok smalls_def rd_da rel_okD)

lemma close_up_ok:
  assumes "rel_ok s" and "a < length (tvars s)" and "b < length (tvars s)"
  shows "\<exists>t. close_up a b s = Some (Inr t) \<and> rel_adds s ({a} \<times> set (bigs s b)) t"
proof -
  let ?B = "bigs s b"
  let ?P = "\<lambda>i t. rel_adds s ({a} \<times> set (take i ?B)) t \<and> bigs t b = ?B"
  have "\<exists>t. wfor 0 (num_bigs b) (\<lambda>i s. bindRO (TVAR_BIG b i s) (\<lambda>c. Some (relate_up a c s))) s
      = Some (Inr t) \<and> ?P (length ?B) t"
  proof (rule wfor_inv [where P = ?P])
    show "?P 0 s" using assms(1) by (simp add: rel_adds_def)
    show "num_bigs b t = Inr (length ?B)" if "?P i t" for i t
      using that assms(3) rel_adds_length [of s _ t] by (auto simp: num_bigs_ok rel_adds_def)
    fix i t assume i: "i < length ?B" and P: "?P i t"
    then have t: "rel_ok t" "length (tvars t) = length (tvars s)" "bigs t b = ?B"
      using rel_adds_length [of s _ t] by (auto simp: rel_adds_def)
    have "(b, ?B ! i) \<in> rel t" using bigs_rel [of b t "?B ! i"] t i assms(3) by simp
    then have c: "?B ! i < length (tvars t)" using rel_range [OF t(1)] by blast
    obtain u where u: "relate_up a (?B ! i) t = Inr u" "rel_add t a (?B ! i) u"
      using relate_ok(1) [OF t(1) _ c, of a] t(2) assms(2) by auto
    have "bigs u b = ?B"
      using u(2) t \<open>(b, ?B ! i) \<in> rel t\<close> assms(3) by (cases "a = b") (auto simp: rel_add_def)
    moreover have "rel_adds s ({a} \<times> set (take (i + 1) ?B)) u"
      using rel_adds_step [OF _ u(2)] P i by (auto simp: take_Suc_conv_app_nth insert_Times_insert)
    ultimately show "\<exists>u. bindRO (TVAR_BIG b i t) (\<lambda>c. Some (relate_up a c t)) = Some (Inr u) \<and> ?P (i + 1) u"
      using u(1) t i assms(3) by (simp add: TVAR_BIG_ok)
  qed simp
  then show ?thesis unfolding close_up_def by auto
qed

lemma close_down_ok:
  assumes "rel_ok s" and "a < length (tvars s)" and "b < length (tvars s)"
  shows "\<exists>t. close_down a b s = Some (Inr t) \<and> rel_adds s (set (smalls s a) \<times> {b}) t"
proof -
  let ?A = "smalls s a"
  let ?P = "\<lambda>i t. rel_adds s (set (take i ?A) \<times> {b}) t \<and> smalls t a = ?A"
  have "\<exists>t. wfor 0 (num_smalls a) (\<lambda>i s. bindRO (TVAR_SMALL a i s) (\<lambda>c. Some (relate_down c b s))) s
      = Some (Inr t) \<and> ?P (length ?A) t"
  proof (rule wfor_inv [where P = ?P])
    show "?P 0 s" using assms(1) by (simp add: rel_adds_def)
    show "num_smalls a t = Inr (length ?A)" if "?P i t" for i t
      using that assms(2) rel_adds_length [of s _ t] by (auto simp: num_smalls_ok rel_adds_def)
    fix i t assume i: "i < length ?A" and P: "?P i t"
    then have t: "rel_ok t" "length (tvars t) = length (tvars s)" "smalls t a = ?A"
      using rel_adds_length [of s _ t] by (auto simp: rel_adds_def)
    have in_rel: "(?A ! i, a) \<in> rel t" using smalls_rel [OF t(1), of a "?A ! i"] t i assms(2) by simp
    then have c: "?A ! i < length (tvars t)" using rel_range [OF t(1)] by blast
    obtain u where u: "relate_down (?A ! i) b t = Inr u" "rel_add t (?A ! i) b u"
      using relate_ok(2) [OF t(1) c, of b] t(2) assms(3) by auto
    have "smalls u a = ?A"
      using u(2) t in_rel assms(2) by (cases "a = b") (auto simp: rel_add_def)
    moreover have "rel_adds s (set (take (i + 1) ?A) \<times> {b}) u"
      using rel_adds_step [OF _ u(2)] P i by (auto simp: take_Suc_conv_app_nth insert_Times_insert)
    ultimately show "\<exists>u. bindRO (TVAR_SMALL a i t) (\<lambda>c. Some (relate_down c b t)) = Some (Inr u) \<and> ?P (i + 1) u"
      using u(1) t i assms(2) by (simp add: TVAR_SMALL_ok)
  qed simp
  then show ?thesis unfolding close_down_def by auto
qed

text \<open>The inner loop of the third: the variable \<open>x\<close> below \<open>a\<close> becomes related to all above \<open>b\<close>.\<close>

lemma close_both_inner:
  assumes "rel_ok s" and "a < length (tvars s)" and "b < length (tvars s)" and "i < length (smalls s a)"
  shows "\<exists>t. wfor 0 (num_bigs b) (\<lambda>j s. bindRO (TVAR_SMALL a i s) (\<lambda>x. bindRO (TVAR_BIG b j s) (\<lambda>y.
           Some (relate_down x y s)))) s = Some (Inr t)
       \<and> rel_adds s ({smalls s a ! i} \<times> set (bigs s b)) t \<and> smalls t a = smalls s a \<and> bigs t b = bigs s b"
proof -
  let ?A = "smalls s a" and ?B = "bigs s b"
  let ?P = "\<lambda>j t. rel_adds s ({?A ! i} \<times> set (take j ?B)) t \<and> smalls t a = ?A \<and> bigs t b = ?B"
  have "\<exists>t. wfor 0 (num_bigs b) (\<lambda>j s. bindRO (TVAR_SMALL a i s) (\<lambda>x. bindRO (TVAR_BIG b j s) (\<lambda>y.
           Some (relate_down x y s)))) s = Some (Inr t) \<and> ?P (length ?B) t"
  proof (rule wfor_inv [where P = ?P])
    show "?P 0 s" using assms(1) by (simp add: rel_adds_def)
    show "num_bigs b t = Inr (length ?B)" if "?P j t" for j t
      using that assms(3) rel_adds_length [of s _ t] by (auto simp: num_bigs_ok rel_adds_def)
    fix j t assume j: "j < length ?B" and P: "?P j t"
    then have t: "rel_ok t" "length (tvars t) = length (tvars s)" "smalls t a = ?A" "bigs t b = ?B"
      using rel_adds_length [of s _ t] by (auto simp: rel_adds_def)
    have in_a: "(?A ! i, a) \<in> rel t" using smalls_rel [OF t(1), of a "?A ! i"] t assms(2,4) by simp
    have in_b: "(b, ?B ! j) \<in> rel t" using bigs_rel [of b t "?B ! j"] t j assms(3) by simp
    have x: "?A ! i < length (tvars t)" "?B ! j < length (tvars t)"
      using in_a in_b rel_range [OF t(1)] by blast+
    obtain u where u: "relate_down (?A ! i) (?B ! j) t = Inr u" "rel_add t (?A ! i) (?B ! j) u"
      using relate_ok(2) [OF t(1) x] by auto
    have "smalls u a = ?A" "bigs u b = ?B"
      using u(2) t in_a in_b assms(2,3) by (auto simp: rel_add_def)
    moreover have "rel_adds s ({?A ! i} \<times> set (take (j + 1) ?B)) u"
      using rel_adds_step [OF _ u(2)] P j by (auto simp: take_Suc_conv_app_nth insert_Times_insert)
    ultimately show "\<exists>u. bindRO (TVAR_SMALL a i t) (\<lambda>x. bindRO (TVAR_BIG b j t) (\<lambda>y.
           Some (relate_down x y t))) = Some (Inr u) \<and> ?P (j + 1) u"
      using u(1) t j assms by (simp add: TVAR_SMALL_ok TVAR_BIG_ok)
  qed simp
  then show ?thesis by auto
qed

lemma close_both_ok:
  assumes "rel_ok s" and "a < length (tvars s)" and "b < length (tvars s)"
  shows "\<exists>t. close_both a b s = Some (Inr t) \<and> rel_adds s (set (smalls s a) \<times> set (bigs s b)) t"
proof -
  let ?A = "smalls s a" and ?B = "bigs s b"
  let ?P = "\<lambda>i t. rel_adds s (set (take i ?A) \<times> set ?B) t \<and> smalls t a = ?A \<and> bigs t b = ?B"
  let ?body = "\<lambda>i. wfor 0 (num_bigs b) (\<lambda>j s. bindRO (TVAR_SMALL a i s) (\<lambda>x. bindRO (TVAR_BIG b j s) (\<lambda>y.
           Some (relate_down x y s))))"
  have "\<exists>t. wfor 0 (num_smalls a) ?body s = Some (Inr t) \<and> ?P (length ?A) t"
  proof (rule wfor_inv [where P = ?P])
    show "?P 0 s" using assms(1) by (simp add: rel_adds_def)
    show "num_smalls a t = Inr (length ?A)" if "?P i t" for i t
      using that assms(2) rel_adds_length [of s _ t] by (auto simp: num_smalls_ok rel_adds_def)
    fix i t assume i: "i < length ?A" and P: "?P i t"
    then have t: "rel_ok t" "length (tvars t) = length (tvars s)" "smalls t a = ?A" "bigs t b = ?B"
      using rel_adds_length [of s _ t] by (auto simp: rel_adds_def)
    obtain u where u: "?body i t = Some (Inr u)" "rel_adds t ({?A ! i} \<times> set ?B) u"
      "smalls u a = ?A" "bigs u b = ?B"
      using close_both_inner [OF t(1), of a b i] t i assms by auto
    have "rel_adds s (set (take (i + 1) ?A) \<times> set ?B) u"
      using P u(2) i by (auto simp: rel_adds_def take_Suc_conv_app_nth)
    with u show "\<exists>u. ?body i t = Some (Inr u) \<and> ?P (i + 1) u" by blast
  qed simp
  then show ?thesis unfolding close_both_def by auto
qed

subsection \<open>The relation stays transitively closed\<close>

lemma close_all:
  assumes "rel_ok s" and "trans (rel s)" and "a < length (tvars s)" and "b < length (tvars s)"
    and "(a, b) \<notin> rel s"
  obtains t1 t2 t3 t4 t5 where "AddBigger a b s = Inr t1" "AddSmaller b a t1 = Inr t2"
    "close_up a b t2 = Some (Inr t3)" "close_down a b t3 = Some (Inr t4)"
    "close_both a b t4 = Some (Inr t5)"
    "rel_ok t5" "rel t5 = (insert (a, b) (rel s))\<^sup>+" "no_arrays t5 = no_arrays s"
proof -
  obtain t2 where t2: "bindR (AddBigger a b s) (AddSmaller b a) = Inr t2" "rel_add s a b t2"
    using AddBigger_AddSmaller(1) [OF assms(1,3,4,5)] by blast
  obtain t1 where t1: "AddBigger a b s = Inr t1" "AddSmaller b a t1 = Inr t2"
    using t2(1) by (auto simp: bindR_Inr_iff)
  have ok2: "rel_ok t2" "rel t2 = insert (a, b) (rel s)" "no_arrays t2 = no_arrays s"
    using t2(2) by (simp_all add: rel_add_def)
  then have l2: "length (tvars t2) = length (tvars s)" using no_arrays_length by blast
  obtain t3 where t3: "close_up a b t2 = Some (Inr t3)" "rel_adds t2 ({a} \<times> set (bigs t2 b)) t3"
    using close_up_ok [OF ok2(1), of a b] l2 assms(3,4) by auto
  then have ok3: "rel_ok t3" "length (tvars t3) = length (tvars s)"
    using rel_adds_length [of t2] l2 by (auto simp: rel_adds_def)
  obtain t4 where t4: "close_down a b t3 = Some (Inr t4)" "rel_adds t3 (set (smalls t3 a) \<times> {b}) t4"
    using close_down_ok [OF ok3(1), of a b] ok3(2) assms(3,4) by auto
  then have ok4: "rel_ok t4" "length (tvars t4) = length (tvars s)"
    using rel_adds_length [of t3] ok3 by (auto simp: rel_adds_def)
  obtain t5 where t5: "close_both a b t4 = Some (Inr t5)"
    "rel_adds t4 (set (smalls t4 a) \<times> set (bigs t4 b)) t5"
    using close_both_ok [OF ok4(1), of a b] ok4(2) assms(3,4) by auto
  let ?R = "rel s" and ?T = "(insert (a, b) (rel s))\<^sup>+"
  have r2: "rel t2 = insert (a, b) ?R" using ok2(2) .
  have r3: "rel t3 = rel t2 \<union> {a} \<times> {y. (b, y) \<in> rel t2}"
    using t3(2) set_bigs [of b t2] l2 assms(4) by (simp add: rel_adds_def)
  have r4: "rel t4 = rel t3 \<union> {x. (x, a) \<in> rel t3} \<times> {b}"
    using t4(2) set_smalls [OF ok3(1), of a] ok3(2) assms(3) by (simp add: rel_adds_def)
  have r5: "rel t5 = rel t4 \<union> {x. (x, a) \<in> rel t4} \<times> {y. (b, y) \<in> rel t4}"
    using t5(2) set_smalls [OF ok4(1), of a] set_bigs [of b t4] ok4(2) assms(3,4) by (simp add: rel_adds_def)
  have ab: "(a, b) \<in> ?T" by auto
  have "rel t2 \<subseteq> ?T" using r2 by auto
  then have "rel t3 \<subseteq> ?T" using r3 trancl_trans [OF ab] by auto
  then have "rel t4 \<subseteq> ?T" using r4 trancl_trans [OF _ ab] by auto
  then have "rel t5 \<subseteq> ?T" unfolding r5 using trancl_trans [OF _ trancl_trans [OF ab]] by blast
  moreover have "?T \<subseteq> rel t5"
  proof
    fix p assume "p \<in> ?T"
    then obtain x y where p: "p = (x, y)" "(x, y) \<in> ?R \<or> (x = a \<or> (x, a) \<in> ?R) \<and> (y = b \<or> (b, y) \<in> ?R)"
      using assms(2) by (cases p) (auto simp: trancl_insert rtrancl_eq_or_trancl)
    then show "p \<in> rel t5" using r2 r3 r4 r5 by auto
  qed
  ultimately have "rel t5 = ?T" by blast
  moreover have "no_arrays t5 = no_arrays s" "rel_ok t5"
    using ok2 t3(2) t4(2) t5(2) by (simp_all add: rel_adds_def)
  ultimately show thesis using that [OF t1 t3(1) t4(1) t5(1)] by blast
qed

end
