(* ===== verification/SSI_Solve.thy ===== *)
theory SSI_Solve
  imports SSI_Rel
begin

text \<open>
  What the solver computes: the constraints accepted so far, assignments of types to variables
  that satisfy them, and the lemmas that raising a bound along the relation keeps the assignment
  of the lower bounds the least solution.
\<close>

subsection \<open>Constraints and their solutions\<close>

text \<open>
  An assignment gives a variable a type, or \<open>None\<close> where nothing is known of it: \<open>None\<close> is below every
  type.
\<close>

fun ole :: "('a \<Rightarrow> 'a \<Rightarrow> bool) \<Rightarrow> 'a option \<Rightarrow> 'a option \<Rightarrow> bool" where
  "ole leq None y = True"
| "ole leq (Some a) None = False"
| "ole leq (Some a) (Some b) = leq a b"

text \<open>A missing upper bound allows everything.\<close>

fun within :: "('a \<Rightarrow> 'a \<Rightarrow> bool) \<Rightarrow> 'a option \<Rightarrow> 'a option \<Rightarrow> bool" where
  "within leq (Some a) (Some m) = leq a m"
| "within leq _ _ = True"

record 'a constr =
  lows :: "(nat \<times> 'a) set"
  ups :: "(nat \<times> 'a) set"
  rels :: "(nat \<times> nat) set"

definition no_constr :: "'a constr" where
  "no_constr = \<lparr>lows = {}, ups = {}, rels = {}\<rparr>"

abbreviation add_low :: "nat \<Rightarrow> 'a \<Rightarrow> 'a constr \<Rightarrow> 'a constr" where
  "add_low v a C \<equiv> C\<lparr>lows := insert (v, a) (lows C)\<rparr>"

abbreviation add_up :: "nat \<Rightarrow> 'a \<Rightarrow> 'a constr \<Rightarrow> 'a constr" where
  "add_up v a C \<equiv> C\<lparr>ups := insert (v, a) (ups C)\<rparr>"

abbreviation add_rel :: "nat \<Rightarrow> nat \<Rightarrow> 'a constr \<Rightarrow> 'a constr" where
  "add_rel a b C \<equiv> C\<lparr>rels := insert (a, b) (rels C)\<rparr>"

definition solves :: "('a \<Rightarrow> 'a \<Rightarrow> bool) \<Rightarrow> ('a \<Rightarrow> bool) \<Rightarrow> 'a constr \<Rightarrow> (nat \<Rightarrow> 'a option) \<Rightarrow> bool" where
  "solves leq good C \<sigma> \<longleftrightarrow> (\<forall>v a. \<sigma> v = Some a \<longrightarrow> good a)
     \<and> (\<forall>v a. (v, a) \<in> lows C \<longrightarrow> ole leq (Some a) (\<sigma> v))
     \<and> (\<forall>a b. (a, b) \<in> rels C \<longrightarrow> ole leq (\<sigma> a) (\<sigma> b))"

definition bounded :: "('a \<Rightarrow> 'a \<Rightarrow> bool) \<Rightarrow> 'a constr \<Rightarrow> (nat \<Rightarrow> 'a option) \<Rightarrow> bool" where
  "bounded leq C \<sigma> \<longleftrightarrow> (\<forall>v a. (v, a) \<in> ups C \<longrightarrow> ole leq (\<sigma> v) (Some a))"

definition least :: "('a \<Rightarrow> 'a \<Rightarrow> bool) \<Rightarrow> ('a \<Rightarrow> bool) \<Rightarrow> 'a constr \<Rightarrow> (nat \<Rightarrow> 'a option) \<Rightarrow> bool" where
  "least leq good C \<sigma> \<longleftrightarrow> solves leq good C \<sigma> \<and> (\<forall>\<tau>. solves leq good C \<tau> \<longrightarrow> (\<forall>v. ole leq (\<sigma> v) (\<tau> v)))"

text \<open>\<open>z\<close> is the least type above \<open>x\<close> and the type of \<open>y\<close>, if it has one.\<close>

definition olub :: "('a \<Rightarrow> 'a \<Rightarrow> bool) \<Rightarrow> ('a \<Rightarrow> bool) \<Rightarrow> 'a \<Rightarrow> 'a option \<Rightarrow> 'a \<Rightarrow> bool" where
  "olub leq good x y z \<longleftrightarrow> good z \<and> leq x z \<and> ole leq y (Some z)
     \<and> (\<forall>w. good w \<longrightarrow> leq x w \<longrightarrow> ole leq y (Some w) \<longrightarrow> leq z w)"

lemma solvesD:
  assumes "solves leq good C \<sigma>"
  shows "\<sigma> v = Some a \<Longrightarrow> good a" "(v, a) \<in> lows C \<Longrightarrow> ole leq (Some a) (\<sigma> v)"
    "(x, y) \<in> rels C \<Longrightarrow> ole leq (\<sigma> x) (\<sigma> y)"
  using assms by (auto simp: solves_def)

lemma leastD:
  assumes "least leq good C \<sigma>"
  shows "solves leq good C \<sigma>" "solves leq good C \<tau> \<Longrightarrow> ole leq (\<sigma> v) (\<tau> v)"
  using assms by (auto simp: least_def)

subsection \<open>Raising a bound\<close>

text \<open>
  The contract of the order of types that the solver relies on: reflexive and transitive.  \<open>good\<close> holds
  of the types that occur.
\<close>

locale type_order =
  fixes leq :: "'a \<Rightarrow> 'a \<Rightarrow> bool" and good :: "'a \<Rightarrow> bool"
  assumes leq_refl: "leq x x"
    and leq_trans: "leq x y \<Longrightarrow> leq y z \<Longrightarrow> leq x z"
begin

lemma ole_refl: "ole leq x x"
  by (cases x) (simp_all add: leq_refl)

lemma ole_Some: "ole leq (Some x) y \<longleftrightarrow> (\<exists>b. y = Some b \<and> leq x b)"
  by (cases y) auto

lemma ole_trans: "ole leq x y \<Longrightarrow> ole leq y z \<Longrightarrow> ole leq x z"
  by (cases x; cases y; cases z) (auto intro: leq_trans)

lemma olub_self: "olub leq good c y t \<Longrightarrow> olub leq good t y t"
  by (auto simp: olub_def leq_refl)

lemma olub_again:
  assumes "olub leq good t y z" and "olub leq good t (Some z) z'"
  shows "olub leq good t y z'"
  using assms unfolding olub_def by (auto intro: ole_trans [of y "Some z"])

lemma solves_trancl:
  assumes "solves leq good C \<sigma>" and "(a, b) \<in> (rels C)\<^sup>+"
  shows "ole leq (\<sigma> a) (\<sigma> b)"
  using assms(2)
proof (induction rule: trancl_induct)
  case (base y)
  then show ?case by (rule solvesD(3) [OF assms(1)])
next
  case (step y z)
  then show ?case using ole_trans solvesD(3) [OF assms(1)] by blast
qed

text \<open>
  \<open>\<sigma>'\<close> is \<open>\<sigma>\<close> with the type \<open>t\<close> pushed to \<open>v\<close> and to all variables above it.
\<close>

definition pushed :: "(nat \<times> nat) set \<Rightarrow> nat \<Rightarrow> 'a \<Rightarrow> (nat \<Rightarrow> 'a option) \<Rightarrow> (nat \<Rightarrow> 'a option) \<Rightarrow> bool" where
  "pushed R v t \<sigma> \<sigma>' \<longleftrightarrow> good t
     \<and> (\<forall>w. w = v \<or> (v, w) \<in> R \<longrightarrow> (\<exists>z. \<sigma>' w = Some z \<and> olub leq good t (\<sigma> w) z))
     \<and> (\<forall>w. w \<noteq> v \<and> (v, w) \<notin> R \<longrightarrow> \<sigma>' w = \<sigma> w)"

lemma pushed_above: "pushed R v t \<sigma> \<sigma>' \<Longrightarrow> ole leq (\<sigma> w) (\<sigma>' w)"
  unfolding pushed_def olub_def by (metis ole_refl)

lemma pushed_least:
  assumes p: "pushed R v t \<sigma> \<sigma>'" and "least leq good C \<sigma>"
    and "solves leq good C \<tau>" and "\<And>a b. (a, b) \<in> R \<Longrightarrow> ole leq (\<tau> a) (\<tau> b)"
    and "ole leq (Some t) (\<tau> v)"
  shows "ole leq (\<sigma>' w) (\<tau> w)"
proof (cases "w = v \<or> (v, w) \<in> R")
  case True
  then obtain z where z: "\<sigma>' w = Some z" "olub leq good t (\<sigma> w) z" using p by (auto simp: pushed_def)
  have "ole leq (Some t) (\<tau> w)" using True assms(4,5) ole_trans by blast
  then obtain e where e: "\<tau> w = Some e" "leq t e" by (auto simp: ole_Some)
  have "ole leq (\<sigma> w) (\<tau> w)" by (rule leastD(2) [OF assms(2,3)])
  then show ?thesis using z e solvesD(1) [OF assms(3)] by (simp add: olub_def)
next
  case False
  then show ?thesis using p assms(2,3) by (auto simp: pushed_def least_def)
qed

lemma pushed_solves:
  assumes p: "pushed ((rels C)\<^sup>+) v t \<sigma> \<sigma>'" and s: "solves leq good D \<sigma>" and "rels D \<subseteq> rels C"
  shows "(\<forall>w a. \<sigma>' w = Some a \<longrightarrow> good a) \<and> (\<forall>w a. (w, a) \<in> lows D \<longrightarrow> ole leq (Some a) (\<sigma>' w))
    \<and> (\<forall>a b. (a, b) \<in> rels D \<longrightarrow> ole leq (\<sigma>' a) (\<sigma>' b))"
proof (intro conjI allI impI)
  show "good a" if "\<sigma>' w = Some a" for w a
    using that p solvesD(1) [OF s] by (cases "w = v \<or> (v, w) \<in> (rels C)\<^sup>+") (auto simp: pushed_def olub_def)
  show "ole leq (Some a) (\<sigma>' w)" if "(w, a) \<in> lows D" for w a
    using ole_trans [OF solvesD(2) [OF s that] pushed_above [OF p]] .
  show "ole leq (\<sigma>' a) (\<sigma>' b)" if ab: "(a, b) \<in> rels D" for a b
  proof -
    have le: "ole leq (\<sigma> a) (\<sigma>' b)"
      using ole_trans [OF solvesD(3) [OF s ab] pushed_above [OF p]] .
    show ?thesis
    proof (cases "a = v \<or> (v, a) \<in> (rels C)\<^sup>+")
      case True
      then have b: "(v, b) \<in> (rels C)\<^sup>+" using ab assms(3) by (auto intro: trancl_into_trancl)
      then obtain y where y: "\<sigma>' b = Some y" "olub leq good t (\<sigma> b) y" using p by (auto simp: pushed_def)
      obtain x where "\<sigma>' a = Some x" "olub leq good t (\<sigma> a) x" using True p by (auto simp: pushed_def)
      then show ?thesis using y le by (auto simp: olub_def)
    next
      case False
      then show ?thesis using p le by (auto simp: pushed_def)
    qed
  qed
qed

text \<open>A new lower bound \<open>c\<close> of \<open>v\<close>: the least type above it and the old bound is pushed.\<close>

lemma least_add_low:
  assumes "least leq good C \<sigma>" and "olub leq good c (\<sigma> v) t" and p: "pushed ((rels C)\<^sup>+) v t \<sigma> \<sigma>'"
  shows "least leq good (add_low v c C) \<sigma>'"
proof -
  obtain z where z: "\<sigma>' v = Some z" "leq t z" using p by (auto simp: pushed_def olub_def)
  moreover have "leq c z" using assms(2) z leq_trans by (auto simp: olub_def)
  ultimately have "solves leq good (add_low v c C) \<sigma>'"
    using pushed_solves [OF p, of C] assms(1) by (auto simp: least_def solves_def)
  moreover have "ole leq (\<sigma>' w) (\<tau> w)" if t: "solves leq good (add_low v c C) \<tau>" for \<tau> w
  proof -
    have C: "solves leq good C \<tau>" using t by (simp add: solves_def)
    obtain d where d: "\<tau> v = Some d" "leq c d"
      using solvesD(2) [OF t, of v c] by (auto simp: ole_Some)
    then have "ole leq (Some t) (\<tau> v)"
      using assms(2) leastD(2) [OF assms(1) C, of v] solvesD(1) [OF C] by (simp add: olub_def)
    then show ?thesis using pushed_least [OF p assms(1) C] solves_trancl [OF C] by blast
  qed
  ultimately show ?thesis by (simp add: least_def)
qed

text \<open>A new pair \<open>(a, b)\<close>: the bound of \<open>a\<close> is pushed to \<open>b\<close> along the new relation.\<close>

lemma least_add_rel:
  assumes "least leq good C \<sigma>" and c: "\<sigma> a = Some c" and t: "olub leq good c (\<sigma> b) t"
    and p: "pushed ((rels (add_rel a b C))\<^sup>+) b t \<sigma> \<sigma>'"
  shows "least leq good (add_rel a b C) \<sigma>'"
proof -
  obtain z where z: "\<sigma>' b = Some z" "leq t z" "good z" using p by (auto simp: pushed_def olub_def)
  have cz: "leq c z" using t z leq_trans by (auto simp: olub_def)
  have "ole leq (\<sigma>' a) (\<sigma>' b)"
  proof (cases "a = b \<or> (b, a) \<in> (rels (add_rel a b C))\<^sup>+")
    case True
    then obtain x where "\<sigma>' a = Some x" "olub leq good t (\<sigma> a) x" using p by (auto simp: pushed_def)
    then show ?thesis using z cz c by (auto simp: olub_def)
  next
    case False
    then show ?thesis using p z cz c by (auto simp: pushed_def)
  qed
  moreover have "rels C \<subseteq> rels (add_rel a b C)" by auto
  ultimately have "solves leq good (add_rel a b C) \<sigma>'"
    using pushed_solves [OF p leastD(1) [OF assms(1)]] by (auto simp: solves_def)
  moreover have "ole leq (\<sigma>' w) (\<tau> w)" if s: "solves leq good (add_rel a b C) \<tau>" for \<tau> w
  proof -
    have C: "solves leq good C \<tau>" using s by (simp add: solves_def)
    note le = leastD(2) [OF assms(1) C]
    have "ole leq (\<tau> a) (\<tau> b)" by (rule solvesD(3) [OF s]) simp
    then have "ole leq (Some c) (\<tau> b)" using ole_trans [OF le [of a]] c by simp
    then obtain d where d: "\<tau> b = Some d" "leq c d" by (auto simp: ole_Some)
    then have "ole leq (Some t) (\<tau> b)" using t le [of b] solvesD(1) [OF C] by (simp add: olub_def)
    then show ?thesis using pushed_least [OF p assms(1) C] solves_trancl [OF s] by blast
  qed
  ultimately show ?thesis by (simp add: least_def)
qed

text \<open>Constraints that every solution satisfies anyway change nothing.\<close>

lemma least_same:
  assumes "least leq good C \<sigma>" and "\<And>\<tau>. solves leq good D \<tau> \<Longrightarrow> solves leq good C \<tau>"
    and "solves leq good D \<sigma>"
  shows "least leq good D \<sigma>"
  using assms by (auto simp: least_def)

end

interpretation ty: type_order "aleq :: 'f aty \<Rightarrow> 'f aty \<Rightarrow> bool" aty_ok
  by unfold_locales (auto intro: aleq_refl aleq_trans)

end
