(* ===== verification/SSI_Bounds.thy ===== *)
theory SSI_Bounds
  imports SSI_Solve
begin

text \<open>
  The bounds of the variables: how \<open>NewMin\<close> and \<open>NewMax\<close> change the assignments of the smallest and
  the largest types, and the theorems on the solver as a whole.  They are about states in which
  no handler is called (\<open>quiet\<close>): the assumption system is inactive, or no variable has a handle.
\<close>

definition opt_is :: "'f tenv \<Rightarrow> 'f ntype \<Rightarrow> 'f aty option \<Rightarrow> bool" where
  "opt_is E t x \<longleftrightarrow> (case x of None \<Rightarrow> t = NullT | Some \<alpha> \<Rightarrow> ty_is E t \<alpha>)"

definition no_bounds :: "'f ssi \<Rightarrow> 'f ssi" where
  "no_bounds s = s\<lparr>tvars := map (\<lambda>t. t\<lparr>TVAR_MIN := NullT, TVAR_MAX := NullT\<rparr>) (tvars s)\<rparr>"

definition quiet :: "'f ssi \<Rightarrow> bool" where
  "quiet s \<longleftrightarrow> (ass_system_active s \<longrightarrow> (\<forall>v<length (tvars s). da_num (TVAR_HANDS (tvars s ! v)) = 0))"

definition bounds_are ::
  "'f tenv \<Rightarrow> 'f ssi \<Rightarrow> (nat \<Rightarrow> 'f aty option) \<Rightarrow> (nat \<Rightarrow> 'f aty option) \<Rightarrow> bool" where
  "bounds_are E s \<sigma> \<mu> \<longleftrightarrow>
     (\<forall>v<length (tvars s). opt_is E (TVAR_MIN (tvars s ! v)) (\<sigma> v)
        \<and> opt_is E (TVAR_MAX (tvars s ! v)) (\<mu> v) \<and> within aleq (\<sigma> v) (\<mu> v))
     \<and> (\<forall>v\<ge>length (tvars s). \<sigma> v = None \<and> \<mu> v = None)"

lemma ty_is_not_Null: "ty_is E t \<alpha> \<Longrightarrow> t \<noteq> NullT"
  by (auto simp: ty_is_def)

lemma opt_is_Null: "opt_is E t x \<Longrightarrow> t = NullT \<longleftrightarrow> x = None"
  by (auto simp: opt_is_def ty_is_not_Null split: option.splits)

lemma opt_is_simps [simp]:
  "opt_is E NullT None" "opt_is E t (Some \<alpha>) \<longleftrightarrow> ty_is E t \<alpha>" "opt_is E t None \<longleftrightarrow> t = NullT"
  by (simp_all add: opt_is_def)

lemma bounds_areD:
  assumes "bounds_are E s \<sigma> \<mu>" and "v < length (tvars s)"
  shows "opt_is E (TVAR_MIN (tvars s ! v)) (\<sigma> v)" "opt_is E (TVAR_MAX (tvars s ! v)) (\<mu> v)"
    "within aleq (\<sigma> v) (\<mu> v)"
  using assms by (auto simp: bounds_are_def)

subsection \<open>What the bounds are not part of\<close>

lemma no_bounds_nth:
  assumes "no_bounds s = no_bounds t"
  shows "length (tvars s) = length (tvars t)"
    "v < length (tvars s) \<Longrightarrow> TVAR_BIGS (tvars s ! v) = TVAR_BIGS (tvars t ! v)
       \<and> TVAR_SMALLS (tvars s ! v) = TVAR_SMALLS (tvars t ! v)
       \<and> TVAR_HANDS (tvars s ! v) = TVAR_HANDS (tvars t ! v)"
    "ass_system_active s = ass_system_active t"
proof -
  have tv: "tvars (no_bounds s) = tvars (no_bounds t)" using assms by simp
  then show len: "length (tvars s) = length (tvars t)" by (simp add: no_bounds_def) (metis length_map)
  show "ass_system_active s = ass_system_active t"
    using arg_cong [OF assms, of ass_system_active] by (simp add: no_bounds_def)
  assume v: "v < length (tvars s)"
  have "(tvars s ! v)\<lparr>TVAR_MIN := NullT, TVAR_MAX := NullT\<rparr> = (tvars t ! v)\<lparr>TVAR_MIN := NullT, TVAR_MAX := NullT\<rparr>"
    using arg_cong [OF tv, of "\<lambda>xs. xs ! v"] v len by (simp add: no_bounds_def)
  then show "TVAR_BIGS (tvars s ! v) = TVAR_BIGS (tvars t ! v)
       \<and> TVAR_SMALLS (tvars s ! v) = TVAR_SMALLS (tvars t ! v)
       \<and> TVAR_HANDS (tvars s ! v) = TVAR_HANDS (tvars t ! v)"
    by (cases "tvars s ! v"; cases "tvars t ! v") simp
qed

lemma no_bounds_frame:
  assumes "no_bounds s = no_bounds t"
  shows "v < length (tvars s) \<Longrightarrow> bigs s v = bigs t v" "v < length (tvars s) \<Longrightarrow> smalls s v = smalls t v"
    "rel s = rel t" "rel_ok s = rel_ok t" "quiet s = quiet t"
proof -
  note f = no_bounds_nth [OF assms]
  show b: "bigs s v = bigs t v" if "v < length (tvars s)" for v using f that by (simp add: bigs_def)
  show sm: "smalls s v = smalls t v" if "v < length (tvars s)" for v using f that by (simp add: smalls_def)
  show "rel s = rel t" using b f(1) by (auto simp: rel_def)
  show "rel_ok s = rel_ok t" using b sm f by (simp add: rel_ok_def cong: conj_cong)
  show "quiet s = quiet t" using f by (simp add: quiet_def)
qed

lemma no_bounds_upd:
  "v < length (tvars s) \<Longrightarrow> no_bounds (s\<lparr>tvars := (tvars s)[v := (tvars s ! v)\<lparr>TVAR_MIN := m\<rparr>]\<rparr>) = no_bounds s"
  "v < length (tvars s) \<Longrightarrow> no_bounds (s\<lparr>tvars := (tvars s)[v := (tvars s ! v)\<lparr>TVAR_MAX := m\<rparr>]\<rparr>) = no_bounds s"
  by (auto simp: no_bounds_def map_update nth_list_update intro!: ssi.equality nth_equalityI)

subsection \<open>Lower bounds\<close>

text \<open>The candidate for the new bound, and the case that no type is above both arguments.\<close>

lemma lub_candidate:
  assumes "ty_is E cmin c" and "opt_is E m x"
  shows "\<exists>tmp. (if m = NullT then TYcopyType cmin else TYlubOfTypes E cmin m) = Inr tmp
     \<and> ((\<exists>t. ty_is E tmp t \<and> olub aleq aty_ok c x t)
        \<or> tmp = NullT \<and> (\<forall>d. aleq c d \<longrightarrow> \<not> ole aleq x (Some d)))"
proof (cases x)
  case None
  then have m: "m = NullT" using assms(2) by simp
  have "olub aleq aty_ok c x c" using None ty_is_ok [OF assms(1)] by (simp add: olub_def aleq_refl)
  then show ?thesis using m copy_ty [OF assms(1)] by auto
next
  case (Some b)
  then have m: "ty_is E m b" "m \<noteq> NullT" using assms(2) ty_is_not_Null by auto
  show ?thesis
  proof (cases "joinable c b")
    case True
    then show ?thesis
      using lub_main [OF assms(1) m(1)] m(2) Some by (auto simp: is_lub_def olub_def)
  next
    case False
    then have dis: "acmp c b = TY_dis" by (simp add: joinable_def)
    then have "TYlubOfTypes E cmin m = Inr NullT"
      by (simp add: TYlubOfTypes.simps [of E cmin m] ty_cmp [OF assms(1) m(1)])
    moreover have "\<not> aleq b d" if "aleq c d" for d
      using dis that by (cases d) (auto simp: acmp_dis)
    ultimately show ?thesis using m(2) Some by auto
  qed
qed

text \<open>No type can be the bound: above \<open>c\<close> and the old bound, and below the largest type.\<close>

definition no_room :: "'f aty \<Rightarrow> 'f aty option \<Rightarrow> 'f aty option \<Rightarrow> bool" where
  "no_room c x m \<longleftrightarrow> (\<forall>d. aty_ok d \<longrightarrow> aleq c d \<longrightarrow> ole aleq x (Some d) \<longrightarrow> \<not> within aleq (Some d) m)"

lemma InsertMin_quiet:
  assumes "quiet s" and "v < length (tvars s)"
  shows "InsertMinAndCheckAssumption H E v m s
    = Some (Inr (s\<lparr>tvars := (tvars s)[v := (tvars s ! v)\<lparr>TVAR_MIN := m\<rparr>]\<rparr>))"
  using assms by (auto simp: InsertMinAndCheckAssumption_def tv_ok set_tv_def quiet_def)

lemma bounds_set_min:
  assumes "bounds_are E s \<sigma> \<mu>" and "v < length (tvars s)" and "ty_is E m t" and "within aleq (Some t) (\<mu> v)"
  shows "bounds_are E (s\<lparr>tvars := (tvars s)[v := (tvars s ! v)\<lparr>TVAR_MIN := m\<rparr>]\<rparr>) (\<sigma>(v := Some t)) \<mu>"
  using assms by (auto simp: bounds_are_def nth_list_update)

text \<open>The loop that hands the new bound on to all larger variables.\<close>

abbreviation min_loop ::
  "'f handler \<Rightarrow> 'f tenv \<Rightarrow> nat \<Rightarrow> 'f ntype \<Rightarrow> 'f ssi \<Rightarrow> (bool \<times> 'f ssi) cres option" where
  "min_loop H E v tmp s \<equiv>
     wfor 0
       (\<lambda>(res, s). bindR (tv s v) (\<lambda>t. Inr (da_num (TVAR_BIGS t))))
       (\<lambda>i (res, s).
          if res
          then bindRO (tv s v) (\<lambda>t. bindRO (rd (da_cells (TVAR_BIGS t)) (int i)) (\<lambda>v.
                 NewMin H E v tmp False s))
          else Some (Inr (res, s)))
       (True, s)"

lemma NewMin_ok:
  assumes "bounds_are E s \<sigma> \<mu>" and "quiet s" and "v < length (tvars s)" and "ty_is E cmin c"
  shows "(\<exists>tmp t s1. ty_is E tmp t \<and> olub aleq aty_ok c (\<sigma> v) t
        \<and> NewMin H E v cmin outer s = (if outer then min_loop H E v tmp s1 else Some (Inr (True, s1)))
        \<and> bounds_are E s1 (\<sigma>(v := Some t)) \<mu> \<and> no_bounds s1 = no_bounds s)
     \<or> NewMin H E v cmin outer s = Some (Inr (False, s)) \<and> no_room c (\<sigma> v) (\<mu> v)"
proof -
  let ?t = "tvars s ! v"
  note b = bounds_areD [OF assms(1,3)]
  obtain tmp where tmp: "(if TVAR_MIN ?t = NullT then TYcopyType cmin else TYlubOfTypes E cmin (TVAR_MIN ?t)) = Inr tmp"
    "(\<exists>t. ty_is E tmp t \<and> olub aleq aty_ok c (\<sigma> v) t)
     \<or> tmp = NullT \<and> (\<forall>d. aleq c d \<longrightarrow> \<not> ole aleq (\<sigma> v) (Some d))"
    using lub_candidate [OF assms(4) b(1)] by blast
  note [simp] = NewMin.simps [of H E v cmin outer s] ty_is_not_Null [OF assms(4)] tv_ok [OF assms(3)] tmp(1)
  show ?thesis
  proof (cases "tmp = NullT")
    case True
    then have "NewMin H E v cmin outer s = Some (Inr (False, s))" by simp
    moreover have "no_room c (\<sigma> v) (\<mu> v)" using True tmp(2) ty_is_not_Null by (auto simp: no_room_def)
    ultimately show ?thesis by blast
  next
    case False
    then obtain t where t: "ty_is E tmp t" "olub aleq aty_ok c (\<sigma> v) t" using tmp(2) by blast
    have legal: "(if TVAR_MAX ?t = NullT then Inr True else TYleTypes E tmp (TVAR_MAX ?t))
        = Inr (within aleq (Some t) (\<mu> v))"
      using b(2) ty_le [OF t(1)] by (cases "\<mu> v") (auto simp: ty_is_not_Null)
    show ?thesis
    proof (cases "within aleq (Some t) (\<mu> v)")
      case fits: True
      obtain m where m: "TYcopyType tmp = Inr m" "ty_is E m t" using copy_ty [OF t(1)] by blast
      let ?s = "s\<lparr>tvars := (tvars s)[v := ?t\<lparr>TVAR_MIN := m\<rparr>]\<rparr>"
      have "NewMin H E v cmin outer s = (if outer then min_loop H E v tmp ?s else Some (Inr (True, ?s)))"
        using False legal fits m by (simp add: InsertMin_quiet [OF assms(2,3)])
      then show ?thesis
        using t bounds_set_min [OF assms(1,3) m(2) fits] no_bounds_upd(1) [OF assms(3)] by blast
    next
      case no_fit: False
      then have "NewMin H E v cmin outer s = Some (Inr (False, s))" using False legal by simp
      moreover have "no_room c (\<sigma> v) (\<mu> v)"
      proof -
        obtain m where m: "\<mu> v = Some m" "\<not> aleq t m" using no_fit by (cases "\<mu> v") auto
        then show ?thesis
          using t(2) aleq_trans by (auto simp: no_room_def olub_def)
      qed
      ultimately show ?thesis by blast
    qed
  qed
qed

lemma no_room_again:
  assumes "olub aleq aty_ok t x z" and "no_room t (Some z) m"
  shows "no_room t x m"
  using assms by (auto simp: no_room_def olub_def)

definition raised :: "nat set \<Rightarrow> 'f aty \<Rightarrow> (nat \<Rightarrow> 'f aty option) \<Rightarrow> (nat \<Rightarrow> 'f aty option) \<Rightarrow> bool" where
  "raised S t \<sigma> \<sigma>' \<longleftrightarrow> (\<forall>w. if w \<in> S then \<exists>z. \<sigma>' w = Some z \<and> olub aleq aty_ok t (\<sigma> w) z else \<sigma>' w = \<sigma> w)"

lemma raisedD:
  assumes "raised S t \<sigma> \<sigma>'"
  shows "w \<in> S \<Longrightarrow> \<exists>z. \<sigma>' w = Some z \<and> olub aleq aty_ok t (\<sigma> w) z" "w \<notin> S \<Longrightarrow> \<sigma>' w = \<sigma> w"
  using assms by (auto simp: raised_def)

lemma raised_pushed:
  "raised (insert v {w. (v, w) \<in> R}) t \<sigma> \<sigma>' \<Longrightarrow> aty_ok t \<Longrightarrow> ty.pushed R v t \<sigma> \<sigma>'"
  by (auto simp: raised_def ty.pushed_def)

lemma raised_again:
  assumes "raised S t \<sigma> \<sigma>'" and "olub aleq aty_ok t (\<sigma>' w) z"
  shows "raised (insert w S) t \<sigma> (\<sigma>'(w := Some z))"
proof -
  have "olub aleq aty_ok t (\<sigma> w) z"
    using raisedD [OF assms(1), of w] assms(2) ty.olub_again by (cases "w \<in> S") auto
  then show ?thesis using assms(1) by (auto simp: raised_def)
qed

lemma raised_no_room:
  assumes "raised S t \<sigma> \<sigma>'" and "no_room t (\<sigma>' w) m"
  shows "no_room t (\<sigma> w) m"
  using raisedD [OF assms(1), of w] assms(2) no_room_again by (cases "w \<in> S") auto

lemma min_loop_ok:
  assumes "bounds_are E s \<sigma>1 \<mu>" and "quiet s" and "rel_ok s" and "v < length (tvars s)" and "ty_is E tmp t"
    and "olub aleq aty_ok t (\<sigma> v) t" and "\<sigma>1 = \<sigma>(v := Some t)"
  shows "\<exists>b u. min_loop H E v tmp s = Some (Inr (b, u)) \<and> no_bounds u = no_bounds s
    \<and> (if b then \<exists>\<sigma>'. ty.pushed (rel s) v t \<sigma> \<sigma>' \<and> bounds_are E u \<sigma>' \<mu>
       else \<exists>w. (v, w) \<in> rel s \<and> no_room t (\<sigma> w) (\<mu> w))"
proof -
  let ?B = "bigs s v"
  let ?up = "\<lambda>i. raised (insert v (set (take i ?B))) t \<sigma>"
  let ?P = "\<lambda>i (b, u). no_bounds u = no_bounds s
      \<and> (if b then \<exists>\<sigma>'. bounds_are E u \<sigma>' \<mu> \<and> ?up i \<sigma>' else \<exists>w\<in>set ?B. no_room t (\<sigma> w) (\<mu> w))"
  let ?bnd = "\<lambda>(res, s). bindR (tv s v) (\<lambda>t. Inr (da_num (TVAR_BIGS t)))"
  let ?body = "\<lambda>i (res, s). if res
      then bindRO (tv s v) (\<lambda>t. bindRO (rd (da_cells (TVAR_BIGS t)) (int i)) (\<lambda>v. NewMin H E v tmp False s))
      else Some (Inr (res, s))"
  have frame: "tv u v = Inr (tvars u ! v)" "da_num (TVAR_BIGS (tvars u ! v)) = length ?B"
    "i < length ?B \<Longrightarrow> rd (da_cells (TVAR_BIGS (tvars u ! v))) (int i) = Inr (?B ! i)"
    if "no_bounds u = no_bounds s" for u i
    using no_bounds_nth [OF that] assms(4) rel_okD(1) [OF assms(3,4)] rd_da [of "TVAR_BIGS (tvars s ! v)"]
    by (simp_all add: tv_ok bigs_def length_da_list)
  have "\<exists>r. wfor 0 ?bnd ?body (True, s) = Some (Inr r) \<and> ?P (length ?B) r"
  proof (rule wfor_inv [where P = ?P])
    have "?up 0 \<sigma>1" using assms(6,7) by (auto simp: raised_def)
    then show "?P 0 (True, s)" using assms(1) by auto
    show "?bnd r = Inr (length ?B)" if "?P i r" for i r
      using that frame by (cases r) simp
    fix i r assume i: "i < length ?B" and P: "?P i r"
    obtain b u where r: "r = (b, u)" by (cases r)
    show "\<exists>r'. ?body i r = Some (Inr r') \<and> ?P (i + 1) r'"
    proof (cases b)
      case False
      then show ?thesis using P r by auto
    next
      case True
      let ?w = "?B ! i"
      obtain \<sigma>' where s': "bounds_are E u \<sigma>' \<mu>" "?up i \<sigma>'" and nb: "no_bounds u = no_bounds s"
        using P r True by auto
      have w: "?w < length (tvars u)"
        using rel_range [OF assms(3), of v ?w] bigs_rel [OF assms(4), of ?w] i no_bounds_nth(1) [OF nb] by simp
      have body: "?body i r = NewMin H E ?w tmp False u" using r True frame [OF nb] i by simp
      have q: "quiet u" using no_bounds_frame(5) [OF nb] assms(2) by simp
      consider (ok) z u' where "olub aleq aty_ok t (\<sigma>' ?w) z" "NewMin H E ?w tmp False u = Some (Inr (True, u'))"
          "bounds_are E u' (\<sigma>'(?w := Some z)) \<mu>" "no_bounds u' = no_bounds u"
        | (bad) "NewMin H E ?w tmp False u = Some (Inr (False, u))" "no_room t (\<sigma>' ?w) (\<mu> ?w)"
        using NewMin_ok [OF s'(1) q w assms(5), of H False] by auto
      then show ?thesis
      proof cases
        case ok
        have "insert ?w (insert v (set (take i ?B))) = insert v (set (take (i + 1) ?B))"
          using i by (auto simp: take_Suc_conv_app_nth)
        then have "?up (i + 1) (\<sigma>'(?w := Some z))" using raised_again [OF s'(2) ok(1)] by simp
        then show ?thesis using body ok nb by auto
      next
        case bad
        have "no_room t (\<sigma> ?w) (\<mu> ?w)" using raised_no_room [OF s'(2) bad(2)] .
        then show ?thesis using body bad(1) nb i by auto
      qed
    qed
  qed simp
  then obtain b u where bu: "min_loop H E v tmp s = Some (Inr (b, u))" "?P (length ?B) (b, u)" by auto
  have pushed: "ty.pushed (rel s) v t \<sigma> \<sigma>'" if "?up (length ?B) \<sigma>'" for \<sigma>'
    using that raised_pushed [of v "rel s"] ty_is_ok [OF assms(5)] set_bigs [OF assms(4)] by simp
  show ?thesis using bu pushed set_bigs [OF assms(4)] by (cases b) auto
qed

text \<open>
  The effect of \<open>SSInewMin\<close> on the assignment: on success the least type above the new and the old
  bound has been pushed along the relation; on failure some variable has no room for it.
\<close>

lemma SSInewMin_ok:
  assumes "bounds_are E s \<sigma> \<mu>" and "quiet s" and "rel_ok s" and "v < length (tvars s)" and "ty_is E cmin c"
  shows "\<exists>b u. SSInewMin H E v cmin s = Some (Inr (b, u)) \<and> no_bounds u = no_bounds s
    \<and> (if b then \<exists>t \<sigma>'. olub aleq aty_ok c (\<sigma> v) t \<and> ty.pushed (rel s) v t \<sigma> \<sigma>' \<and> bounds_are E u \<sigma>' \<mu>
       else no_room c (\<sigma> v) (\<mu> v)
         \<or> (\<exists>t w. olub aleq aty_ok c (\<sigma> v) t \<and> (v, w) \<in> rel s \<and> no_room t (\<sigma> w) (\<mu> w)))"
proof -
  consider (ok) tmp t s1 where "ty_is E tmp t" "olub aleq aty_ok c (\<sigma> v) t"
      "NewMin H E v cmin True s = min_loop H E v tmp s1" "bounds_are E s1 (\<sigma>(v := Some t)) \<mu>"
      "no_bounds s1 = no_bounds s"
    | (bad) "NewMin H E v cmin True s = Some (Inr (False, s))" "no_room c (\<sigma> v) (\<mu> v)"
    using NewMin_ok [OF assms(1,2,4,5), of H True] by auto
  then show ?thesis
  proof cases
    case ok
    note f = no_bounds_frame [OF ok(5)] no_bounds_nth(1) [OF ok(5)]
    obtain b u where "min_loop H E v tmp s1 = Some (Inr (b, u))" "no_bounds u = no_bounds s1"
      "if b then \<exists>\<sigma>'. ty.pushed (rel s1) v t \<sigma> \<sigma>' \<and> bounds_are E u \<sigma>' \<mu>
       else \<exists>w. (v, w) \<in> rel s1 \<and> no_room t (\<sigma> w) (\<mu> w)"
      using min_loop_ok [OF ok(4) _ _ _ ok(1), of v \<sigma> H] ty.olub_self [OF ok(2)] f assms by auto
    then show ?thesis using ok f(3) by (cases b) (auto simp: SSInewMin_def)
  next
    case bad
    then show ?thesis by (auto simp: SSInewMin_def)
  qed
qed

subsection \<open>Upper bounds\<close>

definition tighter :: "(nat \<Rightarrow> 'f aty option) \<Rightarrow> (nat \<Rightarrow> 'f aty option) \<Rightarrow> bool" where
  "tighter \<mu>' \<mu> \<longleftrightarrow> (\<forall>w a. \<mu> w = Some a \<longrightarrow> (\<exists>b. \<mu>' w = Some b \<and> aleq b a))"

lemma tighter_refl: "tighter \<mu> \<mu>"
  by (simp add: tighter_def aleq_refl)

lemma tighter_trans: "tighter \<mu>2 \<mu>1 \<Longrightarrow> tighter \<mu>1 \<mu>0 \<Longrightarrow> tighter \<mu>2 \<mu>0"
  unfolding tighter_def by (meson aleq_trans)

text \<open>What one variable does with a new upper bound \<open>m\<close>: it takes it, or its own says more, or it is ignored.\<close>

definition max_step :: "'f aty \<Rightarrow> nat \<Rightarrow> (nat \<Rightarrow> 'f aty option) \<Rightarrow> (nat \<Rightarrow> 'f aty option) \<Rightarrow> bool" where
  "max_step m v \<mu> \<mu>' \<longleftrightarrow> tighter \<mu>' \<mu>
     \<and> (\<mu>' = \<mu>(v := Some m) \<or> \<mu>' = \<mu> \<and> (\<exists>m0. \<mu> v = Some m0 \<and> (aleq m0 m \<or> acmp m m0 = TY_hcs)))"

abbreviation max_loop ::
  "'f tenv \<Rightarrow> nat \<Rightarrow> 'f ntype \<Rightarrow> bool \<times> 'f ssi \<Rightarrow> (bool \<times> 'f ssi) cres option" where
  "max_loop E v cmax rs \<equiv>
     wfor 0
       (\<lambda>(res, s). bindR (tv s v) (\<lambda>t. Inr (da_num (TVAR_SMALLS t))))
       (\<lambda>i (res, s).
          if res
          then bindRO (tv s v) (\<lambda>t. bindRO (rd (da_cells (TVAR_SMALLS t)) (int i)) (\<lambda>v.
                 NewMax E v cmax False s))
          else Some (Inr (res, s)))
       rs"

lemma bounds_set_max:
  assumes "bounds_are E s \<sigma> \<mu>" and "v < length (tvars s)" and "ty_is E c m" and "within aleq (\<sigma> v) (Some m)"
  shows "bounds_are E (s\<lparr>tvars := (tvars s)[v := (tvars s ! v)\<lparr>TVAR_MAX := c\<rparr>]\<rparr>) \<sigma> (\<mu>(v := Some m))"
  using assms by (auto simp: bounds_are_def nth_list_update)

lemma set_max_ok:
  assumes "v < length (tvars s)" and "ty_is E cmax m"
  obtains c where "ty_is E c m"
    "set_max v cmax s = Inr (s\<lparr>tvars := (tvars s)[v := (tvars s ! v)\<lparr>TVAR_MAX := c\<rparr>]\<rparr>)"
  using copy_ty [OF assms(2)] assms(1) by (auto simp: set_max_def tv_ok set_tv_def)

lemma le_within:
  assumes "opt_is E t x" and "ty_is E u m" and "t \<noteq> NullT"
  shows "TYleTypes E t u = Inr (within aleq x (Some m))"
  using assms ty_le [OF _ assms(2)] by (cases x) auto

lemma NewMax_ok:
  assumes b: "bounds_are E s \<sigma> \<mu>" and v: "v < length (tvars s)" and m: "ty_is E cmax m"
  shows "(\<exists>r u. NewMax E v cmax outer s = Some (Inr (r, u)) \<and> no_bounds u = no_bounds s
        \<and> (r \<longrightarrow> (\<exists>\<mu>'. bounds_are E u \<sigma> \<mu>' \<and> max_step m v \<mu> \<mu>')))
     \<or> (outer \<and> (\<exists>r s1. NewMax E v cmax outer s = max_loop E v cmax (r, s1) \<and> no_bounds s1 = no_bounds s
          \<and> (r \<longrightarrow> bounds_are E s1 \<sigma> (\<mu>(v := Some m)) \<and> max_step m v \<mu> (\<mu>(v := Some m)))))"
proof -
  let ?t = "tvars s ! v"
  note bv = bounds_areD [OF b v]
  obtain c where c: "ty_is E c m"
    "set_max v cmax s = Inr (s\<lparr>tvars := (tvars s)[v := ?t\<lparr>TVAR_MAX := c\<rparr>]\<rparr>)"
    using set_max_ok [OF v m] by blast
  let ?s = "s\<lparr>tvars := (tvars s)[v := ?t\<lparr>TVAR_MAX := c\<rparr>]\<rparr>"
  have set: "no_bounds ?s = no_bounds s"
    "within aleq (\<sigma> v) (Some m) \<Longrightarrow> bounds_are E ?s \<sigma> (\<mu>(v := Some m))"
    using no_bounds_upd(2) [OF v] bounds_set_max [OF b v c(1)] by blast+
  have none: "within aleq (\<sigma> v) (Some m)" if "TVAR_MIN ?t = NullT"
    using that opt_is_Null [OF bv(1)] by (cases "\<sigma> v") auto
  note [simp] = NewMax.simps [of E v cmax outer s] ty_is_not_Null [OF m] tv_ok [OF v]
  show ?thesis
  proof (cases "\<mu> v")
    case None
    then have max0: "TVAR_MAX ?t = NullT" using bv(2) by simp
    have t': "tv ?s v = Inr (?t\<lparr>TVAR_MAX := c\<rparr>)" using v by (simp add: tv_def)
    have "max_step m v \<mu> (\<mu>(v := Some m))" using None by (auto simp: max_step_def tighter_def aleq_refl)
    moreover have "NewMax E v cmax outer s = Some (Inr (within aleq (\<sigma> v) (Some m), ?s))"
      using max0 c t' le_within [OF bv(1) c(1)] none by (cases "TVAR_MIN ?t = NullT") simp_all
    ultimately show ?thesis using set by blast
  next
    case (Some m0)
    then have max: "TVAR_MAX ?t \<noteq> NullT" "ty_is E (TVAR_MAX ?t) m0" using bv(2) ty_is_not_Null by auto
    have cmp: "TYcmpTypes E cmax (TVAR_MAX ?t) = Inr (acmp m m0)" by (rule ty_cmp [OF m max(2)])
    show ?thesis
    proof (cases "acmp m m0 = TY_lt")
      case lt: True
      let ?r = "within aleq (\<sigma> v) (Some m)"
      let ?u = "if ?r then ?s else s"
      have upd: "(if TVAR_MIN ?t = NullT then bindR (set_max v cmax s) (\<lambda>s. Inr (True, s))
           else bindR (TYleTypes E (TVAR_MIN ?t) cmax) (\<lambda>b. if b
             then bindR (set_max v cmax s) (\<lambda>s. Inr (True, s)) else Inr (False, s))) = Inr (?r, ?u)"
        using c(2) le_within [OF bv(1) m] none by (cases "TVAR_MIN ?t = NullT") simp_all
      have step: "max_step m v \<mu> (\<mu>(v := Some m))"
        using Some lt by (auto simp: max_step_def tighter_def aleq_def aleq_refl [unfolded aleq_def])
      have eq: "NewMax E v cmax outer s = (if outer then max_loop E v cmax (?r, ?u) else Some (Inr (?r, ?u)))"
        using max cmp lt upd by simp
      have "no_bounds ?u = no_bounds s" using set(1) by simp
      moreover have "?r \<longrightarrow> bounds_are E ?u \<sigma> (\<mu>(v := Some m)) \<and> max_step m v \<mu> (\<mu>(v := Some m))"
        using set(2) step by simp
      ultimately show ?thesis using eq by (cases outer) (simp_all only: if_True if_False simp_thms, blast+)
    next
      case False
      have "max_step m v \<mu> \<mu>" if "acmp m m0 \<noteq> TY_dis"
        using that False Some acmp_gt [of m m0] acmp_eq [of m m0] tighter_refl [of \<mu>]
        by (cases "acmp m m0") (auto simp: max_step_def aleq_refl)
      then show ?thesis using max cmp False b by (cases "acmp m m0 = TY_dis") auto
    qed
  qed
qed

text \<open>The bounds changed only to \<open>m\<close>, and only those of \<open>v\<close> and of the variables below it.\<close>

definition max_spread ::
  "(nat \<times> nat) set \<Rightarrow> 'f aty \<Rightarrow> nat \<Rightarrow> (nat \<Rightarrow> 'f aty option) \<Rightarrow> (nat \<Rightarrow> 'f aty option) \<Rightarrow> bool" where
  "max_spread R m v \<mu> \<mu>' \<longleftrightarrow> tighter \<mu>' \<mu>
     \<and> (\<forall>w. \<mu>' w = \<mu> w \<or> \<mu>' w = Some m \<and> (w = v \<or> (w, v) \<in> R))"

lemma max_spread_step:
  assumes "max_spread R m v \<mu> \<mu>1" and "max_step m w \<mu>1 \<mu>2" and "w = v \<or> (w, v) \<in> R"
  shows "max_spread R m v \<mu> \<mu>2"
proof -
  have "tighter \<mu>2 \<mu>" using assms(1,2) tighter_trans by (auto simp: max_spread_def max_step_def)
  moreover have "\<mu>2 x = \<mu>1 x \<or> \<mu>2 x = Some m \<and> x = w" for x
    using assms(2) by (auto simp: max_step_def split: if_splits)
  ultimately show ?thesis using assms(1,3) unfolding max_spread_def by metis
qed

lemma max_loop_ok:
  assumes "r \<longrightarrow> bounds_are E s \<sigma> \<mu>1 \<and> max_spread (rel s) m v \<mu> \<mu>1" and "rel_ok s"
    and "v < length (tvars s)" and "ty_is E cmax m"
  shows "\<exists>q u. max_loop E v cmax (r, s) = Some (Inr (q, u)) \<and> no_bounds u = no_bounds s
    \<and> (q \<longrightarrow> r \<and> (\<exists>\<mu>'. bounds_are E u \<sigma> \<mu>' \<and> max_spread (rel s) m v \<mu> \<mu>' \<and> tighter \<mu>' \<mu>1))"
proof -
  let ?A = "smalls s v"
  let ?P = "\<lambda>i :: nat. \<lambda>(q, u). no_bounds u = no_bounds s
      \<and> (q \<longrightarrow> r \<and> (\<exists>\<mu>'. bounds_are E u \<sigma> \<mu>' \<and> max_spread (rel s) m v \<mu> \<mu>' \<and> tighter \<mu>' \<mu>1))"
  let ?bnd = "\<lambda>(res, s). bindR (tv s v) (\<lambda>t. Inr (da_num (TVAR_SMALLS t)))"
  let ?body = "\<lambda>i (res, s). if res
      then bindRO (tv s v) (\<lambda>t. bindRO (rd (da_cells (TVAR_SMALLS t)) (int i)) (\<lambda>v. NewMax E v cmax False s))
      else Some (Inr (res, s))"
  have frame: "tv u v = Inr (tvars u ! v)" "da_num (TVAR_SMALLS (tvars u ! v)) = length ?A"
    "i < length ?A \<Longrightarrow> rd (da_cells (TVAR_SMALLS (tvars u ! v))) (int i) = Inr (?A ! i)"
    if "no_bounds u = no_bounds s" for u i
    using no_bounds_nth [OF that] assms(3) rel_okD(2) [OF assms(2,3)] rd_da [of "TVAR_SMALLS (tvars s ! v)"]
    by (simp_all add: tv_ok smalls_def length_da_list)
  have "\<exists>x. wfor 0 ?bnd ?body (r, s) = Some (Inr x) \<and> ?P (length ?A) x"
  proof (rule wfor_inv [where P = ?P])
    show "?P 0 (r, s)" using assms(1) tighter_refl by auto
    show "?bnd x = Inr (length ?A)" if "?P i x" for i x
      using that frame by (cases x) simp
    fix i x assume i: "i < length ?A" and P: "?P i x"
    obtain q u where x: "x = (q, u)" by (cases x)
    show "\<exists>x'. ?body i x = Some (Inr x') \<and> ?P (i + 1) x'"
    proof (cases q)
      case False
      then show ?thesis using P x by auto
    next
      case True
      let ?w = "?A ! i"
      obtain \<mu>' where s': "bounds_are E u \<sigma> \<mu>'" "max_spread (rel s) m v \<mu> \<mu>'" "tighter \<mu>' \<mu>1" "r"
        and nb: "no_bounds u = no_bounds s"
        using P x True by auto
      have in_rel: "(?w, v) \<in> rel s" using smalls_rel [OF assms(2,3), of ?w] i by simp
      then have w: "?w < length (tvars u)" using rel_range [OF assms(2)] no_bounds_nth(1) [OF nb] by simp
      have body: "?body i x = NewMax E ?w cmax False u" using x True frame [OF nb] i by simp
      obtain p u' where p: "NewMax E ?w cmax False u = Some (Inr (p, u'))" "no_bounds u' = no_bounds u"
        "p \<longrightarrow> (\<exists>\<mu>2. bounds_are E u' \<sigma> \<mu>2 \<and> max_step m ?w \<mu>' \<mu>2)"
        using NewMax_ok [OF s'(1) w assms(4), of False] by auto
      have "p \<longrightarrow> (\<exists>\<mu>2. bounds_are E u' \<sigma> \<mu>2 \<and> max_spread (rel s) m v \<mu> \<mu>2 \<and> tighter \<mu>2 \<mu>1)"
        using p(3) max_spread_step [OF s'(2)] in_rel tighter_trans [OF _ s'(3)]
        by (meson max_step_def)
      then show ?thesis using body p nb s'(4) by auto
    qed
  qed simp
  then show ?thesis by auto
qed

lemma SSInewMax_ok:
  assumes "bounds_are E s \<sigma> \<mu>" and "rel_ok s" and "v < length (tvars s)" and "ty_is E cmax m"
  shows "\<exists>r u. SSInewMax E v cmax s = Some (Inr (r, u)) \<and> no_bounds u = no_bounds s
    \<and> (r \<longrightarrow> (\<exists>\<mu>'. bounds_are E u \<sigma> \<mu>' \<and> max_spread (rel s) m v \<mu> \<mu>'
          \<and> ((\<exists>m'. \<mu>' v = Some m' \<and> aleq m' m) \<or> (\<exists>m0. \<mu> v = Some m0 \<and> acmp m m0 = TY_hcs))))"
proof -
  have spread: "max_spread R m v \<mu> \<mu>'" if "max_step m v \<mu> \<mu>'" for R \<mu>'
    using max_spread_step [of R m v \<mu> \<mu> v] that tighter_refl [of \<mu>] by (simp add: max_spread_def)
  consider (direct) r u where "SSInewMax E v cmax s = Some (Inr (r, u))" "no_bounds u = no_bounds s"
      "r \<longrightarrow> (\<exists>\<mu>'. bounds_are E u \<sigma> \<mu>' \<and> max_step m v \<mu> \<mu>')"
    | (loop) r s1 where "SSInewMax E v cmax s = max_loop E v cmax (r, s1)" "no_bounds s1 = no_bounds s"
      "r \<longrightarrow> bounds_are E s1 \<sigma> (\<mu>(v := Some m)) \<and> max_step m v \<mu> (\<mu>(v := Some m))"
    using NewMax_ok [OF assms(1,3,4), of True] unfolding SSInewMax_def by auto
  then show ?thesis
  proof cases
    case direct
    have "(\<exists>m'. \<mu>' v = Some m' \<and> aleq m' m) \<or> (\<exists>m0. \<mu> v = Some m0 \<and> acmp m m0 = TY_hcs)"
      if "max_step m v \<mu> \<mu>'" for \<mu>'
      using that by (auto simp: max_step_def aleq_refl)
    then show ?thesis using direct spread by blast
  next
    case loop
    note f = no_bounds_frame [OF loop(2)] no_bounds_nth(1) [OF loop(2)]
    have "r \<longrightarrow> bounds_are E s1 \<sigma> (\<mu>(v := Some m)) \<and> max_spread (rel s1) m v \<mu> (\<mu>(v := Some m))"
      using loop(3) spread by blast
    then obtain q u where q: "max_loop E v cmax (r, s1) = Some (Inr (q, u))" "no_bounds u = no_bounds s1"
      "q \<longrightarrow> r \<and> (\<exists>\<mu>'. bounds_are E u \<sigma> \<mu>' \<and> max_spread (rel s1) m v \<mu> \<mu>' \<and> tighter \<mu>' (\<mu>(v := Some m)))"
      using max_loop_ok [of r E s1 \<sigma> "\<mu>(v := Some m)" m v \<mu> cmax] f assms by auto
    have "\<exists>m'. \<mu>' v = Some m' \<and> aleq m' m" if "tighter \<mu>' (\<mu>(v := Some m))" for \<mu>'
      using that by (simp add: tighter_def)
    then show ?thesis using loop(1,2) q f(3) by (auto simp del: ex_simps)
  qed
qed

end
