(* ===== verification/SSI_Props.thy ===== *)
theory SSI_Props
  imports SSI_Bounds
begin

text \<open>
  The theorems on the solver: runs of accepted operations, the invariant they keep, and the
  properties of the operations in the states they reach.
\<close>

subsection \<open>The invariant\<close>

text \<open>No variable has a handle, so no handler is called.\<close>

definition silent :: "'f ssi \<Rightarrow> bool" where
  "silent s \<longleftrightarrow> (\<forall>v<length (tvars s). da_num (TVAR_HANDS (tvars s ! v)) = 0)"

text \<open>
  The relation is the transitive closure of the pairs posed; the smallest types are the least
  solution; every upper bound posed is kept by a largest type, and no solution exceeds one.
\<close>

definition ssi_inv :: "'f tenv \<Rightarrow> 'f aty constr \<Rightarrow> 'f ssi \<Rightarrow> bool" where
  "ssi_inv E C s \<longleftrightarrow> rel_ok s \<and> rel s = (rels C)\<^sup>+ \<and> silent s
     \<and> (\<exists>\<sigma> \<mu>. bounds_are E s \<sigma> \<mu> \<and> least aleq aty_ok C \<sigma>
          \<and> (\<forall>v a. (v, a) \<in> ups C \<longrightarrow> (\<exists>m. \<mu> v = Some m \<and> aleq m a))
          \<and> (\<forall>\<tau>. solves aleq aty_ok C \<tau> \<longrightarrow> bounded aleq C \<tau> \<longrightarrow> (\<forall>v. within aleq (\<tau> v) (\<mu> v))))"

lemma ssi_invI:
  assumes "rel_ok s" and "rel s = (rels C)\<^sup>+" and "silent s" and "bounds_are E s \<sigma> \<mu>"
    and "least aleq aty_ok C \<sigma>" and "\<And>v a. (v, a) \<in> ups C \<Longrightarrow> \<exists>m. \<mu> v = Some m \<and> aleq m a"
    and "\<And>\<tau> v. solves aleq aty_ok C \<tau> \<Longrightarrow> bounded aleq C \<tau> \<Longrightarrow> within aleq (\<tau> v) (\<mu> v)"
  shows "ssi_inv E C s"
  using assms unfolding ssi_inv_def by blast

lemma ssi_invE:
  assumes "ssi_inv E C s"
  obtains \<sigma> \<mu> where "rel_ok s" "rel s = (rels C)\<^sup>+" "silent s" "bounds_are E s \<sigma> \<mu>"
    "least aleq aty_ok C \<sigma>" "\<And>v a. (v, a) \<in> ups C \<Longrightarrow> \<exists>m. \<mu> v = Some m \<and> aleq m a"
    "\<And>\<tau> v. solves aleq aty_ok C \<tau> \<Longrightarrow> bounded aleq C \<tau> \<Longrightarrow> within aleq (\<tau> v) (\<mu> v)"
  using assms unfolding ssi_inv_def by blast

lemma silent_quiet: "silent s \<Longrightarrow> quiet s"
  by (simp add: silent_def quiet_def)

lemma silent_frame: "no_bounds s = no_bounds t \<Longrightarrow> silent s = silent t"
  using no_bounds_nth [of s t] by (simp add: silent_def)

lemma within_trans: "ole aleq x y \<Longrightarrow> within aleq y m \<Longrightarrow> within aleq x m"
  by (cases x; cases y; cases m) (auto intro: aleq_trans)

lemma within_low: "within aleq x (Some m) \<Longrightarrow> aleq m a \<Longrightarrow> ole aleq x (Some a)"
  by (cases x) (auto intro: aleq_trans)

lemma ole_within: "ole aleq x (Some m) \<Longrightarrow> within aleq x (Some m)"
  by (cases x) auto

text \<open>The smallest types respect the upper bounds posed.\<close>

lemma bounds_bounded:
  assumes "bounds_are E s \<sigma> \<mu>" and "\<forall>v a. (v, a) \<in> ups C \<longrightarrow> (\<exists>m. \<mu> v = Some m \<and> aleq m a)"
  shows "bounded aleq C \<sigma>"
proof -
  have "within aleq (\<sigma> v) (\<mu> v)" for v
    using assms(1) by (cases "v < length (tvars s)") (auto simp: bounds_are_def)
  then show ?thesis using assms(2) within_low unfolding bounded_def by metis
qed

lemma inv_solution: "ssi_inv E C s \<Longrightarrow> \<exists>\<tau>. solves aleq aty_ok C \<tau> \<and> bounded aleq C \<tau>"
  using bounds_bounded leastD(1) by (metis ssi_invE)

subsection \<open>New variables and the start\<close>

lemma ssi_inv_init: "ssi_inv E no_constr ssi_init"
proof -
  have "least aleq aty_ok no_constr (\<lambda>_. None)" by (simp add: least_def solves_def no_constr_def)
  moreover have "bounds_are E ssi_init (\<lambda>_. None) (\<lambda>_. None)" by (simp add: bounds_are_def ssi_init_def)
  ultimately show ?thesis
    unfolding ssi_inv_def
    by (auto simp: rel_ok_def rel_def silent_def ssi_init_def no_constr_def da_limit_def
        intro!: exI [of _ "\<lambda>_. None"])
qed

lemma ssi_inv_var:
  assumes "ssi_inv E C s" and "SSImakeVariable s = Inr (v, u)" and "length (tvars s) < da_limit"
  shows "ssi_inv E C u"
proof -
  let ?n = "length (tvars s)"
  define t where "t = \<lparr>TVAR_NO = var_cntr s, TVAR_MAX = (NullT :: 'a ntype), TVAR_MIN = NullT,
    TVAR_BIGS = da_empty, TVAR_SMALLS = da_empty, TVAR_HANDS = da_empty\<rparr>"
  obtain \<sigma> \<mu> where i: "rel_ok s" "rel s = (rels C)\<^sup>+" "silent s" "bounds_are E s \<sigma> \<mu>"
    "least aleq aty_ok C \<sigma>" "\<And>v a. (v, a) \<in> ups C \<Longrightarrow> \<exists>m. \<mu> v = Some m \<and> aleq m a"
    "\<And>\<tau> v. solves aleq aty_ok C \<tau> \<Longrightarrow> bounded aleq C \<tau> \<Longrightarrow> within aleq (\<tau> v) (\<mu> v)"
    using assms(1) by (elim ssi_invE) blast
  have u: "tvars u = tvars s @ [t]" using assms(2) by (auto simp: SSImakeVariable_def bindR_Inr_iff t_def)
  have old: "bigs u w = bigs s w" "smalls u w = smalls s w" if "w < ?n" for w
    using that by (simp_all add: bigs_def smalls_def u nth_append)
  have new: "bigs u ?n = []" "smalls u ?n = []" by (simp_all add: bigs_def smalls_def u t_def)
  have r: "rel u = rel s" using old new by (auto simp: rel_def u less_Suc_eq)
  have conv: "b < Suc ?n \<and> a \<in> set (smalls u b) \<longleftrightarrow> (a, b) \<in> rel s" for a b
    using old new rel_ok_conv [OF i(1), of b a] by (auto simp: less_Suc_eq)
  have "rel_ok u"
    unfolding rel_ok_def
  proof (intro conjI allI impI)
    show "length (tvars u) \<le> da_limit" using assms(3) by (simp add: u)
    have "a < length (tvars u) \<and> b \<in> set (bigs u a) \<longleftrightarrow> (a, b) \<in> rel u" for a b by (simp add: rel_def)
    then show "(a < length (tvars u) \<and> b \<in> set (bigs u a)) = (b < length (tvars u) \<and> a \<in> set (smalls u b))" for a b
      using conv [of b a] r by (simp add: u)
  qed (use rel_okD [OF i(1)] old new in \<open>auto simp: u less_Suc_eq nth_append t_def\<close>)
  moreover have "silent u" using i(3) by (auto simp: silent_def u less_Suc_eq nth_append t_def da_empty_def)
  moreover have "bounds_are E u \<sigma> \<mu>"
    using i(4) by (auto simp: bounds_are_def u less_Suc_eq nth_append t_def)
  ultimately show ?thesis using i r by (intro ssi_invI [of u C E \<sigma> \<mu>]) auto
qed

subsection \<open>New lower bounds\<close>

lemma room_solution:
  assumes "aty_ok d" and "\<tau> w = Some d" and "aleq c d" and "ole aleq x (\<tau> w)" and "within aleq (\<tau> w) m"
  shows "\<not> no_room c x m"
  using assms by (auto simp: no_room_def)

lemma SSInewMin_inv:
  assumes inv: "ssi_inv E C s" and v: "v < length (tvars s)" and t: "ty_is E cmin c"
  shows "\<exists>b u. SSInewMin H E v cmin s = Some (Inr (b, u)) \<and> no_bounds u = no_bounds s
    \<and> (if b then ssi_inv E (add_low v c C) u
       else \<nexists>\<tau>. solves aleq aty_ok (add_low v c C) \<tau> \<and> bounded aleq C \<tau>)"
proof -
  obtain \<sigma> \<mu> where i: "rel_ok s" "rel s = (rels C)\<^sup>+" "silent s" "bounds_are E s \<sigma> \<mu>"
    "least aleq aty_ok C \<sigma>" "\<And>v a. (v, a) \<in> ups C \<Longrightarrow> \<exists>m. \<mu> v = Some m \<and> aleq m a"
    "\<And>\<tau> v. solves aleq aty_ok C \<tau> \<Longrightarrow> bounded aleq C \<tau> \<Longrightarrow> within aleq (\<tau> v) (\<mu> v)"
    using inv by (elim ssi_invE) blast
  obtain b u where r: "SSInewMin H E v cmin s = Some (Inr (b, u))" "no_bounds u = no_bounds s"
    "if b then \<exists>x \<sigma>'. olub aleq aty_ok c (\<sigma> v) x \<and> ty.pushed (rel s) v x \<sigma> \<sigma>' \<and> bounds_are E u \<sigma>' \<mu>
     else no_room c (\<sigma> v) (\<mu> v)
         \<or> (\<exists>x w. olub aleq aty_ok c (\<sigma> v) x \<and> (v, w) \<in> rel s \<and> no_room x (\<sigma> w) (\<mu> w))"
    using SSInewMin_ok [OF i(4) silent_quiet [OF i(3)] i(1) v t] by blast
  show ?thesis
  proof (cases b)
    case True
    then obtain x \<sigma>' where x: "olub aleq aty_ok c (\<sigma> v) x" "ty.pushed (rel s) v x \<sigma> \<sigma>'" "bounds_are E u \<sigma>' \<mu>"
      using r(3) by auto
    have "least aleq aty_ok (add_low v c C) \<sigma>'"
      using ty.least_add_low [OF i(5) x(1)] x(2) i(2) by simp
    moreover have "solves aleq aty_ok C \<tau>" if "solves aleq aty_ok (add_low v c C) \<tau>" for \<tau>
      using that by (simp add: solves_def)
    ultimately have "ssi_inv E (add_low v c C) u"
      using i x(3) no_bounds_frame(3,4) [OF r(2)] silent_frame [OF r(2)]
      by (intro ssi_invI [of u _ E \<sigma>' \<mu>]) (auto simp: bounded_def)
    then show ?thesis using r True by auto
  next
    case False
    have "False" if \<tau>: "solves aleq aty_ok (add_low v c C) \<tau>" "bounded aleq C \<tau>" for \<tau>
    proof -
      have C: "solves aleq aty_ok C \<tau>" using \<tau>(1) by (simp add: solves_def)
      have w: "within aleq (\<tau> w) (\<mu> w)" for w using i(7) C \<tau>(2) by blast
      have le: "ole aleq (\<sigma> w) (\<tau> w)" for w by (rule leastD(2) [OF i(5) C])
      obtain d where d: "\<tau> v = Some d" "aleq c d" "aty_ok d"
        using solvesD(2) [OF \<tau>(1), of v c] solvesD(1) [OF C] by (auto simp: ty.ole_Some)
      have "\<not> no_room c (\<sigma> v) (\<mu> v)" using room_solution [of d \<tau> v c] d le w by blast
      then obtain x w where x: "olub aleq aty_ok c (\<sigma> v) x" "(v, w) \<in> rel s" "no_room x (\<sigma> w) (\<mu> w)"
        using r(3) False by auto
      have "aleq x d" using x(1) d le [of v] by (simp add: olub_def)
      moreover have "ole aleq (\<tau> v) (\<tau> w)" using ty.solves_trancl [OF C] x(2) i(2) by simp
      ultimately have "ole aleq (Some x) (\<tau> w)" using ty.ole_trans [of "Some x" "Some d"] d(1) by simp
      then obtain e where e: "\<tau> w = Some e" "aleq x e" "aty_ok e"
        using solvesD(1) [OF C] by (auto simp: ty.ole_Some)
      then show False using room_solution [of e \<tau> w x] le w x(3) by blast
    qed
    then show ?thesis using r False by auto
  qed
qed

subsection \<open>New upper bounds\<close>

lemma SSInewMax_inv:
  assumes inv: "ssi_inv E C s" and v: "v < length (tvars s)" and t: "ty_is E cmax m"
    and "SSInewMax E v cmax s = Some (Inr (True, u))"
    and "TYcmpTypes E cmax (TVAR_MAX (tvars s ! v)) \<noteq> Inr TY_hcs"
  shows "ssi_inv E (add_up v m C) u"
proof -
  obtain \<sigma> \<mu> where i: "rel_ok s" "rel s = (rels C)\<^sup>+" "silent s" "bounds_are E s \<sigma> \<mu>"
    "least aleq aty_ok C \<sigma>" "\<And>v a. (v, a) \<in> ups C \<Longrightarrow> \<exists>m. \<mu> v = Some m \<and> aleq m a"
    "\<And>\<tau> v. solves aleq aty_ok C \<tau> \<Longrightarrow> bounded aleq C \<tau> \<Longrightarrow> within aleq (\<tau> v) (\<mu> v)"
    using inv by (elim ssi_invE) blast
  obtain \<mu>' where r: "no_bounds u = no_bounds s" "bounds_are E u \<sigma> \<mu>'" "max_spread (rel s) m v \<mu> \<mu>'"
    "(\<exists>m'. \<mu>' v = Some m' \<and> aleq m' m) \<or> (\<exists>m0. \<mu> v = Some m0 \<and> acmp m m0 = TY_hcs)"
    using SSInewMax_ok [OF i(4,1) v t] assms(4) by auto
  have "\<not> (\<exists>m0. \<mu> v = Some m0 \<and> acmp m m0 = TY_hcs)"
    using assms(5) bounds_areD(2) [OF i(4) v] ty_cmp [OF t] by auto
  then have new: "\<exists>m'. \<mu>' v = Some m' \<and> aleq m' m" using r(4) by blast
  have "least aleq aty_ok (add_up v m C) \<sigma>" using i(5) by (simp add: least_def solves_def)
  moreover have "\<exists>m'. \<mu>' w = Some m' \<and> aleq m' a" if wa: "(w, a) \<in> ups C" for w a
    using i(6) wa r(3) aleq_trans unfolding max_spread_def tighter_def by meson
  moreover have "within aleq (\<tau> w) (\<mu>' w)"
    if \<tau>: "solves aleq aty_ok (add_up v m C) \<tau>" "bounded aleq (add_up v m C) \<tau>" for \<tau> w
  proof -
    have C: "solves aleq aty_ok C \<tau>" "bounded aleq C \<tau>" using \<tau> by (simp_all add: solves_def bounded_def)
    have "ole aleq (\<tau> v) (Some m)" using \<tau>(2) by (simp add: bounded_def)
    moreover have "w = v \<or> (w, v) \<in> rel s \<Longrightarrow> ole aleq (\<tau> w) (\<tau> v)"
      using ty.solves_trancl [OF C(1), of w v] i(2) ty.ole_refl by auto
    ultimately have "w = v \<or> (w, v) \<in> rel s \<Longrightarrow> within aleq (\<tau> w) (Some m)"
      using ty.ole_trans ole_within by blast
    then show ?thesis using r(3) i(7) C unfolding max_spread_def by metis
  qed
  ultimately show ?thesis
    using i r(2) no_bounds_frame(3,4) [OF r(1)] silent_frame [OF r(1)] new
    by (intro ssi_invI [of u _ E \<sigma> \<mu>']) auto
qed

subsection \<open>New relations\<close>

lemma no_arrays_nth:
  assumes "no_arrays s = no_arrays t" and "v < length (tvars s)"
  shows "TVAR_MIN (tvars s ! v) = TVAR_MIN (tvars t ! v)" "TVAR_MAX (tvars s ! v) = TVAR_MAX (tvars t ! v)"
    "TVAR_HANDS (tvars s ! v) = TVAR_HANDS (tvars t ! v)"
proof -
  have tv: "tvars (no_arrays s) = tvars (no_arrays t)" using assms(1) by simp
  have "(tvars s ! v)\<lparr>TVAR_BIGS := da_empty, TVAR_SMALLS := da_empty\<rparr>
      = (tvars t ! v)\<lparr>TVAR_BIGS := da_empty, TVAR_SMALLS := da_empty\<rparr>"
    using arg_cong [OF tv, of "\<lambda>xs. xs ! v"] assms(2) no_arrays_length [OF assms(1)]
    by (simp add: no_arrays_def)
  then show "TVAR_MIN (tvars s ! v) = TVAR_MIN (tvars t ! v)" "TVAR_MAX (tvars s ! v) = TVAR_MAX (tvars t ! v)"
    "TVAR_HANDS (tvars s ! v) = TVAR_HANDS (tvars t ! v)"
    by (cases "tvars s ! v"; cases "tvars t ! v"; simp)+
qed

lemma no_arrays_frame:
  assumes "no_arrays s = no_arrays t"
  shows "bounds_are E s \<sigma> \<mu> = bounds_are E t \<sigma> \<mu>" "silent s = silent t"
  using no_arrays_nth [OF assms] no_arrays_length [OF assms] by (auto simp: bounds_are_def silent_def)

lemma trancl_insert_closed: "(insert p (R\<^sup>+))\<^sup>+ = (insert p R)\<^sup>+"
proof (rule antisym)
  have "insert p (R\<^sup>+) \<subseteq> (insert p R)\<^sup>+" using trancl_mono_subset [of R "insert p R"] r_into_trancl' [of p "insert p R"] by auto
  then have "(insert p (R\<^sup>+))\<^sup>+ \<subseteq> ((insert p R)\<^sup>+)\<^sup>+" by (rule trancl_mono_subset)
  then show "(insert p (R\<^sup>+))\<^sup>+ \<subseteq> (insert p R)\<^sup>+" by simp
  have "insert p R \<subseteq> insert p (R\<^sup>+)" by auto
  then show "(insert p R)\<^sup>+ \<subseteq> (insert p (R\<^sup>+))\<^sup>+" by (rule trancl_mono_subset)
qed

text \<open>The bounds in the state after the closure: first the upper bound, then the lower bound is handed on.\<close>

lemma rel_bounds:
  assumes i: "rel_ok s" "rel s = (rels (add_rel a b C))\<^sup>+" "silent s" "bounds_are E s \<sigma> \<mu>"
      "least aleq aty_ok C \<sigma>" "\<And>v a. (v, a) \<in> ups C \<Longrightarrow> \<exists>m. \<mu> v = Some m \<and> aleq m a"
      "\<And>\<tau> v. solves aleq aty_ok C \<tau> \<Longrightarrow> bounded aleq C \<tau> \<Longrightarrow> within aleq (\<tau> v) (\<mu> v)"
    and ab: "a < length (tvars s)" "b < length (tvars s)"
  shows "\<exists>r u. bindRO (SSIgetMax s b) (\<lambda>m. bindOO (SSInewMax E a m s) (\<lambda>(res, s).
         if res then bindRO (SSIgetMin s a) (\<lambda>m. SSInewMin H E b m s) else Some (Inr (False, s))))
       = Some (Inr (r, u)) \<and> no_bounds u = no_bounds s \<and> (r \<longrightarrow> ssi_inv E (add_rel a b C) u)"
proof -
  let ?C = "add_rel a b C"
  have sol: "solves aleq aty_ok C \<tau>" if "solves aleq aty_ok ?C \<tau>" for \<tau>
    using that by (simp add: solves_def)
  have up: "ole aleq (\<tau> w) (\<tau> b)" if "solves aleq aty_ok ?C \<tau>" "w = a \<or> (w, a) \<in> rel s" for \<tau> w
  proof -
    have "(w, b) \<in> (rels ?C)\<^sup>+" using that(2) i(2) by (auto intro: trancl_into_trancl)
    then show ?thesis by (rule ty.solves_trancl [OF that(1)])
  qed
  obtain r1 s1 where s1: "SSInewMax E a (TVAR_MAX (tvars s ! b)) s = Some (Inr (r1, s1))"
    "no_bounds s1 = no_bounds s" "r1 \<longrightarrow> (\<exists>\<mu>'. bounds_are E s1 \<sigma> \<mu>' \<and> tighter \<mu>' \<mu>
       \<and> (\<forall>\<tau> v. solves aleq aty_ok ?C \<tau> \<longrightarrow> bounded aleq C \<tau> \<longrightarrow> within aleq (\<tau> v) (\<mu>' v)))"
  proof (cases "\<mu> b")
    case None
    then have "TVAR_MAX (tvars s ! b) = NullT" using bounds_areD(2) [OF i(4) ab(2)] by simp
    then show thesis
      using that [of True s] i(4,7) sol tighter_refl [of \<mu>] by (auto simp: SSInewMax_def NewMax.simps [of E a])
  next
    case (Some m)
    then have t: "ty_is E (TVAR_MAX (tvars s ! b)) m" using bounds_areD(2) [OF i(4) ab(2)] by simp
    obtain r1 s1 where r: "SSInewMax E a (TVAR_MAX (tvars s ! b)) s = Some (Inr (r1, s1))"
      "no_bounds s1 = no_bounds s"
      "r1 \<longrightarrow> (\<exists>\<mu>'. bounds_are E s1 \<sigma> \<mu>' \<and> max_spread (rel s) m a \<mu> \<mu>')"
      using SSInewMax_ok [OF i(4,1) ab(1) t] by blast
    have "within aleq (\<tau> v) (\<mu>' v)"
      if sp: "max_spread (rel s) m a \<mu> \<mu>'" and \<tau>: "solves aleq aty_ok ?C \<tau>" "bounded aleq C \<tau>" for \<mu>' \<tau> v
    proof -
      have "within aleq (\<tau> v) (\<mu> v)" "within aleq (\<tau> b) (Some m)"
        using i(7) [OF sol [OF \<tau>(1)] \<tau>(2)] Some by metis+
      then show ?thesis
        using sp up [OF \<tau>(1), of v] within_trans unfolding max_spread_def by metis
    qed
    then show thesis using that [OF r(1,2)] r(3) unfolding max_spread_def by blast
  qed
  have getmax: "SSIgetMax s b = Inr (TVAR_MAX (tvars s ! b))" using ab by (simp add: SSIgetMax_def tv_ok)
  note f1 = no_bounds_frame(3,4) [OF s1(2)] no_bounds_nth(1) [OF s1(2)] silent_frame [OF s1(2)]
  have getmin: "SSIgetMin s1 a = Inr (TVAR_MIN (tvars s1 ! a))" using ab f1 by (simp add: SSIgetMin_def tv_ok)
  show ?thesis
  proof (cases r1)
    case False
    then show ?thesis using getmax s1 by auto
  next
    case True
    then obtain \<mu>' where m: "bounds_are E s1 \<sigma> \<mu>'" "tighter \<mu>' \<mu>"
      "\<And>\<tau> v. solves aleq aty_ok ?C \<tau> \<Longrightarrow> bounded aleq C \<tau> \<Longrightarrow> within aleq (\<tau> v) (\<mu>' v)"
      using s1(3) by blast
    have ups: "\<exists>m'. \<mu>' w = Some m' \<and> aleq m' x" if "(w, x) \<in> ups C" for w x
      using i(6) [OF that] m(2) aleq_trans unfolding tighter_def by meson
    have inv: "ssi_inv E ?C u" if "no_bounds u = no_bounds s1" "bounds_are E u \<sigma>' \<mu>'" "least aleq aty_ok ?C \<sigma>'" for u \<sigma>'
      using that ups m(3) i f1 no_bounds_frame(3,4) [OF that(1)] silent_frame [OF that(1)]
      by (intro ssi_invI [of u _ E \<sigma>' \<mu>']) (auto simp: bounded_def)
    have bounds1: "opt_is E (TVAR_MIN (tvars s1 ! a)) (\<sigma> a)" using bounds_areD(1) [OF m(1)] ab f1 by simp
    show ?thesis
    proof (cases "\<sigma> a")
      case None
      have "least aleq aty_ok ?C \<sigma>"
        using i(5) None by (intro ty.least_same [OF i(5)]) (auto simp: solves_def least_def)
      moreover have "SSInewMin H E b (TVAR_MIN (tvars s1 ! a)) s1 = Some (Inr (True, s1))"
        using None bounds1 by (simp add: SSInewMin_def NewMin.simps [of H E b])
      ultimately show ?thesis using getmax s1(1,2) True getmin inv [OF _ m(1)] by auto
    next
      case (Some c)
      then have c: "ty_is E (TVAR_MIN (tvars s1 ! a)) c" using bounds1 by simp
      obtain r2 u where u: "SSInewMin H E b (TVAR_MIN (tvars s1 ! a)) s1 = Some (Inr (r2, u))"
        "no_bounds u = no_bounds s1"
        "r2 \<longrightarrow> (\<exists>t \<sigma>'. olub aleq aty_ok c (\<sigma> b) t \<and> ty.pushed (rel s1) b t \<sigma> \<sigma>' \<and> bounds_are E u \<sigma>' \<mu>')"
        using SSInewMin_ok [OF m(1) silent_quiet _ _ c, of b H] f1 i(1,3) ab by (metis (no_types, lifting))
      have "ssi_inv E ?C u" if r2: r2
      proof -
        obtain t \<sigma>' where t: "olub aleq aty_ok c (\<sigma> b) t" "ty.pushed (rel s1) b t \<sigma> \<sigma>'" "bounds_are E u \<sigma>' \<mu>'"
          using u(3) r2 by blast
        have "least aleq aty_ok ?C \<sigma>'"
          using ty.least_add_rel [where a = a and b = b, OF i(5) Some t(1)] t(2) f1(1) i(2) by simp
        then show ?thesis using inv [OF u(2) t(3)] by blast
      qed
      then show ?thesis using getmax s1(1,2) True getmin u by auto
    qed
  qed
qed

lemma SSInewRel_inv:
  assumes inv: "ssi_inv E C s" and ab: "a < length (tvars s)" "b < length (tvars s)"
  shows "\<exists>r u. SSInewRel H E a b s = Some (Inr (r, u)) \<and> rel_ok u \<and> length (tvars u) = length (tvars s)
    \<and> rel u = (insert (a, b) (rel s))\<^sup>+ \<and> (r \<longrightarrow> ssi_inv E (add_rel a b C) u)"
proof -
  obtain \<sigma> \<mu> where i: "rel_ok s" "rel s = (rels C)\<^sup>+" "silent s" "bounds_are E s \<sigma> \<mu>"
    "least aleq aty_ok C \<sigma>" "\<And>v a. (v, a) \<in> ups C \<Longrightarrow> \<exists>m. \<mu> v = Some m \<and> aleq m a"
    "\<And>\<tau> v. solves aleq aty_ok C \<tau> \<Longrightarrow> bounded aleq C \<tau> \<Longrightarrow> within aleq (\<tau> v) (\<mu> v)"
    using inv by (elim ssi_invE) blast
  have closed: "(insert (a, b) (rel s))\<^sup>+ = (rels (add_rel a b C))\<^sup>+" by (simp add: i(2) trancl_insert_closed)
  have in_b: "IsIn b (TVAR_BIGS (tvars s ! a)) = Inr ((a, b) \<in> rel s)"
    using IsIn_ok [of "TVAR_BIGS (tvars s ! a)" b] rel_okD [OF i(1) ab(1)] bigs_rel [OF ab(1), of b]
    by (simp add: bigs_def)
  have in_a: "IsIn a (TVAR_SMALLS (tvars s ! b)) = Inr ((a, b) \<in> rel s)"
    using IsIn_ok [of "TVAR_SMALLS (tvars s ! b)" a] rel_okD [OF i(1) ab(2)] smalls_rel [OF i(1) ab(2), of a]
    by (simp add: smalls_def)
  show ?thesis
  proof (cases "(a, b) \<in> rel s")
    case True
    have same: "(insert (a, b) (rel s))\<^sup>+ = rel s" using True i(2) by (simp add: insert_absorb)
    have "least aleq aty_ok (add_rel a b C) \<sigma>"
      using i(5) True ty.solves_trancl [OF leastD(1) [OF i(5)], of a b] i(2)
      by (intro ty.least_same [OF i(5)]) (auto simp: solves_def least_def)
    then have "ssi_inv E (add_rel a b C) s"
      using i closed same by (intro ssi_invI [of s _ E \<sigma> \<mu>]) (auto simp: bounded_def solves_def)
    then show ?thesis using True in_a in_b i(1) same by (auto simp: SSInewRel_def tv_ok ab)
  next
    case False
    have tr: "trans (rel s)" using i(2) by simp
    obtain t1 t2 t3 t4 t5 where t: "AddBigger a b s = Inr t1" "AddSmaller b a t1 = Inr t2"
      "close_up a b t2 = Some (Inr t3)" "close_down a b t3 = Some (Inr t4)"
      "close_both a b t4 = Some (Inr t5)"
      "rel_ok t5" "rel t5 = (insert (a, b) (rel s))\<^sup>+" "no_arrays t5 = no_arrays s"
      using close_all [OF i(1) tr ab False] by blast
    note f = no_arrays_frame [OF t(8)] no_arrays_length [OF t(8)]
    obtain r u where u: "bindRO (SSIgetMax t5 b) (\<lambda>m. bindOO (SSInewMax E a m t5) (\<lambda>(res, s).
         if res then bindRO (SSIgetMin s a) (\<lambda>m. SSInewMin H E b m s) else Some (Inr (False, s))))
       = Some (Inr (r, u))" "no_bounds u = no_bounds t5" "r \<longrightarrow> ssi_inv E (add_rel a b C) u"
      using rel_bounds [of t5 a b C E \<sigma> \<mu> H] t(6,7) closed f i ab by auto
    have "SSInewRel H E a b s = Some (Inr (r, u))"
      using False in_a u(1) by (simp add: SSInewRel_def tv_ok ab t(1-5))
    then show ?thesis
      using u(2,3) no_bounds_frame(3,4) [OF u(2)] no_bounds_nth(1) [OF u(2)] t(6,7) f(3) by auto
  qed
qed

subsection \<open>Runs\<close>

text \<open>
  An upper bound that is unrelated to the present largest type but has a common supertype with it is accepted and
  forgotten: \<open>SSInewMax\<close> answers TRUE and changes nothing, so a lower bound that violates it is accepted later (\<open>SSInewMax_lost_bound\<close> below).
\<close>

lemma SSInewMax_ignored:
  assumes "v < length (tvars s)" and "TYcmpTypes E t (TVAR_MAX (tvars s ! v)) = Inr TY_hcs"
  shows "SSInewMax E v t s = Some (Inr (True, s))"
proof -
  have "t \<noteq> NullT" "TVAR_MAX (tvars s ! v) \<noteq> NullT" using assms(2) by auto
  then show ?thesis using assms by (simp add: SSInewMax_def NewMax.simps [of E v t] tv_ok)
qed

text \<open>
  The states that accepted operations reach while no assumption is attached to a variable, with the constraints that
  are kept: all that were accepted, but for the upper bounds that \<open>SSInewMax\<close> loses.  It loses a bound exactly if the largest
  type of the variable and the bound are unrelated types with a common supertype (\<open>TY_hcs\<close>, rule \<open>lost\<close>); then it
  answers TRUE and changes nothing (\<open>SSInewMax_ignored\<close>).
\<close>

inductive ssi_run :: "'f handler \<Rightarrow> 'f tenv \<Rightarrow> 'f aty constr \<Rightarrow> 'f ssi \<Rightarrow> bool" for H E where
  start: "ssi_run H E no_constr ssi_init"
| var: "ssi_run H E C s \<Longrightarrow> length (tvars s) < da_limit \<Longrightarrow> SSImakeVariable s = Inr (v, u) \<Longrightarrow> ssi_run H E C u"
| low: "ssi_run H E C s \<Longrightarrow> v < length (tvars s) \<Longrightarrow> ty_is E t \<alpha> \<Longrightarrow>
    SSInewMin H E v t s = Some (Inr (True, u)) \<Longrightarrow> ssi_run H E (add_low v \<alpha> C) u"
| up: "ssi_run H E C s \<Longrightarrow> v < length (tvars s) \<Longrightarrow> ty_is E t \<alpha> \<Longrightarrow>
    SSInewMax E v t s = Some (Inr (True, u)) \<Longrightarrow>
    TYcmpTypes E t (TVAR_MAX (tvars s ! v)) \<noteq> Inr TY_hcs \<Longrightarrow> ssi_run H E (add_up v \<alpha> C) u"
| lost: "ssi_run H E C s \<Longrightarrow> v < length (tvars s) \<Longrightarrow> ty_is E t \<alpha> \<Longrightarrow>
    SSInewMax E v t s = Some (Inr (True, u)) \<Longrightarrow>
    TYcmpTypes E t (TVAR_MAX (tvars s ! v)) = Inr TY_hcs \<Longrightarrow> ssi_run H E C u"
| rel: "ssi_run H E C s \<Longrightarrow> a < length (tvars s) \<Longrightarrow> b < length (tvars s) \<Longrightarrow>
    SSInewRel H E a b s = Some (Inr (True, u)) \<Longrightarrow> ssi_run H E (add_rel a b C) u"
| activate: "ssi_run H E C s \<Longrightarrow> SSIinitAssumptionSystem c f s = (r, u) \<Longrightarrow> ssi_run H E C u"

lemma ssi_inv_activate:
  assumes "ssi_inv E C s" and "SSIinitAssumptionSystem c f s = (r, u)"
  shows "ssi_inv E C u"
proof -
  have u: "tvars u = tvars s" using assms(2) by (auto simp: SSIinitAssumptionSystem_def)
  have same: "rel_ok u = rel_ok s" "rel u = rel s" "silent u = silent s"
    "\<And>\<sigma> \<mu>. bounds_are E u \<sigma> \<mu> = bounds_are E s \<sigma> \<mu>"
    by (simp_all add: rel_ok_def rel_def silent_def bounds_are_def bigs_def smalls_def u)
  show ?thesis using assms(1) unfolding ssi_inv_def same .
qed

lemma ssi_run_inv: "ssi_run H E C s \<Longrightarrow> ssi_inv E C s"
proof (induction rule: ssi_run.induct)
  case (low C s v t \<alpha> u)
  then show ?case using SSInewMin_inv [OF low.IH low.hyps(2,3), of H] by auto
next
  case (rel C s a b u)
  then show ?case using SSInewRel_inv [OF rel.IH rel.hyps(2,3), of H] by auto
next
  case (lost C s v t \<alpha> u)
  then show ?case using SSInewMax_ignored [OF lost.hyps(2,5)] by simp
qed (blast intro: ssi_inv_init ssi_inv_var SSInewMax_inv ssi_inv_activate)+

subsection \<open>Properties\<close>

text \<open>A run for the witnesses: two variables, a lower bound on the first, which is below the second.\<close>

abbreviation no_handler :: "int handler" where
  "no_handler \<equiv> \<lambda>p h s. None"

definition new_state :: "(bool \<times> 'f ssi) cres option \<Rightarrow> 'f ssi" where
  "new_state r = (case r of Some (Inr (b, s)) \<Rightarrow> s | _ \<Rightarrow> ssi_init)"

definition two_vars :: "int ssi" where
  "two_vars = (case bindR (SSImakeVariable ssi_init) (\<lambda>(v, s). SSImakeVariable s) of
     Inr (v, s) \<Rightarrow> s | Inl e \<Rightarrow> ssi_init)"

definition two_low :: "int ssi" where
  "two_low = new_state (SSInewMin no_handler int_env 0 (int_arr (TC_aks (sh [2]))) two_vars)"

abbreviation low_constr :: "int aty constr" where
  "low_constr \<equiv> add_low 0 (AArr (BSimple T_int) (LShp [2])) no_constr"

lemma two_vars_run: "ssi_run no_handler int_env no_constr two_vars"
proof -
  obtain v s where s: "SSImakeVariable (ssi_init :: int ssi) = Inr (v, s)"
    by (simp add: SSImakeVariable_def ssi_init_def ck_int_def in_srange_32)
  then have "ssi_run no_handler int_env no_constr s"
    by (rule ssi_run.var [OF ssi_run.start, rotated]) (simp add: ssi_init_def da_limit_def)
  moreover have "length (tvars s) < da_limit" "SSImakeVariable s = Inr (Suc 0, two_vars)"
    using s by (auto simp: SSImakeVariable_def ssi_init_def ck_int_def in_srange_32 two_vars_def da_limit_def)
  ultimately show ?thesis by (rule ssi_run.var)
qed

lemma two_low_run: "ssi_run no_handler int_env low_constr two_low" "length (tvars two_low) = 2"
proof -
  have n: "length (tvars two_vars) = 2" by code_simp
  have "SSInewMin no_handler int_env 0 (int_arr (TC_aks (sh [2]))) two_vars = Some (Inr (True, two_low))"
    by code_simp
  then show "ssi_run no_handler int_env low_constr two_low"
    using ssi_run.low [OF two_vars_run _ int_arr_is(1)] n by simp
  show "length (tvars two_low) = 2" by code_simp
qed

text \<open>
  C1: After any sequence of accepted lower bounds, upper bounds and relations, while no assumption is attached to a
  variable (\<open>SSIassumeLow\<close>), the smallest types of the variables are the least solution of the constraints kept: they lie
  above every lower bound, grow along every pair, lie below every other assignment that does both, and respect every upper
  bound that was not lost.  Lost are exactly the upper bounds that are unrelated to the largest type but have a common
  supertype with it, which \<open>SSInewMax\<close> accepts and forgets.  Bounds are array and bottom types;
  known values among them are not floating point numbers.
\<close>

theorem SSI_least_solution:
  assumes "ssi_run H E C s"
  shows "\<exists>\<sigma>. (\<forall>v<length (tvars s). \<exists>t. SSIgetMin s v = Inr t \<and> opt_is E t (\<sigma> v))
     \<and> least aleq aty_ok C \<sigma> \<and> bounded aleq C \<sigma>"
proof -
  obtain \<sigma> \<mu> where i: "bounds_are E s \<sigma> \<mu>" "least aleq aty_ok C \<sigma>"
    "\<And>v a. (v, a) \<in> ups C \<Longrightarrow> \<exists>m. \<mu> v = Some m \<and> aleq m a"
    using ssi_run_inv [OF assms] by (elim ssi_invE) blast
  then have "bounded aleq C \<sigma>" using bounds_bounded by blast
  then show ?thesis using i bounds_areD(1) [OF i(1)] by (auto simp: SSIgetMin_def tv_ok)
qed

lemma SSI_least_solution_witness:
  "\<exists>\<sigma>. (\<forall>v<length (tvars two_low). \<exists>t. SSIgetMin two_low v = Inr t \<and> opt_is int_env t (\<sigma> v))
     \<and> least aleq aty_ok low_constr \<sigma> \<and> bounded aleq low_constr \<sigma>"
  by (rule SSI_least_solution [OF two_low_run(1)])

text \<open>
  C12: After any sequence of accepted lower bounds, upper bounds and relations, while no assumption is attached to a
  variable, \<open>SSInewMin\<close> returns, and it answers TRUE exactly when the constraints kept so far, which are all but the upper
  bounds that \<open>SSInewMax\<close> accepted and lost, have a solution together with the new lower bound.  Bounds are array and
  bottom types; known values among them are not floating point numbers.
\<close>

theorem SSInewMin_decides:
  assumes "ssi_run H E C s" and "v < length (tvars s)" and "ty_is E t \<alpha>"
  shows "\<exists>b u. SSInewMin H E v t s = Some (Inr (b, u))
     \<and> (b \<longleftrightarrow> (\<exists>\<tau>. solves aleq aty_ok (add_low v \<alpha> C) \<tau> \<and> bounded aleq (add_low v \<alpha> C) \<tau>))"
proof -
  obtain b u where bu: "SSInewMin H E v t s = Some (Inr (b, u))"
    "if b then ssi_inv E (add_low v \<alpha> C) u
     else \<nexists>\<tau>. solves aleq aty_ok (add_low v \<alpha> C) \<tau> \<and> bounded aleq C \<tau>"
    using SSInewMin_inv [OF ssi_run_inv [OF assms(1)] assms(2,3), of H] by blast
  then show ?thesis using inv_solution [of E "add_low v \<alpha> C" u] by (cases b) (auto simp: bounded_def)
qed

lemma SSInewMin_decides_witness:
  "\<exists>b u. SSInewMin no_handler int_env 1 (int_arr TC_aud) two_low = Some (Inr (b, u))
     \<and> (b \<longleftrightarrow> (\<exists>\<tau>. solves aleq aty_ok (add_low 1 (AArr (BSimple T_int) LAny) low_constr) \<tau>
              \<and> bounded aleq (add_low 1 (AArr (BSimple T_int) LAny) low_constr) \<tau>))"
  by (rule SSInewMin_decides [OF two_low_run(1) _ int_arr_is(4)]) (simp add: two_low_run(2))

text \<open>
  C13: \<open>SSInewRel\<close> always returns, whether it accepts the relation or not, and afterwards \<open>SSIisLe\<close> answers by
  the transitive closure of all pairs posed and the new one.
\<close>

theorem SSInewRel_closure:
  assumes "ssi_run H E C s" and "a < length (tvars s)" and "b < length (tvars s)"
  shows "\<exists>r u. SSInewRel H E a b s = Some (Inr (r, u))
     \<and> (\<forall>x<length (tvars s). \<forall>y. SSIisLe u x y = Inr ((x, y) \<in> (insert (a, b) (rels C))\<^sup>+))"
proof -
  note inv = ssi_run_inv [OF assms(1)]
  obtain r u where u: "SSInewRel H E a b s = Some (Inr (r, u))" "rel_ok u" "length (tvars u) = length (tvars s)"
    "rel u = (insert (a, b) (rel s))\<^sup>+"
    using SSInewRel_inv [OF inv assms(2,3), of H] by blast
  have "rel s = (rels C)\<^sup>+" using inv by (simp add: ssi_inv_def)
  then have "rel u = (insert (a, b) (rels C))\<^sup>+" using u(4) by (simp add: trancl_insert_closed)
  moreover have "SSIisLe u x y = Inr ((x, y) \<in> rel u)" if "x < length (tvars s)" for x y
    using that u(2,3) IsIn_ok [of "TVAR_BIGS (tvars u ! x)" y] rel_okD(1) [OF u(2), of x] bigs_rel [of x u y]
    by (simp add: SSIisLe_def tv_ok bigs_def)
  ultimately show ?thesis using u(1) by auto
qed

lemma SSInewRel_closure_witness:
  "\<exists>r u. SSInewRel no_handler int_env 0 1 two_low = Some (Inr (r, u))
     \<and> (\<forall>x<length (tvars two_low). \<forall>y. SSIisLe u x y = Inr ((x, y) \<in> (insert (0, 1) (rels low_constr))\<^sup>+))"
  by (rule SSInewRel_closure [OF two_low_run(1)]) (simp_all add: two_low_run(2))

text \<open>The shape \<open>[3]\<close> is lost as an upper bound, and \<open>[2]\<close> accepted as a lower bound.\<close>

lemma SSInewMax_lost_bound:
  "\<exists>s u. SSInewMax int_env 0 (int_arr (TC_aks (sh [2]))) two_vars = Some (Inr (True, s))
     \<and> SSInewMax int_env 0 (int_arr (TC_aks (sh [3]))) s = Some (Inr (True, s))
     \<and> SSInewMin no_handler int_env 0 (int_arr (TC_aks (sh [2]))) s = Some (Inr (True, u))
     \<and> TYleTypes int_env (int_arr (TC_aks (sh [2]))) (int_arr (TC_aks (sh [3]))) = Inr False"
proof -
  define s where "s = new_state (SSInewMax int_env 0 (int_arr (TC_aks (sh [2]))) two_vars)"
  have "length (tvars s) = 2 \<and> TYcmpTypes int_env (int_arr (TC_aks (sh [3]))) (TVAR_MAX (tvars s ! 0)) = Inr TY_hcs"
    unfolding s_def by code_simp
  then have "SSInewMax int_env 0 (int_arr (TC_aks (sh [3]))) s = Some (Inr (True, s))"
    by (intro SSInewMax_ignored) simp_all
  moreover have "SSInewMax int_env 0 (int_arr (TC_aks (sh [2]))) two_vars = Some (Inr (True, s))"
    unfolding s_def by code_simp
  moreover have "SSInewMin no_handler int_env 0 (int_arr (TC_aks (sh [2]))) s
      = Some (Inr (True, new_state (SSInewMin no_handler int_env 0 (int_arr (TC_aks (sh [2]))) s)))"
    unfolding s_def by code_simp
  moreover have "TYleTypes int_env (int_arr (TC_aks (sh [2]))) (int_arr (TC_aks (sh [3]))) = Inr False"
    by code_simp
  ultimately show ?thesis by blast
qed

end
