(* ===== verification/DFM.thy ===== *)
theory DFM
  imports Prelude "HOL-Library.Word"
begin

unbundle bit_operations_syntax

text \<open>
  Data flow masks, \<open>src/libsac2c/tree/DataFlowMask.c\<close>: sets of the declarations of a function as
  vectors of bits over a mask base, which holds the declarations.

  The state \<open>dfm\<close> has the mask bases and the masks allocated so far (a pointer is a position in
  the list, \<open>None\<close> an object that has been freed), the attribute \<open>AVIS_MASKBASEBACKREF\<close> of the
  syntax tree, and the static variables of the file.  A mask points to its base, which several
  masks share and \<open>DFMupdateMaskBase\<close> changes.  Nodes of the syntax tree are numbers; its
  attributes that the file only reads are the parameter \<open>tree\<close>: the avis of a declaration
  and the declaration of an avis.  A chain of declarations is the list of its nodes.  Pointers
  that the functions assert not to be \<open>NULL\<close> are taken as such.
\<close>

record mbase =
  mb_num_decls :: nat
  mb_num_bitfields :: nat
  mb_decls :: "nat option cvec"

record mask =
  is_set_by_default :: bool
  num_bitfields :: nat
  bitfield :: "64 word cvec"
  mask_base :: nat

record dfm =
  access_mask_table :: "64 word cvec"
  bases :: "mbase option list"
  masks :: "mask option list"
  backref :: "nat \<Rightarrow> nat"
  clear_store :: "nat option"
  clear_i :: nat
  set_store :: "nat option"
  set_i :: nat
  decl_clear_store :: "nat option"
  decl_set_store :: "nat option"

record tree =
  VARDEC_OR_ARG_AVIS :: "nat \<Rightarrow> nat"
  AVIS_DECL :: "nat \<Rightarrow> nat"

subsection \<open>Access to the objects\<close>

definition get_mask :: "nat \<Rightarrow> dfm \<Rightarrow> mask cres" where
  "get_mask p s = deref (masks s) p"

definition get_base :: "nat \<Rightarrow> dfm \<Rightarrow> mbase cres" where
  "get_base b s = deref (bases s) b"

definition set_mask :: "nat \<Rightarrow> mask \<Rightarrow> dfm \<Rightarrow> dfm cres" where
  "set_mask p m s = bindR (get_mask p s) (\<lambda>_. Inr (s\<lparr>masks := (masks s)[p := Some m]\<rparr>))"

definition set_base :: "nat \<Rightarrow> mbase \<Rightarrow> dfm \<Rightarrow> dfm cres" where
  "set_base b x s = bindR (get_base b s) (\<lambda>_. Inr (s\<lparr>bases := (bases s)[b := Some x]\<rparr>))"

definition base_of :: "nat \<Rightarrow> dfm \<Rightarrow> mbase cres" where
  "base_of p s = bindR (get_mask p s) (\<lambda>m. get_base (mask_base m) s)"

definition get_word :: "nat \<Rightarrow> int \<Rightarrow> dfm \<Rightarrow> 64 word cres" where
  "get_word p i s = bindR (get_mask p s) (\<lambda>m. rd (bitfield m) i)"

definition put_word :: "nat \<Rightarrow> int \<Rightarrow> 64 word \<Rightarrow> dfm \<Rightarrow> dfm cres" where
  "put_word p i w s = bindR (get_mask p s) (\<lambda>m. bindR (wr (bitfield m) i w) (\<lambda>bf.
     set_mask p (m\<lparr>bitfield := bf\<rparr>) s))"

definition IS_NTH_BIT_SET :: "nat \<Rightarrow> nat \<Rightarrow> dfm \<Rightarrow> bool cres" where
  "IS_NTH_BIT_SET p pos s =
     bindR (get_word p (int (pos div 64)) s) (\<lambda>w.
     bindR (rd (access_mask_table s) (int (pos mod 64))) (\<lambda>a. Inr (w AND a > 0)))"

subsection \<open>Growing a mask with its base\<close>

definition ExtendMask :: "nat \<Rightarrow> dfm \<Rightarrow> dfm cres" where
  "ExtendMask p s =
     bindR (get_mask p s) (\<lambda>m. bindR (get_base (mask_base m) s) (\<lambda>b.
     bindR (cfor 0 (int (num_bitfields m)) (\<lambda>i new. bindR (rd (bitfield m) i) (wr new i))
              (allocv (int (mb_num_bitfields b)))) (\<lambda>new.
     let ext = (if is_set_by_default m then NOT 0 else 0) in
     bindR (cfor (int (num_bitfields m)) (int (mb_num_bitfields b)) (\<lambda>i new. wr new i ext) new) (\<lambda>new.
     set_mask p (m\<lparr>bitfield := new, num_bitfields := mb_num_bitfields b\<rparr>) s))))"

definition CHECK_MASK :: "nat \<Rightarrow> dfm \<Rightarrow> dfm cres" where
  "CHECK_MASK p s =
     bindR (get_mask p s) (\<lambda>m. bindR (get_base (mask_base m) s) (\<lambda>b.
       if num_bitfields m < mb_num_bitfields b then ExtendMask p s else Inr s))"

definition SafeGetBackref :: "tree \<Rightarrow> mbase \<Rightarrow> nat \<Rightarrow> dfm \<Rightarrow> nat cres" where
  "SafeGetBackref T b avis s =
     (let r = backref s avis in
      dbug_assert ''Identifier not present in mask'' (r < mb_num_decls b)
        (bindR (rd (mb_decls b) (int r)) (\<lambda>d.
          dbug_assert ''Inconsistent backref entry'' (d = Some (AVIS_DECL T avis)) (Inr r))))"

definition IsPartOfMaskBase :: "tree \<Rightarrow> nat \<Rightarrow> nat \<Rightarrow> dfm \<Rightarrow> bool cres" where
  "IsPartOfMaskBase T b decl s =
     (let r = backref s (VARDEC_OR_ARG_AVIS T decl) in
      bindR (get_base b s) (\<lambda>x.
        if r < mb_num_decls x then bindR (rd (mb_decls x) (int r)) (\<lambda>d. Inr (d = Some decl))
        else Inr False))"

subsection \<open>New masks\<close>

definition genUninitializedMask :: "nat \<Rightarrow> bool \<Rightarrow> dfm \<Rightarrow> (nat \<times> dfm) cres" where
  "genUninitializedMask b dflt s = bindR (get_base b s) (\<lambda>x.
     Inr (length (masks s),
          s\<lparr>masks := masks s @ [Some \<lparr>is_set_by_default = dflt, num_bitfields = mb_num_bitfields x,
              bitfield = allocv (int (mb_num_bitfields x)), mask_base = b\<rparr>]\<rparr>))"

definition genInitializedMask :: "nat \<Rightarrow> bool \<Rightarrow> dfm \<Rightarrow> (nat \<times> dfm) cres" where
  "genInitializedMask b dflt s =
     bindR (genUninitializedMask b dflt s) (\<lambda>(n, s). bindR (base_of n s) (\<lambda>x.
       bindR (cfor 0 (int (mb_num_bitfields x)) (\<lambda>i. put_word n i (if dflt then NOT 0 else 0)) s) (\<lambda>s.
         Inr (n, s))))"

definition DFMgenMaskClear :: "nat \<Rightarrow> dfm \<Rightarrow> (nat \<times> dfm) cres" where
  "DFMgenMaskClear b s = genInitializedMask b False s"

definition DFMgenMaskSet :: "nat \<Rightarrow> dfm \<Rightarrow> (nat \<times> dfm) cres" where
  "DFMgenMaskSet b s = genInitializedMask b True s"

text \<open>
  The loop that fills the words of the mask \<open>n\<close> with a function of the words of two masks, read
  and written one after the other.
\<close>

definition word_loop :: "(64 word \<Rightarrow> 64 word \<Rightarrow> 64 word) \<Rightarrow> nat \<Rightarrow> nat \<Rightarrow> nat \<Rightarrow> dfm \<Rightarrow> dfm cres" where
  "word_loop f n p q s =
     bindR (get_mask n s) (\<lambda>m.
       cfor 0 (int (num_bitfields m)) (\<lambda>i s.
         bindR (get_word p i s) (\<lambda>x. bindR (get_word q i s) (\<lambda>y. put_word n i (f x y) s))) s)"

definition DFMgenMaskCopy :: "nat \<Rightarrow> dfm \<Rightarrow> (nat \<times> dfm) cres" where
  "DFMgenMaskCopy p s = bindR (CHECK_MASK p s) (\<lambda>s. bindR (get_mask p s) (\<lambda>m.
     bindR (genUninitializedMask (mask_base m) (is_set_by_default m) s) (\<lambda>(n, s).
     bindR (word_loop (\<lambda>x _. x) n p p s) (\<lambda>s. Inr (n, s)))))"

definition DFMgenMaskInv :: "nat \<Rightarrow> dfm \<Rightarrow> (nat \<times> dfm) cres" where
  "DFMgenMaskInv p s = bindR (CHECK_MASK p s) (\<lambda>s. bindR (get_mask p s) (\<lambda>m.
     bindR (genUninitializedMask (mask_base m) (\<not> is_set_by_default m) s) (\<lambda>(n, s).
     bindR (word_loop (\<lambda>x _. NOT x) n p p s) (\<lambda>s. Inr (n, s)))))"

text \<open>
  The common text of the four functions that combine two masks into a new one; \<open>loop\<close> is the
  statement that fills the new mask.
\<close>

definition gen_combined ::
  "(nat \<Rightarrow> nat \<Rightarrow> nat \<Rightarrow> dfm \<Rightarrow> dfm cres) \<Rightarrow> nat \<Rightarrow> nat \<Rightarrow> dfm \<Rightarrow> (nat \<times> dfm) cres" where
  "gen_combined loop p q s =
     bindR (get_mask p s) (\<lambda>m1. bindR (get_mask q s) (\<lambda>m2.
     dbug_assert ''Combining incompatible masks'' (mask_base m1 = mask_base m2)
     (dbug_assert ''mask1 and mask2 must both be set by default or both be clear by default''
        (is_set_by_default m1 = is_set_by_default m2)
     (bindR (CHECK_MASK p s) (\<lambda>s. bindR (CHECK_MASK q s) (\<lambda>s.
      bindR (genUninitializedMask (mask_base m1) (is_set_by_default m1) s) (\<lambda>(n, s).
      bindR (loop n p q s) (\<lambda>s. Inr (n, s)))))))))"

definition DFMgenMaskAnd :: "nat \<Rightarrow> nat \<Rightarrow> dfm \<Rightarrow> (nat \<times> dfm) cres" where
  "DFMgenMaskAnd p q s = gen_combined (word_loop (\<lambda>x y. x AND y)) p q s"

definition DFMgenMaskOr :: "nat \<Rightarrow> nat \<Rightarrow> dfm \<Rightarrow> (nat \<times> dfm) cres" where
  "DFMgenMaskOr p q s = gen_combined (word_loop (\<lambda>x y. x OR y)) p q s"

definition DFMgenMaskMinus :: "nat \<Rightarrow> nat \<Rightarrow> dfm \<Rightarrow> (nat \<times> dfm) cres" where
  "DFMgenMaskMinus p q s = gen_combined (word_loop (\<lambda>x y. x AND NOT y)) p q s"

text \<open>\<open>new_mask->bitfield[i] ^= mask2->bitfield[i]\<close>: the first operand is the new mask itself.\<close>

definition DFMgenMaskXor :: "nat \<Rightarrow> nat \<Rightarrow> dfm \<Rightarrow> (nat \<times> dfm) cres" where
  "DFMgenMaskXor p q s = gen_combined (\<lambda>n p q. word_loop (\<lambda>x y. x XOR y) n n q) p q s"

subsection \<open>Changing a mask\<close>

definition DFMsetMaskClear :: "nat \<Rightarrow> dfm \<Rightarrow> dfm cres" where
  "DFMsetMaskClear p s = bindR (CHECK_MASK p s) (\<lambda>s. bindR (get_mask p s) (\<lambda>m.
     cfor 0 (int (num_bitfields m)) (\<lambda>i. put_word p i 0) s))"

definition DFMsetMaskSet :: "nat \<Rightarrow> dfm \<Rightarrow> dfm cres" where
  "DFMsetMaskSet p s = bindR (CHECK_MASK p s) (\<lambda>s. bindR (get_mask p s) (\<lambda>m.
     cfor 0 (int (num_bitfields m)) (\<lambda>i. put_word p i (NOT 0)) s))"

definition DFMsetMaskInv :: "nat \<Rightarrow> dfm \<Rightarrow> dfm cres" where
  "DFMsetMaskInv p s = bindR (CHECK_MASK p s) (\<lambda>s. bindR (get_mask p s) (\<lambda>m.
     bindR (set_mask p (m\<lparr>is_set_by_default := \<not> is_set_by_default m\<rparr>) s)
       (word_loop (\<lambda>x _. NOT x) p p p)))"

definition set_combined :: "(64 word \<Rightarrow> 64 word \<Rightarrow> 64 word) \<Rightarrow> nat \<Rightarrow> nat \<Rightarrow> dfm \<Rightarrow> dfm cres" where
  "set_combined f p q s =
     bindR (get_mask p s) (\<lambda>m1. bindR (get_mask q s) (\<lambda>m2.
     dbug_assert ''Combining incompatible masks'' (mask_base m1 = mask_base m2)
     (bindR (CHECK_MASK p s) (\<lambda>s. bindR (CHECK_MASK q s) (word_loop f p p q)))))"

definition DFMsetMaskCopy :: "nat \<Rightarrow> nat \<Rightarrow> dfm \<Rightarrow> dfm cres" where
  "DFMsetMaskCopy p q s = set_combined (\<lambda>_ y. y) p q s"

definition DFMsetMaskAnd :: "nat \<Rightarrow> nat \<Rightarrow> dfm \<Rightarrow> dfm cres" where
  "DFMsetMaskAnd p q s = set_combined (\<lambda>x y. x AND y) p q s"

definition DFMsetMaskOr :: "nat \<Rightarrow> nat \<Rightarrow> dfm \<Rightarrow> dfm cres" where
  "DFMsetMaskOr p q s = set_combined (\<lambda>x y. x OR y) p q s"

definition DFMsetMaskMinus :: "nat \<Rightarrow> nat \<Rightarrow> dfm \<Rightarrow> dfm cres" where
  "DFMsetMaskMinus p q s = set_combined (\<lambda>x y. x AND NOT y) p q s"

definition DFMsetMaskXor :: "nat \<Rightarrow> nat \<Rightarrow> dfm \<Rightarrow> dfm cres" where
  "DFMsetMaskXor p q s = set_combined (\<lambda>x y. x XOR y) p q s"

subsection \<open>Single entries\<close>

definition upd_entry ::
  "(64 word \<Rightarrow> 64 word \<Rightarrow> 64 word) \<Rightarrow> tree \<Rightarrow> nat \<Rightarrow> nat \<Rightarrow> dfm \<Rightarrow> dfm cres" where
  "upd_entry f T p avis s =
     bindR (CHECK_MASK p s) (\<lambda>s. bindR (base_of p s) (\<lambda>b. bindR (SafeGetBackref T b avis s) (\<lambda>pos.
     bindR (get_word p (int (pos div 64)) s) (\<lambda>w.
     bindR (rd (access_mask_table s) (int (pos mod 64))) (\<lambda>a. put_word p (int (pos div 64)) (f w a) s)))))"

definition DFMsetMaskEntryClear :: "tree \<Rightarrow> nat \<Rightarrow> nat \<Rightarrow> dfm \<Rightarrow> dfm cres" where
  "DFMsetMaskEntryClear T p avis s = upd_entry (\<lambda>w a. w AND NOT a) T p avis s"

definition DFMsetMaskEntrySet :: "tree \<Rightarrow> nat \<Rightarrow> nat \<Rightarrow> dfm \<Rightarrow> dfm cres" where
  "DFMsetMaskEntrySet T p avis s = upd_entry (\<lambda>w a. w OR a) T p avis s"

definition DFMtestMaskEntry :: "tree \<Rightarrow> nat \<Rightarrow> nat \<Rightarrow> dfm \<Rightarrow> (bool \<times> dfm) cres" where
  "DFMtestMaskEntry T p avis s =
     bindR (CHECK_MASK p s) (\<lambda>s. bindR (base_of p s) (\<lambda>b. bindR (SafeGetBackref T b avis s) (\<lambda>pos.
     bindR (IS_NTH_BIT_SET p pos s) (\<lambda>r. Inr (r, s)))))"

subsection \<open>Counting\<close>

text \<open>
  \<open>bits_and ps pos\<close> is the condition of the three counting loops: the masks are tested from left
  to right, and a clear bit ends the test.
\<close>

fun bits_and :: "nat list \<Rightarrow> nat \<Rightarrow> dfm \<Rightarrow> bool cres" where
  "bits_and [] pos s = Inr True"
| "bits_and (p # ps) pos s = bindR (IS_NTH_BIT_SET p pos s) (\<lambda>b. if b then bits_and ps pos s else Inr False)"

definition count_loop :: "nat list \<Rightarrow> nat \<Rightarrow> dfm \<Rightarrow> int cres" where
  "count_loop ps p s = bindR (base_of p s) (\<lambda>b.
     cfor 0 (int (mb_num_decls b)) (\<lambda>i count. bindR (bits_and ps (nat i) s) (\<lambda>x.
       if x then ck_int (count + 1) else Inr count)) 0)"

definition DFMtestMask :: "nat \<Rightarrow> dfm \<Rightarrow> (int \<times> dfm) cres" where
  "DFMtestMask p s = bindR (CHECK_MASK p s) (\<lambda>s. bindR (count_loop [p] p s) (\<lambda>c.
     dbug_assert ''DFMtestMask'' (c \<ge> 0) (Inr (c, s))))"

definition DFMtest2MaskBases :: "nat \<Rightarrow> nat \<Rightarrow> dfm \<Rightarrow> bool cres" where
  "DFMtest2MaskBases p q s = bindR (get_mask p s) (\<lambda>m1. bindR (get_mask q s) (\<lambda>m2.
     Inr (mask_base m1 = mask_base m2)))"

definition DFMtest2Masks :: "nat \<Rightarrow> nat \<Rightarrow> dfm \<Rightarrow> (int \<times> dfm) cres" where
  "DFMtest2Masks p q s =
     bindR (DFMtest2MaskBases p q s) (\<lambda>same. dbug_assert ''Combining incompatible masks'' same
     (bindR (CHECK_MASK p s) (\<lambda>s. bindR (CHECK_MASK q s) (\<lambda>s. bindR (count_loop [p, q] p s) (\<lambda>c.
        dbug_assert ''DFMtest2Masks'' (c \<ge> 0) (Inr (c, s)))))))"

definition DFMtest3Masks :: "nat \<Rightarrow> nat \<Rightarrow> nat \<Rightarrow> dfm \<Rightarrow> (int \<times> dfm) cres" where
  "DFMtest3Masks p q r s =
     bindR (DFMtest2MaskBases p q s) (\<lambda>pq. bindR (DFMtest2MaskBases p r s) (\<lambda>pr.
     dbug_assert ''Combining incompatible masks'' (pq \<and> pr)
     (bindR (CHECK_MASK p s) (\<lambda>s. bindR (CHECK_MASK q s) (\<lambda>s. bindR (CHECK_MASK r s) (\<lambda>s.
      bindR (count_loop [p, q, r] p s) (\<lambda>c. dbug_assert ''DFMtest3Masks'' (c \<ge> 0) (Inr (c, s)))))))))"

definition DFMnumDecls :: "nat \<Rightarrow> dfm \<Rightarrow> nat cres" where
  "DFMnumDecls b s = bindR (get_base b s) (\<lambda>x. Inr (mb_num_decls x))"

definition DFMnumBitFields :: "nat \<Rightarrow> dfm \<Rightarrow> nat cres" where
  "DFMnumBitFields b s = bindR (get_base b s) (\<lambda>x. Inr (mb_num_bitfields x))"

definition DFMgetMaskBase :: "nat \<Rightarrow> dfm \<Rightarrow> nat cres" where
  "DFMgetMaskBase p s = bindR (get_mask p s) (\<lambda>m. Inr (mask_base m))"

definition DFMremoveMask :: "nat \<Rightarrow> dfm \<Rightarrow> dfm cres" where
  "DFMremoveMask p s = bindR (get_mask p s) (\<lambda>_. Inr (s\<lparr>masks := (masks s)[p := None]\<rparr>))"

definition DFMremoveMaskBase :: "nat \<Rightarrow> dfm \<Rightarrow> dfm cres" where
  "DFMremoveMaskBase b s = bindR (get_base b s) (\<lambda>_. Inr (s\<lparr>bases := (bases s)[b := None]\<rparr>))"

subsection \<open>Iterating over a mask\<close>

text \<open>\<open>while (i < n && test (i)) i++\<close>\<close>

function skip_while :: "nat \<Rightarrow> nat \<Rightarrow> (nat \<Rightarrow> bool cres) \<Rightarrow> nat cres" where
  "skip_while i n test = (if i < n then bindR (test i) (\<lambda>b. if b then skip_while (i + 1) n test else Inr i) else Inr i)"
  by pat_completeness auto
termination
  by (relation "measure (\<lambda>(i, n, test). n - i)") auto

declare skip_while.simps [simp del]

text \<open>
  The two functions keep the mask and the position of the last call in static variables; a call
  with a mask starts anew, a call with \<open>NULL\<close> goes on.
\<close>

definition GetMaskEntryPosClear :: "nat option \<Rightarrow> dfm \<Rightarrow> (nat \<times> dfm) cres" where
  "GetMaskEntryPosClear mk s =
     bindR (case mk of None \<Rightarrow> Inr s
            | Some p \<Rightarrow> bindR (CHECK_MASK p s) (\<lambda>s. Inr (s\<lparr>clear_store := Some p, clear_i := 0\<rparr>))) (\<lambda>s.
     case clear_store s of None \<Rightarrow> Inl (AssertFail ''Never got a non-NULL mask!'')
     | Some p \<Rightarrow> bindR (base_of p s) (\<lambda>b.
         bindR (skip_while (clear_i s) (mb_num_decls b) (\<lambda>i. IS_NTH_BIT_SET p i s)) (\<lambda>i.
           Inr (i, s\<lparr>clear_i := i + 1\<rparr>))))"

definition GetMaskEntryPosSet :: "nat option \<Rightarrow> dfm \<Rightarrow> (nat \<times> dfm) cres" where
  "GetMaskEntryPosSet mk s =
     bindR (case mk of None \<Rightarrow> Inr s
            | Some p \<Rightarrow> bindR (CHECK_MASK p s) (\<lambda>s. Inr (s\<lparr>set_store := Some p, set_i := 0\<rparr>))) (\<lambda>s.
     case set_store s of None \<Rightarrow> Inl (AssertFail ''Never got a non-NULL mask!'')
     | Some p \<Rightarrow> bindR (base_of p s) (\<lambda>b.
         bindR (skip_while (set_i s) (mb_num_decls b)
                  (\<lambda>i. bindR (IS_NTH_BIT_SET p i s) (\<lambda>b. Inr (\<not> b)))) (\<lambda>i.
           Inr (i, s\<lparr>set_i := i + 1\<rparr>))))"

text \<open>The declaration at a position, \<open>NULL\<close> at the end.\<close>

definition decl_at :: "nat option \<Rightarrow> nat \<Rightarrow> dfm \<Rightarrow> nat option cres" where
  "decl_at store pos s = (case store of None \<Rightarrow> Inl NullDeref
     | Some p \<Rightarrow> bindR (base_of p s) (\<lambda>b.
         if pos = mb_num_decls b then Inr None else rd (mb_decls b) (int pos)))"

definition DFMgetMaskEntryDeclClear :: "nat option \<Rightarrow> dfm \<Rightarrow> (nat option \<times> dfm) cres" where
  "DFMgetMaskEntryDeclClear mk s =
     (let s = (if mk \<noteq> None then s\<lparr>decl_clear_store := mk\<rparr> else s) in
      bindR (GetMaskEntryPosClear mk s) (\<lambda>(pos, s).
      bindR (decl_at (decl_clear_store s) pos s) (\<lambda>d. Inr (d, s))))"

definition DFMgetMaskEntryDeclSet :: "nat option \<Rightarrow> dfm \<Rightarrow> (nat option \<times> dfm) cres" where
  "DFMgetMaskEntryDeclSet mk s =
     (let s = (if mk \<noteq> None then s\<lparr>decl_set_store := mk\<rparr> else s) in
      bindR (GetMaskEntryPosSet mk s) (\<lambda>(pos, s).
      bindR (decl_at (decl_set_store s) pos s) (\<lambda>d. Inr (d, s))))"

definition DFMgetMaskEntryAvisClear :: "tree \<Rightarrow> nat option \<Rightarrow> dfm \<Rightarrow> (nat option \<times> dfm) cres" where
  "DFMgetMaskEntryAvisClear T mk s =
     bindR (DFMgetMaskEntryDeclClear mk s) (\<lambda>(d, s). Inr (map_option (VARDEC_OR_ARG_AVIS T) d, s))"

definition DFMgetMaskEntryAvisSet :: "tree \<Rightarrow> nat option \<Rightarrow> dfm \<Rightarrow> (nat option \<times> dfm) cres" where
  "DFMgetMaskEntryAvisSet T mk s =
     bindR (DFMgetMaskEntryDeclSet mk s) (\<lambda>(d, s). Inr (map_option (VARDEC_OR_ARG_AVIS T) d, s))"

subsection \<open>Mask bases\<close>

text \<open>The table of the masks for single bits, made when the first base is.\<close>

definition access_init :: "64 word cvec cres" where
  "access_init = bindR (cfor 0 64 (\<lambda>i (tab, am). bindR (wr tab i am) (\<lambda>tab. Inr (tab, push_bit 1 am)))
     (allocv 64, 1)) (\<lambda>(tab, am). Inr tab)"

definition DFMgenMaskBase :: "tree \<Rightarrow> nat list \<Rightarrow> nat list \<Rightarrow> dfm \<Rightarrow> (nat \<times> dfm) cres" where
  "DFMgenMaskBase T arguments vardecs s =
     bindR (if access_mask_table s = [] then access_init else Inr (access_mask_table s)) (\<lambda>tab.
     let n = length arguments + length vardecs in
     bindR (foldR (\<lambda>d (i, ds, br). bindR (wr ds (int i) (Some d)) (\<lambda>ds.
              Inr (i + 1, ds, br(VARDEC_OR_ARG_AVIS T d := i))))
            (arguments @ vardecs) (0 :: nat, allocv (int n), backref s)) (\<lambda>(i, ds, br).
     Inr (length (bases s),
          s\<lparr>access_mask_table := tab, backref := br,
            bases := bases s @ [Some \<lparr>mb_num_decls = n, mb_num_bitfields = n div 64 + 1, mb_decls = ds\<rparr>]\<rparr>)))"

definition DFMrepairMaskBaseBackrefs :: "tree \<Rightarrow> nat \<Rightarrow> dfm \<Rightarrow> dfm cres" where
  "DFMrepairMaskBaseBackrefs T b s =
     bindR (get_base b s) (\<lambda>x. cfor 0 (int (mb_num_decls x)) (\<lambda>i s. bindR (rd (mb_decls x) i) (\<lambda>d.
       case d of None \<Rightarrow> Inr s
       | Some d \<Rightarrow> Inr (s\<lparr>backref := (backref s)(VARDEC_OR_ARG_AVIS T d := nat i)\<rparr>))) s)"

text \<open>
  \<open>DFMupdateMaskBase\<close>: a mask of the declarations still in use is made, the others are replaced by
  \<open>NULL\<close>, and the new ones are appended.
\<close>

definition mark_used :: "tree \<Rightarrow> nat \<Rightarrow> nat \<Rightarrow> nat list \<Rightarrow> nat \<times> dfm \<Rightarrow> (nat \<times> dfm) cres" where
  "mark_used T b usage ds st =
     foldR (\<lambda>d (n, s). bindR (IsPartOfMaskBase T b d s) (\<lambda>part.
       if part then bindR (DFMsetMaskEntrySet T usage (VARDEC_OR_ARG_AVIS T d) s) (\<lambda>s. Inr (n, s))
       else Inr (n + 1, s))) ds st"

partial_function (option) clear_stale :: "nat \<Rightarrow> nat \<Rightarrow> nat \<Rightarrow> dfm \<Rightarrow> dfm cres option" where
  "clear_stale b usage unused s =
     bindRO (base_of usage s) (\<lambda>x.
       if unused \<noteq> mb_num_decls x
       then bindRO (get_base b s) (\<lambda>y. bindRO (wr (mb_decls y) (int unused) None) (\<lambda>ds.
            bindRO (set_base b (y\<lparr>mb_decls := ds\<rparr>) s) (\<lambda>s. bindRO (GetMaskEntryPosClear None s) (\<lambda>us.
              clear_stale b usage (fst us) (snd us)))))
       else Some (Inr s))"

declare clear_stale.simps [code]

definition append_new :: "tree \<Rightarrow> nat \<Rightarrow> nat list \<Rightarrow> nat \<times> nat option cvec \<times> dfm
    \<Rightarrow> (nat \<times> nat option cvec \<times> dfm) cres" where
  "append_new T b ds st =
     foldR (\<lambda>d (pos, new, s). bindR (IsPartOfMaskBase T b d s) (\<lambda>part.
       if part then Inr (pos, new, s)
       else bindR (wr new (int pos) (Some d)) (\<lambda>new.
              Inr (pos + 1, new, s\<lparr>backref := (backref s)(VARDEC_OR_ARG_AVIS T d := pos)\<rparr>)))) ds st"

definition DFMupdateMaskBase :: "tree \<Rightarrow> nat \<Rightarrow> nat list \<Rightarrow> nat list \<Rightarrow> dfm \<Rightarrow> (nat \<times> dfm) cres option" where
  "DFMupdateMaskBase T b arguments vardecs s =
     (let ds = arguments @ vardecs in
      bindRO (get_base b s) (\<lambda>x. bindRO (DFMgenMaskClear b s) (\<lambda>us.
      bindRO (mark_used T b (fst us) ds (mb_num_decls x, snd us)) (\<lambda>ns.
      bindRO (GetMaskEntryPosClear (Some (fst us)) (snd ns)) (\<lambda>cs.
      bindOO (clear_stale b (fst us) (fst cs) (snd cs)) (\<lambda>s.
      bindRO (DFMremoveMask (fst us) s) (\<lambda>s. bindRO (get_base b s) (\<lambda>x.
      bindRO (cfor 0 (int (mb_num_decls x)) (\<lambda>i new. bindR (rd (mb_decls x) i) (wr new i))
                (allocv (int (fst ns)))) (\<lambda>new.
      bindRO (append_new T b ds (mb_num_decls x, new, s)) (\<lambda>(pos, new, s).
      checkO (AssertFail ''Not all arguments and vardecs were added to the mask base!'') (pos = fst ns)
      (bindRO (set_base b (x\<lparr>mb_num_bitfields := fst ns div 64 + 1, mb_decls := new, mb_num_decls := fst ns\<rparr>) s)
        (\<lambda>s. Some (Inr (b, s))))))))))))))"

end
