(* ===== verification/DFM_Sets.thy ===== *)
theory DFM_Sets
  imports DFM
begin

text \<open>
  Data flow masks as sets of positions: \<open>mbit m i\<close> is the bit of a mask at any position, the
  default beyond its words, so that growing a mask does not change it.  The lemmas give the
  effect of every operation on the bits; locale \<open>bitwise\<close> is the contract of the word operations.
\<close>

subsection \<open>Objects\<close>

lemma get_mask_Inr: "get_mask p s = Inr m \<longleftrightarrow> p < length (masks s) \<and> masks s ! p = Some m"
  by (simp add: get_mask_def deref_Inr)

lemma get_base_Inr: "get_base b s = Inr x \<longleftrightarrow> b < length (bases s) \<and> bases s ! b = Some x"
  by (simp add: get_base_def deref_Inr)

abbreviation with_mask :: "dfm \<Rightarrow> nat \<Rightarrow> mask \<Rightarrow> dfm" where
  "with_mask s p m \<equiv> s\<lparr>masks := (masks s)[p := Some m]\<rparr>"

lemma set_mask_ok: "get_mask p s = Inr m \<Longrightarrow> set_mask p m' s = Inr (with_mask s p m')"
  by (simp add: set_mask_def)

lemma get_with_mask:
  assumes "get_mask p s = Inr m"
  shows "get_mask r (with_mask s p m') = (if r = p then Inr m' else get_mask r s)"
    "get_base b (with_mask s p m') = get_base b s"
  using assms by (auto simp: get_mask_def get_base_def deref_def check_def split: option.splits)

lemma with_mask_twice [simp]: "with_mask (with_mask s p m) p m' = with_mask s p m'"
  by simp

lemma with_mask_id: "get_mask p s = Inr m \<Longrightarrow> with_mask s p m = s"
  by (metis (no_types, lifting) get_mask_Inr list_update_id dfm.surjective dfm.update_convs(3))

subsection \<open>The invariant\<close>

definition table_ok :: "dfm \<Rightarrow> bool" where
  "table_ok s \<longleftrightarrow> access_mask_table s = full (map (\<lambda>i. push_bit i 1) [0..<64])"

definition base_ok :: "mbase \<Rightarrow> bool" where
  "base_ok x \<longleftrightarrow> mb_num_bitfields x = mb_num_decls x div 64 + 1
     \<and> (\<exists>ds. mb_decls x = full ds \<and> length ds = mb_num_decls x) \<and> int (mb_num_decls x) \<le> int_max"

definition words_ok :: "mask \<Rightarrow> bool" where
  "words_ok m \<longleftrightarrow> (\<exists>ws. bitfield m = full ws \<and> length ws = num_bitfields m)"

definition mask_ok :: "dfm \<Rightarrow> mask \<Rightarrow> bool" where
  "mask_ok s m \<longleftrightarrow> words_ok m \<and> (\<exists>x. get_base (mask_base m) s = Inr x \<and> num_bitfields m \<le> mb_num_bitfields x)"

definition dfm_ok :: "dfm \<Rightarrow> bool" where
  "dfm_ok s \<longleftrightarrow> table_ok s \<and> (\<forall>b x. get_base b s = Inr x \<longrightarrow> base_ok x)
     \<and> (\<forall>p m. get_mask p s = Inr m \<longrightarrow> mask_ok s m)"

definition mbit :: "mask \<Rightarrow> nat \<Rightarrow> bool" where
  "mbit m i \<longleftrightarrow> (if i div 64 < num_bitfields m then bit (the (bitfield m ! (i div 64))) (i mod 64)
     else is_set_by_default m)"

lemma dfm_okD:
  assumes "dfm_ok s"
  shows "table_ok s" "get_base b s = Inr x \<Longrightarrow> base_ok x" "get_mask p s = Inr m \<Longrightarrow> mask_ok s m"
  using assms by (auto simp: dfm_ok_def)

lemma words_okE:
  assumes "words_ok m" obtains ws where "bitfield m = full ws" "length ws = num_bitfields m"
  using assms by (auto simp: words_ok_def)

lemma mbit_full:
  assumes "bitfield m = full ws" and "length ws = num_bitfields m"
  shows "mbit m i \<longleftrightarrow> (if i div 64 < length ws then bit (ws ! (i div 64)) (i mod 64) else is_set_by_default m)"
  using assms by (simp add: mbit_def)

lemma rd_table: "table_ok s \<Longrightarrow> i < 64 \<Longrightarrow> rd (access_mask_table s) (int i) = Inr (push_bit i 1)"
  by (simp add: table_ok_def rd_full)

lemma single_bit: "(w AND 2 ^ k > 0) \<longleftrightarrow> bit w k" for w :: "64 word"
  using bit_iff_and_push_bit_not_eq_0 [of w k] by (simp add: word_neq_0_conv [symmetric])

lemma get_word_ok:
  assumes "get_mask p s = Inr m" and "bitfield m = full ws" and "i < length ws"
  shows "get_word p (int i) s = Inr (ws ! i)"
  using assms by (simp add: get_word_def rd_full)

lemma IS_NTH_ok:
  assumes "get_mask p s = Inr m" and "words_ok m" and "table_ok s" and "pos div 64 < num_bitfields m"
  shows "IS_NTH_BIT_SET p pos s = Inr (mbit m pos)"
proof -
  obtain ws where ws: "bitfield m = full ws" "length ws = num_bitfields m" using assms(2) by (rule words_okE)
  then show ?thesis
    using assms(4) get_word_ok [OF assms(1) ws(1)] rd_table [OF assms(3), of "pos mod 64"]
    by (simp add: IS_NTH_BIT_SET_def single_bit mbit_full)
qed

subsection \<open>Growing\<close>

text \<open>\<open>same_masks s t\<close>: \<open>t\<close> differs from \<open>s\<close> only in that masks may have grown.\<close>

definition same_mask :: "mask \<Rightarrow> mask \<Rightarrow> bool" where
  "same_mask m m' \<longleftrightarrow> mask_base m' = mask_base m \<and> is_set_by_default m' = is_set_by_default m
     \<and> mbit m' = mbit m \<and> num_bitfields m \<le> num_bitfields m'"

definition same_masks :: "dfm \<Rightarrow> dfm \<Rightarrow> bool" where
  "same_masks s t \<longleftrightarrow> t = s\<lparr>masks := masks t\<rparr> \<and> length (masks t) = length (masks s)
     \<and> (\<forall>p m. get_mask p s = Inr m \<longrightarrow> (\<exists>m'. get_mask p t = Inr m' \<and> same_mask m m'))"

lemma same_mask_trans: "same_mask m1 m2 \<Longrightarrow> same_mask m2 m3 \<Longrightarrow> same_mask m1 m3"
  by (auto simp: same_mask_def)

lemma same_masks_refl: "same_masks s s"
  by (simp add: same_masks_def same_mask_def)

lemma same_masks_trans: "same_masks s t \<Longrightarrow> same_masks t u \<Longrightarrow> same_masks s u"
  unfolding same_masks_def by (metis (no_types, lifting) dfm.update_convs(3) dfm.surjective same_mask_trans)

lemma same_masks_fields:
  assumes "same_masks s t"
  shows "bases t = bases s" "backref t = backref s" "access_mask_table t = access_mask_table s"
    "get_base b t = get_base b s" "table_ok t = table_ok s"
proof -
  obtain ms where "t = s\<lparr>masks := ms\<rparr>" using assms by (auto simp: same_masks_def)
  then show "bases t = bases s" "backref t = backref s" "access_mask_table t = access_mask_table s"
    "get_base b t = get_base b s" "table_ok t = table_ok s"
    by (simp_all add: get_base_def table_ok_def)
qed

text \<open>Changing a mask and adding one keep the invariant.\<close>

lemma update_mask_ok:
  assumes "dfm_ok s" and "get_mask p s = Inr m" and "mask_ok s m'"
  shows "dfm_ok (with_mask s p m')"
proof -
  note g = get_with_mask [OF assms(2)]
  have "mask_ok (with_mask s p m') n" if "get_mask r (with_mask s p m') = Inr n" for r n
    using that dfm_okD(3) [OF assms(1), of r n] assms(3) by (auto simp: g mask_ok_def split: if_splits)
  then show ?thesis using dfm_okD [OF assms(1)] by (auto simp: dfm_ok_def g(2) table_ok_def)
qed

abbreviation add_mask :: "dfm \<Rightarrow> mask \<Rightarrow> dfm" where
  "add_mask s m \<equiv> s\<lparr>masks := masks s @ [Some m]\<rparr>"

lemma get_add_mask:
  "get_mask r (add_mask s m) = (if r = length (masks s) then Inr m else get_mask r s)"
  "get_base b (add_mask s m) = get_base b s"
  by (auto simp: get_mask_def get_base_def deref_def check_def nth_append)

lemma add_mask_ok: "dfm_ok s \<Longrightarrow> mask_ok s m \<Longrightarrow> dfm_ok (add_mask s m)"
  unfolding dfm_ok_def get_add_mask by (simp add: table_ok_def mask_ok_def get_add_mask)

lemma mask_exists: "get_mask p s = Inr m \<Longrightarrow> p \<noteq> length (masks s)"
  by (auto simp: get_mask_Inr)

lemma ExtendMask_ok:
  assumes "get_mask p s = Inr m" and "words_ok m" and "get_base (mask_base m) s = Inr x"
    and "num_bitfields m \<le> mb_num_bitfields x"
  shows "\<exists>m'. ExtendMask p s = Inr (with_mask s p m') \<and> words_ok m' \<and> same_mask m m'
    \<and> num_bitfields m' = mb_num_bitfields x"
proof -
  obtain ws where ws: "bitfield m = full ws" "length ws = num_bitfields m" using assms(2) by (rule words_okE)
  let ?N = "mb_num_bitfields x" and ?n = "num_bitfields m"
  let ?e = "if is_set_by_default m then NOT 0 else (0 :: 64 word)"
  let ?g = "\<lambda>j. full (take (nat j) ws) @ replicate (?N - nat j) None"
  have "cfor 0 (int ?n) (\<lambda>i new. bindR (rd (bitfield m) i) (wr new i)) (?g 0) = Inr (?g (int ?n))"
  proof (rule cfor_traj)
    fix j assume j: "0 \<le> j" "j < int ?n"
    then obtain k where k: "j = int k" "k < length ws" using ws(2) by (metis of_nat_less_iff zero_le_imp_eq_int)
    have "nat (j + 1) = Suc k" "?N - k = Suc (?N - Suc k)" using k ws(2) assms(4) by simp_all
    then show "bindR (rd (bitfield m) j) (wr (?g j) j) = Inr (?g (j + 1))"
      using k by (simp add: ws(1) cmem) (simp add: wr_def list_update_append take_Suc_conv_app_nth)
  qed simp
  then have copy: "cfor 0 (int ?n) (\<lambda>i new. bindR (rd (bitfield m) i) (wr new i)) (allocv (int ?N))
      = Inr (full ws @ replicate (?N - ?n) None)"
    using ws(2) by (simp add: allocv_def)
  let ?h = "\<lambda>j. full ws @ full (replicate (nat j - ?n) ?e) @ replicate (?N - nat j) None"
  have "cfor (int ?n) (int ?N) (\<lambda>i new. wr new i ?e) (?h (int ?n)) = Inr (?h (int ?N))"
  proof (rule cfor_traj)
    fix j assume j: "int ?n \<le> j" "j < int ?N"
    then obtain k where k: "j = int k" "?n \<le> k" "k < ?N" by (metis of_nat_le_iff of_nat_less_iff zero_le_imp_eq_int of_nat_0_le_iff order_trans)
    have "nat (j + 1) - ?n = Suc (k - ?n)" "?N - k = Suc (?N - Suc k)" "nat (j + 1) = Suc k"
      using k by simp_all
    moreover have "full (replicate (Suc (k - ?n)) ?e) = full (replicate (k - ?n) ?e) @ [Some ?e]"
      by (simp only: replicate_Suc replicate_append_same [symmetric] full_simps)
    ultimately show "wr (?h j) j ?e = Inr (?h (j + 1))"
      using k ws(2) by (simp add: wr_def list_update_append del: replicate_Suc) simp
  qed (use assms(4) in simp)
  then have fill: "cfor (int ?n) (int ?N) (\<lambda>i new. wr new i ?e) (full ws @ replicate (?N - ?n) None)
      = Inr (full (ws @ replicate (?N - ?n) ?e))"
    by simp
  let ?m = "m\<lparr>bitfield := full (ws @ replicate (?N - ?n) ?e), num_bitfields := ?N\<rparr>"
  have "ExtendMask p s = Inr (with_mask s p ?m)"
    using assms(1,3) copy fill by (simp add: ExtendMask_def Let_def set_mask_ok del: full_simps)
  moreover have "words_ok ?m" unfolding words_ok_def using ws(2) assms(4)
    by (intro exI [of _ "ws @ replicate (?N - ?n) ?e"]) simp
  moreover have "mbit ?m i = mbit m i" for i
    using mbit_full [of ?m "ws @ replicate (?N - ?n) ?e" i] mbit_full [OF ws, of i] ws(2) assms(4)
    by (auto simp: nth_append)
  ultimately show ?thesis using assms(4) by (intro exI [of _ ?m]) (auto simp: same_mask_def)
qed

lemma CHECK_MASK_ok:
  assumes "dfm_ok s" and "get_mask p s = Inr m"
  shows "\<exists>t m' x. CHECK_MASK p s = Inr t \<and> dfm_ok t \<and> same_masks s t \<and> get_mask p t = Inr m' \<and> same_mask m m'
    \<and> words_ok m' \<and> get_base (mask_base m') t = Inr x \<and> num_bitfields m' = mb_num_bitfields x
    \<and> t = with_mask s p m'"
proof -
  obtain x where x: "words_ok m" "get_base (mask_base m) s = Inr x" "num_bitfields m \<le> mb_num_bitfields x"
    using dfm_okD(3) [OF assms] by (auto simp: mask_ok_def)
  show ?thesis
  proof (cases "num_bitfields m < mb_num_bitfields x")
    case False
    then have "CHECK_MASK p s = Inr s" using assms(2) x by (simp add: CHECK_MASK_def)
    then show ?thesis using assms x False same_masks_refl with_mask_id [OF assms(2)]
      by (intro exI [of _ s] exI [of _ m] exI [of _ x]) (simp add: same_mask_def)
  next
    case True
    obtain m' where m': "ExtendMask p s = Inr (with_mask s p m')" "words_ok m'" "same_mask m m'"
      "num_bitfields m' = mb_num_bitfields x"
      using ExtendMask_ok [OF assms(2) x] by blast
    let ?t = "with_mask s p m'"
    note g = get_with_mask [OF assms(2)]
    have b: "get_base (mask_base m') ?t = Inr x" using x(2) m'(3) g(2) by (simp add: same_mask_def)
    have "dfm_ok ?t"
      using update_mask_ok [OF assms] x(2) m'(2-4) by (simp add: mask_ok_def same_mask_def)
    moreover have "same_masks s ?t"
      using m'(3) assms(2) by (auto simp: same_masks_def g same_mask_def)
    moreover have "CHECK_MASK p s = Inr ?t" using True assms(2) x m'(1) by (simp add: CHECK_MASK_def)
    ultimately show ?thesis using m' b g by auto
  qed
qed

subsection \<open>Combining masks\<close>

lemma word_loop_ok:
  assumes n: "get_mask n s = Inr m" and len: "length (bitfield m) = num_bitfields m"
    and p: "get_mask p s = Inr mp" "bitfield mp = full xs" "length xs = num_bitfields m"
    and q: "get_mask q s = Inr mq" "bitfield mq = full ys" "length ys = num_bitfields m"
  shows "word_loop f n p q s = Inr (with_mask s n (m\<lparr>bitfield := full (map2 f xs ys)\<rparr>))"
proof -
  let ?zs = "map2 f xs ys" and ?N = "num_bitfields m"
  let ?g = "\<lambda>j. with_mask s n (m\<lparr>bitfield := full (take (nat j) ?zs) @ drop (nat j) (bitfield m)\<rparr>)"
  have word: "get_word r (int k) (?g (int k)) = Inr (zs ! k)"
    if "get_mask r s = Inr mr" "bitfield mr = full zs" "length zs = ?N" "k < ?N" for r mr zs k
  proof (cases "r = n")
    case True
    then have "bitfield m = full zs" using that(1,2) n by simp
    then show ?thesis using True that p(3) q(3) by (simp add: get_word_def get_with_mask [OF n] rd_def nth_append)
  next
    case False
    then show ?thesis using that by (simp add: get_word_def get_with_mask [OF n] rd_full)
  qed
  have "cfor 0 (int ?N) (\<lambda>i s. bindR (get_word p i s) (\<lambda>x. bindR (get_word q i s) (\<lambda>y.
          put_word n i (f x y) s))) (?g 0) = Inr (?g (int ?N))"
  proof (rule cfor_traj)
    fix j assume j: "0 \<le> j" "j < int ?N"
    then obtain k where k: "j = int k" "k < ?N" by (metis of_nat_less_iff zero_le_imp_eq_int)
    have s: "nat (j + 1) = Suc k" "drop k (bitfield m) = bitfield m ! k # drop (Suc k) (bitfield m)"
      using k len by (simp_all add: Cons_nth_drop_Suc)
    have "put_word n (int k) (f (xs ! k) (ys ! k)) (?g (int k)) = Inr (?g (j + 1))"
      using k len p(3) q(3) s
      by (simp add: put_word_def get_with_mask [OF n] wr_def set_mask_ok [OF trans [OF get_with_mask(1) [OF n]]]
          list_update_append take_Suc_conv_app_nth)
    then show "bindR (get_word p j (?g j)) (\<lambda>x. bindR (get_word q j (?g j)) (\<lambda>y.
          put_word n j (f x y) (?g j))) = Inr (?g (j + 1))"
      using word [OF p k(2)] word [OF q k(2)] by (simp only: k(1) bindR_simps)
  qed simp
  moreover have "?g 0 = s" using with_mask_id [OF n] by simp
  ultimately show ?thesis using n len p(3) q(3) by (simp add: word_loop_def)
qed

text \<open>Two masks over one base are brought to its length.\<close>

definition grown :: "nat \<Rightarrow> mask \<Rightarrow> nat \<Rightarrow> dfm \<Rightarrow> bool" where
  "grown p m N t \<longleftrightarrow> (\<exists>m' ws. get_mask p t = Inr m' \<and> same_mask m m' \<and> bitfield m' = full ws
     \<and> length ws = N \<and> num_bitfields m' = N)"

lemma grow_both:
  assumes ok: "dfm_ok s" and p: "get_mask p s = Inr m1" and q: "get_mask q s = Inr m2"
    and same: "mask_base m1 = mask_base m2" and x: "get_base (mask_base m1) s = Inr x"
  shows "\<exists>t u. CHECK_MASK p s = Inr t \<and> CHECK_MASK q t = Inr u \<and> dfm_ok u \<and> same_masks s u
    \<and> grown p m1 (mb_num_bitfields x) u \<and> grown q m2 (mb_num_bitfields x) u"
proof -
  obtain s1 m1' where s1: "CHECK_MASK p s = Inr s1" "dfm_ok s1" "same_masks s s1" "get_mask p s1 = Inr m1'"
    "same_mask m1 m1'" "words_ok m1'" "num_bitfields m1' = mb_num_bitfields x"
    using CHECK_MASK_ok [OF ok p] x same_masks_fields(4) [of s] by (auto simp: same_mask_def)
  obtain m2' where m2': "get_mask q s1 = Inr m2'" "same_mask m2 m2'"
    using s1(3) q by (auto simp: same_masks_def)
  have x1: "get_base (mask_base m2') s1 = Inr x"
    using x same m2'(2) same_masks_fields(4) [OF s1(3)] by (simp add: same_mask_def)
  obtain s2 m2'' where s2: "CHECK_MASK q s1 = Inr s2" "dfm_ok s2" "same_masks s1 s2" "get_mask q s2 = Inr m2''"
    "same_mask m2' m2''" "words_ok m2''" "num_bitfields m2'' = mb_num_bitfields x"
    "s2 = with_mask s1 q m2''"
    using CHECK_MASK_ok [OF s1(2) m2'(1)] x1 same_masks_fields(4) [of s1]
    by (auto simp: same_mask_def)
  have q2: "grown q m2 (mb_num_bitfields x) s2"
    unfolding grown_def using s2(4,7) words_okE [OF s2(6)] same_mask_trans [OF m2'(2) s2(5)] by metis
  have "grown p m1 (mb_num_bitfields x) s2"
  proof (cases "p = q")
    case True
    then have "m1' = m2'" "m1 = m2" using s1(4) m2'(1) p q by simp_all
    then show ?thesis using q2 True by simp
  next
    case False
    then have "get_mask p s2 = Inr m1'" unfolding s2(8) using get_with_mask(1) [OF m2'(1)] s1(4) by simp
    then show ?thesis unfolding grown_def using s1(5,7) words_okE [OF s1(6)] by metis
  qed
  then show ?thesis using s1(1) s2(1,2) q2 same_masks_trans [OF s1(3) s2(3)] by blast
qed

text \<open>\<open>extends s n t\<close>: \<open>t\<close> has the new mask \<open>n\<close>, and the others may have grown.\<close>

definition extends :: "dfm \<Rightarrow> nat \<Rightarrow> dfm \<Rightarrow> bool" where
  "extends s n t \<longleftrightarrow> bases t = bases s \<and> backref t = backref s \<and> n = length (masks s)
     \<and> (\<forall>r m. get_mask r s = Inr m \<longrightarrow> r \<noteq> n \<and> (\<exists>m'. get_mask r t = Inr m' \<and> same_mask m m'))"

lemma extends_add:
  assumes "same_masks s u"
  shows "extends s (length (masks u)) (add_mask u m)"
proof -
  have "length (masks u) = length (masks s)" using assms by (simp add: same_masks_def)
  moreover have "r \<noteq> length (masks u) \<and> (\<exists>m'. get_mask r (add_mask u m) = Inr m' \<and> same_mask n m')"
    if old: "get_mask r s = Inr n" for r n
  proof -
    obtain m' where "get_mask r u = Inr m'" "same_mask n m'" using old assms by (auto simp: same_masks_def)
    then show ?thesis using mask_exists by (simp add: get_add_mask)
  qed
  ultimately show ?thesis using same_masks_fields(1,2) [OF assms] by (simp add: extends_def)
qed

text \<open>A new mask whose words are a function of those of two masks.\<close>

lemma gen_run:
  assumes p: "get_mask p s = Inr m1" "bitfield m1 = full xs" "length xs = mb_num_bitfields x"
    and q: "get_mask q s = Inr m2" "bitfield m2 = full ys" "length ys = mb_num_bitfields x"
    and x: "get_base b s = Inr x"
  shows "bindR (genUninitializedMask b d s) (\<lambda>(n, s). bindR (word_loop f n p q s) (\<lambda>s. Inr (n, s)))
    = Inr (length (masks s), add_mask s \<lparr>is_set_by_default = d, num_bitfields = mb_num_bitfields x,
        bitfield = full (map2 f xs ys), mask_base = b\<rparr>)"
proof -
  let ?m0 = "\<lparr>is_set_by_default = d, num_bitfields = mb_num_bitfields x,
      bitfield = allocv (int (mb_num_bitfields x)), mask_base = b\<rparr>"
  have new: "get_mask (length (masks s)) (add_mask s ?m0) = Inr ?m0" by (simp add: get_add_mask)
  have old: "get_mask r (add_mask s ?m0) = Inr mr" if "get_mask r s = Inr mr" for r mr
    using that mask_exists by (simp add: get_add_mask)
  have "word_loop f (length (masks s)) p q (add_mask s ?m0)
      = Inr (with_mask (add_mask s ?m0) (length (masks s)) (?m0\<lparr>bitfield := full (map2 f xs ys)\<rparr>))"
    using word_loop_ok [OF new _ old [OF p(1)] p(2) _ old [OF q(1)] q(2), of f] p(3) q(3) by simp
  then show ?thesis using x by (simp add: genUninitializedMask_def)
qed

text \<open>\<open>changed s p t\<close>: the mask \<open>p\<close> may be another one in \<open>t\<close>, the others may have grown.\<close>

definition changed :: "dfm \<Rightarrow> nat \<Rightarrow> dfm \<Rightarrow> bool" where
  "changed s p t \<longleftrightarrow> bases t = bases s \<and> backref t = backref s
     \<and> (\<forall>r m. get_mask r s = Inr m \<longrightarrow> r \<noteq> p \<longrightarrow> (\<exists>m'. get_mask r t = Inr m' \<and> same_mask m m'))"

lemma changed_with_mask:
  assumes "same_masks s u" and "get_mask p u = Inr m"
  shows "changed s p (with_mask u p m')"
  unfolding changed_def using assms(1) same_masks_fields(1,2) [OF assms(1)]
  by (simp add: get_with_mask(1) [OF assms(2)]) (auto simp: same_masks_def)

subsection \<open>Masks as sets\<close>

definition mask_set :: "dfm \<Rightarrow> nat \<Rightarrow> nat set" where
  "mask_set s p = (case bindR (get_mask p s) (\<lambda>m. bindR (get_base (mask_base m) s) (\<lambda>x.
       Inr (set (filter (mbit m) [0..<mb_num_decls x])))) of Inl _ \<Rightarrow> {} | Inr A \<Rightarrow> A)"

lemma mask_set_eq:
  "get_mask p s = Inr m \<Longrightarrow> get_base (mask_base m) s = Inr x \<Longrightarrow>
    mask_set s p = {i. i < mb_num_decls x \<and> mbit m i}"
  by (auto simp: mask_set_def)

lemma dfm_ok_base:
  assumes "dfm_ok s" and "get_mask p s = Inr m"
  obtains x where "get_base (mask_base m) s = Inr x" "base_ok x"
  using dfm_okD [OF assms(1)] assms(2) by (metis mask_ok_def)

lemma mask_set_same_mask:
  assumes "dfm_ok s" and "get_mask p s = Inr m" and "get_mask p t = Inr m'" and "same_mask m m'" and "bases t = bases s"
  shows "mask_set t p = mask_set s p"
proof -
  obtain x where x: "get_base (mask_base m) s = Inr x" by (rule dfm_ok_base [OF assms(1,2)])
  moreover have "get_base (mask_base m') t = Inr x" using x assms(4,5) by (simp add: same_mask_def get_base_def)
  ultimately show ?thesis using mask_set_eq [OF assms(2)] mask_set_eq [OF assms(3)] assms(4) by (simp add: same_mask_def)
qed

lemma extends_set:
  assumes "dfm_ok s" and "extends s n t" and "get_mask r s = Inr m"
  shows "mask_set t r = mask_set s r"
proof -
  obtain m' where m': "get_mask r t = Inr m'" "same_mask m m'" using assms(2,3) by (auto simp: extends_def)
  show ?thesis using mask_set_same_mask [OF assms(1,3) m'] assms(2) by (simp add: extends_def)
qed

lemma changed_set:
  assumes "dfm_ok s" and "changed s p t" and "get_mask r s = Inr m" and "r \<noteq> p"
  shows "mask_set t r = mask_set s r"
proof -
  obtain m' where m': "get_mask r t = Inr m'" "same_mask m m'" using assms(2-4) by (auto simp: changed_def)
  show ?thesis using mask_set_same_mask [OF assms(1,3) m'] assms(2) by (simp add: changed_def)
qed

lemma decl_in_words: "base_ok x \<Longrightarrow> i < mb_num_decls x \<Longrightarrow> i < 64 * mb_num_bitfields x"
  by (simp add: base_ok_def)

text \<open>The contract of a word operation: it works bit by bit.\<close>

locale bitwise =
  fixes f :: "64 word \<Rightarrow> 64 word \<Rightarrow> 64 word" and F :: "bool \<Rightarrow> bool \<Rightarrow> bool"
  assumes bit_f: "k < 64 \<Longrightarrow> bit (f x y) k = F (bit x k) (bit y k)"
begin

lemma mbit_combined:
  assumes "bitfield m1 = full xs" and "bitfield m2 = full ys" and "bitfield m = full (map2 f xs ys)"
    and "length xs = num_bitfields m1" and "length ys = num_bitfields m2" and "length xs = length ys"
    and "num_bitfields m = length xs" and "i div 64 < length xs"
  shows "mbit m i = F (mbit m1 i) (mbit m2 i)"
  using assms by (simp add: mbit_full [of _ xs] mbit_full [of _ ys] mbit_full [of _ "map2 f xs ys"] bit_f)

text \<open>The new mask that \<open>gen_combined\<close> makes of two masks over one base and with one default.\<close>

lemma gen_ok:
  assumes ok: "dfm_ok s" and p: "get_mask p s = Inr m1" and q: "get_mask q s = Inr m2"
    and same: "mask_base m1 = mask_base m2" "is_set_by_default m1 = is_set_by_default m2"
    and x: "get_base (mask_base m1) s = Inr x"
  shows "\<exists>n t m. gen_combined (word_loop f) p q s = Inr (n, t) \<and> dfm_ok t \<and> get_mask n t = Inr m
    \<and> mask_base m = mask_base m1 \<and> is_set_by_default m = is_set_by_default m1
    \<and> (\<forall>i<64 * mb_num_bitfields x. mbit m i = F (mbit m1 i) (mbit m2 i)) \<and> extends s n t"
proof -
  let ?N = "mb_num_bitfields x" and ?d = "is_set_by_default m1" and ?b = "mask_base m1"
  obtain s1 u where u: "CHECK_MASK p s = Inr s1" "CHECK_MASK q s1 = Inr u" "dfm_ok u" "same_masks s u"
    "grown p m1 ?N u" "grown q m2 ?N u"
    using grow_both [OF ok p q same(1) x] by blast
  obtain m1' xs where m1': "get_mask p u = Inr m1'" "same_mask m1 m1'" "bitfield m1' = full xs" "length xs = ?N"
    "num_bitfields m1' = ?N"
    using u(5) by (auto simp: grown_def)
  obtain m2' ys where m2': "get_mask q u = Inr m2'" "same_mask m2 m2'" "bitfield m2' = full ys" "length ys = ?N"
    "num_bitfields m2' = ?N"
    using u(6) by (auto simp: grown_def)
  have xu: "get_base ?b u = Inr x" using x same_masks_fields(4) [OF u(4)] by simp
  define m where "m = \<lparr>is_set_by_default = ?d, num_bitfields = ?N, bitfield = full (map2 f xs ys), mask_base = ?b\<rparr>"
  have "gen_combined (word_loop f) p q s = Inr (length (masks u), add_mask u m)"
    unfolding gen_combined_def using p q same u(1,2) gen_run [OF m1'(1,3,4) m2'(1,3,4) xu, of ?d f]
    by (simp add: m_def)
  moreover have "words_ok m" using m1'(4) m2'(4) by (auto simp: words_ok_def m_def intro: exI [of _ "map2 f xs ys"])
  then have "dfm_ok (add_mask u m)" using add_mask_ok [OF u(3)] xu by (simp add: mask_ok_def m_def)
  moreover have "mbit m i = F (mbit m1 i) (mbit m2 i)" if "i < 64 * ?N" for i
  proof -
    have "i div 64 < ?N" using that by (simp add: less_mult_imp_div_less mult.commute)
    then show ?thesis
      using mbit_combined [OF m1'(3) m2'(3), of m i] m1' m2' by (simp add: m_def same_mask_def)
  qed
  ultimately show ?thesis
    using extends_add [OF u(4), of m] by (intro exI [of _ "length (masks u)"] exI [of _ "add_mask u m"] exI [of _ m])
      (simp add: get_add_mask m_def)
qed

lemma gen_set:
  assumes ok: "dfm_ok s" and p: "get_mask p s = Inr m1" and q: "get_mask q s = Inr m2"
    and same: "mask_base m1 = mask_base m2" "is_set_by_default m1 = is_set_by_default m2"
    and x: "get_base (mask_base m1) s = Inr x"
  shows "\<exists>n t. gen_combined (word_loop f) p q s = Inr (n, t) \<and> dfm_ok t \<and> extends s n t
    \<and> mask_set t n = {i. i < mb_num_decls x \<and> F (i \<in> mask_set s p) (i \<in> mask_set s q)}"
proof -
  obtain n t m where t: "gen_combined (word_loop f) p q s = Inr (n, t)" "dfm_ok t" "get_mask n t = Inr m"
    "mask_base m = mask_base m1" "\<forall>i<64 * mb_num_bitfields x. mbit m i = F (mbit m1 i) (mbit m2 i)" "extends s n t"
    using gen_ok [OF assms] by blast
  have "get_base (mask_base m) t = Inr x" using x t(4,6) by (simp add: extends_def get_base_def)
  moreover have "mbit m i = F (mbit m1 i) (mbit m2 i)" if "i < mb_num_decls x" for i
    using t(5) decl_in_words [OF dfm_okD(2) [OF ok x] that] by blast
  ultimately have "mask_set t n = {i. i < mb_num_decls x \<and> F (i \<in> mask_set s p) (i \<in> mask_set s q)}"
    using mask_set_eq [OF t(3)] mask_set_eq [OF p x] mask_set_eq [OF q] x same(1) by auto
  then show ?thesis using t(1,2,6) by blast
qed

text \<open>The same into the first mask, whose default is kept.\<close>

lemma set_set:
  assumes ok: "dfm_ok s" and p: "get_mask p s = Inr m1" and q: "get_mask q s = Inr m2"
    and same: "mask_base m1 = mask_base m2" and x: "get_base (mask_base m1) s = Inr x"
  shows "\<exists>t m. set_combined f p q s = Inr t \<and> dfm_ok t \<and> changed s p t \<and> get_mask p t = Inr m
    \<and> mask_base m = mask_base m1 \<and> is_set_by_default m = is_set_by_default m1
    \<and> mask_set t p = {i. i < mb_num_decls x \<and> F (i \<in> mask_set s p) (i \<in> mask_set s q)}"
proof -
  let ?N = "mb_num_bitfields x"
  obtain s1 u where u: "CHECK_MASK p s = Inr s1" "CHECK_MASK q s1 = Inr u" "dfm_ok u" "same_masks s u"
    "grown p m1 ?N u" "grown q m2 ?N u"
    using grow_both [OF ok p q same x] by blast
  obtain m1' xs where m1': "get_mask p u = Inr m1'" "same_mask m1 m1'" "bitfield m1' = full xs" "length xs = ?N"
    "num_bitfields m1' = ?N"
    using u(5) by (auto simp: grown_def)
  obtain m2' ys where m2': "get_mask q u = Inr m2'" "same_mask m2 m2'" "bitfield m2' = full ys" "length ys = ?N"
    "num_bitfields m2' = ?N"
    using u(6) by (auto simp: grown_def)
  define m where "m = m1'\<lparr>bitfield := full (map2 f xs ys)\<rparr>"
  have xu: "get_base (mask_base m) u = Inr x"
    using x same_masks_fields(4) [OF u(4)] m1'(2) by (simp add: m_def same_mask_def)
  have "set_combined f p q s = Inr (with_mask u p m)"
    unfolding set_combined_def using p q same u(1,2) word_loop_ok [OF m1'(1) _ m1'(1,3) _ m2'(1,3), of f] m1' m2'
    by (simp add: m_def)
  moreover have "words_ok m" using m1'(4,5) m2'(4) by (auto simp: words_ok_def m_def intro: exI [of _ "map2 f xs ys"])
  then have "dfm_ok (with_mask u p m)"
    using update_mask_ok [OF u(3) m1'(1)] xu m1'(5) by (simp add: mask_ok_def m_def)
  moreover have "mbit m i = F (mbit m1 i) (mbit m2 i)" if "i < mb_num_decls x" for i
  proof -
    have "i div 64 < ?N"
      using decl_in_words [OF dfm_okD(2) [OF ok x] that] by (simp add: less_mult_imp_div_less mult.commute)
    then show ?thesis
      using mbit_combined [OF m1'(3) m2'(3), of m i] m1' m2' by (simp add: m_def same_mask_def)
  qed
  then have "mask_set (with_mask u p m) p = {i. i < mb_num_decls x \<and> F (i \<in> mask_set s p) (i \<in> mask_set s q)}"
    using mask_set_eq [of p "with_mask u p m" m x] get_with_mask [OF m1'(1)] xu mask_set_eq [OF p x]
      mask_set_eq [OF q] x same by auto
  ultimately show ?thesis
    using changed_with_mask [OF u(4) m1'(1)] get_with_mask(1) [OF m1'(1)] m1'(2)
    by (intro exI [of _ "with_mask u p m"] exI [of _ m]) (simp add: m_def same_mask_def)
qed

end

interpretation w_and: bitwise "\<lambda>x y. x AND y" "\<lambda>a b. a \<and> b"
  by unfold_locales (simp add: bit_and_iff)

interpretation w_or: bitwise "\<lambda>x y. x OR y" "\<lambda>a b. a \<or> b"
  by unfold_locales (simp add: bit_or_iff)

interpretation w_minus: bitwise "\<lambda>x y. x AND NOT y" "\<lambda>a b. a \<and> \<not> b"
  by unfold_locales (simp add: bit_and_iff bit_not_iff)

interpretation w_xor: bitwise "\<lambda>x y. x XOR y" "\<lambda>a b. a \<noteq> b"
  by unfold_locales (simp add: bit_xor_iff)

interpretation w_fst: bitwise "\<lambda>x _. x" "\<lambda>a _. a"
  by unfold_locales simp

interpretation w_copy: bitwise "\<lambda>_ y. y" "\<lambda>_ b. b"
  by unfold_locales simp

end
