(* ===== verification/DFM_Ops.thy ===== *)
theory DFM_Ops
  imports DFM_Sets
begin

text \<open>
  Operations on one data flow mask: constant masks, copies and complements, single entries,
  counting and iteration.
\<close>

subsection \<open>Filling a mask\<close>

lemma fill_ok:
  assumes n: "get_mask n s = Inr m" and len: "length (bitfield m) = N"
  shows "cfor 0 (int N) (\<lambda>i. put_word n i w) s
    = Inr (with_mask s n (m\<lparr>bitfield := full (replicate N w)\<rparr>))"
proof -
  let ?g = "\<lambda>j. with_mask s n (m\<lparr>bitfield := full (replicate (nat j) w) @ drop (nat j) (bitfield m)\<rparr>)"
  have "cfor 0 (int N) (\<lambda>i. put_word n i w) (?g 0) = Inr (?g (int N))"
  proof (rule cfor_traj)
    fix j assume "0 \<le> j" "j < int N"
    then obtain k where k: "j = int k" "k < N" by (metis of_nat_less_iff zero_le_imp_eq_int)
    have "nat (j + 1) = Suc k" "drop k (bitfield m) = bitfield m ! k # drop (Suc k) (bitfield m)"
      using k len by (simp_all add: Cons_nth_drop_Suc)
    moreover have "full (replicate (Suc k) w) = full (replicate k w) @ [Some w]"
      by (simp only: replicate_Suc replicate_append_same [symmetric] full_simps)
    ultimately show "put_word n j w (?g j) = Inr (?g (j + 1))"
      using k len
      by (simp add: put_word_def get_with_mask [OF n] wr_def list_update_append
          set_mask_ok [OF trans [OF get_with_mask(1) [OF n]]] del: replicate_Suc)
  qed simp
  moreover have "?g 0 = s" using with_mask_id [OF n] by simp
  ultimately show ?thesis using len by simp
qed

lemma mbit_const:
  assumes "bitfield m = full (replicate N (if d then NOT 0 else 0))" and "num_bitfields m = N" and "i < 64 * N"
  shows "mbit m i = d"
  using assms less_mult_imp_div_less [of i N 64] by (simp add: mbit_full [OF assms(1)] mult.commute bit_not_iff)

lemma genInitializedMask_ok:
  assumes ok: "dfm_ok s" and x: "get_base b s = Inr x"
  shows "\<exists>n t m. genInitializedMask b d s = Inr (n, t) \<and> dfm_ok t \<and> extends s n t \<and> get_mask n t = Inr m
    \<and> mask_base m = b \<and> is_set_by_default m = d \<and> mbit m = (\<lambda>_. d) \<and> num_bitfields m = mb_num_bitfields x
    \<and> t = add_mask s m"
proof -
  let ?N = "mb_num_bitfields x"
  define m0 where "m0 = \<lparr>is_set_by_default = d, num_bitfields = ?N, bitfield = allocv (int ?N), mask_base = b\<rparr>"
  define m where "m = m0\<lparr>bitfield := full (replicate ?N (if d then NOT 0 else 0))\<rparr>"
  have new: "get_mask (length (masks s)) (add_mask s m0) = Inr m0" by (simp add: get_add_mask)
  have "cfor 0 (int ?N) (\<lambda>i. put_word (length (masks s)) i (if d then NOT 0 else 0)) (add_mask s m0)
      = Inr (add_mask s m)"
    using fill_ok [OF new, of ?N] by (simp add: m0_def m_def)
  then have "genInitializedMask b d s = Inr (length (masks s), add_mask s m)"
    using x new by (simp add: genInitializedMask_def genUninitializedMask_def base_of_def m0_def get_add_mask)
  moreover have "dfm_ok (add_mask s m)"
    using add_mask_ok [OF ok] x by (simp add: mask_ok_def words_ok_def m_def m0_def)
  moreover have "mbit m i = d" for i
  proof (cases "i < 64 * ?N")
    case True
    then show ?thesis using mbit_const [of m ?N] by (simp add: m_def m0_def)
  next
    case False
    then have "\<not> i div 64 < ?N" using less_mult_imp_div_less div_less_iff_less_mult by auto
    then show ?thesis by (simp add: mbit_def m_def m0_def)
  qed
  ultimately show ?thesis
    using extends_add [OF same_masks_refl, of s m]
    by (intro exI [of _ "length (masks s)"] exI [of _ "add_mask s m"] exI [of _ m]) (auto simp: get_add_mask m_def m0_def)
qed

lemma genInitializedMask_set:
  assumes "dfm_ok s" and x: "get_base b s = Inr x"
  shows "\<exists>n t. genInitializedMask b d s = Inr (n, t) \<and> dfm_ok t \<and> extends s n t
    \<and> mask_set t n = (if d then {..<mb_num_decls x} else {})"
proof -
  obtain n t m where t: "genInitializedMask b d s = Inr (n, t)" "dfm_ok t" "extends s n t" "get_mask n t = Inr m"
    "mask_base m = b" "mbit m = (\<lambda>_. d)"
    using genInitializedMask_ok [OF assms] by blast
  have "get_base (mask_base m) t = Inr x" using x t(3,5) by (simp add: extends_def get_base_def)
  from mask_set_eq [OF t(4) this] show ?thesis using t by auto
qed

text \<open>The operations on all words of one mask: \<open>DFMsetMaskClear\<close>, \<open>DFMsetMaskSet\<close>.\<close>

lemma CHECK_MASK_grown:
  assumes "dfm_ok s" and "get_mask p s = Inr m" and "get_base (mask_base m) s = Inr x"
  shows "\<exists>u m' ws. CHECK_MASK p s = Inr u \<and> dfm_ok u \<and> same_masks s u \<and> get_mask p u = Inr m'
    \<and> same_mask m m' \<and> bitfield m' = full ws \<and> length ws = mb_num_bitfields x
    \<and> num_bitfields m' = mb_num_bitfields x \<and> get_base (mask_base m') u = Inr x \<and> u = with_mask s p m'"
proof -
  obtain u m' y where u: "CHECK_MASK p s = Inr u" "dfm_ok u" "same_masks s u" "get_mask p u = Inr m'"
    "same_mask m m'" "words_ok m'" "get_base (mask_base m') u = Inr y" "num_bitfields m' = mb_num_bitfields y"
    "u = with_mask s p m'"
    using CHECK_MASK_ok [OF assms(1,2)] by blast
  moreover from u(5,7) have "y = x" using assms(3) same_masks_fields(4) [OF u(3)] by (simp add: same_mask_def)
  moreover obtain ws where "bitfield m' = full ws" "length ws = num_bitfields m'" using u(6) by (rule words_okE)
  ultimately show ?thesis by metis
qed

lemma setMask_all:
  assumes ok: "dfm_ok s" and p: "get_mask p s = Inr m" and x: "get_base (mask_base m) s = Inr x"
  shows "\<exists>t. bindR (CHECK_MASK p s) (\<lambda>s. bindR (get_mask p s) (\<lambda>m.
      cfor 0 (int (num_bitfields m)) (\<lambda>i. put_word p i (if d then NOT 0 else 0)) s)) = Inr t
    \<and> dfm_ok t \<and> changed s p t \<and> mask_set t p = (if d then {..<mb_num_decls x} else {})"
proof -
  let ?N = "mb_num_bitfields x"
  obtain u m' ws where u: "CHECK_MASK p s = Inr u" "dfm_ok u" "same_masks s u" "get_mask p u = Inr m'"
    "same_mask m m'" "bitfield m' = full ws" "length ws = ?N" "num_bitfields m' = ?N" "get_base (mask_base m') u = Inr x"
    using CHECK_MASK_grown [OF assms] by blast
  define n where "n = m'\<lparr>bitfield := full (replicate ?N (if d then NOT 0 else 0))\<rparr>"
  have g: "get_mask p (with_mask u p n) = Inr n" "get_base (mask_base n) (with_mask u p n) = Inr x"
    using get_with_mask [OF u(4)] u(9) by (simp_all add: n_def)
  have "mbit n i = d" if "i < mb_num_decls x" for i
    using mbit_const [of n ?N d] decl_in_words [OF dfm_okD(2) [OF ok x] that] u(8) by (simp add: n_def)
  then have "mask_set (with_mask u p n) p = (if d then {..<mb_num_decls x} else {})"
    using mask_set_eq [OF g] by auto
  moreover have "cfor 0 (int (num_bitfields m')) (\<lambda>i. put_word p i (if d then NOT 0 else 0)) u = Inr (with_mask u p n)"
    using fill_ok [OF u(4), of ?N] u(6-8) by (simp add: n_def)
  moreover have "dfm_ok (with_mask u p n)"
    using update_mask_ok [OF u(2,4)] u(8,9) by (simp add: mask_ok_def words_ok_def n_def)
  ultimately show ?thesis using u(1,4) changed_with_mask [OF u(3,4), of n] by simp
qed

text \<open>Copies and complements.\<close>

lemma CHECK_MASK_again:
  assumes "get_mask p u = Inr m" and "get_base (mask_base m) u = Inr x" and "num_bitfields m = mb_num_bitfields x"
  shows "CHECK_MASK p u = Inr u"
  using assms by (simp add: CHECK_MASK_def)

lemma DFMgenMaskCopy_eq:
  assumes ok: "dfm_ok s" and p: "get_mask p s = Inr m"
  shows "DFMgenMaskCopy p s = gen_combined (word_loop (\<lambda>x _. x)) p p s"
proof -
  obtain x where x: "get_base (mask_base m) s = Inr x" by (rule dfm_ok_base [OF assms])
  obtain u m' ws where u: "CHECK_MASK p s = Inr u" "get_mask p u = Inr m'" "same_mask m m'"
    "num_bitfields m' = mb_num_bitfields x" "get_base (mask_base m') u = Inr x"
    using CHECK_MASK_grown [OF assms x] by blast
  then show ?thesis using p CHECK_MASK_again [OF u(2,5,4)]
    by (simp add: DFMgenMaskCopy_def gen_combined_def same_mask_def)
qed

lemma DFMgenMaskInv_ok:
  assumes ok: "dfm_ok s" and p: "get_mask p s = Inr m" and x: "get_base (mask_base m) s = Inr x"
  shows "\<exists>n t m'. DFMgenMaskInv p s = Inr (n, t) \<and> dfm_ok t \<and> extends s n t \<and> get_mask n t = Inr m'
    \<and> mask_base m' = mask_base m \<and> mbit m' = (\<lambda>i. \<not> mbit m i)"
proof -
  let ?N = "mb_num_bitfields x"
  obtain u m1 xs where u: "CHECK_MASK p s = Inr u" "dfm_ok u" "same_masks s u" "get_mask p u = Inr m1"
    "same_mask m m1" "bitfield m1 = full xs" "length xs = ?N" "num_bitfields m1 = ?N" "get_base (mask_base m1) u = Inr x"
    using CHECK_MASK_grown [OF assms] by blast
  define n where "n = \<lparr>is_set_by_default = \<not> is_set_by_default m1, num_bitfields = ?N,
    bitfield = full (map2 (\<lambda>x _. NOT x) xs xs), mask_base = mask_base m1\<rparr>"
  have "DFMgenMaskInv p s = Inr (length (masks u), add_mask u n)"
    using u(1,4) gen_run [OF u(4,6,7,4,6,7,9), of "\<not> is_set_by_default m1" "\<lambda>x _. NOT x"]
    by (simp add: DFMgenMaskInv_def n_def)
  moreover have "words_ok n" using u(7) by (auto simp: words_ok_def n_def intro: exI [of _ "map2 (\<lambda>x _. NOT x) xs xs"])
  then have "dfm_ok (add_mask u n)" using add_mask_ok [OF u(2)] u(9) by (simp add: mask_ok_def n_def)
  moreover have "mbit n i = (\<not> mbit m i)" for i
    using mbit_full [OF u(6), of i] mbit_full [of n "map2 (\<lambda>x _. NOT x) xs xs" i] u(5,7,8)
    by (auto simp: n_def same_mask_def bit_not_iff)
  ultimately show ?thesis using extends_add [OF u(3), of n] u(5)
    by (intro exI [of _ "length (masks u)"] exI [of _ "add_mask u n"] exI [of _ n])
      (auto simp: get_add_mask n_def same_mask_def)
qed

lemma DFMgenMaskInv_set:
  assumes "dfm_ok s" and p: "get_mask p s = Inr m" and x: "get_base (mask_base m) s = Inr x"
  shows "\<exists>n t. DFMgenMaskInv p s = Inr (n, t) \<and> dfm_ok t \<and> extends s n t
    \<and> mask_set t n = {..<mb_num_decls x} - mask_set s p"
proof -
  obtain n t m' where t: "DFMgenMaskInv p s = Inr (n, t)" "dfm_ok t" "extends s n t" "get_mask n t = Inr m'"
    "mask_base m' = mask_base m" "mbit m' = (\<lambda>i. \<not> mbit m i)"
    using DFMgenMaskInv_ok [OF assms] by blast
  have "get_base (mask_base m') t = Inr x" using x t(3,5) by (simp add: extends_def get_base_def)
  from mask_set_eq [OF t(4) this] mask_set_eq [OF p x] show ?thesis using t by auto
qed

lemma DFMsetMaskInv_set:
  assumes ok: "dfm_ok s" and p: "get_mask p s = Inr m" and x: "get_base (mask_base m) s = Inr x"
  shows "\<exists>t. DFMsetMaskInv p s = Inr t \<and> dfm_ok t \<and> changed s p t
    \<and> mask_set t p = {..<mb_num_decls x} - mask_set s p"
proof -
  let ?N = "mb_num_bitfields x"
  obtain u m1 xs where u: "CHECK_MASK p s = Inr u" "dfm_ok u" "same_masks s u" "get_mask p u = Inr m1"
    "same_mask m m1" "bitfield m1 = full xs" "length xs = ?N" "num_bitfields m1 = ?N" "get_base (mask_base m1) u = Inr x"
    using CHECK_MASK_grown [OF assms] by blast
  define m2 where "m2 = m1\<lparr>is_set_by_default := \<not> is_set_by_default m1\<rparr>"
  define n where "n = m2\<lparr>bitfield := full (map2 (\<lambda>x _. NOT x) xs xs)\<rparr>"
  have g: "get_mask p (with_mask u p m2) = Inr m2" using get_with_mask(1) [OF u(4)] by simp
  have "word_loop (\<lambda>x _. NOT x) p p p (with_mask u p m2) = Inr (with_mask u p n)"
    using word_loop_ok [OF g _ g _ _ g, of xs xs "\<lambda>x _. NOT x"] u(6-8) by (simp add: m2_def n_def)
  then have "DFMsetMaskInv p s = Inr (with_mask u p n)"
    using u(1,4) set_mask_ok [OF u(4), of m2] by (simp add: DFMsetMaskInv_def m2_def)
  moreover have "words_ok n" using u(7,8)
    by (auto simp: words_ok_def n_def m2_def intro: exI [of _ "map2 (\<lambda>x _. NOT x) xs xs"])
  then have "dfm_ok (with_mask u p n)"
    using update_mask_ok [OF u(2,4)] u(8,9) by (simp add: mask_ok_def n_def m2_def)
  moreover have "mbit n i = (\<not> mbit m i)" for i
    using mbit_full [OF u(6), of i] mbit_full [of n "map2 (\<lambda>x _. NOT x) xs xs" i] u(5,7,8)
    by (auto simp: n_def m2_def same_mask_def bit_not_iff)
  then have "mask_set (with_mask u p n) p = {..<mb_num_decls x} - mask_set s p"
    using mask_set_eq [of p "with_mask u p n" n x] get_with_mask [OF u(4)] u(9) mask_set_eq [OF p x]
    by (auto simp: n_def m2_def)
  ultimately show ?thesis using changed_with_mask [OF u(3,4)] by blast
qed

subsection \<open>Single entries\<close>

text \<open>The back reference of an identifier leads to its declaration.\<close>

definition located :: "tree \<Rightarrow> mbase \<Rightarrow> dfm \<Rightarrow> nat \<Rightarrow> bool" where
  "located T x s avis \<longleftrightarrow> backref s avis < mb_num_decls x
     \<and> mb_decls x ! backref s avis = Some (Some (AVIS_DECL T avis))"

lemma SafeGetBackref_ok:
  assumes "base_ok x" and "located T x s avis"
  shows "SafeGetBackref T x avis s = Inr (backref s avis)"
  using assms by (auto simp: SafeGetBackref_def located_def Let_def base_ok_def rd_full)

lemma SafeGetBackref_absent:
  "\<not> backref s avis < mb_num_decls x \<Longrightarrow>
    SafeGetBackref T x avis s = Inl (AssertFail ''Identifier not present in mask'')"
  by (simp add: SafeGetBackref_def Let_def)

lemma SafeGetBackref_wrong:
  assumes "base_ok x" and "backref s avis < mb_num_decls x"
    and "mb_decls x ! backref s avis \<noteq> Some (Some (AVIS_DECL T avis))"
  shows "SafeGetBackref T x avis s = Inl (AssertFail ''Inconsistent backref entry'')"
  using assms by (auto simp: SafeGetBackref_def Let_def base_ok_def rd_full)

text \<open>The contract of an update of one entry: the bit becomes \<open>v\<close>, the others stay.\<close>

locale bit_update =
  fixes f :: "64 word \<Rightarrow> 64 word \<Rightarrow> 64 word" and v :: bool
  assumes bit_upd: "k < 64 \<Longrightarrow> j < 64 \<Longrightarrow> bit (f w (2 ^ k)) j = (if j = k then v else bit w j)"
begin

lemma mbit_upd:
  assumes ws: "bitfield m = full ws" "length ws = num_bitfields m" and i: "i div 64 < length ws"
  shows "mbit (m\<lparr>bitfield := full (ws[i div 64 := f (ws ! (i div 64)) (push_bit (i mod 64) 1)])\<rparr>)
    = (mbit m)(i := v)"
proof
  fix j
  let ?vs = "ws[i div 64 := f (ws ! (i div 64)) (push_bit (i mod 64) 1)]"
  have eq: "j div 64 = i div 64 \<Longrightarrow> j mod 64 = i mod 64 \<longleftrightarrow> j = i" by (metis div_mult_mod_eq)
  have new: "mbit (m\<lparr>bitfield := full ?vs\<rparr>) j
      = (if j div 64 < length ws then bit (?vs ! (j div 64)) (j mod 64) else is_set_by_default m)"
    using mbit_full [of "m\<lparr>bitfield := full ?vs\<rparr>" ?vs j] ws(2) by simp
  show "mbit (m\<lparr>bitfield := full ?vs\<rparr>) j = ((mbit m)(i := v)) j"
  proof (cases "j div 64 = i div 64")
    case True
    then show ?thesis unfolding new using mbit_full [OF ws, of j] i eq by (simp add: bit_upd)
  next
    case False
    then show ?thesis unfolding new using mbit_full [OF ws, of j] by auto
  qed
qed

lemma upd_entry_ok:
  assumes ok: "dfm_ok s" and p: "get_mask p s = Inr m" and x: "get_base (mask_base m) s = Inr x"
    and loc: "located T x s avis"
  shows "\<exists>t m'. upd_entry f T p avis s = Inr t \<and> dfm_ok t \<and> changed s p t \<and> t = with_mask s p m'
    \<and> mask_base m' = mask_base m \<and> is_set_by_default m' = is_set_by_default m
    \<and> mbit m' = (mbit m)(backref s avis := v)"
proof -
  let ?N = "mb_num_bitfields x" and ?i = "backref s avis"
  obtain u m1 ws where u: "CHECK_MASK p s = Inr u" "dfm_ok u" "same_masks s u" "get_mask p u = Inr m1"
    "same_mask m m1" "bitfield m1 = full ws" "length ws = ?N" "num_bitfields m1 = ?N" "get_base (mask_base m1) u = Inr x"
    "u = with_mask s p m1"
    using CHECK_MASK_grown [OF ok p x] by blast
  have i: "?i div 64 < length ws"
    using decl_in_words [OF dfm_okD(2) [OF ok x]] loc u(7)
    by (simp add: located_def less_mult_imp_div_less mult.commute)
  define n where "n = m1\<lparr>bitfield := full (ws[?i div 64 := f (ws ! (?i div 64)) (push_bit (?i mod 64) 1)])\<rparr>"
  have "SafeGetBackref T x avis u = Inr ?i"
    using SafeGetBackref_ok [OF dfm_okD(2) [OF ok x], of T u avis] loc same_masks_fields(2) [OF u(3)]
    by (simp add: located_def)
  then have "upd_entry f T p avis s = Inr (with_mask u p n)"
    using u(1,4,9) get_word_ok [OF u(4,6) i] rd_table [OF dfm_okD(1) [OF u(2)], of "?i mod 64"] i
    by (simp add: upd_entry_def base_of_def put_word_def u(6) wr_def set_mask_ok [OF u(4)] n_def map_update)
  moreover have "mbit n = (mbit m)(?i := v)"
    using mbit_upd [OF u(6) _ i] u(5,7,8) by (simp add: n_def same_mask_def)
  moreover have "words_ok n" using u(7,8) by (auto simp: words_ok_def n_def)
  then have "dfm_ok (with_mask u p n)"
    using update_mask_ok [OF u(2,4)] u(8,9) by (simp add: mask_ok_def n_def)
  ultimately show ?thesis
    using changed_with_mask [OF u(3,4), of n] u(5,10)
    by (intro exI [of _ "with_mask u p n"] exI [of _ n]) (simp add: n_def same_mask_def)
qed

lemma upd_entry_set:
  assumes "dfm_ok s" and p: "get_mask p s = Inr m" and x: "get_base (mask_base m) s = Inr x"
    and loc: "located T x s avis"
  shows "\<exists>t. upd_entry f T p avis s = Inr t \<and> dfm_ok t \<and> changed s p t
    \<and> mask_set t p = (if v then insert (backref s avis) (mask_set s p) else mask_set s p - {backref s avis})"
proof -
  obtain t m' where t: "upd_entry f T p avis s = Inr t" "dfm_ok t" "changed s p t" "t = with_mask s p m'"
    "mask_base m' = mask_base m" "mbit m' = (mbit m)(backref s avis := v)"
    using upd_entry_ok [OF assms] by blast
  have "get_mask p t = Inr m'" using get_with_mask(1) [OF p] t(4) by simp
  have "get_base (mask_base m') t = Inr x" using x t(3,5) by (simp add: changed_def get_base_def)
  from mask_set_eq [OF \<open>get_mask p t = Inr m'\<close> this] mask_set_eq [OF p x] show ?thesis
    using t loc by (auto simp: located_def)
qed

end

interpretation w_insert: bit_update "\<lambda>w a. w OR a" True
  by unfold_locales (auto simp: bit_or_iff bit_exp_iff)

interpretation w_remove: bit_update "\<lambda>w a. w AND NOT a" False
  by unfold_locales (auto simp: bit_and_iff bit_not_iff bit_exp_iff)

text \<open>\<open>ready s x p\<close>: the mask \<open>p\<close> is over the base \<open>x\<close> and as long as it.\<close>

definition ready :: "dfm \<Rightarrow> mbase \<Rightarrow> nat \<Rightarrow> bool" where
  "ready s x p \<longleftrightarrow> (\<exists>m. get_mask p s = Inr m \<and> words_ok m \<and> get_base (mask_base m) s = Inr x
     \<and> num_bitfields m = mb_num_bitfields x)"

lemma ready_CHECK:
  assumes "dfm_ok s" and "get_mask p s = Inr m" and "get_base (mask_base m) s = Inr x"
  shows "\<exists>u. CHECK_MASK p s = Inr u \<and> dfm_ok u \<and> same_masks s u \<and> ready u x p
    \<and> (\<forall>y q. ready s y q \<longrightarrow> ready u y q)"
proof -
  obtain u m' y where u: "CHECK_MASK p s = Inr u" "dfm_ok u" "same_masks s u" "get_mask p u = Inr m'"
    "same_mask m m'" "words_ok m'" "get_base (mask_base m') u = Inr y" "num_bitfields m' = mb_num_bitfields y"
    "u = with_mask s p m'"
    using CHECK_MASK_ok [OF assms(1,2)] by blast
  have yx: "y = x" using u(5,7) assms(3) same_masks_fields(4) [OF u(3)] by (simp add: same_mask_def)
  have "ready u z q" if old: "ready s z q" for z q
  proof (cases "q = p")
    case True
    then have "z = x" using old assms(2,3) by (auto simp: ready_def)
    then show ?thesis using True u(4,6-8) yx by (auto simp: ready_def)
  next
    case False
    then show ?thesis using old get_with_mask [OF assms(2)] unfolding u(9) by (auto simp: ready_def)
  qed
  then show ?thesis using u(1-4,6-8) yx by (auto simp: ready_def)
qed

lemma mask_set_same_masks:
  assumes "dfm_ok s" and "same_masks s u" and "get_mask p s = Inr m"
  shows "mask_set u p = mask_set s p"
proof -
  obtain m' where "get_mask p u = Inr m'" "same_mask m m'" using assms(2,3) by (auto simp: same_masks_def)
  then show ?thesis using mask_set_same_mask [OF assms(1,3)] same_masks_fields(1) [OF assms(2)] by blast
qed

lemma IS_NTH_ready:
  assumes "dfm_ok s" and "ready s x p" and "i < mb_num_decls x"
  shows "IS_NTH_BIT_SET p i s = Inr (i \<in> mask_set s p)"
proof -
  obtain m where m: "get_mask p s = Inr m" "words_ok m" "get_base (mask_base m) s = Inr x"
    "num_bitfields m = mb_num_bitfields x"
    using assms(2) by (auto simp: ready_def)
  have "i div 64 < num_bitfields m"
    using decl_in_words [OF dfm_okD(2) [OF assms(1) m(3)] assms(3)] m(4) by (simp add: less_mult_imp_div_less mult.commute)
  then show ?thesis
    using IS_NTH_ok [OF m(1,2) dfm_okD(1) [OF assms(1)]] mask_set_eq [OF m(1,3)] assms(3) by simp
qed

lemma ready_base: "ready s x p \<Longrightarrow> base_of p s = Inr x"
  by (auto simp: ready_def base_of_def)

lemma DFMtestMaskEntry_set:
  assumes ok: "dfm_ok s" and p: "get_mask p s = Inr m" and x: "get_base (mask_base m) s = Inr x"
    and loc: "located T x s avis"
  shows "\<exists>u. DFMtestMaskEntry T p avis s = Inr (backref s avis \<in> mask_set s p, u) \<and> dfm_ok u \<and> same_masks s u"
proof -
  obtain u where u: "CHECK_MASK p s = Inr u" "dfm_ok u" "same_masks s u" "ready u x p"
    using ready_CHECK [OF ok p x] by blast
  have "SafeGetBackref T x avis u = Inr (backref s avis)"
    using SafeGetBackref_ok [OF dfm_okD(2) [OF ok x], of T u avis] loc same_masks_fields(2) [OF u(3)]
    by (simp add: located_def)
  then have "DFMtestMaskEntry T p avis s = Inr (backref s avis \<in> mask_set s p, u)"
    using u(1) ready_base [OF u(4)] IS_NTH_ready [OF u(2,4)] mask_set_same_masks [OF ok u(3) p] loc
    by (simp add: DFMtestMaskEntry_def located_def)
  then show ?thesis using u by blast
qed

subsection \<open>Counting\<close>

lemma bits_and_ready:
  assumes "dfm_ok s" and "\<forall>p\<in>set ps. ready s x p" and "i < mb_num_decls x"
  shows "bits_and ps i s = Inr (\<forall>p\<in>set ps. i \<in> mask_set s p)"
  using assms(2)
proof (induction ps)
  case (Cons p ps)
  then show ?case using IS_NTH_ready [OF assms(1) _ assms(3), of p] by auto
qed simp

lemma count_loop_ready:
  assumes ok: "dfm_ok s" and ps: "\<forall>p\<in>set ps. ready s x p" and p: "p \<in> set ps"
  shows "count_loop ps p s = Inr (int (card (\<Inter>p\<in>set ps. mask_set s p)))"
proof -
  let ?n = "mb_num_decls x" and ?A = "\<Inter>p\<in>set ps. mask_set s p"
  have x: "base_of p s = Inr x" using ps p ready_base by blast
  then obtain b where b: "get_base b s = Inr x" by (auto simp: base_of_def bindR_Inr_iff)
  have n: "int ?n \<le> int_max" using dfm_okD(2) [OF ok b] by (simp add: base_ok_def)
  have in_iff: "i \<in> ?A \<longleftrightarrow> (\<forall>p\<in>set ps. i \<in> mask_set s p)" for i by blast
  let ?g = "\<lambda>j. int (card {i. i < nat j \<and> i \<in> ?A})"
  have "cfor 0 (int ?n) (\<lambda>i count. bindR (bits_and ps (nat i) s) (\<lambda>x.
       if x then ck_int (count + 1) else Inr count)) (?g 0) = Inr (?g (int ?n))"
  proof (rule cfor_traj)
    fix j assume j: "0 \<le> j" "j < int ?n"
    then obtain k where k: "j = int k" "k < ?n" by (metis of_nat_less_iff zero_le_imp_eq_int)
    have step: "{i. i < Suc k \<and> i \<in> ?A} = (if k \<in> ?A then insert k {i. i < k \<and> i \<in> ?A} else {i. i < k \<and> i \<in> ?A})"
      by (auto simp: less_Suc_eq)
    have "card {i. i < k \<and> i \<in> ?A} \<le> card {..<k}" by (rule card_mono) auto
    then have "int (card {i. i < k \<and> i \<in> ?A}) + 1 \<le> int_max" using k n by simp
    then have ck: "ck_int (int (card {i. i < k \<and> i \<in> ?A}) + 1) = Inr (int (card {i. i < k \<and> i \<in> ?A}) + 1)"
      by (simp add: ck_int_ok)
    have "nat (j + 1) = Suc k" using k by simp
    then show "bindR (bits_and ps (nat j) s) (\<lambda>x. if x then ck_int (?g j + 1) else Inr (?g j)) = Inr (?g (j + 1))"
      using bits_and_ready [OF ok ps k(2)] step ck in_iff [of k] k(1) by simp
  qed simp
  moreover have "{i. i < ?n \<and> i \<in> ?A} = ?A"
  proof -
    have "mask_set s p \<subseteq> {..<?n}" using ps p mask_set_eq by (fastforce simp: ready_def)
    then show ?thesis using p by auto
  qed
  ultimately show ?thesis using x by (simp add: count_loop_def)
qed

lemma DFMtestMask_card:
  assumes ok: "dfm_ok s" and p: "get_mask p s = Inr m" and x: "get_base (mask_base m) s = Inr x"
  shows "\<exists>u. DFMtestMask p s = Inr (int (card (mask_set s p)), u) \<and> dfm_ok u \<and> same_masks s u"
proof -
  obtain u where u: "CHECK_MASK p s = Inr u" "dfm_ok u" "same_masks s u" "ready u x p"
    using ready_CHECK [OF ok p x] by blast
  have "count_loop [p] p u = Inr (int (card (mask_set s p)))"
    using count_loop_ready [OF u(2), of "[p]" x p] u(4) mask_set_same_masks [OF ok u(3) p] by simp
  then show ?thesis using u by (simp add: DFMtestMask_def)
qed

lemma DFMtest2Masks_card:
  assumes ok: "dfm_ok s" and p: "get_mask p s = Inr m1" and q: "get_mask q s = Inr m2"
    and same: "mask_base m1 = mask_base m2" and x: "get_base (mask_base m1) s = Inr x"
  shows "\<exists>u. DFMtest2Masks p q s = Inr (int (card (mask_set s p \<inter> mask_set s q)), u) \<and> dfm_ok u \<and> same_masks s u"
proof -
  obtain t where t: "CHECK_MASK p s = Inr t" "dfm_ok t" "same_masks s t" "ready t x p"
    using ready_CHECK [OF ok p x] by blast
  obtain m2' where m2': "get_mask q t = Inr m2'" "same_mask m2 m2'" using t(3) q by (auto simp: same_masks_def)
  have "get_base (mask_base m2') t = Inr x"
    using x same m2'(2) same_masks_fields(4) [OF t(3)] by (simp add: same_mask_def)
  from ready_CHECK [OF t(2) m2'(1) this] obtain u where u: "CHECK_MASK q t = Inr u" "dfm_ok u" "same_masks t u"
    "ready u x q" "ready u x p" using t(4) by blast
  have su: "same_masks s u" using same_masks_trans [OF t(3) u(3)] .
  have "count_loop [p, q] p u = Inr (int (card (mask_set s p \<inter> mask_set s q)))"
    using count_loop_ready [OF u(2), of "[p, q]" x p] u(4,5) mask_set_same_masks [OF ok su p]
      mask_set_same_masks [OF ok su q] by simp
  then show ?thesis using t(1) u su p q same by (simp add: DFMtest2Masks_def DFMtest2MaskBases_def)
qed

subsection \<open>Iterating\<close>

lemma skip_while_ok:
  assumes "\<And>j. i \<le> j \<Longrightarrow> j < n \<Longrightarrow> test j = Inr (\<not> P j)" and "i \<le> n"
  shows "\<exists>k. skip_while i n test = Inr k \<and> k \<le> n \<and> filter P [i..<n] = (if k < n then k # filter P [k + 1..<n] else [])"
  using assms
proof (induction "n - i" arbitrary: i)
  case 0
  then show ?case by (subst skip_while.simps) simp
next
  case (Suc d)
  then have i: "i < n" by simp
  then have up: "[i..<n] = i # [i + 1..<n]" by (simp add: upt_conv_Cons)
  show ?case
  proof (cases "P i")
    case True
    then show ?thesis using Suc.prems(1) [of i] i up by (subst skip_while.simps) simp
  next
    case False
    have "\<exists>k. skip_while (i + 1) n test = Inr k \<and> k \<le> n
        \<and> filter P [i + 1..<n] = (if k < n then k # filter P [k + 1..<n] else [])"
      using Suc.hyps(2) Suc.prems i by (intro Suc.hyps(1)) simp_all
    then show ?thesis using False Suc.prems(1) [of i] i up by (subst skip_while.simps) simp
  qed
qed

text \<open>A sequence of further calls, with \<open>NULL\<close>.\<close>

fun set_calls :: "nat \<Rightarrow> dfm \<Rightarrow> (nat list \<times> dfm) cres" where
  "set_calls 0 s = Inr ([], s)"
| "set_calls (Suc k) s = bindR (GetMaskEntryPosSet None s) (\<lambda>(i, s).
     bindR (set_calls k s) (\<lambda>(is, s). Inr (i # is, s)))"

fun clear_calls :: "nat \<Rightarrow> dfm \<Rightarrow> (nat list \<times> dfm) cres" where
  "clear_calls 0 s = Inr ([], s)"
| "clear_calls (Suc k) s = bindR (GetMaskEntryPosClear None s) (\<lambda>(i, s).
     bindR (clear_calls k s) (\<lambda>(is, s). Inr (i # is, s)))"

text \<open>The static variables of the iterations are not part of the masks.\<close>

lemma same_masks_iter:
  "get_mask p (s\<lparr>set_i := j\<rparr>) = get_mask p s" "get_base b (s\<lparr>set_i := j\<rparr>) = get_base b s"
  "get_mask p (s\<lparr>clear_i := j\<rparr>) = get_mask p s" "get_base b (s\<lparr>clear_i := j\<rparr>) = get_base b s"
  "get_mask p (s\<lparr>set_store := c\<rparr>) = get_mask p s" "get_base b (s\<lparr>set_store := c\<rparr>) = get_base b s"
  "get_mask p (s\<lparr>clear_store := c\<rparr>) = get_mask p s" "get_base b (s\<lparr>clear_store := c\<rparr>) = get_base b s"
  by (simp_all add: get_mask_def get_base_def)

lemma iter_ok [simp]:
  "dfm_ok (s\<lparr>set_i := j\<rparr>) = dfm_ok s" "ready (s\<lparr>set_i := j\<rparr>) x p = ready s x p"
  "mask_set (s\<lparr>set_i := j\<rparr>) p = mask_set s p"
  "dfm_ok (s\<lparr>clear_i := j\<rparr>) = dfm_ok s" "ready (s\<lparr>clear_i := j\<rparr>) x p = ready s x p"
  "mask_set (s\<lparr>clear_i := j\<rparr>) p = mask_set s p"
  "dfm_ok (s\<lparr>set_store := c\<rparr>) = dfm_ok s" "ready (s\<lparr>set_store := c\<rparr>) x p = ready s x p"
  "mask_set (s\<lparr>set_store := c\<rparr>) p = mask_set s p"
  "dfm_ok (s\<lparr>clear_store := c\<rparr>) = dfm_ok s" "ready (s\<lparr>clear_store := c\<rparr>) x p = ready s x p"
  "mask_set (s\<lparr>clear_store := c\<rparr>) p = mask_set s p"
  by (simp_all add: dfm_ok_def ready_def mask_set_def same_masks_iter table_ok_def mask_ok_def)

lemma next_set:
  assumes "dfm_ok s" and "ready s x p" and "set_store s = Some p" and "set_i s \<le> mb_num_decls x"
  shows "\<exists>k. GetMaskEntryPosSet None s = Inr (k, s\<lparr>set_i := k + 1\<rparr>) \<and> k \<le> mb_num_decls x
    \<and> filter (\<lambda>i. i \<in> mask_set s p) [set_i s..<mb_num_decls x]
      = (if k < mb_num_decls x then k # filter (\<lambda>i. i \<in> mask_set s p) [k + 1..<mb_num_decls x] else [])"
proof -
  let ?n = "mb_num_decls x" and ?test = "\<lambda>i. bindR (IS_NTH_BIT_SET p i s) (\<lambda>b. Inr (\<not> b))"
  have test: "?test j = Inr (\<not> j \<in> mask_set s p)" if "j < ?n" for j
    using IS_NTH_ready [OF assms(1,2) that] by simp
  obtain k where k: "skip_while (set_i s) ?n ?test = Inr k" "k \<le> ?n"
    "filter (\<lambda>i. i \<in> mask_set s p) [set_i s..<?n]
      = (if k < ?n then k # filter (\<lambda>i. i \<in> mask_set s p) [k + 1..<?n] else [])"
    using skip_while_ok [of "set_i s" ?n ?test "\<lambda>i. i \<in> mask_set s p", OF test assms(4)] by blast
  have "GetMaskEntryPosSet None s = Inr (k, s\<lparr>set_i := k + 1\<rparr>)"
    unfolding GetMaskEntryPosSet_def using assms(3) ready_base [OF assms(2)] k(1) by simp
  then show ?thesis using k(2,3) by blast
qed

lemma next_clear:
  assumes "dfm_ok s" and "ready s x p" and "clear_store s = Some p" and "clear_i s \<le> mb_num_decls x"
  shows "\<exists>k. GetMaskEntryPosClear None s = Inr (k, s\<lparr>clear_i := k + 1\<rparr>) \<and> k \<le> mb_num_decls x
    \<and> filter (\<lambda>i. i \<notin> mask_set s p) [clear_i s..<mb_num_decls x]
      = (if k < mb_num_decls x then k # filter (\<lambda>i. i \<notin> mask_set s p) [k + 1..<mb_num_decls x] else [])"
proof -
  let ?n = "mb_num_decls x" and ?test = "\<lambda>i. IS_NTH_BIT_SET p i s"
  have test: "?test j = Inr (\<not> j \<notin> mask_set s p)" if "j < ?n" for j
    using IS_NTH_ready [OF assms(1,2) that] by simp
  obtain k where k: "skip_while (clear_i s) ?n ?test = Inr k" "k \<le> ?n"
    "filter (\<lambda>i. i \<notin> mask_set s p) [clear_i s..<?n]
      = (if k < ?n then k # filter (\<lambda>i. i \<notin> mask_set s p) [k + 1..<?n] else [])"
    using skip_while_ok [of "clear_i s" ?n ?test "\<lambda>i. i \<notin> mask_set s p", OF test assms(4)] by blast
  have "GetMaskEntryPosClear None s = Inr (k, s\<lparr>clear_i := k + 1\<rparr>)"
    unfolding GetMaskEntryPosClear_def using assms(3) ready_base [OF assms(2)] k(1) by simp
  then show ?thesis using k(2,3) by blast
qed

lemma set_calls_all:
  assumes "dfm_ok s" and "ready s x p" and "set_store s = Some p" and "set_i s \<le> mb_num_decls x"
    and "k = length (filter (\<lambda>i. i \<in> mask_set s p) [set_i s..<mb_num_decls x])"
  shows "\<exists>t. set_calls (Suc k) s
    = Inr (filter (\<lambda>i. i \<in> mask_set s p) [set_i s..<mb_num_decls x] @ [mb_num_decls x], t)"
  using assms
proof (induction k arbitrary: s)
  case 0
  then show ?case using next_set [OF 0(1-4)] by (auto split: if_splits)
next
  case (Suc k)
  let ?n = "mb_num_decls x"
  obtain j where j: "GetMaskEntryPosSet None s = Inr (j, s\<lparr>set_i := j + 1\<rparr>)"
    "filter (\<lambda>i. i \<in> mask_set s p) [set_i s..<?n]
      = (if j < ?n then j # filter (\<lambda>i. i \<in> mask_set s p) [j + 1..<?n] else [])"
    using next_set [OF Suc.prems(1-4)] by blast
  then have lt: "j < ?n" using Suc.prems(5) by (auto split: if_splits)
  have "\<exists>t. set_calls (Suc k) (s\<lparr>set_i := j + 1\<rparr>)
      = Inr (filter (\<lambda>i. i \<in> mask_set s p) [j + 1..<?n] @ [?n], t)"
    using Suc.IH [of "s\<lparr>set_i := j + 1\<rparr>"] Suc.prems lt j(2) by simp
  then show ?case using j lt by (subst set_calls.simps) auto
qed

lemma clear_calls_all:
  assumes "dfm_ok s" and "ready s x p" and "clear_store s = Some p" and "clear_i s \<le> mb_num_decls x"
    and "k = length (filter (\<lambda>i. i \<notin> mask_set s p) [clear_i s..<mb_num_decls x])"
  shows "\<exists>t. clear_calls (Suc k) s
    = Inr (filter (\<lambda>i. i \<notin> mask_set s p) [clear_i s..<mb_num_decls x] @ [mb_num_decls x], t)"
  using assms
proof (induction k arbitrary: s)
  case 0
  then show ?case using next_clear [OF 0(1-4)] by (auto split: if_splits)
next
  case (Suc k)
  let ?n = "mb_num_decls x"
  obtain j where j: "GetMaskEntryPosClear None s = Inr (j, s\<lparr>clear_i := j + 1\<rparr>)"
    "filter (\<lambda>i. i \<notin> mask_set s p) [clear_i s..<?n]
      = (if j < ?n then j # filter (\<lambda>i. i \<notin> mask_set s p) [j + 1..<?n] else [])"
    using next_clear [OF Suc.prems(1-4)] by blast
  then have lt: "j < ?n" using Suc.prems(5) by (auto split: if_splits)
  have "\<exists>t. clear_calls (Suc k) (s\<lparr>clear_i := j + 1\<rparr>)
      = Inr (filter (\<lambda>i. i \<notin> mask_set s p) [j + 1..<?n] @ [?n], t)"
    using Suc.IH [of "s\<lparr>clear_i := j + 1\<rparr>"] Suc.prems lt j(2) by simp
  then show ?case using j lt by (subst clear_calls.simps) auto
qed

end
