(* ===== verification/DFM_Update.thy ===== *)
theory DFM_Update
  imports DFM_Ops
begin

text \<open>
  \<open>DFMupdateMaskBase\<close>: the effect on the base and its back references.  The masks over the base
  do not change; they grow when they are used next.
\<close>

text \<open>\<open>indexed T ds s\<close>: the back references of the declarations of a base are their positions.\<close>

definition indexed :: "tree \<Rightarrow> nat option list \<Rightarrow> dfm \<Rightarrow> bool" where
  "indexed T ds s \<longleftrightarrow> (\<forall>i<length ds. \<forall>d. ds ! i = Some d \<longrightarrow> backref s (VARDEC_OR_ARG_AVIS T d) = i)"

definition avis_ok :: "tree \<Rightarrow> nat set \<Rightarrow> bool" where
  "avis_ok T A \<longleftrightarrow> (\<forall>d\<in>A. AVIS_DECL T (VARDEC_OR_ARG_AVIS T d) = d)"

lemma avis_eq: "avis_ok T A \<Longrightarrow> d \<in> A \<Longrightarrow> e \<in> A \<Longrightarrow> VARDEC_OR_ARG_AVIS T d = VARDEC_OR_ARG_AVIS T e \<longleftrightarrow> d = e"
  by (metis avis_ok_def)

lemma IsPart_ok:
  assumes "get_base b s = Inr x" and "mb_decls x = full ds" and "length ds = mb_num_decls x" and "indexed T ds s"
  shows "IsPartOfMaskBase T b d s = Inr (Some d \<in> set ds)"
proof -
  let ?r = "backref s (VARDEC_OR_ARG_AVIS T d)"
  have "Some d \<in> set ds \<longleftrightarrow> ?r < length ds \<and> ds ! ?r = Some d"
    using assms(4) by (auto simp: indexed_def in_set_conv_nth)
  then show ?thesis using assms(1-3) by (simp add: IsPartOfMaskBase_def Let_def rd_full)
qed

subsection \<open>Back references\<close>

text \<open>The back references after \<open>news\<close> have been added from position \<open>n\<close>.\<close>

definition refs_added :: "tree \<Rightarrow> nat \<Rightarrow> nat list \<Rightarrow> (nat \<Rightarrow> nat) \<Rightarrow> (nat \<Rightarrow> nat) \<Rightarrow> bool" where
  "refs_added T n news br br' \<longleftrightarrow> (\<forall>j<length news. br' (VARDEC_OR_ARG_AVIS T (news ! j)) = n + j)
     \<and> (\<forall>a. a \<notin> VARDEC_OR_ARG_AVIS T ` set news \<longrightarrow> br' a = br a)"

lemma refs_added_snoc:
  assumes "refs_added T n news br br'" and "avis_ok T (set news \<union> {d})" and "d \<notin> set news"
  shows "refs_added T n (news @ [d]) br (br'(VARDEC_OR_ARG_AVIS T d := n + length news))"
proof -
  have "VARDEC_OR_ARG_AVIS T (news ! j) \<noteq> VARDEC_OR_ARG_AVIS T d" if "j < length news" for j
  proof -
    have "news ! j \<in> set news" using that by simp
    then show ?thesis using avis_eq [OF assms(2), of "news ! j" d] assms(3) by blast
  qed
  then show ?thesis using assms(1) by (auto simp: refs_added_def nth_append less_Suc_eq)
qed

lemma refs_added_old:
  assumes "refs_added T n news br br'" and "avis_ok T (set news \<union> {d})" and "d \<notin> set news"
  shows "br' (VARDEC_OR_ARG_AVIS T d) = br (VARDEC_OR_ARG_AVIS T d)"
proof -
  have "VARDEC_OR_ARG_AVIS T d \<notin> VARDEC_OR_ARG_AVIS T ` set news"
  proof
    assume "VARDEC_OR_ARG_AVIS T d \<in> VARDEC_OR_ARG_AVIS T ` set news"
    then obtain e where "e \<in> set news" "VARDEC_OR_ARG_AVIS T e = VARDEC_OR_ARG_AVIS T d" by fastforce
    then show False using avis_eq [OF assms(2), of e d] assms(3) by blast
  qed
  then show ?thesis using assms(1) by (simp add: refs_added_def)
qed

lemma avis_ok_mono: "avis_ok T A \<Longrightarrow> B \<subseteq> A \<Longrightarrow> avis_ok T B"
  by (auto simp: avis_ok_def)

lemma indexed_added:
  assumes "indexed T ds s" and "refs_added T n news (backref s) br'"
    and "avis_ok T (set news \<union> {d. Some d \<in> set ds})" and "\<forall>d\<in>set news. Some d \<notin> set ds"
  shows "indexed T ds (s\<lparr>backref := br'\<rparr>)"
proof -
  have "br' (VARDEC_OR_ARG_AVIS T d) = i" if i: "i < length ds" "ds ! i = Some d" for i d
  proof -
    have "Some d \<in> set ds" using i by (metis nth_mem)
    then have "avis_ok T (set news \<union> {d})" by (intro avis_ok_mono [OF assms(3)]) auto
    moreover have "d \<notin> set news" using \<open>Some d \<in> set ds\<close> assms(4) by blast
    ultimately have "br' (VARDEC_OR_ARG_AVIS T d) = backref s (VARDEC_OR_ARG_AVIS T d)"
      by (rule refs_added_old [OF assms(2)])
    then show ?thesis using assms(1) i by (simp add: indexed_def)
  qed
  then show ?thesis by (simp add: indexed_def)
qed

text \<open>The back references of a mask base that are overtaken by another are restored.\<close>

lemma DFMrepairMaskBaseBackrefs_ok:
  assumes x: "get_base b s = Inr x" "mb_decls x = full ds" "length ds = mb_num_decls x"
    and av: "avis_ok T {d. Some d \<in> set ds}" and dist: "\<And>i j d. i < length ds \<Longrightarrow> j < length ds
      \<Longrightarrow> ds ! i = Some d \<Longrightarrow> ds ! j = Some d \<Longrightarrow> i = j"
  shows "\<exists>br. DFMrepairMaskBaseBackrefs T b s = Inr (s\<lparr>backref := br\<rparr>) \<and> indexed T ds (s\<lparr>backref := br\<rparr>)
    \<and> (\<forall>a. (\<forall>d. Some d \<in> set ds \<longrightarrow> a \<noteq> VARDEC_OR_ARG_AVIS T d) \<longrightarrow> br a = backref s a)"
proof -
  let ?f = "\<lambda>i s. bindR (rd (mb_decls x) i) (\<lambda>d. case d of None \<Rightarrow> Inr s
       | Some d \<Rightarrow> Inr (s\<lparr>backref := (backref s)(VARDEC_OR_ARG_AVIS T d := nat i)\<rparr>))"
  let ?P = "\<lambda>j t. \<exists>br. t = s\<lparr>backref := br\<rparr>
    \<and> (\<forall>i d. int i < j \<longrightarrow> i < length ds \<longrightarrow> ds ! i = Some d \<longrightarrow> br (VARDEC_OR_ARG_AVIS T d) = i)
    \<and> (\<forall>a. (\<forall>d. Some d \<in> set ds \<longrightarrow> a \<noteq> VARDEC_OR_ARG_AVIS T d) \<longrightarrow> br a = backref s a)"
  have "\<exists>t. cfor 0 (int (mb_num_decls x)) ?f s = Inr t \<and> ?P (int (mb_num_decls x)) t"
  proof (rule cfor_inv)
    show "?P 0 s" by (intro exI [of _ "backref s"]) simp
    fix j t assume j: "0 \<le> j" "j < int (mb_num_decls x)" and "?P j t"
    then obtain br where br: "t = s\<lparr>backref := br\<rparr>"
      "\<forall>i d. int i < j \<longrightarrow> i < length ds \<longrightarrow> ds ! i = Some d \<longrightarrow> br (VARDEC_OR_ARG_AVIS T d) = i"
      "\<forall>a. (\<forall>d. Some d \<in> set ds \<longrightarrow> a \<noteq> VARDEC_OR_ARG_AVIS T d) \<longrightarrow> br a = backref s a"
      by blast
    obtain k where k: "j = int k" using j(1) by (rule nonneg_int_cases)
    have t: "t = s\<lparr>backref := br\<rparr>" "j = int k" "k < length ds" using br(1) k j(2) x(3) by simp_all
    have old: "br (VARDEC_OR_ARG_AVIS T d) = i" if "i < k" "ds ! i = Some d" for i d
      using br(2) that t(2,3) by simp
    have out: "br a = backref s a" if "\<And>d. Some d \<in> set ds \<Longrightarrow> a \<noteq> VARDEC_OR_ARG_AVIS T d" for a
      using br(3) that by simp
    have rd: "rd (mb_decls x) j = Inr (ds ! k)" using t(2,3) x(2) by (simp add: rd_full)
    show "\<exists>t'. ?f j t = Inr t' \<and> ?P (j + 1) t'"
    proof (cases "ds ! k")
      case None
      have "br (VARDEC_OR_ARG_AVIS T d) = i" if "i < Suc k" "ds ! i = Some d" for i d
        using that old None by (cases "i = k") auto
      then have "?P (j + 1) t" using t(1,2) out by (intro exI [of _ br]) auto
      then show ?thesis using rd None by simp
    next
      case (Some e)
      have e: "Some e \<in> set ds" using Some t(3) by (metis nth_mem)
      let ?br = "br(VARDEC_OR_ARG_AVIS T e := k)"
      have "?br (VARDEC_OR_ARG_AVIS T d) = i" if "i < Suc k" "ds ! i = Some d" for i d
      proof (cases "d = e")
        case True
        then show ?thesis using dist [of i k d] that t(3) Some by simp
      next
        case False
        have d: "Some d \<in> set ds" using that t(3) by (metis less_Suc_eq less_trans nth_mem)
        have "VARDEC_OR_ARG_AVIS T d \<noteq> VARDEC_OR_ARG_AVIS T e" using avis_eq [OF av, of d e] d e False by simp
        moreover have "i < k" using that False Some by (auto simp: less_Suc_eq)
        ultimately show ?thesis using old that by simp
      qed
      then have "?P (j + 1) (s\<lparr>backref := ?br\<rparr>)"
        using t(2) out e by (intro exI [of _ ?br]) auto
      then show ?thesis using rd Some t(1,2) by simp
    qed
  qed simp
  then show ?thesis using x by (auto simp: DFMrepairMaskBaseBackrefs_def indexed_def)
qed

subsection \<open>Making a base\<close>

lemma access_init_ok: "access_init = Inr (full (map (\<lambda>i. push_bit i 1) [0..<64]))"
proof -
  let ?b = "\<lambda>i. push_bit i (1 :: 64 word)"
  let ?g = "\<lambda>j. (full (map ?b [0..<nat j]) @ replicate (64 - nat j) None, ?b (nat j))"
  have "cfor 0 64 (\<lambda>i (tab, am). bindR (wr tab i am) (\<lambda>tab. Inr (tab, push_bit 1 am))) (?g 0) = Inr (?g 64)"
  proof (rule cfor_traj)
    fix j :: int assume "0 \<le> j" "j < 64"
    then obtain k where k: "j = int k" "k < 64" by (metis of_nat_less_iff of_nat_numeral zero_le_imp_eq_int)
    have s: "nat (j + 1) = Suc k" "64 - k = Suc (64 - Suc k)" using k by simp_all
    have "wr (full (map ?b [0..<k]) @ replicate (64 - k) None) (int k) (?b k)
        = Inr (full (map ?b [0..<Suc k]) @ replicate (64 - Suc k) None)"
      using s(2) by (simp add: wr_def list_update_append)
    then show "(case ?g j of (tab, am) \<Rightarrow> bindR (wr tab j am) (\<lambda>tab. Inr (tab, push_bit 1 am))) = Inr (?g (j + 1))"
      using k(1) s(1) by (simp del: upt_Suc full_simps)
  qed simp
  then show ?thesis by (simp add: access_init_def allocv_def)
qed

lemma decl_loop:
  assumes "distinct es" and "avis_ok T (set es)" and "length es \<le> n"
  shows "\<exists>br'. foldR (\<lambda>d (i, ds, br). bindR (wr ds (int i) (Some d)) (\<lambda>ds.
        Inr (i + 1, ds, br(VARDEC_OR_ARG_AVIS T d := i)))) es (0, allocv (int n), br)
      = Inr (length es, full (map Some es) @ replicate (n - length es) None, br') \<and> refs_added T 0 es br br'"
  using assms
proof (induction es rule: rev_induct)
  case Nil
  then show ?case by (intro exI [of _ br]) (simp add: allocv_def refs_added_def)
next
  case (snoc d es)
  let ?f = "\<lambda>d (i, ds, br). bindR (wr ds (int i) (Some d)) (\<lambda>ds. Inr (i + 1, ds, br(VARDEC_OR_ARG_AVIS T d := i)))"
  have "distinct es" "avis_ok T (set es)" "length es \<le> n" using snoc.prems by (auto simp: avis_ok_def)
  from snoc.IH [OF this] obtain br' where br: "foldR ?f es (0, allocv (int n), br)
      = Inr (length es, full (map Some es) @ replicate (n - length es) None, br')" "refs_added T 0 es br br'"
    by blast
  have "n - length es = Suc (n - Suc (length es))" using snoc.prems(3) by simp
  then have "wr (full (map Some es) @ replicate (n - length es) None) (int (length es)) (Some d)
      = Inr (full (map Some (es @ [d])) @ replicate (n - length (es @ [d])) None)"
    by (simp add: wr_def list_update_append)
  then have "foldR ?f (es @ [d]) (0, allocv (int n), br) = Inr (length (es @ [d]),
      full (map Some (es @ [d])) @ replicate (n - length (es @ [d])) None, br'(VARDEC_OR_ARG_AVIS T d := length es))"
    using br(1) by (simp add: foldR_append del: full_simps)
  moreover have "refs_added T 0 (es @ [d]) br (br'(VARDEC_OR_ARG_AVIS T d := length es))"
    using refs_added_snoc [OF br(2), of d] snoc.prems(1,2) by (simp add: insert_commute)
  ultimately show ?case by blast
qed

text \<open>The state before the first base is made.\<close>

definition dfm_fresh :: "dfm \<Rightarrow> bool" where
  "dfm_fresh s \<longleftrightarrow> access_mask_table s = [] \<and> bases s = [] \<and> masks s = []"

lemma DFMgenMaskBase_ok:
  assumes ok: "dfm_ok s \<or> dfm_fresh s" and dist: "distinct (arguments @ vardecs)"
    and av: "avis_ok T (set (arguments @ vardecs))" and room: "int (length (arguments @ vardecs)) \<le> int_max"
  shows "\<exists>b t x. DFMgenMaskBase T arguments vardecs s = Inr (b, t) \<and> dfm_ok t \<and> get_base b t = Inr x
    \<and> mb_decls x = full (map Some (arguments @ vardecs)) \<and> mb_num_decls x = length (arguments @ vardecs)
    \<and> indexed T (map Some (arguments @ vardecs)) t
    \<and> (\<forall>p m. get_mask p s = Inr m \<longrightarrow> get_mask p t = Inr m \<and> mask_set t p = mask_set s p)"
proof -
  let ?es = "arguments @ vardecs"
  let ?n = "length ?es"
  define tab where "tab = (full (map (\<lambda>i. push_bit i 1) [0..<64]) :: 64 word cvec)"
  have table: "(if access_mask_table s = [] then access_init else Inr (access_mask_table s)) = Inr tab"
    using ok access_init_ok by (auto simp: dfm_ok_def dfm_fresh_def table_ok_def tab_def)
  obtain br where br: "foldR (\<lambda>d (i, ds, br). bindR (wr ds (int i) (Some d)) (\<lambda>ds.
        Inr (i + 1, ds, br(VARDEC_OR_ARG_AVIS T d := i)))) ?es (0, allocv (int ?n), backref s)
      = Inr (?n, full (map Some ?es), br)" "refs_added T 0 ?es (backref s) br"
    using decl_loop [OF dist av order.refl, of "backref s"] by auto
  let ?x = "\<lparr>mb_num_decls = ?n, mb_num_bitfields = ?n div 64 + 1, mb_decls = full (map Some ?es)\<rparr>"
  let ?t = "s\<lparr>access_mask_table := tab, backref := br, bases := bases s @ [Some ?x]\<rparr>"
  have run: "DFMgenMaskBase T arguments vardecs s = Inr (length (bases s), ?t)"
    using br(1) table by (simp add: DFMgenMaskBase_def Let_def del: full_simps foldR.simps map_append)
  have gb: "get_base c ?t = (if c = length (bases s) then Inr ?x else get_base c s)" for c
    by (auto simp: get_base_def deref_def check_def nth_append)
  have gm: "get_mask p ?t = get_mask p s" for p by (simp add: get_mask_def)
  have old: "get_base c ?t = Inr y" if "get_base c s = Inr y" for c y
    using that gb by (auto simp: get_base_Inr)
  have masks: "\<exists>y. get_base (mask_base m) s = Inr y \<and> num_bitfields m \<le> mb_num_bitfields y \<and> words_ok m"
    if "get_mask p s = Inr m" for p m
    using ok that by (auto simp: dfm_ok_def mask_ok_def dfm_fresh_def get_mask_Inr)
  have "base_ok ?x" using room by (auto simp: base_ok_def intro: exI [of _ "map Some ?es"])
  moreover have "base_ok y" if "get_base c s = Inr y" for c y
    using ok that by (auto simp: dfm_ok_def dfm_fresh_def get_base_Inr)
  moreover have "mask_ok ?t m" if "get_mask p s = Inr m" for p m
    using masks [OF that] old unfolding mask_ok_def by blast
  moreover have "table_ok ?t" by (simp add: table_ok_def tab_def)
  ultimately have okt: "dfm_ok ?t" unfolding dfm_ok_def gm gb by (simp split: if_splits)
  have ix: "indexed T (map Some ?es) ?t" using br(2) by (simp add: indexed_def refs_added_def del: map_append)
  have keep: "get_mask p ?t = Inr m \<and> mask_set ?t p = mask_set s p" if m: "get_mask p s = Inr m" for p m
  proof -
    obtain y where y: "get_base (mask_base m) s = Inr y" using masks [OF m] by blast
    have "get_mask p ?t = Inr m" using m gm [of p] by simp
    then show ?thesis using mask_set_eq [OF m y] mask_set_eq [of p ?t m y] old [OF y] by simp
  qed
  have g: "get_base (length (bases s)) ?t = Inr ?x" using gb by simp
  have fields: "mb_decls ?x = full (map Some ?es)" "mb_num_decls ?x = ?n" by simp_all
  show ?thesis
    by (rule exI [of _ "length (bases s)"], rule exI [of _ ?t], rule exI [of _ ?x])
      (use run okt g fields ix keep in blast)
qed

subsection \<open>Marking\<close>

lemma mark_used_ok:
  assumes ok: "dfm_ok s" and u: "get_mask u s = Inr m" "mask_base m = b" and x: "get_base b s = Inr x"
    and ds: "mb_decls x = full ds" "length ds = mb_num_decls x" and ix: "indexed T ds s"
    and av: "avis_ok T (set es)"
  shows "\<exists>m'. mark_used T b u es (n, s) = Inr (n + length (filter (\<lambda>d. Some d \<notin> set ds) es), with_mask s u m')
    \<and> dfm_ok (with_mask s u m') \<and> mask_base m' = b
    \<and> mbit m' = (\<lambda>i. mbit m i \<or> (\<exists>d\<in>set es. Some d \<in> set ds \<and> backref s (VARDEC_OR_ARG_AVIS T d) = i))"
  using av
proof (induction es arbitrary: n rule: rev_induct)
  case Nil
  then show ?case using ok u with_mask_id [OF u(1)] by (intro exI [of _ m]) (simp add: mark_used_def)
next
  case (snoc d es)
  obtain m1 where m1: "mark_used T b u es (n, s)
      = Inr (n + length (filter (\<lambda>d. Some d \<notin> set ds) es), with_mask s u m1)" "dfm_ok (with_mask s u m1)" "mask_base m1 = b"
    "mbit m1 = (\<lambda>i. mbit m i \<or> (\<exists>d\<in>set es. Some d \<in> set ds \<and> backref s (VARDEC_OR_ARG_AVIS T d) = i))"
    using snoc by (auto simp: avis_ok_def)
  let ?s = "with_mask s u m1"
  note g = get_with_mask [OF u(1), of _ m1]
  have x1: "get_base b ?s = Inr x" using x g(2) by simp
  have part: "IsPartOfMaskBase T b d ?s = Inr (Some d \<in> set ds)"
    using IsPart_ok [OF x1 ds] ix by (simp add: indexed_def)
  show ?case
  proof (cases "Some d \<in> set ds")
    case False
    then show ?thesis using m1 part
      by (intro exI [of _ m1]) (auto simp: mark_used_def foldR_append)
  next
    case True
    let ?a = "VARDEC_OR_ARG_AVIS T d"
    have r: "backref s ?a < length ds" "ds ! backref s ?a = Some d"
      using True ix by (auto simp: indexed_def in_set_conv_nth)
    then have "located T x ?s ?a" using ds snoc.prems by (simp add: located_def avis_ok_def)
    then obtain m2 where m2: "upd_entry (\<lambda>w a. w OR a) T u ?a ?s = Inr (with_mask ?s u m2)" "dfm_ok (with_mask ?s u m2)"
      "mask_base m2 = mask_base m1" "mbit m2 = (mbit m1)(backref ?s ?a := True)"
      using w_insert.upd_entry_ok [OF m1(2), of u m1 x T ?a] g(1) x1 m1(3) by auto
    have "mark_used T b u (es @ [d]) (n, s)
        = Inr (n + length (filter (\<lambda>d. Some d \<notin> set ds) (es @ [d])), with_mask s u m2)"
      using m1(1) part True m2(1) by (simp add: mark_used_def foldR_append DFMsetMaskEntrySet_def)
    moreover have "mbit m2 = (\<lambda>i. mbit m i \<or> (\<exists>d\<in>set (es @ [d]). Some d \<in> set ds \<and> backref s (VARDEC_OR_ARG_AVIS T d) = i))"
      using m2(4) m1(4) True by (auto simp: fun_eq_iff)
    ultimately show ?thesis using m2(2,3) m1(3) by (intro exI [of _ m2]) simp
  qed
qed

subsection \<open>Clearing stale declarations\<close>

abbreviation with_base :: "dfm \<Rightarrow> nat \<Rightarrow> mbase \<Rightarrow> dfm" where
  "with_base s b x \<equiv> s\<lparr>bases := (bases s)[b := Some x]\<rparr>"

lemma set_base_ok: "get_base b s = Inr x \<Longrightarrow> set_base b y s = Inr (with_base s b y)"
  by (simp add: set_base_def)

lemma get_with_base:
  assumes "get_base b s = Inr x"
  shows "get_base c (with_base s b y) = (if c = b then Inr y else get_base c s)"
    "get_mask p (with_base s b y) = get_mask p s"
  using assms by (auto simp: get_mask_def get_base_def deref_def check_def split: option.splits)

lemma with_base_id: "get_base b s = Inr x \<Longrightarrow> with_base s b x = s"
  by (metis (no_types, lifting) get_base_Inr list_update_id dfm.surjective dfm.update_convs(2))

lemma with_base_ok:
  assumes "dfm_ok s" and "get_base b s = Inr x" and "base_ok y" and "mb_num_bitfields x \<le> mb_num_bitfields y"
  shows "dfm_ok (with_base s b y)"
proof -
  note g = get_with_base [OF assms(2), of _ y]
  have "mask_ok (with_base s b y) m" if "get_mask p s = Inr m" for p m
    using dfm_okD(3) [OF assms(1) that] assms(2,4) by (auto simp: mask_ok_def g intro: order_trans)
  then show ?thesis using dfm_okD [OF assms(1)] assms(3) by (simp add: dfm_ok_def g table_ok_def)
qed

text \<open>With other declarations a base has the same masks.\<close>

lemma with_decls_ok:
  assumes "dfm_ok s" and x: "get_base b s = Inr x" and "length ds = mb_num_decls x"
  shows "dfm_ok (with_base s b (x\<lparr>mb_decls := full ds\<rparr>))"
    "mask_set (with_base s b (x\<lparr>mb_decls := full ds\<rparr>)) p = mask_set s p"
    "get_mask p s = Inr m \<Longrightarrow> mask_base m = b \<Longrightarrow> ready s x p \<Longrightarrow>
      ready (with_base s b (x\<lparr>mb_decls := full ds\<rparr>)) (x\<lparr>mb_decls := full ds\<rparr>) p"
proof -
  note g = get_with_base [OF x, of _ "x\<lparr>mb_decls := full ds\<rparr>"]
  show "dfm_ok (with_base s b (x\<lparr>mb_decls := full ds\<rparr>))"
    using with_base_ok [OF assms(1,2)] dfm_okD(2) [OF assms(1,2)] assms(3) by (simp add: base_ok_def)
  show "mask_set (with_base s b (x\<lparr>mb_decls := full ds\<rparr>)) p = mask_set s p"
    using x by (auto simp: mask_set_def g bindR_def split: sum.splits)
  show "get_mask p s = Inr m \<Longrightarrow> mask_base m = b \<Longrightarrow> ready s x p \<Longrightarrow>
      ready (with_base s b (x\<lparr>mb_decls := full ds\<rparr>)) (x\<lparr>mb_decls := full ds\<rparr>) p"
    by (auto simp: ready_def g)
qed

text \<open>What the next position says of the positions it passes.\<close>

lemma filter_next:
  assumes "filter P [k..<n] = (if j < n then j # filter P [j + 1..<n] else [])"
  shows "(k \<le> i \<and> i < n \<and> P i) = (j < n \<and> (i = j \<or> j < i \<and> i < n \<and> P i))"
proof -
  have "(i \<in> set (filter P [k..<n])) = (i \<in> set (if j < n then j # filter P [j + 1..<n] else []))"
    by (simp only: assms)
  then show ?thesis by (auto simp: Suc_le_eq split: if_splits)
qed

lemma clear_stale_ok:
  assumes "dfm_ok s" and "get_mask u s = Inr m" and "mask_base m = b" and "ready s x u"
    and "mb_decls x = full ds" and "length ds = mb_num_decls x"
    and "clear_store s = Some u" and "clear_i s = k + 1"
    and "k \<le> mb_num_decls x" and "k < mb_num_decls x \<Longrightarrow> k \<notin> mask_set s u"
  shows "clear_stale b u k s = Some (Inr (with_base s b (x\<lparr>mb_decls :=
    full (map (\<lambda>i. if k \<le> i \<and> i \<notin> mask_set s u then None else ds ! i) [0..<mb_num_decls x])\<rparr>)\<lparr>clear_i := mb_num_decls x + 1\<rparr>))"
  using assms
proof (induction "mb_num_decls x - k" arbitrary: k s x ds rule: less_induct)
  case less
  let ?n = "mb_num_decls x" and ?U = "mask_set s u"
  have x: "get_base b s = Inr x" using less.prems(2-4) by (auto simp: ready_def)
  show ?case
  proof (cases "k = ?n")
    case True
    have "map (\<lambda>i. if k \<le> i \<and> i \<notin> ?U then None else ds ! i) [0..<?n] = ds"
      using less.prems(6) True by (auto intro: nth_equalityI)
    moreover have "x\<lparr>mb_decls := full ds\<rparr> = x" using less.prems(5) by (cases x) simp
    ultimately have "with_base s b (x\<lparr>mb_decls :=
        full (map (\<lambda>i. if k \<le> i \<and> i \<notin> ?U then None else ds ! i) [0..<?n])\<rparr>) = s"
      using with_base_id [OF x] by simp
    then show ?thesis using ready_base [OF less.prems(4)] True less.prems(8)
      by (subst clear_stale.simps) simp
  next
    case False
    then have k: "k < ?n" "k \<notin> ?U" using less.prems(9,10) by simp_all
    let ?ds = "ds[k := None]"
    let ?x = "x\<lparr>mb_decls := full ?ds\<rparr>"
    let ?s = "with_base s b ?x"
    have l: "length ?ds = ?n" using less.prems(6) by simp
    note w = with_decls_ok [OF less.prems(1) x l]
    have ready: "ready ?s ?x u" using w(3) [OF less.prems(2-4)] .
    obtain j where j: "GetMaskEntryPosClear None ?s = Inr (j, ?s\<lparr>clear_i := j + 1\<rparr>)" "j \<le> ?n"
      "filter (\<lambda>i. i \<notin> ?U) [k + 1..<?n] = (if j < ?n then j # filter (\<lambda>i. i \<notin> ?U) [j + 1..<?n] else [])"
      using next_clear [OF w(1) ready] less.prems(7,8) k(1) w(2) by auto
    have mem: "(k < i \<and> i < ?n \<and> i \<notin> ?U) = (j < ?n \<and> (i = j \<or> j < i \<and> i < ?n \<and> i \<notin> ?U))" for i
      using filter_next [OF j(3), of i] by (simp add: Suc_le_eq)
    have jk: "j < ?n \<Longrightarrow> k < j \<and> j \<notin> ?U" using mem [of j] by blast
    let ?t = "?s\<lparr>clear_i := j + 1\<rparr>" and ?f = "\<lambda>ds k i. if k \<le> i \<and> i \<notin> ?U then None else ds ! i"
    have "clear_stale b u j ?t = Some (Inr (with_base ?t b (?x\<lparr>mb_decls :=
        full (map (\<lambda>i. if j \<le> i \<and> i \<notin> mask_set ?t u then None else ?ds ! i) [0..<mb_num_decls ?x])\<rparr>)
        \<lparr>clear_i := mb_num_decls ?x + 1\<rparr>))"
    proof (rule less.hyps)
      show "mb_num_decls ?x - j < ?n - k" using k(1) j(2) jk by (cases "j < ?n") auto
      show "get_mask u ?t = Inr m" using less.prems(2) get_with_base(2) [OF x, of u ?x] by (simp add: same_masks_iter)
    qed (use w(1,2) ready less.prems(3,7) l j(2) jk in simp_all)
    moreover have "map (?f ?ds j) [0..<?n] = map (?f ds k) [0..<?n]"
    proof (rule map_cong [OF refl])
      fix i assume "i \<in> set [0..<?n]"
      then show "?f ?ds j i = ?f ds k i" using mem [of i] k less.prems(6) j(2) jk
        by (cases "i = k"; cases "i < k") auto
    qed
    ultimately have rest: "clear_stale b u j ?t = Some (Inr (with_base s b (x\<lparr>mb_decls :=
        full (map (?f ds k) [0..<?n])\<rparr>)\<lparr>clear_i := ?n + 1\<rparr>))"
      using w(2) [of u] by simp
    show ?thesis
      using ready_base [OF less.prems(4)] k x less.prems(5,6) j(1) rest set_base_ok [OF x]
      by (subst clear_stale.simps) (simp add: wr_def map_update)
  qed
qed

subsection \<open>Appending new declarations\<close>

lemma append_new_ok:
  assumes x: "get_base b s = Inr x" and ds: "mb_decls x = full ds" "length ds = mb_num_decls x"
    and ix: "indexed T ds s" and dist: "distinct es"
    and av: "avis_ok T (set es \<union> {d. Some d \<in> set ds})"
    and room: "length (filter (\<lambda>d. Some d \<notin> set ds) es) \<le> k"
  shows "\<exists>br. append_new T b es (length ds, full ds @ replicate k None, s)
      = Inr (length ds + length (filter (\<lambda>d. Some d \<notin> set ds) es),
          full (ds @ map Some (filter (\<lambda>d. Some d \<notin> set ds) es))
            @ replicate (k - length (filter (\<lambda>d. Some d \<notin> set ds) es)) None, s\<lparr>backref := br\<rparr>)
    \<and> refs_added T (length ds) (filter (\<lambda>d. Some d \<notin> set ds) es) (backref s) br"
  using dist av room
proof (induction es rule: rev_induct)
  case Nil
  then show ?case by (intro exI [of _ "backref s"]) (simp add: append_new_def refs_added_def)
next
  case (snoc d es)
  let ?news = "filter (\<lambda>d. Some d \<notin> set ds) es"
  obtain br where br: "append_new T b es (length ds, full ds @ replicate k None, s)
      = Inr (length ds + length ?news, full (ds @ map Some ?news) @ replicate (k - length ?news) None, s\<lparr>backref := br\<rparr>)"
    "refs_added T (length ds) ?news (backref s) br"
    using snoc by (auto simp: avis_ok_def)
  have av: "avis_ok T (set ?news \<union> {d. Some d \<in> set ds})" "avis_ok T (set ?news \<union> {d})"
    by (rule avis_ok_mono [OF snoc.prems(2)]; auto)+
  have "indexed T ds (s\<lparr>backref := br\<rparr>)"
    by (rule indexed_added [OF ix br(2) av(1)]) simp
  then have part: "IsPartOfMaskBase T b d (s\<lparr>backref := br\<rparr>) = Inr (Some d \<in> set ds)"
    using IsPart_ok [of b "s\<lparr>backref := br\<rparr>" x ds T d] x ds by (simp add: get_base_def)
  show ?case
  proof (cases "Some d \<in> set ds")
    case True
    then show ?thesis using br part by (intro exI [of _ br]) (simp add: append_new_def foldR_append)
  next
    case False
    let ?br = "br(VARDEC_OR_ARG_AVIS T d := length ds + length ?news)"
    have "k - length ?news = Suc (k - Suc (length ?news))" using snoc.prems(3) False by simp
    then have "wr (full (ds @ map Some ?news) @ replicate (k - length ?news) None) (int (length ds + length ?news)) (Some d)
        = Inr (full (ds @ map Some (?news @ [d])) @ replicate (k - length (?news @ [d])) None)"
      by (simp add: wr_def list_update_append del: of_nat_add)
    then have "append_new T b (es @ [d]) (length ds, full ds @ replicate k None, s)
      = Inr (length ds + length (?news @ [d]), full (ds @ map Some (?news @ [d]))
          @ replicate (k - length (?news @ [d])) None, s\<lparr>backref := ?br\<rparr>)"
      using br(1) part False by (simp add: append_new_def foldR_append del: of_nat_add full_simps)
    moreover have "refs_added T (length ds) (?news @ [d]) (backref s) ?br"
      using refs_added_snoc [OF br(2) av(2)] snoc.prems(1) by simp
    moreover have f: "filter (\<lambda>d. Some d \<notin> set ds) (es @ [d]) = ?news @ [d]" using False by simp
    ultimately show ?thesis unfolding f by blast
  qed
qed

subsection \<open>The update\<close>

definition retain :: "nat list \<Rightarrow> nat option \<Rightarrow> nat option" where
  "retain es o' = (case o' of None \<Rightarrow> None | Some d \<Rightarrow> if d \<in> set es then Some d else None)"

lemma retain_Some [simp]: "retain es o' = Some d \<longleftrightarrow> o' = Some d \<and> d \<in> set es"
  by (auto simp: retain_def split: option.splits)

lemma retained_set: "d \<in> set es \<Longrightarrow> Some d \<in> set (map (retain es) ds) \<longleftrightarrow> Some d \<in> set ds"
  unfolding set_map image_iff by (metis retain_Some)

lemma retained_sub: "Some d \<in> set (map (retain es) ds) \<Longrightarrow> Some d \<in> set ds"
  unfolding set_map image_iff by (metis retain_Some)

text \<open>The cleared positions are those of the declarations that are no longer used.\<close>

lemma cleared_retained:
  assumes "indexed T ds s"
  shows "map (\<lambda>i. if \<exists>d\<in>set es. Some d \<in> set ds \<and> backref s (VARDEC_OR_ARG_AVIS T d) = i then ds ! i else None)
      [0..<length ds] = map (retain es) ds"
proof (rule nth_equalityI)
  fix i assume "i < length (map (\<lambda>i. if \<exists>d\<in>set es. Some d \<in> set ds
      \<and> backref s (VARDEC_OR_ARG_AVIS T d) = i then ds ! i else None) [0..<length ds])"
  then have i: "i < length ds" by simp
  have "(\<exists>d\<in>set es. Some d \<in> set ds \<and> backref s (VARDEC_OR_ARG_AVIS T d) = i) \<longleftrightarrow> (\<exists>d\<in>set es. ds ! i = Some d)"
    using assms i by (metis in_set_conv_nth indexed_def)
  then show "map (\<lambda>i. if \<exists>d\<in>set es. Some d \<in> set ds \<and> backref s (VARDEC_OR_ARG_AVIS T d) = i then ds ! i else None)
      [0..<length ds] ! i = map (retain es) ds ! i"
    using i by (auto simp: retain_def split: option.splits)
qed simp

lemma indexed_retained: "indexed T ds s \<Longrightarrow> indexed T (map (retain es) ds) s"
  by (auto simp: indexed_def)

lemma copy_decls:
  "cfor 0 (int (length ds)) (\<lambda>i new. bindR (rd (full ds) i) (wr new i)) (allocv (int (length ds + k)))
    = Inr (full ds @ replicate k None)"
proof -
  let ?g = "\<lambda>j. full (take (nat j) ds) @ replicate (length ds + k - nat j) None"
  have "cfor 0 (int (length ds)) (\<lambda>i new. bindR (rd (full ds) i) (wr new i)) (?g 0) = Inr (?g (int (length ds)))"
  proof (rule cfor_traj)
    fix j assume "0 \<le> j" "j < int (length ds)"
    then obtain i where i: "j = int i" "i < length ds" by (metis of_nat_less_iff zero_le_imp_eq_int)
    have "nat (j + 1) = Suc i" "length ds + k - i = Suc (length ds + k - Suc i)" using i by simp_all
    then show "bindR (rd (full ds) j) (wr (?g j) j) = Inr (?g (j + 1))"
      using i by (simp add: rd_full) (simp add: wr_def list_update_append take_Suc_conv_app_nth)
  qed simp
  then show ?thesis by (simp add: allocv_def del: of_nat_add)
qed

lemma first_clear:
  "CHECK_MASK p s = Inr v \<Longrightarrow>
    GetMaskEntryPosClear (Some p) s = GetMaskEntryPosClear None (v\<lparr>clear_store := Some p, clear_i := 0\<rparr>)"
  by (simp add: GetMaskEntryPosClear_def)

text \<open>Walking over the clear positions of a mask over the base clears their declarations.\<close>

lemma clear_all:
  assumes ok: "dfm_ok s" and u: "get_mask u s = Inr m" "mask_base m = b" and x: "get_base b s = Inr x"
    and ds: "mb_decls x = full ds" "length ds = mb_num_decls x"
  shows "\<exists>c t m'. GetMaskEntryPosClear (Some u) s = Inr (c, t) \<and> clear_stale b u c t
    = Some (Inr (with_mask (with_base s b (x\<lparr>mb_decls :=
        full (map (\<lambda>i. if i \<in> mask_set s u then ds ! i else None) [0..<mb_num_decls x])\<rparr>)) u m'
          \<lparr>clear_store := Some u, clear_i := mb_num_decls x + 1\<rparr>))"
proof -
  let ?n = "mb_num_decls x" and ?U = "mask_set s u"
  have "get_base (mask_base m) s = Inr x" using u(2) x by simp
  from CHECK_MASK_grown [OF ok u(1) this] obtain v m' where v: "CHECK_MASK u s = Inr v" "dfm_ok v" "same_masks s v"
    "get_mask u v = Inr m'" "same_mask m m'" "words_ok m'" "num_bitfields m' = mb_num_bitfields x"
    "get_base (mask_base m') v = Inr x" "v = with_mask s u m'"
    by (auto simp: words_ok_def)
  define w where "w = v\<lparr>clear_store := Some u, clear_i := 0\<rparr>"
  have mw: "mask_set w u = ?U" using mask_set_same_masks [OF ok v(3) u(1)] by (simp add: w_def)
  have "ready v x u" using v(4,6-8) by (auto simp: ready_def)
  then have ready: "ready w x u" by (simp add: w_def)
  have okw: "dfm_ok w" using v(2) by (simp add: w_def)
  obtain c where c: "GetMaskEntryPosClear None w = Inr (c, w\<lparr>clear_i := c + 1\<rparr>)" "c \<le> ?n"
    "filter (\<lambda>i. i \<notin> ?U) [0..<?n] = (if c < ?n then c # filter (\<lambda>i. i \<notin> ?U) [c + 1..<?n] else [])"
    using next_clear [OF okw ready] mw by (auto simp: w_def)
  have at: "(i < ?n \<and> i \<notin> ?U) = (c < ?n \<and> (i = c \<or> c < i \<and> i < ?n \<and> i \<notin> ?U))" for i
    using filter_next [OF c(3), of i] by simp
  let ?t = "w\<lparr>clear_i := c + 1\<rparr>"
  have stale: "clear_stale b u c ?t = Some (Inr (with_base ?t b (x\<lparr>mb_decls :=
    full (map (\<lambda>i. if c \<le> i \<and> i \<notin> mask_set ?t u then None else ds ! i) [0..<?n])\<rparr>)\<lparr>clear_i := ?n + 1\<rparr>))"
  proof (rule clear_stale_ok)
    show "get_mask u ?t = Inr m'" using v(4) by (simp add: w_def same_masks_iter)
    show "mask_base m' = b" using v(5) u(2) by (simp add: same_mask_def)
    show "c < ?n \<Longrightarrow> c \<notin> mask_set ?t u" using at [of c] mw by simp
  qed (use okw ready ds c(2) in \<open>simp_all add: w_def\<close>)
  have decls: "map (\<lambda>i. if c \<le> i \<and> i \<notin> mask_set ?t u then None else ds ! i) [0..<?n]
      = map (\<lambda>i. if i \<in> ?U then ds ! i else None) [0..<?n]"
  proof (rule map_cong [OF refl])
    fix i assume "i \<in> set [0..<?n]"
    then show "(if c \<le> i \<and> i \<notin> mask_set ?t u then None else ds ! i) = (if i \<in> ?U then ds ! i else None)"
      using at [of i] mw by auto
  qed
  have state: "with_base ?t b y\<lparr>clear_i := ?n + 1\<rparr>
      = with_mask (with_base s b y) u m'\<lparr>clear_store := Some u, clear_i := ?n + 1\<rparr>" for y
    unfolding w_def v(9) by simp
  have "GetMaskEntryPosClear (Some u) s = Inr (c, ?t)" unfolding first_clear [OF v(1)] using c(1) by (simp only: w_def)
  then show ?thesis using stale unfolding decls state by blast
qed

text \<open>The first four steps: the usage mask is made, used and removed.\<close>

lemma update_cleared:
  assumes ok: "dfm_ok s" and x: "get_base b s = Inr x" and ds: "mb_decls x = full ds" and ix: "indexed T ds s"
    and av: "avis_ok T (set es)"
  shows "\<exists>u t1 t2 c t3 t4. DFMgenMaskClear b s = Inr (u, t1)
    \<and> mark_used T b u es (mb_num_decls x, t1) = Inr (mb_num_decls x + length (filter (\<lambda>d. Some d \<notin> set ds) es), t2)
    \<and> GetMaskEntryPosClear (Some u) t2 = Inr (c, t3)
    \<and> clear_stale b u c t3 = Some (Inr t4)
    \<and> DFMremoveMask u t4 = Inr (with_base s b (x\<lparr>mb_decls := full (map (retain es) ds)\<rparr>)
        \<lparr>masks := masks s @ [None], clear_store := Some u, clear_i := mb_num_decls x + 1\<rparr>)"
proof -
  let ?n = "mb_num_decls x"
  have len: "length ds = ?n" using dfm_okD(2) [OF ok x] ds by (auto simp: base_ok_def)
  obtain u t1 m1 where g: "genInitializedMask b False s = Inr (u, t1)" "dfm_ok t1" "extends s u t1"
    "get_mask u t1 = Inr m1" "mask_base m1 = b" "mbit m1 = (\<lambda>_. False)" "t1 = add_mask s m1"
    using genInitializedMask_ok [OF ok x, of False] by blast
  have u: "u = length (masks s)" using g(3) by (simp add: extends_def)
  have x1: "get_base b t1 = Inr x" using x g(7) by (simp add: get_add_mask)
  have "indexed T ds t1" using ix g(7) by (simp add: indexed_def)
  from mark_used_ok [OF g(2,4,5) x1 ds len this av] obtain m2 where
    m2: "mark_used T b u es (?n, t1) = Inr (?n + length (filter (\<lambda>d. Some d \<notin> set ds) es), with_mask t1 u m2)"
    "dfm_ok (with_mask t1 u m2)" "mask_base m2 = b"
    "mbit m2 = (\<lambda>i. \<exists>d\<in>set es. Some d \<in> set ds \<and> backref t1 (VARDEC_OR_ARG_AVIS T d) = i)"
    using g(6) by auto
  define t2 where "t2 = add_mask s m2"
  have t2: "with_mask t1 u m2 = t2" unfolding t2_def g(7) u by simp
  have ok2: "dfm_ok t2" using m2(2) t2 by simp
  have gu: "get_mask u t2 = Inr m2" "get_base (mask_base m2) t2 = Inr x"
    using x m2(3) u by (simp_all add: t2_def get_add_mask)
  have U: "mask_set t2 u = {i. i < ?n \<and> (\<exists>d\<in>set es. Some d \<in> set ds \<and> backref s (VARDEC_OR_ARG_AVIS T d) = i)}"
    using mask_set_eq [OF gu] m2(4) g(7) by simp
  have kept: "map (\<lambda>i. if i \<in> mask_set t2 u then ds ! i else None) [0..<?n] = map (retain es) ds"
    unfolding cleared_retained [OF ix, symmetric] U len by (intro map_cong refl) simp
  have x2: "get_base b t2 = Inr x" using gu(2) m2(3) by simp
  obtain c t3 m3 where c: "GetMaskEntryPosClear (Some u) t2 = Inr (c, t3)"
    "clear_stale b u c t3 = Some (Inr (with_mask (with_base t2 b (x\<lparr>mb_decls := full (map (retain es) ds)\<rparr>)) u m3
      \<lparr>clear_store := Some u, clear_i := ?n + 1\<rparr>))"
    using clear_all [OF ok2 gu(1) m2(3) x2 ds len] unfolding kept by blast
  let ?t4 = "with_mask (with_base t2 b (x\<lparr>mb_decls := full (map (retain es) ds)\<rparr>)) u m3
      \<lparr>clear_store := Some u, clear_i := ?n + 1\<rparr>"
  have "DFMremoveMask u ?t4 = Inr (with_base s b (x\<lparr>mb_decls := full (map (retain es) ds)\<rparr>)
        \<lparr>masks := masks s @ [None], clear_store := Some u, clear_i := ?n + 1\<rparr>)"
    by (simp add: DFMremoveMask_def get_mask_def deref_def t2_def u)
  then show ?thesis using g(1) m2(1) c unfolding t2 DFMgenMaskClear_def by blast
qed

text \<open>The whole update.\<close>

lemma DFMupdateMaskBase_ok:
  assumes ok: "dfm_ok s" and x: "get_base b s = Inr x" and ds: "mb_decls x = full ds" and ix: "indexed T ds s"
    and dist: "distinct (arguments @ vardecs)"
    and av: "avis_ok T (set (arguments @ vardecs) \<union> {d. Some d \<in> set ds})"
    and news: "news = filter (\<lambda>d. Some d \<notin> set ds) (arguments @ vardecs)"
    and room: "int (mb_num_decls x + length news) \<le> int_max"
  shows "\<exists>t y. DFMupdateMaskBase T b arguments vardecs s = Some (Inr (b, t)) \<and> dfm_ok t
    \<and> get_base b t = Inr y \<and> mb_num_decls y = mb_num_decls x + length news
    \<and> mb_decls y = full (map (retain (arguments @ vardecs)) ds @ map Some news)
    \<and> (\<forall>p m. get_mask p s = Inr m \<longrightarrow> get_mask p t = Inr m)
    \<and> refs_added T (mb_num_decls x) news (backref s) (backref t)"
proof -
  let ?n = "mb_num_decls x" and ?es = "arguments @ vardecs"
  let ?ds = "map (retain ?es) ds" and ?k = "length news"
  let ?x = "x\<lparr>mb_decls := full ?ds\<rparr>"
  have len: "length ds = ?n" using dfm_okD(2) [OF ok x] ds by (auto simp: base_ok_def)
  obtain u t1 t2 c t3 t4 where r: "DFMgenMaskClear b s = Inr (u, t1)"
    "mark_used T b u ?es (?n, t1) = Inr (?n + ?k, t2)" "GetMaskEntryPosClear (Some u) t2 = Inr (c, t3)"
    "clear_stale b u c t3 = Some (Inr t4)"
    "DFMremoveMask u t4 = Inr (with_base s b ?x\<lparr>masks := masks s @ [None], clear_store := Some u, clear_i := ?n + 1\<rparr>)"
    using update_cleared [OF ok x ds ix avis_ok_mono [OF av]] unfolding news by blast
  define t5 where "t5 = with_base s b ?x\<lparr>masks := masks s @ [None], clear_store := Some u, clear_i := ?n + 1\<rparr>"
  have x5: "get_base b t5 = Inr ?x" using get_with_base(1) [OF x, of b ?x] by (simp add: t5_def get_base_def)
  have same: "filter (\<lambda>d. Some d \<notin> set ?ds) ?es = news"
    unfolding news by (rule filter_cong [OF refl]) (use retained_set in blast)
  have "indexed T ?ds t5" using indexed_retained [OF ix, of ?es] by (simp add: indexed_def t5_def)
  moreover have "avis_ok T (set ?es \<union> {d. Some d \<in> set ?ds})"
    by (rule avis_ok_mono [OF av]) (use retained_sub in blast)
  ultimately obtain br where br: "append_new T b ?es (length ?ds, full ?ds @ replicate ?k None, t5)
      = Inr (length ?ds + ?k, full (?ds @ map Some news), t5\<lparr>backref := br\<rparr>)"
    "refs_added T (length ?ds) news (backref t5) br"
    using append_new_ok [OF x5 _ _ _ dist, of ?ds T ?k] len unfolding same by auto
  let ?y = "?x\<lparr>mb_num_bitfields := (?n + ?k) div 64 + 1, mb_decls := full (?ds @ map Some news), mb_num_decls := ?n + ?k\<rparr>"
  let ?t6 = "t5\<lparr>backref := br\<rparr>"
  have x6: "get_base b ?t6 = Inr ?x" using x5 by (simp add: get_base_def)
  have run: "DFMupdateMaskBase T b arguments vardecs s = Some (Inr (b, with_base ?t6 b ?y))"
    using x r(1-4) r(5) [folded t5_def] x5 br(1) copy_decls [of ?ds ?k] len set_base_ok [OF x6, of ?y]
    by (simp add: DFMupdateMaskBase_def Let_def del: full_simps of_nat_add)
  let ?t = "with_base ?t6 b ?y"
  have t: "get_base c ?t = (if c = b then Inr ?y else get_base c s)" for c
    using get_with_base(1) [OF x6, of c ?y] get_with_base(1) [OF x, of c ?x] by (auto simp: t5_def get_base_def)
  have old: "get_mask p ?t = get_mask p s" if "p < length (masks s)" for p
    using that by (simp add: get_mask_def deref_def t5_def nth_append)
  have new: "get_mask p ?t = Inl NullDeref" if "\<not> p < length (masks s)" for p
    using that by (auto simp: get_mask_def deref_def t5_def nth_append check_def)
  have bx: "base_ok x" using dfm_okD(2) [OF ok x] .
  have "base_ok ?y" using room len unfolding base_ok_def
    by (intro conjI exI [of _ "?ds @ map Some news"]) (simp_all del: full_simps)
  moreover have "mask_ok ?t m" if m: "get_mask p ?t = Inr m" for p m
  proof -
    have "mask_ok s m" using m old [of p] new [of p] dfm_okD(3) [OF ok, of p m] by (cases "p < length (masks s)") auto
    moreover have "mb_num_bitfields x \<le> mb_num_bitfields ?y" using bx by (simp add: base_ok_def div_le_mono)
    ultimately show ?thesis using x t by (auto simp: mask_ok_def)
  qed
  ultimately have "dfm_ok ?t" using dfm_okD(1,2) [OF ok] t by (auto simp: dfm_ok_def table_ok_def t5_def)
  moreover have "get_mask p ?t = Inr m" if m: "get_mask p s = Inr m" for p m
    using old [of p] m by (simp add: get_mask_Inr)
  moreover have "refs_added T ?n news (backref s) (backref ?t)" using br(2) len by (simp add: t5_def)
  ultimately show ?thesis using run t [of b]
    by (intro exI [of _ ?t] exI [of _ ?y]) (simp del: full_simps)
qed

end
