(* ===== verification/DFM_Props.thy ===== *)
theory DFM_Props
  imports DFM_Update
begin

text \<open>
  The theorems on data flow masks: the operations on whole masks are those on sets, single
  entries, counting and iteration, the update of a base, and the operation that reads
  memory never written.
\<close>

text \<open>Two masks that may be combined.\<close>

definition combinable :: "dfm \<Rightarrow> nat \<Rightarrow> nat \<Rightarrow> bool" where
  "combinable s p q \<longleftrightarrow> (case (get_mask p s, get_mask q s) of
     (Inr m1, Inr m2) \<Rightarrow> mask_base m1 = mask_base m2 \<and> is_set_by_default m1 = is_set_by_default m2 | _ \<Rightarrow> False)"

definition is_mask :: "dfm \<Rightarrow> nat \<Rightarrow> bool" where
  "is_mask s p \<longleftrightarrow> (case get_mask p s of Inr _ \<Rightarrow> True | Inl _ \<Rightarrow> False)"

text \<open>The set of all positions of the base of a mask.\<close>

definition all_positions :: "dfm \<Rightarrow> nat \<Rightarrow> nat set" where
  "all_positions s p = (case base_of p s of Inr x \<Rightarrow> {..<mb_num_decls x} | Inl _ \<Rightarrow> {})"

text \<open>An operation makes a new mask with a set of members, and keeps the members of all others.\<close>

definition makes :: "(nat \<times> dfm) cres \<Rightarrow> dfm \<Rightarrow> nat set \<Rightarrow> bool" where
  "makes r s A \<longleftrightarrow> (\<exists>n t. r = Inr (n, t) \<and> dfm_ok t \<and> mask_set t n = A
     \<and> (\<forall>p. is_mask s p \<longrightarrow> p \<noteq> n \<and> is_mask t p \<and> mask_set t p = mask_set s p))"

text \<open>An operation changes the members of one mask, and keeps those of all others.\<close>

definition becomes :: "dfm cres \<Rightarrow> dfm \<Rightarrow> nat \<Rightarrow> nat set \<Rightarrow> bool" where
  "becomes r s p A \<longleftrightarrow> (\<exists>t. r = Inr t \<and> dfm_ok t \<and> mask_set t p = A
     \<and> (\<forall>q. is_mask s q \<longrightarrow> q \<noteq> p \<longrightarrow> is_mask t q \<and> mask_set t q = mask_set s q))"

lemma is_mask_iff: "is_mask s p \<longleftrightarrow> (\<exists>m. get_mask p s = Inr m)"
  by (auto simp: is_mask_def split: sum.splits)

lemma combinableE:
  assumes "combinable s p q" and "dfm_ok s"
  obtains m1 m2 x where "get_mask p s = Inr m1" "get_mask q s = Inr m2" "mask_base m1 = mask_base m2"
    "is_set_by_default m1 = is_set_by_default m2" "get_base (mask_base m1) s = Inr x"
proof -
  obtain m1 m2 where m: "get_mask p s = Inr m1" "get_mask q s = Inr m2" "mask_base m1 = mask_base m2"
    "is_set_by_default m1 = is_set_by_default m2"
    using assms(1) by (auto simp: combinable_def split: sum.splits)
  moreover obtain x where "get_base (mask_base m1) s = Inr x" by (rule dfm_ok_base [OF assms(2) m(1)])
  ultimately show thesis by (rule that)
qed

lemma makesI:
  assumes "dfm_ok s" and "r = Inr (n, t)" and "dfm_ok t" and "extends s n t" and "mask_set t n = A"
  shows "makes r s A"
proof -
  have "p \<noteq> n \<and> is_mask t p \<and> mask_set t p = mask_set s p" if p: "is_mask s p" for p
    using p assms(4) extends_set [OF assms(1,4)] unfolding is_mask_iff extends_def by metis
  then show ?thesis unfolding makes_def using assms(2,3,5) by blast
qed

lemma becomesI:
  assumes "dfm_ok s" and "r = Inr t" and "dfm_ok t" and "changed s p t" and "mask_set t p = A"
  shows "becomes r s p A"
proof -
  have "is_mask t q \<and> mask_set t q = mask_set s q" if q: "is_mask s q" "q \<noteq> p" for q
    using q assms(4) changed_set [OF assms(1,4)] unfolding is_mask_iff changed_def by metis
  then show ?thesis unfolding becomes_def using assms(2,3,5) by blast
qed

lemma positions_eq: "get_mask p s = Inr m \<Longrightarrow> get_base (mask_base m) s = Inr x \<Longrightarrow> all_positions s p = {..<mb_num_decls x}"
  by (simp add: all_positions_def base_of_def)

lemma mask_set_sub: "mask_set s p \<subseteq> all_positions s p"
  by (auto simp: mask_set_def all_positions_def base_of_def bindR_def split: sum.splits)

text \<open>A state with two masks over a base of three declarations.\<close>

definition ex_tree :: tree where
  "ex_tree = \<lparr>VARDEC_OR_ARG_AVIS = (\<lambda>d. d + 10), AVIS_DECL = (\<lambda>a. a - 10)\<rparr>"

definition ex_dfm :: dfm where
  "ex_dfm = \<lparr>access_mask_table = full (map (\<lambda>i. push_bit i 1) [0..<64]),
     bases = [Some \<lparr>mb_num_decls = 3, mb_num_bitfields = 1, mb_decls = full [Some 10, Some 11, Some 12]\<rparr>],
     masks = [Some \<lparr>is_set_by_default = False, num_bitfields = 1, bitfield = full [3], mask_base = 0\<rparr>,
       Some \<lparr>is_set_by_default = False, num_bitfields = 1, bitfield = full [6], mask_base = 0\<rparr>],
     backref = (\<lambda>a. a - 20), clear_store = None, clear_i = 0, set_store = None, set_i = 0,
     decl_clear_store = None, decl_set_store = None\<rparr>"

lemma ex_masks:
  "get_mask p ex_dfm = Inr m \<longleftrightarrow> p < 2 \<and> m = \<lparr>is_set_by_default = False, num_bitfields = 1,
    bitfield = full [if p = 0 then 3 else 6], mask_base = 0\<rparr>"
  by (auto simp: get_mask_Inr ex_dfm_def less_2_cases_iff)

lemma ex_base:
  "get_base b ex_dfm = Inr x \<longleftrightarrow> b = 0 \<and> x = \<lparr>mb_num_decls = 3, mb_num_bitfields = 1, mb_decls = full [Some 10, Some 11, Some 12]\<rparr>"
  by (auto simp: get_base_Inr ex_dfm_def)

lemma ex_dfm_ok: "dfm_ok ex_dfm"
  unfolding dfm_ok_def
proof (intro conjI allI impI)
  show "table_ok ex_dfm" by (simp add: table_ok_def ex_dfm_def)
  show "base_ok x" if "get_base b ex_dfm = Inr x" for b x
    using that unfolding ex_base base_ok_def
    by (intro conjI exI [of _ "[Some 10, Some 11, Some 12]"]) (auto simp: int_max_def)
  show "mask_ok ex_dfm m" if "get_mask p ex_dfm = Inr m" for p m
    using that unfolding ex_masks mask_ok_def words_ok_def
    by (intro conjI exI [of _ "[if p = 0 then 3 else 6]"]) (auto simp: ex_base)
qed

lemma ex_dfm_set: "p < 2 \<Longrightarrow> mask_set ex_dfm p = (if p = 0 then {0, 1} else {1, 2})"
proof -
  assume p: "p < 2"
  let ?m = "\<lparr>is_set_by_default = False, num_bitfields = 1, bitfield = full [if p = 0 then 3 else 6], mask_base = 0\<rparr>"
  have m: "get_mask p ex_dfm = Inr ?m" using p by (simp only: ex_masks simp_thms)
  have b: "get_base (mask_base ?m) ex_dfm
      = Inr \<lparr>mb_num_decls = 3, mb_num_bitfields = 1, mb_decls = full [Some 10, Some 11, Some 12]\<rparr>"
    by (simp only: ex_base mask.simps simp_thms)
  have lt3: "i < 3 \<longleftrightarrow> i = 0 \<or> i = 1 \<or> i = 2" for i :: nat by auto
  show ?thesis using m b by (auto simp: mask_set_def mbit_def lt3)
qed

lemma ex_dfm_facts: "all_positions ex_dfm 0 = {..<3}" "combinable ex_dfm 0 1" "is_mask ex_dfm 0" "is_mask ex_dfm 1"
proof -
  have m: "get_mask 0 ex_dfm = Inr \<lparr>is_set_by_default = False, num_bitfields = 1, bitfield = full [3], mask_base = 0\<rparr>"
    "get_mask 1 ex_dfm = Inr \<lparr>is_set_by_default = False, num_bitfields = 1, bitfield = full [6], mask_base = 0\<rparr>"
    by (simp_all add: ex_masks)
  then show "combinable ex_dfm 0 1" "is_mask ex_dfm 0" "is_mask ex_dfm 1" by (simp_all add: combinable_def is_mask_def)
  show "all_positions ex_dfm 0 = {..<3}" using m(1) by (simp add: all_positions_def base_of_def ex_base ex_dfm_def get_base_def deref_def)
qed

text \<open>
  C22: Data flow masks are sets.  Two masks over one base with one default are combined by
  \<open>DFMgenMaskAnd\<close>, \<open>DFMgenMaskOr\<close>, \<open>DFMgenMaskMinus\<close>, \<open>DFMgenMaskInv\<close> and \<open>DFMgenMaskCopy\<close> into a
  new mask whose members are the intersection, the union, the difference, the complement and
  the same set; the operations return without error, also when the masks are shorter than
  their base and have to grow first, the invariant is kept, and no other mask changes its
  members.
\<close>

theorem DFM_boolean_algebra:
  assumes "dfm_ok s" and "combinable s p q"
  shows "makes (DFMgenMaskAnd p q s) s (mask_set s p \<inter> mask_set s q)
    \<and> makes (DFMgenMaskOr p q s) s (mask_set s p \<union> mask_set s q)
    \<and> makes (DFMgenMaskMinus p q s) s (mask_set s p - mask_set s q)
    \<and> makes (DFMgenMaskInv p s) s (all_positions s p - mask_set s p)
    \<and> makes (DFMgenMaskCopy p s) s (mask_set s p)"
proof -
  obtain m1 m2 x where m: "get_mask p s = Inr m1" "get_mask q s = Inr m2" "mask_base m1 = mask_base m2"
    "is_set_by_default m1 = is_set_by_default m2" "get_base (mask_base m1) s = Inr x"
    using combinableE [OF assms(2,1)] by blast
  note gen = assms(1) m(1,2,3,4,5) and one = assms(1) m(1) m(1) refl refl m(5)
  have sub: "mask_set s p \<subseteq> {..<mb_num_decls x}" using mask_set_sub positions_eq [OF m(1,5)] by metis
  have comb: "makes (gen_combined (word_loop f) p r s) s A"
    if "\<exists>n t. gen_combined (word_loop f) p r s = Inr (n, t) \<and> dfm_ok t \<and> extends s n t
      \<and> mask_set t n = {i. i < mb_num_decls x \<and> F (i \<in> mask_set s p) (i \<in> mask_set s r)}"
      and "A = {i. i < mb_num_decls x \<and> F (i \<in> mask_set s p) (i \<in> mask_set s r)}" for f F r A
    using that makesI [OF assms(1)] by blast
  have "makes (DFMgenMaskAnd p q s) s (mask_set s p \<inter> mask_set s q)"
    unfolding DFMgenMaskAnd_def by (rule comb [OF w_and.gen_set [OF gen]]) (use sub in auto)
  moreover have "makes (DFMgenMaskOr p q s) s (mask_set s p \<union> mask_set s q)"
    unfolding DFMgenMaskOr_def
    by (rule comb [OF w_or.gen_set [OF gen]]) (use sub mask_set_sub [of s q] positions_eq [OF m(2), of x] m(3,5) in auto)
  moreover have "makes (DFMgenMaskMinus p q s) s (mask_set s p - mask_set s q)"
    unfolding DFMgenMaskMinus_def by (rule comb [OF w_minus.gen_set [OF gen]]) (use sub in auto)
  moreover have "makes (DFMgenMaskCopy p s) s (mask_set s p)"
    unfolding DFMgenMaskCopy_eq [OF assms(1) m(1)] by (rule comb [of "\<lambda>x _. x" p "\<lambda>a _. a", OF w_fst.gen_set [OF one]]) (use sub in auto)
  moreover have "makes (DFMgenMaskInv p s) s (all_positions s p - mask_set s p)"
    using DFMgenMaskInv_set [OF assms(1) m(1,5)] makesI [OF assms(1)] positions_eq [OF m(1,5)] by metis
  ultimately show ?thesis by blast
qed

theorem DFM_boolean_algebra_witness:
  "makes (DFMgenMaskAnd 0 1 ex_dfm) ex_dfm {1} \<and> makes (DFMgenMaskMinus 0 1 ex_dfm) ex_dfm {0}"
proof -
  have "{0, 1} \<inter> {1, 2} = {1 :: nat}" "{0, 1} - {1, 2} = {0 :: nat}" by auto
  then show ?thesis using DFM_boolean_algebra [OF ex_dfm_ok ex_dfm_facts(2)] ex_dfm_set by simp
qed

text \<open>
  C23: The operations in place, \<open>DFMsetMaskAnd\<close>, \<open>DFMsetMaskOr\<close>, \<open>DFMsetMaskMinus\<close>,
  \<open>DFMsetMaskXor\<close>, \<open>DFMsetMaskCopy\<close>, \<open>DFMsetMaskInv\<close>, \<open>DFMsetMaskClear\<close> and
  \<open>DFMsetMaskSet\<close>, give the mask the members they should, also when both masks are the same
  object, and change no other mask.
\<close>

theorem DFM_in_place:
  assumes "dfm_ok s" and "combinable s p q"
  shows "becomes (DFMsetMaskAnd p q s) s p (mask_set s p \<inter> mask_set s q)
    \<and> becomes (DFMsetMaskOr p q s) s p (mask_set s p \<union> mask_set s q)
    \<and> becomes (DFMsetMaskMinus p q s) s p (mask_set s p - mask_set s q)
    \<and> becomes (DFMsetMaskXor p q s) s p ((mask_set s p - mask_set s q) \<union> (mask_set s q - mask_set s p))
    \<and> becomes (DFMsetMaskCopy p q s) s p (mask_set s q)
    \<and> becomes (DFMsetMaskInv p s) s p (all_positions s p - mask_set s p)
    \<and> becomes (DFMsetMaskClear p s) s p {}
    \<and> becomes (DFMsetMaskSet p s) s p (all_positions s p)"
proof -
  obtain m1 m2 x where m: "get_mask p s = Inr m1" "get_mask q s = Inr m2" "mask_base m1 = mask_base m2"
    "get_base (mask_base m1) s = Inr x"
    using combinableE [OF assms(2,1)] by blast
  note g = assms(1) m
  have sub: "mask_set s p \<subseteq> {..<mb_num_decls x}" "mask_set s q \<subseteq> {..<mb_num_decls x}"
    using mask_set_sub [of s p] mask_set_sub [of s q] positions_eq [OF m(1,4)] positions_eq [OF m(2)] m(3,4) by auto
  have comb: "becomes (set_combined f p q s) s p A"
    if "\<exists>t m. set_combined f p q s = Inr t \<and> dfm_ok t \<and> changed s p t \<and> get_mask p t = Inr m
      \<and> mask_base m = mask_base m1 \<and> is_set_by_default m = is_set_by_default m1
      \<and> mask_set t p = {i. i < mb_num_decls x \<and> F (i \<in> mask_set s p) (i \<in> mask_set s q)}"
      and "A = {i. i < mb_num_decls x \<and> F (i \<in> mask_set s p) (i \<in> mask_set s q)}" for f F A
    using that becomesI [OF assms(1)] by blast
  have "becomes (DFMsetMaskAnd p q s) s p (mask_set s p \<inter> mask_set s q)"
    unfolding DFMsetMaskAnd_def by (rule comb [OF w_and.set_set [OF g]]) (use sub in auto)
  moreover have "becomes (DFMsetMaskOr p q s) s p (mask_set s p \<union> mask_set s q)"
    unfolding DFMsetMaskOr_def by (rule comb [OF w_or.set_set [OF g]]) (use sub in auto)
  moreover have "becomes (DFMsetMaskMinus p q s) s p (mask_set s p - mask_set s q)"
    unfolding DFMsetMaskMinus_def by (rule comb [OF w_minus.set_set [OF g]]) (use sub in auto)
  moreover have "becomes (DFMsetMaskXor p q s) s p ((mask_set s p - mask_set s q) \<union> (mask_set s q - mask_set s p))"
    unfolding DFMsetMaskXor_def by (rule comb [OF w_xor.set_set [OF g]]) (use sub in auto)
  moreover have "becomes (DFMsetMaskCopy p q s) s p (mask_set s q)"
    unfolding DFMsetMaskCopy_def by (rule comb [OF w_copy.set_set [OF g]]) (use sub in auto)
  moreover have "becomes (DFMsetMaskInv p s) s p (all_positions s p - mask_set s p)"
    using DFMsetMaskInv_set [OF assms(1) m(1,4)] becomesI [OF assms(1)] positions_eq [OF m(1,4)] by metis
  moreover have "becomes (DFMsetMaskClear p s) s p {}"
    using setMask_all [OF assms(1) m(1,4), of False] becomesI [OF assms(1)] by (auto simp: DFMsetMaskClear_def)
  moreover have "becomes (DFMsetMaskSet p s) s p (all_positions s p)"
    using setMask_all [OF assms(1) m(1,4), of True] becomesI [OF assms(1)] positions_eq [OF m(1,4)]
    by (auto simp: DFMsetMaskSet_def)
  ultimately show ?thesis by blast
qed

theorem DFM_in_place_witness:
  "becomes (DFMsetMaskXor 0 1 ex_dfm) ex_dfm 0 {0, 2} \<and> becomes (DFMsetMaskInv 0 ex_dfm) ex_dfm 0 {2}"
proof -
  have "({0, 1} - {1, 2}) \<union> ({1, 2} - {0, 1}) = {0, 2 :: nat}" "{..<3} - {0, 1} = {2 :: nat}" by auto
  then show ?thesis using DFM_in_place [OF ex_dfm_ok ex_dfm_facts(2)] ex_dfm_set ex_dfm_facts(1) by simp
qed

text \<open>
  Single entries.  For an identifier whose back reference leads to its declaration,
  \<open>DFMsetMaskEntrySet\<close> inserts its position into the mask, \<open>DFMsetMaskEntryClear\<close> removes it, and
  \<open>DFMtestMaskEntry\<close> answers whether it is a member and keeps all masks.  For an identifier
  outside the base the three stop with the message of \<open>SafeGetBackref\<close>.
\<close>

theorem DFM_entries:
  assumes "dfm_ok s" and "get_mask p s = Inr m" and "get_base (mask_base m) s = Inr x"
  shows "(located T x s a \<longrightarrow>
      becomes (DFMsetMaskEntrySet T p a s) s p (insert (backref s a) (mask_set s p))
      \<and> becomes (DFMsetMaskEntryClear T p a s) s p (mask_set s p - {backref s a})
      \<and> (\<exists>t. DFMtestMaskEntry T p a s = Inr (backref s a \<in> mask_set s p, t) \<and> dfm_ok t
          \<and> (\<forall>q. is_mask s q \<longrightarrow> is_mask t q \<and> mask_set t q = mask_set s q)))
    \<and> (mb_num_decls x \<le> backref s a \<longrightarrow>
      DFMsetMaskEntrySet T p a s = Inl (AssertFail ''Identifier not present in mask'')
      \<and> DFMsetMaskEntryClear T p a s = Inl (AssertFail ''Identifier not present in mask'')
      \<and> DFMtestMaskEntry T p a s = Inl (AssertFail ''Identifier not present in mask''))"
proof (intro conjI impI)
  assume loc: "located T x s a"
  show "becomes (DFMsetMaskEntrySet T p a s) s p (insert (backref s a) (mask_set s p))"
    using w_insert.upd_entry_set [OF assms loc] becomesI [OF assms(1)] by (auto simp: DFMsetMaskEntrySet_def)
  show "becomes (DFMsetMaskEntryClear T p a s) s p (mask_set s p - {backref s a})"
    using w_remove.upd_entry_set [OF assms loc] becomesI [OF assms(1)] by (auto simp: DFMsetMaskEntryClear_def)
  obtain t where t: "DFMtestMaskEntry T p a s = Inr (backref s a \<in> mask_set s p, t)" "dfm_ok t" "same_masks s t"
    using DFMtestMaskEntry_set [OF assms loc] by blast
  moreover have "is_mask t q \<and> mask_set t q = mask_set s q" if q: "is_mask s q" for q
    using q t(3) mask_set_same_masks [OF assms(1) t(3)] unfolding is_mask_iff same_masks_def by metis
  ultimately show "\<exists>t. DFMtestMaskEntry T p a s = Inr (backref s a \<in> mask_set s p, t) \<and> dfm_ok t
      \<and> (\<forall>q. is_mask s q \<longrightarrow> is_mask t q \<and> mask_set t q = mask_set s q)"
    by blast
next
  assume out: "mb_num_decls x \<le> backref s a"
  obtain u m' where u: "CHECK_MASK p s = Inr u" "same_masks s u" "get_mask p u = Inr m'" "get_base (mask_base m') u = Inr x"
    using CHECK_MASK_grown [OF assms] by blast
  have "base_of p u = Inr x" using u(3,4) by (simp add: base_of_def)
  moreover have "SafeGetBackref T x a u = Inl (AssertFail ''Identifier not present in mask'')"
    using SafeGetBackref_absent [of u a x T] out same_masks_fields(2) [OF u(2)] by simp
  ultimately show "DFMsetMaskEntrySet T p a s = Inl (AssertFail ''Identifier not present in mask'')"
    "DFMsetMaskEntryClear T p a s = Inl (AssertFail ''Identifier not present in mask'')"
    "DFMtestMaskEntry T p a s = Inl (AssertFail ''Identifier not present in mask'')"
    using u(1) by (simp_all add: DFMsetMaskEntrySet_def DFMsetMaskEntryClear_def upd_entry_def DFMtestMaskEntry_def)
qed

theorem DFM_entries_witness:
  "becomes (DFMsetMaskEntrySet ex_tree 0 22 ex_dfm) ex_dfm 0 {0, 1, 2}
    \<and> DFMsetMaskEntrySet ex_tree 0 23 ex_dfm = Inl (AssertFail ''Identifier not present in mask'')"
proof -
  let ?x = "\<lparr>mb_num_decls = 3, mb_num_bitfields = 1, mb_decls = full [Some 10, Some 11, Some 12]\<rparr>"
  let ?m = "\<lparr>is_set_by_default = False, num_bitfields = 1, bitfield = full [3], mask_base = 0\<rparr>"
  have m: "get_mask 0 ex_dfm = Inr ?m" "get_base (mask_base ?m) ex_dfm = Inr ?x" by (simp_all add: ex_masks ex_base)
  have r: "backref ex_dfm 22 = 2" "backref ex_dfm 23 = 3" by (simp_all add: ex_dfm_def)
  then have "located ex_tree ?x ex_dfm 22" by (simp add: located_def ex_tree_def)
  moreover have "insert 2 {0, 1} = {0, 1, 2 :: nat}" by auto
  ultimately show ?thesis
    using DFM_entries [OF ex_dfm_ok m, of ex_tree 22] DFM_entries [OF ex_dfm_ok m, of ex_tree 23] r ex_dfm_set
    by simp
qed

text \<open>
  Counting.  \<open>DFMtestMask\<close> returns the number of members of a mask, and \<open>DFMtest2Masks\<close> the
  number of common members of two masks; the counter never overflows.
\<close>

theorem DFM_count:
  assumes "dfm_ok s" and "combinable s p q"
  shows "\<exists>t u. DFMtestMask p s = Inr (int (card (mask_set s p)), t) \<and> dfm_ok t
    \<and> DFMtest2Masks p q s = Inr (int (card (mask_set s p \<inter> mask_set s q)), u) \<and> dfm_ok u"
proof -
  obtain m1 m2 x where m: "get_mask p s = Inr m1" "get_mask q s = Inr m2" "mask_base m1 = mask_base m2"
    "get_base (mask_base m1) s = Inr x"
    using combinableE [OF assms(2,1)] by blast
  show ?thesis using DFMtestMask_card [OF assms(1) m(1,4)] DFMtest2Masks_card [OF assms(1) m] by blast
qed

theorem DFM_count_witness:
  "\<exists>t u. DFMtestMask 0 ex_dfm = Inr (2, t) \<and> DFMtest2Masks 0 1 ex_dfm = Inr (1, u)"
proof -
  have "card ({0, 1} \<inter> {1, 2 :: nat}) = 1" "card {0, 1 :: nat} = 2" by simp_all
  then show ?thesis using DFM_count [OF ex_dfm_ok ex_dfm_facts(2)] ex_dfm_set by simp blast
qed

lemma sorted_members:
  assumes "A \<subseteq> {..<n}"
  shows "sorted_list_of_set A = filter (\<lambda>i. i \<in> A) [0..<n]" "card A = length (filter (\<lambda>i. i \<in> A) [0..<n])"
proof -
  have A: "A = set (filter (\<lambda>i. i \<in> A) [0..<n])" using assms by auto
  show "sorted_list_of_set A = filter (\<lambda>i. i \<in> A) [0..<n]"
    by (subst A, rule sorted_list_of_set.idem_if_sorted_distinct) (simp_all add: sorted_filter [of id, simplified])
  have "card (set (filter (\<lambda>i. i \<in> A) [0..<n])) = length (filter (\<lambda>i. i \<in> A) [0..<n])"
    by (rule distinct_card) simp
  then show "card A = length (filter (\<lambda>i. i \<in> A) [0..<n])" using A by simp
qed

lemma first_set:
  "CHECK_MASK p s = Inr v \<Longrightarrow>
    GetMaskEntryPosSet (Some p) s = GetMaskEntryPosSet None (v\<lparr>set_store := Some p, set_i := 0\<rparr>)"
  by (simp add: GetMaskEntryPosSet_def)

text \<open>
  C24: Iteration.  A call of \<open>GetMaskEntryPosSet\<close> with a mask and one further call with \<open>NULL\<close> for each
  member give the members in increasing order and then the number of declarations, which ends
  the loops of the callers; \<open>GetMaskEntryPosClear\<close> gives the positions that are not members.
\<close>

theorem DFM_iteration:
  assumes "dfm_ok s" and "get_mask p s = Inr m" and "get_base (mask_base m) s = Inr x"
  shows "(\<exists>t. bindR (GetMaskEntryPosSet (Some p) s) (\<lambda>(i, s1).
        bindR (set_calls (card (mask_set s p)) s1) (\<lambda>(is, s2). Inr (i # is, s2))) = Inr (sorted_list_of_set (mask_set s p) @ [mb_num_decls x], t))
    \<and> (\<exists>t. bindR (GetMaskEntryPosClear (Some p) s) (\<lambda>(i, s1).
        bindR (clear_calls (card ({..<mb_num_decls x} - mask_set s p)) s1) (\<lambda>(is, s2). Inr (i # is, s2)))
      = Inr (sorted_list_of_set ({..<mb_num_decls x} - mask_set s p) @ [mb_num_decls x], t))"
proof -
  let ?n = "mb_num_decls x" and ?A = "mask_set s p"
  obtain u where u: "CHECK_MASK p s = Inr u" "dfm_ok u" "same_masks s u" "ready u x p"
    using ready_CHECK [OF assms] by blast
  have A: "mask_set u p = ?A" by (rule mask_set_same_masks [OF assms(1) u(3) assms(2)])
  have sub: "?A \<subseteq> {..<?n}" using mask_set_sub positions_eq [OF assms(2,3)] by metis
  let ?v = "u\<lparr>set_store := Some p, set_i := 0\<rparr>" and ?w = "u\<lparr>clear_store := Some p, clear_i := 0\<rparr>"
  have "\<exists>t. set_calls (Suc (card ?A)) ?v = Inr (sorted_list_of_set ?A @ [?n], t)"
    using set_calls_all [of ?v x p "card ?A"] u(2,4) A sorted_members [OF sub] by simp
  moreover have "\<exists>t. clear_calls (Suc (card ({..<?n} - ?A))) ?w = Inr (sorted_list_of_set ({..<?n} - ?A) @ [?n], t)"
  proof -
    have eq: "filter (\<lambda>i. i \<in> {..<?n} - ?A) [0..<?n] = filter (\<lambda>i. i \<notin> ?A) [0..<?n]" by (rule filter_cong) auto
    show ?thesis
      using clear_calls_all [of ?w x p "card ({..<?n} - ?A)"] u(2,4) A sorted_members [of "{..<?n} - ?A" ?n]
      unfolding eq by simp
  qed
  ultimately show ?thesis unfolding first_set [OF u(1)] first_clear [OF u(1)] by (simp only: set_calls.simps clear_calls.simps)
qed

theorem DFM_iteration_witness:
  "\<exists>t. bindR (GetMaskEntryPosSet (Some 1) ex_dfm) (\<lambda>(i, s). bindR (set_calls 2 s) (\<lambda>(is, s). Inr (i # is, s)))
    = Inr ([1, 2, 3], t)"
proof -
  let ?x = "\<lparr>mb_num_decls = 3, mb_num_bitfields = 1, mb_decls = full [Some 10, Some 11, Some 12]\<rparr>"
  let ?m = "\<lparr>is_set_by_default = False, num_bitfields = 1, bitfield = full [6], mask_base = 0\<rparr>"
  have m: "get_mask 1 ex_dfm = Inr ?m" "get_base (mask_base ?m) ex_dfm = Inr ?x" by (simp_all add: ex_masks ex_base)
  have "mask_set ex_dfm 1 = {1, 2}" using ex_dfm_set by simp
  moreover have "sorted_list_of_set {1, 2 :: nat} = [1, 2]" "card {1, 2 :: nat} = 2" by (simp_all add: insert_commute)
  ultimately show ?thesis using DFM_iteration [OF ex_dfm_ok m, THEN conjunct1] by (simp only: mbase.simps append.simps)
qed

text \<open>
  \<open>DFMgenMaskXor\<close> never returns a mask: for any two masks that may be combined it reads the
  words of the new mask before they are written, as \<open>new_mask->bitfield[i] ^=
  mask2->bitfield[i]\<close> takes the new mask as first operand.  The other combinations of the same
  masks return.
\<close>

theorem DFMgenMaskXor_uninitialised:
  assumes "dfm_ok s" and "combinable s p q"
  shows "DFMgenMaskXor p q s = Inl Uninitialised"
proof -
  obtain m1 m2 x where m: "get_mask p s = Inr m1" "get_mask q s = Inr m2" "mask_base m1 = mask_base m2"
    "is_set_by_default m1 = is_set_by_default m2" "get_base (mask_base m1) s = Inr x"
    using combinableE [OF assms(2,1)] by blast
  obtain t u where u: "CHECK_MASK p s = Inr t" "CHECK_MASK q t = Inr u" "same_masks s u"
    using grow_both [OF assms(1) m(1,2,3,5)] by blast
  have x: "get_base (mask_base m1) u = Inr x" "mb_num_bitfields x > 0"
    using m(5) same_masks_fields(4) [OF u(3)] dfm_okD(2) [OF assms(1) m(5)] by (simp_all add: base_ok_def)
  define m0 where "m0 = \<lparr>is_set_by_default = is_set_by_default m1, num_bitfields = mb_num_bitfields x,
    bitfield = allocv (int (mb_num_bitfields x)), mask_base = mask_base m1\<rparr>"
  have new: "get_mask (length (masks u)) (add_mask u m0) = Inr m0" by (simp add: get_add_mask)
  have "get_word (length (masks u)) 0 (add_mask u m0) = Inl Uninitialised"
    using new x(2) by (simp add: get_word_def m0_def rd_def allocv_def)
  then have "word_loop (\<lambda>x y. x XOR y) (length (masks u)) (length (masks u)) q (add_mask u m0) = Inl Uninitialised"
    using new x(2) by (simp add: word_loop_def m0_def cfor_step)
  moreover have "genUninitializedMask (mask_base m1) (is_set_by_default m1) u = Inr (length (masks u), add_mask u m0)"
    using x(1) by (simp add: genUninitializedMask_def m0_def)
  ultimately show ?thesis
    using m u(1,2) by (simp add: DFMgenMaskXor_def gen_combined_def)
qed

theorem DFMgenMaskXor_uninitialised_witness: "DFMgenMaskXor 0 1 ex_dfm = Inl Uninitialised"
  by (rule DFMgenMaskXor_uninitialised [OF ex_dfm_ok ex_dfm_facts(2)])

text \<open>Beyond the declarations a mask has its default, as the masks of \<open>DFMgenMaskClear\<close> do.\<close>

definition tail_default :: "mask \<Rightarrow> nat \<Rightarrow> bool" where
  "tail_default m n \<longleftrightarrow> (\<forall>i\<ge>n. mbit m i = is_set_by_default m)"

lemma located_retained:
  assumes y: "mb_decls y = full (map (retain es) ds @ map Some news)" "mb_num_decls y = n + length news" "length ds = n"
    and ix: "indexed T ds s" and refs: "refs_added T n news (backref s) (backref t)"
    and av: "avis_ok T (set es \<union> {d. Some d \<in> set ds})" and news: "news = filter (\<lambda>d. Some d \<notin> set ds) es"
    and d: "d \<in> set es" and a: "a = VARDEC_OR_ARG_AVIS T d"
  shows "located T y t a"
    and "Some d \<in> set ds \<Longrightarrow> backref t a = backref s a \<and> backref s a < n"
    and "Some d \<notin> set ds \<Longrightarrow> n \<le> backref t a"
proof -
  have decl: "AVIS_DECL T a = d" using av d a by (simp add: avis_ok_def)
  have old: "located T y t a \<and> backref t a = backref s a \<and> backref s a < n" if in_ds: "Some d \<in> set ds"
  proof -
    have r: "backref s a < length ds" "ds ! backref s a = Some d"
      using in_ds ix a by (auto simp: indexed_def in_set_conv_nth)
    have "avis_ok T (set news \<union> {d})" by (rule avis_ok_mono [OF av]) (use d news in auto)
    then have "backref t a = backref s a" using refs_added_old [OF refs, of d] in_ds news a by simp
    moreover have "retain es (Some d) = Some d" using d by simp
    ultimately show ?thesis using r y decl by (simp add: located_def nth_append)
  qed
  have new: "located T y t a \<and> n \<le> backref t a" if out: "Some d \<notin> set ds"
  proof -
    have "d \<in> set news" using out d news by simp
    then obtain j where j: "j < length news" "news ! j = d" by (auto simp: in_set_conv_nth)
    then have "backref t a = n + j" using refs a by (auto simp: refs_added_def)
    then show ?thesis using j y decl by (simp add: located_def nth_append)
  qed
  show "located T y t a" using old new by blast
  show "Some d \<in> set ds \<Longrightarrow> backref t a = backref s a \<and> backref s a < n" using old by blast
  show "Some d \<notin> set ds \<Longrightarrow> n \<le> backref t a" using new by blast
qed

text \<open>
  C21: \<open>DFMupdateMaskBase\<close> returns, and afterwards every identifier of the new arguments and
  vardecs can be tested in every mask over the base: one that was in the base before is a
  member exactly if it was one, and a new one has the default of the mask, provided the mask had
  its default beyond the old declarations.  Masks need not be grown by hand; the invariant
  is kept.
\<close>

theorem DFM_update_keeps_members:
  assumes "dfm_ok s" and "get_base b s = Inr x" and "mb_decls x = full ds" and "indexed T ds s"
    and "distinct (arguments @ vardecs)"
    and "avis_ok T (set (arguments @ vardecs) \<union> {d. Some d \<in> set ds})"
    and "int (mb_num_decls x + length (filter (\<lambda>d. Some d \<notin> set ds) (arguments @ vardecs))) \<le> int_max"
  shows "\<exists>t. DFMupdateMaskBase T b arguments vardecs s = Some (Inr (b, t)) \<and> dfm_ok t
    \<and> (\<forall>p m d a. get_mask p s = Inr m \<and> mask_base m = b \<and> d \<in> set (arguments @ vardecs)
        \<and> a = VARDEC_OR_ARG_AVIS T d \<longrightarrow>
      (\<exists>v u. DFMtestMaskEntry T p a t = Inr (v, u) \<and> dfm_ok u
        \<and> (Some d \<in> set ds \<longrightarrow> v = (backref s a \<in> mask_set s p))
        \<and> (Some d \<notin> set ds \<and> tail_default m (mb_num_decls x) \<longrightarrow> v = is_set_by_default m)))"
proof -
  let ?n = "mb_num_decls x"
  obtain t y where t: "DFMupdateMaskBase T b arguments vardecs s = Some (Inr (b, t))" "dfm_ok t" "get_base b t = Inr y"
    "mb_num_decls y = ?n + length (filter (\<lambda>d. Some d \<notin> set ds) (arguments @ vardecs))"
    "mb_decls y = full (map (retain (arguments @ vardecs)) ds @ map Some (filter (\<lambda>d. Some d \<notin> set ds) (arguments @ vardecs)))"
    "\<forall>p m. get_mask p s = Inr m \<longrightarrow> get_mask p t = Inr m"
    "refs_added T ?n (filter (\<lambda>d. Some d \<notin> set ds) (arguments @ vardecs)) (backref s) (backref t)"
    using DFMupdateMaskBase_ok [OF assms(1-6) refl assms(7)] by blast
  have len: "length ds = ?n" using dfm_okD(2) [OF assms(1,2)] assms(3) by (auto simp: base_ok_def)
  have "\<exists>v u. DFMtestMaskEntry T p a t = Inr (v, u) \<and> dfm_ok u
        \<and> (Some d \<in> set ds \<longrightarrow> v = (backref s a \<in> mask_set s p))
        \<and> (Some d \<notin> set ds \<and> tail_default m ?n \<longrightarrow> v = is_set_by_default m)"
    if p: "get_mask p s = Inr m" "mask_base m = b" "d \<in> set (arguments @ vardecs)" "a = VARDEC_OR_ARG_AVIS T d" for p m d a
  proof -
    note loc = located_retained [OF t(5,4) len assms(4) t(7) assms(6) refl p(3,4)]
    have pt: "get_mask p t = Inr m" "get_base (mask_base m) t = Inr y" using t(3,6) p(1,2) by simp_all
    obtain u where u: "DFMtestMaskEntry T p a t = Inr (backref t a \<in> mask_set t p, u)" "dfm_ok u"
      using DFMtestMaskEntry_set [OF t(2) pt loc(1)] by blast
    have "backref t a \<in> mask_set t p \<longleftrightarrow> mbit m (backref t a)"
      using mask_set_eq [OF pt] loc(1) by (simp add: located_def)
    moreover have "Some d \<in> set ds \<longrightarrow> backref s a \<in> mask_set s p \<longleftrightarrow> mbit m (backref t a)"
      using mask_set_eq [OF p(1)] assms(2) p(2) loc(2) by simp
    ultimately show ?thesis using u loc(3) by (auto simp: tail_default_def)
  qed
  then show ?thesis using t(1,2) by blast
qed

theorem DFM_update_keeps_members_witness:
  "\<exists>t v w u1 u2. DFMupdateMaskBase ex_tree 0 [12] [11, 13] ex_dfm = Some (Inr (0, t))
    \<and> DFMtestMaskEntry ex_tree 0 21 t = Inr (True, u1) \<and> DFMtestMaskEntry ex_tree 0 22 t = Inr (False, u2)"
proof -
  let ?x = "\<lparr>mb_num_decls = 3, mb_num_bitfields = 1, mb_decls = full [Some 10, Some 11, Some 12]\<rparr>"
  let ?m = "\<lparr>is_set_by_default = False, num_bitfields = 1, bitfield = full [3], mask_base = 0\<rparr>"
  have x: "get_base 0 ex_dfm = Inr ?x" and m: "get_mask 0 ex_dfm = Inr ?m" by (simp_all add: ex_base ex_masks)
  have ix: "indexed ex_tree [Some 10, Some 11, Some 12] ex_dfm"
    by (simp add: indexed_def All_less_Suc ex_tree_def ex_dfm_def)
  have av: "avis_ok ex_tree A" for A by (simp add: avis_ok_def ex_tree_def)
  obtain t where t: "DFMupdateMaskBase ex_tree 0 [12] [11, 13] ex_dfm = Some (Inr (0, t))"
    "\<forall>p m d a. get_mask p ex_dfm = Inr m \<and> mask_base m = 0 \<and> d \<in> set ([12] @ [11, 13])
        \<and> a = VARDEC_OR_ARG_AVIS ex_tree d \<longrightarrow>
      (\<exists>v u. DFMtestMaskEntry ex_tree p a t = Inr (v, u) \<and> dfm_ok u
        \<and> (Some d \<in> set [Some 10, Some 11, Some 12] \<longrightarrow> v = (backref ex_dfm a \<in> mask_set ex_dfm p))
        \<and> (Some d \<notin> set [Some 10, Some 11, Some 12] \<and> tail_default m (mb_num_decls ?x) \<longrightarrow> v = is_set_by_default m))"
    using DFM_update_keeps_members [OF ex_dfm_ok x _ ix _ av, of "[12]" "[11, 13]"] by (auto simp: int_max_def)
  have "\<exists>u. DFMtestMaskEntry ex_tree 0 21 t = Inr (True, u)"
    using t(2) [rule_format, of 0 ?m 11 21] m ex_dfm_set [of 0] by (auto simp: ex_tree_def ex_dfm_def)
  moreover have "\<exists>u. DFMtestMaskEntry ex_tree 0 22 t = Inr (False, u)"
    using t(2) [rule_format, of 0 ?m 12 22] m ex_dfm_set [of 0] by (auto simp: ex_tree_def ex_dfm_def)
  ultimately show ?thesis using t(1) by blast
qed

end
