(* ===== verification/Spec2Isabelle.thy ===== *)
theory Spec2Isabelle
  imports LUT_Session SCS_Props CT_Props Types_More Type_Errors Prelude Shape Simpletypes Scalars Constants_Basic Constants_Ari Constants_Pred Constants_Index Constants_Struc Constants_Tile
    New_Types Types_Lattice SSI SSI_Rel SSI_Solve SSI_Bounds SSI_Props
    DFM DFM_Sets DFM_Ops DFM_Update DFM_Props
begin

text \<open>
  Verification of the compile-time value and type domains of \<open>sac2c\<close>, the compiler of the
  array language SaC.

  The compiler folds expressions on constants: a constant is a base type, a shape and a flat
  vector of elements in row-major order.  The folding must give exactly the value the
  compiled program would compute, so the constants and their operations are the part of the
  compiler whose errors are silent miscompilations.  The types of the compiler range from known
  values over known shapes and known dimensionalities to arbitrary arrays; their order and its
  least upper bounds decide which programs are accepted and what is inferred of them.

  The theories, in the order in which the code calls them:

    \<^item> \<open>Prelude\<close>: errors as values (\<open>cerr\<close>, \<open>cres\<close>), arrays of C with a bounds
      and initialisation check on every access, counting loops with their proof rules.
    \<^item> \<open>Shape\<close>: \<open>constants/shape.c\<close>, shapes and their operations.
    \<^item> \<open>Simpletypes\<close>: the base types and the function tables generated from
      \<open>src/include/type_info.mac\<close>.
    \<^item> \<open>Scalars\<close>: \<open>constants/zipcv.c\<close>, \<open>cv2cv.c\<close>, \<open>basecv.c\<close>: the
      scalar operations at their C types.
    \<^item> \<open>Constants_Basic\<close>: \<open>constants/constants_basic.c\<close>, the data type
      \<open>const\<close>, its makers, accessors, copies, and the invariant \<open>co_ok\<close>.
    \<^item> \<open>Constants_Ari\<close>: \<open>constants/constants_ari_ops.c\<close>, element-wise operations.
      The locale \<open>pointwise\<close> is the contract of one of them; it is interpreted on the
      sixteen binary operations.
    \<^item> \<open>Constants_Pred\<close>: the tests and the comparison of constants; locale
      \<open>int_test\<close>, interpreted on the seven tests.
    \<^item> \<open>Constants_Index\<close>: index vectors and offsets, the row-major enumeration and the
      fold over all indices.
    \<^item> \<open>Constants_Struc\<close>: \<open>constants/constants_struc_ops.c\<close>, selection, update,
      reshape, concatenation; locale \<open>array_laws\<close>, interpreted on the vector-index and on
      the offset forms of selection and update.
    \<^item> \<open>Constants_Tile\<close>: \<open>take\<close>, \<open>drop\<close> and over-selection.
    \<^item> \<open>New_Types\<close>: \<open>typecheck/new_types.c\<close>, the data structure \<open>ntype\<close>, its
      makers, accessors and predicates, copying, \<open>TYcmpTypes\<close> and \<open>TYlubOfTypes\<close>.
    \<^item> \<open>Types_Lattice\<close>: an abstract type is a base and a level (a value, a shape, a
      dimensionality, a positive dimensionality, anything); the comparison refines inclusion of
      the sets of arrays these stand for, and \<open>TYlubOfTypes\<close> the least upper bound.  An AKD type stands for all
      arrays of its dimensionality, since the comparison ignores the extents it may know, and a level with a value is one
      of integers, characters or truth values (\<open>exact_type\<close>), since \<open>==\<close> on floating point numbers is not identity.
    \<^item> \<open>Types_More\<close>: products of types, nesting of user-defined types, eliminating values.
    \<^item> \<open>Type_Errors\<close>: \<open>typecheck/type_errors.c\<close>.  The buffer of error messages is the state of a
      state monad \<open>tem\<close>; the descriptions of applications (\<open>te_info\<close>); every assurance, and the
      table of constant operations of \<open>tree/prf_info.mac\<close>.
    \<^item> \<open>CT_Prf\<close>, \<open>CT_Prf_Struc\<close>, \<open>CT_Prf_Ari\<close>: \<open>typecheck/ct_prf.c\<close>, the type functions of the
      primitives, each as the sequence of assurances and branches it is, and the table that
      \<open>typecheck/new_typecheck.c\<close> generates from \<open>prf_info.mac\<close>.
    \<^item> \<open>CT_Inhab\<close>: which constants are arrays of a type.  \<open>CT_Sound\<close> and \<open>CT_Sound_Struc\<close>: what a
      constant operation returns is an array of the type that the type function returns; locales
      \<open>elementwise\<close> and \<open>elementwise1\<close> carry the proof for binary and unary operations and are
      interpreted on the model's operations.
    \<^item> \<open>CT_Buffer\<close>: every type function leaves the error buffer empty.  \<open>CT_Checks\<close>: what the
      assurances decide, and the outcomes \<open>confirmed\<close> and \<open>rejected\<close> of a check.
      \<open>CT_Props\<close>: the theorems on type functions.
    \<^item> \<open>SSI\<close>: \<open>typecheck/ssi.c\<close>, the solver of subtype constraints: type variables with
      their bounds, their related variables in growing arrays, and the handlers of assumptions.
    \<^item> \<open>SSI_Rel\<close>: the stored relation stays the transitive closure of the pairs posed.
    \<^item> \<open>SSI_Solve\<close>: constraints, solutions, least solutions; locale \<open>type_order\<close>, interpreted
      on the order of \<open>Types_Lattice\<close>, holds the lemmas on pushing a bound along the relation.
    \<^item> \<open>SSI_Bounds\<close> and \<open>SSI_Props\<close>: what \<open>NewMin\<close> and \<open>NewMax\<close> do to the bounds, the
      invariant of runs of accepted operations (\<open>ssi_run\<close>), and the theorems on the solver.  A run has no attached
      assumptions; an upper bound that \<open>SSInewMax\<close> accepts and forgets is no constraint of the run (rule \<open>lost\<close>).
    \<^item> \<open>DFM\<close>: \<open>tree/DataFlowMask.c\<close>, data flow masks: bases and masks in a store of objects, with
      the sharing of bases between masks, growing on use, and the static variables of iterations.
    \<^item> \<open>DFM_Sets\<close>: the invariant, masks as sets, and the combinations of two masks; locale
      \<open>bitwise\<close>, interpreted on the six word operations.  \<open>DFM_Ops\<close>: operations on one mask, with
      locale \<open>bit_update\<close> for the updates of an entry.  \<open>DFM_Update\<close>: making, repairing and updating
      a base.  \<open>DFM_Props\<close>: the theorems; the effect of every operation is stated on sets, and that
      it keeps the members of all other masks.
    \<^item> \<open>LUT\<close>: \<open>tree/LookUpTable.c\<close>, hash tables from pointers and strings to pointers: tables, fragments of
      collision tables and strings in a memory of objects (\<open>lutmem\<close>), with the static variables of the search.  The
      addresses, from which the hash keys of pointers are computed, are the parameter \<open>A\<close>; the functions mapped or
      folded over a table are pure.
    \<^item> \<open>LUT_Chain\<close>: chains of fragments and how they change.  \<open>LUT_Tables\<close>: the functions on one collision table;
      locale \<open>key_match\<close> is the contract of a comparison, interpreted on \<open>IsEqual_Pointer\<close> and on
      \<open>IsEqual_String\<close>.  \<open>LUT_Free\<close>: emptying a collision table.
    \<^item> \<open>LUT_Inv\<close>: the invariant of the memory (\<open>lut_mem\<close>, \<open>holds\<close>): every fragment and every copy of a string
      belongs to one collision table, and every key is in the table of its hash key.  \<open>LUT_Abs\<close>: the
      abstract state, maps from keys to the lists of their values; \<open>models\<close> relates it to the memory.
    \<^item> \<open>LUT_Ops\<close>, \<open>LUT_Whole\<close>, \<open>LUT_Remove\<close>, \<open>LUT_Copy\<close>: every function implements its operation on the
      abstract state.  \<open>LUT_Search\<close>: what single calls that continue a search do, also after its end.
      \<open>LUT_Props\<close>: the theorems on each function, and where the code is wrong.
      \<open>LUT_Session\<close>: the step relation of all calls in any order, in which a search is continued only directly after
      a call that found a value; no call fails and no memory is lost.  The theorems on insertion ask that no collision table has reached \<open>INT_MAX\<close> pairs (\<open>lut_room\<close>).
    \<^item> \<open>CT_Sound_Array\<close>: the type function of array constructors, which the simplifications below call.
    \<^item> \<open>Syntax_Tree\<close>: the expressions of flattened code (\<open>node\<close>) and the descriptions of variables
      (\<open>avis\<close>: type, defining assignment, lower and upper bound), a heap of these, and the conversions between
      constants and expressions of \<open>constants_basic.c\<close> and \<open>tree/tree_utils.c\<close>.
    \<^item> \<open>Pattern_Match\<close>: \<open>tree/pattern_match.c\<close>, patterns, attributes and the matcher in its modes (which
      definitions it follows).  \<open>Compare_Tree\<close>: \<open>tree/compare_tree.c\<close>, the literal comparison.
    \<^item> \<open>SCS_Tests\<close>, \<open>SCS_Prf\<close>, \<open>SCS_Guards\<close>: \<open>stdopt/symbolic_constant_simplification.c\<close>, the tests on
      arguments, the function of every primitive, and the checks and guards, with the decisions of comparisons by
      bounds of \<open>stdopt/saa_constant_folding.c\<close> and the table that \<open>prf_info.mac\<close> defines.
    \<^item> \<open>SCS_Sem\<close>: the meaning of expressions, which is the arrays they denote when their variables have values
      (\<open>vals\<close>); environments for which the descriptions of the variables are true (\<open>consistent\<close>); expressions with
      a given value (\<open>good\<close>).
    \<^item> \<open>SCS_Follow\<close>, \<open>SCS_Types\<close>, \<open>SCS_Const\<close>, \<open>SCS_Match\<close>, \<open>SCS_Facts\<close>: following definitions keeps the value,
      a computed type holds it, a constant that is found is the value, and what a match or a test says of values.
      \<open>SCS_Ints\<close>: elementwise primitives on arrays of integers and of truth values.
    \<^item> \<open>SCS_Sound\<close>, \<open>SCS_Sound_Rel\<close>, \<open>SCS_Sound_Bounds\<close>, \<open>SCS_Sound_Dyadic\<close>, \<open>SCS_Sound_Bin\<close>: for each binary
      primitive, what replaces an application has its value.  \<open>SCS_Props\<close>: the theorems, and the applications that
      are replaced by something else.  \<open>scs_covered\<close> lists what the soundness theorem includes: all but the
      remainder of two scalars and \<open>ge\<close>, \<open>lt\<close>, \<open>min\<close> and \<open>max\<close> of two vectors, which rest on decisions
      that are shown to be wrong.  The theorem is on integers and truth values,
      because \<open>x + 0\<close> and \<open>x = x\<close> are not exact laws of floating point arithmetic.

  Conventions.  An assertion that fails is the value \<open>Inl (AssertFail \<dots>)\<close>, an access
  outside an array or of a cell never written, an overflow of a signed computation and a
  division by zero are the other values of \<open>cerr\<close>; a theorem that says \<open>= Inr x\<close>
  therefore also says that none of these happens.  Loops that end when an index counter is
  exhausted, and the loop that takes all values from a lookup table, are partial functions into \<open>option\<close>, and theorems about them show that they
  return.  \<open>size_t\<close> has 64 bits and \<open>int\<close> has 32; the operations of floating point
  arithmetic are the parameter \<open>fops\<close>.

  Not modelled: freeing memory (\<open>SHfreeShape\<close>, \<open>COfreeConstant\<close>), printing and
  serialisation of constants; of the lookup table, printing, the statistics on hash keys (\<open>ComputeHashStat\<close>) and
  \<open>LUTtouchLut\<close>, which marks memory for the leak checker.  A message of the type checker is its format with its arguments not expanded,
  because the expansion is that of \<open>vsnprintf\<close>.  Of the type system the model leaves out the type functions
  \<open>cast\<close> and \<open>nested_shape\<close>, which need the table of user-defined types, the
  function types and the dispatch of overloaded functions, the traversal that applies the type
  functions to a program, and \<open>TEextendedAbort\<close>, which prints a call chain.  Of \<open>saa_constant_folding.c\<close> the
  model has the decisions of comparisons by bounds; two of its other functions compare addresses of
  identifier nodes, which the expressions of the model do not have.  The traversals that apply
  the simplifications to a program, structural constant folding, with-loops, the scanner and parser, the
  code generator and the runtime system are outside the development.
\<close>

end
